(* ===== verification/Prelude.thy ===== *)
theory Prelude imports Main "HOL-Library.Word"
begin

text \<open>
  Shared vocabulary of the development: the C integer types as fixed-width words, byte strings,
  the few pieces of the C library that the code formats text with, and generic list and option
  facts that several components use.

  Signed 64-bit values (timestamps, retention values) are kept as 64-bit words, exactly the bits
  the code stores; a signed comparison in the source is written with \<open>sint\<close>.
  A C string is the list of its bytes before the terminating NUL.
\<close>

type_synonym byte = "8 word"
type_synonym bytes = "byte list"
type_synonym u16 = "16 word"
type_synonym u32 = "32 word"
type_synonym u64 = "64 word"
type_synonym i32 = "32 word"
type_synonym i64 = "64 word"

named_theorems table_simps \<open>rewrites for the keyed tables\<close>
named_theorems wire_simps \<open>rewrites for the wire encodings\<close>
named_theorems txn_simps \<open>rewrites for the transaction helpers\<close>

section \<open>Text formatting used by the code\<close>

definition cstr :: "string \<Rightarrow> bytes" where
  "cstr s = map of_char s"

fun dec_nat :: "nat \<Rightarrow> bytes" where
  "dec_nat n = (if n < 10 then [of_nat (48 + n)] else dec_nat (n div 10) @ [of_nat (48 + n mod 10)])"

declare dec_nat.simps [simp del]

definition hex_digit :: "bool \<Rightarrow> nat \<Rightarrow> byte" where
  "hex_digit upper d = (if d < 10 then of_nat (48 + d) else of_nat ((if upper then 55 else 87) + d))"

fun hex_fixed :: "bool \<Rightarrow> nat \<Rightarrow> nat \<Rightarrow> bytes" where
  "hex_fixed upper 0 n = []"
| "hex_fixed upper (Suc w) n = hex_fixed upper w (n div 16) @ [hex_digit upper (n mod 16)]"

text \<open>\<open>snprintf\<close> into a buffer of \<open>sz\<close> bytes keeps at most \<open>sz - 1\<close> bytes of the text.\<close>

definition snprintf_cut :: "nat \<Rightarrow> bytes \<Rightarrow> bytes" where
  "snprintf_cut sz s = take (sz - 1) s"

text \<open>The conversions \<open>%u\<close> and \<open>%.<n>s\<close>; \<open>squote\<close> is the character 39.\<close>

definition fmt_u :: "'a::len word \<Rightarrow> bytes" where
  "fmt_u n = dec_nat (unat n)"

definition fmt_s :: "nat \<Rightarrow> bytes \<Rightarrow> bytes" where
  "fmt_s n s = take n s"

definition squote :: bytes where
  "squote = [39]"

text \<open>\<open>strnlen\<close>/\<open>strlen\<close>: the prefix before the first NUL.\<close>

definition c_string :: "bytes \<Rightarrow> bytes" where
  "c_string s = takeWhile (\<lambda>b. b \<noteq> 0) s"

lemma length_snprintf_cut: "0 < sz \<Longrightarrow> length (snprintf_cut sz s) < sz"
  by (simp add: snprintf_cut_def)

lemma length_hex_fixed [simp]: "length (hex_fixed upper w n) = w"
  by (induction w arbitrary: n) simp_all

section \<open>Signed readings of words\<close>

lemma sint_of_nat_small_64:
  "n < 2 ^ 63 \<Longrightarrow> sint (of_nat n :: i64) = int n"
  by (simp add: signed_of_nat signed_take_bit_int_eq_self)

lemma sint_of_nat_small_32:
  "n < 2 ^ 31 \<Longrightarrow> sint (of_nat n :: i32) = int n"
  by (simp add: signed_of_nat signed_take_bit_int_eq_self)

section \<open>Generic list facts\<close>

lemma find_Some_iff_distinct:
  assumes "distinct (map key xs)"
  shows "find (\<lambda>r. key r = k) xs = Some r \<longleftrightarrow> r \<in> set xs \<and> key r = k"
  using assms
proof (induction xs)
  case Nil
  then show ?case by simp
next
  case (Cons x xs)
  then show ?case by (auto simp: image_iff)
qed

lemma find_None_iff_key:
  "find (\<lambda>r. key r = k) xs = None \<longleftrightarrow> k \<notin> key ` set xs"
  by (auto simp: find_None_iff)

lemma find_SomeD: "find P xs = Some x \<Longrightarrow> P x \<and> x \<in> set xs"
  by (induction xs) (auto split: if_splits)

lemma take_all_of_nat_bound: "length xs \<le> n \<Longrightarrow> take n xs = xs"
  by simp

lemma map_key_update:
  assumes "\<And>r. key (f r) = key r"
  shows "map key (map (\<lambda>r. if P r then f r else r) xs) = map key xs"
  using assms by simp

lemma distinct_map_filter: "distinct (map key xs) \<Longrightarrow> distinct (map key (filter P xs))"
  by (induction xs) auto

end
