(* ===== verification/Keyed_Tables.thy ===== *)
theory Keyed_Tables imports Prelude
begin

text \<open>
  The relational tables of the registrar that have a \<open>PRIMARY KEY\<close> (\<open>src/src/group_registrar/db.c\<close>).
  A table is the list of its rows in insertion order.  The SQL verbs the code uses on such a table
  are written once, for an arbitrary key function: \<open>SELECT ... WHERE key=$1\<close>, \<open>INSERT\<close> (refused
  when the key is present), \<open>INSERT OR REPLACE\<close>, \<open>INSERT OR IGNORE\<close>, \<open>UPDATE ... WHERE\<close>
  and \<open>DELETE ... WHERE\<close>.  The locale \<open>keyed_table\<close> states what the rest of the registrar
  relies on; the components interpret it for their own tables.
\<close>

section \<open>The interface\<close>

locale keyed_table =
  fixes key :: "'r \<Rightarrow> 'k"
    and get :: "'k \<Rightarrow> 't \<Rightarrow> 'r option"
    and ins :: "'r \<Rightarrow> 't \<Rightarrow> 't option"
    and ups :: "'r \<Rightarrow> 't \<Rightarrow> 't"
    and upd :: "'k \<Rightarrow> ('r \<Rightarrow> 'r) \<Rightarrow> 't \<Rightarrow> 't"
    and del :: "'k \<Rightarrow> 't \<Rightarrow> 't"
    and inv :: "'t \<Rightarrow> bool"
  assumes get_key: "get k t = Some r \<Longrightarrow> key r = k"
    and ins_None: "ins r t = None \<longleftrightarrow> get (key r) t \<noteq> None"
    and get_ins: "ins r t = Some t' \<Longrightarrow> get k t' = (if k = key r then Some r else get k t)"
    and get_ups: "inv t \<Longrightarrow> get k (ups r t) = (if k = key r then Some r else get k t)"
    and get_upd: "(\<And>r. key (f r) = key r) \<Longrightarrow>
        get k (upd k' f t) = (if k = k' then map_option f (get k t) else get k t)"
    and get_del: "get k (del k' t) = (if k = k' then None else get k t)"
    and inv_ins: "inv t \<Longrightarrow> ins r t = Some t' \<Longrightarrow> inv t'"
    and inv_ups: "inv t \<Longrightarrow> inv (ups r t)"
    and inv_upd: "(\<And>r. key (f r) = key r) \<Longrightarrow> inv t \<Longrightarrow> inv (upd k f t)"
    and inv_del: "inv t \<Longrightarrow> inv (del k t)"
begin

lemma ins_fresh: "get (key r) t = None \<Longrightarrow> \<exists>t'. ins r t = Some t'"
  using ins_None [of r t] by (cases "ins r t") auto

lemma ins_twice_refused:
  assumes "ins r t = Some t'" and "key r' = key r"
  shows "ins r' t' = None"
  using get_ins [OF assms(1)] assms(2) by (simp add: ins_None)

lemma get_after_ins [simp]: "ins r t = Some t' \<Longrightarrow> get (key r) t' = Some r"
  by (simp add: get_ins)

lemma ins_keeps_rows:
  assumes "ins r t = Some t'" and "get k t = Some s"
  shows "get k t' = Some s"
proof -
  have "get (key r) t = None" using assms(1) ins_None [of r t] by auto
  with assms(2) have "k \<noteq> key r" by auto
  then show ?thesis using assms by (simp add: get_ins)
qed

lemma del_undoes_ins:
  "ins r t = Some t' \<Longrightarrow> get k (del (key r) t') = get k t"
  using ins_None [of r t] by (auto simp: get_del get_ins)

lemma ins_after_del: "\<exists>t'. ins r (del (key r) t) = Some t'"
  by (rule ins_fresh) (simp add: get_del)

lemma ups_absorbs: "inv t \<Longrightarrow> key r = key r' \<Longrightarrow> get k (ups r' (ups r t)) = get k (ups r' t)"
  by (simp add: get_ups inv_ups)

lemmas keyed_laws = get_ins get_ups get_del

end

section \<open>The implementation: rows in insertion order\<close>

definition tbl_get :: "('r \<Rightarrow> 'k) \<Rightarrow> 'k \<Rightarrow> 'r list \<Rightarrow> 'r option" where
  "tbl_get key k t = find (\<lambda>r. key r = k) t"

definition tbl_insert :: "('r \<Rightarrow> 'k) \<Rightarrow> 'r \<Rightarrow> 'r list \<Rightarrow> 'r list option" where
  "tbl_insert key r t = (if key r \<in> key ` set t then None else Some (t @ [r]))"

definition tbl_insert_ignore :: "('r \<Rightarrow> 'k) \<Rightarrow> 'r \<Rightarrow> 'r list \<Rightarrow> 'r list" where
  "tbl_insert_ignore key r t = (if key r \<in> key ` set t then t else t @ [r])"

definition tbl_replace :: "('r \<Rightarrow> 'k) \<Rightarrow> 'r \<Rightarrow> 'r list \<Rightarrow> 'r list" where
  "tbl_replace key r t =
     (if key r \<in> key ` set t then map (\<lambda>s. if key s = key r then r else s) t else t @ [r])"

definition tbl_update :: "('r \<Rightarrow> bool) \<Rightarrow> ('r \<Rightarrow> 'r) \<Rightarrow> 'r list \<Rightarrow> 'r list" where
  "tbl_update P f t = map (\<lambda>r. if P r then f r else r) t"

definition tbl_delete :: "('r \<Rightarrow> bool) \<Rightarrow> 'r list \<Rightarrow> 'r list" where
  "tbl_delete P t = filter (\<lambda>r. \<not> P r) t"

definition tbl_count :: "('r \<Rightarrow> bool) \<Rightarrow> 'r list \<Rightarrow> nat" where
  "tbl_count P t = length (filter P t)"

definition tbl_inv :: "('r \<Rightarrow> 'k) \<Rightarrow> 'r list \<Rightarrow> bool" where
  "tbl_inv key t \<longleftrightarrow> distinct (map key t)"

lemma tbl_get_Nil [simp]: "tbl_get key k [] = None"
  by (simp add: tbl_get_def)

lemma tbl_get_Cons [simp]:
  "tbl_get key k (r # t) = (if key r = k then Some r else tbl_get key k t)"
  by (simp add: tbl_get_def)

lemma tbl_get_append:
  "tbl_get key k (s @ t) = (case tbl_get key k s of None \<Rightarrow> tbl_get key k t | Some r \<Rightarrow> Some r)"
  by (induction s) simp_all

lemma tbl_get_key: "tbl_get key k t = Some r \<Longrightarrow> key r = k"
  by (induction t) (auto split: if_splits)

lemma tbl_get_mem: "tbl_get key k t = Some r \<Longrightarrow> r \<in> set t"
  by (induction t) (auto split: if_splits)

lemma tbl_get_None: "tbl_get key k t = None \<longleftrightarrow> k \<notin> key ` set t"
  by (induction t) auto

lemma tbl_get_Some_iff:
  "tbl_inv key t \<Longrightarrow> tbl_get key k t = Some r \<longleftrightarrow> r \<in> set t \<and> key r = k"
  unfolding tbl_get_def tbl_inv_def by (rule find_Some_iff_distinct)

lemma tbl_get_snoc:
  "key r \<notin> key ` set t \<Longrightarrow> tbl_get key k (t @ [r]) = (if k = key r then Some r else tbl_get key k t)"
  by (induction t) auto

lemma tbl_get_insert_ignore:
  "tbl_get key k (tbl_insert_ignore key r t) =
     (if k = key r \<and> key r \<notin> key ` set t then Some r else tbl_get key k t)"
  by (simp add: tbl_insert_ignore_def tbl_get_snoc)

lemma tbl_get_update:
  assumes "\<And>r. key (f r) = key r"
  shows "tbl_get key k (tbl_update P f t) =
     map_option (\<lambda>r. if P r then f r else r) (tbl_get key k t)"
  by (induction t) (auto simp: tbl_update_def assms)

lemma tbl_get_delete_key:
  "tbl_get key k (tbl_delete (\<lambda>r. key r = k') t) = (if k = k' then None else tbl_get key k t)"
  by (induction t) (auto simp: tbl_delete_def)

lemma tbl_get_replace:
  "tbl_get key k (tbl_replace key r t) = (if k = key r then Some r else tbl_get key k t)"
proof (cases "key r \<in> key ` set t")
  case True
  have "tbl_get key k (map (\<lambda>s. if key s = key r then r else s) t) =
      (if k = key r \<and> key r \<in> key ` set t then Some r else tbl_get key k t)"
    by (induction t) auto
  with True show ?thesis by (simp add: tbl_replace_def)
next
  case False
  then show ?thesis by (simp add: tbl_replace_def tbl_get_snoc)
qed

lemma tbl_inv_update:
  "(\<And>r. key (f r) = key r) \<Longrightarrow> tbl_inv key (tbl_update P f t) = tbl_inv key t"
proof -
  assume f: "\<And>r. key (f r) = key r"
  have "map key (tbl_update P f t) = map key t" by (induction t) (simp_all add: tbl_update_def f)
  then show ?thesis by (simp add: tbl_inv_def)
qed

lemma tbl_inv_delete: "tbl_inv key t \<Longrightarrow> tbl_inv key (tbl_delete P t)"
  by (simp add: tbl_inv_def tbl_delete_def distinct_map_filter)

lemma tbl_inv_insert: "tbl_inv key t \<Longrightarrow> tbl_insert key r t = Some t' \<Longrightarrow> tbl_inv key t'"
  by (auto simp: tbl_inv_def tbl_insert_def split: if_splits)

lemma tbl_inv_insert_ignore: "tbl_inv key t \<Longrightarrow> tbl_inv key (tbl_insert_ignore key r t)"
  by (auto simp: tbl_inv_def tbl_insert_ignore_def)

lemma tbl_inv_replace: "tbl_inv key t \<Longrightarrow> tbl_inv key (tbl_replace key r t)"
proof -
  have "map key (map (\<lambda>s. if key s = key r then r else s) t) = map key t"
    by (induction t) auto
  then show "tbl_inv key t \<Longrightarrow> tbl_inv key (tbl_replace key r t)"
    by (auto simp: tbl_inv_def tbl_replace_def simp del: map_map)
qed

lemma set_tbl_delete [simp]: "set (tbl_delete P t) = {r \<in> set t. \<not> P r}"
  by (auto simp: tbl_delete_def)

lemma length_tbl_update [simp]: "length (tbl_update P f t) = length t"
  by (simp add: tbl_update_def)

lemmas tbl_inv_intros = tbl_inv_delete tbl_inv_insert tbl_inv_insert_ignore tbl_inv_replace

text \<open>Every key function gives a keyed table; the components instantiate this one fact.\<close>

lemma list_keyed_table:
  "keyed_table key (tbl_get key) (tbl_insert key) (tbl_replace key)
     (\<lambda>k. tbl_update (\<lambda>r. key r = k)) (\<lambda>k. tbl_delete (\<lambda>r. key r = k)) (tbl_inv key)"
proof
  fix k t r t' f k'
  show "tbl_get key k t = Some r \<Longrightarrow> key r = k" by (rule tbl_get_key)
  show "(tbl_insert key r t = None) = (tbl_get key (key r) t \<noteq> None)"
    by (simp add: tbl_insert_def tbl_get_None)
  show "tbl_insert key r t = Some t' \<Longrightarrow>
      tbl_get key k t' = (if k = key r then Some r else tbl_get key k t)"
    by (auto simp: tbl_insert_def tbl_get_snoc split: if_splits)
  show "tbl_get key k (tbl_replace key r t) = (if k = key r then Some r else tbl_get key k t)"
    by (rule tbl_get_replace)
  show "tbl_get key k (tbl_delete (\<lambda>r. key r = k') t) = (if k = k' then None else tbl_get key k t)"
    by (rule tbl_get_delete_key)
  show "tbl_inv key t \<Longrightarrow> tbl_insert key r t = Some t' \<Longrightarrow> tbl_inv key t'"
    by (rule tbl_inv_insert)
  show "tbl_inv key t \<Longrightarrow> tbl_inv key (tbl_replace key r t)" by (rule tbl_inv_replace)
  show "tbl_inv key t \<Longrightarrow> tbl_inv key (tbl_delete (\<lambda>r. key r = k) t)" by (rule tbl_inv_delete)
next
  fix f k k' t
  assume f: "\<And>r. key (f r) = key r"
  have "tbl_get key k (tbl_update (\<lambda>r. key r = k') f t) =
      map_option (\<lambda>r. if key r = k' then f r else r) (tbl_get key k t)"
    by (rule tbl_get_update) (rule f)
  then show "tbl_get key k (tbl_update (\<lambda>r. key r = k') f t) =
      (if k = k' then map_option f (tbl_get key k t) else tbl_get key k t)"
    by (cases "tbl_get key k t") (auto dest: tbl_get_key)
next
  fix f k t
  assume "\<And>r. key (f r) = key r" and "tbl_inv key t"
  then show "tbl_inv key (tbl_update (\<lambda>r. key r = k) f t)" by (simp add: tbl_inv_update)
qed

end
