(* ===== verification/Registrar_Types.thy ===== *)
theory Registrar_Types imports Prelude
begin

text \<open>
  The data types of the Group Registrar (\<open>src/include/group_registrar.h\<close>, the private structs of
  \<open>src/src/group_registrar/internal.h\<close>).  C structs are records, one field per member; an array of
  bytes is a byte list whose length is fixed by the well-formedness predicates; a character array
  is the bytes before its NUL; a pointer with a length is an \<open>option\<close>.
  Enumerations that only the code itself produces (\<open>gr_error_t\<close>, \<open>gr_join_state_t\<close>) are datatypes.
  Enumerations that also arrive from the database or the wire as arbitrary 32-bit integers (peer
  status, change type, server type, group type) keep their integer, with a name for each code.
\<close>

section \<open>Sizes and limits\<close>

abbreviation (input) GR_PEER_ID_LEN :: nat where "GR_PEER_ID_LEN \<equiv> 32"
abbreviation (input) GR_PUBLIC_KEY_LEN :: nat where "GR_PUBLIC_KEY_LEN \<equiv> 2592"
abbreviation (input) GR_SIGN_LEN :: nat where "GR_SIGN_LEN \<equiv> 4627"
abbreviation (input) GR_HASH_LEN :: nat where "GR_HASH_LEN \<equiv> 128"
abbreviation (input) GR_MAX_ROLES :: u32 where "GR_MAX_ROLES \<equiv> 50"
abbreviation (input) GR_MAX_IP_LEN :: nat where "GR_MAX_IP_LEN \<equiv> 46"
abbreviation (input) GR_MAX_NAME_LEN :: nat where "GR_MAX_NAME_LEN \<equiv> 128"
abbreviation (input) GR_SERVICE_HASH_LEN :: nat where "GR_SERVICE_HASH_LEN \<equiv> 128"
abbreviation (input) GR_EPOCH_KEY_LEN :: nat where "GR_EPOCH_KEY_LEN \<equiv> 128"
abbreviation (input) GR_KEM_PUBLIC_KEY_LEN :: nat where "GR_KEM_PUBLIC_KEY_LEN \<equiv> 1568"
abbreviation (input) GR_KEM_SECRET_KEY_LEN :: nat where "GR_KEM_SECRET_KEY_LEN \<equiv> 3168"
abbreviation (input) GR_DETAIL_LEN :: nat where "GR_DETAIL_LEN \<equiv> 256"
abbreviation (input) GR_JOIN_NONCE_LEN :: nat where "GR_JOIN_NONCE_LEN \<equiv> 32"
abbreviation (input) GR_JOIN_MIN_QUORUM :: u32 where "GR_JOIN_MIN_QUORUM \<equiv> 3"
abbreviation (input) GR_JOIN_MAX_QUORUM :: u32 where "GR_JOIN_MAX_QUORUM \<equiv> 10"
abbreviation (input) GR_JOIN_MAX_TRACKED_PEERS :: nat where "GR_JOIN_MAX_TRACKED_PEERS \<equiv> 64"
abbreviation (input) GR_JOIN_SMALL_GROUP_THRESHOLD :: u32 where "GR_JOIN_SMALL_GROUP_THRESHOLD \<equiv> 5"
abbreviation (input) GR_INVITE_MAX_BOOTSTRAP :: nat where "GR_INVITE_MAX_BOOTSTRAP \<equiv> 5"
abbreviation (input) GR_AUDIT_MAX_BYTES :: nat where "GR_AUDIT_MAX_BYTES \<equiv> 26214400"
abbreviation (input) GR_AUDIT_EST_ROW_BYTES :: nat where "GR_AUDIT_EST_ROW_BYTES \<equiv> 500"
abbreviation (input) GR_WEBAPP_PERM_DATA_MAX :: nat where "GR_WEBAPP_PERM_DATA_MAX \<equiv> 1048576"
abbreviation (input) GR_WEBAPP_ROLE_MASK_MAX :: nat where "GR_WEBAPP_ROLE_MASK_MAX \<equiv> 3200"
abbreviation (input) GR_INVITE_VERSION :: u32 where "GR_INVITE_VERSION \<equiv> 3"

section \<open>Enumerations\<close>

datatype gr_error_t =
    GR_OK | GR_ERR_INVALID_PARAM | GR_ERR_NOT_FOUND | GR_ERR_ALREADY_EXISTS
  | GR_ERR_UNAUTHORIZED | GR_ERR_SIGNATURE_INVALID | GR_ERR_CRYPTO | GR_ERR_DB
  | GR_ERR_SIZE_EXCEEDED | GR_ERR_ROLE_LIMIT | GR_ERR_EPOCH_MISMATCH | GR_ERR_SERIALIZATION
  | GR_ERR_OUT_OF_MEMORY | GR_ERR_INVITE_EXPIRED | GR_ERR_INVITE_INVALID
  | GR_ERR_MERGE_CONFLICT | GR_ERR_JOIN_UNVERIFIED | GR_ERR_JOIN_FAILED
  | GR_ERR_JOIN_INVITER_EXCLUDED

datatype gr_join_state_t =
  GR_JOIN_NONE | GR_JOIN_PROVISIONAL | GR_JOIN_VERIFIED | GR_JOIN_FAILED

abbreviation (input) GR_GROUP_PRIVATE :: u32 where "GR_GROUP_PRIVATE \<equiv> 0"
abbreviation (input) GR_GROUP_PUBLIC :: u32 where "GR_GROUP_PUBLIC \<equiv> 1"

abbreviation (input) GR_PERM_NONE :: u32 where "GR_PERM_NONE \<equiv> 0"
abbreviation (input) GR_PERM_KICK_MEMBER :: u32 where "GR_PERM_KICK_MEMBER \<equiv> 1"
abbreviation (input) GR_PERM_BAN_MEMBER :: u32 where "GR_PERM_BAN_MEMBER \<equiv> 2"
abbreviation (input) GR_PERM_INVITE_MEMBER :: u32 where "GR_PERM_INVITE_MEMBER \<equiv> 4"
abbreviation (input) GR_PERM_ADD_WEBAPP :: u32 where "GR_PERM_ADD_WEBAPP \<equiv> 8"
abbreviation (input) GR_PERM_REMOVE_WEBAPP :: u32 where "GR_PERM_REMOVE_WEBAPP \<equiv> 16"
abbreviation (input) GR_PERM_EDIT_ROLES :: u32 where "GR_PERM_EDIT_ROLES \<equiv> 32"
abbreviation (input) GR_PERM_EDIT_RETENTION :: u32 where "GR_PERM_EDIT_RETENTION \<equiv> 64"
abbreviation (input) GR_PERM_EDIT_SERVERS :: u32 where "GR_PERM_EDIT_SERVERS \<equiv> 128"
abbreviation (input) GR_PERM_ROTATE_EPOCH :: u32 where "GR_PERM_ROTATE_EPOCH \<equiv> 256"
abbreviation (input) GR_PERM_SIGN_REGISTRAR :: u32 where "GR_PERM_SIGN_REGISTRAR \<equiv> 512"
abbreviation (input) GR_PERM_SET_GROUP_ICON :: u32 where "GR_PERM_SET_GROUP_ICON \<equiv> 1024"
abbreviation (input) GR_PERM_SET_WEBAPP_ROLES :: u32 where "GR_PERM_SET_WEBAPP_ROLES \<equiv> 2048"
abbreviation (input) GR_PERM_OWNER :: u32 where "GR_PERM_OWNER \<equiv> 0xFFFFFFFF"

abbreviation (input) GR_PEER_ACTIVE :: u32 where "GR_PEER_ACTIVE \<equiv> 0"
abbreviation (input) GR_PEER_KICKED :: u32 where "GR_PEER_KICKED \<equiv> 1"
abbreviation (input) GR_PEER_BANNED :: u32 where "GR_PEER_BANNED \<equiv> 2"
abbreviation (input) GR_PEER_LEFT :: u32 where "GR_PEER_LEFT \<equiv> 3"
abbreviation (input) GR_PEER_STATUS_ANY :: u32 where "GR_PEER_STATUS_ANY \<equiv> 0xFFFFFFFF"

abbreviation (input) GR_CHANGE_PEER_ADDED :: u32 where "GR_CHANGE_PEER_ADDED \<equiv> 1"
abbreviation (input) GR_CHANGE_PEER_REMOVED :: u32 where "GR_CHANGE_PEER_REMOVED \<equiv> 2"
abbreviation (input) GR_CHANGE_PEER_KICKED :: u32 where "GR_CHANGE_PEER_KICKED \<equiv> 3"
abbreviation (input) GR_CHANGE_PEER_BANNED :: u32 where "GR_CHANGE_PEER_BANNED \<equiv> 4"
abbreviation (input) GR_CHANGE_PEER_ADDRESS :: u32 where "GR_CHANGE_PEER_ADDRESS \<equiv> 5"
abbreviation (input) GR_CHANGE_PEER_ROLE_CHANGED :: u32 where "GR_CHANGE_PEER_ROLE_CHANGED \<equiv> 6"
abbreviation (input) GR_CHANGE_ROLE_ADDED :: u32 where "GR_CHANGE_ROLE_ADDED \<equiv> 7"
abbreviation (input) GR_CHANGE_ROLE_REMOVED :: u32 where "GR_CHANGE_ROLE_REMOVED \<equiv> 8"
abbreviation (input) GR_CHANGE_ROLE_MODIFIED :: u32 where "GR_CHANGE_ROLE_MODIFIED \<equiv> 9"
abbreviation (input) GR_CHANGE_WEBAPP_ADDED :: u32 where "GR_CHANGE_WEBAPP_ADDED \<equiv> 10"
abbreviation (input) GR_CHANGE_WEBAPP_REMOVED :: u32 where "GR_CHANGE_WEBAPP_REMOVED \<equiv> 11"
abbreviation (input) GR_CHANGE_SERVER_ADDED :: u32 where "GR_CHANGE_SERVER_ADDED \<equiv> 12"
abbreviation (input) GR_CHANGE_SERVER_REMOVED :: u32 where "GR_CHANGE_SERVER_REMOVED \<equiv> 13"
abbreviation (input) GR_CHANGE_EPOCH_ROTATED :: u32 where "GR_CHANGE_EPOCH_ROTATED \<equiv> 14"
abbreviation (input) GR_CHANGE_RETENTION_SET :: u32 where "GR_CHANGE_RETENTION_SET \<equiv> 15"
abbreviation (input) GR_CHANGE_REGISTRAR_SIGNED :: u32 where "GR_CHANGE_REGISTRAR_SIGNED \<equiv> 16"
abbreviation (input) GR_CHANGE_INVITE_CREATED :: u32 where "GR_CHANGE_INVITE_CREATED \<equiv> 17"
abbreviation (input) GR_CHANGE_INVITE_USED :: u32 where "GR_CHANGE_INVITE_USED \<equiv> 18"
abbreviation (input) GR_CHANGE_INVITE_INVALIDATED :: u32 where "GR_CHANGE_INVITE_INVALIDATED \<equiv> 19"
abbreviation (input) GR_CHANGE_GROUP_ICON_SET :: u32 where "GR_CHANGE_GROUP_ICON_SET \<equiv> 20"
abbreviation (input) GR_CHANGE_GROUP_ICON_REMOVED :: u32 where "GR_CHANGE_GROUP_ICON_REMOVED \<equiv> 21"
abbreviation (input) GR_CHANGE_BOOT_IP_BLOCKED :: u32 where "GR_CHANGE_BOOT_IP_BLOCKED \<equiv> 22"
abbreviation (input) GR_CHANGE_WEBAPP_MODIFIED :: u32 where "GR_CHANGE_WEBAPP_MODIFIED \<equiv> 23"

abbreviation (input) GR_SERVER_SIGNALING :: u32 where "GR_SERVER_SIGNALING \<equiv> 0"
abbreviation (input) GR_SERVER_REBROADCAST :: u32 where "GR_SERVER_REBROADCAST \<equiv> 1"

section \<open>Structs\<close>

record gr_identity_t =
  id_public_key :: bytes
  id_secret_key :: bytes
  id_kem_pk :: bytes
  id_kem_sk :: bytes
  id_peer_id :: bytes

record gr_peer_t =
  p_peer_id :: bytes
  p_kem_pk :: bytes
  p_sign_key :: bytes
  p_ip :: bytes
  p_port :: u16
  p_status :: u32
  p_role_id :: u32
  p_joined_at :: i64
  p_removed_at :: i64
  p_last_seen :: i64
  p_removed_reason :: bytes
  p_removed_by :: bytes

record gr_role_t =
  r_role_id :: u32
  r_name :: bytes
  r_permissions :: u32
  r_sign_key :: bytes
  r_created_at :: i64
  r_modified_at :: i64

record gr_webapp_t =
  w_hash :: bytes
  w_name :: bytes
  w_version :: u32
  w_added_at :: i64
  w_added_by :: bytes
  w_perm_data :: "bytes option"
  w_role_mask :: "bytes option"

record gr_server_t =
  s_type :: u32
  s_ip :: bytes
  s_port :: u16
  s_id_hash :: bytes
  s_sign_key :: bytes
  s_service_hash :: bytes
  s_content_kem_pk :: bytes
  s_content_kem_sk :: bytes

record gr_epoch_t =
  e_epoch_id :: u32
  e_epoch_key :: bytes
  e_created_at :: i64
  e_expired_at :: i64
  e_created_by :: bytes

record gr_retention_t =
  message_retention_ms :: i64
  file_retention_ms :: i64
  registrar_max_bytes :: i64

definition gr_retention_defaults :: gr_retention_t where
  "gr_retention_defaults =
     \<lparr>message_retention_ms = 2592000000, file_retention_ms = 15552000000,
      registrar_max_bytes = 209715200\<rparr>"

record gr_audit_entry_t =
  a_entry_hash :: bytes
  a_timestamp :: i64
  a_timestamp_ns :: i64
  a_change_type :: u32
  a_actor_id :: bytes
  a_target_id :: bytes
  a_signature :: bytes
  a_registrar_version :: u32
  a_detail :: bytes
  a_prev_hash :: bytes

record gr_invite_info_t =
  i_verification_token :: bytes
  i_created_at :: i64
  i_expires_at :: i64
  i_created_by :: bytes
  i_invalidated :: bool
  i_used :: bool
  i_used_by :: bytes

record gr_header_t =
  h_group_id :: bytes
  h_group_type :: u32
  h_group_name :: bytes
  h_version :: u32
  h_created_at :: i64
  h_updated_at :: i64
  h_epoch_id :: u32
  h_retention :: gr_retention_t
  h_owner_id :: bytes
  h_owner_sign_key :: bytes
  h_signer_id :: bytes
  h_signer_sign_key :: bytes
  h_signature :: bytes
  h_hash :: bytes

text \<open>A row of \<open>gr_ip_blocklist\<close>.\<close>

record ip_block_row =
  b_ip :: bytes
  b_fail_count :: i32
  b_blocked :: bool
  b_blocked_at :: i64
  b_last_attempt :: i64

record gr_join_peer_vote_t =
  v_peer_id :: bytes
  v_owner_id :: bytes
  v_owner_sign_key :: bytes
  v_group_id :: bytes
  v_registrar_hash :: bytes
  v_version :: u32
  v_received_at :: i64
  v_agrees :: bool

record gr_bootstrap_peer_t =
  bp_peer_id :: bytes
  bp_ip :: bytes
  bp_port :: u16
  bp_sign_key :: bytes

record gr_invite_ticket_t =
  t_group_id :: bytes
  t_group_name :: bytes
  t_group_type :: u32
  t_owner_sign_key :: bytes
  t_registrar_hash :: bytes
  t_verification_token :: bytes
  t_inviter_sign_pk :: bytes
  t_inviter_kem_pk :: bytes
  t_expires_at :: i64
  t_bootstrap_peers :: "gr_bootstrap_peer_t list"
  t_bootstrap_count :: u32
  t_signaling_count :: u32

record gr_merge_result_t =
  entries_received :: u32
  entries_new :: u32
  entries_duplicate :: u32
  entries_rejected :: u32
  conflicts_resolved :: u32
  forks_detected :: u32
  new_version :: u32

section \<open>Well-formed values: the lengths the C types fix\<close>

definition wf_cstr :: "nat \<Rightarrow> bytes \<Rightarrow> bool" where
  "wf_cstr n s \<longleftrightarrow> length s < n \<and> 0 \<notin> set s"

definition zero_id :: bytes where
  "zero_id = replicate GR_PEER_ID_LEN 0"

definition zero_hash :: bytes where
  "zero_hash = replicate GR_HASH_LEN 0"

definition wf_peer :: "gr_peer_t \<Rightarrow> bool" where
  "wf_peer p \<longleftrightarrow> length (p_peer_id p) = GR_PEER_ID_LEN \<and> length (p_kem_pk p) = GR_KEM_PUBLIC_KEY_LEN
     \<and> length (p_sign_key p) = GR_PUBLIC_KEY_LEN \<and> wf_cstr GR_MAX_IP_LEN (p_ip p)
     \<and> wf_cstr GR_MAX_NAME_LEN (p_removed_reason p) \<and> length (p_removed_by p) = GR_PEER_ID_LEN"

definition wf_role :: "gr_role_t \<Rightarrow> bool" where
  "wf_role r \<longleftrightarrow> wf_cstr GR_MAX_NAME_LEN (r_name r) \<and> length (r_sign_key r) = GR_PUBLIC_KEY_LEN"

definition wf_blob_opt :: "nat \<Rightarrow> bytes option \<Rightarrow> bool" where
  "wf_blob_opt n b \<longleftrightarrow> (case b of None \<Rightarrow> True | Some d \<Rightarrow> d \<noteq> [] \<and> length d \<le> n)"

definition wf_webapp :: "gr_webapp_t \<Rightarrow> bool" where
  "wf_webapp w \<longleftrightarrow> length (w_hash w) = GR_SERVICE_HASH_LEN \<and> wf_cstr GR_MAX_NAME_LEN (w_name w)
     \<and> length (w_added_by w) = GR_PEER_ID_LEN
     \<and> wf_blob_opt GR_WEBAPP_PERM_DATA_MAX (w_perm_data w)
     \<and> wf_blob_opt GR_WEBAPP_ROLE_MASK_MAX (w_role_mask w)"

definition wf_server :: "gr_server_t \<Rightarrow> bool" where
  "wf_server s \<longleftrightarrow> wf_cstr GR_MAX_IP_LEN (s_ip s) \<and> length (s_id_hash s) = GR_HASH_LEN
     \<and> length (s_sign_key s) = GR_PUBLIC_KEY_LEN \<and> length (s_service_hash s) = GR_SERVICE_HASH_LEN
     \<and> length (s_content_kem_pk s) = GR_KEM_PUBLIC_KEY_LEN
     \<and> length (s_content_kem_sk s) = GR_KEM_SECRET_KEY_LEN"

definition wf_epoch :: "gr_epoch_t \<Rightarrow> bool" where
  "wf_epoch e \<longleftrightarrow> length (e_epoch_key e) = GR_EPOCH_KEY_LEN \<and> length (e_created_by e) = GR_PEER_ID_LEN"

definition wf_audit :: "gr_audit_entry_t \<Rightarrow> bool" where
  "wf_audit a \<longleftrightarrow> length (a_entry_hash a) = GR_HASH_LEN \<and> length (a_actor_id a) = GR_PEER_ID_LEN
     \<and> length (a_target_id a) = GR_PEER_ID_LEN \<and> length (a_signature a) = GR_SIGN_LEN
     \<and> wf_cstr GR_DETAIL_LEN (a_detail a) \<and> length (a_prev_hash a) = GR_HASH_LEN"

definition wf_header :: "gr_header_t \<Rightarrow> bool" where
  "wf_header h \<longleftrightarrow> length (h_group_id h) = GR_HASH_LEN \<and> wf_cstr GR_MAX_NAME_LEN (h_group_name h)
     \<and> length (h_owner_id h) = GR_PEER_ID_LEN \<and> length (h_owner_sign_key h) = GR_PUBLIC_KEY_LEN
     \<and> length (h_signer_id h) = GR_PEER_ID_LEN \<and> length (h_signer_sign_key h) = GR_PUBLIC_KEY_LEN
     \<and> length (h_signature h) = GR_SIGN_LEN \<and> length (h_hash h) = GR_HASH_LEN"

lemma wf_cstr_length: "wf_cstr n s \<Longrightarrow> length s < n"
  by (simp add: wf_cstr_def)

lemma wf_cstr_c_string: "wf_cstr n s \<Longrightarrow> c_string s = s"
  by (auto simp: wf_cstr_def c_string_def takeWhile_eq_all_conv)

lemma length_zero_id [simp]: "length zero_id = 32"
  by (simp add: zero_id_def)

lemma length_zero_hash [simp]: "length zero_hash = 128"
  by (simp add: zero_hash_def)

end
