(* ===== verification/Registrar_Db.thy ===== *)
theory Registrar_Db imports Keyed_Tables Registrar_Types "HOL-Library.List_Lexorder"
begin

text \<open>
  The embedded database of a registrar: the tables created by \<open>gr_db_init_schema\<close> and one function
  per SQL statement that \<open>gr_prepare_statements\<close> prepares (\<open>src/src/group_registrar/db.c\<close>), under
  the name of its handle.  A table is the list of its rows in insertion order.

  A statement that writes returns the number of changed rows and the new database, \<open>None\<close> when
  the engine refuses it (a duplicate primary key, a negative \<open>LIMIT\<close>, an \<open>INTEGER\<close> overflow).
  \<open>INTEGER\<close> and \<open>BIGINT\<close> columns are signed: comparisons and orders on them read the words with
  \<open>sint\<close>.  \<open>ORDER BY\<close> is a stable sort, so ties keep insertion order.
\<close>

section \<open>Tables\<close>

record gr_icon_row =
  ic_data :: bytes
  ic_mime_type :: bytes
  ic_width :: u32
  ic_height :: u32
  ic_is_video :: bool
  ic_static_frame :: "bytes option"
  ic_content_hash :: bytes
  ic_updated_at :: i64
  ic_updated_by :: bytes

record gr_db =
  db_header :: "gr_header_t list"
  db_peers :: "gr_peer_t list"
  db_roles :: "gr_role_t list"
  db_webapps :: "gr_webapp_t list"
  db_servers :: "gr_server_t list"
  db_epochs :: "gr_epoch_t list"
  db_audit :: "gr_audit_entry_t list"
  db_invites :: "gr_invite_info_t list"
  db_icon :: "gr_icon_row list"
  db_blocklist :: "ip_block_row list"

definition empty_db :: gr_db where
  "empty_db = \<lparr>db_header = [], db_peers = [], db_roles = [], db_webapps = [], db_servers = [],
     db_epochs = [], db_audit = [], db_invites = [], db_icon = [], db_blocklist = []\<rparr>"

text \<open>The primary keys of the schema.\<close>

definition db_keys_ok :: "gr_db \<Rightarrow> bool" where
  "db_keys_ok d \<longleftrightarrow> tbl_inv p_peer_id (db_peers d) \<and> tbl_inv r_role_id (db_roles d)
     \<and> tbl_inv w_hash (db_webapps d) \<and> tbl_inv s_id_hash (db_servers d)
     \<and> tbl_inv e_epoch_id (db_epochs d) \<and> tbl_inv a_entry_hash (db_audit d)
     \<and> tbl_inv i_verification_token (db_invites d) \<and> length (db_icon d) \<le> 1
     \<and> tbl_inv b_ip (db_blocklist d)"

interpretation peer_tbl: keyed_table p_peer_id "tbl_get p_peer_id" "tbl_insert p_peer_id"
  "tbl_replace p_peer_id" "\<lambda>k. tbl_update (\<lambda>r. p_peer_id r = k)" "\<lambda>k. tbl_delete (\<lambda>r. p_peer_id r = k)"
  "tbl_inv p_peer_id"
  by (rule list_keyed_table)

interpretation role_tbl: keyed_table r_role_id "tbl_get r_role_id" "tbl_insert r_role_id"
  "tbl_replace r_role_id" "\<lambda>k. tbl_update (\<lambda>r. r_role_id r = k)" "\<lambda>k. tbl_delete (\<lambda>r. r_role_id r = k)"
  "tbl_inv r_role_id"
  by (rule list_keyed_table)

interpretation webapp_tbl: keyed_table w_hash "tbl_get w_hash" "tbl_insert w_hash"
  "tbl_replace w_hash" "\<lambda>k. tbl_update (\<lambda>r. w_hash r = k)" "\<lambda>k. tbl_delete (\<lambda>r. w_hash r = k)"
  "tbl_inv w_hash"
  by (rule list_keyed_table)

interpretation server_tbl: keyed_table s_id_hash "tbl_get s_id_hash" "tbl_insert s_id_hash"
  "tbl_replace s_id_hash" "\<lambda>k. tbl_update (\<lambda>r. s_id_hash r = k)" "\<lambda>k. tbl_delete (\<lambda>r. s_id_hash r = k)"
  "tbl_inv s_id_hash"
  by (rule list_keyed_table)

interpretation epoch_tbl: keyed_table e_epoch_id "tbl_get e_epoch_id" "tbl_insert e_epoch_id"
  "tbl_replace e_epoch_id" "\<lambda>k. tbl_update (\<lambda>r. e_epoch_id r = k)"
  "\<lambda>k. tbl_delete (\<lambda>r. e_epoch_id r = k)" "tbl_inv e_epoch_id"
  by (rule list_keyed_table)

interpretation invite_tbl: keyed_table i_verification_token "tbl_get i_verification_token"
  "tbl_insert i_verification_token" "tbl_replace i_verification_token"
  "\<lambda>k. tbl_update (\<lambda>r. i_verification_token r = k)"
  "\<lambda>k. tbl_delete (\<lambda>r. i_verification_token r = k)" "tbl_inv i_verification_token"
  by (rule list_keyed_table)

interpretation block_tbl: keyed_table b_ip "tbl_get b_ip" "tbl_insert b_ip" "tbl_replace b_ip"
  "\<lambda>k. tbl_update (\<lambda>r. b_ip r = k)" "\<lambda>k. tbl_delete (\<lambda>r. b_ip r = k)" "tbl_inv b_ip"
  by (rule list_keyed_table)

section \<open>Clauses shared by the statements\<close>

text \<open>\<open>LIMIT $n\<close>, bound as a signed 32-bit integer.\<close>

definition sql_limit :: "u32 \<Rightarrow> 'r list \<Rightarrow> 'r list option" where
  "sql_limit n rows = (if sint n < 0 then None else Some (take (nat (sint n)) rows))"

definition sql_insert :: "('r \<Rightarrow> 'k) \<Rightarrow> 'r \<Rightarrow> 'r list \<Rightarrow> (nat \<times> 'r list) option" where
  "sql_insert key r t = map_option (\<lambda>t'. (1, t')) (tbl_insert key r t)"

definition sql_update :: "('r \<Rightarrow> bool) \<Rightarrow> ('r \<Rightarrow> 'r) \<Rightarrow> 'r list \<Rightarrow> nat \<times> 'r list" where
  "sql_update P f t = (tbl_count P t, tbl_update P f t)"

definition sql_delete :: "('r \<Rightarrow> bool) \<Rightarrow> 'r list \<Rightarrow> nat \<times> 'r list" where
  "sql_delete P t = (tbl_count P t, tbl_delete P t)"

text \<open>The sort key \<open>(registrar_version, timestamp)\<close> of the audit log.\<close>

datatype audit_key = AKey int int

instantiation audit_key :: linorder
begin

definition less_eq_audit_key :: "audit_key \<Rightarrow> audit_key \<Rightarrow> bool" where
  "less_eq_audit_key a b = (case (a, b) of (AKey v t, AKey v' t') \<Rightarrow> v < v' \<or> v = v' \<and> t \<le> t')"

definition less_audit_key :: "audit_key \<Rightarrow> audit_key \<Rightarrow> bool" where
  "less_audit_key a b = (case (a, b) of (AKey v t, AKey v' t') \<Rightarrow> v < v' \<or> v = v' \<and> t < t')"

instance
  by intro_classes (auto simp: less_eq_audit_key_def less_audit_key_def split: audit_key.splits)

end

definition audit_key_of :: "gr_audit_entry_t \<Rightarrow> audit_key" where
  "audit_key_of a = AKey (sint (a_registrar_version a)) (sint (a_timestamp a))"

section \<open>Peers\<close>

definition ps_peer_get :: "bytes \<Rightarrow> gr_db \<Rightarrow> gr_peer_t option" where
  "ps_peer_get pid d = tbl_get p_peer_id pid (db_peers d)"

definition ps_peer_count_all :: "gr_db \<Rightarrow> nat" where
  "ps_peer_count_all d = length (db_peers d)"

definition ps_peer_count_status :: "u32 \<Rightarrow> gr_db \<Rightarrow> nat" where
  "ps_peer_count_status st d = tbl_count (\<lambda>p. p_status p = st) (db_peers d)"

definition ps_peer_list_all :: "u32 \<Rightarrow> gr_db \<Rightarrow> gr_peer_t list option" where
  "ps_peer_list_all lim d = sql_limit lim (db_peers d)"

definition ps_peer_list_status :: "u32 \<Rightarrow> u32 \<Rightarrow> gr_db \<Rightarrow> gr_peer_t list option" where
  "ps_peer_list_status st lim d = sql_limit lim (filter (\<lambda>p. p_status p = st) (db_peers d))"

definition ps_peer_insert :: "gr_peer_t \<Rightarrow> gr_db \<Rightarrow> (nat \<times> gr_db) option" where
  "ps_peer_insert p d =
     map_option (\<lambda>(n, t). (n, d\<lparr>db_peers := t\<rparr>)) (sql_insert p_peer_id p (db_peers d))"

definition ps_peer_update_status :: "u32 \<Rightarrow> i64 \<Rightarrow> bytes \<Rightarrow> bytes \<Rightarrow> bytes \<Rightarrow> gr_db \<Rightarrow> (nat \<times> gr_db) option" where
  "ps_peer_update_status st removed_at reason removed_by pid d =
     (case sql_update (\<lambda>p. p_peer_id p = pid)
        (\<lambda>p. p\<lparr>p_status := st, p_removed_at := removed_at, p_removed_reason := reason,
               p_removed_by := removed_by\<rparr>) (db_peers d)
      of (n, t) \<Rightarrow> Some (n, d\<lparr>db_peers := t\<rparr>))"

definition ps_peer_update_addr :: "bytes \<Rightarrow> u16 \<Rightarrow> i64 \<Rightarrow> bytes \<Rightarrow> gr_db \<Rightarrow> (nat \<times> gr_db) option" where
  "ps_peer_update_addr ip port last_seen pid d =
     (case sql_update (\<lambda>p. p_peer_id p = pid \<and> p_status p = 0)
        (\<lambda>p. p\<lparr>p_ip := ip, p_port := port, p_last_seen := last_seen\<rparr>) (db_peers d)
      of (n, t) \<Rightarrow> Some (n, d\<lparr>db_peers := t\<rparr>))"

definition ps_peer_touch :: "i64 \<Rightarrow> bytes \<Rightarrow> gr_db \<Rightarrow> (nat \<times> gr_db) option" where
  "ps_peer_touch last_seen pid d =
     (case sql_update (\<lambda>p. p_peer_id p = pid) (\<lambda>p. p\<lparr>p_last_seen := last_seen\<rparr>) (db_peers d)
      of (n, t) \<Rightarrow> Some (n, d\<lparr>db_peers := t\<rparr>))"

definition ps_peer_set_role :: "u32 \<Rightarrow> bytes \<Rightarrow> gr_db \<Rightarrow> (nat \<times> gr_db) option" where
  "ps_peer_set_role rid pid d =
     (case sql_update (\<lambda>p. p_peer_id p = pid \<and> p_status p = 0) (\<lambda>p. p\<lparr>p_role_id := rid\<rparr>) (db_peers d)
      of (n, t) \<Rightarrow> Some (n, d\<lparr>db_peers := t\<rparr>))"

definition ps_peer_reset_role :: "u32 \<Rightarrow> gr_db \<Rightarrow> (nat \<times> gr_db) option" where
  "ps_peer_reset_role rid d =
     (case sql_update (\<lambda>p. p_role_id p = rid) (\<lambda>p. p\<lparr>p_role_id := 0\<rparr>) (db_peers d)
      of (n, t) \<Rightarrow> Some (n, d\<lparr>db_peers := t\<rparr>))"

section \<open>Roles\<close>

definition ps_role_get :: "u32 \<Rightarrow> gr_db \<Rightarrow> gr_role_t option" where
  "ps_role_get rid d = tbl_get r_role_id rid (db_roles d)"

definition ps_role_list :: "u32 \<Rightarrow> gr_db \<Rightarrow> gr_role_t list option" where
  "ps_role_list lim d = sql_limit lim (sort_key (\<lambda>r. sint (r_role_id r)) (db_roles d))"

definition ps_role_count :: "gr_db \<Rightarrow> nat" where
  "ps_role_count d = length (db_roles d)"

definition ps_role_insert :: "gr_role_t \<Rightarrow> gr_db \<Rightarrow> (nat \<times> gr_db) option" where
  "ps_role_insert r d =
     map_option (\<lambda>(n, t). (n, d\<lparr>db_roles := t\<rparr>)) (sql_insert r_role_id r (db_roles d))"

definition ps_role_delete :: "u32 \<Rightarrow> gr_db \<Rightarrow> (nat \<times> gr_db) option" where
  "ps_role_delete rid d =
     (case sql_delete (\<lambda>r. r_role_id r = rid) (db_roles d) of (n, t) \<Rightarrow> Some (n, d\<lparr>db_roles := t\<rparr>))"

definition ps_role_set_perms :: "u32 \<Rightarrow> i64 \<Rightarrow> u32 \<Rightarrow> gr_db \<Rightarrow> (nat \<times> gr_db) option" where
  "ps_role_set_perms perms modified_at rid d =
     (case sql_update (\<lambda>r. r_role_id r = rid)
        (\<lambda>r. r\<lparr>r_permissions := perms, r_modified_at := modified_at\<rparr>) (db_roles d)
      of (n, t) \<Rightarrow> Some (n, d\<lparr>db_roles := t\<rparr>))"

text \<open>\<open>COALESCE(MAX(role_id), 0) + 1\<close>: the sum is an \<open>INTEGER\<close>, so it overflows at \<open>2 ^ 31\<close>.\<close>

definition max_role_id :: "gr_db \<Rightarrow> int" where
  "max_role_id d = (if db_roles d = [] then 0
     else fold max (map (\<lambda>r. sint (r_role_id r)) (tl (db_roles d))) (sint (r_role_id (hd (db_roles d)))))"

definition ps_role_next_id :: "gr_db \<Rightarrow> u32 option" where
  "ps_role_next_id d = (if 2 ^ 31 \<le> max_role_id d + 1 then None else Some (of_int (max_role_id d + 1)))"

definition ps_role_perms_join :: "bytes \<Rightarrow> gr_db \<Rightarrow> u32 list" where
  "ps_role_perms_join pid d =
     [r_permissions r. p \<leftarrow> db_peers d, r \<leftarrow> db_roles d,
        p_role_id p = r_role_id r \<and> p_peer_id p = pid \<and> p_status p = 0 \<and> 0 < sint (p_role_id p)]"

section \<open>Web apps\<close>

definition ps_webapp_insert :: "gr_webapp_t \<Rightarrow> gr_db \<Rightarrow> (nat \<times> gr_db) option" where
  "ps_webapp_insert w d =
     map_option (\<lambda>(n, t). (n, d\<lparr>db_webapps := t\<rparr>)) (sql_insert w_hash w (db_webapps d))"

definition ps_webapp_delete :: "bytes \<Rightarrow> gr_db \<Rightarrow> (nat \<times> gr_db) option" where
  "ps_webapp_delete h d =
     (case sql_delete (\<lambda>w. w_hash w = h) (db_webapps d) of (n, t) \<Rightarrow> Some (n, d\<lparr>db_webapps := t\<rparr>))"

definition ps_webapp_check :: "bytes \<Rightarrow> gr_db \<Rightarrow> nat" where
  "ps_webapp_check h d = tbl_count (\<lambda>w. w_hash w = h) (db_webapps d)"

definition ps_webapp_list :: "u32 \<Rightarrow> gr_db \<Rightarrow> gr_webapp_t list option" where
  "ps_webapp_list lim d = sql_limit lim (db_webapps d)"

definition ps_webapp_count :: "gr_db \<Rightarrow> nat" where
  "ps_webapp_count d = length (db_webapps d)"

definition ps_webapp_get :: "bytes \<Rightarrow> gr_db \<Rightarrow> gr_webapp_t option" where
  "ps_webapp_get h d = tbl_get w_hash h (db_webapps d)"

definition ps_webapp_update_perm_data :: "bytes \<Rightarrow> bytes option \<Rightarrow> gr_db \<Rightarrow> (nat \<times> gr_db) option" where
  "ps_webapp_update_perm_data h blob d =
     (case sql_update (\<lambda>w. w_hash w = h) (\<lambda>w. w\<lparr>w_perm_data := blob\<rparr>) (db_webapps d)
      of (n, t) \<Rightarrow> Some (n, d\<lparr>db_webapps := t\<rparr>))"

definition ps_webapp_update_role_mask :: "bytes \<Rightarrow> bytes option \<Rightarrow> gr_db \<Rightarrow> (nat \<times> gr_db) option" where
  "ps_webapp_update_role_mask h blob d =
     (case sql_update (\<lambda>w. w_hash w = h) (\<lambda>w. w\<lparr>w_role_mask := blob\<rparr>) (db_webapps d)
      of (n, t) \<Rightarrow> Some (n, d\<lparr>db_webapps := t\<rparr>))"

section \<open>Servers\<close>

definition ps_server_insert :: "gr_server_t \<Rightarrow> gr_db \<Rightarrow> (nat \<times> gr_db) option" where
  "ps_server_insert s d =
     map_option (\<lambda>(n, t). (n, d\<lparr>db_servers := t\<rparr>)) (sql_insert s_id_hash s (db_servers d))"

definition ps_server_delete :: "bytes \<Rightarrow> gr_db \<Rightarrow> (nat \<times> gr_db) option" where
  "ps_server_delete h d =
     (case sql_delete (\<lambda>s. s_id_hash s = h) (db_servers d) of (n, t) \<Rightarrow> Some (n, d\<lparr>db_servers := t\<rparr>))"

definition ps_server_list :: "u32 \<Rightarrow> u32 \<Rightarrow> gr_db \<Rightarrow> gr_server_t list option" where
  "ps_server_list ty lim d = sql_limit lim (filter (\<lambda>s. s_type s = ty) (db_servers d))"

definition ps_server_count :: "u32 \<Rightarrow> gr_db \<Rightarrow> nat" where
  "ps_server_count ty d = tbl_count (\<lambda>s. s_type s = ty) (db_servers d)"

definition ps_server_get :: "bytes \<Rightarrow> gr_db \<Rightarrow> gr_server_t option" where
  "ps_server_get h d = tbl_get s_id_hash h (db_servers d)"

section \<open>Epochs\<close>

definition ps_epoch_get :: "u32 \<Rightarrow> gr_db \<Rightarrow> gr_epoch_t option" where
  "ps_epoch_get eid d = tbl_get e_epoch_id eid (db_epochs d)"

definition ps_epoch_list :: "u32 \<Rightarrow> gr_db \<Rightarrow> gr_epoch_t list option" where
  "ps_epoch_list lim d = sql_limit lim (sort_key (\<lambda>e. sint (e_epoch_id e)) (db_epochs d))"

definition ps_epoch_count :: "gr_db \<Rightarrow> nat" where
  "ps_epoch_count d = length (db_epochs d)"

definition ps_epoch_insert :: "gr_epoch_t \<Rightarrow> gr_db \<Rightarrow> (nat \<times> gr_db) option" where
  "ps_epoch_insert e d =
     map_option (\<lambda>(n, t). (n, d\<lparr>db_epochs := t\<rparr>)) (sql_insert e_epoch_id e (db_epochs d))"

definition ps_epoch_expire :: "i64 \<Rightarrow> u32 \<Rightarrow> gr_db \<Rightarrow> (nat \<times> gr_db) option" where
  "ps_epoch_expire expired_at eid d =
     (case sql_update (\<lambda>e. e_epoch_id e = eid) (\<lambda>e. e\<lparr>e_expired_at := expired_at\<rparr>) (db_epochs d)
      of (n, t) \<Rightarrow> Some (n, d\<lparr>db_epochs := t\<rparr>))"

section \<open>Audit log\<close>

definition ps_audit_insert :: "gr_audit_entry_t \<Rightarrow> gr_db \<Rightarrow> (nat \<times> gr_db) option" where
  "ps_audit_insert a d =
     Some (if a_entry_hash a \<in> a_entry_hash ` set (db_audit d) then 0 else 1,
           d\<lparr>db_audit := tbl_insert_ignore a_entry_hash a (db_audit d)\<rparr>)"

definition ps_audit_dedup :: "bytes \<Rightarrow> gr_db \<Rightarrow> nat" where
  "ps_audit_dedup h d = tbl_count (\<lambda>a. a_entry_hash a = h) (db_audit d)"

definition ps_audit_list :: "i64 \<Rightarrow> u32 \<Rightarrow> gr_db \<Rightarrow> gr_audit_entry_t list option" where
  "ps_audit_list since lim d =
     sql_limit lim (sort_key (\<lambda>a. sint (a_timestamp a)) (filter (\<lambda>a. sint since < sint (a_timestamp a)) (db_audit d)))"

definition ps_audit_count :: "gr_db \<Rightarrow> nat" where
  "ps_audit_count d = length (db_audit d)"

definition ps_audit_delta :: "u32 \<Rightarrow> gr_db \<Rightarrow> gr_audit_entry_t list" where
  "ps_audit_delta since d = sort_key (\<lambda>a. sint (a_timestamp a))
     (filter (\<lambda>a. sint since < sint (a_registrar_version a)) (db_audit d))"

definition ps_audit_actor_pk :: "bytes \<Rightarrow> gr_db \<Rightarrow> bytes option" where
  "ps_audit_actor_pk pid d = map_option p_sign_key (tbl_get p_peer_id pid (db_peers d))"

definition ps_audit_last_hash :: "gr_db \<Rightarrow> bytes option" where
  "ps_audit_last_hash d =
     (if db_audit d = [] then None else Some (a_entry_hash (last (sort_key audit_key_of (db_audit d)))))"

text \<open>\<open>prev_hash\<close> values that more than one entry carries: the fork points.\<close>

definition forked :: "gr_audit_entry_t list \<Rightarrow> bytes \<Rightarrow> bool" where
  "forked t h \<longleftrightarrow> 1 < tbl_count (\<lambda>a. a_prev_hash a = h) t"

definition prune_victims :: "u32 \<Rightarrow> gr_audit_entry_t list \<Rightarrow> bytes list option" where
  "prune_victims lim t = map_option (map a_entry_hash)
     (sql_limit lim (sort_key audit_key_of (filter (\<lambda>a. \<not> forked t (a_prev_hash a)) t)))"

definition ps_audit_prune :: "u32 \<Rightarrow> gr_db \<Rightarrow> (nat \<times> gr_db) option" where
  "ps_audit_prune lim d =
     (case prune_victims lim (db_audit d) of
        None \<Rightarrow> None
      | Some hs \<Rightarrow> (case sql_delete (\<lambda>a. a_entry_hash a \<in> set hs) (db_audit d)
          of (n, t) \<Rightarrow> Some (n, d\<lparr>db_audit := t\<rparr>)))"

definition fork_rows :: "gr_audit_entry_t list \<Rightarrow> gr_audit_entry_t list" where
  "fork_rows t = sort_key a_prev_hash (sort_key (\<lambda>a. sint (a_timestamp_ns a))
     (sort_key a_entry_hash (filter (\<lambda>a. forked t (a_prev_hash a)) t)))"

definition ps_audit_fork_resolve :: "gr_db \<Rightarrow> gr_audit_entry_t list" where
  "ps_audit_fork_resolve d = fork_rows (db_audit d)"

definition ps_audit_list_forks :: "u32 \<Rightarrow> gr_db \<Rightarrow> gr_audit_entry_t list option" where
  "ps_audit_list_forks lim d = sql_limit lim (fork_rows (db_audit d))"

definition ps_audit_verify_batch :: "u32 \<Rightarrow> u32 \<Rightarrow> gr_db \<Rightarrow> gr_audit_entry_t list option" where
  "ps_audit_verify_batch lim off d =
     (if sint off < 0 then None
      else sql_limit lim (drop (nat (sint off)) (sort_key audit_key_of (db_audit d))))"

definition ps_audit_fork_check :: "bytes \<Rightarrow> gr_db \<Rightarrow> nat" where
  "ps_audit_fork_check h d = tbl_count (\<lambda>a. a_prev_hash a = h) (db_audit d)"

section \<open>Invites\<close>

definition ps_invite_insert :: "gr_invite_info_t \<Rightarrow> gr_db \<Rightarrow> (nat \<times> gr_db) option" where
  "ps_invite_insert i d =
     map_option (\<lambda>(n, t). (n, d\<lparr>db_invites := t\<rparr>)) (sql_insert i_verification_token i (db_invites d))"

definition ps_invite_check :: "bytes \<Rightarrow> gr_db \<Rightarrow> (bool \<times> bool \<times> i64) option" where
  "ps_invite_check tok d = map_option (\<lambda>i. (i_invalidated i, i_used i, i_expires_at i))
     (tbl_get i_verification_token tok (db_invites d))"

definition ps_invite_invalidate :: "bytes \<Rightarrow> gr_db \<Rightarrow> (nat \<times> gr_db) option" where
  "ps_invite_invalidate tok d =
     (case sql_update (\<lambda>i. i_verification_token i = tok) (\<lambda>i. i\<lparr>i_invalidated := True\<rparr>) (db_invites d)
      of (n, t) \<Rightarrow> Some (n, d\<lparr>db_invites := t\<rparr>))"

definition ps_invite_mark_used :: "bytes \<Rightarrow> bytes \<Rightarrow> gr_db \<Rightarrow> (nat \<times> gr_db) option" where
  "ps_invite_mark_used by tok d =
     (case sql_update (\<lambda>i. i_verification_token i = tok) (\<lambda>i. i\<lparr>i_used := True, i_used_by := by\<rparr>) (db_invites d)
      of (n, t) \<Rightarrow> Some (n, d\<lparr>db_invites := t\<rparr>))"

definition ps_invite_list :: "u32 \<Rightarrow> gr_db \<Rightarrow> gr_invite_info_t list option" where
  "ps_invite_list lim d = sql_limit lim (db_invites d)"

definition ps_invite_count :: "gr_db \<Rightarrow> nat" where
  "ps_invite_count d = length (db_invites d)"

section \<open>Group icon\<close>

text \<open>The table holds at most the row \<open>id = 1\<close>; a second insert violates the primary key.\<close>

definition ps_icon_upsert :: "gr_icon_row \<Rightarrow> gr_db \<Rightarrow> (nat \<times> gr_db) option" where
  "ps_icon_upsert ic d = (if db_icon d = [] then Some (1, d\<lparr>db_icon := [ic]\<rparr>) else None)"

definition ps_icon_get :: "gr_db \<Rightarrow> gr_icon_row option" where
  "ps_icon_get d = (case db_icon d of [] \<Rightarrow> None | ic # _ \<Rightarrow> Some ic)"

definition ps_icon_hash :: "gr_db \<Rightarrow> bytes option" where
  "ps_icon_hash d = map_option ic_content_hash (ps_icon_get d)"

definition ps_icon_delete :: "gr_db \<Rightarrow> (nat \<times> gr_db) option" where
  "ps_icon_delete d = Some (length (db_icon d), d\<lparr>db_icon := []\<rparr>)"

section \<open>Header\<close>

definition ps_header_save :: "gr_header_t \<Rightarrow> gr_db \<Rightarrow> (nat \<times> gr_db) option" where
  "ps_header_save h d = Some (1, d\<lparr>db_header := db_header d @ [h]\<rparr>)"

definition delete_header :: "gr_db \<Rightarrow> (nat \<times> gr_db) option" where
  "delete_header d = Some (length (db_header d), d\<lparr>db_header := []\<rparr>)"

definition ps_header_load :: "gr_db \<Rightarrow> gr_header_t option" where
  "ps_header_load d = (case db_header d of [] \<Rightarrow> None | h # _ \<Rightarrow> Some h)"

section \<open>Delta merge\<close>

definition ps_delta_peer_upsert :: "gr_peer_t \<Rightarrow> gr_db \<Rightarrow> (nat \<times> gr_db) option" where
  "ps_delta_peer_upsert p d = Some (1, d\<lparr>db_peers := tbl_replace p_peer_id p (db_peers d)\<rparr>)"

definition ps_delta_role_upsert :: "gr_role_t \<Rightarrow> gr_db \<Rightarrow> (nat \<times> gr_db) option" where
  "ps_delta_role_upsert r d = Some (1, d\<lparr>db_roles := tbl_replace r_role_id r (db_roles d)\<rparr>)"

definition ps_delta_webapp_upsert :: "gr_webapp_t \<Rightarrow> gr_db \<Rightarrow> (nat \<times> gr_db) option" where
  "ps_delta_webapp_upsert w d = Some (1, d\<lparr>db_webapps := tbl_replace w_hash w (db_webapps d)\<rparr>)"

definition ps_delta_server_upsert :: "gr_server_t \<Rightarrow> gr_db \<Rightarrow> (nat \<times> gr_db) option" where
  "ps_delta_server_upsert s d = Some (1, d\<lparr>db_servers := tbl_replace s_id_hash s (db_servers d)\<rparr>)"

definition ps_delta_epoch_upsert :: "gr_epoch_t \<Rightarrow> gr_db \<Rightarrow> (nat \<times> gr_db) option" where
  "ps_delta_epoch_upsert e d = Some (1, d\<lparr>db_epochs := tbl_replace e_epoch_id e (db_epochs d)\<rparr>)"

section \<open>IP blocklist\<close>

definition ps_block_get :: "bytes \<Rightarrow> gr_db \<Rightarrow> ip_block_row option" where
  "ps_block_get ip d = tbl_get b_ip ip (db_blocklist d)"

definition ps_block_upsert :: "ip_block_row \<Rightarrow> gr_db \<Rightarrow> (nat \<times> gr_db) option" where
  "ps_block_upsert b d = Some (1, d\<lparr>db_blocklist := tbl_replace b_ip b (db_blocklist d)\<rparr>)"

definition ps_block_delete :: "bytes \<Rightarrow> gr_db \<Rightarrow> (nat \<times> gr_db) option" where
  "ps_block_delete ip d =
     (case sql_delete (\<lambda>b. b_ip b = ip) (db_blocklist d) of (n, t) \<Rightarrow> Some (n, d\<lparr>db_blocklist := t\<rparr>))"

definition ps_block_expire :: "i64 \<Rightarrow> gr_db \<Rightarrow> (nat \<times> gr_db) option" where
  "ps_block_expire cutoff d =
     (case sql_delete (\<lambda>b. b_blocked b \<and> sint (b_blocked_at b) < sint cutoff) (db_blocklist d)
      of (n, t) \<Rightarrow> Some (n, d\<lparr>db_blocklist := t\<rparr>))"

end
