(* ===== verification/Buf.thy ===== *)
theory Buf imports Prelude
begin

text \<open>
  \<open>src/src/group_registrar/buf.h\<close> and \<open>buf.c\<close>: the growable write buffer \<open>gr_buf_t\<close>, the
  sequential reader \<open>gr_reader_t\<close> and the byte-order helpers under them.

  A \<open>gr_buf_t\<close> is the bytes written so far with the capacity and the sticky error flag; its
  \<open>len\<close> is the length of the list.  Sizes are \<open>size_t\<close>, 64-bit words, so the doubling loop of
  \<open>buf_ensure\<close> is modelled with its wrap-around: it carries fuel, and \<open>None\<close> is the loop that
  does not end.  Fuel 65 is exact: after 64 doublings a capacity is 0 and stays 0, so a loop that has
  not stopped by then never stops (\<open>grow_cap_stuck\<close>); \<open>grow_cap_terminates\<close> gives the
  condition under which it does stop.  \<open>malloc\<close>/\<open>realloc\<close> may fail: their answer is an argument
  of each operation.
\<close>

section \<open>Byte order\<close>

unbundle bit_operations_syntax

definition gr_swap16 :: "u16 \<Rightarrow> u16" where
  "gr_swap16 v = drop_bit 8 v OR push_bit 8 v"

definition gr_swap32 :: "u32 \<Rightarrow> u32" where
  "gr_swap32 v =
     (((drop_bit 24 v AND 0x000000FF) OR (drop_bit 8 v AND 0x0000FF00))
      OR (push_bit 8 v AND 0x00FF0000)) OR (push_bit 24 v AND 0xFF000000)"

definition gr_swap64 :: "u64 \<Rightarrow> u64" where
  "gr_swap64 v =
     (((((((drop_bit 56 v AND 0x00000000000000FF) OR (drop_bit 40 v AND 0x000000000000FF00))
      OR (drop_bit 24 v AND 0x0000000000FF0000)) OR (drop_bit 8 v AND 0x00000000FF000000))
      OR (push_bit 8 v AND 0x000000FF00000000)) OR (push_bit 24 v AND 0x0000FF0000000000))
      OR (push_bit 40 v AND 0x00FF000000000000)) OR (push_bit 56 v AND 0xFF00000000000000)"

text \<open>
  The object representation of an integer in memory: low byte first on a little-endian host, high
  byte first on a big-endian one.  \<open>host_le\<close> is the host's byte order, what
  \<open>gr_is_little_endian\<close> probes for.
\<close>

definition le_bytes :: "nat \<Rightarrow> 'a::len word \<Rightarrow> bytes" where
  "le_bytes n v = map (\<lambda>i. ucast (drop_bit (8 * i) v)) [0..<n]"

definition mem_bytes :: "bool \<Rightarrow> nat \<Rightarrow> 'a::len word \<Rightarrow> bytes" where
  "mem_bytes host_le n v = (if host_le then le_bytes n v else rev (le_bytes n v))"

fun le_word :: "bytes \<Rightarrow> 'a::len word" where
  "le_word [] = 0"
| "le_word (b # bs) = ucast b OR push_bit 8 (le_word bs)"

definition mem_word :: "bool \<Rightarrow> bytes \<Rightarrow> 'a::len word" where
  "mem_word host_le bs = le_word (if host_le then bs else rev bs)"

definition gr_htole16 :: "bool \<Rightarrow> u16 \<Rightarrow> u16" where
  "gr_htole16 host_le v = (if host_le then v else gr_swap16 v)"

definition gr_htole32 :: "bool \<Rightarrow> u32 \<Rightarrow> u32" where
  "gr_htole32 host_le v = (if host_le then v else gr_swap32 v)"

definition gr_htole64 :: "bool \<Rightarrow> u64 \<Rightarrow> u64" where
  "gr_htole64 host_le v = (if host_le then v else gr_swap64 v)"

definition gr_le16toh :: "bool \<Rightarrow> u16 \<Rightarrow> u16" where
  "gr_le16toh host_le v = (if host_le then v else gr_swap16 v)"

definition gr_le32toh :: "bool \<Rightarrow> u32 \<Rightarrow> u32" where
  "gr_le32toh host_le v = (if host_le then v else gr_swap32 v)"

definition gr_le64toh :: "bool \<Rightarrow> u64 \<Rightarrow> u64" where
  "gr_le64toh host_le v = (if host_le then v else gr_swap64 v)"

lemma length_le_bytes [simp]: "length (le_bytes n v) = n"
  by (simp add: le_bytes_def)

lemma length_mem_bytes [simp]: "length (mem_bytes h n v) = n"
  by (simp add: mem_bytes_def)

lemma bit_le_word:
  "bit (le_word bs :: 'a::len word) n \<longleftrightarrow>
     n < LENGTH('a) \<and> n div 8 < length bs \<and> bit (bs ! (n div 8)) (n mod 8)"
proof (induction bs arbitrary: n)
  case Nil
  then show ?case by simp
next
  case (Cons b bs)
  show ?case
  proof (cases "n < 8")
    case True
    then show ?thesis by (auto simp: bit_simps dest: bit_imp_le_length)
  next
    case False
    then obtain m where m: "n = m + 8" using le_Suc_ex [of 8 n] by (auto simp: add.commute)
    have div: "(m + 8) div 8 = Suc (m div 8)" "(m + 8) mod 8 = m mod 8" by simp_all
    have "\<not> bit b (m + 8)" by (auto dest: bit_imp_le_length)
    then show ?thesis using Cons.IH [of m] by (auto simp: bit_simps m div simp del: div_add_self2 mod_add_self2)
  qed
qed

lemma bit_le_bytes:
  fixes v :: "'a::len word"
  shows "i < n \<Longrightarrow> bit (le_bytes n v ! i) k \<longleftrightarrow> k < 8 \<and> bit v (8 * i + k)"
  by (simp add: le_bytes_def bit_simps)

lemma le_word_le_bytes:
  fixes v :: "'a::len word"
  assumes "LENGTH('a) = 8 * n"
  shows "le_word (le_bytes n v) = v"
proof (rule bit_word_eqI)
  fix k assume k: "k < LENGTH('a)"
  then have "k div 8 < n" using assms by (simp add: less_mult_imp_div_less mult.commute)
  then show "bit (le_word (le_bytes n v) :: 'a word) k = bit v k"
    using k by (simp add: bit_le_word bit_le_bytes)
qed

lemma mem_word_mem_bytes:
  fixes v :: "'a::len word"
  shows "LENGTH('a) = 8 * n \<Longrightarrow> mem_word h (mem_bytes h n v) = v"
  by (simp add: mem_word_def mem_bytes_def le_word_le_bytes)

lemma byte_masks:
  "(0xFF :: 'a::len word) = mask 8" "(0xFF00 :: u32) = push_bit 8 (mask 8)"
  "(0xFF0000 :: u32) = push_bit 16 (mask 8)" "(0xFF000000 :: u32) = push_bit 24 (mask 8)"
  "(0xFF00 :: u64) = push_bit 8 (mask 8)" "(0xFF0000 :: u64) = push_bit 16 (mask 8)"
  "(0xFF000000 :: u64) = push_bit 24 (mask 8)" "(0xFF00000000 :: u64) = push_bit 32 (mask 8)"
  "(0xFF0000000000 :: u64) = push_bit 40 (mask 8)" "(0xFF000000000000 :: u64) = push_bit 48 (mask 8)"
  "(0xFF00000000000000 :: u64) = push_bit 56 (mask 8)"
  by (simp_all add: mask_eq_exp_minus_1)

lemma upt_bytes: "[0..<2] = [0, 1::nat]" "[0..<4] = [0, 1, 2, 3::nat]"
  "[0..<8] = [0, 1, 2, 3, 4, 5, 6, 7::nat]"
  by (simp_all add: upt_rec)

lemma rev_le_bytes_swap16: "rev (le_bytes 2 (gr_swap16 v)) = le_bytes 2 v"
  by (auto simp: le_bytes_def upt_bytes gr_swap16_def bit_simps intro!: bit_word_eqI
      dest: bit_imp_le_length)

lemma rev_le_bytes_swap32: "rev (le_bytes 4 (gr_swap32 v)) = le_bytes 4 v"
  by (auto simp: le_bytes_def upt_bytes gr_swap32_def byte_masks bit_simps intro!: bit_word_eqI
      dest: bit_imp_le_length)

lemma rev_le_bytes_swap64: "rev (le_bytes 8 (gr_swap64 v)) = le_bytes 8 v"
  by (auto simp: le_bytes_def upt_bytes gr_swap64_def byte_masks bit_simps intro!: bit_word_eqI
      dest: bit_imp_le_length)


section \<open>The write buffer\<close>

record gr_buf_t =
  buf_data :: "bytes option"
  buf_cap :: u64
  buf_error :: bool

definition buf_bytes :: "gr_buf_t \<Rightarrow> bytes" where
  "buf_bytes b = (case buf_data b of None \<Rightarrow> [] | Some d \<Rightarrow> d)"

definition buf_len :: "gr_buf_t \<Rightarrow> u64" where
  "buf_len b = of_nat (length (buf_bytes b))"

text \<open>\<open>None\<close> is the return value \<open>-1\<close>; the argument is whether \<open>malloc\<close> succeeds.\<close>

definition gr_buf_init :: "bool \<Rightarrow> u64 \<Rightarrow> gr_buf_t option" where
  "gr_buf_init malloc_ok cap =
     (if malloc_ok then Some \<lparr>buf_data = Some [], buf_cap = cap, buf_error = False\<rparr> else None)"

definition gr_buf_free :: "gr_buf_t \<Rightarrow> gr_buf_t" where
  "gr_buf_free b = b\<lparr>buf_data := None, buf_cap := 0\<rparr>"

fun grow_cap :: "nat \<Rightarrow> u64 \<Rightarrow> u64 \<Rightarrow> u64 option" where
  "grow_cap 0 newcap target = None"
| "grow_cap (Suc fuel) newcap target =
     (if newcap < target then grow_cap fuel (newcap * 2) target else Some newcap)"

text \<open>
  \<open>buf_ensure\<close>: \<open>None\<close> is the loop that does not end; otherwise the return code (0 or -1) and
  the buffer.  \<open>realloc_ok\<close> is the answer of \<open>realloc\<close> for the requested size.
\<close>

definition buf_ensure :: "(u64 \<Rightarrow> bool) \<Rightarrow> u64 \<Rightarrow> gr_buf_t \<Rightarrow> (int \<times> gr_buf_t) option" where
  "buf_ensure realloc_ok need b =
     (if buf_error b then Some (-1, b)
      else if buf_len b + need \<le> buf_cap b then Some (0, b)
      else case grow_cap 65 (buf_cap b * 2) (buf_len b + need) of
             None \<Rightarrow> None
           | Some newcap \<Rightarrow>
               if realloc_ok newcap
               then Some (0, b\<lparr>buf_data := Some (buf_bytes b), buf_cap := newcap\<rparr>)
               else Some (-1, b\<lparr>buf_error := True\<rparr>))"

definition gr_buf_write :: "(u64 \<Rightarrow> bool) \<Rightarrow> bytes \<Rightarrow> gr_buf_t \<Rightarrow> (int \<times> gr_buf_t) option" where
  "gr_buf_write realloc_ok d b =
     (case buf_ensure realloc_ok (of_nat (length d)) b of
        None \<Rightarrow> None
      | Some (rc, b') \<Rightarrow>
          if rc \<noteq> 0 then Some (-1, b')
          else Some (0, b'\<lparr>buf_data := map_option (\<lambda>x. x @ d) (buf_data b')\<rparr>))"

definition gr_buf_write_u8 :: "(u64 \<Rightarrow> bool) \<Rightarrow> byte \<Rightarrow> gr_buf_t \<Rightarrow> (int \<times> gr_buf_t) option" where
  "gr_buf_write_u8 ra v b = gr_buf_write ra [v] b"

definition gr_buf_write_u16 ::
    "bool \<Rightarrow> (u64 \<Rightarrow> bool) \<Rightarrow> u16 \<Rightarrow> gr_buf_t \<Rightarrow> (int \<times> gr_buf_t) option" where
  "gr_buf_write_u16 h ra v b = gr_buf_write ra (mem_bytes h 2 (gr_htole16 h v)) b"

definition gr_buf_write_u32 ::
    "bool \<Rightarrow> (u64 \<Rightarrow> bool) \<Rightarrow> u32 \<Rightarrow> gr_buf_t \<Rightarrow> (int \<times> gr_buf_t) option" where
  "gr_buf_write_u32 h ra v b = gr_buf_write ra (mem_bytes h 4 (gr_htole32 h v)) b"

definition gr_buf_write_i64 ::
    "bool \<Rightarrow> (u64 \<Rightarrow> bool) \<Rightarrow> i64 \<Rightarrow> gr_buf_t \<Rightarrow> (int \<times> gr_buf_t) option" where
  "gr_buf_write_i64 h ra v b = gr_buf_write ra (mem_bytes h 8 (gr_htole64 h v)) b"

text \<open>The source array is given by its bytes; \<open>strnlen\<close> stops at the first NUL or at \<open>maxlen\<close>.\<close>

definition gr_buf_write_str ::
    "bool \<Rightarrow> (u64 \<Rightarrow> bool) \<Rightarrow> bytes \<Rightarrow> nat \<Rightarrow> gr_buf_t \<Rightarrow> (int \<times> gr_buf_t) option" where
  "gr_buf_write_str h ra s maxlen b =
     (let str = c_string (take maxlen s) in
      case gr_buf_write_u32 h ra (of_nat (length str)) b of
        None \<Rightarrow> None
      | Some (rc, b') \<Rightarrow> if rc \<noteq> 0 then Some (-1, b') else gr_buf_write ra str b')"

section \<open>The read cursor\<close>

record gr_reader_t =
  rd_data :: bytes
  rd_pos :: nat

text \<open>
  A read returns the value (\<open>None\<close> for the return value -1) and the cursor.  The position is a
  natural number: \<open>pos + n\<close> does not wrap for a cursor inside an array of memory and the sizes
  below \<open>2 ^ 32\<close> that the callers pass.
\<close>

definition gr_read_bytes :: "nat \<Rightarrow> gr_reader_t \<Rightarrow> bytes option \<times> gr_reader_t" where
  "gr_read_bytes n r =
     (if length (rd_data r) < rd_pos r + n then (None, r)
      else (Some (take n (drop (rd_pos r) (rd_data r))), r\<lparr>rd_pos := rd_pos r + n\<rparr>))"

definition gr_read_u8 :: "gr_reader_t \<Rightarrow> byte option \<times> gr_reader_t" where
  "gr_read_u8 r = (case gr_read_bytes 1 r of (v, r') \<Rightarrow> (map_option hd v, r'))"

definition gr_read_u16 :: "bool \<Rightarrow> gr_reader_t \<Rightarrow> u16 option \<times> gr_reader_t" where
  "gr_read_u16 h r =
     (case gr_read_bytes 2 r of (v, r') \<Rightarrow> (map_option (\<lambda>bs. gr_le16toh h (mem_word h bs)) v, r'))"

definition gr_read_u32 :: "bool \<Rightarrow> gr_reader_t \<Rightarrow> u32 option \<times> gr_reader_t" where
  "gr_read_u32 h r =
     (case gr_read_bytes 4 r of (v, r') \<Rightarrow> (map_option (\<lambda>bs. gr_le32toh h (mem_word h bs)) v, r'))"

definition gr_read_i64 :: "bool \<Rightarrow> gr_reader_t \<Rightarrow> i64 option \<times> gr_reader_t" where
  "gr_read_i64 h r =
     (case gr_read_bytes 8 r of (v, r') \<Rightarrow> (map_option (\<lambda>bs. gr_le64toh h (mem_word h bs)) v, r'))"

text \<open>Sequencing of reads: the first failure is final.\<close>

definition rbind :: "(gr_reader_t \<Rightarrow> 'a option \<times> gr_reader_t) \<Rightarrow>
    ('a \<Rightarrow> gr_reader_t \<Rightarrow> 'b option \<times> gr_reader_t) \<Rightarrow> gr_reader_t \<Rightarrow> 'b option \<times> gr_reader_t" where
  "rbind m f r = (case m r of (None, r') \<Rightarrow> (None, r') | (Some v, r') \<Rightarrow> f v r')"

definition rreturn :: "'a \<Rightarrow> gr_reader_t \<Rightarrow> 'a option \<times> gr_reader_t" where
  "rreturn v r = (Some v, r)"

definition rfail :: "gr_reader_t \<Rightarrow> 'a option \<times> gr_reader_t" where
  "rfail r = (None, r)"

definition gr_read_str :: "bool \<Rightarrow> nat \<Rightarrow> gr_reader_t \<Rightarrow> bytes option \<times> gr_reader_t" where
  "gr_read_str h maxlen =
     rbind (gr_read_u32 h) (\<lambda>slen.
     if maxlen \<le> unat slen then rfail
     else rbind (gr_read_bytes (unat slen)) (\<lambda>bs. rreturn (c_string bs)))"

section \<open>Byte order: host independence and inverses\<close>

lemma le_bytes_inj:
  fixes v w :: "'a::len word"
  assumes "LENGTH('a) = 8 * n" and "le_bytes n v = le_bytes n w"
  shows "v = w"
  by (metis le_word_le_bytes assms)

lemma gr_swap_involutive:
  "gr_swap16 (gr_swap16 a) = a" "gr_swap32 (gr_swap32 b) = b" "gr_swap64 (gr_swap64 c) = c"
proof -
  have "le_bytes 2 (gr_swap16 (gr_swap16 a)) = le_bytes 2 a"
    using rev_le_bytes_swap16 [of "gr_swap16 a"] rev_le_bytes_swap16 [of a] by (metis rev_rev_ident)
  then show "gr_swap16 (gr_swap16 a) = a" by (rule le_bytes_inj [rotated]) simp
  have "le_bytes 4 (gr_swap32 (gr_swap32 b)) = le_bytes 4 b"
    using rev_le_bytes_swap32 [of "gr_swap32 b"] rev_le_bytes_swap32 [of b] by (metis rev_rev_ident)
  then show "gr_swap32 (gr_swap32 b) = b" by (rule le_bytes_inj [rotated]) simp
  have "le_bytes 8 (gr_swap64 (gr_swap64 c)) = le_bytes 8 c"
    using rev_le_bytes_swap64 [of "gr_swap64 c"] rev_le_bytes_swap64 [of c] by (metis rev_rev_ident)
  then show "gr_swap64 (gr_swap64 c) = c" by (rule le_bytes_inj [rotated]) simp
qed

text \<open>Whatever the byte order of the host, the bytes that reach the wire are little-endian.\<close>

lemma wire_bytes [wire_simps]:
  "mem_bytes h 2 (gr_htole16 h a) = le_bytes 2 a"
  "mem_bytes h 4 (gr_htole32 h b) = le_bytes 4 b"
  "mem_bytes h 8 (gr_htole64 h c) = le_bytes 8 c"
  by (simp_all add: mem_bytes_def gr_htole16_def gr_htole32_def gr_htole64_def
      rev_le_bytes_swap16 rev_le_bytes_swap32 rev_le_bytes_swap64)

lemma wire_words [wire_simps]:
  "gr_le16toh h (mem_word h (le_bytes 2 a)) = a"
  "gr_le32toh h (mem_word h (le_bytes 4 b)) = b"
  "gr_le64toh h (mem_word h (le_bytes 8 c)) = c"
proof -
  have *: "mem_word h (le_bytes 2 a) = gr_htole16 h a" "mem_word h (le_bytes 4 b) = gr_htole32 h b"
    "mem_word h (le_bytes 8 c) = gr_htole64 h c"
    unfolding wire_bytes(1) [of h, symmetric] wire_bytes(2) [of h, symmetric]
      wire_bytes(3) [of h, symmetric]
    by (simp_all add: mem_word_mem_bytes)
  show "gr_le16toh h (mem_word h (le_bytes 2 a)) = a" "gr_le32toh h (mem_word h (le_bytes 4 b)) = b"
    "gr_le64toh h (mem_word h (le_bytes 8 c)) = c"
    by (simp_all add: * gr_le16toh_def gr_le32toh_def gr_le64toh_def gr_htole16_def gr_htole32_def
        gr_htole64_def gr_swap_involutive)
qed

section \<open>The growth loop\<close>

lemma grow_cap_None_iff: "grow_cap n c t = None \<longleftrightarrow> (\<forall>i<n. c * 2 ^ i < t)"
  by (induction n arbitrary: c) (auto simp: All_less_Suc2 mult.assoc)

lemma grow_cap_fuel_exact:
  assumes "grow_cap 65 c t = None"
  shows "grow_cap n c t = None"
proof -
  have lt: "\<forall>i<65. c * 2 ^ i < t" using assms by (simp only: grow_cap_None_iff)
  then have pos: "c * 2 ^ 64 < t" by (rule allE [where x = 64]) simp
  have zero: "c * (2 :: u64) ^ i = 0" if "64 \<le> i" for i
  proof -
    have "(2 :: u64) ^ i = 2 ^ 64 * 2 ^ (i - 64)" using that by (simp only: power_add [symmetric]) simp
    moreover have "(2 :: u64) ^ 64 = 0" by simp
    ultimately show ?thesis by (simp only: mult_zero_left mult_zero_right)
  qed
  have "c * 2 ^ i < t" for i
  proof (cases "i < 65")
    case True
    with lt show ?thesis by blast
  next
    case False
    then have "c * 2 ^ i = c * 2 ^ 64" using zero [of i] zero [of 64] by (simp del: power_numeral)
    with pos show ?thesis by (simp only:)
  qed
  then show ?thesis by (simp only: grow_cap_None_iff) blast
qed

lemma grow_cap_stuck: "0 < t \<Longrightarrow> grow_cap n 0 t = None"
  by (simp add: grow_cap_None_iff)

lemma grow_cap_more_fuel: "grow_cap n c t = Some c' \<Longrightarrow> n \<le> m \<Longrightarrow> grow_cap m c t = Some c'"
proof (induction n arbitrary: c m)
  case (Suc n)
  then obtain k where "m = Suc k" by (cases m) auto
  with Suc show ?case by (auto split: if_splits)
qed simp

lemma grow_cap_reaches:
  assumes "unat t \<le> 2 ^ 63" and "unat t \<le> unat c * 2 ^ k"
  shows "\<exists>c'. grow_cap (Suc k) c t = Some c' \<and> t \<le> c' \<and> (c' = c \<or> unat c' < 2 * unat t)"
  using assms
proof (induction k arbitrary: c)
  case 0
  then have "t \<le> c" by (simp add: word_le_nat_alt)
  then show ?case by simp
next
  case (Suc k)
  show ?case
  proof (cases "c < t")
    case True
    then have lt: "unat c < unat t" by (simp add: word_less_nat_alt)
    with Suc.prems have two: "unat (c * 2) = unat c * 2"
      by (simp add: unat_word_ariths)
    with Suc.prems have "unat t \<le> unat (c * 2) * 2 ^ k" by simp
    from Suc.IH [OF Suc.prems(1) this] True lt two show ?thesis by auto
  next
    case False
    then show ?thesis by simp
  qed
qed

lemma grow_cap_terminates:
  assumes "0 < c" and "unat t \<le> 2 ^ 63"
  shows "\<exists>c'. grow_cap 65 c t = Some c' \<and> t \<le> c' \<and> (c' = c \<or> unat c' < 2 * unat t)"
proof -
  have "1 \<le> unat c" using assms(1) by (simp add: unat_gt_0 Suc_leI)
  then have "2 ^ 63 \<le> unat c * 2 ^ 63" by simp
  with assms(2) have "unat t \<le> unat c * 2 ^ 63" by (rule le_trans)
  then obtain c' where "grow_cap (Suc 63) c t = Some c'" "t \<le> c'" "c' = c \<or> unat c' < 2 * unat t"
    using grow_cap_reaches [OF assms(2), of c 63] by blast
  then show ?thesis using grow_cap_more_fuel [of 64 c t c' 65] by auto
qed

section \<open>Writing\<close>

text \<open>
  The invariant of a live buffer: what is written fits the capacity, the capacity is positive and
  within the address space of an object (\<open>PTRDIFF_MAX\<close>).
\<close>

definition buf_inv :: "gr_buf_t \<Rightarrow> bool" where
  "buf_inv b \<longleftrightarrow> buf_data b \<noteq> None \<and> 0 < buf_cap b \<and> length (buf_bytes b) \<le> unat (buf_cap b)
     \<and> length (buf_bytes b) < 2 ^ 63"

definition buf_ok :: "gr_buf_t \<Rightarrow> bool" where
  "buf_ok b \<longleftrightarrow> buf_inv b \<and> \<not> buf_error b"

lemma buf_len_unat: "buf_inv b \<Longrightarrow> unat (buf_len b) = length (buf_bytes b)"
  by (simp add: buf_len_def buf_inv_def unat_of_nat)

lemma buf_ensure_spec:
  assumes inv: "buf_inv b" and need: "length (buf_bytes b) + need < 2 ^ 62"
    and cap: "unat (buf_cap b) < 2 ^ 63"
  shows "\<exists>rc b'. buf_ensure ra (of_nat need) b = Some (rc, b') \<and> buf_inv b' \<and> buf_bytes b' = buf_bytes b
    \<and> unat (buf_cap b') < 2 ^ 63
    \<and> (rc = 0 \<longrightarrow> length (buf_bytes b) + need \<le> unat (buf_cap b') \<and> buf_error b' = buf_error b)
    \<and> (rc \<noteq> 0 \<longleftrightarrow> buf_error b') \<and> (rc = 0 \<or> rc = -1)
    \<and> (\<not> buf_error b \<and> (\<forall>n. ra n) \<longrightarrow> rc = 0)"
proof -
  define t where "t = buf_len b + of_nat need"
  have t: "unat t = length (buf_bytes b) + need"
    using need by (simp add: t_def buf_len_def unat_of_nat flip: of_nat_add)
  consider "buf_error b" | "\<not> buf_error b" "t \<le> buf_cap b" | "\<not> buf_error b" "buf_cap b < t"
    by force
  then show ?thesis
  proof cases
    case 1
    then show ?thesis using inv cap by (simp add: buf_ensure_def)
  next
    case 2
    then show ?thesis using inv cap t by (simp add: buf_ensure_def word_le_nat_alt flip: t_def)
  next
    case 3
    have "unat (buf_cap b * 2) = unat (buf_cap b) * 2" using cap by (simp add: unat_word_ariths)
    moreover have "0 < unat (buf_cap b)" using inv by (simp add: buf_inv_def unat_gt_0 word_gt_0)
    ultimately have "0 < buf_cap b * 2" by (simp add: word_less_nat_alt)
    then obtain c where c: "grow_cap 65 (buf_cap b * 2) t = Some c" "t \<le> c"
        "c = buf_cap b * 2 \<or> unat c < 2 * unat t"
      using grow_cap_terminates [of "buf_cap b * 2" t] t need by auto
    have "unat (buf_cap b) < unat t" using 3 by (simp add: word_less_nat_alt)
    then have "unat c < 2 ^ 63" using c(3) t need \<open>unat (buf_cap b * 2) = _\<close> by auto
    moreover have "unat t \<le> unat c" using c(2) by (simp add: word_le_nat_alt)
    ultimately show ?thesis using 3 c(1) inv cap t \<open>unat (buf_cap b) < unat t\<close>
      by (auto simp: buf_ensure_def buf_inv_def buf_bytes_def word_less_nat_alt not_le
          simp flip: t_def)
  qed
qed

text \<open>
  \<open>emits ra w d\<close>: from any live buffer with room in the address space, the void writer \<open>w\<close>
  returns; unless the sticky error flag comes up it has appended exactly \<open>d\<close>; and the flag does
  not come up when \<open>realloc\<close> succeeds.
\<close>

definition buf_room :: "gr_buf_t \<Rightarrow> nat \<Rightarrow> bool" where
  "buf_room b n \<longleftrightarrow> buf_inv b \<and> unat (buf_cap b) < 2 ^ 63 \<and> length (buf_bytes b) + n < 2 ^ 62"

definition emitted :: "(u64 \<Rightarrow> bool) \<Rightarrow> bytes \<Rightarrow> gr_buf_t \<Rightarrow> gr_buf_t \<Rightarrow> bool" where
  "emitted ra d b b' \<longleftrightarrow> buf_inv b' \<and> unat (buf_cap b') < 2 ^ 63
     \<and> length (buf_bytes b') \<le> length (buf_bytes b) + length d
     \<and> (\<not> buf_error b' \<longrightarrow> \<not> buf_error b \<and> buf_bytes b' = buf_bytes b @ d)
     \<and> (\<not> buf_error b \<longrightarrow> (\<forall>n. ra n) \<longrightarrow> \<not> buf_error b')"

definition emits :: "(u64 \<Rightarrow> bool) \<Rightarrow> (gr_buf_t \<Rightarrow> gr_buf_t option) \<Rightarrow> bytes \<Rightarrow> bool" where
  "emits ra w d \<longleftrightarrow>
     (\<forall>b. buf_room b (length d) \<longrightarrow> (\<exists>b'. w b = Some b' \<and> emitted ra d b b'))"

lemma emitted_refl: "buf_room b n \<Longrightarrow> emitted ra [] b b"
  by (simp add: emitted_def buf_room_def)

lemma emitted_room: "emitted ra d b b' \<Longrightarrow> buf_room b (length d + n) \<Longrightarrow> buf_room b' n"
  by (simp add: emitted_def buf_room_def)

lemma emitted_trans: "emitted ra d b b1 \<Longrightarrow> emitted ra d' b1 b2 \<Longrightarrow> emitted ra (d @ d') b b2"
  unfolding emitted_def by (cases "buf_error b1"; cases "buf_error b2") simp_all

text \<open>The serializers ignore the return codes and check the error flag once at the end.\<close>

fun ser_seq :: "(gr_buf_t \<Rightarrow> (int \<times> gr_buf_t) option) list \<Rightarrow> gr_buf_t \<Rightarrow> gr_buf_t option" where
  "ser_seq [] b = Some b"
| "ser_seq (w # ws) b = (case w b of None \<Rightarrow> None | Some (rc, b') \<Rightarrow> ser_seq ws b')"

lemma gr_buf_write_spec:
  assumes "buf_room b (length d)"
  shows "\<exists>rc b'. gr_buf_write ra d b = Some (rc, b') \<and> buf_inv b' \<and> unat (buf_cap b') < 2 ^ 63
    \<and> (rc = 0 \<longrightarrow> \<not> buf_error b' \<and> \<not> buf_error b \<and> buf_bytes b' = buf_bytes b @ d)
    \<and> (rc \<noteq> 0 \<longrightarrow> rc = -1 \<and> buf_error b' \<and> buf_bytes b' = buf_bytes b)
    \<and> (\<not> buf_error b \<and> (\<forall>n. ra n) \<longrightarrow> rc = 0)"
proof -
  from assms obtain rc b' where e: "buf_ensure ra (of_nat (length d)) b = Some (rc, b')" "buf_inv b'"
      "buf_bytes b' = buf_bytes b" "unat (buf_cap b') < 2 ^ 63"
      "rc = 0 \<longrightarrow> length (buf_bytes b) + length d \<le> unat (buf_cap b') \<and> buf_error b' = buf_error b"
      "rc \<noteq> 0 \<longleftrightarrow> buf_error b'" "rc = 0 \<or> rc = -1" "\<not> buf_error b \<and> (\<forall>n. ra n) \<longrightarrow> rc = 0"
    unfolding buf_room_def using buf_ensure_spec [of b "length d" ra] by blast
  obtain x where x: "buf_data b' = Some x" using e(2) by (auto simp: buf_inv_def)
  show ?thesis
  proof (cases "rc = 0")
    case True
    then show ?thesis using e assms x
      by (auto simp: gr_buf_write_def buf_inv_def buf_bytes_def buf_room_def)
  next
    case False
    then show ?thesis using e by (auto simp: gr_buf_write_def)
  qed
qed

lemma emits_write:
  assumes w: "\<And>b. w b = gr_buf_write ra d b"
  shows "emits ra (ser_seq [w]) d"
  unfolding emits_def
proof (intro allI impI)
  fix b assume room: "buf_room b (length d)"
  obtain rc b' where b': "gr_buf_write ra d b = Some (rc, b')" "buf_inv b'"
      "unat (buf_cap b') < 2 ^ 63"
      "rc = 0 \<longrightarrow> \<not> buf_error b' \<and> \<not> buf_error b \<and> buf_bytes b' = buf_bytes b @ d"
      "rc \<noteq> 0 \<longrightarrow> rc = -1 \<and> buf_error b' \<and> buf_bytes b' = buf_bytes b"
      "\<not> buf_error b \<and> (\<forall>n. ra n) \<longrightarrow> rc = 0"
    using gr_buf_write_spec [OF room, of ra] by blast
  then have "emitted ra d b b'" unfolding emitted_def by (cases "rc = 0") (simp_all, blast)
  with b'(1) show "\<exists>b'. ser_seq [w] b = Some b' \<and> emitted ra d b b'" by (simp add: w)
qed

lemma emits_nil: "emits ra (ser_seq []) []"
  by (auto simp: emits_def intro: emitted_refl)

lemma emits_then:
  assumes 1: "emits ra w1 d1" and 2: "emits ra w2 d2"
    and w: "\<And>b. w b = (case w1 b of None \<Rightarrow> None | Some b' \<Rightarrow> w2 b')"
  shows "emits ra w (d1 @ d2)"
  unfolding emits_def
proof (intro allI impI)
  fix b assume room: "buf_room b (length (d1 @ d2))"
  then have "buf_room b (length d1)" by (simp add: buf_room_def)
  with 1 obtain b1 where b1: "w1 b = Some b1" "emitted ra d1 b b1"
    unfolding emits_def by blast
  then have "buf_room b1 (length d2)" using room emitted_room by fastforce
  with 2 obtain b2 where b2: "w2 b1 = Some b2" "emitted ra d2 b1 b2"
    unfolding emits_def by blast
  with b1 show "\<exists>b'. w b = Some b' \<and> emitted ra (d1 @ d2) b b'"
    by (simp add: w emitted_trans [OF b1(2) b2(2)])
qed

lemma emits_Cons:
  assumes "emits ra (ser_seq [w]) d1" and "emits ra (ser_seq ws) d2"
  shows "emits ra (ser_seq (w # ws)) (d1 @ d2)"
  by (rule emits_then [OF assms]) (simp split: option.splits)

lemma emits_u8: "emits ra (ser_seq [gr_buf_write_u8 ra v]) [v]"
  and emits_u16: "emits ra (ser_seq [gr_buf_write_u16 h ra a]) (le_bytes 2 a)"
  and emits_u32: "emits ra (ser_seq [gr_buf_write_u32 h ra b]) (le_bytes 4 b)"
  and emits_i64: "emits ra (ser_seq [gr_buf_write_i64 h ra c]) (le_bytes 8 c)"
  and emits_bytes: "emits ra (ser_seq [gr_buf_write ra d]) d"
  by (rule emits_write; simp add: gr_buf_write_u8_def gr_buf_write_u16_def gr_buf_write_u32_def
      gr_buf_write_i64_def wire_bytes)+

text \<open>\<open>gr_buf_write_str\<close> stops at the first failure itself; the error flag is sticky.\<close>

definition str_wire :: "bytes \<Rightarrow> bytes" where
  "str_wire s = le_bytes 4 (of_nat (length s) :: u32) @ s"

lemma length_str_wire [simp]: "length (str_wire s) = length s + 4"
  by (simp add: str_wire_def)

lemma sticky_write: "buf_error b \<Longrightarrow> gr_buf_write ra d b = Some (-1, b)"
  by (simp add: gr_buf_write_def buf_ensure_def)

lemma ser_seq_write_str:
  "ser_seq [gr_buf_write_str h ra s n] b =
     ser_seq [gr_buf_write_u32 h ra (of_nat (length (c_string (take n s)))),
              gr_buf_write ra (c_string (take n s))] b"
proof -
  have rc: "rc = -1 \<and> buf_error b'" if "gr_buf_write ra d b = Some (rc, b')" "rc \<noteq> 0" for d b rc b'
    using that by (auto simp: gr_buf_write_def buf_ensure_def split: option.splits if_splits)
  show ?thesis
  proof (cases "gr_buf_write_u32 h ra (of_nat (length (c_string (take n s)))) b")
    case None
    then show ?thesis by (simp add: gr_buf_write_str_def)
  next
    case (Some x)
    obtain c b' where x: "x = (c, b')" by (cases x)
    have "buf_error b'" if "c \<noteq> 0"
      using rc [of _ b c b'] that Some x by (simp add: gr_buf_write_u32_def)
    then show ?thesis using Some x by (simp add: gr_buf_write_str_def sticky_write)
  qed
qed

lemma emits_str:
  "emits ra (ser_seq [gr_buf_write_str h ra s n]) (str_wire (c_string (take n s)))"
proof -
  have "emits ra (ser_seq [gr_buf_write_u32 h ra (of_nat (length (c_string (take n s)))),
      gr_buf_write ra (c_string (take n s))]) (str_wire (c_string (take n s)))"
    unfolding str_wire_def by (rule emits_Cons [OF emits_u32 emits_bytes])
  then show ?thesis by (simp only: emits_def ser_seq_write_str)
qed

section \<open>Reading back\<close>

text \<open>\<open>reads rd d v\<close>: on any cursor standing at \<open>d\<close>, the reader gives \<open>v\<close> and stops after \<open>d\<close>.\<close>

definition reads :: "(gr_reader_t \<Rightarrow> 'a option \<times> gr_reader_t) \<Rightarrow> bytes \<Rightarrow> 'a \<Rightarrow> bool" where
  "reads rd d v \<longleftrightarrow> (\<forall>pre post. rd \<lparr>rd_data = pre @ d @ post, rd_pos = length pre\<rparr> =
     (Some v, \<lparr>rd_data = pre @ d @ post, rd_pos = length pre + length d\<rparr>))"

lemma reads_return: "reads (rreturn v) [] v"
  by (simp add: reads_def rreturn_def)

lemma reads_bind:
  assumes m: "reads m d1 v" and f: "reads (f v) d2 u"
  shows "reads (rbind m f) (d1 @ d2) u"
  unfolding reads_def
proof (intro allI)
  fix pre post
  have "m \<lparr>rd_data = pre @ d1 @ d2 @ post, rd_pos = length pre\<rparr> =
      (Some v, \<lparr>rd_data = pre @ d1 @ d2 @ post, rd_pos = length pre + length d1\<rparr>)"
    using m unfolding reads_def by simp
  moreover have "f v \<lparr>rd_data = (pre @ d1) @ d2 @ post, rd_pos = length (pre @ d1)\<rparr> =
      (Some u, \<lparr>rd_data = (pre @ d1) @ d2 @ post, rd_pos = length (pre @ d1) + length d2\<rparr>)"
    using f unfolding reads_def by blast
  ultimately show "rbind m f \<lparr>rd_data = pre @ (d1 @ d2) @ post, rd_pos = length pre\<rparr> =
      (Some u, \<lparr>rd_data = pre @ (d1 @ d2) @ post, rd_pos = length pre + length (d1 @ d2)\<rparr>)"
    by (simp add: rbind_def add.assoc)
qed

lemma reads_bytes: "length d = n \<Longrightarrow> reads (gr_read_bytes n) d d"
  by (auto simp: reads_def gr_read_bytes_def)

lemma reads_u8: "reads gr_read_u8 [v] v"
  and reads_u16: "reads (gr_read_u16 h) (le_bytes 2 a) a"
  and reads_u32: "reads (gr_read_u32 h) (le_bytes 4 b) b"
  and reads_i64: "reads (gr_read_i64 h) (le_bytes 8 c) c"
  by (simp_all add: reads_def gr_read_u8_def gr_read_u16_def gr_read_u32_def gr_read_i64_def
      gr_read_bytes_def wire_words)

lemma reads_str:
  assumes "length s < n" and "n \<le> 2 ^ 32" and "c_string s = s"
  shows "reads (gr_read_str h n) (str_wire s) s"
proof -
  have len: "unat (of_nat (length s) :: u32) = length s" using assms by (simp add: unat_of_nat)
  have "reads (rbind (gr_read_bytes (length s)) (\<lambda>bs. rreturn (c_string bs))) (s @ []) (c_string s)"
    by (rule reads_bind [OF reads_bytes reads_return]) simp
  then show ?thesis
    unfolding gr_read_str_def str_wire_def
    using assms(1) by (intro reads_bind [OF reads_u32]) (simp add: len assms(3))
qed

text \<open>A cursor inside its array stays inside it and never moves back.\<close>

definition rd_ok :: "gr_reader_t \<Rightarrow> bool" where
  "rd_ok r \<longleftrightarrow> rd_pos r \<le> length (rd_data r)"

definition bounded :: "(gr_reader_t \<Rightarrow> 'a option \<times> gr_reader_t) \<Rightarrow> bool" where
  "bounded rd \<longleftrightarrow> (\<forall>r. rd_ok r \<longrightarrow> (case rd r of (v, r') \<Rightarrow>
     rd_ok r' \<and> rd_data r' = rd_data r \<and> rd_pos r \<le> rd_pos r'))"

lemma bounded_bind:
  assumes "bounded m" and "\<And>v. bounded (f v)"
  shows "bounded (rbind m f)"
  unfolding bounded_def
proof (intro allI impI)
  fix r assume "rd_ok r"
  obtain v r1 where m: "m r = (v, r1)" by (cases "m r")
  with assms(1) \<open>rd_ok r\<close> have 1: "rd_ok r1" "rd_data r1 = rd_data r" "rd_pos r \<le> rd_pos r1"
    by (auto simp: bounded_def)
  show "case rbind m f r of (v, r') \<Rightarrow> rd_ok r' \<and> rd_data r' = rd_data r \<and> rd_pos r \<le> rd_pos r'"
  proof (cases v)
    case None
    then show ?thesis using m 1 by (simp add: rbind_def)
  next
    case (Some x)
    obtain u r2 where f: "f x r1 = (u, r2)" by (cases "f x r1")
    with assms(2) [of x] 1(1) have "rd_ok r2 \<and> rd_data r2 = rd_data r1 \<and> rd_pos r1 \<le> rd_pos r2"
      unfolding bounded_def by fastforce
    then show ?thesis using m 1 f Some by (simp add: rbind_def)
  qed
qed

lemma bounded_basic:
  "bounded (gr_read_bytes n)" "bounded gr_read_u8" "bounded (gr_read_u16 h)"
  "bounded (gr_read_u32 h)" "bounded (gr_read_i64 h)" "bounded (rreturn v)" "bounded rfail"
  by (auto simp: bounded_def gr_read_bytes_def gr_read_u8_def gr_read_u16_def gr_read_u32_def
      gr_read_i64_def rreturn_def rfail_def rd_ok_def)

lemma bounded_str: "bounded (gr_read_str h n)"
  unfolding gr_read_str_def by (intro bounded_bind bounded_basic) (simp add: bounded_bind bounded_basic)

end
