(* ===== verification/Crypto_Aead.thy ===== *)
theory Crypto_Aead imports Buf
begin

text \<open>
  The constructions of \<open>src/src/crypto/crypto.c\<close> over the Skein/Threefish primitives: the raw block
  cipher recovered from the compression function, counter mode, encrypt-then-MAC, its variant with
  pre-derived subkeys, HKDF, the key combiners and the session lifetime.

  The vendored Skein reference code (\<open>skein.c\<close>, \<open>skein_block.c\<close>) is the parameter \<open>yumi_prims\<close>:
  \<open>skein_block\<close> is \<open>Skein1024_Process_Block\<close> on one block (key, tweak, block; the new chaining value)
  and \<open>skein_mac\<close> the keyed hash.  Its streaming interface is the keyed hash of the bytes absorbed.
\<close>

record yumi_prims =
  skein_block :: "u64 list \<Rightarrow> u64 list \<Rightarrow> u64 list \<Rightarrow> u64 list"
  skein_mac :: "bytes \<Rightarrow> bytes \<Rightarrow> bytes"
  host_le :: bool

datatype yumi_crypto_err_t =
    YUMI_CRYPTO_OK | YUMI_CRYPTO_ERR_INVALID_PARAM | YUMI_CRYPTO_ERR_KEYGEN | YUMI_CRYPTO_ERR_SIGN
  | YUMI_CRYPTO_ERR_VERIFY | YUMI_CRYPTO_ERR_ENCAPS | YUMI_CRYPTO_ERR_DECAPS | YUMI_CRYPTO_ERR_ECDH
  | YUMI_CRYPTO_ERR_ENCRYPT | YUMI_CRYPTO_ERR_DECRYPT | YUMI_CRYPTO_ERR_HASH | YUMI_CRYPTO_ERR_KDF
  | YUMI_CRYPTO_ERR_RNG | YUMI_CRYPTO_ERR_INIT | YUMI_CRYPTO_ERR_PROVIDER | YUMI_CRYPTO_ERR_BUFFER_TOO_SMALL

abbreviation (input) YUMI_SKEIN_MAC_LEN :: nat where "YUMI_SKEIN_MAC_LEN \<equiv> 128"
abbreviation (input) YUMI_THREEFISH_BLOCK_LEN :: nat where "YUMI_THREEFISH_BLOCK_LEN \<equiv> 128"
abbreviation (input) YUMI_AEAD_NONCE_LEN :: nat where "YUMI_AEAD_NONCE_LEN \<equiv> 16"
abbreviation (input) YUMI_AEAD_TAG_LEN :: nat where "YUMI_AEAD_TAG_LEN \<equiv> 128"
abbreviation (input) YUMI_TRANSPORT_KEY_LEN :: nat where "YUMI_TRANSPORT_KEY_LEN \<equiv> 128"
abbreviation (input) HKDF_INFO_BUF_SIZE :: nat where "HKDF_INFO_BUF_SIZE \<equiv> 256"
abbreviation (input) YUMI_SESSION_TIMEOUT_BASE :: u32 where "YUMI_SESSION_TIMEOUT_BASE \<equiv> 3600"
abbreviation (input) YUMI_SESSION_TIMEOUT_JITTER :: u32 where "YUMI_SESSION_TIMEOUT_JITTER \<equiv> 300"

section \<open>The block cipher\<close>

text \<open>The compression function adds the block to its result; the code takes it off again.\<close>

definition threefish1024_encrypt :: "'z yumi_prims_scheme \<Rightarrow> u64 list \<Rightarrow> u64 list \<Rightarrow> u64 list \<Rightarrow> u64 list" where
  "threefish1024_encrypt p key tweak plain = map2 (XOR) (skein_block p key tweak plain) plain"

text \<open>\<open>memcpy\<close> between a byte array and an array of \<open>uint64_t\<close>.\<close>

fun words_of :: "bool \<Rightarrow> nat \<Rightarrow> bytes \<Rightarrow> u64 list" where
  "words_of h 0 bs = []"
| "words_of h (Suc n) bs = mem_word h (take 8 bs) # words_of h n (drop 8 bs)"

definition bytes_of :: "bool \<Rightarrow> u64 list \<Rightarrow> bytes" where
  "bytes_of h ws = concat (map (mem_bytes h 8) ws)"

definition yumi_threefish_encrypt_block :: "'z yumi_prims_scheme \<Rightarrow> bytes \<Rightarrow> bytes \<Rightarrow> bytes \<Rightarrow> bytes" where
  "yumi_threefish_encrypt_block p inp key tweak =
     bytes_of (host_le p) (threefish1024_encrypt p (words_of (host_le p) 16 key)
       (words_of (host_le p) 2 tweak) (words_of (host_le p) 16 inp))"

section \<open>Counter mode\<close>

text \<open>
  One chunk of at most a block: whole words are combined with the cipher words, the tail with the
  bytes of the key stream.
\<close>

fun xor_words :: "bool \<Rightarrow> u64 list \<Rightarrow> nat \<Rightarrow> bytes \<Rightarrow> bytes" where
  "xor_words h cw 0 src = []"
| "xor_words h cw (Suc n) src =
     mem_bytes h 8 ((mem_word h (take 8 src) :: u64) XOR hd cw) @ xor_words h (tl cw) n (drop 8 src)"

definition xor_chunk :: "bool \<Rightarrow> u64 list \<Rightarrow> bytes \<Rightarrow> bytes" where
  "xor_chunk h cw src =
     (let full = length src div 8 in
      xor_words h cw full src
      @ map2 (XOR) (drop (full * 8) src) (drop (full * 8) (bytes_of h cw)))"

function ctr_loop :: "'z yumi_prims_scheme \<Rightarrow> u64 list \<Rightarrow> u64 list \<Rightarrow> bytes \<Rightarrow> bytes" where
  "ctr_loop p key_words counter inp =
     (if inp = [] then []
      else xor_chunk (host_le p) (threefish1024_encrypt p key_words [0, 0] counter)
             (take YUMI_THREEFISH_BLOCK_LEN inp)
           @ ctr_loop p key_words (counter[15 := counter ! 15 + 1]) (drop YUMI_THREEFISH_BLOCK_LEN inp))"
  by pat_completeness auto
termination
  by (relation "measure (\<lambda>(p, k, c, inp). length inp)") auto

declare ctr_loop.simps [simp del]

definition ctr_start :: "bool \<Rightarrow> bytes \<Rightarrow> u64 list" where
  "ctr_start h nonce = words_of h 16 (nonce @ replicate (128 - YUMI_AEAD_NONCE_LEN) 0)"

definition threefish_ctr :: "'z yumi_prims_scheme \<Rightarrow> bytes \<Rightarrow> bytes \<Rightarrow> bytes \<Rightarrow> bytes" where
  "threefish_ctr p inp key nonce =
     ctr_loop p (words_of (host_le p) 16 key) (ctr_start (host_le p) nonce) inp"

section \<open>Encrypt-then-MAC\<close>

definition enc_label :: bytes where "enc_label = cstr ''yumi-aead-enc''"
definition mac_label :: bytes where "mac_label = cstr ''yumi-aead-mac''"

definition aead_mac_input :: "bool \<Rightarrow> bytes \<Rightarrow> bytes \<Rightarrow> bytes \<Rightarrow> bytes" where
  "aead_mac_input h nonce aad ct = nonce @ mem_bytes h 8 (of_nat (length aad) :: u64) @ aad @ ct"

definition yumi_aead_encrypt :: "'z yumi_prims_scheme \<Rightarrow> bool \<Rightarrow> bytes \<Rightarrow> bytes \<Rightarrow> bytes \<Rightarrow> bytes \<Rightarrow>
    yumi_crypto_err_t + bytes" where
  "yumi_aead_encrypt p malloc_ok plaintext aad nonce key =
     (let enc_key = skein_mac p key enc_label;
          mac_key = skein_mac p key mac_label;
          ct = threefish_ctr p plaintext enc_key nonce
      in if \<not> malloc_ok then Inl YUMI_CRYPTO_ERR_ENCRYPT
         else Inr (ct @ skein_mac p mac_key (aead_mac_input (host_le p) nonce aad ct)))"

definition yumi_aead_decrypt :: "'z yumi_prims_scheme \<Rightarrow> bool \<Rightarrow> bytes \<Rightarrow> bytes \<Rightarrow> bytes \<Rightarrow> bytes \<Rightarrow>
    yumi_crypto_err_t + bytes" where
  "yumi_aead_decrypt p malloc_ok ciphertext aad nonce key =
     (if length ciphertext < YUMI_AEAD_TAG_LEN then Inl YUMI_CRYPTO_ERR_DECRYPT
      else let ct_only_len = length ciphertext - YUMI_AEAD_TAG_LEN;
               received_tag = drop ct_only_len ciphertext;
               ct = take ct_only_len ciphertext;
               enc_key = skein_mac p key enc_label;
               mac_key = skein_mac p key mac_label
           in if \<not> malloc_ok then Inl YUMI_CRYPTO_ERR_DECRYPT
              else if skein_mac p mac_key (aead_mac_input (host_le p) nonce aad ct) \<noteq> received_tag
              then Inl YUMI_CRYPTO_ERR_DECRYPT
              else Inr (threefish_ctr p ct enc_key nonce))"

section \<open>Pre-derived subkeys\<close>

record skein_ctx =
  ctx_key :: bytes
  ctx_absorbed :: bytes

definition Skein1024_Update :: "skein_ctx \<Rightarrow> bytes \<Rightarrow> skein_ctx" where
  "Skein1024_Update ctx d = ctx\<lparr>ctx_absorbed := ctx_absorbed ctx @ d\<rparr>"

definition Skein1024_Final :: "'z yumi_prims_scheme \<Rightarrow> skein_ctx \<Rightarrow> bytes" where
  "Skein1024_Final p ctx = skein_mac p (ctx_key ctx) (ctx_absorbed ctx)"

record yumi_aead_subkeys_t =
  sk_enc_key :: bytes
  sk_mac_key :: bytes
  sk_mac_ctx :: skein_ctx

definition yumi_aead_derive_subkeys :: "'z yumi_prims_scheme \<Rightarrow> bytes \<Rightarrow> yumi_aead_subkeys_t" where
  "yumi_aead_derive_subkeys p key =
     (let mac_key = skein_mac p key mac_label in
      \<lparr>sk_enc_key = skein_mac p key enc_label, sk_mac_key = mac_key,
       sk_mac_ctx = \<lparr>ctx_key = mac_key, ctx_absorbed = []\<rparr>\<rparr>)"

text \<open>The updates of the cached context; the empty ones are skipped.\<close>

definition mac_stream :: "'z yumi_prims_scheme \<Rightarrow> yumi_aead_subkeys_t \<Rightarrow> bytes \<Rightarrow> bytes \<Rightarrow> bytes \<Rightarrow> bytes" where
  "mac_stream p sk nonce aad ct =
     (let ctx1 = Skein1024_Update (sk_mac_ctx sk) nonce;
          ctx2 = Skein1024_Update ctx1 (mem_bytes (host_le p) 8 (of_nat (length aad) :: u64));
          ctx3 = (if aad \<noteq> [] then Skein1024_Update ctx2 aad else ctx2);
          ctx4 = (if ct \<noteq> [] then Skein1024_Update ctx3 ct else ctx3)
      in Skein1024_Final p ctx4)"

definition yumi_aead_encrypt_keyed :: "'z yumi_prims_scheme \<Rightarrow> bytes \<Rightarrow> bytes \<Rightarrow> bytes \<Rightarrow>
    yumi_aead_subkeys_t \<Rightarrow> yumi_crypto_err_t + bytes" where
  "yumi_aead_encrypt_keyed p plaintext aad nonce sk =
     (let ct = threefish_ctr p plaintext (sk_enc_key sk) nonce in Inr (ct @ mac_stream p sk nonce aad ct))"

definition yumi_aead_decrypt_keyed :: "'z yumi_prims_scheme \<Rightarrow> bytes \<Rightarrow> bytes \<Rightarrow> bytes \<Rightarrow>
    yumi_aead_subkeys_t \<Rightarrow> yumi_crypto_err_t + bytes" where
  "yumi_aead_decrypt_keyed p ciphertext aad nonce sk =
     (if length ciphertext < YUMI_AEAD_TAG_LEN then Inl YUMI_CRYPTO_ERR_DECRYPT
      else let ct_only_len = length ciphertext - YUMI_AEAD_TAG_LEN;
               received_tag = drop ct_only_len ciphertext;
               ct = take ct_only_len ciphertext
           in if mac_stream p sk nonce aad ct \<noteq> received_tag then Inl YUMI_CRYPTO_ERR_DECRYPT
              else Inr (threefish_ctr p ct (sk_enc_key sk) nonce))"

section \<open>HKDF and the key combiners\<close>

text \<open>
  The expand loop: \<open>n\<close> counts the leases of the scratch buffer, \<open>remaining\<close> is \<open>okm_len - offset\<close>.
  \<open>None\<close> is the failed assertion on the size of the buffer.
\<close>

function hkdf_expand :: "'z yumi_prims_scheme \<Rightarrow> (nat \<Rightarrow> bool) \<Rightarrow> bytes \<Rightarrow> bytes \<Rightarrow> bytes \<Rightarrow> byte \<Rightarrow>
    nat \<Rightarrow> nat \<Rightarrow> (yumi_crypto_err_t + bytes) option" where
  "hkdf_expand p lease_ok prk info t_prev counter n remaining =
     (if remaining = 0 then Some (Inr [])
      else if HKDF_INFO_BUF_SIZE \<le> length t_prev + length info + 1 then None
      else if \<not> lease_ok n then Some (Inl YUMI_CRYPTO_ERR_KDF)
      else let t_cur = skein_mac p prk (t_prev @ info @ [counter]);
               to_copy = min remaining YUMI_SKEIN_MAC_LEN
           in (case hkdf_expand p lease_ok prk info t_cur (counter + 1) (Suc n) (remaining - to_copy) of
                 None \<Rightarrow> None
               | Some (Inl err) \<Rightarrow> Some (Inl err)
               | Some (Inr okm) \<Rightarrow> Some (Inr (take to_copy t_cur @ okm))))"
  by pat_completeness auto
termination
  by (relation "measure (\<lambda>(p, l, prk, info, t, c, n, r). r)") auto

declare hkdf_expand.simps [simp del]

definition yumi_hkdf :: "'z yumi_prims_scheme \<Rightarrow> (nat \<Rightarrow> bool) \<Rightarrow> nat \<Rightarrow> bytes \<Rightarrow> bytes option \<Rightarrow> bytes \<Rightarrow>
    (yumi_crypto_err_t + bytes) option" where
  "yumi_hkdf p lease_ok okm_len ikm salt info =
     (let salt' = (case salt of None \<Rightarrow> replicate 128 0 | Some s \<Rightarrow> s)
      in hkdf_expand p lease_ok (skein_mac p salt' ikm) info [] 1 0 okm_len)"

definition yumi_combine_invite_keys :: "'z yumi_prims_scheme \<Rightarrow> bool \<Rightarrow> (nat \<Rightarrow> bool) \<Rightarrow> bytes \<Rightarrow> bytes \<Rightarrow>
    bytes \<Rightarrow> (yumi_crypto_err_t + bytes) option" where
  "yumi_combine_invite_keys p malloc_ok lease_ok k1 k2 k3 =
     (if \<not> malloc_ok then Some (Inl YUMI_CRYPTO_ERR_KDF)
      else yumi_hkdf p lease_ok YUMI_TRANSPORT_KEY_LEN (k1 @ k2 @ k3) None (cstr ''yumi-invite-v1''))"

definition yumi_combine_peer_keys :: "'z yumi_prims_scheme \<Rightarrow> bool \<Rightarrow> (nat \<Rightarrow> bool) \<Rightarrow> bytes \<Rightarrow> bytes \<Rightarrow>
    (yumi_crypto_err_t + bytes) option" where
  "yumi_combine_peer_keys p malloc_ok lease_ok k1 k2 =
     (if \<not> malloc_ok then Some (Inl YUMI_CRYPTO_ERR_KDF)
      else yumi_hkdf p lease_ok YUMI_TRANSPORT_KEY_LEN (k1 @ k2) None (cstr ''yumi-peer-v1''))"

definition yumi_derive_transport_key :: "'z yumi_prims_scheme \<Rightarrow> (nat \<Rightarrow> bool) \<Rightarrow> bytes \<Rightarrow> bytes \<Rightarrow>
    (yumi_crypto_err_t + bytes) option" where
  "yumi_derive_transport_key p lease_ok temp_key epoch_key =
     yumi_hkdf p lease_ok YUMI_TRANSPORT_KEY_LEN (temp_key @ epoch_key) None (cstr ''yumi-transport-v1'')"

text \<open>The session lifetime in seconds from a random 32-bit word (\<open>None\<close>: no randomness).\<close>

definition yumi_session_timeout :: "u32 option \<Rightarrow> u32" where
  "yumi_session_timeout jitter =
     (case jitter of
        None \<Rightarrow> YUMI_SESSION_TIMEOUT_BASE
      | Some j \<Rightarrow> YUMI_SESSION_TIMEOUT_BASE
                  + (j mod (2 * YUMI_SESSION_TIMEOUT_JITTER + 1) - YUMI_SESSION_TIMEOUT_JITTER))"

section \<open>Counter mode is a stream cipher\<close>

text \<open>What the vendored primitives guarantee: a block is 16 words, a MAC is 128 bytes.\<close>

definition prims_ok :: "'z yumi_prims_scheme \<Rightarrow> bool" where
  "prims_ok p \<longleftrightarrow> (\<forall>k t b. length b = 16 \<longrightarrow> length (skein_block p k t b) = 16)
     \<and> (\<forall>k d. length (skein_mac p k d) = YUMI_SKEIN_MAC_LEN)"

lemma map2_xor_self: "length xs \<le> length ks \<Longrightarrow> map2 (XOR) (map2 (XOR) xs ks) ks = (xs :: 'a::len word list)"
  by (induction xs ks rule: list_induct2') (simp_all add: xor.assoc)

lemma map2_split: "map2 f (take n xs) (take n ys) @ map2 f (drop n xs) (drop n ys) = map2 f xs ys"
proof -
  have "map2 f (take n xs) (take n ys) @ map2 f (drop n xs) (drop n ys)
      = take n (map2 f xs ys) @ drop n (map2 f xs ys)"
    by (simp only: take_map drop_map take_zip drop_zip)
  then show ?thesis by (simp only: append_take_drop_id)
qed

lemma map2_head:
  "length bs = n \<Longrightarrow> map2 f (take n xs) bs @ map2 f (drop n xs) cs = map2 f xs (bs @ cs)"
  using map2_split [of f n xs "bs @ cs"] by simp

lemma mem_bytes_xor:
  assumes "length bs = 8"
  shows "mem_bytes h 8 ((mem_word h bs :: u64) XOR w) = map2 (XOR) bs (mem_bytes h 8 w)"
proof -
  have le: "le_bytes 8 ((le_word cs :: u64) XOR w) = map2 (XOR) cs (le_bytes 8 w)" if "length cs = 8" for cs
  proof (rule nth_equalityI)
    fix i assume "i < length (le_bytes 8 ((le_word cs :: u64) XOR w))"
    then have i: "i < 8" by simp
    show "le_bytes 8 ((le_word cs :: u64) XOR w) ! i = map2 (XOR) cs (le_bytes 8 w) ! i"
    proof (rule bit_word_eqI)
      fix k assume "k < LENGTH(8)"
      then have "k < 8" by simp
      then have "(8 * i + k) div 8 = i" "(8 * i + k) mod 8 = k" "8 * i + k < 64" using i by simp_all
      then show "bit (le_bytes 8 ((le_word cs :: u64) XOR w) ! i) k \<longleftrightarrow> bit (map2 (XOR) cs (le_bytes 8 w) ! i) k"
        using i that \<open>k < 8\<close> by (simp add: bit_le_bytes bit_xor_iff bit_le_word)
    qed
  qed (use that in simp)
  show ?thesis
  proof (cases h)
    case True
    then show ?thesis using le [OF assms] by (simp add: mem_bytes_def mem_word_def)
  next
    case False
    have "map2 (XOR) bs (rev (le_bytes 8 w)) = rev (map2 (XOR) (rev bs) (le_bytes 8 w))"
      using assms zip_rev [of "rev bs" "le_bytes 8 w"] by (simp add: rev_map)
    then show ?thesis using False le [of "rev bs"] assms by (simp add: mem_bytes_def mem_word_def)
  qed
qed

lemma length_bytes_of [simp]: "length (bytes_of h ws) = 8 * length ws"
  by (induction ws) (simp_all add: bytes_of_def)

lemma length_words_of [simp]: "length (words_of h n bs) = n"
  by (induction n arbitrary: bs) simp_all

lemma xor_words_spec:
  "8 * n \<le> length src \<Longrightarrow> n \<le> length cw \<Longrightarrow>
   xor_words h cw n src = map2 (XOR) (take (8 * n) src) (take (8 * n) (bytes_of h cw))"
proof (induction n arbitrary: src cw)
  case 0
  then show ?case by simp
next
  case (Suc n)
  then obtain w ws where cw: "cw = w # ws" by (cases cw) auto
  have split: "take (8 * Suc n) xs = take 8 xs @ take (8 * n) (drop 8 xs)" for xs :: bytes
    by (simp add: take_add [of 8 "8 * n", simplified] add.commute)
  have b: "take 8 (bytes_of h cw) = mem_bytes h 8 w" "drop 8 (bytes_of h cw) = bytes_of h ws"
    by (simp_all add: cw bytes_of_def)
  show ?case
    using Suc.prems Suc.IH [of "drop 8 src" ws] mem_bytes_xor [of "take 8 src" h w]
    unfolding split b by (simp add: cw)
qed

text \<open>The word-wise combination is the byte-wise one.\<close>

lemma xor_chunk_spec:
  assumes "length src \<le> 8 * length cw"
  shows "xor_chunk h cw src = map2 (XOR) src (bytes_of h cw)"
proof -
  define n where "n = length src div 8"
  have n: "8 * n \<le> length src" "n \<le> length cw" using assms by (simp_all add: n_def)
  have "xor_chunk h cw src = map2 (XOR) (take (8 * n) src) (take (8 * n) (bytes_of h cw))
      @ map2 (XOR) (drop (8 * n) src) (drop (8 * n) (bytes_of h cw))"
    unfolding xor_words_spec [OF n, symmetric]
    by (simp only: xor_chunk_def n_def Let_def mult.commute [of _ 8])
  then show ?thesis by (simp only: map2_split)
qed

text \<open>The key stream, block after block.\<close>

fun keystream :: "'z yumi_prims_scheme \<Rightarrow> u64 list \<Rightarrow> u64 list \<Rightarrow> nat \<Rightarrow> bytes" where
  "keystream p k c 0 = []"
| "keystream p k c (Suc n) =
     bytes_of (host_le p) (threefish1024_encrypt p k [0, 0] c) @ keystream p k (c[15 := c ! 15 + 1]) n"

lemma length_threefish:
  "prims_ok p \<Longrightarrow> length c = 16 \<Longrightarrow> length (threefish1024_encrypt p k t c) = 16"
  by (simp add: threefish1024_encrypt_def prims_ok_def)

lemma length_keystream: "prims_ok p \<Longrightarrow> length c = 16 \<Longrightarrow> length (keystream p k c n) = 128 * n"
  by (induction n arbitrary: c) (simp_all add: length_threefish)

lemma ctr_loop_keystream:
  assumes "prims_ok p" and "length c = 16" and "length inp \<le> 128 * n"
  shows "ctr_loop p k c inp = map2 (XOR) inp (keystream p k c n)"
  using assms
proof (induction n arbitrary: c inp)
  case 0
  then show ?case by (simp add: ctr_loop.simps)
next
  case (Suc n)
  show ?case
  proof (cases "inp = []")
    case True
    then show ?thesis by (simp add: ctr_loop.simps)
  next
    case False
    let ?cw = "threefish1024_encrypt p k [0, 0] c"
    have cw: "length ?cw = 16" by (rule length_threefish [OF Suc.prems(1,2)])
    have head: "xor_chunk (host_le p) ?cw (take 128 inp) = map2 (XOR) (take 128 inp) (bytes_of (host_le p) ?cw)"
      by (rule xor_chunk_spec) (simp add: cw)
    have tail: "ctr_loop p k (c[15 := c ! 15 + 1]) (drop 128 inp) =
        map2 (XOR) (drop 128 inp) (keystream p k (c[15 := c ! 15 + 1]) n)"
      by (rule Suc.IH) (use Suc.prems in simp_all)
    have "map2 (XOR) inp (keystream p k c (Suc n)) = map2 (XOR) (take 128 inp) (bytes_of (host_le p) ?cw)
        @ map2 (XOR) (drop 128 inp) (keystream p k (c[15 := c ! 15 + 1]) n)"
      unfolding keystream.simps by (rule map2_head [symmetric]) (simp add: cw)
    then show ?thesis using False head tail by (simp add: ctr_loop.simps [of p k c inp])
  qed
qed

lemma ctr_start_length [simp]: "length (ctr_start h nonce) = 16"
  by (simp add: ctr_start_def)

lemma threefish_ctr_keystream:
  assumes "prims_ok p"
  shows "threefish_ctr p inp key nonce =
    map2 (XOR) inp (keystream p (words_of (host_le p) 16 key) (ctr_start (host_le p) nonce) (length inp))"
  unfolding threefish_ctr_def by (rule ctr_loop_keystream [OF assms]) simp_all

lemma length_threefish_ctr: "prims_ok p \<Longrightarrow> length (threefish_ctr p inp key nonce) = length inp"
  by (simp add: threefish_ctr_keystream length_keystream)

lemma threefish_ctr_involutive:
  "prims_ok p \<Longrightarrow> threefish_ctr p (threefish_ctr p inp key nonce) key nonce = inp"
  by (simp add: threefish_ctr_keystream length_keystream map2_xor_self)

section \<open>Authenticated encryption\<close>

lemma aead_roundtrip:
  assumes "prims_ok p" and "yumi_aead_encrypt p True plaintext aad nonce key = Inr ct"
  shows "yumi_aead_decrypt p True ct aad nonce key = Inr plaintext"
    and "length ct = length plaintext + YUMI_AEAD_TAG_LEN"
  using assms length_threefish_ctr [OF assms(1)] threefish_ctr_involutive [OF assms(1)]
  by (auto simp: yumi_aead_encrypt_def yumi_aead_decrypt_def Let_def prims_ok_def)

text \<open>Decryption accepts exactly the byte strings that encryption produces.\<close>

lemma aead_decrypt_iff:
  assumes "prims_ok p"
  shows "yumi_aead_decrypt p True ct aad nonce key = Inr plaintext \<longleftrightarrow>
    yumi_aead_encrypt p True plaintext aad nonce key = Inr ct"
proof
  assume "yumi_aead_encrypt p True plaintext aad nonce key = Inr ct"
  then show "yumi_aead_decrypt p True ct aad nonce key = Inr plaintext"
    by (rule aead_roundtrip [OF assms])
next
  let ?body = "take (length ct - 128) ct" and ?ek = "skein_mac p key enc_label"
  assume d: "yumi_aead_decrypt p True ct aad nonce key = Inr plaintext"
  then have tag: "skein_mac p (skein_mac p key mac_label) (aead_mac_input (host_le p) nonce aad ?body) =
      drop (length ct - 128) ct" and pt: "plaintext = threefish_ctr p ?body ?ek nonce"
    by (auto simp: yumi_aead_decrypt_def Let_def split: if_splits)
  have "threefish_ctr p plaintext ?ek nonce = ?body"
    using threefish_ctr_involutive [OF assms] by (simp add: pt)
  then show "yumi_aead_encrypt p True plaintext aad nonce key = Inr ct"
    by (simp add: yumi_aead_encrypt_def Let_def tag)
qed

lemma mac_stream_spec:
  "mac_stream p (yumi_aead_derive_subkeys p key) nonce aad ct =
   skein_mac p (skein_mac p key mac_label) (aead_mac_input (host_le p) nonce aad ct)"
  by (simp add: mac_stream_def yumi_aead_derive_subkeys_def Skein1024_Update_def Skein1024_Final_def
      aead_mac_input_def Let_def)

lemma aead_keyed_equiv:
  "yumi_aead_encrypt_keyed p plaintext aad nonce (yumi_aead_derive_subkeys p key) =
     yumi_aead_encrypt p True plaintext aad nonce key"
  "yumi_aead_decrypt_keyed p ct aad nonce (yumi_aead_derive_subkeys p key) =
     yumi_aead_decrypt p True ct aad nonce key"
proof -
  have ek: "sk_enc_key (yumi_aead_derive_subkeys p key) = skein_mac p key enc_label"
    by (simp add: yumi_aead_derive_subkeys_def Let_def)
  show "yumi_aead_encrypt_keyed p plaintext aad nonce (yumi_aead_derive_subkeys p key) =
      yumi_aead_encrypt p True plaintext aad nonce key"
    by (simp add: yumi_aead_encrypt_keyed_def yumi_aead_encrypt_def mac_stream_spec ek Let_def)
  show "yumi_aead_decrypt_keyed p ct aad nonce (yumi_aead_derive_subkeys p key) =
      yumi_aead_decrypt p True ct aad nonce key"
    by (simp add: yumi_aead_decrypt_keyed_def yumi_aead_decrypt_def mac_stream_spec ek Let_def)
qed

section \<open>Key derivation\<close>

text \<open>The reference: the blocks \<open>T(1), T(2), ...\<close> of RFC 5869.\<close>

fun hkdf_blocks :: "'z yumi_prims_scheme \<Rightarrow> bytes \<Rightarrow> bytes \<Rightarrow> bytes \<Rightarrow> byte \<Rightarrow> nat \<Rightarrow> bytes" where
  "hkdf_blocks p prk info t c 0 = []"
| "hkdf_blocks p prk info t c (Suc n) =
     (let t' = skein_mac p prk (t @ info @ [c]) in t' @ hkdf_blocks p prk info t' (c + 1) n)"

lemma length_hkdf_blocks: "prims_ok p \<Longrightarrow> length (hkdf_blocks p prk info t c n) = 128 * n"
  by (induction n arbitrary: t c) (simp_all add: Let_def prims_ok_def)

lemma hkdf_expand_spec:
  assumes "prims_ok p" and "length info \<le> 126" and "length t \<le> 128" and "\<And>n. lease n"
    and "remaining \<le> 128 * m"
  shows "hkdf_expand p lease prk info t c n remaining = Some (Inr (take remaining (hkdf_blocks p prk info t c m)))"
  using assms
proof (induction m arbitrary: t c n remaining)
  case 0
  then show ?case by (simp add: hkdf_expand.simps)
next
  case (Suc m)
  show ?case
  proof (cases "remaining = 0")
    case True
    then show ?thesis by (simp add: hkdf_expand.simps)
  next
    case False
    let ?t = "skein_mac p prk (t @ info @ [c])"
    have len: "length ?t = 128" using Suc.prems(1) by (simp add: prims_ok_def)
    have ih: "hkdf_expand p lease prk info ?t (c + 1) (Suc n) (remaining - min remaining 128) =
        Some (Inr (take (remaining - min remaining 128) (hkdf_blocks p prk info ?t (c + 1) m)))"
      by (rule Suc.IH) (use Suc.prems len in auto)
    have "take remaining (?t @ hkdf_blocks p prk info ?t (c + 1) m) =
        take (min remaining 128) ?t @ take (remaining - min remaining 128) (hkdf_blocks p prk info ?t (c + 1) m)"
      using len by (simp add: min_def)
    then show ?thesis
      using False Suc.prems(2,3,4) ih by (subst hkdf_expand.simps) (simp only: Let_def hkdf_blocks.simps
        simp_thms if_False option.case sum.case, simp)
  qed
qed

lemma hkdf_ok:
  assumes "prims_ok p" and "length info \<le> 126" and "\<And>n. lease n"
  shows "yumi_hkdf p lease len ikm salt info = Some (Inr (take len (hkdf_blocks p
      (skein_mac p (case salt of None \<Rightarrow> replicate 128 0 | Some s \<Rightarrow> s) ikm) info [] 1 len)))"
  unfolding yumi_hkdf_def Let_def by (rule hkdf_expand_spec) (use assms in auto)

text \<open>The session lifetime stays within five minutes of an hour.\<close>

lemma session_timeout_bounds: "3300 \<le> yumi_session_timeout j \<and> yumi_session_timeout j \<le> 3900"
proof (cases j)
  case None
  then show ?thesis by (simp add: yumi_session_timeout_def)
next
  case (Some w)
  define m where "m = w mod 601"
  have "m < 601" unfolding m_def by (rule word_mod_less_divisor) simp
  then have "unat m < 601" by (simp add: word_less_nat_alt)
  moreover have "yumi_session_timeout j = 3300 + m"
    using Some by (simp add: yumi_session_timeout_def m_def)
  moreover have "unat (3300 + m) = 3300 + unat m"
    using \<open>unat m < 601\<close> by (simp add: unat_word_ariths)
  ultimately show ?thesis by (simp add: word_le_nat_alt)
qed

end
