(* ===== verification/Registrar_State.thy ===== *)
theory Registrar_State imports Registrar_Db Crypto_Aead "HOL-Library.Signed_Division"
begin

text \<open>
  The registrar handle \<open>struct gr_registrar\<close> (\<open>internal.h\<close>), the engine calls it makes, the nestable
  transaction helpers and the header persistence of \<open>src/src/group_registrar/db.c\<close>.

  Everything outside the registrar's own code is the parameter \<open>yumi_env\<close>: whether the engine
  answers a call with success, the clock, the cryptographic primitives, the allocator and the
  bytes found in a local array that was never written (\<open>uninit\<close>).  The
  handle counts its external calls (\<open>reg_calls\<close>), and the environment answers the n-th call, so
  any call may fail at any point.  The lock \<open>GR_LOCK\<close> is recursive and every operation holds it
  for its database work; the model is the resulting sequence of operations.

  \<open>reg_saved\<close> is the engine's side of a transaction: the database at \<open>BEGIN\<close>.  A failed
  \<open>COMMIT\<close> leaves the transaction rolled back; a \<open>COMMIT\<close> or \<open>ROLLBACK\<close> outside a transaction
  fails and changes nothing; a statement outside a transaction takes effect at once.
\<close>

section \<open>The environment\<close>

datatype db_call = DbBegin | DbCommit | DbRollback | DbRaw | DbBind | DbStmt

record yumi_env = yumi_prims +
  db_ok :: "db_call \<Rightarrow> nat \<Rightarrow> bool"
  clock_sec :: "nat \<Rightarrow> i64"
  clock_nsec :: "nat \<Rightarrow> i64"
  skein_ok :: "nat \<Rightarrow> bool"
  skein :: "bytes \<Rightarrow> bytes"
  mldsa_sign :: "nat \<Rightarrow> bytes \<Rightarrow> bytes \<Rightarrow> bytes option"
  mldsa_verify :: "bytes \<Rightarrow> bytes \<Rightarrow> bytes \<Rightarrow> bool"
  mldsa_keygen :: "nat \<Rightarrow> (bytes \<times> bytes) option"
  mlkem_keygen :: "nat \<Rightarrow> (bytes \<times> bytes) option"
  randombytes :: "nat \<Rightarrow> nat \<Rightarrow> bytes option"
  malloc_ok :: "nat \<Rightarrow> bool"
  realloc_ok :: "u64 \<Rightarrow> bool"
  uninit :: "nat \<Rightarrow> nat \<Rightarrow> bytes"
  lease_ok :: "nat \<Rightarrow> bool"
  mlkem_encaps :: "nat \<Rightarrow> bytes \<Rightarrow> (bytes \<times> bytes) option"
  mlkem_decaps :: "bytes \<Rightarrow> bytes \<Rightarrow> bytes option"

definition i64_div :: "i64 \<Rightarrow> int \<Rightarrow> i64" where
  "i64_div a b = word_of_int (sint a sdiv b)"

definition gr_timestamp_ms :: "yumi_env \<Rightarrow> nat \<Rightarrow> i64" where
  "gr_timestamp_ms e n = clock_sec e n * 1000 + i64_div (clock_nsec e n) 1000000"

definition gr_timestamp_ns :: "yumi_env \<Rightarrow> nat \<Rightarrow> i64" where
  "gr_timestamp_ns e n = clock_sec e n * 1000000000 + clock_nsec e n"

section \<open>The handle\<close>

record gr_join_verify_result_t =
  jr_state :: gr_join_state_t
  jr_started_at :: i64
  jr_peers_checked :: u32
  jr_peers_agreed :: u32
  jr_peers_disagreed :: u32
  jr_required_attestations :: u32
  jr_provisional_owner_id :: bytes
  jr_provisional_owner_key :: bytes
  jr_dissent_peer_id :: bytes
  jr_dissent_owner_id :: bytes
  jr_dissent_owner_key :: bytes
  jr_small_group_bypass :: bool
  jr_user_override :: bool

text \<open>
  The votes are the first \<open>vote_count\<close> entries of the array.  The host's dissent callback, with
  its user data, is a function of the result it is shown.
\<close>

record gr_join_verify_state_t =
  js_state :: gr_join_state_t
  js_started_at :: i64
  js_nonce :: bytes
  js_inviter_peer_id :: bytes
  js_required_attestations :: u32
  js_ticket_owner_key :: bytes
  js_ticket_group_id :: bytes
  js_ticket_registrar_hash :: bytes
  js_votes :: "gr_join_peer_vote_t list"
  js_agree_count :: u32
  js_disagree_count :: u32
  js_has_dissent :: bool
  js_dissent_callback_fired :: bool
  js_dissent_peer_id :: bytes
  js_dissent_owner_id :: bytes
  js_dissent_owner_key :: bytes
  js_small_group_bypass :: bool
  js_user_override :: bool
  js_dissent_callback :: "(gr_join_verify_result_t \<Rightarrow> bool) option"

record gr_registrar =
  reg_db :: gr_db
  reg_saved :: "gr_db option"
  reg_header :: gr_header_t
  reg_header_dirty :: bool
  reg_join_state :: "gr_join_verify_state_t option"
  reg_stmts_ready :: bool
  reg_txn_depth :: nat
  reg_txn_saved_header :: gr_header_t
  reg_save_bound :: "gr_header_t option"
  reg_calls :: nat

definition tick :: "gr_registrar \<Rightarrow> gr_registrar" where
  "tick reg = reg\<lparr>reg_calls := Suc (reg_calls reg)\<rparr>"

text \<open>Reading the clock.\<close>

definition now_of :: "yumi_env \<Rightarrow> gr_registrar \<Rightarrow> i64" where
  "now_of e reg = gr_timestamp_ms e (reg_calls reg)"

text \<open>Early return: the first error is the result.\<close>

definition gr_bind :: "(gr_error_t + 'a) \<times> gr_registrar \<Rightarrow>
    ('a \<Rightarrow> gr_registrar \<Rightarrow> gr_error_t \<times> gr_registrar) \<Rightarrow> gr_error_t \<times> gr_registrar" where
  "gr_bind m f = (case m of (Inl err, reg) \<Rightarrow> (err, reg) | (Inr v, reg) \<Rightarrow> f v reg)"

definition gr_then :: "gr_error_t \<times> gr_registrar \<Rightarrow>
    (gr_registrar \<Rightarrow> gr_error_t \<times> gr_registrar) \<Rightarrow> gr_error_t \<times> gr_registrar" where
  "gr_then m f = (case m of (err, reg) \<Rightarrow> if err = GR_OK then f reg else (err, reg))"

definition q_bind :: "(gr_error_t + 'a) \<times> gr_registrar \<Rightarrow>
    ('a \<Rightarrow> gr_registrar \<Rightarrow> (gr_error_t + 'b) \<times> gr_registrar) \<Rightarrow> (gr_error_t + 'b) \<times> gr_registrar" where
  "q_bind m f = (case m of (Inl err, reg) \<Rightarrow> (Inl err, reg) | (Inr v, reg) \<Rightarrow> f v reg)"

definition q_then :: "gr_error_t \<times> gr_registrar \<Rightarrow>
    (gr_registrar \<Rightarrow> (gr_error_t + 'b) \<times> gr_registrar) \<Rightarrow> (gr_error_t + 'b) \<times> gr_registrar" where
  "q_then m f = (case m of (err, reg) \<Rightarrow> if err = GR_OK then f reg else (Inl err, reg))"

section \<open>Engine calls\<close>

text \<open>A writing statement: \<open>None\<close> when it fails, otherwise the number of changed rows.\<close>

definition db_exec :: "yumi_env \<Rightarrow> (gr_db \<Rightarrow> (nat \<times> gr_db) option) \<Rightarrow> gr_registrar \<Rightarrow>
    nat option \<times> gr_registrar" where
  "db_exec e stmt reg =
     (if db_ok e DbStmt (reg_calls reg)
      then case stmt (reg_db reg) of
             None \<Rightarrow> (None, tick reg)
           | Some (n, d) \<Rightarrow> (Some n, (tick reg)\<lparr>reg_db := d\<rparr>)
      else (None, tick reg))"

text \<open>A reading statement.\<close>

definition db_query :: "yumi_env \<Rightarrow> (gr_db \<Rightarrow> 'a option) \<Rightarrow> gr_registrar \<Rightarrow>
    (gr_error_t + 'a) \<times> gr_registrar" where
  "db_query e q reg =
     (if db_ok e DbStmt (reg_calls reg)
      then case q (reg_db reg) of None \<Rightarrow> (Inl GR_ERR_DB, tick reg) | Some v \<Rightarrow> (Inr v, tick reg)
      else (Inl GR_ERR_DB, tick reg))"

text \<open>A reading statement that fetches one row: \<open>GR_ERR_NOT_FOUND\<close> when there is none.\<close>

definition db_fetch :: "yumi_env \<Rightarrow> (gr_db \<Rightarrow> 'a option) \<Rightarrow> gr_registrar \<Rightarrow>
    (gr_error_t + 'a) \<times> gr_registrar" where
  "db_fetch e q reg =
     (if db_ok e DbStmt (reg_calls reg)
      then case q (reg_db reg) of None \<Rightarrow> (Inl GR_ERR_NOT_FOUND, tick reg) | Some v \<Rightarrow> (Inr v, tick reg)
      else (Inl GR_ERR_DB, tick reg))"

text \<open>
  \<open>gr_db_vec_get_str\<close>: a text that does not fit the destination of \<open>n\<close> bytes is an error, which
  the readers ignore; the destination, zeroed before, then stays the empty string.
\<close>

definition db_str :: "nat \<Rightarrow> bytes \<Rightarrow> bytes" where
  "db_str n s = (if length s < n then s else [])"

text \<open>\<open>gr_db_exec(reg->con, "DELETE FROM gr_header")\<close>.\<close>

definition db_raw_delete_header :: "yumi_env \<Rightarrow> gr_registrar \<Rightarrow> bool \<times> gr_registrar" where
  "db_raw_delete_header e reg =
     (if db_ok e DbRaw (reg_calls reg)
      then case delete_header (reg_db reg) of
             None \<Rightarrow> (False, tick reg)
           | Some (n, d) \<Rightarrow> (True, (tick reg)\<lparr>reg_db := d\<rparr>)
      else (False, tick reg))"

definition db_begin :: "yumi_env \<Rightarrow> gr_registrar \<Rightarrow> bool \<times> gr_registrar" where
  "db_begin e reg =
     (if db_ok e DbBegin (reg_calls reg) \<and> reg_saved reg = None
      then (True, (tick reg)\<lparr>reg_saved := Some (reg_db reg)\<rparr>)
      else (False, tick reg))"

definition db_commit :: "yumi_env \<Rightarrow> gr_registrar \<Rightarrow> bool \<times> gr_registrar" where
  "db_commit e reg =
     (case reg_saved reg of
        None \<Rightarrow> (False, tick reg)
      | Some d \<Rightarrow>
          if db_ok e DbCommit (reg_calls reg) then (True, (tick reg)\<lparr>reg_saved := None\<rparr>)
          else (False, (tick reg)\<lparr>reg_db := d, reg_saved := None\<rparr>))"

definition db_rollback :: "yumi_env \<Rightarrow> gr_registrar \<Rightarrow> bool \<times> gr_registrar" where
  "db_rollback e reg =
     (case reg_saved reg of
        None \<Rightarrow> (False, tick reg)
      | Some d \<Rightarrow>
          if db_ok e DbRollback (reg_calls reg)
          then (True, (tick reg)\<lparr>reg_db := d, reg_saved := None\<rparr>)
          else (False, tick reg))"

section \<open>Nestable transactions\<close>

definition gr_txn_begin :: "yumi_env \<Rightarrow> gr_registrar \<Rightarrow> bool \<times> gr_registrar" where
  "gr_txn_begin e reg =
     (let reg1 = (if reg_txn_depth reg = 0
                  then case db_begin e reg of
                         (True, r) \<Rightarrow> r\<lparr>reg_txn_saved_header := reg_header r\<rparr>
                       | (False, r) \<Rightarrow> r
                  else reg)
      in (True, reg1\<lparr>reg_txn_depth := reg_txn_depth reg1 + 1\<rparr>))"

definition gr_txn_commit :: "yumi_env \<Rightarrow> gr_registrar \<Rightarrow> bool \<times> gr_registrar" where
  "gr_txn_commit e reg =
     (if 0 < reg_txn_depth reg
      then (let reg1 = reg\<lparr>reg_txn_depth := reg_txn_depth reg - 1\<rparr>
            in if reg_txn_depth reg1 = 0 then db_commit e reg1 else (True, reg1))
      else (False, reg))"

definition gr_txn_rollback :: "yumi_env \<Rightarrow> gr_registrar \<Rightarrow> gr_registrar" where
  "gr_txn_rollback e reg =
     (if 0 < reg_txn_depth reg
      then (snd (db_rollback e reg))\<lparr>reg_header := reg_txn_saved_header reg, reg_txn_depth := 0\<rparr>
      else reg)"

text \<open>
  The frame of every mutating operation: begin, the statements, the audit entry, then commit, with
  a rollback on every error path.  The body is the part between begin and commit.
\<close>

definition with_txn :: "yumi_env \<Rightarrow> (gr_registrar \<Rightarrow> gr_error_t \<times> gr_registrar) \<Rightarrow>
    gr_registrar \<Rightarrow> gr_error_t \<times> gr_registrar" where
  "with_txn e body reg =
     (case gr_txn_begin e reg of (begun, r1) \<Rightarrow>
        if \<not> begun then (GR_ERR_DB, r1)
        else case body r1 of (err, r2) \<Rightarrow>
          if err \<noteq> GR_OK then (err, gr_txn_rollback e r2)
          else case gr_txn_commit e r2 of (committed, r3) \<Rightarrow>
            if committed then (GR_OK, r3) else (GR_ERR_DB, gr_txn_rollback e r3))"

text \<open>One statement of a body; the operation goes on only if it succeeds.\<close>

definition stmt_then :: "yumi_env \<Rightarrow> (gr_db \<Rightarrow> (nat \<times> gr_db) option) \<Rightarrow>
    (nat \<Rightarrow> gr_registrar \<Rightarrow> gr_error_t \<times> gr_registrar) \<Rightarrow> gr_registrar \<Rightarrow> gr_error_t \<times> gr_registrar" where
  "stmt_then e stmt k reg =
     (case db_exec e stmt reg of (None, r) \<Rightarrow> (GR_ERR_DB, r) | (Some n, r) \<Rightarrow> k n r)"

section \<open>Header persistence\<close>

text \<open>Binding and executing the cached statement \<open>ps_header_save\<close>.\<close>

definition bind_header_fields :: "yumi_env \<Rightarrow> gr_registrar \<Rightarrow> bool \<times> gr_registrar" where
  "bind_header_fields e reg =
     (if db_ok e DbBind (reg_calls reg)
      then (True, (tick reg)\<lparr>reg_save_bound := Some (reg_header reg)\<rparr>)
      else (False, (tick reg)\<lparr>reg_save_bound := None\<rparr>))"

definition exec_header_save :: "yumi_env \<Rightarrow> gr_registrar \<Rightarrow> bool \<times> gr_registrar" where
  "exec_header_save e reg =
     (case reg_save_bound reg of
        None \<Rightarrow> (False, tick reg)
      | Some h \<Rightarrow> (case db_exec e (ps_header_save h) reg of
                    (None, r) \<Rightarrow> (False, r) | (Some n, r) \<Rightarrow> (True, r)))"

definition header_save_cached :: "yumi_env \<Rightarrow> gr_registrar \<Rightarrow> gr_error_t \<times> gr_registrar" where
  "header_save_cached e reg =
     (case gr_txn_begin e reg of (begun, r1) \<Rightarrow>
      let ret1 = (if begun then GR_OK else GR_ERR_DB);
          (ret2, r2) = (if ret1 = GR_OK
            then case db_raw_delete_header e r1 of
                   (True, r) \<Rightarrow> (GR_OK, r) | (False, r) \<Rightarrow> (GR_ERR_DB, gr_txn_rollback e r)
            else (ret1, r1));
          (ret3, r3) = (if ret2 = GR_OK
            then case bind_header_fields e r2 of (True, r) \<Rightarrow> (GR_OK, r) | (False, r) \<Rightarrow> (GR_ERR_DB, r)
            else (ret2, r2));
          (st, r4) = exec_header_save e r3;
          (ret5, r5) = (if ret3 = GR_OK \<and> \<not> st then (GR_ERR_DB, gr_txn_rollback e r4) else (ret3, r4));
          (ret6, r6) = (if ret5 = GR_OK
            then case gr_txn_commit e r5 of
                   (True, r) \<Rightarrow> (GR_OK, r) | (False, r) \<Rightarrow> (GR_ERR_DB, gr_txn_rollback e r)
            else (ret5, r5))
      in (ret6, r6\<lparr>reg_header_dirty := False\<rparr>))"

text \<open>The fallback with a statement prepared on the spot.\<close>

definition header_save_adhoc :: "yumi_env \<Rightarrow> gr_registrar \<Rightarrow> gr_error_t \<times> gr_registrar" where
  "header_save_adhoc e reg =
     (case gr_txn_begin e reg of (begun, r1) \<Rightarrow>
      let ret1 = (if begun then GR_OK else GR_ERR_DB);
          (ret2, r2) = (if ret1 = GR_OK
            then case db_raw_delete_header e r1 of
                   (True, r) \<Rightarrow> (GR_OK, r) | (False, r) \<Rightarrow> (GR_ERR_DB, gr_txn_rollback e r)
            else (ret1, r1));
          (ret3, r3) = (if ret2 = GR_OK
            then if db_ok e DbRaw (reg_calls r2) then (GR_OK, tick r2)
                 else (GR_ERR_DB, gr_txn_rollback e (tick r2))
            else (ret2, r2));
          (ret4, r4) = (if ret3 = GR_OK
            then if db_ok e DbBind (reg_calls r3) then (GR_OK, tick r3) else (GR_ERR_DB, tick r3)
            else (ret3, r3));
          (ret5, r5) = (if ret4 = GR_OK
            then case db_exec e (ps_header_save (reg_header reg)) r4 of
                   (None, r) \<Rightarrow> (GR_ERR_DB, gr_txn_rollback e r) | (Some n, r) \<Rightarrow> (GR_OK, r)
            else (ret4, r4));
          (ret6, r6) = (if ret5 = GR_OK
            then case gr_txn_commit e r5 of
                   (True, r) \<Rightarrow> (GR_OK, r) | (False, r) \<Rightarrow> (GR_ERR_DB, gr_txn_rollback e r)
            else (ret5, r5))
      in (ret6, if ret6 = GR_OK then r6\<lparr>reg_header_dirty := False\<rparr> else r6))"

definition gr_header_save :: "yumi_env \<Rightarrow> gr_registrar \<Rightarrow> gr_error_t \<times> gr_registrar" where
  "gr_header_save e reg =
     (if reg_stmts_ready reg then header_save_cached e reg else header_save_adhoc e reg)"

text \<open>
  Loading: the columns of a row that the code itself wrote have the widths it reads, so a row that
  is present is read whole.
\<close>

definition gr_header_load :: "yumi_env \<Rightarrow> gr_registrar \<Rightarrow> gr_error_t \<times> gr_registrar" where
  "gr_header_load e reg =
     (if \<not> db_ok e DbStmt (reg_calls reg) then (GR_ERR_DB, tick reg)
      else case ps_header_load (reg_db reg) of
             None \<Rightarrow> (GR_ERR_NOT_FOUND, tick reg)
           | Some h \<Rightarrow> (GR_OK, (tick reg)\<lparr>reg_header := h, reg_header_dirty := False\<rparr>))"

section \<open>What a transaction body may rely on and must keep\<close>

text \<open>
  \<open>reliable\<close>: the engine does not fail on \<open>BEGIN\<close>, \<open>ROLLBACK\<close> and the header \<open>DELETE\<close>.
  Statements, binds and \<open>COMMIT\<close> may still fail.
\<close>

definition reliable :: "yumi_env \<Rightarrow> bool" where
  "reliable e \<longleftrightarrow> (\<forall>n. db_ok e DbBegin n \<and> db_ok e DbRollback n \<and> db_ok e DbRaw n)"

definition idle :: "gr_registrar \<Rightarrow> bool" where
  "idle reg \<longleftrightarrow> reg_txn_depth reg = 0 \<and> reg_saved reg = None \<and> reg_stmts_ready reg"

definition in_txn :: "gr_db \<Rightarrow> gr_header_t \<Rightarrow> gr_registrar \<Rightarrow> bool" where
  "in_txn d0 h0 reg \<longleftrightarrow> reg_saved reg = Some d0 \<and> reg_txn_saved_header reg = h0
     \<and> 0 < reg_txn_depth reg \<and> reg_stmts_ready reg"

definition aborted :: "gr_db \<Rightarrow> gr_header_t \<Rightarrow> gr_registrar \<Rightarrow> bool" where
  "aborted d0 h0 reg \<longleftrightarrow> idle reg \<and> reg_db reg = d0 \<and> reg_header reg = h0"

definition txn_result :: "gr_db \<Rightarrow> gr_header_t \<Rightarrow> gr_registrar \<Rightarrow> gr_error_t \<times> gr_registrar \<Rightarrow> bool" where
  "txn_result d0 h0 reg res \<longleftrightarrow> reg_join_state (snd res) = reg_join_state reg
     \<and> (if fst res = GR_OK
        then in_txn d0 h0 (snd res) \<and> reg_txn_depth (snd res) = reg_txn_depth reg
        else in_txn d0 h0 (snd res) \<or> aborted d0 h0 (snd res))"

lemma tick_simps [simp]:
  "reg_db (tick r) = reg_db r" "reg_saved (tick r) = reg_saved r" "reg_header (tick r) = reg_header r"
  "reg_header_dirty (tick r) = reg_header_dirty r" "reg_join_state (tick r) = reg_join_state r"
  "reg_stmts_ready (tick r) = reg_stmts_ready r" "reg_txn_depth (tick r) = reg_txn_depth r"
  "reg_txn_saved_header (tick r) = reg_txn_saved_header r" "reg_save_bound (tick r) = reg_save_bound r"
  by (simp_all add: tick_def)

lemma rollback_in_txn:
  assumes "reliable e" and "in_txn d0 h0 r"
  shows "aborted d0 h0 (gr_txn_rollback e r)"
    and "reg_join_state (gr_txn_rollback e r) = reg_join_state r"
  using assms by (auto simp: gr_txn_rollback_def db_rollback_def reliable_def in_txn_def aborted_def
      idle_def)

lemma rollback_idle: "reg_txn_depth r = 0 \<Longrightarrow> gr_txn_rollback e r = r"
  by (simp add: gr_txn_rollback_def)

lemma begin_idle:
  assumes "reliable e" and "idle reg"
  shows "\<exists>r. gr_txn_begin e reg = (True, r) \<and> in_txn (reg_db reg) (reg_header reg) r
     \<and> reg_txn_depth r = 1 \<and> reg_db r = reg_db reg \<and> reg_header r = reg_header reg
     \<and> reg_join_state r = reg_join_state reg"
  using assms by (auto simp: gr_txn_begin_def db_begin_def reliable_def in_txn_def idle_def Let_def)

lemma begin_nested:
  assumes "in_txn d0 h0 reg"
  shows "gr_txn_begin e reg = (True, reg\<lparr>reg_txn_depth := reg_txn_depth reg + 1\<rparr>)"
  using assms by (simp add: gr_txn_begin_def in_txn_def)

lemma commit_outer:
  assumes "in_txn d0 h0 r" and "reg_txn_depth r = 1"
  shows "gr_txn_commit e r = (if db_ok e DbCommit (reg_calls r)
      then (True, (tick r)\<lparr>reg_saved := None, reg_txn_depth := 0\<rparr>)
      else (False, (tick r)\<lparr>reg_db := d0, reg_saved := None, reg_txn_depth := 0\<rparr>))"
  using assms by (simp add: gr_txn_commit_def db_commit_def in_txn_def Let_def tick_def)

text \<open>The contract of a body.\<close>

locale txn_body =
  fixes e :: yumi_env
    and body :: "gr_registrar \<Rightarrow> gr_error_t \<times> gr_registrar"
  assumes body_result: "reliable e \<Longrightarrow> in_txn d0 h0 reg \<Longrightarrow> txn_result d0 h0 reg (body reg)"
begin

lemma atomic:
  assumes rel: "reliable e" and idle: "idle reg" and res: "with_txn e body reg = (err, r)"
  shows "idle r \<and> reg_join_state r = reg_join_state reg
    \<and> (err \<noteq> GR_OK \<longrightarrow> reg_db r = reg_db reg)
    \<and> (err \<noteq> GR_OK \<longrightarrow> (\<forall>n. db_ok e DbCommit n) \<longrightarrow> reg_header r = reg_header reg)
    \<and> (err = GR_OK \<longrightarrow> (\<exists>r0 r1. body r0 = (GR_OK, r1) \<and> reg_db r0 = reg_db reg
         \<and> reg_header r0 = reg_header reg \<and> reg_join_state r0 = reg_join_state reg
         \<and> in_txn (reg_db reg) (reg_header reg) r0
         \<and> reg_db r = reg_db r1 \<and> reg_header r = reg_header r1))"
proof -
  obtain r0 where r0: "gr_txn_begin e reg = (True, r0)" "in_txn (reg_db reg) (reg_header reg) r0"
      "reg_txn_depth r0 = 1" "reg_db r0 = reg_db reg" "reg_header r0 = reg_header reg"
      "reg_join_state r0 = reg_join_state reg"
    using begin_idle [OF rel idle] by blast
  obtain berr r1 where b: "body r0 = (berr, r1)" by (cases "body r0")
  have tr: "txn_result (reg_db reg) (reg_header reg) r0 (berr, r1)"
    using body_result [OF rel r0(2)] b by simp
  show ?thesis
  proof (cases "berr = GR_OK")
    case False
    then have "r = gr_txn_rollback e r1" "err = berr" using res r0(1) b by (auto simp: with_txn_def)
    moreover have "aborted (reg_db reg) (reg_header reg) (gr_txn_rollback e r1)
        \<and> reg_join_state (gr_txn_rollback e r1) = reg_join_state reg"
      using tr False rollback_in_txn [OF rel, of _ _ r1] rollback_idle [of r1 e] r0(6)
      by (auto simp: txn_result_def aborted_def idle_def)
    ultimately show ?thesis using False by (simp add: aborted_def)
  next
    case True
    with tr have t: "in_txn (reg_db reg) (reg_header reg) r1" "reg_txn_depth r1 = 1"
        "reg_join_state r1 = reg_join_state reg" using r0 by (auto simp: txn_result_def)
    note c = commit_outer [OF t(1,2), of e]
    show ?thesis
    proof (cases "db_ok e DbCommit (reg_calls r1)")
      case ok: True
      then have "(err, r) = (GR_OK, (tick r1)\<lparr>reg_saved := None, reg_txn_depth := 0\<rparr>)"
        using res r0(1) b True c by (simp add: with_txn_def)
      then have "idle r \<and> reg_join_state r = reg_join_state reg \<and> err = GR_OK
          \<and> reg_db r = reg_db r1 \<and> reg_header r = reg_header r1"
        using t by (auto simp: idle_def in_txn_def)
      then show ?thesis using r0 b True by blast
    next
      case fail: False
      then have "(err, r) = (GR_ERR_DB,
          (tick r1)\<lparr>reg_db := reg_db reg, reg_saved := None, reg_txn_depth := 0\<rparr>)"
        using res r0(1) b True c by (simp add: with_txn_def rollback_idle)
      then show ?thesis using t fail by (auto simp: idle_def in_txn_def)
    qed
  qed
qed

end

section \<open>Building bodies\<close>

lemma txn_bodyI:
  "(\<And>d0 h0 reg. reliable e \<Longrightarrow> in_txn d0 h0 reg \<Longrightarrow> txn_result d0 h0 reg (body reg)) \<Longrightarrow> txn_body e body"
  by (simp add: txn_body_def)

lemma txn_bodyD: "txn_body e body \<Longrightarrow> reliable e \<Longrightarrow> in_txn d0 h0 reg \<Longrightarrow> txn_result d0 h0 reg (body reg)"
  by (simp add: txn_body_def)

lemma txn_ok: "txn_body e (\<lambda>r. (GR_OK, r))"
  by (rule txn_bodyI) (simp add: txn_result_def)

lemma txn_fail: "err \<noteq> GR_OK \<Longrightarrow> txn_body e (\<lambda>r. (err, r))"
  by (rule txn_bodyI) (simp add: txn_result_def)

lemma txn_pre:
  assumes k: "txn_body e k" and g: "\<And>d0 h0 r. in_txn d0 h0 r \<Longrightarrow> in_txn d0 h0 (g r)"
    "\<And>r. reg_txn_depth (g r) = reg_txn_depth r" "\<And>r. reg_join_state (g r) = reg_join_state r"
  shows "txn_body e (\<lambda>r. k (g r))"
proof (rule txn_bodyI)
  fix d0 h0 reg assume "reliable e" and "in_txn d0 h0 reg"
  from txn_bodyD [OF k this(1) g(1) [OF this(2)]] show "txn_result d0 h0 reg (k (g reg))"
    by (simp add: txn_result_def g)
qed

text \<open>A body may compute a value from the handle it starts in.\<close>

lemma txn_dep: "(\<And>v. txn_body e (k v)) \<Longrightarrow> txn_body e (\<lambda>r. k (f r) r)"
  by (rule txn_bodyI) (blast dest: txn_bodyD)

lemma txn_tick: "txn_body e k \<Longrightarrow> txn_body e (\<lambda>r. k (tick r))"
  by (rule txn_pre) (simp_all add: in_txn_def)

lemma txn_set_header: "txn_body e k \<Longrightarrow> txn_body e (\<lambda>r. k (r\<lparr>reg_header := f r\<rparr>))"
  by (rule txn_pre) (simp_all add: in_txn_def)

lemma txn_stmt:
  assumes "\<And>n. txn_body e (k n)"
  shows "txn_body e (stmt_then e stmt k)"
proof (rule txn_bodyI)
  fix d0 h0 reg assume rel: "reliable e" and t: "in_txn d0 h0 reg"
  obtain o1 r1 where x: "db_exec e stmt reg = (o1, r1)" by (cases "db_exec e stmt reg")
  have r1: "in_txn d0 h0 r1" "reg_txn_depth r1 = reg_txn_depth reg" "reg_join_state r1 = reg_join_state reg"
    using x t by (auto simp: db_exec_def in_txn_def split: if_splits option.splits)
  show "txn_result d0 h0 reg (stmt_then e stmt k reg)"
  proof (cases o1)
    case None
    then show ?thesis using x r1 by (simp add: stmt_then_def txn_result_def)
  next
    case (Some n)
    then show ?thesis using x r1 txn_bodyD [OF assms rel r1(1), of n]
      by (simp add: stmt_then_def txn_result_def)
  qed
qed

lemma txn_then:
  assumes "txn_body e m" and "txn_body e f"
  shows "txn_body e (\<lambda>r. gr_then (m r) f)"
proof (rule txn_bodyI)
  fix d0 h0 reg assume rel: "reliable e" and t: "in_txn d0 h0 reg"
  obtain err r1 where m: "m reg = (err, r1)" by (cases "m reg")
  have 1: "txn_result d0 h0 reg (err, r1)" using txn_bodyD [OF assms(1) rel t] m by simp
  show "txn_result d0 h0 reg (gr_then (m reg) f)"
  proof (cases "err = GR_OK")
    case True
    with 1 have "in_txn d0 h0 r1" by (simp add: txn_result_def)
    from txn_bodyD [OF assms(2) rel this] 1 True m show ?thesis
      by (simp add: gr_then_def txn_result_def)
  next
    case False
    then show ?thesis using 1 m by (simp add: gr_then_def)
  qed
qed

lemma txn_if: "(P \<Longrightarrow> txn_body e f) \<Longrightarrow> (\<not> P \<Longrightarrow> txn_body e g) \<Longrightarrow> txn_body e (if P then f else g)"
  by simp

text \<open>The header save inside a transaction.\<close>

lemma header_save_result:
  assumes rel: "reliable e" and t: "in_txn d0 h0 reg" and res: "gr_header_save e reg = (err, r)"
  shows "txn_result d0 h0 reg (err, r) \<and> (err = GR_OK \<longrightarrow>
    reg_db r = (reg_db reg)\<lparr>db_header := [reg_header reg]\<rparr> \<and> reg_header r = reg_header reg)"
proof -
  let ?r1 = "reg\<lparr>reg_txn_depth := reg_txn_depth reg + 1\<rparr>"
  let ?r2 = "(tick ?r1)\<lparr>reg_db := (reg_db reg)\<lparr>db_header := []\<rparr>\<rparr>"
  have raw: "db_ok e DbRaw n" for n using rel by (simp add: reliable_def)
  have ready: "reg_stmts_ready reg" and sv: "reg_saved reg = Some d0" and dp: "0 < reg_txn_depth reg"
    and sh: "reg_txn_saved_header reg = h0"
    using t by (simp_all add: in_txn_def)
  have del: "db_raw_delete_header e ?r1 = (True, ?r2)"
    by (simp add: db_raw_delete_header_def raw delete_header_def)
  show ?thesis
  proof (cases "db_ok e DbBind (reg_calls ?r2)")
    case False
    then have "header_save_cached e reg = (GR_ERR_DB, r)"
      using res ready begin_nested [OF t, of e] del
      by (auto simp: gr_header_save_def header_save_cached_def bind_header_fields_def Let_def
          split: prod.splits)
    moreover have "in_txn d0 h0 r \<and> reg_join_state r = reg_join_state reg"
      using res ready begin_nested [OF t, of e] del False sv sh dp
      by (auto simp: gr_header_save_def header_save_cached_def bind_header_fields_def Let_def
          exec_header_save_def in_txn_def split: prod.splits)
    ultimately show ?thesis using res ready by (simp add: gr_header_save_def txn_result_def)
  next
    case True
    let ?r3 = "(tick ?r2)\<lparr>reg_save_bound := Some (reg_header reg)\<rparr>"
    have bnd: "bind_header_fields e ?r2 = (True, ?r3)" using True by (simp add: bind_header_fields_def)
    show ?thesis
    proof (cases "db_ok e DbStmt (reg_calls ?r3)")
      case st: True
      then have ex: "exec_header_save e ?r3 =
          (True, (tick ?r3)\<lparr>reg_db := (reg_db reg)\<lparr>db_header := [reg_header reg]\<rparr>\<rparr>)"
        by (simp add: exec_header_save_def db_exec_def ps_header_save_def)
      have "gr_header_save e reg = (GR_OK, (tick ?r3)\<lparr>reg_db := (reg_db reg)\<lparr>db_header := [reg_header reg]\<rparr>,
          reg_txn_depth := reg_txn_depth reg, reg_header_dirty := False\<rparr>)"
        using ready begin_nested [OF t, of e] del bnd ex dp
        by (simp add: gr_header_save_def header_save_cached_def Let_def gr_txn_commit_def)
      then show ?thesis using res sv sh dp ready by (auto simp: txn_result_def in_txn_def)
    next
      case st: False
      then have ex: "exec_header_save e ?r3 = (False, tick ?r3)"
        by (simp add: exec_header_save_def db_exec_def)
      have "in_txn d0 h0 (tick ?r3)" using sv sh dp ready by (simp add: in_txn_def)
      note rb = rollback_in_txn [OF rel this]
      have "gr_header_save e reg = (GR_ERR_DB, (gr_txn_rollback e (tick ?r3))\<lparr>reg_header_dirty := False\<rparr>)"
        using ready begin_nested [OF t, of e] del bnd ex
        by (simp add: gr_header_save_def header_save_cached_def Let_def)
      then show ?thesis using res rb by (auto simp: txn_result_def aborted_def idle_def)
    qed
  qed
qed

lemma txn_header_save: "txn_body e (gr_header_save e)"
  by (rule txn_bodyI) (metis header_save_result prod.collapse)

text \<open>Outside a transaction the header save opens and closes one of its own.\<close>

lemma header_save_idle:
  assumes rel: "reliable e" and idle: "idle reg" and res: "gr_header_save e reg = (GR_OK, r)"
  shows "idle r \<and> reg_db r = (reg_db reg)\<lparr>db_header := [reg_header reg]\<rparr> \<and> reg_header r = reg_header reg
    \<and> reg_join_state r = reg_join_state reg"
proof -
  have raw: "db_ok e DbRaw n" for n using rel by (simp add: reliable_def)
  have ready: "reg_stmts_ready reg" using idle by (simp add: idle_def)
  obtain r1 where r1: "gr_txn_begin e reg = (True, r1)" "in_txn (reg_db reg) (reg_header reg) r1"
      "reg_txn_depth r1 = 1" "reg_db r1 = reg_db reg" "reg_header r1 = reg_header reg"
      "reg_join_state r1 = reg_join_state reg"
    using begin_idle [OF rel idle] by blast
  let ?r2 = "(tick r1)\<lparr>reg_db := (reg_db reg)\<lparr>db_header := []\<rparr>\<rparr>"
  let ?r3 = "(tick ?r2)\<lparr>reg_save_bound := Some (reg_header reg)\<rparr>"
  let ?r4 = "(tick ?r3)\<lparr>reg_db := (reg_db reg)\<lparr>db_header := [reg_header reg]\<rparr>\<rparr>"
  have del: "db_raw_delete_header e r1 = (True, ?r2)"
    by (simp add: db_raw_delete_header_def raw delete_header_def r1)
  have run: "header_save_cached e reg = (GR_OK, r)" using res ready by (simp add: gr_header_save_def)
  have bnd_ok: "db_ok e DbBind (reg_calls ?r2)"
  proof (rule ccontr)
    assume "\<not> ?thesis"
    then have "fst (header_save_cached e reg) \<noteq> GR_OK"
      by (simp add: header_save_cached_def Let_def r1 del bind_header_fields_def exec_header_save_def)
    with run show False by simp
  qed
  then have bnd: "bind_header_fields e ?r2 = (True, ?r3)" by (simp add: bind_header_fields_def r1)
  have st: "db_ok e DbStmt (reg_calls ?r3)"
  proof (rule ccontr)
    assume "\<not> ?thesis"
    then have "fst (header_save_cached e reg) \<noteq> GR_OK"
      by (simp add: header_save_cached_def Let_def r1 del bnd exec_header_save_def db_exec_def)
    with run show False by simp
  qed
  then have ex: "exec_header_save e ?r3 = (True, ?r4)"
    by (simp add: exec_header_save_def db_exec_def ps_header_save_def)
  have t4: "in_txn (reg_db reg) (reg_header reg) ?r4" "reg_txn_depth ?r4 = 1"
    using r1 by (simp_all add: in_txn_def)
  note cm = commit_outer [OF t4, of e]
  have c: "db_ok e DbCommit (reg_calls ?r4)"
  proof (rule ccontr)
    assume "\<not> ?thesis"
    then have "fst (header_save_cached e reg) \<noteq> GR_OK"
      by (simp add: header_save_cached_def Let_def r1 del bnd ex cm)
    with run show False by simp
  qed
  then have "header_save_cached e reg =
      (GR_OK, (tick ?r4)\<lparr>reg_saved := None, reg_txn_depth := 0, reg_header_dirty := False\<rparr>)"
    by (simp add: header_save_cached_def Let_def r1 del bnd ex cm)
  with run show ?thesis using r1 ready by (auto simp: idle_def in_txn_def)
qed

text \<open>The handle at rest or inside a transaction: the states between statements.\<close>

definition settled :: "gr_registrar \<Rightarrow> bool" where
  "settled reg \<longleftrightarrow> idle reg \<or> (\<exists>d0 h0. in_txn d0 h0 reg)"

lemma in_txn_settled: "in_txn d0 h0 reg \<Longrightarrow> settled reg"
  by (auto simp: settled_def)

lemma idle_settled: "idle reg \<Longrightarrow> settled reg"
  by (simp add: settled_def)

lemma header_save_effect:
  assumes rel: "reliable e" and s: "settled reg" and res: "gr_header_save e reg = (GR_OK, r)"
  shows "reg_db r = (reg_db reg)\<lparr>db_header := [reg_header reg]\<rparr> \<and> reg_header r = reg_header reg
    \<and> (idle reg \<longrightarrow> idle r) \<and> reg_join_state r = reg_join_state reg"
proof (cases "idle reg")
  case True
  then show ?thesis using header_save_idle [OF rel True res] by simp
next
  case False
  then obtain d0 h0 where t: "in_txn d0 h0 reg" using s by (auto simp: settled_def)
  show ?thesis using header_save_result [OF rel t res] False by (simp add: txn_result_def)
qed

section \<open>Whole operations\<close>

text \<open>A read: nothing but the call counter moves.\<close>

definition quiet :: "gr_registrar \<Rightarrow> gr_registrar \<Rightarrow> bool" where
  "quiet reg r \<longleftrightarrow> r\<lparr>reg_calls := 0\<rparr> = reg\<lparr>reg_calls := 0\<rparr>"

lemma quiet_refl [simp]: "quiet r r"
  by (simp add: quiet_def)

lemma quiet_tick [simp]: "quiet r (tick r)"
  by (simp add: quiet_def tick_def)

lemma quiet_trans: "quiet a b \<Longrightarrow> quiet b c \<Longrightarrow> quiet a c"
  by (simp add: quiet_def)

lemma quietD:
  assumes "quiet reg r"
  shows "reg_db r = reg_db reg" "reg_saved r = reg_saved reg" "reg_header r = reg_header reg"
    "reg_join_state r = reg_join_state reg" "reg_stmts_ready r = reg_stmts_ready reg"
    "reg_txn_depth r = reg_txn_depth reg" "reg_txn_saved_header r = reg_txn_saved_header reg"
    "idle r = idle reg"
  using assms by (cases r; cases reg; simp add: quiet_def idle_def)+

lemma quiet_query: "quiet reg (snd (db_query e q reg))"
  by (simp add: db_query_def split: option.splits)

lemma quiet_fetch: "quiet reg (snd (db_fetch e q reg))"
  by (simp add: db_fetch_def split: option.splits)

text \<open>An operation is atomic when an error leaves the database and the header as they were.\<close>

definition atomic_res :: "yumi_env \<Rightarrow> gr_registrar \<Rightarrow> gr_error_t \<times> gr_registrar \<Rightarrow> bool" where
  "atomic_res e reg res \<longleftrightarrow> idle (snd res) \<and> reg_join_state (snd res) = reg_join_state reg
     \<and> (fst res \<noteq> GR_OK \<longrightarrow> reg_db (snd res) = reg_db reg)
     \<and> (fst res \<noteq> GR_OK \<longrightarrow> (\<forall>n. db_ok e DbCommit n) \<longrightarrow> reg_header (snd res) = reg_header reg)"

definition atomic_op :: "yumi_env \<Rightarrow> (gr_registrar \<Rightarrow> gr_error_t \<times> gr_registrar) \<Rightarrow> bool" where
  "atomic_op e oper \<longleftrightarrow> (reliable e \<longrightarrow> (\<forall>reg. idle reg \<longrightarrow> atomic_res e reg (oper reg)))"

lemma atomic_opI: "(\<And>reg. reliable e \<Longrightarrow> idle reg \<Longrightarrow> atomic_res e reg (oper reg)) \<Longrightarrow> atomic_op e oper"
  by (simp add: atomic_op_def)

lemma atomic_opD: "atomic_op e oper \<Longrightarrow> reliable e \<Longrightarrow> idle reg \<Longrightarrow> atomic_res e reg (oper reg)"
  by (simp add: atomic_op_def)

lemma atomic_res_self: "quiet reg r \<Longrightarrow> idle reg \<Longrightarrow> atomic_res e reg (err, r)"
  by (simp add: atomic_res_def quietD)

lemma atomic_res_quiet: "quiet reg r \<Longrightarrow> atomic_res e r res \<Longrightarrow> atomic_res e reg res"
  by (simp add: atomic_res_def quietD)

lemma atomic_txn:
  assumes "txn_body e body"
  shows "atomic_op e (with_txn e body)"
proof (rule atomic_opI)
  fix reg assume "reliable e" and "idle reg"
  from txn_body.atomic [OF assms this, of "fst (with_txn e body reg)" "snd (with_txn e body reg)"]
  show "atomic_res e reg (with_txn e body reg)" unfolding atomic_res_def prod.collapse by blast
qed

lemma atomic_quiet: "(\<And>reg. quiet reg (snd (oper reg))) \<Longrightarrow> atomic_op e oper"
  by (rule atomic_opI) (metis atomic_res_self prod.collapse)

lemma atomic_const: "atomic_op e (\<lambda>r. (err, r))"
  by (rule atomic_quiet) simp

lemma atomic_seq:
  assumes "quiet reg r" and "atomic_op e k" and "reliable e" and "idle reg"
  shows "atomic_res e reg (k r)"
  using assms by (meson atomic_opD atomic_res_quiet quietD(8))

lemma atomic_then:
  assumes q: "\<And>reg. quiet reg (snd (m reg))" and k: "atomic_op e k"
  shows "atomic_op e (\<lambda>reg. gr_then (m reg) k)"
proof (rule atomic_opI)
  fix reg assume a: "reliable e" "idle reg"
  have qr: "quiet reg (snd (m reg))" by (rule q)
  show "atomic_res e reg (gr_then (m reg) k)"
    using atomic_seq [OF qr k a] atomic_res_self [OF qr a(2)]
    by (cases "m reg") (simp add: gr_then_def)
qed

lemma atomic_bind:
  assumes q: "\<And>reg. quiet reg (snd (m reg))" and k: "\<And>v. atomic_op e (k v)"
  shows "atomic_op e (\<lambda>reg. gr_bind (m reg) k)"
proof (rule atomic_opI)
  fix reg assume a: "reliable e" "idle reg"
  have qr: "quiet reg (snd (m reg))" by (rule q)
  show "atomic_res e reg (gr_bind (m reg) k)"
    using atomic_seq [OF qr k a] atomic_res_self [OF qr a(2)]
    by (cases "m reg") (simp add: gr_bind_def split: sum.splits)
qed

lemma atomic_dep: "(\<And>v. atomic_op e (k v)) \<Longrightarrow> atomic_op e (\<lambda>r. k (f r) r)"
  by (simp add: atomic_op_def)

lemma atomic_tick: "atomic_op e k \<Longrightarrow> atomic_op e (\<lambda>r. k (tick r))"
  by (rule atomic_opI) (rule atomic_seq [OF quiet_tick])

lemma atomic_if: "(P \<Longrightarrow> atomic_op e f) \<Longrightarrow> (\<not> P \<Longrightarrow> atomic_op e g) \<Longrightarrow> atomic_op e (if P then f else g)"
  by simp

text \<open>The same frame for an operation that hands out a value.\<close>

definition with_txn_val :: "yumi_env \<Rightarrow> (gr_registrar \<Rightarrow> (gr_error_t + 'a) \<times> gr_registrar) \<Rightarrow>
    gr_registrar \<Rightarrow> (gr_error_t + 'a) \<times> gr_registrar" where
  "with_txn_val e body reg =
     (case gr_txn_begin e reg of (begun, r1) \<Rightarrow>
        if \<not> begun then (Inl GR_ERR_DB, r1)
        else case body r1 of
            (Inl err, r2) \<Rightarrow> (Inl err, gr_txn_rollback e r2)
          | (Inr v, r2) \<Rightarrow> (case gr_txn_commit e r2 of (committed, r3) \<Rightarrow>
              if committed then (Inr v, r3) else (Inl GR_ERR_DB, gr_txn_rollback e r3)))"

definition err_of :: "(gr_error_t + 'a) \<times> gr_registrar \<Rightarrow> gr_error_t \<times> gr_registrar" where
  "err_of res = (case res of (Inl err, r) \<Rightarrow> (err, r) | (Inr v, r) \<Rightarrow> (GR_OK, r))"

lemma err_of_simps [simp]: "err_of (Inl err, r) = (err, r)" "err_of (Inr v, r) = (GR_OK, r)"
  "snd (err_of res) = snd res"
  by (simp_all add: err_of_def split: prod.splits sum.splits)

lemma err_of_txn_val:
  assumes "\<And>r. fst (body r) \<noteq> Inl GR_OK"
  shows "err_of (with_txn_val e body reg) = with_txn e (\<lambda>r. err_of (body r)) reg"
proof -
  obtain b r1 where b: "gr_txn_begin e reg = (b, r1)" by (cases "gr_txn_begin e reg")
  obtain v r2 where v: "body r1 = (v, r2)" by (cases "body r1")
  obtain c r3 where c: "gr_txn_commit e r2 = (c, r3)" by (cases "gr_txn_commit e r2")
  show ?thesis using assms [of r1] b v c
    by (cases v) (simp_all add: with_txn_val_def with_txn_def)
qed

lemma err_of_q_bind: "err_of (q_bind m f) = gr_bind m (\<lambda>v r. err_of (f v r))"
  by (simp add: q_bind_def gr_bind_def split: prod.splits sum.splits)

lemma err_of_q_then: "err_of (q_then m f) = gr_then m (\<lambda>r. err_of (f r))"
  by (simp add: q_then_def gr_then_def split: prod.splits)

lemma err_of_fst: "(if err = GR_OK then Inr v else Inl err, r) = res \<Longrightarrow> err_of res = (err, r)"
  by (auto split: if_splits)

text \<open>A value read from the handle may decide between two operations.\<close>

lemma atomic_case_option:
  "(\<And>r. atomic_op e (\<lambda>r. n r)) \<Longrightarrow> (\<And>v. atomic_op e (s v)) \<Longrightarrow>
   atomic_op e (\<lambda>r. case f r of None \<Rightarrow> n r | Some v \<Rightarrow> s v r)"
  by (rule atomic_opI) (auto split: option.splits dest: atomic_opD)

text \<open>What a successful transaction leaves.\<close>

lemma with_txn_ok:
  assumes "txn_body e body" and "reliable e" and "idle reg" and "with_txn e body reg = (GR_OK, r)"
  shows "\<exists>r0 r1. body r0 = (GR_OK, r1) \<and> reg_db r0 = reg_db reg \<and> reg_header r0 = reg_header reg
     \<and> in_txn (reg_db reg) (reg_header reg) r0 \<and> reg_db r = reg_db r1 \<and> reg_header r = reg_header r1
     \<and> idle r \<and> reg_join_state r = reg_join_state reg"
  using txn_body.atomic [OF assms] by blast

lemma stmt_then_ok:
  assumes "stmt_then e stmt k reg = (GR_OK, r)"
  shows "\<exists>n d r1. stmt (reg_db reg) = Some (n, d) \<and> k n r1 = (GR_OK, r) \<and> r1 = (tick reg)\<lparr>reg_db := d\<rparr>"
  using assms by (auto simp: stmt_then_def db_exec_def split: if_splits option.splits)

lemma in_txn_db: "in_txn d0 h0 reg \<Longrightarrow> in_txn d0 h0 ((tick reg)\<lparr>reg_db := d\<rparr>)"
  by (simp add: in_txn_def)

lemma gr_bind_ok: "gr_bind m f = (GR_OK, r) \<Longrightarrow> (\<And>err q. m \<noteq> (Inl GR_OK, q)) \<Longrightarrow> \<exists>v q. m = (Inr v, q) \<and> f v q = (GR_OK, r)"
  by (auto simp: gr_bind_def split: prod.splits sum.splits)

lemma gr_then_ok: "gr_then m f = (GR_OK, r) \<Longrightarrow> \<exists>q. m = (GR_OK, q) \<and> f q = (GR_OK, r)"
  by (auto simp: gr_then_def split: prod.splits if_splits)

text \<open>Results read through the engine.\<close>

lemma query_ok: "db_query e q reg = (Inr v, r) \<Longrightarrow> q (reg_db reg) = Some v \<and> quiet reg r"
  by (auto simp: db_query_def split: if_splits option.splits)

lemma fetch_ok: "db_fetch e q reg = (Inr v, r) \<Longrightarrow> q (reg_db reg) = Some v \<and> quiet reg r"
  by (auto simp: db_fetch_def split: if_splits option.splits)

lemma query_no_ok: "db_query e q reg \<noteq> (Inl GR_OK, r)" "db_fetch e q reg \<noteq> (Inl GR_OK, r)"
  by (auto simp: db_query_def db_fetch_def split: option.splits)

lemma query_bind_ok:
  assumes "gr_bind (db_query e q reg) k = (GR_OK, r)"
  shows "\<exists>v r1. q (reg_db reg) = Some v \<and> quiet reg r1 \<and> k v r1 = (GR_OK, r)"
proof -
  from gr_bind_ok [OF assms query_no_ok(1)] obtain v r1
    where x: "db_query e q reg = (Inr v, r1)" "k v r1 = (GR_OK, r)" by (elim exE conjE)
  show ?thesis by (rule exI [of _ v], rule exI [of _ r1]) (simp add: query_ok [OF x(1)] x(2))
qed

lemma fetch_bind_ok:
  assumes "gr_bind (db_fetch e q reg) k = (GR_OK, r)"
  shows "\<exists>v r1. q (reg_db reg) = Some v \<and> quiet reg r1 \<and> k v r1 = (GR_OK, r)"
proof -
  from gr_bind_ok [OF assms query_no_ok(2)] obtain v r1
    where x: "db_fetch e q reg = (Inr v, r1)" "k v r1 = (GR_OK, r)" by (elim exE conjE)
  show ?thesis by (rule exI [of _ v], rule exI [of _ r1]) (simp add: fetch_ok [OF x(1)] x(2))
qed

lemma q_bind_ok: "q_bind m f = (Inr v, r) \<Longrightarrow> \<exists>u q. m = (Inr u, q) \<and> f u q = (Inr v, r)"
  by (auto simp: q_bind_def split: prod.splits sum.splits)

lemma q_then_ok: "q_then m f = (Inr v, r) \<Longrightarrow> \<exists>q. m = (GR_OK, q) \<and> f q = (Inr v, r)"
  by (auto simp: q_then_def split: prod.splits if_splits)

section \<open>More ways to build a body\<close>

lemma in_txn_quiet: "quiet reg r \<Longrightarrow> in_txn d0 h0 reg \<Longrightarrow> in_txn d0 h0 r"
  by (simp add: in_txn_def quietD)

text \<open>Drawing a value from the environment.\<close>

lemma txn_draw:
  assumes "err \<noteq> GR_OK" and k: "\<And>v. txn_body e (k v)"
  shows "txn_body e (\<lambda>r. case f (reg_calls r) of None \<Rightarrow> (err, tick r) | Some v \<Rightarrow> k v (tick r))"
proof (rule txn_bodyI)
  fix d0 h0 reg assume rel: "reliable e" and t: "in_txn d0 h0 reg"
  have tt: "in_txn d0 h0 (tick reg)" using t by (simp add: in_txn_def)
  show "txn_result d0 h0 reg (case f (reg_calls reg) of None \<Rightarrow> (err, tick reg) | Some v \<Rightarrow> k v (tick reg))"
    using txn_bodyD [OF k rel tt] tt assms(1) by (cases "f (reg_calls reg)") (auto simp: txn_result_def)
qed

text \<open>A statement whose result is not looked at.\<close>

lemma txn_exec: "txn_body e k \<Longrightarrow> txn_body e (\<lambda>r. case db_exec e stmt r of (x, r1) \<Rightarrow> k r1)"
proof -
  assume k: "txn_body e k"
  have "txn_body e (\<lambda>r. k (snd (db_exec e stmt r)))"
    by (rule txn_pre [OF k]) (auto simp: db_exec_def in_txn_def split: option.splits)
  then show ?thesis by (simp add: case_prod_unfold)
qed

text \<open>A read in front of the rest of the body.\<close>

lemma txn_bind:
  assumes q: "\<And>r. quiet r (snd (m r))" and no: "\<And>r q. m r \<noteq> (Inl GR_OK, q)" and k: "\<And>v. txn_body e (k v)"
  shows "txn_body e (\<lambda>r. gr_bind (m r) k)"
proof (rule txn_bodyI)
  fix d0 h0 reg assume rel: "reliable e" and t: "in_txn d0 h0 reg"
  obtain v r1 where m: "m reg = (v, r1)" by (cases "m reg")
  have quiet: "quiet reg r1" using q [of reg] m by simp
  note t1 = in_txn_quiet [OF quiet t]
  show "txn_result d0 h0 reg (gr_bind (m reg) k)"
    using txn_bodyD [OF k rel t1] t1 m no [of reg r1] quiet
    by (cases v) (auto simp: gr_bind_def txn_result_def quietD)
qed

end
