(* ===== verification/Audit_Log.thy ===== *)
theory Audit_Log imports Registrar_State Buf "HOL-Library.Multiset"
begin

text \<open>
  \<open>src/src/group_registrar/audit.c\<close>: appending signed, hash-chained entries, the chain verification,
  retention and the fork listing.  \<open>gr_behavior_check_actor\<close>, called after a successful append,
  only reads tables and calls the host's alert callback; it is left out.
\<close>

section \<open>Appending\<close>

text \<open>The bytes that \<open>gr_audit_append\<close> and \<open>gr_audit_verify_chain\<close> feed to the hash.\<close>

definition audit_hash_input :: "bool \<Rightarrow> gr_audit_entry_t \<Rightarrow> bytes" where
  "audit_hash_input h a =
     a_prev_hash a @ mem_bytes h 8 (gr_htole64 h (a_timestamp a))
     @ mem_bytes h 4 (gr_htole32 h (a_change_type a)) @ a_actor_id a @ a_target_id a
     @ mem_bytes h 4 (gr_htole32 h (a_registrar_version a)) @ c_string (a_detail a)"

definition audit_hash :: "yumi_env \<Rightarrow> gr_audit_entry_t \<Rightarrow> bytes" where
  "audit_hash e a = skein e (audit_hash_input (host_le e) a)"

definition audit_max_rows :: u32 where
  "audit_max_rows = of_nat (GR_AUDIT_MAX_BYTES div GR_AUDIT_EST_ROW_BYTES)"

lemma audit_max_rows_code [code]: "audit_max_rows = 52428"
  by (simp add: audit_max_rows_def)

definition gr_audit_count :: "yumi_env \<Rightarrow> gr_registrar \<Rightarrow> (gr_error_t + u32) \<times> gr_registrar" where
  "gr_audit_count e reg = db_query e (\<lambda>d. Some (of_nat (ps_audit_count d))) reg"

definition gr_audit_enforce_retention_internal :: "yumi_env \<Rightarrow> gr_registrar \<Rightarrow> gr_error_t \<times> gr_registrar" where
  "gr_audit_enforce_retention_internal e reg =
     gr_bind (gr_audit_count e reg) (\<lambda>count r1.
       if count \<le> audit_max_rows then (GR_OK, r1)
       else stmt_then e (ps_audit_prune (count - audit_max_rows)) (\<lambda>n r. (GR_OK, r)) r1)"

text \<open>The entry before it is hashed and signed.\<close>

definition audit_draft :: "yumi_env \<Rightarrow> u32 \<Rightarrow> gr_identity_t \<Rightarrow> bytes option \<Rightarrow> bytes option \<Rightarrow>
    bytes \<Rightarrow> gr_registrar \<Rightarrow> gr_audit_entry_t" where
  "audit_draft e change_type actor target detail prev reg =
     (let ts_ns = gr_timestamp_ns e (reg_calls reg) in
      \<lparr>a_entry_hash = zero_hash, a_timestamp = i64_div ts_ns 1000000, a_timestamp_ns = ts_ns,
       a_change_type = change_type, a_actor_id = id_peer_id actor,
       a_target_id = (case target of None \<Rightarrow> zero_id | Some t \<Rightarrow> t),
       a_signature = replicate GR_SIGN_LEN 0,
       a_registrar_version = h_version (reg_header reg) + 1,
       a_detail = (case detail of None \<Rightarrow> [] | Some s \<Rightarrow> take (GR_DETAIL_LEN - 1) s),
       a_prev_hash = prev\<rparr>)"

definition fetch_prev_hash :: "yumi_env \<Rightarrow> gr_registrar \<Rightarrow> bytes" where
  "fetch_prev_hash e reg =
     (if db_ok e DbStmt (reg_calls reg)
      then case ps_audit_last_hash (reg_db reg) of None \<Rightarrow> zero_hash | Some h \<Rightarrow> h
      else zero_hash)"

text \<open>Storing the finished entry: the row, the header, then retention.\<close>

definition audit_store :: "yumi_env \<Rightarrow> gr_audit_entry_t \<Rightarrow> gr_registrar \<Rightarrow> gr_error_t \<times> gr_registrar" where
  "audit_store e entry =
     stmt_then e (ps_audit_insert entry) (\<lambda>n r.
       gr_then (gr_header_save e (r\<lparr>reg_header := (reg_header r)\<lparr>h_updated_at := a_timestamp entry\<rparr>\<rparr>))
         (\<lambda>r. (GR_OK, snd (gr_audit_enforce_retention_internal e r))))"

text \<open>Hashing and signing it.\<close>

definition audit_seal :: "yumi_env \<Rightarrow> bytes \<Rightarrow> gr_audit_entry_t \<Rightarrow> gr_registrar \<Rightarrow> gr_error_t \<times> gr_registrar" where
  "audit_seal e sk draft reg =
     (if \<not> skein_ok e (reg_calls reg) then (GR_ERR_CRYPTO, tick reg)
      else case mldsa_sign e (reg_calls reg) sk (audit_hash e draft) of
             None \<Rightarrow> (GR_ERR_CRYPTO, tick reg)
           | Some sig \<Rightarrow>
               audit_store e (draft\<lparr>a_entry_hash := audit_hash e draft, a_signature := sig\<rparr>) (tick reg))"

definition gr_audit_append :: "yumi_env \<Rightarrow> u32 \<Rightarrow> gr_identity_t \<Rightarrow> bytes option \<Rightarrow> bytes option \<Rightarrow>
    gr_registrar \<Rightarrow> gr_error_t \<times> gr_registrar" where
  "gr_audit_append e change_type actor target detail reg =
     (let prev = fetch_prev_hash e reg;
          r1 = tick reg;
          draft = audit_draft e change_type actor target detail prev r1;
          r2 = (tick r1)\<lparr>reg_header := (reg_header r1)\<lparr>h_version := h_version (reg_header r1) + 1\<rparr>\<rparr>
      in audit_seal e (id_secret_key actor) draft r2)"

section \<open>Retention, listing\<close>

definition gr_audit_enforce_retention :: "yumi_env \<Rightarrow> gr_registrar \<Rightarrow> gr_error_t \<times> gr_registrar" where
  "gr_audit_enforce_retention e reg = gr_audit_enforce_retention_internal e reg"

definition gr_audit_list :: "yumi_env \<Rightarrow> i64 \<Rightarrow> u32 \<Rightarrow> gr_registrar \<Rightarrow>
    (gr_error_t + gr_audit_entry_t list) \<times> gr_registrar" where
  "gr_audit_list e since max_count reg = db_query e (ps_audit_list since max_count) reg"

abbreviation (input) GR_FORK_MAX_BRANCHES :: nat where "GR_FORK_MAX_BRANCHES \<equiv> 8"

text \<open>
  The grouping loop of \<open>gr_audit_list_forks\<close>: \<open>acc\<close> holds the forks found so far, the last one
  being filled (\<open>fork_idx\<close> is its index).
\<close>

fun group_forks :: "nat \<Rightarrow> (bytes \<times> gr_audit_entry_t list) list \<Rightarrow> gr_audit_entry_t list \<Rightarrow>
    (bytes \<times> gr_audit_entry_t list) list" where
  "group_forks max_forks acc [] = acc"
| "group_forks max_forks acc (a # rows) =
     (if acc = [] \<or> a_prev_hash a \<noteq> fst (last acc)
      then if max_forks \<le> length acc then acc
           else group_forks max_forks (acc @ [(a_prev_hash a, [a])]) rows
      else if length (snd (last acc)) < GR_FORK_MAX_BRANCHES
           then group_forks max_forks (butlast acc @ [(fst (last acc), snd (last acc) @ [a])]) rows
           else group_forks max_forks acc rows)"

definition gr_audit_list_forks :: "yumi_env \<Rightarrow> u32 \<Rightarrow> gr_registrar \<Rightarrow>
    (gr_error_t + (bytes \<times> gr_audit_entry_t list) list) \<times> gr_registrar" where
  "gr_audit_list_forks e max_forks reg =
     (if max_forks = 0 then (Inr [], reg)
      else case db_query e (ps_audit_list_forks (max_forks * of_nat GR_FORK_MAX_BRANCHES)) reg of
             (Inl err, r) \<Rightarrow> (Inl err, r)
           | (Inr rows, r) \<Rightarrow> (Inr (group_forks (unat max_forks) [] rows), r))"

section \<open>Verifying the chain\<close>

record gr_audit_chain_result_t =
  total_entries :: u32
  verified_entries :: u32
  invalid_hash :: u32
  invalid_signature :: u32
  unknown_actor :: u32
  c_forks_detected :: u32
  c_forks_resolved :: u32
  has_genesis :: bool

definition chain_result_zero :: gr_audit_chain_result_t where
  "chain_result_zero = \<lparr>total_entries = 0, verified_entries = 0, invalid_hash = 0,
     invalid_signature = 0, unknown_actor = 0, c_forks_detected = 0, c_forks_resolved = 0,
     has_genesis = False\<rparr>"

text \<open>Fork points: the rows come ordered by \<open>prev_hash\<close>; \<open>last_prev\<close> starts as all 0xFF.\<close>

fun count_forks :: "bytes \<Rightarrow> gr_audit_entry_t list \<Rightarrow> gr_audit_chain_result_t \<Rightarrow> gr_audit_chain_result_t" where
  "count_forks last_prev [] res = res"
| "count_forks last_prev (a # rows) res =
     (if a_prev_hash a \<noteq> last_prev
      then count_forks (a_prev_hash a) rows (res\<lparr>c_forks_detected := c_forks_detected res + 1\<rparr>)
      else count_forks last_prev rows (res\<lparr>c_forks_resolved := c_forks_resolved res + 1\<rparr>))"

text \<open>One entry.\<close>

definition verify_entry :: "yumi_env \<Rightarrow> gr_audit_entry_t \<Rightarrow> gr_audit_chain_result_t \<Rightarrow> gr_registrar \<Rightarrow>
    (gr_error_t + gr_audit_chain_result_t) \<times> gr_registrar" where
  "verify_entry e a res0 reg =
     (let res = (if a_prev_hash a = zero_hash then res0\<lparr>has_genesis := True\<rparr> else res0) in
      if \<not> skein_ok e (reg_calls reg) then (Inl GR_ERR_CRYPTO, tick reg)
      else if audit_hash e a \<noteq> a_entry_hash a
      then (Inr (res\<lparr>invalid_hash := invalid_hash res + 1\<rparr>), tick reg)
      else case db_query e (ps_audit_actor_pk (a_actor_id a)) (tick reg) of
             (Inl err, r) \<Rightarrow> (Inr (res\<lparr>unknown_actor := unknown_actor res + 1\<rparr>), r)
           | (Inr pk, r) \<Rightarrow>
               if mldsa_verify e (a_signature a) (a_entry_hash a) pk
               then (Inr (res\<lparr>verified_entries := verified_entries res + 1\<rparr>), r)
               else (Inr (res\<lparr>invalid_signature := invalid_signature res + 1\<rparr>), r))"

fun verify_rows :: "yumi_env \<Rightarrow> gr_audit_entry_t list \<Rightarrow> gr_audit_chain_result_t \<Rightarrow> gr_registrar \<Rightarrow>
    (gr_error_t + gr_audit_chain_result_t) \<times> gr_registrar" where
  "verify_rows e [] res reg = (Inr res, reg)"
| "verify_rows e (a # rows) res reg =
     (case verify_entry e a res reg of
        (Inl err, r) \<Rightarrow> (Inl err, r)
      | (Inr res', r) \<Rightarrow> verify_rows e rows res' r)"

text \<open>
  The batches.  The offset is a natural number: it is bound as a signed 32-bit integer, so the
  query fails before the 32-bit counter of the code could wrap.
\<close>

abbreviation (input) BATCH :: nat where "BATCH \<equiv> 512"

function verify_batches :: "yumi_env \<Rightarrow> nat \<Rightarrow> nat \<Rightarrow> gr_audit_chain_result_t \<Rightarrow> gr_registrar \<Rightarrow>
    (gr_error_t + gr_audit_chain_result_t) \<times> gr_registrar" where
  "verify_batches e offset n_total res reg =
     (if n_total \<le> offset then (Inr res, reg)
      else case db_query e (ps_audit_verify_batch (of_nat BATCH) (of_nat offset)) reg of
             (Inl err, r) \<Rightarrow> (Inl GR_ERR_DB, r)
           | (Inr rows, r) \<Rightarrow>
               (case verify_rows e rows res r of
                  (Inl err, r') \<Rightarrow> (Inl err, r')
                | (Inr res', r') \<Rightarrow> verify_batches e (offset + BATCH) n_total res' r'))"
  by pat_completeness auto
termination
  by (relation "measure (\<lambda>(e, offset, n_total, res, reg). n_total - offset)") auto

definition gr_audit_verify_chain :: "yumi_env \<Rightarrow> gr_registrar \<Rightarrow>
    (gr_error_t + gr_audit_chain_result_t) \<times> gr_registrar" where
  "gr_audit_verify_chain e reg =
     (case gr_audit_count e reg of
        (Inl err, r1) \<Rightarrow> (Inl err, r1)
      | (Inr n_total, r1) \<Rightarrow>
          let res0 = chain_result_zero\<lparr>total_entries := n_total\<rparr> in
          if n_total = 0 then (Inr res0, r1)
          else let (res1, r2) =
                 (case db_query e (\<lambda>d. Some (ps_audit_fork_resolve d)) r1 of
                    (Inl err, r) \<Rightarrow> (res0, r)
                  | (Inr rows, r) \<Rightarrow> (count_forks (replicate GR_HASH_LEN 255) rows res0, r))
               in verify_batches e 0 (unat n_total) res1 r2)"

section \<open>Appending inside a transaction\<close>

lemma enforce_retention_state:
  assumes "gr_audit_enforce_retention_internal e reg = (err, r)"
  shows "reg_header r = reg_header reg \<and> reg_saved r = reg_saved reg \<and> reg_txn_depth r = reg_txn_depth reg
    \<and> reg_txn_saved_header r = reg_txn_saved_header reg \<and> reg_join_state r = reg_join_state reg
    \<and> reg_stmts_ready r = reg_stmts_ready reg"
  using assms
  by (auto simp: gr_audit_enforce_retention_internal_def gr_bind_def gr_audit_count_def db_query_def
      stmt_then_def db_exec_def split: sum.splits if_splits option.splits)

text \<open>What retention leaves of a table: all of it up to the limit, else the table without the victims.\<close>

definition retained :: "gr_audit_entry_t list \<Rightarrow> gr_audit_entry_t list \<Rightarrow> bool" where
  "retained t t' \<longleftrightarrow> t' = t
     \<or> (audit_max_rows < of_nat (length t)
        \<and> (\<exists>hs. prune_victims (of_nat (length t) - audit_max_rows) t = Some hs
             \<and> t' = tbl_delete (\<lambda>a. a_entry_hash a \<in> set hs) t))"

lemma enforce_retention_db:
  assumes "gr_audit_enforce_retention_internal e reg = (err, r)"
  shows "\<exists>t'. retained (db_audit (reg_db reg)) t' \<and> reg_db r = (reg_db reg)\<lparr>db_audit := t'\<rparr>"
proof -
  have keep: "\<exists>t'. retained (db_audit d) t' \<and> d = d\<lparr>db_audit := t'\<rparr>" for d
    by (rule exI [of _ "db_audit d"]) (simp add: retained_def)
  obtain res r1 where c: "gr_audit_count e reg = (res, r1)" by (cases "gr_audit_count e reg")
  then have r1: "reg_db r1 = reg_db reg"
    by (auto simp: gr_audit_count_def db_query_def split: if_splits)
  show ?thesis
  proof (cases res)
    case (Inl x)
    then show ?thesis using assms c r1 keep
      by (simp add: gr_audit_enforce_retention_internal_def gr_bind_def)
  next
    case (Inr n)
    have n: "n = of_nat (length (db_audit (reg_db reg)))"
      using c Inr by (auto simp: gr_audit_count_def db_query_def ps_audit_count_def split: if_splits)
    show ?thesis
    proof (cases "n \<le> audit_max_rows")
      case True
      then show ?thesis using assms c Inr r1 keep
        by (simp add: gr_audit_enforce_retention_internal_def gr_bind_def)
    next
      case False
      then have s: "stmt_then e (ps_audit_prune (n - audit_max_rows)) (\<lambda>n r. (GR_OK, r)) r1 = (err, r)"
        using assms c Inr by (simp add: gr_audit_enforce_retention_internal_def gr_bind_def)
      show ?thesis
      proof (cases "db_ok e DbStmt (reg_calls r1) \<and> ps_audit_prune (n - audit_max_rows) (reg_db r1) \<noteq> None")
        case True
        then obtain k d where p: "ps_audit_prune (n - audit_max_rows) (reg_db r1) = Some (k, d)" by auto
        with True s have "reg_db r = d" by (auto simp: stmt_then_def db_exec_def)
        then show ?thesis using p False n r1
          by (auto simp: ps_audit_prune_def sql_delete_def retained_def not_le split: option.splits)
      next
        case False
        then have "reg_db r = reg_db r1" using s by (auto simp: stmt_then_def db_exec_def split: if_splits option.splits)
        then show ?thesis using r1 keep by simp
      qed
    qed
  qed
qed

lemma txn_retention_tail: "txn_body e (\<lambda>r. (GR_OK, snd (gr_audit_enforce_retention_internal e r)))"
proof (rule txn_bodyI)
  fix d0 h0 reg assume "in_txn d0 h0 reg"
  then show "txn_result d0 h0 reg (GR_OK, snd (gr_audit_enforce_retention_internal e reg))"
    using enforce_retention_state [of e reg "fst (gr_audit_enforce_retention_internal e reg)"
        "snd (gr_audit_enforce_retention_internal e reg)"]
    by (simp add: txn_result_def in_txn_def)
qed

lemma txn_audit_store: "txn_body e (audit_store e a)"
  unfolding audit_store_def
  by (rule txn_stmt, rule txn_then [OF _ txn_retention_tail], rule txn_set_header [OF txn_header_save])

lemma txn_audit_seal: "txn_body e (audit_seal e sk a)"
proof (rule txn_bodyI)
  fix d0 h0 reg assume rel: "reliable e" and t: "in_txn d0 h0 reg"
  have tt: "in_txn d0 h0 (tick reg)" using t by (simp add: in_txn_def)
  show "txn_result d0 h0 reg (audit_seal e sk a reg)"
    using txn_bodyD [OF txn_audit_store rel tt] tt
    by (auto simp: audit_seal_def txn_result_def split: option.splits)
qed

lemma txn_audit_append: "txn_body e (gr_audit_append e ct actor target detail)"
proof (rule txn_bodyI)
  fix d0 h0 reg assume rel: "reliable e" and t: "in_txn d0 h0 reg"
  have "in_txn d0 h0 ((tick (tick reg))\<lparr>reg_header := h\<rparr>)" for h using t by (simp add: in_txn_def)
  from txn_bodyD [OF txn_audit_seal rel this]
  show "txn_result d0 h0 reg (gr_audit_append e ct actor target detail reg)"
    by (simp add: gr_audit_append_def Let_def txn_result_def)
qed

text \<open>The finished entry an append stores.\<close>

definition audit_entry :: "yumi_env \<Rightarrow> u32 \<Rightarrow> gr_identity_t \<Rightarrow> bytes option \<Rightarrow> bytes option \<Rightarrow>
    gr_registrar \<Rightarrow> gr_audit_entry_t" where
  "audit_entry e ct actor target detail reg =
     (let draft = audit_draft e ct actor target detail (fetch_prev_hash e reg) (tick reg)
      in draft\<lparr>a_entry_hash := audit_hash e draft,
               a_signature := the (mldsa_sign e (Suc (Suc (reg_calls reg))) (id_secret_key actor) (audit_hash e draft))\<rparr>)"

lemma audit_hash_frame [simp]:
  "audit_hash e (a\<lparr>a_entry_hash := h, a_signature := s\<rparr>) = audit_hash e a"
  "audit_hash e (a\<lparr>a_entry_hash := h\<rparr>) = audit_hash e a"
  by (simp_all add: audit_hash_def audit_hash_input_def)

lemma audit_entry_sound: "a_entry_hash (audit_entry e ct actor target detail reg) =
    audit_hash e (audit_entry e ct actor target detail reg)"
  by (simp add: audit_entry_def Let_def)

lemma audit_entry_fields:
  "a_change_type (audit_entry e ct actor target detail reg) = ct"
  "a_actor_id (audit_entry e ct actor target detail reg) = id_peer_id actor"
  "a_registrar_version (audit_entry e ct actor target detail reg) = h_version (reg_header reg) + 1"
  "a_target_id (audit_entry e ct actor target detail reg) = (case target of None \<Rightarrow> zero_id | Some t \<Rightarrow> t)"
  by (simp_all add: audit_entry_def audit_draft_def Let_def)

text \<open>The whole effect of a successful append.\<close>

definition audit_effect :: "yumi_env \<Rightarrow> u32 \<Rightarrow> gr_identity_t \<Rightarrow> bytes option \<Rightarrow> bytes option \<Rightarrow>
    gr_registrar \<Rightarrow> gr_registrar \<Rightarrow> bool" where
  "audit_effect e ct actor target detail reg r \<longleftrightarrow>
     (let entry = audit_entry e ct actor target detail reg in
      reg_header r = (reg_header reg)\<lparr>h_version := h_version (reg_header reg) + 1,
        h_updated_at := a_timestamp entry\<rparr>
      \<and> (\<exists>t'. retained (tbl_insert_ignore a_entry_hash entry (db_audit (reg_db reg))) t'
           \<and> reg_db r = (reg_db reg)\<lparr>db_audit := t', db_header := [reg_header r]\<rparr>))"

lemma audit_append_effect:
  assumes rel: "reliable e" and t: "settled reg"
    and res: "gr_audit_append e ct actor target detail reg = (GR_OK, r)"
  shows "audit_effect e ct actor target detail reg r \<and> (idle reg \<longrightarrow> idle r)
    \<and> reg_join_state r = reg_join_state reg"
proof -
  let ?hdr = "(reg_header reg)\<lparr>h_version := h_version (reg_header reg) + 1\<rparr>"
  let ?r2 = "(tick (tick reg))\<lparr>reg_header := ?hdr\<rparr>"
  let ?draft = "audit_draft e ct actor target detail (fetch_prev_hash e reg) (tick reg)"
  let ?entry = "audit_entry e ct actor target detail reg"
  have seal: "audit_seal e (id_secret_key actor) ?draft ?r2 = (GR_OK, r)"
    using res by (simp add: gr_audit_append_def Let_def)
  then obtain sg where sg: "mldsa_sign e (reg_calls ?r2) (id_secret_key actor) (audit_hash e ?draft) = Some sg"
    by (auto simp: audit_seal_def split: if_splits option.splits)
  have entry: "?entry = ?draft\<lparr>a_entry_hash := audit_hash e ?draft, a_signature := sg\<rparr>"
    using sg by (simp add: audit_entry_def Let_def tick_def)
  have store: "audit_store e ?entry (tick ?r2) = (GR_OK, r)"
    using seal sg by (auto simp: audit_seal_def entry split: if_splits)
  then obtain n r3 where x: "db_exec e (ps_audit_insert ?entry) (tick ?r2) = (Some n, r3)"
      "gr_then (gr_header_save e (r3\<lparr>reg_header := (reg_header r3)\<lparr>h_updated_at := a_timestamp ?entry\<rparr>\<rparr>))
         (\<lambda>r. (GR_OK, snd (gr_audit_enforce_retention_internal e r))) = (GR_OK, r)"
    by (auto simp: audit_store_def stmt_then_def split: prod.splits option.splits)
  have r3: "reg_db r3 = (reg_db reg)\<lparr>db_audit := tbl_insert_ignore a_entry_hash ?entry (db_audit (reg_db reg))\<rparr>"
      "reg_header r3 = ?hdr" "settled r3" "idle reg \<longrightarrow> idle r3" "reg_join_state r3 = reg_join_state reg"
    using x(1) t by (auto simp: db_exec_def ps_audit_insert_def in_txn_def settled_def idle_def split: if_splits)
  let ?r4 = "r3\<lparr>reg_header := ?hdr\<lparr>h_updated_at := a_timestamp ?entry\<rparr>\<rparr>"
  have t4: "settled ?r4" using r3(3) by (simp add: settled_def in_txn_def idle_def)
  obtain err r5 where hs: "gr_header_save e ?r4 = (err, r5)" by (cases "gr_header_save e ?r4")
  with x(2) r3(2) have ok: "err = GR_OK" and rr: "r = snd (gr_audit_enforce_retention_internal e r5)"
    by (auto simp: gr_then_def split: if_splits)
  have r5: "reg_db r5 = (reg_db r3)\<lparr>db_header := [reg_header ?r4]\<rparr>" "reg_header r5 = reg_header ?r4"
      "idle ?r4 \<longrightarrow> idle r5" "reg_join_state r5 = reg_join_state r3"
    using header_save_effect [OF rel t4, of r5] hs ok by simp_all
  have i4: "idle reg \<longrightarrow> idle ?r4" using r3(4) by (simp add: idle_def)
  obtain e2 where ret: "gr_audit_enforce_retention_internal e r5 = (e2, r)" using rr by (metis prod.collapse)
  note es = enforce_retention_state [OF ret]
  have h: "reg_header r = reg_header r5" using es by simp
  have fr: "idle reg \<longrightarrow> idle r" "reg_join_state r = reg_join_state reg"
    using es i4 r5(3,4) r3(5) by (auto simp: idle_def)
  obtain t' where t': "retained (db_audit (reg_db r5)) t'" "reg_db r = (reg_db r5)\<lparr>db_audit := t'\<rparr>"
    using enforce_retention_db [OF ret] by blast
  have "audit_effect e ct actor target detail reg r"
    unfolding audit_effect_def Let_def using h r5(1,2) r3(1,2) t' by auto
  with fr show ?thesis by blast
qed

lemma audit_append_ok:
  assumes "reliable e" and "in_txn d0 h0 reg" and "gr_audit_append e ct actor target detail reg = (GR_OK, r)"
  shows "audit_effect e ct actor target detail reg r"
  using audit_append_effect [OF assms(1) in_txn_settled [OF assms(2)] assms(3)] by blast

section \<open>What the verification counts\<close>

definition tally :: "gr_audit_chain_result_t \<Rightarrow> u32" where
  "tally res = verified_entries res + invalid_hash res + invalid_signature res + unknown_actor res"

definition bad_hash :: "yumi_env \<Rightarrow> gr_audit_entry_t \<Rightarrow> bool" where
  "bad_hash e a \<longleftrightarrow> audit_hash e a \<noteq> a_entry_hash a"

lemma db_query_db: "db_query e q reg = (res, r) \<Longrightarrow> reg_db r = reg_db reg"
  by (auto simp: db_query_def split: if_splits option.splits)

lemma verify_entry_counts:
  assumes "verify_entry e a res reg = (Inr res', r)"
  shows "tally res' = tally res + 1 \<and> total_entries res' = total_entries res \<and> reg_db r = reg_db reg
    \<and> invalid_hash res' = invalid_hash res + (if bad_hash e a then 1 else 0)"
  using assms
  by (auto simp: verify_entry_def Let_def tally_def bad_hash_def db_query_db split: if_splits sum.splits
      prod.splits dest!: db_query_db)

lemma verify_rows_counts:
  assumes "verify_rows e rows res reg = (Inr res', r)"
  shows "tally res' = tally res + of_nat (length rows) \<and> total_entries res' = total_entries res
    \<and> reg_db r = reg_db reg
    \<and> invalid_hash res' = invalid_hash res + of_nat (length (filter (bad_hash e) rows))"
  using assms
proof (induction rows arbitrary: res reg)
  case Nil
  then show ?case by simp
next
  case (Cons a rows)
  then obtain res1 r1 where 1: "verify_entry e a res reg = (Inr res1, r1)"
      "verify_rows e rows res1 r1 = (Inr res', r)"
    by (auto split: prod.splits sum.splits)
  show ?case using verify_entry_counts [OF 1(1)] Cons.IH [OF 1(2)] by simp
qed

lemma verify_batch_rows:
  assumes "ps_audit_verify_batch (of_nat BATCH) (of_nat off) d = Some rows" and "off < 2 ^ 32"
  shows "rows = take BATCH (drop off (sort_key audit_key_of (db_audit d)))"
proof -
  have pos: "0 \<le> sint (of_nat off :: u32)"
    using assms(1) by (auto simp: ps_audit_verify_batch_def split: if_splits)
  have "off < 2 ^ 31"
  proof (rule ccontr)
    assume "\<not> off < 2 ^ 31"
    have "(of_nat off :: u32) = of_int (int off - 2 ^ 32)" by simp
    then have "sint (of_nat off :: u32) = int off - 2 ^ 32"
      using \<open>\<not> off < 2 ^ 31\<close> assms(2) by (simp only: signed_of_int) (simp add: signed_take_bit_int_eq_self)
    with assms(2) have "sint (of_nat off :: u32) < 0" by simp
    with pos show False by simp
  qed
  then have "sint (of_nat off :: u32) = int off"
    by (simp add: signed_of_nat signed_take_bit_int_eq_self)
  moreover have "sint (512 :: u32) = 512" by simp
  ultimately show ?thesis
    using assms(1) by (simp add: ps_audit_verify_batch_def sql_limit_def)
qed

lemma verify_batches_counts:
  assumes "verify_batches e off n_total res reg = (Inr res', r)"
    and "n_total = length (db_audit (reg_db reg))" and "n_total < 2 ^ 32"
  shows "tally res' = tally res + of_nat (n_total - off) \<and> total_entries res' = total_entries res
    \<and> invalid_hash res' = invalid_hash res
        + of_nat (length (filter (bad_hash e) (drop off (sort_key audit_key_of (db_audit (reg_db reg))))))"
  using assms
proof (induction e off n_total res reg rule: verify_batches.induct)
  case (1 e off n_total res reg)
  let ?s = "sort_key audit_key_of (db_audit (reg_db reg))"
  show ?case
  proof (cases "n_total \<le> off")
    case True
    then show ?thesis using 1 by simp
  next
    case False
    obtain q r1 where q: "db_query e (ps_audit_verify_batch (of_nat BATCH) (of_nat off)) reg = (q, r1)"
      by (cases "db_query e (ps_audit_verify_batch (of_nat BATCH) (of_nat off)) reg")
    with 1(2) False obtain rows where rows: "q = Inr rows" by (cases q) auto
    with q have some: "ps_audit_verify_batch (of_nat BATCH) (of_nat off) (reg_db reg) = Some rows"
      by (auto simp: db_query_def split: if_splits option.splits)
    have take: "rows = take BATCH (drop off ?s)"
      by (rule verify_batch_rows [OF some]) (use False 1(4) in simp)
    obtain res1 r2 where v: "verify_rows e rows res r1 = (Inr res1, r2)"
        "verify_batches e (off + BATCH) n_total res1 r2 = (Inr res', r)"
      using 1(2) False q rows by (auto split: prod.splits sum.splits)
    note c = verify_rows_counts [OF v(1)]
    have db: "reg_db r2 = reg_db reg" using c db_query_db [OF q] by simp
    have rest: "tally res' = tally res1 + of_nat (n_total - (off + BATCH)) \<and> total_entries res' = total_entries res1
      \<and> invalid_hash res' = invalid_hash res1 + of_nat (length (filter (bad_hash e) (drop (off + BATCH) ?s)))"
      using 1(1) [OF False q [symmetric] rows v(1) [symmetric] refl v(2)] 1(3,4) db by simp
    have "drop off ?s = rows @ drop (off + BATCH) ?s"
      by (simp add: take drop_drop [symmetric] add.commute [of off] del: drop_drop)
    moreover have "length rows + (n_total - (off + BATCH)) = n_total - off"
      using 1(3) by (simp add: take)
    ultimately show ?thesis using c rest by (simp flip: of_nat_add)
  qed
qed

declare verify_batches.simps [simp del]

lemma tally_forks [simp]:
  "tally (res\<lparr>c_forks_detected := n\<rparr>) = tally res" "tally (res\<lparr>c_forks_resolved := n\<rparr>) = tally res"
  by (simp_all add: tally_def)

lemma count_forks_frame:
  "tally (count_forks p rows res) = tally res \<and> total_entries (count_forks p rows res) = total_entries res
   \<and> invalid_hash (count_forks p rows res) = invalid_hash res"
  by (induction p rows res rule: count_forks.induct) simp_all

lemma verify_chain_counts:
  assumes res: "gr_audit_verify_chain e reg = (Inr res, r)" and small: "length (db_audit (reg_db reg)) < 2 ^ 32"
  shows "total_entries res = of_nat (length (db_audit (reg_db reg))) \<and> tally res = total_entries res
    \<and> invalid_hash res = of_nat (length (filter (bad_hash e) (db_audit (reg_db reg))))"
proof -
  let ?n = "length (db_audit (reg_db reg))"
  obtain q r1 where q: "gr_audit_count e reg = (q, r1)" by (cases "gr_audit_count e reg")
  with res have "q = Inr (of_nat ?n)" and db1: "reg_db r1 = reg_db reg"
    by (auto simp: gr_audit_verify_chain_def gr_audit_count_def db_query_def ps_audit_count_def
        split: if_splits)
  note q = q [unfolded this(1)]
  have n: "unat (of_nat ?n :: u32) = ?n" using small by (simp add: unat_of_nat)
  show ?thesis
  proof (cases "(of_nat ?n :: u32) = 0")
    case True
    then have "?n = 0" using n by simp
    then show ?thesis using res q by (auto simp: gr_audit_verify_chain_def Let_def tally_def chain_result_zero_def)
  next
    case False
    define res0 where "res0 = chain_result_zero\<lparr>total_entries := (of_nat ?n :: u32)\<rparr>"
    obtain f r2 where f: "db_query e (\<lambda>d. Some (ps_audit_fork_resolve d)) r1 = (f, r2)"
      by (cases "db_query e (\<lambda>d. Some (ps_audit_fork_resolve d)) r1")
    define res1 where "res1 = (case f of Inl err \<Rightarrow> res0
      | Inr rows \<Rightarrow> count_forks (replicate GR_HASH_LEN 255) rows res0)"
    have res0: "tally res0 = 0" "total_entries res0 = of_nat ?n" "invalid_hash res0 = 0"
      by (simp_all add: res0_def tally_def chain_result_zero_def)
    have res1: "tally res1 = 0" "total_entries res1 = of_nat ?n" "invalid_hash res1 = 0"
      by (simp_all add: res1_def res0 count_forks_frame split: sum.splits)
    have vb: "verify_batches e 0 ?n res1 r2 = (Inr res, r)"
      using res q False f n
      by (simp add: gr_audit_verify_chain_def res1_def res0_def Let_def split: sum.splits)
    have db2: "reg_db r2 = reg_db reg" using db_query_db [OF f] db1 by simp
    have c: "tally res = tally res1 + of_nat (?n - 0) \<and> total_entries res = total_entries res1
        \<and> invalid_hash res = invalid_hash res1
          + of_nat (length (filter (bad_hash e) (drop 0 (sort_key audit_key_of (db_audit (reg_db r2))))))"
      by (rule verify_batches_counts [OF vb _ small]) (simp only: db2)
    have "length (filter P (sort_key audit_key_of t)) = length (filter P t)" for P t
      by (metis mset_filter mset_sort size_mset)
    with c show ?thesis by (simp only: res1 db2 drop_0 minus_nat.diff_0 add_0)
  qed
qed

section \<open>Operations that end with an append\<close>

text \<open>
  \<open>logged e ct actor target d h r\<close>: the handle \<open>r\<close> holds the tables \<open>d\<close> with one more audit entry
  of type \<open>ct\<close> by \<open>actor\<close>, soundly hashed and carrying the next version, and the header \<open>h\<close> with
  that version, persisted as the only header row.
\<close>

definition logged :: "yumi_env \<Rightarrow> u32 \<Rightarrow> gr_identity_t \<Rightarrow> bytes option \<Rightarrow> gr_db \<Rightarrow> gr_header_t \<Rightarrow>
    gr_registrar \<Rightarrow> bool" where
  "logged e ct actor target d h r \<longleftrightarrow> (\<exists>entry t'.
     a_change_type entry = ct \<and> a_actor_id entry = id_peer_id actor
     \<and> a_target_id entry = (case target of None \<Rightarrow> zero_id | Some t \<Rightarrow> t)
     \<and> a_registrar_version entry = h_version h + 1 \<and> a_entry_hash entry = audit_hash e entry
     \<and> retained (tbl_insert_ignore a_entry_hash entry (db_audit d)) t'
     \<and> reg_header r = h\<lparr>h_version := h_version h + 1, h_updated_at := a_timestamp entry\<rparr>
     \<and> reg_db r = d\<lparr>db_audit := t', db_header := [reg_header r]\<rparr>)"

lemma audit_effect_logged:
  "audit_effect e ct actor target detail reg r \<Longrightarrow> logged e ct actor target (reg_db reg) (reg_header reg) r"
  unfolding audit_effect_def logged_def Let_def
  using audit_entry_fields [of e ct actor target detail reg] audit_entry_sound [of e ct actor target detail reg]
  by blast

lemma logged_cong:
  "logged e ct actor target d h r \<Longrightarrow> reg_db r' = reg_db r \<Longrightarrow> reg_header r' = reg_header r \<Longrightarrow>
   logged e ct actor target d h r'"
  by (simp add: logged_def)

lemma loggedD:
  assumes "logged e ct actor target d h r"
  shows "db_peers (reg_db r) = db_peers d" "db_roles (reg_db r) = db_roles d"
    "db_webapps (reg_db r) = db_webapps d" "db_servers (reg_db r) = db_servers d"
    "db_epochs (reg_db r) = db_epochs d" "db_invites (reg_db r) = db_invites d"
    "db_icon (reg_db r) = db_icon d" "db_blocklist (reg_db r) = db_blocklist d"
    "db_header (reg_db r) = [reg_header r]" "h_version (reg_header r) = h_version h + 1"
    "h_epoch_id (reg_header r) = h_epoch_id h" "h_owner_id (reg_header r) = h_owner_id h"
    "h_owner_sign_key (reg_header r) = h_owner_sign_key h" "h_group_id (reg_header r) = h_group_id h"
    "h_retention (reg_header r) = h_retention h"
  using assms by (auto simp: logged_def)

lemma retained_inv: "tbl_inv a_entry_hash t \<Longrightarrow> retained t t' \<Longrightarrow> tbl_inv a_entry_hash t'"
  by (auto simp: retained_def tbl_inv_delete)

lemma logged_keys:
  assumes "db_keys_ok d" and "logged e ct actor target d h r"
  shows "db_keys_ok (reg_db r)"
  using assms retained_inv tbl_inv_insert_ignore by (fastforce simp: logged_def db_keys_ok_def)

lemma txn_stmt_audit: "txn_body e (stmt_then e stmt (\<lambda>n. gr_audit_append e ct actor target detail))"
  by (rule txn_stmt [OF txn_audit_append])

lemma audit_append_logged:
  "reliable e \<Longrightarrow> in_txn d0 h0 reg \<Longrightarrow> gr_audit_append e ct actor target detail reg = (GR_OK, r) \<Longrightarrow>
   logged e ct actor target (reg_db reg) (reg_header reg) r"
  by (rule audit_effect_logged) (rule audit_append_ok)

text \<open>A committed transaction of one statement and its audit entry.\<close>

lemma stmt_audit_logged:
  assumes "reliable e" and "in_txn d0 h0 reg"
    and "stmt_then e stmt (\<lambda>n. gr_audit_append e ct actor target detail) reg = (GR_OK, r)"
  shows "\<exists>n d. stmt (reg_db reg) = Some (n, d) \<and> logged e ct actor target d (reg_header reg) r"
proof -
  obtain n d where s: "stmt (reg_db reg) = Some (n, d)"
      "gr_audit_append e ct actor target detail ((tick reg)\<lparr>reg_db := d\<rparr>) = (GR_OK, r)"
    using stmt_then_ok [OF assms(3)] by blast
  from audit_append_logged [OF assms(1) in_txn_db [OF assms(2)] s(2)] s(1) show ?thesis by auto
qed

lemma txn_logged:
  assumes rel: "reliable e" and idle: "idle reg" and b: "txn_body e body"
    and res: "with_txn e body reg = (GR_OK, r)"
    and ok: "\<And>r0 r1. in_txn (reg_db reg) (reg_header reg) r0 \<Longrightarrow> reg_db r0 = reg_db reg \<Longrightarrow>
       reg_header r0 = reg_header reg \<Longrightarrow> body r0 = (GR_OK, r1) \<Longrightarrow>
       \<exists>d. Q d \<and> logged e ct actor target d (h (reg_header reg)) r1"
  shows "(\<exists>d. Q d \<and> logged e ct actor target d (h (reg_header reg)) r) \<and> idle r
    \<and> reg_join_state r = reg_join_state reg"
proof -
  obtain r0 r1 where x: "body r0 = (GR_OK, r1)" "reg_db r0 = reg_db reg" "reg_header r0 = reg_header reg"
      "in_txn (reg_db reg) (reg_header reg) r0" "reg_db r = reg_db r1" "reg_header r = reg_header r1"
      "idle r" "reg_join_state r = reg_join_state reg"
    using with_txn_ok [OF b rel idle res] by blast
  then show ?thesis using ok [OF x(4) x(2) x(3) x(1)] logged_cong by metis
qed

lemma txn_stmt_audit_logged:
  assumes "reliable e" and "idle reg"
    and "with_txn e (stmt_then e stmt (\<lambda>n. gr_audit_append e ct actor target detail)) reg = (GR_OK, r)"
  shows "\<exists>n d. stmt (reg_db reg) = Some (n, d) \<and> logged e ct actor target d (reg_header reg) r
    \<and> idle r \<and> reg_join_state r = reg_join_state reg"
  using txn_logged [OF assms(1,2) txn_stmt_audit assms(3), where Q = "\<lambda>d. \<exists>n. stmt (reg_db reg) = Some (n, d)"
      and h = "\<lambda>h. h" and ct = ct and actor = actor and target = target]
    stmt_audit_logged [OF assms(1)] by metis

text \<open>
  The body most mutations share: the clock is read, one statement is executed with that time, and
  the change is logged.
\<close>

definition clocked_change :: "yumi_env \<Rightarrow> (i64 \<Rightarrow> gr_db \<Rightarrow> (nat \<times> gr_db) option) \<Rightarrow> u32 \<Rightarrow>
    gr_identity_t \<Rightarrow> bytes option \<Rightarrow> bytes option \<Rightarrow> gr_registrar \<Rightarrow> gr_error_t \<times> gr_registrar" where
  "clocked_change e stmt change_type actor target detail reg =
     (let now = now_of e reg in
      stmt_then e (stmt now) (\<lambda>n. gr_audit_append e change_type actor target detail) (tick reg))"

lemma txn_clocked_change: "txn_body e (clocked_change e stmt ct actor target detail)"
  unfolding clocked_change_def [abs_def] Let_def
  by (rule txn_dep [where f = "now_of e"], rule txn_tick, rule txn_stmt_audit)

text \<open>
  The contract of a transaction body holds for appending an entry and for every clocked change, so
  a transaction around them is all or nothing.
\<close>

interpretation append_body: txn_body e "gr_audit_append e ct actor target detail"
  for e ct actor target detail
  by unfold_locales (rule txn_bodyD [OF txn_audit_append])

interpretation clocked_body: txn_body e "clocked_change e stmt ct actor target detail"
  for e stmt ct actor target detail
  by unfold_locales (rule txn_bodyD [OF txn_clocked_change])

interpretation header_body: txn_body e "gr_header_save e" for e
  by unfold_locales (rule txn_bodyD [OF txn_header_save])

lemma atomic_clocked_change: "atomic_op e (with_txn e (clocked_change e stmt ct actor target detail))"
  by (rule atomic_txn [OF txn_clocked_change])

text \<open>
  \<open>committed e ct actor target step reg r\<close>: the handle \<open>r\<close> is the commit of a change \<open>step\<close> of the
  tables and header of \<open>reg\<close>, with its audit entry.
\<close>

definition committed :: "yumi_env \<Rightarrow> u32 \<Rightarrow> gr_identity_t \<Rightarrow> bytes option \<Rightarrow>
    (gr_db \<times> gr_header_t \<Rightarrow> gr_db \<times> gr_header_t \<Rightarrow> bool) \<Rightarrow> gr_registrar \<Rightarrow> gr_registrar \<Rightarrow> bool" where
  "committed e ct actor target step reg r \<longleftrightarrow> idle r \<and> reg_join_state r = reg_join_state reg
     \<and> (\<exists>d h. step (reg_db reg, reg_header reg) (d, h) \<and> logged e ct actor target d h r)"

lemma committedI:
  "idle r \<Longrightarrow> reg_join_state r = reg_join_state reg \<Longrightarrow> step (reg_db reg, reg_header reg) (d, h) \<Longrightarrow>
   logged e ct actor target d h r \<Longrightarrow> committed e ct actor target step reg r"
  by (auto simp: committed_def)

lemma committed_quiet:
  "quiet reg q \<Longrightarrow> committed e ct actor target step q r \<Longrightarrow> committed e ct actor target step reg r"
  by (simp add: committed_def quietD)

lemma committed_mono:
  "committed e ct actor target s1 reg r \<Longrightarrow>
   (\<And>d h. s1 (reg_db reg, reg_header reg) (d, h) \<Longrightarrow> s2 (reg_db reg, reg_header reg) (d, h)) \<Longrightarrow>
   committed e ct actor target s2 reg r"
  by (auto simp: committed_def)

lemma clocked_committed:
  assumes rel: "reliable e" and idle: "idle reg"
    and res: "with_txn e (clocked_change e stmt ct actor target detail) reg = (GR_OK, r)"
  shows "committed e ct actor target (\<lambda>(d, h) (d', h'). h' = h \<and> (\<exists>now n. stmt now d = Some (n, d'))) reg r"
proof -
  have "(\<exists>d. (\<exists>now n. stmt now (reg_db reg) = Some (n, d)) \<and> logged e ct actor target d (reg_header reg) r)
    \<and> idle r \<and> reg_join_state r = reg_join_state reg"
  proof (rule txn_logged [OF rel idle txn_clocked_change res, where h = "\<lambda>h. h"])
    fix r0 r1
    assume t: "in_txn (reg_db reg) (reg_header reg) r0" and db: "reg_db r0 = reg_db reg"
      and hd: "reg_header r0 = reg_header reg"
      and x: "clocked_change e stmt ct actor target detail r0 = (GR_OK, r1)"
    have "in_txn (reg_db reg) (reg_header reg) (tick r0)" using t by (simp add: in_txn_def)
    from stmt_audit_logged [OF rel this x [unfolded clocked_change_def Let_def]] db hd
    show "\<exists>d. (\<exists>now n. stmt now (reg_db reg) = Some (n, d)) \<and> logged e ct actor target d (reg_header reg) r1"
      by auto
  qed
  then show ?thesis by (auto simp: committed_def)
qed

lemma stmt_committed:
  assumes "reliable e" and "idle reg"
    and "with_txn e (stmt_then e stmt (\<lambda>n. gr_audit_append e ct actor target detail)) reg = (GR_OK, r)"
  shows "committed e ct actor target (\<lambda>(d, h) (d', h'). h' = h \<and> (\<exists>n. stmt d = Some (n, d'))) reg r"
  using txn_stmt_audit_logged [OF assms] by (auto simp: committed_def)

text \<open>A change that must hit a row: no changed row is \<open>GR_ERR_NOT_FOUND\<close>, and the transaction is undone.\<close>

definition change_existing :: "yumi_env \<Rightarrow> (gr_db \<Rightarrow> (nat \<times> gr_db) option) \<Rightarrow> u32 \<Rightarrow>
    gr_identity_t \<Rightarrow> bytes option \<Rightarrow> bytes option \<Rightarrow> gr_registrar \<Rightarrow> gr_error_t \<times> gr_registrar" where
  "change_existing e stmt change_type actor target detail =
     stmt_then e stmt (\<lambda>changed.
       if changed = 0 then (\<lambda>r. (GR_ERR_NOT_FOUND, r))
       else gr_audit_append e change_type actor target detail)"

lemma txn_change_existing: "txn_body e (change_existing e stmt ct actor target detail)"
  unfolding change_existing_def
  by (rule txn_stmt, rule txn_if, rule txn_fail, simp, rule txn_audit_append)

interpretation existing_body: txn_body e "change_existing e stmt ct actor target detail"
  for e stmt ct actor target detail
  by unfold_locales (rule txn_bodyD [OF txn_change_existing])

lemma existing_committed:
  assumes rel: "reliable e" and idle: "idle reg"
    and res: "with_txn e (change_existing e stmt ct actor target detail) reg = (GR_OK, r)"
  shows "committed e ct actor target (\<lambda>(d, h) (d', h'). h' = h \<and> (\<exists>n. n \<noteq> 0 \<and> stmt d = Some (n, d'))) reg r"
proof -
  have "(\<exists>d. (\<exists>n. n \<noteq> 0 \<and> stmt (reg_db reg) = Some (n, d)) \<and> logged e ct actor target d (reg_header reg) r)
    \<and> idle r \<and> reg_join_state r = reg_join_state reg"
  proof (rule txn_logged [OF rel idle txn_change_existing res, where h = "\<lambda>h. h"])
    fix r0 r1
    assume t: "in_txn (reg_db reg) (reg_header reg) r0" and db: "reg_db r0 = reg_db reg"
      and hd: "reg_header r0 = reg_header reg"
      and x: "change_existing e stmt ct actor target detail r0 = (GR_OK, r1)"
    obtain n d where s: "stmt (reg_db r0) = Some (n, d)" "n \<noteq> 0"
        "gr_audit_append e ct actor target detail ((tick r0)\<lparr>reg_db := d\<rparr>) = (GR_OK, r1)"
      using stmt_then_ok [OF x [unfolded change_existing_def]] by (auto split: if_splits)
    from audit_append_logged [OF rel in_txn_db [OF t] s(3)] s(1,2) db hd
    show "\<exists>d. (\<exists>n. n \<noteq> 0 \<and> stmt (reg_db reg) = Some (n, d)) \<and> logged e ct actor target d (reg_header reg) r1"
      by auto
  qed
  then show ?thesis by (auto simp: committed_def)
qed

text \<open>The same after a quiet prefix (the guards).\<close>

lemma clocked_from:
  assumes "reliable e" and "idle reg" and "quiet reg q"
    and "with_txn e (clocked_change e stmt ct actor target detail) q = (GR_OK, r)"
  shows "committed e ct actor target (\<lambda>(d, h) (d', h'). h' = h \<and> (\<exists>now n. stmt now d = Some (n, d'))) reg r"
  using committed_quiet [OF assms(3) clocked_committed [OF assms(1) _ assms(4)]] assms(2,3)
  by (simp add: quietD)

lemma stmt_from:
  assumes "reliable e" and "idle reg" and "quiet reg q"
    and "with_txn e (stmt_then e stmt (\<lambda>n. gr_audit_append e ct actor target detail)) q = (GR_OK, r)"
  shows "committed e ct actor target (\<lambda>(d, h) (d', h'). h' = h \<and> (\<exists>n. stmt d = Some (n, d'))) reg r"
  using committed_quiet [OF assms(3) stmt_committed [OF assms(1) _ assms(4)]] assms(2,3)
  by (simp add: quietD)

lemma existing_from:
  assumes "reliable e" and "idle reg" and "quiet reg q"
    and "with_txn e (change_existing e stmt ct actor target detail) q = (GR_OK, r)"
  shows "committed e ct actor target (\<lambda>(d, h) (d', h'). h' = h \<and> (\<exists>n. n \<noteq> 0 \<and> stmt d = Some (n, d'))) reg r"
  using committed_quiet [OF assms(3) existing_committed [OF assms(1) _ assms(4)]] assms(2,3)
  by (simp add: quietD)

lemma atomic_change_existing: "atomic_op e (with_txn e (change_existing e stmt ct actor target detail))"
  by (rule atomic_txn [OF txn_change_existing])

lemma atomic_stmt_audit:
  "atomic_op e (with_txn e (stmt_then e stmt (\<lambda>n. gr_audit_append e ct actor target detail)))"
  by (rule atomic_txn [OF txn_stmt_audit])

end
