(* ===== verification/Role.thy ===== *)
theory Role imports Audit_Log
begin

text \<open>
  Access control and roles: \<open>src/src/group_registrar/role.c\<close>, with the trust test
  \<open>gr_join_is_untrusted\<close> of \<open>join.c\<close> and the identity functions of \<open>identity.c\<close>.

  A pointer that may be \<open>NULL\<close> is an \<open>option\<close>; the handle and the output pointers are taken as
  valid.  The lemma group on \<open>governed\<close> states what the guards in front of every mutation ensure.
\<close>

section \<open>Identities\<close>

definition gr_identity_derive_id :: "yumi_env \<Rightarrow> bytes \<Rightarrow> nat \<Rightarrow> bytes option" where
  "gr_identity_derive_id e public_key n =
     (if skein_ok e n then Some (take GR_PEER_ID_LEN (skein e public_key)) else None)"

definition gr_identity_generate :: "yumi_env \<Rightarrow> nat \<Rightarrow> gr_error_t + gr_identity_t" where
  "gr_identity_generate e n =
     (case mldsa_keygen e n of
        None \<Rightarrow> Inl GR_ERR_CRYPTO
      | Some (pk, sk) \<Rightarrow>
          (case mlkem_keygen e (n + 1) of
             None \<Rightarrow> Inl GR_ERR_CRYPTO
           | Some (kpk, ksk) \<Rightarrow>
               (case gr_identity_derive_id e pk (n + 2) of
                  None \<Rightarrow> Inl GR_ERR_CRYPTO
                | Some pid \<Rightarrow> Inr \<lparr>id_public_key = pk, id_secret_key = sk, id_kem_pk = kpk,
                    id_kem_sk = ksk, id_peer_id = pid\<rparr>)))"

definition gr_identity_wipe :: "gr_identity_t \<Rightarrow> gr_identity_t" where
  "gr_identity_wipe i = i\<lparr>id_secret_key := replicate (length (id_secret_key i)) 0,
     id_kem_sk := replicate (length (id_kem_sk i)) 0\<rparr>"

definition gr_id_equal :: "bytes option \<Rightarrow> bytes option \<Rightarrow> bool" where
  "gr_id_equal a b = (case (a, b) of (Some x, Some y) \<Rightarrow> x = y | _ \<Rightarrow> False)"

section \<open>Guards\<close>

definition gr_join_is_untrusted :: "gr_registrar \<Rightarrow> bool" where
  "gr_join_is_untrusted reg =
     (case reg_join_state reg of None \<Rightarrow> False | Some js \<Rightarrow> js_state js \<noteq> GR_JOIN_VERIFIED)"

definition gr_is_owner :: "gr_registrar \<Rightarrow> bytes \<Rightarrow> bool" where
  "gr_is_owner reg pid = (h_owner_id (reg_header reg) = pid)"

definition gr_get_peer_permissions :: "yumi_env \<Rightarrow> bytes \<Rightarrow> gr_registrar \<Rightarrow> u32 \<times> gr_registrar" where
  "gr_get_peer_permissions e pid reg =
     (if gr_is_owner reg pid then (GR_PERM_OWNER, reg)
      else if db_ok e DbStmt (reg_calls reg)
      then (case ps_role_perms_join pid (reg_db reg) of [] \<Rightarrow> GR_PERM_NONE | p # _ \<Rightarrow> p, tick reg)
      else (GR_PERM_NONE, tick reg))"

definition gr_check_perm :: "yumi_env \<Rightarrow> gr_identity_t option \<Rightarrow> u32 \<Rightarrow> gr_registrar \<Rightarrow> bool \<times> gr_registrar" where
  "gr_check_perm e signer perm reg =
     (case signer of
        None \<Rightarrow> (False, reg)
      | Some s \<Rightarrow> (case gr_get_peer_permissions e (id_peer_id s) reg of
                     (perms, r) \<Rightarrow> (and perms perm \<noteq> 0, r)))"

definition gr_has_permission :: "yumi_env \<Rightarrow> gr_identity_t option \<Rightarrow> u32 \<Rightarrow> gr_registrar \<Rightarrow> bool \<times> gr_registrar" where
  "gr_has_permission e identity perm reg =
     (case identity of
        None \<Rightarrow> (False, reg)
      | Some s \<Rightarrow> (case gr_get_peer_permissions e (id_peer_id s) reg of
                     (perms, r) \<Rightarrow> (and perms perm \<noteq> 0, r)))"

text \<open>The two guards most mutations start with: trust, then the signer's permission.\<close>

definition check_trusted :: "gr_registrar \<Rightarrow> gr_error_t \<times> gr_registrar" where
  "check_trusted reg = (if gr_join_is_untrusted reg then (GR_ERR_JOIN_UNVERIFIED, reg) else (GR_OK, reg))"

definition require_perm :: "yumi_env \<Rightarrow> gr_identity_t \<Rightarrow> u32 \<Rightarrow> gr_registrar \<Rightarrow> gr_error_t \<times> gr_registrar" where
  "require_perm e signer perm reg =
     (case gr_check_perm e (Some signer) perm reg of
        (allowed, r) \<Rightarrow> (if allowed then GR_OK else GR_ERR_UNAUTHORIZED, r))"

definition governed :: "yumi_env \<Rightarrow> gr_identity_t \<Rightarrow> u32 \<Rightarrow> gr_registrar \<Rightarrow> gr_error_t \<times> gr_registrar" where
  "governed e signer perm reg = gr_then (check_trusted reg) (require_perm e signer perm)"

section \<open>Reading roles\<close>

definition role_read :: "gr_role_t \<Rightarrow> gr_role_t" where
  "role_read r = r\<lparr>r_name := db_str GR_MAX_NAME_LEN (r_name r)\<rparr>"

definition gr_role_get :: "yumi_env \<Rightarrow> u32 \<Rightarrow> gr_registrar \<Rightarrow> (gr_error_t + gr_role_t) \<times> gr_registrar" where
  "gr_role_get e role_id reg = db_fetch e (\<lambda>d. map_option role_read (ps_role_get role_id d)) reg"

definition gr_role_list :: "yumi_env \<Rightarrow> u32 \<Rightarrow> gr_registrar \<Rightarrow> (gr_error_t + gr_role_t list) \<times> gr_registrar" where
  "gr_role_list e max_count reg =
     db_query e (\<lambda>d. map_option (map role_read) (ps_role_list max_count d)) reg"

definition gr_role_count :: "yumi_env \<Rightarrow> gr_registrar \<Rightarrow> (gr_error_t + u32) \<times> gr_registrar" where
  "gr_role_count e reg = db_query e (\<lambda>d. Some (of_nat (ps_role_count d))) reg"

section \<open>Changing roles\<close>

definition role_added_detail :: "bytes \<Rightarrow> u32 \<Rightarrow> bytes" where
  "role_added_detail name rid = snprintf_cut 128
     (cstr ''role '' @ squote @ fmt_s 64 name @ squote @ cstr '' added (id='' @ fmt_u rid @ cstr '')'')"

definition role_add_body :: "yumi_env \<Rightarrow> gr_role_t \<Rightarrow> gr_identity_t \<Rightarrow> gr_registrar \<Rightarrow> gr_error_t \<times> gr_registrar" where
  "role_add_body e role signer =
     stmt_then e (ps_role_insert role) (\<lambda>n.
       gr_audit_append e GR_CHANGE_ROLE_ADDED signer None
         (Some (role_added_detail (r_name role) (r_role_id role))))"

text \<open>The part of \<open>gr_role_add\<close> after the guards: limit, fresh id, key pair, transaction.\<close>

definition role_add_keyed :: "yumi_env \<Rightarrow> bytes \<Rightarrow> u32 \<Rightarrow> gr_identity_t \<Rightarrow> u32 \<Rightarrow> gr_registrar \<Rightarrow>
    (gr_error_t + u32) \<times> gr_registrar" where
  "role_add_keyed e name permissions signer new_id reg =
     (case mldsa_keygen e (reg_calls reg) of
        None \<Rightarrow> (Inl GR_ERR_CRYPTO, tick reg)
      | Some (role_pk, role_sk) \<Rightarrow>
          (let now = now_of e (tick reg) in
           case with_txn e (role_add_body e
                  \<lparr>r_role_id = new_id, r_name = name, r_permissions = permissions,
                   r_sign_key = role_pk, r_created_at = now, r_modified_at = now\<rparr> signer) (tick (tick reg))
           of (err, r) \<Rightarrow> (if err = GR_OK then Inr new_id else Inl err, r)))"

definition role_add_core :: "yumi_env \<Rightarrow> bytes \<Rightarrow> u32 \<Rightarrow> gr_identity_t \<Rightarrow> gr_registrar \<Rightarrow>
    (gr_error_t + u32) \<times> gr_registrar" where
  "role_add_core e name permissions signer reg =
     q_bind (gr_role_count e reg) (\<lambda>count r1.
       if GR_MAX_ROLES \<le> count then (Inl GR_ERR_ROLE_LIMIT, r1)
       else q_bind (db_query e ps_role_next_id r1) (role_add_keyed e name permissions signer))"

definition gr_role_add :: "yumi_env \<Rightarrow> bytes option \<Rightarrow> u32 \<Rightarrow> gr_identity_t option \<Rightarrow> gr_registrar \<Rightarrow>
    (gr_error_t + u32) \<times> gr_registrar" where
  "gr_role_add e name permissions signer reg =
     (case (name, signer) of
        (Some nm, Some s) \<Rightarrow>
          q_then (governed e s GR_PERM_EDIT_ROLES reg) (role_add_core e nm permissions s)
      | _ \<Rightarrow> (Inl GR_ERR_INVALID_PARAM, reg))"

definition role_removed_detail :: "bytes \<Rightarrow> u32 \<Rightarrow> bytes" where
  "role_removed_detail name rid = snprintf_cut 128
     (cstr ''role '' @ squote @ fmt_s 64 name @ squote @ cstr '' removed (id='' @ fmt_u rid @ cstr '')'')"

definition role_remove_body :: "yumi_env \<Rightarrow> gr_role_t \<Rightarrow> u32 \<Rightarrow> gr_identity_t \<Rightarrow> gr_registrar \<Rightarrow>
    gr_error_t \<times> gr_registrar" where
  "role_remove_body e role role_id signer =
     stmt_then e (ps_peer_reset_role role_id) (\<lambda>n.
     stmt_then e (ps_role_delete role_id) (\<lambda>m.
       gr_audit_append e GR_CHANGE_ROLE_REMOVED signer None
         (Some (role_removed_detail (r_name role) role_id))))"

definition gr_role_remove :: "yumi_env \<Rightarrow> u32 \<Rightarrow> gr_identity_t option \<Rightarrow> gr_registrar \<Rightarrow>
    gr_error_t \<times> gr_registrar" where
  "gr_role_remove e role_id signer reg =
     (case signer of
        None \<Rightarrow> (GR_ERR_INVALID_PARAM, reg)
      | Some s \<Rightarrow>
          gr_then (governed e s GR_PERM_EDIT_ROLES reg) (\<lambda>r1.
          gr_bind (gr_role_get e role_id r1) (\<lambda>role.
          with_txn e (role_remove_body e role role_id s))))"

definition role_perms_detail :: "u32 \<Rightarrow> u32 \<Rightarrow> bytes" where
  "role_perms_detail rid perms = snprintf_cut 128
     (cstr ''role '' @ fmt_u rid @ cstr '' permissions set to 0x'' @ hex_fixed True 8 (unat perms))"

definition role_set_permissions_body :: "yumi_env \<Rightarrow> u32 \<Rightarrow> u32 \<Rightarrow> i64 \<Rightarrow> gr_identity_t \<Rightarrow> gr_registrar \<Rightarrow>
    gr_error_t \<times> gr_registrar" where
  "role_set_permissions_body e role_id new_permissions now signer =
     stmt_then e (ps_role_set_perms new_permissions now role_id) (\<lambda>n.
       gr_audit_append e GR_CHANGE_ROLE_MODIFIED signer None
         (Some (role_perms_detail role_id new_permissions)))"

definition gr_role_set_permissions :: "yumi_env \<Rightarrow> u32 \<Rightarrow> u32 \<Rightarrow> gr_identity_t option \<Rightarrow> gr_registrar \<Rightarrow>
    gr_error_t \<times> gr_registrar" where
  "gr_role_set_permissions e role_id new_permissions signer reg =
     (case signer of
        None \<Rightarrow> (GR_ERR_INVALID_PARAM, reg)
      | Some s \<Rightarrow>
          gr_then (governed e s GR_PERM_EDIT_ROLES reg) (\<lambda>r1.
          with_txn e (role_set_permissions_body e role_id new_permissions (now_of e r1) s) (tick r1)))"

section \<open>The guards\<close>

lemma quiet_check_trusted: "quiet reg (snd (check_trusted reg))"
  by (simp add: check_trusted_def)

lemma quiet_permissions: "quiet reg (snd (gr_get_peer_permissions e pid reg))"
  by (simp add: gr_get_peer_permissions_def)

lemma quiet_check_perm: "quiet reg (snd (gr_check_perm e s perm reg))"
  using quiet_permissions [of reg e] by (auto simp: gr_check_perm_def split: option.splits prod.splits)
     (metis snd_conv)

lemma quiet_require_perm: "quiet reg (snd (require_perm e s perm reg))"
  using quiet_check_perm [of reg e "Some s" perm]
  by (cases "gr_check_perm e (Some s) perm reg") (simp add: require_perm_def)

lemma quiet_then:
  "(\<And>reg. quiet reg (snd (m reg))) \<Longrightarrow> (\<And>reg. quiet reg (snd (k reg))) \<Longrightarrow> quiet reg (snd (gr_then (m reg) k))"
  by (cases "m reg") (auto simp: gr_then_def intro: quiet_trans, metis quiet_trans snd_conv, metis snd_conv)

lemma quiet_governed: "quiet reg (snd (governed e s perm reg))"
  unfolding governed_def by (rule quiet_then [OF quiet_check_trusted quiet_require_perm])

lemma quiet_role_get: "quiet reg (snd (gr_role_get e rid reg))"
  by (simp add: gr_role_get_def quiet_fetch)

lemma quiet_role_count: "quiet reg (snd (gr_role_count e reg))"
  by (simp add: gr_role_count_def quiet_query)

text \<open>What a peer may do, read off the tables: the owner everything, others what their role grants.\<close>

definition perms_of :: "gr_registrar \<Rightarrow> bytes \<Rightarrow> u32" where
  "perms_of reg pid =
     (if gr_is_owner reg pid then GR_PERM_OWNER
      else case ps_role_perms_join pid (reg_db reg) of [] \<Rightarrow> GR_PERM_NONE | p # _ \<Rightarrow> p)"

lemma require_perm_ok:
  "require_perm e s perm reg = (GR_OK, r) \<Longrightarrow> and (perms_of reg (id_peer_id s)) perm \<noteq> 0"
  by (auto simp: require_perm_def gr_check_perm_def gr_get_peer_permissions_def perms_of_def
      split: if_splits)

lemma governed_ok:
  assumes "governed e s perm reg = (GR_OK, r)"
  shows "\<not> gr_join_is_untrusted reg" "and (perms_of reg (id_peer_id s)) perm \<noteq> 0" "quiet reg r"
  using assms require_perm_ok [of e s perm reg r] quiet_governed [of reg e s perm]
  by (auto simp: governed_def check_trusted_def gr_then_def split: if_splits)

lemma perms_join_shape:
  assumes inv: "tbl_inv p_peer_id (db_peers d)" "tbl_inv r_role_id (db_roles d)"
  shows "ps_role_perms_join pid d =
    (case tbl_get p_peer_id pid (db_peers d) of
       None \<Rightarrow> []
     | Some p \<Rightarrow> if p_status p = 0 \<and> 0 < sint (p_role_id p)
                then case tbl_get r_role_id (p_role_id p) (db_roles d) of
                       None \<Rightarrow> [] | Some r \<Rightarrow> [r_permissions r]
                else [])"
proof -
  have roles: "[r_permissions r. r \<leftarrow> rs, k = r_role_id r \<and> Q] =
      (if Q then case tbl_get r_role_id k rs of None \<Rightarrow> [] | Some r \<Rightarrow> [r_permissions r] else [])"
    if "tbl_inv r_role_id rs" for k Q rs
    using that
  proof (induction rs)
    case (Cons r rs)
    have "tbl_get r_role_id (r_role_id r) rs = None"
      using Cons.prems by (simp add: tbl_get_None tbl_inv_def)
    with Cons show ?case by (auto simp: tbl_inv_def)
  qed simp
  define f where "f p = [r_permissions r. r \<leftarrow> db_roles d,
      p_role_id p = r_role_id r \<and> p_peer_id p = pid \<and> p_status p = 0 \<and> 0 < sint (p_role_id p)]" for p :: gr_peer_t
  define g where "g p = (if p_status p = 0 \<and> 0 < sint (p_role_id p)
      then case tbl_get r_role_id (p_role_id p) (db_roles d) of None \<Rightarrow> [] | Some r \<Rightarrow> [r_permissions r]
      else [])" for p :: gr_peer_t
  have f_other: "f p = []" if "p_peer_id p \<noteq> pid" for p using that by (simp add: f_def)
  have f_this: "f p = g p" if "p_peer_id p = pid" for p
    using that roles [OF inv(2), of "p_role_id p" "p_status p = 0 \<and> 0 < sint (p_role_id p)"]
    by (simp add: f_def g_def)
  have "concat (map f ps) = (case tbl_get p_peer_id pid ps of None \<Rightarrow> [] | Some p \<Rightarrow> g p)"
    if "tbl_inv p_peer_id ps" for ps
    using that
  proof (induction ps)
    case Nil
    then show ?case by simp
  next
    case (Cons p ps)
    have "tbl_get p_peer_id (p_peer_id p) ps = None"
      using Cons.prems by (simp add: tbl_get_None tbl_inv_def)
    with Cons show ?case by (auto simp: tbl_inv_def f_other f_this)
  qed
  from this [OF inv(1)] show ?thesis
    by (cases "tbl_get p_peer_id pid (db_peers d)")
      (simp_all add: ps_role_perms_join_def f_def [abs_def] g_def)
qed

section \<open>What the operations on roles do\<close>

lemma governed_then_ok:
  assumes "gr_then (governed e s perm reg) k = (GR_OK, r)"
  shows "\<exists>q. \<not> gr_join_is_untrusted reg \<and> and (perms_of reg (id_peer_id s)) perm \<noteq> 0 \<and> quiet reg q
    \<and> k q = (GR_OK, r)"
  using gr_then_ok [OF assms] governed_ok [of e s perm reg] by blast

lemma atomic_governed: "atomic_op e k \<Longrightarrow> atomic_op e (\<lambda>reg. gr_then (governed e s perm reg) k)"
  by (rule atomic_then [OF quiet_governed])

lemma txn_role_add: "txn_body e (role_add_body e role s)"
  unfolding role_add_body_def by (rule txn_stmt_audit)

lemma txn_role_remove: "txn_body e (role_remove_body e role rid s)"
  unfolding role_remove_body_def by (rule txn_stmt, rule txn_stmt_audit)

lemma txn_role_set_permissions: "txn_body e (role_set_permissions_body e rid perms now s)"
  unfolding role_set_permissions_body_def by (rule txn_stmt_audit)

text \<open>Adding a role, without the identifier it returns.\<close>

definition role_store :: "yumi_env \<Rightarrow> bytes \<Rightarrow> u32 \<Rightarrow> gr_identity_t \<Rightarrow> u32 \<Rightarrow> bytes \<Rightarrow> i64 \<Rightarrow>
    gr_registrar \<Rightarrow> gr_error_t \<times> gr_registrar" where
  "role_store e name permissions s new_id pk now = with_txn e (role_add_body e
     \<lparr>r_role_id = new_id, r_name = name, r_permissions = permissions, r_sign_key = pk,
      r_created_at = now, r_modified_at = now\<rparr> s)"

definition role_store_keyed :: "yumi_env \<Rightarrow> bytes \<Rightarrow> u32 \<Rightarrow> gr_identity_t \<Rightarrow> u32 \<Rightarrow>
    gr_registrar \<Rightarrow> gr_error_t \<times> gr_registrar" where
  "role_store_keyed e name permissions s new_id r =
     (case mldsa_keygen e (reg_calls r) of
        None \<Rightarrow> (GR_ERR_CRYPTO, tick r)
      | Some ks \<Rightarrow> role_store e name permissions s new_id (fst ks) (now_of e (tick r)) (tick (tick r)))"

lemma err_of_role_add_core: "err_of (role_add_core e name permissions s reg) =
    gr_bind (gr_role_count e reg) (\<lambda>count r1.
      if GR_MAX_ROLES \<le> count then (GR_ERR_ROLE_LIMIT, r1)
      else gr_bind (db_query e ps_role_next_id r1) (role_store_keyed e name permissions s))"
proof -
  have keyed: "err_of (role_add_keyed e name permissions s new_id r) = role_store_keyed e name permissions s new_id r" for new_id r
    by (auto simp: role_add_keyed_def role_store_keyed_def role_store_def Let_def
        split: option.splits prod.splits)
  have "err_of (if P then (Inl a, r) else q) = (if P then (a, r) else err_of q)" for P a r and q :: "(gr_error_t + u32) \<times> gr_registrar"
    by simp
  then show ?thesis
    unfolding role_add_core_def err_of_q_bind by (simp only: err_of_q_bind keyed)
qed

lemma atomic_role_store: "atomic_op e (role_store e name permissions s new_id pk now)"
  unfolding role_store_def by (rule atomic_txn [OF txn_role_add])

lemma atomic_role_store_keyed: "atomic_op e (role_store_keyed e name permissions s new_id)"
proof (rule atomic_opI)
  fix reg assume a: "reliable e" "idle reg"
  have q: "quiet reg (tick (tick reg))" by (rule quiet_trans [of _ "tick reg"]) simp_all
  show "atomic_res e reg (role_store_keyed e name permissions s new_id reg)"
    using atomic_seq [OF q atomic_role_store a] atomic_res_self [OF quiet_tick a(2)]
    by (auto simp: role_store_keyed_def split: option.splits)
qed

lemma atomic_role_add: "atomic_op e (\<lambda>reg. err_of (gr_role_add e name permissions signer reg))"
proof (cases "name = None \<or> signer = None")
  case True
  then have "(\<lambda>reg. err_of (gr_role_add e name permissions signer reg)) = (\<lambda>reg. (GR_ERR_INVALID_PARAM, reg))"
    by (intro ext) (auto simp: gr_role_add_def split: option.splits)
  then show ?thesis by (simp only: atomic_const)
next
  case False
  then obtain nm s where p: "name = Some nm" "signer = Some s" by auto
  have "atomic_op e (\<lambda>reg. err_of (role_add_core e nm permissions s reg))"
    unfolding err_of_role_add_core
  proof (rule atomic_bind)
    fix count
    have "atomic_op e (\<lambda>r1. gr_bind (db_query e ps_role_next_id r1) (role_store_keyed e nm permissions s))"
      by (rule atomic_bind [OF quiet_query atomic_role_store_keyed])
    then show "atomic_op e (\<lambda>r1. if GR_MAX_ROLES \<le> count then (GR_ERR_ROLE_LIMIT, r1)
        else gr_bind (db_query e ps_role_next_id r1) (role_store_keyed e nm permissions s))"
      by (cases "GR_MAX_ROLES \<le> count") (simp_all add: atomic_const)
  qed (rule quiet_role_count)
  from atomic_governed [OF this] show ?thesis
    by (simp add: gr_role_add_def p err_of_q_then)
qed

lemma atomic_role_remove: "atomic_op e (gr_role_remove e rid signer)"
proof (cases signer)
  case None
  then show ?thesis using atomic_const by (simp add: gr_role_remove_def [abs_def])
next
  case (Some s)
  have "atomic_op e (\<lambda>r1. gr_bind (gr_role_get e rid r1) (\<lambda>role. with_txn e (role_remove_body e role rid s)))"
    by (rule atomic_bind [OF quiet_role_get], rule atomic_txn [OF txn_role_remove])
  from atomic_governed [OF this] Some show ?thesis by (simp add: gr_role_remove_def [abs_def])
qed

lemma atomic_role_set_permissions: "atomic_op e (gr_role_set_permissions e rid perms signer)"
proof (cases signer)
  case None
  then show ?thesis using atomic_const by (simp add: gr_role_set_permissions_def [abs_def])
next
  case (Some s)
  have "atomic_op e (\<lambda>r1. with_txn e (role_set_permissions_body e rid perms (now_of e r1) s) (tick r1))"
    by (rule atomic_dep [where f = "now_of e"], rule atomic_tick, rule atomic_txn [OF txn_role_set_permissions])
  from atomic_governed [OF this] Some show ?thesis by (simp add: gr_role_set_permissions_def [abs_def])
qed

text \<open>What success means.\<close>

lemma role_add_ok:
  assumes rel: "reliable e" and idle: "idle reg"
    and res: "gr_role_add e (Some nm) perms (Some s) reg = (Inr rid, r)"
  shows "\<not> gr_join_is_untrusted reg \<and> and (perms_of reg (id_peer_id s)) GR_PERM_EDIT_ROLES \<noteq> 0
    \<and> (of_nat (length (db_roles (reg_db reg))) :: u32) < GR_MAX_ROLES
    \<and> ps_role_next_id (reg_db reg) = Some rid
    \<and> committed e GR_CHANGE_ROLE_ADDED s None (\<lambda>(d, h) (d', h'). h' = h \<and> (\<exists>role n.
         r_role_id role = rid \<and> r_name role = nm \<and> r_permissions role = perms
         \<and> ps_role_insert role d = Some (n, d'))) reg r"
proof -
  have "q_then (governed e s GR_PERM_EDIT_ROLES reg) (role_add_core e nm perms s) = (Inr rid, r)"
    using res by (simp add: gr_role_add_def)
  from q_then_ok [OF this] obtain q where q: "governed e s GR_PERM_EDIT_ROLES reg = (GR_OK, q)"
      "role_add_core e nm perms s q = (Inr rid, r)" by blast
  note g = governed_ok [OF q(1)]
  from q_bind_ok [OF q(2) [unfolded role_add_core_def]] obtain count r1
    where "gr_role_count e q = (Inr count, r1)"
      "(if GR_MAX_ROLES \<le> count then (Inl GR_ERR_ROLE_LIMIT, r1)
       else q_bind (db_query e ps_role_next_id r1) (role_add_keyed e nm perms s)) = (Inr rid, r)" by blast
  then have c: "gr_role_count e q = (Inr count, r1)" "count < GR_MAX_ROLES"
      "q_bind (db_query e ps_role_next_id r1) (role_add_keyed e nm perms s) = (Inr rid, r)"
    by (auto simp: not_le [symmetric] split: if_splits)
  have c1: "count = of_nat (length (db_roles (reg_db q)))" "quiet q r1"
    using query_ok [OF c(1) [unfolded gr_role_count_def]] by (auto simp: ps_role_count_def)
  from q_bind_ok [OF c(3)] obtain new_id r2 where n: "db_query e ps_role_next_id r1 = (Inr new_id, r2)"
      "role_add_keyed e nm perms s new_id r2 = (Inr rid, r)" by blast
  have n1: "ps_role_next_id (reg_db r1) = Some new_id" "quiet r1 r2" using query_ok [OF n(1)] by auto
  from n(2) obtain pk now where w: "rid = new_id" "with_txn e (role_add_body e
        \<lparr>r_role_id = new_id, r_name = nm, r_permissions = perms, r_sign_key = pk, r_created_at = now,
         r_modified_at = now\<rparr> s) (tick (tick r2)) = (GR_OK, r)"
    by (auto simp: role_add_keyed_def Let_def split: option.splits prod.splits if_splits)
  have quiet: "quiet reg (tick (tick r2))"
    using g(3) c1(2) n1(2) by (meson quiet_tick quiet_trans)
  have "committed e GR_CHANGE_ROLE_ADDED s None (\<lambda>(d, h) (d', h'). h' = h \<and> (\<exists>n. ps_role_insert
      \<lparr>r_role_id = new_id, r_name = nm, r_permissions = perms, r_sign_key = pk, r_created_at = now,
         r_modified_at = now\<rparr> d = Some (n, d'))) (tick (tick r2)) r"
    using stmt_committed [OF rel _ w(2) [unfolded role_add_body_def]] quiet idle by (simp add: quietD)
  note cm = committed_quiet [OF quiet this]
  have "committed e GR_CHANGE_ROLE_ADDED s None (\<lambda>(d, h) (d', h'). h' = h \<and> (\<exists>role n.
         r_role_id role = rid \<and> r_name role = nm \<and> r_permissions role = perms
         \<and> ps_role_insert role d = Some (n, d'))) reg r"
  proof (rule committed_mono [OF cm], clarify)
    fix d n
    assume "ps_role_insert \<lparr>r_role_id = new_id, r_name = nm, r_permissions = perms, r_sign_key = pk,
      r_created_at = now, r_modified_at = now\<rparr> (reg_db reg) = Some (n, d)"
    then show "reg_header reg = reg_header reg \<and> (\<exists>role n. r_role_id role = rid \<and> r_name role = nm
        \<and> r_permissions role = perms \<and> ps_role_insert role (reg_db reg) = Some (n, d))"
      using w(1) by (intro conjI exI [of _ "\<lparr>r_role_id = new_id, r_name = nm, r_permissions = perms,
        r_sign_key = pk, r_created_at = now, r_modified_at = now\<rparr>"] exI [of _ n]) simp_all
  qed
  then show ?thesis using g c(2) c1 n1 w(1) by (simp add: quietD)
qed

lemma role_set_permissions_ok:
  assumes rel: "reliable e" and idle: "idle reg"
    and res: "gr_role_set_permissions e rid perms (Some s) reg = (GR_OK, r)"
  shows "\<not> gr_join_is_untrusted reg \<and> and (perms_of reg (id_peer_id s)) GR_PERM_EDIT_ROLES \<noteq> 0
    \<and> committed e GR_CHANGE_ROLE_MODIFIED s None
        (\<lambda>(d, h) (d', h'). h' = h \<and> (\<exists>now n. ps_role_set_perms perms now rid d = Some (n, d'))) reg r"
proof -
  have "gr_then (governed e s GR_PERM_EDIT_ROLES reg)
      (\<lambda>r1. with_txn e (role_set_permissions_body e rid perms (now_of e r1) s) (tick r1)) = (GR_OK, r)"
    using res by (simp add: gr_role_set_permissions_def)
  from governed_then_ok [OF this] obtain q where q: "\<not> gr_join_is_untrusted reg"
      "and (perms_of reg (id_peer_id s)) GR_PERM_EDIT_ROLES \<noteq> 0"
      "quiet reg q" "with_txn e (role_set_permissions_body e rid perms (now_of e q) s) (tick q) = (GR_OK, r)"
    by (elim exE conjE)
  have quiet: "quiet reg (tick q)" using q(3) by (meson quiet_tick quiet_trans)
  have "committed e GR_CHANGE_ROLE_MODIFIED s None (\<lambda>(d, h) (d', h'). h' = h \<and>
      (\<exists>n. ps_role_set_perms perms (now_of e q) rid d = Some (n, d'))) (tick q) r"
    using stmt_committed [OF rel _ q(4) [unfolded role_set_permissions_body_def]] quiet idle by (simp add: quietD)
  note cm = committed_quiet [OF quiet this]
  have "committed e GR_CHANGE_ROLE_MODIFIED s None
        (\<lambda>(d, h) (d', h'). h' = h \<and> (\<exists>now n. ps_role_set_perms perms now rid d = Some (n, d'))) reg r"
    by (rule committed_mono [OF cm]) auto
  with q(1,2) show ?thesis by simp
qed

lemma role_remove_ok:
  assumes rel: "reliable e" and idle: "idle reg"
    and res: "gr_role_remove e rid (Some s) reg = (GR_OK, r)"
  shows "\<not> gr_join_is_untrusted reg \<and> and (perms_of reg (id_peer_id s)) GR_PERM_EDIT_ROLES \<noteq> 0
    \<and> ps_role_get rid (reg_db reg) \<noteq> None
    \<and> committed e GR_CHANGE_ROLE_REMOVED s None (\<lambda>(d, h) (d', h'). h' = h \<and> (\<exists>m d1 n.
         ps_peer_reset_role rid d = Some (m, d1) \<and> ps_role_delete rid d1 = Some (n, d'))) reg r"
proof -
  have "gr_then (governed e s GR_PERM_EDIT_ROLES reg)
      (\<lambda>r1. gr_bind (gr_role_get e rid r1) (\<lambda>role. with_txn e (role_remove_body e role rid s))) = (GR_OK, r)"
    using res by (simp add: gr_role_remove_def)
  from governed_then_ok [OF this] obtain q where q: "\<not> gr_join_is_untrusted reg"
      "and (perms_of reg (id_peer_id s)) GR_PERM_EDIT_ROLES \<noteq> 0"
      "quiet reg q" "gr_bind (gr_role_get e rid q) (\<lambda>role. with_txn e (role_remove_body e role rid s)) = (GR_OK, r)"
    by (elim exE conjE)
  from fetch_bind_ok [OF q(4) [unfolded gr_role_get_def]] obtain role q1
    where q1: "map_option role_read (ps_role_get rid (reg_db q)) = Some role" "quiet q q1"
      "with_txn e (role_remove_body e role rid s) q1 = (GR_OK, r)"
    by (elim exE conjE)
  have quiet: "quiet reg q1" using q(3) q1(2) by (rule quiet_trans)
  have i1: "idle q1" using quiet idle by (simp add: quietD)
  have "(\<exists>d. (\<exists>m d1 n. ps_peer_reset_role rid (reg_db q1) = Some (m, d1) \<and> ps_role_delete rid d1 = Some (n, d))
        \<and> logged e GR_CHANGE_ROLE_REMOVED s None d (reg_header q1) r)
      \<and> idle r \<and> reg_join_state r = reg_join_state q1"
  proof (rule txn_logged [OF rel i1 txn_role_remove q1(3), where h = "\<lambda>h. h"])
    fix r0 r1
    assume t: "in_txn (reg_db q1) (reg_header q1) r0" and db: "reg_db r0 = reg_db q1"
      and hd: "reg_header r0 = reg_header q1" and x: "role_remove_body e role rid s r0 = (GR_OK, r1)"
    obtain m d1 where s1: "ps_peer_reset_role rid (reg_db r0) = Some (m, d1)"
        "stmt_then e (ps_role_delete rid) (\<lambda>m. gr_audit_append e GR_CHANGE_ROLE_REMOVED s None
           (Some (role_removed_detail (r_name role) rid))) ((tick r0)\<lparr>reg_db := d1\<rparr>) = (GR_OK, r1)"
      using stmt_then_ok [OF x [unfolded role_remove_body_def]] by blast
    from stmt_audit_logged [OF rel in_txn_db [OF t] s1(2)] s1(1) db hd
    show "\<exists>d. (\<exists>m d1 n. ps_peer_reset_role rid (reg_db q1) = Some (m, d1) \<and> ps_role_delete rid d1 = Some (n, d))
        \<and> logged e GR_CHANGE_ROLE_REMOVED s None d (reg_header q1) r1" by auto
  qed
  then have "committed e GR_CHANGE_ROLE_REMOVED s None (\<lambda>(d, h) (d', h'). h' = h \<and> (\<exists>m d1 n.
         ps_peer_reset_role rid d = Some (m, d1) \<and> ps_role_delete rid d1 = Some (n, d'))) q1 r"
    unfolding committed_def by blast
  from committed_quiet [OF quiet this] q q1(1) show ?thesis by (auto simp: quietD)
qed

lemma check_trusted_then_ok:
  assumes "gr_then (check_trusted reg) k = (GR_OK, r)"
  shows "\<not> gr_join_is_untrusted reg" and "k reg = (GR_OK, r)"
  using assms by (auto simp: check_trusted_def gr_then_def split: if_splits)

end
