(* ===== verification/Webapp_Server.thy ===== *)
theory Webapp_Server imports Role
begin

text \<open>
  The authorised web apps and the helper servers: \<open>src/src/group_registrar/webapp.c\<close> and
  \<open>src/src/group_registrar/server.c\<close>.  A pointer with its length is an \<open>option\<close>; its length is
  zero when it is \<open>NULL\<close>.
\<close>

section \<open>Web apps\<close>

text \<open>An optional blob as it is bound: \<open>NULL\<close> unless it has bytes.\<close>

definition blob_arg :: "bytes option \<Rightarrow> bytes option" where
  "blob_arg b = (case b of None \<Rightarrow> None | Some d \<Rightarrow> if d = [] then None else Some d)"

definition arg_len :: "bytes option \<Rightarrow> nat" where
  "arg_len b = (case b of None \<Rightarrow> 0 | Some d \<Rightarrow> length d)"

definition webapp_row :: "gr_webapp_t \<Rightarrow> i64 \<Rightarrow> gr_identity_t \<Rightarrow> gr_webapp_t" where
  "webapp_row w now signer = w\<lparr>w_added_at := now, w_added_by := id_peer_id signer,
     w_perm_data := blob_arg (w_perm_data w), w_role_mask := blob_arg (w_role_mask w)\<rparr>"

definition webapp_added_detail :: "gr_webapp_t \<Rightarrow> bytes" where
  "webapp_added_detail w = snprintf_cut 128
     (cstr ''webapp '' @ squote @ fmt_s 64 (w_name w) @ squote @ cstr '' v'' @ fmt_u (w_version w)
      @ cstr '' added'')"

definition webapp_add_body :: "yumi_env \<Rightarrow> gr_webapp_t \<Rightarrow> i64 \<Rightarrow> gr_identity_t \<Rightarrow> gr_registrar \<Rightarrow>
    gr_error_t \<times> gr_registrar" where
  "webapp_add_body e w now signer =
     stmt_then e (ps_webapp_insert (webapp_row w now signer)) (\<lambda>n.
       gr_audit_append e GR_CHANGE_WEBAPP_ADDED signer None (Some (webapp_added_detail w)))"

definition gr_webapp_add :: "yumi_env \<Rightarrow> gr_webapp_t option \<Rightarrow> gr_identity_t option \<Rightarrow> gr_registrar \<Rightarrow>
    gr_error_t \<times> gr_registrar" where
  "gr_webapp_add e webapp signer reg =
     (case (webapp, signer) of
        (Some w, Some s) \<Rightarrow>
          gr_then (governed e s GR_PERM_ADD_WEBAPP reg) (\<lambda>r1.
            if GR_WEBAPP_PERM_DATA_MAX < arg_len (w_perm_data w) then (GR_ERR_SIZE_EXCEEDED, r1)
            else if GR_WEBAPP_ROLE_MASK_MAX < arg_len (w_role_mask w) then (GR_ERR_SIZE_EXCEEDED, r1)
            else with_txn e (webapp_add_body e w (now_of e r1) s) (tick r1))
      | _ \<Rightarrow> (GR_ERR_INVALID_PARAM, reg))"

definition gr_webapp_remove :: "yumi_env \<Rightarrow> bytes option \<Rightarrow> gr_identity_t option \<Rightarrow> gr_registrar \<Rightarrow>
    gr_error_t \<times> gr_registrar" where
  "gr_webapp_remove e hash signer reg =
     (case (hash, signer) of
        (Some h, Some s) \<Rightarrow>
          gr_then (governed e s GR_PERM_REMOVE_WEBAPP reg)
            (with_txn e (change_existing e (ps_webapp_delete h) GR_CHANGE_WEBAPP_REMOVED s None
               (Some (cstr ''webapp removed''))))
      | _ \<Rightarrow> (GR_ERR_INVALID_PARAM, reg))"

definition gr_webapp_is_authorized :: "yumi_env \<Rightarrow> bytes \<Rightarrow> gr_registrar \<Rightarrow> bool \<times> gr_registrar" where
  "gr_webapp_is_authorized e hash reg =
     (case db_query e (\<lambda>d. Some (ps_webapp_check hash d)) reg of
        (Inl _, r) \<Rightarrow> (False, r) | (Inr n, r) \<Rightarrow> (0 < n, r))"

text \<open>Reading a row: an optional blob needs an allocation, which may fail.\<close>

definition get_blob_alloc :: "yumi_env \<Rightarrow> bytes option \<Rightarrow> gr_registrar \<Rightarrow> (gr_error_t + bytes) \<times> gr_registrar" where
  "get_blob_alloc e b reg =
     (case b of
        None \<Rightarrow> (Inl GR_ERR_DB, reg)
      | Some d \<Rightarrow> if d = [] then (Inr [], reg)
                  else if malloc_ok e (reg_calls reg) then (Inr d, tick reg)
                  else (Inl GR_ERR_OUT_OF_MEMORY, tick reg))"

definition absent_or :: "gr_error_t + bytes \<Rightarrow> bytes option" where
  "absent_or res = (case res of Inl _ \<Rightarrow> None | Inr d \<Rightarrow> blob_arg (Some d))"

text \<open>In a list, a blob that cannot be read is absent.\<close>

fun webapp_read_rows :: "yumi_env \<Rightarrow> gr_webapp_t list \<Rightarrow> gr_registrar \<Rightarrow> gr_webapp_t list \<times> gr_registrar" where
  "webapp_read_rows e [] reg = ([], reg)"
| "webapp_read_rows e (w # ws) reg =
     (case get_blob_alloc e (w_perm_data w) reg of (pd, r1) \<Rightarrow>
      case get_blob_alloc e (w_role_mask w) r1 of (rm, r2) \<Rightarrow>
      case webapp_read_rows e ws r2 of (out, r3) \<Rightarrow>
        (w\<lparr>w_name := db_str GR_MAX_NAME_LEN (w_name w), w_perm_data := absent_or pd,
           w_role_mask := absent_or rm\<rparr> # out, r3))"

definition gr_webapp_list :: "yumi_env \<Rightarrow> u32 \<Rightarrow> gr_registrar \<Rightarrow> (gr_error_t + gr_webapp_t list) \<times> gr_registrar" where
  "gr_webapp_list e max_count reg =
     (case db_query e (ps_webapp_list max_count) reg of
        (Inl err, r) \<Rightarrow> (Inl err, r)
      | (Inr rows, r) \<Rightarrow> (case webapp_read_rows e rows r of (out, r') \<Rightarrow> (Inr out, r')))"

definition gr_webapp_count :: "yumi_env \<Rightarrow> gr_registrar \<Rightarrow> (gr_error_t + u32) \<times> gr_registrar" where
  "gr_webapp_count e reg = db_query e (\<lambda>d. Some (of_nat (ps_webapp_count d))) reg"

text \<open>A single row: running out of memory is an error.\<close>

definition gr_webapp_get :: "yumi_env \<Rightarrow> bytes \<Rightarrow> gr_registrar \<Rightarrow> (gr_error_t + gr_webapp_t) \<times> gr_registrar" where
  "gr_webapp_get e hash reg =
     (case db_fetch e (ps_webapp_get hash) (tick reg) of
        (Inl err, r) \<Rightarrow> (Inl err, r)
      | (Inr w, r) \<Rightarrow>
          (case get_blob_alloc e (w_perm_data w) r of (pd, r1) \<Rightarrow>
             if pd = Inl GR_ERR_OUT_OF_MEMORY then (Inl GR_ERR_OUT_OF_MEMORY, r1)
             else case get_blob_alloc e (w_role_mask w) r1 of (rm, r2) \<Rightarrow>
               if rm = Inl GR_ERR_OUT_OF_MEMORY then (Inl GR_ERR_OUT_OF_MEMORY, r2)
               else (Inr (w\<lparr>w_name := db_str GR_MAX_NAME_LEN (w_name w), w_perm_data := absent_or pd,
                           w_role_mask := absent_or rm\<rparr>), r2)))"

text \<open>The first four bytes of the hash, as two hexadecimal digits each.\<close>

definition hash_prefix :: "bytes \<Rightarrow> bytes" where
  "hash_prefix h = concat (map (\<lambda>b. hex_fixed False 2 (unat b)) (take 4 h))"

definition blob_updated_detail :: "bytes \<Rightarrow> string \<Rightarrow> nat \<Rightarrow> bytes" where
  "blob_updated_detail h what n = snprintf_cut 128
     (cstr ''webapp '' @ hash_prefix h @ cstr what @ dec_nat n @ cstr '' bytes)'')"

definition gr_webapp_update_perm_data :: "yumi_env \<Rightarrow> bytes option \<Rightarrow> bytes option \<Rightarrow>
    gr_identity_t option \<Rightarrow> gr_registrar \<Rightarrow> gr_error_t \<times> gr_registrar" where
  "gr_webapp_update_perm_data e hash perm_data signer reg =
     (case (hash, signer) of
        (Some h, Some s) \<Rightarrow>
          gr_then (governed e s GR_PERM_ADD_WEBAPP reg) (\<lambda>r1.
            if GR_WEBAPP_PERM_DATA_MAX < arg_len perm_data then (GR_ERR_SIZE_EXCEEDED, r1)
            else with_txn e (change_existing e (ps_webapp_update_perm_data h (blob_arg perm_data))
                   GR_CHANGE_WEBAPP_MODIFIED s None
                   (Some (blob_updated_detail h '' perm_data updated ('' (arg_len perm_data)))) r1)
      | _ \<Rightarrow> (GR_ERR_INVALID_PARAM, reg))"

definition gr_webapp_update_role_mask :: "yumi_env \<Rightarrow> bytes option \<Rightarrow> bytes option \<Rightarrow>
    gr_identity_t option \<Rightarrow> gr_registrar \<Rightarrow> gr_error_t \<times> gr_registrar" where
  "gr_webapp_update_role_mask e hash role_mask signer reg =
     (case (hash, signer) of
        (Some h, Some s) \<Rightarrow>
          gr_then (governed e s GR_PERM_SET_WEBAPP_ROLES reg) (\<lambda>r1.
            if GR_WEBAPP_ROLE_MASK_MAX < arg_len role_mask then (GR_ERR_SIZE_EXCEEDED, r1)
            else with_txn e (change_existing e (ps_webapp_update_role_mask h (blob_arg role_mask))
                   GR_CHANGE_WEBAPP_MODIFIED s None
                   (Some (blob_updated_detail h '' role_mask updated ('' (arg_len role_mask)))) r1)
      | _ \<Rightarrow> (GR_ERR_INVALID_PARAM, reg))"

section \<open>Servers\<close>

definition server_added_detail :: "gr_server_t \<Rightarrow> bytes" where
  "server_added_detail s = snprintf_cut 128
     (cstr (if s_type s = GR_SERVER_SIGNALING then ''signaling'' else ''rebroadcast'')
      @ cstr '' server added at '' @ s_ip s @ cstr '':'' @ fmt_u (s_port s))"

definition server_add_body :: "yumi_env \<Rightarrow> gr_server_t \<Rightarrow> gr_identity_t \<Rightarrow> gr_registrar \<Rightarrow>
    gr_error_t \<times> gr_registrar" where
  "server_add_body e server signer =
     stmt_then e (ps_server_insert server) (\<lambda>n.
       gr_audit_append e GR_CHANGE_SERVER_ADDED signer None (Some (server_added_detail server)))"

definition gr_server_add :: "yumi_env \<Rightarrow> gr_server_t option \<Rightarrow> gr_identity_t option \<Rightarrow> gr_registrar \<Rightarrow>
    gr_error_t \<times> gr_registrar" where
  "gr_server_add e server signer reg =
     (case (server, signer) of
        (Some sv, Some s) \<Rightarrow>
          gr_then (governed e s GR_PERM_EDIT_SERVERS reg) (with_txn e (server_add_body e sv s))
      | _ \<Rightarrow> (GR_ERR_INVALID_PARAM, reg))"

definition gr_server_remove :: "yumi_env \<Rightarrow> bytes option \<Rightarrow> gr_identity_t option \<Rightarrow> gr_registrar \<Rightarrow>
    gr_error_t \<times> gr_registrar" where
  "gr_server_remove e id_hash signer reg =
     (case (id_hash, signer) of
        (Some h, Some s) \<Rightarrow>
          gr_then (governed e s GR_PERM_EDIT_SERVERS reg)
            (with_txn e (change_existing e (ps_server_delete h) GR_CHANGE_SERVER_REMOVED s None
               (Some (cstr ''server removed''))))
      | _ \<Rightarrow> (GR_ERR_INVALID_PARAM, reg))"

definition server_read :: "gr_server_t \<Rightarrow> gr_server_t" where
  "server_read s = s\<lparr>s_ip := db_str GR_MAX_IP_LEN (s_ip s)\<rparr>"

definition gr_server_list :: "yumi_env \<Rightarrow> u32 \<Rightarrow> u32 \<Rightarrow> gr_registrar \<Rightarrow>
    (gr_error_t + gr_server_t list) \<times> gr_registrar" where
  "gr_server_list e ty max_count reg =
     db_query e (\<lambda>d. map_option (map server_read) (ps_server_list ty max_count d)) reg"

definition gr_server_count :: "yumi_env \<Rightarrow> u32 \<Rightarrow> gr_registrar \<Rightarrow> (gr_error_t + u32) \<times> gr_registrar" where
  "gr_server_count e ty reg = db_query e (\<lambda>d. Some (of_nat (ps_server_count ty d))) reg"

section \<open>Errors leave no trace\<close>

lemma atomic_webapp_add: "atomic_op e (gr_webapp_add e webapp signer)"
proof (cases "webapp = None \<or> signer = None")
  case True
  then have "gr_webapp_add e webapp signer = (\<lambda>reg. (GR_ERR_INVALID_PARAM, reg))"
    by (intro ext) (auto simp: gr_webapp_add_def split: option.splits)
  then show ?thesis by (simp only: atomic_const)
next
  case False
  then obtain w s where ps: "webapp = Some w" "signer = Some s" by auto
  have t: "atomic_op e (\<lambda>r1. with_txn e (webapp_add_body e w (now_of e r1) s) (tick r1))"
    unfolding webapp_add_body_def
    by (rule atomic_dep [where f = "now_of e"], rule atomic_tick, rule atomic_stmt_audit)
  show ?thesis unfolding gr_webapp_add_def [abs_def] ps option.case prod.case
    by (rule atomic_governed, rule atomic_opI) (auto intro: atomic_res_self atomic_opD [OF t])
qed

lemma atomic_webapp_remove: "atomic_op e (gr_webapp_remove e hash signer)"
proof (cases "hash = None \<or> signer = None")
  case True
  then have "gr_webapp_remove e hash signer = (\<lambda>reg. (GR_ERR_INVALID_PARAM, reg))"
    by (intro ext) (auto simp: gr_webapp_remove_def split: option.splits)
  then show ?thesis by (simp only: atomic_const)
next
  case False
  then obtain h s where ps: "hash = Some h" "signer = Some s" by auto
  show ?thesis unfolding gr_webapp_remove_def [abs_def] ps option.case prod.case
    by (rule atomic_governed, rule atomic_change_existing)
qed

lemma atomic_webapp_update_perm_data: "atomic_op e (gr_webapp_update_perm_data e hash blob signer)"
proof (cases "hash = None \<or> signer = None")
  case True
  then have "gr_webapp_update_perm_data e hash blob signer = (\<lambda>reg. (GR_ERR_INVALID_PARAM, reg))"
    by (intro ext) (auto simp: gr_webapp_update_perm_data_def split: option.splits)
  then show ?thesis by (simp only: atomic_const)
next
  case False
  then obtain h s where ps: "hash = Some h" "signer = Some s" by auto
  show ?thesis unfolding gr_webapp_update_perm_data_def [abs_def] ps option.case prod.case
    by (rule atomic_governed, rule atomic_opI)
       (auto intro: atomic_res_self atomic_opD [OF atomic_change_existing])
qed

lemma atomic_webapp_update_role_mask: "atomic_op e (gr_webapp_update_role_mask e hash blob signer)"
proof (cases "hash = None \<or> signer = None")
  case True
  then have "gr_webapp_update_role_mask e hash blob signer = (\<lambda>reg. (GR_ERR_INVALID_PARAM, reg))"
    by (intro ext) (auto simp: gr_webapp_update_role_mask_def split: option.splits)
  then show ?thesis by (simp only: atomic_const)
next
  case False
  then obtain h s where ps: "hash = Some h" "signer = Some s" by auto
  show ?thesis unfolding gr_webapp_update_role_mask_def [abs_def] ps option.case prod.case
    by (rule atomic_governed, rule atomic_opI)
       (auto intro: atomic_res_self atomic_opD [OF atomic_change_existing])
qed

lemma atomic_server_add: "atomic_op e (gr_server_add e server signer)"
proof (cases "server = None \<or> signer = None")
  case True
  then have "gr_server_add e server signer = (\<lambda>reg. (GR_ERR_INVALID_PARAM, reg))"
    by (intro ext) (auto simp: gr_server_add_def split: option.splits)
  then show ?thesis by (simp only: atomic_const)
next
  case False
  then obtain h s where ps: "server = Some h" "signer = Some s" by auto
  show ?thesis unfolding gr_server_add_def [abs_def] server_add_body_def ps option.case prod.case
    by (rule atomic_governed, rule atomic_stmt_audit)
qed

lemma atomic_server_remove: "atomic_op e (gr_server_remove e id_hash signer)"
proof (cases "id_hash = None \<or> signer = None")
  case True
  then have "gr_server_remove e id_hash signer = (\<lambda>reg. (GR_ERR_INVALID_PARAM, reg))"
    by (intro ext) (auto simp: gr_server_remove_def split: option.splits)
  then show ?thesis by (simp only: atomic_const)
next
  case False
  then obtain h s where ps: "id_hash = Some h" "signer = Some s" by auto
  show ?thesis unfolding gr_server_remove_def [abs_def] ps option.case prod.case
    by (rule atomic_governed, rule atomic_change_existing)
qed

section \<open>What success means\<close>

lemma webapp_add_ok:
  assumes rel: "reliable e" and idle: "idle reg" and res: "gr_webapp_add e (Some w) (Some s) reg = (GR_OK, r)"
  shows "\<not> gr_join_is_untrusted reg \<and> and (perms_of reg (id_peer_id s)) GR_PERM_ADD_WEBAPP \<noteq> 0
    \<and> arg_len (w_perm_data w) \<le> GR_WEBAPP_PERM_DATA_MAX \<and> arg_len (w_role_mask w) \<le> GR_WEBAPP_ROLE_MASK_MAX
    \<and> committed e GR_CHANGE_WEBAPP_ADDED s None (\<lambda>(d, h) (d', h'). h' = h \<and> (\<exists>now n.
        ps_webapp_insert (webapp_row w now s) d = Some (n, d'))) reg r"
proof -
  from governed_then_ok [OF res [unfolded gr_webapp_add_def option.case prod.case]] obtain q
    where q: "\<not> gr_join_is_untrusted reg" "and (perms_of reg (id_peer_id s)) GR_PERM_ADD_WEBAPP \<noteq> 0" "quiet reg q"
    and k: "(if GR_WEBAPP_PERM_DATA_MAX < arg_len (w_perm_data w) then (GR_ERR_SIZE_EXCEEDED, q)
            else if GR_WEBAPP_ROLE_MASK_MAX < arg_len (w_role_mask w) then (GR_ERR_SIZE_EXCEEDED, q)
            else with_txn e (webapp_add_body e w (now_of e q) s) (tick q)) = (GR_OK, r)"
    by (elim exE conjE)
  have x: "arg_len (w_perm_data w) \<le> GR_WEBAPP_PERM_DATA_MAX" "arg_len (w_role_mask w) \<le> GR_WEBAPP_ROLE_MASK_MAX"
    "with_txn e (webapp_add_body e w (now_of e q) s) (tick q) = (GR_OK, r)"
    using k by (simp_all split: if_splits)
  from quiet_trans [OF q(3) quiet_tick] have quiet: "quiet reg (tick q)" .
  note cm = stmt_from [OF rel idle quiet x(3) [unfolded webapp_add_body_def]]
  have "committed e GR_CHANGE_WEBAPP_ADDED s None (\<lambda>(d, h) (d', h'). h' = h \<and> (\<exists>now n.
        ps_webapp_insert (webapp_row w now s) d = Some (n, d'))) reg r"
    by (rule committed_mono [OF cm]) auto
  with q(1,2) x(1,2) show ?thesis by simp
qed

lemma webapp_remove_ok:
  assumes rel: "reliable e" and idle: "idle reg" and res: "gr_webapp_remove e (Some hash) (Some s) reg = (GR_OK, r)"
  shows "\<not> gr_join_is_untrusted reg \<and> and (perms_of reg (id_peer_id s)) GR_PERM_REMOVE_WEBAPP \<noteq> 0
    \<and> committed e GR_CHANGE_WEBAPP_REMOVED s None (\<lambda>(d, h) (d', h'). h' = h \<and> (\<exists>n. n \<noteq> 0 \<and>
        ps_webapp_delete hash d = Some (n, d'))) reg r"
proof -
  from governed_then_ok [OF res [unfolded gr_webapp_remove_def option.case prod.case]] obtain q
    where q: "\<not> gr_join_is_untrusted reg" "and (perms_of reg (id_peer_id s)) GR_PERM_REMOVE_WEBAPP \<noteq> 0" "quiet reg q"
    and k: "with_txn e (change_existing e (ps_webapp_delete hash) GR_CHANGE_WEBAPP_REMOVED s None
               (Some (cstr ''webapp removed''))) q = (GR_OK, r)"
    by (elim exE conjE)
  from existing_from [OF rel idle q(3) k] q(1,2) show ?thesis by simp
qed

lemma webapp_update_perm_data_ok:
  assumes rel: "reliable e" and idle: "idle reg"
    and res: "gr_webapp_update_perm_data e (Some hash) blob (Some s) reg = (GR_OK, r)"
  shows "\<not> gr_join_is_untrusted reg \<and> and (perms_of reg (id_peer_id s)) GR_PERM_ADD_WEBAPP \<noteq> 0
    \<and> arg_len blob \<le> GR_WEBAPP_PERM_DATA_MAX
    \<and> committed e GR_CHANGE_WEBAPP_MODIFIED s None (\<lambda>(d, h) (d', h'). h' = h \<and> (\<exists>n. n \<noteq> 0 \<and>
        ps_webapp_update_perm_data hash (blob_arg blob) d = Some (n, d'))) reg r"
proof -
  let ?w = "with_txn e (change_existing e (ps_webapp_update_perm_data hash (blob_arg blob))
                   GR_CHANGE_WEBAPP_MODIFIED s None
                   (Some (blob_updated_detail hash '' perm_data updated ('' (arg_len blob))))"
  from governed_then_ok [OF res [unfolded gr_webapp_update_perm_data_def option.case prod.case]] obtain q
    where q: "\<not> gr_join_is_untrusted reg" "and (perms_of reg (id_peer_id s)) GR_PERM_ADD_WEBAPP \<noteq> 0" "quiet reg q"
    and k: "(if GR_WEBAPP_PERM_DATA_MAX < arg_len blob then (GR_ERR_SIZE_EXCEEDED, q) else ?w q) = (GR_OK, r)"
    by (elim exE conjE)
  have x: "arg_len blob \<le> GR_WEBAPP_PERM_DATA_MAX" "?w q = (GR_OK, r)" using k by (simp_all split: if_splits)
  from existing_from [OF rel idle q(3) x(2)] q(1,2) x(1) show ?thesis by simp
qed

lemma webapp_update_role_mask_ok:
  assumes rel: "reliable e" and idle: "idle reg"
    and res: "gr_webapp_update_role_mask e (Some hash) blob (Some s) reg = (GR_OK, r)"
  shows "\<not> gr_join_is_untrusted reg \<and> and (perms_of reg (id_peer_id s)) GR_PERM_SET_WEBAPP_ROLES \<noteq> 0
    \<and> arg_len blob \<le> GR_WEBAPP_ROLE_MASK_MAX
    \<and> committed e GR_CHANGE_WEBAPP_MODIFIED s None (\<lambda>(d, h) (d', h'). h' = h \<and> (\<exists>n. n \<noteq> 0 \<and>
        ps_webapp_update_role_mask hash (blob_arg blob) d = Some (n, d'))) reg r"
proof -
  let ?w = "with_txn e (change_existing e (ps_webapp_update_role_mask hash (blob_arg blob))
                   GR_CHANGE_WEBAPP_MODIFIED s None
                   (Some (blob_updated_detail hash '' role_mask updated ('' (arg_len blob))))"
  from governed_then_ok [OF res [unfolded gr_webapp_update_role_mask_def option.case prod.case]] obtain q
    where q: "\<not> gr_join_is_untrusted reg" "and (perms_of reg (id_peer_id s)) GR_PERM_SET_WEBAPP_ROLES \<noteq> 0" "quiet reg q"
    and k: "(if GR_WEBAPP_ROLE_MASK_MAX < arg_len blob then (GR_ERR_SIZE_EXCEEDED, q) else ?w q) = (GR_OK, r)"
    by (elim exE conjE)
  have x: "arg_len blob \<le> GR_WEBAPP_ROLE_MASK_MAX" "?w q = (GR_OK, r)" using k by (simp_all split: if_splits)
  from existing_from [OF rel idle q(3) x(2)] q(1,2) x(1) show ?thesis by simp
qed

lemma server_add_ok:
  assumes rel: "reliable e" and idle: "idle reg" and res: "gr_server_add e (Some sv) (Some s) reg = (GR_OK, r)"
  shows "\<not> gr_join_is_untrusted reg \<and> and (perms_of reg (id_peer_id s)) GR_PERM_EDIT_SERVERS \<noteq> 0
    \<and> committed e GR_CHANGE_SERVER_ADDED s None (\<lambda>(d, h) (d', h'). h' = h \<and> (\<exists>n.
        ps_server_insert sv d = Some (n, d'))) reg r"
proof -
  from governed_then_ok [OF res [unfolded gr_server_add_def option.case prod.case]] obtain q
    where q: "\<not> gr_join_is_untrusted reg" "and (perms_of reg (id_peer_id s)) GR_PERM_EDIT_SERVERS \<noteq> 0" "quiet reg q"
    and k: "with_txn e (server_add_body e sv s) q = (GR_OK, r)"
    by (elim exE conjE)
  from stmt_from [OF rel idle q(3) k [unfolded server_add_body_def]] q(1,2) show ?thesis by simp
qed

lemma server_remove_ok:
  assumes rel: "reliable e" and idle: "idle reg" and res: "gr_server_remove e (Some hash) (Some s) reg = (GR_OK, r)"
  shows "\<not> gr_join_is_untrusted reg \<and> and (perms_of reg (id_peer_id s)) GR_PERM_EDIT_SERVERS \<noteq> 0
    \<and> committed e GR_CHANGE_SERVER_REMOVED s None (\<lambda>(d, h) (d', h'). h' = h \<and> (\<exists>n. n \<noteq> 0 \<and>
        ps_server_delete hash d = Some (n, d'))) reg r"
proof -
  from governed_then_ok [OF res [unfolded gr_server_remove_def option.case prod.case]] obtain q
    where q: "\<not> gr_join_is_untrusted reg" "and (perms_of reg (id_peer_id s)) GR_PERM_EDIT_SERVERS \<noteq> 0" "quiet reg q"
    and k: "with_txn e (change_existing e (ps_server_delete hash) GR_CHANGE_SERVER_REMOVED s None
               (Some (cstr ''server removed''))) q = (GR_OK, r)"
    by (elim exE conjE)
  from existing_from [OF rel idle q(3) k] q(1,2) show ?thesis by simp
qed

end
