(* ===== verification/Icon.thy ===== *)
theory Icon imports Webapp_Server
begin

text \<open>The group icon: \<open>src/src/group_registrar/icon.c\<close>.\<close>

abbreviation (input) GR_GROUP_ICON_MAX_DIM :: u16 where "GR_GROUP_ICON_MAX_DIM \<equiv> 512"
abbreviation (input) GR_GROUP_ICON_MAX_BYTES :: nat where "GR_GROUP_ICON_MAX_BYTES \<equiv> 10485760"

definition is_valid_mime :: "bytes \<Rightarrow> bool" where
  "is_valid_mime mime \<longleftrightarrow> mime = cstr ''image/png'' \<or> mime = cstr ''image/jpeg''
     \<or> mime = cstr ''image/webp'' \<or> mime = cstr ''video/mp4'' \<or> mime = cstr ''video/webm''"

definition is_video_mime :: "bytes \<Rightarrow> bool" where
  "is_video_mime mime \<longleftrightarrow> mime = cstr ''video/mp4'' \<or> mime = cstr ''video/webm''"

text \<open>The checks of the arguments, in the order of the code.\<close>

definition icon_check :: "bytes \<Rightarrow> bytes \<Rightarrow> u16 \<Rightarrow> u16 \<Rightarrow> bool \<Rightarrow> bytes option \<Rightarrow> gr_error_t" where
  "icon_check data mime_type width height is_video static_frame =
     (if width = 0 \<or> height = 0 then GR_ERR_INVALID_PARAM
      else if GR_GROUP_ICON_MAX_DIM < width \<or> GR_GROUP_ICON_MAX_DIM < height then GR_ERR_SIZE_EXCEEDED
      else if data = [] \<or> GR_GROUP_ICON_MAX_BYTES < length data then GR_ERR_SIZE_EXCEEDED
      else if \<not> is_valid_mime mime_type then GR_ERR_INVALID_PARAM
      else if is_video
      then if \<not> is_video_mime mime_type then GR_ERR_INVALID_PARAM
           else if arg_len static_frame = 0 then GR_ERR_INVALID_PARAM
           else if GR_GROUP_ICON_MAX_BYTES < arg_len static_frame then GR_ERR_SIZE_EXCEEDED
           else GR_OK
      else GR_OK)"

definition icon_set_detail :: "bytes \<Rightarrow> u16 \<Rightarrow> u16 \<Rightarrow> nat \<Rightarrow> bytes" where
  "icon_set_detail mime w h n = snprintf_cut 128
     (cstr ''icon set ('' @ mime @ cstr '', '' @ fmt_u w @ cstr ''x'' @ fmt_u h @ cstr '', ''
      @ dec_nat n @ cstr '' bytes)'')"

text \<open>The result of the deletion is not looked at; a row that stays makes the insertion fail.\<close>

definition icon_set_body :: "yumi_env \<Rightarrow> gr_icon_row \<Rightarrow> bytes \<Rightarrow> gr_identity_t \<Rightarrow> gr_registrar \<Rightarrow>
    gr_error_t \<times> gr_registrar" where
  "icon_set_body e row detail signer reg =
     (case db_exec e ps_icon_delete reg of (_, r1) \<Rightarrow>
        stmt_then e (ps_icon_upsert row) (\<lambda>n.
          gr_audit_append e GR_CHANGE_GROUP_ICON_SET signer None (Some detail)) r1)"

text \<open>Hash, clock, transaction.  The result of the hash is not looked at.\<close>

definition icon_store :: "yumi_env \<Rightarrow> bytes \<Rightarrow> bytes \<Rightarrow> u16 \<Rightarrow> u16 \<Rightarrow> bool \<Rightarrow> bytes option \<Rightarrow>
    gr_identity_t \<Rightarrow> gr_registrar \<Rightarrow> gr_error_t \<times> gr_registrar" where
  "icon_store e data mime_type width height is_video static_frame signer reg =
     (let content_hash = (if skein_ok e (reg_calls reg) then skein e data
                          else uninit e (reg_calls reg) GR_HASH_LEN);
          r1 = tick reg
      in with_txn e (icon_set_body e
           \<lparr>ic_data = data, ic_mime_type = mime_type, ic_width = ucast width, ic_height = ucast height,
            ic_is_video = is_video, ic_static_frame = blob_arg static_frame,
            ic_content_hash = content_hash, ic_updated_at = now_of e r1,
            ic_updated_by = id_peer_id signer\<rparr>
           (icon_set_detail mime_type width height (length data)) signer) (tick r1))"

definition gr_group_icon_set :: "yumi_env \<Rightarrow> bytes option \<Rightarrow> bytes option \<Rightarrow> u16 \<Rightarrow> u16 \<Rightarrow> bool \<Rightarrow>
    bytes option \<Rightarrow> gr_identity_t option \<Rightarrow> gr_registrar \<Rightarrow> gr_error_t \<times> gr_registrar" where
  "gr_group_icon_set e data mime_type width height is_video static_frame signer reg =
     (case (data, mime_type, signer) of
        (Some d, Some m, Some s) \<Rightarrow>
          gr_then (governed e s GR_PERM_SET_GROUP_ICON reg) (\<lambda>r1.
            if icon_check d m width height is_video static_frame \<noteq> GR_OK
            then (icon_check d m width height is_video static_frame, r1)
            else icon_store e d m width height is_video static_frame s r1)
      | _ \<Rightarrow> (GR_ERR_INVALID_PARAM, reg))"

definition gr_group_icon_get :: "yumi_env \<Rightarrow> gr_registrar \<Rightarrow> (gr_error_t + gr_icon_row) \<times> gr_registrar" where
  "gr_group_icon_get e reg =
     (case db_fetch e ps_icon_get reg of
        (Inl err, r) \<Rightarrow> (Inl err, r)
      | (Inr ic, r) \<Rightarrow>
          (case get_blob_alloc e (Some (ic_data ic)) r of
             (Inl err, r1) \<Rightarrow> (Inl err, r1)
           | (Inr d, r1) \<Rightarrow>
               (if ic_is_video ic
                then case get_blob_alloc e (ic_static_frame ic) r1 of
                       (Inl err, r2) \<Rightarrow> (Inl err, r2)
                     | (Inr fr, r2) \<Rightarrow> (Inr (ic\<lparr>ic_data := d, ic_mime_type := db_str 64 (ic_mime_type ic),
                                               ic_static_frame := Some fr\<rparr>), r2)
                else (Inr (ic\<lparr>ic_data := d, ic_mime_type := db_str 64 (ic_mime_type ic),
                             ic_static_frame := None\<rparr>), r1))))"

text \<open>Removal succeeds, and is logged, whether or not there was an icon.\<close>

definition icon_remove_body :: "yumi_env \<Rightarrow> gr_identity_t \<Rightarrow> gr_registrar \<Rightarrow> gr_error_t \<times> gr_registrar" where
  "icon_remove_body e signer reg =
     (case db_exec e ps_icon_delete reg of (_, r1) \<Rightarrow>
        gr_audit_append e GR_CHANGE_GROUP_ICON_REMOVED signer None (Some (cstr ''icon removed'')) r1)"

definition gr_group_icon_remove :: "yumi_env \<Rightarrow> gr_identity_t option \<Rightarrow> gr_registrar \<Rightarrow>
    gr_error_t \<times> gr_registrar" where
  "gr_group_icon_remove e signer reg =
     (case signer of
        None \<Rightarrow> (GR_ERR_INVALID_PARAM, reg)
      | Some s \<Rightarrow> gr_then (governed e s GR_PERM_SET_GROUP_ICON reg) (with_txn e (icon_remove_body e s)))"

definition gr_group_icon_hash :: "yumi_env \<Rightarrow> gr_registrar \<Rightarrow> (gr_error_t + bytes) \<times> gr_registrar" where
  "gr_group_icon_hash e reg = db_fetch e ps_icon_hash reg"

section \<open>Errors leave no trace\<close>

lemma txn_icon_set: "txn_body e (icon_set_body e row detail s)"
  unfolding icon_set_body_def [abs_def] by (rule txn_exec [OF txn_stmt_audit])

lemma txn_icon_remove: "txn_body e (icon_remove_body e s)"
  unfolding icon_remove_body_def [abs_def] by (rule txn_exec [OF txn_audit_append])

interpretation icon_set_txn: txn_body e "icon_set_body e row detail s" for e row detail s
  by unfold_locales (rule txn_bodyD [OF txn_icon_set])

lemma atomic_icon_store: "atomic_op e (icon_store e data m w h v sf s)"
proof (rule atomic_opI)
  fix reg assume a: "reliable e" "idle reg"
  from quiet_trans [OF quiet_tick quiet_tick] have q: "quiet reg (tick (tick reg))" .
  show "atomic_res e reg (icon_store e data m w h v sf s reg)"
    unfolding icon_store_def Let_def by (rule atomic_seq [OF q atomic_txn [OF txn_icon_set] a])
qed

lemma atomic_group_icon_set: "atomic_op e (gr_group_icon_set e data mime w h v sf signer)"
proof (cases "data = None \<or> mime = None \<or> signer = None")
  case True
  then have "gr_group_icon_set e data mime w h v sf signer = (\<lambda>reg. (GR_ERR_INVALID_PARAM, reg))"
    by (intro ext) (auto simp: gr_group_icon_set_def split: option.splits)
  then show ?thesis by (simp only: atomic_const)
next
  case False
  then obtain d m s where ps: "data = Some d" "mime = Some m" "signer = Some s" by auto
  show ?thesis unfolding gr_group_icon_set_def [abs_def] ps option.case prod.case
    by (rule atomic_governed, rule atomic_opI) (auto intro: atomic_res_self atomic_opD [OF atomic_icon_store])
qed

lemma atomic_group_icon_remove: "atomic_op e (gr_group_icon_remove e signer)"
proof (cases signer)
  case None
  then show ?thesis using atomic_const by (simp add: gr_group_icon_remove_def [abs_def])
next
  case (Some s)
  show ?thesis unfolding gr_group_icon_remove_def [abs_def] Some option.case
    by (rule atomic_governed, rule atomic_txn [OF txn_icon_remove])
qed

section \<open>What success means\<close>

text \<open>What a deletion whose result is ignored may leave.\<close>

lemma exec_icon_delete:
  assumes "db_exec e ps_icon_delete reg = (x, r)"
  shows "(reg_db r = reg_db reg \<or> reg_db r = (reg_db reg)\<lparr>db_icon := []\<rparr>) \<and> reg_header r = reg_header reg
    \<and> (in_txn d0 h0 reg \<longrightarrow> in_txn d0 h0 r)"
  using assms by (auto simp: db_exec_def ps_icon_delete_def in_txn_def split: if_splits)

lemma group_icon_set_ok:
  assumes rel: "reliable e" and idle: "idle reg"
    and res: "gr_group_icon_set e (Some data) (Some mime) w h v sf (Some s) reg = (GR_OK, r)"
  shows "\<not> gr_join_is_untrusted reg \<and> and (perms_of reg (id_peer_id s)) GR_PERM_SET_GROUP_ICON \<noteq> 0
    \<and> icon_check data mime w h v sf = GR_OK
    \<and> committed e GR_CHANGE_GROUP_ICON_SET s None (\<lambda>(d, hd) (d', hd'). hd' = hd \<and> (\<exists>row.
        ic_data row = data \<and> ic_mime_type row = mime \<and> ic_width row = ucast w \<and> ic_height row = ucast h
        \<and> ic_is_video row = v \<and> ic_static_frame row = blob_arg sf \<and> ic_updated_by row = id_peer_id s
        \<and> d' = d\<lparr>db_icon := [row]\<rparr>)) reg r"
proof -
  from governed_then_ok [OF res [unfolded gr_group_icon_set_def option.case prod.case]] obtain q
    where q: "\<not> gr_join_is_untrusted reg" "and (perms_of reg (id_peer_id s)) GR_PERM_SET_GROUP_ICON \<noteq> 0" "quiet reg q"
    and k: "(if icon_check data mime w h v sf \<noteq> GR_OK then (icon_check data mime w h v sf, q)
            else icon_store e data mime w h v sf s q) = (GR_OK, r)"
    by (elim exE conjE)
  have x: "icon_check data mime w h v sf = GR_OK" "icon_store e data mime w h v sf s q = (GR_OK, r)"
    using k by (simp_all split: if_splits)
  define good where "good row \<longleftrightarrow> ic_data row = data \<and> ic_mime_type row = mime \<and> ic_width row = ucast w
    \<and> ic_height row = ucast h \<and> ic_is_video row = v \<and> ic_static_frame row = blob_arg sf
    \<and> ic_updated_by row = id_peer_id s" for row :: gr_icon_row
  obtain row detail where row: "with_txn e (icon_set_body e row detail s) (tick (tick q)) = (GR_OK, r)" "good row"
    using x(2) unfolding icon_store_def Let_def good_def by fastforce
  let ?q = "tick (tick q)"
  have quiet: "quiet reg ?q" using q(3) by (meson quiet_tick quiet_trans)
  have i1: "idle ?q" using quiet idle by (simp add: quietD)
  have "(\<exists>d. d = (reg_db ?q)\<lparr>db_icon := [row]\<rparr> \<and> logged e GR_CHANGE_GROUP_ICON_SET s None d (reg_header ?q) r)
      \<and> idle r \<and> reg_join_state r = reg_join_state ?q"
  proof (rule txn_logged [OF rel i1 txn_icon_set row(1), where h = "\<lambda>h. h"])
    fix r0 r1
    assume t: "in_txn (reg_db ?q) (reg_header ?q) r0" and db: "reg_db r0 = reg_db ?q"
      and hd: "reg_header r0 = reg_header ?q" and b: "icon_set_body e row detail s r0 = (GR_OK, r1)"
    obtain y r2 where del: "db_exec e ps_icon_delete r0 = (y, r2)" by (cases "db_exec e ps_icon_delete r0")
    note dl = exec_icon_delete [OF del, of "reg_db ?q" "reg_header ?q"]
    have t2: "in_txn (reg_db ?q) (reg_header ?q) r2" using dl t by simp
    have "stmt_then e (ps_icon_upsert row) (\<lambda>n.
          gr_audit_append e GR_CHANGE_GROUP_ICON_SET s None (Some detail)) r2 = (GR_OK, r1)"
      using b del by (simp add: icon_set_body_def)
    from stmt_audit_logged [OF rel t2 this] obtain n d where
      "ps_icon_upsert row (reg_db r2) = Some (n, d)" "logged e GR_CHANGE_GROUP_ICON_SET s None d (reg_header r2) r1"
      by (elim exE conjE)
    then show "\<exists>d. d = (reg_db ?q)\<lparr>db_icon := [row]\<rparr> \<and> logged e GR_CHANGE_GROUP_ICON_SET s None d (reg_header ?q) r1"
      using dl db hd by (auto simp: ps_icon_upsert_def split: if_splits)
  qed
  then have "committed e GR_CHANGE_GROUP_ICON_SET s None (\<lambda>(d, hd) (d', hd'). hd' = hd \<and>
      (\<exists>row. good row \<and> d' = d\<lparr>db_icon := [row]\<rparr>)) ?q r"
    unfolding committed_def using row(2) by auto
  from committed_quiet [OF quiet this] q(1,2) x(1) show ?thesis by (simp add: good_def)
qed

lemma group_icon_remove_ok:
  assumes rel: "reliable e" and idle: "idle reg" and res: "gr_group_icon_remove e (Some s) reg = (GR_OK, r)"
  shows "\<not> gr_join_is_untrusted reg \<and> and (perms_of reg (id_peer_id s)) GR_PERM_SET_GROUP_ICON \<noteq> 0
    \<and> committed e GR_CHANGE_GROUP_ICON_REMOVED s None (\<lambda>(d, h) (d', h'). h' = h \<and>
        (d' = d \<or> d' = d\<lparr>db_icon := []\<rparr>)) reg r"
proof -
  from governed_then_ok [OF res [unfolded gr_group_icon_remove_def option.case]] obtain q
    where q: "\<not> gr_join_is_untrusted reg" "and (perms_of reg (id_peer_id s)) GR_PERM_SET_GROUP_ICON \<noteq> 0" "quiet reg q"
    and w: "with_txn e (icon_remove_body e s) q = (GR_OK, r)"
    by (elim exE conjE)
  have i1: "idle q" using q(3) idle by (simp add: quietD)
  have "(\<exists>d. (d = reg_db q \<or> d = (reg_db q)\<lparr>db_icon := []\<rparr>)
        \<and> logged e GR_CHANGE_GROUP_ICON_REMOVED s None d (reg_header q) r)
      \<and> idle r \<and> reg_join_state r = reg_join_state q"
  proof (rule txn_logged [OF rel i1 txn_icon_remove w, where h = "\<lambda>h. h"])
    fix r0 r1
    assume t: "in_txn (reg_db q) (reg_header q) r0" and db: "reg_db r0 = reg_db q"
      and hd: "reg_header r0 = reg_header q" and b: "icon_remove_body e s r0 = (GR_OK, r1)"
    obtain y r2 where del: "db_exec e ps_icon_delete r0 = (y, r2)" by (cases "db_exec e ps_icon_delete r0")
    note dl = exec_icon_delete [OF del, of "reg_db q" "reg_header q"]
    have t2: "in_txn (reg_db q) (reg_header q) r2" using dl t by simp
    have "gr_audit_append e GR_CHANGE_GROUP_ICON_REMOVED s None (Some (cstr ''icon removed'')) r2 = (GR_OK, r1)"
      using b del by (simp add: icon_remove_body_def)
    from audit_append_logged [OF rel t2 this] dl db hd
    show "\<exists>d. (d = reg_db q \<or> d = (reg_db q)\<lparr>db_icon := []\<rparr>)
        \<and> logged e GR_CHANGE_GROUP_ICON_REMOVED s None d (reg_header q) r1" by auto
  qed
  then have "committed e GR_CHANGE_GROUP_ICON_REMOVED s None (\<lambda>(d, h) (d', h'). h' = h \<and>
        (d' = d \<or> d' = d\<lparr>db_icon := []\<rparr>)) q r"
    unfolding committed_def by auto
  from committed_quiet [OF q(3) this] q(1,2) show ?thesis by simp
qed

end
