(* ===== verification/Peer.thy ===== *)
theory Peer imports Role
begin

text \<open>
  The members of a group: \<open>src/src/group_registrar/peer.c\<close>.  Each mutation is its guards, then a
  transaction of one statement and one audit entry.
\<close>

section \<open>Reading\<close>

definition peer_read :: "gr_peer_t \<Rightarrow> gr_peer_t" where
  "peer_read p = p\<lparr>p_ip := db_str GR_MAX_IP_LEN (p_ip p),
     p_removed_reason := db_str GR_MAX_NAME_LEN (p_removed_reason p)\<rparr>"

definition gr_peer_get :: "yumi_env \<Rightarrow> bytes \<Rightarrow> gr_registrar \<Rightarrow> (gr_error_t + gr_peer_t) \<times> gr_registrar" where
  "gr_peer_get e peer_id reg = db_fetch e (\<lambda>d. map_option peer_read (ps_peer_get peer_id d)) reg"

definition gr_peer_count :: "yumi_env \<Rightarrow> u32 \<Rightarrow> gr_registrar \<Rightarrow> (gr_error_t + u32) \<times> gr_registrar" where
  "gr_peer_count e status_filter reg =
     db_query e (\<lambda>d. Some (of_nat (if status_filter = GR_PEER_STATUS_ANY then ps_peer_count_all d
                                   else ps_peer_count_status status_filter d))) reg"

definition gr_peer_list :: "yumi_env \<Rightarrow> u32 \<Rightarrow> u32 \<Rightarrow> gr_registrar \<Rightarrow>
    (gr_error_t + gr_peer_t list) \<times> gr_registrar" where
  "gr_peer_list e max_count status_filter reg =
     db_query e (\<lambda>d. map_option (map peer_read)
       (if status_filter = GR_PEER_STATUS_ANY then ps_peer_list_all max_count d
        else ps_peer_list_status status_filter max_count d)) reg"

definition gr_peer_is_authorized :: "yumi_env \<Rightarrow> bytes \<Rightarrow> gr_registrar \<Rightarrow> bool \<times> gr_registrar" where
  "gr_peer_is_authorized e peer_id reg =
     (case gr_peer_get e peer_id reg of
        (Inl _, r) \<Rightarrow> (False, r)
      | (Inr peer, r) \<Rightarrow> (p_status peer = GR_PEER_ACTIVE, r))"

section \<open>Adding\<close>

text \<open>The row that is inserted: a \<open>removed_by\<close> whose first byte is zero is stored as all zeros.\<close>

definition peer_add_row :: "gr_peer_t \<Rightarrow> gr_peer_t" where
  "peer_add_row p = p\<lparr>p_removed_by :=
     (case p_removed_by p of [] \<Rightarrow> zero_id | b # _ \<Rightarrow> if b \<noteq> 0 then p_removed_by p else zero_id)\<rparr>"

definition peer_readd_body :: "yumi_env \<Rightarrow> bytes \<Rightarrow> gr_identity_t \<Rightarrow> gr_registrar \<Rightarrow>
    gr_error_t \<times> gr_registrar" where
  "peer_readd_body e pid signer =
     stmt_then e (ps_peer_update_status GR_PEER_ACTIVE 0 [] zero_id pid) (\<lambda>n.
       gr_audit_append e GR_CHANGE_PEER_ADDED signer (Some pid)
         (Some (cstr ''peer re-added (was kicked)'')))"

definition peer_insert_body :: "yumi_env \<Rightarrow> gr_peer_t \<Rightarrow> gr_identity_t \<Rightarrow> gr_registrar \<Rightarrow>
    gr_error_t \<times> gr_registrar" where
  "peer_insert_body e peer signer =
     stmt_then e (ps_peer_insert (peer_add_row peer)) (\<lambda>n.
       gr_audit_append e GR_CHANGE_PEER_ADDED signer (Some (p_peer_id peer))
         (Some (cstr ''peer added'')))"

text \<open>
  After the guards.  The result of \<open>gr_identity_derive_id\<close> is not looked at: when it fails, the
  comparison reads a local array that was never written.
\<close>

definition peer_add_core :: "yumi_env \<Rightarrow> gr_peer_t \<Rightarrow> gr_identity_t \<Rightarrow> gr_registrar \<Rightarrow>
    gr_error_t \<times> gr_registrar" where
  "peer_add_core e peer signer reg =
     (let derived_id = (case gr_identity_derive_id e (p_sign_key peer) (reg_calls reg) of
                          None \<Rightarrow> uninit e (reg_calls reg) GR_PEER_ID_LEN
                        | Some i \<Rightarrow> i)
      in if derived_id \<noteq> p_peer_id peer then (GR_ERR_INVALID_PARAM, tick reg)
         else case gr_peer_get e (p_peer_id peer) (tick reg) of
                (Inr existing, r) \<Rightarrow>
                  if p_status existing = GR_PEER_KICKED
                  then with_txn e (peer_readd_body e (p_peer_id peer) signer) r
                  else (GR_ERR_ALREADY_EXISTS, r)
              | (Inl _, r) \<Rightarrow> with_txn e (peer_insert_body e peer signer) r)"

definition gr_peer_add :: "yumi_env \<Rightarrow> gr_peer_t option \<Rightarrow> gr_identity_t option \<Rightarrow> gr_registrar \<Rightarrow>
    gr_error_t \<times> gr_registrar" where
  "gr_peer_add e peer signer reg =
     (case (peer, signer) of
        (Some p, Some s) \<Rightarrow>
          gr_then (check_trusted reg) (\<lambda>r1.
          gr_then (if h_group_type (reg_header r1) = GR_GROUP_PRIVATE
                   then require_perm e s GR_PERM_INVITE_MEMBER r1 else (GR_OK, r1))
            (peer_add_core e p s))
      | _ \<Rightarrow> (GR_ERR_INVALID_PARAM, reg))"

section \<open>Removing\<close>

definition reason_or :: "bytes option \<Rightarrow> bytes \<Rightarrow> bytes" where
  "reason_or reason dflt = (case reason of None \<Rightarrow> dflt | Some s \<Rightarrow> s)"

definition gr_peer_kick :: "yumi_env \<Rightarrow> bytes option \<Rightarrow> bytes option \<Rightarrow> gr_identity_t option \<Rightarrow>
    gr_registrar \<Rightarrow> gr_error_t \<times> gr_registrar" where
  "gr_peer_kick e peer_id reason signer reg =
     (case (peer_id, signer) of
        (Some pid, Some s) \<Rightarrow>
          gr_then (governed e s GR_PERM_KICK_MEMBER reg) (\<lambda>r1.
          gr_bind (gr_peer_get e pid r1) (\<lambda>peer r2.
            if p_status peer \<noteq> GR_PEER_ACTIVE then (GR_ERR_NOT_FOUND, r2)
            else if gr_is_owner r2 pid then (GR_ERR_UNAUTHORIZED, r2)
            else with_txn e (clocked_change e
                   (\<lambda>now. ps_peer_update_status GR_PEER_KICKED now (reason_or reason []) (id_peer_id s) pid)
                   GR_CHANGE_PEER_KICKED s (Some pid) (Some (reason_or reason (cstr ''kicked'')))) r2))
      | _ \<Rightarrow> (GR_ERR_INVALID_PARAM, reg))"

definition gr_peer_ban :: "yumi_env \<Rightarrow> bytes option \<Rightarrow> bytes option \<Rightarrow> gr_identity_t option \<Rightarrow>
    gr_registrar \<Rightarrow> gr_error_t \<times> gr_registrar" where
  "gr_peer_ban e peer_id reason signer reg =
     (case (peer_id, signer) of
        (Some pid, Some s) \<Rightarrow>
          gr_then (governed e s GR_PERM_BAN_MEMBER reg) (\<lambda>r1.
          gr_bind (gr_peer_get e pid r1) (\<lambda>peer r2.
            if gr_is_owner r2 pid then (GR_ERR_UNAUTHORIZED, r2)
            else with_txn e (clocked_change e
                   (\<lambda>now. ps_peer_update_status GR_PEER_BANNED now (reason_or reason []) (id_peer_id s) pid)
                   GR_CHANGE_PEER_BANNED s (Some pid) (Some (reason_or reason (cstr ''banned'')))) r2))
      | _ \<Rightarrow> (GR_ERR_INVALID_PARAM, reg))"

definition gr_peer_leave :: "yumi_env \<Rightarrow> gr_identity_t option \<Rightarrow> gr_registrar \<Rightarrow> gr_error_t \<times> gr_registrar" where
  "gr_peer_leave e peer reg =
     (case peer of
        None \<Rightarrow> (GR_ERR_INVALID_PARAM, reg)
      | Some p \<Rightarrow>
          gr_then (check_trusted reg) (\<lambda>r1.
            if gr_is_owner r1 (id_peer_id p) then (GR_ERR_UNAUTHORIZED, r1)
            else gr_bind (gr_peer_get e (id_peer_id p) r1) (\<lambda>existing r2.
              if p_status existing \<noteq> GR_PEER_ACTIVE then (GR_ERR_NOT_FOUND, r2)
              else with_txn e (clocked_change e
                     (\<lambda>now. ps_peer_update_status GR_PEER_LEFT now (cstr ''left voluntarily'') (id_peer_id p) (id_peer_id p))
                     GR_CHANGE_PEER_REMOVED p (Some (id_peer_id p)) (Some (cstr ''left voluntarily''))) r2)))"

section \<open>Addresses\<close>

definition gr_peer_update_address :: "yumi_env \<Rightarrow> bytes option \<Rightarrow> u16 \<Rightarrow> gr_identity_t option \<Rightarrow>
    gr_registrar \<Rightarrow> gr_error_t \<times> gr_registrar" where
  "gr_peer_update_address e ip port peer reg =
     (case (ip, peer) of
        (Some addr, Some p) \<Rightarrow>
          with_txn e (clocked_change e (\<lambda>now. ps_peer_update_addr addr port now (id_peer_id p))
            GR_CHANGE_PEER_ADDRESS p (Some (id_peer_id p)) (Some (cstr ''address updated''))) reg
      | _ \<Rightarrow> (GR_ERR_INVALID_PARAM, reg))"

definition gr_peer_observed_address :: "yumi_env \<Rightarrow> bytes option \<Rightarrow> bytes option \<Rightarrow> u16 \<Rightarrow>
    gr_identity_t option \<Rightarrow> gr_registrar \<Rightarrow> gr_error_t \<times> gr_registrar" where
  "gr_peer_observed_address e peer_id ip port observer reg =
     (case (peer_id, ip, observer) of
        (Some pid, Some addr, Some ob) \<Rightarrow>
          gr_bind (gr_peer_get e pid reg) (\<lambda>existing r1.
            if p_status existing \<noteq> GR_PEER_ACTIVE then (GR_ERR_NOT_FOUND, r1)
            else with_txn e (clocked_change e (\<lambda>now. ps_peer_update_addr addr port now pid)
                   GR_CHANGE_PEER_ADDRESS ob (Some pid) (Some (cstr ''observed address''))) r1)
      | _ \<Rightarrow> (GR_ERR_INVALID_PARAM, reg))"

definition gr_peer_touch :: "yumi_env \<Rightarrow> bytes option \<Rightarrow> gr_registrar \<Rightarrow> gr_error_t \<times> gr_registrar" where
  "gr_peer_touch e peer_id reg =
     (case peer_id of
        None \<Rightarrow> (GR_ERR_INVALID_PARAM, reg)
      | Some pid \<Rightarrow>
          (case db_exec e (ps_peer_touch (now_of e reg) pid) (tick reg) of
             (None, r) \<Rightarrow> (GR_ERR_DB, r) | (Some n, r) \<Rightarrow> (GR_OK, r)))"

section \<open>Assigning a role\<close>

definition peer_set_role_body :: "yumi_env \<Rightarrow> bytes \<Rightarrow> u32 \<Rightarrow> gr_identity_t \<Rightarrow> gr_registrar \<Rightarrow>
    gr_error_t \<times> gr_registrar" where
  "peer_set_role_body e pid role_id signer =
     stmt_then e (ps_peer_set_role role_id pid) (\<lambda>n.
       gr_audit_append e GR_CHANGE_PEER_ROLE_CHANGED signer (Some pid)
         (Some (snprintf_cut 64 (cstr ''role set to '' @ fmt_u role_id))))"

definition gr_peer_set_role :: "yumi_env \<Rightarrow> bytes option \<Rightarrow> u32 \<Rightarrow> gr_identity_t option \<Rightarrow>
    gr_registrar \<Rightarrow> gr_error_t \<times> gr_registrar" where
  "gr_peer_set_role e peer_id role_id signer reg =
     (case (peer_id, signer) of
        (Some pid, Some s) \<Rightarrow>
          gr_then (governed e s GR_PERM_EDIT_ROLES reg) (\<lambda>r1.
            if 0 < role_id
            then gr_bind (gr_role_get e role_id r1) (\<lambda>role. with_txn e (peer_set_role_body e pid role_id s))
            else with_txn e (peer_set_role_body e pid role_id s) r1)
      | _ \<Rightarrow> (GR_ERR_INVALID_PARAM, reg))"

section \<open>Errors leave no trace\<close>

lemma quiet_peer_get: "quiet reg (snd (gr_peer_get e pid reg))"
  by (simp add: gr_peer_get_def quiet_fetch)

lemma quiet_peer_count: "quiet reg (snd (gr_peer_count e st reg))"
  by (simp add: gr_peer_count_def quiet_query)

lemma quiet_peer_list: "quiet reg (snd (gr_peer_list e n st reg))"
  by (simp add: gr_peer_list_def quiet_query)

lemma txn_peer_readd: "txn_body e (peer_readd_body e pid s)"
  unfolding peer_readd_body_def by (rule txn_stmt_audit)

lemma txn_peer_insert: "txn_body e (peer_insert_body e p s)"
  unfolding peer_insert_body_def by (rule txn_stmt_audit)

lemma txn_peer_set_role: "txn_body e (peer_set_role_body e pid rid s)"
  unfolding peer_set_role_body_def by (rule txn_stmt_audit)

lemma atomic_peer_add_core: "atomic_op e (peer_add_core e p s)"
proof (rule atomic_opI)
  fix reg assume a: "reliable e" "idle reg"
  define g where "g = gr_peer_get e (p_peer_id p) (tick reg)"
  have q: "quiet reg (snd g)"
    unfolding g_def using quiet_tick quiet_peer_get quiet_trans by blast
  note ops = atomic_seq [OF q atomic_txn [OF txn_peer_readd] a] atomic_seq [OF q atomic_txn [OF txn_peer_insert] a]
    atomic_res_self [OF q a(2)] atomic_res_self [OF quiet_tick a(2)]
  show "atomic_res e reg (peer_add_core e p s reg)"
    unfolding peer_add_core_def Let_def g_def [symmetric]
    using ops by (cases g) (auto split: sum.splits)
qed

lemma quiet_invite_guard:
  "quiet reg (snd (if h_group_type (reg_header reg) = GR_GROUP_PRIVATE
     then require_perm e s GR_PERM_INVITE_MEMBER reg else (GR_OK, reg)))"
  by (simp add: quiet_require_perm)

lemma atomic_peer_add: "atomic_op e (gr_peer_add e peer signer)"
proof (cases "peer = None \<or> signer = None")
  case True
  then have "gr_peer_add e peer signer = (\<lambda>reg. (GR_ERR_INVALID_PARAM, reg))"
    by (intro ext) (auto simp: gr_peer_add_def split: option.splits)
  then show ?thesis by (simp only: atomic_const)
next
  case False
  then obtain p s where ps: "peer = Some p" "signer = Some s" by auto
  have "atomic_op e (\<lambda>r1. gr_then (if h_group_type (reg_header r1) = GR_GROUP_PRIVATE
                   then require_perm e s GR_PERM_INVITE_MEMBER r1 else (GR_OK, r1)) (peer_add_core e p s))"
    by (rule atomic_then [OF quiet_invite_guard atomic_peer_add_core])
  from atomic_then [OF quiet_check_trusted this] show ?thesis by (simp add: gr_peer_add_def [abs_def] ps)
qed

lemma atomic_peer_kick: "atomic_op e (gr_peer_kick e pid reason signer)"
proof (cases "pid = None \<or> signer = None")
  case True
  then have "gr_peer_kick e pid reason signer = (\<lambda>reg. (GR_ERR_INVALID_PARAM, reg))"
    by (intro ext) (auto simp: gr_peer_kick_def split: option.splits)
  then show ?thesis by (simp only: atomic_const)
next
  case False
  then obtain p s where ps: "pid = Some p" "signer = Some s" by auto
  show ?thesis unfolding gr_peer_kick_def [abs_def] ps option.case prod.case
    by (rule atomic_governed, rule atomic_bind, rule quiet_peer_get, rule atomic_opI)
       (auto intro: atomic_res_self atomic_opD [OF atomic_clocked_change])
qed

lemma atomic_peer_ban: "atomic_op e (gr_peer_ban e pid reason signer)"
proof (cases "pid = None \<or> signer = None")
  case True
  then have "gr_peer_ban e pid reason signer = (\<lambda>reg. (GR_ERR_INVALID_PARAM, reg))"
    by (intro ext) (auto simp: gr_peer_ban_def split: option.splits)
  then show ?thesis by (simp only: atomic_const)
next
  case False
  then obtain p s where ps: "pid = Some p" "signer = Some s" by auto
  show ?thesis unfolding gr_peer_ban_def [abs_def] ps option.case prod.case
    by (rule atomic_governed, rule atomic_bind, rule quiet_peer_get, rule atomic_opI)
       (auto intro: atomic_res_self atomic_opD [OF atomic_clocked_change])
qed

lemma atomic_peer_leave: "atomic_op e (gr_peer_leave e peer)"
proof (cases peer)
  case None
  then show ?thesis using atomic_const by (simp add: gr_peer_leave_def [abs_def])
next
  case (Some p)
  let ?get = "\<lambda>r1. gr_bind (gr_peer_get e (id_peer_id p) r1) (\<lambda>existing r2.
              if p_status existing \<noteq> GR_PEER_ACTIVE then (GR_ERR_NOT_FOUND, r2)
              else with_txn e (clocked_change e
                     (\<lambda>now. ps_peer_update_status GR_PEER_LEFT now (cstr ''left voluntarily'') (id_peer_id p) (id_peer_id p))
                     GR_CHANGE_PEER_REMOVED p (Some (id_peer_id p)) (Some (cstr ''left voluntarily''))) r2)"
  have g: "atomic_op e ?get"
    by (rule atomic_bind, rule quiet_peer_get, rule atomic_opI)
       (auto intro: atomic_res_self atomic_opD [OF atomic_clocked_change])
  have "atomic_op e (\<lambda>r1. if gr_is_owner r1 (id_peer_id p) then (GR_ERR_UNAUTHORIZED, r1) else ?get r1)"
    by (rule atomic_opI) (auto intro: atomic_res_self atomic_opD [OF g])
  from atomic_then [OF quiet_check_trusted this] Some show ?thesis by (simp add: gr_peer_leave_def [abs_def])
qed

lemma atomic_peer_update_address: "atomic_op e (gr_peer_update_address e ip port peer)"
proof (cases "ip = None \<or> peer = None")
  case True
  then have "gr_peer_update_address e ip port peer = (\<lambda>reg. (GR_ERR_INVALID_PARAM, reg))"
    by (intro ext) (auto simp: gr_peer_update_address_def split: option.splits)
  then show ?thesis by (simp only: atomic_const)
next
  case False
  then obtain a p where ps: "ip = Some a" "peer = Some p" by auto
  show ?thesis unfolding gr_peer_update_address_def [abs_def] ps option.case prod.case
    by (rule atomic_clocked_change)
qed

lemma atomic_peer_observed_address: "atomic_op e (gr_peer_observed_address e pid ip port observer)"
proof (cases "pid = None \<or> ip = None \<or> observer = None")
  case True
  then have "gr_peer_observed_address e pid ip port observer = (\<lambda>reg. (GR_ERR_INVALID_PARAM, reg))"
    by (intro ext) (auto simp: gr_peer_observed_address_def split: option.splits)
  then show ?thesis by (simp only: atomic_const)
next
  case False
  then obtain p a ob where ps: "pid = Some p" "ip = Some a" "observer = Some ob" by auto
  show ?thesis unfolding gr_peer_observed_address_def [abs_def] ps option.case prod.case
    by (rule atomic_bind, rule quiet_peer_get, rule atomic_opI)
       (auto intro: atomic_res_self atomic_opD [OF atomic_clocked_change])
qed

lemma atomic_peer_set_role: "atomic_op e (gr_peer_set_role e pid rid signer)"
proof (cases "pid = None \<or> signer = None")
  case True
  then have "gr_peer_set_role e pid rid signer = (\<lambda>reg. (GR_ERR_INVALID_PARAM, reg))"
    by (intro ext) (auto simp: gr_peer_set_role_def split: option.splits)
  then show ?thesis by (simp only: atomic_const)
next
  case False
  then obtain p s where ps: "pid = Some p" "signer = Some s" by auto
  have t: "atomic_op e (with_txn e (peer_set_role_body e p rid s))" by (rule atomic_txn [OF txn_peer_set_role])
  have "atomic_op e (\<lambda>r1. gr_bind (gr_role_get e rid r1) (\<lambda>role. with_txn e (peer_set_role_body e p rid s)))"
    by (rule atomic_bind [OF quiet_role_get t])
  with t have "atomic_op e (\<lambda>r1. if 0 < rid
            then gr_bind (gr_role_get e rid r1) (\<lambda>role. with_txn e (peer_set_role_body e p rid s))
            else with_txn e (peer_set_role_body e p rid s) r1)"
    by (cases "0 < rid") simp_all
  from atomic_governed [OF this] show ?thesis by (simp add: gr_peer_set_role_def [abs_def] ps)
qed

section \<open>What success means\<close>

lemma peer_get_ok: "ps_peer_get pid d = Some p0 \<Longrightarrow> p_status (peer_read p0) = p_status p0"
  by (simp add: peer_read_def)

lemma peer_get_bind_ok:
  assumes "gr_bind (gr_peer_get e pid reg) k = (GR_OK, r)"
  shows "\<exists>p r1. ps_peer_get pid (reg_db reg) = Some p \<and> quiet reg r1 \<and> k (peer_read p) r1 = (GR_OK, r)"
proof -
  from fetch_bind_ok [OF assms [unfolded gr_peer_get_def]] obtain v r1
    where x: "map_option peer_read (ps_peer_get pid (reg_db reg)) = Some v" "quiet reg r1" "k v r1 = (GR_OK, r)"
    by (elim exE conjE)
  then obtain p where "ps_peer_get pid (reg_db reg) = Some p" "v = peer_read p" by auto
  with x(2,3) show ?thesis by (intro exI [of _ p] exI [of _ r1]) simp
qed

lemma peer_kick_ok:
  assumes rel: "reliable e" and idle: "idle reg"
    and res: "gr_peer_kick e (Some pid) reason (Some s) reg = (GR_OK, r)"
  shows "\<not> gr_join_is_untrusted reg \<and> and (perms_of reg (id_peer_id s)) GR_PERM_KICK_MEMBER \<noteq> 0
    \<and> (\<exists>p. ps_peer_get pid (reg_db reg) = Some p \<and> p_status p = GR_PEER_ACTIVE)
    \<and> h_owner_id (reg_header reg) \<noteq> pid
    \<and> committed e GR_CHANGE_PEER_KICKED s (Some pid) (\<lambda>(d, h) (d', h'). h' = h \<and> (\<exists>now n.
        ps_peer_update_status GR_PEER_KICKED now (reason_or reason []) (id_peer_id s) pid d = Some (n, d'))) reg r"
proof -
  from governed_then_ok [OF res [unfolded gr_peer_kick_def option.case prod.case]] obtain q
    where q: "\<not> gr_join_is_untrusted reg" "and (perms_of reg (id_peer_id s)) GR_PERM_KICK_MEMBER \<noteq> 0" "quiet reg q"
    and k: "gr_bind (gr_peer_get e pid q) (\<lambda>peer r2.
            if p_status peer \<noteq> GR_PEER_ACTIVE then (GR_ERR_NOT_FOUND, r2)
            else if gr_is_owner r2 pid then (GR_ERR_UNAUTHORIZED, r2)
            else with_txn e (clocked_change e
                   (\<lambda>now. ps_peer_update_status GR_PEER_KICKED now (reason_or reason []) (id_peer_id s) pid)
                   GR_CHANGE_PEER_KICKED s (Some pid) (Some (reason_or reason (cstr ''kicked'')))) r2) = (GR_OK, r)"
    by (elim exE conjE)
  from peer_get_bind_ok [OF k] obtain p q1 where p: "ps_peer_get pid (reg_db q) = Some p" "quiet q q1"
    "(if p_status (peer_read p) \<noteq> GR_PEER_ACTIVE then (GR_ERR_NOT_FOUND, q1)
            else if gr_is_owner q1 pid then (GR_ERR_UNAUTHORIZED, q1)
            else with_txn e (clocked_change e
                   (\<lambda>now. ps_peer_update_status GR_PEER_KICKED now (reason_or reason []) (id_peer_id s) pid)
                   GR_CHANGE_PEER_KICKED s (Some pid) (Some (reason_or reason (cstr ''kicked'')))) q1) = (GR_OK, r)"
    by (elim exE conjE)
  have quiet: "quiet reg q1" using q(3) p(2) by (rule quiet_trans)
  have x: "p_status p = GR_PEER_ACTIVE" "\<not> gr_is_owner q1 pid" "with_txn e (clocked_change e
                   (\<lambda>now. ps_peer_update_status GR_PEER_KICKED now (reason_or reason []) (id_peer_id s) pid)
                   GR_CHANGE_PEER_KICKED s (Some pid) (Some (reason_or reason (cstr ''kicked'')))) q1 = (GR_OK, r)"
    using p(3) peer_get_ok [OF p(1)] by (simp_all split: if_splits)
  show ?thesis using clocked_from [OF rel idle quiet x(3)] q p(1) x(1,2) quiet
    by (simp add: quietD gr_is_owner_def)
qed

lemma peer_ban_ok:
  assumes rel: "reliable e" and idle: "idle reg"
    and res: "gr_peer_ban e (Some pid) reason (Some s) reg = (GR_OK, r)"
  shows "\<not> gr_join_is_untrusted reg \<and> and (perms_of reg (id_peer_id s)) GR_PERM_BAN_MEMBER \<noteq> 0
    \<and> ps_peer_get pid (reg_db reg) \<noteq> None \<and> h_owner_id (reg_header reg) \<noteq> pid
    \<and> committed e GR_CHANGE_PEER_BANNED s (Some pid) (\<lambda>(d, h) (d', h'). h' = h \<and> (\<exists>now n.
        ps_peer_update_status GR_PEER_BANNED now (reason_or reason []) (id_peer_id s) pid d = Some (n, d'))) reg r"
proof -
  from governed_then_ok [OF res [unfolded gr_peer_ban_def option.case prod.case]] obtain q
    where q: "\<not> gr_join_is_untrusted reg" "and (perms_of reg (id_peer_id s)) GR_PERM_BAN_MEMBER \<noteq> 0" "quiet reg q"
    and k: "gr_bind (gr_peer_get e pid q) (\<lambda>peer r2.
            if gr_is_owner r2 pid then (GR_ERR_UNAUTHORIZED, r2)
            else with_txn e (clocked_change e
                   (\<lambda>now. ps_peer_update_status GR_PEER_BANNED now (reason_or reason []) (id_peer_id s) pid)
                   GR_CHANGE_PEER_BANNED s (Some pid) (Some (reason_or reason (cstr ''banned'')))) r2) = (GR_OK, r)"
    by (elim exE conjE)
  from peer_get_bind_ok [OF k] obtain p q1 where p: "ps_peer_get pid (reg_db q) = Some p" "quiet q q1"
    "(if gr_is_owner q1 pid then (GR_ERR_UNAUTHORIZED, q1)
            else with_txn e (clocked_change e
                   (\<lambda>now. ps_peer_update_status GR_PEER_BANNED now (reason_or reason []) (id_peer_id s) pid)
                   GR_CHANGE_PEER_BANNED s (Some pid) (Some (reason_or reason (cstr ''banned'')))) q1) = (GR_OK, r)"
    by (elim exE conjE)
  have quiet: "quiet reg q1" using q(3) p(2) by (rule quiet_trans)
  have x: "\<not> gr_is_owner q1 pid" "with_txn e (clocked_change e
                   (\<lambda>now. ps_peer_update_status GR_PEER_BANNED now (reason_or reason []) (id_peer_id s) pid)
                   GR_CHANGE_PEER_BANNED s (Some pid) (Some (reason_or reason (cstr ''banned'')))) q1 = (GR_OK, r)"
    using p(3) by (simp_all split: if_splits)
  show ?thesis using clocked_from [OF rel idle quiet x(2)] q p(1) x(1) quiet
    by (simp add: quietD gr_is_owner_def)
qed

lemma peer_leave_ok:
  assumes rel: "reliable e" and idle: "idle reg"
    and res: "gr_peer_leave e (Some s) reg = (GR_OK, r)"
  shows "\<not> gr_join_is_untrusted reg
    \<and> (\<exists>p. ps_peer_get (id_peer_id s) (reg_db reg) = Some p \<and> p_status p = GR_PEER_ACTIVE)
    \<and> h_owner_id (reg_header reg) \<noteq> id_peer_id s
    \<and> committed e GR_CHANGE_PEER_REMOVED s (Some (id_peer_id s)) (\<lambda>(d, h) (d', h'). h' = h \<and> (\<exists>now n.
        ps_peer_update_status GR_PEER_LEFT now (cstr ''left voluntarily'') (id_peer_id s) (id_peer_id s) d
        = Some (n, d'))) reg r"
proof -
  let ?w = "with_txn e (clocked_change e
      (\<lambda>now. ps_peer_update_status GR_PEER_LEFT now (cstr ''left voluntarily'') (id_peer_id s) (id_peer_id s))
      GR_CHANGE_PEER_REMOVED s (Some (id_peer_id s)) (Some (cstr ''left voluntarily'')))"
  note t = check_trusted_then_ok [OF res [unfolded gr_peer_leave_def option.case]]
  have ow: "\<not> gr_is_owner reg (id_peer_id s)"
    and k: "gr_bind (gr_peer_get e (id_peer_id s) reg) (\<lambda>existing r2.
              if p_status existing \<noteq> GR_PEER_ACTIVE then (GR_ERR_NOT_FOUND, r2) else ?w r2) = (GR_OK, r)"
    using t(2) by (simp_all split: if_splits)
  from peer_get_bind_ok [OF k] obtain p q1 where p: "ps_peer_get (id_peer_id s) (reg_db reg) = Some p" "quiet reg q1"
    "(if p_status (peer_read p) \<noteq> GR_PEER_ACTIVE then (GR_ERR_NOT_FOUND, q1) else ?w q1) = (GR_OK, r)"
    by (elim exE conjE)
  have x: "p_status p = GR_PEER_ACTIVE" "?w q1 = (GR_OK, r)"
    using p(3) peer_get_ok [OF p(1)] by (simp_all split: if_splits)
  show ?thesis using clocked_from [OF rel idle p(2) x(2)] t(1) ow p(1) x(1) by (simp add: gr_is_owner_def)
qed

lemma peer_update_address_ok:
  assumes rel: "reliable e" and idle: "idle reg"
    and res: "gr_peer_update_address e (Some ip) port (Some s) reg = (GR_OK, r)"
  shows "committed e GR_CHANGE_PEER_ADDRESS s (Some (id_peer_id s)) (\<lambda>(d, h) (d', h'). h' = h \<and> (\<exists>now n.
        ps_peer_update_addr ip port now (id_peer_id s) d = Some (n, d'))) reg r"
  using clocked_committed [OF rel idle res [unfolded gr_peer_update_address_def option.case prod.case]] .

lemma peer_observed_address_ok:
  assumes rel: "reliable e" and idle: "idle reg"
    and res: "gr_peer_observed_address e (Some pid) (Some ip) port (Some s) reg = (GR_OK, r)"
  shows "(\<exists>p. ps_peer_get pid (reg_db reg) = Some p \<and> p_status p = GR_PEER_ACTIVE)
    \<and> committed e GR_CHANGE_PEER_ADDRESS s (Some pid) (\<lambda>(d, h) (d', h'). h' = h \<and> (\<exists>now n.
        ps_peer_update_addr ip port now pid d = Some (n, d'))) reg r"
proof -
  let ?w = "with_txn e (clocked_change e (\<lambda>now. ps_peer_update_addr ip port now pid)
                   GR_CHANGE_PEER_ADDRESS s (Some pid) (Some (cstr ''observed address'')))"
  from peer_get_bind_ok [OF res [unfolded gr_peer_observed_address_def option.case prod.case]]
  obtain p q1 where p: "ps_peer_get pid (reg_db reg) = Some p" "quiet reg q1"
    "(if p_status (peer_read p) \<noteq> GR_PEER_ACTIVE then (GR_ERR_NOT_FOUND, q1) else ?w q1) = (GR_OK, r)"
    by (elim exE conjE)
  have x: "p_status p = GR_PEER_ACTIVE" "?w q1 = (GR_OK, r)"
    using p(3) peer_get_ok [OF p(1)] by (simp_all split: if_splits)
  show ?thesis using clocked_from [OF rel idle p(2) x(2)] p(1) x(1) by simp
qed

lemma peer_set_role_ok:
  assumes rel: "reliable e" and idle: "idle reg"
    and res: "gr_peer_set_role e (Some pid) rid (Some s) reg = (GR_OK, r)"
  shows "\<not> gr_join_is_untrusted reg \<and> and (perms_of reg (id_peer_id s)) GR_PERM_EDIT_ROLES \<noteq> 0
    \<and> (0 < rid \<longrightarrow> ps_role_get rid (reg_db reg) \<noteq> None)
    \<and> committed e GR_CHANGE_PEER_ROLE_CHANGED s (Some pid) (\<lambda>(d, h) (d', h'). h' = h \<and> (\<exists>n.
        ps_peer_set_role rid pid d = Some (n, d'))) reg r"
proof -
  let ?w = "with_txn e (peer_set_role_body e pid rid s)"
  from governed_then_ok [OF res [unfolded gr_peer_set_role_def option.case prod.case]] obtain q
    where q: "\<not> gr_join_is_untrusted reg" "and (perms_of reg (id_peer_id s)) GR_PERM_EDIT_ROLES \<noteq> 0" "quiet reg q"
    and k: "(if 0 < rid then gr_bind (gr_role_get e rid q) (\<lambda>role. ?w) else ?w q) = (GR_OK, r)"
    by (elim exE conjE)
  show ?thesis
  proof (cases "0 < rid")
    case False
    then have "?w q = (GR_OK, r)" using k by simp
    from stmt_from [OF rel idle q(3) this [unfolded peer_set_role_body_def]] q(1,2) False
    show ?thesis by simp
  next
    case True
    then have "gr_bind (gr_role_get e rid q) (\<lambda>role. ?w) = (GR_OK, r)" using k by simp
    from fetch_bind_ok [OF this [unfolded gr_role_get_def]] obtain v q1
      where x: "map_option role_read (ps_role_get rid (reg_db q)) = Some v" "quiet q q1" "?w q1 = (GR_OK, r)"
      by (elim exE conjE)
    have "quiet reg q1" using q(3) x(2) by (rule quiet_trans)
    from stmt_from [OF rel idle this x(3) [unfolded peer_set_role_body_def]] q x(1)
    show ?thesis by (auto simp: quietD)
  qed
qed

lemma peer_add_core_ok:
  assumes rel: "reliable e" and idle: "idle reg" and res: "peer_add_core e p s reg = (GR_OK, r)"
  shows "committed e GR_CHANGE_PEER_ADDED s (Some (p_peer_id p)) (\<lambda>(d, h) (d', h'). h' = h \<and>
     ((\<exists>p0 n. ps_peer_get (p_peer_id p) d = Some p0 \<and> p_status p0 = GR_PEER_KICKED
        \<and> ps_peer_update_status GR_PEER_ACTIVE 0 [] zero_id (p_peer_id p) d = Some (n, d'))
      \<or> (\<exists>n. ps_peer_insert (peer_add_row p) d = Some (n, d')))) reg r"
proof -
  let ?get = "gr_peer_get e (p_peer_id p) (tick reg)"
  obtain g q where g: "?get = (g, q)" by (cases ?get)
  have "quiet (tick reg) q" using quiet_peer_get [of "tick reg" e "p_peer_id p"] g by simp
  from quiet_trans [OF quiet_tick this] have quiet: "quiet reg q" .
  show ?thesis
  proof (cases "\<exists>ex. g = Inr ex \<and> p_status ex = GR_PEER_KICKED")
    case True
    then obtain ex where ex: "g = Inr ex" "p_status ex = GR_PEER_KICKED" by blast
    then obtain p0 where p0: "ps_peer_get (p_peer_id p) (reg_db reg) = Some p0" "p_status p0 = GR_PEER_KICKED"
      using fetch_ok [OF g [unfolded gr_peer_get_def ex(1)]] by (auto simp: peer_read_def)
    have w: "with_txn e (peer_readd_body e (p_peer_id p) s) q = (GR_OK, r)"
      using res g ex by (simp add: peer_add_core_def Let_def split: if_splits)
    note cm = stmt_from [OF rel idle quiet w [unfolded peer_readd_body_def]]
    show ?thesis by (rule committed_mono [OF cm]) (use p0 in auto)
  next
    case False
    then have w: "with_txn e (peer_insert_body e p s) q = (GR_OK, r)"
      using res g by (auto simp: peer_add_core_def Let_def split: if_splits sum.splits)
    note cm = stmt_from [OF rel idle quiet w [unfolded peer_insert_body_def]]
    show ?thesis by (rule committed_mono [OF cm]) auto
  qed
qed

lemma peer_add_ok:
  assumes rel: "reliable e" and idle: "idle reg" and res: "gr_peer_add e (Some p) (Some s) reg = (GR_OK, r)"
  shows "\<not> gr_join_is_untrusted reg
    \<and> (h_group_type (reg_header reg) = GR_GROUP_PRIVATE \<longrightarrow>
         and (perms_of reg (id_peer_id s)) GR_PERM_INVITE_MEMBER \<noteq> 0)
    \<and> committed e GR_CHANGE_PEER_ADDED s (Some (p_peer_id p)) (\<lambda>(d, h) (d', h'). h' = h \<and>
     ((\<exists>p0 n. ps_peer_get (p_peer_id p) d = Some p0 \<and> p_status p0 = GR_PEER_KICKED
        \<and> ps_peer_update_status GR_PEER_ACTIVE 0 [] zero_id (p_peer_id p) d = Some (n, d'))
      \<or> (\<exists>n. ps_peer_insert (peer_add_row p) d = Some (n, d')))) reg r"
proof -
  note t = check_trusted_then_ok [OF res [unfolded gr_peer_add_def option.case prod.case]]
  from gr_then_ok [OF t(2)] obtain q where q: "(if h_group_type (reg_header reg) = GR_GROUP_PRIVATE
                   then require_perm e s GR_PERM_INVITE_MEMBER reg else (GR_OK, reg)) = (GR_OK, q)"
      "peer_add_core e p s q = (GR_OK, r)" by (elim exE conjE)
  have perm: "h_group_type (reg_header reg) = GR_GROUP_PRIVATE \<longrightarrow>
      and (perms_of reg (id_peer_id s)) GR_PERM_INVITE_MEMBER \<noteq> 0"
    using q(1) require_perm_ok [of e s GR_PERM_INVITE_MEMBER reg q] by auto
  have quiet: "quiet reg q" using quiet_invite_guard [of reg e s] q(1) by simp
  then have "idle q" using idle by (simp add: quietD)
  from committed_quiet [OF quiet peer_add_core_ok [OF rel this q(2)]] t(1) perm show ?thesis by blast
qed

end
