(* ===== verification/Wire.thy ===== *)
theory Wire imports Buf Registrar_Types
begin

text \<open>
  The wire formats of \<open>src/src/group_registrar/serialize.c\<close>: one serializer \<open>ser_x\<close> and one
  parser \<open>de_x\<close> per struct.  A serializer is the sequence of its writes (\<open>ser_seq\<close>, return
  codes ignored, the sticky error flag checked by the caller); a parser is the sequence of its
  reads (\<open>rbind\<close>, the first failing read is the result -1).

  The relation \<open>rt ra w rd v\<close> says that what \<open>w\<close> appends is what \<open>rd\<close> reads as \<open>v\<close>.  Its
  rules follow the text of a serializer and its parser step by step, so each round trip is one
  application of them.  The locale \<open>wire_codec\<close> is the contract of a pair; it gives the lists.
\<close>

section \<open>Matching a serializer with its parser\<close>

definition rt :: "(u64 \<Rightarrow> bool) \<Rightarrow> (gr_buf_t \<Rightarrow> gr_buf_t option) \<Rightarrow>
    (gr_reader_t \<Rightarrow> 'a option \<times> gr_reader_t) \<Rightarrow> 'a \<Rightarrow> bool" where
  "rt ra w rd v \<longleftrightarrow> (\<exists>d. emits ra w d \<and> reads rd d v)"

lemma rt_nil: "rt ra (ser_seq []) (rreturn v) v"
  unfolding rt_def by (rule exI [of _ "[]"], rule conjI [OF emits_nil reads_return])

lemma rt_step:
  assumes "emits ra (ser_seq [w]) d" and "reads m d v" and "rt ra (ser_seq ws) (f v) u"
  shows "rt ra (ser_seq (w # ws)) (rbind m f) u"
proof -
  from assms(3) obtain d2 where "emits ra (ser_seq ws) d2" "reads (f v) d2 u"
    unfolding rt_def by blast
  then show ?thesis
    unfolding rt_def using emits_Cons [OF assms(1)] reads_bind [OF assms(2)] by meson
qed

lemma rt_u8: "rt ra (ser_seq ws) (f v) u \<Longrightarrow>
    rt ra (ser_seq (gr_buf_write_u8 ra v # ws)) (rbind gr_read_u8 f) u"
  by (rule rt_step [OF emits_u8 reads_u8])

lemma rt_u16: "rt ra (ser_seq ws) (f v) u \<Longrightarrow>
    rt ra (ser_seq (gr_buf_write_u16 h ra v # ws)) (rbind (gr_read_u16 h) f) u"
  by (rule rt_step [OF emits_u16 reads_u16])

lemma rt_u32: "rt ra (ser_seq ws) (f v) u \<Longrightarrow>
    rt ra (ser_seq (gr_buf_write_u32 h ra v # ws)) (rbind (gr_read_u32 h) f) u"
  by (rule rt_step [OF emits_u32 reads_u32])

lemma rt_i64: "rt ra (ser_seq ws) (f v) u \<Longrightarrow>
    rt ra (ser_seq (gr_buf_write_i64 h ra v # ws)) (rbind (gr_read_i64 h) f) u"
  by (rule rt_step [OF emits_i64 reads_i64])

lemma rt_bytes: "length v = n \<Longrightarrow> rt ra (ser_seq ws) (f v) u \<Longrightarrow>
    rt ra (ser_seq (gr_buf_write ra v # ws)) (rbind (gr_read_bytes n) f) u"
  by (rule rt_step [OF emits_bytes reads_bytes])

lemma rt_str:
  assumes v: "wf_cstr n v" and n: "n \<le> 2 ^ 32" and ws: "rt ra (ser_seq ws) (f v) u"
  shows "rt ra (ser_seq (gr_buf_write_str h ra v n # ws)) (rbind (gr_read_str h n) f) u"
proof -
  have "c_string (take n v) = v" using v wf_cstr_c_string [OF v] by (simp add: wf_cstr_def)
  then have e: "emits ra (ser_seq [gr_buf_write_str h ra v n]) (str_wire v)"
    using emits_str [of ra h v n] by simp
  have r: "reads (gr_read_str h n) (str_wire v) v"
    using v n wf_cstr_c_string [OF v] by (intro reads_str) (auto simp: wf_cstr_def)
  show ?thesis by (rule rt_step [where f = f, OF e r ws])
qed

lemmas rt_rules = rt_nil rt_u8 rt_u16 rt_u32 rt_i64 rt_bytes rt_str

text \<open>Void writers in sequence, and a parser repeated \<open>n\<close> times (the \<open>for\<close> loops).\<close>

definition wthen :: "(gr_buf_t \<Rightarrow> gr_buf_t option) \<Rightarrow> (gr_buf_t \<Rightarrow> gr_buf_t option) \<Rightarrow>
    gr_buf_t \<Rightarrow> gr_buf_t option" where
  "wthen w1 w2 b = (case w1 b of None \<Rightarrow> None | Some b' \<Rightarrow> w2 b')"

fun ser_each :: "('a \<Rightarrow> gr_buf_t \<Rightarrow> gr_buf_t option) \<Rightarrow> 'a list \<Rightarrow> gr_buf_t \<Rightarrow> gr_buf_t option" where
  "ser_each wr [] b = Some b"
| "ser_each wr (v # vs) b = wthen (wr v) (ser_each wr vs) b"

fun de_each :: "nat \<Rightarrow> (gr_reader_t \<Rightarrow> 'a option \<times> gr_reader_t) \<Rightarrow>
    gr_reader_t \<Rightarrow> 'a list option \<times> gr_reader_t" where
  "de_each 0 rd r = rreturn [] r"
| "de_each (Suc n) rd r = rbind rd (\<lambda>v. rbind (de_each n rd) (\<lambda>vs. rreturn (v # vs))) r"

lemma rt_then:
  assumes "rt ra w1 m v" and "rt ra w2 (f v) u"
  shows "rt ra (wthen w1 w2) (rbind m f) u"
proof -
  from assms obtain d1 d2 where "emits ra w1 d1" "reads m d1 v" "emits ra w2 d2" "reads (f v) d2 u"
    unfolding rt_def by blast
  then show ?thesis unfolding rt_def
    using emits_then [of ra w1 d1 w2 d2 "wthen w1 w2"] reads_bind [of m d1 v f d2 u]
    by (auto simp: wthen_def)
qed

lemma rt_map:
  assumes "rt ra w m v" and "u = g v"
  shows "rt ra w (rbind m (\<lambda>v. rreturn (g v))) u"
proof -
  from assms(1) obtain d where d: "emits ra w d" "reads m d v" unfolding rt_def by blast
  have "reads (rbind m (\<lambda>v. rreturn (g v))) (d @ []) (g v)"
    by (rule reads_bind [OF d(2)]) (rule reads_return)
  with d(1) assms(2) show ?thesis unfolding rt_def by auto
qed

section \<open>The contract of a codec\<close>

locale wire_codec =
  fixes ra :: "u64 \<Rightarrow> bool"
    and wr :: "'a \<Rightarrow> gr_buf_t \<Rightarrow> gr_buf_t option"
    and rd :: "gr_reader_t \<Rightarrow> 'a option \<times> gr_reader_t"
    and ok :: "'a \<Rightarrow> bool"
    and img :: "'a \<Rightarrow> 'a"
  assumes codec: "ok v \<Longrightarrow> rt ra (wr v) rd (img v)"
    and cursor: "bounded rd"
begin

lemma each: "\<forall>v \<in> set vs. ok v \<Longrightarrow> rt ra (ser_each wr vs) (de_each (length vs) rd) (map img vs)"
proof (induction vs)
  case Nil
  have "ser_each wr [] = ser_seq []" "de_each 0 rd = rreturn []" by (rule ext, simp)+
  then show ?case by (simp only: rt_nil list.map list.size)
next
  case (Cons v vs)
  have w: "ser_each wr (v # vs) = wthen (wr v) (ser_each wr vs)" by (rule ext) simp
  have m: "de_each (length (v # vs)) rd =
      rbind rd (\<lambda>v. rbind (de_each (length vs) rd) (\<lambda>vs. rreturn (v # vs)))" by (rule ext) simp
  show ?case unfolding w m
    using Cons by (intro rt_then [OF codec]) (auto intro: rt_map)
qed

lemma each_bounded: "bounded (de_each n rd)"
proof (induction n)
  case 0
  have "de_each 0 rd = rreturn []" by (rule ext) simp
  then show ?case by (simp add: bounded_basic)
next
  case (Suc n)
  have "de_each (Suc n) rd = rbind rd (\<lambda>v. rbind (de_each n rd) (\<lambda>vs. rreturn (v # vs)))"
    by (rule ext) simp
  then show ?case using Suc by (simp add: bounded_bind bounded_basic cursor)
qed

end

section \<open>The structs\<close>

datatype gr_serialize_mode_t = GR_SERIALIZE_FULL | GR_SERIALIZE_OWNER

definition ser_peer :: "bool \<Rightarrow> (u64 \<Rightarrow> bool) \<Rightarrow> gr_peer_t \<Rightarrow> gr_buf_t \<Rightarrow> gr_buf_t option" where
  "ser_peer h ra p = ser_seq [
     gr_buf_write ra (p_peer_id p),
     gr_buf_write ra (p_kem_pk p),
     gr_buf_write ra (p_sign_key p),
     gr_buf_write_str h ra (p_ip p) GR_MAX_IP_LEN,
     gr_buf_write_u16 h ra (p_port p),
     gr_buf_write_u32 h ra (p_status p),
     gr_buf_write_u32 h ra (p_role_id p),
     gr_buf_write_i64 h ra (p_joined_at p),
     gr_buf_write_i64 h ra (p_removed_at p),
     gr_buf_write_i64 h ra (p_last_seen p),
     gr_buf_write_str h ra (p_removed_reason p) GR_MAX_NAME_LEN,
     gr_buf_write ra (p_removed_by p)]"

definition de_peer :: "bool \<Rightarrow> gr_reader_t \<Rightarrow> gr_peer_t option \<times> gr_reader_t" where
  "de_peer h =
     rbind (gr_read_bytes GR_PEER_ID_LEN) (\<lambda>peer_id.
     rbind (gr_read_bytes GR_KEM_PUBLIC_KEY_LEN) (\<lambda>kem_pk.
     rbind (gr_read_bytes GR_PUBLIC_KEY_LEN) (\<lambda>sign_key.
     rbind (gr_read_str h GR_MAX_IP_LEN) (\<lambda>ip.
     rbind (gr_read_u16 h) (\<lambda>port.
     rbind (gr_read_u32 h) (\<lambda>status.
     rbind (gr_read_u32 h) (\<lambda>role_id.
     rbind (gr_read_i64 h) (\<lambda>joined_at.
     rbind (gr_read_i64 h) (\<lambda>removed_at.
     rbind (gr_read_i64 h) (\<lambda>last_seen.
     rbind (gr_read_str h GR_MAX_NAME_LEN) (\<lambda>removed_reason.
     rbind (gr_read_bytes GR_PEER_ID_LEN) (\<lambda>removed_by.
     rreturn \<lparr>p_peer_id = peer_id, p_kem_pk = kem_pk, p_sign_key = sign_key, p_ip = ip,
       p_port = port, p_status = status, p_role_id = role_id, p_joined_at = joined_at,
       p_removed_at = removed_at, p_last_seen = last_seen, p_removed_reason = removed_reason,
       p_removed_by = removed_by\<rparr>))))))))))))"

definition ser_role :: "bool \<Rightarrow> (u64 \<Rightarrow> bool) \<Rightarrow> gr_role_t \<Rightarrow> gr_buf_t \<Rightarrow> gr_buf_t option" where
  "ser_role h ra rl = ser_seq [
     gr_buf_write_u32 h ra (r_role_id rl),
     gr_buf_write_str h ra (r_name rl) GR_MAX_NAME_LEN,
     gr_buf_write_u32 h ra (r_permissions rl),
     gr_buf_write ra (r_sign_key rl),
     gr_buf_write_i64 h ra (r_created_at rl),
     gr_buf_write_i64 h ra (r_modified_at rl)]"

definition de_role :: "bool \<Rightarrow> u32 \<Rightarrow> gr_reader_t \<Rightarrow> gr_role_t option \<times> gr_reader_t" where
  "de_role h wire_ver =
     rbind (gr_read_u32 h) (\<lambda>role_id.
     rbind (gr_read_str h GR_MAX_NAME_LEN) (\<lambda>name.
     rbind (gr_read_u32 h) (\<lambda>permissions.
     rbind (gr_read_bytes GR_PUBLIC_KEY_LEN) (\<lambda>sign_key.
     rbind (gr_read_i64 h) (\<lambda>created_at.
     rbind (if 2 \<le> wire_ver then gr_read_i64 h else rreturn created_at) (\<lambda>modified_at.
     rreturn \<lparr>r_role_id = role_id, r_name = name, r_permissions = permissions,
       r_sign_key = sign_key, r_created_at = created_at, r_modified_at = modified_at\<rparr>))))))"

text \<open>An optional blob: its length (0 when absent), then its bytes.\<close>

definition blob_len :: "bytes option \<Rightarrow> nat" where
  "blob_len b = (case b of None \<Rightarrow> 0 | Some d \<Rightarrow> length d)"

definition ser_blob :: "bool \<Rightarrow> (u64 \<Rightarrow> bool) \<Rightarrow> bytes option \<Rightarrow>
    (gr_buf_t \<Rightarrow> (int \<times> gr_buf_t) option) list" where
  "ser_blob h ra b = gr_buf_write_u32 h ra (of_nat (blob_len b))
     # (if 0 < blob_len b then [gr_buf_write ra (the b)] else [])"

definition ser_webapp :: "bool \<Rightarrow> (u64 \<Rightarrow> bool) \<Rightarrow> gr_webapp_t \<Rightarrow> gr_buf_t \<Rightarrow> gr_buf_t option" where
  "ser_webapp h ra w = ser_seq ([
     gr_buf_write ra (w_hash w),
     gr_buf_write_str h ra (w_name w) GR_MAX_NAME_LEN,
     gr_buf_write_u32 h ra (w_version w),
     gr_buf_write_i64 h ra (w_added_at w),
     gr_buf_write ra (w_added_by w)]
     @ ser_blob h ra (w_perm_data w) @ ser_blob h ra (w_role_mask w))"

text \<open>
  Reading it: the length is checked against the limit, then the block is allocated
  (\<open>malloc_ok\<close> answers for \<open>malloc\<close>) and filled.
\<close>

definition de_blob :: "(nat \<Rightarrow> bool) \<Rightarrow> bool \<Rightarrow> nat \<Rightarrow> gr_reader_t \<Rightarrow> bytes option option \<times> gr_reader_t" where
  "de_blob malloc_ok h limit =
     rbind (gr_read_u32 h) (\<lambda>len.
     if limit < unat len then rfail
     else if 0 < unat len then
       (if malloc_ok (unat len)
        then rbind (gr_read_bytes (unat len)) (\<lambda>d. rreturn (Some d))
        else rfail)
     else rreturn None)"

definition de_webapp :: "(nat \<Rightarrow> bool) \<Rightarrow> (nat \<Rightarrow> bool) \<Rightarrow> bool \<Rightarrow> u32 \<Rightarrow> gr_reader_t \<Rightarrow> gr_webapp_t option \<times> gr_reader_t" where
  "de_webapp malloc_ok malloc_ok2 h wire_ver =
     rbind (gr_read_bytes GR_SERVICE_HASH_LEN) (\<lambda>hash.
     rbind (gr_read_str h GR_MAX_NAME_LEN) (\<lambda>name.
     rbind (gr_read_u32 h) (\<lambda>version.
     rbind (gr_read_i64 h) (\<lambda>added_at.
     rbind (gr_read_bytes GR_PEER_ID_LEN) (\<lambda>added_by.
     rbind (if 4 \<le> wire_ver then de_blob malloc_ok h GR_WEBAPP_PERM_DATA_MAX else rreturn None) (\<lambda>perm_data.
     rbind (if 4 \<le> wire_ver then de_blob malloc_ok2 h GR_WEBAPP_ROLE_MASK_MAX else rreturn None) (\<lambda>role_mask.
     rreturn \<lparr>w_hash = hash, w_name = name, w_version = version, w_added_at = added_at,
       w_added_by = added_by, w_perm_data = perm_data, w_role_mask = role_mask\<rparr>)))))))"

definition ser_server :: "bool \<Rightarrow> (u64 \<Rightarrow> bool) \<Rightarrow> gr_serialize_mode_t \<Rightarrow> gr_server_t \<Rightarrow>
    gr_buf_t \<Rightarrow> gr_buf_t option" where
  "ser_server h ra mode s = ser_seq [
     gr_buf_write ra (s_id_hash s),
     gr_buf_write_u32 h ra (s_type s),
     gr_buf_write_str h ra (s_ip s) GR_MAX_IP_LEN,
     gr_buf_write_u16 h ra (s_port s),
     gr_buf_write ra (s_sign_key s),
     gr_buf_write ra (s_service_hash s),
     gr_buf_write ra (s_content_kem_pk s),
     if mode = GR_SERIALIZE_OWNER then gr_buf_write ra (s_content_kem_sk s)
     else gr_buf_write ra (replicate GR_KEM_SECRET_KEY_LEN 0)]"

definition de_server :: "bool \<Rightarrow> gr_reader_t \<Rightarrow> gr_server_t option \<times> gr_reader_t" where
  "de_server h =
     rbind (gr_read_bytes GR_HASH_LEN) (\<lambda>id_hash.
     rbind (gr_read_u32 h) (\<lambda>t.
     rbind (gr_read_str h GR_MAX_IP_LEN) (\<lambda>ip.
     rbind (gr_read_u16 h) (\<lambda>port.
     rbind (gr_read_bytes GR_PUBLIC_KEY_LEN) (\<lambda>sign_key.
     rbind (gr_read_bytes GR_SERVICE_HASH_LEN) (\<lambda>service_hash.
     rbind (gr_read_bytes GR_KEM_PUBLIC_KEY_LEN) (\<lambda>kem_pk.
     rbind (gr_read_bytes GR_KEM_SECRET_KEY_LEN) (\<lambda>kem_sk.
     rreturn \<lparr>s_type = t, s_ip = ip, s_port = port, s_id_hash = id_hash, s_sign_key = sign_key,
       s_service_hash = service_hash, s_content_kem_pk = kem_pk, s_content_kem_sk = kem_sk\<rparr>))))))))"

definition ser_epoch :: "bool \<Rightarrow> (u64 \<Rightarrow> bool) \<Rightarrow> gr_epoch_t \<Rightarrow> gr_buf_t \<Rightarrow> gr_buf_t option" where
  "ser_epoch h ra e = ser_seq [
     gr_buf_write_u32 h ra (e_epoch_id e),
     gr_buf_write ra (e_epoch_key e),
     gr_buf_write_i64 h ra (e_created_at e),
     gr_buf_write_i64 h ra (e_expired_at e),
     gr_buf_write ra (e_created_by e)]"

definition de_epoch :: "bool \<Rightarrow> gr_reader_t \<Rightarrow> gr_epoch_t option \<times> gr_reader_t" where
  "de_epoch h =
     rbind (gr_read_u32 h) (\<lambda>epoch_id.
     rbind (gr_read_bytes GR_EPOCH_KEY_LEN) (\<lambda>epoch_key.
     rbind (gr_read_i64 h) (\<lambda>created_at.
     rbind (gr_read_i64 h) (\<lambda>expired_at.
     rbind (gr_read_bytes GR_PEER_ID_LEN) (\<lambda>created_by.
     rreturn \<lparr>e_epoch_id = epoch_id, e_epoch_key = epoch_key, e_created_at = created_at,
       e_expired_at = expired_at, e_created_by = created_by\<rparr>)))))"

definition ser_audit :: "bool \<Rightarrow> (u64 \<Rightarrow> bool) \<Rightarrow> gr_audit_entry_t \<Rightarrow> gr_buf_t \<Rightarrow> gr_buf_t option" where
  "ser_audit h ra a = ser_seq [
     gr_buf_write ra (a_entry_hash a),
     gr_buf_write_i64 h ra (a_timestamp a),
     gr_buf_write_i64 h ra (a_timestamp_ns a),
     gr_buf_write_u32 h ra (a_change_type a),
     gr_buf_write ra (a_actor_id a),
     gr_buf_write ra (a_target_id a),
     gr_buf_write ra (a_signature a),
     gr_buf_write_u32 h ra (a_registrar_version a),
     gr_buf_write_str h ra (a_detail a) GR_DETAIL_LEN,
     gr_buf_write ra (a_prev_hash a)]"

definition de_audit :: "bool \<Rightarrow> u32 \<Rightarrow> gr_reader_t \<Rightarrow> gr_audit_entry_t option \<times> gr_reader_t" where
  "de_audit h wire_ver =
     rbind (gr_read_bytes GR_HASH_LEN) (\<lambda>entry_hash.
     rbind (gr_read_i64 h) (\<lambda>timestamp.
     rbind (if 2 \<le> wire_ver then gr_read_i64 h else rreturn (timestamp * 1000000)) (\<lambda>timestamp_ns.
     rbind (gr_read_u32 h) (\<lambda>ct.
     rbind (gr_read_bytes GR_PEER_ID_LEN) (\<lambda>actor_id.
     rbind (gr_read_bytes GR_PEER_ID_LEN) (\<lambda>target_id.
     rbind (gr_read_bytes GR_SIGN_LEN) (\<lambda>sig.
     rbind (gr_read_u32 h) (\<lambda>registrar_version.
     rbind (gr_read_str h GR_DETAIL_LEN) (\<lambda>detail.
     rbind (gr_read_bytes GR_HASH_LEN) (\<lambda>prev_hash.
     rreturn \<lparr>a_entry_hash = entry_hash, a_timestamp = timestamp, a_timestamp_ns = timestamp_ns,
       a_change_type = ct, a_actor_id = actor_id, a_target_id = target_id, a_signature = sig,
       a_registrar_version = registrar_version, a_detail = detail, a_prev_hash = prev_hash\<rparr>))))))))))"

definition ser_header :: "bool \<Rightarrow> (u64 \<Rightarrow> bool) \<Rightarrow> gr_header_t \<Rightarrow> gr_buf_t \<Rightarrow> gr_buf_t option" where
  "ser_header h ra hdr = ser_seq [
     gr_buf_write ra (h_group_id hdr),
     gr_buf_write_u32 h ra (h_group_type hdr),
     gr_buf_write_str h ra (h_group_name hdr) GR_MAX_NAME_LEN,
     gr_buf_write_u32 h ra (h_version hdr),
     gr_buf_write_i64 h ra (h_created_at hdr),
     gr_buf_write_i64 h ra (h_updated_at hdr),
     gr_buf_write_u32 h ra (h_epoch_id hdr),
     gr_buf_write_i64 h ra (message_retention_ms (h_retention hdr)),
     gr_buf_write_i64 h ra (file_retention_ms (h_retention hdr)),
     gr_buf_write_i64 h ra (registrar_max_bytes (h_retention hdr)),
     gr_buf_write ra (h_owner_id hdr),
     gr_buf_write ra (h_owner_sign_key hdr),
     gr_buf_write ra (h_signer_id hdr),
     gr_buf_write ra (h_signer_sign_key hdr),
     gr_buf_write ra (h_signature hdr),
     gr_buf_write ra (h_hash hdr)]"

definition de_header :: "bool \<Rightarrow> gr_reader_t \<Rightarrow> gr_header_t option \<times> gr_reader_t" where
  "de_header h =
     rbind (gr_read_bytes GR_HASH_LEN) (\<lambda>group_id.
     rbind (gr_read_u32 h) (\<lambda>gt.
     rbind (gr_read_str h GR_MAX_NAME_LEN) (\<lambda>group_name.
     rbind (gr_read_u32 h) (\<lambda>version.
     rbind (gr_read_i64 h) (\<lambda>created_at.
     rbind (gr_read_i64 h) (\<lambda>updated_at.
     rbind (gr_read_u32 h) (\<lambda>epoch_id.
     rbind (gr_read_i64 h) (\<lambda>message_ms.
     rbind (gr_read_i64 h) (\<lambda>file_ms.
     rbind (gr_read_i64 h) (\<lambda>max_bytes.
     rbind (gr_read_bytes GR_PEER_ID_LEN) (\<lambda>owner_id.
     rbind (gr_read_bytes GR_PUBLIC_KEY_LEN) (\<lambda>owner_sign_key.
     rbind (gr_read_bytes GR_PEER_ID_LEN) (\<lambda>signer_id.
     rbind (gr_read_bytes GR_PUBLIC_KEY_LEN) (\<lambda>signer_sign_key.
     rbind (gr_read_bytes GR_SIGN_LEN) (\<lambda>sig.
     rbind (gr_read_bytes GR_HASH_LEN) (\<lambda>hash.
     rreturn \<lparr>h_group_id = group_id, h_group_type = gt, h_group_name = group_name,
       h_version = version, h_created_at = created_at, h_updated_at = updated_at,
       h_epoch_id = epoch_id,
       h_retention = \<lparr>message_retention_ms = message_ms, file_retention_ms = file_ms,
         registrar_max_bytes = max_bytes\<rparr>,
       h_owner_id = owner_id, h_owner_sign_key = owner_sign_key, h_signer_id = signer_id,
       h_signer_sign_key = signer_sign_key, h_signature = sig, h_hash = hash\<rparr>))))))))))))))))"

section \<open>Round trips\<close>

text \<open>Outside owner mode the secret content key of a server leaves as zeros.\<close>

definition server_image :: "gr_serialize_mode_t \<Rightarrow> gr_server_t \<Rightarrow> gr_server_t" where
  "server_image mode s = (if mode = GR_SERIALIZE_OWNER then s
     else s\<lparr>s_content_kem_sk := replicate GR_KEM_SECRET_KEY_LEN 0\<rparr>)"

lemma rt_peer: "wf_peer p \<Longrightarrow> rt ra (ser_peer h ra p) (de_peer h) p"
  unfolding ser_peer_def de_peer_def wf_peer_def
  by (cases p) (simp, intro rt_rules; simp)

lemma rt_role: "wf_role r \<Longrightarrow> rt ra (ser_role h ra r) (de_role h 4) r"
  unfolding ser_role_def de_role_def wf_role_def
  by (cases r) (simp, intro rt_rules; simp)

lemma rt_server: "wf_server s \<Longrightarrow> rt ra (ser_server h ra mode s) (de_server h) (server_image mode s)"
  unfolding ser_server_def de_server_def wf_server_def server_image_def
  by (cases s; cases mode) (simp, intro rt_rules; simp)+

lemma rt_epoch: "wf_epoch e \<Longrightarrow> rt ra (ser_epoch h ra e) (de_epoch h) e"
  unfolding ser_epoch_def de_epoch_def wf_epoch_def
  by (cases e) (simp, intro rt_rules; simp)

lemma rt_audit: "wf_audit a \<Longrightarrow> rt ra (ser_audit h ra a) (de_audit h 4) a"
  unfolding ser_audit_def de_audit_def wf_audit_def
  by (cases a) (simp, intro rt_rules; simp)

lemma rt_header: "wf_header hdr \<Longrightarrow> rt ra (ser_header h ra hdr) (de_header h) hdr"
  unfolding ser_header_def de_header_def wf_header_def
  by (cases hdr; cases "h_retention hdr") (simp, intro rt_rules; simp)

text \<open>The optional blobs need an allocation each; the parser of a blob is the inverse when it succeeds.\<close>

lemma rt_blob:
  assumes ok: "wf_blob_opt limit b" and limit: "limit < 2 ^ 32" and malloc: "\<And>n. malloc_ok n"
    and ws: "rt ra (ser_seq ws) (f b) u"
  shows "rt ra (ser_seq (ser_blob h ra b @ ws)) (rbind (de_blob malloc_ok h limit) f) u"
proof -
  have e: "emits ra (ser_seq (ser_blob h ra b))
      (le_bytes 4 (of_nat (blob_len b) :: u32) @ (case b of None \<Rightarrow> [] | Some d \<Rightarrow> d))"
    using ok by (auto simp: ser_blob_def blob_len_def wf_blob_opt_def split: option.splits
        intro!: emits_Cons [OF emits_u32] emits_bytes emits_u32)
  have len: "unat (of_nat (blob_len b) :: u32) = blob_len b" "blob_len b \<le> limit"
    using ok limit by (auto simp: blob_len_def wf_blob_opt_def unat_of_nat split: option.splits)
  have "reads (if 0 < blob_len b then rbind (gr_read_bytes (blob_len b)) (\<lambda>d. rreturn (Some d))
      else rreturn None) (case b of None \<Rightarrow> [] | Some d \<Rightarrow> d) b"
  proof (cases b)
    case None
    then show ?thesis by (simp add: blob_len_def reads_return)
  next
    case (Some d)
    have "reads (rbind (gr_read_bytes (length d)) (\<lambda>d. rreturn (Some d))) (d @ []) (Some d)"
      by (rule reads_bind [OF reads_bytes [OF refl]]) (rule reads_return)
    then show ?thesis using Some ok by (simp add: blob_len_def wf_blob_opt_def)
  qed
  then have r: "reads (de_blob malloc_ok h limit)
      (le_bytes 4 (of_nat (blob_len b) :: u32) @ (case b of None \<Rightarrow> [] | Some d \<Rightarrow> d)) b"
    unfolding de_blob_def using len malloc by (intro reads_bind [OF reads_u32]) (cases "0 < blob_len b"; simp)
  have app: "ser_seq (xs @ ys) b = (case ser_seq xs b of None \<Rightarrow> None | Some b' \<Rightarrow> ser_seq ys b')"
    for xs ys b by (induction xs arbitrary: b) (auto split: option.splits)
  obtain d2 where "emits ra (ser_seq ws) d2" "reads (f b) d2 u" using ws unfolding rt_def by blast
  then show ?thesis unfolding rt_def
    using emits_then [OF e, of "ser_seq ws" d2 "ser_seq (ser_blob h ra b @ ws)"] app
      reads_bind [OF r, of f d2 u] by auto
qed

lemma rt_webapp:
  assumes "wf_webapp w" and "\<And>n. malloc_ok n" and "\<And>n. malloc_ok2 n"
  shows "rt ra (ser_webapp h ra w) (de_webapp malloc_ok malloc_ok2 h 4) w"
proof -
  have "rt ra (ser_seq (ser_blob h ra (w_role_mask w) @ []))
     (rbind (de_blob malloc_ok2 h GR_WEBAPP_ROLE_MASK_MAX) (\<lambda>role_mask. rreturn (w\<lparr>w_role_mask := role_mask\<rparr>))) w"
    using assms by (intro rt_blob) (simp_all add: wf_webapp_def rt_nil)
  then show ?thesis
    unfolding ser_webapp_def de_webapp_def using assms
    by (cases w) (simp add: wf_webapp_def, intro rt_rules rt_blob [where ws = "ser_blob _ _ _"]; simp)
qed

section \<open>The pairs meet the contract\<close>

lemmas bounded_rules = bounded_bind bounded_basic bounded_str

lemma bounded_structs:
  "bounded (de_peer h)" "bounded (de_role h ver)" "bounded (de_server h)"
  "bounded (de_epoch h)" "bounded (de_audit h ver)" "bounded (de_header h)"
  unfolding de_peer_def de_role_def de_server_def de_epoch_def de_audit_def de_header_def
  by (auto intro!: bounded_rules)

lemma bounded_blob: "bounded (de_blob malloc_ok h limit)"
  unfolding de_blob_def by (auto intro!: bounded_rules)

lemma bounded_webapp: "bounded (de_webapp malloc_ok malloc_ok2 h ver)"
  unfolding de_webapp_def by (auto intro!: bounded_rules bounded_blob)

interpretation peer_codec: wire_codec ra "ser_peer h ra" "de_peer h" wf_peer "\<lambda>p. p" for ra h
  by unfold_locales (simp_all add: rt_peer bounded_structs)

interpretation role_codec: wire_codec ra "ser_role h ra" "de_role h 4" wf_role "\<lambda>r. r" for ra h
  by unfold_locales (simp_all add: rt_role bounded_structs)

interpretation webapp_codec: wire_codec ra "ser_webapp h ra" "de_webapp (\<lambda>n. True) (\<lambda>n. True) h 4" wf_webapp "\<lambda>w. w"
  for ra h
  by unfold_locales (simp_all add: rt_webapp bounded_webapp)

interpretation server_codec: wire_codec ra "ser_server h ra mode" "de_server h" wf_server
  "server_image mode" for ra h mode
  by unfold_locales (simp_all add: rt_server bounded_structs)

interpretation epoch_codec: wire_codec ra "ser_epoch h ra" "de_epoch h" wf_epoch "\<lambda>e. e" for ra h
  by unfold_locales (simp_all add: rt_epoch bounded_structs)

interpretation audit_codec: wire_codec ra "ser_audit h ra" "de_audit h 4" wf_audit "\<lambda>a. a" for ra h
  by unfold_locales (simp_all add: rt_audit bounded_structs)

end
