(* ===== verification/Invite.thy ===== *)
theory Invite imports Peer Webapp_Server Wire
begin

text \<open>
  Invite tickets: \<open>src/src/group_registrar/invite.c\<close>.  A ticket is written by \<open>gr_invite_create\<close>,
  signed by the inviter, and read back by \<open>gr_invite_parse\<close>; the token in it is redeemed once.
\<close>

section \<open>Choosing bootstrap peers\<close>

definition list_swap :: "'a list \<Rightarrow> nat \<Rightarrow> nat \<Rightarrow> 'a list" where
  "list_swap xs a b = xs[a := xs ! b, b := xs ! a]"

text \<open>The shuffle; the result of \<open>yumi_randombytes\<close> is not looked at.\<close>

fun shuffle :: "yumi_env \<Rightarrow> nat \<Rightarrow> 'a list \<Rightarrow> gr_registrar \<Rightarrow> 'a list \<times> gr_registrar" where
  "shuffle e i xs reg =
     (if i \<le> 1 then (xs, reg)
      else let bs = (case randombytes e (reg_calls reg) 4 of
                       None \<Rightarrow> uninit e (reg_calls reg) 4 | Some b \<Rightarrow> b);
               j = unat (mem_word (host_le e) bs :: u32) mod i
           in shuffle e (i - 1) (list_swap xs (i - 1) j) (tick reg))"

declare shuffle.simps [simp del]

definition bootstrap_ok :: "gr_registrar \<Rightarrow> bytes \<Rightarrow> gr_peer_t \<Rightarrow> bool" where
  "bootstrap_ok reg inviter_id p \<longleftrightarrow>
     p_peer_id p \<noteq> inviter_id \<and> \<not> gr_is_owner reg (p_peer_id p) \<and> p_ip p \<noteq> []"

definition bootstrap_of :: "gr_peer_t \<Rightarrow> gr_bootstrap_peer_t" where
  "bootstrap_of p = \<lparr>bp_peer_id = p_peer_id p, bp_ip = take (GR_MAX_IP_LEN - 1) (p_ip p),
     bp_port = p_port p, bp_sign_key = p_sign_key p\<rparr>"

definition select_bootstrap_peers :: "yumi_env \<Rightarrow> bytes \<Rightarrow> nat \<Rightarrow> gr_registrar \<Rightarrow>
    (gr_error_t + gr_bootstrap_peer_t list) \<times> gr_registrar" where
  "select_bootstrap_peers e inviter_id max_count reg =
     q_bind (gr_peer_count e GR_PEER_ACTIVE reg) (\<lambda>n r1.
       if n = 0 then (Inr [], r1)
       else if \<not> malloc_ok e (reg_calls r1) then (Inl GR_ERR_OUT_OF_MEMORY, tick r1)
       else q_bind (gr_peer_list e n GR_PEER_ACTIVE (tick r1)) (\<lambda>rows r2.
         if \<not> malloc_ok e (reg_calls r2) then (Inl GR_ERR_OUT_OF_MEMORY, tick r2)
         else let candidates = filter (bootstrap_ok r2 inviter_id) rows in
           case shuffle e (length candidates) candidates (tick r2) of
             (shuffled, r3) \<Rightarrow> (Inr (map bootstrap_of (take max_count shuffled)), r3)))"

section \<open>The ticket on the wire\<close>

definition ser_bootstrap :: "bool \<Rightarrow> (u64 \<Rightarrow> bool) \<Rightarrow> gr_bootstrap_peer_t \<Rightarrow> gr_buf_t \<Rightarrow> gr_buf_t option" where
  "ser_bootstrap h ra b = ser_seq
     [gr_buf_write ra (bp_peer_id b), gr_buf_write_str h ra (bp_ip b) GR_MAX_IP_LEN,
      gr_buf_write_u16 h ra (bp_port b), gr_buf_write ra (bp_sign_key b)]"

definition ser_signaling :: "bool \<Rightarrow> (u64 \<Rightarrow> bool) \<Rightarrow> gr_server_t \<Rightarrow> gr_buf_t \<Rightarrow> gr_buf_t option" where
  "ser_signaling h ra s = ser_seq
     [gr_buf_write ra (s_id_hash s), gr_buf_write_str h ra (s_ip s) GR_MAX_IP_LEN,
      gr_buf_write_u16 h ra (s_port s), gr_buf_write ra (s_sign_key s)]"

definition ser_ticket_head :: "bool \<Rightarrow> (u64 \<Rightarrow> bool) \<Rightarrow> gr_header_t \<Rightarrow> bytes \<Rightarrow> gr_identity_t \<Rightarrow> i64 \<Rightarrow>
    gr_buf_t \<Rightarrow> gr_buf_t option" where
  "ser_ticket_head h ra hdr token inviter expires = ser_seq
     [gr_buf_write ra (cstr ''GRINV''), gr_buf_write_u32 h ra GR_INVITE_VERSION,
      gr_buf_write ra (h_group_id hdr), gr_buf_write_str h ra (h_group_name hdr) GR_MAX_NAME_LEN,
      gr_buf_write_u32 h ra (h_group_type hdr), gr_buf_write ra (h_owner_sign_key hdr),
      gr_buf_write ra (h_hash hdr), gr_buf_write ra token, gr_buf_write ra (id_public_key inviter),
      gr_buf_write ra (id_kem_pk inviter), gr_buf_write_i64 h ra expires]"

definition ser_ticket :: "bool \<Rightarrow> (u64 \<Rightarrow> bool) \<Rightarrow> gr_header_t \<Rightarrow> bytes \<Rightarrow> gr_identity_t \<Rightarrow> i64 \<Rightarrow>
    gr_bootstrap_peer_t list \<Rightarrow> u32 \<Rightarrow> gr_server_t list \<Rightarrow> gr_buf_t \<Rightarrow> gr_buf_t option" where
  "ser_ticket h ra hdr token inviter expires boot sig_count servers =
     wthen (ser_ticket_head h ra hdr token inviter expires)
    (wthen (ser_seq [gr_buf_write_u32 h ra (of_nat (length boot))])
    (wthen (ser_each (ser_bootstrap h ra) boot)
    (wthen (ser_seq [gr_buf_write_u32 h ra sig_count])
           (ser_each (ser_signaling h ra) servers))))"

section \<open>Creating\<close>

definition zero_server :: gr_server_t where
  "zero_server = \<lparr>s_type = 0, s_ip = [], s_port = 0, s_id_hash = zero_hash,
     s_sign_key = replicate GR_PUBLIC_KEY_LEN 0, s_service_hash = zero_hash,
     s_content_kem_pk = replicate GR_KEM_PUBLIC_KEY_LEN 0,
     s_content_kem_sk = replicate GR_KEM_SECRET_KEY_LEN 0\<rparr>"

text \<open>
  The signaling servers.  The results of \<open>gr_server_count\<close> and \<open>gr_server_list\<close> are not looked at,
  so after a failure the counts are what the stack held; a count beyond the zeroed array is cut to
  it here, where the code would read past its end.
\<close>

definition invite_servers :: "yumi_env \<Rightarrow> gr_registrar \<Rightarrow> (u32 \<times> gr_server_t list) \<times> gr_registrar" where
  "invite_servers e reg =
     (case gr_server_count e GR_SERVER_SIGNALING reg of (cres, r1) \<Rightarrow>
      let sig_count = (case cres of Inl _ \<Rightarrow> mem_word (host_le e) (uninit e (reg_calls reg) 4) | Inr n \<Rightarrow> n) in
      if sig_count = 0 then ((sig_count, []), r1)
      else if \<not> malloc_ok e (reg_calls r1) then ((sig_count, []), tick r1)
      else case gr_server_list e GR_SERVER_SIGNALING sig_count (tick r1) of
             (Inr rows, r2) \<Rightarrow> ((sig_count, rows), r2)
           | (Inl _, r2) \<Rightarrow>
               ((sig_count, replicate (min (unat (mem_word (host_le e) (uninit e (reg_calls r1) 4) :: u32))
                                          (unat sig_count)) zero_server), r2))"

text \<open>
  Building the blob.  A serializer that does not return does not occur for a fresh buffer; that
  branch stands for it.  The error flag is looked at before signing, not after the signature is
  appended.
\<close>

definition invite_blob :: "yumi_env \<Rightarrow> gr_identity_t \<Rightarrow> i64 \<Rightarrow> bytes \<Rightarrow> gr_bootstrap_peer_t list \<Rightarrow>
    gr_registrar \<Rightarrow> (gr_error_t + bytes) \<times> gr_registrar" where
  "invite_blob e inviter expires token boot reg =
     (case gr_buf_init (malloc_ok e (reg_calls reg)) 2048 of
        None \<Rightarrow> (Inl GR_ERR_OUT_OF_MEMORY, tick reg)
      | Some buf0 \<Rightarrow>
          (case invite_servers e (tick reg) of ((sig_count, servers), r1) \<Rightarrow>
             case ser_ticket (host_le e) (realloc_ok e) (reg_header r1) token inviter expires boot
                    sig_count servers buf0 of
               None \<Rightarrow> (Inl GR_ERR_OUT_OF_MEMORY, r1)
             | Some buf \<Rightarrow>
                 if buf_error buf then (Inl GR_ERR_OUT_OF_MEMORY, r1)
                 else case mldsa_sign e (reg_calls r1) (id_secret_key inviter) (buf_bytes buf) of
                        None \<Rightarrow> (Inl GR_ERR_CRYPTO, tick r1)
                      | Some sig \<Rightarrow>
                          (case gr_buf_write (realloc_ok e) sig buf of
                             None \<Rightarrow> (Inl GR_ERR_OUT_OF_MEMORY, tick r1)
                           | Some (_, out) \<Rightarrow> (Inr (buf_bytes out), tick r1))))"

definition invite_row :: "bytes \<Rightarrow> i64 \<Rightarrow> i64 \<Rightarrow> gr_identity_t \<Rightarrow> gr_invite_info_t" where
  "invite_row token now expires inviter =
     \<lparr>i_verification_token = token, i_created_at = now, i_expires_at = expires,
      i_created_by = id_peer_id inviter, i_invalidated = False, i_used = False, i_used_by = zero_id\<rparr>"

definition invite_create_body :: "yumi_env \<Rightarrow> gr_identity_t \<Rightarrow> i64 \<Rightarrow> i64 \<Rightarrow> bytes \<Rightarrow> gr_registrar \<Rightarrow>
    (gr_error_t + bytes) \<times> gr_registrar" where
  "invite_create_body e inviter expires now token reg =
     (case db_exec e (ps_invite_insert (invite_row token now expires inviter)) reg of
        (None, r1) \<Rightarrow> (Inl GR_ERR_DB, r1)
      | (Some _, r1) \<Rightarrow>
          q_bind (select_bootstrap_peers e (id_peer_id inviter) GR_INVITE_MAX_BOOTSTRAP r1) (\<lambda>boot r2.
          q_bind (invite_blob e inviter expires token boot r2) (\<lambda>blob r3.
            case gr_audit_append e GR_CHANGE_INVITE_CREATED inviter None (Some (cstr ''invite created'')) r3 of
              (err, r4) \<Rightarrow> (if err = GR_OK then Inr blob else Inl err, r4))))"

text \<open>The result is the blob and the token.\<close>

definition gr_invite_create :: "yumi_env \<Rightarrow> gr_identity_t option \<Rightarrow> i64 \<Rightarrow> gr_registrar \<Rightarrow>
    (gr_error_t + bytes \<times> bytes) \<times> gr_registrar" where
  "gr_invite_create e inviter expires reg =
     (case inviter of
        None \<Rightarrow> (Inl GR_ERR_INVALID_PARAM, reg)
      | Some s \<Rightarrow>
          q_then (governed e s GR_PERM_INVITE_MEMBER reg) (\<lambda>r1.
            case randombytes e (reg_calls r1) GR_HASH_LEN of
              None \<Rightarrow> (Inl GR_ERR_CRYPTO, tick r1)
            | Some token \<Rightarrow>
                (let r2 = tick r1 in
                 case with_txn_val e (invite_create_body e s expires (now_of e r2) token) (tick r2) of
                   (Inl err, r3) \<Rightarrow> (Inl err, r3) | (Inr blob, r3) \<Rightarrow> (Inr (blob, token), r3))))"

section \<open>Parsing\<close>

definition de_bootstrap :: "bool \<Rightarrow> gr_reader_t \<Rightarrow> gr_bootstrap_peer_t option \<times> gr_reader_t" where
  "de_bootstrap h =
     rbind (gr_read_bytes GR_PEER_ID_LEN) (\<lambda>pid.
     rbind (gr_read_str h GR_MAX_IP_LEN) (\<lambda>ip.
     rbind (gr_read_u16 h) (\<lambda>port.
     rbind (gr_read_bytes GR_PUBLIC_KEY_LEN) (\<lambda>pk.
       rreturn \<lparr>bp_peer_id = pid, bp_ip = ip, bp_port = port, bp_sign_key = pk\<rparr>))))"

definition de_signaling :: "bool \<Rightarrow> gr_reader_t \<Rightarrow> unit option \<times> gr_reader_t" where
  "de_signaling h =
     rbind (gr_read_bytes GR_HASH_LEN) (\<lambda>_.
     rbind (gr_read_str h GR_MAX_IP_LEN) (\<lambda>_.
     rbind (gr_read_u16 h) (\<lambda>_.
     rbind (gr_read_bytes GR_PUBLIC_KEY_LEN) (\<lambda>_. rreturn ()))))"

text \<open>Up to the expiry; the lists are still empty.\<close>

definition de_ticket_head :: "bool \<Rightarrow> gr_reader_t \<Rightarrow> gr_invite_ticket_t option \<times> gr_reader_t" where
  "de_ticket_head h =
     rbind (gr_read_bytes 5) (\<lambda>magic.
     if magic \<noteq> cstr ''GRINV'' then rfail else
     rbind (gr_read_u32 h) (\<lambda>version.
     if GR_INVITE_VERSION < version then rfail else
     rbind (gr_read_bytes GR_HASH_LEN) (\<lambda>gid.
     rbind (gr_read_str h GR_MAX_NAME_LEN) (\<lambda>name.
     rbind (gr_read_u32 h) (\<lambda>gt.
     rbind (gr_read_bytes GR_PUBLIC_KEY_LEN) (\<lambda>owner.
     rbind (gr_read_bytes GR_HASH_LEN) (\<lambda>rhash.
     rbind (gr_read_bytes GR_HASH_LEN) (\<lambda>token.
     rbind (gr_read_bytes GR_PUBLIC_KEY_LEN) (\<lambda>ipk.
     rbind (gr_read_bytes GR_KEM_PUBLIC_KEY_LEN) (\<lambda>ikem.
     rbind (gr_read_i64 h) (\<lambda>expires.
       rreturn \<lparr>t_group_id = gid, t_group_name = name, t_group_type = gt, t_owner_sign_key = owner,
         t_registrar_hash = rhash, t_verification_token = token, t_inviter_sign_pk = ipk,
         t_inviter_kem_pk = ikem, t_expires_at = expires, t_bootstrap_peers = [],
         t_bootstrap_count = 0, t_signaling_count = 0\<rparr>)))))))))))"

definition de_ticket_tail :: "bool \<Rightarrow> gr_invite_ticket_t \<Rightarrow> gr_reader_t \<Rightarrow>
    gr_invite_ticket_t option \<times> gr_reader_t" where
  "de_ticket_tail h t =
     rbind (gr_read_u32 h) (\<lambda>bc.
     if of_nat GR_INVITE_MAX_BOOTSTRAP < bc then rfail else
     rbind (de_each (unat bc) (de_bootstrap h)) (\<lambda>boot.
     rbind (gr_read_u32 h) (\<lambda>sc.
     rbind (de_each (unat sc) (de_signaling h)) (\<lambda>_.
       rreturn (t\<lparr>t_bootstrap_peers := boot, t_bootstrap_count := bc, t_signaling_count := sc\<rparr>)))))"

definition ticket_expired :: "gr_invite_ticket_t \<Rightarrow> i64 \<Rightarrow> bool" where
  "ticket_expired t now \<longleftrightarrow> 0 < sint (t_expires_at t) \<and> sint (t_expires_at t) \<le> sint now"

text \<open>\<open>now\<close> is the clock at the moment the code reads it.\<close>

definition gr_invite_parse :: "yumi_env \<Rightarrow> i64 \<Rightarrow> bytes option \<Rightarrow> gr_error_t + gr_invite_ticket_t" where
  "gr_invite_parse e now invite_data =
     (case invite_data of
        None \<Rightarrow> Inl GR_ERR_INVALID_PARAM
      | Some d \<Rightarrow>
          (case de_ticket_head (host_le e) \<lparr>rd_data = d, rd_pos = 0\<rparr> of
             (None, _) \<Rightarrow> Inl GR_ERR_INVITE_INVALID
           | (Some t, r) \<Rightarrow>
               if ticket_expired t now then Inl GR_ERR_INVITE_EXPIRED
               else (case de_ticket_tail (host_le e) t r of
                       (None, _) \<Rightarrow> Inl GR_ERR_INVITE_INVALID
                     | (Some ticket, r') \<Rightarrow>
                         if length d < rd_pos r' + GR_SIGN_LEN then Inl GR_ERR_INVITE_INVALID
                         else if \<not> mldsa_verify e (take GR_SIGN_LEN (drop (rd_pos r') d))
                                    (take (rd_pos r') d) (t_inviter_sign_pk ticket)
                         then Inl GR_ERR_SIGNATURE_INVALID
                         else Inr ticket)))"

section \<open>Redeeming\<close>

definition gr_invite_invalidate :: "yumi_env \<Rightarrow> bytes option \<Rightarrow> gr_identity_t option \<Rightarrow> gr_registrar \<Rightarrow>
    gr_error_t \<times> gr_registrar" where
  "gr_invite_invalidate e token admin reg =
     (case (token, admin) of
        (Some tok, Some s) \<Rightarrow>
          gr_then (require_perm e s GR_PERM_INVITE_MEMBER reg)
            (with_txn e (change_existing e (ps_invite_invalidate tok) GR_CHANGE_INVITE_INVALIDATED s None
               (Some (cstr ''invite invalidated''))))
      | _ \<Rightarrow> (GR_ERR_INVALID_PARAM, reg))"

definition invite_valid :: "bool \<times> bool \<times> i64 \<Rightarrow> i64 \<Rightarrow> bool" where
  "invite_valid row now = (case row of (invalidated, used, expires) \<Rightarrow>
     \<not> invalidated \<and> \<not> used \<and> (expires = 0 \<or> sint now < sint expires))"

definition gr_invite_check :: "yumi_env \<Rightarrow> bytes \<Rightarrow> gr_registrar \<Rightarrow> (gr_error_t + bool) \<times> gr_registrar" where
  "gr_invite_check e token reg =
     (case db_query e (\<lambda>d. Some (ps_invite_check token d)) reg of
        (Inl err, r) \<Rightarrow> (Inl err, r)
      | (Inr None, r) \<Rightarrow> (Inr False, r)
      | (Inr (Some row), r) \<Rightarrow> (Inr (invite_valid row (now_of e r)), tick r))"

definition invite_used_body :: "yumi_env \<Rightarrow> bytes \<Rightarrow> bytes \<Rightarrow> gr_identity_t \<Rightarrow> gr_registrar \<Rightarrow>
    gr_error_t \<times> gr_registrar" where
  "invite_used_body e token peer_id signer =
     stmt_then e (ps_invite_mark_used peer_id token) (\<lambda>n.
       gr_audit_append e GR_CHANGE_INVITE_USED signer (Some peer_id) (Some (cstr ''invite redeemed'')))"

definition gr_invite_mark_used :: "yumi_env \<Rightarrow> bytes option \<Rightarrow> bytes option \<Rightarrow> gr_identity_t option \<Rightarrow>
    gr_registrar \<Rightarrow> gr_error_t \<times> gr_registrar" where
  "gr_invite_mark_used e token peer_id signer reg =
     (case (token, peer_id, signer) of
        (Some tok, Some pid, Some s) \<Rightarrow>
          gr_bind (gr_invite_check e tok reg) (\<lambda>valid r1.
            if \<not> valid then (GR_ERR_INVITE_EXPIRED, r1)
            else with_txn e (invite_used_body e tok pid s) r1)
      | _ \<Rightarrow> (GR_ERR_INVALID_PARAM, reg))"

definition gr_invite_list :: "yumi_env \<Rightarrow> u32 \<Rightarrow> gr_registrar \<Rightarrow>
    (gr_error_t + gr_invite_info_t list) \<times> gr_registrar" where
  "gr_invite_list e max_count reg = db_query e (ps_invite_list max_count) reg"

definition gr_invite_count :: "yumi_env \<Rightarrow> gr_registrar \<Rightarrow> (gr_error_t + u32) \<times> gr_registrar" where
  "gr_invite_count e reg = db_query e (\<lambda>d. Some (of_nat (ps_invite_count d))) reg"

section \<open>The shuffle\<close>

lemma mset_list_swap: "a < length xs \<Longrightarrow> b < length xs \<Longrightarrow> mset (list_swap xs a b) = mset xs"
  by (simp add: list_swap_def mset_swap)

lemma shuffle_spec:
  "i \<le> length xs \<Longrightarrow> mset (fst (shuffle e i xs reg)) = mset xs \<and> quiet reg (snd (shuffle e i xs reg))"
proof (induction e i xs reg rule: shuffle.induct)
  case (1 e i xs reg)
  show ?case
  proof (cases "i \<le> 1")
    case True
    then show ?thesis by (subst (1 2) shuffle.simps) simp
  next
    case False
    define bs where "bs = (case randombytes e (reg_calls reg) 4 of None \<Rightarrow> uninit e (reg_calls reg) 4 | Some b \<Rightarrow> b)"
    define j where "j = unat (mem_word (host_le e) bs :: u32) mod i"
    have "j < i" using False by (simp add: j_def)
    then have j: "j < length xs" "i - 1 < length xs" using False "1.prems" by simp_all
    have ih: "mset (fst (shuffle e (i - 1) (list_swap xs (i - 1) j) (tick reg))) = mset (list_swap xs (i - 1) j)
        \<and> quiet (tick reg) (snd (shuffle e (i - 1) (list_swap xs (i - 1) j) (tick reg)))"
      by (rule "1.IH" [OF False bs_def j_def]) (use "1.prems" False in \<open>simp add: list_swap_def\<close>)
    have sh: "shuffle e i xs reg = shuffle e (i - 1) (list_swap xs (i - 1) j) (tick reg)"
      using False by (subst shuffle.simps) (simp add: j_def bs_def Let_def)
    from quiet_trans [OF quiet_tick conjunct2 [OF ih]] show ?thesis
      unfolding sh using ih mset_list_swap [OF j(2,1)] by simp
  qed
qed

section \<open>Errors leave no trace\<close>

lemma quiet_q_bind:
  "(\<And>r. quiet r (snd (m r))) \<Longrightarrow> (\<And>v r. quiet r (snd (f v r))) \<Longrightarrow> quiet reg (snd (q_bind (m reg) f))"
  by (cases "m reg") (auto simp: q_bind_def split: sum.splits, metis snd_conv, metis quiet_trans snd_conv)

lemma quiet_select: "quiet reg (snd (select_bootstrap_peers e inviter n reg))"
  unfolding select_bootstrap_peers_def
proof (rule quiet_q_bind [OF quiet_peer_count])
  fix k r
  have tail: "quiet r2 (snd (if \<not> malloc_ok e (reg_calls r2) then (Inl GR_ERR_OUT_OF_MEMORY, tick r2)
         else let candidates = filter (bootstrap_ok r2 inviter) rows in
           case shuffle e (length candidates) candidates (tick r2) of
             (shuffled, r3) \<Rightarrow> (Inr (map bootstrap_of (take n shuffled)) :: gr_error_t + gr_bootstrap_peer_t list, r3)))"
    for rows r2
    using shuffle_spec [of "length (filter (bootstrap_ok r2 inviter) rows)" "filter (bootstrap_ok r2 inviter) rows" e "tick r2"]
      quiet_trans [OF quiet_tick]
    by (auto simp: Let_def split: prod.splits)
  have "quiet r (snd (q_bind (gr_peer_list e k GR_PEER_ACTIVE (tick r)) (\<lambda>rows r2.
         if \<not> malloc_ok e (reg_calls r2) then (Inl GR_ERR_OUT_OF_MEMORY, tick r2)
         else let candidates = filter (bootstrap_ok r2 inviter) rows in
           case shuffle e (length candidates) candidates (tick r2) of
             (shuffled, r3) \<Rightarrow> (Inr (map bootstrap_of (take n shuffled)) :: gr_error_t + gr_bootstrap_peer_t list, r3))))"
    by (rule quiet_trans [OF quiet_tick quiet_q_bind [OF quiet_peer_list tail]])
  then show "quiet r (snd (if k = 0 then (Inr [], r)
       else if \<not> malloc_ok e (reg_calls r) then (Inl GR_ERR_OUT_OF_MEMORY, tick r)
       else q_bind (gr_peer_list e k GR_PEER_ACTIVE (tick r)) (\<lambda>rows r2.
         if \<not> malloc_ok e (reg_calls r2) then (Inl GR_ERR_OUT_OF_MEMORY, tick r2)
         else let candidates = filter (bootstrap_ok r2 inviter) rows in
           case shuffle e (length candidates) candidates (tick r2) of
             (shuffled, r3) \<Rightarrow> (Inr (map bootstrap_of (take n shuffled)), r3))))"
    by simp
qed

lemma quiet_ticks: "quiet reg (tick (tick reg))"
  by (rule quiet_trans [OF quiet_tick quiet_tick])

lemma quiet_servers: "quiet reg (snd (invite_servers e reg))"
proof -
  obtain c r1 where c: "gr_server_count e GR_SERVER_SIGNALING reg = (c, r1)"
    by (cases "gr_server_count e GR_SERVER_SIGNALING reg")
  have q1: "quiet reg r1" using quiet_query [of reg e] c by (metis gr_server_count_def snd_conv)
  have q3: "quiet reg r3" if "gr_server_list e GR_SERVER_SIGNALING n (tick r1) = (l, r3)" for n l r3
    using quiet_query [of "tick r1" e] that q1 quiet_tick quiet_trans by (metis gr_server_list_def snd_conv)
  have q2: "quiet reg (tick r1)" by (rule quiet_trans [OF q1 quiet_tick])
  show ?thesis using c q1 q2 q3
    by (auto simp: invite_servers_def Let_def split: prod.splits sum.splits)
qed

lemma quiet_blob: "quiet reg (snd (invite_blob e inviter expires token boot reg))"
proof -
  obtain x r1 where x: "invite_servers e (tick reg) = (x, r1)" by (cases "invite_servers e (tick reg)")
  have "quiet (tick reg) r1" using quiet_servers [of "tick reg" e] x by simp
  from quiet_trans [OF quiet_tick this] have q1: "quiet reg r1" .
  from quiet_trans [OF this quiet_tick] have q2: "quiet reg (tick r1)" .
  show ?thesis using x q1 q2
    by (auto simp: invite_blob_def split: prod.splits option.splits)
qed

lemma blob_no_ok: "invite_blob e inviter expires token boot reg \<noteq> (Inl GR_OK, q)"
  by (auto simp: invite_blob_def split: prod.splits option.splits)

lemma q_bind_no_ok: "(\<And>q. m \<noteq> (Inl GR_OK, q)) \<Longrightarrow> (\<And>v r. f v r \<noteq> (Inl GR_OK, p)) \<Longrightarrow> q_bind m f \<noteq> (Inl GR_OK, p)"
  by (auto simp: q_bind_def split: prod.splits sum.splits)

lemma select_no_ok: "select_bootstrap_peers e inviter n reg \<noteq> (Inl GR_OK, q)"
  unfolding select_bootstrap_peers_def gr_peer_count_def gr_peer_list_def
proof (rule q_bind_no_ok [OF query_no_ok(1)])
  fix k r
  have tail: "(if \<not> malloc_ok e (reg_calls r2) then (Inl GR_ERR_OUT_OF_MEMORY, tick r2)
         else let candidates = filter (bootstrap_ok r2 inviter) rows in
           case shuffle e (length candidates) candidates (tick r2) of
             (shuffled, r3) \<Rightarrow> (Inr (map bootstrap_of (take n shuffled)) :: gr_error_t + gr_bootstrap_peer_t list, r3))
      \<noteq> (Inl GR_OK, q)" for rows r2
    by (auto simp: Let_def split: prod.splits)
  note q_bind_no_ok [OF query_no_ok(1) tail, of e "\<lambda>d. map_option (map peer_read)
       (if GR_PEER_ACTIVE = GR_PEER_STATUS_ANY then ps_peer_list_all k d
        else ps_peer_list_status GR_PEER_ACTIVE k d)" "tick r"]
  then show "(if k = 0 then (Inr [], r)
       else if \<not> malloc_ok e (reg_calls r) then (Inl GR_ERR_OUT_OF_MEMORY, tick r)
       else q_bind (db_query e (\<lambda>d. map_option (map peer_read)
       (if GR_PEER_ACTIVE = GR_PEER_STATUS_ANY then ps_peer_list_all k d
        else ps_peer_list_status GR_PEER_ACTIVE k d)) (tick r)) (\<lambda>rows r2.
         if \<not> malloc_ok e (reg_calls r2) then (Inl GR_ERR_OUT_OF_MEMORY, tick r2)
         else let candidates = filter (bootstrap_ok r2 inviter) rows in
           case shuffle e (length candidates) candidates (tick r2) of
             (shuffled, r3) \<Rightarrow> (Inr (map bootstrap_of (take n shuffled)), r3))) \<noteq> (Inl GR_OK, q)"
    by simp
qed

text \<open>The creation of an invite as a transaction body: the insertion, two reads, the audit entry.\<close>

lemma err_of_create_body: "err_of (invite_create_body e s expires now token reg) =
    stmt_then e (ps_invite_insert (invite_row token now expires s)) (\<lambda>n r1.
      gr_bind (select_bootstrap_peers e (id_peer_id s) GR_INVITE_MAX_BOOTSTRAP r1) (\<lambda>boot r2.
      gr_bind (invite_blob e s expires token boot r2) (\<lambda>blob.
        gr_audit_append e GR_CHANGE_INVITE_CREATED s None (Some (cstr ''invite created''))))) reg"
proof -
  have last: "err_of (case gr_audit_append e GR_CHANGE_INVITE_CREATED s None (Some (cstr ''invite created'')) r3 of
              (err, r4) \<Rightarrow> (if err = GR_OK then Inr blob else Inl err, r4)) =
      gr_audit_append e GR_CHANGE_INVITE_CREATED s None (Some (cstr ''invite created'')) r3" for r3 and blob :: bytes
    by (simp split: prod.splits)
  show ?thesis
    by (simp add: invite_create_body_def stmt_then_def err_of_q_bind last split: prod.splits option.splits)
qed

lemma create_body_no_ok: "fst (invite_create_body e s expires now token r) \<noteq> Inl GR_OK"
proof
  assume "fst (invite_create_body e s expires now token r) = Inl GR_OK"
  then obtain q where q: "invite_create_body e s expires now token r = (Inl GR_OK, q)"
    by (cases "invite_create_body e s expires now token r") simp
  have "q_bind (select_bootstrap_peers e (id_peer_id s) GR_INVITE_MAX_BOOTSTRAP r1) (\<lambda>boot r2.
          q_bind (invite_blob e s expires token boot r2) (\<lambda>blob r3.
            case gr_audit_append e GR_CHANGE_INVITE_CREATED s None (Some (cstr ''invite created'')) r3 of
              (err, r4) \<Rightarrow> (if err = GR_OK then Inr blob else Inl err, r4))) \<noteq> (Inl GR_OK, q)" for r1
    by (rule q_bind_no_ok [OF select_no_ok], rule q_bind_no_ok [OF blob_no_ok]) (simp split: prod.splits)
  with q show False by (auto simp: invite_create_body_def split: prod.splits option.splits)
qed

lemma txn_invite_create: "txn_body e (\<lambda>r. err_of (invite_create_body e s expires now token r))"
  unfolding err_of_create_body
proof (rule txn_stmt, rule txn_bind)
  fix boot
  show "txn_body e (\<lambda>r2. gr_bind (invite_blob e s expires token boot r2) (\<lambda>blob.
        gr_audit_append e GR_CHANGE_INVITE_CREATED s None (Some (cstr ''invite created''))))"
    by (rule txn_bind [OF quiet_blob blob_no_ok txn_audit_append])
qed (rule quiet_select, rule select_no_ok)

interpretation invite_txn: txn_body e "\<lambda>r. err_of (invite_create_body e s expires now token r)"
  for e s expires now token
  by unfold_locales (rule txn_bodyD [OF txn_invite_create])

lemma atomic_invite_txn:
  "atomic_op e (\<lambda>r. err_of (with_txn_val e (invite_create_body e s expires now token) r))"
  unfolding err_of_txn_val [OF create_body_no_ok] by (rule atomic_txn [OF txn_invite_create])

lemma atomic_invite_create: "atomic_op e (\<lambda>reg. err_of (gr_invite_create e inviter expires reg))"
proof (cases inviter)
  case None
  then show ?thesis using atomic_const by (simp add: gr_invite_create_def)
next
  case (Some s)
  have "atomic_op e (\<lambda>r1. err_of (case randombytes e (reg_calls r1) GR_HASH_LEN of
              None \<Rightarrow> (Inl GR_ERR_CRYPTO, tick r1)
            | Some token \<Rightarrow>
                (let r2 = tick r1 in
                 case with_txn_val e (invite_create_body e s expires (now_of e r2) token) (tick r2) of
                   (Inl err, r3) \<Rightarrow> (Inl err, r3) | (Inr blob, r3) \<Rightarrow> (Inr (blob, token), r3))))"
    (is "atomic_op e ?op")
  proof (rule atomic_opI)
    fix reg assume a: "reliable e" "idle reg"
    show "atomic_res e reg (?op reg)"
    proof (cases "randombytes e (reg_calls reg) GR_HASH_LEN")
      case None
      then show ?thesis using atomic_res_self [OF quiet_tick a(2)] by simp
    next
      case (Some token)
      have "err_of (case x of (Inl err, r3) \<Rightarrow> (Inl err, r3) | (Inr blob, r3) \<Rightarrow> (Inr (blob, token), r3)) = err_of x"
        for x :: "(gr_error_t + bytes) \<times> gr_registrar"
        by (simp add: err_of_def split: prod.splits sum.splits)
      then have "?op reg = err_of (with_txn_val e (invite_create_body e s expires (now_of e (tick reg)) token) (tick (tick reg)))"
        using Some by (simp add: Let_def)
      then show ?thesis using atomic_seq [OF quiet_ticks atomic_invite_txn a] by simp
    qed
  qed
  from atomic_governed [OF this] Some show ?thesis by (simp add: gr_invite_create_def err_of_q_then)
qed

lemma atomic_invite_invalidate: "atomic_op e (gr_invite_invalidate e tok admin)"
proof (cases "tok = None \<or> admin = None")
  case True
  then have "gr_invite_invalidate e tok admin = (\<lambda>reg. (GR_ERR_INVALID_PARAM, reg))"
    by (intro ext) (auto simp: gr_invite_invalidate_def split: option.splits)
  then show ?thesis by (simp only: atomic_const)
next
  case False
  then obtain t s where ps: "tok = Some t" "admin = Some s" by auto
  show ?thesis unfolding gr_invite_invalidate_def [abs_def] ps option.case prod.case
    by (rule atomic_then [OF quiet_require_perm atomic_change_existing])
qed

lemma quiet_invite_check: "quiet reg (snd (gr_invite_check e tok reg))"
proof -
  obtain v r where v: "db_query e (\<lambda>d. Some (ps_invite_check tok d)) reg = (v, r)"
    by (cases "db_query e (\<lambda>d. Some (ps_invite_check tok d)) reg")
  have q: "quiet reg r" using quiet_query [of reg e "\<lambda>d. Some (ps_invite_check tok d)"] v by simp
  from quiet_trans [OF this quiet_tick] q v show ?thesis
    by (auto simp: gr_invite_check_def split: sum.splits option.splits)
qed

lemma atomic_invite_mark_used: "atomic_op e (gr_invite_mark_used e tok pid signer)"
proof (cases "tok = None \<or> pid = None \<or> signer = None")
  case True
  then have "gr_invite_mark_used e tok pid signer = (\<lambda>reg. (GR_ERR_INVALID_PARAM, reg))"
    by (intro ext) (auto simp: gr_invite_mark_used_def split: option.splits)
  then show ?thesis by (simp only: atomic_const)
next
  case False
  then obtain t p s where ps: "tok = Some t" "pid = Some p" "signer = Some s" by auto
  have t: "atomic_op e (with_txn e (invite_used_body e t p s))"
    unfolding invite_used_body_def by (rule atomic_stmt_audit)
  show ?thesis unfolding gr_invite_mark_used_def [abs_def] ps option.case prod.case
    by (rule atomic_bind [OF quiet_invite_check], rule atomic_opI) (auto intro: atomic_res_self atomic_opD [OF t])
qed

section \<open>What success means\<close>

text \<open>How a blob comes about: the header it carries is the registrar's.\<close>

lemma invite_create_run:
  assumes res: "gr_invite_create e (Some s) expires reg = (Inr (blob, token), r)"
  shows "\<exists>q n. governed e s GR_PERM_INVITE_MEMBER reg = (GR_OK, q) \<and> randombytes e n GR_HASH_LEN = Some token
    \<and> with_txn_val e (invite_create_body e s expires (now_of e (tick q)) token) (tick (tick q)) = (Inr blob, r)"
proof -
  have "q_then (governed e s GR_PERM_INVITE_MEMBER reg) (\<lambda>r1.
            case randombytes e (reg_calls r1) GR_HASH_LEN of
              None \<Rightarrow> (Inl GR_ERR_CRYPTO, tick r1)
            | Some token \<Rightarrow>
                (let r2 = tick r1 in
                 case with_txn_val e (invite_create_body e s expires (now_of e r2) token) (tick r2) of
                   (Inl err, r3) \<Rightarrow> (Inl err, r3) | (Inr blob, r3) \<Rightarrow> (Inr (blob, token), r3))) = (Inr (blob, token), r)"
    using res by (simp add: gr_invite_create_def)
  from q_then_ok [OF this] obtain q where q: "governed e s GR_PERM_INVITE_MEMBER reg = (GR_OK, q)"
    "(case randombytes e (reg_calls q) GR_HASH_LEN of
              None \<Rightarrow> (Inl GR_ERR_CRYPTO, tick q)
            | Some token \<Rightarrow>
                (let r2 = tick q in
                 case with_txn_val e (invite_create_body e s expires (now_of e r2) token) (tick r2) of
                   (Inl err, r3) \<Rightarrow> (Inl err, r3) | (Inr blob, r3) \<Rightarrow> (Inr (blob, token), r3))) = (Inr (blob, token), r)"
    by (elim exE conjE)
  from q(2) have "randombytes e (reg_calls q) GR_HASH_LEN = Some token
      \<and> with_txn_val e (invite_create_body e s expires (now_of e (tick q)) token) (tick (tick q)) = (Inr blob, r)"
    by (auto simp: Let_def split: option.splits prod.splits sum.splits)
  with q(1) show ?thesis by blast
qed

lemma invite_create_ok:
  assumes rel: "reliable e" and idle: "idle reg"
    and res: "gr_invite_create e (Some s) expires reg = (Inr (blob, token), r)"
  shows "\<not> gr_join_is_untrusted reg \<and> and (perms_of reg (id_peer_id s)) GR_PERM_INVITE_MEMBER \<noteq> 0
    \<and> committed e GR_CHANGE_INVITE_CREATED s None (\<lambda>(d, h) (d', h'). h' = h \<and> (\<exists>now n.
        ps_invite_insert (invite_row token now expires s) d = Some (n, d'))) reg r"
proof -
  from invite_create_run [OF res] obtain q where q: "governed e s GR_PERM_INVITE_MEMBER reg = (GR_OK, q)"
    "with_txn_val e (invite_create_body e s expires (now_of e (tick q)) token) (tick (tick q)) = (Inr blob, r)"
    by (elim exE conjE)
  note g = governed_ok [OF q(1)]
  let ?q = "tick (tick q)" and ?now = "now_of e (tick q)"
  from quiet_trans [OF g(3) quiet_ticks] have quiet: "quiet reg ?q" .
  have i1: "idle ?q" using quiet idle by (simp add: quietD)
  have w: "with_txn e (\<lambda>r. err_of (invite_create_body e s expires ?now token r)) ?q = (GR_OK, r)"
    unfolding err_of_txn_val [OF create_body_no_ok, symmetric] using q(2) by simp
  have "(\<exists>d. (\<exists>n. ps_invite_insert (invite_row token ?now expires s) (reg_db ?q) = Some (n, d))
        \<and> logged e GR_CHANGE_INVITE_CREATED s None d (reg_header ?q) r)
      \<and> idle r \<and> reg_join_state r = reg_join_state ?q"
  proof (rule txn_logged [OF rel i1 txn_invite_create w, where h = "\<lambda>h. h"])
    fix r0 r1
    assume t: "in_txn (reg_db ?q) (reg_header ?q) r0" and db: "reg_db r0 = reg_db ?q"
      and hd: "reg_header r0 = reg_header ?q" and x: "err_of (invite_create_body e s expires ?now token r0) = (GR_OK, r1)"
    from stmt_then_ok [OF x [unfolded err_of_create_body]] obtain n d r2 where
      s1: "ps_invite_insert (invite_row token ?now expires s) (reg_db r0) = Some (n, d)" "r2 = (tick r0)\<lparr>reg_db := d\<rparr>"
      and s2: "gr_bind (select_bootstrap_peers e (id_peer_id s) GR_INVITE_MAX_BOOTSTRAP r2) (\<lambda>boot r2.
      gr_bind (invite_blob e s expires token boot r2) (\<lambda>blob.
        gr_audit_append e GR_CHANGE_INVITE_CREATED s None (Some (cstr ''invite created'')))) = (GR_OK, r1)"
      by (elim exE conjE)
    from gr_bind_ok [OF s2 select_no_ok] obtain boot r3
      where s3: "select_bootstrap_peers e (id_peer_id s) GR_INVITE_MAX_BOOTSTRAP r2 = (Inr boot, r3)"
      "gr_bind (invite_blob e s expires token boot r3) (\<lambda>blob.
        gr_audit_append e GR_CHANGE_INVITE_CREATED s None (Some (cstr ''invite created''))) = (GR_OK, r1)"
      by (elim exE conjE)
    from gr_bind_ok [OF s3(2) blob_no_ok] obtain bl r4
      where s4: "invite_blob e s expires token boot r3 = (Inr bl, r4)"
      "gr_audit_append e GR_CHANGE_INVITE_CREATED s None (Some (cstr ''invite created'')) r4 = (GR_OK, r1)"
      by (elim exE conjE)
    have "quiet r2 r3" using quiet_select [of r2 e "id_peer_id s" GR_INVITE_MAX_BOOTSTRAP] s3(1) by simp
    moreover have "quiet r3 r4" using quiet_blob [of r3 e s expires token boot] s4(1) by simp
    ultimately have q4: "quiet r2 r4" by (rule quiet_trans)
    have "in_txn (reg_db ?q) (reg_header ?q) r4" using in_txn_quiet [OF q4] in_txn_db [OF t] s1(2) by simp
    from audit_append_logged [OF rel this s4(2)] s1 q4 hd db
    show "\<exists>d. (\<exists>n. ps_invite_insert (invite_row token ?now expires s) (reg_db ?q) = Some (n, d))
        \<and> logged e GR_CHANGE_INVITE_CREATED s None d (reg_header ?q) r1" by (auto simp: quietD)
  qed
  then have "committed e GR_CHANGE_INVITE_CREATED s None (\<lambda>(d, h) (d', h'). h' = h \<and> (\<exists>now n.
        ps_invite_insert (invite_row token now expires s) d = Some (n, d'))) ?q r"
    by (elim exE conjE) (rule committedI, assumption, assumption, auto)
  from committed_quiet [OF quiet this] g(1,2) show ?thesis by simp
qed

lemma invite_invalidate_ok:
  assumes rel: "reliable e" and idle: "idle reg"
    and res: "gr_invite_invalidate e (Some tok) (Some s) reg = (GR_OK, r)"
  shows "and (perms_of reg (id_peer_id s)) GR_PERM_INVITE_MEMBER \<noteq> 0
    \<and> committed e GR_CHANGE_INVITE_INVALIDATED s None (\<lambda>(d, h) (d', h'). h' = h \<and> (\<exists>n. n \<noteq> 0 \<and>
        ps_invite_invalidate tok d = Some (n, d'))) reg r"
proof -
  from gr_then_ok [OF res [unfolded gr_invite_invalidate_def option.case prod.case]] obtain q
    where q: "require_perm e s GR_PERM_INVITE_MEMBER reg = (GR_OK, q)"
    and w: "with_txn e (change_existing e (ps_invite_invalidate tok) GR_CHANGE_INVITE_INVALIDATED s None
               (Some (cstr ''invite invalidated''))) q = (GR_OK, r)"
    by (elim exE conjE)
  have quiet: "quiet reg q" using quiet_require_perm [of reg e s GR_PERM_INVITE_MEMBER] q by simp
  from existing_from [OF rel idle quiet w] require_perm_ok [OF q] show ?thesis by simp
qed

lemma invite_mark_used_ok:
  assumes rel: "reliable e" and idle: "idle reg"
    and res: "gr_invite_mark_used e (Some tok) (Some pid) (Some s) reg = (GR_OK, r)"
  shows "(\<exists>i (now :: i64). tbl_get i_verification_token tok (db_invites (reg_db reg)) = Some i
        \<and> \<not> i_used i \<and> \<not> i_invalidated i \<and> (i_expires_at i = 0 \<or> sint now < sint (i_expires_at i)))
    \<and> committed e GR_CHANGE_INVITE_USED s (Some pid) (\<lambda>(d, h) (d', h'). h' = h \<and> (\<exists>n.
        ps_invite_mark_used pid tok d = Some (n, d'))) reg r"
proof -
  let ?w = "with_txn e (invite_used_body e tok pid s)"
  have no: "gr_invite_check e tok reg \<noteq> (Inl GR_OK, q)" for q
    by (auto simp: gr_invite_check_def query_no_ok split: prod.splits sum.splits option.splits
        dest: query_no_ok [THEN notE])
  from gr_bind_ok [OF res [unfolded gr_invite_mark_used_def option.case prod.case] no] obtain valid q
    where q: "gr_invite_check e tok reg = (Inr valid, q)"
      "(if \<not> valid then (GR_ERR_INVITE_EXPIRED, q) else ?w q) = (GR_OK, r)" by (elim exE conjE)
  have valid: valid "?w q = (GR_OK, r)" using q(2) by (simp_all split: if_splits)
  have quiet: "quiet reg q" using quiet_invite_check [of reg e tok] q(1) by simp
  obtain v r1 where v: "db_query e (\<lambda>d. Some (ps_invite_check tok d)) reg = (v, r1)"
    by (cases "db_query e (\<lambda>d. Some (ps_invite_check tok d)) reg")
  have "\<exists>row now. ps_invite_check tok (reg_db reg) = Some row \<and> invite_valid row now"
    using q(1) valid(1) v query_ok [of e "\<lambda>d. Some (ps_invite_check tok d)" reg]
    by (auto simp: gr_invite_check_def split: sum.splits option.splits)
  then obtain row now where rn: "ps_invite_check tok (reg_db reg) = Some row" "invite_valid row now" by blast
  then obtain i where i: "tbl_get i_verification_token tok (db_invites (reg_db reg)) = Some i"
      "row = (i_invalidated i, i_used i, i_expires_at i)" by (auto simp: ps_invite_check_def)
  then have "\<exists>i (now :: i64). tbl_get i_verification_token tok (db_invites (reg_db reg)) = Some i
        \<and> \<not> i_used i \<and> \<not> i_invalidated i \<and> (i_expires_at i = 0 \<or> sint now < sint (i_expires_at i))"
    using rn(2) unfolding i(2) invite_valid_def prod.case by blast
  with stmt_from [OF rel idle quiet valid(2) [unfolded invite_used_body_def]] show ?thesis by blast
qed

end
