(* ===== verification/Epoch_Retention.thy ===== *)
theory Epoch_Retention imports Role
begin

text \<open>
  Key epochs and the retention policy: \<open>src/src/group_registrar/epoch.c\<close> and
  \<open>src/src/group_registrar/retention.c\<close>.
\<close>

section \<open>Epochs\<close>

definition epoch_row :: "u32 \<Rightarrow> bytes \<Rightarrow> i64 \<Rightarrow> gr_identity_t \<Rightarrow> gr_epoch_t" where
  "epoch_row new_id key now signer = \<lparr>e_epoch_id = new_id, e_epoch_key = key, e_created_at = now,
     e_expired_at = 0, e_created_by = id_peer_id signer\<rparr>"

text \<open>The end of a rotation: the header gets the new epoch, then the audit entry is written.\<close>

definition epoch_switch :: "yumi_env \<Rightarrow> u32 \<Rightarrow> gr_identity_t \<Rightarrow> gr_registrar \<Rightarrow> gr_error_t \<times> gr_registrar" where
  "epoch_switch e new_id signer reg =
     gr_audit_append e GR_CHANGE_EPOCH_ROTATED signer None
       (Some (snprintf_cut 64 (cstr ''epoch rotated to '' @ fmt_u new_id)))
       (reg\<lparr>reg_header := (reg_header reg)\<lparr>h_epoch_id := new_id\<rparr>\<rparr>)"

text \<open>Drawing the new key and storing its row.\<close>

definition epoch_install :: "yumi_env \<Rightarrow> u32 \<Rightarrow> i64 \<Rightarrow> gr_identity_t \<Rightarrow> gr_registrar \<Rightarrow>
    gr_error_t \<times> gr_registrar" where
  "epoch_install e new_id now signer reg =
     (case randombytes e (reg_calls reg) GR_EPOCH_KEY_LEN of
        None \<Rightarrow> (GR_ERR_CRYPTO, tick reg)
      | Some key \<Rightarrow> stmt_then e (ps_epoch_insert (epoch_row new_id key now signer))
                     (\<lambda>n. epoch_switch e new_id signer) (tick reg))"

definition epoch_rotate_body :: "yumi_env \<Rightarrow> i64 \<Rightarrow> gr_identity_t \<Rightarrow> gr_registrar \<Rightarrow>
    gr_error_t \<times> gr_registrar" where
  "epoch_rotate_body e now signer reg =
     stmt_then e (ps_epoch_expire now (h_epoch_id (reg_header reg)))
       (\<lambda>n r. epoch_install e (h_epoch_id (reg_header r) + 1) now signer r) reg"

definition gr_epoch_rotate :: "yumi_env \<Rightarrow> gr_identity_t option \<Rightarrow> gr_registrar \<Rightarrow> gr_error_t \<times> gr_registrar" where
  "gr_epoch_rotate e signer reg =
     (case signer of
        None \<Rightarrow> (GR_ERR_INVALID_PARAM, reg)
      | Some s \<Rightarrow>
          gr_then (governed e s GR_PERM_ROTATE_EPOCH reg) (\<lambda>r1.
            with_txn e (epoch_rotate_body e (now_of e r1) s) (tick r1)))"

definition gr_epoch_get :: "yumi_env \<Rightarrow> u32 \<Rightarrow> gr_registrar \<Rightarrow> (gr_error_t + gr_epoch_t) \<times> gr_registrar" where
  "gr_epoch_get e epoch_id reg = db_fetch e (ps_epoch_get epoch_id) reg"

definition gr_epoch_get_current :: "yumi_env \<Rightarrow> gr_registrar \<Rightarrow> (gr_error_t + gr_epoch_t) \<times> gr_registrar" where
  "gr_epoch_get_current e reg = gr_epoch_get e (h_epoch_id (reg_header reg)) reg"

definition gr_epoch_list :: "yumi_env \<Rightarrow> u32 \<Rightarrow> gr_registrar \<Rightarrow> (gr_error_t + gr_epoch_t list) \<times> gr_registrar" where
  "gr_epoch_list e max_count reg = db_query e (ps_epoch_list max_count) reg"

definition gr_epoch_count :: "yumi_env \<Rightarrow> gr_registrar \<Rightarrow> (gr_error_t + u32) \<times> gr_registrar" where
  "gr_epoch_count e reg = db_query e (\<lambda>d. Some (of_nat (ps_epoch_count d))) reg"

section \<open>Retention policy\<close>

definition retention_body :: "yumi_env \<Rightarrow> gr_retention_t \<Rightarrow> gr_identity_t \<Rightarrow> gr_registrar \<Rightarrow>
    gr_error_t \<times> gr_registrar" where
  "retention_body e policy signer reg =
     gr_then (gr_header_save e (reg\<lparr>reg_header := (reg_header reg)\<lparr>h_retention := policy\<rparr>\<rparr>))
       (gr_audit_append e GR_CHANGE_RETENTION_SET signer None (Some (cstr ''retention policy updated'')))"

definition gr_retention_set :: "yumi_env \<Rightarrow> gr_retention_t option \<Rightarrow> gr_identity_t option \<Rightarrow>
    gr_registrar \<Rightarrow> gr_error_t \<times> gr_registrar" where
  "gr_retention_set e policy signer reg =
     (case (policy, signer) of
        (Some p, Some s) \<Rightarrow>
          gr_then (governed e s GR_PERM_EDIT_RETENTION reg) (with_txn e (retention_body e p s))
      | _ \<Rightarrow> (GR_ERR_INVALID_PARAM, reg))"

definition gr_retention_get :: "gr_registrar \<Rightarrow> gr_retention_t" where
  "gr_retention_get reg = h_retention (reg_header reg)"

section \<open>Errors leave no trace\<close>

lemma txn_epoch_switch: "txn_body e (epoch_switch e new_id s)"
  unfolding epoch_switch_def [abs_def] by (rule txn_set_header [OF txn_audit_append])

lemma txn_epoch_install: "txn_body e (epoch_install e new_id now s)"
  unfolding epoch_install_def [abs_def]
  by (rule txn_draw, simp, rule txn_stmt, rule txn_epoch_switch)

lemma txn_epoch_rotate: "txn_body e (epoch_rotate_body e now s)"
proof -
  have "txn_body e (\<lambda>r. epoch_install e (h_epoch_id (reg_header r) + 1) now s r)"
    by (rule txn_dep [where f = "\<lambda>r. h_epoch_id (reg_header r) + 1"]) (rule txn_epoch_install)
  then have "txn_body e (\<lambda>reg. stmt_then e (ps_epoch_expire now x)
       (\<lambda>n r. epoch_install e (h_epoch_id (reg_header r) + 1) now s r) reg)" for x
    by (rule txn_stmt)
  then show ?thesis unfolding epoch_rotate_body_def [abs_def]
    by (rule txn_dep [where f = "\<lambda>r. h_epoch_id (reg_header r)"])
qed

lemma atomic_epoch_rotate: "atomic_op e (gr_epoch_rotate e signer)"
proof (cases signer)
  case None
  then show ?thesis using atomic_const by (simp add: gr_epoch_rotate_def [abs_def])
next
  case (Some s)
  have "atomic_op e (\<lambda>r1. with_txn e (epoch_rotate_body e (now_of e r1) s) (tick r1))"
    by (rule atomic_dep [where f = "now_of e"], rule atomic_tick, rule atomic_txn [OF txn_epoch_rotate])
  from atomic_governed [OF this] Some show ?thesis by (simp add: gr_epoch_rotate_def [abs_def])
qed

lemma txn_retention: "txn_body e (retention_body e p s)"
  unfolding retention_body_def [abs_def]
  by (rule txn_then [OF _ txn_audit_append], rule txn_set_header [OF txn_header_save])

interpretation rotate_body: txn_body e "epoch_rotate_body e now s" for e now s
  by unfold_locales (rule txn_bodyD [OF txn_epoch_rotate])

interpretation retention_txn: txn_body e "retention_body e p s" for e p s
  by unfold_locales (rule txn_bodyD [OF txn_retention])

lemma atomic_retention_set: "atomic_op e (gr_retention_set e policy signer)"
proof (cases "policy = None \<or> signer = None")
  case True
  then have "gr_retention_set e policy signer = (\<lambda>reg. (GR_ERR_INVALID_PARAM, reg))"
    by (intro ext) (auto simp: gr_retention_set_def split: option.splits)
  then show ?thesis by (simp only: atomic_const)
next
  case False
  then obtain p s where ps: "policy = Some p" "signer = Some s" by auto
  show ?thesis unfolding gr_retention_set_def [abs_def] ps option.case prod.case
    by (rule atomic_governed, rule atomic_txn [OF txn_retention])
qed

section \<open>What success means\<close>

lemma epoch_rotate_ok:
  assumes rel: "reliable e" and idle: "idle reg" and res: "gr_epoch_rotate e (Some s) reg = (GR_OK, r)"
  shows "\<not> gr_join_is_untrusted reg \<and> and (perms_of reg (id_peer_id s)) GR_PERM_ROTATE_EPOCH \<noteq> 0
    \<and> committed e GR_CHANGE_EPOCH_ROTATED s None (\<lambda>(d, h) (d', h').
        h' = h\<lparr>h_epoch_id := h_epoch_id h + 1\<rparr> \<and> (\<exists>now key n1 d1 n2.
          ps_epoch_expire now (h_epoch_id h) d = Some (n1, d1)
          \<and> ps_epoch_insert (epoch_row (h_epoch_id h + 1) key now s) d1 = Some (n2, d'))) reg r"
proof -
  from governed_then_ok [OF res [unfolded gr_epoch_rotate_def option.case]] obtain q
    where q: "\<not> gr_join_is_untrusted reg" "and (perms_of reg (id_peer_id s)) GR_PERM_ROTATE_EPOCH \<noteq> 0" "quiet reg q"
    and w: "with_txn e (epoch_rotate_body e (now_of e q) s) (tick q) = (GR_OK, r)"
    by (elim exE conjE)
  let ?now = "now_of e q" and ?q = "tick q"
  from quiet_trans [OF q(3) quiet_tick] have quiet: "quiet reg ?q" .
  have i1: "idle ?q" using quiet idle by (simp add: quietD)
  let ?new = "h_epoch_id (reg_header ?q) + 1"
  have "(\<exists>d. (\<exists>key n1 d1 n2. ps_epoch_expire ?now (h_epoch_id (reg_header ?q)) (reg_db ?q) = Some (n1, d1)
          \<and> ps_epoch_insert (epoch_row ?new key ?now s) d1 = Some (n2, d))
        \<and> logged e GR_CHANGE_EPOCH_ROTATED s None d ((reg_header ?q)\<lparr>h_epoch_id := h_epoch_id (reg_header ?q) + 1\<rparr>) r)
      \<and> idle r \<and> reg_join_state r = reg_join_state ?q"
  proof (rule txn_logged [OF rel i1 txn_epoch_rotate w, where h = "\<lambda>h. h\<lparr>h_epoch_id := h_epoch_id h + 1\<rparr>"])
    fix r0 r1
    assume t: "in_txn (reg_db ?q) (reg_header ?q) r0" and db: "reg_db r0 = reg_db ?q"
      and hd: "reg_header r0 = reg_header ?q" and x: "epoch_rotate_body e ?now s r0 = (GR_OK, r1)"
    from stmt_then_ok [OF x [unfolded epoch_rotate_body_def]] obtain n1 d1 r2
      where s1: "ps_epoch_expire ?now (h_epoch_id (reg_header r0)) (reg_db r0) = Some (n1, d1)"
        "epoch_install e (h_epoch_id (reg_header r2) + 1) ?now s r2 = (GR_OK, r1)"
        "r2 = (tick r0)\<lparr>reg_db := d1\<rparr>" by (elim exE conjE)
    have h2: "reg_header r2 = reg_header ?q" and t2: "in_txn (reg_db ?q) (reg_header ?q) (tick r2)"
      using s1(3) hd t by (simp_all add: in_txn_def)
    obtain key where key: "stmt_then e (ps_epoch_insert (epoch_row ?new key ?now s))
        (\<lambda>n. epoch_switch e ?new s) (tick r2) = (GR_OK, r1)"
      using s1(2) h2 by (auto simp: epoch_install_def split: option.splits)
    from stmt_then_ok [OF key] obtain n2 d2 r3
      where s2: "ps_epoch_insert (epoch_row ?new key ?now s) (reg_db (tick r2)) = Some (n2, d2)"
        "epoch_switch e ?new s r3 = (GR_OK, r1)" "r3 = (tick (tick r2))\<lparr>reg_db := d2\<rparr>" by (elim exE conjE)
    let ?r4 = "r3\<lparr>reg_header := (reg_header r3)\<lparr>h_epoch_id := ?new\<rparr>\<rparr>"
    have "in_txn (reg_db ?q) (reg_header ?q) ?r4" using s2(3) t2 by (simp add: in_txn_def)
    from audit_append_logged [OF rel this s2(2) [unfolded epoch_switch_def]]
    have "logged e GR_CHANGE_EPOCH_ROTATED s None d2 ((reg_header ?q)\<lparr>h_epoch_id := h_epoch_id (reg_header ?q) + 1\<rparr>) r1"
      using s2(3) h2 by simp
    then show "\<exists>d. (\<exists>key n1 d1 n2. ps_epoch_expire ?now (h_epoch_id (reg_header ?q)) (reg_db ?q) = Some (n1, d1)
          \<and> ps_epoch_insert (epoch_row ?new key ?now s) d1 = Some (n2, d))
        \<and> logged e GR_CHANGE_EPOCH_ROTATED s None d ((reg_header ?q)\<lparr>h_epoch_id := h_epoch_id (reg_header ?q) + 1\<rparr>) r1"
      using s1(1,3) s2(1) hd db by auto
  qed
  then obtain d key n1 d1 n2 where z: "ps_epoch_expire ?now (h_epoch_id (reg_header ?q)) (reg_db ?q) = Some (n1, d1)"
      "ps_epoch_insert (epoch_row ?new key ?now s) d1 = Some (n2, d)"
      "logged e GR_CHANGE_EPOCH_ROTATED s None d ((reg_header ?q)\<lparr>h_epoch_id := h_epoch_id (reg_header ?q) + 1\<rparr>) r"
      "idle r" "reg_join_state r = reg_join_state ?q" by (elim exE conjE)
  have "committed e GR_CHANGE_EPOCH_ROTATED s None (\<lambda>(d, h) (d', h').
        h' = h\<lparr>h_epoch_id := h_epoch_id h + 1\<rparr> \<and> (\<exists>now key n1 d1 n2.
          ps_epoch_expire now (h_epoch_id h) d = Some (n1, d1)
          \<and> ps_epoch_insert (epoch_row (h_epoch_id h + 1) key now s) d1 = Some (n2, d'))) ?q r"
    by (rule committedI [OF z(4,5) _ z(3)], simp only: prod.case, intro conjI exI, rule refl, rule z(1), rule z(2))
  from committed_quiet [OF quiet this] q(1,2) show ?thesis by simp
qed

lemma retention_set_ok:
  assumes rel: "reliable e" and idle: "idle reg" and res: "gr_retention_set e (Some p) (Some s) reg = (GR_OK, r)"
  shows "\<not> gr_join_is_untrusted reg \<and> and (perms_of reg (id_peer_id s)) GR_PERM_EDIT_RETENTION \<noteq> 0
    \<and> committed e GR_CHANGE_RETENTION_SET s None (\<lambda>(d, h) (d', h').
        h' = h\<lparr>h_retention := p\<rparr> \<and> d' = d\<lparr>db_header := [h']\<rparr>) reg r"
proof -
  from governed_then_ok [OF res [unfolded gr_retention_set_def option.case prod.case]] obtain q
    where q: "\<not> gr_join_is_untrusted reg" "and (perms_of reg (id_peer_id s)) GR_PERM_EDIT_RETENTION \<noteq> 0" "quiet reg q"
    and w: "with_txn e (retention_body e p s) q = (GR_OK, r)"
    by (elim exE conjE)
  have i1: "idle q" using q(3) idle by (simp add: quietD)
  have "(\<exists>d. d = (reg_db q)\<lparr>db_header := [(reg_header q)\<lparr>h_retention := p\<rparr>]\<rparr>
        \<and> logged e GR_CHANGE_RETENTION_SET s None d ((reg_header q)\<lparr>h_retention := p\<rparr>) r)
      \<and> idle r \<and> reg_join_state r = reg_join_state q"
  proof (rule txn_logged [OF rel i1 txn_retention w, where h = "\<lambda>h. h\<lparr>h_retention := p\<rparr>"])
    fix r0 r1
    assume t: "in_txn (reg_db q) (reg_header q) r0" and db: "reg_db r0 = reg_db q"
      and hd: "reg_header r0 = reg_header q" and x: "retention_body e p s r0 = (GR_OK, r1)"
    let ?r = "r0\<lparr>reg_header := (reg_header r0)\<lparr>h_retention := p\<rparr>\<rparr>"
    have t1: "in_txn (reg_db q) (reg_header q) ?r" using t by (simp add: in_txn_def)
    from gr_then_ok [OF x [unfolded retention_body_def]] obtain r2
      where s: "gr_header_save e ?r = (GR_OK, r2)" "gr_audit_append e GR_CHANGE_RETENTION_SET s None
        (Some (cstr ''retention policy updated'')) r2 = (GR_OK, r1)" by (elim exE conjE)
    have r2: "reg_db r2 = (reg_db ?r)\<lparr>db_header := [reg_header ?r]\<rparr>" "reg_header r2 = reg_header ?r"
        "in_txn (reg_db q) (reg_header q) r2"
      using header_save_result [OF rel t1 s(1)] by (simp_all add: txn_result_def)
    from audit_append_logged [OF rel r2(3) s(2)] r2(1,2) db hd
    show "\<exists>d. d = (reg_db q)\<lparr>db_header := [(reg_header q)\<lparr>h_retention := p\<rparr>]\<rparr>
        \<and> logged e GR_CHANGE_RETENTION_SET s None d ((reg_header q)\<lparr>h_retention := p\<rparr>) r1" by simp
  qed
  then have "committed e GR_CHANGE_RETENTION_SET s None (\<lambda>(d, h) (d', h').
        h' = h\<lparr>h_retention := p\<rparr> \<and> d' = d\<lparr>db_header := [h']\<rparr>) q r"
    unfolding committed_def by auto
  from committed_quiet [OF q(3) this] q(1,2) show ?thesis by simp
qed

end
