(* ===== verification/Registrar_Crypto.thy ===== *)
theory Registrar_Crypto imports Wire Epoch_Retention
begin

text \<open>
  Signing the registrar, signing data, and the group- and peer-scoped encryption:
  \<open>src/src/group_registrar/crypto.c\<close>.
\<close>

section \<open>The registrar's own signature\<close>

definition write_canonical_header :: "bool \<Rightarrow> (u64 \<Rightarrow> bool) \<Rightarrow> gr_header_t \<Rightarrow> gr_buf_t \<Rightarrow> gr_buf_t option" where
  "write_canonical_header h ra hdr = ser_seq
     [gr_buf_write ra (h_group_id hdr),
      gr_buf_write_u32 h ra (h_group_type hdr),
      gr_buf_write_str h ra (h_group_name hdr) GR_MAX_NAME_LEN,
      gr_buf_write_u32 h ra (h_version hdr),
      gr_buf_write_i64 h ra (h_created_at hdr),
      gr_buf_write_u32 h ra (h_epoch_id hdr),
      gr_buf_write_i64 h ra (message_retention_ms (h_retention hdr)),
      gr_buf_write_i64 h ra (file_retention_ms (h_retention hdr)),
      gr_buf_write_i64 h ra (registrar_max_bytes (h_retention hdr)),
      gr_buf_write ra (h_owner_id hdr),
      gr_buf_write ra (h_owner_sign_key hdr),
      gr_buf_write ra (h_signer_id hdr),
      gr_buf_write ra (h_signer_sign_key hdr)]"

text \<open>
  The bytes that are hashed.  Neither caller looks at the sticky error flag, so they hash what the
  buffer holds.  For a header whose arrays have their declared sizes the writes return
  (\<open>canonical_read\<close> in \<open>Crypto_Safety\<close>).
\<close>

definition canonical_bytes :: "yumi_env \<Rightarrow> gr_header_t \<Rightarrow> gr_buf_t \<Rightarrow> bytes" where
  "canonical_bytes e hdr buf =
     (case write_canonical_header (host_le e) (realloc_ok e) hdr buf of
        None \<Rightarrow> [] | Some b \<Rightarrow> buf_bytes b)"

text \<open>Hash and signature over the header that already names the signer.\<close>

definition sign_header :: "yumi_env \<Rightarrow> gr_identity_t \<Rightarrow> gr_registrar \<Rightarrow> gr_error_t \<times> gr_registrar" where
  "sign_header e signer reg =
     (case gr_buf_init (malloc_ok e (reg_calls reg)) 8192 of
        None \<Rightarrow> (GR_ERR_OUT_OF_MEMORY, tick reg)
      | Some buf \<Rightarrow>
          let data = canonical_bytes e (reg_header reg) buf; r1 = tick reg in
          if \<not> skein_ok e (reg_calls r1) then (GR_ERR_CRYPTO, tick r1)
          else let r2 = (tick r1)\<lparr>reg_header := (reg_header r1)\<lparr>h_hash := skein e data\<rparr>\<rparr> in
            case mldsa_sign e (reg_calls r2) (id_secret_key signer) (h_hash (reg_header r2)) of
              None \<Rightarrow> (GR_ERR_CRYPTO, tick r2)
            | Some sig \<Rightarrow>
                gr_header_save e ((tick r2)\<lparr>reg_header := (reg_header r2)\<lparr>h_signature := sig\<rparr>\<rparr>))"

definition sign_body :: "yumi_env \<Rightarrow> gr_identity_t \<Rightarrow> gr_registrar \<Rightarrow> gr_error_t \<times> gr_registrar" where
  "sign_body e signer reg =
     gr_then (gr_audit_append e GR_CHANGE_REGISTRAR_SIGNED signer None (Some (cstr ''registrar signed'')) reg)
       (\<lambda>r. sign_header e signer (r\<lparr>reg_header := (reg_header r)\<lparr>h_signer_id := id_peer_id signer,
              h_signer_sign_key := id_public_key signer\<rparr>\<rparr>))"

definition gr_sign :: "yumi_env \<Rightarrow> gr_identity_t option \<Rightarrow> gr_registrar \<Rightarrow> gr_error_t \<times> gr_registrar" where
  "gr_sign e signer reg =
     (case signer of
        None \<Rightarrow> (GR_ERR_INVALID_PARAM, reg)
      | Some s \<Rightarrow> gr_then (governed e s GR_PERM_SIGN_REGISTRAR reg) (with_txn e (sign_body e s)))"

definition gr_verify :: "yumi_env \<Rightarrow> gr_registrar \<Rightarrow> (gr_error_t + bool) \<times> gr_registrar" where
  "gr_verify e reg =
     (case gr_buf_init (malloc_ok e (reg_calls reg)) 8192 of
        None \<Rightarrow> (Inl GR_ERR_OUT_OF_MEMORY, tick reg)
      | Some buf \<Rightarrow>
          let hdr = reg_header reg; data = canonical_bytes e hdr buf; r1 = tick reg in
          if \<not> skein_ok e (reg_calls r1) then (Inl GR_ERR_CRYPTO, tick r1)
          else if skein e data \<noteq> h_hash hdr then (Inr False, tick r1)
          else (Inr (mldsa_verify e (h_signature hdr) (h_hash hdr) (h_signer_sign_key hdr)), tick r1))"

section \<open>Signing data\<close>

definition gr_sign_data :: "yumi_env \<Rightarrow> nat \<Rightarrow> gr_identity_t \<Rightarrow> bytes \<Rightarrow> gr_error_t + bytes" where
  "gr_sign_data e n signer data =
     (case mldsa_sign e n (id_secret_key signer) data of None \<Rightarrow> Inl GR_ERR_CRYPTO | Some s \<Rightarrow> Inr s)"

definition gr_verify_data :: "yumi_env \<Rightarrow> bytes \<Rightarrow> bytes \<Rightarrow> bytes \<Rightarrow> bool" where
  "gr_verify_data e public_key data signature = mldsa_verify e signature data public_key"

section \<open>Group-scoped encryption\<close>

abbreviation (input) GR_NONCE_LEN :: nat where "GR_NONCE_LEN \<equiv> 16"
abbreviation (input) GR_MAC_LEN :: nat where "GR_MAC_LEN \<equiv> 128"
abbreviation (input) GR_KEM_CIPHERTEXT_LEN :: nat where "GR_KEM_CIPHERTEXT_LEN \<equiv> 1568"

text \<open>
  \<open>out_len\<close> is the capacity of the output on entry.  With \<open>GR_ERR_SIZE_EXCEEDED\<close> it becomes the
  size needed, which is part of the result here.
\<close>

definition gr_encrypt :: "yumi_env \<Rightarrow> bytes \<Rightarrow> bytes \<Rightarrow> nat \<Rightarrow> gr_registrar \<Rightarrow>
    (gr_error_t \<times> nat + bytes) \<times> gr_registrar" where
  "gr_encrypt e plaintext ad out_len reg =
     (case gr_epoch_get_current e reg of
        (Inl err, r1) \<Rightarrow> (Inl (err, out_len), r1)
      | (Inr epoch, r1) \<Rightarrow>
          let required = GR_NONCE_LEN + length plaintext + GR_MAC_LEN in
          if out_len < required then (Inl (GR_ERR_SIZE_EXCEEDED, required), r1)
          else case randombytes e (reg_calls r1) GR_NONCE_LEN of
                 None \<Rightarrow> (Inl (GR_ERR_CRYPTO, out_len), tick r1)
               | Some nonce \<Rightarrow>
                   let r2 = tick r1 in
                   case yumi_aead_encrypt e (malloc_ok e (reg_calls r2)) plaintext ad nonce (e_epoch_key epoch) of
                     Inl _ \<Rightarrow> (Inl (GR_ERR_CRYPTO, out_len), tick r2)
                   | Inr ct \<Rightarrow> (Inr (nonce @ ct), tick r2))"

text \<open>The trial decryption, last epoch of the list first.\<close>

fun try_epochs :: "yumi_env \<Rightarrow> bytes \<Rightarrow> bytes \<Rightarrow> bytes \<Rightarrow> gr_epoch_t list \<Rightarrow> gr_registrar \<Rightarrow>
    (gr_error_t + bytes \<times> u32) \<times> gr_registrar" where
  "try_epochs e nonce ct ad [] reg = (Inl GR_ERR_CRYPTO, reg)"
| "try_epochs e nonce ct ad (ep # eps) reg =
     (case yumi_aead_decrypt e (malloc_ok e (reg_calls reg)) ct ad nonce (e_epoch_key ep) of
        Inr pt \<Rightarrow> (Inr (pt, e_epoch_id ep), tick reg)
      | Inl _ \<Rightarrow> try_epochs e nonce ct ad eps (tick reg))"

text \<open>The error of \<open>gr_epoch_count\<close> is not looked at: the count is then what the stack held.\<close>

definition gr_decrypt :: "yumi_env \<Rightarrow> bytes \<Rightarrow> bytes \<Rightarrow> gr_registrar \<Rightarrow>
    (gr_error_t + bytes \<times> u32) \<times> gr_registrar" where
  "gr_decrypt e ciphertext ad reg =
     (if length ciphertext < GR_NONCE_LEN + GR_MAC_LEN then (Inl GR_ERR_INVALID_PARAM, reg)
      else let nonce = take GR_NONCE_LEN ciphertext; ct = drop GR_NONCE_LEN ciphertext in
        case gr_epoch_count e reg of (cres, r1) \<Rightarrow>
        let ecount = (case cres of Inl _ \<Rightarrow> mem_word (host_le e) (uninit e (reg_calls reg) 4) | Inr n \<Rightarrow> n) in
        if \<not> malloc_ok e (reg_calls r1) then (Inl GR_ERR_OUT_OF_MEMORY, tick r1)
        else case gr_epoch_list e ecount (tick r1) of
               (Inl err, r2) \<Rightarrow> (Inl err, r2)
             | (Inr epochs, r2) \<Rightarrow> try_epochs e nonce ct ad (rev epochs) r2)"

section \<open>Peer-scoped encryption\<close>

definition peer_info :: bytes where "peer_info = cstr ''yumi-peer-encrypt-v1''"

text \<open>The derived key; the scratch buffer of the derivation comes from a pool that may be empty.\<close>

definition peer_key :: "yumi_env \<Rightarrow> nat \<Rightarrow> bytes \<Rightarrow> bytes \<Rightarrow> bytes option" where
  "peer_key e n ss kem_pk =
     (case yumi_hkdf e (\<lambda>i. lease_ok e (n + i)) 128 ss (Some kem_pk) peer_info of
        Some (Inr k) \<Rightarrow> Some k | _ \<Rightarrow> None)"

definition gr_encrypt_for_peer :: "yumi_env \<Rightarrow> nat \<Rightarrow> bytes \<Rightarrow> bytes \<Rightarrow> nat \<Rightarrow> gr_error_t \<times> nat + bytes" where
  "gr_encrypt_for_peer e n peer_kem_pk plaintext out_len =
     (let required = GR_KEM_CIPHERTEXT_LEN + GR_NONCE_LEN + length plaintext + GR_MAC_LEN in
      if out_len < required then Inl (GR_ERR_SIZE_EXCEEDED, required)
      else case mlkem_encaps e n peer_kem_pk of
             None \<Rightarrow> Inl (GR_ERR_CRYPTO, out_len)
           | Some (kem_ct, ss) \<Rightarrow>
               (case peer_key e (n + 1) ss peer_kem_pk of
                  None \<Rightarrow> Inl (GR_ERR_CRYPTO, out_len)
                | Some key \<Rightarrow>
                    (case randombytes e (n + 2) GR_NONCE_LEN of
                       None \<Rightarrow> Inl (GR_ERR_CRYPTO, out_len)
                     | Some nonce \<Rightarrow>
                         (case yumi_aead_encrypt e (malloc_ok e (n + 3)) plaintext [] nonce key of
                            Inl _ \<Rightarrow> Inl (GR_ERR_CRYPTO, out_len)
                          | Inr ct \<Rightarrow> Inr (kem_ct @ nonce @ ct)))))"

definition gr_decrypt_from_peer :: "yumi_env \<Rightarrow> nat \<Rightarrow> gr_identity_t \<Rightarrow> bytes \<Rightarrow> gr_error_t + bytes" where
  "gr_decrypt_from_peer e n self ciphertext =
     (if length ciphertext < GR_KEM_CIPHERTEXT_LEN + GR_NONCE_LEN + GR_MAC_LEN then Inl GR_ERR_INVALID_PARAM
      else case mlkem_decaps e (id_kem_sk self) (take GR_KEM_CIPHERTEXT_LEN ciphertext) of
             None \<Rightarrow> Inl GR_ERR_CRYPTO
           | Some ss \<Rightarrow>
               (case peer_key e n ss (id_kem_pk self) of
                  None \<Rightarrow> Inl GR_ERR_CRYPTO
                | Some key \<Rightarrow>
                    (case yumi_aead_decrypt e (malloc_ok e (n + 1))
                            (drop (GR_KEM_CIPHERTEXT_LEN + GR_NONCE_LEN) ciphertext) []
                            (take GR_NONCE_LEN (drop GR_KEM_CIPHERTEXT_LEN ciphertext)) key of
                       Inl _ \<Rightarrow> Inl GR_ERR_CRYPTO | Inr pt \<Rightarrow> Inr pt)))"

section \<open>Signing is a transaction\<close>

lemma txn_sign_header: "txn_body e (sign_header e s)"
proof (rule txn_bodyI)
  fix d0 h0 reg assume rel: "reliable e" and t: "in_txn d0 h0 reg"
  have t': "in_txn d0 h0 (r\<lparr>reg_header := h\<rparr>)" if "in_txn d0 h0 r" for r h
    using that by (simp add: in_txn_def)
  have tt: "in_txn d0 h0 (tick r)" if "in_txn d0 h0 r" for r
    using that by (simp add: in_txn_def)
  note save = txn_bodyD [OF txn_header_save rel t' [OF tt [OF t' [OF tt [OF tt [OF t]]]]]]
  show "txn_result d0 h0 reg (sign_header e s reg)"
    using save tt [OF t] tt [OF tt [OF t]] tt [OF t' [OF tt [OF tt [OF t]]]]
    by (auto simp: sign_header_def gr_buf_init_def Let_def txn_result_def split: option.splits)
qed

lemma txn_sign: "txn_body e (sign_body e s)"
  unfolding sign_body_def [abs_def]
  by (rule txn_then [OF txn_audit_append], rule txn_set_header [OF txn_sign_header])

interpretation sign_txn: txn_body e "sign_body e s" for e s
  by unfold_locales (rule txn_bodyD [OF txn_sign])

lemma atomic_sign: "atomic_op e (gr_sign e signer)"
proof (cases signer)
  case None
  then show ?thesis using atomic_const by (simp add: gr_sign_def [abs_def])
next
  case (Some s)
  show ?thesis unfolding gr_sign_def [abs_def] Some option.case
    by (rule atomic_governed, rule atomic_txn [OF txn_sign])
qed

text \<open>
  A header that carries its own hash and a signature of it by the key it names: what a successful
  \<open>gr_sign\<close> leaves and what \<open>gr_verify\<close> looks for.
\<close>

definition fresh_buf :: gr_buf_t where
  "fresh_buf = \<lparr>buf_data = Some [], buf_cap = 8192, buf_error = False\<rparr>"

definition sealed :: "yumi_env \<Rightarrow> gr_identity_t \<Rightarrow> gr_header_t \<Rightarrow> bool" where
  "sealed e s hdr \<longleftrightarrow> h_hash hdr = skein e (canonical_bytes e hdr fresh_buf)
     \<and> h_signer_sign_key hdr = id_public_key s \<and> h_signer_id hdr = id_peer_id s
     \<and> (\<exists>n. mldsa_sign e n (id_secret_key s) (h_hash hdr) = Some (h_signature hdr))"

lemma canonical_bytes_frame:
  "canonical_bytes e (hdr\<lparr>h_hash := x, h_signature := y\<rparr>) buf = canonical_bytes e hdr buf"
  by (simp add: canonical_bytes_def write_canonical_header_def)

lemma sign_header_ok:
  assumes rel: "reliable e" and t: "in_txn d0 h0 reg" and res: "sign_header e s reg = (GR_OK, r)"
    and who: "h_signer_id (reg_header reg) = id_peer_id s" "h_signer_sign_key (reg_header reg) = id_public_key s"
  shows "sealed e s (reg_header r) \<and> reg_db r = (reg_db reg)\<lparr>db_header := [reg_header r]\<rparr>
    \<and> (\<exists>x y. reg_header r = (reg_header reg)\<lparr>h_hash := x, h_signature := y\<rparr>) \<and> in_txn d0 h0 r"
proof -
  let ?data = "canonical_bytes e (reg_header reg) fresh_buf"
  obtain n sig r2 where x: "mldsa_sign e n (id_secret_key s) (skein e ?data) = Some sig"
      "gr_header_save e r2 = (GR_OK, r)" "in_txn d0 h0 r2" "reg_db r2 = reg_db reg"
      "reg_header r2 = (reg_header reg)\<lparr>h_hash := skein e ?data, h_signature := sig\<rparr>"
    using res t by (auto simp: sign_header_def gr_buf_init_def Let_def fresh_buf_def in_txn_def
        split: if_splits option.splits)
  note hs = header_save_result [OF rel x(3) x(2)]
  have h: "reg_header r = (reg_header reg)\<lparr>h_hash := skein e ?data, h_signature := sig\<rparr>" using hs x(5) by simp
  have "sealed e s (reg_header r)"
    unfolding sealed_def h canonical_bytes_frame using who x(1) by auto
  moreover have "\<exists>x y. reg_header r = (reg_header reg)\<lparr>h_hash := x, h_signature := y\<rparr>"
    by (intro exI) (rule h)
  ultimately show ?thesis using hs x(4) by (auto simp: txn_result_def)
qed

lemma sign_ok:
  assumes rel: "reliable e" and idle: "idle reg" and res: "gr_sign e (Some s) reg = (GR_OK, r)"
  shows "\<not> gr_join_is_untrusted reg \<and> and (perms_of reg (id_peer_id s)) GR_PERM_SIGN_REGISTRAR \<noteq> 0
    \<and> idle r \<and> reg_join_state r = reg_join_state reg \<and> sealed e s (reg_header r)
    \<and> (\<exists>r1. logged e GR_CHANGE_REGISTRAR_SIGNED s None (reg_db reg) (reg_header reg) r1
         \<and> reg_db r = (reg_db r1)\<lparr>db_header := [reg_header r]\<rparr>
         \<and> (\<exists>x y. reg_header r = (reg_header r1)\<lparr>h_signer_id := id_peer_id s,
               h_signer_sign_key := id_public_key s, h_hash := x, h_signature := y\<rparr>))"
proof -
  from governed_then_ok [OF res [unfolded gr_sign_def option.case]] obtain q
    where q: "\<not> gr_join_is_untrusted reg" "and (perms_of reg (id_peer_id s)) GR_PERM_SIGN_REGISTRAR \<noteq> 0" "quiet reg q"
    and w: "with_txn e (sign_body e s) q = (GR_OK, r)" by (elim exE conjE)
  have i1: "idle q" using q(3) idle by (simp add: quietD)
  from with_txn_ok [OF txn_sign rel i1 w] obtain r0 r3 where b: "sign_body e s r0 = (GR_OK, r3)"
    "reg_db r0 = reg_db q" "reg_header r0 = reg_header q" "in_txn (reg_db q) (reg_header q) r0"
    "reg_db r = reg_db r3" "reg_header r = reg_header r3" "idle r" "reg_join_state r = reg_join_state q"
    by (elim exE conjE)
  from gr_then_ok [OF b(1) [unfolded sign_body_def]] obtain r1
    where s1: "gr_audit_append e GR_CHANGE_REGISTRAR_SIGNED s None (Some (cstr ''registrar signed'')) r0 = (GR_OK, r1)"
      "sign_header e s (r1\<lparr>reg_header := (reg_header r1)\<lparr>h_signer_id := id_peer_id s,
              h_signer_sign_key := id_public_key s\<rparr>\<rparr>) = (GR_OK, r3)" by (elim exE conjE)
  have lg: "logged e GR_CHANGE_REGISTRAR_SIGNED s None (reg_db reg) (reg_header reg) r1"
    using audit_append_logged [OF rel b(4) s1(1)] b(2,3) q(3) by (simp add: quietD)
  have "txn_result (reg_db q) (reg_header q) r0 (GR_OK, r1)"
    using txn_bodyD [OF txn_audit_append rel b(4)] s1(1) by metis
  then have t1: "in_txn (reg_db q) (reg_header q) (r1\<lparr>reg_header := h\<rparr>)" for h
    by (simp add: txn_result_def in_txn_def)
  note sh = sign_header_ok [OF rel t1 s1(2)]
  have "\<exists>x y. reg_header r = (reg_header r1)\<lparr>h_signer_id := id_peer_id s,
               h_signer_sign_key := id_public_key s, h_hash := x, h_signature := y\<rparr>"
    using sh b(6) by auto
  then show ?thesis using q b sh lg by (auto simp: quietD)
qed

text \<open>
  Signing, then verifying: for a signature scheme that accepts what its secret key signed, and an
  environment that has memory and a working hash, the verdict is positive.
\<close>

lemma verify_sealed:
  assumes "sealed e s (reg_header reg)" and "\<And>n. malloc_ok e n" and "\<And>n. skein_ok e n"
    and "\<And>n m sig. mldsa_sign e n (id_secret_key s) m = Some sig \<Longrightarrow> mldsa_verify e sig m (id_public_key s)"
  shows "fst (gr_verify e reg) = Inr True"
  using assms by (auto simp: gr_verify_def gr_buf_init_def sealed_def fresh_buf_def Let_def)

end
