(* ===== verification/Governance.thy ===== *)
theory Governance imports Webapp_Server Icon Invite Registrar_Crypto
begin

text \<open>
  The mutating operations of a registrar together: one constructor of \<open>gov_op\<close> per operation of the
  public interface that changes the group, \<open>run_gov\<close> calls it.  The theory states what they have in
  common: all or nothing, the guards, the audit trail.
\<close>

section \<open>The operations\<close>

datatype gov_op =
    PeerAdd "gr_peer_t option"
  | PeerKick "bytes option" "bytes option"
  | PeerBan "bytes option" "bytes option"
  | PeerLeave
  | PeerUpdateAddress "bytes option" u16
  | PeerObservedAddress "bytes option" "bytes option" u16
  | PeerSetRole "bytes option" u32
  | RoleAdd "bytes option" u32
  | RoleRemove u32
  | RoleSetPermissions u32 u32
  | EpochRotate
  | RetentionSet "gr_retention_t option"
  | WebappAdd "gr_webapp_t option"
  | WebappRemove "bytes option"
  | WebappPermData "bytes option" "bytes option"
  | WebappRoleMask "bytes option" "bytes option"
  | ServerAdd "gr_server_t option"
  | ServerRemove "bytes option"
  | IconSet "bytes option" "bytes option" u16 u16 bool "bytes option"
  | IconRemove
  | InviteCreate i64
  | InviteInvalidate "bytes option"
  | InviteMarkUsed "bytes option" "bytes option"
  | Sign

fun run_gov :: "yumi_env \<Rightarrow> gov_op \<Rightarrow> gr_identity_t option \<Rightarrow> gr_registrar \<Rightarrow> gr_error_t \<times> gr_registrar" where
  "run_gov e (PeerAdd p) s reg = gr_peer_add e p s reg"
| "run_gov e (PeerKick pid reason) s reg = gr_peer_kick e pid reason s reg"
| "run_gov e (PeerBan pid reason) s reg = gr_peer_ban e pid reason s reg"
| "run_gov e PeerLeave s reg = gr_peer_leave e s reg"
| "run_gov e (PeerUpdateAddress ip port) s reg = gr_peer_update_address e ip port s reg"
| "run_gov e (PeerObservedAddress pid ip port) s reg = gr_peer_observed_address e pid ip port s reg"
| "run_gov e (PeerSetRole pid rid) s reg = gr_peer_set_role e pid rid s reg"
| "run_gov e (RoleAdd nm perms) s reg = err_of (gr_role_add e nm perms s reg)"
| "run_gov e (RoleRemove rid) s reg = gr_role_remove e rid s reg"
| "run_gov e (RoleSetPermissions rid perms) s reg = gr_role_set_permissions e rid perms s reg"
| "run_gov e EpochRotate s reg = gr_epoch_rotate e s reg"
| "run_gov e (RetentionSet p) s reg = gr_retention_set e p s reg"
| "run_gov e (WebappAdd w) s reg = gr_webapp_add e w s reg"
| "run_gov e (WebappRemove h) s reg = gr_webapp_remove e h s reg"
| "run_gov e (WebappPermData h b) s reg = gr_webapp_update_perm_data e h b s reg"
| "run_gov e (WebappRoleMask h b) s reg = gr_webapp_update_role_mask e h b s reg"
| "run_gov e (ServerAdd sv) s reg = gr_server_add e sv s reg"
| "run_gov e (ServerRemove h) s reg = gr_server_remove e h s reg"
| "run_gov e (IconSet data mime w h video sf) s reg = gr_group_icon_set e data mime w h video sf s reg"
| "run_gov e IconRemove s reg = gr_group_icon_remove e s reg"
| "run_gov e (InviteCreate expires) s reg = err_of (gr_invite_create e s expires reg)"
| "run_gov e (InviteInvalidate tok) s reg = gr_invite_invalidate e tok s reg"
| "run_gov e (InviteMarkUsed tok pid) s reg = gr_invite_mark_used e tok pid s reg"
| "run_gov e Sign s reg = gr_sign e s reg"

text \<open>An operation that fails leaves the tables and the header as they were.\<close>

lemma gov_atomic: "atomic_op e (run_gov e op s)"
  by (cases op)
     (simp_all add: run_gov.simps [abs_def] atomic_peer_add atomic_peer_kick atomic_peer_ban atomic_peer_leave
       atomic_peer_update_address atomic_peer_observed_address atomic_peer_set_role atomic_role_add
       atomic_role_remove atomic_role_set_permissions atomic_epoch_rotate atomic_retention_set
       atomic_webapp_add atomic_webapp_remove atomic_webapp_update_perm_data atomic_webapp_update_role_mask
       atomic_server_add atomic_server_remove atomic_group_icon_set atomic_group_icon_remove
       atomic_invite_create atomic_invite_invalidate atomic_invite_mark_used atomic_sign)

section \<open>What an operation does to the tables\<close>

text \<open>The change code and the target of the audit entry.\<close>

fun change_of :: "gov_op \<Rightarrow> u32" where
  "change_of (PeerAdd p) = GR_CHANGE_PEER_ADDED"
| "change_of (PeerKick pid reason) = GR_CHANGE_PEER_KICKED"
| "change_of (PeerBan pid reason) = GR_CHANGE_PEER_BANNED"
| "change_of PeerLeave = GR_CHANGE_PEER_REMOVED"
| "change_of (PeerUpdateAddress ip port) = GR_CHANGE_PEER_ADDRESS"
| "change_of (PeerObservedAddress pid ip port) = GR_CHANGE_PEER_ADDRESS"
| "change_of (PeerSetRole pid rid) = GR_CHANGE_PEER_ROLE_CHANGED"
| "change_of (RoleAdd nm perms) = GR_CHANGE_ROLE_ADDED"
| "change_of (RoleRemove rid) = GR_CHANGE_ROLE_REMOVED"
| "change_of (RoleSetPermissions rid perms) = GR_CHANGE_ROLE_MODIFIED"
| "change_of EpochRotate = GR_CHANGE_EPOCH_ROTATED"
| "change_of (RetentionSet p) = GR_CHANGE_RETENTION_SET"
| "change_of (WebappAdd w) = GR_CHANGE_WEBAPP_ADDED"
| "change_of (WebappRemove h) = GR_CHANGE_WEBAPP_REMOVED"
| "change_of (WebappPermData h b) = GR_CHANGE_WEBAPP_MODIFIED"
| "change_of (WebappRoleMask h b) = GR_CHANGE_WEBAPP_MODIFIED"
| "change_of (ServerAdd sv) = GR_CHANGE_SERVER_ADDED"
| "change_of (ServerRemove h) = GR_CHANGE_SERVER_REMOVED"
| "change_of (IconSet data mime w h video sf) = GR_CHANGE_GROUP_ICON_SET"
| "change_of IconRemove = GR_CHANGE_GROUP_ICON_REMOVED"
| "change_of (InviteCreate expires) = GR_CHANGE_INVITE_CREATED"
| "change_of (InviteInvalidate tok) = GR_CHANGE_INVITE_INVALIDATED"
| "change_of (InviteMarkUsed tok pid) = GR_CHANGE_INVITE_USED"
| "change_of Sign = GR_CHANGE_REGISTRAR_SIGNED"

fun target_of :: "gov_op \<Rightarrow> gr_identity_t \<Rightarrow> bytes option" where
  "target_of (PeerAdd p) s = map_option p_peer_id p"
| "target_of (PeerKick pid reason) s = pid"
| "target_of (PeerBan pid reason) s = pid"
| "target_of PeerLeave s = Some (id_peer_id s)"
| "target_of (PeerUpdateAddress ip port) s = Some (id_peer_id s)"
| "target_of (PeerObservedAddress pid ip port) s = pid"
| "target_of (PeerSetRole pid rid) s = pid"
| "target_of (InviteMarkUsed tok pid) s = pid"
| "target_of op s = None"

text \<open>
  The guards: operations that an unverified joiner may not perform, and the permission the signer
  must hold, given the type of the group.
\<close>

fun trust_guarded :: "gov_op \<Rightarrow> bool" where
  "trust_guarded (PeerUpdateAddress ip port) = False"
| "trust_guarded (PeerObservedAddress pid ip port) = False"
| "trust_guarded (InviteInvalidate tok) = False"
| "trust_guarded (InviteMarkUsed tok pid) = False"
| "trust_guarded op = True"

fun required_perm :: "gov_op \<Rightarrow> u32 \<Rightarrow> u32 option" where
  "required_perm (PeerAdd p) gt = (if gt = GR_GROUP_PRIVATE then Some GR_PERM_INVITE_MEMBER else None)"
| "required_perm (PeerKick pid reason) gt = Some GR_PERM_KICK_MEMBER"
| "required_perm (PeerBan pid reason) gt = Some GR_PERM_BAN_MEMBER"
| "required_perm PeerLeave gt = None"
| "required_perm (PeerUpdateAddress ip port) gt = None"
| "required_perm (PeerObservedAddress pid ip port) gt = None"
| "required_perm (PeerSetRole pid rid) gt = Some GR_PERM_EDIT_ROLES"
| "required_perm (RoleAdd nm perms) gt = Some GR_PERM_EDIT_ROLES"
| "required_perm (RoleRemove rid) gt = Some GR_PERM_EDIT_ROLES"
| "required_perm (RoleSetPermissions rid perms) gt = Some GR_PERM_EDIT_ROLES"
| "required_perm EpochRotate gt = Some GR_PERM_ROTATE_EPOCH"
| "required_perm (RetentionSet p) gt = Some GR_PERM_EDIT_RETENTION"
| "required_perm (WebappAdd w) gt = Some GR_PERM_ADD_WEBAPP"
| "required_perm (WebappRemove hash) gt = Some GR_PERM_REMOVE_WEBAPP"
| "required_perm (WebappPermData hash b) gt = Some GR_PERM_ADD_WEBAPP"
| "required_perm (WebappRoleMask hash b) gt = Some GR_PERM_SET_WEBAPP_ROLES"
| "required_perm (ServerAdd sv) gt = Some GR_PERM_EDIT_SERVERS"
| "required_perm (ServerRemove hash) gt = Some GR_PERM_EDIT_SERVERS"
| "required_perm (IconSet data mime w ht video sf) gt = Some GR_PERM_SET_GROUP_ICON"
| "required_perm IconRemove gt = Some GR_PERM_SET_GROUP_ICON"
| "required_perm (InviteCreate expires) gt = Some GR_PERM_INVITE_MEMBER"
| "required_perm (InviteInvalidate tok) gt = Some GR_PERM_INVITE_MEMBER"
| "required_perm (InviteMarkUsed tok pid) gt = None"
| "required_perm Sign gt = Some GR_PERM_SIGN_REGISTRAR"

definition gov_allowed :: "gov_op \<Rightarrow> gr_identity_t \<Rightarrow> gr_registrar \<Rightarrow> bool" where
  "gov_allowed op s reg \<longleftrightarrow> (trust_guarded op \<longrightarrow> \<not> gr_join_is_untrusted reg)
     \<and> (case required_perm op (h_group_type (reg_header reg)) of
          None \<Rightarrow> True | Some perm \<Rightarrow> and (perms_of reg (id_peer_id s)) perm \<noteq> 0)"

text \<open>
  \<open>gov_step op s (d, h) (d', h')\<close>: the change of the tables and the header before the audit entry
  is appended.
\<close>

fun gov_step :: "gov_op \<Rightarrow> gr_identity_t \<Rightarrow> gr_db \<times> gr_header_t \<Rightarrow> gr_db \<times> gr_header_t \<Rightarrow> bool" where
  "gov_step (PeerAdd (Some p)) s (d, h) (d', h') = (h' = h \<and>
     ((\<exists>p0 n. ps_peer_get (p_peer_id p) d = Some p0 \<and> p_status p0 = GR_PEER_KICKED
        \<and> ps_peer_update_status GR_PEER_ACTIVE 0 [] zero_id (p_peer_id p) d = Some (n, d'))
      \<or> (\<exists>n. ps_peer_insert (peer_add_row p) d = Some (n, d'))))"
| "gov_step (PeerKick (Some pid) reason) s (d, h) (d', h') = (h' = h
     \<and> (\<exists>p. ps_peer_get pid d = Some p \<and> p_status p = GR_PEER_ACTIVE) \<and> h_owner_id h \<noteq> pid
     \<and> (\<exists>now n. ps_peer_update_status GR_PEER_KICKED now (reason_or reason []) (id_peer_id s) pid d = Some (n, d')))"
| "gov_step (PeerBan (Some pid) reason) s (d, h) (d', h') = (h' = h
     \<and> ps_peer_get pid d \<noteq> None \<and> h_owner_id h \<noteq> pid
     \<and> (\<exists>now n. ps_peer_update_status GR_PEER_BANNED now (reason_or reason []) (id_peer_id s) pid d = Some (n, d')))"
| "gov_step PeerLeave s (d, h) (d', h') = (h' = h
     \<and> (\<exists>p. ps_peer_get (id_peer_id s) d = Some p \<and> p_status p = GR_PEER_ACTIVE) \<and> h_owner_id h \<noteq> id_peer_id s
     \<and> (\<exists>now n. ps_peer_update_status GR_PEER_LEFT now (cstr ''left voluntarily'') (id_peer_id s) (id_peer_id s) d
          = Some (n, d')))"
| "gov_step (PeerUpdateAddress (Some ip) port) s (d, h) (d', h') = (h' = h
     \<and> (\<exists>now n. ps_peer_update_addr ip port now (id_peer_id s) d = Some (n, d')))"
| "gov_step (PeerObservedAddress (Some pid) (Some ip) port) s (d, h) (d', h') = (h' = h
     \<and> (\<exists>p. ps_peer_get pid d = Some p \<and> p_status p = GR_PEER_ACTIVE)
     \<and> (\<exists>now n. ps_peer_update_addr ip port now pid d = Some (n, d')))"
| "gov_step (PeerSetRole (Some pid) rid) s (d, h) (d', h') = (h' = h
     \<and> (0 < rid \<longrightarrow> ps_role_get rid d \<noteq> None) \<and> (\<exists>n. ps_peer_set_role rid pid d = Some (n, d')))"
| "gov_step (RoleAdd (Some nm) perms) s (d, h) (d', h') = (h' = h
     \<and> (of_nat (length (db_roles d)) :: u32) < GR_MAX_ROLES
     \<and> (\<exists>role n. ps_role_next_id d = Some (r_role_id role) \<and> r_name role = nm \<and> r_permissions role = perms
         \<and> ps_role_insert role d = Some (n, d')))"
| "gov_step (RoleRemove rid) s (d, h) (d', h') = (h' = h \<and> ps_role_get rid d \<noteq> None
     \<and> (\<exists>m d1 n. ps_peer_reset_role rid d = Some (m, d1) \<and> ps_role_delete rid d1 = Some (n, d')))"
| "gov_step (RoleSetPermissions rid perms) s (d, h) (d', h') = (h' = h
     \<and> (\<exists>now n. ps_role_set_perms perms now rid d = Some (n, d')))"
| "gov_step EpochRotate s (d, h) (d', h') = (h' = h\<lparr>h_epoch_id := h_epoch_id h + 1\<rparr>
     \<and> (\<exists>now key n1 d1 n2. ps_epoch_expire now (h_epoch_id h) d = Some (n1, d1)
          \<and> ps_epoch_insert (epoch_row (h_epoch_id h + 1) key now s) d1 = Some (n2, d')))"
| "gov_step (RetentionSet (Some p)) s (d, h) (d', h') =
     (h' = h\<lparr>h_retention := p\<rparr> \<and> d' = d\<lparr>db_header := [h']\<rparr>)"
| "gov_step (WebappAdd (Some w)) s (d, h) (d', h') = (h' = h
     \<and> arg_len (w_perm_data w) \<le> GR_WEBAPP_PERM_DATA_MAX \<and> arg_len (w_role_mask w) \<le> GR_WEBAPP_ROLE_MASK_MAX
     \<and> (\<exists>now n. ps_webapp_insert (webapp_row w now s) d = Some (n, d')))"
| "gov_step (WebappRemove (Some hash)) s (d, h) (d', h') = (h' = h
     \<and> (\<exists>n. n \<noteq> 0 \<and> ps_webapp_delete hash d = Some (n, d')))"
| "gov_step (WebappPermData (Some hash) b) s (d, h) (d', h') = (h' = h \<and> arg_len b \<le> GR_WEBAPP_PERM_DATA_MAX
     \<and> (\<exists>n. n \<noteq> 0 \<and> ps_webapp_update_perm_data hash (blob_arg b) d = Some (n, d')))"
| "gov_step (WebappRoleMask (Some hash) b) s (d, h) (d', h') = (h' = h \<and> arg_len b \<le> GR_WEBAPP_ROLE_MASK_MAX
     \<and> (\<exists>n. n \<noteq> 0 \<and> ps_webapp_update_role_mask hash (blob_arg b) d = Some (n, d')))"
| "gov_step (ServerAdd (Some sv)) s (d, h) (d', h') = (h' = h \<and> (\<exists>n. ps_server_insert sv d = Some (n, d')))"
| "gov_step (ServerRemove (Some hash)) s (d, h) (d', h') = (h' = h
     \<and> (\<exists>n. n \<noteq> 0 \<and> ps_server_delete hash d = Some (n, d')))"
| "gov_step (IconSet (Some data) (Some mime) w ht video sf) s (d, h) (d', h') = (h' = h
     \<and> icon_check data mime w ht video sf = GR_OK
     \<and> (\<exists>row. ic_data row = data \<and> ic_mime_type row = mime \<and> ic_width row = ucast w \<and> ic_height row = ucast ht
         \<and> ic_is_video row = video \<and> ic_static_frame row = blob_arg sf \<and> ic_updated_by row = id_peer_id s
         \<and> d' = d\<lparr>db_icon := [row]\<rparr>))"
| "gov_step IconRemove s (d, h) (d', h') = (h' = h \<and> (d' = d \<or> d' = d\<lparr>db_icon := []\<rparr>))"
| "gov_step (InviteCreate expires) s (d, h) (d', h') = (h' = h
     \<and> (\<exists>token now n. ps_invite_insert (invite_row token now expires s) d = Some (n, d')))"
| "gov_step (InviteInvalidate (Some tok)) s (d, h) (d', h') = (h' = h
     \<and> (\<exists>n. n \<noteq> 0 \<and> ps_invite_invalidate tok d = Some (n, d')))"
| "gov_step (InviteMarkUsed (Some tok) (Some pid)) s (d, h) (d', h') = (h' = h
     \<and> (\<exists>i (now :: i64). tbl_get i_verification_token tok (db_invites d) = Some i
          \<and> \<not> i_used i \<and> \<not> i_invalidated i \<and> (i_expires_at i = 0 \<or> sint now < sint (i_expires_at i)))
     \<and> (\<exists>n. ps_invite_mark_used pid tok d = Some (n, d')))"
| "gov_step Sign s (d, h) (d', h') = (h' = h \<and> d' = d)"
| "gov_step op s x y = False"

declare gov_step.simps [simp del]

section \<open>What success means, for every operation\<close>

text \<open>The header fields that only the operations on them change.\<close>

definition header_kept :: "gr_header_t \<Rightarrow> gr_header_t \<Rightarrow> bool" where
  "header_kept h h' \<longleftrightarrow> h_group_id h' = h_group_id h \<and> h_group_type h' = h_group_type h
     \<and> h_group_name h' = h_group_name h \<and> h_created_at h' = h_created_at h \<and> h_epoch_id h' = h_epoch_id h
     \<and> h_retention h' = h_retention h \<and> h_owner_id h' = h_owner_id h
     \<and> h_owner_sign_key h' = h_owner_sign_key h"

text \<open>
  \<open>published\<close>: the change \<open>step\<close> of the tables and header is stored with one new audit entry and
  the next version; the stored header is the one in memory.
\<close>

definition published :: "yumi_env \<Rightarrow> u32 \<Rightarrow> gr_identity_t \<Rightarrow> bytes option \<Rightarrow>
    (gr_db \<times> gr_header_t \<Rightarrow> gr_db \<times> gr_header_t \<Rightarrow> bool) \<Rightarrow> gr_registrar \<Rightarrow> gr_registrar \<Rightarrow> bool" where
  "published e ct actor target step reg r \<longleftrightarrow> idle r \<and> reg_join_state r = reg_join_state reg
     \<and> (\<exists>d h entry t'. step (reg_db reg, reg_header reg) (d, h)
          \<and> a_change_type entry = ct \<and> a_actor_id entry = id_peer_id actor
          \<and> a_target_id entry = (case target of None \<Rightarrow> zero_id | Some t \<Rightarrow> t)
          \<and> a_registrar_version entry = h_version h + 1 \<and> a_entry_hash entry = audit_hash e entry
          \<and> retained (tbl_insert_ignore a_entry_hash entry (db_audit d)) t'
          \<and> header_kept h (reg_header r) \<and> h_version (reg_header r) = h_version h + 1
          \<and> reg_db r = d\<lparr>db_audit := t', db_header := [reg_header r]\<rparr>)"

lemma publishedI:
  assumes "idle r" "reg_join_state r = reg_join_state reg" "step (reg_db reg, reg_header reg) (d, h)"
    and lg: "logged e ct actor target d h r1" and hd: "header_kept (reg_header r1) (reg_header r)"
    "h_version (reg_header r) = h_version (reg_header r1)" "reg_db r = (reg_db r1)\<lparr>db_header := [reg_header r]\<rparr>"
  shows "published e ct actor target step reg r"
proof -
  from lg [unfolded logged_def] obtain entry t' where x: "a_change_type entry = ct" "a_actor_id entry = id_peer_id actor"
     "a_target_id entry = (case target of None \<Rightarrow> zero_id | Some t \<Rightarrow> t)"
     "a_registrar_version entry = h_version h + 1" "a_entry_hash entry = audit_hash e entry"
     "retained (tbl_insert_ignore a_entry_hash entry (db_audit d)) t'"
     "reg_header r1 = h\<lparr>h_version := h_version h + 1, h_updated_at := a_timestamp entry\<rparr>"
     "reg_db r1 = d\<lparr>db_audit := t', db_header := [reg_header r1]\<rparr>" by (elim exE conjE)
  have "header_kept h (reg_header r)" using hd(1) by (simp add: x(7) header_kept_def)
  moreover have "h_version (reg_header r) = h_version h + 1" using hd(2) by (simp add: x(7))
  moreover have "reg_db r = d\<lparr>db_audit := t', db_header := [reg_header r]\<rparr>" using hd(3) x(8) by simp
  ultimately show ?thesis unfolding published_def using assms(1-3) x(1-6) by blast
qed

lemma committed_published:
  assumes c: "committed e ct actor target s1 reg r"
    and step: "\<And>d h. s1 (reg_db reg, reg_header reg) (d, h) \<Longrightarrow> s2 (reg_db reg, reg_header reg) (d, h)"
  shows "published e ct actor target s2 reg r"
proof -
  from c [unfolded committed_def] obtain d h where x: "idle r" "reg_join_state r = reg_join_state reg"
    "s1 (reg_db reg, reg_header reg) (d, h)" "logged e ct actor target d h r" by (elim exE conjE)
  have "reg_db r = (reg_db r)\<lparr>db_header := [reg_header r]\<rparr>" using x(4) by (auto simp: logged_def)
  then show ?thesis
    by (intro publishedI [where step = s2, OF x(1,2) _ x(4)] step x(3) refl) (simp add: header_kept_def)
qed

definition gov_result :: "yumi_env \<Rightarrow> gov_op \<Rightarrow> gr_identity_t \<Rightarrow> gr_registrar \<Rightarrow> gr_registrar \<Rightarrow> bool" where
  "gov_result e op s reg r \<longleftrightarrow> gov_allowed op s reg
     \<and> published e (change_of op) s (target_of op s) (gov_step op s) reg r"

lemma gov_resultI:
  assumes "committed e ct s target s1 reg r" and "ct = change_of op" "target = target_of op s"
    and "gov_allowed op s reg"
    and "\<And>d h. s1 (reg_db reg, reg_header reg) (d, h) \<Longrightarrow> gov_step op s (reg_db reg, reg_header reg) (d, h)"
  shows "gov_result e op s reg r"
proof -
  have "published e ct s target (gov_step op s) reg r"
    by (rule committed_published [OF assms(1)]) (rule assms(5))
  then show ?thesis unfolding gov_result_def using assms(2-4) by simp
qed

lemma gov_signer: "run_gov e op signer reg = (GR_OK, r) \<Longrightarrow> signer \<noteq> None"
  by (cases op) (auto simp: gr_peer_add_def gr_peer_kick_def gr_peer_ban_def gr_peer_leave_def
    gr_peer_update_address_def gr_peer_observed_address_def gr_peer_set_role_def gr_role_add_def
    gr_role_remove_def gr_role_set_permissions_def gr_epoch_rotate_def gr_retention_set_def gr_webapp_add_def
    gr_webapp_remove_def gr_webapp_update_perm_data_def gr_webapp_update_role_mask_def gr_server_add_def
    gr_server_remove_def gr_group_icon_set_def gr_group_icon_remove_def gr_invite_create_def
    gr_invite_invalidate_def gr_invite_mark_used_def gr_sign_def split: option.splits)

lemma gov_args: "run_gov e op (Some s) reg = (GR_OK, r) \<Longrightarrow> (case op of
     PeerAdd p \<Rightarrow> p \<noteq> None | PeerKick pid _ \<Rightarrow> pid \<noteq> None | PeerBan pid _ \<Rightarrow> pid \<noteq> None
   | PeerUpdateAddress ip _ \<Rightarrow> ip \<noteq> None | PeerObservedAddress pid ip _ \<Rightarrow> pid \<noteq> None \<and> ip \<noteq> None
   | PeerSetRole pid _ \<Rightarrow> pid \<noteq> None | RoleAdd nm _ \<Rightarrow> nm \<noteq> None | RetentionSet p \<Rightarrow> p \<noteq> None
   | WebappAdd w \<Rightarrow> w \<noteq> None | WebappRemove h \<Rightarrow> h \<noteq> None | WebappPermData h _ \<Rightarrow> h \<noteq> None
   | WebappRoleMask h _ \<Rightarrow> h \<noteq> None | ServerAdd sv \<Rightarrow> sv \<noteq> None | ServerRemove h \<Rightarrow> h \<noteq> None
   | IconSet d m _ _ _ _ \<Rightarrow> d \<noteq> None \<and> m \<noteq> None | InviteInvalidate t \<Rightarrow> t \<noteq> None
   | InviteMarkUsed t p \<Rightarrow> t \<noteq> None \<and> p \<noteq> None | _ \<Rightarrow> True)"
  by (cases op) (auto simp: gr_peer_add_def gr_peer_kick_def gr_peer_ban_def
    gr_peer_update_address_def gr_peer_observed_address_def gr_peer_set_role_def gr_role_add_def
    gr_retention_set_def gr_webapp_add_def
    gr_webapp_remove_def gr_webapp_update_perm_data_def gr_webapp_update_role_mask_def gr_server_add_def
    gr_server_remove_def gr_group_icon_set_def
    gr_invite_invalidate_def gr_invite_mark_used_def split: option.splits)

lemma err_of_OK: "err_of res = (GR_OK, r) \<Longrightarrow> (\<And>q. res \<noteq> (Inl GR_OK, q)) \<Longrightarrow> \<exists>v. res = (Inr v, r)"
  by (auto simp: err_of_def split: prod.splits sum.splits)

lemma sign_published:
  assumes rel: "reliable e" and idle: "idle reg" and res: "gr_sign e (Some s) reg = (GR_OK, r)"
  shows "gov_result e Sign s reg r"
proof -
  note ok = sign_ok [OF rel idle res]
  then obtain r1 x y where lg: "logged e GR_CHANGE_REGISTRAR_SIGNED s None (reg_db reg) (reg_header reg) r1"
    and db: "reg_db r = (reg_db r1)\<lparr>db_header := [reg_header r]\<rparr>"
    and h: "reg_header r = (reg_header r1)\<lparr>h_signer_id := id_peer_id s,
               h_signer_sign_key := id_public_key s, h_hash := x, h_signature := y\<rparr>" by (elim exE conjE)
  have "published e (change_of Sign) s (target_of Sign s) (gov_step Sign s) reg r"
    by (rule publishedI [where d = "reg_db reg" and h = "reg_header reg", OF _ _ _ _ _ _ db])
       (use ok lg in \<open>simp_all add: gov_step.simps header_kept_def h\<close>)
  then show ?thesis using ok by (simp add: gov_result_def gov_allowed_def)
qed

lemmas gov_allowed_simps = gov_allowed_def trust_guarded.simps required_perm.simps option.case

text \<open>Every operation that succeeds was allowed, and publishes exactly its step.\<close>

lemma gov_ok_peer:
  assumes rel: "reliable e" and idle: "idle reg" and res: "run_gov e op (Some s) reg = (GR_OK, r)"
    and op: "(case op of PeerAdd _ \<Rightarrow> True | PeerKick _ _ \<Rightarrow> True | PeerBan _ _ \<Rightarrow> True | PeerLeave \<Rightarrow> True
       | PeerUpdateAddress _ _ \<Rightarrow> True | PeerObservedAddress _ _ _ \<Rightarrow> True | PeerSetRole _ _ \<Rightarrow> True | _ \<Rightarrow> False)"
  shows "gov_result e op s reg r"
proof (cases op)
  case (PeerAdd p)
  with gov_args [OF res] res obtain q where q: "p = Some q" "gr_peer_add e (Some q) (Some s) reg = (GR_OK, r)" by auto
  note ok = peer_add_ok [OF rel idle q(2)]
  from ok [THEN conjunct2, THEN conjunct2] show ?thesis
    by (rule gov_resultI) (use ok in \<open>simp_all add: PeerAdd q(1) gov_allowed_simps gov_step.simps\<close>)
next
  case (PeerKick pid reason)
  with gov_args [OF res] res obtain q where q: "pid = Some q" "gr_peer_kick e (Some q) reason (Some s) reg = (GR_OK, r)" by auto
  note ok = peer_kick_ok [OF rel idle q(2)]
  from ok [THEN conjunct2, THEN conjunct2, THEN conjunct2, THEN conjunct2] show ?thesis
    by (rule gov_resultI) (use ok in \<open>simp_all add: PeerKick q(1) gov_allowed_simps gov_step.simps\<close>)
next
  case (PeerBan pid reason)
  with gov_args [OF res] res obtain q where q: "pid = Some q" "gr_peer_ban e (Some q) reason (Some s) reg = (GR_OK, r)" by auto
  note ok = peer_ban_ok [OF rel idle q(2)]
  from ok [THEN conjunct2, THEN conjunct2, THEN conjunct2, THEN conjunct2] show ?thesis
    by (rule gov_resultI) (use ok in \<open>simp_all add: PeerBan q(1) gov_allowed_simps gov_step.simps\<close>)
next
  case PeerLeave
  with res have q: "gr_peer_leave e (Some s) reg = (GR_OK, r)" by simp
  note ok = peer_leave_ok [OF rel idle q]
  from ok [THEN conjunct2, THEN conjunct2, THEN conjunct2] show ?thesis
    by (rule gov_resultI) (use ok in \<open>simp_all add: PeerLeave gov_allowed_simps gov_step.simps\<close>)
next
  case (PeerUpdateAddress ip port)
  with gov_args [OF res] res obtain q where q: "ip = Some q" "gr_peer_update_address e (Some q) port (Some s) reg = (GR_OK, r)" by auto
  from peer_update_address_ok [OF rel idle q(2)] show ?thesis
    by (rule gov_resultI) (simp_all add: PeerUpdateAddress q(1) gov_allowed_simps gov_step.simps)
next
  case (PeerObservedAddress pid ip port)
  with gov_args [OF res] res obtain q a where q: "pid = Some q" "ip = Some a"
    "gr_peer_observed_address e (Some q) (Some a) port (Some s) reg = (GR_OK, r)" by auto
  note ok = peer_observed_address_ok [OF rel idle q(3)]
  from ok [THEN conjunct2] show ?thesis
    by (rule gov_resultI) (use ok in \<open>simp_all add: PeerObservedAddress q(1,2) gov_allowed_simps gov_step.simps\<close>)
next
  case (PeerSetRole pid rid)
  with gov_args [OF res] res obtain q where q: "pid = Some q" "gr_peer_set_role e (Some q) rid (Some s) reg = (GR_OK, r)" by auto
  note ok = peer_set_role_ok [OF rel idle q(2)]
  from ok [THEN conjunct2, THEN conjunct2, THEN conjunct2] show ?thesis
    by (rule gov_resultI) (use ok in \<open>simp_all add: PeerSetRole q(1) gov_allowed_simps gov_step.simps\<close>)
qed (use op in simp_all)


lemma q_then_no_ok: "(\<And>r. f r \<noteq> (Inl GR_OK, p)) \<Longrightarrow> q_then m f \<noteq> (Inl GR_OK, p)"
  by (simp add: q_then_def split: prod.splits)

lemma role_add_no_ok: "gr_role_add e nm perms signer reg \<noteq> (Inl GR_OK, q)"
proof -
  have keyed: "role_add_keyed e name permissions s new_id r \<noteq> (Inl GR_OK, q)" for name permissions s new_id r
    by (auto simp: role_add_keyed_def Let_def split: option.splits prod.splits if_splits)
  have next_id: "q_bind (db_query e ps_role_next_id r) (role_add_keyed e name permissions s) \<noteq> (Inl GR_OK, q)"
    for name permissions s r by (rule q_bind_no_ok [OF query_no_ok(1) keyed])
  have "role_add_core e name permissions s r \<noteq> (Inl GR_OK, q)" for name permissions s r
    unfolding role_add_core_def by (rule q_bind_no_ok) (simp_all add: gr_role_count_def query_no_ok next_id)
  then show ?thesis by (simp add: gr_role_add_def q_then_no_ok split: option.splits)
qed

lemma txn_val_no_ok: "(\<And>r. fst (body r) \<noteq> Inl GR_OK) \<Longrightarrow> with_txn_val e body reg \<noteq> (Inl GR_OK, q)"
  unfolding with_txn_val_def by (auto split: prod.splits sum.splits) (metis fst_conv)

lemma invite_create_no_ok: "gr_invite_create e signer expires reg \<noteq> (Inl GR_OK, q)"
proof (cases signer)
  case (Some s)
  have "with_txn_val e (invite_create_body e s expires now token) r \<noteq> (Inl GR_OK, q')" for now token r q'
    by (rule txn_val_no_ok [OF create_body_no_ok])
  then show ?thesis unfolding gr_invite_create_def Some
    by (auto simp: Let_def split: option.splits prod.splits sum.splits intro!: q_then_no_ok)
qed (simp add: gr_invite_create_def)

lemma gov_ok_role:
  assumes rel: "reliable e" and idle: "idle reg" and res: "run_gov e op (Some s) reg = (GR_OK, r)"
    and op: "(case op of RoleAdd _ _ \<Rightarrow> True | RoleRemove _ \<Rightarrow> True | RoleSetPermissions _ _ \<Rightarrow> True
       | EpochRotate \<Rightarrow> True | RetentionSet _ \<Rightarrow> True | Sign \<Rightarrow> True | _ \<Rightarrow> False)"
  shows "gov_result e op s reg r"
proof (cases op)
  case (RoleAdd nm perms)
  with gov_args [OF res] res obtain q where q: "nm = Some q" "err_of (gr_role_add e (Some q) perms (Some s) reg) = (GR_OK, r)" by auto
  from err_of_OK [OF q(2) role_add_no_ok] obtain rid where "gr_role_add e (Some q) perms (Some s) reg = (Inr rid, r)" ..
  note ok = role_add_ok [OF rel idle this]
  from ok have c: "committed e GR_CHANGE_ROLE_ADDED s None (\<lambda>(d, h) (d', h'). h' = h \<and> (\<exists>role n.
         r_role_id role = rid \<and> r_name role = q \<and> r_permissions role = perms
         \<and> ps_role_insert role d = Some (n, d'))) reg r" by (elim conjE)
  from c show ?thesis by (rule gov_resultI)
    (use ok in \<open>auto simp: RoleAdd q(1) gov_allowed_simps gov_step.simps\<close>)
next
  case (RoleRemove rid)
  with res have q: "gr_role_remove e rid (Some s) reg = (GR_OK, r)" by simp
  note ok = role_remove_ok [OF rel idle q]
  from ok [THEN conjunct2, THEN conjunct2, THEN conjunct2] show ?thesis
    by (rule gov_resultI) (use ok in \<open>simp_all add: RoleRemove gov_allowed_simps gov_step.simps\<close>)
next
  case (RoleSetPermissions rid perms)
  with res have q: "gr_role_set_permissions e rid perms (Some s) reg = (GR_OK, r)" by simp
  note ok = role_set_permissions_ok [OF rel idle q]
  from ok [THEN conjunct2, THEN conjunct2] show ?thesis
    by (rule gov_resultI) (use ok in \<open>simp_all add: RoleSetPermissions gov_allowed_simps gov_step.simps\<close>)
next
  case EpochRotate
  with res have q: "gr_epoch_rotate e (Some s) reg = (GR_OK, r)" by simp
  note ok = epoch_rotate_ok [OF rel idle q]
  from ok [THEN conjunct2, THEN conjunct2] show ?thesis
    by (rule gov_resultI) (use ok in \<open>simp_all add: EpochRotate gov_allowed_simps gov_step.simps\<close>)
next
  case (RetentionSet p)
  with gov_args [OF res] res obtain q where q: "p = Some q" "gr_retention_set e (Some q) (Some s) reg = (GR_OK, r)" by auto
  note ok = retention_set_ok [OF rel idle q(2)]
  from ok [THEN conjunct2, THEN conjunct2] show ?thesis
    by (rule gov_resultI) (use ok in \<open>simp_all add: RetentionSet q(1) gov_allowed_simps gov_step.simps\<close>)
next
  case Sign
  with res have "gr_sign e (Some s) reg = (GR_OK, r)" by simp
  from sign_published [OF rel idle this] show ?thesis by (simp add: Sign)
qed (use op in simp_all)

lemma gov_ok_content:
  assumes rel: "reliable e" and idle: "idle reg" and res: "run_gov e op (Some s) reg = (GR_OK, r)"
    and op: "(case op of WebappAdd _ \<Rightarrow> True | WebappRemove _ \<Rightarrow> True | WebappPermData _ _ \<Rightarrow> True
       | WebappRoleMask _ _ \<Rightarrow> True | ServerAdd _ \<Rightarrow> True | ServerRemove _ \<Rightarrow> True | _ \<Rightarrow> False)"
  shows "gov_result e op s reg r"
proof (cases op)
  case (WebappAdd w)
  with gov_args [OF res] res obtain q where q: "w = Some q" "gr_webapp_add e (Some q) (Some s) reg = (GR_OK, r)" by auto
  note ok = webapp_add_ok [OF rel idle q(2)]
  from ok [THEN conjunct2, THEN conjunct2, THEN conjunct2, THEN conjunct2] show ?thesis
    by (rule gov_resultI) (use ok in \<open>simp_all add: WebappAdd q(1) gov_allowed_simps gov_step.simps\<close>)
next
  case (WebappRemove w)
  with gov_args [OF res] res obtain q where q: "w = Some q" "gr_webapp_remove e (Some q) (Some s) reg = (GR_OK, r)" by auto
  note ok = webapp_remove_ok [OF rel idle q(2)]
  from ok [THEN conjunct2, THEN conjunct2] show ?thesis
    by (rule gov_resultI) (use ok in \<open>simp_all add: WebappRemove q(1) gov_allowed_simps gov_step.simps\<close>)
next
  case (WebappPermData w b)
  with gov_args [OF res] res obtain q where q: "w = Some q" "gr_webapp_update_perm_data e (Some q) b (Some s) reg = (GR_OK, r)" by auto
  note ok = webapp_update_perm_data_ok [OF rel idle q(2)]
  from ok [THEN conjunct2, THEN conjunct2, THEN conjunct2] show ?thesis
    by (rule gov_resultI) (use ok in \<open>simp_all add: WebappPermData q(1) gov_allowed_simps gov_step.simps\<close>)
next
  case (WebappRoleMask w b)
  with gov_args [OF res] res obtain q where q: "w = Some q" "gr_webapp_update_role_mask e (Some q) b (Some s) reg = (GR_OK, r)" by auto
  note ok = webapp_update_role_mask_ok [OF rel idle q(2)]
  from ok [THEN conjunct2, THEN conjunct2, THEN conjunct2] show ?thesis
    by (rule gov_resultI) (use ok in \<open>simp_all add: WebappRoleMask q(1) gov_allowed_simps gov_step.simps\<close>)
next
  case (ServerAdd sv)
  with gov_args [OF res] res obtain q where q: "sv = Some q" "gr_server_add e (Some q) (Some s) reg = (GR_OK, r)" by auto
  note ok = server_add_ok [OF rel idle q(2)]
  from ok [THEN conjunct2, THEN conjunct2] show ?thesis
    by (rule gov_resultI) (use ok in \<open>simp_all add: ServerAdd q(1) gov_allowed_simps gov_step.simps\<close>)
next
  case (ServerRemove w)
  with gov_args [OF res] res obtain q where q: "w = Some q" "gr_server_remove e (Some q) (Some s) reg = (GR_OK, r)" by auto
  note ok = server_remove_ok [OF rel idle q(2)]
  from ok [THEN conjunct2, THEN conjunct2] show ?thesis
    by (rule gov_resultI) (use ok in \<open>simp_all add: ServerRemove q(1) gov_allowed_simps gov_step.simps\<close>)
qed (use op in simp_all)

lemma gov_ok_invite:
  assumes rel: "reliable e" and idle: "idle reg" and res: "run_gov e op (Some s) reg = (GR_OK, r)"
    and op: "(case op of IconSet _ _ _ _ _ _ \<Rightarrow> True | IconRemove \<Rightarrow> True | InviteCreate _ \<Rightarrow> True
       | InviteInvalidate _ \<Rightarrow> True | InviteMarkUsed _ _ \<Rightarrow> True | _ \<Rightarrow> False)"
  shows "gov_result e op s reg r"
proof (cases op)
  case (IconSet data mime w ht v sf)
  with gov_args [OF res] res obtain da mi where q: "data = Some da" "mime = Some mi"
    "gr_group_icon_set e (Some da) (Some mi) w ht v sf (Some s) reg = (GR_OK, r)" by auto
  note ok = group_icon_set_ok [OF rel idle q(3)]
  from ok [THEN conjunct2, THEN conjunct2, THEN conjunct2] show ?thesis
    by (rule gov_resultI) (use ok in \<open>simp_all add: IconSet q(1,2) gov_allowed_simps gov_step.simps\<close>)
next
  case IconRemove
  with res have q: "gr_group_icon_remove e (Some s) reg = (GR_OK, r)" by simp
  note ok = group_icon_remove_ok [OF rel idle q]
  from ok [THEN conjunct2, THEN conjunct2] show ?thesis
    by (rule gov_resultI) (use ok in \<open>simp_all add: IconRemove gov_allowed_simps gov_step.simps\<close>)
next
  case (InviteCreate expires)
  with res have "err_of (gr_invite_create e (Some s) expires reg) = (GR_OK, r)" by simp
  from err_of_OK [OF this invite_create_no_ok] obtain v where v: "gr_invite_create e (Some s) expires reg = (Inr v, r)" ..
  obtain blob token where bt: "v = (blob, token)" by (cases v)
  note ok = invite_create_ok [OF rel idle v [unfolded bt]]
  from ok [THEN conjunct2, THEN conjunct2] show ?thesis
    by (rule gov_resultI) (use ok in \<open>auto simp: InviteCreate gov_allowed_simps gov_step.simps\<close>)
next
  case (InviteInvalidate tok)
  with gov_args [OF res] res obtain q where q: "tok = Some q" "gr_invite_invalidate e (Some q) (Some s) reg = (GR_OK, r)" by auto
  note ok = invite_invalidate_ok [OF rel idle q(2)]
  from ok [THEN conjunct2] show ?thesis
    by (rule gov_resultI) (use ok in \<open>simp_all add: InviteInvalidate q(1) gov_allowed_simps gov_step.simps\<close>)
next
  case (InviteMarkUsed tok pid)
  with gov_args [OF res] res obtain q pi where q: "tok = Some q" "pid = Some pi"
    "gr_invite_mark_used e (Some q) (Some pi) (Some s) reg = (GR_OK, r)" by auto
  note ok = invite_mark_used_ok [OF rel idle q(3)]
  from ok [THEN conjunct2] show ?thesis
    by (rule gov_resultI) (use ok in \<open>simp_all add: InviteMarkUsed q(1,2) gov_allowed_simps gov_step.simps\<close>)
qed (use op in simp_all)

lemma gov_ok:
  assumes rel: "reliable e" and idle: "idle reg" and res: "run_gov e op signer reg = (GR_OK, r)"
  obtains s where "signer = Some s" "gov_result e op s reg r"
proof -
  from gov_signer [OF res] obtain s where s: "signer = Some s" by auto
  note all = gov_ok_peer [OF rel idle res [unfolded s]] gov_ok_role [OF rel idle res [unfolded s]]
    gov_ok_content [OF rel idle res [unfolded s]] gov_ok_invite [OF rel idle res [unfolded s]]
  have "gov_result e op s reg r" by (cases op) (insert all, simp_all)
  with s that show thesis by blast
qed

end
