(* ===== verification/Group_Spec.thy ===== *)
theory Group_Spec imports Governance
begin

text \<open>
  The abstract group: what a registrar promises, without tables, transactions, audit rows or
  engine calls.  A group is a handful of maps; \<open>change\<close> is the step relation of the operations on
  it, \<open>group_step\<close> adds the guards and the version.  \<open>group_of\<close> reads the abstract group off a
  handle, and the refinement says that every operation of the registrar that succeeds is a step of
  the abstract group.
\<close>

section \<open>Reading a table as a map\<close>

definition view :: "('r \<Rightarrow> 'k) \<Rightarrow> ('r \<Rightarrow> 'v) \<Rightarrow> 'r list \<Rightarrow> 'k \<rightharpoonup> 'v" where
  "view key f t k = map_option f (tbl_get key k t)"

lemma view_empty [simp]: "view key f [] = (\<lambda>k. None)"
  by (simp add: view_def fun_eq_iff)

lemma view_insert:
  assumes "sql_insert key r t = Some (n, t')"
  shows "view key f t (key r) = None" and "view key f t' = (view key f t)(key r \<mapsto> f r)"
proof -
  from assms have ins: "tbl_insert key r t = Some t'" by (auto simp: sql_insert_def)
  then show "view key f t (key r) = None"
    by (simp add: view_def tbl_insert_def tbl_get_None split: if_splits)
  show "view key f t' = (view key f t)(key r \<mapsto> f r)"
  proof
    fix k
    from ins have "key r \<notin> key ` set t" "t' = t @ [r]" by (auto simp: tbl_insert_def split: if_splits)
    then show "view key f t' k = ((view key f t)(key r \<mapsto> f r)) k"
      by (simp add: view_def tbl_get_snoc)
  qed
qed

lemma view_update:
  assumes "\<And>r. key (g r) = key r"
  shows "view key f (tbl_update P g t) k = map_option (\<lambda>r. f (if P r then g r else r)) (tbl_get key k t)"
  unfolding view_def tbl_get_update [of key g, OF assms] by (simp add: option.map_comp comp_def)

lemma view_update_key:
  assumes key: "\<And>r. key (g r) = key r" and f: "\<And>r. f (g r) = h (f r)"
  shows "view key f (tbl_update (\<lambda>r. key r = k') g t) =
    (view key f t)(k' := map_option h (view key f t k'))"
proof
  fix k
  show "view key f (tbl_update (\<lambda>r. key r = k') g t) k =
      ((view key f t)(k' := map_option h (view key f t k'))) k"
    unfolding view_update [of key g, OF key]
    by (cases "tbl_get key k t") (auto simp: view_def f dest: tbl_get_key)
qed

lemma view_delete: "view key f (tbl_delete (\<lambda>r. key r = k') t) = (view key f t)(k' := None)"
  by (simp add: fun_eq_iff view_def tbl_get_delete_key)

lemma count_key_view: "0 < tbl_count (\<lambda>r. key r = k) t \<Longrightarrow> view key f t k \<noteq> None"
  by (auto simp: tbl_count_def view_def tbl_get_None filter_empty_conv)

lemma dom_view: "dom (view key f t) = key ` set t"
  using tbl_get_None [of key _ t] by (auto simp: view_def dom_def)

lemma card_view: "tbl_inv key t \<Longrightarrow> card (dom (view key f t)) = length t"
  using distinct_card [of "map key t"] by (simp add: dom_view tbl_inv_def)

section \<open>The abstract group\<close>

text \<open>
  A member has a status and a role, a role its permissions, a web app its permission data and role
  mask, an epoch its key and the time it ended (0 while current), an invite two flags, used and
  invalidated.
\<close>

record group =
  g_owner :: bytes
  g_type :: u32
  g_trusted :: bool
  g_version :: u32
  g_epoch :: u32
  g_retention :: gr_retention_t
  g_members :: "bytes \<rightharpoonup> u32 \<times> u32"
  g_roles :: "u32 \<rightharpoonup> u32"
  g_webapps :: "bytes \<rightharpoonup> bytes option \<times> bytes option"
  g_servers :: "bytes \<rightharpoonup> gr_server_t"
  g_epochs :: "u32 \<rightharpoonup> bytes \<times> i64"
  g_invites :: "bytes \<rightharpoonup> bool \<times> bool"
  g_icon :: "bytes option"

abbreviation members_of :: "gr_peer_t list \<Rightarrow> bytes \<rightharpoonup> u32 \<times> u32" where
  "members_of \<equiv> view p_peer_id (\<lambda>p. (p_status p, p_role_id p))"

abbreviation roles_of :: "gr_role_t list \<Rightarrow> u32 \<rightharpoonup> u32" where
  "roles_of \<equiv> view r_role_id r_permissions"

abbreviation webapps_of :: "gr_webapp_t list \<Rightarrow> bytes \<rightharpoonup> bytes option \<times> bytes option" where
  "webapps_of \<equiv> view w_hash (\<lambda>w. (w_perm_data w, w_role_mask w))"

abbreviation servers_of :: "gr_server_t list \<Rightarrow> bytes \<rightharpoonup> gr_server_t" where
  "servers_of \<equiv> view s_id_hash (\<lambda>s. s)"

abbreviation epochs_of :: "gr_epoch_t list \<Rightarrow> u32 \<rightharpoonup> bytes \<times> i64" where
  "epochs_of \<equiv> view e_epoch_id (\<lambda>x. (e_epoch_key x, e_expired_at x))"

abbreviation invites_of :: "gr_invite_info_t list \<Rightarrow> bytes \<rightharpoonup> bool \<times> bool" where
  "invites_of \<equiv> view i_verification_token (\<lambda>i. (i_used i, i_invalidated i))"

definition group_at :: "bool \<Rightarrow> gr_db \<Rightarrow> gr_header_t \<Rightarrow> group" where
  "group_at trusted d h = \<lparr>g_owner = h_owner_id h, g_type = h_group_type h, g_trusted = trusted,
     g_version = h_version h, g_epoch = h_epoch_id h, g_retention = h_retention h,
     g_members = members_of (db_peers d), g_roles = roles_of (db_roles d),
     g_webapps = webapps_of (db_webapps d), g_servers = servers_of (db_servers d),
     g_epochs = epochs_of (db_epochs d), g_invites = invites_of (db_invites d),
     g_icon = (case db_icon d of [] \<Rightarrow> None | ic # _ \<Rightarrow> Some (ic_data ic))\<rparr>"

definition group_of :: "gr_registrar \<Rightarrow> group" where
  "group_of reg = group_at (\<not> gr_join_is_untrusted reg) (reg_db reg) (reg_header reg)"

text \<open>What a member may do: the owner everything, an active member with a role what the role grants.\<close>

definition authority :: "group \<Rightarrow> bytes \<Rightarrow> u32" where
  "authority g m =
     (if g_owner g = m then GR_PERM_OWNER
      else case g_members g m of
             None \<Rightarrow> GR_PERM_NONE
           | Some (st, rid) \<Rightarrow>
               if st = GR_PEER_ACTIVE \<and> 0 < sint rid
               then (case g_roles g rid of None \<Rightarrow> GR_PERM_NONE | Some perms \<Rightarrow> perms)
               else GR_PERM_NONE)"

definition permitted :: "gov_op \<Rightarrow> bytes \<Rightarrow> group \<Rightarrow> bool" where
  "permitted op a g \<longleftrightarrow> (trust_guarded op \<longrightarrow> g_trusted g)
     \<and> (case required_perm op (g_type g) of None \<Rightarrow> True | Some perm \<Rightarrow> and (authority g a) perm \<noteq> 0)"

inductive change :: "gov_op \<Rightarrow> bytes \<Rightarrow> group \<Rightarrow> group \<Rightarrow> bool" where
  join: "g_members g (p_peer_id p) = None \<Longrightarrow>
     change (PeerAdd (Some p)) a g (g\<lparr>g_members := (g_members g)(p_peer_id p \<mapsto> (p_status p, p_role_id p))\<rparr>)"
| rejoin: "g_members g (p_peer_id p) = Some (GR_PEER_KICKED, rid) \<Longrightarrow>
     change (PeerAdd (Some p)) a g (g\<lparr>g_members := (g_members g)(p_peer_id p \<mapsto> (GR_PEER_ACTIVE, rid))\<rparr>)"
| kick: "g_members g m = Some (GR_PEER_ACTIVE, rid) \<Longrightarrow> m \<noteq> g_owner g \<Longrightarrow>
     change (PeerKick (Some m) why) a g (g\<lparr>g_members := (g_members g)(m \<mapsto> (GR_PEER_KICKED, rid))\<rparr>)"
| ban: "g_members g m = Some (st, rid) \<Longrightarrow> m \<noteq> g_owner g \<Longrightarrow>
     change (PeerBan (Some m) why) a g (g\<lparr>g_members := (g_members g)(m \<mapsto> (GR_PEER_BANNED, rid))\<rparr>)"
| leave: "g_members g a = Some (GR_PEER_ACTIVE, rid) \<Longrightarrow> a \<noteq> g_owner g \<Longrightarrow>
     change PeerLeave a g (g\<lparr>g_members := (g_members g)(a \<mapsto> (GR_PEER_LEFT, rid))\<rparr>)"
| address: "change (PeerUpdateAddress (Some ip) port) a g g"
| observed: "g_members g m = Some (GR_PEER_ACTIVE, rid) \<Longrightarrow>
     change (PeerObservedAddress (Some m) (Some ip) port) a g g"
| set_role: "(0 < rid \<Longrightarrow> g_roles g rid \<noteq> None) \<Longrightarrow>
     change (PeerSetRole (Some m) rid) a g (g\<lparr>g_members := (g_members g)(m :=
        map_option (\<lambda>(st, r). (st, if st = GR_PEER_ACTIVE then rid else r)) (g_members g m))\<rparr>)"
| add_role: "g_roles g rid = None \<Longrightarrow> card (dom (g_roles g)) < 50 \<Longrightarrow>
     change (RoleAdd (Some nm) perms) a g (g\<lparr>g_roles := (g_roles g)(rid \<mapsto> perms)\<rparr>)"
| remove_role: "g_roles g rid \<noteq> None \<Longrightarrow>
     change (RoleRemove rid) a g (g\<lparr>g_roles := (g_roles g)(rid := None),
        g_members := (\<lambda>m. map_option (\<lambda>(st, r). (st, if r = rid then 0 else r)) (g_members g m))\<rparr>)"
| role_perms: "change (RoleSetPermissions rid perms) a g
     (g\<lparr>g_roles := (g_roles g)(rid := map_option (\<lambda>_. perms) (g_roles g rid))\<rparr>)"
| rotate: "g_epochs g (g_epoch g + 1) = None \<Longrightarrow>
     change EpochRotate a g (g\<lparr>g_epoch := g_epoch g + 1,
        g_epochs := (g_epochs g)(g_epoch g := map_option (\<lambda>(k, _). (k, now)) (g_epochs g (g_epoch g)),
                                 g_epoch g + 1 \<mapsto> (key, 0))\<rparr>)"
| retention: "change (RetentionSet (Some p)) a g (g\<lparr>g_retention := p\<rparr>)"
| add_webapp: "g_webapps g (w_hash w) = None \<Longrightarrow> change (WebappAdd (Some w)) a g
     (g\<lparr>g_webapps := (g_webapps g)(w_hash w \<mapsto> (blob_arg (w_perm_data w), blob_arg (w_role_mask w)))\<rparr>)"
| remove_webapp: "g_webapps g hash \<noteq> None \<Longrightarrow>
     change (WebappRemove (Some hash)) a g (g\<lparr>g_webapps := (g_webapps g)(hash := None)\<rparr>)"
| webapp_perm_data: "g_webapps g hash = Some (old, msk) \<Longrightarrow>
     change (WebappPermData (Some hash) b) a g (g\<lparr>g_webapps := (g_webapps g)(hash \<mapsto> (blob_arg b, msk))\<rparr>)"
| webapp_role_mask: "g_webapps g hash = Some (perm, old) \<Longrightarrow>
     change (WebappRoleMask (Some hash) b) a g (g\<lparr>g_webapps := (g_webapps g)(hash \<mapsto> (perm, blob_arg b))\<rparr>)"
| add_server: "g_servers g (s_id_hash sv) = None \<Longrightarrow>
     change (ServerAdd (Some sv)) a g (g\<lparr>g_servers := (g_servers g)(s_id_hash sv \<mapsto> sv)\<rparr>)"
| remove_server: "g_servers g hash \<noteq> None \<Longrightarrow>
     change (ServerRemove (Some hash)) a g (g\<lparr>g_servers := (g_servers g)(hash := None)\<rparr>)"
| set_icon: "icon_check data mime w ht video sf = GR_OK \<Longrightarrow>
     change (IconSet (Some data) (Some mime) w ht video sf) a g (g\<lparr>g_icon := Some data\<rparr>)"
| remove_icon: "i = None \<or> i = g_icon g \<Longrightarrow> change IconRemove a g (g\<lparr>g_icon := i\<rparr>)"
| invite: "g_invites g tok = None \<Longrightarrow>
     change (InviteCreate expires) a g (g\<lparr>g_invites := (g_invites g)(tok \<mapsto> (False, False))\<rparr>)"
| invalidate: "g_invites g tok = Some (used, old) \<Longrightarrow>
     change (InviteInvalidate (Some tok)) a g (g\<lparr>g_invites := (g_invites g)(tok \<mapsto> (used, True))\<rparr>)"
| accept: "g_invites g tok = Some (False, False) \<Longrightarrow>
     change (InviteMarkUsed (Some tok) (Some m)) a g (g\<lparr>g_invites := (g_invites g)(tok \<mapsto> (True, False))\<rparr>)"
| sign: "change Sign a g g"

definition group_step :: "gov_op \<Rightarrow> bytes \<Rightarrow> group \<Rightarrow> group \<Rightarrow> bool" where
  "group_step op a g g' \<longleftrightarrow> permitted op a g
     \<and> (\<exists>g1. change op a g g1 \<and> g' = g1\<lparr>g_version := g_version g1 + 1\<rparr>)"

lemma group_at_simps [simp]:
  "g_owner (group_at t d h) = h_owner_id h" "g_type (group_at t d h) = h_group_type h"
  "g_trusted (group_at t d h) = t" "g_version (group_at t d h) = h_version h"
  "g_epoch (group_at t d h) = h_epoch_id h" "g_retention (group_at t d h) = h_retention h"
  "g_members (group_at t d h) = members_of (db_peers d)" "g_roles (group_at t d h) = roles_of (db_roles d)"
  "g_webapps (group_at t d h) = webapps_of (db_webapps d)" "g_servers (group_at t d h) = servers_of (db_servers d)"
  "g_epochs (group_at t d h) = epochs_of (db_epochs d)" "g_invites (group_at t d h) = invites_of (db_invites d)"
  "g_icon (group_at t d h) = (case db_icon d of [] \<Rightarrow> None | ic # _ \<Rightarrow> Some (ic_data ic))"
  by (simp_all add: group_at_def)

lemma group_at_updates:
  "group_at t (d\<lparr>db_peers := ps\<rparr>) h = (group_at t d h)\<lparr>g_members := members_of ps\<rparr>"
  "group_at t (d\<lparr>db_roles := rs\<rparr>) h = (group_at t d h)\<lparr>g_roles := roles_of rs\<rparr>"
  "group_at t (d\<lparr>db_webapps := ws\<rparr>) h = (group_at t d h)\<lparr>g_webapps := webapps_of ws\<rparr>"
  "group_at t (d\<lparr>db_servers := ss\<rparr>) h = (group_at t d h)\<lparr>g_servers := servers_of ss\<rparr>"
  "group_at t (d\<lparr>db_epochs := es\<rparr>) h = (group_at t d h)\<lparr>g_epochs := epochs_of es\<rparr>"
  "group_at t (d\<lparr>db_invites := is\<rparr>) h = (group_at t d h)\<lparr>g_invites := invites_of is\<rparr>"
  "group_at t (d\<lparr>db_audit := as\<rparr>) h = group_at t d h"
  "group_at t (d\<lparr>db_header := hs\<rparr>) h = group_at t d h"
  "group_at t (d\<lparr>db_icon := ics\<rparr>) h =
     (group_at t d h)\<lparr>g_icon := (case ics of [] \<Rightarrow> None | ic # _ \<Rightarrow> Some (ic_data ic))\<rparr>"
  by (simp_all add: group_at_def)

text \<open>The permissions that the code computes with a join are the authority in the abstract group.\<close>

lemma perms_authority:
  assumes "db_keys_ok (reg_db reg)"
  shows "perms_of reg m = authority (group_of reg) m"
proof -
  from assms have inv: "tbl_inv p_peer_id (db_peers (reg_db reg))" "tbl_inv r_role_id (db_roles (reg_db reg))"
    by (simp_all add: db_keys_ok_def)
  show ?thesis
    unfolding perms_of_def authority_def gr_is_owner_def perms_join_shape [OF inv] group_of_def group_at_simps view_def
    by (auto split: option.splits if_splits)
qed

lemma permitted_allowed:
  assumes "db_keys_ok (reg_db reg)"
  shows "permitted op (id_peer_id s) (group_of reg) = gov_allowed op s reg"
  unfolding permitted_def gov_allowed_def perms_authority [OF assms]
  by (simp add: group_of_def)


section \<open>What the statements do to the abstract group\<close>

lemma peer_insert_group:
  assumes "ps_peer_insert p d = Some (n, d')"
  shows "g_members (group_at t d h) (p_peer_id p) = None"
    and "group_at t d' h = (group_at t d h)\<lparr>g_members := (g_members (group_at t d h))
           (p_peer_id p \<mapsto> (p_status p, p_role_id p))\<rparr>"
  using assms by (auto simp: ps_peer_insert_def group_at_updates view_insert)

lemma peer_status_group:
  assumes "ps_peer_update_status st at why rb m d = Some (n, d')"
  shows "group_at t d' h = (group_at t d h)\<lparr>g_members := (g_members (group_at t d h))
           (m := map_option (\<lambda>(_, rid). (st, rid)) (g_members (group_at t d h) m))\<rparr>"
proof -
  have "members_of (tbl_update (\<lambda>p. p_peer_id p = m) (\<lambda>p. p\<lparr>p_status := st, p_removed_at := at,
          p_removed_reason := why, p_removed_by := rb\<rparr>) (db_peers d))
      = (members_of (db_peers d))(m := map_option (\<lambda>(_, rid). (st, rid)) (members_of (db_peers d) m))"
    by (rule view_update_key) simp_all
  with assms show ?thesis by (auto simp: ps_peer_update_status_def sql_update_def group_at_updates)
qed

lemma peer_addr_group:
  assumes "ps_peer_update_addr ip port now m d = Some (n, d')"
  shows "group_at t d' h = group_at t d h"
proof -
  have "members_of (tbl_update (\<lambda>p. p_peer_id p = m \<and> p_status p = 0)
          (\<lambda>p. p\<lparr>p_ip := ip, p_port := port, p_last_seen := now\<rparr>) ps) k = members_of ps k" for k ps
    by (subst view_update) (simp, cases "tbl_get p_peer_id k ps", auto simp: view_def)
  then have "members_of (tbl_update (\<lambda>p. p_peer_id p = m \<and> p_status p = 0)
          (\<lambda>p. p\<lparr>p_ip := ip, p_port := port, p_last_seen := now\<rparr>) ps) = members_of ps" for ps by (rule ext)
  with assms show ?thesis
    by (auto simp: ps_peer_update_addr_def sql_update_def group_at_updates)
qed

lemma peer_role_group:
  assumes "ps_peer_set_role rid m d = Some (n, d')"
  shows "group_at t d' h = (group_at t d h)\<lparr>g_members := (g_members (group_at t d h))(m :=
      map_option (\<lambda>(st, r). (st, if st = GR_PEER_ACTIVE then rid else r)) (g_members (group_at t d h) m))\<rparr>"
proof -
  have "members_of (tbl_update (\<lambda>p. p_peer_id p = m \<and> p_status p = 0) (\<lambda>p. p\<lparr>p_role_id := rid\<rparr>) (db_peers d))
      = (members_of (db_peers d))(m :=
          map_option (\<lambda>(st, r). (st, if st = GR_PEER_ACTIVE then rid else r)) (members_of (db_peers d) m))"
  proof
    fix k
    show "members_of (tbl_update (\<lambda>p. p_peer_id p = m \<and> p_status p = 0) (\<lambda>p. p\<lparr>p_role_id := rid\<rparr>) (db_peers d)) k
      = ((members_of (db_peers d))(m :=
          map_option (\<lambda>(st, r). (st, if st = GR_PEER_ACTIVE then rid else r)) (members_of (db_peers d) m))) k"
      by (subst view_update) (simp, cases "tbl_get p_peer_id k (db_peers d)", auto simp: view_def dest: tbl_get_key)
  qed
  with assms show ?thesis by (auto simp: ps_peer_set_role_def sql_update_def group_at_updates)
qed

lemma peer_reset_group:
  assumes "ps_peer_reset_role rid d = Some (n, d')"
  shows "group_at t d' h = (group_at t d h)\<lparr>g_members := (\<lambda>m.
      map_option (\<lambda>(st, r). (st, if r = rid then 0 else r)) (g_members (group_at t d h) m))\<rparr>"
proof -
  have "members_of (tbl_update (\<lambda>p. p_role_id p = rid) (\<lambda>p. p\<lparr>p_role_id := 0\<rparr>) (db_peers d)) m
      = map_option (\<lambda>(st, r). (st, if r = rid then 0 else r)) (members_of (db_peers d) m)" for m
    by (subst view_update) (simp, cases "tbl_get p_peer_id m (db_peers d)", auto simp: view_def)
  then have "members_of (tbl_update (\<lambda>p. p_role_id p = rid) (\<lambda>p. p\<lparr>p_role_id := 0\<rparr>) (db_peers d))
      = (\<lambda>m. map_option (\<lambda>(st, r). (st, if r = rid then 0 else r)) (members_of (db_peers d) m))" by (rule ext)
  with assms show ?thesis by (auto simp: ps_peer_reset_role_def sql_update_def group_at_updates)
qed

lemma role_insert_group:
  assumes "ps_role_insert r d = Some (n, d')"
  shows "g_roles (group_at t d h) (r_role_id r) = None"
    and "group_at t d' h = (group_at t d h)\<lparr>g_roles := (g_roles (group_at t d h))(r_role_id r \<mapsto> r_permissions r)\<rparr>"
  using assms by (auto simp: ps_role_insert_def group_at_updates view_insert)

lemma role_delete_group:
  assumes "ps_role_delete rid d = Some (n, d')"
  shows "group_at t d' h = (group_at t d h)\<lparr>g_roles := (g_roles (group_at t d h))(rid := None)\<rparr>"
  using assms by (auto simp: ps_role_delete_def sql_delete_def group_at_updates view_delete)

lemma role_perms_group:
  assumes "ps_role_set_perms perms now rid d = Some (n, d')"
  shows "group_at t d' h = (group_at t d h)\<lparr>g_roles := (g_roles (group_at t d h))
      (rid := map_option (\<lambda>_. perms) (g_roles (group_at t d h) rid))\<rparr>"
proof -
  have "roles_of (tbl_update (\<lambda>r. r_role_id r = rid) (\<lambda>r. r\<lparr>r_permissions := perms, r_modified_at := now\<rparr>) (db_roles d))
      = (roles_of (db_roles d))(rid := map_option (\<lambda>_. perms) (roles_of (db_roles d) rid))"
    by (rule view_update_key) simp_all
  with assms show ?thesis by (auto simp: ps_role_set_perms_def sql_update_def group_at_updates)
qed

lemma epoch_insert_group:
  assumes "ps_epoch_insert x d = Some (n, d')"
  shows "g_epochs (group_at t d h) (e_epoch_id x) = None"
    and "group_at t d' h = (group_at t d h)\<lparr>g_epochs := (g_epochs (group_at t d h))
           (e_epoch_id x \<mapsto> (e_epoch_key x, e_expired_at x))\<rparr>"
  using assms by (auto simp: ps_epoch_insert_def group_at_updates view_insert)

lemma epoch_expire_group:
  assumes "ps_epoch_expire now eid d = Some (n, d')"
  shows "group_at t d' h = (group_at t d h)\<lparr>g_epochs := (g_epochs (group_at t d h))
      (eid := map_option (\<lambda>(k, _). (k, now)) (g_epochs (group_at t d h) eid))\<rparr>"
proof -
  have "epochs_of (tbl_update (\<lambda>x. e_epoch_id x = eid) (\<lambda>x. x\<lparr>e_expired_at := now\<rparr>) (db_epochs d))
      = (epochs_of (db_epochs d))(eid := map_option (\<lambda>(k, _). (k, now)) (epochs_of (db_epochs d) eid))"
    by (rule view_update_key) simp_all
  with assms show ?thesis by (auto simp: ps_epoch_expire_def sql_update_def group_at_updates)
qed

lemma webapp_insert_group:
  assumes "ps_webapp_insert w d = Some (n, d')"
  shows "g_webapps (group_at t d h) (w_hash w) = None"
    and "group_at t d' h = (group_at t d h)\<lparr>g_webapps := (g_webapps (group_at t d h))
           (w_hash w \<mapsto> (w_perm_data w, w_role_mask w))\<rparr>"
  using assms by (auto simp: ps_webapp_insert_def group_at_updates view_insert)

lemma webapp_delete_group:
  assumes "ps_webapp_delete hash d = Some (n, d')" "n \<noteq> 0"
  shows "g_webapps (group_at t d h) hash \<noteq> None"
    and "group_at t d' h = (group_at t d h)\<lparr>g_webapps := (g_webapps (group_at t d h))(hash := None)\<rparr>"
proof -
  from assms have n: "0 < tbl_count (\<lambda>r. w_hash r = hash) (db_webapps d)"
    by (auto simp: ps_webapp_delete_def sql_delete_def)
  show "g_webapps (group_at t d h) hash \<noteq> None" unfolding group_at_simps by (rule count_key_view [OF n])
  show "group_at t d' h = (group_at t d h)\<lparr>g_webapps := (g_webapps (group_at t d h))(hash := None)\<rparr>"
    using assms by (auto simp: ps_webapp_delete_def sql_delete_def group_at_updates view_delete)
qed

lemma webapp_perm_group:
  assumes "ps_webapp_update_perm_data hash b d = Some (n, d')" "n \<noteq> 0"
  shows "\<exists>old m. g_webapps (group_at t d h) hash = Some (old, m)
    \<and> group_at t d' h = (group_at t d h)\<lparr>g_webapps := (g_webapps (group_at t d h))(hash \<mapsto> (b, m))\<rparr>"
proof -
  have v: "webapps_of (tbl_update (\<lambda>w. w_hash w = hash) (\<lambda>w. w\<lparr>w_perm_data := b\<rparr>) (db_webapps d))
      = (webapps_of (db_webapps d))(hash := map_option (\<lambda>(_, m). (b, m)) (webapps_of (db_webapps d) hash))"
    by (rule view_update_key) simp_all
  from assms have "0 < tbl_count (\<lambda>w. w_hash w = hash) (db_webapps d)"
    by (auto simp: ps_webapp_update_perm_data_def sql_update_def)
  then have "webapps_of (db_webapps d) hash \<noteq> None" by (rule count_key_view)
  then obtain x where "webapps_of (db_webapps d) hash = Some x" by blast
  then obtain old m where "webapps_of (db_webapps d) hash = Some (old, m)" by (cases x) simp
  moreover have "d' = d\<lparr>db_webapps := tbl_update (\<lambda>w. w_hash w = hash) (\<lambda>w. w\<lparr>w_perm_data := b\<rparr>) (db_webapps d)\<rparr>"
    using assms by (auto simp: ps_webapp_update_perm_data_def sql_update_def)
  ultimately show ?thesis
    by (intro exI [of _ old] exI [of _ m]) (simp add: group_at_updates v)
qed

lemma webapp_mask_group:
  assumes "ps_webapp_update_role_mask hash b d = Some (n, d')" "n \<noteq> 0"
  shows "\<exists>m old. g_webapps (group_at t d h) hash = Some (m, old)
    \<and> group_at t d' h = (group_at t d h)\<lparr>g_webapps := (g_webapps (group_at t d h))(hash \<mapsto> (m, b))\<rparr>"
proof -
  have v: "webapps_of (tbl_update (\<lambda>w. w_hash w = hash) (\<lambda>w. w\<lparr>w_role_mask := b\<rparr>) (db_webapps d))
      = (webapps_of (db_webapps d))(hash := map_option (\<lambda>(m, _). (m, b)) (webapps_of (db_webapps d) hash))"
    by (rule view_update_key) simp_all
  from assms have "0 < tbl_count (\<lambda>w. w_hash w = hash) (db_webapps d)"
    by (auto simp: ps_webapp_update_role_mask_def sql_update_def)
  then have "webapps_of (db_webapps d) hash \<noteq> None" by (rule count_key_view)
  then obtain x where "webapps_of (db_webapps d) hash = Some x" by blast
  then obtain m old where "webapps_of (db_webapps d) hash = Some (m, old)" by (cases x) simp
  moreover have "d' = d\<lparr>db_webapps := tbl_update (\<lambda>w. w_hash w = hash) (\<lambda>w. w\<lparr>w_role_mask := b\<rparr>) (db_webapps d)\<rparr>"
    using assms by (auto simp: ps_webapp_update_role_mask_def sql_update_def)
  ultimately show ?thesis
    by (intro exI [of _ m] exI [of _ old]) (simp add: group_at_updates v)
qed

lemma server_insert_group:
  assumes "ps_server_insert sv d = Some (n, d')"
  shows "g_servers (group_at t d h) (s_id_hash sv) = None"
    and "group_at t d' h = (group_at t d h)\<lparr>g_servers := (g_servers (group_at t d h))(s_id_hash sv \<mapsto> sv)\<rparr>"
  using assms by (auto simp: ps_server_insert_def group_at_updates view_insert)

lemma server_delete_group:
  assumes "ps_server_delete hash d = Some (n, d')" "n \<noteq> 0"
  shows "g_servers (group_at t d h) hash \<noteq> None"
    and "group_at t d' h = (group_at t d h)\<lparr>g_servers := (g_servers (group_at t d h))(hash := None)\<rparr>"
proof -
  from assms have n: "0 < tbl_count (\<lambda>r. s_id_hash r = hash) (db_servers d)"
    by (auto simp: ps_server_delete_def sql_delete_def)
  show "g_servers (group_at t d h) hash \<noteq> None" unfolding group_at_simps by (rule count_key_view [OF n])
  show "group_at t d' h = (group_at t d h)\<lparr>g_servers := (g_servers (group_at t d h))(hash := None)\<rparr>"
    using assms by (auto simp: ps_server_delete_def sql_delete_def group_at_updates view_delete)
qed

lemma invite_insert_group:
  assumes "ps_invite_insert i d = Some (n, d')"
  shows "g_invites (group_at t d h) (i_verification_token i) = None"
    and "group_at t d' h = (group_at t d h)\<lparr>g_invites := (g_invites (group_at t d h))
           (i_verification_token i \<mapsto> (i_used i, i_invalidated i))\<rparr>"
  using assms by (auto simp: ps_invite_insert_def group_at_updates view_insert)

lemma invite_invalidate_group:
  assumes "ps_invite_invalidate tok d = Some (n, d')" "n \<noteq> 0"
  shows "\<exists>u old. g_invites (group_at t d h) tok = Some (u, old)
    \<and> group_at t d' h = (group_at t d h)\<lparr>g_invites := (g_invites (group_at t d h))(tok \<mapsto> (u, True))\<rparr>"
proof -
  have v: "invites_of (tbl_update (\<lambda>i. i_verification_token i = tok) (\<lambda>i. i\<lparr>i_invalidated := True\<rparr>) (db_invites d))
      = (invites_of (db_invites d))(tok := map_option (\<lambda>(u, _). (u, True)) (invites_of (db_invites d) tok))"
    by (rule view_update_key) simp_all
  from assms have "0 < tbl_count (\<lambda>i. i_verification_token i = tok) (db_invites d)"
    by (auto simp: ps_invite_invalidate_def sql_update_def)
  then have "invites_of (db_invites d) tok \<noteq> None" by (rule count_key_view)
  then obtain x where "invites_of (db_invites d) tok = Some x" by blast
  then obtain u old where "invites_of (db_invites d) tok = Some (u, old)" by (cases x) simp
  moreover have "d' = d\<lparr>db_invites := tbl_update (\<lambda>i. i_verification_token i = tok) (\<lambda>i. i\<lparr>i_invalidated := True\<rparr>) (db_invites d)\<rparr>"
    using assms by (auto simp: ps_invite_invalidate_def sql_update_def)
  ultimately show ?thesis
    by (intro exI [of _ u] exI [of _ old]) (simp add: group_at_updates v)
qed

lemma invite_used_group:
  assumes "ps_invite_mark_used m tok d = Some (n, d')"
  shows "group_at t d' h = (group_at t d h)\<lparr>g_invites := (g_invites (group_at t d h))
      (tok := map_option (\<lambda>(_, iv). (True, iv)) (g_invites (group_at t d h) tok))\<rparr>"
proof -
  have "invites_of (tbl_update (\<lambda>i. i_verification_token i = tok) (\<lambda>i. i\<lparr>i_used := True, i_used_by := m\<rparr>) (db_invites d))
      = (invites_of (db_invites d))(tok := map_option (\<lambda>(_, iv). (True, iv)) (invites_of (db_invites d) tok))"
    by (rule view_update_key) simp_all
  with assms show ?thesis by (auto simp: ps_invite_mark_used_def sql_update_def group_at_updates)
qed


section \<open>The refinement\<close>

text \<open>
  Rewriting by the statement lemmas and then applying the rule of \<open>change\<close>.  The hypotheses on the
  tables are the keys of the schema and the limit on the number of roles.
\<close>

lemma get_member:
  "ps_peer_get m d = Some p \<Longrightarrow> g_members (group_at t d h) m = Some (p_status p, p_role_id p)"
  by (simp add: ps_peer_get_def view_def)

lemma get_role: "ps_role_get rid d \<noteq> None \<longleftrightarrow> g_roles (group_at t d h) rid \<noteq> None"
  by (simp add: ps_role_get_def view_def)

lemma step_change_peer:
  assumes st: "gov_step op s (d, h) (d', h')"
    and op: "(case op of PeerAdd _ \<Rightarrow> True | PeerKick _ _ \<Rightarrow> True | PeerBan _ _ \<Rightarrow> True | PeerLeave \<Rightarrow> True
       | PeerUpdateAddress _ _ \<Rightarrow> True | PeerObservedAddress _ _ _ \<Rightarrow> True | PeerSetRole _ _ \<Rightarrow> True | _ \<Rightarrow> False)"
  shows "change op (id_peer_id s) (group_at t d h) (group_at t d' h')"
  using st op
proof (cases rule: gov_step.cases [of "(op, s, (d, h), (d', h'))"])
  case (1 p s' d1 h1 d1' h1')
  with st consider (re) p0 n where "ps_peer_get (p_peer_id p) d = Some p0" "p_status p0 = GR_PEER_KICKED"
      "ps_peer_update_status GR_PEER_ACTIVE 0 [] zero_id (p_peer_id p) d = Some (n, d')" "h' = h" "op = PeerAdd (Some p)"
    | (new) n where "ps_peer_insert (peer_add_row p) d = Some (n, d')" "h' = h" "op = PeerAdd (Some p)"
    by (auto simp: gov_step.simps)
  then show ?thesis
  proof cases
    case re
    note m = get_member [OF re(1), of t h, unfolded re(2)]
    show ?thesis unfolding re(4,5) peer_status_group [OF re(3)] m option.map prod.case
      by (rule change.rejoin [OF m])
  next
    case new
    have k: "p_peer_id (peer_add_row p) = p_peer_id p" "p_status (peer_add_row p) = p_status p"
      "p_role_id (peer_add_row p) = p_role_id p" by (simp_all add: peer_add_row_def)
    note ins = peer_insert_group [OF new(1), where t = t and h = h, unfolded k]
    show ?thesis unfolding new(2,3) ins(2) by (rule change.join [OF ins(1)])
  qed
next
  case (2 pid reason s' d1 h1 d1' h1')
  with st obtain p now n where x: "op = PeerKick (Some pid) reason" "h' = h" "ps_peer_get pid d = Some p"
    "p_status p = GR_PEER_ACTIVE" "h_owner_id h \<noteq> pid"
    "ps_peer_update_status GR_PEER_KICKED now (reason_or reason []) (id_peer_id s) pid d = Some (n, d')"
    by (auto simp: gov_step.simps)
  note m = get_member [OF x(3), of t h, unfolded x(4)]
  show ?thesis unfolding x(1,2) peer_status_group [OF x(6)] m option.map prod.case
    by (rule change.kick [OF m]) (use x(5) in simp)
next
  case (3 pid reason s' d1 h1 d1' h1')
  with st obtain p now n where x: "op = PeerBan (Some pid) reason" "h' = h" "ps_peer_get pid d = Some p"
    "h_owner_id h \<noteq> pid"
    "ps_peer_update_status GR_PEER_BANNED now (reason_or reason []) (id_peer_id s) pid d = Some (n, d')"
    by (auto simp: gov_step.simps)
  note m = get_member [OF x(3), of t h]
  show ?thesis unfolding x(1,2) peer_status_group [OF x(5)] m option.map prod.case
    by (rule change.ban [OF m]) (use x(4) in simp)
next
  case (4 s' d1 h1 d1' h1')
  with st obtain p now n where x: "op = PeerLeave" "h' = h" "ps_peer_get (id_peer_id s) d = Some p"
    "p_status p = GR_PEER_ACTIVE" "h_owner_id h \<noteq> id_peer_id s"
    "ps_peer_update_status GR_PEER_LEFT now (cstr ''left voluntarily'') (id_peer_id s) (id_peer_id s) d = Some (n, d')"
    by (auto simp: gov_step.simps)
  note m = get_member [OF x(3), of t h, unfolded x(4)]
  show ?thesis unfolding x(1,2) peer_status_group [OF x(6)] m option.map prod.case
    by (rule change.leave [OF m]) (use x(5) in simp)
next
  case (5 ip port s' d1 h1 d1' h1')
  with st obtain now n where x: "op = PeerUpdateAddress (Some ip) port" "h' = h"
    "ps_peer_update_addr ip port now (id_peer_id s) d = Some (n, d')" by (auto simp: gov_step.simps)
  show ?thesis unfolding x(1,2) peer_addr_group [OF x(3)] by (rule change.address)
next
  case (6 pid ip port s' d1 h1 d1' h1')
  with st obtain p now n where x: "op = PeerObservedAddress (Some pid) (Some ip) port" "h' = h"
    "ps_peer_get pid d = Some p" "p_status p = GR_PEER_ACTIVE"
    "ps_peer_update_addr ip port now pid d = Some (n, d')" by (auto simp: gov_step.simps)
  note m = get_member [OF x(3), of t h, unfolded x(4)]
  show ?thesis unfolding x(1,2) peer_addr_group [OF x(5)] by (rule change.observed [OF m])
next
  case (7 pid rid s' d1 h1 d1' h1')
  with st obtain n where x: "op = PeerSetRole (Some pid) rid" "h' = h" "0 < rid \<longrightarrow> ps_role_get rid d \<noteq> None"
    "ps_peer_set_role rid pid d = Some (n, d')" by (auto simp: gov_step.simps)
  show ?thesis unfolding x(1,2) peer_role_group [OF x(4)]
    by (rule change.set_role) (use x(3) get_role [of rid d t h] in blast)
qed (auto simp: gov_step.simps)


text \<open>At most 50 roles, so that the 32-bit counter reads the true number.\<close>

definition roles_bounded :: "gr_db \<Rightarrow> bool" where
  "roles_bounded d \<longleftrightarrow> length (db_roles d) \<le> 50"

lemma role_limit_unat: "roles_bounded d \<Longrightarrow> (of_nat (length (db_roles d)) :: u32) < GR_MAX_ROLES \<Longrightarrow> length (db_roles d) < 50"
proof -
  assume b: "roles_bounded d" and lt: "(of_nat (length (db_roles d)) :: u32) < GR_MAX_ROLES"
  have "unat (of_nat (length (db_roles d)) :: u32) = length (db_roles d)"
    using b by (simp add: roles_bounded_def unat_of_nat)
  with lt show "length (db_roles d) < 50" by (simp add: word_less_nat_alt)
qed

lemma step_change_role:
  assumes st: "gov_step op s (d, h) (d', h')" and keys: "db_keys_ok d" and few: "roles_bounded d"
    and op: "(case op of RoleAdd _ _ \<Rightarrow> True | RoleRemove _ \<Rightarrow> True | RoleSetPermissions _ _ \<Rightarrow> True
       | EpochRotate \<Rightarrow> True | RetentionSet _ \<Rightarrow> True | Sign \<Rightarrow> True | _ \<Rightarrow> False)"
  shows "change op (id_peer_id s) (group_at t d h) (group_at t d' h')"
  using st op
proof (cases rule: gov_step.cases [of "(op, s, (d, h), (d', h'))"])
  case (8 nm perms s' d1 h1 d1' h1')
  with st obtain role n where x: "op = RoleAdd (Some nm) perms" "h' = h"
    "(of_nat (length (db_roles d)) :: u32) < GR_MAX_ROLES" "r_permissions role = perms"
    "ps_role_insert role d = Some (n, d')" by (auto simp: gov_step.simps)
  note ins = role_insert_group [OF x(5), where t = t and h = h, unfolded x(4)]
  have "card (dom (g_roles (group_at t d h))) < 50"
    using role_limit_unat [OF few x(3)] keys by (simp add: card_view db_keys_ok_def)
  then show ?thesis unfolding x(1,2) ins(2) by (rule change.add_role [OF ins(1)])
next
  case (9 rid s' d1 h1 d1' h1')
  with st obtain m d2 n where x: "op = RoleRemove rid" "h' = h" "ps_role_get rid d \<noteq> None"
    "ps_peer_reset_role rid d = Some (m, d2)" "ps_role_delete rid d2 = Some (n, d')" by (auto simp: gov_step.simps)
  have "group_at t d' h = (group_at t d h)\<lparr>g_roles := (g_roles (group_at t d h))(rid := None),
      g_members := (\<lambda>m. map_option (\<lambda>(st, r). (st, if r = rid then 0 else r)) (g_members (group_at t d h) m))\<rparr>"
    unfolding role_delete_group [OF x(5)] peer_reset_group [OF x(4)] by simp
  then show ?thesis unfolding x(1,2)
    by (simp only:) (rule change.remove_role [OF x(3) [unfolded get_role [of rid d t h]]])
next
  case (10 rid perms s' d1 h1 d1' h1')
  with st obtain now n where x: "op = RoleSetPermissions rid perms" "h' = h"
    "ps_role_set_perms perms now rid d = Some (n, d')" by (auto simp: gov_step.simps)
  show ?thesis unfolding x(1,2) role_perms_group [OF x(3)] by (rule change.role_perms)
next
  case (11 s' d1 h1 d1' h1')
  with st obtain now key n1 d2 n2 where x: "op = EpochRotate" "h' = h\<lparr>h_epoch_id := h_epoch_id h + 1\<rparr>"
    "ps_epoch_expire now (h_epoch_id h) d = Some (n1, d2)"
    "ps_epoch_insert (epoch_row (h_epoch_id h + 1) key now s) d2 = Some (n2, d')" by (auto simp: gov_step.simps)
  let ?g = "group_at t d h"
  have row: "e_epoch_id (epoch_row (h_epoch_id h + 1) key now s) = h_epoch_id h + 1"
    "e_epoch_key (epoch_row (h_epoch_id h + 1) key now s) = key"
    "e_expired_at (epoch_row (h_epoch_id h + 1) key now s) = 0" by (simp_all add: epoch_row_def)
  note ex = epoch_expire_group [OF x(3), of t h]
  note ins = epoch_insert_group [OF x(4), where t = t and h = h, unfolded row ex]
  have new: "g_epochs ?g (g_epoch ?g + 1) = None" using ins(1) by (simp split: if_splits)
  have "group_at t d' h' = (group_at t d' h)\<lparr>g_epoch := h_epoch_id h + 1\<rparr>"
    unfolding x(2) by (simp add: group_at_def)
  also have "\<dots> = ?g\<lparr>g_epoch := g_epoch ?g + 1,
      g_epochs := (g_epochs ?g)(g_epoch ?g := map_option (\<lambda>(k, _). (k, now)) (g_epochs ?g (g_epoch ?g)),
                                g_epoch ?g + 1 \<mapsto> (key, 0))\<rparr>"
    unfolding ins(2) by simp
  finally show ?thesis unfolding x(1) by (simp only:) (rule change.rotate [OF new])
next
  case (12 p s' d1 h1 d1' h1')
  with st have x: "op = RetentionSet (Some p)" "h' = h\<lparr>h_retention := p\<rparr>" "d' = d\<lparr>db_header := [h']\<rparr>"
    by (auto simp: gov_step.simps)
  have "group_at t d' h' = (group_at t d h)\<lparr>g_retention := p\<rparr>" unfolding x(2,3) by (simp add: group_at_def)
  then show ?thesis unfolding x(1) by (simp only:) (rule change.retention)
next
  case (24 s' d1 h1 d1' h1')
  with st have x: "op = Sign" "h' = h" "d' = d" by (auto simp: gov_step.simps)
  show ?thesis unfolding x by (rule change.sign)
qed (auto simp: gov_step.simps)

lemma step_change_content:
  assumes st: "gov_step op s (d, h) (d', h')"
    and op: "(case op of WebappAdd _ \<Rightarrow> True | WebappRemove _ \<Rightarrow> True | WebappPermData _ _ \<Rightarrow> True
       | WebappRoleMask _ _ \<Rightarrow> True | ServerAdd _ \<Rightarrow> True | ServerRemove _ \<Rightarrow> True | _ \<Rightarrow> False)"
  shows "change op (id_peer_id s) (group_at t d h) (group_at t d' h')"
  using st op
proof (cases rule: gov_step.cases [of "(op, s, (d, h), (d', h'))"])
  case (13 w s' d1 h1 d1' h1')
  with st obtain now n where x: "op = WebappAdd (Some w)" "h' = h"
    "ps_webapp_insert (webapp_row w now s) d = Some (n, d')" by (auto simp: gov_step.simps)
  have row: "w_hash (webapp_row w now s) = w_hash w" "w_perm_data (webapp_row w now s) = blob_arg (w_perm_data w)"
    "w_role_mask (webapp_row w now s) = blob_arg (w_role_mask w)" by (simp_all add: webapp_row_def)
  note ins = webapp_insert_group [OF x(3), where t = t and h = h, unfolded row]
  show ?thesis unfolding x(1,2) ins(2) by (rule change.add_webapp [OF ins(1)])
next
  case (14 hash s' d1 h1 d1' h1')
  with st obtain n where x: "op = WebappRemove (Some hash)" "h' = h" "n \<noteq> 0"
    "ps_webapp_delete hash d = Some (n, d')" by (auto simp: gov_step.simps)
  note del = webapp_delete_group [OF x(4,3), where t = t and h = h]
  show ?thesis unfolding x(1,2) del(2) by (rule change.remove_webapp [OF del(1)])
next
  case (15 hash b s' d1 h1 d1' h1')
  with st obtain n where x: "op = WebappPermData (Some hash) b" "h' = h" "n \<noteq> 0"
    "ps_webapp_update_perm_data hash (blob_arg b) d = Some (n, d')" by (auto simp: gov_step.simps)
  from webapp_perm_group [OF x(4,3), of t h] obtain old m where
    g: "g_webapps (group_at t d h) hash = Some (old, m)" and
    eq: "group_at t d' h = (group_at t d h)\<lparr>g_webapps := (g_webapps (group_at t d h))(hash \<mapsto> (blob_arg b, m))\<rparr>"
    by (elim exE conjE)
  show ?thesis unfolding x(1,2) eq by (rule change.webapp_perm_data [OF g])
next
  case (16 hash b s' d1 h1 d1' h1')
  with st obtain n where x: "op = WebappRoleMask (Some hash) b" "h' = h" "n \<noteq> 0"
    "ps_webapp_update_role_mask hash (blob_arg b) d = Some (n, d')" by (auto simp: gov_step.simps)
  from webapp_mask_group [OF x(4,3), of t h] obtain m old where
    g: "g_webapps (group_at t d h) hash = Some (m, old)" and
    eq: "group_at t d' h = (group_at t d h)\<lparr>g_webapps := (g_webapps (group_at t d h))(hash \<mapsto> (m, blob_arg b))\<rparr>"
    by (elim exE conjE)
  show ?thesis unfolding x(1,2) eq by (rule change.webapp_role_mask [OF g])
next
  case (17 sv s' d1 h1 d1' h1')
  with st obtain n where x: "op = ServerAdd (Some sv)" "h' = h" "ps_server_insert sv d = Some (n, d')"
    by (auto simp: gov_step.simps)
  note ins = server_insert_group [OF x(3), where t = t and h = h]
  show ?thesis unfolding x(1,2) ins(2) by (rule change.add_server [OF ins(1)])
next
  case (18 hash s' d1 h1 d1' h1')
  with st obtain n where x: "op = ServerRemove (Some hash)" "h' = h" "n \<noteq> 0"
    "ps_server_delete hash d = Some (n, d')" by (auto simp: gov_step.simps)
  note del = server_delete_group [OF x(4,3), where t = t and h = h]
  show ?thesis unfolding x(1,2) del(2) by (rule change.remove_server [OF del(1)])
qed (auto simp: gov_step.simps)

lemma step_change_invite:
  assumes st: "gov_step op s (d, h) (d', h')"
    and op: "(case op of IconSet _ _ _ _ _ _ \<Rightarrow> True | IconRemove \<Rightarrow> True | InviteCreate _ \<Rightarrow> True
       | InviteInvalidate _ \<Rightarrow> True | InviteMarkUsed _ _ \<Rightarrow> True | _ \<Rightarrow> False)"
  shows "change op (id_peer_id s) (group_at t d h) (group_at t d' h')"
  using st op
proof (cases rule: gov_step.cases [of "(op, s, (d, h), (d', h'))"])
  case (19 data mime w ht v sf s' d1 h1 d1' h1')
  with st obtain row where x: "op = IconSet (Some data) (Some mime) w ht v sf" "h' = h"
    "icon_check data mime w ht v sf = GR_OK" "ic_data row = data" "d' = d\<lparr>db_icon := [row]\<rparr>"
    by (auto simp: gov_step.simps)
  have "group_at t d' h' = (group_at t d h)\<lparr>g_icon := Some data\<rparr>" unfolding x(2,5) group_at_updates by (simp add: x(4))
  then show ?thesis unfolding x(1) by (simp only:) (rule change.set_icon [OF x(3)])
next
  case (20 s' d1 h1 d1' h1')
  with st have x: "op = IconRemove" "h' = h" "d' = d \<or> d' = d\<lparr>db_icon := []\<rparr>" by (auto simp: gov_step.simps)
  let ?i = "if d' = d then g_icon (group_at t d h) else None"
  have "group_at t d' h' = (group_at t d h)\<lparr>g_icon := ?i\<rparr>"
    using x(3) unfolding x(2) by (auto simp: group_at_updates)
  then show ?thesis unfolding x(1) by (simp only:) (rule change.remove_icon, simp)
next
  case (21 expires s' d1 h1 d1' h1')
  with st obtain tok now n where x: "op = InviteCreate expires" "h' = h"
    "ps_invite_insert (invite_row tok now expires s) d = Some (n, d')" by (auto simp: gov_step.simps)
  have row: "i_verification_token (invite_row tok now expires s) = tok" "i_used (invite_row tok now expires s) = False"
    "i_invalidated (invite_row tok now expires s) = False" by (simp_all add: invite_row_def)
  note ins = invite_insert_group [OF x(3), where t = t and h = h, unfolded row]
  show ?thesis unfolding x(1,2) ins(2) by (rule change.invite [OF ins(1)])
next
  case (22 tok s' d1 h1 d1' h1')
  with st obtain n where x: "op = InviteInvalidate (Some tok)" "h' = h" "n \<noteq> 0"
    "ps_invite_invalidate tok d = Some (n, d')" by (auto simp: gov_step.simps)
  from invite_invalidate_group [OF x(4,3), of t h] obtain u old where
    g: "g_invites (group_at t d h) tok = Some (u, old)" and
    eq: "group_at t d' h = (group_at t d h)\<lparr>g_invites := (g_invites (group_at t d h))(tok \<mapsto> (u, True))\<rparr>"
    by (elim exE conjE)
  show ?thesis unfolding x(1,2) eq by (rule change.invalidate [OF g])
next
  case (23 tok pid s' d1 h1 d1' h1')
  with st obtain i n where x: "op = InviteMarkUsed (Some tok) (Some pid)" "h' = h"
    "tbl_get i_verification_token tok (db_invites d) = Some i" "\<not> i_used i" "\<not> i_invalidated i"
    "ps_invite_mark_used pid tok d = Some (n, d')" by (auto simp: gov_step.simps)
  have g: "g_invites (group_at t d h) tok = Some (False, False)" using x(3-5) by (simp add: view_def)
  show ?thesis unfolding x(1,2) invite_used_group [OF x(6)] g option.map prod.case by (rule change.accept [OF g])
qed (auto simp: gov_step.simps)

lemma step_change:
  assumes "gov_step op s (d, h) (d', h')" and "db_keys_ok d" and "roles_bounded d"
  shows "change op (id_peer_id s) (group_at t d h) (group_at t d' h')"
  by (cases op) (insert step_change_peer [OF assms(1)] step_change_role [OF assms] step_change_content [OF assms(1)]
      step_change_invite [OF assms(1)], simp_all)

lemma gov_result_step:
  assumes res: "gov_result e op s reg r" and keys: "db_keys_ok (reg_db reg)" and few: "roles_bounded (reg_db reg)"
  shows "group_step op (id_peer_id s) (group_of reg) (group_of r)"
proof -
  from res have al: "gov_allowed op s reg" and pub: "published e (change_of op) s (target_of op s) (gov_step op s) reg r"
    by (simp_all add: gov_result_def)
  let ?t = "\<not> gr_join_is_untrusted reg"
  from pub [unfolded published_def] obtain d h entry t' where
    x: "reg_join_state r = reg_join_state reg" "gov_step op s (reg_db reg, reg_header reg) (d, h)"
      "header_kept h (reg_header r)" "h_version (reg_header r) = h_version h + 1"
      "reg_db r = d\<lparr>db_audit := t', db_header := [reg_header r]\<rparr>" by (elim conjE exE)
  have "group_of r = (group_at ?t d h)\<lparr>g_version := g_version (group_at ?t d h) + 1\<rparr>"
    using x(1,3,4,5) by (simp add: group_of_def group_at_def header_kept_def gr_join_is_untrusted_def)
  moreover have "change op (id_peer_id s) (group_of reg) (group_at ?t d h)"
    unfolding group_of_def by (rule step_change [OF x(2) keys few])
  moreover have "permitted op (id_peer_id s) (group_of reg)" unfolding permitted_allowed [OF keys] by (rule al)
  ultimately show ?thesis unfolding group_step_def by blast
qed

end
