(* ===== verification/Group_Safety.thy ===== *)
theory Group_Safety imports Group_Spec
begin

text \<open>
  Safety of the abstract group and the tables behind it: what no operation can break, and what no
  operation can undo.
\<close>

section \<open>The tables keep their keys\<close>

lemma db_keys_update:
  assumes "db_keys_ok d"
  shows "tbl_inv p_peer_id ps \<Longrightarrow> db_keys_ok (d\<lparr>db_peers := ps\<rparr>)"
    and "tbl_inv r_role_id rs \<Longrightarrow> db_keys_ok (d\<lparr>db_roles := rs\<rparr>)"
    and "tbl_inv w_hash ws \<Longrightarrow> db_keys_ok (d\<lparr>db_webapps := ws\<rparr>)"
    and "tbl_inv s_id_hash ss \<Longrightarrow> db_keys_ok (d\<lparr>db_servers := ss\<rparr>)"
    and "tbl_inv e_epoch_id es \<Longrightarrow> db_keys_ok (d\<lparr>db_epochs := es\<rparr>)"
    and "tbl_inv a_entry_hash as \<Longrightarrow> db_keys_ok (d\<lparr>db_audit := as\<rparr>)"
    and "tbl_inv i_verification_token is \<Longrightarrow> db_keys_ok (d\<lparr>db_invites := is\<rparr>)"
    and "length ics \<le> 1 \<Longrightarrow> db_keys_ok (d\<lparr>db_icon := ics\<rparr>)"
    and "tbl_inv b_ip bs \<Longrightarrow> db_keys_ok (d\<lparr>db_blocklist := bs\<rparr>)"
    and "db_keys_ok (d\<lparr>db_header := hs\<rparr>)"
  using assms by (simp_all add: db_keys_ok_def)

lemma db_keysD:
  assumes "db_keys_ok d"
  shows "tbl_inv p_peer_id (db_peers d)" "tbl_inv r_role_id (db_roles d)" "tbl_inv w_hash (db_webapps d)"
    "tbl_inv s_id_hash (db_servers d)" "tbl_inv e_epoch_id (db_epochs d)" "tbl_inv a_entry_hash (db_audit d)"
    "tbl_inv i_verification_token (db_invites d)" "length (db_icon d) \<le> 1" "tbl_inv b_ip (db_blocklist d)"
  using assms by (simp_all add: db_keys_ok_def)

lemma sql_insert_inv: "sql_insert key r t = Some (n, t') \<Longrightarrow> tbl_inv key t \<Longrightarrow> tbl_inv key t'"
  by (auto simp: sql_insert_def intro: tbl_inv_insert)

lemma insert_keys:
  assumes "db_keys_ok d"
  shows "ps_peer_insert p d = Some (n, d') \<Longrightarrow> db_keys_ok d'"
    and "ps_role_insert r d = Some (n, d') \<Longrightarrow> db_keys_ok d'"
    and "ps_webapp_insert w d = Some (n, d') \<Longrightarrow> db_keys_ok d'"
    and "ps_server_insert sv d = Some (n, d') \<Longrightarrow> db_keys_ok d'"
    and "ps_epoch_insert x d = Some (n, d') \<Longrightarrow> db_keys_ok d'"
    and "ps_invite_insert i d = Some (n, d') \<Longrightarrow> db_keys_ok d'"
  using sql_insert_inv db_keysD [OF assms]
  by (auto simp: ps_peer_insert_def ps_role_insert_def ps_webapp_insert_def ps_server_insert_def
      ps_epoch_insert_def ps_invite_insert_def intro!: db_keys_update [OF assms])

lemma delete_keys:
  assumes "db_keys_ok d"
  shows "ps_role_delete rid d = Some (n, d') \<Longrightarrow> db_keys_ok d'"
    and "ps_webapp_delete hash d = Some (n, d') \<Longrightarrow> db_keys_ok d'"
    and "ps_server_delete hash d = Some (n, d') \<Longrightarrow> db_keys_ok d'"
  using db_keysD [OF assms]
  by (auto simp: ps_role_delete_def ps_webapp_delete_def ps_server_delete_def sql_delete_def
      intro!: db_keys_update [OF assms] tbl_inv_delete)

lemma update_keys:
  assumes "db_keys_ok d"
  shows "ps_peer_update_status st at why rb m d = Some (n, d') \<Longrightarrow> db_keys_ok d'"
    and "ps_peer_update_addr ip port now m d = Some (n, d') \<Longrightarrow> db_keys_ok d'"
    and "ps_peer_touch now m d = Some (n, d') \<Longrightarrow> db_keys_ok d'"
    and "ps_peer_set_role rid m d = Some (n, d') \<Longrightarrow> db_keys_ok d'"
    and "ps_peer_reset_role rid d = Some (n, d') \<Longrightarrow> db_keys_ok d'"
    and "ps_role_set_perms perms now rid d = Some (n, d') \<Longrightarrow> db_keys_ok d'"
    and "ps_webapp_update_perm_data hash b d = Some (n, d') \<Longrightarrow> db_keys_ok d'"
    and "ps_webapp_update_role_mask hash b d = Some (n, d') \<Longrightarrow> db_keys_ok d'"
    and "ps_epoch_expire now rid d = Some (n, d') \<Longrightarrow> db_keys_ok d'"
    and "ps_invite_invalidate tok d = Some (n, d') \<Longrightarrow> db_keys_ok d'"
    and "ps_invite_mark_used m tok d = Some (n, d') \<Longrightarrow> db_keys_ok d'"
  using db_keysD [OF assms]
  by (auto simp: ps_peer_update_status_def ps_peer_update_addr_def ps_peer_touch_def ps_peer_set_role_def
      ps_peer_reset_role_def ps_role_set_perms_def ps_webapp_update_perm_data_def ps_webapp_update_role_mask_def
      ps_epoch_expire_def ps_invite_invalidate_def ps_invite_mark_used_def sql_update_def tbl_inv_update
      intro!: db_keys_update [OF assms])

lemmas stmt_keys = insert_keys [rotated] delete_keys [rotated] update_keys [rotated]

lemma gov_step_keys:
  assumes "gov_step op s (d, h) (d', h')" and "db_keys_ok d"
  shows "db_keys_ok d'"
  using assms
proof (cases rule: gov_step.cases [of "(op, s, (d, h), (d', h'))"])
  case (19 data mime w ht v sf s' d1 h1 d1' h1')
  with assms show ?thesis by (auto simp: gov_step.simps intro!: db_keys_update(8))
next
  case (20 s' d1 h1 d1' h1')
  with assms show ?thesis by (auto simp: gov_step.simps intro!: db_keys_update(8))
next
  case (12 p s' d1 h1 d1' h1')
  with assms show ?thesis by (auto simp: gov_step.simps intro!: db_keys_update(10))
qed (auto simp: gov_step.simps dest: stmt_keys)

lemma published_keys:
  assumes pub: "published e ct actor target (gov_step op s) reg r" and keys: "db_keys_ok (reg_db reg)"
  shows "db_keys_ok (reg_db r)"
proof -
  from pub [unfolded published_def] obtain d h entry t' where
    x: "gov_step op s (reg_db reg, reg_header reg) (d, h)"
      "retained (tbl_insert_ignore a_entry_hash entry (db_audit d)) t'"
      "reg_db r = d\<lparr>db_audit := t', db_header := [reg_header r]\<rparr>" by (elim conjE exE)
  from gov_step_keys [OF x(1) keys] have d: "db_keys_ok d" .
  have "tbl_inv a_entry_hash t'"
    by (rule retained_inv [OF tbl_inv_insert_ignore [OF db_keysD(6) [OF d]] x(2)])
  then show ?thesis unfolding x(3) by (intro db_keys_update(10) db_keys_update(6) d)
qed

lemma roles_bounded_card: "db_keys_ok d \<Longrightarrow> roles_bounded d \<longleftrightarrow> card (dom (g_roles (group_at t d h))) \<le> 50"
  by (simp add: roles_bounded_def card_view db_keys_ok_def)

section \<open>The abstract group: invariant and irreversible facts\<close>

text \<open>
  The owner is an active member, the current epoch is stored and not expired, there are at most 50
  roles.
\<close>

definition group_ok :: "group \<Rightarrow> bool" where
  "group_ok g \<longleftrightarrow> (\<exists>rid. g_members g (g_owner g) = Some (GR_PEER_ACTIVE, rid))
     \<and> (\<exists>key. g_epochs g (g_epoch g) = Some (key, 0))
     \<and> finite (dom (g_roles g)) \<and> card (dom (g_roles g)) \<le> 50"

lemma change_owner: "change op a g g' \<Longrightarrow> g_owner g' = g_owner g \<and> g_type g' = g_type g \<and> g_trusted g' = g_trusted g
    \<and> g_version g' = g_version g"
  by (cases rule: change.cases) auto

lemma change_ok:
  assumes ch: "change op a g g'" and ok: "group_ok g"
  shows "group_ok g'"
proof -
  from ok have fin: "finite (dom (g_roles g))" and few: "card (dom (g_roles g)) \<le> 50"
    by (simp_all add: group_ok_def)
  from ch have "(\<exists>rid. g_members g' (g_owner g') = Some (GR_PEER_ACTIVE, rid))
      \<and> (\<exists>key. g_epochs g' (g_epoch g') = Some (key, 0))"
    using ok by (cases rule: change.cases) (auto simp: group_ok_def)
  moreover from ch have "finite (dom (g_roles g')) \<and> card (dom (g_roles g')) \<le> 50"
  proof (cases rule: change.cases)
    case (add_role rid nm perms)
    then show ?thesis using fin card_insert_le_m1 [of 50 "dom (g_roles g)" rid] by (simp add: card_insert_if)
  next
    case (remove_role rid)
    have "card (dom (g_roles g) - {rid}) \<le> card (dom (g_roles g))" using fin by (intro card_mono) auto
    then show ?thesis using remove_role fin few by simp
  next
    case (role_perms rid perms)
    have "dom ((g_roles g)(rid := map_option (\<lambda>_. perms) (g_roles g rid))) = dom (g_roles g)" by auto
    then show ?thesis using role_perms fin few by simp
  qed (use fin few in simp_all)
  ultimately show ?thesis by (simp add: group_ok_def)
qed

lemma group_step_ok: "group_step op a g g' \<Longrightarrow> group_ok g \<Longrightarrow> group_ok g'"
  by (auto simp: group_step_def group_ok_def dest!: change_ok)

lemma group_step_frame:
  assumes "group_step op a g g'"
  shows "g_owner g' = g_owner g \<and> g_type g' = g_type g \<and> g_trusted g' = g_trusted g
    \<and> g_version g' = g_version g + 1"
  using assms change_owner by (auto simp: group_step_def)

text \<open>Exclusions, departures, used and invalidated invites cannot be undone.\<close>

definition banned :: "group \<Rightarrow> bytes \<Rightarrow> bool" where
  "banned g m \<longleftrightarrow> (\<exists>rid. g_members g m = Some (GR_PEER_BANNED, rid))"

definition departed :: "group \<Rightarrow> bytes \<Rightarrow> bool" where
  "departed g m \<longleftrightarrow> (\<exists>st rid. g_members g m = Some (st, rid) \<and> (st = GR_PEER_LEFT \<or> st = GR_PEER_BANNED))"

definition spent :: "group \<Rightarrow> bytes \<Rightarrow> bool" where
  "spent g tok \<longleftrightarrow> (\<exists>iv. g_invites g tok = Some (True, iv))"

definition revoked :: "group \<Rightarrow> bytes \<Rightarrow> bool" where
  "revoked g tok \<longleftrightarrow> (\<exists>u. g_invites g tok = Some (u, True))"

text \<open>A key the group once used stays available for old messages.\<close>

definition holds_key :: "group \<Rightarrow> u32 \<Rightarrow> bytes \<Rightarrow> bool" where
  "holds_key g eid key \<longleftrightarrow> (\<exists>t. g_epochs g eid = Some (key, t))"

definition no_return :: "group \<Rightarrow> group \<Rightarrow> bool" where
  "no_return g g' \<longleftrightarrow> (\<forall>m. banned g m \<longrightarrow> banned g' m) \<and> (\<forall>m. departed g m \<longrightarrow> departed g' m)
     \<and> (\<forall>tok. spent g tok \<longrightarrow> spent g' tok) \<and> (\<forall>tok. revoked g tok \<longrightarrow> revoked g' tok)
     \<and> (\<forall>eid key. holds_key g eid key \<longrightarrow> holds_key g' eid key)"

lemmas no_return_defs = no_return_def banned_def departed_def spent_def revoked_def holds_key_def

lemma change_no_return: "change op a g g' \<Longrightarrow> no_return g g'"
  by (cases rule: change.cases) (auto simp: no_return_defs)

lemma no_return_refl: "no_return g g"
  by (simp add: no_return_def)

lemma no_return_trans: "no_return g1 g2 \<Longrightarrow> no_return g2 g3 \<Longrightarrow> no_return g1 g3"
  by (simp add: no_return_def)

lemma no_return_version: "no_return g (g'\<lparr>g_version := v\<rparr>) = no_return g g'"
  by (simp add: no_return_defs)

lemma group_step_no_return: "group_step op a g g' \<Longrightarrow> no_return g g'"
  by (auto simp: group_step_def no_return_version dest: change_no_return)

end
