(* ===== verification/Liveness.thy ===== *)
theory Liveness imports Group_Safety
begin

text \<open>
  The registrar refuses nothing that the abstract group allows: when engine and cryptography answer
  every call (\<open>smooth\<close>), the operations of \<open>plain\<close> that have a step in the abstract group succeed.
  Together with the refinement, the abstract group then says exactly when they succeed.
\<close>

definition smooth :: "yumi_env \<Rightarrow> bool" where
  "smooth e \<longleftrightarrow> (\<forall>c n. db_ok e c n) \<and> (\<forall>n. skein_ok e n) \<and> (\<forall>n sk b. mldsa_sign e n sk b \<noteq> None)"

lemma smooth_reliable: "smooth e \<Longrightarrow> reliable e"
  by (simp add: smooth_def reliable_def)

lemma header_save_smooth:
  assumes sm: "smooth e" and t: "in_txn d0 h0 reg"
  shows "fst (gr_header_save e reg) = GR_OK"
proof -
  from sm have ok: "db_ok e c n" for c n by (simp add: smooth_def)
  obtain k where dp: "reg_txn_depth reg = Suc k" using t by (cases "reg_txn_depth reg") (simp_all add: in_txn_def)
  have ready: "reg_stmts_ready reg" using t by (simp add: in_txn_def)
  show ?thesis
    unfolding gr_header_save_def header_save_cached_def begin_nested [OF t]
    by (simp add: ready Let_def db_raw_delete_header_def ok delete_header_def bind_header_fields_def
        exec_header_save_def db_exec_def ps_header_save_def gr_txn_commit_def dp)
qed

lemma append_smooth:
  assumes sm: "smooth e" and t: "in_txn d0 h0 reg"
  shows "fst (gr_audit_append e ct actor target detail reg) = GR_OK"
proof -
  from sm have ok: "db_ok e c n" "skein_ok e n" "mldsa_sign e n sk b \<noteq> None" for c n sk b
    by (simp_all add: smooth_def)
  have store: "fst (audit_store e a r) = GR_OK" if "in_txn d0 h0 r" for a r
  proof -
    let ?r = "(tick r)\<lparr>reg_db := (reg_db r)\<lparr>db_audit := tbl_insert_ignore a_entry_hash a (db_audit (reg_db r))\<rparr>\<rparr>"
    have "in_txn d0 h0 (?r\<lparr>reg_header := h\<rparr>)" for h using that by (simp add: in_txn_def)
    from header_save_smooth [OF sm this] show ?thesis
      by (simp add: audit_store_def stmt_then_def db_exec_def ok ps_audit_insert_def gr_then_def split: prod.splits)
        (simp add: prod_eq_iff)
  qed
  have "in_txn d0 h0 (tick ((tick (tick reg))\<lparr>reg_header := h\<rparr>))" for h using t by (simp add: in_txn_def)
  from store [OF this] show ?thesis
    using ok by (auto simp: gr_audit_append_def audit_seal_def Let_def split: option.splits)
qed

lemma stmt_smooth:
  assumes sm: "smooth e" and t: "in_txn d0 h0 reg" and st: "stmt (reg_db reg) = Some (n, d)"
    and k: "\<And>r. in_txn d0 h0 r \<Longrightarrow> reg_db r = d \<Longrightarrow> fst (k n r) = GR_OK"
  shows "fst (stmt_then e stmt k reg) = GR_OK"
proof -
  have "db_ok e DbStmt m" for m using sm by (simp add: smooth_def)
  moreover have "in_txn d0 h0 ((tick reg)\<lparr>reg_db := d\<rparr>)" using t by (simp add: in_txn_def)
  ultimately show ?thesis using k [of "(tick reg)\<lparr>reg_db := d\<rparr>"] st by (simp add: stmt_then_def db_exec_def)
qed

lemma txn_smooth:
  assumes sm: "smooth e" and idle: "idle reg" and body: "txn_body e body"
    and ok: "\<And>r. in_txn (reg_db reg) (reg_header reg) r \<Longrightarrow> reg_db r = reg_db reg \<Longrightarrow> fst (body r) = GR_OK"
  shows "fst (with_txn e body reg) = GR_OK"
proof -
  note rel = smooth_reliable [OF sm]
  obtain r0 where r0: "gr_txn_begin e reg = (True, r0)" "in_txn (reg_db reg) (reg_header reg) r0"
      "reg_txn_depth r0 = 1" "reg_db r0 = reg_db reg"
    using begin_idle [OF rel idle] by blast
  obtain r1 where b: "body r0 = (GR_OK, r1)" using ok [OF r0(2,4)] by (cases "body r0") auto
  have "in_txn (reg_db reg) (reg_header reg) r1" "reg_txn_depth r1 = 1"
    using txn_bodyD [OF body rel r0(2)] b r0(3) by (simp_all add: txn_result_def)
  from commit_outer [OF this, of e] show ?thesis
    using sm b r0(1) by (simp add: with_txn_def smooth_def)
qed

lemma fetch_smooth:
  "smooth e \<Longrightarrow> q (reg_db reg) = Some v \<Longrightarrow> db_fetch e q reg = (Inr v, tick reg)"
  by (simp add: smooth_def db_fetch_def)

lemma require_smooth:
  assumes "smooth e" and "and (perms_of reg (id_peer_id s)) perm \<noteq> 0"
  shows "\<exists>q. require_perm e s perm reg = (GR_OK, q) \<and> quiet reg q"
  using assms
  by (auto simp: require_perm_def gr_check_perm_def gr_get_peer_permissions_def perms_of_def smooth_def
      split: if_splits)

lemma governed_smooth:
  assumes "smooth e" and "\<not> gr_join_is_untrusted reg" and "and (perms_of reg (id_peer_id s)) perm \<noteq> 0"
  shows "\<exists>q. governed e s perm reg = (GR_OK, q) \<and> quiet reg q"
  using require_smooth [OF assms(1,3)] assms(2) by (auto simp: governed_def check_trusted_def gr_then_def)


text \<open>The two shapes of a body with one statement and the audit entry.\<close>

lemma stmt_append_smooth:
  assumes sm: "smooth e" and idle: "idle reg" and st: "stmt (reg_db reg) = Some (n, d)"
  shows "fst (with_txn e (stmt_then e stmt (\<lambda>n. gr_audit_append e ct actor target detail)) reg) = GR_OK"
proof (rule txn_smooth [OF sm idle txn_stmt_audit])
  fix r assume t: "in_txn (reg_db reg) (reg_header reg) r" and db: "reg_db r = reg_db reg"
  show "fst (stmt_then e stmt (\<lambda>n. gr_audit_append e ct actor target detail) r) = GR_OK"
    by (rule stmt_smooth [where stmt = stmt, OF sm t st [folded db]]) (rule append_smooth [OF sm])
qed

lemma clocked_smooth:
  assumes sm: "smooth e" and idle: "idle reg" and st: "\<And>now. stmt now (reg_db reg) \<noteq> None"
  shows "fst (with_txn e (clocked_change e stmt ct actor target detail) reg) = GR_OK"
proof (rule txn_smooth [OF sm idle txn_clocked_change])
  fix r assume t: "in_txn (reg_db reg) (reg_header reg) r" and db: "reg_db r = reg_db reg"
  obtain n d where x: "stmt (now_of e r) (reg_db (tick r)) = Some (n, d)" using st [of "now_of e r"] db by auto
  have t1: "in_txn (reg_db reg) (reg_header reg) (tick r)" using t by (simp add: in_txn_def)
  show "fst (clocked_change e stmt ct actor target detail r) = GR_OK"
    unfolding clocked_change_def Let_def by (rule stmt_smooth [where stmt = "stmt (now_of e r)", OF sm t1 x]) (rule append_smooth [OF sm])
qed

lemma existing_smooth:
  assumes sm: "smooth e" and idle: "idle reg" and st: "stmt (reg_db reg) = Some (n, d)" "n \<noteq> 0"
  shows "fst (with_txn e (change_existing e stmt ct actor target detail) reg) = GR_OK"
proof (rule txn_smooth [OF sm idle txn_change_existing])
  fix r assume t: "in_txn (reg_db reg) (reg_header reg) r" and db: "reg_db r = reg_db reg"
  have "fst (stmt_then e stmt (\<lambda>changed. if changed = 0 then (\<lambda>r. (GR_ERR_NOT_FOUND, r))
       else gr_audit_append e ct actor target detail) r) = GR_OK"
    by (rule stmt_smooth [where stmt = stmt, OF sm t st(1) [folded db]]) (simp add: st(2) append_smooth [OF sm])
  then show "fst (change_existing e stmt ct actor target detail r) = GR_OK" by (simp add: change_existing_def)
qed

section \<open>The operations\<close>

definition plain :: "gov_op \<Rightarrow> bool" where
  "plain op \<longleftrightarrow> (case op of PeerKick _ _ \<Rightarrow> True | PeerBan _ _ \<Rightarrow> True | PeerLeave \<Rightarrow> True
     | PeerObservedAddress _ _ _ \<Rightarrow> True | PeerUpdateAddress _ _ \<Rightarrow> True | PeerSetRole _ _ \<Rightarrow> True
     | RoleRemove _ \<Rightarrow> True | RoleSetPermissions _ _ \<Rightarrow> True | WebappRemove _ \<Rightarrow> True
     | ServerAdd _ \<Rightarrow> True | ServerRemove _ \<Rightarrow> True | InviteInvalidate _ \<Rightarrow> True | _ \<Rightarrow> False)"

lemma member_row:
  "g_members (group_of reg) m = Some (st, rid) \<Longrightarrow>
   \<exists>p. ps_peer_get m (reg_db reg) = Some p \<and> p_status p = st"
  by (auto simp: group_of_def view_def ps_peer_get_def)

lemma peer_get_smooth:
  assumes "smooth e" and "g_members (group_of reg) m = Some (st, rid)" and "quiet reg q"
  shows "\<exists>p. gr_peer_get e m q = (Inr p, tick q) \<and> p_status p = st"
proof -
  from member_row [OF assms(2)] obtain p where "ps_peer_get m (reg_db reg) = Some p" "p_status p = st" by blast
  then show ?thesis using assms(1) quietD(1) [OF assms(3)]
    by (simp add: gr_peer_get_def peer_read_def db_fetch_def smooth_def)
qed

lemma key_counted:
  assumes "view key f t k \<noteq> None"
  shows "tbl_count (\<lambda>r. key r = k) t \<noteq> 0"
proof -
  from assms obtain r where "tbl_get key k t = Some r" by (auto simp: view_def)
  then have "r \<in> set (filter (\<lambda>r. key r = k) t)" using tbl_get_mem tbl_get_key by fastforce
  then have "filter (\<lambda>r. key r = k) t \<noteq> []" by (metis empty_iff list.set(1))
  then show ?thesis by (simp add: tbl_count_def)
qed

inductive_cases kick_change: "change (PeerKick m why) a g g'"
inductive_cases ban_change: "change (PeerBan m why) a g g'"
inductive_cases leave_change: "change PeerLeave a g g'"
inductive_cases update_address_change: "change (PeerUpdateAddress ip port) a g g'"
inductive_cases observed_change: "change (PeerObservedAddress m ip port) a g g'"
inductive_cases set_role_change: "change (PeerSetRole m rid) a g g'"
inductive_cases remove_role_change: "change (RoleRemove rid) a g g'"
inductive_cases role_perms_change: "change (RoleSetPermissions rid perms) a g g'"
inductive_cases remove_webapp_change: "change (WebappRemove hash) a g g'"
inductive_cases add_server_change: "change (ServerAdd sv) a g g'"
inductive_cases remove_server_change: "change (ServerRemove hash) a g g'"
inductive_cases invalidate_change: "change (InviteInvalidate tok) a g g'"

lemma kick_ban_leave_smooth:
  assumes sm: "smooth e" and idle: "idle reg" and al: "gov_allowed op s reg"
    and ch: "change op (id_peer_id s) (group_of reg) g'"
    and op: "(case op of PeerKick _ _ \<Rightarrow> True | PeerBan _ _ \<Rightarrow> True | PeerLeave \<Rightarrow> True
       | PeerObservedAddress _ _ _ \<Rightarrow> True | PeerUpdateAddress _ _ \<Rightarrow> True | _ \<Rightarrow> False)"
  shows "fst (run_gov e op (Some s) reg) = GR_OK"
proof (cases op)
  case (PeerKick m why)
  from ch [unfolded PeerKick] obtain pid rid where p: "m = Some pid"
    "g_members (group_of reg) pid = Some (GR_PEER_ACTIVE, rid)" "pid \<noteq> g_owner (group_of reg)"
    by (cases rule: kick_change) auto
  from al PeerKick have g: "\<not> gr_join_is_untrusted reg" "and (perms_of reg (id_peer_id s)) GR_PERM_KICK_MEMBER \<noteq> 0"
    by (simp_all add: gov_allowed_simps)
  from governed_smooth [OF sm g] obtain q where q: "governed e s GR_PERM_KICK_MEMBER reg = (GR_OK, q)" "quiet reg q" by blast
  from peer_get_smooth [OF sm p(2) q(2)] obtain x where x: "gr_peer_get e pid q = (Inr x, tick q)" "p_status x = GR_PEER_ACTIVE" by blast
  have o: "\<not> gr_is_owner (tick q) pid" using p(3) quietD(3) [OF q(2)] by (simp add: gr_is_owner_def group_of_def)
  have i: "idle (tick q)" using quietD(8) [OF q(2)] idle by (simp add: idle_def)
  show ?thesis unfolding PeerKick p(1)
    by (simp add: gr_peer_kick_def gr_then_def q(1) gr_bind_def x o)
       (rule clocked_smooth [OF sm i], simp add: ps_peer_update_status_def sql_update_def)
next
  case (PeerBan m why)
  from ch [unfolded PeerBan] obtain pid st rid where p: "m = Some pid"
    "g_members (group_of reg) pid = Some (st, rid)" "pid \<noteq> g_owner (group_of reg)"
    by (cases rule: ban_change) auto
  from al PeerBan have g: "\<not> gr_join_is_untrusted reg" "and (perms_of reg (id_peer_id s)) GR_PERM_BAN_MEMBER \<noteq> 0"
    by (simp_all add: gov_allowed_simps)
  from governed_smooth [OF sm g] obtain q where q: "governed e s GR_PERM_BAN_MEMBER reg = (GR_OK, q)" "quiet reg q" by blast
  from peer_get_smooth [OF sm p(2) q(2)] obtain x where x: "gr_peer_get e pid q = (Inr x, tick q)" by blast
  have o: "\<not> gr_is_owner (tick q) pid" using p(3) quietD(3) [OF q(2)] by (simp add: gr_is_owner_def group_of_def)
  have i: "idle (tick q)" using quietD(8) [OF q(2)] idle by (simp add: idle_def)
  show ?thesis unfolding PeerBan p(1)
    by (simp add: gr_peer_ban_def gr_then_def q(1) gr_bind_def x o)
       (rule clocked_smooth [OF sm i], simp add: ps_peer_update_status_def sql_update_def)
next
  case PeerLeave
  let ?me = "id_peer_id s"
  from ch [unfolded PeerLeave] obtain rid where p: "g_members (group_of reg) ?me = Some (GR_PEER_ACTIVE, rid)"
    "?me \<noteq> g_owner (group_of reg)" by (cases rule: leave_change) auto
  from al PeerLeave have g: "\<not> gr_join_is_untrusted reg" by (simp add: gov_allowed_simps)
  from peer_get_smooth [OF sm p(1) quiet_refl] obtain x where x: "gr_peer_get e ?me reg = (Inr x, tick reg)"
    "p_status x = GR_PEER_ACTIVE" by blast
  have o: "\<not> gr_is_owner reg ?me" using p(2) by (simp add: gr_is_owner_def group_of_def)
  have i: "idle (tick reg)" using idle by (simp add: idle_def)
  show ?thesis unfolding PeerLeave
    by (simp add: gr_peer_leave_def gr_then_def check_trusted_def g o gr_bind_def x)
       (rule clocked_smooth [OF sm i], simp add: ps_peer_update_status_def sql_update_def)
next
  case (PeerUpdateAddress ip port)
  from ch [unfolded PeerUpdateAddress] obtain a where p: "ip = Some a" by (cases rule: update_address_change) auto
  show ?thesis unfolding PeerUpdateAddress p
    by (simp add: gr_peer_update_address_def)
       (rule clocked_smooth [OF sm idle], simp add: ps_peer_update_addr_def sql_update_def)
next
  case (PeerObservedAddress m ip port)
  from ch [unfolded PeerObservedAddress] obtain pid a rid where p: "m = Some pid" "ip = Some a"
    "g_members (group_of reg) pid = Some (GR_PEER_ACTIVE, rid)" by (cases rule: observed_change) auto
  from peer_get_smooth [OF sm p(3) quiet_refl] obtain x where x: "gr_peer_get e pid reg = (Inr x, tick reg)"
    "p_status x = GR_PEER_ACTIVE" by blast
  have i: "idle (tick reg)" using idle by (simp add: idle_def)
  show ?thesis unfolding PeerObservedAddress p(1,2)
    by (simp add: gr_peer_observed_address_def gr_bind_def x)
       (rule clocked_smooth [OF sm i], simp add: ps_peer_update_addr_def sql_update_def)
qed (use op in simp_all)


lemma role_server_smooth:
  assumes sm: "smooth e" and idle: "idle reg" and al: "gov_allowed op s reg"
    and ch: "change op (id_peer_id s) (group_of reg) g'"
    and op: "(case op of PeerSetRole _ _ \<Rightarrow> True | RoleRemove _ \<Rightarrow> True | RoleSetPermissions _ _ \<Rightarrow> True
       | WebappRemove _ \<Rightarrow> True | ServerAdd _ \<Rightarrow> True | ServerRemove _ \<Rightarrow> True
       | InviteInvalidate _ \<Rightarrow> True | _ \<Rightarrow> False)"
  shows "fst (run_gov e op (Some s) reg) = GR_OK"
proof -
  have ok: "db_ok e DbStmt n" for n using sm by (simp add: smooth_def)
  have gov: "\<exists>q. governed e s perm reg = (GR_OK, q) \<and> quiet reg q \<and> idle q"
    if "\<not> gr_join_is_untrusted reg" "and (perms_of reg (id_peer_id s)) perm \<noteq> 0" for perm
    using governed_smooth [OF sm that] quietD(8) idle by blast
  show ?thesis
  proof (cases op)
    case (PeerSetRole m rid)
    from ch [unfolded PeerSetRole] obtain pid where p: "m = Some pid" "0 < rid \<Longrightarrow> g_roles (group_of reg) rid \<noteq> None"
      by (cases rule: set_role_change) auto
    from al PeerSetRole gov [of GR_PERM_EDIT_ROLES] obtain q where
      q: "governed e s GR_PERM_EDIT_ROLES reg = (GR_OK, q)" "quiet reg q" "idle q" by (auto simp: gov_allowed_simps)
    have i: "idle (tick q)" using q(3) by (simp add: idle_def)
    have set: "fst (with_txn e (peer_set_role_body e pid rid s) r) = GR_OK" if "idle r" for r
      unfolding peer_set_role_body_def
      by (rule stmt_append_smooth [OF sm that]) (auto simp: ps_peer_set_role_def sql_update_def)
    show ?thesis
    proof (cases "0 < rid")
      case True
      then obtain x where "ps_role_get rid (reg_db q) = Some x"
        using p(2) get_role [of rid "reg_db reg"] quietD(1) [OF q(2)] by (auto simp: group_of_def)
      then have "gr_role_get e rid q = (Inr (role_read x), tick q)" by (simp add: gr_role_get_def db_fetch_def ok)
      then show ?thesis unfolding PeerSetRole p(1)
        by (simp add: gr_peer_set_role_def gr_then_def q(1) gr_bind_def True set [OF i])
    next
      case False
      then show ?thesis unfolding PeerSetRole p(1) by (simp add: gr_peer_set_role_def gr_then_def q(1) set [OF q(3)])
    qed
  next
    case (RoleRemove rid)
    from ch [unfolded RoleRemove] have p: "g_roles (group_of reg) rid \<noteq> None" by (cases rule: remove_role_change) auto
    from al RoleRemove gov [of GR_PERM_EDIT_ROLES] obtain q where
      q: "governed e s GR_PERM_EDIT_ROLES reg = (GR_OK, q)" "quiet reg q" "idle q" by (auto simp: gov_allowed_simps)
    obtain x where "ps_role_get rid (reg_db q) = Some x"
      using p get_role [of rid "reg_db reg"] quietD(1) [OF q(2)] by (auto simp: group_of_def)
    then have x: "gr_role_get e rid q = (Inr (role_read x), tick q)" by (simp add: gr_role_get_def db_fetch_def ok)
    have i: "idle (tick q)" using q(3) by (simp add: idle_def)
    have "fst (with_txn e (role_remove_body e (role_read x) rid s) (tick q)) = GR_OK"
    proof (rule txn_smooth [OF sm i txn_role_remove])
      fix r assume t: "in_txn (reg_db (tick q)) (reg_header (tick q)) r"
      obtain n d where 1: "ps_peer_reset_role rid (reg_db r) = Some (n, d)" by (auto simp: ps_peer_reset_role_def sql_update_def)
      obtain k d2 where 2: "ps_role_delete rid d = Some (k, d2)" by (auto simp: ps_role_delete_def sql_delete_def)
      show "fst (role_remove_body e (role_read x) rid s r) = GR_OK"
        unfolding role_remove_body_def
      proof (rule stmt_smooth [where stmt = "ps_peer_reset_role rid", OF sm t 1])
        fix r' assume t': "in_txn (reg_db (tick q)) (reg_header (tick q)) r'" and db: "reg_db r' = d"
        show "fst (stmt_then e (ps_role_delete rid) (\<lambda>m. gr_audit_append e GR_CHANGE_ROLE_REMOVED s None
            (Some (role_removed_detail (r_name (role_read x)) rid))) r') = GR_OK"
          by (rule stmt_smooth [where stmt = "ps_role_delete rid", OF sm t' 2 [folded db]]) (rule append_smooth [OF sm])
      qed
    qed
    then show ?thesis unfolding RoleRemove by (simp add: gr_role_remove_def gr_then_def q(1) gr_bind_def x)
  next
    case (RoleSetPermissions rid perms)
    from al RoleSetPermissions gov [of GR_PERM_EDIT_ROLES] obtain q where
      q: "governed e s GR_PERM_EDIT_ROLES reg = (GR_OK, q)" "quiet reg q" "idle q" by (auto simp: gov_allowed_simps)
    have i: "idle (tick q)" using q(3) by (simp add: idle_def)
    have "fst (with_txn e (role_set_permissions_body e rid perms (now_of e q) s) (tick q)) = GR_OK"
      unfolding role_set_permissions_body_def
      by (rule stmt_append_smooth [OF sm i]) (auto simp: ps_role_set_perms_def sql_update_def)
    then show ?thesis unfolding RoleSetPermissions by (simp add: gr_role_set_permissions_def gr_then_def q(1))
  next
    case (WebappRemove h)
    from ch [unfolded WebappRemove] obtain hash where p: "h = Some hash" "g_webapps (group_of reg) hash \<noteq> None"
      by (cases rule: remove_webapp_change) auto
    from al WebappRemove gov [of GR_PERM_REMOVE_WEBAPP] obtain q where
      q: "governed e s GR_PERM_REMOVE_WEBAPP reg = (GR_OK, q)" "quiet reg q" "idle q" by (auto simp: gov_allowed_simps)
    have n: "tbl_count (\<lambda>w. w_hash w = hash) (db_webapps (reg_db q)) \<noteq> 0"
      using key_counted [of w_hash "\<lambda>w. (w_perm_data w, w_role_mask w)" "db_webapps (reg_db reg)" hash] p(2) quietD(1) [OF q(2)] by (simp add: group_of_def)
    show ?thesis unfolding WebappRemove p(1)
      by (simp add: gr_webapp_remove_def gr_then_def q(1))
         (rule existing_smooth [OF sm q(3) _ n], simp add: ps_webapp_delete_def sql_delete_def)
  next
    case (ServerAdd sv)
    from ch [unfolded ServerAdd] obtain v where p: "sv = Some v" "g_servers (group_of reg) (s_id_hash v) = None"
      by (cases rule: add_server_change) auto
    from al ServerAdd gov [of GR_PERM_EDIT_SERVERS] obtain q where
      q: "governed e s GR_PERM_EDIT_SERVERS reg = (GR_OK, q)" "quiet reg q" "idle q" by (auto simp: gov_allowed_simps)
    have "s_id_hash v \<notin> s_id_hash ` set (db_servers (reg_db q))"
      using p(2) quietD(1) [OF q(2)] by (simp add: group_of_def view_def tbl_get_None)
    then have "fst (with_txn e (server_add_body e v s) q) = GR_OK"
      unfolding server_add_body_def
      by (intro stmt_append_smooth [OF sm q(3)]) (simp add: ps_server_insert_def sql_insert_def tbl_insert_def)
    then show ?thesis unfolding ServerAdd p(1) by (simp add: gr_server_add_def gr_then_def q(1))
  next
    case (ServerRemove h)
    from ch [unfolded ServerRemove] obtain hash where p: "h = Some hash" "g_servers (group_of reg) hash \<noteq> None"
      by (cases rule: remove_server_change) auto
    from al ServerRemove gov [of GR_PERM_EDIT_SERVERS] obtain q where
      q: "governed e s GR_PERM_EDIT_SERVERS reg = (GR_OK, q)" "quiet reg q" "idle q" by (auto simp: gov_allowed_simps)
    have n: "tbl_count (\<lambda>w. s_id_hash w = hash) (db_servers (reg_db q)) \<noteq> 0"
      using key_counted [of s_id_hash "\<lambda>s. s" "db_servers (reg_db reg)" hash] p(2) quietD(1) [OF q(2)] by (simp add: group_of_def)
    show ?thesis unfolding ServerRemove p(1)
      by (simp add: gr_server_remove_def gr_then_def q(1))
         (rule existing_smooth [OF sm q(3) _ n], simp add: ps_server_delete_def sql_delete_def)
  next
    case (InviteInvalidate t)
    from ch [unfolded InviteInvalidate] obtain tok where p: "t = Some tok" "g_invites (group_of reg) tok \<noteq> None"
      by (cases rule: invalidate_change) auto
    from al InviteInvalidate require_smooth [OF sm, of reg s GR_PERM_INVITE_MEMBER] obtain q where
      q: "require_perm e s GR_PERM_INVITE_MEMBER reg = (GR_OK, q)" "quiet reg q" by (auto simp: gov_allowed_simps)
    have i: "idle q" using quietD(8) [OF q(2)] idle by simp
    have n: "tbl_count (\<lambda>w. i_verification_token w = tok) (db_invites (reg_db q)) \<noteq> 0"
      using key_counted [of i_verification_token "\<lambda>i. (i_used i, i_invalidated i)" "db_invites (reg_db reg)" tok] p(2) quietD(1) [OF q(2)] by (simp add: group_of_def)
    show ?thesis unfolding InviteInvalidate p(1)
      by (simp add: gr_invite_invalidate_def gr_then_def q(1))
         (rule existing_smooth [OF sm i _ n], simp add: ps_invite_invalidate_def sql_update_def)
  qed (use op in simp_all)
qed

lemma plain_succeeds:
  assumes sm: "smooth e" and idle: "idle reg" and keys: "db_keys_ok (reg_db reg)" and op: "plain op"
    and st: "group_step op (id_peer_id s) (group_of reg) g'"
  shows "fst (run_gov e op (Some s) reg) = GR_OK"
proof -
  from st have al: "gov_allowed op s reg" by (simp add: group_step_def permitted_allowed [OF keys])
  from st obtain g1 where ch: "change op (id_peer_id s) (group_of reg) g1" by (auto simp: group_step_def)
  show ?thesis
    by (cases op) (insert op kick_ban_leave_smooth [OF sm idle al ch] role_server_smooth [OF sm idle al ch],
      simp_all add: plain_def)
qed

end
