(* ===== verification/Lifecycle.thy ===== *)
theory Lifecycle imports Epoch_Retention Peer
begin

text \<open>
  Creating and opening a registrar: \<open>src/src/group_registrar/lifecycle.c\<close>.  A database path is the
  database it holds, \<open>empty_db\<close> for a new one; an operation returns the handle (or an error) and the
  database as it is left behind.  The steps of \<open>gr_create\<close> run without a surrounding transaction.
\<close>

text \<open>A zeroed handle on a database, after \<open>n\<close> external calls.\<close>

definition zero_header :: gr_header_t where
  "zero_header = \<lparr>h_group_id = zero_hash, h_group_type = 0, h_group_name = [], h_version = 0,
     h_created_at = 0, h_updated_at = 0, h_epoch_id = 0,
     h_retention = \<lparr>message_retention_ms = 0, file_retention_ms = 0, registrar_max_bytes = 0\<rparr>,
     h_owner_id = zero_id, h_owner_sign_key = replicate GR_PUBLIC_KEY_LEN 0, h_signer_id = zero_id,
     h_signer_sign_key = replicate GR_PUBLIC_KEY_LEN 0, h_signature = replicate GR_SIGN_LEN 0,
     h_hash = zero_hash\<rparr>"

definition fresh_handle :: "gr_db \<Rightarrow> nat \<Rightarrow> gr_registrar" where
  "fresh_handle d n = \<lparr>reg_db = d, reg_saved = None, reg_header = zero_header, reg_header_dirty = False,
     reg_join_state = None, reg_stmts_ready = True, reg_txn_depth = 0,
     reg_txn_saved_header = zero_header, reg_save_bound = None, reg_calls = n\<rparr>"

text \<open>
  \<open>init_common\<close> after the allocation and the opening of the database: the lock, the schema (which
  keeps existing tables) and the prepared statements.
\<close>

definition open_handle :: "yumi_env \<Rightarrow> gr_db \<Rightarrow> gr_error_t + gr_registrar" where
  "open_handle e d =
     (if \<not> malloc_ok e 0 then Inl GR_ERR_OUT_OF_MEMORY
      else if \<not> db_ok e DbRaw 1 then Inl GR_ERR_DB
      else if \<not> db_ok e DbRaw 2 then Inl GR_ERR_DB
      else if \<not> malloc_ok e 3 then Inl GR_ERR_OUT_OF_MEMORY
      else if \<not> db_ok e DbRaw 4 then Inl GR_ERR_DB
      else if \<not> db_ok e DbRaw 5 then Inl GR_ERR_DB
      else Inr (fresh_handle d 6))"

text \<open>
  Closing the handle; the engine rolls an open transaction back.  The verification state of a join
  is not stored in the database.
\<close>

definition gr_close :: "gr_registrar \<Rightarrow> gr_db" where
  "gr_close reg = (case reg_saved reg of None \<Rightarrow> reg_db reg | Some d \<Rightarrow> d)"

definition owner_peer_row :: "gr_identity_t \<Rightarrow> i64 \<Rightarrow> gr_peer_t" where
  "owner_peer_row owner now = \<lparr>p_peer_id = id_peer_id owner, p_kem_pk = id_kem_pk owner,
     p_sign_key = id_public_key owner, p_ip = [], p_port = 0, p_status = GR_PEER_ACTIVE, p_role_id = 0,
     p_joined_at = now, p_removed_at = 0, p_last_seen = now, p_removed_reason = [],
     p_removed_by = zero_id\<rparr>"

definition insert_owner_peer :: "yumi_env \<Rightarrow> gr_identity_t \<Rightarrow> i64 \<Rightarrow> gr_registrar \<Rightarrow> gr_error_t \<times> gr_registrar" where
  "insert_owner_peer e owner now = stmt_then e (ps_peer_insert (owner_peer_row owner now)) (\<lambda>n r. (GR_OK, r))"

definition insert_first_epoch :: "yumi_env \<Rightarrow> gr_identity_t \<Rightarrow> i64 \<Rightarrow> gr_registrar \<Rightarrow> gr_error_t \<times> gr_registrar" where
  "insert_first_epoch e owner now reg =
     (case randombytes e (reg_calls reg) GR_EPOCH_KEY_LEN of
        None \<Rightarrow> (GR_ERR_CRYPTO, tick reg)
      | Some key \<Rightarrow> stmt_then e (ps_epoch_insert (epoch_row 1 key now owner)) (\<lambda>n r. (GR_OK, r)) (tick reg))"

text \<open>The group identifier; a failing hash leaves what the stack held.\<close>

definition initial_group_id :: "yumi_env \<Rightarrow> nat \<Rightarrow> bytes \<Rightarrow> gr_identity_t \<Rightarrow> i64 \<Rightarrow> bytes" where
  "initial_group_id e n group_name owner now =
     take GR_HASH_LEN (if skein_ok e n
       then skein e (id_public_key owner @ group_name @ mem_bytes (host_le e) 8 now)
       else uninit e n GR_HASH_LEN)"

definition build_initial_header :: "yumi_env \<Rightarrow> nat \<Rightarrow> bytes \<Rightarrow> u32 \<Rightarrow> gr_identity_t \<Rightarrow> i64 \<Rightarrow> gr_header_t" where
  "build_initial_header e n group_name group_type owner now =
     zero_header\<lparr>h_group_id := initial_group_id e n group_name owner now, h_group_type := group_type,
       h_group_name := take (GR_MAX_NAME_LEN - 1) group_name, h_version := 1, h_created_at := now,
       h_updated_at := now, h_epoch_id := 1, h_retention := gr_retention_defaults,
       h_owner_id := id_peer_id owner, h_owner_sign_key := id_public_key owner\<rparr>"

text \<open>The steps after the handle is open.\<close>

definition create_steps :: "yumi_env \<Rightarrow> bytes \<Rightarrow> u32 \<Rightarrow> gr_identity_t \<Rightarrow> gr_registrar \<Rightarrow>
    gr_error_t \<times> gr_registrar" where
  "create_steps e group_name group_type owner reg =
     (let now = now_of e reg; r1 = tick reg;
          hdr = build_initial_header e (reg_calls r1) group_name group_type owner now in
      gr_then (gr_header_save e ((tick r1)\<lparr>reg_header := hdr\<rparr>)) (\<lambda>r2.
      gr_then (insert_owner_peer e owner now r2) (\<lambda>r3.
      gr_then (insert_first_epoch e owner now r3) (\<lambda>r4.
        gr_audit_append e GR_CHANGE_PEER_ADDED owner (Some (id_peer_id owner))
          (Some (cstr ''group created'')) r4))))"

definition gr_create :: "yumi_env \<Rightarrow> gr_db \<Rightarrow> bytes option \<Rightarrow> u32 \<Rightarrow> gr_identity_t option \<Rightarrow>
    (gr_error_t + gr_registrar) \<times> gr_db" where
  "gr_create e d group_name group_type owner =
     (case (group_name, owner) of
        (Some nm, Some ow) \<Rightarrow>
          if nm = [] then (Inl GR_ERR_INVALID_PARAM, d)
          else if group_type \<noteq> GR_GROUP_PRIVATE \<and> group_type \<noteq> GR_GROUP_PUBLIC then (Inl GR_ERR_INVALID_PARAM, d)
          else (case open_handle e d of
                  Inl err \<Rightarrow> (Inl err, d)
                | Inr reg \<Rightarrow> (case create_steps e nm group_type ow reg of
                    (err, r) \<Rightarrow> (if err = GR_OK then (Inr r, reg_db r) else (Inl err, gr_close r))))
      | _ \<Rightarrow> (Inl GR_ERR_INVALID_PARAM, d))"

definition gr_open :: "yumi_env \<Rightarrow> gr_db \<Rightarrow> bytes option \<Rightarrow> gr_error_t + gr_registrar" where
  "gr_open e d group_id =
     (case group_id of
        None \<Rightarrow> Inl GR_ERR_INVALID_PARAM
      | Some gid \<Rightarrow>
          (case open_handle e d of
             Inl err \<Rightarrow> Inl err
           | Inr reg \<Rightarrow> (case gr_header_load e reg of (err, r) \<Rightarrow>
               if err \<noteq> GR_OK then Inl err
               else if h_group_id (reg_header r) \<noteq> gid then Inl GR_ERR_NOT_FOUND
               else Inr r)))"

definition gr_get_header :: "gr_registrar \<Rightarrow> gr_header_t" where
  "gr_get_header reg = reg_header reg"

end
