(* ===== verification/Join.thy ===== *)
theory Join imports Peer Buf Complex_Main
begin

text \<open>
  The verification of a joined group against its peers: \<open>src/src/group_registrar/join.c\<close>.
\<close>

section \<open>Helpers\<close>

text \<open>
  \<open>ceil(sqrt(n))\<close>.  The argument is below \<open>2 ^ 32\<close>, where the double-precision square root is exact
  on squares and its rounding never crosses an integer, so the result is the least \<open>q\<close> with
  \<open>n \<le> q * q\<close>.
\<close>

function up_sqrt :: "nat \<Rightarrow> nat \<Rightarrow> nat" where
  "up_sqrt n q = (if n \<le> q * q then q else up_sqrt n (q + 1))"
  by pat_completeness auto
termination
proof (relation "measure (\<lambda>(n, q). n - q)")
  fix n q :: nat
  assume "\<not> n \<le> q * q"
  then have "q * q < n" by simp
  moreover have "q \<le> q * q" by (cases q) simp_all
  ultimately have "q < n" by linarith
  then show "((n, q + 1), n, q) \<in> measure (\<lambda>(n, q). n - q)" by simp
qed simp

declare up_sqrt.simps [simp del]

definition ceil_sqrt :: "nat \<Rightarrow> nat" where
  "ceil_sqrt n = up_sqrt n 0"

definition compute_quorum :: "u32 \<Rightarrow> u32" where
  "compute_quorum active_peers =
     (if active_peers \<le> 2 then GR_JOIN_MIN_QUORUM
      else let q = (of_nat (ceil_sqrt (unat (active_peers - 2))) :: u32);
               q1 = (if q < GR_JOIN_MIN_QUORUM then GR_JOIN_MIN_QUORUM else q)
           in if GR_JOIN_MAX_QUORUM < q1 then GR_JOIN_MAX_QUORUM else q1)"

definition has_voted :: "gr_join_verify_state_t \<Rightarrow> bytes \<Rightarrow> bool" where
  "has_voted js peer_id = list_ex (\<lambda>v. v_peer_id v = peer_id) (js_votes js)"

definition headers_agree_on_authority :: "gr_header_t \<Rightarrow> gr_header_t \<Rightarrow> bool" where
  "headers_agree_on_authority provisional peer_header \<longleftrightarrow>
     h_group_id provisional = h_group_id peer_header \<and> h_owner_id provisional = h_owner_id peer_header
     \<and> h_owner_sign_key provisional = h_owner_sign_key peer_header"

definition ticket_matches_header :: "gr_join_verify_state_t \<Rightarrow> gr_header_t \<Rightarrow> bool" where
  "ticket_matches_header js header \<longleftrightarrow>
     js_ticket_group_id js = h_group_id header \<and> js_ticket_owner_key js = h_owner_sign_key header"

definition build_attestation_data :: "bool \<Rightarrow> bytes \<Rightarrow> bytes \<Rightarrow> bytes \<Rightarrow> u32 \<Rightarrow> bytes \<Rightarrow> bytes" where
  "build_attestation_data h group_id owner_id owner_sign_key version nonce =
     group_id @ owner_id @ owner_sign_key @ mem_bytes h 4 (gr_htole32 h version) @ nonce"

section \<open>Beginning\<close>

definition join_draft :: "gr_invite_ticket_t \<Rightarrow> i64 \<Rightarrow> bytes \<Rightarrow> gr_join_verify_state_t" where
  "join_draft ticket now nonce =
     \<lparr>js_state = GR_JOIN_PROVISIONAL, js_started_at = now, js_nonce = nonce,
      js_inviter_peer_id = zero_id, js_required_attestations = 0,
      js_ticket_owner_key = t_owner_sign_key ticket, js_ticket_group_id = t_group_id ticket,
      js_ticket_registrar_hash = t_registrar_hash ticket, js_votes = [], js_agree_count = 0,
      js_disagree_count = 0, js_has_dissent = False, js_dissent_callback_fired = False,
      js_dissent_peer_id = zero_id, js_dissent_owner_id = zero_id,
      js_dissent_owner_key = replicate GR_PUBLIC_KEY_LEN 0, js_small_group_bypass = False,
      js_user_override = False, js_dissent_callback = None\<rparr>"

definition join_reject :: "gr_join_verify_state_t \<Rightarrow> gr_registrar \<Rightarrow> gr_error_t \<times> gr_registrar" where
  "join_reject js reg =
     (GR_ERR_JOIN_FAILED, reg\<lparr>reg_join_state := Some (js\<lparr>js_state := GR_JOIN_FAILED\<rparr>)\<rparr>)"

text \<open>
  The size of the group decides: fewer than five active peers are not asked.  The error of
  \<open>gr_peer_count\<close> is not looked at, its output then stays zero.
\<close>

definition join_set_quorum :: "yumi_env \<Rightarrow> gr_join_verify_state_t \<Rightarrow> gr_registrar \<Rightarrow>
    gr_error_t \<times> gr_registrar" where
  "join_set_quorum e js reg =
     (case gr_peer_count e GR_PEER_ACTIVE reg of (res, r) \<Rightarrow>
      let active_count = (case res of Inl _ \<Rightarrow> 0 | Inr n \<Rightarrow> n) in
      if active_count < GR_JOIN_SMALL_GROUP_THRESHOLD
      then (GR_OK, r\<lparr>reg_join_state := Some (js\<lparr>js_state := GR_JOIN_VERIFIED,
              js_small_group_bypass := True, js_required_attestations := 0\<rparr>)\<rparr>)
      else (GR_OK, r\<lparr>reg_join_state := Some (js\<lparr>js_required_attestations := compute_quorum active_count\<rparr>)\<rparr>))"

text \<open>Is the inviter an active peer that may invite?\<close>

definition join_check_inviter :: "yumi_env \<Rightarrow> gr_join_verify_state_t \<Rightarrow> gr_registrar \<Rightarrow>
    gr_error_t \<times> gr_registrar" where
  "join_check_inviter e js reg =
     (case gr_peer_get e (js_inviter_peer_id js) reg of
        (Inl _, r) \<Rightarrow> join_reject js r
      | (Inr inviter_peer, r) \<Rightarrow>
          if p_status inviter_peer \<noteq> GR_PEER_ACTIVE then join_reject js r
          else case gr_get_peer_permissions e (js_inviter_peer_id js) r of
                 (inviter_perms, r') \<Rightarrow>
                   if and inviter_perms GR_PERM_INVITE_MEMBER = 0 then join_reject js r'
                   else join_set_quorum e js r')"

text \<open>The result of \<open>gr_identity_derive_id\<close> is not looked at; the zeroed identifier then stays.\<close>

definition gr_join_begin :: "yumi_env \<Rightarrow> gr_invite_ticket_t option \<Rightarrow> gr_registrar \<Rightarrow>
    gr_error_t \<times> gr_registrar" where
  "gr_join_begin e ticket reg =
     (case ticket of
        None \<Rightarrow> (GR_ERR_INVALID_PARAM, reg)
      | Some t \<Rightarrow>
          if reg_join_state reg \<noteq> None then (GR_ERR_ALREADY_EXISTS, reg)
          else if \<not> malloc_ok e (reg_calls reg) then (GR_ERR_OUT_OF_MEMORY, tick reg)
          else let r1 = tick reg; started = now_of e r1; r2 = tick r1 in
            case randombytes e (reg_calls r2) GR_JOIN_NONCE_LEN of
              None \<Rightarrow> (GR_ERR_CRYPTO, tick r2)
            | Some nonce \<Rightarrow>
                let js = join_draft t started nonce; r3 = tick r2 in
                if \<not> ticket_matches_header js (reg_header r3) then join_reject js r3
                else let pid = (case gr_identity_derive_id e (t_inviter_sign_pk t) (reg_calls r3) of
                                  None \<Rightarrow> zero_id | Some i \<Rightarrow> i)
                     in join_check_inviter e (js\<lparr>js_inviter_peer_id := pid\<rparr>) (tick r3))"

definition gr_join_set_dissent_callback :: "(gr_join_verify_result_t \<Rightarrow> bool) option \<Rightarrow> gr_registrar \<Rightarrow>
    gr_error_t \<times> gr_registrar" where
  "gr_join_set_dissent_callback callback reg =
     (case reg_join_state reg of
        None \<Rightarrow> (GR_ERR_INVALID_PARAM, reg)
      | Some js \<Rightarrow> (GR_OK, reg\<lparr>reg_join_state := Some (js\<lparr>js_dissent_callback := callback\<rparr>)\<rparr>))"

section \<open>Collecting votes\<close>

definition join_vote :: "gr_header_t \<Rightarrow> bytes \<Rightarrow> i64 \<Rightarrow> gr_header_t \<Rightarrow> gr_join_peer_vote_t" where
  "join_vote own peer_id now peer_header =
     \<lparr>v_peer_id = peer_id, v_owner_id = h_owner_id peer_header,
      v_owner_sign_key = h_owner_sign_key peer_header, v_group_id = h_group_id peer_header,
      v_registrar_hash = h_hash peer_header, v_version = h_version peer_header, v_received_at = now,
      v_agrees = headers_agree_on_authority own peer_header\<rparr>"

text \<open>Counting a vote; the first disagreeing one is remembered.\<close>

definition count_vote :: "gr_join_peer_vote_t \<Rightarrow> gr_join_verify_state_t \<Rightarrow> gr_join_verify_state_t" where
  "count_vote vote js =
     (let js1 = js\<lparr>js_votes := js_votes js @ [vote]\<rparr> in
      if v_agrees vote then js1\<lparr>js_agree_count := js_agree_count js1 + 1\<rparr>
      else let js2 = js1\<lparr>js_disagree_count := js_disagree_count js1 + 1\<rparr> in
           if js_has_dissent js2 then js2
           else js2\<lparr>js_has_dissent := True, js_dissent_peer_id := v_peer_id vote,
                    js_dissent_owner_id := v_owner_id vote,
                    js_dissent_owner_key := v_owner_sign_key vote\<rparr>)"

text \<open>From the signature check on.\<close>

definition join_accept_vote :: "yumi_env \<Rightarrow> gr_join_verify_state_t \<Rightarrow> gr_header_t \<Rightarrow> bytes \<Rightarrow>
    bytes \<Rightarrow> bytes \<Rightarrow> gr_registrar \<Rightarrow> gr_error_t \<times> gr_registrar" where
  "join_accept_vote e js peer_header peer_id peer_pk peer_signature reg =
     (if \<not> mldsa_verify e peer_signature
            (build_attestation_data (host_le e) (h_group_id peer_header) (h_owner_id peer_header)
               (h_owner_sign_key peer_header) (h_version peer_header) (js_nonce js)) peer_pk
      then (GR_ERR_SIGNATURE_INVALID, reg)
      else if GR_JOIN_MAX_TRACKED_PEERS \<le> length (js_votes js) then (GR_ERR_SIZE_EXCEEDED, reg)
      else (GR_OK, (tick reg)\<lparr>reg_join_state :=
              Some (count_vote (join_vote (reg_header reg) peer_id (now_of e reg) peer_header) js)\<rparr>))"

definition gr_join_submit_peer_header :: "yumi_env \<Rightarrow> gr_header_t \<Rightarrow> bytes \<Rightarrow> bytes \<Rightarrow> bytes \<Rightarrow>
    gr_registrar \<Rightarrow> gr_error_t \<times> gr_registrar" where
  "gr_join_submit_peer_header e peer_header peer_id peer_pk peer_signature reg =
     (case reg_join_state reg of
        None \<Rightarrow> (GR_ERR_INVALID_PARAM, reg)
      | Some js \<Rightarrow>
          if js_state js \<noteq> GR_JOIN_PROVISIONAL then (GR_ERR_INVALID_PARAM, reg)
          else if peer_id = js_inviter_peer_id js then (GR_ERR_JOIN_INVITER_EXCLUDED, reg)
          else if has_voted js peer_id then (GR_ERR_ALREADY_EXISTS, reg)
          else case gr_peer_get e peer_id reg of
                 (Inl _, r) \<Rightarrow> (GR_ERR_NOT_FOUND, r)
               | (Inr peer, r) \<Rightarrow>
                   if p_status peer \<noteq> GR_PEER_ACTIVE then (GR_ERR_NOT_FOUND, r)
                   else if p_sign_key peer \<noteq> peer_pk then (GR_ERR_SIGNATURE_INVALID, r)
                   else join_accept_vote e js peer_header peer_id peer_pk peer_signature r)"

section \<open>Deciding\<close>

definition join_result_zero :: gr_join_verify_result_t where
  "join_result_zero = \<lparr>jr_state = GR_JOIN_NONE, jr_started_at = 0, jr_peers_checked = 0,
     jr_peers_agreed = 0, jr_peers_disagreed = 0, jr_required_attestations = 0,
     jr_provisional_owner_id = zero_id, jr_provisional_owner_key = replicate GR_PUBLIC_KEY_LEN 0,
     jr_dissent_peer_id = zero_id, jr_dissent_owner_id = zero_id,
     jr_dissent_owner_key = replicate GR_PUBLIC_KEY_LEN 0, jr_small_group_bypass = False,
     jr_user_override = False\<rparr>"

definition join_result_counts :: "gr_join_verify_state_t \<Rightarrow> gr_join_verify_result_t \<Rightarrow> gr_join_verify_result_t" where
  "join_result_counts js res = res\<lparr>jr_state := js_state js, jr_started_at := js_started_at js,
     jr_peers_checked := of_nat (length (js_votes js)), jr_peers_agreed := js_agree_count js,
     jr_peers_disagreed := js_disagree_count js,
     jr_required_attestations := js_required_attestations js\<rparr>"

definition join_result_flags :: "gr_join_verify_state_t \<Rightarrow> gr_join_verify_result_t \<Rightarrow> gr_join_verify_result_t" where
  "join_result_flags js res = res\<lparr>jr_small_group_bypass := js_small_group_bypass js,
     jr_user_override := js_user_override js\<rparr>"

definition join_result_owner :: "gr_header_t \<Rightarrow> gr_join_verify_result_t \<Rightarrow> gr_join_verify_result_t" where
  "join_result_owner h res = res\<lparr>jr_provisional_owner_id := h_owner_id h,
     jr_provisional_owner_key := h_owner_sign_key h\<rparr>"

definition join_result_dissent :: "gr_join_verify_state_t \<Rightarrow> gr_join_verify_result_t \<Rightarrow> gr_join_verify_result_t" where
  "join_result_dissent js res = res\<lparr>jr_dissent_peer_id := js_dissent_peer_id js,
     jr_dissent_owner_id := js_dissent_owner_id js, jr_dissent_owner_key := js_dissent_owner_key js\<rparr>"

text \<open>What the callback is shown, and the state after the decision.\<close>

definition join_callback_result :: "gr_header_t \<Rightarrow> gr_join_verify_state_t \<Rightarrow> gr_join_verify_result_t" where
  "join_callback_result h js = join_result_dissent js (join_result_owner h (join_result_counts js join_result_zero))"

definition join_decide :: "gr_header_t \<Rightarrow> gr_join_verify_state_t \<Rightarrow> gr_join_verify_state_t" where
  "join_decide h js =
     (if 0 < js_disagree_count js \<and> \<not> js_dissent_callback_fired js
      then let js1 = js\<lparr>js_dissent_callback_fired := True\<rparr> in
           (case js_dissent_callback js1 of
              None \<Rightarrow> js1\<lparr>js_state := GR_JOIN_FAILED\<rparr>
            | Some callback \<Rightarrow>
                if callback (join_callback_result h js1)
                then js1\<lparr>js_state := GR_JOIN_VERIFIED, js_user_override := True\<rparr>
                else js1\<lparr>js_state := GR_JOIN_FAILED\<rparr>)
      else if js_required_attestations js \<le> js_agree_count js \<and> js_disagree_count js = 0
      then js\<lparr>js_state := GR_JOIN_VERIFIED\<rparr>
      else js)"

definition gr_join_evaluate :: "gr_registrar \<Rightarrow> gr_join_verify_result_t \<times> gr_registrar" where
  "gr_join_evaluate reg =
     (case reg_join_state reg of
        None \<Rightarrow> (join_result_zero, reg)
      | Some js \<Rightarrow>
          if js_state js \<noteq> GR_JOIN_PROVISIONAL
          then (join_result_flags js (join_result_counts js join_result_zero), reg)
          else let js1 = join_decide (reg_header reg) js;
                   res = join_result_owner (reg_header reg)
                           (join_result_flags js1 (join_result_counts js1 join_result_zero))
               in (if js_has_dissent js1 then join_result_dissent js1 res else res,
                   reg\<lparr>reg_join_state := Some js1\<rparr>))"

section \<open>Queries\<close>

definition gr_join_get_state :: "gr_registrar \<Rightarrow> gr_join_state_t" where
  "gr_join_get_state reg = (case reg_join_state reg of None \<Rightarrow> GR_JOIN_NONE | Some js \<Rightarrow> js_state js)"

definition gr_join_get_nonce :: "gr_registrar \<Rightarrow> gr_error_t + bytes" where
  "gr_join_get_nonce reg =
     (case reg_join_state reg of None \<Rightarrow> Inl GR_ERR_INVALID_PARAM | Some js \<Rightarrow> Inr (js_nonce js))"

definition gr_join_export_header_attestation :: "yumi_env \<Rightarrow> gr_identity_t \<Rightarrow> bytes \<Rightarrow> gr_registrar \<Rightarrow>
    (gr_error_t + gr_header_t \<times> bytes) \<times> gr_registrar" where
  "gr_join_export_header_attestation e self joiner_nonce reg =
     (let h = reg_header reg in
      case mldsa_sign e (reg_calls reg) (id_secret_key self)
             (build_attestation_data (host_le e) (h_group_id h) (h_owner_id h) (h_owner_sign_key h)
                (h_version h) joiner_nonce) of
        None \<Rightarrow> (Inl GR_ERR_CRYPTO, tick reg)
      | Some sig \<Rightarrow> (Inr (h, sig), tick reg))"

definition gr_join_list_unattested_peers :: "yumi_env \<Rightarrow> u32 \<Rightarrow> gr_registrar \<Rightarrow>
    (gr_error_t + bytes list) \<times> gr_registrar" where
  "gr_join_list_unattested_peers e max_count reg =
     (case reg_join_state reg of
        None \<Rightarrow> (Inl GR_ERR_INVALID_PARAM, reg)
      | Some js \<Rightarrow>
          if js_state js \<noteq> GR_JOIN_PROVISIONAL then (Inl GR_ERR_INVALID_PARAM, reg)
          else q_bind (gr_peer_count e GR_PEER_ACTIVE reg) (\<lambda>n r1.
            if n = 0 then (Inr [], r1)
            else if \<not> malloc_ok e (reg_calls r1) then (Inl GR_ERR_OUT_OF_MEMORY, tick r1)
            else q_bind (gr_peer_list e n GR_PEER_ACTIVE (tick r1)) (\<lambda>rows r2.
              (Inr (take (unat max_count) (map p_peer_id
                 (filter (\<lambda>p. p_peer_id p \<noteq> js_inviter_peer_id js \<and> \<not> has_voted js (p_peer_id p)) rows))), r2))))"

definition gr_is_trusted :: "gr_registrar \<Rightarrow> bool" where
  "gr_is_trusted reg = (case reg_join_state reg of None \<Rightarrow> True | Some js \<Rightarrow> js_state js = GR_JOIN_VERIFIED)"

end
