(* ===== verification/Blocklist.thy ===== *)
theory Blocklist imports Registrar_State
begin

text \<open>
  The IP blocklist of the bootstrap listener: \<open>src/src/group_registrar/blocklist.c\<close>.  Its
  operations run single statements outside a transaction and write no audit entry.  The counters
  are signed 32-bit integers; \<open>fail_count++\<close> wraps.
\<close>

definition now_ms :: "yumi_env \<Rightarrow> gr_registrar \<Rightarrow> i64" where
  "now_ms e reg = i64_div (gr_timestamp_ns e (reg_calls reg)) 1000000"

definition gr_blocklist_check :: "yumi_env \<Rightarrow> bytes option \<Rightarrow> i64 \<Rightarrow> gr_registrar \<Rightarrow>
    (gr_error_t + bool) \<times> gr_registrar" where
  "gr_blocklist_check e ip block_duration_ms reg =
     (case ip of
        None \<Rightarrow> (Inl GR_ERR_INVALID_PARAM, reg)
      | Some addr \<Rightarrow>
          (case db_query e (\<lambda>d. Some (ps_block_get addr d)) reg of
             (Inl err, r) \<Rightarrow> (Inl err, r)
           | (Inr None, r) \<Rightarrow> (Inr False, r)
           | (Inr (Some row), r) \<Rightarrow>
               if \<not> b_blocked row then (Inr False, r)
               else if sint block_duration_ms \<le> sint (now_ms e r - b_blocked_at row)
                    then (Inr False, snd (db_exec e (ps_block_delete addr) (tick r)))
                    else (Inr True, tick r)))"

text \<open>The row after one more failure.\<close>

definition block_row_next :: "bytes \<Rightarrow> i32 \<Rightarrow> i32 \<Rightarrow> i64 \<Rightarrow> ip_block_row" where
  "block_row_next ip fail_count max_fails ts =
     (let should_block = sint max_fails \<le> sint fail_count in
      \<lparr>b_ip = ip, b_fail_count = fail_count, b_blocked = should_block,
       b_blocked_at = (if should_block then ts else 0), b_last_attempt = ts\<rparr>)"

definition gr_blocklist_record_fail :: "yumi_env \<Rightarrow> bytes option \<Rightarrow> i32 \<Rightarrow> gr_registrar \<Rightarrow>
    (gr_error_t + bool) \<times> gr_registrar" where
  "gr_blocklist_record_fail e ip max_fails reg =
     (case ip of
        None \<Rightarrow> (Inl GR_ERR_INVALID_PARAM, reg)
      | Some addr \<Rightarrow>
          (let ts = now_ms e reg in
           case db_query e (\<lambda>d. Some (ps_block_get addr d)) (tick reg) of
             (Inl err, r) \<Rightarrow> (Inl err, r)
           | (Inr found, r) \<Rightarrow>
               let fails = (case found of None \<Rightarrow> 0 | Some row \<Rightarrow> b_fail_count row);
                   already = (case found of None \<Rightarrow> False | Some row \<Rightarrow> b_blocked row);
                   row = block_row_next addr (fails + 1) max_fails ts
               in if already then (Inr False, r)
                  else case db_exec e (ps_block_upsert row) r of
                         (None, r') \<Rightarrow> (Inl GR_ERR_DB, r')
                       | (Some n, r') \<Rightarrow> (Inr (b_blocked row), r')))"

definition gr_blocklist_reset :: "yumi_env \<Rightarrow> bytes option \<Rightarrow> gr_registrar \<Rightarrow> gr_error_t \<times> gr_registrar" where
  "gr_blocklist_reset e ip reg =
     (case ip of
        None \<Rightarrow> (GR_ERR_INVALID_PARAM, reg)
      | Some addr \<Rightarrow> stmt_then e (ps_block_delete addr) (\<lambda>n r. (GR_OK, r)) reg)"

definition gr_blocklist_cleanup :: "yumi_env \<Rightarrow> i64 \<Rightarrow> gr_registrar \<Rightarrow> gr_error_t \<times> gr_registrar" where
  "gr_blocklist_cleanup e block_duration_ms reg =
     stmt_then e (ps_block_expire (now_ms e reg - block_duration_ms)) (\<lambda>n r. (GR_OK, r)) (tick reg)"

end
