(* ===== verification/Group_Life.thy ===== *)
theory Group_Life imports Liveness Lifecycle Join Blocklist
begin

text \<open>
  The life of a registrar: created on an empty database, then operations of the group, background
  activity (address sightings, the IP blocklist, the verification of a join), closing and opening
  again, in any order.  \<open>registrar_ok\<close> is the invariant of all states that can be reached; no state
  change undoes an exclusion, a departure or the use of an invite.
\<close>

section \<open>Creating a group\<close>

definition initial_group :: "gr_identity_t \<Rightarrow> u32 \<Rightarrow> bytes \<Rightarrow> group" where
  "initial_group owner gt key = \<lparr>g_owner = id_peer_id owner, g_type = gt, g_trusted = True, g_version = 2,
     g_epoch = 1, g_retention = gr_retention_defaults,
     g_members = [id_peer_id owner \<mapsto> (GR_PEER_ACTIVE, 0)], g_roles = Map.empty, g_webapps = Map.empty,
     g_servers = Map.empty, g_epochs = [1 \<mapsto> (key, 0)], g_invites = Map.empty, g_icon = None\<rparr>"

lemma exec_then_ok:
  assumes "stmt_then e stmt (\<lambda>n r. (GR_OK, r)) reg = (GR_OK, r)"
  shows "\<exists>n d. stmt (reg_db reg) = Some (n, d) \<and> r = (tick reg)\<lparr>reg_db := d\<rparr>"
  using assms by (auto simp: stmt_then_def db_exec_def split: if_splits option.splits)

lemma create_steps_ok:
  assumes rel: "reliable e" and res: "create_steps e nm gt ow (fresh_handle empty_db k) = (GR_OK, r)"
  shows "\<exists>key entry t'. idle r \<and> reg_join_state r = None
     \<and> a_entry_hash entry = audit_hash e entry \<and> retained [entry] t'
     \<and> reg_db r = empty_db\<lparr>db_header := [reg_header r], db_peers := [owner_peer_row ow (now_of e (fresh_handle empty_db k))],
          db_epochs := [epoch_row 1 key (now_of e (fresh_handle empty_db k)) ow], db_audit := t'\<rparr>
     \<and> group_of r = initial_group ow gt key"
proof -
  let ?reg = "fresh_handle empty_db k" and ?now = "now_of e (fresh_handle empty_db k)"
  let ?hdr = "build_initial_header e (reg_calls (tick ?reg)) nm gt ow ?now"
  let ?r1 = "(tick (tick ?reg))\<lparr>reg_header := ?hdr\<rparr>"
  from res have "gr_then (gr_header_save e ?r1) (\<lambda>r2. gr_then (insert_owner_peer e ow ?now r2) (\<lambda>r3.
      gr_then (insert_first_epoch e ow ?now r3) (\<lambda>r4.
        gr_audit_append e GR_CHANGE_PEER_ADDED ow (Some (id_peer_id ow)) (Some (cstr ''group created'')) r4))) = (GR_OK, r)"
    by (simp add: create_steps_def Let_def)
  then obtain r2 r3 r4 where s: "gr_header_save e ?r1 = (GR_OK, r2)" "insert_owner_peer e ow ?now r2 = (GR_OK, r3)"
      "insert_first_epoch e ow ?now r3 = (GR_OK, r4)"
      "gr_audit_append e GR_CHANGE_PEER_ADDED ow (Some (id_peer_id ow)) (Some (cstr ''group created'')) r4 = (GR_OK, r)"
    by (auto simp: gr_then_def split: prod.splits if_splits)
  have i1: "idle ?r1" by (simp add: idle_def fresh_handle_def)
  from header_save_idle [OF rel i1 s(1)] have r2: "idle r2" "reg_db r2 = empty_db\<lparr>db_header := [?hdr]\<rparr>"
      "reg_header r2 = ?hdr" "reg_join_state r2 = None" by (simp_all add: fresh_handle_def)
  from exec_then_ok [OF s(2) [unfolded insert_owner_peer_def]] obtain n d where
    p: "ps_peer_insert (owner_peer_row ow ?now) (reg_db r2) = Some (n, d)" "r3 = (tick r2)\<lparr>reg_db := d\<rparr>" by blast
  from p(1) have d: "d = empty_db\<lparr>db_header := [?hdr], db_peers := [owner_peer_row ow ?now]\<rparr>"
    by (auto simp: r2(2) ps_peer_insert_def sql_insert_def tbl_insert_def empty_db_def)
  from s(3) obtain key where "stmt_then e (ps_epoch_insert (epoch_row 1 key ?now ow)) (\<lambda>n r. (GR_OK, r)) (tick r3) = (GR_OK, r4)"
    by (auto simp: insert_first_epoch_def split: option.splits)
  from exec_then_ok [OF this] obtain n2 d2 where
    x: "ps_epoch_insert (epoch_row 1 key ?now ow) (reg_db (tick r3)) = Some (n2, d2)" "r4 = (tick (tick r3))\<lparr>reg_db := d2\<rparr>" by blast
  from x(1) have d2: "d2 = d\<lparr>db_epochs := [epoch_row 1 key ?now ow]\<rparr>"
    by (auto simp: p(2) d ps_epoch_insert_def sql_insert_def tbl_insert_def empty_db_def)
  have r4: "idle r4" "reg_db r4 = d2" "reg_header r4 = ?hdr" "reg_join_state r4 = None"
    using r2 by (simp_all add: x(2) p(2) idle_def)
  note eff = audit_append_effect [OF rel idle_settled [OF r4(1)] s(4)]
  let ?entry = "audit_entry e GR_CHANGE_PEER_ADDED ow (Some (id_peer_id ow)) (Some (cstr ''group created'')) r4"
  from eff obtain t' where t': "retained (tbl_insert_ignore a_entry_hash ?entry (db_audit (reg_db r4))) t'"
      "reg_db r = (reg_db r4)\<lparr>db_audit := t', db_header := [reg_header r]\<rparr>"
      "reg_header r = (reg_header r4)\<lparr>h_version := h_version (reg_header r4) + 1, h_updated_at := a_timestamp ?entry\<rparr>"
    by (auto simp: audit_effect_def Let_def)
  have db: "reg_db r = empty_db\<lparr>db_header := [reg_header r], db_peers := [owner_peer_row ow ?now],
      db_epochs := [epoch_row 1 key ?now ow], db_audit := t'\<rparr>"
    using t'(2) by (simp add: r4(2) d2 d)
  have ret: "retained [?entry] t'" using t'(1) by (simp add: r4(2) d2 d empty_db_def tbl_insert_ignore_def)
  have js: "idle r" "reg_join_state r = None" using eff r4 by simp_all
  have "group_of r = initial_group ow gt key"
    unfolding group_of_def group_at_def initial_group_def db t'(3) r4(3)
    by (simp add: js gr_join_is_untrusted_def build_initial_header_def zero_header_def empty_db_def view_def
        owner_peer_row_def epoch_row_def fun_eq_iff)
  with js ret db audit_entry_sound [of e _ ow] show ?thesis by blast
qed

lemma create_ok:
  assumes rel: "reliable e" and res: "gr_create e empty_db (Some nm) gt (Some ow) = (Inr reg, d)"
  shows "nm \<noteq> [] \<and> (gt = GR_GROUP_PRIVATE \<or> gt = GR_GROUP_PUBLIC) \<and> d = reg_db reg
    \<and> create_steps e nm gt ow (fresh_handle empty_db 6) = (GR_OK, reg)"
  using res by (auto simp: gr_create_def open_handle_def split: if_splits sum.splits prod.splits)


section \<open>Background activity\<close>

datatype bg_op =
    Touch "bytes option"
  | BlockCheck "bytes option" i64
  | BlockFail "bytes option" i32
  | BlockReset "bytes option"
  | BlockCleanup i64
  | JoinBegin "gr_invite_ticket_t option"
  | JoinCallback "(gr_join_verify_result_t \<Rightarrow> bool) option"
  | JoinSubmit gr_header_t bytes bytes bytes
  | JoinEvaluate

fun run_bg :: "yumi_env \<Rightarrow> bg_op \<Rightarrow> gr_registrar \<Rightarrow> gr_registrar" where
  "run_bg e (Touch m) reg = snd (gr_peer_touch e m reg)"
| "run_bg e (BlockCheck ip dur) reg = snd (gr_blocklist_check e ip dur reg)"
| "run_bg e (BlockFail ip mx) reg = snd (gr_blocklist_record_fail e ip mx reg)"
| "run_bg e (BlockReset ip) reg = snd (gr_blocklist_reset e ip reg)"
| "run_bg e (BlockCleanup dur) reg = snd (gr_blocklist_cleanup e dur reg)"
| "run_bg e (JoinBegin t) reg = snd (gr_join_begin e t reg)"
| "run_bg e (JoinCallback cb) reg = snd (gr_join_set_dissent_callback cb reg)"
| "run_bg e (JoinSubmit h m pk sg) reg = snd (gr_join_submit_peer_header e h m pk sg reg)"
| "run_bg e JoinEvaluate reg = snd (gr_join_evaluate reg)"

text \<open>
  What background activity may change: the blocklist, the time a peer was last seen, the state of
  the join.
\<close>

definition aside :: "gr_registrar \<Rightarrow> gr_registrar \<Rightarrow> bool" where
  "aside reg r \<longleftrightarrow> reg_saved r = reg_saved reg \<and> reg_txn_depth r = reg_txn_depth reg
     \<and> reg_stmts_ready r = reg_stmts_ready reg \<and> reg_header r = reg_header reg
     \<and> (\<exists>ps bl. reg_db r = (reg_db reg)\<lparr>db_peers := ps, db_blocklist := bl\<rparr>
          \<and> map p_peer_id ps = map p_peer_id (db_peers (reg_db reg))
          \<and> members_of ps = members_of (db_peers (reg_db reg))
          \<and> (tbl_inv b_ip (db_blocklist (reg_db reg)) \<longrightarrow> tbl_inv b_ip bl))"

lemma aside_same_db:
  "reg_db r = reg_db reg \<Longrightarrow> reg_saved r = reg_saved reg \<Longrightarrow> reg_txn_depth r = reg_txn_depth reg \<Longrightarrow>
   reg_stmts_ready r = reg_stmts_ready reg \<Longrightarrow> reg_header r = reg_header reg \<Longrightarrow> aside reg r"
  unfolding aside_def
  by (intro conjI exI [of _ "db_peers (reg_db reg)"] exI [of _ "db_blocklist (reg_db reg)"]) simp_all

lemma aside_quiet: "quiet reg r \<Longrightarrow> aside reg r"
  using quietD [of reg r] by (intro aside_same_db) simp_all

lemma aside_join: "quiet reg q \<Longrightarrow> aside reg (q\<lparr>reg_join_state := j\<rparr>)"
  using quietD [of reg q] by (intro aside_same_db) simp_all

lemma aside_trans:
  assumes "aside reg q" and "aside q r"
  shows "aside reg r"
proof -
  from assms(1) obtain ps bl where q: "reg_db q = (reg_db reg)\<lparr>db_peers := ps, db_blocklist := bl\<rparr>"
    "map p_peer_id ps = map p_peer_id (db_peers (reg_db reg))" "members_of ps = members_of (db_peers (reg_db reg))"
    "tbl_inv b_ip (db_blocklist (reg_db reg)) \<longrightarrow> tbl_inv b_ip bl" by (auto simp: aside_def)
  from assms(2) obtain ps' bl' where r: "reg_db r = (reg_db q)\<lparr>db_peers := ps', db_blocklist := bl'\<rparr>"
    "map p_peer_id ps' = map p_peer_id (db_peers (reg_db q))" "members_of ps' = members_of (db_peers (reg_db q))"
    "tbl_inv b_ip (db_blocklist (reg_db q)) \<longrightarrow> tbl_inv b_ip bl'" by (auto simp: aside_def)
  have "reg_db r = (reg_db reg)\<lparr>db_peers := ps', db_blocklist := bl'\<rparr>" using q r by simp
  moreover have "map p_peer_id ps' = map p_peer_id (db_peers (reg_db reg))"
    "members_of ps' = members_of (db_peers (reg_db reg))" using q r by simp_all
  moreover have "tbl_inv b_ip (db_blocklist (reg_db reg)) \<longrightarrow> tbl_inv b_ip bl'" using q r by simp
  moreover have "reg_saved r = reg_saved reg" "reg_txn_depth r = reg_txn_depth reg"
    "reg_stmts_ready r = reg_stmts_ready reg" "reg_header r = reg_header reg"
    using assms by (simp_all add: aside_def)
  ultimately show ?thesis unfolding aside_def by (intro conjI exI [of _ ps'] exI [of _ bl'])
qed

lemma aside_block:
  assumes "\<And>t. tbl_inv b_ip t \<Longrightarrow> tbl_inv b_ip (f t)"
  shows "aside reg ((tick reg)\<lparr>reg_db := (reg_db reg)\<lparr>db_blocklist := f (db_blocklist (reg_db reg))\<rparr>\<rparr>)"
  unfolding aside_def
  by (intro conjI exI [of _ "db_peers (reg_db reg)"] exI [of _ "f (db_blocklist (reg_db reg))"]) (simp_all add: assms)

lemma aside_block_exec:
  assumes "db_exec e stmt reg = (n, r)"
    and "\<And>d n d'. stmt d = Some (n, d') \<Longrightarrow> \<exists>f. (\<forall>t. tbl_inv b_ip t \<longrightarrow> tbl_inv b_ip (f t)) \<and> d' = d\<lparr>db_blocklist := f (db_blocklist d)\<rparr>"
  shows "aside reg r"
proof (cases "db_ok e DbStmt (reg_calls reg) \<and> stmt (reg_db reg) \<noteq> None")
  case True
  then obtain k d where st: "stmt (reg_db reg) = Some (k, d)" by auto
  from assms(2) [OF st] obtain f where f: "\<forall>t. tbl_inv b_ip t \<longrightarrow> tbl_inv b_ip (f t)"
    "d = (reg_db reg)\<lparr>db_blocklist := f (db_blocklist (reg_db reg))\<rparr>" by blast
  have "r = (tick reg)\<lparr>reg_db := d\<rparr>" using assms(1) True st by (simp add: db_exec_def)
  then show ?thesis using aside_block [of f reg] f by simp
next
  case False
  then have "r = tick reg" using assms(1) by (auto simp: db_exec_def split: if_splits option.splits)
  then show ?thesis by (simp add: aside_quiet)
qed

lemma block_stmts:
  "ps_block_delete ip d = Some (n, d') \<Longrightarrow> \<exists>f. (\<forall>t. tbl_inv b_ip t \<longrightarrow> tbl_inv b_ip (f t)) \<and> d' = d\<lparr>db_blocklist := f (db_blocklist d)\<rparr>"
  "ps_block_upsert b d = Some (n, d') \<Longrightarrow> \<exists>f. (\<forall>t. tbl_inv b_ip t \<longrightarrow> tbl_inv b_ip (f t)) \<and> d' = d\<lparr>db_blocklist := f (db_blocklist d)\<rparr>"
  "ps_block_expire bound d = Some (n, d') \<Longrightarrow> \<exists>f. (\<forall>t. tbl_inv b_ip t \<longrightarrow> tbl_inv b_ip (f t)) \<and> d' = d\<lparr>db_blocklist := f (db_blocklist d)\<rparr>"
  by (auto simp: ps_block_delete_def ps_block_upsert_def ps_block_expire_def sql_delete_def
      intro: exI [of _ "tbl_delete (\<lambda>b. b_ip b = ip)"] exI [of _ "tbl_replace b_ip b"]
        exI [of _ "tbl_delete (\<lambda>b. b_blocked b \<and> sint (b_blocked_at b) < sint bound)"] tbl_inv_delete tbl_inv_replace)

lemma aside_exec_then:
  assumes "\<And>d n d'. stmt d = Some (n, d') \<Longrightarrow> \<exists>f. (\<forall>t. tbl_inv b_ip t \<longrightarrow> tbl_inv b_ip (f t)) \<and> d' = d\<lparr>db_blocklist := f (db_blocklist d)\<rparr>"
  shows "aside reg (snd (stmt_then e stmt (\<lambda>n r. (GR_OK, r)) reg))"
proof -
  obtain n r where x: "db_exec e stmt reg = (n, r)" by (cases "db_exec e stmt reg")
  have "aside reg r" by (rule aside_block_exec [OF x]) (rule assms)
  then show ?thesis by (simp add: stmt_then_def x split: option.splits)
qed


lemma aside_touch: "aside reg (run_bg e (Touch m) reg)"
proof (cases m)
  case (Some pid)
  let ?now = "now_of e reg"
  let ?f = "tbl_update (\<lambda>p. p_peer_id p = pid) (\<lambda>p. p\<lparr>p_last_seen := ?now\<rparr>)"
  have "members_of (?f ps) k = members_of ps k" for k ps
    by (subst view_update) (simp, cases "tbl_get p_peer_id k ps", auto simp: view_def)
  then have m: "members_of (?f ps) = members_of ps" for ps by (rule ext)
  have k: "map p_peer_id (?f ps) = map p_peer_id ps" for ps by (induction ps) (simp_all add: tbl_update_def)
  have "aside reg ((tick (tick reg))\<lparr>reg_db := (reg_db reg)\<lparr>db_peers := ?f (db_peers (reg_db reg))\<rparr>\<rparr>)"
    unfolding aside_def
    by (intro conjI exI [of _ "?f (db_peers (reg_db reg))"] exI [of _ "db_blocklist (reg_db reg)"]) (simp_all add: m k)
  moreover have "aside reg (tick (tick reg))" by (intro aside_same_db) simp_all
  ultimately show ?thesis
    by (simp add: Some gr_peer_touch_def db_exec_def ps_peer_touch_def sql_update_def split: option.splits)
qed (simp add: gr_peer_touch_def aside_quiet)

lemma aside_block_check: "aside reg (run_bg e (BlockCheck ip dur) reg)"
proof (cases ip)
  case (Some addr)
  obtain res q where q: "db_query e (\<lambda>d. Some (ps_block_get addr d)) reg = (res, q)"
    by (cases "db_query e (\<lambda>d. Some (ps_block_get addr d)) reg")
  have qq: "quiet reg q" using quiet_query [of reg e "\<lambda>d. Some (ps_block_get addr d)"] q by simp
  obtain n r where x: "db_exec e (ps_block_delete addr) (tick q) = (n, r)" by (cases "db_exec e (ps_block_delete addr) (tick q)")
  have "aside (tick q) r" by (rule aside_block_exec [OF x]) (rule block_stmts)
  then have d: "aside reg r" using aside_trans aside_quiet [OF quiet_trans [OF qq quiet_tick]] by blast
  then show ?thesis using aside_quiet [OF qq] aside_quiet [OF quiet_trans [OF qq quiet_tick]]
    by (simp add: Some gr_blocklist_check_def q x split: sum.splits option.splits)
qed (simp add: gr_blocklist_check_def aside_quiet)

lemma aside_block_fail: "aside reg (run_bg e (BlockFail ip mx) reg)"
proof (cases ip)
  case (Some addr)
  let ?q = "db_query e (\<lambda>d. Some (ps_block_get addr d)) (tick reg)"
  obtain res q where q: "?q = (res, q)" by (cases ?q)
  have "quiet (tick reg) q" using quiet_query [of "tick reg" e "\<lambda>d. Some (ps_block_get addr d)"] q by simp
  from aside_quiet [OF quiet_trans [OF quiet_tick this]] have qq: "aside reg q" .
  have up: "aside reg (snd (db_exec e (ps_block_upsert row) q))" for row
  proof -
    obtain n r where x: "db_exec e (ps_block_upsert row) q = (n, r)" by (cases "db_exec e (ps_block_upsert row) q")
    have "aside q r" by (rule aside_block_exec [OF x]) (rule block_stmts)
    then show ?thesis using aside_trans [OF qq] x by simp
  qed
  have sel: "aside reg (snd (case db_exec e (ps_block_upsert row) q of (None, r') \<Rightarrow> (Inl GR_ERR_DB, r')
      | (Some n, r') \<Rightarrow> (Inr (b_blocked row), r')))" for row
    using up [of row] by (auto split: prod.splits option.splits)
  show ?thesis using qq sel
    by (simp add: Some gr_blocklist_record_fail_def q Let_def split: sum.splits)
qed (simp add: gr_blocklist_record_fail_def aside_quiet)

lemma aside_block_clear: "aside reg (run_bg e (BlockReset ip) reg)" "aside reg (run_bg e (BlockCleanup dur) reg)"
proof -
  have "aside reg (snd (stmt_then e (ps_block_delete addr) (\<lambda>n r. (GR_OK, r)) reg))" for addr
    by (rule aside_exec_then) (rule block_stmts)
  then show "aside reg (run_bg e (BlockReset ip) reg)"
    by (simp add: gr_blocklist_reset_def aside_quiet split: option.splits)
  have "aside (tick reg) (snd (stmt_then e (ps_block_expire t) (\<lambda>n r. (GR_OK, r)) (tick reg)))" for t
    by (rule aside_exec_then) (rule block_stmts)
  then show "aside reg (run_bg e (BlockCleanup dur) reg)"
    using aside_trans [OF aside_quiet [OF quiet_tick [of reg]]] by (simp add: gr_blocklist_cleanup_def)
qed

text \<open>The verification of a join only changes its own state.\<close>

lemma aside_set_quorum: "quiet reg q \<Longrightarrow> aside reg (snd (join_set_quorum e js q))"
proof -
  assume q: "quiet reg q"
  obtain res r where r: "gr_peer_count e GR_PEER_ACTIVE q = (res, r)" by (cases "gr_peer_count e GR_PEER_ACTIVE q")
  then have "quiet reg r" using quiet_trans [OF q quiet_peer_count [of q e GR_PEER_ACTIVE]] by simp
  from aside_join [OF this] show ?thesis by (simp add: join_set_quorum_def r Let_def)
qed

lemma aside_check_inviter: "quiet reg q \<Longrightarrow> aside reg (snd (join_check_inviter e js q))"
proof -
  assume q: "quiet reg q"
  obtain res r where r: "gr_peer_get e (js_inviter_peer_id js) q = (res, r)" by (cases "gr_peer_get e (js_inviter_peer_id js) q")
  then have qr: "quiet reg r" using quiet_trans [OF q quiet_peer_get [of q e "js_inviter_peer_id js"]] by simp
  obtain perms r2 where p: "gr_get_peer_permissions e (js_inviter_peer_id js) r = (perms, r2)"
    by (cases "gr_get_peer_permissions e (js_inviter_peer_id js) r")
  then have q2: "quiet reg r2" using quiet_trans [OF qr quiet_permissions [of r e "js_inviter_peer_id js"]] by simp
  show ?thesis
    by (simp add: join_check_inviter_def r p join_reject_def aside_join [OF qr] aside_join [OF q2]
        aside_set_quorum [OF q2] split: sum.splits)
qed

lemma aside_join_begin: "aside reg (run_bg e (JoinBegin t) reg)"
proof -
  have q: "quiet reg (tick reg)" "quiet reg (tick (tick reg))" "quiet reg (tick (tick (tick reg)))"
      "quiet reg (tick (tick (tick (tick reg))))"
    by (simp_all add: quiet_def tick_def)
  show ?thesis
    by (simp add: gr_join_begin_def Let_def join_reject_def aside_quiet q aside_join aside_check_inviter
        split: option.splits)
qed

lemma aside_join_submit: "aside reg (run_bg e (JoinSubmit h m pk sg) reg)"
proof -
  obtain res r where r: "gr_peer_get e m reg = (res, r)" by (cases "gr_peer_get e m reg")
  then have q: "quiet reg r" using quiet_peer_get [of reg e m] by simp
  have qt: "quiet reg (tick r)" by (rule quiet_trans [OF q quiet_tick])
  have "aside reg (snd (join_accept_vote e js h m pk sg r))" for js
    by (simp add: join_accept_vote_def aside_quiet [OF q] aside_join [OF qt])
  then show ?thesis
    by (simp add: gr_join_submit_peer_header_def r aside_quiet q split: option.splits sum.splits)
qed

lemma aside_bg: "aside reg (run_bg e b reg)"
proof (cases b)
  case (JoinCallback cb)
  then show ?thesis
    by (simp add: gr_join_set_dissent_callback_def aside_quiet aside_join split: option.splits)
next
  case JoinEvaluate
  then show ?thesis
    by (simp add: gr_join_evaluate_def Let_def aside_quiet aside_join split: option.splits)
qed (use aside_touch aside_block_check aside_block_fail aside_block_clear aside_join_begin aside_join_submit in
      \<open>simp_all del: run_bg.simps\<close>)


section \<open>The invariant of a registrar\<close>

text \<open>Every stored entry carries the hash of its content.\<close>

definition audit_sound :: "(bytes \<Rightarrow> bytes) \<Rightarrow> bool \<Rightarrow> gr_audit_entry_t list \<Rightarrow> bool" where
  "audit_sound sk le t \<longleftrightarrow> (\<forall>a\<in>set t. a_entry_hash a = sk (audit_hash_input le a))"

definition registrar_ok :: "(bytes \<Rightarrow> bytes) \<Rightarrow> bool \<Rightarrow> gr_registrar \<Rightarrow> bool" where
  "registrar_ok sk le reg \<longleftrightarrow> idle reg \<and> db_keys_ok (reg_db reg) \<and> db_header (reg_db reg) = [reg_header reg]
     \<and> group_ok (group_of reg) \<and> audit_sound sk le (db_audit (reg_db reg))"

text \<open>The environments of one machine: the same hash and byte order, an engine that commits.\<close>

definition world :: "(bytes \<Rightarrow> bytes) \<Rightarrow> bool \<Rightarrow> yumi_env \<Rightarrow> bool" where
  "world sk le e \<longleftrightarrow> reliable e \<and> (\<forall>n. db_ok e DbCommit n) \<and> skein e = sk \<and> host_le e = le"

lemma retained_subset: "retained t t' \<Longrightarrow> set t' \<subseteq> set t"
  by (auto simp: retained_def)

lemma audit_sound_mono: "audit_sound sk le t \<Longrightarrow> set t' \<subseteq> set t \<Longrightarrow> audit_sound sk le t'"
  by (auto simp: audit_sound_def)

lemma audit_sound_insert:
  "audit_sound sk le t \<Longrightarrow> a_entry_hash a = sk (audit_hash_input le a) \<Longrightarrow>
   audit_sound sk le (tbl_insert_ignore a_entry_hash a t)"
  by (auto simp: audit_sound_def tbl_insert_ignore_def)

lemma gov_step_audit: "gov_step op s (d, h) (d', h') \<Longrightarrow> db_audit d' = db_audit d"
  by (cases rule: gov_step.cases [of "(op, s, (d, h), (d', h'))"])
     (auto simp: gov_step.simps ps_peer_insert_def ps_role_insert_def ps_webapp_insert_def ps_server_insert_def
      ps_epoch_insert_def ps_invite_insert_def ps_role_delete_def ps_webapp_delete_def ps_server_delete_def
      ps_peer_update_status_def ps_peer_update_addr_def ps_peer_set_role_def ps_peer_reset_role_def
      ps_role_set_perms_def ps_webapp_update_perm_data_def ps_webapp_update_role_mask_def ps_epoch_expire_def
      ps_invite_invalidate_def ps_invite_mark_used_def sql_update_def sql_delete_def)

lemma group_ok_roles: "db_keys_ok (reg_db reg) \<Longrightarrow> group_ok (group_of reg) \<Longrightarrow> roles_bounded (reg_db reg)"
  unfolding group_of_def by (subst roles_bounded_card, assumption) (simp add: group_ok_def)

lemma gov_registrar_ok:
  assumes w: "world sk le e" and ok: "registrar_ok sk le reg" and res: "run_gov e op signer reg = (err, r)"
  shows "registrar_ok sk le r \<and> (err = GR_OK \<longrightarrow> (\<exists>s. signer = Some s \<and> gov_result e op s reg r
      \<and> group_step op (id_peer_id s) (group_of reg) (group_of r)))
    \<and> (err \<noteq> GR_OK \<longrightarrow> reg_db r = reg_db reg \<and> group_of r = group_of reg)"
proof -
  from w have rel: "reliable e" and com: "\<forall>n. db_ok e DbCommit n" and sk: "skein e = sk" "host_le e = le"
    by (simp_all add: world_def)
  from ok have idle: "idle reg" and keys: "db_keys_ok (reg_db reg)" and hd: "db_header (reg_db reg) = [reg_header reg]"
    and g: "group_ok (group_of reg)" and au: "audit_sound sk le (db_audit (reg_db reg))"
    by (simp_all add: registrar_ok_def)
  show ?thesis
  proof (cases "err = GR_OK")
    case False
    have "atomic_res e reg (err, r)" using atomic_opD [OF gov_atomic rel idle, of op signer] res by simp
    with False com have x: "idle r" "reg_join_state r = reg_join_state reg" "reg_db r = reg_db reg" "reg_header r = reg_header reg"
      by (simp_all add: atomic_res_def)
    then have "group_of r = group_of reg" by (simp add: group_of_def gr_join_is_untrusted_def)
    with x ok False show ?thesis by (simp add: registrar_ok_def)
  next
    case True
    with gov_ok [OF rel idle, of op signer r] res obtain s where s: "signer = Some s" "gov_result e op s reg r" by blast
    from gov_result_step [OF s(2) keys group_ok_roles [OF keys g]]
    have st: "group_step op (id_peer_id s) (group_of reg) (group_of r)" .
    from s(2) have pub: "published e (change_of op) s (target_of op s) (gov_step op s) reg r" by (simp add: gov_result_def)
    from pub [unfolded published_def] obtain d h entry t' where x: "idle r" "gov_step op s (reg_db reg, reg_header reg) (d, h)"
        "a_entry_hash entry = audit_hash e entry" "retained (tbl_insert_ignore a_entry_hash entry (db_audit d)) t'"
        "reg_db r = d\<lparr>db_audit := t', db_header := [reg_header r]\<rparr>" by (elim conjE exE)
    have "audit_sound sk le (tbl_insert_ignore a_entry_hash entry (db_audit d))"
      using au x(3) sk by (simp add: gov_step_audit [OF x(2)] audit_sound_insert audit_hash_def)
    then have "audit_sound sk le t'" by (rule audit_sound_mono [OF _ retained_subset [OF x(4)]])
    moreover have "db_header (reg_db r) = [reg_header r]" "db_audit (reg_db r) = t'" unfolding x(5) by simp_all
    ultimately have "registrar_ok sk le r"
      using x(1) published_keys [OF pub keys] group_step_ok [OF st g] by (simp add: registrar_ok_def)
    with True s st show ?thesis by blast
  qed
qed

lemma aside_registrar_ok:
  assumes as: "aside reg r" and ok: "registrar_ok sk le reg"
  shows "registrar_ok sk le r \<and> (\<exists>t. group_of r = (group_of reg)\<lparr>g_trusted := t\<rparr>)"
proof -
  from as obtain ps bl where x: "reg_db r = (reg_db reg)\<lparr>db_peers := ps, db_blocklist := bl\<rparr>"
    "map p_peer_id ps = map p_peer_id (db_peers (reg_db reg))" "members_of ps = members_of (db_peers (reg_db reg))"
    "tbl_inv b_ip (db_blocklist (reg_db reg)) \<longrightarrow> tbl_inv b_ip bl" "reg_header r = reg_header reg"
    "reg_saved r = reg_saved reg" "reg_txn_depth r = reg_txn_depth reg" "reg_stmts_ready r = reg_stmts_ready reg"
    by (auto simp: aside_def)
  have g: "group_of r = (group_of reg)\<lparr>g_trusted := \<not> gr_join_is_untrusted r\<rparr>"
    using x(1,3,5) by (simp add: group_of_def group_at_def)
  have "db_keys_ok (reg_db r)" using ok x(1,2,4) by (simp add: registrar_ok_def db_keys_ok_def tbl_inv_def)
  moreover have "group_ok (group_of r)" using ok by (simp add: g registrar_ok_def group_ok_def)
  ultimately have "registrar_ok sk le r" using ok x(1,5-8) by (simp add: registrar_ok_def idle_def)
  with g show ?thesis by blast
qed

lemma reopen_result:
  assumes ok: "registrar_ok sk le reg" and res: "gr_open e (gr_close reg) (Some gid) = Inr r"
  shows "registrar_ok sk le r \<and> group_of r = (group_of reg)\<lparr>g_trusted := True\<rparr>
    \<and> reg_db r = reg_db reg \<and> reg_header r = reg_header reg \<and> reg_join_state r = None \<and> h_group_id (reg_header reg) = gid"
proof -
  from ok have idle: "idle reg" and hd: "db_header (reg_db reg) = [reg_header reg]" by (simp_all add: registrar_ok_def)
  have cl: "gr_close reg = reg_db reg" using idle by (simp add: gr_close_def idle_def)
  from res have "r = (tick (fresh_handle (reg_db reg) 6))\<lparr>reg_header := reg_header reg, reg_header_dirty := False\<rparr>
      \<and> h_group_id (reg_header reg) = gid"
    by (auto simp: gr_open_def cl open_handle_def gr_header_load_def ps_header_load_def hd fresh_handle_def
        split: if_splits sum.splits prod.splits)
  then have x: "reg_db r = reg_db reg" "reg_header r = reg_header reg" "reg_join_state r = None" "idle r"
      "h_group_id (reg_header reg) = gid" by (simp_all add: fresh_handle_def idle_def)
  have g: "group_of r = (group_of reg)\<lparr>g_trusted := True\<rparr>"
    by (simp add: group_of_def x(1,2,3) gr_join_is_untrusted_def group_at_def)
  have "registrar_ok sk le r" using ok x by (simp add: registrar_ok_def g group_ok_def)
  with g x show ?thesis by blast
qed

section \<open>Histories\<close>

inductive next_state :: "(bytes \<Rightarrow> bytes) \<Rightarrow> bool \<Rightarrow> gr_registrar \<Rightarrow> gr_registrar \<Rightarrow> bool" for sk le where
  operate: "world sk le e \<Longrightarrow> run_gov e op signer reg = (err, r) \<Longrightarrow> next_state sk le reg r"
| background: "world sk le e \<Longrightarrow> run_bg e b reg = r \<Longrightarrow> next_state sk le reg r"
| reopen: "world sk le e \<Longrightarrow> gr_open e (gr_close reg) (Some gid) = Inr r \<Longrightarrow> next_state sk le reg r"

inductive reachable :: "(bytes \<Rightarrow> bytes) \<Rightarrow> bool \<Rightarrow> gr_registrar \<Rightarrow> bool" for sk le where
  created: "world sk le e \<Longrightarrow> gr_create e empty_db (Some nm) gt (Some ow) = (Inr reg, d) \<Longrightarrow> reachable sk le reg"
| moved: "reachable sk le reg \<Longrightarrow> next_state sk le reg r \<Longrightarrow> reachable sk le r"

lemma create_registrar_ok:
  assumes w: "world sk le e" and res: "gr_create e empty_db (Some nm) gt (Some ow) = (Inr reg, d)"
  shows "registrar_ok sk le reg"
proof -
  from w have rel: "reliable e" and sk: "skein e = sk" "host_le e = le" by (simp_all add: world_def)
  from create_ok [OF rel res] have "create_steps e nm gt ow (fresh_handle empty_db 6) = (GR_OK, reg)" by blast
  from create_steps_ok [OF rel this] obtain key entry t' where x: "idle reg" "a_entry_hash entry = audit_hash e entry"
      "retained [entry] t'" "reg_db reg = empty_db\<lparr>db_header := [reg_header reg],
        db_peers := [owner_peer_row ow (now_of e (fresh_handle empty_db 6))],
        db_epochs := [epoch_row 1 key (now_of e (fresh_handle empty_db 6)) ow], db_audit := t'\<rparr>"
      "group_of reg = initial_group ow gt key" by (elim exE conjE)
  have "tbl_inv a_entry_hash t'" by (rule retained_inv [OF _ x(3)]) (simp add: tbl_inv_def)
  then have k: "db_keys_ok (reg_db reg)" unfolding x(4) by (simp add: db_keys_ok_def empty_db_def tbl_inv_def)
  have "audit_sound sk le [entry]" using x(2) sk by (simp add: audit_sound_def audit_hash_def)
  from audit_sound_mono [OF this retained_subset [OF x(3)]] have a: "audit_sound sk le (db_audit (reg_db reg))"
    unfolding x(4) by simp
  have h: "db_header (reg_db reg) = [reg_header reg]" by (subst x(4)) simp
  show ?thesis using x(1,5) k a h by (simp add: registrar_ok_def group_ok_def initial_group_def)
qed

lemma next_ok: "next_state sk le reg r \<Longrightarrow> registrar_ok sk le reg \<Longrightarrow> registrar_ok sk le r"
proof (induction rule: next_state.induct)
  case (operate e op signer reg err r)
  then show ?case using gov_registrar_ok [of sk le e reg op signer err r] by simp
next
  case (background e b reg r)
  then show ?case using aside_registrar_ok [OF aside_bg, of sk le reg e b] by simp
next
  case (reopen e reg gid r)
  then show ?case using reopen_result [of sk le reg e gid r] by simp
qed

lemma reachable_registrar_ok: "reachable sk le reg \<Longrightarrow> registrar_ok sk le reg"
  by (induction rule: reachable.induct) (auto intro: create_registrar_ok next_ok)

lemma no_return_trusted: "no_return g (g'\<lparr>g_trusted := t\<rparr>) = no_return g g'"
  by (simp add: no_return_defs)

lemma next_no_return:
  "next_state sk le reg r \<Longrightarrow> registrar_ok sk le reg \<Longrightarrow> no_return (group_of reg) (group_of r)
     \<and> g_owner (group_of r) = g_owner (group_of reg)"
proof (induction rule: next_state.induct)
  case (operate e op signer reg err r)
  note x = gov_registrar_ok [OF operate(1,3,2)]
  show ?case
  proof (cases "err = GR_OK")
    case True
    with x obtain s :: gr_identity_t where "group_step op (id_peer_id s) (group_of reg) (group_of r)" by blast
    then show ?thesis using group_step_no_return group_step_frame by blast
  next
    case False
    with x have "group_of r = group_of reg" by blast
    then show ?thesis by (simp add: no_return_refl)
  qed
next
  case (background e b reg r)
  then obtain t where "group_of r = (group_of reg)\<lparr>g_trusted := t\<rparr>"
    using aside_registrar_ok [OF aside_bg, of sk le reg e b] by blast
  then show ?case by (simp add: no_return_trusted no_return_refl)
next
  case (reopen e reg gid r)
  then show ?case using reopen_result [of sk le reg e gid r] by (simp add: no_return_trusted no_return_refl)
qed

lemma later_no_return:
  "(next_state sk le)\<^sup>*\<^sup>* reg r \<Longrightarrow> registrar_ok sk le reg \<Longrightarrow>
   registrar_ok sk le r \<and> no_return (group_of reg) (group_of r) \<and> g_owner (group_of r) = g_owner (group_of reg)"
proof (induction rule: rtranclp_induct)
  case base
  then show ?case by (simp add: no_return_refl)
next
  case (step q r)
  then show ?case using next_ok [OF step(2)] next_no_return [OF step(2)] no_return_trans by fastforce
qed


section \<open>What success and the audit log tell\<close>

lemma gov_step_version: "gov_step op s (d, h) (d', h') \<Longrightarrow> h_version h' = h_version h"
  by (cases rule: gov_step.cases [of "(op, s, (d, h), (d', h'))"]) (auto simp: gov_step.simps)

lemma success_audited:
  assumes w: "world sk le e" and ok: "registrar_ok sk le reg" and res: "run_gov e op signer reg = (GR_OK, r)"
  shows "\<exists>s entry. signer = Some s \<and> permitted op (id_peer_id s) (group_of reg)
    \<and> a_change_type entry = change_of op \<and> a_actor_id entry = id_peer_id s
    \<and> a_target_id entry = (case target_of op s of None \<Rightarrow> zero_id | Some t \<Rightarrow> t)
    \<and> a_registrar_version entry = h_version (reg_header reg) + 1
    \<and> h_version (reg_header r) = h_version (reg_header reg) + 1
    \<and> a_entry_hash entry = sk (audit_hash_input le entry)
    \<and> retained (tbl_insert_ignore a_entry_hash entry (db_audit (reg_db reg))) (db_audit (reg_db r))
    \<and> db_header (reg_db r) = [reg_header r]"
proof -
  from gov_registrar_ok [OF w ok res] obtain s where s: "signer = Some s" "gov_result e op s reg r"
    "group_step op (id_peer_id s) (group_of reg) (group_of r)" by blast
  from w have sk: "skein e = sk" "host_le e = le" by (simp_all add: world_def)
  from s(2) have "published e (change_of op) s (target_of op s) (gov_step op s) reg r" by (simp add: gov_result_def)
  then obtain d h entry t' where x: "gov_step op s (reg_db reg, reg_header reg) (d, h)"
      "a_change_type entry = change_of op" "a_actor_id entry = id_peer_id s"
      "a_target_id entry = (case target_of op s of None \<Rightarrow> zero_id | Some t \<Rightarrow> t)"
      "a_registrar_version entry = h_version h + 1" "a_entry_hash entry = audit_hash e entry"
      "retained (tbl_insert_ignore a_entry_hash entry (db_audit d)) t'" "h_version (reg_header r) = h_version h + 1"
      "reg_db r = d\<lparr>db_audit := t', db_header := [reg_header r]\<rparr>"
    unfolding published_def by (elim exE conjE)
  note v = gov_step_version [OF x(1)] gov_step_audit [OF x(1)]
  have r: "db_audit (reg_db r) = t'" "db_header (reg_db r) = [reg_header r]" by (subst x(9), simp)+
  show ?thesis
    using s(1,3) x(2-8) v r sk by (intro exI [of _ s] exI [of _ entry]) (simp add: group_step_def audit_hash_def)
qed

lemma sound_no_bad_hash:
  "audit_sound sk le t \<Longrightarrow> skein e = sk \<Longrightarrow> host_le e = le \<Longrightarrow> filter (bad_hash e) t = []"
  by (auto simp: audit_sound_def bad_hash_def audit_hash_def filter_empty_conv)

end
