(* ===== verification/Demo.thy ===== *)
theory Demo imports Group_Life
begin

text \<open>
  A concrete environment and a concrete group, small enough to be evaluated, at which the
  properties of the development are instantiated.
\<close>

definition demo_env :: yumi_env where
  "demo_env = \<lparr>skein_block = (\<lambda>k t b. b), skein_mac = (\<lambda>k b. replicate 128 (of_nat (length b) + (if k = [] then 0 else hd k))), host_le = True,
     db_ok = (\<lambda>c n. True), clock_sec = (\<lambda>n. of_nat n), clock_nsec = (\<lambda>n. 0), skein_ok = (\<lambda>n. True),
     skein = (\<lambda>b. [of_nat (length b)]), mldsa_sign = (\<lambda>n sk b. Some [7]), mldsa_verify = (\<lambda>sig b pk. True),
     mldsa_keygen = (\<lambda>n. Some ([8], [9])), mlkem_keygen = (\<lambda>n. Some ([8], [9])),
     randombytes = (\<lambda>n k. Some (replicate k (of_nat n))), malloc_ok = (\<lambda>n. True), realloc_ok = (\<lambda>n. True),
     uninit = (\<lambda>n k. replicate k 0), lease_ok = (\<lambda>n. True), mlkem_encaps = (\<lambda>n pk. Some ([1], [2])),
     mlkem_decaps = (\<lambda>ct sk. Some [2])\<rparr>"

lemma demo_reliable: "reliable demo_env"
  by (simp add: reliable_def demo_env_def)

definition demo_identity :: "byte \<Rightarrow> gr_identity_t" where
  "demo_identity b = \<lparr>id_public_key = [b], id_secret_key = [b], id_kem_pk = [b], id_kem_sk = [b], id_peer_id = [b]\<rparr>"

definition demo_peer :: "byte \<Rightarrow> u32 \<Rightarrow> u32 \<Rightarrow> gr_peer_t" where
  "demo_peer b st rid = \<lparr>p_peer_id = [b], p_kem_pk = [b], p_sign_key = [b], p_ip = [], p_port = 0, p_status = st,
     p_role_id = rid, p_joined_at = 0, p_removed_at = 0, p_last_seen = 0, p_removed_reason = [], p_removed_by = []\<rparr>"

text \<open>A private group: the owner 1, the members 2 and 3, the role 1 that may kick, held by 2.\<close>

definition demo_header :: gr_header_t where
  "demo_header = zero_header\<lparr>h_group_id := [42], h_owner_id := [1], h_owner_sign_key := [1], h_version := 5,
     h_epoch_id := 1\<rparr>"

definition demo_db :: gr_db where
  "demo_db = empty_db\<lparr>db_header := [demo_header],
     db_peers := [demo_peer 1 0 0, demo_peer 2 0 1, demo_peer 3 0 0],
     db_roles := [\<lparr>r_role_id = 1, r_name = [], r_permissions = GR_PERM_KICK_MEMBER, r_sign_key = [],
                   r_created_at = 0, r_modified_at = 0\<rparr>],
     db_epochs := [\<lparr>e_epoch_id = 1, e_epoch_key = [5], e_created_at = 0, e_expired_at = 0, e_created_by = [1]\<rparr>]\<rparr>"

definition demo_reg :: gr_registrar where
  "demo_reg = (fresh_handle demo_db 0)\<lparr>reg_header := demo_header\<rparr>"

lemma demo_idle: "idle demo_reg"
  by (simp add: idle_def demo_reg_def fresh_handle_def)

lemma demo_keys: "db_keys_ok (reg_db demo_reg)"
  by (simp add: db_keys_ok_def demo_reg_def fresh_handle_def demo_db_def empty_db_def tbl_inv_def demo_peer_def)

lemma demo_roles: "roles_bounded (reg_db demo_reg)"
  by (simp add: roles_bounded_def demo_reg_def fresh_handle_def demo_db_def)


lemma demo_world: "world (skein demo_env) True demo_env"
  by (simp add: world_def demo_reliable) (simp add: demo_env_def)

lemma demo_smooth: "smooth demo_env"
  by (simp add: smooth_def demo_env_def)

lemma demo_registrar_ok: "registrar_ok (skein demo_env) True demo_reg"
  unfolding registrar_ok_def group_ok_def group_of_def group_at_simps dom_view
  by (simp add: demo_idle demo_keys audit_sound_def)
     (simp add: demo_reg_def fresh_handle_def demo_db_def empty_db_def group_of_def group_at_def demo_header_def
       zero_header_def demo_peer_def view_def)

lemma demo_group: "group_of demo_reg = \<lparr>g_owner = [1], g_type = 0, g_trusted = True, g_version = 5, g_epoch = 1,
    g_retention = h_retention zero_header, g_members = [[1] \<mapsto> (0, 0), [2] \<mapsto> (0, 1), [3] \<mapsto> (0, 0)],
    g_roles = [1 \<mapsto> GR_PERM_KICK_MEMBER], g_webapps = Map.empty, g_servers = Map.empty,
    g_epochs = [1 \<mapsto> ([5], 0)], g_invites = Map.empty, g_icon = None\<rparr>"
  by (simp add: group_of_def group_at_def demo_reg_def fresh_handle_def demo_db_def empty_db_def demo_header_def
      zero_header_def demo_peer_def view_def gr_join_is_untrusted_def fun_eq_iff)

lemma demo_kick_step: "\<exists>g'. group_step (PeerKick (Some [3]) None) [2] (group_of demo_reg) g'"
proof -
  let ?g = "group_of demo_reg"
  have "permitted (PeerKick (Some [3]) None) [2] ?g" by (simp add: demo_group permitted_def authority_def)
  moreover have "change (PeerKick (Some [3]) None) [2] ?g
      (?g\<lparr>g_members := (g_members ?g)([3] \<mapsto> (GR_PEER_KICKED, 0))\<rparr>)"
    by (rule change.kick) (simp_all add: demo_group)
  ultimately show ?thesis unfolding group_step_def by blast
qed

lemma demo_kick: "fst (run_gov demo_env (PeerKick (Some [3]) None) (Some (demo_identity 2)) demo_reg) = GR_OK"
proof -
  from demo_kick_step obtain g' where "group_step (PeerKick (Some [3]) None) (id_peer_id (demo_identity 2)) (group_of demo_reg) g'"
    by (auto simp: demo_identity_def)
  from plain_succeeds [OF demo_smooth demo_idle demo_keys _ this] show ?thesis by (simp add: plain_def)
qed

lemma demo_kick_refused:
  "fst (run_gov demo_env (PeerKick (Some [2]) None) (Some (demo_identity 3)) demo_reg) = GR_ERR_UNAUTHORIZED"
  by code_simp

lemmas eval_defs = gr_create_def open_handle_def create_steps_def gr_then_def gr_header_save_def header_save_cached_def
  gr_txn_begin_def db_begin_def db_raw_delete_header_def delete_header_def bind_header_fields_def exec_header_save_def
  db_exec_def ps_header_save_def gr_txn_commit_def db_commit_def insert_owner_peer_def stmt_then_def ps_peer_insert_def
  sql_insert_def tbl_insert_def insert_first_epoch_def ps_epoch_insert_def gr_audit_append_def audit_seal_def audit_store_def
  ps_audit_insert_def gr_audit_enforce_retention_internal_def gr_bind_def gr_audit_count_def db_query_def ps_audit_count_def
  tick_def fresh_handle_def empty_db_def audit_max_rows_def tbl_insert_ignore_def

lemma demo_create: "\<exists>reg. gr_create demo_env empty_db (Some [97]) 0 (Some (demo_identity 1)) = (Inr reg, reg_db reg)"
  by (simp add: eval_defs demo_env_def Let_def)

lemma demo_kick_not_permitted: "\<not> permitted (PeerKick (Some [2]) None) [3] (group_of demo_reg)"
  by (simp add: demo_group permitted_def authority_def)

text \<open>The same machine with an engine that fails every \<open>COMMIT\<close>.\<close>

definition no_commit_env :: yumi_env where
  "no_commit_env = demo_env\<lparr>db_ok := (\<lambda>c n. c \<noteq> DbCommit)\<rparr>"

lemma no_commit_leak:
  "\<exists>r. run_gov no_commit_env (PeerUpdateAddress (Some []) 80) (Some (demo_identity 2)) demo_reg = (GR_ERR_DB, r)
     \<and> reg_db r = reg_db demo_reg \<and> h_version (reg_header demo_reg) = 5 \<and> h_version (reg_header r) = 6"
  by (simp add: no_commit_env_def demo_env_def gr_peer_update_address_def with_txn_def clocked_change_def Let_def
      eval_defs demo_reg_def ps_peer_update_addr_def sql_update_def demo_db_def demo_header_def zero_header_def
      now_of_def gr_txn_rollback_def)


lemma demo_create_chain:
  "\<exists>reg res r. gr_create demo_env empty_db (Some [97]) 0 (Some (demo_identity 1)) = (Inr reg, reg_db reg)
     \<and> gr_audit_verify_chain demo_env reg = (Inr res, r) \<and> length (db_audit (reg_db reg)) = 1"
  by (simp add: eval_defs demo_env_def Let_def gr_audit_verify_chain_def verify_entry_def ps_audit_fork_resolve_def
      fork_rows_def forked_def tbl_count_def ps_audit_verify_batch_def sql_limit_def audit_draft_def
      verify_batches.simps fetch_prev_hash_def ps_audit_last_hash_def audit_hash_def
      audit_hash_input_def ps_audit_actor_pk_def owner_peer_row_def demo_identity_def)

lemma demo_prims: "prims_ok demo_env"
  by (simp add: prims_ok_def demo_env_def)

text \<open>A second epoch for the demonstration group.\<close>

lemma demo_rotate:
  "\<exists>r t. run_gov demo_env EpochRotate (Some (demo_identity 1)) demo_reg = (GR_OK, r)
     \<and> map (\<lambda>x. (e_epoch_id x, e_epoch_key x)) (db_epochs (reg_db r)) = [(1, [5]), (2, replicate 128 t)] \<and> t \<noteq> 5"
  by (simp add: demo_env_def gr_epoch_rotate_def governed_def with_txn_def Let_def epoch_rotate_body_def
      epoch_install_def epoch_switch_def epoch_row_def ps_epoch_expire_def sql_update_def tbl_update_def
      eval_defs demo_reg_def demo_db_def demo_header_def zero_header_def now_of_def gr_txn_rollback_def demo_identity_def
      check_trusted_def require_perm_def gr_join_is_untrusted_def gr_check_perm_def gr_get_peer_permissions_def gr_is_owner_def)

lemma demo_sign: "fst (gr_sign demo_env (Some (demo_identity 1)) demo_reg) = GR_OK"
  by (simp add: demo_env_def gr_sign_def governed_def with_txn_def Let_def sign_body_def sign_header_def gr_buf_init_def
      eval_defs demo_reg_def demo_db_def demo_header_def zero_header_def gr_txn_rollback_def demo_identity_def
      check_trusted_def require_perm_def gr_join_is_untrusted_def gr_check_perm_def gr_get_peer_permissions_def gr_is_owner_def)

end
