(* ===== verification/Crypto_Safety.thy ===== *)
theory Crypto_Safety imports Demo Crypto_Aead Registrar_Crypto
begin

text \<open>
  What the cryptographic parts promise: the authenticated encryption and its key derivation
  (\<open>src/src/crypto/crypto.c\<close>), the signature of the registrar and the encryption to the group and to a
  peer (\<open>src/src/group_registrar/crypto.c\<close>).
\<close>

section \<open>Trial decryption\<close>

text \<open>Memory and the scratch pool never fail, and the engine answers.\<close>

definition resourceful :: "yumi_env \<Rightarrow> bool" where
  "resourceful e \<longleftrightarrow> (\<forall>n. malloc_ok e n) \<and> (\<forall>n. skein_ok e n) \<and> (\<forall>n. db_ok e DbStmt n)
     \<and> (\<forall>n. lease_ok e n)"

definition opens :: "yumi_env \<Rightarrow> bytes \<Rightarrow> bytes \<Rightarrow> bytes \<Rightarrow> bytes \<Rightarrow> bool" where
  "opens e nonce ct ad key \<longleftrightarrow> (\<exists>pt. yumi_aead_decrypt e True ct ad nonce key = Inr pt)"

lemma try_epochs_hit:
  assumes "\<And>n. malloc_ok e n" and "x \<in> set eps" and "yumi_aead_decrypt e True ct ad nonce (e_epoch_key x) = Inr pt"
    and "\<And>y. y \<in> set eps \<Longrightarrow> opens e nonce ct ad (e_epoch_key y) \<Longrightarrow> y = x"
  shows "fst (try_epochs e nonce ct ad eps reg) = Inr (pt, e_epoch_id x)"
  using assms(2,4)
proof (induction eps arbitrary: reg)
  case (Cons ep eps)
  show ?case
  proof (cases "ep = x")
    case True
    then show ?thesis using assms(1,3) by simp
  next
    case False
    with Cons.prems have "\<not> opens e nonce ct ad (e_epoch_key ep)" by auto
    then have "\<exists>err. yumi_aead_decrypt e True ct ad nonce (e_epoch_key ep) = Inl err"
      by (cases "yumi_aead_decrypt e True ct ad nonce (e_epoch_key ep)") (auto simp: opens_def)
    then show ?thesis using assms(1) Cons.IH [of "tick reg"] Cons.prems False by auto
  qed
qed simp

lemma epoch_current_ok:
  "gr_epoch_get_current e reg = (Inr ep, r) \<Longrightarrow>
   tbl_get e_epoch_id (h_epoch_id (reg_header reg)) (db_epochs (reg_db reg)) = Some ep"
  by (auto simp: gr_epoch_get_current_def gr_epoch_get_def db_fetch_def ps_epoch_get_def split: if_splits option.splits)

text \<open>Encryption uses the current epoch; the output is the nonce and the sealed plaintext.\<close>

lemma gr_encrypt_ok:
  assumes "gr_encrypt e plaintext ad out_len reg = (Inr ct, r)"
  obtains ep nonce body n where "tbl_get e_epoch_id (h_epoch_id (reg_header reg)) (db_epochs (reg_db reg)) = Some ep"
    and "randombytes e n 16 = Some nonce" and "ct = nonce @ body"
    and "yumi_aead_encrypt e True plaintext ad nonce (e_epoch_key ep) = Inr body" and "length plaintext + 144 \<le> out_len"
proof -
  from assms obtain ep r1 where ep: "gr_epoch_get_current e reg = (Inr ep, r1)"
    by (auto simp: gr_encrypt_def split: prod.splits sum.splits)
  from assms obtain nonce body where x: "randombytes e (reg_calls r1) 16 = Some nonce" "ct = nonce @ body"
      "yumi_aead_encrypt e (malloc_ok e (reg_calls (tick r1))) plaintext ad nonce (e_epoch_key ep) = Inr body"
      "length plaintext + 144 \<le> out_len"
    by (auto simp: gr_encrypt_def ep Let_def split: if_splits option.splits sum.splits)
  have "malloc_ok e (reg_calls (tick r1))"
    using x(3) by (cases "malloc_ok e (reg_calls (tick r1))") (simp_all add: yumi_aead_encrypt_def Let_def)
  then show ?thesis using that epoch_current_ok [OF ep] x by simp
qed

lemma gr_decrypt_ok:
  assumes ok: "prims_ok e" "resourceful e" and few: "length (db_epochs (reg_db reg)) < 2 ^ 31"
    and sealed: "yumi_aead_encrypt e True plaintext ad nonce (e_epoch_key x) = Inr body" and nonce: "length nonce = 16"
    and mem: "x \<in> set (db_epochs (reg_db reg))"
    and only: "\<And>y. y \<in> set (db_epochs (reg_db reg)) \<Longrightarrow> opens e nonce body ad (e_epoch_key y) \<Longrightarrow> y = x"
  shows "fst (gr_decrypt e (nonce @ body) ad reg) = Inr (plaintext, e_epoch_id x)"
proof -
  let ?es = "sort_key (\<lambda>e. sint (e_epoch_id e)) (db_epochs (reg_db reg))"
  let ?n = "of_nat (length (db_epochs (reg_db reg))) :: u32"
  have "sint ?n = int (length (db_epochs (reg_db reg)))"
    using few by (intro sint_of_nat_small_32) simp
  then have list: "ps_epoch_list ?n (reg_db reg) = Some ?es"
    by (simp add: ps_epoch_list_def sql_limit_def)
  note rt = aead_roundtrip [OF ok(1) sealed]
  have body: "yumi_aead_decrypt e True (drop 16 (nonce @ body)) ad (take 16 (nonce @ body)) (e_epoch_key x) = Inr plaintext"
    using rt nonce by simp
  have "fst (try_epochs e nonce body ad (rev ?es) r) = Inr (plaintext, e_epoch_id x)" for r
    by (rule try_epochs_hit) (use ok(2) rt mem only in \<open>simp_all add: resourceful_def\<close>)
  then show ?thesis using ok(2) rt(2) nonce list
    by (simp add: gr_decrypt_def Let_def resourceful_def gr_epoch_count_def gr_epoch_list_def db_query_def ps_epoch_count_def)
qed

lemma current_key:
  assumes "tbl_get e_epoch_id (h_epoch_id (reg_header reg)) (db_epochs (reg_db reg)) = Some ep"
  shows "holds_key (group_of reg) (h_epoch_id (reg_header reg)) (e_epoch_key ep)"
  using assms by (simp add: holds_key_def group_of_def group_at_def view_def)

lemma held_key:
  assumes "holds_key (group_of reg) eid key"
  obtains x where "x \<in> set (db_epochs (reg_db reg))" and "e_epoch_id x = eid" and "e_epoch_key x = key"
  using assms tbl_get_mem tbl_get_key
  by (fastforce simp: holds_key_def group_of_def group_at_def view_def)

text \<open>Two keys that open the same ciphertext authenticate it with the same tag.\<close>

lemma opens_same_tag:
  assumes "yumi_aead_encrypt e True plaintext ad nonce key = Inr body" and "opens e nonce body ad key'" and "prims_ok e"
  shows "\<exists>m. skein_mac e (skein_mac e key' mac_label) m = skein_mac e (skein_mac e key mac_label) m"
proof -
  have "yumi_aead_decrypt e True body ad nonce key = Inr plaintext" using aead_roundtrip(1) [OF assms(3,1)] .
  then show ?thesis using assms(2)
    by (intro exI [of _ "aead_mac_input (host_le e) nonce ad (take (length body - 128) body)"])
       (auto simp: opens_def yumi_aead_decrypt_def Let_def split: if_splits)
qed

section \<open>The signed bytes\<close>

text \<open>
  The bytes under the signature, and the fields read back from them: everything but the time of the
  last update, the hash and the signature.
\<close>

definition canonical_wire :: "gr_header_t \<Rightarrow> bytes" where
  "canonical_wire hdr = h_group_id hdr @ le_bytes 4 (h_group_type hdr)
     @ str_wire (c_string (take GR_MAX_NAME_LEN (h_group_name hdr))) @ le_bytes 4 (h_version hdr)
     @ le_bytes 8 (h_created_at hdr) @ le_bytes 4 (h_epoch_id hdr)
     @ le_bytes 8 (message_retention_ms (h_retention hdr)) @ le_bytes 8 (file_retention_ms (h_retention hdr))
     @ le_bytes 8 (registrar_max_bytes (h_retention hdr)) @ h_owner_id hdr @ h_owner_sign_key hdr
     @ h_signer_id hdr @ h_signer_sign_key hdr @ []"

definition signed_part :: "gr_header_t \<Rightarrow> gr_header_t" where
  "signed_part hdr = hdr\<lparr>h_updated_at := 0, h_signature := [], h_hash := []\<rparr>"

definition read_canonical :: "gr_reader_t \<Rightarrow> gr_header_t option \<times> gr_reader_t" where
  "read_canonical =
     rbind (gr_read_bytes GR_HASH_LEN) (\<lambda>gid. rbind (gr_read_u32 True) (\<lambda>ty.
     rbind (gr_read_str True GR_MAX_NAME_LEN) (\<lambda>nm. rbind (gr_read_u32 True) (\<lambda>ver.
     rbind (gr_read_i64 True) (\<lambda>created. rbind (gr_read_u32 True) (\<lambda>ep.
     rbind (gr_read_i64 True) (\<lambda>mr. rbind (gr_read_i64 True) (\<lambda>fr. rbind (gr_read_i64 True) (\<lambda>mb.
     rbind (gr_read_bytes GR_PEER_ID_LEN) (\<lambda>oid. rbind (gr_read_bytes GR_PUBLIC_KEY_LEN) (\<lambda>osk.
     rbind (gr_read_bytes GR_PEER_ID_LEN) (\<lambda>sid. rbind (gr_read_bytes GR_PUBLIC_KEY_LEN) (\<lambda>ssk.
     rreturn \<lparr>h_group_id = gid, h_group_type = ty, h_group_name = nm, h_version = ver, h_created_at = created,
       h_updated_at = 0, h_epoch_id = ep,
       h_retention = \<lparr>message_retention_ms = mr, file_retention_ms = fr, registrar_max_bytes = mb\<rparr>,
       h_owner_id = oid, h_owner_sign_key = osk, h_signer_id = sid, h_signer_sign_key = ssk,
       h_signature = [], h_hash = []\<rparr>)))))))))))))"

lemma emits_canonical: "emits ra (write_canonical_header h ra hdr) (canonical_wire hdr)"
  unfolding write_canonical_header_def [abs_def] canonical_wire_def
  by (intro emits_Cons emits_u32 emits_i64 emits_bytes emits_str emits_nil)

lemma reads_canonical:
  assumes "wf_header hdr"
  shows "reads read_canonical (canonical_wire hdr) (signed_part hdr)"
proof -
  have nm: "c_string (take GR_MAX_NAME_LEN (h_group_name hdr)) = h_group_name hdr"
    using assms wf_cstr_c_string [of GR_MAX_NAME_LEN "h_group_name hdr"] by (simp add: wf_header_def wf_cstr_def)
  have str: "reads (gr_read_str True GR_MAX_NAME_LEN) (str_wire (h_group_name hdr)) (h_group_name hdr)"
    using assms nm wf_cstr_c_string [of GR_MAX_NAME_LEN "h_group_name hdr"]
    by (intro reads_str) (simp_all add: wf_header_def wf_cstr_def)
  have eta: "signed_part hdr = \<lparr>h_group_id = h_group_id hdr, h_group_type = h_group_type hdr,
      h_group_name = h_group_name hdr, h_version = h_version hdr, h_created_at = h_created_at hdr, h_updated_at = 0,
      h_epoch_id = h_epoch_id hdr, h_retention = \<lparr>message_retention_ms = message_retention_ms (h_retention hdr),
        file_retention_ms = file_retention_ms (h_retention hdr), registrar_max_bytes = registrar_max_bytes (h_retention hdr)\<rparr>,
      h_owner_id = h_owner_id hdr, h_owner_sign_key = h_owner_sign_key hdr, h_signer_id = h_signer_id hdr,
      h_signer_sign_key = h_signer_sign_key hdr, h_signature = [], h_hash = []\<rparr>"
    by (simp add: signed_part_def)
  show ?thesis
    unfolding read_canonical_def canonical_wire_def nm eta
    by (intro reads_bind [OF reads_bytes] reads_bind [OF reads_u32] reads_bind [OF reads_i64] reads_bind [OF str] reads_return)
       (use assms in \<open>simp_all add: wf_header_def\<close>)
qed

lemma canonical_bytes_wire:
  assumes "length (canonical_wire hdr) < 2 ^ 62" and "\<And>n. realloc_ok e n"
  shows "canonical_bytes e hdr fresh_buf = canonical_wire hdr"
proof -
  have "buf_room fresh_buf (length (canonical_wire hdr))"
    using assms(1) by (simp add: buf_room_def buf_inv_def fresh_buf_def buf_bytes_def)
  then obtain b where "write_canonical_header (host_le e) (realloc_ok e) hdr fresh_buf = Some b"
      "emitted (realloc_ok e) (canonical_wire hdr) fresh_buf b"
    using emits_canonical unfolding emits_def by blast
  then show ?thesis using assms(2) by (simp add: canonical_bytes_def emitted_def) (simp add: fresh_buf_def buf_bytes_def)
qed

lemma length_canonical: "wf_header hdr \<Longrightarrow> length (canonical_wire hdr) < 2 ^ 62"
  using wf_cstr_length wf_cstr_c_string [of GR_MAX_NAME_LEN "h_group_name hdr"]
  by (auto simp: canonical_wire_def wf_header_def wf_cstr_def)

lemma canonical_inj:
  assumes "wf_header h1" and "wf_header h2" and "\<And>n. realloc_ok e n"
    and "canonical_bytes e h1 fresh_buf = canonical_bytes e h2 fresh_buf"
  shows "signed_part h1 = signed_part h2"
proof -
  have "canonical_wire h1 = canonical_wire h2"
    using assms canonical_bytes_wire length_canonical by metis
  moreover have "fst (read_canonical \<lparr>rd_data = [] @ canonical_wire h @ [], rd_pos = length []\<rparr>) = Some (signed_part h)"
    if "wf_header h" for h
    using reads_canonical [OF that, unfolded reads_def, rule_format, of "[]" "[]"] by simp
  ultimately show ?thesis using assms(1,2) by (metis option.inject)
qed

section \<open>Properties\<close>

text \<open>
  C15. Equivalence.  Authenticated encryption: decryption accepts a byte string under a nonce, a key
  and associated data, with a given plaintext, exactly when encryption of that plaintext produces
  that byte string; the ciphertext is 128 bytes longer.
\<close>

theorem aead_opens_what_it_sealed:
  assumes "prims_ok p"
  shows "(yumi_aead_decrypt p True ct aad nonce key = Inr plaintext
      \<longleftrightarrow> yumi_aead_encrypt p True plaintext aad nonce key = Inr ct)
    \<and> (yumi_aead_encrypt p True plaintext aad nonce key = Inr ct \<longrightarrow> length ct = length plaintext + 128)"
  using aead_decrypt_iff [OF assms] aead_roundtrip(2) [OF assms] by blast

theorem aead_opens_what_it_sealed_witness:
  "\<exists>ct. yumi_aead_encrypt demo_env True [1, 2, 3] [9] [4] [5] = Inr ct \<and> length ct = 131
     \<and> yumi_aead_decrypt demo_env True ct [9] [4] [5] = Inr [1, 2, 3]"
proof -
  obtain ct where ct: "yumi_aead_encrypt demo_env True [1, 2, 3] [9] [4] [5] = Inr ct"
    by (simp add: yumi_aead_encrypt_def Let_def)
  from aead_opens_what_it_sealed [OF demo_prims, of ct "[9]" "[4]" "[5]" "[1, 2, 3]"] ct show ?thesis by auto
qed

text \<open>
  C16. Equivalence.  The variant with pre-derived subkeys and a cached MAC state computes the same
  encryption and decryption as the one that derives the subkeys on every call.
\<close>

theorem keyed_aead_same:
  "yumi_aead_encrypt_keyed p plaintext aad nonce (yumi_aead_derive_subkeys p key) =
     yumi_aead_encrypt p True plaintext aad nonce key
   \<and> yumi_aead_decrypt_keyed p ct aad nonce (yumi_aead_derive_subkeys p key) =
     yumi_aead_decrypt p True ct aad nonce key"
  using aead_keyed_equiv [of p plaintext aad nonce key] aead_keyed_equiv(2) [of p ct aad nonce key] by blast

text \<open>
  C17. Functional.  The key derivation is the extract-and-expand of RFC 5869 over the keyed hash, for
  an info string that fits the scratch buffer: the first len bytes of the blocks T(1), T(2), ...
\<close>

theorem hkdf_is_rfc5869:
  assumes "prims_ok p" and "length info \<le> 126" and "\<And>n. lease n"
  shows "yumi_hkdf p lease len ikm salt info = Some (Inr (take len (hkdf_blocks p
      (skein_mac p (case salt of None \<Rightarrow> replicate 128 0 | Some s \<Rightarrow> s) ikm) info [] 1 len)))"
  by (rule hkdf_ok [OF assms])

theorem hkdf_is_rfc5869_witness:
  "\<exists>okm. yumi_hkdf demo_env (\<lambda>n. True) 200 [1] None [2] = Some (Inr okm)
     \<and> okm = take 200 (hkdf_blocks demo_env (skein_mac demo_env (replicate 128 0) [1]) [2] [] 1 200)"
  using hkdf_is_rfc5869 [OF demo_prims, of "[2]" "\<lambda>n. True" 200 "[1]" None] by simp

text \<open>
  C6. Round trip.  A message encrypted to the group at any point of a registrar's life is decrypted
  at every later point, after any operations and rotations, to the same plaintext and the epoch it
  was encrypted in: the keys of past epochs are kept.  The one hypothesis beyond resources is that
  no other stored key happens to authenticate this ciphertext.
\<close>

theorem group_messages_stay_readable:
  assumes "prims_ok e" and "resourceful e" and "\<And>n k bs. randombytes e n k = Some bs \<Longrightarrow> length bs = k"
    and "registrar_ok sk le reg" and "(next_state sk le)\<^sup>*\<^sup>* reg r"
    and "gr_encrypt e plaintext ad out_len reg = (Inr ct, q)"
    and "length (db_epochs (reg_db r)) < 2 ^ 31"
    and "\<And>y. y \<in> set (db_epochs (reg_db r)) \<Longrightarrow> opens e (take 16 ct) (drop 16 ct) ad (e_epoch_key y) \<Longrightarrow>
           e_epoch_id y = h_epoch_id (reg_header reg)"
  shows "fst (gr_decrypt e ct ad r) = Inr (plaintext, h_epoch_id (reg_header reg))"
proof -
  obtain ep nonce body n where
    x: "tbl_get e_epoch_id (h_epoch_id (reg_header reg)) (db_epochs (reg_db reg)) = Some ep"
      "randombytes e n 16 = Some nonce" "ct = nonce @ body"
      "yumi_aead_encrypt e True plaintext ad nonce (e_epoch_key ep) = Inr body" "length plaintext + 144 \<le> out_len"
    by (rule gr_encrypt_ok [OF assms(6)])
  have len: "length nonce = 16" by (rule assms(3) [OF x(2)])
  note later = later_no_return [OF assms(5,4)]
  then have "holds_key (group_of r) (h_epoch_id (reg_header reg)) (e_epoch_key ep)"
    using current_key [OF x(1)] by (simp add: no_return_def)
  then obtain z where z: "z \<in> set (db_epochs (reg_db r))" "e_epoch_id z = h_epoch_id (reg_header reg)"
      "e_epoch_key z = e_epoch_key ep" by (rule held_key)
  have one: "y = z" if "y \<in> set (db_epochs (reg_db r))" "e_epoch_id y = e_epoch_id z" for y
    using later that z(1) by (auto simp: registrar_ok_def db_keys_ok_def tbl_inv_def distinct_map inj_on_def)
  have "fst (gr_decrypt e (nonce @ body) ad r) = Inr (plaintext, e_epoch_id z)"
  proof (rule gr_decrypt_ok [OF assms(1,2,7) x(4) [folded z(3)] len z(1)])
    fix y assume y: "y \<in> set (db_epochs (reg_db r))" "opens e nonce body ad (e_epoch_key y)"
    have "opens e (take 16 ct) (drop 16 ct) ad (e_epoch_key y)" using y(2) x(3) len by simp
    from assms(8) [OF y(1) this] show "y = z" using one [OF y(1)] z(2) by simp
  qed
  then show ?thesis using x(3) z(2) by simp
qed

theorem group_messages_stay_readable_witness:
  "\<exists>r ct. run_gov demo_env EpochRotate (Some (demo_identity 1)) demo_reg = (GR_OK, r)
     \<and> fst (gr_encrypt demo_env [1, 2, 3] [] 200 demo_reg) = Inr ct
     \<and> fst (gr_decrypt demo_env ct [] r) = Inr ([1, 2, 3], 1)"
proof -
  from demo_rotate obtain r :: gr_registrar and t :: byte where r: "run_gov demo_env EpochRotate (Some (demo_identity 1)) demo_reg = (GR_OK, r)"
    and es: "map (\<lambda>x. (e_epoch_id x, e_epoch_key x)) (db_epochs (reg_db r)) = [(1, [5]), (2, replicate 128 t)]"
    and t: "t \<noteq> 5" by (elim exE conjE)
  have rand: "randombytes demo_env n k = Some bs \<Longrightarrow> length bs = k" for n k bs
    by (auto simp: demo_env_def)
  have res: "resourceful demo_env" by (simp add: resourceful_def demo_env_def)
  have step: "(next_state (skein demo_env) True)\<^sup>*\<^sup>* demo_reg r"
    using next_state.operate [OF demo_world r] by blast
  obtain ct q where ct: "gr_encrypt demo_env [1, 2, 3] [] 200 demo_reg = (Inr ct, q)"
    by (simp add: gr_encrypt_def gr_epoch_get_current_def gr_epoch_get_def db_fetch_def ps_epoch_get_def
        demo_env_def demo_reg_def fresh_handle_def demo_db_def demo_header_def zero_header_def Let_def yumi_aead_encrypt_def)
  obtain ep nonce body n where
    x: "tbl_get e_epoch_id (h_epoch_id (reg_header demo_reg)) (db_epochs (reg_db demo_reg)) = Some ep"
      "randombytes demo_env n 16 = Some nonce" "ct = nonce @ body"
      "yumi_aead_encrypt demo_env True [1, 2, 3] [] nonce (e_epoch_key ep) = Inr body" "length [1, 2, 3 :: byte] + 144 \<le> 200"
    by (rule gr_encrypt_ok [OF ct])
  have ep: "h_epoch_id (reg_header demo_reg) = 1" "e_epoch_key ep = [5]"
    using x(1) by (auto simp: demo_reg_def fresh_handle_def demo_db_def demo_header_def)
  have len: "length nonce = 16" using rand [OF x(2)] .
  have first: "e_epoch_id y = 1" if y: "y \<in> set (db_epochs (reg_db r))"
      "opens demo_env (take 16 ct) (drop 16 ct) [] (e_epoch_key y)" for y
  proof -
    have "opens demo_env nonce body [] (e_epoch_key y)" using y(2) x(3) len by simp
    from opens_same_tag [OF x(4) this demo_prims] have "e_epoch_key y \<noteq> replicate 128 t"
      using t ep(2) by (auto simp: demo_env_def)
    moreover have "(e_epoch_id y, e_epoch_key y) \<in> set (map (\<lambda>x. (e_epoch_id x, e_epoch_key x)) (db_epochs (reg_db r)))"
      using y(1) by simp
    ultimately show ?thesis unfolding es by simp
  qed
  have "length (map (\<lambda>x. (e_epoch_id x, e_epoch_key x)) (db_epochs (reg_db r))) = 2" unfolding es by simp
  then have few: "length (db_epochs (reg_db r)) < 2 ^ 31" by simp
  have "fst (gr_decrypt demo_env ct [] r) = Inr ([1, 2, 3], h_epoch_id (reg_header demo_reg))"
    by (rule group_messages_stay_readable [OF demo_prims res _ demo_registrar_ok step ct few])
       (use rand first ep(1) in simp_all)
  then show ?thesis using r ct ep(1) by simp
qed

text \<open>
  C13. Round trip.  After a successful signing of the registrar by a signer, verification answers
  yes, the stored header is the signed one, it names the signer and carries the next version.  The
  signature scheme accepts what the signer's secret key signed; memory and hash work.
\<close>

theorem signed_registrar_verifies:
  assumes "world sk le e" and "registrar_ok sk le reg" and "gr_sign e (Some s) reg = (GR_OK, r)" and "resourceful e"
    and "\<And>n m sig. mldsa_sign e n (id_secret_key s) m = Some sig \<Longrightarrow> mldsa_verify e sig m (id_public_key s)"
  shows "fst (gr_verify e r) = Inr True \<and> db_header (reg_db r) = [reg_header r]
    \<and> h_signer_id (reg_header r) = id_peer_id s \<and> h_version (reg_header r) = h_version (reg_header reg) + 1"
proof -
  have "reliable e" "idle reg" using assms(1,2) by (simp_all add: world_def registrar_ok_def)
  note ok = sign_ok [OF this assms(3)]
  then obtain r1 x y where r1: "logged e GR_CHANGE_REGISTRAR_SIGNED s None (reg_db reg) (reg_header reg) r1"
    "reg_db r = (reg_db r1)\<lparr>db_header := [reg_header r]\<rparr>" "reg_header r = (reg_header r1)\<lparr>h_signer_id := id_peer_id s,
       h_signer_sign_key := id_public_key s, h_hash := x, h_signature := y\<rparr>" by blast
  have "fst (gr_verify e r) = Inr True"
    by (rule verify_sealed [of e s]) (use ok assms(4,5) in \<open>simp_all add: resourceful_def\<close>)
  moreover have "db_header (reg_db r) = [reg_header r]" using r1(2) by simp
  moreover have "h_signer_id (reg_header r) = id_peer_id s" "h_version (reg_header r) = h_version (reg_header r1)"
    using r1(3) by simp_all
  ultimately show ?thesis using loggedD(10) [OF r1(1)] by simp
qed

theorem signed_registrar_verifies_witness:
  "\<exists>r. gr_sign demo_env (Some (demo_identity 1)) demo_reg = (GR_OK, r) \<and> fst (gr_verify demo_env r) = Inr True
     \<and> h_version (reg_header r) = 6"
proof -
  obtain r where r: "gr_sign demo_env (Some (demo_identity 1)) demo_reg = (GR_OK, r)"
    using demo_sign by (cases "gr_sign demo_env (Some (demo_identity 1)) demo_reg") auto
  have res: "resourceful demo_env" by (simp add: resourceful_def demo_env_def)
  have "h_version (reg_header demo_reg) = 5" by (simp add: demo_reg_def fresh_handle_def demo_header_def)
  with signed_registrar_verifies [OF demo_world demo_registrar_ok r res] r show ?thesis by (simp add: demo_env_def)
qed

text \<open>
  C14. Round trip.  The bytes that are hashed and signed determine every field of the header but the
  time of the last update, the hash and the signature: two headers with the same signed bytes agree
  on the group, its type, name and version, the epoch, the retention policy, owner and signer.
\<close>

theorem signed_bytes_determine_header:
  assumes "wf_header h1" and "wf_header h2" and "\<And>n. realloc_ok e n"
    and "canonical_bytes e h1 fresh_buf = canonical_bytes e h2 fresh_buf"
  shows "h1\<lparr>h_updated_at := 0, h_signature := [], h_hash := []\<rparr> = h2\<lparr>h_updated_at := 0, h_signature := [], h_hash := []\<rparr>"
  using canonical_inj [OF assms] by (simp add: signed_part_def)

theorem signed_bytes_determine_header_witness:
  "wf_header zero_header \<and> canonical_bytes demo_env zero_header fresh_buf = canonical_bytes demo_env (zero_header\<lparr>h_updated_at := 9\<rparr>) fresh_buf
   \<and> zero_header\<lparr>h_updated_at := 0, h_signature := [], h_hash := []\<rparr> =
      zero_header\<lparr>h_updated_at := 9\<rparr>\<lparr>h_updated_at := 0, h_signature := [], h_hash := []\<rparr>"
proof -
  have wf: "wf_header zero_header" "wf_header (zero_header\<lparr>h_updated_at := 9\<rparr>)"
    by (simp_all add: wf_header_def zero_header_def wf_cstr_def)
  have ra: "realloc_ok demo_env n" for n by (simp add: demo_env_def)
  have eq: "canonical_bytes demo_env zero_header fresh_buf = canonical_bytes demo_env (zero_header\<lparr>h_updated_at := 9\<rparr>) fresh_buf"
    by (simp add: canonical_bytes_def write_canonical_header_def)
  from signed_bytes_determine_header [OF wf ra eq] eq wf show ?thesis by blast
qed

text \<open>
  C18. Round trip.  What is encrypted to a peer is decrypted by the holder of the matching secret
  keys, for a key encapsulation whose decapsulation returns the encapsulated secret.
\<close>

theorem peer_messages_round_trip:
  assumes "prims_ok e" and "resourceful e" and "gr_encrypt_for_peer e n (id_kem_pk self) plaintext out_len = Inr ct"
    and "\<And>n k bs. randombytes e n k = Some bs \<Longrightarrow> length bs = k"
    and "\<And>n c ss. mlkem_encaps e n (id_kem_pk self) = Some (c, ss) \<Longrightarrow>
           length c = 1568 \<and> mlkem_decaps e (id_kem_sk self) c = Some ss"
  shows "gr_decrypt_from_peer e m self ct = Inr plaintext \<and> length ct = length plaintext + 1712 \<and> length ct \<le> out_len"
proof -
  have key: "peer_key e i ss pk = peer_key e j ss pk" for i j ss pk
    using assms(2) by (simp add: peer_key_def resourceful_def)
  from assms(3) obtain c ss key nonce body where x: "mlkem_encaps e n (id_kem_pk self) = Some (c, ss)"
      "peer_key e (n + 1) ss (id_kem_pk self) = Some key" "randombytes e (n + 2) 16 = Some nonce"
      "yumi_aead_encrypt e True plaintext [] nonce key = Inr body" "ct = c @ nonce @ body"
      "length plaintext + 1712 \<le> out_len"
    using assms(2) by (auto simp: gr_encrypt_for_peer_def Let_def resourceful_def split: if_splits option.splits sum.splits)
  note rt = aead_roundtrip [OF assms(1) x(4)] and kem = assms(5) [OF x(1)] and nonce = assms(4) [OF x(3)]
  have "peer_key e m ss (id_kem_pk self) = Some key" using x(2) key [of m ss _ "n + 1"] by simp
  then have "gr_decrypt_from_peer e m self ct = Inr plaintext"
    using rt kem nonce x(5) assms(2) by (simp add: gr_decrypt_from_peer_def resourceful_def)
  then show ?thesis using rt(2) kem nonce x(5,6) by simp
qed

theorem peer_messages_round_trip_witness:
  "\<exists>e ct. e = demo_env\<lparr>mlkem_encaps := \<lambda>n pk. Some (replicate 1568 1, [2])\<rparr>
     \<and> gr_encrypt_for_peer e 0 [3] [1, 2] 5000 = Inr ct \<and> gr_decrypt_from_peer e 0 (demo_identity 3) ct = Inr [1, 2]"
proof -
  define e where "e = demo_env\<lparr>mlkem_encaps := \<lambda>n pk. Some (replicate 1568 1, [2])\<rparr>"
  have prims: "prims_ok e" and res: "resourceful e" by (simp_all add: prims_ok_def resourceful_def e_def demo_env_def)
  have info: "length peer_info \<le> 126" by (simp add: peer_info_def cstr_def)
  have "peer_key e (0 + 1) [2] [3] \<noteq> None"
    using hkdf_ok [OF prims info, of "\<lambda>i. lease_ok e (0 + 1 + i)" 128 "[2]" "Some [3]"] res
    by (simp add: peer_key_def resourceful_def)
  then obtain key where key: "peer_key e (Suc 0) [2] [3] = Some key" by auto
  have ops: "mlkem_encaps e n pk = Some (replicate 1568 1, [2])" "randombytes e n k = Some (replicate k (of_nat n))"
    "malloc_ok e n" for n k pk by (simp_all add: e_def demo_env_def)
  obtain ct where ct: "gr_encrypt_for_peer e 0 (id_kem_pk (demo_identity 3)) [1, 2] 5000 = Inr ct"
    by (simp add: gr_encrypt_for_peer_def Let_def demo_identity_def yumi_aead_encrypt_def ops key)
  have "gr_decrypt_from_peer e 0 (demo_identity 3) ct = Inr [1, 2]"
  proof (rule peer_messages_round_trip [OF prims res ct, THEN conjunct1])
    show "length bs = k" if "randombytes e n k = Some bs" for n k bs using that by (auto simp: ops)
    show "length c = 1568 \<and> mlkem_decaps e (id_kem_sk (demo_identity 3)) c = Some ss"
      if "mlkem_encaps e n (id_kem_pk (demo_identity 3)) = Some (c, ss)" for n c ss
      using that by (auto simp: ops) (simp add: e_def demo_env_def)
  qed
  then show ?thesis using ct e_def by (auto simp: demo_identity_def)
qed

end
