(* ===== verification/Join_Safety.thy ===== *)
theory Join_Safety imports Demo
begin

text \<open>
  The verification of a join (\<open>join.c\<close>): the quorum, the invariant of the collected votes and what
  a verified state proves.
\<close>

section \<open>The quorum\<close>

lemma up_sqrt_least:
  assumes "\<And>k. k < q \<Longrightarrow> k * k < n"
  shows "n \<le> up_sqrt n q * up_sqrt n q \<and> (\<forall>k < up_sqrt n q. k * k < n)"
  using assms
proof (induction n q rule: up_sqrt.induct)
  case (1 n q)
  show ?case
  proof (cases "n \<le> q * q")
    case True
    then show ?thesis using 1(2) by (simp add: up_sqrt.simps [of n q])
  next
    case False
    have "k * k < n" if "k < q + 1" for k
      using 1(2) [of k] False that by (cases "k = q") auto
    from 1(1) [OF False this] show ?thesis using False by (simp add: up_sqrt.simps [of n q])
  qed
qed

lemma ceil_sqrt_least: "n \<le> ceil_sqrt n * ceil_sqrt n \<and> (\<forall>k < ceil_sqrt n. k * k < n)"
  unfolding ceil_sqrt_def by (rule up_sqrt_least) simp

lemma ceil_sqrt_bound: "n \<le> m * m \<Longrightarrow> ceil_sqrt n \<le> m"
  using ceil_sqrt_least [of n] by (meson leI not_le order_less_le_trans)

lemma ceil_sqrt_small: "n < 2 ^ 32 \<Longrightarrow> ceil_sqrt n \<le> 65536"
  by (rule ceil_sqrt_bound) simp

text \<open>The quorum is the ceiling of the square root, cut to 3..10.\<close>

lemma quorum_value:
  assumes "2 < n"
  shows "unat (compute_quorum n) = max 3 (min 10 (ceil_sqrt (unat n - 2)))"
proof -
  have u: "unat (n - 2) = unat n - 2" using assms by (simp add: unat_sub word_less_nat_alt order_less_imp_le)
  let ?c = "ceil_sqrt (unat n - 2)"
  have "unat n < 2 ^ 32" using unsigned_less [where w = n] by simp
  then have c: "?c \<le> 65536" by (intro ceil_sqrt_small) simp
  then have uc: "unat (of_nat ?c :: u32) = ?c" by (simp add: unat_of_nat)
  show ?thesis using assms uc
    by (simp add: compute_quorum_def Let_def u word_le_nat_alt word_less_nat_alt split: if_splits)
qed

lemma quorum_range: "3 \<le> compute_quorum n \<and> compute_quorum n \<le> 10"
proof (cases "2 < n")
  case True
  from quorum_value [OF this] show ?thesis by (simp add: word_le_nat_alt)
next
  case False
  then show ?thesis by (simp add: compute_quorum_def not_less)
qed

section \<open>The votes\<close>

text \<open>
  What holds of a verification state: counters are the numbers of votes, no peer votes twice, the
  inviter does not vote, at most 64 votes; a verified state was bypassed, overridden, or has its
  quorum and no dissent.
\<close>

definition join_wf :: "gr_join_verify_state_t \<Rightarrow> bool" where
  "join_wf js \<longleftrightarrow> js_agree_count js = of_nat (length (filter v_agrees (js_votes js)))
     \<and> js_disagree_count js = of_nat (length (filter (\<lambda>v. \<not> v_agrees v) (js_votes js)))
     \<and> distinct (map v_peer_id (js_votes js)) \<and> js_inviter_peer_id js \<notin> v_peer_id ` set (js_votes js)
     \<and> length (js_votes js) \<le> 64
     \<and> (js_has_dissent js \<longleftrightarrow> (\<exists>v\<in>set (js_votes js). \<not> v_agrees v))
     \<and> js_state js \<noteq> GR_JOIN_NONE
     \<and> (js_state js = GR_JOIN_PROVISIONAL \<longrightarrow> 3 \<le> js_required_attestations js \<and> js_required_attestations js \<le> 10
          \<and> \<not> js_small_group_bypass js \<and> \<not> js_user_override js)
     \<and> (js_state js = GR_JOIN_VERIFIED \<longrightarrow> js_small_group_bypass js \<or> js_user_override js
          \<or> (3 \<le> js_required_attestations js \<and> js_required_attestations js \<le> js_agree_count js
              \<and> js_disagree_count js = 0))"

definition join_ok :: "gr_registrar \<Rightarrow> bool" where
  "join_ok reg \<longleftrightarrow> (case reg_join_state reg of None \<Rightarrow> True | Some js \<Rightarrow> join_wf js)"

lemma join_okI: "(\<And>js. reg_join_state reg = Some js \<Longrightarrow> join_wf js) \<Longrightarrow> join_ok reg"
  by (auto simp: join_ok_def split: option.splits)

lemma join_ok_same: "reg_join_state r = reg_join_state reg \<Longrightarrow> join_ok r = join_ok reg"
  by (simp add: join_ok_def)

lemma join_ok_tick [simp]: "join_ok (tick r) = join_ok r"
  by (simp add: join_ok_def)

lemma count_vote_wf:
  assumes wf: "join_wf js" and st: "js_state js = GR_JOIN_PROVISIONAL" and new: "\<not> has_voted js (v_peer_id v)"
    and inv: "v_peer_id v \<noteq> js_inviter_peer_id js" and room: "length (js_votes js) < 64"
  shows "join_wf (count_vote v js)"
proof -
  have "v_peer_id v \<notin> v_peer_id ` set (js_votes js)"
    using new by (auto simp: has_voted_def list_ex_iff)
  then show ?thesis using wf st inv room by (auto simp: join_wf_def count_vote_def Let_def)
qed

lemma decide_wf: "join_wf js \<Longrightarrow> js_state js = GR_JOIN_PROVISIONAL \<Longrightarrow> join_wf (join_decide h js)"
  by (auto simp: join_wf_def join_decide_def Let_def split: option.splits)

lemma draft_wf:
  "join_wf ((join_draft t now nonce)\<lparr>js_state := GR_JOIN_FAILED\<rparr>)"
  "join_wf ((join_draft t now nonce)\<lparr>js_inviter_peer_id := m, js_state := GR_JOIN_FAILED\<rparr>)"
  "join_wf ((join_draft t now nonce)\<lparr>js_inviter_peer_id := m, js_state := GR_JOIN_VERIFIED,
      js_small_group_bypass := True, js_required_attestations := 0\<rparr>)"
  "join_wf ((join_draft t now nonce)\<lparr>js_inviter_peer_id := m, js_required_attestations := compute_quorum n\<rparr>)"
  using quorum_range [of n] by (simp_all add: join_wf_def join_draft_def)

lemma begin_ok:
  assumes "join_ok reg"
  shows "join_ok (snd (gr_join_begin e t reg))"
proof -
  have quorum: "join_ok (snd (join_set_quorum e ((join_draft t' now nonce)\<lparr>js_inviter_peer_id := m\<rparr>) r))" for t' now nonce m r
    by (cases "gr_peer_count e GR_PEER_ACTIVE r") (simp add: join_set_quorum_def Let_def join_ok_def draft_wf)
  have check: "join_ok (snd (join_check_inviter e ((join_draft t' now nonce)\<lparr>js_inviter_peer_id := m\<rparr>) r))" for t' now nonce m r
    by (auto simp: join_check_inviter_def join_reject_def join_ok_def [of "_\<lparr>reg_join_state := _\<rparr>"] draft_wf quorum
        split: prod.splits sum.splits)
  show ?thesis using assms
    by (auto simp: gr_join_begin_def Let_def join_reject_def join_ok_def [of "_\<lparr>reg_join_state := _\<rparr>"] draft_wf check
        split: option.splits)
qed


lemma submit_ok:
  assumes ok: "join_ok reg"
  shows "join_ok (snd (gr_join_submit_peer_header e h m pk sg reg))"
proof (cases "reg_join_state reg")
  case None
  with ok show ?thesis by (simp add: gr_join_submit_peer_header_def)
next
  case (Some js)
  with ok have wf: "join_wf js" by (simp add: join_ok_def)
  obtain res r where r: "gr_peer_get e m reg = (res, r)" by (cases "gr_peer_get e m reg")
  then have q: "reg_join_state r = Some js" using quietD(4) [of reg r] quiet_peer_get [of reg e m] Some by simp
  have accept: "join_ok (snd (join_accept_vote e js h m pk sg r))"
    if "js_state js = GR_JOIN_PROVISIONAL" "m \<noteq> js_inviter_peer_id js" "\<not> has_voted js m"
    using count_vote_wf [OF wf that(1), of "join_vote (reg_header r) m (now_of e r) h"] that q wf
    by (simp add: join_accept_vote_def join_ok_def join_vote_def)
  have "join_ok r" using q wf by (simp add: join_ok_def)
  with ok accept show ?thesis
    by (simp add: gr_join_submit_peer_header_def Some r split: sum.splits)
qed

lemma evaluate_ok: "join_ok reg \<Longrightarrow> join_ok (snd (gr_join_evaluate reg))"
  by (auto simp: gr_join_evaluate_def Let_def join_ok_def decide_wf split: option.splits)

lemma callback_ok: "join_ok reg \<Longrightarrow> join_ok (snd (gr_join_set_dissent_callback cb reg))"
  by (auto simp: gr_join_set_dissent_callback_def join_ok_def join_wf_def split: option.splits)

lemma exec_join_same: "db_exec e stmt reg = (n, r) \<Longrightarrow> reg_join_state r = reg_join_state reg"
  by (auto simp: db_exec_def split: if_splits option.splits)

lemma query_join_same: "db_query e q reg = (n, r) \<Longrightarrow> reg_join_state r = reg_join_state reg"
  using quietD(4) [of reg r] quiet_query [of reg e q] by simp

lemma snd_exec_join [simp]: "reg_join_state (snd (db_exec e stmt reg)) = reg_join_state reg"
  by (cases "db_exec e stmt reg") (simp add: exec_join_same)

text \<open>Outside the join operations the verification state does not move.\<close>

lemma bg_join_same:
  assumes "case b of Touch _ \<Rightarrow> True | BlockCheck _ _ \<Rightarrow> True | BlockFail _ _ \<Rightarrow> True | BlockReset _ \<Rightarrow> True
     | BlockCleanup _ \<Rightarrow> True | _ \<Rightarrow> False"
  shows "reg_join_state (run_bg e b reg) = reg_join_state reg"
  using assms
  by (cases b) (auto simp: gr_peer_touch_def gr_blocklist_check_def gr_blocklist_record_fail_def gr_blocklist_reset_def
      gr_blocklist_cleanup_def stmt_then_def Let_def split: option.splits prod.splits sum.splits
      dest!: exec_join_same query_join_same)

lemma bg_join_ok:
  assumes "join_ok reg"
  shows "join_ok (run_bg e b reg)"
proof (cases b)
  case (JoinBegin t)
  then show ?thesis using begin_ok [OF assms] by simp
next
  case (JoinCallback cb)
  then show ?thesis using callback_ok [OF assms] by simp
next
  case (JoinSubmit h m pk sg)
  then show ?thesis using submit_ok [OF assms] by simp
next
  case JoinEvaluate
  then show ?thesis using evaluate_ok [OF assms] by simp
qed (use assms bg_join_same [of b e reg] in \<open>simp_all add: join_ok_def\<close>)

lemma next_join_ok:
  assumes "next_state sk le reg r" and "registrar_ok sk le reg" and "join_ok reg"
  shows "join_ok r"
  using assms
proof (induction rule: next_state.induct)
  case (operate e op signer reg err r)
  have "atomic_res e reg (err, r)"
    using atomic_opD [OF gov_atomic, of e reg op signer] operate by (simp add: world_def registrar_ok_def)
  then show ?case using operate(4) by (simp add: atomic_res_def join_ok_def)
next
  case (background e b reg r)
  then show ?case using bg_join_ok by blast
next
  case (reopen e reg gid r)
  then show ?case using reopen_result [of sk le reg e gid r] by (simp add: join_ok_def)
qed

lemma reachable_join_ok: "reachable sk le reg \<Longrightarrow> join_ok reg"
proof (induction rule: reachable.induct)
  case (created e nm gt ow reg d)
  then have "reliable e" by (simp add: world_def)
  from create_ok [OF this created(2)] create_steps_ok [OF this] show ?case by (fastforce simp: join_ok_def)
next
  case (moved reg r)
  then show ?case using next_join_ok reachable_registrar_ok by blast
qed

section \<open>What a verified state proves\<close>

lemma verified_quorum:
  assumes wf: "join_wf js" and st: "js_state js = GR_JOIN_VERIFIED"
    and plain: "\<not> js_small_group_bypass js" "\<not> js_user_override js"
  shows "\<exists>S. S \<subseteq> v_peer_id ` {v \<in> set (js_votes js). v_agrees v} \<and> 3 \<le> card S
    \<and> unat (js_required_attestations js) \<le> card S \<and> js_inviter_peer_id js \<notin> S
    \<and> (\<forall>v\<in>set (js_votes js). v_agrees v)"
proof -
  from wf st plain have q: "3 \<le> js_agree_count js" "js_required_attestations js \<le> js_agree_count js" "js_disagree_count js = 0"
    by (auto simp: join_wf_def)
  let ?A = "filter v_agrees (js_votes js)" and ?D = "filter (\<lambda>v. \<not> v_agrees v) (js_votes js)"
  have len: "length ?A \<le> 64" "length ?D \<le> 64"
    using wf length_filter_le order_trans unfolding join_wf_def by blast+
  have "unat (js_agree_count js) = length ?A" "unat (js_disagree_count js) = length ?D"
    using wf len by (simp_all add: join_wf_def unat_of_nat)
  then have n: "3 \<le> length ?A" "unat (js_required_attestations js) \<le> length ?A" "length ?D = 0" using q by (simp_all add: word_le_nat_alt)
  from n(3) have all: "\<forall>v\<in>set (js_votes js). v_agrees v" by (simp add: filter_empty_conv)
  have dist: "distinct (map v_peer_id ?A)" using wf by (simp add: join_wf_def distinct_map_filter)
  let ?S = "v_peer_id ` set ?A"
  have "card ?S = length ?A" using distinct_card [OF dist] by simp
  then show ?thesis using n(1,2) wf all by (intro exI [of _ ?S]) (auto simp: join_wf_def)
qed

text \<open>Once verified or failed, a state is never reconsidered.\<close>

lemma settled_state_kept:
  assumes "reg_join_state reg = Some js" and "js_state js \<noteq> GR_JOIN_PROVISIONAL"
  shows "\<exists>js'. reg_join_state (run_bg e b reg) = Some js' \<and> js_state js' = js_state js \<and> js_votes js' = js_votes js"
  using assms
  by (cases b) (use bg_join_same [of b e reg] in \<open>simp_all add: gr_join_begin_def gr_join_set_dissent_callback_def
      gr_join_submit_peer_header_def gr_join_evaluate_def split: option.splits\<close>)

text \<open>Dissent: the first evaluation after a disagreeing vote fails the join unless the host overrides.\<close>

lemma dissent_decides:
  assumes "reg_join_state reg = Some js" and "js_state js = GR_JOIN_PROVISIONAL"
    and "0 < js_disagree_count js" and "\<not> js_dissent_callback_fired js"
  shows "gr_join_get_state (snd (gr_join_evaluate reg)) =
    (if \<exists>cb. js_dissent_callback js = Some cb
          \<and> cb (join_callback_result (reg_header reg) (js\<lparr>js_dissent_callback_fired := True\<rparr>))
     then GR_JOIN_VERIFIED else GR_JOIN_FAILED)"
  using assms by (auto simp: gr_join_evaluate_def gr_join_get_state_def Let_def join_decide_def split: option.splits)

section \<open>Properties\<close>

text \<open>A join in progress on the demonstration group, invited by 2, and the same with three votes.\<close>

definition demo_ticket :: gr_invite_ticket_t where
  "demo_ticket = \<lparr>t_group_id = [41], t_group_name = [], t_group_type = 0, t_owner_sign_key = [1],
     t_registrar_hash = [], t_verification_token = [], t_inviter_sign_pk = [2], t_inviter_kem_pk = [2],
     t_expires_at = 0, t_bootstrap_peers = [], t_bootstrap_count = 0, t_signaling_count = 0\<rparr>"

definition demo_join :: gr_join_verify_state_t where
  "demo_join = (join_draft demo_ticket 0 [])\<lparr>js_inviter_peer_id := [2], js_required_attestations := 3\<rparr>"

definition demo_vote :: "byte \<Rightarrow> bool \<Rightarrow> gr_join_peer_vote_t" where
  "demo_vote b agrees = \<lparr>v_peer_id = [b], v_owner_id = [1], v_owner_sign_key = [1], v_group_id = [42],
     v_registrar_hash = [], v_version = 5, v_received_at = 0, v_agrees = agrees\<rparr>"

lemma begin_starts:
  assumes "\<And>n. malloc_ok e n" and "\<And>n k. randombytes e n k \<noteq> None" and "ticket \<noteq> None"
  shows "reg_join_state (snd (gr_join_begin e ticket reg)) \<noteq> None"
proof -
  have quorum: "reg_join_state (snd (join_set_quorum e js r)) \<noteq> None" for js r
    by (simp add: join_set_quorum_def Let_def split: prod.splits)
  have check: "reg_join_state (snd (join_check_inviter e js r)) \<noteq> None" for js r
    using quorum by (auto simp: join_check_inviter_def join_reject_def split: prod.splits sum.splits)
  obtain bs where "randombytes e (reg_calls (tick (tick reg))) 32 = Some bs" using assms(2) by blast
  then show ?thesis using assms(1,3) check
    by (auto simp: gr_join_begin_def Let_def join_reject_def split: option.splits)
qed

text \<open>
  C19. Bounds.  The number of attestations a joiner asks for is the ceiling of the square root of the
  number of other members, cut to the range 3 to 10.
\<close>

theorem quorum_is_cut_root:
  assumes "2 < n"
  shows "\<exists>c. unat n - 2 \<le> c * c \<and> (\<forall>k < c. k * k < unat n - 2) \<and> unat (compute_quorum n) = max 3 (min 10 c)"
  using quorum_value [OF assms] ceil_sqrt_least [of "unat n - 2"] by blast

theorem quorum_is_cut_root_witness: "unat (compute_quorum 30) = 6"
proof -
  have "(2 :: u32) < 30" by simp
  from quorum_is_cut_root [OF this] obtain c :: nat where c: "28 \<le> c * c" "\<forall>k < c. k * k < 28"
    "unat (compute_quorum 30) = max 3 (min 10 c)" by auto
  have "c \<noteq> k" if "k < 6" for k :: nat using c(1) that by (auto simp: less_Suc_eq numeral_eq_Suc)
  then have "\<not> c < 6" by blast
  moreover have "c \<le> 6" using c(2) [rule_format, of 6] by fastforce
  ultimately show ?thesis using c(3) by simp
qed

text \<open>
  In every reachable state the verification state, if there is one, has counters that
  count its votes, at most one vote per peer and none of the inviter, at most 64 votes, and is
  verified only by the small-group rule, by the host, or by its quorum without dissent.
\<close>

theorem reachable_votes_counted:
  assumes "reachable sk le reg" and "reg_join_state reg = Some js"
  shows "js_agree_count js = of_nat (length (filter v_agrees (js_votes js)))
    \<and> js_disagree_count js = of_nat (length (filter (\<lambda>v. \<not> v_agrees v) (js_votes js)))
    \<and> distinct (map v_peer_id (js_votes js)) \<and> js_inviter_peer_id js \<notin> v_peer_id ` set (js_votes js)
    \<and> length (js_votes js) \<le> 64
    \<and> (js_state js = GR_JOIN_VERIFIED \<longrightarrow> js_small_group_bypass js \<or> js_user_override js
         \<or> (3 \<le> js_required_attestations js \<and> js_required_attestations js \<le> js_agree_count js \<and> js_disagree_count js = 0))"
proof -
  have "join_wf js" using reachable_join_ok [OF assms(1)] assms(2) by (simp add: join_ok_def)
  then show ?thesis unfolding join_wf_def by blast
qed

theorem reachable_votes_counted_witness:
  "\<exists>reg js. gr_create demo_env empty_db (Some [97]) 0 (Some (demo_identity 1)) = (Inr reg, reg_db reg)
     \<and> reg_join_state (run_bg demo_env (JoinBegin (Some demo_ticket)) reg) = Some js \<and> length (js_votes js) \<le> 64"
proof -
  from demo_create obtain reg where
    reg: "gr_create demo_env empty_db (Some [97]) 0 (Some (demo_identity 1)) = (Inr reg, reg_db reg)" by blast
  let ?r = "run_bg demo_env (JoinBegin (Some demo_ticket)) reg"
  have "reachable (skein demo_env) True ?r"
    using reachable.moved [OF reachable.created [OF demo_world reg]] next_state.background [OF demo_world refl] by blast
  moreover have "reg_join_state ?r \<noteq> None"
    using begin_starts [of demo_env "Some demo_ticket" reg] by (simp add: demo_env_def)
  ultimately show ?thesis using reachable_votes_counted [of "skein demo_env" True ?r] reg by blast
qed



text \<open>
  C10. Safety.  A submitted vote is counted only when the join is still open, the peer is an active
  member other than the inviter that has not voted, the key is the one stored for it, and the
  signature verifies over the header's group, owner and version together with the joiner's nonce.
  The vote agrees exactly when group and owner are those of the joiner's own header.
\<close>

theorem vote_counts_only_from_members:
  assumes "gr_join_submit_peer_header e h m pk sg reg = (GR_OK, r)"
  shows "\<exists>js vote. reg_join_state reg = Some js \<and> js_state js = GR_JOIN_PROVISIONAL \<and> m \<noteq> js_inviter_peer_id js
    \<and> m \<notin> v_peer_id ` set (js_votes js)
    \<and> (\<exists>row\<in>set (db_peers (reg_db reg)). p_peer_id row = m \<and> p_status row = GR_PEER_ACTIVE \<and> p_sign_key row = pk)
    \<and> mldsa_verify e sg (build_attestation_data (host_le e) (h_group_id h) (h_owner_id h) (h_owner_sign_key h)
         (h_version h) (js_nonce js)) pk
    \<and> v_peer_id vote = m \<and> reg_join_state r = Some (count_vote vote js)
    \<and> (v_agrees vote \<longleftrightarrow> h_group_id h = h_group_id (reg_header reg) \<and> h_owner_id h = h_owner_id (reg_header reg)
          \<and> h_owner_sign_key h = h_owner_sign_key (reg_header reg))"
proof -
  obtain js where js: "reg_join_state reg = Some js" "js_state js = GR_JOIN_PROVISIONAL" "m \<noteq> js_inviter_peer_id js"
    "\<not> has_voted js m"
    using assms by (auto simp: gr_join_submit_peer_header_def split: option.splits if_splits)
  obtain peer r1 where p: "gr_peer_get e m reg = (Inr peer, r1)" "p_status peer = GR_PEER_ACTIVE" "p_sign_key peer = pk"
    "join_accept_vote e js h m pk sg r1 = (GR_OK, r)"
    using assms js by (auto simp: gr_join_submit_peer_header_def split: if_splits prod.splits sum.splits)
  obtain row where row: "ps_peer_get m (reg_db reg) = Some row" "peer = peer_read row"
    using p(1) by (auto simp: gr_peer_get_def db_fetch_def split: if_splits option.splits)
  have "row \<in> set (db_peers (reg_db reg))" "p_peer_id row = m" "p_status row = GR_PEER_ACTIVE" "p_sign_key row = pk"
    using row p(2,3) tbl_get_mem tbl_get_key by (fastforce simp: ps_peer_get_def peer_read_def)+
  moreover have "reg_header r1 = reg_header reg"
    using quietD [of reg r1] quiet_peer_get [of reg e m] p(1) by simp
  ultimately show ?thesis using js p(4)
    by (intro exI [of _ js] exI [of _ "join_vote (reg_header r1) m (now_of e r1) h"])
       (auto simp: join_accept_vote_def join_vote_def has_voted_def list_ex_iff headers_agree_on_authority_def
         split: if_splits)
qed

theorem vote_counts_only_from_members_witness:
  "\<exists>r js vote. gr_join_submit_peer_header demo_env demo_header [3] [3] [7] (demo_reg\<lparr>reg_join_state := Some demo_join\<rparr>) = (GR_OK, r)
     \<and> reg_join_state r = Some (count_vote vote js) \<and> v_peer_id vote = [3] \<and> v_agrees vote"
proof -
  let ?reg = "demo_reg\<lparr>reg_join_state := Some demo_join\<rparr>"
  have "fst (gr_join_submit_peer_header demo_env demo_header [3] [3] [7] ?reg) = GR_OK"
    by (simp add: gr_join_submit_peer_header_def demo_join_def join_draft_def has_voted_def gr_peer_get_def db_fetch_def
        demo_env_def ps_peer_get_def demo_reg_def fresh_handle_def demo_db_def demo_peer_def peer_read_def join_accept_vote_def)
  then obtain r where r: "gr_join_submit_peer_header demo_env demo_header [3] [3] [7] ?reg = (GR_OK, r)"
    by (cases "gr_join_submit_peer_header demo_env demo_header [3] [3] [7] ?reg") simp
  have h: "reg_header ?reg = demo_header" by (simp add: demo_reg_def)
  from vote_counts_only_from_members [OF r] r show ?thesis by (auto simp: h)
qed

text \<open>
  What one evaluation decides on an open join.  The first evaluation that sees a
  disagreeing vote asks the host's callback: it may override, and otherwise - or without a callback -
  the join fails.  Without disagreement the join is verified when the quorum is reached, and in every
  other case it stays open.  A decided join is never reconsidered by any background operation.
\<close>

theorem evaluation_decides:
  assumes "reg_join_state reg = Some js"
  shows "(js_state js = GR_JOIN_PROVISIONAL \<longrightarrow> gr_join_get_state (snd (gr_join_evaluate reg)) =
      (if 0 < js_disagree_count js \<and> \<not> js_dissent_callback_fired js
       then (if \<exists>cb. js_dissent_callback js = Some cb
                \<and> cb (join_callback_result (reg_header reg) (js\<lparr>js_dissent_callback_fired := True\<rparr>))
             then GR_JOIN_VERIFIED else GR_JOIN_FAILED)
       else if js_disagree_count js = 0 \<and> js_required_attestations js \<le> js_agree_count js
       then GR_JOIN_VERIFIED else GR_JOIN_PROVISIONAL))
    \<and> (js_state js \<noteq> GR_JOIN_PROVISIONAL \<longrightarrow> (\<exists>js'. reg_join_state (run_bg e b reg) = Some js'
           \<and> js_state js' = js_state js \<and> js_votes js' = js_votes js))"
  using assms settled_state_kept [OF assms, of e b]
  by (auto simp: gr_join_evaluate_def gr_join_get_state_def Let_def join_decide_def split: option.splits)

theorem evaluation_decides_witness:
  "gr_join_get_state (snd (gr_join_evaluate (demo_reg\<lparr>reg_join_state :=
     Some (count_vote (demo_vote 3 False) demo_join)\<rparr>))) = GR_JOIN_FAILED"
proof -
  let ?js = "count_vote (demo_vote 3 False) demo_join"
  have "js_state ?js = GR_JOIN_PROVISIONAL" "0 < js_disagree_count ?js" "\<not> js_dissent_callback_fired ?js"
    "js_dissent_callback ?js = None"
    by (simp_all add: count_vote_def demo_vote_def demo_join_def join_draft_def)
  with evaluation_decides [of "demo_reg\<lparr>reg_join_state := Some ?js\<rparr>" ?js] show ?thesis by simp
qed

end
