(* ===== verification/Blocklist_Safety.thy ===== *)
theory Blocklist_Safety imports Demo
begin

text \<open>
  The IP blocklist (\<open>blocklist.c\<close>): the threshold, the expiry, and that neither touches the other
  addresses.
\<close>

definition db_answers :: "yumi_env \<Rightarrow> bool" where
  "db_answers e \<longleftrightarrow> (\<forall>n. db_ok e DbStmt n)"

definition fail_step :: "yumi_env \<Rightarrow> bytes \<Rightarrow> i32 \<Rightarrow> gr_registrar \<Rightarrow> gr_registrar" where
  "fail_step e ip mx reg = snd (gr_blocklist_record_fail e (Some ip) mx reg)"

lemma block_get_upsert:
  "ps_block_upsert row d = Some (n, d') \<Longrightarrow>
   ps_block_get a d' = (if a = b_ip row then Some row else ps_block_get a d)"
  by (auto simp: ps_block_upsert_def ps_block_get_def tbl_get_replace)

lemma block_get_delete:
  "ps_block_delete ip d = Some (n, d') \<Longrightarrow> ps_block_get a d' = (if a = ip then None else ps_block_get a d)"
  by (auto simp: ps_block_delete_def ps_block_get_def sql_delete_def tbl_get_delete_key)

text \<open>One failure: a blocked row stays; otherwise the count goes up and decides.\<close>

lemma fail_step_row:
  assumes "db_answers e"
  shows "ps_block_get a (reg_db (fail_step e ip mx reg)) =
    (if a = ip \<and> \<not> (case ps_block_get ip (reg_db reg) of None \<Rightarrow> False | Some row \<Rightarrow> b_blocked row)
     then Some (block_row_next ip ((case ps_block_get ip (reg_db reg) of None \<Rightarrow> 0 | Some row \<Rightarrow> b_fail_count row) + 1)
                  mx (now_ms e reg))
     else ps_block_get a (reg_db reg))"
proof -
  have ok: "db_ok e DbStmt n" for n using assms by (simp add: db_answers_def)
  let ?row = "ps_block_get ip (reg_db reg)"
  let ?next = "block_row_next ip ((case ?row of None \<Rightarrow> 0 | Some row \<Rightarrow> b_fail_count row) + 1) mx (now_ms e reg)"
  obtain n d where up: "ps_block_upsert ?next (reg_db reg) = Some (n, d)" by (simp add: ps_block_upsert_def)
  have ip: "b_ip ?next = ip" by (simp add: block_row_next_def Let_def)
  show ?thesis using up block_get_upsert [OF up, of a] ip
    by (cases "a = ip") (simp_all add: fail_step_def gr_blocklist_record_fail_def db_query_def db_exec_def ok Let_def split: option.splits)
qed

lemma sint_small_succ: "0 \<le> sint (c :: i32) \<Longrightarrow> sint c < sint (m :: i32) \<Longrightarrow> sint (c + 1) = sint c + 1"
proof -
  assume a: "0 \<le> sint c" "sint c < sint (m :: i32)"
  have "sint m < 2 ^ 31" using sint_lt [of m] by simp
  then have "- (2 ^ 31) \<le> sint c + 1 \<and> sint c + 1 < 2 ^ 31" using a by linarith
  then show ?thesis by (simp add: signed_take_bit_int_eq_self sint_word_ariths(1))
qed

text \<open>
  A run of failures of one address: the count stops at the limit, and the address is blocked exactly
  from the failure that reaches it.
\<close>

lemma fail_run:
  assumes ans: "db_answers e" and fresh: "ps_block_get ip (reg_db reg) = None" and mx: "0 < sint mx"
  shows "\<exists>row. ps_block_get ip (reg_db ((fail_step e ip mx ^^ Suc k) reg)) = Some row
    \<and> sint (b_fail_count row) = min (int (Suc k)) (sint mx) \<and> (b_blocked row \<longleftrightarrow> sint mx \<le> int (Suc k))"
proof (induction k)
  case 0
  show ?case using mx by (auto simp: fail_step_row [OF ans] fresh block_row_next_def Let_def)
next
  case (Suc k)
  let ?r = "(fail_step e ip mx ^^ Suc k) reg"
  from Suc obtain row where row: "ps_block_get ip (reg_db ?r) = Some row"
    "sint (b_fail_count row) = min (int (Suc k)) (sint mx)" "b_blocked row \<longleftrightarrow> sint mx \<le> int (Suc k)" by blast
  have step: "(fail_step e ip mx ^^ Suc (Suc k)) reg = fail_step e ip mx ?r" by simp
  show ?case
  proof (cases "b_blocked row")
    case True
    then show ?thesis unfolding step fail_step_row [OF ans] using row by auto
  next
    case False
    have "sint (b_fail_count row + 1) = int (Suc k) + 1"
      using sint_small_succ [of "b_fail_count row" mx] row(2,3) False by auto
    then show ?thesis unfolding step fail_step_row [OF ans] using row False
      by (auto simp: block_row_next_def Let_def)
  qed
qed

lemma fail_run_others:
  assumes "db_answers e" and "a \<noteq> ip"
  shows "ps_block_get a (reg_db ((fail_step e ip mx ^^ k) reg)) = ps_block_get a (reg_db reg)"
  using assms(2) by (induction k) (simp_all add: fail_step_row [OF assms(1)])

lemma check_result:
  assumes ans: "db_answers e"
  shows "fst (gr_blocklist_check e (Some ip) dur reg) = Inr (case ps_block_get ip (reg_db reg) of
      None \<Rightarrow> False
    | Some row \<Rightarrow> b_blocked row \<and> sint (now_ms e (tick reg) - b_blocked_at row) < sint dur)"
    and "ps_block_get a (reg_db (snd (gr_blocklist_check e (Some ip) dur reg))) =
      (case ps_block_get ip (reg_db reg) of
         None \<Rightarrow> ps_block_get a (reg_db reg)
       | Some row \<Rightarrow> if a = ip \<and> b_blocked row \<and> sint dur \<le> sint (now_ms e (tick reg) - b_blocked_at row)
                    then None else ps_block_get a (reg_db reg))"
proof -
  have ok: "db_ok e DbStmt n" for n using ans by (simp add: db_answers_def)
  show "fst (gr_blocklist_check e (Some ip) dur reg) = Inr (case ps_block_get ip (reg_db reg) of
      None \<Rightarrow> False
    | Some row \<Rightarrow> b_blocked row \<and> sint (now_ms e (tick reg) - b_blocked_at row) < sint dur)"
    by (simp add: gr_blocklist_check_def db_query_def ok split: option.splits)
  obtain n d where del: "ps_block_delete ip (reg_db reg) = Some (n, d)" by (simp add: ps_block_delete_def sql_delete_def)
  show "ps_block_get a (reg_db (snd (gr_blocklist_check e (Some ip) dur reg))) =
      (case ps_block_get ip (reg_db reg) of
         None \<Rightarrow> ps_block_get a (reg_db reg)
       | Some row \<Rightarrow> if a = ip \<and> b_blocked row \<and> sint dur \<le> sint (now_ms e (tick reg) - b_blocked_at row)
                    then None else ps_block_get a (reg_db reg))"
    using block_get_delete [OF del, of a] del
    by (cases "a = ip") (simp_all add: gr_blocklist_check_def db_query_def db_exec_def ok split: option.splits)
qed

section \<open>Properties\<close>

text \<open>
  C20. Functional.  Failed attempts of one address that starts clean: after k+1 of them the stored
  count is k+1 but never more than the limit, the address is blocked exactly from the attempt that
  reaches the limit on, and the rows of all other addresses are what they were.
\<close>

theorem failures_block_at_limit:
  assumes "db_answers e" and "ps_block_get ip (reg_db reg) = None" and "0 < sint mx"
  shows "(\<exists>row. ps_block_get ip (reg_db ((fail_step e ip mx ^^ Suc k) reg)) = Some row
      \<and> sint (b_fail_count row) = min (int (Suc k)) (sint mx) \<and> (b_blocked row \<longleftrightarrow> sint mx \<le> int (Suc k)))
    \<and> (\<forall>a. a \<noteq> ip \<longrightarrow> ps_block_get a (reg_db ((fail_step e ip mx ^^ Suc k) reg)) = ps_block_get a (reg_db reg))"
  using fail_run [OF assms] fail_run_others [OF assms(1)] by blast

lemma demo_answers: "db_answers demo_env"
  by (simp add: db_answers_def demo_env_def)

theorem failures_block_at_limit_witness:
  "\<exists>row. ps_block_get [1] (reg_db ((fail_step demo_env [1] 3 ^^ Suc 2) demo_reg)) = Some row
     \<and> b_blocked row \<and> sint (b_fail_count row) = 3"
proof -
  have "ps_block_get [1] (reg_db demo_reg) = None"
    by (simp add: ps_block_get_def demo_reg_def fresh_handle_def demo_db_def empty_db_def)
  moreover have "0 < sint (3 :: i32)" "sint (3 :: i32) = 3" by simp_all
  ultimately show ?thesis using failures_block_at_limit [OF demo_answers, of "[1]" demo_reg 3 2] by auto
qed

text \<open>
  The check answers yes exactly while the address is blocked and the block is younger
  than the given duration; a block that has run out is deleted by the check, everything else is kept.
\<close>

theorem block_runs_out:
  assumes "db_answers e"
  shows "fst (gr_blocklist_check e (Some ip) dur reg) = Inr (case ps_block_get ip (reg_db reg) of
      None \<Rightarrow> False
    | Some row \<Rightarrow> b_blocked row \<and> sint (now_ms e (tick reg) - b_blocked_at row) < sint dur)
    \<and> ps_block_get a (reg_db (snd (gr_blocklist_check e (Some ip) dur reg))) =
      (case ps_block_get ip (reg_db reg) of
         None \<Rightarrow> ps_block_get a (reg_db reg)
       | Some row \<Rightarrow> if a = ip \<and> b_blocked row \<and> sint dur \<le> sint (now_ms e (tick reg) - b_blocked_at row)
                    then None else ps_block_get a (reg_db reg))"
  using check_result [OF assms] by blast

theorem block_runs_out_witness:
  "let reg = demo_reg\<lparr>reg_db := demo_db\<lparr>db_blocklist := [\<lparr>b_ip = [1], b_fail_count = 3, b_blocked = True, b_blocked_at = 0,
       b_last_attempt = 0\<rparr>]\<rparr>\<rparr>
   in fst (gr_blocklist_check demo_env (Some [1]) 5000 reg) = Inr True
      \<and> ps_block_get [1] (reg_db (snd (gr_blocklist_check demo_env (Some [1]) 1000 reg))) = None"
  unfolding Let_def block_runs_out [OF demo_answers, THEN conjunct1] block_runs_out [OF demo_answers, THEN conjunct2]
  by (simp add: ps_block_get_def demo_reg_def fresh_handle_def now_ms_def gr_timestamp_ns_def demo_env_def i64_div_def tick_def)

end
