(* ===== verification/Invite_Safety.thy ===== *)
theory Invite_Safety imports Demo Crypto_Safety
begin

text \<open>
  Invite tickets (\<open>invite.c\<close>): what the inviter writes is what the invited reads, which peers a ticket
  names, and that a ticket is redeemed once.
\<close>

section \<open>Lists on the wire\<close>

lemma emits_each:
  assumes "\<And>v. emits ra (wr v) (f v)"
  shows "emits ra (ser_each wr vs) (concat (map f vs))"
proof (induction vs)
  case Nil
  have "ser_each wr [] = ser_seq []" by (rule ext) simp
  then show ?case using emits_nil by (simp only: list.map(1) concat.simps(1))
next
  case (Cons v vs)
  have "emits ra (ser_each wr (v # vs)) (f v @ concat (map f vs))"
    by (rule emits_then [OF assms Cons.IH]) (simp add: wthen_def)
  then show ?case by (simp del: ser_each.simps)
qed

lemma reads_each:
  assumes "\<And>v. v \<in> set vs \<Longrightarrow> reads rd (f v) (g v)"
  shows "reads (de_each (length vs) rd) (concat (map f vs)) (map g vs)"
  using assms
proof (induction vs)
  case Nil
  have "de_each 0 rd = rreturn []" by (rule ext) simp
  then show ?case by (simp add: reads_return)
next
  case (Cons v vs)
  have m: "de_each (Suc (length vs)) rd = rbind rd (\<lambda>v. rbind (de_each (length vs) rd) (\<lambda>vs. rreturn (v # vs)))"
    by (rule ext) simp
  have tail: "reads (de_each (length vs) rd) (concat (map f vs)) (map g vs)" using Cons by simp
  have "reads (rbind rd (\<lambda>v. rbind (de_each (length vs) rd) (\<lambda>vs. rreturn (v # vs)))) (f v @ concat (map f vs) @ []) (g v # map g vs)"
  proof (rule reads_bind [where v = "g v" and f = "\<lambda>v. rbind (de_each (length vs) rd) (\<lambda>vs. rreturn (v # vs))"])
    show "reads rd (f v) (g v)" using Cons.prems by simp
    show "reads (rbind (de_each (length vs) rd) (\<lambda>vs. rreturn (g v # vs))) (concat (map f vs) @ []) (g v # map g vs)"
      by (rule reads_bind [OF tail reads_return])
  qed
  then show ?case unfolding list.size add_0_right add_Suc_right m by simp
qed

lemma emits_wthen: "emits ra w1 d1 \<Longrightarrow> emits ra w2 d2 \<Longrightarrow> emits ra (wthen w1 w2) (d1 @ d2)"
  by (rule emits_then) (auto simp: wthen_def)

lemma length_concat_bound: "(\<And>v. length (f v) \<le> k) \<Longrightarrow> length (concat (map f vs)) \<le> k * length vs"
  by (induction vs) (simp_all add: add_mono)

section \<open>The ticket\<close>

definition endpoint_wire :: "bytes \<Rightarrow> bytes \<Rightarrow> u16 \<Rightarrow> bytes \<Rightarrow> bytes" where
  "endpoint_wire i ip port key = i @ str_wire (c_string (take GR_MAX_IP_LEN ip)) @ le_bytes 2 port @ key @ []"

definition ticket_head_wire :: "gr_header_t \<Rightarrow> bytes \<Rightarrow> gr_identity_t \<Rightarrow> i64 \<Rightarrow> bytes" where
  "ticket_head_wire hdr token inviter expires = cstr ''GRINV'' @ le_bytes 4 (GR_INVITE_VERSION :: u32) @ h_group_id hdr
     @ str_wire (c_string (take GR_MAX_NAME_LEN (h_group_name hdr))) @ le_bytes 4 (h_group_type hdr)
     @ h_owner_sign_key hdr @ h_hash hdr @ token @ id_public_key inviter @ id_kem_pk inviter @ le_bytes 8 expires @ []"

definition boot_wire :: "gr_bootstrap_peer_t \<Rightarrow> bytes" where
  "boot_wire b = endpoint_wire (bp_peer_id b) (bp_ip b) (bp_port b) (bp_sign_key b)"

definition server_wire :: "gr_server_t \<Rightarrow> bytes" where
  "server_wire s = endpoint_wire (s_id_hash s) (s_ip s) (s_port s) (s_sign_key s)"

definition ticket_tail_wire :: "gr_bootstrap_peer_t list \<Rightarrow> u32 \<Rightarrow> gr_server_t list \<Rightarrow> bytes" where
  "ticket_tail_wire boot sc servers = (le_bytes 4 (of_nat (length boot) :: u32) @ []) @ concat (map boot_wire boot)
     @ (le_bytes 4 sc @ []) @ concat (map server_wire servers)"

lemma emits_ticket:
  "emits ra (ser_ticket h ra hdr token inviter expires boot sc servers)
     (ticket_head_wire hdr token inviter expires @ ticket_tail_wire boot sc servers)"
proof -
  have b: "emits ra (ser_bootstrap h ra b) (boot_wire b)" for b
    unfolding ser_bootstrap_def [abs_def] boot_wire_def endpoint_wire_def
    by (intro emits_Cons emits_bytes emits_str emits_u16 emits_nil)
  have s: "emits ra (ser_signaling h ra s) (server_wire s)" for s
    unfolding ser_signaling_def [abs_def] server_wire_def endpoint_wire_def
    by (intro emits_Cons emits_bytes emits_str emits_u16 emits_nil)
  have hd: "emits ra (ser_ticket_head h ra hdr token inviter expires) (ticket_head_wire hdr token inviter expires)"
    unfolding ser_ticket_head_def [abs_def] ticket_head_wire_def
    by (intro emits_Cons emits_bytes emits_str emits_u32 emits_i64 emits_nil)
  show ?thesis unfolding ser_ticket_def [abs_def] ticket_tail_wire_def
    by (intro emits_wthen hd emits_each b s emits_Cons emits_u32 emits_nil)
qed

definition endpoint_ok :: "nat \<Rightarrow> bytes \<Rightarrow> bytes \<Rightarrow> bytes \<Rightarrow> bool" where
  "endpoint_ok n i ip key \<longleftrightarrow> length i = n \<and> wf_cstr GR_MAX_IP_LEN ip \<and> length key = GR_PUBLIC_KEY_LEN"

lemma reads_wf_str: "wf_cstr n s \<Longrightarrow> n \<le> 2 ^ 32 \<Longrightarrow> reads (gr_read_str h n) (str_wire (c_string (take n s))) s"
  using wf_cstr_c_string [of n s] reads_str [of s n h] by (simp add: wf_cstr_def)

lemma reads_boot:
  assumes "endpoint_ok 32 (bp_peer_id b) (bp_ip b) (bp_sign_key b)"
  shows "reads (de_bootstrap h) (boot_wire b) b"
proof -
  have "reads (de_bootstrap h) (boot_wire b)
      \<lparr>bp_peer_id = bp_peer_id b, bp_ip = bp_ip b, bp_port = bp_port b, bp_sign_key = bp_sign_key b\<rparr>"
    unfolding de_bootstrap_def boot_wire_def endpoint_wire_def using assms
    by (intro reads_bind [OF reads_bytes] reads_bind [OF reads_wf_str] reads_bind [OF reads_u16] reads_return)
       (simp_all add: endpoint_ok_def)
  then show ?thesis by (cases b) simp
qed

lemma reads_server:
  assumes "endpoint_ok 128 (s_id_hash s) (s_ip s) (s_sign_key s)"
  shows "reads (de_signaling h) (server_wire s) ()"
  unfolding de_signaling_def server_wire_def endpoint_wire_def using assms
  by (intro reads_bind [OF reads_bytes] reads_bind [OF reads_wf_str] reads_bind [OF reads_u16] reads_return)
     (simp_all add: endpoint_ok_def)

definition ticket_of :: "gr_header_t \<Rightarrow> bytes \<Rightarrow> gr_identity_t \<Rightarrow> i64 \<Rightarrow> gr_invite_ticket_t" where
  "ticket_of hdr token inviter expires =
     \<lparr>t_group_id = h_group_id hdr, t_group_name = h_group_name hdr, t_group_type = h_group_type hdr,
      t_owner_sign_key = h_owner_sign_key hdr, t_registrar_hash = h_hash hdr, t_verification_token = token,
      t_inviter_sign_pk = id_public_key inviter, t_inviter_kem_pk = id_kem_pk inviter, t_expires_at = expires,
      t_bootstrap_peers = [], t_bootstrap_count = 0, t_signaling_count = 0\<rparr>"

definition ticket_parts_ok :: "gr_header_t \<Rightarrow> bytes \<Rightarrow> gr_identity_t \<Rightarrow> bool" where
  "ticket_parts_ok hdr token inviter \<longleftrightarrow> wf_header hdr \<and> length token = GR_HASH_LEN
     \<and> length (id_public_key inviter) = GR_PUBLIC_KEY_LEN \<and> length (id_kem_pk inviter) = GR_KEM_PUBLIC_KEY_LEN"

lemma reads_ticket_head:
  assumes "ticket_parts_ok hdr token inviter"
  shows "reads (de_ticket_head h) (ticket_head_wire hdr token inviter expires) (ticket_of hdr token inviter expires)"
proof -
  have magic: "reads (gr_read_bytes 5) (cstr ''GRINV'') (cstr ''GRINV'')"
    by (rule reads_bytes) (simp add: cstr_def)
  show ?thesis
    unfolding de_ticket_head_def ticket_head_wire_def ticket_of_def
    apply (rule reads_bind [OF magic], simp only: simp_thms if_False)
    apply (rule reads_bind [OF reads_u32], simp only: order.irrefl if_False)
    apply (intro reads_bind [OF reads_bytes] reads_bind [OF reads_wf_str] reads_bind [OF reads_u32]
        reads_bind [OF reads_i64] reads_return)
    using assms by (simp_all add: ticket_parts_ok_def wf_header_def)
qed

lemma reads_ticket_tail:
  assumes "\<And>b. b \<in> set boot \<Longrightarrow> endpoint_ok 32 (bp_peer_id b) (bp_ip b) (bp_sign_key b)"
    and "\<And>s. s \<in> set servers \<Longrightarrow> endpoint_ok 128 (s_id_hash s) (s_ip s) (s_sign_key s)"
    and "length boot \<le> 5" and "unat sc = length servers"
  shows "reads (de_ticket_tail h t) (ticket_tail_wire boot sc servers)
    (t\<lparr>t_bootstrap_peers := boot, t_bootstrap_count := of_nat (length boot), t_signaling_count := sc\<rparr>)"
proof -
  have n: "unat (of_nat (length boot) :: u32) = length boot" using assms(3) by (simp add: unat_of_nat)
  then have few: "\<not> of_nat GR_INVITE_MAX_BOOTSTRAP < (of_nat (length boot) :: u32)" using assms(3) by (simp add: word_less_nat_alt)
  have b: "reads (de_each (length boot) (de_bootstrap h)) (concat (map boot_wire boot)) boot"
    using reads_each [of boot "de_bootstrap h" boot_wire "\<lambda>b. b"] reads_boot assms(1) by simp
  have s: "reads (de_each (unat sc) (de_signaling h)) (concat (map server_wire servers)) (map (\<lambda>_. ()) servers)"
    unfolding assms(4) by (rule reads_each) (rule reads_server [OF assms(2)])
  have "reads (rbind (de_each (unat sc) (de_signaling h)) (\<lambda>_. rreturn
      (t\<lparr>t_bootstrap_peers := boot, t_bootstrap_count := of_nat (length boot), t_signaling_count := sc\<rparr>)))
      (concat (map server_wire servers) @ [])
      (t\<lparr>t_bootstrap_peers := boot, t_bootstrap_count := of_nat (length boot), t_signaling_count := sc\<rparr>)"
    by (rule reads_bind [OF s reads_return])
  note tail = this [unfolded append_Nil2]
  show ?thesis unfolding de_ticket_tail_def ticket_tail_wire_def append_Nil2
    by (rule reads_bind [OF reads_u32]) (simp only: few if_False n, rule reads_bind [OF b], rule reads_bind [OF reads_u32], rule tail)
qed

lemma length_ticket:
  assumes "ticket_parts_ok hdr token inviter" and "length boot \<le> 5" and "length servers < 2 ^ 31"
    and "\<And>b. b \<in> set boot \<Longrightarrow> endpoint_ok 32 (bp_peer_id b) (bp_ip b) (bp_sign_key b)"
    and "\<And>s. s \<in> set servers \<Longrightarrow> endpoint_ok 128 (s_id_hash s) (s_ip s) (s_sign_key s)"
  shows "length (ticket_head_wire hdr token inviter expires @ ticket_tail_wire boot sc servers) < 2 ^ 61"
proof -
  have str: "length (c_string (take n s)) \<le> n" for n s
    using length_takeWhile_le [of "\<lambda>b. b \<noteq> 0" "take n s"] by (simp add: c_string_def)
  have bound: "length (concat (map f vs)) \<le> k * length vs" if "\<And>v. v \<in> set vs \<Longrightarrow> length (f v) \<le> k"
    for k vs and f :: "'x \<Rightarrow> bytes"
    using that by (induction vs) (simp_all add: add_mono)
  have ep: "length (endpoint_wire i ip port key) \<le> n + 2644" if "endpoint_ok n i ip key" for n i ip port key
    using that str [of 46 ip] by (simp add: endpoint_wire_def endpoint_ok_def)
  have "length (concat (map boot_wire boot)) \<le> 2676 * length boot"
    by (rule bound) (use ep [OF assms(4)] in \<open>simp add: boot_wire_def\<close>)
  moreover have "length (concat (map server_wire servers)) \<le> 2772 * length servers"
    by (rule bound) (use ep [OF assms(5)] in \<open>simp add: server_wire_def\<close>)
  moreover have "length (ticket_head_wire hdr token inviter expires) \<le> 10000"
    using assms(1) str [of 128 "h_group_name hdr"]
    by (simp add: ticket_head_wire_def ticket_parts_ok_def wf_header_def cstr_def)
  ultimately show ?thesis using assms(2,3) by (simp add: ticket_tail_wire_def)
qed

section \<open>Which peers and servers a ticket names\<close>

lemma select_boot:
  assumes "select_bootstrap_peers e inviter n reg = (Inr boot, r)"
  shows "length boot \<le> n \<and> (\<forall>b\<in>set boot. \<exists>p\<in>set (db_peers (reg_db reg)). p_status p = GR_PEER_ACTIVE
      \<and> bp_peer_id b = p_peer_id p \<and> p_peer_id p \<noteq> inviter \<and> p_peer_id p \<noteq> h_owner_id (reg_header reg)
      \<and> bp_ip b = take 45 (db_str GR_MAX_IP_LEN (p_ip p)) \<and> bp_ip b \<noteq> [] \<and> bp_sign_key b = p_sign_key p)"
proof -
  obtain k r1 where c: "gr_peer_count e GR_PEER_ACTIVE reg = (Inr k, r1)"
    using assms by (cases "gr_peer_count e GR_PEER_ACTIVE reg") (auto simp: select_bootstrap_peers_def q_bind_def split: sum.splits)
  show ?thesis
  proof (cases "k = 0")
    case True
    then show ?thesis using assms by (simp add: select_bootstrap_peers_def q_bind_def c)
  next
    case False
    obtain rows r2 where l: "gr_peer_list e k GR_PEER_ACTIVE (tick r1) = (Inr rows, r2)"
      using assms False by (cases "gr_peer_list e k GR_PEER_ACTIVE (tick r1)")
        (auto simp: select_bootstrap_peers_def q_bind_def c split: sum.splits if_splits)
    let ?c = "filter (bootstrap_ok r2 inviter) rows"
    from assms False have boot: "boot = map bootstrap_of (take n (fst (shuffle e (length ?c) ?c (tick r2))))"
      by (auto simp: select_bootstrap_peers_def q_bind_def c l Let_def split: if_splits prod.splits)
    have "mset (fst (shuffle e (length ?c) ?c (tick r2))) = mset ?c" using shuffle_spec [of "length ?c" ?c] by simp
    then have sub: "set (take n (fst (shuffle e (length ?c) ?c (tick r2)))) \<subseteq> set ?c"
      using set_take_subset by (metis set_mset_mset)
    have q: "quiet reg r1" "quiet (tick r1) r2"
      using quiet_peer_count [of reg e GR_PEER_ACTIVE] quiet_peer_list [of "tick r1" e k GR_PEER_ACTIVE] c l by simp_all
    then have h: "reg_header r2 = reg_header reg" "reg_db r1 = reg_db reg" by (simp_all add: quietD)
    have rows: "\<exists>p\<in>set (db_peers (reg_db reg)). p_status p = GR_PEER_ACTIVE \<and> x = peer_read p" if "x \<in> set rows" for x
      using l that in_set_takeD h(2) by (fastforce simp: gr_peer_list_def db_query_def ps_peer_list_status_def sql_limit_def
          split: if_splits option.splits)
    have "\<exists>p\<in>set (db_peers (reg_db reg)). p_status p = GR_PEER_ACTIVE
      \<and> bp_peer_id b = p_peer_id p \<and> p_peer_id p \<noteq> inviter \<and> p_peer_id p \<noteq> h_owner_id (reg_header reg)
      \<and> bp_ip b = take 45 (db_str GR_MAX_IP_LEN (p_ip p)) \<and> bp_ip b \<noteq> [] \<and> bp_sign_key b = p_sign_key p"
      if b: "b \<in> set boot" for b
    proof -
      obtain x where "x \<in> set (take n (fst (shuffle e (length ?c) ?c (tick r2))))" "b = bootstrap_of x"
        using b unfolding boot by auto
      with sub have x: "x \<in> set rows" "bootstrap_ok r2 inviter x" by auto
      obtain p where p: "p \<in> set (db_peers (reg_db reg))" "p_status p = GR_PEER_ACTIVE" "x = peer_read p"
        using rows [OF x(1)] by blast
      then show ?thesis using x(2) \<open>b = bootstrap_of x\<close> h(1)
        by (intro bexI [of _ p]) (auto simp: bootstrap_of_def bootstrap_ok_def gr_is_owner_def peer_read_def)
    qed
    moreover have "length boot \<le> n" by (simp add: boot)
    ultimately show ?thesis by blast
  qed
qed

lemma servers_listed:
  assumes "invite_servers e reg = ((sc, servers), r)" and "resourceful e" and "length (db_servers (reg_db reg)) < 2 ^ 31"
  shows "unat sc = length servers \<and> length servers < 2 ^ 31 \<and> set servers \<subseteq> server_read ` set (db_servers (reg_db reg))"
proof -
  let ?rows = "filter (\<lambda>s. s_type s = GR_SERVER_SIGNALING) (db_servers (reg_db reg))"
  have len: "length ?rows < 2 ^ 31" using assms(3) length_filter_le order_le_less_trans by blast
  then have n: "unat (of_nat (length ?rows) :: u32) = length ?rows" "sint (of_nat (length ?rows) :: i32) = int (length ?rows)"
    using sint_of_nat_small_32 by (simp_all add: unat_of_nat)
  have cnt: "gr_server_count e GR_SERVER_SIGNALING reg = (Inr (of_nat (length ?rows)), tick reg)"
    using assms(2) by (simp add: gr_server_count_def db_query_def resourceful_def ps_server_count_def tbl_count_def)
  show ?thesis
  proof (cases "(of_nat (length ?rows) :: u32) = 0")
    case True
    then have "sc = 0" "servers = []" using assms(1) by (simp_all add: invite_servers_def cnt)
    then show ?thesis by simp
  next
    case False
    have "ps_server_list GR_SERVER_SIGNALING (of_nat (length ?rows)) (reg_db reg) = Some ?rows"
      by (simp add: ps_server_list_def sql_limit_def n(2))
    then have "sc = of_nat (length ?rows) \<and> servers = map server_read ?rows"
      using assms(1,2) False by (simp add: invite_servers_def cnt resourceful_def gr_server_list_def db_query_def Let_def)
    then show ?thesis using n(1) len by auto
  qed
qed

section \<open>Creating a ticket\<close>

text \<open>
  The setting of the round trip: engine, memory, randomness and signatures work, a fresh token is
  drawn, header, keys and rows have their declared sizes.
\<close>

definition invite_setting :: "yumi_env \<Rightarrow> gr_identity_t \<Rightarrow> gr_registrar \<Rightarrow> bool" where
  "invite_setting e s reg \<longleftrightarrow> smooth e \<and> resourceful e \<and> (\<forall>n. realloc_ok e n)
     \<and> (\<forall>n k. \<exists>bs. randombytes e n k = Some bs \<and> length bs = k)
     \<and> (\<forall>n bs. randombytes e n GR_HASH_LEN = Some bs \<longrightarrow> bs \<notin> i_verification_token ` set (db_invites (reg_db reg)))
     \<and> (\<forall>n m sig. mldsa_sign e n (id_secret_key s) m = Some sig \<longrightarrow>
          length sig = GR_SIGN_LEN \<and> mldsa_verify e sig m (id_public_key s))
     \<and> wf_header (reg_header reg) \<and> length (id_public_key s) = GR_PUBLIC_KEY_LEN
     \<and> length (id_kem_pk s) = GR_KEM_PUBLIC_KEY_LEN
     \<and> (\<forall>p\<in>set (db_peers (reg_db reg)). wf_peer p) \<and> length (db_peers (reg_db reg)) < 2 ^ 31
     \<and> (\<forall>v\<in>set (db_servers (reg_db reg)). wf_server v) \<and> length (db_servers (reg_db reg)) < 2 ^ 31"

lemma select_succeeds:
  assumes "resourceful e" and "length (db_peers (reg_db reg)) < 2 ^ 31"
  shows "\<exists>boot r. select_bootstrap_peers e inviter n reg = (Inr boot, r)"
proof -
  have ok: "db_ok e DbStmt k" "malloc_ok e k" for k using assms(1) by (simp_all add: resourceful_def)
  let ?n = "tbl_count (\<lambda>p. p_status p = GR_PEER_ACTIVE) (db_peers (reg_db reg))"
  have "?n < 2 ^ 31" using assms(2) length_filter_le order_le_less_trans unfolding tbl_count_def by blast
  then have "sint (of_nat ?n :: i32) = int ?n" by (rule sint_of_nat_small_32)
  then show ?thesis
    by (simp add: select_bootstrap_peers_def q_bind_def gr_peer_count_def gr_peer_list_def db_query_def ok Let_def
        ps_peer_count_status_def ps_peer_list_status_def sql_limit_def split: prod.splits)
qed

definition boot_ok :: "gr_registrar \<Rightarrow> bytes \<Rightarrow> gr_bootstrap_peer_t list \<Rightarrow> bool" where
  "boot_ok reg inviter boot \<longleftrightarrow> length boot \<le> 5 \<and> (\<forall>b\<in>set boot. \<exists>p\<in>set (db_peers (reg_db reg)).
     p_status p = GR_PEER_ACTIVE \<and> bp_peer_id b = p_peer_id p \<and> bp_ip b = p_ip p \<and> p_ip p \<noteq> []
     \<and> bp_sign_key b = p_sign_key p \<and> p_peer_id p \<noteq> inviter \<and> p_peer_id p \<noteq> h_owner_id (reg_header reg))"

lemma select_boot_ok:
  assumes "select_bootstrap_peers e inviter GR_INVITE_MAX_BOOTSTRAP r = (Inr boot, r')"
    and "db_peers (reg_db r) = db_peers (reg_db reg)" "reg_header r = reg_header reg"
    and wf: "\<forall>p\<in>set (db_peers (reg_db reg)). wf_peer p"
  shows "boot_ok reg inviter boot \<and> (\<forall>b\<in>set boot. endpoint_ok 32 (bp_peer_id b) (bp_ip b) (bp_sign_key b))"
proof -
  note sel = select_boot [OF assms(1), unfolded assms(2,3)]
  have ip: "take 45 (db_str GR_MAX_IP_LEN (p_ip p)) = p_ip p" if "wf_peer p" for p
    using that by (auto simp: wf_peer_def wf_cstr_def db_str_def)
  have row: "\<exists>p\<in>set (db_peers (reg_db reg)). wf_peer p \<and> p_status p = GR_PEER_ACTIVE \<and> bp_peer_id b = p_peer_id p
      \<and> bp_ip b = p_ip p \<and> p_ip p \<noteq> [] \<and> bp_sign_key b = p_sign_key p \<and> p_peer_id p \<noteq> inviter
      \<and> p_peer_id p \<noteq> h_owner_id (reg_header reg)" if "b \<in> set boot" for b
    using sel that wf ip by fastforce
  have "endpoint_ok 32 (bp_peer_id b) (bp_ip b) (bp_sign_key b)" if "b \<in> set boot" for b
    using row [OF that] by (auto simp: endpoint_ok_def wf_peer_def)
  moreover have "boot_ok reg inviter boot" unfolding boot_ok_def using row sel by blast
  ultimately show ?thesis by blast
qed

definition full_ticket :: "gr_header_t \<Rightarrow> bytes \<Rightarrow> gr_identity_t \<Rightarrow> i64 \<Rightarrow> gr_bootstrap_peer_t list \<Rightarrow> u32 \<Rightarrow>
    gr_invite_ticket_t" where
  "full_ticket hdr token inviter expires boot sc = (ticket_of hdr token inviter expires)
     \<lparr>t_bootstrap_peers := boot, t_bootstrap_count := of_nat (length boot), t_signaling_count := sc\<rparr>"

text \<open>What a signed ticket parses to.\<close>

lemma parse_signed:
  assumes parts: "ticket_parts_ok hdr token inviter" and boot: "length boot \<le> 5" "unat sc = length servers"
      "\<And>b. b \<in> set boot \<Longrightarrow> endpoint_ok 32 (bp_peer_id b) (bp_ip b) (bp_sign_key b)"
      "\<And>v. v \<in> set servers \<Longrightarrow> endpoint_ok 128 (s_id_hash v) (s_ip v) (s_sign_key v)"
    and wire: "wire = ticket_head_wire hdr token inviter expires @ ticket_tail_wire boot sc servers"
    and sig: "length sig = GR_SIGN_LEN" "mldsa_verify e sig wire (id_public_key inviter)"
    and live: "\<not> (0 < sint expires \<and> sint expires \<le> sint now)"
  shows "gr_invite_parse e now (Some (wire @ sig)) = Inr (full_ticket hdr token inviter expires boot sc)"
proof -
  let ?h = "ticket_head_wire hdr token inviter expires" and ?t = "ticket_tail_wire boot sc servers"
  have 1: "de_ticket_head (host_le e) \<lparr>rd_data = wire @ sig, rd_pos = 0\<rparr> =
      (Some (ticket_of hdr token inviter expires), \<lparr>rd_data = wire @ sig, rd_pos = length ?h\<rparr>)"
    using reads_ticket_head [OF parts, of "host_le e" expires, unfolded reads_def, rule_format, of "[]" "?t @ sig"]
    by (simp add: wire)
  have 2: "de_ticket_tail (host_le e) t \<lparr>rd_data = wire @ sig, rd_pos = length ?h\<rparr> =
      (Some (t\<lparr>t_bootstrap_peers := boot, t_bootstrap_count := of_nat (length boot), t_signaling_count := sc\<rparr>),
       \<lparr>rd_data = wire @ sig, rd_pos = length wire\<rparr>)" for t
    using reads_ticket_tail [OF boot(3,4,1,2), of "host_le e" t, unfolded reads_def, rule_format, of ?h sig]
    by (simp add: wire)
  have "\<not> ticket_expired (ticket_of hdr token inviter expires) now"
    using live by (simp add: ticket_expired_def ticket_of_def)
  then show ?thesis using sig by (simp add: gr_invite_parse_def 1 2 full_ticket_def) (simp add: ticket_of_def)
qed

lemma blob_parses:
  assumes set: "invite_setting e s reg" and r: "reg_header r = reg_header reg" "db_servers (reg_db r) = db_servers (reg_db reg)"
    and token: "length token = GR_HASH_LEN" and boot: "length boot \<le> 5"
      "\<And>b. b \<in> set boot \<Longrightarrow> endpoint_ok 32 (bp_peer_id b) (bp_ip b) (bp_sign_key b)"
    and live: "\<not> (0 < sint expires \<and> sint expires \<le> sint now)"
  shows "\<exists>blob sc r'. invite_blob e s expires token boot r = (Inr blob, r')
    \<and> gr_invite_parse e now (Some blob) = Inr (full_ticket (reg_header reg) token s expires boot sc)"
proof -
  obtain sc servers r1 where v: "invite_servers e (tick r) = ((sc, servers), r1)"
    by (metis prod.exhaust)
  have h: "reg_header r1 = reg_header reg"
    using quietD(3) [of "tick r" r1] quiet_servers [of "tick r" e] v r(1) by simp
  have list: "unat sc = length servers" "length servers < 2 ^ 31" "set servers \<subseteq> server_read ` set (db_servers (reg_db reg))"
    using servers_listed [OF v] set r(2) by (simp_all add: invite_setting_def)
  have ep: "endpoint_ok 128 (s_id_hash v) (s_ip v) (s_sign_key v)" if "v \<in> set servers" for v
    using that list(3) set
    by (auto simp: invite_setting_def endpoint_ok_def server_read_def wf_server_def db_str_def wf_cstr_def)
  have parts: "ticket_parts_ok (reg_header reg) token s" using set token by (simp add: ticket_parts_ok_def invite_setting_def)
  let ?wire = "ticket_head_wire (reg_header reg) token s expires @ ticket_tail_wire boot sc servers"
  let ?b0 = "\<lparr>buf_data = Some [], buf_cap = 2048, buf_error = False\<rparr> :: gr_buf_t"
  have len: "length ?wire < 2 ^ 61" by (rule length_ticket [OF parts boot(1) list(2) boot(2) ep])
  have "buf_room ?b0 (length ?wire)" using len by (simp add: buf_room_def buf_inv_def buf_bytes_def)
  then obtain b where b: "ser_ticket (host_le e) (realloc_ok e) (reg_header reg) token s expires boot sc servers ?b0 = Some b"
      "emitted (realloc_ok e) ?wire ?b0 b"
    using emits_ticket unfolding emits_def by blast
  have ra: "\<forall>n. realloc_ok e n" using set by (simp add: invite_setting_def)
  have bytes: "\<not> buf_error b" "buf_bytes b = ?wire" "buf_inv b" "unat (buf_cap b) < 2 ^ 63"
    using b(2) ra by (simp_all add: emitted_def) (simp add: buf_bytes_def)
  have "mldsa_sign e (reg_calls r1) (id_secret_key s) ?wire \<noteq> None"
    using set by (simp only: invite_setting_def smooth_def) (elim conjE, simp)
  then obtain sig where sig: "mldsa_sign e (reg_calls r1) (id_secret_key s) ?wire = Some sig" by blast
  have ok: "length sig = GR_SIGN_LEN" "mldsa_verify e sig ?wire (id_public_key s)"
    using set sig by (auto simp: invite_setting_def)
  have "buf_room b (length sig)" using bytes len ok(1) by (simp add: buf_room_def)
  from gr_buf_write_spec [OF this, of "realloc_ok e"] ra bytes(1) obtain out where
    out: "gr_buf_write (realloc_ok e) sig b = Some (0, out)" "buf_bytes out = ?wire @ sig" using bytes(2) by auto
  have m: "malloc_ok e n" for n using set by (simp add: invite_setting_def resourceful_def)
  have "invite_blob e s expires token boot r = (Inr (?wire @ sig), tick r1)"
    by (simp add: invite_blob_def gr_buf_init_def m v h b(1) bytes(1) sig out bytes(2))
  moreover have "gr_invite_parse e now (Some (?wire @ sig)) = Inr (full_ticket (reg_header reg) token s expires boot sc)"
    by (rule parse_signed [OF parts boot(1) list(1) boot(2) ep refl ok live])
  ultimately show ?thesis by blast
qed

text \<open>A transaction whose body returns a value.\<close>

lemma txn_val_smooth:
  assumes sm: "smooth e" and idle: "idle reg" and body: "txn_body e (\<lambda>r. err_of (body r))"
    and ok: "\<And>r. in_txn (reg_db reg) (reg_header reg) r \<Longrightarrow> reg_db r = reg_db reg \<Longrightarrow> reg_header r = reg_header reg \<Longrightarrow>
      \<exists>v r1. body r = (Inr v, r1) \<and> P v"
  shows "\<exists>v r. with_txn_val e body reg = (Inr v, r) \<and> P v"
proof -
  note rel = smooth_reliable [OF sm]
  obtain r0 where r0: "gr_txn_begin e reg = (True, r0)" "in_txn (reg_db reg) (reg_header reg) r0"
      "reg_txn_depth r0 = 1" "reg_db r0 = reg_db reg" "reg_header r0 = reg_header reg"
    using begin_idle [OF rel idle] by blast
  obtain v r1 where b: "body r0 = (Inr v, r1)" "P v" using ok [OF r0(2,4,5)] by blast
  have "in_txn (reg_db reg) (reg_header reg) r1" "reg_txn_depth r1 = 1"
    using txn_bodyD [OF body rel r0(2)] b r0(3) by (simp_all add: txn_result_def)
  from commit_outer [OF this, of e] show ?thesis using sm b r0(1) by (simp add: with_txn_val_def smooth_def)
qed

lemma create_body_parses:
  assumes set: "invite_setting e s reg" and t: "in_txn d0 h0 r" and r: "reg_db r = reg_db reg" "reg_header r = reg_header reg"
    and token: "randombytes e n GR_HASH_LEN = Some token"
    and live: "\<not> (0 < sint expires \<and> sint expires \<le> sint now)"
  shows "\<exists>blob r1. invite_create_body e s expires created token r = (Inr blob, r1)
    \<and> (\<exists>boot sc. boot_ok reg (id_peer_id s) boot
         \<and> gr_invite_parse e now (Some blob) = Inr (full_ticket (reg_header reg) token s expires boot sc))"
proof -
  have sm: "smooth e" and ok: "db_ok e DbStmt k" and res: "resourceful e" for k
    using set by (simp_all add: invite_setting_def smooth_def)
  have len: "length token = GR_HASH_LEN" using set token unfolding invite_setting_def by (metis option.inject)
  let ?row = "invite_row token created expires s"
  let ?d = "(reg_db reg)\<lparr>db_invites := db_invites (reg_db reg) @ [?row]\<rparr>"
  have "token \<notin> i_verification_token ` set (db_invites (reg_db reg))"
    using set token unfolding invite_setting_def by blast
  then have "ps_invite_insert ?row (reg_db r) = Some (1, ?d)"
    by (simp add: ps_invite_insert_def sql_insert_def tbl_insert_def invite_row_def r)
  then have x: "db_exec e (ps_invite_insert ?row) r = (Some 1, (tick r)\<lparr>reg_db := ?d\<rparr>)"
    using ok by (simp add: db_exec_def)
  let ?r1 = "(tick r)\<lparr>reg_db := ?d\<rparr>"
  have "length (db_peers (reg_db ?r1)) < 2 ^ 31" using set by (simp add: invite_setting_def)
  from select_succeeds [OF res this] obtain boot r2 where
    b: "select_bootstrap_peers e (id_peer_id s) GR_INVITE_MAX_BOOTSTRAP ?r1 = (Inr boot, r2)" by blast
  have wf: "\<forall>p\<in>set (db_peers (reg_db reg)). wf_peer p" using set by (simp add: invite_setting_def)
  have boot: "boot_ok reg (id_peer_id s) boot" "\<And>b. b \<in> set boot \<Longrightarrow> endpoint_ok 32 (bp_peer_id b) (bp_ip b) (bp_sign_key b)"
    using select_boot_ok [OF b _ _ wf] r(2) by simp_all
  have q2: "quiet ?r1 r2" using quiet_select [of ?r1 e "id_peer_id s" GR_INVITE_MAX_BOOTSTRAP] b by simp
  have h2: "reg_header r2 = reg_header reg" "db_servers (reg_db r2) = db_servers (reg_db reg)"
    using quietD(1,3) [OF q2] r(2) by simp_all
  have five: "length boot \<le> 5" using boot(1) by (simp add: boot_ok_def)
  from blob_parses [OF set h2 len five boot(2) live] obtain blob sc r3 where
    bl: "invite_blob e s expires token boot r2 = (Inr blob, r3)"
      "gr_invite_parse e now (Some blob) = Inr (full_ticket (reg_header reg) token s expires boot sc)" by blast
  have "quiet r2 r3" using quiet_blob [of r2 e s expires token boot] bl(1) by simp
  then have q3: "quiet ?r1 r3" by (rule quiet_trans [OF q2])
  have "in_txn d0 h0 r3" using in_txn_quiet [OF q3] in_txn_db [OF t] by simp
  from append_smooth [OF sm this] obtain r4 where
    "gr_audit_append e GR_CHANGE_INVITE_CREATED s None (Some (cstr ''invite created'')) r3 = (GR_OK, r4)"
    by (metis prod.collapse)
  then have "invite_create_body e s expires created token r = (Inr blob, r4)"
    by (simp add: invite_create_body_def x q_bind_def b bl(1))
  with bl(2) boot(1) show ?thesis by blast
qed

section \<open>Properties\<close>

text \<open>
  C7. Round trip.  A permitted member can create an invite when engine, memory and cryptography work,
  and the ticket so produced parses - until it expires - to the group's identifier, name, type and
  owner key, the registrar hash, the drawn token, the inviter's keys and the expiry, with at most five
  bootstrap peers, each an active member with an address that is neither the inviter nor the owner.
\<close>

theorem invite_round_trip:
  assumes "registrar_ok sk le reg" and "invite_setting e s reg"
    and "permitted (InviteCreate expires) (id_peer_id s) (group_of reg)"
    and "\<not> (0 < sint expires \<and> sint expires \<le> sint now)"
  shows "\<exists>blob token r t. gr_invite_create e (Some s) expires reg = (Inr (blob, token), r)
    \<and> gr_invite_parse e now (Some blob) = Inr t
    \<and> t_group_id t = h_group_id (reg_header reg) \<and> t_group_name t = h_group_name (reg_header reg)
    \<and> t_group_type t = h_group_type (reg_header reg) \<and> t_owner_sign_key t = h_owner_sign_key (reg_header reg)
    \<and> t_registrar_hash t = h_hash (reg_header reg) \<and> t_verification_token t = token
    \<and> t_inviter_sign_pk t = id_public_key s \<and> t_inviter_kem_pk t = id_kem_pk s \<and> t_expires_at t = expires
    \<and> length (t_bootstrap_peers t) \<le> 5
    \<and> (\<forall>b\<in>set (t_bootstrap_peers t). \<exists>p\<in>set (db_peers (reg_db reg)). p_status p = GR_PEER_ACTIVE
         \<and> bp_peer_id b = p_peer_id p \<and> bp_ip b = p_ip p \<and> p_ip p \<noteq> [] \<and> bp_sign_key b = p_sign_key p
         \<and> p_peer_id p \<noteq> id_peer_id s \<and> p_peer_id p \<noteq> h_owner_id (reg_header reg))"
proof -
  have sm: "smooth e" and idle: "idle reg" and keys: "db_keys_ok (reg_db reg)"
    using assms(1,2) by (simp_all add: invite_setting_def registrar_ok_def)
  from assms(3) have "gov_allowed (InviteCreate expires) s reg" by (simp add: permitted_allowed [OF keys])
  then have "\<not> gr_join_is_untrusted reg" "and (perms_of reg (id_peer_id s)) GR_PERM_INVITE_MEMBER \<noteq> 0"
    by (simp_all add: gov_allowed_simps)
  from governed_smooth [OF sm this] obtain q where q: "governed e s GR_PERM_INVITE_MEMBER reg = (GR_OK, q)" "quiet reg q" by blast
  obtain token where token: "randombytes e (reg_calls q) GR_HASH_LEN = Some token"
    using assms(2) unfolding invite_setting_def by metis
  let ?q = "tick (tick q)"
  have q2: "quiet reg ?q" by (rule quiet_trans [OF q(2) quiet_ticks])
  have h: "reg_db ?q = reg_db reg" "reg_header ?q = reg_header reg" "idle ?q" using quietD [OF q2] idle by simp_all
  let ?body = "invite_create_body e s expires (now_of e (tick q)) token"
  have "\<exists>blob r. with_txn_val e ?body ?q = (Inr blob, r) \<and> (\<exists>boot sc. boot_ok reg (id_peer_id s) boot
         \<and> gr_invite_parse e now (Some blob) = Inr (full_ticket (reg_header reg) token s expires boot sc))"
    by (rule txn_val_smooth [OF sm h(3) txn_invite_create], rule create_body_parses [OF assms(2) _ _ _ token assms(4)])
       (use h in simp_all)
  then obtain blob r boot sc where x: "with_txn_val e ?body ?q = (Inr blob, r)" "boot_ok reg (id_peer_id s) boot"
      "gr_invite_parse e now (Some blob) = Inr (full_ticket (reg_header reg) token s expires boot sc)" by blast
  have "gr_invite_create e (Some s) expires reg = (Inr (blob, token), r)"
    by (simp add: gr_invite_create_def q_then_def q(1) token Let_def x(1))
  with x(2,3) show ?thesis
    by (intro exI [of _ blob] exI [of _ token] exI [of _ r] exI [of _ "full_ticket (reg_header reg) token s expires boot sc"])
       (simp add: full_ticket_def ticket_of_def boot_ok_def)
qed

text \<open>A group whose rows have the sizes of the code, and its signature scheme.\<close>

definition full_env :: yumi_env where
  "full_env = demo_env\<lparr>mldsa_sign := \<lambda>n sk b. Some (replicate 4627 7)\<rparr>"

definition full_owner :: gr_identity_t where
  "full_owner = \<lparr>id_public_key = replicate 2592 0, id_secret_key = [], id_kem_pk = replicate 1568 0, id_kem_sk = [],
     id_peer_id = zero_id\<rparr>"

definition full_peer :: "bytes \<Rightarrow> bytes \<Rightarrow> gr_peer_t" where
  "full_peer pid ip = \<lparr>p_peer_id = pid, p_kem_pk = replicate 1568 0, p_sign_key = replicate 2592 0, p_ip = ip, p_port = 80,
     p_status = GR_PEER_ACTIVE, p_role_id = 0, p_joined_at = 0, p_removed_at = 0, p_last_seen = 0,
     p_removed_reason = [], p_removed_by = zero_id\<rparr>"

definition full_reg :: gr_registrar where
  "full_reg = (fresh_handle (empty_db\<lparr>db_header := [zero_header\<lparr>h_epoch_id := 1\<rparr>],
       db_peers := [full_peer zero_id [], full_peer (replicate 32 1) [49]],
       db_epochs := [\<lparr>e_epoch_id = 1, e_epoch_key = [5], e_created_at = 0, e_expired_at = 0, e_created_by = zero_id\<rparr>]\<rparr>) 0)
     \<lparr>reg_header := zero_header\<lparr>h_epoch_id := 1\<rparr>\<rparr>"

lemma full_registrar_ok: "registrar_ok (skein full_env) True full_reg"
  unfolding registrar_ok_def group_ok_def group_of_def group_at_simps dom_view
  by (simp add: idle_def full_reg_def fresh_handle_def db_keys_ok_def empty_db_def tbl_inv_def full_peer_def
      audit_sound_def view_def zero_header_def zero_id_def)

lemma full_setting: "invite_setting full_env full_owner full_reg"
  by (simp add: invite_setting_def smooth_def resourceful_def full_env_def demo_env_def full_reg_def fresh_handle_def
      empty_db_def wf_header_def zero_header_def wf_cstr_def full_owner_def wf_peer_def full_peer_def)

theorem invite_round_trip_witness:
  "\<exists>blob token r t. gr_invite_create full_env (Some full_owner) 0 full_reg = (Inr (blob, token), r)
     \<and> gr_invite_parse full_env 99 (Some blob) = Inr t \<and> t_verification_token t = token \<and> length (t_bootstrap_peers t) \<le> 5"
proof -
  have "permitted (InviteCreate 0) (id_peer_id full_owner) (group_of full_reg)"
    by (simp add: permitted_def authority_def full_owner_def full_reg_def fresh_handle_def group_of_def group_at_def
        gr_join_is_untrusted_def zero_header_def)
  from invite_round_trip [OF full_registrar_ok full_setting this, of 99] show ?thesis by auto
qed

lemma redeemed_step:
  assumes "group_step op a g g'" and "op \<in> {InviteMarkUsed (Some tok) m, InviteInvalidate (Some tok)}"
  shows "spent g' tok \<or> revoked g' tok"
proof -
  from assms(1) obtain g1 where "change op a g g1" "g' = g1\<lparr>g_version := g_version g1 + 1\<rparr>"
    by (auto simp: group_step_def)
  then show ?thesis using assms(2) by (cases rule: change.cases) (auto simp: spent_def revoked_def)
qed

lemma gone_iff: "spent (group_of reg) tok \<or> revoked (group_of reg) tok \<longleftrightarrow>
    (\<exists>i. tbl_get i_verification_token tok (db_invites (reg_db reg)) = Some i \<and> (i_used i \<or> i_invalidated i))"
  by (auto simp: spent_def revoked_def group_of_def view_def)

text \<open>
  C8. Safety.  An invite that was redeemed or invalidated once is never accepted again: at every later
  point, after any operations, in any environment, checking its token does not answer yes and
  redeeming it does not succeed.
\<close>

theorem invites_redeem_once:
  assumes "world sk le e" and "registrar_ok sk le reg" and "op \<in> {InviteMarkUsed (Some tok) m, InviteInvalidate (Some tok)}"
    and "run_gov e op signer reg = (GR_OK, r)" and "(next_state sk le)\<^sup>*\<^sup>* r later" and "world sk le e2"
  shows "fst (gr_invite_check e2 tok later) \<noteq> Inr True \<and> fst (gr_invite_mark_used e2 (Some tok) m2 s2 later) \<noteq> GR_OK"
proof -
  from gov_registrar_ok [OF assms(1,2,4)] obtain s :: gr_identity_t where ok: "registrar_ok sk le r"
    "group_step op (id_peer_id s) (group_of reg) (group_of r)" by blast
  have "spent (group_of r) tok \<or> revoked (group_of r) tok" by (rule redeemed_step [OF ok(2) assms(3)])
  with later_no_return [OF assms(5) ok(1)] have gone: "spent (group_of later) tok \<or> revoked (group_of later) tok"
    and later: "registrar_ok sk le later" by (auto simp: no_return_def)
  have check: "fst (gr_invite_check e2 tok later) \<noteq> Inr True"
  proof
    assume "fst (gr_invite_check e2 tok later) = Inr True"
    then obtain row now where "ps_invite_check tok (reg_db later) = Some row" "invite_valid row now"
      by (auto simp: gr_invite_check_def db_query_def split: if_splits option.splits)
    with gone show False by (auto simp: gone_iff ps_invite_check_def invite_valid_def)
  qed
  have "fst (gr_invite_mark_used e2 (Some tok) m2 s2 later) \<noteq> GR_OK"
  proof
    assume x: "fst (gr_invite_mark_used e2 (Some tok) m2 s2 later) = GR_OK"
    then obtain pid sg where p: "m2 = Some pid" "s2 = Some sg"
      by (auto simp: gr_invite_mark_used_def split: option.splits)
    obtain fin where "gr_invite_mark_used e2 (Some tok) (Some pid) (Some sg) later = (GR_OK, fin)"
      using x p by (metis prod.collapse)
    from invite_mark_used_ok [OF _ _ this] assms(6) later gone show False
      by (auto simp: world_def registrar_ok_def gone_iff)
  qed
  with check show ?thesis by blast
qed

text \<open>Redeeming on the demonstration group extended by one invite.\<close>

definition demo_invited :: gr_registrar where
  "demo_invited = demo_reg\<lparr>reg_db := demo_db\<lparr>db_invites := [invite_row [9] 0 0 (demo_identity 1)]\<rparr>\<rparr>"

lemma demo_invited_ok: "registrar_ok (skein demo_env) True demo_invited"
  unfolding registrar_ok_def group_ok_def group_of_def group_at_simps dom_view
  by (simp add: idle_def demo_invited_def demo_reg_def fresh_handle_def db_keys_ok_def demo_db_def empty_db_def tbl_inv_def
      demo_peer_def audit_sound_def view_def demo_header_def zero_header_def)

lemma demo_redeem: "fst (run_gov demo_env (InviteMarkUsed (Some [9]) (Some [3])) (Some (demo_identity 2)) demo_invited) = GR_OK"
  by (simp add: demo_env_def gr_invite_mark_used_def gr_bind_def gr_invite_check_def ps_invite_check_def
      invite_valid_def with_txn_def Let_def invite_used_body_def ps_invite_mark_used_def sql_update_def tbl_update_def
      eval_defs demo_invited_def demo_reg_def demo_db_def demo_header_def zero_header_def gr_txn_rollback_def demo_identity_def
      invite_row_def)

theorem invites_redeem_once_witness:
  "\<exists>r. run_gov demo_env (InviteMarkUsed (Some [9]) (Some [3])) (Some (demo_identity 2)) demo_invited = (GR_OK, r)
     \<and> fst (gr_invite_mark_used demo_env (Some [9]) (Some [4]) (Some (demo_identity 2)) r) \<noteq> GR_OK"
proof -
  obtain r where r: "run_gov demo_env (InviteMarkUsed (Some [9]) (Some [3])) (Some (demo_identity 2)) demo_invited = (GR_OK, r)"
    using demo_redeem by (metis prod.collapse)
  from invites_redeem_once [OF demo_world demo_invited_ok _ r rtranclp.rtrancl_refl demo_world] r show ?thesis by blast
qed

end
