(* ===== verification/Static_Heap.thy ===== *)
theory Static_Heap imports Prelude
begin

text \<open>
  The per-type pools of \<open>src/src/memory/static_heap.c\<close>: a fixed array of nodes that is handed out and
  taken back through a per-thread cache, a list under a mutex, and recovery stacks for calls that do
  not get the mutex.

  A node is its index in the array; a pointer that may be \<open>NULL\<close> is an option.  Threads are named by
  the bytes of their \<open>thrd_t\<close>, which is not used again after a thread has ended.  One operation is one step: caches belong to their thread and the list
  is only touched under the mutex.  The two steps of the compare-and-swap loops of the recovery stacks
  are separated in the section on races.
\<close>

unbundle bit_operations_syntax

section \<open>The state\<close>

abbreviation (input) YUMI_STATIC_HEAP_MAX_THREADS :: nat where "YUMI_STATIC_HEAP_MAX_THREADS \<equiv> 64"
abbreviation (input) YUMI_STATIC_HEAP_REFILL_BATCH :: nat where "YUMI_STATIC_HEAP_REFILL_BATCH \<equiv> 32"
abbreviation (input) YUMI_STATIC_HEAP_TLS_CACHE_SIZE :: nat where "YUMI_STATIC_HEAP_TLS_CACHE_SIZE \<equiv> 64"

datatype yumi_memory_alloc_error_enum =
    YUMI_MEMORY_ALLOC_UNKNOWN | YUMI_MEMORY_ALLOC_SUCCESS | YUMI_MEMORY_ALLOC_OUT_OF_RANGE
  | YUMI_MEMORY_ALLOC_INVALID_OUT_POINTER | YUMI_MEMORY_ALLOC_UNAVAILABLE_MEMORY
  | YUMI_MEMORY_ALLOC_INVALID_IN_POINTER | YUMI_MEMORY_ALLOC_INTERNAL_ERROR

record tls_slot_t =
  tls_top :: nat
  tls_registered :: bool
  tls_stack :: "nat list"

record static_heap =
  hp_next :: "nat \<Rightarrow> nat option"
  hp_head :: "nat option"
  hp_count :: u64
  hp_mtx_once :: bool
  hp_mtx_ok :: bool
  hp_key_once :: bool
  hp_key_ok :: bool
  hp_slots :: "nat option list"
  hp_tls :: "bytes \<Rightarrow> tls_slot_t"

text \<open>
  What the C11 threads library answers in a call: does \<open>mtx_init\<close>, \<open>mtx_lock\<close>, \<open>tss_create\<close>,
  \<open>tss_set\<close> succeed?  The two \<open>once\<close> flags of the pool tell whether \<open>call_once\<close> already ran.
\<close>

record heap_env =
  mtx_works :: bool
  lock_works :: bool
  key_works :: bool
  tss_works :: bool

definition zero_heap :: static_heap where
  "zero_heap = \<lparr>hp_next = (\<lambda>n. None), hp_head = None, hp_count = 0,
     hp_mtx_once = False, hp_mtx_ok = False, hp_key_once = False, hp_key_ok = False,
     hp_slots = replicate YUMI_STATIC_HEAP_MAX_THREADS None,
     hp_tls = (\<lambda>t. \<lparr>tls_top = 0, tls_registered = False,
                    tls_stack = replicate YUMI_STATIC_HEAP_TLS_CACHE_SIZE 0\<rparr>)\<rparr>"

section \<open>The recovery stacks\<close>

definition recovery_index :: "bytes \<Rightarrow> nat" where
  "recovery_index tid = unat (foldl (\<lambda>h b. (h XOR ucast b) * 1099511628211) (1469598103934665603 :: u64) tid
     mod of_nat YUMI_STATIC_HEAP_MAX_THREADS)"

definition recovery_push :: "bytes \<Rightarrow> nat \<Rightarrow> static_heap \<Rightarrow> static_heap" where
  "recovery_push tid item h =
     (let idx = recovery_index tid in
      h\<lparr>hp_next := (hp_next h)(item := hp_slots h ! idx), hp_slots := (hp_slots h)[idx := Some item]\<rparr>)"

fun recovery_probe :: "nat \<Rightarrow> nat \<Rightarrow> nat \<Rightarrow> static_heap \<Rightarrow> nat option \<times> static_heap" where
  "recovery_probe start prob 0 h = (None, h)"
| "recovery_probe start prob (Suc k) h =
     (let idx = (start + prob) mod YUMI_STATIC_HEAP_MAX_THREADS in
      case hp_slots h ! idx of
        None \<Rightarrow> recovery_probe start (Suc prob) k h
      | Some item \<Rightarrow> (Some item, h\<lparr>hp_slots := (hp_slots h)[idx := hp_next h item]\<rparr>))"

definition recovery_pop_any :: "bytes \<Rightarrow> static_heap \<Rightarrow> nat option \<times> static_heap" where
  "recovery_pop_any tid h = recovery_probe (recovery_index tid) 0 YUMI_STATIC_HEAP_MAX_THREADS h"

section \<open>Locking and registration\<close>

definition lock_global :: "heap_env \<Rightarrow> static_heap \<Rightarrow> bool \<times> static_heap" where
  "lock_global e h =
     (let h1 = (if hp_mtx_once h then h else h\<lparr>hp_mtx_once := True, hp_mtx_ok := mtx_works e\<rparr>)
      in (hp_mtx_ok h1 \<and> lock_works e, h1))"

definition set_tls :: "bytes \<Rightarrow> (tls_slot_t \<Rightarrow> tls_slot_t) \<Rightarrow> static_heap \<Rightarrow> static_heap" where
  "set_tls tid f h = h\<lparr>hp_tls := (hp_tls h)(tid := f (hp_tls h tid))\<rparr>"

definition register_tls :: "heap_env \<Rightarrow> bytes \<Rightarrow> static_heap \<Rightarrow> bool \<times> static_heap" where
  "register_tls e tid h =
     (let h1 = (if hp_key_once h then h else h\<lparr>hp_key_once := True, hp_key_ok := key_works e\<rparr>)
      in if hp_key_ok h1 \<and> tss_works e then (True, set_tls tid (\<lambda>s. s\<lparr>tls_registered := True\<rparr>) h1)
         else (False, h1))"

definition ensure_tls :: "heap_env \<Rightarrow> bytes \<Rightarrow> static_heap \<Rightarrow> bool \<times> static_heap" where
  "ensure_tls e tid h = (if \<not> tls_registered (hp_tls h tid) then register_tls e tid h else (True, h))"

section \<open>The operations\<close>

text \<open>Linking an array of nodes, each to the one after it; the last keeps its field.\<close>

fun link_nodes :: "nat list \<Rightarrow> (nat \<Rightarrow> nat option) \<Rightarrow> nat \<Rightarrow> nat option" where
  "link_nodes (a # b # xs) f = link_nodes (b # xs) (f(a := Some b))"
| "link_nodes [a] f = f"
| "link_nodes [] f = f"

text \<open>What runs when a thread ends.\<close>

definition tls_flush :: "heap_env \<Rightarrow> bytes \<Rightarrow> static_heap \<Rightarrow> static_heap" where
  "tls_flush e tid h =
     (let s = hp_tls h tid; cached = take (tls_top s) (tls_stack s) in
      if tls_top s = 0 then h
      else let h1 = h\<lparr>hp_next := link_nodes cached (hp_next h)\<rparr> in
        case lock_global e h1 of (locked, h2) \<Rightarrow>
        if locked
        then set_tls tid (\<lambda>s. s\<lparr>tls_top := 0\<rparr>)
               (h2\<lparr>hp_next := (hp_next h2)(last cached := hp_head h2), hp_head := Some (hd cached),
                   hp_count := hp_count h2 + of_nat (tls_top s)\<rparr>)
        else set_tls tid (\<lambda>s. s\<lparr>tls_top := 0\<rparr>) (fold (recovery_push tid) cached h2))"

definition init_static_heap :: "heap_env \<Rightarrow> nat \<Rightarrow> bytes \<Rightarrow> static_heap \<Rightarrow> static_heap" where
  "init_static_heap e y tid h =
     (case lock_global e h of (locked, h1) \<Rightarrow>
      if locked
      then (set_tls tid (\<lambda>s. s\<lparr>tls_top := 0\<rparr>) h1)
             \<lparr>hp_next := (link_nodes [0..<y] (hp_next h1))(y - 1 := None), hp_head := Some 0,
              hp_count := of_nat y, hp_slots := replicate YUMI_STATIC_HEAP_MAX_THREADS None\<rparr>
      else h1)"

text \<open>The walk of the refill: at most \<open>n\<close> nodes go to the cache, the one it stops at to the caller.\<close>

fun take_nodes :: "(nat \<Rightarrow> nat option) \<Rightarrow> nat \<Rightarrow> nat \<Rightarrow> nat list \<Rightarrow> nat \<times> nat list" where
  "take_nodes f 0 cur stored = (cur, stored)"
| "take_nodes f (Suc n) cur stored =
     (case f cur of None \<Rightarrow> (cur, stored) | Some nx \<Rightarrow> take_nodes f n nx (stored @ [cur]))"

definition refill_want :: "u64 \<Rightarrow> nat" where
  "refill_want count =
     (let fair_share = unat ((count + 1) div 2);
          want = min YUMI_STATIC_HEAP_REFILL_BATCH fair_share
      in if want < 1 then 1 else want)"

definition refill_locked :: "bytes \<Rightarrow> nat \<Rightarrow> static_heap \<Rightarrow> nat \<times> static_heap" where
  "refill_locked tid head h =
     (case take_nodes (hp_next h) (refill_want (hp_count h) - 1) head [] of (cur, stored) \<Rightarrow>
      (cur, set_tls tid (\<lambda>s. s\<lparr>tls_top := length stored, tls_stack := stored @ drop (length stored) (tls_stack s)\<rparr>)
              (h\<lparr>hp_head := hp_next h cur, hp_count := hp_count h - of_nat (length stored + 1)\<rparr>)))"

text \<open>After the list gave nothing: the recovery stacks.\<close>

definition refill_recover :: "bytes \<Rightarrow> static_heap \<Rightarrow> (yumi_memory_alloc_error_enum + nat) \<times> static_heap" where
  "refill_recover tid h =
     (case recovery_pop_any tid h of
        (Some n, h') \<Rightarrow> (Inr n, h')
      | (None, h') \<Rightarrow> (Inl (if \<not> hp_mtx_ok h' then YUMI_MEMORY_ALLOC_INTERNAL_ERROR
                           else YUMI_MEMORY_ALLOC_UNAVAILABLE_MEMORY), h'))"

definition refill_from_global :: "heap_env \<Rightarrow> bytes \<Rightarrow> static_heap \<Rightarrow>
    (yumi_memory_alloc_error_enum + nat) \<times> static_heap" where
  "refill_from_global e tid h =
     (case ensure_tls e tid h of (registered, h1) \<Rightarrow>
      if \<not> registered then (Inl YUMI_MEMORY_ALLOC_INTERNAL_ERROR, h1)
      else case lock_global e h1 of (locked, h2) \<Rightarrow>
        if \<not> locked then refill_recover tid h2
        else case hp_head h2 of
               None \<Rightarrow> refill_recover tid h2
             | Some head \<Rightarrow> (case refill_locked tid head h2 of (n, h3) \<Rightarrow> (Inr n, h3)))"

definition spill_to_global :: "heap_env \<Rightarrow> bytes \<Rightarrow> nat \<Rightarrow> static_heap \<Rightarrow> bool \<times> static_heap" where
  "spill_to_global e tid new_item h =
     (case lock_global e h of (locked, h1) \<Rightarrow>
      if locked
      then let half = YUMI_STATIC_HEAP_TLS_CACHE_SIZE div 2;
               st = tls_stack (hp_tls h1 tid);
               low = take half st;
               f = (link_nodes low (hp_next h1))(last low := hp_head h1)
           in (True, set_tls tid (\<lambda>s. s\<lparr>tls_top := half + 1,
                       tls_stack := drop half st @ new_item # drop (half + 1) st\<rparr>)
                     (h1\<lparr>hp_next := f, hp_head := Some (hd low), hp_count := hp_count h1 + of_nat half\<rparr>))
      else (True, recovery_push tid new_item h1))"

definition push_tls :: "bytes \<Rightarrow> nat \<Rightarrow> static_heap \<Rightarrow> static_heap" where
  "push_tls tid item = set_tls tid (\<lambda>s. s\<lparr>tls_stack := (tls_stack s)[tls_top s := item], tls_top := tls_top s + 1\<rparr>)"

definition release_inline :: "heap_env \<Rightarrow> bytes \<Rightarrow> nat option \<Rightarrow> static_heap \<Rightarrow>
    yumi_memory_alloc_error_enum \<times> static_heap" where
  "release_inline e tid node h =
     (case node of
        None \<Rightarrow> (YUMI_MEMORY_ALLOC_INVALID_IN_POINTER, h)
      | Some item \<Rightarrow>
          (case ensure_tls e tid h of (registered, h1) \<Rightarrow>
           if \<not> registered then (YUMI_MEMORY_ALLOC_INTERNAL_ERROR, h1)
           else if tls_top (hp_tls h1 tid) < YUMI_STATIC_HEAP_TLS_CACHE_SIZE
           then (YUMI_MEMORY_ALLOC_SUCCESS, push_tls tid item h1)
           else case spill_to_global e tid item h1 of (ok, h2) \<Rightarrow>
                  (if ok then YUMI_MEMORY_ALLOC_SUCCESS else YUMI_MEMORY_ALLOC_INTERNAL_ERROR, h2)))"

definition pop_tls :: "bytes \<Rightarrow> static_heap \<Rightarrow> nat \<times> static_heap" where
  "pop_tls tid h =
     (let s = hp_tls h tid in (tls_stack s ! (tls_top s - 1), set_tls tid (\<lambda>s. s\<lparr>tls_top := tls_top s - 1\<rparr>) h))"

text \<open>\<open>out\<close>: is the output pointer not \<open>NULL\<close>?\<close>

definition lease_inline :: "heap_env \<Rightarrow> bytes \<Rightarrow> bool \<Rightarrow> static_heap \<Rightarrow>
    (yumi_memory_alloc_error_enum + nat) \<times> static_heap" where
  "lease_inline e tid out h =
     (if \<not> out then (Inl YUMI_MEMORY_ALLOC_INVALID_OUT_POINTER, h)
      else if 0 < tls_top (hp_tls h tid) then (case pop_tls tid h of (n, h') \<Rightarrow> (Inr n, h'))
      else refill_from_global e tid h)"

definition lease_ptr :: "heap_env \<Rightarrow> bytes \<Rightarrow> static_heap \<Rightarrow> nat option \<times> static_heap" where
  "lease_ptr e tid h =
     (if 0 < tls_top (hp_tls h tid) then (case pop_tls tid h of (n, h') \<Rightarrow> (Some n, h'))
      else (case refill_from_global e tid h of (Inl _, h') \<Rightarrow> (None, h') | (Inr n, h') \<Rightarrow> (Some n, h')))"

definition release_ptr :: "heap_env \<Rightarrow> bytes \<Rightarrow> nat \<Rightarrow> static_heap \<Rightarrow> static_heap" where
  "release_ptr e tid item h =
     (if tls_top (hp_tls h tid) < YUMI_STATIC_HEAP_TLS_CACHE_SIZE then push_tls tid item h
      else snd (spill_to_global e tid item h))"

section \<open>Lists of nodes\<close>

fun chain :: "(nat \<Rightarrow> nat option) \<Rightarrow> nat option \<Rightarrow> nat list \<Rightarrow> bool" where
  "chain f p [] \<longleftrightarrow> p = None"
| "chain f p (x # xs) \<longleftrightarrow> p = Some x \<and> chain f (f x) xs"

lemma chain_cong: "(\<And>x. x \<in> set xs \<Longrightarrow> f x = g x) \<Longrightarrow> chain f p xs = chain g p xs"
  by (induction xs arbitrary: p) auto

lemma chain_Some: "chain f (Some a) xs \<longleftrightarrow> (\<exists>ys. xs = a # ys \<and> chain f (f a) ys)"
  by (cases xs) auto

lemma chain_unique: "chain f p xs \<Longrightarrow> chain f p ys \<Longrightarrow> xs = ys"
proof (induction xs arbitrary: p ys)
  case Nil
  then show ?case by (cases ys) auto
next
  case (Cons x xs)
  then show ?case by (cases ys) auto
qed

lemma link_nodes_other: "x \<notin> set xs \<Longrightarrow> link_nodes xs f x = f x"
  by (induction xs f rule: link_nodes.induct) auto

lemma link_nodes_chain:
  "distinct xs \<Longrightarrow> xs \<noteq> [] \<Longrightarrow> chain f p ys \<Longrightarrow> set xs \<inter> set ys = {} \<Longrightarrow>
   chain ((link_nodes xs f)(last xs := p)) (Some (hd xs)) (xs @ ys)"
proof (induction xs f rule: link_nodes.induct)
  case (1 a b xs f)
  have "chain (f(a := Some b)) p ys" using 1(4) 1(5) by (subst chain_cong [of ys _ f]) auto
  with 1(2,5) have "chain ((link_nodes (b # xs) (f(a := Some b)))(last (b # xs) := p)) (Some (hd (b # xs))) ((b # xs) @ ys)"
    by (intro "1.IH") (auto simp del: fun_upd_apply)
  then have ih: "chain ((link_nodes (b # xs) (f(a := Some b)))(last (b # xs) := p)) (Some b) ((b # xs) @ ys)" by simp
  have "a \<notin> set (b # xs)" using 1(2) by simp
  then have "link_nodes (b # xs) (f(a := Some b)) a = Some b" "a \<noteq> last (b # xs)"
    by (simp add: link_nodes_other, metis last_in_set list.distinct(1))
  with ih show ?case by (simp del: fun_upd_apply link_nodes.simps(2) add: fun_upd_other)
next
  case (2 v f)
  then have "chain (f(v := p)) p ys" by (subst chain_cong [of ys _ f]) auto
  then show ?case by (simp del: fun_upd_apply add: fun_upd_same)
qed simp

lemma take_nodes_spec:
  "chain f (Some cur) (cur # xs) \<Longrightarrow>
   \<exists>k \<le> length xs. k \<le> n \<and> take_nodes f n cur st = ((cur # xs) ! k, st @ take k (cur # xs))
     \<and> chain f (f ((cur # xs) ! k)) (drop (Suc k) (cur # xs))"
proof (induction n arbitrary: cur xs st)
  case 0
  then show ?case by (intro exI [of _ 0]) simp
next
  case (Suc n)
  show ?case
  proof (cases xs)
    case Nil
    then show ?thesis using Suc.prems by (intro exI [of _ 0]) simp
  next
    case (Cons y ys)
    then have "f cur = Some y" "chain f (Some y) (y # ys)" using Suc.prems by auto
    from Suc.IH [OF this(2), of "st @ [cur]"] obtain k where "k \<le> length ys" "k \<le> n"
      "take_nodes f n y (st @ [cur]) = ((y # ys) ! k, (st @ [cur]) @ take k (y # ys))"
      "chain f (f ((y # ys) ! k)) (drop (Suc k) (y # ys))" by blast
    then show ?thesis using \<open>f cur = Some y\<close> Cons by (intro exI [of _ "Suc k"]) simp
  qed
qed

section \<open>Every node is in one place\<close>

text \<open>
  The invariant names, for every node, the one place it is in; nodes that the caller has - or that an
  operation is moving - are leased.
\<close>

datatype place = InList | InSlot nat | InCache bytes | Leased

definition cached :: "static_heap \<Rightarrow> bytes \<Rightarrow> nat list" where
  "cached h t = take (tls_top (hp_tls h t)) (tls_stack (hp_tls h t))"

definition at :: "nat \<Rightarrow> (nat \<Rightarrow> place) \<Rightarrow> place \<Rightarrow> nat set" where
  "at y own p = {n. n < y \<and> own n = p}"

definition list_inv :: "nat \<Rightarrow> (nat \<Rightarrow> place) \<Rightarrow> static_heap \<Rightarrow> bool" where
  "list_inv y own h \<longleftrightarrow> (\<exists>gl. chain (hp_next h) (hp_head h) gl \<and> distinct gl \<and> set gl = at y own InList
     \<and> hp_count h = of_nat (length gl))"

definition slots_inv :: "nat \<Rightarrow> (nat \<Rightarrow> place) \<Rightarrow> static_heap \<Rightarrow> bool" where
  "slots_inv y own h \<longleftrightarrow> length (hp_slots h) = 64 \<and> (\<forall>n<y. \<forall>i. own n = InSlot i \<longrightarrow> i < 64)
     \<and> (\<forall>i<64. \<exists>sl. chain (hp_next h) (hp_slots h ! i) sl \<and> distinct sl \<and> set sl = at y own (InSlot i))"

definition tls_inv :: "nat \<Rightarrow> (nat \<Rightarrow> place) \<Rightarrow> static_heap \<Rightarrow> bool" where
  "tls_inv y own h \<longleftrightarrow> (\<forall>t. tls_top (hp_tls h t) \<le> 64 \<and> length (tls_stack (hp_tls h t)) = 64
     \<and> distinct (cached h t) \<and> set (cached h t) = at y own (InCache t))"

definition heap_inv :: "nat \<Rightarrow> (nat \<Rightarrow> place) \<Rightarrow> static_heap \<Rightarrow> bool" where
  "heap_inv y own h \<longleftrightarrow> list_inv y own h \<and> slots_inv y own h \<and> tls_inv y own h"

definition move :: "nat set \<Rightarrow> place \<Rightarrow> (nat \<Rightarrow> place) \<Rightarrow> nat \<Rightarrow> place" where
  "move S p own n = (if n \<in> S then p else own n)"

lemma at_move: "S \<subseteq> {..<y} \<Longrightarrow> at y (move S p own) q = (if q = p then at y own q \<union> S else at y own q - S)"
  by (auto simp: at_def move_def)

lemma at_lt: "at y own p \<subseteq> {..<y}"
  by (auto simp: at_def)

lemma at_disjoint: "p \<noteq> q \<Longrightarrow> at y own p \<inter> at y own q = {}"
  by (auto simp: at_def)

text \<open>Fields that play no part.\<close>

lemma heap_inv_lock: "lock_global e h = (b, h') \<Longrightarrow> heap_inv y own h' = heap_inv y own h"
  by (auto simp: lock_global_def Let_def heap_inv_def list_inv_def slots_inv_def tls_inv_def cached_def split: if_splits)

lemma ensure_frame: "ensure_tls e t h = (b, h') \<Longrightarrow> tls_top (hp_tls h' u) = tls_top (hp_tls h u)
    \<and> tls_stack (hp_tls h' u) = tls_stack (hp_tls h u) \<and> hp_next h' = hp_next h \<and> hp_head h' = hp_head h
    \<and> hp_count h' = hp_count h \<and> hp_slots h' = hp_slots h \<and> hp_mtx_ok h' = hp_mtx_ok h
    \<and> hp_mtx_once h' = hp_mtx_once h"
  by (auto simp: ensure_tls_def register_tls_def set_tls_def Let_def split: if_splits)

lemma heap_inv_ensure: "ensure_tls e t h = (b, h') \<Longrightarrow> heap_inv y own h' = heap_inv y own h"
  using ensure_frame [of e t h b h']
  by (simp add: heap_inv_def list_inv_def slots_inv_def tls_inv_def cached_def)

lemma lock_frame: "lock_global e h = (b, h') \<Longrightarrow> hp_tls h' = hp_tls h \<and> hp_head h' = hp_head h
    \<and> hp_slots h' = hp_slots h \<and> hp_next h' = hp_next h \<and> hp_count h' = hp_count h
    \<and> hp_mtx_once h' \<and> hp_mtx_ok h' = (if hp_mtx_once h then hp_mtx_ok h else mtx_works e)
    \<and> b = (hp_mtx_ok h' \<and> lock_works e)"
  by (auto simp: lock_global_def Let_def split: if_splits)

text \<open>Where the once flags stand.\<close>

abbreviation ready_mtx :: "heap_env \<Rightarrow> static_heap \<Rightarrow> bool" where
  "ready_mtx e h \<equiv> (if hp_mtx_once h then hp_mtx_ok h else mtx_works e)"

abbreviation ready_key :: "heap_env \<Rightarrow> static_heap \<Rightarrow> bool" where
  "ready_key e h \<equiv> (if hp_key_once h then hp_key_ok h else key_works e)"

lemma lock_global_eq: "lock_global e h = (ready_mtx e h \<and> lock_works e, h\<lparr>hp_mtx_once := True, hp_mtx_ok := ready_mtx e h\<rparr>)"
  by (cases h) (simp add: lock_global_def Let_def)

lemma register_ready: "fst (register_tls e t h) \<longleftrightarrow> ready_key e h \<and> tss_works e"
  by (simp add: register_tls_def Let_def)

text \<open>The links of nodes in hand may change.\<close>

lemma inv_links:
  assumes "heap_inv y own h" and "\<And>n. n < y \<Longrightarrow> own n \<noteq> Leased \<Longrightarrow> own n \<noteq> InCache t \<Longrightarrow> f n = hp_next h n"
  shows "heap_inv y own (h\<lparr>hp_next := f\<rparr>)"
proof -
  have same: "chain f p xs = chain (hp_next h) p xs" if "set xs = at y own q" "q \<noteq> Leased" "q \<noteq> InCache t" for p q xs
    using that assms(2) by (intro chain_cong) (auto simp: at_def)
  have l: "list_inv y own (h\<lparr>hp_next := f\<rparr>)"
    using assms(1) same by (simp add: heap_inv_def list_inv_def) (metis place.distinct(3) place.distinct(5))
  have "slots_inv y own (h\<lparr>hp_next := f\<rparr>)" unfolding slots_inv_def
  proof (intro conjI allI impI)
    fix i :: nat assume "i < 64"
    with assms(1) obtain sl where "chain (hp_next h) (hp_slots h ! i) sl" "distinct sl" "set sl = at y own (InSlot i)"
      by (auto simp: heap_inv_def slots_inv_def)
    then show "\<exists>sl. chain (hp_next (h\<lparr>hp_next := f\<rparr>)) (hp_slots (h\<lparr>hp_next := f\<rparr>) ! i) sl \<and> distinct sl \<and> set sl = at y own (InSlot i)"
      using same [of sl "InSlot i"] by auto
  qed (use assms(1) in \<open>auto simp: heap_inv_def slots_inv_def\<close>)
  with l assms(1) show ?thesis by (simp add: heap_inv_def tls_inv_def cached_def)
qed

text \<open>A cache is emptied into the hand, and filled from it.\<close>

lemma inv_empty_cache:
  assumes "heap_inv y own h"
  shows "heap_inv y (move (at y own (InCache t)) Leased own) (set_tls t (\<lambda>s. s\<lparr>tls_top := 0\<rparr>) h)"
proof -
  have m: "at y (move (at y own (InCache t)) Leased own) q = (if q = InCache t then {} else at y own q)" if "q \<noteq> Leased" for q
    using that at_disjoint [of q "InCache t" y own] by (auto simp: at_move [OF at_lt])
  have "tls_inv y (move (at y own (InCache t)) Leased own) (set_tls t (\<lambda>s. s\<lparr>tls_top := 0\<rparr>) h)"
    unfolding tls_inv_def
  proof
    fix u
    have "tls_inv y own h" using assms by (simp add: heap_inv_def)
    then have "tls_top (hp_tls h u) \<le> 64" "length (tls_stack (hp_tls h u)) = 64"
      "distinct (cached h u)" "set (cached h u) = at y own (InCache u)" unfolding tls_inv_def by blast+
    then show "tls_top (hp_tls (set_tls t (\<lambda>s. s\<lparr>tls_top := 0\<rparr>) h) u) \<le> 64
      \<and> length (tls_stack (hp_tls (set_tls t (\<lambda>s. s\<lparr>tls_top := 0\<rparr>) h) u)) = 64
      \<and> distinct (cached (set_tls t (\<lambda>s. s\<lparr>tls_top := 0\<rparr>) h) u)
      \<and> set (cached (set_tls t (\<lambda>s. s\<lparr>tls_top := 0\<rparr>) h) u) = at y (move (at y own (InCache t)) Leased own) (InCache u)"
      by (cases "u = t") (simp_all add: set_tls_def cached_def m)
  qed
  moreover have "list_inv y (move (at y own (InCache t)) Leased own) (set_tls t (\<lambda>s. s\<lparr>tls_top := 0\<rparr>) h)"
    using assms by (simp add: heap_inv_def list_inv_def set_tls_def m)
  moreover have "slots_inv y (move (at y own (InCache t)) Leased own) (set_tls t (\<lambda>s. s\<lparr>tls_top := 0\<rparr>) h)"
    using assms by (auto simp: heap_inv_def slots_inv_def set_tls_def m) (auto simp: move_def split: if_splits)
  ultimately show ?thesis by (simp add: heap_inv_def)
qed

lemma inv_fill_cache:
  assumes "heap_inv y own h" and "tls_top (hp_tls h t) = 0" and "distinct xs" and "set xs \<subseteq> at y own Leased"
    and "length st = 64" and "k \<le> 64" and "take k st = xs"
  shows "heap_inv y (move (set xs) (InCache t) own) (set_tls t (\<lambda>s. s\<lparr>tls_top := k, tls_stack := st\<rparr>) h)"
proof -
  have lt: "set xs \<subseteq> {..<y}" using assms(4) at_lt by blast
  have none: "at y own (InCache t) = {}" using assms(1,2) by (simp add: heap_inv_def tls_inv_def cached_def) (metis empty_set take0)
  have m: "at y (move (set xs) (InCache t) own) q = (if q = InCache t then set xs else at y own q)" if "q \<noteq> Leased" for q
    using that none at_disjoint [of q Leased y own] assms(4) by (auto simp: at_move [OF lt])
  let ?h = "set_tls t (\<lambda>s. s\<lparr>tls_top := k, tls_stack := st\<rparr>) h"
  have "tls_inv y (move (set xs) (InCache t) own) ?h" unfolding tls_inv_def
  proof
    fix u
    have "tls_inv y own h" using assms(1) by (simp add: heap_inv_def)
    then have "tls_top (hp_tls h u) \<le> 64" "length (tls_stack (hp_tls h u)) = 64"
      "distinct (cached h u)" "set (cached h u) = at y own (InCache u)" unfolding tls_inv_def by blast+
    then show "tls_top (hp_tls ?h u) \<le> 64 \<and> length (tls_stack (hp_tls ?h u)) = 64 \<and> distinct (cached ?h u)
      \<and> set (cached ?h u) = at y (move (set xs) (InCache t) own) (InCache u)"
      using assms(3,5,6,7) by (cases "u = t") (simp_all add: set_tls_def cached_def m)
  qed
  moreover have "list_inv y (move (set xs) (InCache t) own) ?h"
    using assms(1) by (simp add: heap_inv_def list_inv_def set_tls_def m)
  moreover have "slots_inv y (move (set xs) (InCache t) own) ?h"
    using assms(1) by (auto simp: heap_inv_def slots_inv_def set_tls_def m) (auto simp: move_def split: if_splits)
  ultimately show ?thesis by (simp add: heap_inv_def)
qed

text \<open>Nodes in hand are put in front of the list; the front of the list is taken.\<close>

lemma inv_give_list:
  assumes "heap_inv y own h" and "distinct xs" and "xs \<noteq> []" and "set xs \<subseteq> at y own Leased"
  shows "heap_inv y (move (set xs) InList own) (h\<lparr>hp_next := (link_nodes xs (hp_next h))(last xs := hp_head h),
      hp_head := Some (hd xs), hp_count := hp_count h + of_nat (length xs)\<rparr>)"
proof -
  let ?f = "(link_nodes xs (hp_next h))(last xs := hp_head h)"
  let ?own = "move (set xs) InList own"
  have lt: "set xs \<subseteq> {..<y}" using assms(4) at_lt by blast
  have other: "?f n = hp_next h n" if "n \<notin> set xs" for n
    using that assms(3) link_nodes_other [of n xs] by auto
  from assms(1) obtain gl where gl: "chain (hp_next h) (hp_head h) gl" "distinct gl" "set gl = at y own InList"
    "hp_count h = of_nat (length gl)" by (auto simp: heap_inv_def list_inv_def)
  have dis: "set xs \<inter> set gl = {}" using assms(4) gl(3) at_disjoint [of Leased InList y own] by auto
  have l: "chain ?f (Some (hd xs)) (xs @ gl)" by (rule link_nodes_chain [OF assms(2,3) gl(1) dis])
  have m: "at y ?own q = at y own q" if "q \<noteq> Leased" "q \<noteq> InList" for q
    using that at_disjoint [of q Leased y own] assms(4) by (auto simp: at_move [OF lt])
  have "heap_inv y own (h\<lparr>hp_next := ?f\<rparr>)"
  proof (rule inv_links [OF assms(1), where t = "[]"])
    fix n assume "n < y" "own n \<noteq> Leased"
    with assms(4) have "n \<notin> set xs" by (auto simp: at_def)
    then show "?f n = hp_next h n" by (rule other)
  qed
  then have "slots_inv y own (h\<lparr>hp_next := ?f\<rparr>)" "tls_inv y own (h\<lparr>hp_next := ?f\<rparr>)" by (simp_all add: heap_inv_def)
  then have "slots_inv y ?own (h\<lparr>hp_next := ?f, hp_head := Some (hd xs), hp_count := hp_count h + of_nat (length xs)\<rparr>)"
    "tls_inv y ?own (h\<lparr>hp_next := ?f, hp_head := Some (hd xs), hp_count := hp_count h + of_nat (length xs)\<rparr>)"
    using m by (auto simp: slots_inv_def tls_inv_def cached_def move_def split: if_splits)
  moreover have "list_inv y ?own (h\<lparr>hp_next := ?f, hp_head := Some (hd xs), hp_count := hp_count h + of_nat (length xs)\<rparr>)"
    unfolding list_inv_def using l gl dis assms(2)
    by (intro exI [of _ "xs @ gl"]) (auto simp: at_move [OF lt])
  ultimately show ?thesis by (simp add: heap_inv_def)
qed

lemma inv_take_list:
  assumes "heap_inv y own h" and "chain (hp_next h) (hp_head h) (pre @ rest)" and "chain (hp_next h) p rest"
  shows "heap_inv y (move (set pre) Leased own) (h\<lparr>hp_head := p, hp_count := hp_count h - of_nat (length pre)\<rparr>)"
    and "distinct pre" and "set pre \<subseteq> at y own InList"
proof -
  from assms(1) obtain gl where gl: "chain (hp_next h) (hp_head h) gl" "distinct gl" "set gl = at y own InList"
    "hp_count h = of_nat (length gl)" by (auto simp: heap_inv_def list_inv_def)
  have "gl = pre @ rest" using chain_unique [OF gl(1) assms(2)] .
  note gl = gl [unfolded this]
  show d: "distinct pre" and sub: "set pre \<subseteq> at y own InList" using gl by auto
  have lt: "set pre \<subseteq> {..<y}" using sub at_lt by blast
  have m: "at y (move (set pre) Leased own) q = (if q = InList then set rest else at y own q)" if "q \<noteq> Leased" for q
    using that gl at_disjoint [of q InList y own] by (auto simp: at_move [OF lt])
  let ?h = "h\<lparr>hp_head := p, hp_count := hp_count h - of_nat (length pre)\<rparr>"
  have "tls_inv y (move (set pre) Leased own) ?h" "slots_inv y (move (set pre) Leased own) ?h"
    using assms(1) by (auto simp: heap_inv_def tls_inv_def slots_inv_def cached_def m) (auto simp: move_def split: if_splits)
  moreover have "list_inv y (move (set pre) Leased own) ?h" unfolding list_inv_def
    using assms(3) gl m [of InList] by (intro exI [of _ rest]) simp
  ultimately show "heap_inv y (move (set pre) Leased own) ?h" by (simp add: heap_inv_def)
qed

text \<open>One node to a recovery stack and back, into a cache and out of it.\<close>

lemma recovery_index_lt: "recovery_index tid < 64"
proof -
  let ?v = "foldl (\<lambda>h b. (h XOR ucast b) * 1099511628211) (1469598103934665603 :: u64) tid"
  have "?v mod 64 < 64" by (rule word_mod_less_divisor) simp
  then show ?thesis by (simp add: recovery_index_def word_less_nat_alt)
qed

lemma inv_recovery_push:
  assumes "heap_inv y own h" and "n \<in> at y own Leased"
  shows "heap_inv y (move {n} (InSlot (recovery_index t)) own) (recovery_push t n h)"
proof -
  let ?i = "recovery_index t" and ?f = "(hp_next h)(n := hp_slots h ! recovery_index t)"
  let ?own = "move {n} (InSlot ?i) own"
  note i = recovery_index_lt [of t]
  have lt: "{n} \<subseteq> {..<y}" using assms(2) by (auto simp: at_def)
  have m: "at y ?own q = (if q = InSlot ?i then insert n (at y own q) else at y own q)" if "q \<noteq> Leased" for q
    using that assms(2) at_disjoint [of q Leased y own] by (auto simp: at_move [OF lt])
  have f: "heap_inv y own (h\<lparr>hp_next := ?f\<rparr>)"
    by (rule inv_links [OF assms(1), where t = "[]"]) (use assms(2) in \<open>auto simp: at_def\<close>)
  let ?h = "recovery_push t n h"
  have h: "hp_next ?h = ?f" "hp_slots ?h = (hp_slots h)[?i := Some n]" "hp_head ?h = hp_head h"
    "hp_count ?h = hp_count h" "hp_tls ?h = hp_tls h" by (simp_all add: recovery_push_def Let_def)
  have "slots_inv y ?own ?h" unfolding slots_inv_def
  proof (intro conjI allI impI)
    fix k :: nat assume k: "k < 64"
    from f k obtain sl where sl: "chain ?f (hp_slots h ! k) sl" "distinct sl" "set sl = at y own (InSlot k)"
      by (auto simp: heap_inv_def slots_inv_def)
    have "n \<notin> set sl" using sl(3) assms(2) by (auto simp: at_def)
    have len: "length (hp_slots h) = 64" using assms(1) by (simp add: heap_inv_def slots_inv_def)
    show "\<exists>sl. chain (hp_next ?h) (hp_slots ?h ! k) sl \<and> distinct sl \<and> set sl = at y ?own (InSlot k)"
    proof (cases "k = ?i")
      case True
      then have "chain ?f (Some n) (n # sl)" using sl(1) by simp
      then show ?thesis using True sl \<open>n \<notin> set sl\<close> i len by (intro exI [of _ "n # sl"]) (simp add: h m del: fun_upd_apply)
    next
      case False
      then show ?thesis using sl by (intro exI [of _ sl]) (simp add: h m del: fun_upd_apply)
    qed
  next
    fix x k assume "x < y" "?own x = InSlot k"
    then show "k < 64" using i assms(1) by (auto simp: move_def heap_inv_def slots_inv_def split: if_splits)
  qed (use assms(1) in \<open>simp add: h heap_inv_def slots_inv_def\<close>)
  moreover have "list_inv y ?own ?h" "tls_inv y ?own ?h"
    using f by (simp_all add: heap_inv_def list_inv_def tls_inv_def cached_def h m)
  ultimately show ?thesis by (simp add: heap_inv_def)
qed

lemma inv_slot_pop:
  assumes "heap_inv y own h" and "i < 64" and "hp_slots h ! i = Some n"
  shows "n \<in> at y own (InSlot i)"
    and "heap_inv y (move {n} Leased own) (h\<lparr>hp_slots := (hp_slots h)[i := hp_next h n]\<rparr>)"
proof -
  from assms obtain sl where sl: "chain (hp_next h) (Some n) (n # sl)" "distinct (n # sl)" "set (n # sl) = at y own (InSlot i)"
    by (auto simp: heap_inv_def slots_inv_def chain_Some dest!: spec [of _ i])
  then show n: "n \<in> at y own (InSlot i)" by auto
  then have lt: "{n} \<subseteq> {..<y}" by (auto simp: at_def)
  have m: "at y (move {n} Leased own) q = (if q = InSlot i then set sl else at y own q)" if "q \<noteq> Leased" for q
    using that sl at_disjoint [of q "InSlot i" y own] by (auto simp: at_move [OF lt])
  let ?h = "h\<lparr>hp_slots := (hp_slots h)[i := hp_next h n]\<rparr>"
  have "slots_inv y (move {n} Leased own) ?h" unfolding slots_inv_def
  proof (intro conjI allI impI)
    fix k :: nat assume k: "k < 64"
    from assms(1) k obtain sl' where "chain (hp_next h) (hp_slots h ! k) sl'" "distinct sl'" "set sl' = at y own (InSlot k)"
      by (auto simp: heap_inv_def slots_inv_def)
    with k sl assms(1,2) show "\<exists>sl. chain (hp_next ?h) (hp_slots ?h ! k) sl \<and> distinct sl \<and> set sl = at y (move {n} Leased own) (InSlot k)"
      by (cases "k = i") (auto simp: m heap_inv_def slots_inv_def)
  next
    fix x k assume "x < y" "move {n} Leased own x = InSlot k"
    then show "k < 64" using assms(1) by (auto simp: move_def heap_inv_def slots_inv_def split: if_splits)
  qed (use assms(1) in \<open>simp add: heap_inv_def slots_inv_def\<close>)
  moreover have "list_inv y (move {n} Leased own) ?h" "tls_inv y (move {n} Leased own) ?h"
    using assms(1) by (simp_all add: heap_inv_def list_inv_def tls_inv_def cached_def m)
  ultimately show "heap_inv y (move {n} Leased own) ?h" by (simp add: heap_inv_def)
qed

lemma inv_probe:
  assumes "heap_inv y own h"
  shows "case recovery_probe start prob k h of
      (None, h') \<Rightarrow> h' = h \<and> (\<forall>j<k. hp_slots h ! ((start + prob + j) mod 64) = None)
    | (Some n, h') \<Rightarrow> n < y \<and> own n \<noteq> Leased \<and> heap_inv y (move {n} Leased own) h' \<and> hp_mtx_ok h' = hp_mtx_ok h"
proof (induction k arbitrary: prob)
  case (Suc k)
  let ?i = "(start + prob) mod 64"
  have i: "?i < 64" by simp
  show ?case
  proof (cases "hp_slots h ! ?i")
    case None
    have "(\<forall>j<Suc k. hp_slots h ! ((start + prob + j) mod 64) = None) \<longleftrightarrow>
        (\<forall>j<k. hp_slots h ! ((start + Suc prob + j) mod 64) = None)"
      using None by (auto simp: All_less_Suc2)
    then show ?thesis using Suc.IH [of "Suc prob"] None by (auto simp: Let_def split: prod.splits option.splits)
  next
    case (Some n)
    from inv_slot_pop [OF assms i this] Some show ?thesis by (auto simp: Let_def at_def)
  qed
qed simp

lemma probe_all: "(\<forall>j<64. P ((start + 0 + j) mod 64)) \<longleftrightarrow> (\<forall>i<64 :: nat. P i)" if "start < 64"
proof
  assume a: "\<forall>j<64. P ((start + 0 + j) mod 64)"
  show "\<forall>i<64. P i"
  proof (intro allI impI)
    fix i :: nat assume "i < 64"
    then have "(start + 0 + (i + 64 - start) mod 64) mod 64 = i" using that by (simp add: mod_simps)
    then show "P i" using a [rule_format, of "(i + 64 - start) mod 64"] by simp
  qed
qed simp

lemma inv_pop_tls:
  assumes "heap_inv y own h" and "0 < tls_top (hp_tls h t)" and "pop_tls t h = (n, h')"
  shows "n \<in> at y own (InCache t) \<and> heap_inv y (move {n} Leased own) h'"
proof -
  let ?k = "tls_top (hp_tls h t) - 1" and ?st = "tls_stack (hp_tls h t)"
  have inv: "tls_top (hp_tls h t) \<le> 64" "length ?st = 64" "distinct (cached h t)" "set (cached h t) = at y own (InCache t)"
    using assms(1) by (auto simp: heap_inv_def tls_inv_def)
  have split: "cached h t = take ?k ?st @ [n]"
    using assms(2,3) inv(1,2) by (auto simp: cached_def pop_tls_def Let_def take_Suc_conv_app_nth [symmetric])
  let ?e = "set_tls t (\<lambda>s. s\<lparr>tls_top := 0\<rparr>) h"
  let ?o = "move (at y own (InCache t)) Leased own"
  have e: "heap_inv y ?o ?e" by (rule inv_empty_cache [OF assms(1)])
  have hand: "set (take ?k ?st) \<subseteq> at y ?o Leased" using inv(4) split by (auto simp: at_def move_def)
  have "heap_inv y (move (set (take ?k ?st)) (InCache t) ?o) (set_tls t (\<lambda>s. s\<lparr>tls_top := ?k, tls_stack := ?st\<rparr>) ?e)"
    by (rule inv_fill_cache [OF e _ _ hand]) (use inv split in \<open>simp_all add: set_tls_def\<close>)
  moreover have "set_tls t (\<lambda>s. s\<lparr>tls_top := ?k, tls_stack := ?st\<rparr>) ?e = h'"
    using assms(3) by (auto simp: pop_tls_def set_tls_def Let_def)
  moreover have "x \<in> {n} \<longleftrightarrow> x \<in> at y own (InCache t) \<and> x \<notin> set (take ?k ?st)" for x
    using inv(3,4) split by auto
  then have "move (set (take ?k ?st)) (InCache t) ?o = move {n} Leased own"
    using inv(4) split by (intro ext) (auto simp: move_def at_def)
  ultimately show ?thesis using inv(4) split by auto
qed

lemma inv_push_tls:
  assumes "heap_inv y own h" and "tls_top (hp_tls h t) < 64" and "n \<in> at y own Leased"
  shows "heap_inv y (move {n} (InCache t) own) (push_tls t n h)"
proof -
  let ?k = "tls_top (hp_tls h t)" and ?st = "tls_stack (hp_tls h t)"
  have inv: "length ?st = 64" "distinct (cached h t)" "set (cached h t) = at y own (InCache t)"
    using assms(1) by (auto simp: heap_inv_def tls_inv_def)
  let ?e = "set_tls t (\<lambda>s. s\<lparr>tls_top := 0\<rparr>) h" and ?o = "move (at y own (InCache t)) Leased own"
  have e: "heap_inv y ?o ?e" by (rule inv_empty_cache [OF assms(1)])
  have new: "n \<notin> set (cached h t)" using assms(3) inv(3) by (auto simp: at_def)
  have hand: "set (cached h t @ [n]) \<subseteq> at y ?o Leased" using assms(3) inv(3) by (auto simp: at_def move_def)
  have stack: "take (?k + 1) (?st[?k := n]) = cached h t @ [n]"
    using assms(2) inv(1) by (simp add: cached_def take_Suc_conv_app_nth)
  have "heap_inv y (move (set (cached h t @ [n])) (InCache t) ?o)
      (set_tls t (\<lambda>s. s\<lparr>tls_top := ?k + 1, tls_stack := ?st[?k := n]\<rparr>) ?e)"
    by (rule inv_fill_cache [OF e _ _ hand _ _ stack]) (use assms(2) inv new in \<open>simp_all add: set_tls_def\<close>)
  moreover have "set_tls t (\<lambda>s. s\<lparr>tls_top := ?k + 1, tls_stack := ?st[?k := n]\<rparr>) ?e = push_tls t n h"
    by (cases "hp_tls h t") (simp add: push_tls_def set_tls_def)
  moreover have "move (set (cached h t @ [n])) (InCache t) ?o = move {n} (InCache t) own"
    using inv(3) by (intro ext) (auto simp: move_def at_def)
  ultimately show ?thesis by simp
qed

section \<open>The pool as a set of leased nodes\<close>

text \<open>
  \<open>heap_ok y L h\<close>: every node below \<open>y\<close> is in exactly one place, and those in \<open>L\<close> are with callers.
\<close>

definition heap_ok :: "nat \<Rightarrow> nat set \<Rightarrow> static_heap \<Rightarrow> bool" where
  "heap_ok y L h \<longleftrightarrow> (\<exists>own. heap_inv y own h \<and> L = at y own Leased)"

lemma heap_okI: "heap_inv y own h \<Longrightarrow> L = at y own Leased \<Longrightarrow> heap_ok y L h"
  by (auto simp: heap_ok_def)

lemma leased_move: "n < y \<Longrightarrow> at y (move {n} Leased own) Leased = insert n (at y own Leased)"
  using at_move [of "{n}" y Leased own Leased] by auto

lemma returned_move: "n \<in> at y own Leased \<Longrightarrow> p \<noteq> Leased \<Longrightarrow> at y (move {n} p own) Leased = at y own Leased - {n}"
  using at_move [of "{n}" y p own Leased] by (auto simp: at_def)

text \<open>A heap after linking and no caller yet.\<close>

lemma init_ok:
  assumes "ready_mtx e h" and "lock_works e" and "0 < y" and "\<And>t. tls_top (hp_tls h t) = 0 \<and> length (tls_stack (hp_tls h t)) = 64"
  shows "heap_ok y {} (init_static_heap e y tid h)"
proof -
  let ?h = "init_static_heap e y tid h" and ?own = "\<lambda>n. InList"
  have h: "hp_next ?h = (link_nodes [0..<y] (hp_next h))(y - 1 := None)" "hp_head ?h = Some 0" "hp_count ?h = of_nat y"
    "hp_slots ?h = replicate 64 None" "tls_top (hp_tls ?h t) = 0" "tls_stack (hp_tls ?h t) = tls_stack (hp_tls h t)" for t
    using assms by (simp_all add: init_static_heap_def lock_global_eq set_tls_def split: if_splits)
  have l: "last [0..<y] = y - 1" "hd [0..<y] = 0" "[0..<y] \<noteq> []" using assms(3) by simp_all
  have "chain ((link_nodes [0..<y] (hp_next h))(last [0..<y] := None)) (Some (hd [0..<y])) ([0..<y] @ [])"
    by (rule link_nodes_chain) (use l in auto)
  then have "list_inv y ?own ?h" unfolding list_inv_def l h
    by (intro exI [of _ "[0..<y]"]) (auto simp: at_def)
  moreover have "slots_inv y ?own ?h" unfolding slots_inv_def h by (auto simp: at_def intro!: exI [of _ "[]"])
  moreover have "tls_inv y ?own ?h" unfolding tls_inv_def cached_def h using assms(4) by (auto simp: at_def)
  ultimately show ?thesis by (intro heap_okI [of y ?own]) (auto simp: heap_inv_def at_def)
qed

lemma refill_locked_ok:
  assumes inv: "heap_inv y own h" and head: "hp_head h = Some a" and top: "tls_top (hp_tls h t) = 0"
    and res: "refill_locked t a h = (n, h')"
  shows "n < y \<and> own n \<noteq> Leased \<and> (\<exists>own'. heap_inv y own' h' \<and> at y own' Leased = insert n (at y own Leased))"
proof -
  from inv obtain gl where "chain (hp_next h) (hp_head h) gl" "distinct gl" by (auto simp: heap_inv_def list_inv_def)
  with head obtain xs where gl: "chain (hp_next h) (Some a) (a # xs)" "distinct (a # xs)" by (auto simp: chain_Some)
  let ?w = "refill_want (hp_count h) - 1"
  from take_nodes_spec [OF gl(1), of ?w "[]"] obtain k where k: "k \<le> length xs" "k \<le> ?w"
    "take_nodes (hp_next h) ?w a [] = ((a # xs) ! k, take k (a # xs))"
    "chain (hp_next h) (hp_next h ((a # xs) ! k)) (drop (Suc k) (a # xs))" by auto
  have k64: "k \<le> 31" using k(2) by (simp add: refill_want_def Let_def split: if_splits)
  let ?st = "take k (a # xs)" and ?pre = "take (Suc k) (a # xs)"
  have n: "n = (a # xs) ! k" using res k(3) by (simp add: refill_locked_def)
  have len: "length ?st = k" "length ?pre = Suc k" using k(1) by simp_all
  have pre: "?pre = ?st @ [n]" unfolding n by (rule take_Suc_conv_app_nth) (use k(1) in simp)
  have ch: "chain (hp_next h) (hp_head h) (?pre @ drop (Suc k) (a # xs))" using gl(1) head by (simp only: append_take_drop_id)
  note tk = inv_take_list [OF inv ch k(4) [folded n]]
  let ?h1 = "h\<lparr>hp_head := hp_next h n, hp_count := hp_count h - of_nat (length ?pre)\<rparr>"
  let ?o = "move (set ?pre) Leased own"
  have hand: "set ?st \<subseteq> at y ?o Leased" using tk(3) at_lt [of y own InList] unfolding pre by (auto simp: at_def move_def)
  let ?stack = "?st @ drop (length ?st) (tls_stack (hp_tls h t))"
  have st64: "length (tls_stack (hp_tls h t)) = 64" using inv by (auto simp: heap_inv_def tls_inv_def)
  have "heap_inv y (move (set ?st) (InCache t) ?o) (set_tls t (\<lambda>s. s\<lparr>tls_top := length ?st, tls_stack := ?stack\<rparr>) ?h1)"
    by (rule inv_fill_cache [OF tk(1) _ _ hand]) (use top gl(2) len k64 st64 tk(2) pre in auto)
  moreover have "set_tls t (\<lambda>s. s\<lparr>tls_top := length ?st, tls_stack := ?stack\<rparr>) ?h1 = h'"
    using res k(3) len by (auto simp: refill_locked_def set_tls_def n)
  moreover have nin: "n \<in> at y own InList" "n \<notin> set ?st" using tk(2,3) unfolding pre by auto
  moreover have "at y (move (set ?st) (InCache t) ?o) Leased = insert n (at y own Leased)"
    using nin tk(3) unfolding pre by (auto simp: at_def move_def)
  ultimately show ?thesis by (auto simp: at_def)
qed

text \<open>The contract of a lease: on success a node that nobody has, otherwise nothing moved.\<close>

definition leased_by :: "nat \<Rightarrow> nat set \<Rightarrow> (yumi_memory_alloc_error_enum + nat) \<times> static_heap \<Rightarrow> bool" where
  "leased_by y L res = (case res of
     (Inl err, h) \<Rightarrow> heap_ok y L h
   | (Inr n, h) \<Rightarrow> n < y \<and> n \<notin> L \<and> heap_ok y (insert n L) h)"

lemma recover_ok:
  assumes "heap_inv y own h"
  shows "leased_by y (at y own Leased) (refill_recover t h)"
proof -
  obtain v h' where v: "recovery_probe (recovery_index t) 0 64 h = (v, h')"
    by (cases "recovery_probe (recovery_index t) 0 64 h")
  note pr = inv_probe [OF assms, where start = "recovery_index t" and prob = 0 and k = 64, unfolded v]
  show ?thesis
  proof (cases v)
    case None
    then show ?thesis using pr assms by (auto simp: refill_recover_def recovery_pop_any_def v leased_by_def intro: heap_okI)
  next
    case (Some n)
    then show ?thesis using pr leased_move [of n y own]
      by (auto simp: refill_recover_def recovery_pop_any_def v leased_by_def at_def intro: heap_okI)
  qed
qed

lemma refill_ok:
  assumes "heap_inv y own h" and top: "tls_top (hp_tls h t) = 0"
  shows "leased_by y (at y own Leased) (refill_from_global e t h)"
proof -
  obtain b h1 where e: "ensure_tls e t h = (b, h1)" by (cases "ensure_tls e t h")
  obtain c h2 where l: "lock_global e h1 = (c, h2)" by (cases "lock_global e h1")
  have i1: "heap_inv y own h1" using heap_inv_ensure [OF e] assms(1) by simp
  then have i2: "heap_inv y own h2" using heap_inv_lock [OF l] by simp
  have t2: "tls_top (hp_tls h2 t) = 0" using ensure_frame [OF e] lock_frame [OF l] top by simp
  have "leased_by y (at y own Leased) (case refill_locked t a h2 of (n, h3) \<Rightarrow> (Inr n, h3))" if "hp_head h2 = Some a" for a
    using refill_locked_ok [OF i2 that t2] by (cases "refill_locked t a h2") (auto simp: leased_by_def at_def heap_ok_def)
  then show ?thesis using recover_ok [OF i2, of t] i1
    by (auto simp: refill_from_global_def e l split: option.splits) (auto simp: leased_by_def heap_ok_def)
qed

lemma lease_ok:
  assumes "heap_ok y L h"
  shows "leased_by y L (lease_inline e t out h)"
proof -
  from assms obtain own where own: "heap_inv y own h" "L = at y own Leased" by (auto simp: heap_ok_def)
  obtain n h' where p: "pop_tls t h = (n, h')" by (cases "pop_tls t h")
  have "leased_by y L (Inr n, h')" if "0 < tls_top (hp_tls h t)"
    using inv_pop_tls [OF own(1) that p] leased_move [of n y own] own(2)
    by (auto simp: leased_by_def at_def intro: heap_okI)
  moreover have "leased_by y L (Inl err, h)" for err using assms by (simp add: leased_by_def)
  ultimately show ?thesis using refill_ok [OF own(1), of t e] own(2) p by (auto simp: lease_inline_def)
qed

lemma spill_ok:
  assumes inv: "heap_inv y own h" and full: "tls_top (hp_tls h t) = 64" and n: "n \<in> at y own Leased"
    and res: "spill_to_global e t n h = (b, h')"
  shows "b \<and> heap_ok y (at y own Leased - {n}) h'"
proof -
  obtain c h1 where l: "lock_global e h = (c, h1)" by (cases "lock_global e h")
  have i1: "heap_inv y own h1" using heap_inv_lock [OF l] inv by simp
  show ?thesis
  proof (cases c)
    case False
    then have "h' = recovery_push t n h1" b using res by (simp_all add: spill_to_global_def l)
    then show ?thesis using inv_recovery_push [OF i1 n] returned_move [OF n] by (auto intro!: heap_okI)
  next
    case True
    let ?st = "tls_stack (hp_tls h1 t)"
    have t1: "hp_tls h1 = hp_tls h" using lock_frame [OF l] by simp
    have inv1: "length ?st = 64" "distinct ?st" "set ?st = at y own (InCache t)"
      using i1 full t1 unfolding heap_inv_def tls_inv_def cached_def by (metis take_all order_refl)+
    let ?low = "take 32 ?st" and ?high = "drop 32 ?st"
    let ?o = "move (at y own (InCache t)) Leased own"
    let ?e = "set_tls t (\<lambda>s. s\<lparr>tls_top := 0\<rparr>) h1"
    have e: "heap_inv y ?o ?e" by (rule inv_empty_cache [OF i1])
    have parts: "set ?low \<inter> set ?high = {}" "distinct ?low" "distinct ?high" "set ?low \<union> set ?high = set ?st"
      using inv1(2) set_take_disj_set_drop_if_distinct [of ?st 32 32] by (auto simp flip: set_append)
    have sub: "set ?low \<subseteq> set ?st" "set ?high \<subseteq> set ?st" by (rule set_take_subset, rule set_drop_subset)
    have new: "n \<notin> set ?st" using n inv1(3) by (auto simp: at_def)
    have low: "?low \<noteq> []" "set ?low \<subseteq> at y ?o Leased" using inv1 set_take_subset [of 32 ?st] by (auto simp: at_def move_def)
    note g = inv_give_list [OF e parts(2) low]
    let ?g = "?e\<lparr>hp_next := (link_nodes ?low (hp_next ?e))(last ?low := hp_head ?e),
      hp_head := Some (hd ?low), hp_count := hp_count ?e + of_nat (length ?low)\<rparr>"
    let ?og = "move (set ?low) InList ?o"
    have hand: "set (?high @ [n]) \<subseteq> at y ?og Leased"
      using parts(1) sub inv1(3) n new by (auto simp: at_def move_def)
    have stack: "take 33 (?high @ n # drop 33 ?st) = ?high @ [n]" using inv1(1) by simp
    have "heap_inv y (move (set (?high @ [n])) (InCache t) ?og)
        (set_tls t (\<lambda>s. s\<lparr>tls_top := 33, tls_stack := ?high @ n # drop 33 ?st\<rparr>) ?g)"
      by (rule inv_fill_cache [OF g _ _ hand _ _ stack]) (use inv1 parts(3,4) new in \<open>auto simp: set_tls_def\<close>)
    moreover have "set_tls t (\<lambda>s. s\<lparr>tls_top := 33, tls_stack := ?high @ n # drop 33 ?st\<rparr>) ?g = h'" b
      using res True inv1(1) by (auto simp: spill_to_global_def l Let_def set_tls_def)
    moreover have "at y (move (set (?high @ [n])) (InCache t) ?og) Leased = at y own Leased - {n}"
    proof -
      have lt: "set ?low \<subseteq> {..<y}" "set (?high @ [n]) \<subseteq> {..<y}" using low(2) hand at_lt by blast+
      have o: "at y ?o Leased = at y own Leased \<union> set ?st"
        using at_move [of "at y own (InCache t)" y Leased own Leased, OF at_lt] inv1(3) by simp
      show ?thesis unfolding at_move [OF lt(2)] at_move [OF lt(1)] o
        using at_disjoint [of Leased "InCache t" y own] inv1(3) parts(4) by auto
    qed
    ultimately show ?thesis by (auto simp: heap_ok_def)
  qed
qed

lemma put_ok:
  assumes "heap_ok y L h" and "n \<in> L"
  shows "tls_top (hp_tls h t) < 64 \<Longrightarrow> heap_ok y (L - {n}) (push_tls t n h)"
    and "\<not> tls_top (hp_tls h t) < 64 \<Longrightarrow> spill_to_global e t n h = (b, h') \<Longrightarrow> b \<and> heap_ok y (L - {n}) h'"
proof -
  from assms obtain own where own: "heap_inv y own h" "L = at y own Leased" by (auto simp: heap_ok_def)
  have n: "n \<in> at y own Leased" using assms(2) own(2) by simp
  show "tls_top (hp_tls h t) < 64 \<Longrightarrow> heap_ok y (L - {n}) (push_tls t n h)"
    using inv_push_tls [OF own(1) _ n] returned_move [OF n] own(2) by (auto intro!: heap_okI)
  have "tls_top (hp_tls h t) \<le> 64" using own(1) by (auto simp: heap_inv_def tls_inv_def)
  then show "\<not> tls_top (hp_tls h t) < 64 \<Longrightarrow> spill_to_global e t n h = (b, h') \<Longrightarrow> b \<and> heap_ok y (L - {n}) h'"
    using spill_ok [OF own(1) _ n] own(2) by auto
qed

lemma heap_ok_ensure: "ensure_tls e t h = (b, h') \<Longrightarrow> heap_ok y L h' = heap_ok y L h"
  by (simp add: heap_ok_def heap_inv_ensure)

text \<open>A release that succeeds takes the node back; one that fails leaves it with the caller.\<close>

lemma release_ok:
  assumes "heap_ok y L h" and "n \<in> L" and "release_inline e t (Some n) h = (err, h')"
  shows "(err = YUMI_MEMORY_ALLOC_SUCCESS \<and> heap_ok y (L - {n}) h')
    \<or> (err = YUMI_MEMORY_ALLOC_INTERNAL_ERROR \<and> \<not> (ready_key e h \<and> tss_works e) \<and> heap_ok y L h')"
proof -
  obtain b h1 where e: "ensure_tls e t h = (b, h1)" by (cases "ensure_tls e t h")
  obtain c h2 where s: "spill_to_global e t n h1 = (c, h2)" by (cases "spill_to_global e t n h1")
  have h1: "heap_ok y L h1" using heap_ok_ensure [OF e] assms(1) by simp
  have "\<not> b \<Longrightarrow> \<not> (ready_key e h \<and> tss_works e)" using e by (auto simp: ensure_tls_def register_tls_def Let_def split: if_splits)
  then show ?thesis using put_ok [OF h1 assms(2), of t] put_ok(2) [OF h1 assms(2) _ s] assms(3) h1
    by (auto simp: release_inline_def e s split: if_splits)
qed

lemma release_ptr_ok:
  assumes "heap_ok y L h" and "n \<in> L"
  shows "heap_ok y (L - {n}) (release_ptr e t n h)"
proof -
  obtain c h2 where s: "spill_to_global e t n h = (c, h2)" by (cases "spill_to_global e t n h")
  show ?thesis using put_ok [OF assms, of t] put_ok(2) [OF assms _ s] by (simp add: release_ptr_def s)
qed

lemma lease_ptr_inline: "lease_ptr e t h = (case lease_inline e t True h of (Inl _, h') \<Rightarrow> (None, h') | (Inr n, h') \<Rightarrow> (Some n, h'))"
  by (auto simp: lease_ptr_def lease_inline_def split: prod.splits)

lemma push_all_ok:
  assumes "heap_inv y own h" and "distinct xs" and "set xs \<subseteq> at y own Leased"
  shows "\<exists>own'. heap_inv y own' (fold (recovery_push t) xs h) \<and> at y own' Leased = at y own Leased - set xs"
  using assms
proof (induction xs arbitrary: own h)
  case (Cons x xs)
  then have x: "x \<in> at y own Leased" by simp
  let ?o = "move {x} (InSlot (recovery_index t)) own"
  have r: "at y ?o Leased = at y own Leased - {x}" by (rule returned_move [OF x]) simp
  from Cons.IH [OF inv_recovery_push [OF Cons.prems(1) x]] Cons.prems(2,3) r show ?case by fastforce
qed auto

lemma set_tls_push: "set_tls t f (recovery_push u n h) = recovery_push u n (set_tls t f h)"
  by (simp add: set_tls_def recovery_push_def Let_def)

lemma set_tls_push_all: "set_tls t f (fold (recovery_push u) xs h) = fold (recovery_push u) xs (set_tls t f h)"
  by (induction xs arbitrary: h) (simp_all add: set_tls_push)

lemma flush_ok:
  assumes "heap_ok y L h"
  shows "heap_ok y L (tls_flush e t h)"
proof (cases "tls_top (hp_tls h t) = 0")
  case True
  then show ?thesis using assms by (simp add: tls_flush_def)
next
  case False
  from assms obtain own where own: "heap_inv y own h" "L = at y own Leased" by (auto simp: heap_ok_def)
  let ?xs = "cached h t"
  have inv: "distinct ?xs" "set ?xs = at y own (InCache t)" "tls_top (hp_tls h t) \<le> 64" "length (tls_stack (hp_tls h t)) = 64"
    using own(1) by (auto simp: heap_inv_def tls_inv_def)
  have len: "length ?xs = tls_top (hp_tls h t)" "?xs \<noteq> []" using False inv(3,4) by (auto simp: cached_def)
  let ?o = "move (at y own (InCache t)) Leased own" and ?e = "set_tls t (\<lambda>s. s\<lparr>tls_top := 0\<rparr>) h"
  have e: "heap_inv y ?o ?e" by (rule inv_empty_cache [OF own(1)])
  have hand: "set ?xs \<subseteq> at y ?o Leased" using inv(2) by (auto simp: at_def move_def)
  have L: "at y ?o Leased - set ?xs = L"
    unfolding at_move [of "at y own (InCache t)" y Leased own Leased, OF at_lt] inv(2) own(2)
    using at_disjoint [of Leased "InCache t" y own] by auto
  let ?f = "link_nodes ?xs (hp_next h)"
  note c = cached_def [of h t, symmetric]
  show ?thesis
  proof (cases "ready_mtx e h \<and> lock_works e")
    case True
    let ?g = "?e\<lparr>hp_next := (link_nodes ?xs (hp_next ?e))(last ?xs := hp_head ?e), hp_head := Some (hd ?xs),
      hp_count := hp_count ?e + of_nat (length ?xs)\<rparr>"
    have g: "heap_inv y (move (set ?xs) InList ?o) ?g" by (rule inv_give_list [OF e inv(1) len(2) hand])
    have "tls_flush e t h = ?g\<lparr>hp_mtx_once := True, hp_mtx_ok := ready_mtx e h\<rparr>"
      using True False len(1) by (auto simp: tls_flush_def Let_def lock_global_eq set_tls_def c)
    moreover have "heap_inv y (move (set ?xs) InList ?o) (?g\<lparr>hp_mtx_once := True, hp_mtx_ok := ready_mtx e h\<rparr>)"
      using g by (simp add: heap_inv_def list_inv_def slots_inv_def tls_inv_def cached_def)
    moreover have "at y (move (set ?xs) InList ?o) Leased = L"
      using L hand at_lt [of y ?o Leased] by (subst at_move) auto
    ultimately show ?thesis by (auto simp: heap_ok_def)
  next
    case nolock: False
    let ?h2 = "?e\<lparr>hp_next := ?f\<rparr>\<lparr>hp_mtx_once := True, hp_mtx_ok := ready_mtx e h\<rparr>"
    have "heap_inv y ?o (?e\<lparr>hp_next := ?f\<rparr>)"
    proof (rule inv_links [OF e, where t = "[]"])
      fix n assume "n < y" "?o n \<noteq> Leased"
      with hand have "n \<notin> set ?xs" by (auto simp: at_def)
      then show "?f n = hp_next ?e n" by (simp add: link_nodes_other set_tls_def)
    qed
    then have "heap_inv y ?o ?h2" by (simp add: heap_inv_def list_inv_def slots_inv_def tls_inv_def cached_def)
    from push_all_ok [OF this inv(1) hand, of t] L obtain own' where
      "heap_inv y own' (fold (recovery_push t) ?xs ?h2)" "at y own' Leased = L" by auto
    moreover have "tls_flush e t h = fold (recovery_push t) ?xs ?h2"
    proof -
      have "set_tls t (\<lambda>s. s\<lparr>tls_top := 0\<rparr>) (h\<lparr>hp_next := ?f\<rparr>\<lparr>hp_mtx_once := True, hp_mtx_ok := ready_mtx e h\<rparr>) = ?h2"
        by (cases h) (simp add: set_tls_def)
      then show ?thesis using nolock False by (auto simp: tls_flush_def Let_def lock_global_eq set_tls_push_all c)
    qed
    ultimately show ?thesis by (auto simp: heap_ok_def)
  qed
qed

section \<open>The contract of a pool\<close>

text \<open>
  What a caller relies on: a context (environment and thread) can get a node nobody has, or none, and
  give back one it has.
\<close>

locale object_pool =
  fixes ok :: "nat set \<Rightarrow> 'h \<Rightarrow> bool"
    and get :: "'c \<Rightarrow> 'h \<Rightarrow> nat option \<times> 'h"
    and put :: "'c \<Rightarrow> nat \<Rightarrow> 'h \<Rightarrow> 'h"
  assumes get_none: "ok L h \<Longrightarrow> get c h = (None, h') \<Longrightarrow> ok L h'"
    and get_some: "ok L h \<Longrightarrow> get c h = (Some n, h') \<Longrightarrow> n \<notin> L \<and> ok (insert n L) h'"
    and put_back: "ok L h \<Longrightarrow> n \<in> L \<Longrightarrow> ok (L - {n}) (put c n h)"
begin

lemma two_differ: "ok L h \<Longrightarrow> get c h = (Some a, h1) \<Longrightarrow> get d h1 = (Some b, h2) \<Longrightarrow> a \<noteq> b \<and> {a, b} \<inter> L = {}"
  using get_some by blast

lemma borrow: "ok L h \<Longrightarrow> get c h = (Some a, h1) \<Longrightarrow> ok L (put d a h1)"
  using get_some [of L h c a h1] put_back [of "insert a L" h1 a d] by (simp add: insert_absorb)

end

lemma lease_ptr_ok:
  "heap_ok y L h \<Longrightarrow> lease_ptr e t h = (None, h') \<Longrightarrow> heap_ok y L h'"
  "heap_ok y L h \<Longrightarrow> lease_ptr e t h = (Some n, h') \<Longrightarrow> n < y \<and> n \<notin> L \<and> heap_ok y (insert n L) h'"
  using lease_ok [of y L h e t True] by (auto simp: lease_ptr_inline leased_by_def split: prod.splits sum.splits)

interpretation pool: object_pool "heap_ok y" "\<lambda>(e, t). lease_ptr e t" "\<lambda>(e, t). release_ptr e t" for y
  by unfold_locales (auto simp: lease_ptr_ok release_ptr_ok)

section \<open>Runs of the pool\<close>

text \<open>The operations of all threads, interleaved; \<open>L\<close> are the nodes callers have.\<close>

inductive pool_step :: "static_heap \<times> nat set \<Rightarrow> static_heap \<times> nat set \<Rightarrow> bool" where
  lease: "lease_inline e t out h = (Inr n, h') \<Longrightarrow> pool_step (h, L) (h', insert n L)"
| lease_none: "lease_inline e t out h = (Inl err, h') \<Longrightarrow> pool_step (h, L) (h', L)"
| lease_fast: "lease_ptr e t h = (Some n, h') \<Longrightarrow> pool_step (h, L) (h', insert n L)"
| lease_fast_none: "lease_ptr e t h = (None, h') \<Longrightarrow> pool_step (h, L) (h', L)"
| release: "n \<in> L \<Longrightarrow> release_inline e t (Some n) h = (YUMI_MEMORY_ALLOC_SUCCESS, h') \<Longrightarrow> pool_step (h, L) (h', L - {n})"
| release_none: "n \<in> L \<Longrightarrow> release_inline e t (Some n) h = (err, h') \<Longrightarrow> err \<noteq> YUMI_MEMORY_ALLOC_SUCCESS \<Longrightarrow> pool_step (h, L) (h', L)"
| release_fast: "n \<in> L \<Longrightarrow> pool_step (h, L) (release_ptr e t n h, L - {n})"
| thread_exit: "pool_step (h, L) (tls_flush e t h, L)"

inductive pool_reachable :: "nat \<Rightarrow> static_heap \<times> nat set \<Rightarrow> bool" for y where
  initial: "0 < y \<Longrightarrow> mtx_works e \<Longrightarrow> lock_works e \<Longrightarrow> pool_reachable y (init_static_heap e y t zero_heap, {})"
| step: "pool_reachable y s \<Longrightarrow> pool_step s s' \<Longrightarrow> pool_reachable y s'"

lemma pool_step_ok: "pool_step (h, L) (h', L') \<Longrightarrow> heap_ok y L h \<Longrightarrow> heap_ok y L' h'"
proof (induction "(h, L)" "(h', L')" rule: pool_step.induct)
  case (lease e t out n)
  then show ?case using lease_ok [of y L h e t out] by (simp add: leased_by_def)
next
  case (lease_none e t out err)
  then show ?case using lease_ok [of y L h e t out] by (simp add: leased_by_def)
next
  case (release n e t)
  then show ?case using release_ok [of y L h n e t] by auto
next
  case (release_none n e t err)
  then show ?case using release_ok [of y L h n e t] by auto
next
  case (lease_fast e t n)
  then show ?case using lease_ptr_ok(2) [of y L h e t n h'] by blast
next
  case (release_fast n e t)
  from release_ptr_ok [OF release_fast(4,1)] show ?case using release_fast(2,3) by blast
next
  case (thread_exit e t)
  from flush_ok [OF thread_exit(3), of e t] show ?case using thread_exit(1,2) by blast
qed (simp_all add: lease_ptr_ok(1))

lemma pool_reachable_heap: "pool_reachable y s \<Longrightarrow> heap_ok y (snd s) (fst s)"
proof (induction rule: pool_reachable.induct)
  case (initial e t)
  then have "heap_ok y {} (init_static_heap e y t zero_heap)" by (intro init_ok) (simp_all add: zero_heap_def)
  then show ?case by simp
next
  case (step s s')
  obtain h L where s: "s = (h, L)" by (cases s)
  obtain h' L' where s': "s' = (h', L')" by (cases s')
  from pool_step_ok [OF step.hyps(2) [unfolded s s']] step.IH show ?case by (simp add: s s')
qed

lemma pool_reachable_ok: "pool_reachable y (h, L) \<Longrightarrow> heap_ok y L h"
  using pool_reachable_heap [of y "(h, L)"] by simp

text \<open>When the library works, a lease fails only if everything is taken or in another thread's cache.\<close>

lemma lease_fails:
  assumes ok: "heap_ok y L h" and works: "ready_mtx e h" "lock_works e" "ready_key e h" "tss_works e"
    and res: "lease_inline e t True h = (Inl err, h')"
  shows "err = YUMI_MEMORY_ALLOC_UNAVAILABLE_MEMORY \<and> (\<forall>n<y. n \<in> L \<or> (\<exists>u. u \<noteq> t \<and> n \<in> set (cached h u)))"
proof -
  from ok obtain own where own: "heap_inv y own h" "L = at y own Leased" by (auto simp: heap_ok_def)
  obtain b h1 where e: "ensure_tls e t h = (b, h1)" by (cases "ensure_tls e t h")
  obtain c h2 where l: "lock_global e h1 = (c, h2)" by (cases "lock_global e h1")
  have b: b using e works(3,4) register_ready [of e t h] by (auto simp: ensure_tls_def split: if_splits)
  have c: c using works(1,2) ensure_frame [OF e] lock_frame [OF l] by simp
  note bc = b c
  have top: "tls_top (hp_tls h t) = 0" and refill: "refill_from_global e t h = (Inl err, h')"
    using res by (auto simp: lease_inline_def split: if_splits prod.splits)
  have f: "hp_head h2 = hp_head h" "hp_slots h2 = hp_slots h" "hp_mtx_ok h2"
    using ensure_frame [OF e] lock_frame [OF l] works(1) by (simp_all split: if_splits)
  have i2: "heap_inv y own h2" using heap_inv_ensure [OF e] heap_inv_lock [OF l] own(1) by simp
  have none: "hp_head h = None" and rec: "refill_recover t h2 = (Inl err, h')"
    using refill bc f(1) by (auto simp: refill_from_global_def e l refill_locked_def split: option.splits prod.splits)
  obtain v h3 where v: "recovery_probe (recovery_index t) 0 64 h2 = (v, h3)" by (cases "recovery_probe (recovery_index t) 0 64 h2")
  have vn: "v = None" using rec by (auto simp: refill_recover_def recovery_pop_any_def v split: option.splits)
  from inv_probe [OF i2, where start = "recovery_index t" and prob = 0 and k = 64, unfolded v vn]
  have p: "h3 = h2" "\<forall>i<64. hp_slots h ! i = None"
    using probe_all [OF recovery_index_lt, of "\<lambda>i. hp_slots h2 ! i = None" t] f(2) by simp_all
  have err: "err = YUMI_MEMORY_ALLOC_UNAVAILABLE_MEMORY"
    using rec f(3) p(1) by (simp add: refill_recover_def recovery_pop_any_def v vn)
  have nil: "xs = []" if "chain g None xs" for g xs using that by (cases xs) auto
  have lst: "at y own InList = {}"
  proof -
    obtain gl where gl: "chain (hp_next h) (hp_head h) gl" "set gl = at y own InList"
      using own(1) by (auto simp: heap_inv_def list_inv_def)
    have "gl = []" using nil gl(1) unfolding none .
    then show ?thesis using gl(2) by simp
  qed
  have slt: "own n \<noteq> InSlot i" if "n < y" for n i
  proof
    assume n: "own n = InSlot i"
    then have "i < 64" using own(1) that by (auto simp: heap_inv_def slots_inv_def)
    then have "at y own (InSlot i) = {}" using own(1) p(2) nil by (fastforce simp: heap_inv_def slots_inv_def)
    with n that show False by (auto simp: at_def)
  qed
  have cch: "set (cached h u) = at y own (InCache u)" for u using own(1) by (simp add: heap_inv_def tls_inv_def)
  have "cached h t = []" using top by (simp add: cached_def)
  then have "at y own (InCache t) = {}" using cch [of t] by simp
  then have "n \<in> L \<or> (\<exists>u. u \<noteq> t \<and> n \<in> set (cached h u))" if "n < y" for n
    using that lst slt [of n] cch own(2) by (cases "own n") (auto simp: at_def)
  with err show ?thesis by blast
qed

section \<open>Races on the recovery stacks\<close>

text \<open>The two steps of a pop: reading head and successor, and the compare-and-swap.\<close>

definition recovery_pop_read :: "nat \<Rightarrow> static_heap \<Rightarrow> (nat \<times> nat option) option" where
  "recovery_pop_read idx h = map_option (\<lambda>item. (item, hp_next h item)) (hp_slots h ! idx)"

definition recovery_pop_cas :: "nat \<Rightarrow> nat \<Rightarrow> nat option \<Rightarrow> static_heap \<Rightarrow> bool \<times> static_heap" where
  "recovery_pop_cas idx item next_item h =
     (if hp_slots h ! idx = Some item then (True, h\<lparr>hp_slots := (hp_slots h)[idx := next_item]\<rparr>) else (False, h))"

lemma pop_steps:
  assumes "recovery_pop_read idx h = Some (item, nx)"
  shows "recovery_pop_cas idx item nx h = (True, h\<lparr>hp_slots := (hp_slots h)[idx := hp_next h item]\<rparr>)"
  using assms by (auto simp: recovery_pop_read_def recovery_pop_cas_def)

section \<open>A working pool\<close>

definition working :: heap_env where
  "working = \<lparr>mtx_works = True, lock_works = True, key_works = True, tss_works = True\<rparr>"

lemma working_simps [simp]: "mtx_works working" "lock_works working" "key_works working" "tss_works working"
  by (simp_all add: working_def)

text \<open>A caller that takes a node and gives it back.\<close>

definition lease_release :: "heap_env \<Rightarrow> bytes \<Rightarrow> static_heap \<Rightarrow> yumi_memory_alloc_error_enum \<times> static_heap" where
  "lease_release e t h = (case lease_inline e t True h of
     (Inl err, h') \<Rightarrow> (err, h') | (Inr n, h') \<Rightarrow> release_inline e t (Some n) h')"

lemma probe_empty: "\<forall>i<64. hp_slots h ! i = None \<Longrightarrow> recovery_probe start prob k h = (None, h)"
  by (induction k arbitrary: prob) (simp_all add: Let_def)

definition fresh_pool :: "nat \<Rightarrow> static_heap" where
  "fresh_pool y = init_static_heap working y [] zero_heap"

lemma fresh_reachable: "0 < y \<Longrightarrow> pool_reachable y (fresh_pool y, {})"
  unfolding fresh_pool_def by (rule pool_reachable.initial) simp_all

lemma fresh_two:
  "hp_head (fresh_pool 2) = Some 0" "hp_next (fresh_pool 2) 0 = Some 1" "hp_next (fresh_pool 2) 1 = None"
  "hp_count (fresh_pool 2) = 2" "hp_slots (fresh_pool 2) = replicate 64 None" "hp_mtx_once (fresh_pool 2)"
  "hp_mtx_ok (fresh_pool 2)" "\<not> hp_key_once (fresh_pool 2)" "tls_top (hp_tls (fresh_pool 2) t) = 0"
  "\<not> tls_registered (hp_tls (fresh_pool 2) t)" "length (tls_stack (hp_tls (fresh_pool 2) t)) = 64"
  by (simp_all add: fresh_pool_def init_static_heap_def lock_global_eq zero_heap_def set_tls_def upt_rec)

text \<open>The first lease of a thread from a pool whose list has one or two nodes.\<close>

lemma lease_last:
  assumes "tls_top (hp_tls h t) = 0" "\<not> tls_registered (hp_tls h t)" "ready_mtx working h" "ready_key working h"
    "hp_head h = Some a" "hp_count h = 1 \<or> hp_count h = 2" "length (tls_stack (hp_tls h t)) = 64"
  obtains h' where "lease_inline working t True h = (Inr a, h')" "hp_head h' = hp_next h a" "hp_count h' = hp_count h - 1"
    "hp_next h' = hp_next h" "hp_slots h' = hp_slots h" "hp_mtx_once h'" "hp_mtx_ok h'" "hp_key_once h'" "hp_key_ok h'"
    "tls_top (hp_tls h' t) = 0" "tls_registered (hp_tls h' t)" "length (tls_stack (hp_tls h' t)) = 64"
    "\<And>u. u \<noteq> t \<Longrightarrow> hp_tls h' u = hp_tls h u"
proof -
  have want: "refill_want (hp_count h) = 1" using assms(6) by (auto simp: refill_want_def)
  show thesis
    by (rule that [of "snd (lease_inline working t True h)"])
      (use assms want in \<open>simp_all add: lease_inline_def refill_from_global_def ensure_tls_def register_tls_def
        Let_def set_tls_def lock_global_eq refill_locked_def\<close>)
qed

lemma release_last:
  assumes "tls_top (hp_tls h t) = 0" "tls_registered (hp_tls h t)" "length (tls_stack (hp_tls h t)) = 64"
  obtains h' where "release_inline e t (Some a) h = (YUMI_MEMORY_ALLOC_SUCCESS, h')" "h' = push_tls t a h"
  using assms by (auto simp: release_inline_def ensure_tls_def)

lemma push_tls_frame: "hp_next (push_tls t a h) = hp_next h" "hp_head (push_tls t a h) = hp_head h"
  "hp_count (push_tls t a h) = hp_count h" "hp_slots (push_tls t a h) = hp_slots h"
  "hp_mtx_once (push_tls t a h) = hp_mtx_once h" "hp_mtx_ok (push_tls t a h) = hp_mtx_ok h"
  "hp_key_once (push_tls t a h) = hp_key_once h" "hp_key_ok (push_tls t a h) = hp_key_ok h"
  "u \<noteq> t \<Longrightarrow> hp_tls (push_tls t a h) u = hp_tls h u"
  by (simp_all add: push_tls_def set_tls_def)

lemma lease_release_last:
  assumes "tls_top (hp_tls h t) = 0" "\<not> tls_registered (hp_tls h t)" "ready_mtx working h" "ready_key working h"
    "hp_head h = Some a" "hp_count h = 1 \<or> hp_count h = 2" "length (tls_stack (hp_tls h t)) = 64"
  obtains h' where "lease_release working t h = (YUMI_MEMORY_ALLOC_SUCCESS, h')" "hp_head h' = hp_next h a"
    "hp_count h' = hp_count h - 1" "hp_next h' = hp_next h" "hp_slots h' = hp_slots h" "hp_mtx_once h'" "hp_mtx_ok h'"
    "hp_key_once h'" "hp_key_ok h'" "\<And>u. u \<noteq> t \<Longrightarrow> hp_tls h' u = hp_tls h u"
proof -
  obtain g where l: "lease_inline working t True h = (Inr a, g)" and g: "hp_head g = hp_next h a" "hp_count g = hp_count h - 1"
    "hp_next g = hp_next h" "hp_slots g = hp_slots h" "hp_mtx_once g" "hp_mtx_ok g" "hp_key_once g" "hp_key_ok g"
    "\<And>u. u \<noteq> t \<Longrightarrow> hp_tls g u = hp_tls h u"
    and r: "tls_top (hp_tls g t) = 0" "tls_registered (hp_tls g t)" "length (tls_stack (hp_tls g t)) = 64"
    by (rule lease_last [OF assms]) blast
  obtain h' where "release_inline working t (Some a) g = (YUMI_MEMORY_ALLOC_SUCCESS, h')" "h' = push_tls t a g"
    using release_last [OF r] .
  then show thesis by (intro that [of h']) (simp_all add: lease_release_def l g push_tls_frame)
qed

section \<open>What callers get\<close>





text \<open>
  When the threads library answers every call, a lease fails only with UNAVAILABLE_MEMORY, and only
  when every node is leased or lies in the cache of another thread.
\<close>

theorem failed_lease_means_taken:
  assumes "pool_reachable y (h, L)" and "ready_mtx e h" and "lock_works e" and "ready_key e h" and "tss_works e"
    and "lease_inline e t True h = (Inl err, h')"
  shows "err = YUMI_MEMORY_ALLOC_UNAVAILABLE_MEMORY \<and> (\<forall>n<y. n \<in> L \<or> (\<exists>u. u \<noteq> t \<and> n \<in> set (cached h u)))"
  by (rule lease_fails [OF pool_reachable_ok [OF assms(1)] assms(2-6)])

lemma caches_starve_aux:
  assumes "a \<noteq> b" and "b \<noteq> c" and "a \<noteq> c"
  obtains h1 h2 h3 where "lease_release working a (fresh_pool 2) = (YUMI_MEMORY_ALLOC_SUCCESS, h1)"
    "lease_release working b h1 = (YUMI_MEMORY_ALLOC_SUCCESS, h2)"
    "lease_inline working c True h2 = (Inl YUMI_MEMORY_ALLOC_UNAVAILABLE_MEMORY, h3)"
    "hp_mtx_once h2" "hp_mtx_ok h2" "hp_key_once h2" "hp_key_ok h2"
proof -
  obtain h1 where 1: "lease_release working a (fresh_pool 2) = (YUMI_MEMORY_ALLOC_SUCCESS, h1)" "hp_head h1 = Some 1"
    "hp_count h1 = 1" "hp_next h1 = hp_next (fresh_pool 2)" "hp_slots h1 = replicate 64 None"
    "hp_mtx_once h1" "hp_mtx_ok h1" "hp_key_once h1" "hp_key_ok h1"
    "\<And>u. u \<noteq> a \<Longrightarrow> hp_tls h1 u = hp_tls (fresh_pool 2) u"
    by (rule lease_release_last [of "fresh_pool 2" a 0]) (simp_all add: fresh_two)
  have b: "hp_tls h1 b = hp_tls (fresh_pool 2) b" using 1(10) assms(1) by simp
  obtain h2 where 2: "lease_release working b h1 = (YUMI_MEMORY_ALLOC_SUCCESS, h2)" "hp_head h2 = None"
    "hp_slots h2 = replicate 64 None" "hp_mtx_once h2" "hp_mtx_ok h2" "hp_key_once h2" "hp_key_ok h2"
    "\<And>u. u \<noteq> b \<Longrightarrow> hp_tls h2 u = hp_tls h1 u"
    by (rule lease_release_last [of h1 b 1]) (simp_all add: 1 b fresh_two fresh_two(3) [simplified])
  have c: "hp_tls h2 c = hp_tls (fresh_pool 2) c" using 2(8) 1(10) assms by simp
  have "\<exists>h3. lease_inline working c True h2 = (Inl YUMI_MEMORY_ALLOC_UNAVAILABLE_MEMORY, h3)"
    using 2 c by (simp add: lease_inline_def refill_from_global_def ensure_tls_def register_tls_def fresh_two
      lock_global_eq set_tls_def refill_recover_def recovery_pop_any_def probe_empty)
  with 1(1) 2(1,4-7) that show thesis by blast
qed

theorem failed_lease_means_taken_witness:
  "\<exists>h L. pool_reachable 2 (h, L) \<and> (\<forall>n<2. n \<in> L \<or> (\<exists>u. u \<noteq> [3] \<and> n \<in> set (cached h u)))"
proof -
  obtain h1 h2 h3 where r: "lease_release working [1] (fresh_pool 2) = (YUMI_MEMORY_ALLOC_SUCCESS, h1)"
    "lease_release working [2] h1 = (YUMI_MEMORY_ALLOC_SUCCESS, h2)"
    "lease_inline working [3] True h2 = (Inl YUMI_MEMORY_ALLOC_UNAVAILABLE_MEMORY, h3)"
    "hp_mtx_once h2" "hp_mtx_ok h2" "hp_key_once h2" "hp_key_ok h2"
    by (rule caches_starve_aux [of "[1]" "[2]" "[3]"]) simp_all
  have step: "pool_reachable 2 (h', {})" if "pool_reachable 2 (h, {})" "lease_release working t h = (YUMI_MEMORY_ALLOC_SUCCESS, h')" for h t h'
  proof -
    obtain v g where v: "lease_inline working t True h = (v, g)" by (cases "lease_inline working t True h")
    show ?thesis
    proof (cases v)
      case (Inl err)
      then have "err = YUMI_MEMORY_ALLOC_SUCCESS" "h' = g" using that(2) v by (simp_all add: lease_release_def)
      then show ?thesis using pool_reachable.step [OF that(1) pool_step.lease_none [OF v [unfolded Inl]]] by simp
    next
      case (Inr n)
      then have rel: "release_inline working t (Some n) g = (YUMI_MEMORY_ALLOC_SUCCESS, h')" using that(2) v by (simp add: lease_release_def)
      have "pool_reachable 2 (g, {n})" using pool_reachable.step [OF that(1) pool_step.lease [OF v [unfolded Inr]]] .
      from pool_reachable.step [OF this pool_step.release [OF _ rel]] show ?thesis by simp
    qed
  qed
  have "pool_reachable 2 (h2, {})" using step [OF step [OF fresh_reachable r(1)] r(2)] by simp
  with failed_lease_means_taken [OF this _ _ _ _ r(3)] r(4-7) show ?thesis by auto
qed

text \<open>
  The cap on a refill does not keep the caches from starving a small pool: with two nodes - as for
  file dialogs, clipboard buffers and HKDF buffers - once two threads have each taken a node and given
  it back, a third thread gets UNAVAILABLE_MEMORY although no caller has a node.
\<close>

theorem caches_starve:
  assumes "distinct [a, b, c]"
  shows "\<exists>h1 h2 h3. lease_release working a (fresh_pool 2) = (YUMI_MEMORY_ALLOC_SUCCESS, h1)
    \<and> lease_release working b h1 = (YUMI_MEMORY_ALLOC_SUCCESS, h2)
    \<and> lease_inline working c True h2 = (Inl YUMI_MEMORY_ALLOC_UNAVAILABLE_MEMORY, h3)"
  using caches_starve_aux [of a b c] assms by auto metis

theorem caches_starve_witness:
  "\<exists>h1 h2 h3. lease_release working [1] (fresh_pool 2) = (YUMI_MEMORY_ALLOC_SUCCESS, h1)
    \<and> lease_release working [2] h1 = (YUMI_MEMORY_ALLOC_SUCCESS, h2)
    \<and> lease_inline working [3] True h2 = (Inl YUMI_MEMORY_ALLOC_UNAVAILABLE_MEMORY, h3)"
  by (rule caches_starve) simp

lemma pop_any_first: "hp_slots h ! recovery_index t = Some a \<Longrightarrow>
    recovery_pop_any t h = (Some a, h\<lparr>hp_slots := (hp_slots h)[recovery_index t := hp_next h a]\<rparr>)"
  using recovery_probe.simps(2) [of "recovery_index t" 0 63 h]
  by (simp add: recovery_pop_any_def recovery_index_lt Let_def)

text \<open>
  C24. The compare-and-swap of the recovery stacks does not notice that its node went away and came
  back: if a thread has read the top node a and its successor b, and another thread meanwhile takes a
  and b and returns a, the first thread's exchange succeeds and leaves b on the stack while the other
  thread still has it.
\<close>

theorem stale_pop_duplicates:
  assumes "length (hp_slots h) = 64" and "hp_slots h ! recovery_index t = Some a" and "hp_next h a = Some b" and "a \<noteq> b"
  shows "recovery_pop_read (recovery_index t) h = Some (a, Some b)
    \<and> (\<exists>h1 h2 h3. recovery_pop_any t h = (Some a, h1) \<and> recovery_pop_any t h1 = (Some b, h2)
        \<and> recovery_pop_cas (recovery_index t) a (Some b) (recovery_push t a h2) = (True, h3)
        \<and> recovery_pop_any t h3 = (Some b, h3\<lparr>hp_slots := (hp_slots h3)[recovery_index t := hp_next h b]\<rparr>))"
proof -
  let ?i = "recovery_index t"
  let ?h1 = "h\<lparr>hp_slots := (hp_slots h)[?i := Some b]\<rparr>"
  let ?h2 = "h\<lparr>hp_slots := (hp_slots h)[?i := hp_next h b]\<rparr>"
  let ?h3 = "(recovery_push t a ?h2)\<lparr>hp_slots := (hp_slots (recovery_push t a ?h2))[?i := Some b]\<rparr>"
  have i: "?i < length (hp_slots h)" using assms(1) recovery_index_lt by simp
  have "recovery_pop_any t h = (Some a, ?h1)" using pop_any_first [OF assms(2)] assms(3) by simp
  moreover have "recovery_pop_any t ?h1 = (Some b, ?h2)" using pop_any_first [of ?h1 t b] i by simp
  moreover have "recovery_pop_cas ?i a (Some b) (recovery_push t a ?h2) = (True, ?h3)"
    using i by (simp add: recovery_pop_cas_def recovery_push_def Let_def)
  moreover have "hp_next ?h3 b = hp_next h b" using assms(4) by (simp add: recovery_push_def Let_def)
  then have "recovery_pop_any t ?h3 = (Some b, ?h3\<lparr>hp_slots := (hp_slots ?h3)[?i := hp_next h b]\<rparr>)"
    using pop_any_first [of ?h3 t b] i by (simp add: recovery_push_def Let_def)
  ultimately show ?thesis using assms(2,3) by (simp add: recovery_pop_read_def)
qed

theorem stale_pop_duplicates_witness:
  "recovery_pop_read (recovery_index [7]) (recovery_push [7] 0 (recovery_push [7] 1 zero_heap)) = Some (0, Some 1)"
  using stale_pop_duplicates [of "recovery_push [7] 0 (recovery_push [7] 1 zero_heap)" "[7]" 0 1] recovery_index_lt [of "[7]"]
  by (simp add: recovery_push_def Let_def zero_heap_def)

end
