(* ===== verification/Sync.thy ===== *)
theory Sync imports Epoch_Retention Invite
begin

text \<open>
  Synchronisation: the second half of \<open>src/src/group_registrar/serialize.c\<close>.  A registrar is sent
  whole (\<open>gr_serialize\<close>, \<open>gr_deserialize\<close>) or as a delta (\<open>gr_serialize_delta\<close>, \<open>gr_apply_delta\<close>)
  that carries the sender's entities and the audit entries after a version.

  Allocations are answered by \<open>malloc_ok\<close>, grown buffers by \<open>realloc_ok\<close>; a value read from a local
  variable that no call has written is \<open>uninit\<close>.  The host's persist prompt, called after a
  successful \<open>gr_deserialize\<close>, sees the registrar and does not change it; it is left out.
\<close>

section \<open>Sending\<close>

abbreviation (input) SERIAL_MAGIC :: bytes where "SERIAL_MAGIC \<equiv> cstr ''GREG''"
abbreviation (input) DELTA_MAGIC :: bytes where "DELTA_MAGIC \<equiv> cstr ''GRDT''"
abbreviation (input) SERIAL_VERSION :: u32 where "SERIAL_VERSION \<equiv> 4"
abbreviation (input) GR_DELTA_MAX_BYTES :: nat where "GR_DELTA_MAX_BYTES \<equiv> 2097152"
abbreviation (input) GR_SERVER_TYPE_COUNT :: nat where "GR_SERVER_TYPE_COUNT \<equiv> 2"

text \<open>The elements of a \<open>calloc\<close>ed array.\<close>

definition zero_peer :: gr_peer_t where
  "zero_peer = \<lparr>p_peer_id = zero_id, p_kem_pk = replicate GR_KEM_PUBLIC_KEY_LEN 0,
     p_sign_key = replicate GR_PUBLIC_KEY_LEN 0, p_ip = [], p_port = 0, p_status = 0, p_role_id = 0,
     p_joined_at = 0, p_removed_at = 0, p_last_seen = 0, p_removed_reason = [], p_removed_by = zero_id\<rparr>"

definition zero_role :: gr_role_t where
  "zero_role = \<lparr>r_role_id = 0, r_name = [], r_permissions = 0,
     r_sign_key = replicate GR_PUBLIC_KEY_LEN 0, r_created_at = 0, r_modified_at = 0\<rparr>"

definition zero_webapp :: gr_webapp_t where
  "zero_webapp = \<lparr>w_hash = zero_hash, w_name = [], w_version = 0, w_added_at = 0, w_added_by = zero_id,
     w_perm_data = None, w_role_mask = None\<rparr>"

definition zero_epoch :: gr_epoch_t where
  "zero_epoch = \<lparr>e_epoch_id = 0, e_epoch_key = replicate GR_EPOCH_KEY_LEN 0, e_created_at = 0,
     e_expired_at = 0, e_created_by = zero_id\<rparr>"

definition zero_audit :: gr_audit_entry_t where
  "zero_audit = \<lparr>a_entry_hash = zero_hash, a_timestamp = 0, a_timestamp_ns = 0, a_change_type = 0,
     a_actor_id = zero_id, a_target_id = zero_id, a_signature = replicate GR_SIGN_LEN 0,
     a_registrar_version = 0, a_detail = [], a_prev_hash = zero_hash\<rparr>"

text \<open>
  One table: its row count, then its rows.  The results of the count and the list are not looked at:
  after a failed count the number of the table before stands, after a failed list the number of rows
  is whatever the stack held (cut to the array here, where the code would read past its end).
\<close>

definition ser_table :: "yumi_env \<Rightarrow> (gr_registrar \<Rightarrow> (gr_error_t + u32) \<times> gr_registrar) \<Rightarrow>
    (u32 \<Rightarrow> gr_registrar \<Rightarrow> (gr_error_t + 'a list) \<times> gr_registrar) \<Rightarrow> 'a \<Rightarrow>
    ('a \<Rightarrow> gr_buf_t \<Rightarrow> gr_buf_t option) \<Rightarrow> u32 \<times> gr_buf_t \<Rightarrow> gr_registrar \<Rightarrow>
    (gr_error_t + u32 \<times> gr_buf_t) \<times> gr_registrar" where
  "ser_table e cnt lst zero wr st reg =
     (case cnt reg of (cres, r1) \<Rightarrow>
      let n = (case cres of Inl _ \<Rightarrow> fst st | Inr v \<Rightarrow> v) in
      case ser_seq [gr_buf_write_u32 (host_le e) (realloc_ok e) n] (snd st) of
        None \<Rightarrow> (Inl GR_ERR_OUT_OF_MEMORY, r1)
      | Some b1 \<Rightarrow>
          if n = 0 then (Inr (n, b1), r1)
          else if \<not> malloc_ok e (reg_calls r1) then (Inl GR_ERR_OUT_OF_MEMORY, tick r1)
          else case lst n (tick r1) of (lres, r2) \<Rightarrow>
            let rows = (case lres of
                          Inr rows \<Rightarrow> rows
                        | Inl _ \<Rightarrow> replicate (min (unat (mem_word (host_le e) (uninit e (reg_calls r1) 4) :: u32))
                                              (unat n)) zero)
            in case ser_each wr rows b1 of
                 None \<Rightarrow> (Inl GR_ERR_OUT_OF_MEMORY, r2)
               | Some b2 \<Rightarrow> (Inr (n, b2), r2))"

fun ser_server_types :: "yumi_env \<Rightarrow> gr_serialize_mode_t \<Rightarrow> nat list \<Rightarrow> u32 \<times> gr_buf_t \<Rightarrow> gr_registrar \<Rightarrow>
    (gr_error_t + u32 \<times> gr_buf_t) \<times> gr_registrar" where
  "ser_server_types e mode [] st reg = (Inr st, reg)"
| "ser_server_types e mode (t # ts) st reg =
     q_bind (ser_table e (gr_server_count e (of_nat t)) (gr_server_list e (of_nat t)) zero_server
               (ser_server (host_le e) (realloc_ok e) mode) st reg)
       (ser_server_types e mode ts)"

definition ser_entities :: "yumi_env \<Rightarrow> gr_serialize_mode_t \<Rightarrow> u32 \<times> gr_buf_t \<Rightarrow> gr_registrar \<Rightarrow>
    (gr_error_t + u32 \<times> gr_buf_t) \<times> gr_registrar" where
  "ser_entities e mode st reg =
     q_bind (ser_table e (gr_peer_count e GR_PEER_STATUS_ANY)
               (\<lambda>n. gr_peer_list e n GR_PEER_STATUS_ANY) zero_peer (ser_peer (host_le e) (realloc_ok e)) st reg) (\<lambda>st.
     \<lambda>reg. q_bind (ser_table e (gr_role_count e) (gr_role_list e) zero_role
               (ser_role (host_le e) (realloc_ok e)) st reg) (\<lambda>st.
     \<lambda>reg. q_bind (ser_table e (gr_webapp_count e) (gr_webapp_list e) zero_webapp
               (ser_webapp (host_le e) (realloc_ok e)) st reg) (\<lambda>st.
     \<lambda>reg. q_bind (ser_server_types e mode [0..<GR_SERVER_TYPE_COUNT] st reg) (\<lambda>st.
     \<lambda>reg. ser_table e (gr_epoch_count e) (gr_epoch_list e) zero_epoch
               (ser_epoch (host_le e) (realloc_ok e)) st reg))))"

text \<open>\<open>outs\<close>: are the two output pointers not \<open>NULL\<close>?\<close>

definition gr_serialize :: "yumi_env \<Rightarrow> gr_serialize_mode_t \<Rightarrow> bool \<Rightarrow> gr_registrar \<Rightarrow>
    (gr_error_t + bytes) \<times> gr_registrar" where
  "gr_serialize e mode outs reg =
     (if \<not> outs then (Inl GR_ERR_INVALID_PARAM, reg)
      else case gr_buf_init (malloc_ok e (reg_calls reg)) 65536 of
        None \<Rightarrow> (Inl GR_ERR_OUT_OF_MEMORY, tick reg)
      | Some buf0 \<Rightarrow>
          (case wthen (ser_seq [gr_buf_write (realloc_ok e) SERIAL_MAGIC,
                                gr_buf_write_u32 (host_le e) (realloc_ok e) SERIAL_VERSION,
                                gr_buf_write_u8 (realloc_ok e) (if mode = GR_SERIALIZE_FULL then 0 else 1)])
                      (ser_header (host_le e) (realloc_ok e) (reg_header reg)) buf0 of
             None \<Rightarrow> (Inl GR_ERR_OUT_OF_MEMORY, tick reg)
           | Some buf1 \<Rightarrow>
               q_bind (ser_entities e mode (mem_word (host_le e) (uninit e (reg_calls reg) 4), buf1) (tick reg)) (\<lambda>st.
               \<lambda>r1. q_bind (ser_table e (gr_audit_count e) (gr_audit_list e 0) zero_audit
                         (ser_audit (host_le e) (realloc_ok e)) st r1) (\<lambda>st.
               \<lambda>r2. if buf_error (snd st) then (Inl GR_ERR_OUT_OF_MEMORY, r2)
                    else (Inr (buf_bytes (snd st)), r2)))))"

text \<open>The placeholder for the number of entries is overwritten once the rows are counted.\<close>

definition patch_u32 :: "nat \<Rightarrow> u32 \<Rightarrow> gr_buf_t \<Rightarrow> gr_buf_t" where
  "patch_u32 off rows b =
     (case buf_data b of
        None \<Rightarrow> b
      | Some d \<Rightarrow>
          if off + 4 \<le> length d
          then b\<lparr>buf_data := Some (d[off := ucast (and rows 0xFF),
                  off + 1 := ucast (and (drop_bit 8 rows) 0xFF),
                  off + 2 := ucast (and (drop_bit 16 rows) 0xFF),
                  off + 3 := ucast (and (drop_bit 24 rows) 0xFF)])\<rparr>
          else b)"

definition gr_serialize_delta :: "yumi_env \<Rightarrow> u32 \<Rightarrow> bool \<Rightarrow> gr_registrar \<Rightarrow>
    (gr_error_t + bytes) \<times> gr_registrar" where
  "gr_serialize_delta e since_version outs reg =
     (if \<not> outs then (Inl GR_ERR_INVALID_PARAM, reg)
      else case gr_buf_init (malloc_ok e (reg_calls reg)) 8192 of
        None \<Rightarrow> (Inl GR_ERR_OUT_OF_MEMORY, tick reg)
      | Some buf0 \<Rightarrow>
          (case wthen (ser_seq [gr_buf_write (realloc_ok e) DELTA_MAGIC,
                                gr_buf_write_u32 (host_le e) (realloc_ok e) SERIAL_VERSION,
                                gr_buf_write_u32 (host_le e) (realloc_ok e) since_version])
                      (ser_header (host_le e) (realloc_ok e) (reg_header reg)) buf0 of
             None \<Rightarrow> (Inl GR_ERR_OUT_OF_MEMORY, tick reg)
           | Some buf1 \<Rightarrow>
               q_bind (ser_entities e GR_SERIALIZE_FULL
                         (mem_word (host_le e) (uninit e (reg_calls reg) 4), buf1) (tick reg)) (\<lambda>st.
               \<lambda>r1. case db_query e (\<lambda>d. Some (ps_audit_delta since_version d)) r1 of
                 (Inl err, r2) \<Rightarrow> (Inl GR_ERR_DB, r2)
               | (Inr rows, r2) \<Rightarrow>
                   (case wthen (ser_seq [gr_buf_write_u32 (host_le e) (realloc_ok e) 0])
                              (ser_each (ser_audit (host_le e) (realloc_ok e)) rows) (snd st) of
                      None \<Rightarrow> (Inl GR_ERR_OUT_OF_MEMORY, r2)
                    | Some b \<Rightarrow>
                        (let b' = patch_u32 (length (buf_bytes (snd st))) (of_nat (length rows)) b
                         in if buf_error b' then (Inl GR_ERR_OUT_OF_MEMORY, r2)
                            else (Inr (buf_bytes b'), r2))))))"

section \<open>Receiving a whole registrar\<close>

definition de_blob_head :: "bool \<Rightarrow> gr_reader_t \<Rightarrow> (u32 \<times> gr_header_t) option \<times> gr_reader_t" where
  "de_blob_head h =
     rbind (gr_read_bytes 4) (\<lambda>magic.
     if magic \<noteq> SERIAL_MAGIC then rfail
     else rbind (gr_read_u32 h) (\<lambda>ver.
     if SERIAL_VERSION < ver then rfail
     else rbind gr_read_u8 (\<lambda>mode.
     rbind (de_header h) (\<lambda>nh. rreturn (ver, nh)))))"

text \<open>\<open>gr_db_exec\<close> with a text; the result is not looked at.\<close>

definition db_raw :: "yumi_env \<Rightarrow> (gr_db \<Rightarrow> gr_db) \<Rightarrow> gr_registrar \<Rightarrow> gr_registrar" where
  "db_raw e f reg =
     (if db_ok e DbRaw (reg_calls reg) then (tick reg)\<lparr>reg_db := f (reg_db reg)\<rparr> else tick reg)"

definition clear_tables :: "yumi_env \<Rightarrow> gr_registrar \<Rightarrow> gr_registrar" where
  "clear_tables e reg =
     db_raw e (\<lambda>d. d\<lparr>db_audit := []\<rparr>) (db_raw e (\<lambda>d. d\<lparr>db_epochs := []\<rparr>)
    (db_raw e (\<lambda>d. d\<lparr>db_servers := []\<rparr>) (db_raw e (\<lambda>d. d\<lparr>db_webapps := []\<rparr>)
    (db_raw e (\<lambda>d. d\<lparr>db_roles := []\<rparr>) (db_raw e (\<lambda>d. d\<lparr>db_peers := []\<rparr>) reg)))))"

text \<open>
  The rows of a table, each parsed and inserted.  A parser may allocate (at most twice), so a row
  takes two calls for itself.
\<close>

fun load_rows :: "yumi_env \<Rightarrow> (nat \<Rightarrow> gr_reader_t \<Rightarrow> 'a option \<times> gr_reader_t) \<Rightarrow>
    ('a \<Rightarrow> gr_db \<Rightarrow> (nat \<times> gr_db) option) \<Rightarrow> nat \<Rightarrow> gr_reader_t \<Rightarrow> gr_registrar \<Rightarrow>
    (gr_error_t + gr_reader_t) \<times> gr_registrar" where
  "load_rows e rd ins 0 r reg = (Inr r, reg)"
| "load_rows e rd ins (Suc n) r reg =
     (case rd (reg_calls reg) r of
        (None, r') \<Rightarrow> (Inl GR_ERR_SERIALIZATION, reg)
      | (Some v, r') \<Rightarrow>
          (case db_exec e (ins v) (tick (tick reg)) of
             (None, reg') \<Rightarrow> (Inl GR_ERR_DB, reg')
           | (Some k, reg') \<Rightarrow> load_rows e rd ins n r' reg'))"

definition load_table :: "yumi_env \<Rightarrow> (nat \<Rightarrow> gr_reader_t \<Rightarrow> 'a option \<times> gr_reader_t) \<Rightarrow>
    ('a \<Rightarrow> gr_db \<Rightarrow> (nat \<times> gr_db) option) \<Rightarrow> gr_reader_t \<Rightarrow> gr_registrar \<Rightarrow>
    (gr_error_t + gr_reader_t) \<times> gr_registrar" where
  "load_table e rd ins r reg =
     (case gr_read_u32 (host_le e) r of
        (None, r') \<Rightarrow> (Inl GR_ERR_SERIALIZATION, reg)
      | (Some n_rows, r') \<Rightarrow> load_rows e rd ins (unat n_rows) r' reg)"

fun load_server_types :: "yumi_env \<Rightarrow> nat \<Rightarrow> gr_reader_t \<Rightarrow> gr_registrar \<Rightarrow>
    (gr_error_t + gr_reader_t) \<times> gr_registrar" where
  "load_server_types e 0 r reg = (Inr r, reg)"
| "load_server_types e (Suc t) r reg =
     q_bind (load_table e (\<lambda>n. de_server (host_le e)) ps_server_insert r reg) (load_server_types e t)"

definition de_webapp_at :: "yumi_env \<Rightarrow> u32 \<Rightarrow> nat \<Rightarrow> gr_reader_t \<Rightarrow> gr_webapp_t option \<times> gr_reader_t" where
  "de_webapp_at e ver n = de_webapp (\<lambda>k. malloc_ok e n) (\<lambda>k. malloc_ok e (Suc n)) (host_le e) ver"

definition load_entities :: "yumi_env \<Rightarrow> u32 \<Rightarrow> gr_reader_t \<Rightarrow> gr_registrar \<Rightarrow>
    (gr_error_t + gr_reader_t) \<times> gr_registrar" where
  "load_entities e ver r reg =
     q_bind (load_table e (\<lambda>n. de_peer (host_le e)) ps_peer_insert r reg)
    (\<lambda>r reg. q_bind (load_table e (\<lambda>n. de_role (host_le e) ver) ps_role_insert r reg)
    (\<lambda>r reg. q_bind (load_table e (de_webapp_at e ver) ps_webapp_insert r reg)
    (\<lambda>r reg. q_bind (load_server_types e GR_SERVER_TYPE_COUNT r reg)
    (\<lambda>r reg. q_bind (load_table e (\<lambda>n. de_epoch (host_le e)) ps_epoch_insert r reg)
    (\<lambda>r reg. load_table e (\<lambda>n. de_audit (host_le e) ver) ps_audit_insert r reg)))))"

definition deserialize_body :: "yumi_env \<Rightarrow> u32 \<Rightarrow> gr_header_t \<Rightarrow> gr_reader_t \<Rightarrow> gr_registrar \<Rightarrow>
    gr_error_t \<times> gr_registrar" where
  "deserialize_body e ver nh r reg =
     gr_bind (load_entities e ver r (clear_tables e reg))
       (\<lambda>r reg. gr_header_save e (reg\<lparr>reg_header := nh\<rparr>))"

definition gr_deserialize :: "yumi_env \<Rightarrow> bytes option \<Rightarrow> gr_registrar \<Rightarrow> gr_error_t \<times> gr_registrar" where
  "gr_deserialize e data reg =
     (case data of
        None \<Rightarrow> (GR_ERR_INVALID_PARAM, reg)
      | Some d \<Rightarrow>
          (case de_blob_head (host_le e) \<lparr>rd_data = d, rd_pos = 0\<rparr> of
             (None, r) \<Rightarrow> (GR_ERR_SERIALIZATION, reg)
           | (Some (ver, nh), r) \<Rightarrow>
               if \<not> mldsa_verify e (h_signature nh) (h_hash nh) (h_signer_sign_key nh)
               then (GR_ERR_SIGNATURE_INVALID, reg)
               else if h_owner_sign_key nh \<noteq> h_owner_sign_key (reg_header reg) then (GR_ERR_UNAUTHORIZED, reg)
               else if h_version nh \<le> h_version (reg_header reg) then (GR_OK, reg)
               else with_txn e (deserialize_body e ver nh r) reg))"

section \<open>Receiving a delta: parsing\<close>

datatype gr_delta_action_t = GR_DELTA_CONTINUE | GR_DELTA_SUSPEND | GR_DELTA_CONTINUE_EXTENDED

text \<open>The sender's header and entities, as \<open>gr_apply_delta\<close> keeps them in arrays.\<close>

record delta_state =
  ds_header :: gr_header_t
  ds_peers :: "gr_peer_t list"
  ds_roles :: "gr_role_t list"
  ds_webapps :: "gr_webapp_t list"
  ds_servers :: "gr_server_t list"
  ds_epochs :: "gr_epoch_t list"

fun parse_rows :: "(nat \<Rightarrow> gr_reader_t \<Rightarrow> 'a option \<times> gr_reader_t) \<Rightarrow> nat \<Rightarrow> gr_reader_t \<Rightarrow> gr_registrar \<Rightarrow>
    (gr_error_t + 'a list \<times> gr_reader_t) \<times> gr_registrar" where
  "parse_rows rd 0 r reg = (Inr ([], r), reg)"
| "parse_rows rd (Suc n) r reg =
     (case rd (reg_calls reg) r of
        (None, r') \<Rightarrow> (Inl GR_ERR_SERIALIZATION, tick (tick reg))
      | (Some v, r') \<Rightarrow>
          q_bind (parse_rows rd n r' (tick (tick reg))) (\<lambda>(vs, r'') reg'. (Inr (v # vs, r''), reg')))"

text \<open>A count larger than the rest of the input is refused before anything is allocated.\<close>

definition parse_array :: "yumi_env \<Rightarrow> gr_error_t \<Rightarrow> (nat \<Rightarrow> gr_reader_t \<Rightarrow> 'a option \<times> gr_reader_t) \<Rightarrow>
    gr_reader_t \<Rightarrow> gr_registrar \<Rightarrow> (gr_error_t + 'a list \<times> gr_reader_t) \<times> gr_registrar" where
  "parse_array e oom rd r reg =
     (case gr_read_u32 (host_le e) r of
        (None, r') \<Rightarrow> (Inl GR_ERR_SERIALIZATION, reg)
      | (Some n, r') \<Rightarrow>
          if length (rd_data r') - rd_pos r' < unat n then (Inl GR_ERR_SERIALIZATION, reg)
          else if n = 0 then (Inr ([], r'), reg)
          else if \<not> malloc_ok e (reg_calls reg) then (Inl oom, tick reg)
          else parse_rows rd (unat n) r' (tick reg))"

fun parse_server_types :: "yumi_env \<Rightarrow> nat \<Rightarrow> gr_reader_t \<Rightarrow> gr_registrar \<Rightarrow>
    (gr_error_t + gr_server_t list \<times> gr_reader_t) \<times> gr_registrar" where
  "parse_server_types e 0 r reg = (Inr ([], r), reg)"
| "parse_server_types e (Suc t) r reg =
     q_bind (parse_array e GR_ERR_OUT_OF_MEMORY (\<lambda>n. de_server (host_le e)) r reg) (\<lambda>(vs, r) reg.
     q_bind (parse_server_types e t r reg) (\<lambda>(ws, r) reg. (Inr (vs @ ws, r), reg)))"

definition parse_delta_state :: "yumi_env \<Rightarrow> u32 \<Rightarrow> gr_reader_t \<Rightarrow> gr_registrar \<Rightarrow>
    (gr_error_t + delta_state \<times> gr_reader_t) \<times> gr_registrar" where
  "parse_delta_state e ver r reg =
     (case de_header (host_le e) r of
        (None, r') \<Rightarrow> (Inl GR_ERR_SERIALIZATION, reg)
      | (Some hdr, r') \<Rightarrow>
          if \<not> mldsa_verify e (h_signature hdr) (h_hash hdr) (h_signer_sign_key hdr)
          then (Inl GR_ERR_SIGNATURE_INVALID, reg)
          else if h_owner_sign_key hdr \<noteq> h_owner_sign_key (reg_header reg) then (Inl GR_ERR_UNAUTHORIZED, reg)
          else q_bind (parse_array e GR_ERR_OUT_OF_MEMORY (\<lambda>n. de_peer (host_le e)) r' reg)
            (\<lambda>(peers, r) reg. q_bind (parse_array e GR_ERR_SERIALIZATION (\<lambda>n. de_role (host_le e) ver) r reg)
            (\<lambda>(roles, r) reg. q_bind (parse_array e GR_ERR_SERIALIZATION (de_webapp_at e ver) r reg)
            (\<lambda>(webapps, r) reg. q_bind (parse_server_types e GR_SERVER_TYPE_COUNT r reg)
            (\<lambda>(servers, r) reg. q_bind (parse_array e GR_ERR_SERIALIZATION (\<lambda>n. de_epoch (host_le e)) r reg)
            (\<lambda>(epochs, r) reg. (Inr (\<lparr>ds_header = hdr, ds_peers = peers, ds_roles = roles,
               ds_webapps = webapps, ds_servers = servers, ds_epochs = epochs\<rparr>, r), reg)))))))"

section \<open>Receiving a delta: audit entries\<close>

text \<open>The permissions the sender's entities give the actor at the time of the entry, if they tell.\<close>

definition state_perms :: "delta_state \<Rightarrow> gr_audit_entry_t \<Rightarrow> u32 option" where
  "state_perms ds a =
     (if a_actor_id a = h_owner_id (ds_header ds) then Some GR_PERM_OWNER
      else case find (\<lambda>p. p_peer_id p = a_actor_id a) (ds_peers ds) of
             None \<Rightarrow> None
           | Some p \<Rightarrow>
               if p_status p = GR_PEER_ACTIVE
                 \<or> 0 < sint (p_removed_at p) \<and> sint (a_timestamp a) < sint (p_removed_at p)
               then if p_role_id p = 0 then Some GR_PERM_NONE
                    else map_option r_permissions (find (\<lambda>r. r_role_id r = p_role_id p) (ds_roles ds))
               else None)"

definition entry_perms :: "yumi_env \<Rightarrow> delta_state option \<Rightarrow> gr_audit_entry_t \<Rightarrow> gr_registrar \<Rightarrow> u32 \<times> gr_registrar" where
  "entry_perms e ds a reg =
     (case Option.bind ds (\<lambda>ds. state_perms ds a) of
        Some perms \<Rightarrow> (perms, reg)
      | None \<Rightarrow> if gr_is_owner reg (a_actor_id a) then (GR_PERM_OWNER, reg)
                else gr_get_peer_permissions e (a_actor_id a) reg)"

text \<open>The \<open>switch\<close> over the kind of change; it has no default.\<close>

definition delta_authorized :: "u32 \<Rightarrow> u32 \<Rightarrow> bool \<Rightarrow> bool" where
  "delta_authorized ct perms by_owner =
     (if ct \<in> {GR_CHANGE_PEER_ADDED, GR_CHANGE_INVITE_CREATED, GR_CHANGE_INVITE_USED, GR_CHANGE_INVITE_INVALIDATED}
      then and perms GR_PERM_INVITE_MEMBER \<noteq> 0
      else if ct \<in> {GR_CHANGE_PEER_KICKED, GR_CHANGE_PEER_REMOVED} then and perms GR_PERM_KICK_MEMBER \<noteq> 0
      else if ct = GR_CHANGE_PEER_BANNED then and perms GR_PERM_BAN_MEMBER \<noteq> 0
      else if ct = GR_CHANGE_PEER_ADDRESS then True
      else if ct \<in> {GR_CHANGE_PEER_ROLE_CHANGED, GR_CHANGE_ROLE_ADDED, GR_CHANGE_ROLE_REMOVED, GR_CHANGE_ROLE_MODIFIED}
      then and perms GR_PERM_EDIT_ROLES \<noteq> 0
      else if ct = GR_CHANGE_WEBAPP_ADDED then and perms GR_PERM_ADD_WEBAPP \<noteq> 0
      else if ct = GR_CHANGE_WEBAPP_REMOVED then and perms GR_PERM_REMOVE_WEBAPP \<noteq> 0
      else if ct \<in> {GR_CHANGE_SERVER_ADDED, GR_CHANGE_SERVER_REMOVED} then and perms GR_PERM_EDIT_SERVERS \<noteq> 0
      else if ct = GR_CHANGE_EPOCH_ROTATED then and perms GR_PERM_ROTATE_EPOCH \<noteq> 0
      else if ct = GR_CHANGE_RETENTION_SET then and perms GR_PERM_EDIT_RETENTION \<noteq> 0
      else if ct = GR_CHANGE_REGISTRAR_SIGNED then by_owner
      else if ct \<in> {GR_CHANGE_GROUP_ICON_SET, GR_CHANGE_GROUP_ICON_REMOVED} then and perms GR_PERM_SET_GROUP_ICON \<noteq> 0
      else if ct = GR_CHANGE_BOOT_IP_BLOCKED then True
      else False)"

definition delta_owner :: "delta_state option \<Rightarrow> gr_registrar \<Rightarrow> bytes \<Rightarrow> bool" where
  "delta_owner ds reg actor =
     (case ds of Some ds \<Rightarrow> actor = h_owner_id (ds_header ds) | None \<Rightarrow> gr_is_owner reg actor)"

text \<open>Storing an accepted entry, and what it does to the result and the header.\<close>

definition accept_entry :: "yumi_env \<Rightarrow> gr_audit_entry_t \<Rightarrow> gr_merge_result_t \<Rightarrow> gr_registrar \<Rightarrow>
    (gr_error_t + gr_merge_result_t) \<times> gr_registrar" where
  "accept_entry e a mr reg =
     (case db_exec e (ps_audit_insert a) reg of
        (None, r1) \<Rightarrow> (Inl GR_ERR_DB, r1)
      | (Some k, r1) \<Rightarrow>
          (case db_query e (\<lambda>d. Some (ps_audit_fork_check (a_prev_hash a) d)) r1 of (fres, r2) \<Rightarrow>
           let mr1 = mr\<lparr>entries_new := entries_new mr + 1\<rparr>;
               mr2 = (case fres of
                        Inr n \<Rightarrow> if 1 < n then mr1\<lparr>forks_detected := forks_detected mr1 + 1\<rparr> else mr1
                      | Inl _ \<Rightarrow> mr1);
               h = reg_header r2;
               h1 = (if h_version h < a_registrar_version a then h\<lparr>h_version := a_registrar_version a\<rparr> else h);
               h2 = (if sint (h_updated_at h1) < sint (a_timestamp a) then h1\<lparr>h_updated_at := a_timestamp a\<rparr> else h1)
           in (Inr mr2, r2\<lparr>reg_header := h2\<rparr>)))"

definition reject_entry :: "gr_merge_result_t \<Rightarrow> gr_registrar \<Rightarrow> (gr_error_t + gr_merge_result_t) \<times> gr_registrar" where
  "reject_entry mr reg = (Inr (mr\<lparr>entries_rejected := entries_rejected mr + 1\<rparr>), reg)"

definition merge_entry :: "yumi_env \<Rightarrow> delta_state option \<Rightarrow> gr_audit_entry_t \<Rightarrow> gr_merge_result_t \<Rightarrow> gr_registrar \<Rightarrow>
    (gr_error_t + gr_merge_result_t) \<times> gr_registrar" where
  "merge_entry e ds a mr reg =
     (case db_query e (\<lambda>d. Some (ps_audit_dedup (a_entry_hash a) d)) reg of
        (Inl err, r1) \<Rightarrow> (Inl GR_ERR_DB, r1)
      | (Inr dup, r1) \<Rightarrow>
          if 0 < dup then (Inr (mr\<lparr>entries_duplicate := entries_duplicate mr + 1\<rparr>), r1)
          else if \<not> skein_ok e (reg_calls r1) then (Inl GR_ERR_SERIALIZATION, tick r1)
          else if audit_hash e a \<noteq> a_entry_hash a then reject_entry mr (tick r1)
          else (case db_fetch e (ps_audit_actor_pk (a_actor_id a)) (tick r1) of
                  (Inl err, r2) \<Rightarrow> reject_entry mr r2
                | (Inr pk, r2) \<Rightarrow>
                    if \<not> mldsa_verify e (a_signature a) (a_entry_hash a) pk then reject_entry mr r2
                    else (case entry_perms e ds a r2 of (perms, r3) \<Rightarrow>
                       if \<not> delta_authorized (a_change_type a) perms (delta_owner ds r3 (a_actor_id a))
                       then reject_entry mr r3
                       else accept_entry e a mr r3)))"

fun merge_entries :: "yumi_env \<Rightarrow> u32 \<Rightarrow> delta_state option \<Rightarrow> nat \<Rightarrow> gr_reader_t \<Rightarrow> gr_merge_result_t \<Rightarrow>
    gr_registrar \<Rightarrow> (gr_error_t + gr_merge_result_t) \<times> gr_registrar" where
  "merge_entries e ver ds 0 r mr reg = (Inr mr, reg)"
| "merge_entries e ver ds (Suc n) r mr reg =
     (case de_audit (host_le e) ver r of
        (None, r') \<Rightarrow> (Inl GR_ERR_SERIALIZATION, reg)
      | (Some a, r') \<Rightarrow> q_bind (merge_entry e ds a mr reg) (merge_entries e ver ds n r'))"

section \<open>Receiving a delta: entities\<close>

text \<open>The five upserts: bind the columns and execute the prepared statement.\<close>

definition db_delta_upsert_peer :: "yumi_env \<Rightarrow> gr_peer_t \<Rightarrow> gr_registrar \<Rightarrow> gr_error_t \<times> gr_registrar" where
  "db_delta_upsert_peer e p reg =
     (case db_exec e (ps_delta_peer_upsert p) reg of (None, r) \<Rightarrow> (GR_ERR_DB, r) | (Some k, r) \<Rightarrow> (GR_OK, r))"

definition db_delta_upsert_role :: "yumi_env \<Rightarrow> gr_role_t \<Rightarrow> gr_registrar \<Rightarrow> gr_error_t \<times> gr_registrar" where
  "db_delta_upsert_role e rl reg =
     (case db_exec e (ps_delta_role_upsert rl) reg of (None, r) \<Rightarrow> (GR_ERR_DB, r) | (Some k, r) \<Rightarrow> (GR_OK, r))"

definition db_delta_upsert_webapp :: "yumi_env \<Rightarrow> gr_webapp_t \<Rightarrow> gr_registrar \<Rightarrow> gr_error_t \<times> gr_registrar" where
  "db_delta_upsert_webapp e w reg =
     (case db_exec e (ps_delta_webapp_upsert w) reg of (None, r) \<Rightarrow> (GR_ERR_DB, r) | (Some k, r) \<Rightarrow> (GR_OK, r))"

definition db_delta_upsert_server :: "yumi_env \<Rightarrow> gr_server_t \<Rightarrow> gr_registrar \<Rightarrow> gr_error_t \<times> gr_registrar" where
  "db_delta_upsert_server e sv reg =
     (case db_exec e (ps_delta_server_upsert sv) reg of (None, r) \<Rightarrow> (GR_ERR_DB, r) | (Some k, r) \<Rightarrow> (GR_OK, r))"

definition db_delta_upsert_epoch :: "yumi_env \<Rightarrow> gr_epoch_t \<Rightarrow> gr_registrar \<Rightarrow> gr_error_t \<times> gr_registrar" where
  "db_delta_upsert_epoch e ep reg =
     (case db_exec e (ps_delta_epoch_upsert ep) reg of (None, r) \<Rightarrow> (GR_ERR_DB, r) | (Some k, r) \<Rightarrow> (GR_OK, r))"

lemma snd_upserts [simp]:
  "snd (db_delta_upsert_peer e p reg) = snd (db_exec e (ps_delta_peer_upsert p) reg)"
  "snd (db_delta_upsert_role e rl reg) = snd (db_exec e (ps_delta_role_upsert rl) reg)"
  "snd (db_delta_upsert_webapp e w reg) = snd (db_exec e (ps_delta_webapp_upsert w) reg)"
  "snd (db_delta_upsert_server e sv reg) = snd (db_exec e (ps_delta_server_upsert sv) reg)"
  "snd (db_delta_upsert_epoch e ep reg) = snd (db_exec e (ps_delta_epoch_upsert ep) reg)"
  by (simp_all add: db_delta_upsert_peer_def db_delta_upsert_role_def db_delta_upsert_webapp_def db_delta_upsert_server_def db_delta_upsert_epoch_def split: prod.splits option.splits)

definition max3_i64 :: "i64 \<Rightarrow> i64 \<Rightarrow> i64 \<Rightarrow> i64" where
  "max3_i64 a b c = (let m = a; m = (if sint m < sint b then b else m) in if sint m < sint c then c else m)"

definition peer_stamp :: "gr_peer_t \<Rightarrow> i64" where
  "peer_stamp p = max3_i64 (p_last_seen p) (p_joined_at p) (p_removed_at p)"

text \<open>
  Last writer wins.  The results of the upserts are not looked at; a lookup that fails counts as a
  row that is not there.
\<close>

definition merge_peer :: "yumi_env \<Rightarrow> gr_peer_t \<Rightarrow> gr_merge_result_t \<times> gr_registrar \<Rightarrow> gr_merge_result_t \<times> gr_registrar" where
  "merge_peer e p st =
     (case gr_peer_get e (p_peer_id p) (snd st) of
        (Inr local, r) \<Rightarrow>
          if sint (peer_stamp p) \<le> sint (peer_stamp local) then (fst st, r)
          else ((fst st)\<lparr>conflicts_resolved := conflicts_resolved (fst st) + 1\<rparr>,
                snd (db_delta_upsert_peer e p r))
      | (Inl _, r) \<Rightarrow> (fst st, snd (db_delta_upsert_peer e p r)))"

definition merge_role :: "yumi_env \<Rightarrow> gr_role_t \<Rightarrow> gr_merge_result_t \<times> gr_registrar \<Rightarrow> gr_merge_result_t \<times> gr_registrar" where
  "merge_role e rl st =
     (case gr_role_get e (r_role_id rl) (snd st) of
        (Inr local, r) \<Rightarrow>
          if sint (r_modified_at rl) \<le> sint (r_modified_at local) then (fst st, r)
          else ((fst st)\<lparr>conflicts_resolved := conflicts_resolved (fst st) + 1\<rparr>,
                snd (db_delta_upsert_role e rl r))
      | (Inl _, r) \<Rightarrow> (fst st, snd (db_delta_upsert_role e rl r)))"

definition merge_webapp :: "yumi_env \<Rightarrow> gr_webapp_t \<Rightarrow> gr_registrar \<Rightarrow> gr_registrar" where
  "merge_webapp e w reg = snd (db_delta_upsert_webapp e w reg)"

text \<open>A server whose secret key is all zeros keeps the local copy's key.\<close>

definition merge_server :: "yumi_env \<Rightarrow> gr_server_t \<Rightarrow> gr_registrar \<Rightarrow> gr_registrar" where
  "merge_server e s reg =
     (if s_content_kem_sk s = replicate GR_KEM_SECRET_KEY_LEN 0
      then case db_fetch e (ps_server_get (s_id_hash s)) reg of
             (Inr local, r) \<Rightarrow>
               snd (db_delta_upsert_server e (s\<lparr>s_content_kem_sk := s_content_kem_sk local\<rparr>) r)
           | (Inl _, r) \<Rightarrow> snd (db_delta_upsert_server e s r)
      else snd (db_delta_upsert_server e s reg))"

definition merge_epoch :: "yumi_env \<Rightarrow> gr_epoch_t \<Rightarrow> gr_registrar \<Rightarrow> gr_registrar" where
  "merge_epoch e ep reg =
     (case gr_epoch_get e (e_epoch_id ep) reg of
        (Inr local, r) \<Rightarrow> r
      | (Inl _, r) \<Rightarrow> snd (db_delta_upsert_epoch e ep r))"

definition merge_state :: "yumi_env \<Rightarrow> delta_state \<Rightarrow> gr_merge_result_t \<Rightarrow> gr_registrar \<Rightarrow> gr_merge_result_t \<times> gr_registrar" where
  "merge_state e ds mr reg =
     (case fold (merge_role e) (ds_roles ds) (fold (merge_peer e) (ds_peers ds) (mr, reg)) of (mr', r) \<Rightarrow>
        (mr', fold (merge_epoch e) (ds_epochs ds)
               (fold (merge_server e) (ds_servers ds) (fold (merge_webapp e) (ds_webapps ds) r))))"

definition merge_result_zero :: gr_merge_result_t where
  "merge_result_zero = \<lparr>entries_received = 0, entries_new = 0, entries_duplicate = 0,
     entries_rejected = 0, conflicts_resolved = 0, forks_detected = 0, new_version = 0\<rparr>"

text \<open>What happens inside the transaction.\<close>

definition delta_body :: "yumi_env \<Rightarrow> u32 \<Rightarrow> delta_state option \<Rightarrow> u32 \<Rightarrow> gr_reader_t \<Rightarrow> gr_registrar \<Rightarrow>
    (gr_error_t + gr_merge_result_t) \<times> gr_registrar" where
  "delta_body e ver ds n r reg =
     q_bind (merge_entries e ver ds (unat n) r (merge_result_zero\<lparr>entries_received := n\<rparr>) reg) (\<lambda>mr reg.
       case (case ds of None \<Rightarrow> (mr, reg) | Some ds \<Rightarrow> merge_state e ds mr reg) of (mr, reg) \<Rightarrow>
       let mr = mr\<lparr>new_version := h_version (reg_header reg)\<rparr> in
       if 0 < entries_new mr \<or> 0 < conflicts_resolved mr
       then case gr_header_save e reg of (herr, reg') \<Rightarrow>
              if herr \<noteq> GR_OK then (Inl GR_ERR_DB, reg') else (Inr mr, reg')
       else (Inr mr, reg))"

definition delta_too_big :: "yumi_env \<Rightarrow> (nat \<Rightarrow> u32 \<Rightarrow> i64 \<Rightarrow> gr_delta_action_t) option \<Rightarrow> nat \<Rightarrow> gr_registrar \<Rightarrow>
    bool \<times> gr_registrar" where
  "delta_too_big e anomaly_fn data_len reg =
     (if data_len \<le> GR_DELTA_MAX_BYTES then (False, reg)
      else case anomaly_fn of
             None \<Rightarrow> (True, reg)
           | Some f \<Rightarrow> (f data_len 0 (now_of e reg - h_updated_at (reg_header reg)) = GR_DELTA_SUSPEND, tick reg))"

definition de_delta_head :: "bool \<Rightarrow> gr_reader_t \<Rightarrow> (u32 \<times> u32) option \<times> gr_reader_t" where
  "de_delta_head h =
     rbind (gr_read_bytes 4) (\<lambda>magic.
     if magic \<noteq> DELTA_MAGIC then rfail
     else rbind (gr_read_u32 h) (\<lambda>wire_ver.
     if SERIAL_VERSION < wire_ver then rfail
     else rbind (gr_read_u32 h) (\<lambda>since_version. rreturn (wire_ver, since_version))))"

definition delta_parsed :: "yumi_env \<Rightarrow> u32 \<Rightarrow> delta_state option \<times> gr_reader_t \<Rightarrow> gr_registrar \<Rightarrow>
    (gr_error_t + gr_merge_result_t) \<times> gr_registrar" where
  "delta_parsed e ver parsed reg =
     (case gr_read_u32 (host_le e) (snd parsed) of
        (None, r) \<Rightarrow> (Inl GR_ERR_SERIALIZATION, reg)
      | (Some n, r) \<Rightarrow>
          if length (rd_data r) - rd_pos r < unat n then (Inl GR_ERR_SERIALIZATION, reg)
          else q_bind (with_txn_val e (delta_body e ver (fst parsed) n r) reg) (\<lambda>mr reg.
            (Inr mr, if 0 < entries_new mr then snd (gr_audit_enforce_retention_internal e reg) else reg)))"

definition gr_apply_delta :: "yumi_env \<Rightarrow> (nat \<Rightarrow> u32 \<Rightarrow> i64 \<Rightarrow> gr_delta_action_t) option \<Rightarrow> bytes option \<Rightarrow>
    gr_registrar \<Rightarrow> (gr_error_t + gr_merge_result_t) \<times> gr_registrar" where
  "gr_apply_delta e anomaly_fn data reg =
     (case data of
        None \<Rightarrow> (Inl GR_ERR_INVALID_PARAM, reg)
      | Some d \<Rightarrow>
          (case delta_too_big e anomaly_fn (length d) reg of (refused, reg) \<Rightarrow>
           if refused then (Inl GR_ERR_SIZE_EXCEEDED, reg)
           else case de_delta_head (host_le e) \<lparr>rd_data = d, rd_pos = 0\<rparr> of
               (None, r) \<Rightarrow> (Inl GR_ERR_SERIALIZATION, reg)
             | (Some (ver, since_version), r) \<Rightarrow>
                 if 2 \<le> ver
                 then q_bind (parse_delta_state e ver r reg) (\<lambda>(ds, r). delta_parsed e ver (Some ds, r))
                 else delta_parsed e ver (None, r) reg))"

end
