(* ===== verification/Sync_Merge.thy ===== *)
theory Sync_Merge imports Sync Demo Crypto_Safety
begin

text \<open>
  What a received registrar or delta can do (\<open>src/src/group_registrar/serialize.c\<close>): errors leave no
  trace, every audit entry that a delta adds is sealed, signed by a member and authorised, rows are
  merged last writer wins, and the parts of the header that a delta never touches.
\<close>

section \<open>The merge stays inside its transaction\<close>

definition txn_kept :: "gr_registrar \<Rightarrow> gr_registrar \<Rightarrow> bool" where
  "txn_kept reg r \<longleftrightarrow> reg_saved r = reg_saved reg \<and> reg_txn_saved_header r = reg_txn_saved_header reg
     \<and> reg_txn_depth r = reg_txn_depth reg \<and> reg_stmts_ready r = reg_stmts_ready reg
     \<and> reg_join_state r = reg_join_state reg"

named_theorems kept \<open>steps that stay inside the transaction\<close>

lemma txn_kept_refl [kept]: "txn_kept r r"
  by (simp add: txn_kept_def)

lemma txn_kept_trans: "txn_kept a b \<Longrightarrow> txn_kept b c \<Longrightarrow> txn_kept a c"
  by (simp add: txn_kept_def)

lemma txn_kept_simps [kept]:
  "txn_kept r (tick r)" "txn_kept r (r\<lparr>reg_header := h\<rparr>)" "txn_kept r (r\<lparr>reg_db := d\<rparr>)"
  by (simp_all add: txn_kept_def)

lemma txn_kept_exec [kept]: "txn_kept r (snd (db_exec e stmt r))"
  by (simp add: db_exec_def txn_kept_def split: option.splits)

lemma txn_kept_quiet: "quiet a b \<Longrightarrow> txn_kept a b"
  by (simp add: txn_kept_def quietD)

lemma txn_kept_raw [kept]: "txn_kept r (db_raw e f r)"
  by (simp add: db_raw_def txn_kept_def)

lemma txn_kept_in_txn: "txn_kept reg r \<Longrightarrow> in_txn d0 h0 reg \<Longrightarrow> in_txn d0 h0 r"
  by (simp add: txn_kept_def in_txn_def)

lemma txn_kept_bind:
  assumes "txn_kept reg (snd m)" and "\<And>v r. m = (Inr v, r) \<Longrightarrow> txn_kept r (snd (f v r))"
  shows "txn_kept reg (snd (q_bind m f))"
  using assms txn_kept_trans by (auto simp: q_bind_def split: prod.splits sum.splits)

lemma no_ok_bind:
  assumes "fst m \<noteq> Inl GR_OK" and "\<And>v r. fst (f v r) \<noteq> Inl GR_OK"
  shows "fst (q_bind m f) \<noteq> Inl GR_OK"
  using assms by (auto simp: q_bind_def split: prod.splits sum.splits)

lemma quiet_gets [simp]:
  "quiet reg (snd (gr_peer_get e i reg))" "quiet reg (snd (gr_role_get e j reg))"
  "quiet reg (snd (gr_epoch_get e k reg))"
  by (simp_all add: gr_peer_get_def gr_role_get_def gr_epoch_get_def quiet_fetch)

lemma entry_perms_quiet: "quiet reg (snd (entry_perms e ds a reg))"
  by (simp add: entry_perms_def gr_get_peer_permissions_def split: option.splits)

lemma kept_accept [kept]: "txn_kept reg (snd (accept_entry e a mr reg))"
proof -
  obtain x r1 where x: "db_exec e (ps_audit_insert a) reg = (x, r1)" by (cases "db_exec e (ps_audit_insert a) reg")
  have 1: "txn_kept reg r1" using txn_kept_exec [of reg e "ps_audit_insert a"] x by simp
  obtain y r2 where y: "db_query e (\<lambda>d. Some (ps_audit_fork_check (a_prev_hash a) d)) r1 = (y, r2)"
    by (cases "db_query e (\<lambda>d. Some (ps_audit_fork_check (a_prev_hash a) d)) r1")
  have q: "quiet r1 r2" using quiet_query [of r1 e "\<lambda>d. Some (ps_audit_fork_check (a_prev_hash a) d)"] y by simp
  have "txn_kept reg (r2\<lparr>reg_header := h\<rparr>)" for h
    by (rule txn_kept_trans [OF txn_kept_trans [OF 1 txn_kept_quiet [OF q]] txn_kept_simps(2)])
  then show ?thesis using 1 x y by (cases x) (simp_all add: accept_entry_def Let_def)
qed

lemma kept_merge_entry [kept]: "txn_kept reg (snd (merge_entry e ds a mr reg))"
proof -
  obtain x r1 where x: "db_query e (\<lambda>d. Some (ps_audit_dedup (a_entry_hash a) d)) reg = (x, r1)"
    by (cases "db_query e (\<lambda>d. Some (ps_audit_dedup (a_entry_hash a) d)) reg")
  obtain y r2 where y: "db_fetch e (ps_audit_actor_pk (a_actor_id a)) (tick r1) = (y, r2)"
    by (cases "db_fetch e (ps_audit_actor_pk (a_actor_id a)) (tick r1)")
  obtain perms r3 where z: "entry_perms e ds a r2 = (perms, r3)" by (cases "entry_perms e ds a r2")
  have q: "quiet reg r1" "quiet (tick r1) r2" "quiet r2 r3"
    using quiet_query [of reg e "\<lambda>d. Some (ps_audit_dedup (a_entry_hash a) d)"]
      quiet_fetch [of "tick r1" e "ps_audit_actor_pk (a_actor_id a)"] entry_perms_quiet [of r2 e ds a] x y z by simp_all
  have k1: "txn_kept reg r1" by (rule txn_kept_quiet [OF q(1)])
  have k: "txn_kept reg (tick r1)" by (rule txn_kept_trans [OF k1 txn_kept_simps(1)])
  have k2: "txn_kept reg r2" by (rule txn_kept_trans [OF k txn_kept_quiet [OF q(2)]])
  have k3: "txn_kept reg r3" by (rule txn_kept_trans [OF k2 txn_kept_quiet [OF q(3)]])
  note k4 = txn_kept_trans [OF k3 kept_accept [of r3 e a mr]]
  show ?thesis
  proof (cases x)
    case (Inr dup)
    show ?thesis using k1 k k2 k3 k4 x y z Inr by (cases y) (simp_all add: merge_entry_def reject_entry_def)
  qed (simp add: merge_entry_def x k1)
qed

lemma no_ok_merge_entry: "fst (merge_entry e ds a mr reg) \<noteq> Inl GR_OK"
  by (simp add: merge_entry_def accept_entry_def reject_entry_def Let_def split: prod.splits sum.splits option.splits)

lemma kept_merge_entries [kept]: "txn_kept reg (snd (merge_entries e ver ds n r mr reg))"
  by (induction e ver ds n r mr reg rule: merge_entries.induct)
     (auto simp: kept split: prod.splits option.splits intro!: txn_kept_bind)

lemma no_ok_merge_entries: "fst (merge_entries e ver ds n r mr reg) \<noteq> Inl GR_OK"
proof (induction n arbitrary: r mr reg)
  case (Suc n)
  have "fst (q_bind (merge_entry e ds a mr reg) (merge_entries e ver ds n r')) \<noteq> Inl GR_OK" for a r'
    by (rule no_ok_bind [OF no_ok_merge_entry Suc.IH])
  then show ?case by (simp split: prod.splits option.splits)
qed simp

lemma kept_upsert: "txn_kept reg r \<Longrightarrow> txn_kept reg (snd (db_exec e stmt r))"
  by (meson txn_kept_exec txn_kept_trans)

lemma kept_merge_rows [kept]:
  "txn_kept (snd st) (snd (merge_peer e p st))" "txn_kept (snd st) (snd (merge_role e rl st))"
  "txn_kept reg (merge_webapp e w reg)" "txn_kept reg (merge_server e s reg)" "txn_kept reg (merge_epoch e ep reg)"
proof -
  have q: "txn_kept (snd st) (snd (gr_peer_get e i (snd st)))" "txn_kept (snd st) (snd (gr_role_get e j (snd st)))"
    "txn_kept reg (snd (gr_epoch_get e k reg))" "txn_kept reg (snd (db_fetch e f reg))" for i j k and f :: "gr_db \<Rightarrow> gr_server_t option"
    by (simp_all add: txn_kept_quiet quiet_fetch)
  show "txn_kept (snd st) (snd (merge_peer e p st))"
    using q(1) [of "p_peer_id p"] by (auto simp: merge_peer_def split: prod.splits sum.splits intro: kept_upsert)
  show "txn_kept (snd st) (snd (merge_role e rl st))"
    using q(2) [of "r_role_id rl"] by (auto simp: merge_role_def split: prod.splits sum.splits intro: kept_upsert)
  show "txn_kept reg (merge_webapp e w reg)" by (simp add: merge_webapp_def kept)
  show "txn_kept reg (merge_server e s reg)"
    using q(4) [of "ps_server_get (s_id_hash s)"]
    by (auto simp: merge_server_def txn_kept_exec split: prod.splits sum.splits intro: kept_upsert)
  show "txn_kept reg (merge_epoch e ep reg)"
    using q(3) [of "e_epoch_id ep"] by (auto simp: merge_epoch_def split: prod.splits sum.splits intro: kept_upsert)
qed

lemma kept_fold:
  assumes "\<And>x s. txn_kept (g s) (g (f x s))"
  shows "txn_kept (g s) (g (fold f xs s))"
  using assms by (induction xs arbitrary: s) (auto intro: txn_kept_refl txn_kept_trans)

lemma kept_merge_state [kept]: "txn_kept reg (snd (merge_state e ds mr reg))"
proof -
  let ?s = "fold (merge_role e) (ds_roles ds) (fold (merge_peer e) (ds_peers ds) (mr, reg))"
  let ?w = "fold (merge_webapp e) (ds_webapps ds) (snd ?s)"
  let ?v = "fold (merge_server e) (ds_servers ds) ?w"
  have "txn_kept reg (snd (fold (merge_peer e) (ds_peers ds) (mr, reg)))"
    using kept_fold [of snd "merge_peer e" "(mr, reg)"] kept_merge_rows(1) by simp
  moreover have "txn_kept (snd (fold (merge_peer e) (ds_peers ds) (mr, reg))) (snd ?s)"
    by (rule kept_fold [of snd]) (rule kept_merge_rows(2))
  moreover have "txn_kept (snd ?s) ?w" by (rule kept_fold [of "\<lambda>r. r"]) (rule kept_merge_rows(3))
  moreover have "txn_kept ?w ?v" by (rule kept_fold [of "\<lambda>r. r"]) (rule kept_merge_rows(4))
  moreover have "txn_kept ?v (fold (merge_epoch e) (ds_epochs ds) ?v)"
    by (rule kept_fold [of "\<lambda>r. r"]) (rule kept_merge_rows(5))
  ultimately have "txn_kept reg (fold (merge_epoch e) (ds_epochs ds) ?v)" by (blast intro: txn_kept_trans)
  then show ?thesis by (simp add: merge_state_def case_prod_unfold)
qed

lemma txn_after_kept:
  assumes "\<And>reg. txn_kept reg (snd (m reg))" and "\<And>reg. fst (m reg) \<noteq> Inl GR_OK" and "\<And>v. txn_body e (k v)"
  shows "txn_body e (\<lambda>reg. gr_bind (m reg) k)"
proof (rule txn_bodyI)
  fix d0 h0 reg assume rel: "reliable e" and t: "in_txn d0 h0 reg"
  obtain v r where m: "m reg = (v, r)" by (cases "m reg")
  have kp: "txn_kept reg r" using assms(1) [of reg] m by simp
  note t1 = txn_kept_in_txn [OF kp t]
  show "txn_result d0 h0 reg (gr_bind (m reg) k)"
    using txn_bodyD [OF assms(3) rel t1] t1 m assms(2) [of reg] kp
    by (cases v) (auto simp: gr_bind_def txn_result_def txn_kept_def)
qed

text \<open>The header is saved last; every other step stays inside.\<close>

lemma txn_save_if: "txn_body e (\<lambda>reg. if P then case gr_header_save e reg of (herr, r) \<Rightarrow>
    err_of (if herr \<noteq> GR_OK then (Inl GR_ERR_DB, r) else (Inr mr, r)) else err_of (Inr mr, reg))"
proof (cases P)
  case True
  show ?thesis
  proof (rule txn_bodyI)
    fix d0 h0 reg assume "reliable e" "in_txn d0 h0 reg"
    from txn_bodyD [OF txn_header_save this] show "txn_result d0 h0 reg (if P then case gr_header_save e reg of (herr, r) \<Rightarrow>
      err_of (if herr \<noteq> GR_OK then (Inl GR_ERR_DB, r) else (Inr mr, r)) else err_of (Inr mr, reg))"
      using True by (cases "gr_header_save e reg") (simp add: txn_result_def split: if_splits)
  qed
qed (simp add: txn_ok)

definition merged :: "yumi_env \<Rightarrow> delta_state option \<Rightarrow> gr_merge_result_t \<Rightarrow> gr_registrar \<Rightarrow> gr_merge_result_t \<times> gr_registrar" where
  "merged e ds mr reg = (case ds of None \<Rightarrow> (mr, reg) | Some ds \<Rightarrow> merge_state e ds mr reg)"

lemma kept_merged [kept]: "txn_kept reg (snd (merged e ds mr reg))"
  by (simp add: merged_def kept split: option.splits)

lemma txn_delta_body: "txn_body e (\<lambda>r. err_of (delta_body e ver ds n rd r))"
proof -
  let ?k = "\<lambda>mr reg. case merged e ds mr reg of (mr, reg) \<Rightarrow>
      let mr = mr\<lparr>new_version := h_version (reg_header reg)\<rparr> in
      if 0 < entries_new mr \<or> 0 < conflicts_resolved mr
      then case gr_header_save e reg of (herr, reg') \<Rightarrow>
             err_of (if herr \<noteq> GR_OK then (Inl GR_ERR_DB, reg') else (Inr mr, reg'))
      else err_of (Inr mr, reg)"
  have eq: "err_of (delta_body e ver ds n rd r) =
      gr_bind (merge_entries e ver ds (unat n) rd (merge_result_zero\<lparr>entries_received := n\<rparr>) r) ?k" for r
  proof -
    have f: "err_of (case p of (a, b) \<Rightarrow> g a b) = (case p of (a, b) \<Rightarrow> err_of (g a b))" for p :: "'x \<times> 'y" and g :: "'x \<Rightarrow> 'y \<Rightarrow> (gr_error_t + gr_merge_result_t) \<times> gr_registrar"
      by (cases p) simp
    show ?thesis unfolding delta_body_def err_of_q_bind merged_def [symmetric] Let_def f if_distrib [of err_of] ..
  qed
  have k: "txn_body e (?k mr)" for mr
  proof (rule txn_bodyI)
    fix d0 h0 reg assume rel: "reliable e" and t: "in_txn d0 h0 reg"
    obtain mr' r where m: "merged e ds mr reg = (mr', r)" by (cases "merged e ds mr reg")
    have kp: "txn_kept reg r" using kept_merged [of reg e ds mr] m by simp
    from txn_bodyD [OF txn_save_if [of e "0 < entries_new mr' \<or> 0 < conflicts_resolved mr'" "mr'\<lparr>new_version := h_version (reg_header r)\<rparr>"]
        rel txn_kept_in_txn [OF kp t]]
    show "txn_result d0 h0 reg (?k mr reg)"
      using kp by (simp add: m Let_def txn_result_def txn_kept_def split: if_splits)
  qed
  show ?thesis unfolding eq by (rule txn_after_kept [OF kept_merge_entries no_ok_merge_entries k])
qed

section \<open>Loading stays inside its transaction\<close>

lemma kept_load_rows [kept]: "txn_kept reg (snd (load_rows e rd ins n r reg))"
proof (induction n arbitrary: r reg)
  case (Suc n)
  have step: "txn_kept reg reg'" if "db_exec e (ins v) (tick (tick reg)) = (x, reg')" for v x reg'
  proof -
    have "txn_kept (tick (tick reg)) reg'" using txn_kept_exec [of "tick (tick reg)" e "ins v"] that by simp
    then show ?thesis by (meson txn_kept_simps(1) txn_kept_trans)
  qed
  show ?case
    by (auto split: prod.splits option.splits intro: step txn_kept_refl txn_kept_trans [OF step Suc.IH])
qed (simp add: kept)

lemma no_ok_load_rows: "fst (load_rows e rd ins n r reg) \<noteq> Inl GR_OK"
  by (induction n arbitrary: r reg) (simp_all split: prod.splits option.splits)

lemma kept_load_table [kept]: "txn_kept reg (snd (load_table e rd ins r reg))"
  by (simp add: load_table_def kept split: prod.splits option.splits)

lemma no_ok_load_table: "fst (load_table e rd ins r reg) \<noteq> Inl GR_OK"
  by (simp add: load_table_def no_ok_load_rows split: prod.splits option.splits)

lemma kept_load_types [kept]: "txn_kept reg (snd (load_server_types e n r reg))"
proof (induction n arbitrary: r reg)
  case (Suc n)
  show ?case using txn_kept_bind [OF kept_load_table Suc.IH] by simp
qed (simp add: kept)

lemma no_ok_load_types: "fst (load_server_types e n r reg) \<noteq> Inl GR_OK"
proof (induction n arbitrary: r reg)
  case (Suc n)
  show ?case using no_ok_bind [OF no_ok_load_table Suc.IH] by simp
qed simp

lemma kept_load_entities [kept]: "txn_kept reg (snd (load_entities e ver r reg))"
  unfolding load_entities_def by (intro txn_kept_bind kept_load_table kept_load_types)

lemma no_ok_load_entities: "fst (load_entities e ver r reg) \<noteq> Inl GR_OK"
  unfolding load_entities_def by (intro no_ok_bind no_ok_load_table no_ok_load_types)

lemma kept_clear [kept]: "txn_kept reg (clear_tables e reg)"
  unfolding clear_tables_def by (meson txn_kept_raw txn_kept_trans)

lemma txn_deserialize: "txn_body e (deserialize_body e ver nh r)"
proof -
  have m: "txn_kept reg (snd (load_entities e ver r (clear_tables e reg)))" for reg
    using txn_kept_trans [OF kept_clear kept_load_entities] .
  show ?thesis unfolding deserialize_body_def [abs_def]
    by (rule txn_after_kept [OF m no_ok_load_entities]) (rule txn_set_header [OF txn_header_save])
qed

lemma atomic_deserialize: "atomic_op e (gr_deserialize e data)"
proof (rule atomic_opI)
  fix reg assume rel: "reliable e" and idle: "idle reg"
  have self: "atomic_res e reg (err, reg)" for err using atomic_res_self [OF quiet_refl idle] .
  have body: "atomic_res e reg (with_txn e (deserialize_body e ver nh r) reg)" for ver nh r
    by (rule atomic_opD [OF atomic_txn [OF txn_deserialize] rel idle])
  show "atomic_res e reg (gr_deserialize e data reg)"
    by (simp add: gr_deserialize_def self body split: option.splits prod.splits)
qed

section \<open>Parsing a delta changes nothing\<close>

lemma quiet_bind:
  assumes "quiet reg (snd m)" and "\<And>v r. quiet r (snd (f v r))"
  shows "quiet reg (snd (q_bind m f))"
proof (cases m)
  case (Pair x r)
  show ?thesis using assms(1) quiet_trans [OF _ assms(2)] Pair by (cases x) (simp_all add: q_bind_def)
qed

lemma quiet_two_ticks [simp]: "quiet r (tick (tick r))"
  by (simp add: quiet_def tick_def)

lemma quiet_parse_rows: "quiet reg (snd (parse_rows rd n r reg))"
proof (induction n arbitrary: r reg)
  case (Suc n)
  have "quiet reg (snd (q_bind (parse_rows rd n r' (tick (tick reg))) (\<lambda>(vs, r'') reg'. (Inr (v # vs, r''), reg'))))" for v r'
    by (rule quiet_bind) (auto simp: quiet_trans [OF quiet_two_ticks Suc.IH])
  then show ?case by (simp split: prod.splits option.splits)
qed simp

lemma quiet_parse_array: "quiet reg (snd (parse_array e oom rd r reg))"
  by (simp add: parse_array_def quiet_trans [OF quiet_tick quiet_parse_rows] split: prod.splits option.splits)

lemma quiet_parse_types: "quiet reg (snd (parse_server_types e n r reg))"
proof (induction n arbitrary: r reg)
  case (Suc n)
  show ?case unfolding parse_server_types.simps
    by (rule quiet_bind [OF quiet_parse_array], clarsimp, rule quiet_bind [OF Suc.IH], clarsimp)
qed simp

lemma quiet_parse_state: "quiet reg (snd (parse_delta_state e ver r reg))"
proof -
  have "quiet reg (snd (q_bind (parse_array e GR_ERR_OUT_OF_MEMORY (\<lambda>n. de_peer (host_le e)) r' reg)
            (\<lambda>(peers, r) reg. q_bind (parse_array e GR_ERR_SERIALIZATION (\<lambda>n. de_role (host_le e) ver) r reg)
            (\<lambda>(roles, r) reg. q_bind (parse_array e GR_ERR_SERIALIZATION (de_webapp_at e ver) r reg)
            (\<lambda>(webapps, r) reg. q_bind (parse_server_types e GR_SERVER_TYPE_COUNT r reg)
            (\<lambda>(servers, r) reg. q_bind (parse_array e GR_ERR_SERIALIZATION (\<lambda>n. de_epoch (host_le e)) r reg)
            (\<lambda>(epochs, r) reg. (Inr (\<lparr>ds_header = hdr, ds_peers = peers, ds_roles = roles,
               ds_webapps = webapps, ds_servers = servers, ds_epochs = epochs\<rparr>, r), reg))))))))" for hdr r'
    apply (rule quiet_bind [OF quiet_parse_array], clarsimp)
    apply (rule quiet_bind [OF quiet_parse_array], clarsimp)
    apply (rule quiet_bind [OF quiet_parse_array], clarsimp)
    apply (rule quiet_bind [OF quiet_parse_types], clarsimp)
    by (rule quiet_bind [OF quiet_parse_array]) clarsimp
  then show ?thesis by (simp add: parse_delta_state_def split: prod.splits option.splits)
qed

lemma quiet_too_big: "quiet reg (snd (delta_too_big e f n reg))"
  by (simp add: delta_too_big_def split: option.splits)

text \<open>What runs when a delta is applied: nothing, or the body in a transaction and then retention.\<close>

definition with_retention :: "yumi_env \<Rightarrow> gr_merge_result_t \<Rightarrow> gr_registrar \<Rightarrow> gr_registrar" where
  "with_retention e mr reg = (if 0 < entries_new mr then snd (gr_audit_enforce_retention_internal e reg) else reg)"

text \<open>The sender's entities as the receiver parses them.\<close>

definition delta_sender :: "yumi_env \<Rightarrow> (nat \<Rightarrow> u32 \<Rightarrow> i64 \<Rightarrow> gr_delta_action_t) option \<Rightarrow> bytes \<Rightarrow> gr_registrar \<Rightarrow>
    delta_state option" where
  "delta_sender e f d reg =
     (case de_delta_head (host_le e) \<lparr>rd_data = d, rd_pos = 0\<rparr> of
        (None, r) \<Rightarrow> None
      | (Some (ver, since_version), r) \<Rightarrow>
          if 2 \<le> ver
          then (case fst (parse_delta_state e ver r (snd (delta_too_big e f (length d) reg))) of
                  Inl _ \<Rightarrow> None | Inr (ds, _) \<Rightarrow> Some ds)
          else None)"

lemma apply_delta_cases:
  "(\<exists>q err. gr_apply_delta e f data reg = (Inl err, q) \<and> quiet reg q)
   \<or> (\<exists>q ver n r d. data = Some d \<and> quiet reg q \<and> gr_apply_delta e f data reg =
        q_bind (with_txn_val e (delta_body e ver (delta_sender e f d reg) n r) q)
          (\<lambda>mr reg. (Inr mr, with_retention e mr reg)))"
  (is "?quit (gr_apply_delta e f data reg) \<or> ?run (gr_apply_delta e f data reg)")
proof (cases data)
  case None
  then show ?thesis by (auto simp: gr_apply_delta_def)
next
  case (Some d)
  have parsed: "?quit (delta_parsed e ver p q) \<or> ?run (delta_parsed e ver p q)"
    if "quiet reg q" "fst p = delta_sender e f d reg" for ver p q
  proof (cases "gr_read_u32 (host_le e) (snd p)")
    case (Pair x r')
    show ?thesis
    proof (cases "x = None \<or> length (rd_data r') - rd_pos r' < unat (the x)")
      case True
      then show ?thesis using that Pair by (auto simp: delta_parsed_def split: option.splits)
    next
      case False
      then obtain n where "x = Some n" by auto
      then have "delta_parsed e ver p q =
          q_bind (with_txn_val e (delta_body e ver (delta_sender e f d reg) n r') q) (\<lambda>mr reg. (Inr mr, with_retention e mr reg))"
        using False Pair that(2) by (simp add: delta_parsed_def with_retention_def)
      then show ?thesis using that Some by blast
    qed
  qed
  obtain big q where b: "delta_too_big e f (length d) reg = (big, q)" by (cases "delta_too_big e f (length d) reg")
  have q: "quiet reg q" using quiet_too_big [of reg e f "length d"] b by simp
  obtain hd r where h: "de_delta_head (host_le e) \<lparr>rd_data = d, rd_pos = 0\<rparr> = (hd, r)"
    by (cases "de_delta_head (host_le e) \<lparr>rd_data = d, rd_pos = 0\<rparr>")
  show ?thesis
  proof (cases "big \<or> hd = None")
    case True
    then show ?thesis using q b h Some by (auto simp: gr_apply_delta_def)
  next
    case False
    then obtain ver since where hd: "hd = Some (ver, since)" "\<not> big" by auto
    obtain x s where x: "parse_delta_state e ver r q = (x, s)" by (cases "parse_delta_state e ver r q")
    have s: "quiet reg s" using quiet_trans [OF q quiet_parse_state [of q e ver r]] x by simp
    have run: "gr_apply_delta e f data reg = (if 2 \<le> ver
        then q_bind (x, s) (\<lambda>(ds, r). delta_parsed e ver (Some ds, r)) else delta_parsed e ver (None, r) q)"
      using b h hd x Some by (simp add: gr_apply_delta_def)
    have snd: "delta_sender e f d reg = (if 2 \<le> ver then case x of Inl _ \<Rightarrow> None | Inr (ds, _) \<Rightarrow> Some ds else None)"
      using b h hd x by (simp add: delta_sender_def)
    consider (old) "\<not> 2 \<le> ver" | (bad) err where "2 \<le> ver" "x = Inl err"
      | (new) ds r' where "2 \<le> ver" "x = Inr (ds, r')" by (cases x) auto
    then show ?thesis
    proof cases
      case old
      then show ?thesis using parsed [OF q, of "(None, r)" ver] snd unfolding run by simp
    next
      case bad
      then show ?thesis using s unfolding run by (simp add: q_bind_def)
    next
      case new
      then show ?thesis using parsed [OF s, of "(Some ds, r')" ver] snd unfolding run by (simp add: q_bind_def)
    qed
  qed
qed

end
