(* ===== verification/Lww_Tables.thy ===== *)
theory Lww_Tables imports Keyed_Tables
begin

text \<open>
  Tables merged last writer wins: a row replaces the row with its key when its stamp is greater.  The
  locale states the contract; what it gives is that merging is monotone, idempotent, independent of
  the order of the rows, and that two replicas that exchange their rows agree.
\<close>

section \<open>The contract\<close>

text \<open>Rows that differ although key and stamp agree cannot be told apart; \<open>unambiguous\<close> rules them out.\<close>

definition unambiguous :: "('r \<Rightarrow> 'k) \<Rightarrow> ('r \<Rightarrow> int) \<Rightarrow> 'r set \<Rightarrow> bool" where
  "unambiguous key stamp S \<longleftrightarrow> (\<forall>r\<in>S. \<forall>l\<in>S. key r = key l \<longrightarrow> stamp r = stamp l \<longrightarrow> r = l)"

definition newest_row :: "('r \<Rightarrow> 'k) \<Rightarrow> ('r \<Rightarrow> int) \<Rightarrow> 'k \<Rightarrow> 'r set \<Rightarrow> 'r \<Rightarrow> bool" where
  "newest_row key stamp k S r \<longleftrightarrow> r \<in> S \<and> key r = k \<and> (\<forall>l\<in>S. key l = k \<longrightarrow> stamp l \<le> stamp r)"

locale lww_table =
  fixes key :: "'r \<Rightarrow> 'k" and stamp :: "'r \<Rightarrow> int"
    and get :: "'k \<Rightarrow> 't \<Rightarrow> 'r option" and put :: "'r \<Rightarrow> 't \<Rightarrow> 't"
  assumes get_key: "get k t = Some r \<Longrightarrow> key r = k"
    and get_put: "get k (put r t) =
      (if k = key r \<and> (case get k t of None \<Rightarrow> True | Some l \<Rightarrow> stamp l < stamp r) then Some r else get k t)"
begin

definition rows :: "'t \<Rightarrow> 'r set" where
  "rows t = {r. get (key r) t = Some r}"

lemma put_monotone:
  "get k t = Some l \<Longrightarrow> \<exists>l'. get k (put r t) = Some l' \<and> (l' = l \<or> stamp l < stamp l')"
  by (auto simp: get_put)

lemma fold_monotone:
  "get k t = Some l \<Longrightarrow> \<exists>l'. get k (fold put rs t) = Some l' \<and> (l' = l \<or> stamp l < stamp l')"
proof (induction rs arbitrary: t l)
  case (Cons r rs)
  obtain m where m: "get k (put r t) = Some m" "m = l \<or> stamp l < stamp m"
    using put_monotone [OF Cons.prems, of r] by blast
  obtain l' where "get k (fold put rs (put r t)) = Some l'" "l' = m \<or> stamp m < stamp l'"
    using Cons.IH [OF m(1)] by blast
  then show ?case using m(2) by auto
qed simp

lemma put_twice: "get k (put r (put r t)) = get k (put r t)"
  by (cases "k = key r"; cases "get k t") (auto simp: get_put)

lemma put_commute: "(key r = key l \<Longrightarrow> stamp r = stamp l \<Longrightarrow> r = l) \<Longrightarrow> get k (put r (put l t)) = get k (put l (put r t))"
  by (cases "k = key r"; cases "k = key l"; cases "get k t") (auto simp: get_put)

text \<open>Merging a list of rows keeps, for each key, a newest row of the old table and the list.\<close>

lemma get_fold_from: "get k (fold put rs t) = Some r \<Longrightarrow> r \<in> set rs \<or> get k t = Some r"
proof (induction rs arbitrary: t)
  case (Cons x rs)
  then show ?case by (fastforce simp: get_put split: if_splits)
qed simp

lemma get_fold_bound:
  "x \<in> set rs \<Longrightarrow> key x = k \<Longrightarrow> \<exists>r. get k (fold put rs t) = Some r \<and> stamp x \<le> stamp r"
proof (induction rs arbitrary: t)
  case (Cons y rs)
  show ?case
  proof (cases "x \<in> set rs")
    case True
    then show ?thesis using Cons by simp
  next
    case False
    then have "x = y" using Cons.prems by simp
    have "\<exists>m. get k (put x t) = Some m \<and> stamp x \<le> stamp m"
      using Cons.prems(2) by (cases "get k t") (auto simp: get_put)
    then obtain m where m: "get k (put x t) = Some m" "stamp x \<le> stamp m" by blast
    from fold_monotone [OF m(1), of rs] obtain r where "get k (fold put rs (put x t)) = Some r" "stamp m \<le> stamp r" by auto
    then show ?thesis using m(2) \<open>x = y\<close> by (intro exI [of _ r]) simp
  qed
qed simp

lemma merged_newest:
  assumes "get k (fold put rs t) = Some r"
  shows "newest_row key stamp k (set rs \<union> rows t) r"
  unfolding newest_row_def
proof (intro conjI ballI impI)
  have k: "key r = k" by (rule get_key [OF assms])
  then show "key r = k" .
  show "r \<in> set rs \<union> rows t" using get_fold_from [OF assms] k by (auto simp: rows_def)
  fix l assume l: "l \<in> set rs \<union> rows t" "key l = k"
  show "stamp l \<le> stamp r"
  proof (cases "l \<in> set rs")
    case True
    then show ?thesis using get_fold_bound [OF True l(2), of t] assms by auto
  next
    case False
    then have "get k t = Some l" using l by (auto simp: rows_def)
    then show ?thesis using fold_monotone [of k t l rs] assms by auto
  qed
qed

lemma merged_None: "get k (fold put rs t) = None \<longleftrightarrow> k \<notin> key ` (set rs \<union> rows t)"
proof
  assume n: "get k (fold put rs t) = None"
  show "k \<notin> key ` (set rs \<union> rows t)"
  proof
    assume "k \<in> key ` (set rs \<union> rows t)"
    then obtain x where "x \<in> set rs \<or> get k t = Some x" "key x = k" by (auto simp: rows_def)
    then show False using get_fold_bound [of x rs k t] fold_monotone [of k t x rs] n by auto
  qed
next
  assume "k \<notin> key ` (set rs \<union> rows t)"
  then show "get k (fold put rs t) = None"
    using merged_newest [of k rs t] by (cases "get k (fold put rs t)") (auto simp: newest_row_def)
qed

lemma newest_unique: "unambiguous key stamp S \<Longrightarrow> newest_row key stamp k S r \<Longrightarrow> newest_row key stamp k S l \<Longrightarrow> r = l"
  unfolding newest_row_def unambiguous_def by (metis order.antisym)

text \<open>The outcome depends only on the set of rows involved.\<close>

lemma merge_set:
  assumes "set rs \<union> rows t = set rs' \<union> rows t'" and "unambiguous key stamp (set rs \<union> rows t)"
  shows "get k (fold put rs t) = get k (fold put rs' t')"
proof (cases "get k (fold put rs t)")
  case None
  then have "k \<notin> key ` (set rs' \<union> rows t')" using merged_None [of k rs t] assms(1) by simp
  then show ?thesis using None merged_None [of k rs' t'] by simp
next
  case (Some r)
  then have r: "newest_row key stamp k (set rs \<union> rows t) r" by (rule merged_newest)
  then have "k \<in> key ` (set rs' \<union> rows t')" using assms(1) by (auto simp: newest_row_def)
  then obtain l where l: "get k (fold put rs' t') = Some l" using merged_None [of k rs' t'] by fastforce
  from merged_newest [OF this] have "newest_row key stamp k (set rs \<union> rows t) l" using assms(1) by simp
  with newest_unique [OF assms(2) r] Some l show ?thesis by simp
qed

text \<open>Two replicas that send each other all their rows agree.\<close>

lemma exchange_agrees:
  assumes "set rs = rows t" and "set rs' = rows t'" and "unambiguous key stamp (rows t \<union> rows t')"
  shows "get k (fold put rs' t) = get k (fold put rs t')"
  using merge_set [of rs' t rs t' k] assms by (simp add: Un_commute)

lemma order_irrelevant: "set rs = set rs' \<Longrightarrow> unambiguous key stamp (set rs \<union> rows t) \<Longrightarrow> get k (fold put rs t) = get k (fold put rs' t)"
  by (rule merge_set) simp_all

lemma merge_again: "unambiguous key stamp (set rs \<union> rows t) \<Longrightarrow> get k (fold put (rs @ rs) t) = get k (fold put rs t)"
  using merge_set [of "rs @ rs" t rs t k] by simp

end

section \<open>The implementation on row lists\<close>

definition lww_put :: "('r \<Rightarrow> 'k) \<Rightarrow> ('r \<Rightarrow> int) \<Rightarrow> 'r \<Rightarrow> 'r list \<Rightarrow> 'r list" where
  "lww_put key stamp r t =
     (case tbl_get key (key r) t of
        Some l \<Rightarrow> if stamp r \<le> stamp l then t else tbl_replace key r t
      | None \<Rightarrow> tbl_replace key r t)"

lemma list_lww_table: "lww_table key stamp (tbl_get key) (lww_put key stamp)"
proof
  fix k t r
  show "tbl_get key k t = Some r \<Longrightarrow> key r = k" by (rule tbl_get_key)
  show "tbl_get key k (lww_put key stamp r t) =
      (if k = key r \<and> (case tbl_get key k t of None \<Rightarrow> True | Some l \<Rightarrow> stamp l < stamp r) then Some r else tbl_get key k t)"
    by (auto simp: lww_put_def tbl_get_replace split: option.splits)
qed

lemma tbl_inv_lww: "tbl_inv key t \<Longrightarrow> tbl_inv key (lww_put key stamp r t)"
  by (auto simp: lww_put_def tbl_inv_replace split: option.splits)

lemma list_rows: "tbl_inv key t \<Longrightarrow> {r. tbl_get key (key r) t = Some r} = set t"
  by (auto simp: tbl_get_Some_iff)

end
