(* ===== verification/Sync_Safety.thy ===== *)
theory Sync_Safety imports Sync_Merge Lww_Tables
begin

text \<open>
  What a delta does to a registrar (\<open>gr_apply_delta\<close> of \<open>src/src/group_registrar/serialize.c\<close>): the audit
  entries it may add, last writer wins, and what it leaves alone.
\<close>

section \<open>A delta that was applied\<close>

lemma with_txn_val_ok:
  assumes body: "txn_body e (\<lambda>r. err_of (body r))" and rel: "reliable e" and idle: "idle reg"
    and res: "with_txn_val e body reg = (Inr v, r)"
  shows "\<exists>r0 r1. body r0 = (Inr v, r1) \<and> reg_db r0 = reg_db reg \<and> reg_header r0 = reg_header reg
     \<and> in_txn (reg_db reg) (reg_header reg) r0 \<and> reg_db r = reg_db r1 \<and> reg_header r = reg_header r1
     \<and> idle r \<and> reg_join_state r = reg_join_state reg"
proof -
  obtain r0 where r0: "gr_txn_begin e reg = (True, r0)" "in_txn (reg_db reg) (reg_header reg) r0"
      "reg_txn_depth r0 = 1" "reg_db r0 = reg_db reg" "reg_header r0 = reg_header reg"
      "reg_join_state r0 = reg_join_state reg"
    using begin_idle [OF rel idle] by blast
  obtain x r1 where b: "body r0 = (x, r1)" by (cases "body r0")
  have x: "x = Inr v" using res b r0(1) by (cases x) (auto simp: with_txn_val_def split: prod.splits if_splits)
  have t: "in_txn (reg_db reg) (reg_header reg) r1" "reg_txn_depth r1 = 1" "reg_join_state r1 = reg_join_state reg"
    using txn_bodyD [OF body rel r0(2)] b x r0 by (simp_all add: txn_result_def)
  note c = commit_outer [OF t(1,2), of e]
  have "db_ok e DbCommit (reg_calls r1)"
    using res b x r0(1) c by (auto simp: with_txn_val_def split: if_splits)
  then have "r = (tick r1)\<lparr>reg_saved := None, reg_txn_depth := 0\<rparr>"
    using res b x r0(1) c by (simp add: with_txn_val_def)
  then have "reg_db r = reg_db r1 \<and> reg_header r = reg_header r1 \<and> idle r \<and> reg_join_state r = reg_join_state reg"
    using t by (simp add: idle_def in_txn_def)
  then show ?thesis using b x r0 by blast
qed

lemma no_ok_delta_body: "fst (delta_body e ver ds n rd reg) \<noteq> Inl GR_OK"
  unfolding delta_body_def
  by (rule no_ok_bind [OF no_ok_merge_entries]) (simp add: Let_def split: prod.splits)

lemma with_retention_db:
  assumes "idle reg"
  shows "\<exists>t. set t \<subseteq> set (db_audit (reg_db reg)) \<and> reg_db (with_retention e mr reg) = (reg_db reg)\<lparr>db_audit := t\<rparr>
     \<and> reg_header (with_retention e mr reg) = reg_header reg \<and> idle (with_retention e mr reg)
     \<and> reg_join_state (with_retention e mr reg) = reg_join_state reg"
proof (cases "0 < entries_new mr")
  case True
  obtain err r where e: "gr_audit_enforce_retention_internal e reg = (err, r)" by (cases "gr_audit_enforce_retention_internal e reg")
  then have r: "with_retention e mr reg = r" using True by (simp add: with_retention_def)
  from enforce_retention_db [OF e] obtain t where t: "Audit_Log.retained (db_audit (reg_db reg)) t"
    "reg_db r = (reg_db reg)\<lparr>db_audit := t\<rparr>" by blast
  then have "set t \<subseteq> set (db_audit (reg_db reg))" by (auto simp: Audit_Log.retained_def)
  then show ?thesis unfolding r using t(2) enforce_retention_state [OF e] assms by (auto simp: idle_def)
next
  case False
  then show ?thesis using assms by (intro exI [of _ "db_audit (reg_db reg)"]) (simp add: with_retention_def)
qed

text \<open>The rows and the header after a body, and the entries that retention then leaves.\<close>

lemma apply_delta_ok:
  assumes rel: "reliable e" and idle: "idle reg" and res: "gr_apply_delta e f data reg = (Inr mr, r)"
  shows "\<exists>d ver n rd r0 r1 t. data = Some d \<and> delta_body e ver (delta_sender e f d reg) n rd r0 = (Inr mr, r1)
     \<and> reg_db r0 = reg_db reg \<and> reg_header r0 = reg_header reg \<and> in_txn (reg_db reg) (reg_header reg) r0
     \<and> set t \<subseteq> set (db_audit (reg_db r1)) \<and> reg_db r = (reg_db r1)\<lparr>db_audit := t\<rparr>
     \<and> reg_header r = reg_header r1 \<and> idle r \<and> reg_join_state r = reg_join_state reg"
proof -
  from apply_delta_cases [of e f data reg] res obtain q ver n rd d where q: "quiet reg q" "data = Some d"
    "q_bind (with_txn_val e (delta_body e ver (delta_sender e f d reg) n rd) q) (\<lambda>mr reg. (Inr mr, with_retention e mr reg)) = (Inr mr, r)"
    by auto
  let ?ds = "delta_sender e f d reg"
  from q(3) obtain r2 where r2: "with_txn_val e (delta_body e ver ?ds n rd) q = (Inr mr, r2)" "r = with_retention e mr r2"
    by (auto simp: q_bind_def split: prod.splits sum.splits)
  have i: "idle q" using quietD(8) [OF q(1)] idle by simp
  from with_txn_val_ok [OF txn_delta_body rel i r2(1)] obtain r0 r1 where
    r1: "delta_body e ver ?ds n rd r0 = (Inr mr, r1)" "reg_db r0 = reg_db reg" "reg_header r0 = reg_header reg"
      "in_txn (reg_db reg) (reg_header reg) r0" "reg_db r2 = reg_db r1" "reg_header r2 = reg_header r1" "idle r2"
      "reg_join_state r2 = reg_join_state reg"
    using quietD [OF q(1)] by auto
  from with_retention_db [OF r1(7), of e mr]
  have "\<exists>t. set t \<subseteq> set (db_audit (reg_db r2)) \<and> reg_db r = (reg_db r2)\<lparr>db_audit := t\<rparr> \<and> reg_header r = reg_header r2
      \<and> idle r \<and> reg_join_state r = reg_join_state r2" by (simp add: r2(2))
  then obtain t where "set t \<subseteq> set (db_audit (reg_db r1))" "reg_db r = (reg_db r1)\<lparr>db_audit := t\<rparr>" "reg_header r = reg_header r1"
      "idle r" "reg_join_state r = reg_join_state reg" using r1(5,6,8) by auto
  then show ?thesis using r1(1-4) q(2)
    by (intro exI [of _ d] exI [of _ ver] exI [of _ n] exI [of _ rd] exI [of _ r0] exI [of _ r1] exI [of _ t]) simp
qed

section \<open>The audit entries of a delta\<close>

text \<open>
  An entry is verified when its hash is the hash of its contents and its signature over the hash
  verifies under the key of a member the receiver knows; it is granted when the change is authorised
  by the permissions of its actor: those in the sender's entities if these tell, else the receiver's
  own (none when the engine fails).
\<close>

definition entry_verified :: "yumi_env \<Rightarrow> gr_db \<Rightarrow> gr_audit_entry_t \<Rightarrow> bool" where
  "entry_verified e d a \<longleftrightarrow> audit_hash e a = a_entry_hash a
     \<and> (\<exists>pk. ps_audit_actor_pk (a_actor_id a) d = Some pk \<and> mldsa_verify e (a_signature a) (a_entry_hash a) pk)"

definition entry_granted :: "delta_state option \<Rightarrow> gr_registrar \<Rightarrow> gr_audit_entry_t \<Rightarrow> bool" where
  "entry_granted ds reg a \<longleftrightarrow> (\<exists>perms. delta_authorized (a_change_type a) perms (delta_owner ds reg (a_actor_id a))
     \<and> (case Option.bind ds (\<lambda>ds. state_perms ds a) of
          Some p \<Rightarrow> perms = p | None \<Rightarrow> perms = perms_of reg (a_actor_id a) \<or> perms = GR_PERM_NONE))"

text \<open>The header after entries: only the version and the update time move, and only forward.\<close>

definition header_moved :: "gr_header_t \<Rightarrow> gr_header_t \<Rightarrow> bool" where
  "header_moved h h' \<longleftrightarrow> h' = h\<lparr>h_version := h_version h', h_updated_at := h_updated_at h'\<rparr>
     \<and> h_version h \<le> h_version h' \<and> sint (h_updated_at h) \<le> sint (h_updated_at h')"

lemma header_moved_refl: "header_moved h h"
  by (simp add: header_moved_def)

lemma header_moved_trans: "header_moved a b \<Longrightarrow> header_moved b c \<Longrightarrow> header_moved a c"
  by (cases a; cases b; cases c) (auto simp: header_moved_def)

lemma header_movedD: "header_moved h h' \<Longrightarrow> h_owner_id h' = h_owner_id h \<and> h_epoch_id h' = h_epoch_id h
    \<and> h_retention h' = h_retention h \<and> h_owner_sign_key h' = h_owner_sign_key h"
  by (cases h; cases h') (simp add: header_moved_def)

text \<open>What entries do: they extend the log by verified, granted entries with new hashes.\<close>

definition entries_added :: "yumi_env \<Rightarrow> delta_state option \<Rightarrow> gr_registrar \<Rightarrow> gr_registrar \<Rightarrow> bool" where
  "entries_added e ds reg r \<longleftrightarrow> (\<exists>new. reg_db r = (reg_db reg)\<lparr>db_audit := db_audit (reg_db reg) @ new\<rparr>
     \<and> (\<forall>a\<in>set new. entry_verified e (reg_db reg) a \<and> entry_granted ds reg a \<and> a_entry_hash a \<notin> a_entry_hash ` set (db_audit (reg_db reg)))
     \<and> distinct (map a_entry_hash new) \<and> header_moved (reg_header reg) (reg_header r))"

lemma entries_added_quiet: "quiet reg r \<Longrightarrow> entries_added e ds reg r"
  by (auto simp: entries_added_def quietD header_moved_refl intro: exI [of _ "[]"])

lemma entry_perms_value:
  assumes "entry_perms e ds a reg = (perms, r)"
  shows "(case Option.bind ds (\<lambda>ds. state_perms ds a) of Some p \<Rightarrow> perms = p
      | None \<Rightarrow> perms = perms_of reg (a_actor_id a) \<or> perms = GR_PERM_NONE)"
  using assms by (auto simp: entry_perms_def gr_get_peer_permissions_def perms_of_def split: option.splits if_splits)

lemma granted_same:
  assumes "db_peers (reg_db r) = db_peers (reg_db reg)" "db_roles (reg_db r) = db_roles (reg_db reg)"
    and "h_owner_id (reg_header r) = h_owner_id (reg_header reg)"
  shows "entry_granted ds r a = entry_granted ds reg a"
proof -
  have "perms_of r i = perms_of reg i" "delta_owner ds r i = delta_owner ds reg i" for i
    using assms by (simp_all add: perms_of_def gr_is_owner_def ps_role_perms_join_def delta_owner_def split: option.splits)
  then show ?thesis unfolding entry_granted_def by (cases "Option.bind ds (\<lambda>ds. state_perms ds a)") simp_all
qed

lemma entries_added_trans:
  assumes 1: "entries_added e ds a b" and 2: "entries_added e ds b c"
  shows "entries_added e ds a c"
proof -
  from 1 obtain n1 where n1: "reg_db b = (reg_db a)\<lparr>db_audit := db_audit (reg_db a) @ n1\<rparr>"
    "\<forall>x\<in>set n1. entry_verified e (reg_db a) x \<and> entry_granted ds a x \<and> a_entry_hash x \<notin> a_entry_hash ` set (db_audit (reg_db a))"
    "distinct (map a_entry_hash n1)" "header_moved (reg_header a) (reg_header b)" by (auto simp: entries_added_def)
  from 2 obtain n2 where n2: "reg_db c = (reg_db b)\<lparr>db_audit := db_audit (reg_db b) @ n2\<rparr>"
    "\<forall>x\<in>set n2. entry_verified e (reg_db b) x \<and> entry_granted ds b x \<and> a_entry_hash x \<notin> a_entry_hash ` set (db_audit (reg_db b))"
    "distinct (map a_entry_hash n2)" "header_moved (reg_header b) (reg_header c)" by (auto simp: entries_added_def)
  have g: "entry_granted ds b x = entry_granted ds a x" for x
    by (rule granted_same) (use n1(1) header_movedD [OF n1(4)] in simp_all)
  have v: "entry_verified e (reg_db b) x = entry_verified e (reg_db a) x" for x
    by (simp add: entry_verified_def ps_audit_actor_pk_def n1(1))
  have "\<forall>x\<in>set (n1 @ n2). entry_verified e (reg_db a) x \<and> entry_granted ds a x \<and> a_entry_hash x \<notin> a_entry_hash ` set (db_audit (reg_db a))"
    using n1(2) n2(2) [unfolded g v] by (auto simp: n1(1) image_Un)
  moreover have "\<forall>x\<in>set n2. a_entry_hash x \<notin> a_entry_hash ` set n1" using n2(2) by (auto simp: n1(1) image_Un)
  then have "distinct (map a_entry_hash (n1 @ n2))" using n1(3) n2(3) by (simp add: disjoint_iff) blast
  moreover have "reg_db c = (reg_db a)\<lparr>db_audit := db_audit (reg_db a) @ (n1 @ n2)\<rparr>" using n1(1) n2(1) by simp
  moreover have "header_moved (reg_header a) (reg_header c)" using header_moved_trans [OF n1(4) n2(4)] .
  ultimately show ?thesis unfolding entries_added_def by blast
qed

lemma quiet_simps: "quiet reg r \<Longrightarrow> reg_db r = reg_db reg" "quiet reg r \<Longrightarrow> reg_header r = reg_header reg"
  by (simp_all add: quietD)

lemma accept_entry_added:
  assumes ok: "accept_entry e a mr reg = (Inr mr', r)" and "entry_verified e (reg_db reg) a" and "entry_granted ds reg a"
    and "a_entry_hash a \<notin> a_entry_hash ` set (db_audit (reg_db reg))"
  shows "entries_added e ds reg r"
proof -
  obtain x r1 where x: "db_exec e (ps_audit_insert a) reg = (x, r1)" by (cases "db_exec e (ps_audit_insert a) reg")
  obtain y r2 where y: "db_query e (\<lambda>d. Some (ps_audit_fork_check (a_prev_hash a) d)) r1 = (y, r2)"
    by (cases "db_query e (\<lambda>d. Some (ps_audit_fork_check (a_prev_hash a) d)) r1")
  have q: "quiet r1 r2" using quiet_query [of r1 e "\<lambda>d. Some (ps_audit_fork_check (a_prev_hash a) d)"] y by simp
  from ok obtain k where "x = Some k" by (cases x) (simp_all add: accept_entry_def x)
  then have r1: "reg_db r1 = (reg_db reg)\<lparr>db_audit := db_audit (reg_db reg) @ [a]\<rparr>" "reg_header r1 = reg_header reg"
    using x assms(4) by (auto simp: db_exec_def ps_audit_insert_def tbl_insert_ignore_def split: if_splits)
  have "reg_db r = reg_db r2" "header_moved (reg_header r2) (reg_header r)"
    using ok x y \<open>x = Some k\<close> by (auto simp: accept_entry_def Let_def header_moved_def word_less_def word_le_def)
  then have "reg_db r = (reg_db reg)\<lparr>db_audit := db_audit (reg_db reg) @ [a]\<rparr>" "header_moved (reg_header reg) (reg_header r)"
    using r1 quiet_simps [OF q] by simp_all
  then show ?thesis unfolding entries_added_def using assms(2-4) by (intro exI [of _ "[a]"]) simp
qed

lemma merge_entry_added:
  assumes "merge_entry e ds a mr reg = (Inr mr', r)"
  shows "entries_added e ds reg r"
proof -
  obtain x r1 where x: "db_query e (\<lambda>d. Some (ps_audit_dedup (a_entry_hash a) d)) reg = (x, r1)"
    by (cases "db_query e (\<lambda>d. Some (ps_audit_dedup (a_entry_hash a) d)) reg")
  obtain y r2 where y: "db_fetch e (ps_audit_actor_pk (a_actor_id a)) (tick r1) = (y, r2)"
    by (cases "db_fetch e (ps_audit_actor_pk (a_actor_id a)) (tick r1)")
  obtain perms r3 where z: "entry_perms e ds a r2 = (perms, r3)" by (cases "entry_perms e ds a r2")
  have q1: "quiet reg r1" using quiet_query [of reg e "\<lambda>d. Some (ps_audit_dedup (a_entry_hash a) d)"] x by simp
  have q2: "quiet reg r2"
    using quiet_trans [OF quiet_trans [OF q1 quiet_tick] quiet_fetch [of "tick r1" e "ps_audit_actor_pk (a_actor_id a)"]] y by simp
  have q3: "quiet reg r3" using quiet_trans [OF q2 entry_perms_quiet [of r2 e ds a]] z by simp
  have q0: "quiet reg (tick r1)" by (rule quiet_trans [OF q1 quiet_tick])
  show ?thesis
  proof (cases "r \<in> {r1, tick r1, r2, r3}")
    case True
    then show ?thesis using entries_added_quiet q0 q1 q2 q3 by blast
  next
    case False
    obtain dup where dup: "x = Inr dup" using assms by (cases x) (simp_all add: merge_entry_def x)
    have d0: "\<not> 0 < dup" and h: "audit_hash e a = a_entry_hash a"
      using assms False by (auto simp: merge_entry_def x dup reject_entry_def split: if_splits)
    obtain pk where pk: "y = Inr pk"
      using assms False by (cases y) (auto simp: merge_entry_def x dup y h d0 reject_entry_def split: if_splits)
    from assms False have v: "mldsa_verify e (a_signature a) (a_entry_hash a) pk"
      and g: "delta_authorized (a_change_type a) perms (delta_owner ds r3 (a_actor_id a))"
      and acc: "accept_entry e a mr r3 = (Inr mr', r)"
      by (auto simp: merge_entry_def x dup y h d0 pk z reject_entry_def split: if_splits)
    have key: "ps_audit_actor_pk (a_actor_id a) (reg_db reg) = Some pk"
      using fetch_ok [of e "ps_audit_actor_pk (a_actor_id a)" "tick r1" pk r2] y pk quiet_simps(1) [OF q0] by simp
    have "tbl_count (\<lambda>b. a_entry_hash b = a_entry_hash a) (db_audit (reg_db reg)) = 0"
      using query_ok [of e "\<lambda>d. Some (ps_audit_dedup (a_entry_hash a) d)" reg dup r1] x dup d0 by (simp add: ps_audit_dedup_def)
    then have new: "a_entry_hash a \<notin> a_entry_hash ` set (db_audit (reg_db reg))"
      by (force simp: tbl_count_def filter_empty_conv)
    have gr: "entry_granted ds r3 a"
      using g entry_perms_value [OF z] quiet_simps [OF q2] quiet_simps [OF q3]
      by (auto simp: entry_granted_def perms_of_def gr_is_owner_def split: option.splits)
    have "entries_added e ds r3 r"
      by (rule accept_entry_added [OF acc _ gr]) (use key v h new quiet_simps [OF q3] in \<open>simp_all add: entry_verified_def\<close>)
    then show ?thesis by (rule entries_added_trans [OF entries_added_quiet [OF q3]])
  qed
qed

lemma merge_entries_added:
  "merge_entries e ver ds n rd mr reg = (Inr mr', r) \<Longrightarrow> entries_added e ds reg r"
proof (induction n arbitrary: rd mr reg)
  case 0
  then show ?case using entries_added_quiet [OF quiet_refl] by simp
next
  case (Suc n)
  then obtain a rd' where a: "q_bind (merge_entry e ds a mr reg) (merge_entries e ver ds n rd') = (Inr mr', r)"
    by (auto split: prod.splits option.splits)
  from q_bind_ok [OF this] obtain mr1 r1 where 1: "merge_entry e ds a mr reg = (Inr mr1, r1)"
    "merge_entries e ver ds n rd' mr1 r1 = (Inr mr', r)" by blast
  show ?case by (rule entries_added_trans [OF merge_entry_added [OF 1(1)] Suc.IH [OF 1(2)]])
qed

section \<open>The entities of a delta\<close>

text \<open>The engine answers every statement.\<close>

definition answers :: "yumi_env \<Rightarrow> bool" where
  "answers e \<longleftrightarrow> (\<forall>n. db_ok e DbStmt n)"

definition peer_time :: "gr_peer_t \<Rightarrow> int" where
  "peer_time p = sint (peer_stamp p)"

definition role_time :: "gr_role_t \<Rightarrow> int" where
  "role_time r = sint (r_modified_at r)"

definition server_row :: "gr_server_t \<Rightarrow> gr_server_t list \<Rightarrow> gr_server_t" where
  "server_row s t = (if s_content_kem_sk s = replicate GR_KEM_SECRET_KEY_LEN 0
     then case tbl_get s_id_hash (s_id_hash s) t of
            Some l \<Rightarrow> s\<lparr>s_content_kem_sk := s_content_kem_sk l\<rparr> | None \<Rightarrow> s
     else s)"

text \<open>The tables after a merge.\<close>

definition merged_db :: "delta_state \<Rightarrow> gr_db \<Rightarrow> gr_db" where
  "merged_db ds d = d\<lparr>
     db_peers := fold (lww_put p_peer_id peer_time) (ds_peers ds) (db_peers d),
     db_roles := fold (lww_put r_role_id role_time) (ds_roles ds) (db_roles d),
     db_webapps := fold (tbl_replace w_hash) (ds_webapps ds) (db_webapps d),
     db_servers := fold (\<lambda>s t. tbl_replace s_id_hash (server_row s t) t) (ds_servers ds) (db_servers d),
     db_epochs := fold (tbl_insert_ignore e_epoch_id) (ds_epochs ds) (db_epochs d)\<rparr>"

interpretation peers_lww: lww_table p_peer_id peer_time "tbl_get p_peer_id" "lww_put p_peer_id peer_time"
  by (rule list_lww_table)

interpretation roles_lww: lww_table r_role_id role_time "tbl_get r_role_id" "lww_put r_role_id role_time"
  by (rule list_lww_table)

lemma fold_image: "(\<And>x s. D (f x s) = U x (D s)) \<Longrightarrow> D (fold f xs s) = fold U xs (D s)"
  by (induction xs arbitrary: s) simp_all

lemma exec_db:
  "answers e \<Longrightarrow> reg_db (snd (db_exec e stmt r)) = (case stmt (reg_db r) of None \<Rightarrow> reg_db r | Some (n, d) \<Rightarrow> d)"
  by (simp add: db_exec_def answers_def split: option.splits prod.splits)

lemma exec_header [simp]: "reg_header (snd (db_exec e stmt r)) = reg_header r"
  by (simp add: db_exec_def split: option.splits)

lemma peer_time_read [simp]: "peer_stamp (peer_read p) = peer_stamp p"
  by (simp add: peer_stamp_def peer_read_def)

lemma merge_peer_db:
  assumes "answers e"
  shows "reg_db (snd (merge_peer e p st)) =
      (reg_db (snd st))\<lparr>db_peers := lww_put p_peer_id peer_time p (db_peers (reg_db (snd st)))\<rparr>"
  using assms by (cases "tbl_get p_peer_id (p_peer_id p) (db_peers (reg_db (snd st)))")
    (simp_all add: merge_peer_def gr_peer_get_def db_fetch_def answers_def ps_peer_get_def exec_db ps_delta_peer_upsert_def
      lww_put_def peer_time_def)

lemma merge_role_db:
  assumes "answers e"
  shows "reg_db (snd (merge_role e p st)) =
      (reg_db (snd st))\<lparr>db_roles := lww_put r_role_id role_time p (db_roles (reg_db (snd st)))\<rparr>"
  using assms by (cases "tbl_get r_role_id (r_role_id p) (db_roles (reg_db (snd st)))")
    (simp_all add: merge_role_def gr_role_get_def db_fetch_def answers_def ps_role_get_def exec_db ps_delta_role_upsert_def
      lww_put_def role_time_def role_read_def)

lemma merge_webapp_db:
  "answers e \<Longrightarrow> reg_db (merge_webapp e w reg) = (reg_db reg)\<lparr>db_webapps := tbl_replace w_hash w (db_webapps (reg_db reg))\<rparr>"
  by (simp add: merge_webapp_def exec_db ps_delta_webapp_upsert_def)

lemma merge_server_db:
  assumes "answers e"
  shows "reg_db (merge_server e s reg) = (reg_db reg)\<lparr>db_servers :=
      tbl_replace s_id_hash (server_row s (db_servers (reg_db reg))) (db_servers (reg_db reg))\<rparr>"
  using assms by (cases "tbl_get s_id_hash (s_id_hash s) (db_servers (reg_db reg))")
    (simp_all add: merge_server_def db_fetch_def answers_def ps_server_get_def exec_db ps_delta_server_upsert_def server_row_def)

lemma merge_epoch_db:
  assumes "answers e"
  shows "reg_db (merge_epoch e ep reg) = (reg_db reg)\<lparr>db_epochs := tbl_insert_ignore e_epoch_id ep (db_epochs (reg_db reg))\<rparr>"
proof (cases "tbl_get e_epoch_id (e_epoch_id ep) (db_epochs (reg_db reg))")
  case None
  then have "e_epoch_id ep \<notin> e_epoch_id ` set (db_epochs (reg_db reg))" by (simp add: tbl_get_None)
  then show ?thesis using assms None by (simp add: merge_epoch_def gr_epoch_get_def db_fetch_def answers_def
      ps_epoch_get_def exec_db ps_delta_epoch_upsert_def tbl_insert_ignore_def tbl_replace_def)
next
  case (Some x)
  then have "e_epoch_id ep \<in> e_epoch_id ` set (db_epochs (reg_db reg))" by (metis tbl_get_None option.distinct(1))
  then show ?thesis using assms Some by (simp add: merge_epoch_def gr_epoch_get_def db_fetch_def answers_def
      ps_epoch_get_def tbl_insert_ignore_def)
qed

lemma merge_state_db:
  assumes "answers e"
  shows "reg_db (snd (merge_state e ds mr reg)) = merged_db ds (reg_db reg)"
proof -
  note fi = fold_image [where D = "\<lambda>s. reg_db (snd s)"] and fj = fold_image [where D = reg_db]
  have u1: "fold (\<lambda>x d. d\<lparr>db_peers := g x (db_peers d)\<rparr>) xs d = d\<lparr>db_peers := fold g xs (db_peers d)\<rparr>" for g xs d
    by (induction xs arbitrary: d) simp_all
  have u2: "fold (\<lambda>x d. d\<lparr>db_roles := g x (db_roles d)\<rparr>) xs d = d\<lparr>db_roles := fold g xs (db_roles d)\<rparr>" for g xs d
    by (induction xs arbitrary: d) simp_all
  have u3: "fold (\<lambda>x d. d\<lparr>db_webapps := g x (db_webapps d)\<rparr>) xs d = d\<lparr>db_webapps := fold g xs (db_webapps d)\<rparr>" for g xs d
    by (induction xs arbitrary: d) simp_all
  have u4: "fold (\<lambda>x d. d\<lparr>db_servers := g x (db_servers d)\<rparr>) xs d = d\<lparr>db_servers := fold g xs (db_servers d)\<rparr>" for g xs d
    by (induction xs arbitrary: d) simp_all
  have u5: "fold (\<lambda>x d. d\<lparr>db_epochs := g x (db_epochs d)\<rparr>) xs d = d\<lparr>db_epochs := fold g xs (db_epochs d)\<rparr>" for g xs d
    by (induction xs arbitrary: d) simp_all
  show ?thesis
    unfolding merge_state_def case_prod_unfold snd_conv merged_db_def
      fj [where f = "merge_epoch e", OF merge_epoch_db [OF assms]] u5
      fj [where f = "merge_server e", OF merge_server_db [OF assms]]
      u4 [of "\<lambda>s t. tbl_replace s_id_hash (server_row s t) t"]
      fj [where f = "merge_webapp e", OF merge_webapp_db [OF assms]] u3
      fi [where f = "merge_role e", OF merge_role_db [OF assms]] u2
      fi [where f = "merge_peer e", OF merge_peer_db [OF assms]] u1
    by simp
qed

text \<open>In any environment a merge leaves the header and the other tables alone.\<close>

definition rows_only :: "gr_registrar \<Rightarrow> gr_registrar \<Rightarrow> bool" where
  "rows_only reg r \<longleftrightarrow> reg_header r = reg_header reg \<and> reg_db r = (reg_db reg)\<lparr>db_peers := db_peers (reg_db r),
     db_roles := db_roles (reg_db r), db_webapps := db_webapps (reg_db r), db_servers := db_servers (reg_db r),
     db_epochs := db_epochs (reg_db r)\<rparr>"

lemma rows_only_quiet: "quiet a b \<Longrightarrow> rows_only a b"
  by (simp add: rows_only_def quietD)

lemma rows_onlyD:
  assumes "rows_only a b"
  shows "reg_header b = reg_header a" "db_audit (reg_db b) = db_audit (reg_db a)" "db_invites (reg_db b) = db_invites (reg_db a)"
    "db_icon (reg_db b) = db_icon (reg_db a)" "db_blocklist (reg_db b) = db_blocklist (reg_db a)"
  using assms by (cases "reg_db a"; cases "reg_db b"; simp add: rows_only_def)+

lemma rows_only_trans: "rows_only a b \<Longrightarrow> rows_only b c \<Longrightarrow> rows_only a c"
  by (cases "reg_db a"; cases "reg_db b"; cases "reg_db c") (simp add: rows_only_def)

lemma rows_only_upserts:
  "rows_only r (snd (db_exec e (ps_delta_peer_upsert p) r))" "rows_only r (snd (db_exec e (ps_delta_role_upsert rl) r))"
  "rows_only r (snd (db_exec e (ps_delta_webapp_upsert w) r))" "rows_only r (snd (db_exec e (ps_delta_server_upsert sv) r))"
  "rows_only r (snd (db_exec e (ps_delta_epoch_upsert ep) r))"
  by (simp_all add: rows_only_def db_exec_def ps_delta_peer_upsert_def ps_delta_role_upsert_def ps_delta_webapp_upsert_def
      ps_delta_server_upsert_def ps_delta_epoch_upsert_def)

lemma rows_only_steps:
  "rows_only (snd st) (snd (merge_peer e p st))" "rows_only (snd st) (snd (merge_role e rl st))"
  "rows_only reg (merge_webapp e w reg)" "rows_only reg (merge_server e s reg)" "rows_only reg (merge_epoch e ep reg)"
proof -
  have q: "rows_only (snd st) (snd (gr_peer_get e i (snd st)))" "rows_only (snd st) (snd (gr_role_get e j (snd st)))"
    "rows_only reg (snd (gr_epoch_get e k reg))" "rows_only reg (snd (db_fetch e f reg))" for i j k and f :: "gr_db \<Rightarrow> gr_server_t option"
    by (simp_all add: rows_only_quiet quiet_fetch)
  show "rows_only (snd st) (snd (merge_peer e p st))"
    using q(1) [of "p_peer_id p"]
    by (auto simp: merge_peer_def split: prod.splits sum.splits intro: rows_only_trans [OF _ rows_only_upserts(1)])
  show "rows_only (snd st) (snd (merge_role e rl st))"
    using q(2) [of "r_role_id rl"]
    by (auto simp: merge_role_def split: prod.splits sum.splits intro: rows_only_trans [OF _ rows_only_upserts(2)])
  show "rows_only reg (merge_webapp e w reg)" by (simp add: merge_webapp_def rows_only_upserts)
  show "rows_only reg (merge_server e s reg)"
    using q(4) [of "ps_server_get (s_id_hash s)"]
    by (auto simp: merge_server_def rows_only_upserts split: prod.splits sum.splits intro: rows_only_trans [OF _ rows_only_upserts(4)])
  show "rows_only reg (merge_epoch e ep reg)"
    using q(3) [of "e_epoch_id ep"]
    by (auto simp: merge_epoch_def split: prod.splits sum.splits intro: rows_only_trans [OF _ rows_only_upserts(5)])
qed

lemma rows_only_fold: "(\<And>x s. rows_only (g s) (g (f x s))) \<Longrightarrow> rows_only (g s) (g (fold f xs s))"
  by (induction xs arbitrary: s) (auto intro: rows_only_quiet rows_only_trans)

lemma rows_only_merge: "rows_only reg (snd (merge_state e ds mr reg))"
proof -
  have 1: "rows_only reg (snd (fold (merge_peer e) (ds_peers ds) (mr, reg)))"
    using rows_only_fold [of snd "merge_peer e" "(mr, reg)"] rows_only_steps(1) by simp
  note 2 = rows_only_trans [OF 1 rows_only_fold [of snd "merge_role e", OF rows_only_steps(2)]]
  note 3 = rows_only_trans [OF 2 rows_only_fold [of "\<lambda>r. r" "merge_webapp e", OF rows_only_steps(3)]]
  note 4 = rows_only_trans [OF 3 rows_only_fold [of "\<lambda>r. r" "merge_server e", OF rows_only_steps(4)]]
  note 5 = rows_only_trans [OF 4 rows_only_fold [of "\<lambda>r. r" "merge_epoch e", OF rows_only_steps(5)]]
  show ?thesis unfolding merge_state_def case_prod_unfold snd_conv by (rule 5)
qed

section \<open>The whole body\<close>

lemma delta_body_ok:
  assumes rel: "reliable e" and t: "in_txn d0 h0 r0" and ok: "delta_body e ver ds n rd r0 = (Inr mr, r1)"
  shows "\<exists>mr1 ra mr2 rb hs. merge_entries e ver ds (unat n) rd (merge_result_zero\<lparr>entries_received := n\<rparr>) r0 = (Inr mr1, ra)
     \<and> merged e ds mr1 ra = (mr2, rb) \<and> mr = mr2\<lparr>new_version := h_version (reg_header rb)\<rparr>
     \<and> reg_header r1 = reg_header rb \<and> reg_db r1 = (reg_db rb)\<lparr>db_header := hs\<rparr>
     \<and> (hs = [reg_header rb] \<or> hs = db_header (reg_db rb))"
proof -
  from ok obtain mr1 ra where 1: "merge_entries e ver ds (unat n) rd (merge_result_zero\<lparr>entries_received := n\<rparr>) r0 = (Inr mr1, ra)"
    unfolding delta_body_def by (auto dest!: q_bind_ok)
  obtain mr2 rb where 2: "merged e ds mr1 ra = (mr2, rb)" by (cases "merged e ds mr1 ra")
  let ?mr = "mr2\<lparr>new_version := h_version (reg_header rb)\<rparr>"
  have run: "(if 0 < entries_new ?mr \<or> 0 < conflicts_resolved ?mr
      then case gr_header_save e rb of (herr, reg') \<Rightarrow> if herr \<noteq> GR_OK then (Inl GR_ERR_DB, reg') else (Inr ?mr, reg')
      else (Inr ?mr, rb)) = (Inr mr, r1)"
    using ok unfolding delta_body_def merged_def [symmetric] 1 by (simp add: q_bind_def 2 Let_def)
  have "txn_kept r0 rb"
    using txn_kept_trans [of r0 ra rb] kept_merge_entries [of r0 e ver ds "unat n" rd "merge_result_zero\<lparr>entries_received := n\<rparr>"]
      kept_merged [of ra e ds mr1] 1 2 by simp
  then have tb: "in_txn d0 h0 rb" using t by (rule txn_kept_in_txn)
  show ?thesis
  proof (cases "0 < entries_new ?mr \<or> 0 < conflicts_resolved ?mr")
    case True
    obtain herr r' where s: "gr_header_save e rb = (herr, r')" by (cases "gr_header_save e rb")
    with run True have "herr = GR_OK" "mr = ?mr" "r1 = r'" by (auto split: if_splits)
    then show ?thesis using 1 2 header_save_result [OF rel tb s] by auto
  next
    case False
    then have "mr = ?mr" "r1 = rb" using run by auto
    then show ?thesis using 1 2
      by (intro exI [of _ mr1] exI [of _ ra] exI [of _ mr2] exI [of _ rb] exI [of _ "db_header (reg_db rb)"]) simp
  qed
qed

lemma rows_only_merged: "rows_only reg (snd (merged e ds mr reg))"
  by (simp add: merged_def rows_only_merge rows_only_quiet split: option.splits)

text \<open>The whole effect of a delta.\<close>

lemma apply_delta_effect:
  assumes rel: "reliable e" and idle: "idle reg" and res: "gr_apply_delta e f data reg = (Inr mr, r)"
  shows "\<exists>d new. data = Some d \<and> idle r \<and> reg_join_state r = reg_join_state reg
     \<and> (\<forall>a\<in>set (db_audit (reg_db r)). a \<in> set (db_audit (reg_db reg)) \<or> a \<in> set new)
     \<and> (\<forall>a\<in>set new. entry_verified e (reg_db reg) a \<and> entry_granted (delta_sender e f d reg) reg a)
     \<and> header_moved (reg_header reg) (reg_header r) \<and> new_version mr = h_version (reg_header r)
     \<and> db_invites (reg_db r) = db_invites (reg_db reg) \<and> db_icon (reg_db r) = db_icon (reg_db reg)
     \<and> db_blocklist (reg_db r) = db_blocklist (reg_db reg)
     \<and> (answers e \<longrightarrow> (let m = (case delta_sender e f d reg of None \<Rightarrow> reg_db reg | Some ds \<Rightarrow> merged_db ds (reg_db reg))
          in db_peers (reg_db r) = db_peers m \<and> db_roles (reg_db r) = db_roles m \<and> db_webapps (reg_db r) = db_webapps m
           \<and> db_servers (reg_db r) = db_servers m \<and> db_epochs (reg_db r) = db_epochs m))"
proof -
  from apply_delta_ok [OF assms] obtain d ver n rd r0 r1 t where d: "data = Some d"
    "delta_body e ver (delta_sender e f d reg) n rd r0 = (Inr mr, r1)" and r0: "reg_db r0 = reg_db reg"
    "reg_header r0 = reg_header reg" "in_txn (reg_db reg) (reg_header reg) r0" and t: "set t \<subseteq> set (db_audit (reg_db r1))"
    "reg_db r = (reg_db r1)\<lparr>db_audit := t\<rparr>" "reg_header r = reg_header r1" "idle r" "reg_join_state r = reg_join_state reg"
    by (elim exE conjE)
  let ?ds = "delta_sender e f d reg"
  from delta_body_ok [OF rel r0(3) d(2)] obtain mr1 ra mr2 rb hs where
    b: "merge_entries e ver ?ds (unat n) rd (merge_result_zero\<lparr>entries_received := n\<rparr>) r0 = (Inr mr1, ra)"
      "merged e ?ds mr1 ra = (mr2, rb)" "mr = mr2\<lparr>new_version := h_version (reg_header rb)\<rparr>"
      "reg_header r1 = reg_header rb" "reg_db r1 = (reg_db rb)\<lparr>db_header := hs\<rparr>" by (elim exE conjE)
  from merge_entries_added [OF b(1)] obtain new where new: "reg_db ra = (reg_db r0)\<lparr>db_audit := db_audit (reg_db r0) @ new\<rparr>"
    "\<forall>a\<in>set new. entry_verified e (reg_db r0) a \<and> entry_granted ?ds r0 a" "header_moved (reg_header r0) (reg_header ra)"
    by (auto simp: entries_added_def)
  have rb: "rows_only ra rb" using rows_only_merged [of ra e ?ds mr1] b(2) by simp
  then have same: "reg_header rb = reg_header ra" "db_audit (reg_db rb) = db_audit (reg_db ra)"
      "db_invites (reg_db rb) = db_invites (reg_db ra)" "db_icon (reg_db rb) = db_icon (reg_db ra)"
      "db_blocklist (reg_db rb) = db_blocklist (reg_db ra)"
    by (simp_all add: rows_onlyD)
  have gr: "entry_granted ?ds r0 a = entry_granted ?ds reg a" for a by (rule granted_same) (simp_all add: r0)
  have rdb: "reg_db r = (reg_db rb)\<lparr>db_header := hs, db_audit := t\<rparr>" using t(2) b(5) by simp
  have rows: "let m = (case ?ds of None \<Rightarrow> reg_db reg | Some ds \<Rightarrow> merged_db ds (reg_db reg))
          in db_peers (reg_db r) = db_peers m \<and> db_roles (reg_db r) = db_roles m \<and> db_webapps (reg_db r) = db_webapps m
           \<and> db_servers (reg_db r) = db_servers m \<and> db_epochs (reg_db r) = db_epochs m" if ans: "answers e"
  proof (cases ?ds)
    case None
    then have "rb = ra" using b(2) by (simp add: merged_def)
    then show ?thesis by (simp add: None Let_def rdb new(1) r0)
  next
    case (Some ds)
    then have "reg_db rb = merged_db ds (reg_db ra)" using merge_state_db [OF ans, of ds mr1 ra] b(2) by (simp add: merged_def)
    then show ?thesis by (simp add: Some Let_def rdb merged_db_def new(1) r0)
  qed
  have added: "\<forall>a\<in>set new. entry_verified e (reg_db reg) a \<and> entry_granted ?ds reg a" using new(2) gr by (simp add: r0)
  have log: "\<forall>a\<in>set (db_audit (reg_db r)). a \<in> set (db_audit (reg_db reg)) \<or> a \<in> set new"
    using t(1,2) b(5) same(2) new(1) r0 by auto
  have hd: "header_moved (reg_header reg) (reg_header r)" "new_version mr = h_version (reg_header r)"
    using new(3) same(1) b(3,4) t(3) r0 by simp_all
  have rest: "db_invites (reg_db r) = db_invites (reg_db reg)" "db_icon (reg_db r) = db_icon (reg_db reg)"
     "db_blocklist (reg_db r) = db_blocklist (reg_db reg)" using same rdb new(1) r0 by simp_all
  show ?thesis
    by (rule exI [of _ d], rule exI [of _ new]) (intro conjI impI d(1) t(4) t(5) log added hd rest rows)
qed

end
