(* ===== verification/Sync_Wire.thy ===== *)
theory Sync_Wire imports Sync_Safety Invite_Safety
begin

text \<open>
  The wire format of whole registrars and deltas, as byte strings: what the senders of
  \<open>src/src/group_registrar/serialize.c\<close> write and the receivers read back, whatever the byte order of
  either host.
\<close>

section \<open>Rows\<close>

definition peer_wire :: "gr_peer_t \<Rightarrow> bytes" where
  "peer_wire p = p_peer_id p @ p_kem_pk p @ p_sign_key p @ str_wire (c_string (take GR_MAX_IP_LEN (p_ip p)))
     @ le_bytes 2 (p_port p) @ le_bytes 4 (p_status p) @ le_bytes 4 (p_role_id p) @ le_bytes 8 (p_joined_at p)
     @ le_bytes 8 (p_removed_at p) @ le_bytes 8 (p_last_seen p)
     @ str_wire (c_string (take GR_MAX_NAME_LEN (p_removed_reason p))) @ p_removed_by p @ []"

definition role_wire :: "gr_role_t \<Rightarrow> bytes" where
  "role_wire r = le_bytes 4 (r_role_id r) @ str_wire (c_string (take GR_MAX_NAME_LEN (r_name r)))
     @ le_bytes 4 (r_permissions r) @ r_sign_key r @ le_bytes 8 (r_created_at r) @ le_bytes 8 (r_modified_at r) @ []"

definition blob_wire :: "bytes option \<Rightarrow> bytes" where
  "blob_wire b = le_bytes 4 (of_nat (blob_len b) :: u32) @ (case b of None \<Rightarrow> [] | Some d \<Rightarrow> d)"

definition webapp_wire :: "gr_webapp_t \<Rightarrow> bytes" where
  "webapp_wire w = w_hash w @ str_wire (c_string (take GR_MAX_NAME_LEN (w_name w))) @ le_bytes 4 (w_version w)
     @ le_bytes 8 (w_added_at w) @ w_added_by w @ blob_wire (w_perm_data w) @ blob_wire (w_role_mask w) @ []"

definition sent_key :: "gr_serialize_mode_t \<Rightarrow> gr_server_t \<Rightarrow> bytes" where
  "sent_key mode s = (if mode = GR_SERIALIZE_OWNER then s_content_kem_sk s else replicate GR_KEM_SECRET_KEY_LEN 0)"

definition server_row_wire :: "gr_serialize_mode_t \<Rightarrow> gr_server_t \<Rightarrow> bytes" where
  "server_row_wire mode s = s_id_hash s @ le_bytes 4 (s_type s) @ str_wire (c_string (take GR_MAX_IP_LEN (s_ip s)))
     @ le_bytes 2 (s_port s) @ s_sign_key s @ s_service_hash s @ s_content_kem_pk s @ sent_key mode s @ []"

definition epoch_wire :: "gr_epoch_t \<Rightarrow> bytes" where
  "epoch_wire ep = le_bytes 4 (e_epoch_id ep) @ e_epoch_key ep @ le_bytes 8 (e_created_at ep)
     @ le_bytes 8 (e_expired_at ep) @ e_created_by ep @ []"

definition audit_wire :: "gr_audit_entry_t \<Rightarrow> bytes" where
  "audit_wire a = a_entry_hash a @ le_bytes 8 (a_timestamp a) @ le_bytes 8 (a_timestamp_ns a)
     @ le_bytes 4 (a_change_type a) @ a_actor_id a @ a_target_id a @ a_signature a
     @ le_bytes 4 (a_registrar_version a) @ str_wire (c_string (take GR_DETAIL_LEN (a_detail a))) @ a_prev_hash a @ []"

definition header_wire :: "gr_header_t \<Rightarrow> bytes" where
  "header_wire h = h_group_id h @ le_bytes 4 (h_group_type h) @ str_wire (c_string (take GR_MAX_NAME_LEN (h_group_name h)))
     @ le_bytes 4 (h_version h) @ le_bytes 8 (h_created_at h) @ le_bytes 8 (h_updated_at h) @ le_bytes 4 (h_epoch_id h)
     @ le_bytes 8 (message_retention_ms (h_retention h)) @ le_bytes 8 (file_retention_ms (h_retention h))
     @ le_bytes 8 (registrar_max_bytes (h_retention h)) @ h_owner_id h @ h_owner_sign_key h @ h_signer_id h
     @ h_signer_sign_key h @ h_signature h @ h_hash h @ []"

lemmas emits_fields = emits_Cons emits_bytes emits_str emits_u8 emits_u16 emits_u32 emits_i64 emits_nil

lemma emits_rows:
  "emits ra (ser_peer h ra p) (peer_wire p)" "emits ra (ser_role h ra rl) (role_wire rl)"
  "emits ra (ser_epoch h ra ep) (epoch_wire ep)" "emits ra (ser_audit h ra a) (audit_wire a)"
  "emits ra (ser_header h ra hdr) (header_wire hdr)"
  unfolding ser_peer_def peer_wire_def ser_role_def role_wire_def ser_epoch_def epoch_wire_def ser_audit_def audit_wire_def
    ser_header_def header_wire_def
  by (intro emits_fields)+

lemma emits_server: "emits ra (ser_server h ra mode s) (server_row_wire mode s)"
proof (cases mode)
  case GR_SERIALIZE_FULL
  show ?thesis unfolding ser_server_def server_row_wire_def sent_key_def
    by (simp add: GR_SERIALIZE_FULL del: append_Nil2, intro emits_fields)
next
  case GR_SERIALIZE_OWNER
  show ?thesis unfolding ser_server_def server_row_wire_def sent_key_def
    by (simp add: GR_SERIALIZE_OWNER del: append_Nil2, intro emits_fields)
qed

lemma ser_seq_append: "ser_seq (xs @ ys) b = (case ser_seq xs b of None \<Rightarrow> None | Some b' \<Rightarrow> ser_seq ys b')"
  by (induction xs arbitrary: b) (auto split: option.splits)

lemma emits_append: "emits ra (ser_seq xs) d1 \<Longrightarrow> emits ra (ser_seq ys) d2 \<Longrightarrow> emits ra (ser_seq (xs @ ys)) (d1 @ d2)"
  by (rule emits_then) (auto simp: ser_seq_append)

lemma emits_blob: "emits ra (ser_seq (ser_blob h ra b)) (blob_wire b)"
proof (cases "0 < blob_len b")
  case True
  then obtain d where "b = Some d" by (cases b) (auto simp: blob_len_def)
  then show ?thesis using True unfolding ser_blob_def blob_wire_def by (auto intro!: emits_Cons [OF emits_u32] emits_bytes)
next
  case False
  then have "(case b of None \<Rightarrow> [] | Some d \<Rightarrow> d) = []" by (cases b) (simp_all add: blob_len_def)
  then show ?thesis using False emits_u32 unfolding ser_blob_def blob_wire_def by simp
qed

lemma emits_webapp: "emits ra (ser_webapp h ra w) (webapp_wire w)"
proof -
  have "emits ra (ser_seq ([gr_buf_write ra (w_hash w), gr_buf_write_str h ra (w_name w) GR_MAX_NAME_LEN,
     gr_buf_write_u32 h ra (w_version w), gr_buf_write_i64 h ra (w_added_at w), gr_buf_write ra (w_added_by w)]
     @ ser_blob h ra (w_perm_data w) @ ser_blob h ra (w_role_mask w)))
    ((w_hash w @ str_wire (c_string (take GR_MAX_NAME_LEN (w_name w))) @ le_bytes 4 (w_version w)
     @ le_bytes 8 (w_added_at w) @ w_added_by w @ []) @ blob_wire (w_perm_data w) @ blob_wire (w_role_mask w))"
    by (intro emits_append emits_blob emits_fields)
  then show ?thesis unfolding ser_webapp_def webapp_wire_def by simp
qed

lemmas reads_fields = reads_bind [OF reads_bytes] reads_bind [OF reads_wf_str] reads_bind [OF reads_u16]
  reads_bind [OF reads_u32] reads_bind [OF reads_i64] reads_return

lemma reads_peer: "wf_peer p \<Longrightarrow> reads (de_peer h) (peer_wire p) p"
  unfolding de_peer_def peer_wire_def wf_peer_def by (cases p) (simp del: append_Nil2, intro reads_fields; simp)

lemma reads_role: "wf_role r \<Longrightarrow> reads (de_role h 4) (role_wire r) r"
  unfolding de_role_def role_wire_def wf_role_def by (cases r) (simp del: append_Nil2, intro reads_fields; simp)

lemma reads_epoch: "wf_epoch r \<Longrightarrow> reads (de_epoch h) (epoch_wire r) r"
  unfolding de_epoch_def epoch_wire_def wf_epoch_def by (cases r) (simp del: append_Nil2, intro reads_fields; simp)

lemma reads_audit: "wf_audit r \<Longrightarrow> reads (de_audit h 4) (audit_wire r) r"
  unfolding de_audit_def audit_wire_def wf_audit_def by (cases r) (simp del: append_Nil2, intro reads_fields; simp)

lemma reads_header: "wf_header r \<Longrightarrow> reads (de_header h) (header_wire r) r"
  unfolding de_header_def header_wire_def wf_header_def by (cases r; cases "h_retention r") (simp del: append_Nil2, intro reads_fields; simp)

lemma reads_server_row: "wf_server s \<Longrightarrow> reads (de_server h) (server_row_wire mode s) (server_image mode s)"
  unfolding de_server_def server_row_wire_def wf_server_def server_image_def sent_key_def
  by (cases s; cases mode) (simp del: append_Nil2, intro reads_fields; simp)+

lemma reads_blob:
  assumes "wf_blob_opt limit b" and "limit < 2 ^ 32" and "\<And>n. ok n"
  shows "reads (de_blob ok h limit) (blob_wire b) b"
proof -
  have len: "unat (of_nat (blob_len b) :: u32) = blob_len b" "blob_len b \<le> limit"
    using assms by (auto simp: blob_len_def wf_blob_opt_def unat_of_nat split: option.splits)
  have "reads (if 0 < blob_len b then rbind (gr_read_bytes (blob_len b)) (\<lambda>d. rreturn (Some d)) else rreturn None)
      (case b of None \<Rightarrow> [] | Some d \<Rightarrow> d) b"
  proof (cases b)
    case None
    then show ?thesis by (simp add: blob_len_def reads_return)
  next
    case (Some d)
    have "reads (rbind (gr_read_bytes (length d)) (\<lambda>d. rreturn (Some d))) (d @ []) (Some d)"
      by (rule reads_bind [OF reads_bytes [OF refl]]) (rule reads_return)
    then show ?thesis using Some assms(1) by (simp add: blob_len_def wf_blob_opt_def)
  qed
  then show ?thesis unfolding de_blob_def blob_wire_def using len assms(3)
    by (intro reads_bind [OF reads_u32]) (cases "0 < blob_len b"; simp)
qed

lemma reads_webapp:
  assumes "wf_webapp w" and "\<And>n. ok n" and "\<And>n. ok2 n"
  shows "reads (de_webapp ok ok2 h 4) (webapp_wire w) w"
  unfolding de_webapp_def webapp_wire_def using assms
  by (cases w) (simp add: wf_webapp_def del: append_Nil2, intro reads_fields reads_bind [OF reads_blob]; simp)

section \<open>Cursors\<close>

definition cursor :: "bytes \<Rightarrow> bytes \<Rightarrow> gr_reader_t" where
  "cursor pre post = \<lparr>rd_data = pre @ post, rd_pos = length pre\<rparr>"

lemma reads_at: "reads rd d v \<Longrightarrow> rd (cursor pre (d @ post)) = (Some v, cursor (pre @ d) post)"
  by (simp add: reads_def cursor_def)

lemma at_u32 [simp]: "gr_read_u32 h (cursor pre (le_bytes 4 n @ post)) = (Some n, cursor (pre @ le_bytes 4 n) post)"
  by (rule reads_at [OF reads_u32])

lemma at_rest [simp]: "length (rd_data (cursor pre post)) - rd_pos (cursor pre post) = length post"
  by (simp add: cursor_def)

section \<open>The contract of a row\<close>

definition table_wire :: "('a \<Rightarrow> bytes) \<Rightarrow> 'a list \<Rightarrow> bytes" where
  "table_wire w vs = le_bytes 4 (of_nat (length vs) :: u32) @ concat (map w vs)"

text \<open>Memory, engine and primitives answer.\<close>

definition calm :: "yumi_env \<Rightarrow> bool" where
  "calm e \<longleftrightarrow> smooth e \<and> resourceful e \<and> (\<forall>n. realloc_ok e n)"

lemma calmD: "calm e \<Longrightarrow> db_ok e c n" "calm e \<Longrightarrow> malloc_ok e n" "calm e \<Longrightarrow> realloc_ok e k" "calm e \<Longrightarrow> skein_ok e n"
    "calm e \<Longrightarrow> reliable e" "calm e \<Longrightarrow> answers e" "calm e \<Longrightarrow> smooth e"
  by (simp_all add: calm_def smooth_def resourceful_def reliable_def answers_def)

text \<open>A sender of one part: it appends these bytes and only reads the registrar.\<close>

definition sends :: "yumi_env \<Rightarrow> gr_registrar \<Rightarrow> (u32 \<times> gr_buf_t \<Rightarrow> gr_registrar \<Rightarrow>
    (gr_error_t + u32 \<times> gr_buf_t) \<times> gr_registrar) \<Rightarrow> bytes \<Rightarrow> bool" where
  "sends e reg m d \<longleftrightarrow> (\<forall>st r. quiet reg r \<longrightarrow> buf_room (snd st) (length d) \<longrightarrow>
     (\<exists>n b q. m st r = (Inr (n, b), q) \<and> emitted (realloc_ok e) d (snd st) b \<and> quiet reg q))"

lemma sends_bind:
  assumes "sends e reg m1 d1" and "sends e reg m2 d2"
  shows "sends e reg (\<lambda>st r. q_bind (m1 st r) m2) (d1 @ d2)"
  unfolding sends_def
proof (intro allI impI)
  fix st :: "u32 \<times> gr_buf_t" and r assume q: "quiet reg r" and room: "buf_room (snd st) (length (d1 @ d2))"
  then have "buf_room (snd st) (length d1)" by (simp add: buf_room_def)
  then obtain n b q1 where 1: "m1 st r = (Inr (n, b), q1)" "emitted (realloc_ok e) d1 (snd st) b" "quiet reg q1"
    using assms(1) q unfolding sends_def by blast
  have "buf_room (snd (n, b)) (length d2)" using emitted_room [OF 1(2)] room by simp
  then obtain n2 b2 q2 where 2: "m2 (n, b) q1 = (Inr (n2, b2), q2)" "emitted (realloc_ok e) d2 (snd (n, b)) b2" "quiet reg q2"
    using assms(2) 1(3) unfolding sends_def by blast
  show "\<exists>n b q. q_bind (m1 st r) m2 = (Inr (n, b), q) \<and> emitted (realloc_ok e) (d1 @ d2) (snd st) b \<and> quiet reg q"
    using 1 2 emitted_trans [OF 1(2), of d2 b2] by (simp add: q_bind_def)
qed

text \<open>The rows of one statement, inserted one after the other.\<close>

fun ins_rows :: "('a \<Rightarrow> gr_db \<Rightarrow> (nat \<times> gr_db) option) \<Rightarrow> 'a list \<Rightarrow> gr_db \<Rightarrow> gr_db option" where
  "ins_rows ins [] d = Some d"
| "ins_rows ins (v # vs) d = (case ins v d of None \<Rightarrow> None | Some (n, d') \<Rightarrow> ins_rows ins vs d')"

locale row_wire =
  fixes wr :: "bool \<Rightarrow> (u64 \<Rightarrow> bool) \<Rightarrow> 'a \<Rightarrow> gr_buf_t \<Rightarrow> gr_buf_t option"
    and wire :: "'a \<Rightarrow> bytes"
    and rd :: "bool \<Rightarrow> gr_reader_t \<Rightarrow> 'a option \<times> gr_reader_t"
    and ok :: "'a \<Rightarrow> bool"
    and img :: "'a \<Rightarrow> 'a"
  assumes emits_row: "emits ra (wr h ra v) (wire v)"
    and reads_row: "ok v \<Longrightarrow> reads (rd h) (wire v) (img v)"
    and wire_pos: "wire v \<noteq> []"
begin

lemma rows_fill: "length vs \<le> length (concat (map wire vs))"
proof (induction vs)
  case (Cons v vs)
  have "1 \<le> length (wire v)" using wire_pos [of v] by (cases "wire v") simp_all
  with Cons show ?case by (simp only: list.map concat.simps length_append list.size)
qed simp

lemma sends_table:
  assumes "calm e"
    and cnt: "\<And>r. quiet reg r \<Longrightarrow> cnt r = (Inr (of_nat (length vs)), tick r)"
    and lst: "\<And>r. quiet reg r \<Longrightarrow> \<exists>q. lst (of_nat (length vs)) r = (Inr vs, q) \<and> quiet r q"
    and small: "length vs < 2 ^ 32"
  shows "sends e reg (ser_table e cnt lst zero (wr (host_le e) (realloc_ok e))) (table_wire wire vs)"
  unfolding sends_def
proof (intro allI impI)
  fix st :: "u32 \<times> gr_buf_t" and r assume q: "quiet reg r" and room: "buf_room (snd st) (length (table_wire wire vs))"
  let ?n = "of_nat (length vs) :: u32"
  let ?w = "ser_seq [gr_buf_write_u32 (host_le e) (realloc_ok e) ?n]" and ?ws = "ser_each (wr (host_le e) (realloc_ok e)) vs"
  have "buf_room (snd st) (length (le_bytes 4 ?n))" using room by (simp add: buf_room_def table_wire_def)
  then obtain b1 where b1: "?w (snd st) = Some b1" "emitted (realloc_ok e) (le_bytes 4 ?n) (snd st) b1"
    using emits_u32 [of "realloc_ok e" "host_le e" ?n] unfolding emits_def by blast
  have "emits (realloc_ok e) ?ws (concat (map wire vs))" by (rule emits_each [OF emits_row])
  moreover have "buf_room b1 (length (concat (map wire vs)))" using emitted_room [OF b1(2)] room by (simp add: table_wire_def)
  ultimately obtain b2 where b2: "?ws b1 = Some b2" "emitted (realloc_ok e) (concat (map wire vs)) b1 b2"
    unfolding emits_def by blast
  have q1: "quiet reg (tick r)" by (rule quiet_trans [OF q quiet_tick])
  have q2: "quiet reg (tick (tick r))" by (rule quiet_trans [OF q1 quiet_tick])
  show "\<exists>n b q. ser_table e cnt lst zero (wr (host_le e) (realloc_ok e)) st r = (Inr (n, b), q)
     \<and> emitted (realloc_ok e) (table_wire wire vs) (snd st) b \<and> quiet reg q"
  proof (cases "vs = []")
    case True
    then show ?thesis using cnt [OF q] b1 q1 by (simp add: ser_table_def table_wire_def Let_def)
  next
    case False
    have "unat ?n = length vs" using small by (simp add: unat_of_nat)
    then have nz: "?n \<noteq> 0" using False by (metis length_0_conv unat_0)
    obtain q' where l: "lst ?n (tick (tick r)) = (Inr vs, q')" "quiet (tick (tick r)) q'" using lst [OF q2] by blast
    then show ?thesis using cnt [OF q] b1 b2 nz calmD(2) [OF assms(1)] quiet_trans [OF q2 l(2)]
        emitted_trans [OF b1(2) b2(2)] by (simp add: ser_table_def table_wire_def Let_def)
  qed
qed

text \<open>The same rows parsed into an array, or loaded into a table.\<close>

lemma parse_rows_wire:
  assumes "\<And>n. rd' n = rd h" and "\<forall>v\<in>set vs. ok v"
  shows "fst (parse_rows rd' (length vs) (cursor pre (concat (map wire vs) @ post)) reg) =
    Inr (map img vs, cursor (pre @ concat (map wire vs)) post)"
  using assms(2)
proof (induction vs arbitrary: pre reg)
  case (Cons v vs)
  have "rd h (cursor pre (wire v @ concat (map wire vs) @ post)) = (Some (img v), cursor (pre @ wire v) (concat (map wire vs) @ post))"
    using Cons.prems by (intro reads_at [OF reads_row]) simp
  moreover obtain q where "parse_rows rd' (length vs) (cursor (pre @ wire v) (concat (map wire vs) @ post)) (tick (tick reg)) =
      (Inr (map img vs, cursor ((pre @ wire v) @ concat (map wire vs)) post), q)"
    using Cons.IH [of "pre @ wire v" "tick (tick reg)"] Cons.prems
    by (cases "parse_rows rd' (length vs) (cursor (pre @ wire v) (concat (map wire vs) @ post)) (tick (tick reg))") auto
  moreover have "rd' = (\<lambda>n. rd h)" using assms(1) by (rule ext)
  ultimately show ?case by (simp add: q_bind_def)
qed simp

lemma parse_table_wire:
  assumes "calm e" and "\<And>n. rd' n = rd (host_le e)" and "\<forall>v\<in>set vs. ok v" and "length vs < 2 ^ 32"
  shows "fst (parse_array e oom rd' (cursor pre (table_wire wire vs @ post)) reg) =
    Inr (map img vs, cursor (pre @ table_wire wire vs) post)"
proof -
  have n: "unat (of_nat (length vs) :: u32) = length vs" using assms(4) by (simp add: unat_of_nat)
  have "length vs \<le> length (concat (map wire vs) @ post)" using rows_fill [of vs] by simp
  moreover have "(of_nat (length vs) :: u32) = 0 \<longleftrightarrow> vs = []" by (metis n unat_eq_0 length_0_conv)
  ultimately show ?thesis
    using parse_rows_wire [OF assms(2,3), where pre = "pre @ le_bytes 4 (of_nat (length vs) :: u32)" and post = post and reg = "tick reg"] calmD(2) [OF assms(1)]
    by (simp add: parse_array_def table_wire_def n)
qed

lemma load_rows_wire:
  assumes "calm e" and "\<And>n. rd' n = rd (host_le e)" and "\<forall>v\<in>set vs. ok v" and "ins_rows ins (map img vs) (reg_db reg) = Some d"
  shows "\<exists>q. load_rows e rd' ins (length vs) (cursor pre (concat (map wire vs) @ post)) reg =
    (Inr (cursor (pre @ concat (map wire vs)) post), q) \<and> reg_db q = d \<and> reg_header q = reg_header reg"
  using assms(3,4)
proof (induction vs arbitrary: pre reg)
  case (Cons v vs)
  have r: "rd (host_le e) (cursor pre (wire v @ concat (map wire vs) @ post)) = (Some (img v), cursor (pre @ wire v) (concat (map wire vs) @ post))"
    using Cons.prems by (intro reads_at [OF reads_row]) simp
  from Cons.prems(2) obtain n d1 where d1: "ins (img v) (reg_db reg) = Some (n, d1)" "ins_rows ins (map img vs) d1 = Some d"
    by (auto split: option.splits)
  let ?r1 = "(tick (tick (tick reg)))\<lparr>reg_db := d1\<rparr>"
  have x: "db_exec e (ins (img v)) (tick (tick reg)) = (Some n, ?r1)"
    using d1(1) calmD(1) [OF assms(1)] by (simp add: db_exec_def)
  have "\<exists>q. load_rows e rd' ins (length vs) (cursor (pre @ wire v) (concat (map wire vs) @ post)) ?r1 =
    (Inr (cursor ((pre @ wire v) @ concat (map wire vs)) post), q) \<and> reg_db q = d \<and> reg_header q = reg_header ?r1"
    by (rule Cons.IH) (use Cons.prems(1) d1(2) in simp_all)
  moreover have "rd' = (\<lambda>n. rd (host_le e))" using assms(2) by (rule ext)
  ultimately show ?case using r x by simp
qed simp

lemma load_table_wire:
  assumes "calm e" and "\<And>n. rd' n = rd (host_le e)" and "\<forall>v\<in>set vs. ok v" and "length vs < 2 ^ 32"
    and "ins_rows ins (map img vs) (reg_db reg) = Some d"
  shows "\<exists>q. load_table e rd' ins (cursor pre (table_wire wire vs @ post)) reg =
    (Inr (cursor (pre @ table_wire wire vs) post), q) \<and> reg_db q = d \<and> reg_header q = reg_header reg"
proof -
  have n: "unat (of_nat (length vs) :: u32) = length vs" using assms(4) by (simp add: unat_of_nat)
  show ?thesis
    using load_rows_wire [OF assms(1,2,3,5), where pre = "pre @ le_bytes 4 (of_nat (length vs) :: u32)" and post = post]
    by (simp add: load_table_def table_wire_def n)
qed

end

section \<open>The rows meet the contract\<close>

interpretation peer_rows: row_wire ser_peer peer_wire de_peer wf_peer "\<lambda>p. p"
  by unfold_locales (simp_all add: emits_rows reads_peer, simp add: peer_wire_def le_bytes_def)

interpretation role_rows: row_wire ser_role role_wire "\<lambda>h. de_role h 4" wf_role "\<lambda>p. p"
  by unfold_locales (simp_all add: emits_rows reads_role, simp add: role_wire_def le_bytes_def)

interpretation webapp_rows: row_wire ser_webapp webapp_wire "\<lambda>h. de_webapp (\<lambda>n. True) (\<lambda>n. True) h 4" wf_webapp "\<lambda>p. p"
  by unfold_locales (simp_all add: emits_webapp reads_webapp, simp add: webapp_wire_def le_bytes_def)

interpretation server_rows: row_wire "\<lambda>h ra. ser_server h ra mode" "server_row_wire mode" de_server wf_server "server_image mode"
  for mode
  by unfold_locales (simp_all add: emits_server reads_server_row, simp add: server_row_wire_def le_bytes_def)

interpretation epoch_rows: row_wire ser_epoch epoch_wire de_epoch wf_epoch "\<lambda>p. p"
  by unfold_locales (simp_all add: emits_rows reads_epoch, simp add: epoch_wire_def le_bytes_def)

interpretation audit_rows: row_wire ser_audit audit_wire "\<lambda>h. de_audit h 4" wf_audit "\<lambda>p. p"
  by unfold_locales (simp_all add: emits_rows reads_audit, simp add: audit_wire_def le_bytes_def)

end
