(* ===== verification/Sync_Trip.thy ===== *)
theory Sync_Trip imports Sync_Wire
begin

text \<open>
  Sending a registrar and receiving it (\<open>gr_serialize\<close>, \<open>gr_deserialize\<close>, \<open>gr_serialize_delta\<close>,
  \<open>gr_apply_delta\<close>): what arrives, what two replicas that exchange deltas agree on, and what a sender
  without any authority can change.
\<close>

section \<open>What a registrar sends\<close>

definition role_rows_of :: "gr_db \<Rightarrow> gr_role_t list" where
  "role_rows_of d = sort_key (\<lambda>r. sint (r_role_id r)) (db_roles d)"

definition server_rows_of :: "u32 \<Rightarrow> gr_db \<Rightarrow> gr_server_t list" where
  "server_rows_of t d = filter (\<lambda>s. s_type s = t) (db_servers d)"

definition epoch_rows_of :: "gr_db \<Rightarrow> gr_epoch_t list" where
  "epoch_rows_of d = sort_key (\<lambda>e. sint (e_epoch_id e)) (db_epochs d)"

definition audit_rows_of :: "gr_db \<Rightarrow> gr_audit_entry_t list" where
  "audit_rows_of d = sort_key (\<lambda>a. sint (a_timestamp a)) (db_audit d)"

definition entities_wire :: "gr_serialize_mode_t \<Rightarrow> gr_db \<Rightarrow> bytes" where
  "entities_wire mode d = table_wire peer_wire (db_peers d) @ table_wire role_wire (role_rows_of d)
     @ table_wire webapp_wire (db_webapps d)
     @ (table_wire (server_row_wire mode) (server_rows_of 0 d) @ table_wire (server_row_wire mode) (server_rows_of 1 d) @ [])
     @ table_wire epoch_wire (epoch_rows_of d)"

definition rows_fit :: "gr_registrar \<Rightarrow> bool" where
  "rows_fit reg \<longleftrightarrow> wf_header (reg_header reg) \<and> (\<forall>p\<in>set (db_peers (reg_db reg)). wf_peer p)
     \<and> (\<forall>r\<in>set (db_roles (reg_db reg)). wf_role r) \<and> (\<forall>w\<in>set (db_webapps (reg_db reg)). wf_webapp w)
     \<and> (\<forall>s\<in>set (db_servers (reg_db reg)). wf_server s) \<and> (\<forall>x\<in>set (db_epochs (reg_db reg)). wf_epoch x)
     \<and> (\<forall>a\<in>set (db_audit (reg_db reg)). wf_audit a)"

lemma table_small:
  "length vs \<le> length (table_wire peer_wire vs)" "length rs \<le> length (table_wire role_wire rs)"
  "length ws \<le> length (table_wire webapp_wire ws)" "length ss \<le> length (table_wire (server_row_wire mode) ss)"
  "length es \<le> length (table_wire epoch_wire es)" "length xs \<le> length (table_wire audit_wire xs)"
  using peer_rows.rows_fill [of vs] role_rows.rows_fill [of rs] webapp_rows.rows_fill [of ws]
    server_rows.rows_fill [of ss mode] epoch_rows.rows_fill [of es] audit_rows.rows_fill [of xs]
  by (simp_all add: table_wire_def)

lemma limit_all:
  assumes "length (rows :: 'r list) < 2 ^ 31"
  shows "sql_limit (of_nat (length rows)) rows = Some rows"
  using sint_of_nat_small_32 [OF assms] by (simp add: sql_limit_def)

lemma read_back [simp]:
  "wf_peer p \<Longrightarrow> peer_read p = p" "wf_role r \<Longrightarrow> role_read r = r" "wf_server s \<Longrightarrow> server_read s = s"
  by (auto simp: wf_peer_def peer_read_def wf_role_def role_read_def wf_server_def server_read_def db_str_def wf_cstr_def)

lemma webapp_rows_back:
  assumes "calm e" and "\<forall>w\<in>set ws. wf_webapp w"
  shows "\<exists>q. webapp_read_rows e ws r = (ws, q) \<and> quiet r q"
  using assms(2)
proof (induction ws arbitrary: r)
  case (Cons w ws)
  have blob: "\<exists>x q. get_blob_alloc e b r = (x, q) \<and> absent_or x = b \<and> quiet r q" if "wf_blob_opt n b" for b n r
    using that calmD(2) [OF assms(1)]
    by (cases b) (auto simp: get_blob_alloc_def absent_or_def blob_arg_def wf_blob_opt_def)
  have wf: "wf_blob_opt GR_WEBAPP_PERM_DATA_MAX (w_perm_data w)" "wf_blob_opt GR_WEBAPP_ROLE_MASK_MAX (w_role_mask w)"
    "wf_cstr GR_MAX_NAME_LEN (w_name w)" using Cons.prems by (simp_all add: wf_webapp_def)
  obtain x q1 where 1: "get_blob_alloc e (w_perm_data w) r = (x, q1)" "absent_or x = w_perm_data w" "quiet r q1"
    using blob [OF wf(1)] by blast
  obtain y q2 where 2: "get_blob_alloc e (w_role_mask w) q1 = (y, q2)" "absent_or y = w_role_mask w" "quiet q1 q2"
    using blob [OF wf(2)] by blast
  obtain q3 where 3: "webapp_read_rows e ws q2 = (ws, q3)" "quiet q2 q3" using Cons.IH [of q2] Cons.prems by auto
  have nm: "db_str GR_MAX_NAME_LEN (w_name w) = w_name w" using wf(3) by (simp add: db_str_def wf_cstr_def)
  show ?case using 1 2 3 nm quiet_trans [OF quiet_trans [OF 1(3) 2(3)] 3(2)] by (cases w) simp
qed simp

lemma sends_entities:
  assumes calm: "calm e" and fit: "rows_fit reg" and small: "length (entities_wire mode (reg_db reg)) < 2 ^ 31"
  shows "sends e reg (ser_entities e mode) (entities_wire mode (reg_db reg))"
proof -
  let ?d = "reg_db reg"
  note ok = calmD(1) [OF calm]
  have db: "reg_db r = ?d" if "quiet reg r" for r using that by (simp add: quietD)
  have len: "length (db_peers ?d) < 2 ^ 31" "length (role_rows_of ?d) < 2 ^ 31" "length (db_webapps ?d) < 2 ^ 31"
    "length (server_rows_of 0 ?d) < 2 ^ 31" "length (server_rows_of 1 ?d) < 2 ^ 31" "length (epoch_rows_of ?d) < 2 ^ 31"
    using small table_small(1) [of "db_peers ?d"] table_small(2) [of "role_rows_of ?d"] table_small(3) [of "db_webapps ?d"]
      table_small(4) [of "server_rows_of 0 ?d" mode] table_small(4) [of "server_rows_of 1 ?d" mode] table_small(5) [of "epoch_rows_of ?d"]
    unfolding entities_wire_def by simp_all
  note lim = len [THEN limit_all]
  have wf: "\<forall>p\<in>set (db_peers ?d). wf_peer p" "\<forall>r\<in>set (role_rows_of ?d). wf_role r" "\<forall>w\<in>set (db_webapps ?d). wf_webapp w"
    "\<forall>s\<in>set (server_rows_of t ?d). wf_server s" for t
    using fit by (auto simp: rows_fit_def role_rows_of_def server_rows_of_def)
  have id: "map peer_read (db_peers ?d) = db_peers ?d" "map role_read (role_rows_of ?d) = role_rows_of ?d"
    "map server_read (server_rows_of t ?d) = server_rows_of t ?d" for t
    by (rule map_idI, use wf read_back in blast)+
  have peers: "sends e reg (ser_table e (gr_peer_count e GR_PEER_STATUS_ANY) (\<lambda>n. gr_peer_list e n GR_PEER_STATUS_ANY) zero_peer
      (ser_peer (host_le e) (realloc_ok e))) (table_wire peer_wire (db_peers ?d))"
  proof (rule peer_rows.sends_table [OF calm])
    fix r assume q: "quiet reg r"
    note rw = db_query_def ok db [OF q] gr_peer_count_def gr_peer_list_def ps_peer_count_all_def ps_peer_list_all_def
    show "gr_peer_count e GR_PEER_STATUS_ANY r = (Inr (of_nat (length (db_peers ?d))), tick r)"
      by (simp add: rw)
    show "\<exists>q. gr_peer_list e (of_nat (length (db_peers ?d))) GR_PEER_STATUS_ANY r = (Inr (db_peers ?d), q) \<and> quiet r q"
      using lim(1) id(1) by (simp add: rw)
  qed (use len(1) in simp)
  have roles: "sends e reg (ser_table e (gr_role_count e) (gr_role_list e) zero_role
      (ser_role (host_le e) (realloc_ok e))) (table_wire role_wire (role_rows_of ?d))"
  proof (rule role_rows.sends_table [OF calm])
    fix r assume q: "quiet reg r"
    note rw = db_query_def ok db [OF q] gr_role_count_def gr_role_list_def ps_role_count_def ps_role_list_def role_rows_of_def
    show "gr_role_count e r = (Inr (of_nat (length (role_rows_of ?d))), tick r)"
      by (simp add: rw)
    show "\<exists>q. gr_role_list e (of_nat (length (role_rows_of ?d))) r = (Inr (role_rows_of ?d), q) \<and> quiet r q"
      using lim(2) id(2) by (simp add: rw)
  qed (use len(2) in simp)
  have apps: "sends e reg (ser_table e (gr_webapp_count e) (gr_webapp_list e) zero_webapp
      (ser_webapp (host_le e) (realloc_ok e))) (table_wire webapp_wire (db_webapps ?d))"
  proof (rule webapp_rows.sends_table [OF calm])
    fix r assume q: "quiet reg r"
    show "gr_webapp_count e r = (Inr (of_nat (length (db_webapps ?d))), tick r)"
      by (simp add: gr_webapp_count_def db_query_def ok db [OF q] ps_webapp_count_def)
    obtain q' where "webapp_read_rows e (db_webapps ?d) (tick r) = (db_webapps ?d, q')" "quiet (tick r) q'"
      using webapp_rows_back [OF calm wf(3)] by blast
    then show "\<exists>q. gr_webapp_list e (of_nat (length (db_webapps ?d))) r = (Inr (db_webapps ?d), q) \<and> quiet r q"
      using lim(3) by (simp add: gr_webapp_list_def db_query_def ok db [OF q] ps_webapp_list_def quiet_trans [OF quiet_tick])
  qed (use len(3) in simp)
  have server: "sends e reg (ser_table e (gr_server_count e t) (gr_server_list e t) zero_server
      (ser_server (host_le e) (realloc_ok e) mode)) (table_wire (server_row_wire mode) (server_rows_of t ?d))"
    if "length (server_rows_of t ?d) < 2 ^ 31" for t
  proof (rule server_rows.sends_table [OF calm])
    fix r assume q: "quiet reg r"
    note rw = db_query_def ok db [OF q] gr_server_count_def gr_server_list_def ps_server_count_def ps_server_list_def
      server_rows_of_def tbl_count_def
    show "gr_server_count e t r = (Inr (of_nat (length (server_rows_of t ?d))), tick r)" by (simp add: rw)
    show "\<exists>q. gr_server_list e t (of_nat (length (server_rows_of t ?d))) r = (Inr (server_rows_of t ?d), q) \<and> quiet r q"
      using limit_all [OF that] id(3) [of t] by (simp add: rw)
  qed (use that in simp)
  have nil: "sends e reg (\<lambda>st r. (Inr st, r)) []"
    by (auto simp: sends_def intro: emitted_refl)
  have types: "sends e reg (ser_server_types e mode [0..<GR_SERVER_TYPE_COUNT])
      (table_wire (server_row_wire mode) (server_rows_of 0 ?d) @ table_wire (server_row_wire mode) (server_rows_of 1 ?d) @ [])"
  proof -
    have "ser_server_types e mode [] = (\<lambda>st r. (Inr st, r))" by (intro ext) simp
    moreover have "ser_server_types e mode (t # ts) = (\<lambda>st r. q_bind (ser_table e (gr_server_count e (of_nat t))
        (gr_server_list e (of_nat t)) zero_server (ser_server (host_le e) (realloc_ok e) mode) st r) (ser_server_types e mode ts))" for t ts
      by (intro ext) simp
    moreover have "[0..<GR_SERVER_TYPE_COUNT] = [0, 1]" by (simp add: upt_rec numeral_2_eq_2)
    ultimately show ?thesis using sends_bind [OF server [OF len(4)] sends_bind [OF server [OF len(5)] nil]] by simp
  qed
  have epochs: "sends e reg (ser_table e (gr_epoch_count e) (gr_epoch_list e) zero_epoch
      (ser_epoch (host_le e) (realloc_ok e))) (table_wire epoch_wire (epoch_rows_of ?d))"
  proof (rule epoch_rows.sends_table [OF calm])
    fix r assume q: "quiet reg r"
    note rw = db_query_def ok db [OF q] gr_epoch_count_def gr_epoch_list_def ps_epoch_count_def ps_epoch_list_def epoch_rows_of_def
    show "gr_epoch_count e r = (Inr (of_nat (length (epoch_rows_of ?d))), tick r)"
      by (simp add: rw)
    show "\<exists>q. gr_epoch_list e (of_nat (length (epoch_rows_of ?d))) r = (Inr (epoch_rows_of ?d), q) \<and> quiet r q"
      using lim(6) by (simp add: rw)
  qed (use len(6) in simp)
  show ?thesis unfolding ser_entities_def [abs_def] entities_wire_def
    by (rule sends_bind [OF peers sends_bind [OF roles sends_bind [OF apps sends_bind [OF types epochs]]]])
qed

section \<open>Sending\<close>

definition delta_wire :: "u32 \<Rightarrow> gr_registrar \<Rightarrow> bytes" where
  "delta_wire since reg = ((cstr ''GRDT'' @ le_bytes 4 (4 :: u32) @ le_bytes 4 since @ []) @ header_wire (reg_header reg))
     @ entities_wire GR_SERIALIZE_FULL (reg_db reg) @ table_wire audit_wire (ps_audit_delta since (reg_db reg))"

definition full_wire :: "gr_serialize_mode_t \<Rightarrow> gr_registrar \<Rightarrow> bytes" where
  "full_wire mode reg = ((cstr ''GREG'' @ le_bytes 4 (4 :: u32) @ [if mode = GR_SERIALIZE_FULL then 0 else 1] @ [])
     @ header_wire (reg_header reg)) @ entities_wire mode (reg_db reg) @ table_wire audit_wire (audit_rows_of (reg_db reg))"

lemma le_bytes_4: "le_bytes 4 (n :: u32) = [ucast (and n 0xFF), ucast (and (drop_bit 8 n) 0xFF),
    ucast (and (drop_bit 16 n) 0xFF), ucast (and (drop_bit 24 n) 0xFF)]"
proof -
  have "ucast (and m 0xFF) = (ucast m :: byte)" for m :: u32
    by (rule bit_word_eqI) (auto simp: bit_ucast_iff bit_and_iff bit_simps numeral_eq_Suc less_Suc_eq)
  then show ?thesis by (simp add: le_bytes_def upt_bytes)
qed

lemma patch_counts:
  assumes "buf_inv b" and "buf_bytes b = d0 @ le_bytes 4 (0 :: u32) @ rest"
  shows "buf_bytes (patch_u32 (length d0) n b) = d0 @ le_bytes 4 n @ rest
    \<and> buf_error (patch_u32 (length d0) n b) = buf_error b"
proof -
  obtain d where d: "buf_data b = Some d" using assms(1) by (auto simp: buf_inv_def)
  then have "d = d0 @ le_bytes 4 (0 :: u32) @ rest" using assms(2) by (simp add: buf_bytes_def)
  then show ?thesis using d by (simp add: patch_u32_def buf_bytes_def le_bytes_4 list_update_append)
qed

lemma fresh_room: "gr_buf_init True cap = Some b \<Longrightarrow> 0 < cap \<Longrightarrow> unat cap < 2 ^ 63 \<Longrightarrow> n < 2 ^ 62 \<Longrightarrow>
    buf_room b n \<and> \<not> buf_error b \<and> buf_bytes b = []"
  by (auto simp: gr_buf_init_def buf_room_def buf_inv_def buf_bytes_def)

lemma emitted_calm: "emitted (realloc_ok e) d b b' \<Longrightarrow> calm e \<Longrightarrow> \<not> buf_error b \<Longrightarrow>
    \<not> buf_error b' \<and> buf_bytes b' = buf_bytes b @ d \<and> buf_inv b'"
  unfolding emitted_def calm_def by blast

lemma delta_travels:
  assumes calm: "calm e" and fit: "rows_fit reg" and small: "length (delta_wire since reg) < 2 ^ 31"
  shows "\<exists>q. gr_serialize_delta e since True reg = (Inr (delta_wire since reg), q) \<and> quiet reg q"
proof -
  let ?rows = "ps_audit_delta since (reg_db reg)" and ?h = "host_le e" and ?ra = "realloc_ok e"
  let ?head = "(cstr ''GRDT'' @ le_bytes 4 (4 :: u32) @ le_bytes 4 since @ []) @ header_wire (reg_header reg)"
  let ?ents = "entities_wire GR_SERIALIZE_FULL (reg_db reg)" and ?tail = "(le_bytes 4 (0 :: u32) @ []) @ concat (map audit_wire ?rows)"
  let ?wh = "wthen (ser_seq [gr_buf_write ?ra DELTA_MAGIC, gr_buf_write_u32 ?h ?ra SERIAL_VERSION,
    gr_buf_write_u32 ?h ?ra since]) (ser_header ?h ?ra (reg_header reg))"
  let ?wt = "wthen (ser_seq [gr_buf_write_u32 ?h ?ra 0]) (ser_each (ser_audit ?h ?ra) ?rows)"
  have len: "length ?head + (length ?ents + length ?tail) < 2 ^ 31" using small by (simp add: delta_wire_def table_wire_def)
  obtain b0 where b0: "gr_buf_init True 8192 = Some b0" by (simp add: gr_buf_init_def)
  have r0: "buf_room b0 (length ?head + (length ?ents + length ?tail))" "\<not> buf_error b0" "buf_bytes b0 = []"
    using fresh_room [OF b0, of "length ?head + (length ?ents + length ?tail)"] len by simp_all
  have "emits ?ra ?wh ?head" by (intro emits_wthen emits_rows emits_fields)
  moreover have "buf_room b0 (length ?head)" using r0(1) by (simp add: buf_room_def)
  ultimately obtain b1 where b1: "?wh b0 = Some b1" "emitted ?ra ?head b0 b1" unfolding emits_def by blast
  have r1: "buf_room b1 (length ?ents + length ?tail)" by (rule emitted_room [OF b1(2) r0(1)])
  then have "buf_room b1 (length ?ents)" by (simp add: buf_room_def)
  moreover have "length ?ents < 2 ^ 31" using len by simp
  note sends_entities [OF calm fit this]
  ultimately obtain n b2 q2 where b2: "ser_entities e GR_SERIALIZE_FULL (mem_word ?h (uninit e (reg_calls reg) 4), b1) (tick reg)
      = (Inr (n, b2), q2)" "emitted ?ra ?ents b1 b2" "quiet reg q2"
    unfolding sends_def by (metis quiet_tick snd_conv)
  have "emits ?ra ?wt ?tail" by (intro emits_wthen emits_each emits_rows emits_fields)
  moreover have "buf_room b2 (length ?tail)" by (rule emitted_room [OF b2(2) r1])
  ultimately obtain b3 where b3: "?wt b2 = Some b3" "emitted ?ra ?tail b2 b3" unfolding emits_def by blast
  note e1 = emitted_calm [OF b1(2) calm r0(2)]
  note e2 = emitted_calm [OF b2(2) calm e1 [THEN conjunct1]]
  note e3 = emitted_calm [OF b3(2) calm e2 [THEN conjunct1]]
  have p: "buf_bytes (patch_u32 (length (buf_bytes b2)) (of_nat (length ?rows)) b3) =
      buf_bytes b2 @ le_bytes 4 (of_nat (length ?rows) :: u32) @ concat (map audit_wire ?rows)
      \<and> buf_error (patch_u32 (length (buf_bytes b2)) (of_nat (length ?rows)) b3) = buf_error b3"
    by (rule patch_counts) (use e3 in simp_all)
  have "buf_bytes b2 = ?head @ ?ents" using e1 e2 r0(3) by simp
  then have w: "buf_bytes (patch_u32 (length (buf_bytes b2)) (of_nat (length ?rows)) b3) = delta_wire since reg"
    using p by (simp add: delta_wire_def table_wire_def)
  have db: "reg_db q2 = reg_db reg" by (rule quietD(1) [OF b2(3)])
  have "gr_serialize_delta e since True reg = (Inr (delta_wire since reg), tick q2)"
    using b0 b1(1) b2(1) b3(1) w p e3 calmD(1,2) [OF calm]
    by (simp add: gr_serialize_delta_def q_bind_def db_query_def db Let_def)
  then show ?thesis using quiet_trans [OF b2(3) quiet_tick] by blast
qed

lemma q_bind_assoc: "q_bind (q_bind m f) g = q_bind m (\<lambda>v r. q_bind (f v r) g)"
  by (simp add: q_bind_def split: prod.splits sum.splits)

lemma full_travels:
  assumes calm: "calm e" and fit: "rows_fit reg" and small: "length (full_wire mode reg) < 2 ^ 31"
    and stamped: "\<forall>a\<in>set (db_audit (reg_db reg)). 0 < sint (a_timestamp a)"
  shows "\<exists>q. gr_serialize e mode True reg = (Inr (full_wire mode reg), q) \<and> quiet reg q"
proof -
  let ?h = "host_le e" and ?ra = "realloc_ok e" and ?d = "reg_db reg"
  let ?m = "if mode = GR_SERIALIZE_FULL then 0 else 1 :: byte"
  let ?head = "(cstr ''GREG'' @ le_bytes 4 (4 :: u32) @ [?m] @ []) @ header_wire (reg_header reg)"
  let ?body = "entities_wire mode ?d @ table_wire audit_wire (audit_rows_of ?d)"
  let ?wh = "wthen (ser_seq [gr_buf_write ?ra SERIAL_MAGIC, gr_buf_write_u32 ?h ?ra SERIAL_VERSION,
    gr_buf_write_u8 ?ra ?m]) (ser_header ?h ?ra (reg_header reg))"
  let ?audit = "ser_table e (gr_audit_count e) (gr_audit_list e 0) zero_audit (ser_audit ?h ?ra)"
  have len: "length ?head + length ?body < 2 ^ 31" using small by (simp add: full_wire_def)
  have al: "length (audit_rows_of ?d) < 2 ^ 31" using table_small(6) [of "audit_rows_of ?d"] len by simp
  have all: "filter (\<lambda>a. sint (0 :: i64) < sint (a_timestamp a)) (db_audit ?d) = db_audit ?d"
    using stamped by (simp add: filter_id_conv)
  have audit: "sends e reg ?audit (table_wire audit_wire (audit_rows_of ?d))"
  proof (rule audit_rows.sends_table [OF calm])
    fix r assume q: "quiet reg r"
    note rw = db_query_def calmD(1) [OF calm] quietD(1) [OF q] gr_audit_count_def gr_audit_list_def ps_audit_count_def
    show "gr_audit_count e r = (Inr (of_nat (length (audit_rows_of ?d))), tick r)" by (simp add: rw audit_rows_of_def)
    show "\<exists>q. gr_audit_list e 0 (of_nat (length (audit_rows_of ?d))) r = (Inr (audit_rows_of ?d), q) \<and> quiet r q"
      using limit_all [OF al] all by (simp add: rw ps_audit_list_def audit_rows_of_def)
  qed (use al in simp)
  have "length (entities_wire mode ?d) < 2 ^ 31" using len by simp
  note body = sends_bind [OF sends_entities [OF calm fit this] audit]
  obtain b0 where b0: "gr_buf_init True 65536 = Some b0" by (simp add: gr_buf_init_def)
  have r0: "buf_room b0 (length ?head + length ?body)" "\<not> buf_error b0" "buf_bytes b0 = []"
    using fresh_room [OF b0, of "length ?head + length ?body"] len by simp_all
  have "emits ?ra ?wh ?head" by (intro emits_wthen emits_rows emits_fields)
  moreover have "buf_room b0 (length ?head)" using r0(1) by (simp add: buf_room_def)
  ultimately obtain b1 where b1: "?wh b0 = Some b1" "emitted ?ra ?head b0 b1" unfolding emits_def by blast
  have "buf_room (snd (mem_word ?h (uninit e (reg_calls reg) 4) :: u32, b1)) (length ?body)" using emitted_room [OF b1(2) r0(1)] by simp
  then obtain n b2 q2 where b2: "q_bind (ser_entities e mode (mem_word ?h (uninit e (reg_calls reg) 4), b1) (tick reg)) ?audit
      = (Inr (n, b2), q2)" "emitted ?ra ?body b1 b2" "quiet reg q2"
    using body quiet_tick [of reg] unfolding sends_def by (metis snd_conv)
  note e1 = emitted_calm [OF b1(2) calm r0(2)]
  note e2 = emitted_calm [OF b2(2) calm e1 [THEN conjunct1]]
  have "buf_bytes b2 = full_wire mode reg" using e1 e2 r0(3) by (simp add: full_wire_def)
  moreover have "gr_serialize e mode True reg = q_bind (q_bind (ser_entities e mode (mem_word ?h (uninit e (reg_calls reg) 4), b1) (tick reg)) ?audit)
      (\<lambda>st r2. if buf_error (snd st) then (Inl GR_ERR_OUT_OF_MEMORY, r2) else (Inr (buf_bytes (snd st)), r2))"
    using b0 b1(1) calmD(2) [OF calm] by (simp add: gr_serialize_def q_bind_assoc)
  ultimately have "gr_serialize e mode True reg = (Inr (full_wire mode reg), q2)"
    using e2 b2(1) by (simp add: q_bind_def)
  then show ?thesis using b2(3) by blast
qed

section \<open>Receiving a delta\<close>

definition delta_entities :: "gr_registrar \<Rightarrow> delta_state" where
  "delta_entities reg = \<lparr>ds_header = reg_header reg, ds_peers = db_peers (reg_db reg), ds_roles = role_rows_of (reg_db reg),
     ds_webapps = db_webapps (reg_db reg),
     ds_servers = map (server_image GR_SERIALIZE_FULL) (server_rows_of 0 (reg_db reg) @ server_rows_of 1 (reg_db reg)),
     ds_epochs = epoch_rows_of (reg_db reg)\<rparr>"

text \<open>The header a receiver accepts: signed by the key it names itself, and with the group's owner key.\<close>

definition acceptable :: "yumi_env \<Rightarrow> gr_header_t \<Rightarrow> gr_registrar \<Rightarrow> bool" where
  "acceptable e h reg \<longleftrightarrow> mldsa_verify e (h_signature h) (h_hash h) (h_signer_sign_key h)
     \<and> h_owner_sign_key h = h_owner_sign_key (reg_header reg)"

lemma q_bind_fst: "fst m = Inr v \<Longrightarrow> q_bind m f = f v (snd m)"
  by (cases m) (simp add: q_bind_def)

lemma small_parts:
  assumes "length (entities_wire mode d) < 2 ^ 31"
  shows "length (db_peers d) < 2 ^ 31" "length (role_rows_of d) < 2 ^ 31" "length (db_webapps d) < 2 ^ 31"
    "length (server_rows_of 0 d) < 2 ^ 31" "length (server_rows_of 1 d) < 2 ^ 31" "length (epoch_rows_of d) < 2 ^ 31"
  using assms table_small(1) [of "db_peers d"] table_small(2) [of "role_rows_of d"] table_small(3) [of "db_webapps d"]
      table_small(4) [of "server_rows_of 0 d" mode] table_small(4) [of "server_rows_of 1 d" mode] table_small(5) [of "epoch_rows_of d"]
  unfolding entities_wire_def by simp_all

lemma fit_parts:
  assumes "rows_fit reg"
  shows "\<forall>p\<in>set (db_peers (reg_db reg)). wf_peer p" "\<forall>r\<in>set (role_rows_of (reg_db reg)). wf_role r"
    "\<forall>w\<in>set (db_webapps (reg_db reg)). wf_webapp w" "\<forall>s\<in>set (server_rows_of t (reg_db reg)). wf_server s"
    "\<forall>x\<in>set (epoch_rows_of (reg_db reg)). wf_epoch x" "\<forall>a\<in>set (audit_rows_of (reg_db reg)). wf_audit a"
    "\<forall>a\<in>set (ps_audit_delta since (reg_db reg)). wf_audit a" "wf_header (reg_header reg)"
  using assms by (auto simp: rows_fit_def role_rows_of_def server_rows_of_def epoch_rows_of_def audit_rows_of_def ps_audit_delta_def)

lemma webapp_reader: "calm e \<Longrightarrow> de_webapp_at e 4 n = de_webapp (\<lambda>n. True) (\<lambda>n. True) (host_le e) 4"
  by (simp add: de_webapp_at_def calmD)

lemma parse_entities:
  assumes calm: "calm e" and fit: "rows_fit src" and small: "length (entities_wire GR_SERIALIZE_FULL (reg_db src)) < 2 ^ 31"
    and acc: "acceptable e (reg_header src) reg"
  shows "fst (parse_delta_state e 4 (cursor pre (header_wire (reg_header src) @ entities_wire GR_SERIALIZE_FULL (reg_db src) @ post)) reg)
    = Inr (delta_entities src, cursor (pre @ header_wire (reg_header src) @ entities_wire GR_SERIALIZE_FULL (reg_db src)) post)"
proof -
  let ?d = "reg_db src"
  note len = small_parts [OF small] and wf = fit_parts [OF fit]
  have lt: "n < 2 ^ 32" if "n < 2 ^ 31" for n :: nat using that by simp
  note web = webapp_reader [OF calm]
  have hd: "de_header (host_le e) (cursor pre (header_wire (reg_header src) @ x)) =
      (Some (reg_header src), cursor (pre @ header_wire (reg_header src)) x)" for x pre
    by (rule reads_at [OF reads_header [OF wf(8)]])
  note peers = peer_rows.parse_table_wire [OF calm refl wf(1) lt [OF len(1)]]
  note roles = role_rows.parse_table_wire [OF calm refl wf(2) lt [OF len(2)]]
  note apps = webapp_rows.parse_table_wire [OF calm web wf(3) lt [OF len(3)]]
  note servers = server_rows.parse_table_wire [OF calm refl wf(4) lt [OF len(4)]]
    server_rows.parse_table_wire [OF calm refl wf(4) lt [OF len(5)]]
  note epochs = epoch_rows.parse_table_wire [OF calm refl wf(5) lt [OF len(6)]]
  have types: "fst (parse_server_types e GR_SERVER_TYPE_COUNT (cursor pre (table_wire (server_row_wire mode) (server_rows_of 0 ?d)
      @ table_wire (server_row_wire mode) (server_rows_of 1 ?d) @ post)) r) =
    Inr (map (server_image mode) (server_rows_of 0 ?d @ server_rows_of 1 ?d), cursor (pre @ table_wire (server_row_wire mode) (server_rows_of 0 ?d)
      @ table_wire (server_row_wire mode) (server_rows_of 1 ?d)) post)" for mode pre post r
    by (simp add: numeral_2_eq_2 q_bind_fst servers)
  show ?thesis
    using acc by (simp add: parse_delta_state_def hd entities_wire_def acceptable_def q_bind_fst peers roles apps types epochs delta_entities_def)
qed

lemma merge_entry_calm: "calm e \<Longrightarrow> \<exists>mr' q. merge_entry e ds a mr reg = (Inr mr', q)"
proof -
  assume calm: "calm e"
  have acc: "\<exists>mr' q. accept_entry e a mr r = (Inr mr', q)" for r
    by (simp add: accept_entry_def db_exec_def ps_audit_insert_def calmD(1) [OF calm] Let_def split: prod.splits)
  show ?thesis
    by (simp add: merge_entry_def reject_entry_def db_query_def calmD(1,4) [OF calm] acc split: prod.splits sum.splits)
qed

lemma merge_entries_wire:
  assumes "calm e" and "\<forall>a\<in>set rows. wf_audit a"
  shows "\<exists>mr' q. merge_entries e 4 ds (length rows) (cursor pre (concat (map audit_wire rows) @ post)) mr reg = (Inr mr', q)"
  using assms(2)
proof (induction rows arbitrary: pre mr reg)
  case (Cons a rows)
  have r: "de_audit (host_le e) 4 (cursor pre (audit_wire a @ concat (map audit_wire rows) @ post)) =
      (Some a, cursor (pre @ audit_wire a) (concat (map audit_wire rows) @ post))"
    using Cons.prems by (intro reads_at [OF reads_audit]) simp
  obtain mr1 q1 where 1: "merge_entry e ds a mr reg = (Inr mr1, q1)" using merge_entry_calm [OF assms(1)] by blast
  show ?case using Cons.IH [of "pre @ audit_wire a" mr1 q1] Cons.prems r 1 by (simp add: q_bind_def)
qed simp

text \<open>How a delta that follows the format is run.\<close>

lemma delta_run:
  assumes calm: "calm e" and fit: "rows_fit src" and cap: "length (delta_wire since src) \<le> GR_DELTA_MAX_BYTES"
    and acc: "acceptable e (reg_header src) reg"
  shows "delta_sender e f (delta_wire since src) reg = Some (delta_entities src)
    \<and> (\<exists>pre q. quiet reg q \<and> gr_apply_delta e f (Some (delta_wire since src)) reg =
      q_bind (with_txn_val e (delta_body e 4 (Some (delta_entities src)) (of_nat (length (ps_audit_delta since (reg_db src))))
        (cursor pre (concat (map audit_wire (ps_audit_delta since (reg_db src)))))) q)
        (\<lambda>mr reg. (Inr mr, with_retention e mr reg)))"
proof -
  let ?d = "reg_db src" and ?rows = "ps_audit_delta since (reg_db src)"
  let ?ents = "entities_wire GR_SERIALIZE_FULL ?d" and ?h0 = "cstr ''GRDT'' @ le_bytes 4 (4 :: u32) @ le_bytes 4 since"
  have wire: "delta_wire since src = ?h0 @ header_wire (reg_header src) @ ?ents @ table_wire audit_wire ?rows"
    by (simp add: delta_wire_def)
  have ents: "length ?ents < 2 ^ 31" using cap by (simp add: wire)
  have rows: "length ?rows < 2 ^ 31" using cap table_small(6) [of ?rows] by (simp add: wire)
  have magic: "reads (gr_read_bytes 4) (cstr ''GRDT'') (cstr ''GRDT'')" by (rule reads_bytes) (simp add: cstr_def)
  have "reads (de_delta_head (host_le e)) (cstr ''GRDT'' @ le_bytes 4 (4 :: u32) @ le_bytes 4 since @ []) (4, since)"
    unfolding de_delta_head_def
    by (rule reads_bind [OF magic], simp only: simp_thms if_False, rule reads_bind [OF reads_u32], simp only: order.irrefl if_False,
        rule reads_bind [OF reads_u32 reads_return])
  note head = reads_at [OF this, where pre = "[]", unfolded append_Nil2 append_Nil]
  have start: "\<lparr>rd_data = delta_wire since src, rd_pos = 0\<rparr> = cursor [] (?h0 @ header_wire (reg_header src) @ ?ents @ table_wire audit_wire ?rows)"
    by (simp add: cursor_def wire)
  have big: "delta_too_big e f (length (delta_wire since src)) reg = (False, reg)" using cap by (simp add: delta_too_big_def)
  have hd: "de_delta_head (host_le e) \<lparr>rd_data = delta_wire since src, rd_pos = 0\<rparr> =
      (Some (4, since), cursor ?h0 (header_wire (reg_header src) @ ?ents @ table_wire audit_wire ?rows))"
    unfolding start using head [of "header_wire (reg_header src) @ ?ents @ table_wire audit_wire ?rows"] by simp
  obtain s where st: "parse_delta_state e 4 (cursor ?h0 (header_wire (reg_header src) @ ?ents @ table_wire audit_wire ?rows)) reg =
      (Inr (delta_entities src, cursor (?h0 @ header_wire (reg_header src) @ ?ents) (table_wire audit_wire ?rows)), s)"
    using parse_entities [OF calm fit ents acc, of ?h0 "table_wire audit_wire ?rows"] by (metis prod.collapse)
  have q: "quiet reg s" using quiet_parse_state [of reg e 4] st by (metis snd_conv)
  have n: "unat (of_nat (length ?rows) :: u32) = length ?rows" using rows by (simp add: unat_of_nat)
  have "length ?rows \<le> length (concat (map audit_wire ?rows))" by (rule audit_rows.rows_fill)
  then have parsed: "delta_parsed e 4 (Some (delta_entities src), cursor (?h0 @ header_wire (reg_header src) @ ?ents) (table_wire audit_wire ?rows)) s
    = q_bind (with_txn_val e (delta_body e 4 (Some (delta_entities src)) (of_nat (length ?rows))
        (cursor ((?h0 @ header_wire (reg_header src) @ ?ents) @ le_bytes 4 (of_nat (length ?rows) :: u32)) (concat (map audit_wire ?rows)))) s)
        (\<lambda>mr reg. (Inr mr, with_retention e mr reg))"
    by (simp add: delta_parsed_def table_wire_def n with_retention_def)
  have run: "gr_apply_delta e f (Some (delta_wire since src)) reg =
      delta_parsed e 4 (Some (delta_entities src), cursor (?h0 @ header_wire (reg_header src) @ ?ents) (table_wire audit_wire ?rows)) s"
    by (simp add: gr_apply_delta_def big hd st q_bind_def)
  have snd: "delta_sender e f (delta_wire since src) reg = Some (delta_entities src)"
    by (simp add: delta_sender_def hd big st)
  show ?thesis by (rule conjI [OF snd]) (rule exI, rule exI, rule conjI [OF q], unfold run, rule parsed)
qed

lemma delta_arrives:
  assumes calm: "calm e" and fit: "rows_fit src" and cap: "length (delta_wire since src) \<le> GR_DELTA_MAX_BYTES"
    and acc: "acceptable e (reg_header src) reg" and idle: "idle reg"
  shows "\<exists>mr r. gr_apply_delta e f (Some (delta_wire since src)) reg = (Inr mr, r)"
proof -
  let ?rows = "ps_audit_delta since (reg_db src)"
  from delta_run [OF calm fit cap acc, of f] obtain pre q where q: "quiet reg q"
    "gr_apply_delta e f (Some (delta_wire since src)) reg =
      q_bind (with_txn_val e (delta_body e 4 (Some (delta_entities src)) (of_nat (length ?rows)) (cursor pre (concat (map audit_wire ?rows)))) q)
        (\<lambda>mr reg. (Inr mr, with_retention e mr reg))" by blast
  have rows: "length ?rows < 2 ^ 31" using cap table_small(6) [of ?rows] by (simp add: delta_wire_def)
  then have n: "unat (of_nat (length ?rows) :: u32) = length ?rows" by (simp add: unat_of_nat)
  have i: "idle q" using quietD(8) [OF q(1)] idle by simp
  have "\<exists>v r1. delta_body e 4 (Some (delta_entities src)) (of_nat (length ?rows)) (cursor pre (concat (map audit_wire ?rows))) r = (Inr v, r1) \<and> True"
    if t: "in_txn (reg_db q) (reg_header q) r" for r
  proof -
    obtain mr1 r1 where 1: "merge_entries e 4 (Some (delta_entities src)) (length ?rows) (cursor pre (concat (map audit_wire ?rows)))
        (merge_result_zero\<lparr>entries_received := of_nat (length ?rows)\<rparr>) r = (Inr mr1, r1)"
      using merge_entries_wire [OF calm fit_parts(7) [OF fit], of _ _ pre "[]"] by (metis append_Nil2)
    obtain mr2 r2 where 2: "merged e (Some (delta_entities src)) mr1 r1 = (mr2, r2)"
      by (cases "merged e (Some (delta_entities src)) mr1 r1")
    have "txn_kept r r1" using kept_merge_entries [of r e 4 "Some (delta_entities src)" "length ?rows"] 1 by (metis snd_conv)
    moreover have "txn_kept r1 r2" using kept_merged [of r1 e "Some (delta_entities src)" mr1] 2 by simp
    ultimately have "in_txn (reg_db q) (reg_header q) r2" using t by (meson txn_kept_in_txn txn_kept_trans)
    from header_save_smooth [OF calmD(7) [OF calm] this] obtain r3 where "gr_header_save e r2 = (GR_OK, r3)"
      by (metis fst_conv prod.collapse)
    moreover have "merge_state e (delta_entities src) mr1 r1 = (mr2, r2)" using 2 by (simp add: merged_def)
    ultimately show ?thesis using 1 by (simp add: delta_body_def q_bind_def n Let_def)
  qed
  from txn_val_smooth [OF calmD(7) [OF calm] i txn_delta_body, where P = "\<lambda>v. True"] this
  obtain v r where "with_txn_val e (delta_body e 4 (Some (delta_entities src)) (of_nat (length ?rows)) (cursor pre (concat (map audit_wire ?rows)))) q
      = (Inr v, r)" by blast
  then show ?thesis using q(2) by (simp add: q_bind_def)
qed

end
