(* ===== verification/Replication.thy ===== *)
theory Replication imports Sync_Trip
begin

text \<open>
  The properties of synchronisation (\<open>src/src/group_registrar/serialize.c\<close>): what a full registrar and
  a delta carry over, what replicas agree on, and where the receiver trusts the sender.
\<close>

section \<open>Installing a whole registrar\<close>

lemma ins_rows_append:
  assumes ins: "\<And>v d. key v \<notin> key ` set (sel d) \<Longrightarrow> \<exists>n. ins v d = Some (n, upd (sel d @ [v]) d)"
    and sel: "\<And>t d. sel (upd t d) = t" and upd: "\<And>t t' d. upd t (upd t' d) = upd t d" and self: "\<And>d. upd (sel d) d = d"
    and "distinct (map key (sel d @ vs))"
  shows "ins_rows ins vs d = Some (upd (sel d @ vs) d)"
  using assms(5)
proof (induction vs arbitrary: d)
  case (Cons v vs)
  then have "key v \<notin> key ` set (sel d)" by auto
  from ins [OF this] obtain n where n: "ins v d = Some (n, upd (sel d @ [v]) d)" by blast
  have "ins_rows ins vs (upd (sel d @ [v]) d) = Some (upd (sel d @ v # vs) d)"
    using Cons.IH [of "upd (sel d @ [v]) d"] Cons.prems by (simp add: sel upd)
  then show ?case by (simp add: n)
qed (simp add: self)

lemma ins_tables:
  "distinct (map p_peer_id (db_peers d @ vs1)) \<Longrightarrow> ins_rows ps_peer_insert vs1 d = Some (d\<lparr>db_peers := db_peers d @ vs1\<rparr>)"
  "distinct (map r_role_id (db_roles d @ vs2)) \<Longrightarrow> ins_rows ps_role_insert vs2 d = Some (d\<lparr>db_roles := db_roles d @ vs2\<rparr>)"
  "distinct (map w_hash (db_webapps d @ vs3)) \<Longrightarrow> ins_rows ps_webapp_insert vs3 d = Some (d\<lparr>db_webapps := db_webapps d @ vs3\<rparr>)"
  "distinct (map s_id_hash (db_servers d @ vs4)) \<Longrightarrow> ins_rows ps_server_insert vs4 d = Some (d\<lparr>db_servers := db_servers d @ vs4\<rparr>)"
  "distinct (map e_epoch_id (db_epochs d @ vs5)) \<Longrightarrow> ins_rows ps_epoch_insert vs5 d = Some (d\<lparr>db_epochs := db_epochs d @ vs5\<rparr>)"
  "distinct (map a_entry_hash (db_audit d @ vs6)) \<Longrightarrow> ins_rows ps_audit_insert vs6 d = Some (d\<lparr>db_audit := db_audit d @ vs6\<rparr>)"
proof -
  note defs = sql_insert_def tbl_insert_def tbl_insert_ignore_def
  show "distinct (map p_peer_id (db_peers d @ vs1)) \<Longrightarrow> ins_rows ps_peer_insert vs1 d = Some (d\<lparr>db_peers := db_peers d @ vs1\<rparr>)"
    by (rule ins_rows_append [where key = p_peer_id and sel = db_peers and upd = "\<lambda>t. db_peers_update (\<lambda>_. t)"])
       (simp_all add: ps_peer_insert_def defs)
  show "distinct (map r_role_id (db_roles d @ vs2)) \<Longrightarrow> ins_rows ps_role_insert vs2 d = Some (d\<lparr>db_roles := db_roles d @ vs2\<rparr>)"
    by (rule ins_rows_append [where key = r_role_id and sel = db_roles and upd = "\<lambda>t. db_roles_update (\<lambda>_. t)"])
       (simp_all add: ps_role_insert_def defs)
  show "distinct (map w_hash (db_webapps d @ vs3)) \<Longrightarrow> ins_rows ps_webapp_insert vs3 d = Some (d\<lparr>db_webapps := db_webapps d @ vs3\<rparr>)"
    by (rule ins_rows_append [where key = w_hash and sel = db_webapps and upd = "\<lambda>t. db_webapps_update (\<lambda>_. t)"])
       (simp_all add: ps_webapp_insert_def defs)
  show "distinct (map s_id_hash (db_servers d @ vs4)) \<Longrightarrow> ins_rows ps_server_insert vs4 d = Some (d\<lparr>db_servers := db_servers d @ vs4\<rparr>)"
    by (rule ins_rows_append [where key = s_id_hash and sel = db_servers and upd = "\<lambda>t. db_servers_update (\<lambda>_. t)"])
       (simp_all add: ps_server_insert_def defs)
  show "distinct (map e_epoch_id (db_epochs d @ vs5)) \<Longrightarrow> ins_rows ps_epoch_insert vs5 d = Some (d\<lparr>db_epochs := db_epochs d @ vs5\<rparr>)"
    by (rule ins_rows_append [where key = e_epoch_id and sel = db_epochs and upd = "\<lambda>t. db_epochs_update (\<lambda>_. t)"])
       (simp_all add: ps_epoch_insert_def defs)
  show "distinct (map a_entry_hash (db_audit d @ vs6)) \<Longrightarrow> ins_rows ps_audit_insert vs6 d = Some (d\<lparr>db_audit := db_audit d @ vs6\<rparr>)"
    by (rule ins_rows_append [where key = a_entry_hash and sel = db_audit and upd = "\<lambda>t. db_audit_update (\<lambda>_. t)"])
       (simp_all add: ps_audit_insert_def defs)
qed

lemma clear_db:
  assumes "calm e"
  shows "reg_db (clear_tables e reg) = (reg_db reg)\<lparr>db_peers := [], db_roles := [], db_webapps := [], db_servers := [],
      db_epochs := [], db_audit := []\<rparr> \<and> reg_header (clear_tables e reg) = reg_header reg"
  by (simp add: clear_tables_def db_raw_def calmD(1) [OF assms])

text \<open>The tables that are installed.\<close>

definition installed_db :: "gr_serialize_mode_t \<Rightarrow> gr_registrar \<Rightarrow> gr_db \<Rightarrow> gr_db" where
  "installed_db mode src d = d\<lparr>db_peers := db_peers (reg_db src), db_roles := role_rows_of (reg_db src),
     db_webapps := db_webapps (reg_db src),
     db_servers := map (server_image mode) (server_rows_of 0 (reg_db src) @ server_rows_of 1 (reg_db src)),
     db_epochs := epoch_rows_of (reg_db src), db_audit := audit_rows_of (reg_db src)\<rparr>"

lemma distinct_sort: "distinct (map f t) \<Longrightarrow> distinct (map f (sort_key g t))"
  by (metis distinct_map distinct_sort set_sort)

lemma server_image_key: "s_id_hash (server_image mode s) = s_id_hash s"
  by (simp add: server_image_def)

lemma keys_of_sent:
  assumes "db_keys_ok d"
  shows "distinct (map p_peer_id (db_peers d))" "distinct (map r_role_id (role_rows_of d))" "distinct (map w_hash (db_webapps d))"
    "distinct (map s_id_hash (map (server_image mode) (server_rows_of 0 d @ server_rows_of 1 d)))"
    "distinct (map e_epoch_id (epoch_rows_of d))" "distinct (map a_entry_hash (audit_rows_of d))"
proof -
  have s: "distinct (map s_id_hash (db_servers d))" using assms by (simp add: db_keys_ok_def tbl_inv_def)
  have "map s_id_hash (map (server_image mode) (server_rows_of 0 d @ server_rows_of 1 d)) = map s_id_hash (server_rows_of 0 d @ server_rows_of 1 d)"
    by (simp add: server_image_key)
  moreover have "distinct (map s_id_hash (server_rows_of 0 d @ server_rows_of 1 d))"
    unfolding distinct_map
  proof
    show "distinct (server_rows_of 0 d @ server_rows_of 1 d)"
      using s by (auto simp: distinct_map server_rows_of_def)
    show "inj_on s_id_hash (set (server_rows_of 0 d @ server_rows_of 1 d))"
      by (rule inj_on_subset [of _ "set (db_servers d)"]) (use s in \<open>auto simp: distinct_map server_rows_of_def\<close>)
  qed
  ultimately show "distinct (map s_id_hash (map (server_image mode) (server_rows_of 0 d @ server_rows_of 1 d)))" by (simp only:)
qed (use assms in \<open>simp_all add: db_keys_ok_def tbl_inv_def role_rows_of_def epoch_rows_of_def audit_rows_of_def distinct_sort\<close>)

lemma load_installs:
  assumes calm: "calm e" and fit: "rows_fit src" and keys: "db_keys_ok (reg_db src)"
    and small: "length (full_wire mode src) < 2 ^ 31"
    and empty: "db_peers (reg_db reg) = []" "db_roles (reg_db reg) = []" "db_webapps (reg_db reg) = []"
      "db_servers (reg_db reg) = []" "db_epochs (reg_db reg) = []" "db_audit (reg_db reg) = []"
  shows "\<exists>c q. load_entities e 4 (cursor pre (entities_wire mode (reg_db src) @ table_wire audit_wire (audit_rows_of (reg_db src)))) reg
      = (Inr c, q) \<and> reg_db q = installed_db mode src (reg_db reg) \<and> reg_header q = reg_header reg"
proof -
  let ?s = "reg_db src" and ?d = "reg_db reg"
  have ents: "length (entities_wire mode ?s) < 2 ^ 31" using small by (simp add: full_wire_def)
  have al: "length (audit_rows_of ?s) < 2 ^ 32" using table_small(6) [of "audit_rows_of ?s"] small by (simp add: full_wire_def)
  note len = small_parts [OF ents] and wf = fit_parts [OF fit] and ks = keys_of_sent [OF keys]
  have lt: "n < 2 ^ 32" if "n < 2 ^ 31" for n :: nat using that by simp
  let ?d1 = "?d\<lparr>db_peers := db_peers ?s\<rparr>" and ?va = "map (server_image mode) (server_rows_of 0 ?s)"
  let ?vb = "map (server_image mode) (server_rows_of 1 ?s)"
  let ?d2 = "?d1\<lparr>db_roles := role_rows_of ?s\<rparr>"
  let ?d3 = "?d2\<lparr>db_webapps := db_webapps ?s\<rparr>"
  let ?d4 = "?d3\<lparr>db_servers := ?va\<rparr>"
  let ?d5 = "?d3\<lparr>db_servers := ?va @ ?vb\<rparr>"
  let ?d6 = "?d5\<lparr>db_epochs := epoch_rows_of ?s\<rparr>"
  have ins: "ins_rows ps_peer_insert (map (\<lambda>p. p) (db_peers ?s)) ?d = Some ?d1"
    "ins_rows ps_role_insert (map (\<lambda>p. p) (role_rows_of ?s)) ?d1 = Some ?d2"
    "ins_rows ps_webapp_insert (map (\<lambda>p. p) (db_webapps ?s)) ?d2 = Some ?d3"
    "ins_rows ps_server_insert ?va ?d3 = Some ?d4" "ins_rows ps_server_insert ?vb ?d4 = Some ?d5"
    "ins_rows ps_epoch_insert (map (\<lambda>p. p) (epoch_rows_of ?s)) ?d5 = Some ?d6"
    "ins_rows ps_audit_insert (map (\<lambda>p. p) (audit_rows_of ?s)) ?d6 = Some (?d6\<lparr>db_audit := audit_rows_of ?s\<rparr>)"
    using ks empty ins_tables(1) [of ?d "db_peers ?s"] ins_tables(2) [of ?d1 "role_rows_of ?s"] ins_tables(3) [of ?d2 "db_webapps ?s"]
      ins_tables(4) [of ?d3 ?va] ins_tables(4) [of ?d4 ?vb] ins_tables(5) [of ?d5 "epoch_rows_of ?s"] ins_tables(6) [of ?d6 "audit_rows_of ?s"]
    by simp_all
  let ?w1 = "table_wire peer_wire (db_peers ?s)" and ?w2 = "table_wire role_wire (role_rows_of ?s)"
  let ?w3 = "table_wire webapp_wire (db_webapps ?s)" and ?w4 = "table_wire (server_row_wire mode) (server_rows_of 0 ?s)"
  let ?w5 = "table_wire (server_row_wire mode) (server_rows_of 1 ?s)" and ?w6 = "table_wire epoch_wire (epoch_rows_of ?s)"
  let ?w7 = "table_wire audit_wire (audit_rows_of ?s)"
  obtain q1 where 1: "load_table e (\<lambda>n. de_peer (host_le e)) ps_peer_insert (cursor pre (?w1 @ ?w2 @ ?w3 @ ?w4 @ ?w5 @ ?w6 @ ?w7)) reg
      = (Inr (cursor (pre @ ?w1) (?w2 @ ?w3 @ ?w4 @ ?w5 @ ?w6 @ ?w7)), q1)" "reg_db q1 = ?d1" "reg_header q1 = reg_header reg"
    using peer_rows.load_table_wire [OF calm refl wf(1) lt [OF len(1)] ins(1)] by blast
  have i2: "ins_rows ps_role_insert (map (\<lambda>p. p) (role_rows_of ?s)) (reg_db q1) = Some ?d2"
    by (simp only: 1(2) ins(2))
  obtain q2 where 2: "load_table e (\<lambda>n. de_role (host_le e) 4) ps_role_insert (cursor (pre @ ?w1) (?w2 @ ?w3 @ ?w4 @ ?w5 @ ?w6 @ ?w7)) q1
      = (Inr (cursor ((pre @ ?w1) @ ?w2) (?w3 @ ?w4 @ ?w5 @ ?w6 @ ?w7)), q2)" "reg_db q2 = ?d2" "reg_header q2 = reg_header q1"
    using role_rows.load_table_wire [OF calm refl wf(2) lt [OF len(2)] i2] by blast
  have i3: "ins_rows ps_webapp_insert (map (\<lambda>p. p) (db_webapps ?s)) (reg_db q2) = Some ?d3"
    by (simp only: 2(2) ins(3))
  obtain q3 where 3: "load_table e (de_webapp_at e 4) ps_webapp_insert (cursor ((pre @ ?w1) @ ?w2) (?w3 @ ?w4 @ ?w5 @ ?w6 @ ?w7)) q2
      = (Inr (cursor (((pre @ ?w1) @ ?w2) @ ?w3) (?w4 @ ?w5 @ ?w6 @ ?w7)), q3)" "reg_db q3 = ?d3" "reg_header q3 = reg_header q2"
    using webapp_rows.load_table_wire [where rd' = "de_webapp_at e 4", OF calm webapp_reader [OF calm] wf(3) lt [OF len(3)] i3] by blast
  have i4: "ins_rows ps_server_insert (?va) (reg_db q3) = Some ?d4"
    by (simp only: 3(2) ins(4))
  obtain q4 where 4: "load_table e (\<lambda>n. de_server (host_le e)) ps_server_insert (cursor (((pre @ ?w1) @ ?w2) @ ?w3) (?w4 @ ?w5 @ ?w6 @ ?w7)) q3
      = (Inr (cursor ((((pre @ ?w1) @ ?w2) @ ?w3) @ ?w4) (?w5 @ ?w6 @ ?w7)), q4)" "reg_db q4 = ?d4" "reg_header q4 = reg_header q3"
    using server_rows.load_table_wire [OF calm refl wf(4) lt [OF len(4)] i4] by blast
  have i5: "ins_rows ps_server_insert (?vb) (reg_db q4) = Some ?d5"
    by (simp only: 4(2) ins(5))
  obtain q5 where 5: "load_table e (\<lambda>n. de_server (host_le e)) ps_server_insert (cursor ((((pre @ ?w1) @ ?w2) @ ?w3) @ ?w4) (?w5 @ ?w6 @ ?w7)) q4
      = (Inr (cursor (((((pre @ ?w1) @ ?w2) @ ?w3) @ ?w4) @ ?w5) (?w6 @ ?w7)), q5)" "reg_db q5 = ?d5" "reg_header q5 = reg_header q4"
    using server_rows.load_table_wire [OF calm refl wf(4) lt [OF len(5)] i5] by blast
  have i6: "ins_rows ps_epoch_insert (map (\<lambda>p. p) (epoch_rows_of ?s)) (reg_db q5) = Some ?d6"
    by (simp only: 5(2) ins(6))
  obtain q6 where 6: "load_table e (\<lambda>n. de_epoch (host_le e)) ps_epoch_insert (cursor (((((pre @ ?w1) @ ?w2) @ ?w3) @ ?w4) @ ?w5) (?w6 @ ?w7)) q5
      = (Inr (cursor ((((((pre @ ?w1) @ ?w2) @ ?w3) @ ?w4) @ ?w5) @ ?w6) ?w7), q6)" "reg_db q6 = ?d6" "reg_header q6 = reg_header q5"
    using epoch_rows.load_table_wire [OF calm refl wf(5) lt [OF len(6)] i6] by blast
  have i7: "ins_rows ps_audit_insert (map (\<lambda>p. p) (audit_rows_of ?s)) (reg_db q6) = Some (?d6\<lparr>db_audit := audit_rows_of ?s\<rparr>)"
    by (simp only: 6(2) ins(7))
  obtain c q7 where 7: "load_table e (\<lambda>n. de_audit (host_le e) 4) ps_audit_insert (cursor ((((((pre @ ?w1) @ ?w2) @ ?w3) @ ?w4) @ ?w5) @ ?w6) ?w7) q6
      = (Inr c, q7)" "reg_db q7 = ?d6\<lparr>db_audit := audit_rows_of ?s\<rparr>" "reg_header q7 = reg_header q6"
    using audit_rows.load_table_wire [OF calm refl wf(6) al i7, where post = "[]"] unfolding append_Nil2 by blast
  have "load_entities e 4 (cursor pre (?w1 @ ?w2 @ ?w3 @ ?w4 @ ?w5 @ ?w6 @ ?w7)) reg = (Inr c, q7)"
    using 1(1) 2(1) 3(1) 4(1) 5(1) 6(1) 7(1) by (simp add: load_entities_def q_bind_def numeral_2_eq_2)
  then show ?thesis using 7(2,3) 6(3) 5(3) 4(3) 3(3) 2(3) 1(3) by (simp add: entities_wire_def installed_db_def)
qed

lemma body_installs:
  assumes calm: "calm e" and fit: "rows_fit src" and keys: "db_keys_ok (reg_db src)"
    and small: "length (full_wire mode src) < 2 ^ 31"
  shows "\<exists>q. deserialize_body e 4 nh (cursor pre (entities_wire mode (reg_db src) @ table_wire audit_wire (audit_rows_of (reg_db src)))) reg
      = gr_header_save e (q\<lparr>reg_header := nh\<rparr>) \<and> reg_db q = installed_db mode src (reg_db reg) \<and> txn_kept reg q"
proof -
  note cl = clear_db [OF calm, of reg]
  obtain c q where q: "load_entities e 4 (cursor pre (entities_wire mode (reg_db src) @ table_wire audit_wire (audit_rows_of (reg_db src))))
      (clear_tables e reg) = (Inr c, q)" "reg_db q = installed_db mode src (reg_db (clear_tables e reg))"
    using load_installs [OF calm fit keys small, of "clear_tables e reg" pre] cl by auto
  have "txn_kept (clear_tables e reg) q"
    using kept_load_entities [of "clear_tables e reg" e 4] q(1) by (metis snd_conv)
  then have "txn_kept reg q" using txn_kept_trans [OF kept_clear] by blast
  then show ?thesis using q cl
    by (intro exI [of _ q]) (simp add: deserialize_body_def gr_bind_def installed_db_def)
qed

lemma deserialize_installs:
  assumes calm: "calm e" and fit: "rows_fit src" and keys: "db_keys_ok (reg_db src)"
    and small: "length (full_wire mode src) < 2 ^ 31" and acc: "acceptable e (reg_header src) reg" and idle: "idle reg"
    and newer: "h_version (reg_header reg) < h_version (reg_header src)"
  shows "\<exists>r. gr_deserialize e (Some (full_wire mode src)) reg = (GR_OK, r) \<and> idle r
     \<and> reg_db r = (installed_db mode src (reg_db reg))\<lparr>db_header := [reg_header src]\<rparr> \<and> reg_header r = reg_header src"
proof -
  let ?m = "if mode = GR_SERIALIZE_FULL then 0 else 1 :: byte" and ?hd = "reg_header src"
  let ?rest = "entities_wire mode (reg_db src) @ table_wire audit_wire (audit_rows_of (reg_db src))"
  let ?h0 = "cstr ''GREG'' @ le_bytes 4 (4 :: u32) @ [?m] @ header_wire ?hd"
  have magic: "reads (gr_read_bytes 4) (cstr ''GREG'') (cstr ''GREG'')" by (rule reads_bytes) (simp add: cstr_def)
  have "reads (de_blob_head (host_le e)) (cstr ''GREG'' @ le_bytes 4 (4 :: u32) @ [?m] @ header_wire ?hd @ []) (4, ?hd)"
    unfolding de_blob_head_def
    by (rule reads_bind [OF magic], simp only: simp_thms if_False, rule reads_bind [OF reads_u32], simp only: order.irrefl if_False,
        rule reads_bind [OF reads_u8], rule reads_bind [OF reads_header reads_return]) (rule fit_parts(8) [OF fit])
  note head = reads_at [OF this, where pre = "[]", unfolded append_Nil2 append_Nil]
  have start: "\<lparr>rd_data = full_wire mode src, rd_pos = 0\<rparr> = cursor [] (?h0 @ ?rest)"
    by (simp add: cursor_def full_wire_def)
  have hd: "de_blob_head (host_le e) \<lparr>rd_data = full_wire mode src, rd_pos = 0\<rparr> = (Some (4, ?hd), cursor ?h0 ?rest)"
    unfolding start using head [of ?rest] by simp
  let ?body = "deserialize_body e 4 ?hd (cursor ?h0 ?rest)"
  have run: "gr_deserialize e (Some (full_wire mode src)) reg = with_txn e ?body reg"
  proof -
    have "\<not> h_version ?hd \<le> h_version (reg_header reg)" using newer leD by blast
    then show ?thesis using acc unfolding gr_deserialize_def acceptable_def option.case hd prod.case by simp
  qed
  have "fst (with_txn e ?body reg) = GR_OK"
  proof (rule txn_smooth [OF calmD(7) [OF calm] idle txn_deserialize])
    fix r assume t: "in_txn (reg_db reg) (reg_header reg) r"
    obtain q where q: "?body r = gr_header_save e (q\<lparr>reg_header := ?hd\<rparr>)" "txn_kept r q"
      using body_installs [OF calm fit keys small, of ?hd ?h0 r] by blast
    have "in_txn (reg_db reg) (reg_header reg) (q\<lparr>reg_header := ?hd\<rparr>)"
      using txn_kept_in_txn [OF q(2) t] by (simp add: in_txn_def)
    then show "fst (?body r) = GR_OK" unfolding q(1) by (rule header_save_smooth [OF calmD(7) [OF calm]])
  qed
  then obtain r where r: "with_txn e ?body reg = (GR_OK, r)" by (metis prod.collapse)
  from with_txn_ok [OF txn_deserialize calmD(5) [OF calm] idle r] obtain r0 r1 where
    b: "?body r0 = (GR_OK, r1)" "reg_db r0 = reg_db reg" "in_txn (reg_db reg) (reg_header reg) r0"
      "reg_db r = reg_db r1" "reg_header r = reg_header r1" "idle r" by (elim exE conjE)
  obtain q where q: "?body r0 = gr_header_save e (q\<lparr>reg_header := ?hd\<rparr>)" "reg_db q = installed_db mode src (reg_db r0)" "txn_kept r0 q"
    using body_installs [OF calm fit keys small, of ?hd ?h0 r0] by blast
  have t: "in_txn (reg_db reg) (reg_header reg) (q\<lparr>reg_header := ?hd\<rparr>)"
    using txn_kept_in_txn [OF q(3) b(3)] by (simp add: in_txn_def)
  from header_save_effect [OF calmD(5) [OF calm] in_txn_settled [OF t]] b(1) q(1)
  have "reg_db r1 = (reg_db q)\<lparr>db_header := [?hd]\<rparr>" "reg_header r1 = ?hd" by auto
  then show ?thesis using run r b q(2) by simp
qed

section \<open>Errors\<close>

definition no_trace :: "yumi_env \<Rightarrow> gr_registrar \<Rightarrow> gr_registrar \<Rightarrow> bool" where
  "no_trace e reg r \<longleftrightarrow> reg_db r = reg_db reg \<and> idle r \<and> reg_join_state r = reg_join_state reg
     \<and> ((\<forall>n. db_ok e DbCommit n) \<longrightarrow> reg_header r = reg_header reg)"

lemma apply_delta_error:
  assumes rel: "reliable e" and idle: "idle reg" and err: "gr_apply_delta e f data reg = (Inl err, r)"
  shows "no_trace e reg r"
proof -
  have q: "no_trace e reg q" if "quiet reg q" for q using that idle by (simp add: no_trace_def quietD)
  from apply_delta_cases [of e f data reg] show ?thesis
  proof (elim disjE exE conjE)
    fix q err' assume "gr_apply_delta e f data reg = (Inl err', q)" "quiet reg q"
    then show ?thesis using err q by simp
  next
    fix q ver n rd d assume d: "quiet reg q" "gr_apply_delta e f data reg =
        q_bind (with_txn_val e (delta_body e ver (delta_sender e f d reg) n rd) q) (\<lambda>mr reg. (Inr mr, with_retention e mr reg))"
    let ?b = "delta_body e ver (delta_sender e f d reg) n rd"
    have v: "with_txn_val e ?b q = (Inl err, r)"
      using err unfolding d(2) by (cases "with_txn_val e ?b q") (auto simp: q_bind_def split: sum.splits)
    then have w: "with_txn e (\<lambda>r. err_of (?b r)) q = (err, r)"
      using err_of_txn_val [of ?b e q] no_ok_delta_body by (metis err_of_simps(1))
    have "err \<noteq> GR_OK" using txn_val_no_ok [of ?b e q r] no_ok_delta_body v by metis
    moreover have i: "idle q" using quietD(8) [OF d(1)] idle by simp
    ultimately have "no_trace e q r"
      using atomic_opD [OF atomic_txn [OF txn_delta_body] rel i, of ver "delta_sender e f d reg" n rd] w
      by (simp add: atomic_res_def no_trace_def)
    then show ?thesis using d(1) by (simp add: no_trace_def quietD)
  qed
qed

text \<open>
  C25. Error.  A full registrar or a delta that is not accepted leaves no trace: the database is as
  before, no transaction is open, and (when commits do not fail) so is the header.
\<close>

theorem sync_errors_leave_no_trace:
  assumes "reliable e" and "idle reg"
  shows "(\<forall>err r. gr_deserialize e data reg = (err, r) \<and> err \<noteq> GR_OK \<longrightarrow> no_trace e reg r)
    \<and> (\<forall>err r. gr_apply_delta e f data reg = (Inl err, r) \<longrightarrow> no_trace e reg r)"
  using atomic_opD [OF atomic_deserialize assms, of data] apply_delta_error [OF assms]
  by (auto simp: atomic_res_def no_trace_def)

theorem sync_errors_leave_no_trace_witness:
  "fst (gr_deserialize demo_env (Some [71]) demo_reg) = GR_ERR_SERIALIZATION
   \<and> no_trace demo_env demo_reg (snd (gr_deserialize demo_env (Some [71]) demo_reg))"
proof -
  have r: "gr_deserialize demo_env (Some [71]) demo_reg = (GR_ERR_SERIALIZATION, demo_reg)"
    by (simp add: gr_deserialize_def de_blob_head_def rbind_def gr_read_bytes_def)
  have "reliable demo_env" by (rule demo_reliable)
  from conjunct1 [OF sync_errors_leave_no_trace [OF this demo_idle, of "Some [71]"], rule_format, of GR_ERR_SERIALIZATION demo_reg] r
  show ?thesis by simp
qed

section \<open>What a delta adds\<close>


text \<open>Two replicas of one group for the witnesses: they differ in a peer and a role.\<close>

definition replica :: "u32 \<Rightarrow> gr_peer_t list \<Rightarrow> gr_role_t list \<Rightarrow> gr_registrar" where
  "replica v ps rs = (fresh_handle (empty_db\<lparr>db_header := [zero_header\<lparr>h_version := v\<rparr>], db_peers := ps, db_roles := rs\<rparr>) 0)
     \<lparr>reg_header := zero_header\<lparr>h_version := v\<rparr>\<rparr>"

definition sample_role :: "u32 \<Rightarrow> i64 \<Rightarrow> gr_role_t" where
  "sample_role perms modified = \<lparr>r_role_id = 1, r_name = [109], r_permissions = perms,
     r_sign_key = replicate GR_PUBLIC_KEY_LEN 0, r_created_at = 0, r_modified_at = modified\<rparr>"

definition replica_a :: gr_registrar where
  "replica_a = replica 3 [full_peer zero_id []] [sample_role 1 7]"

definition replica_b :: gr_registrar where
  "replica_b = replica 2 [full_peer (replicate 32 1) [49]] [sample_role 2 5]"

lemma demo_calm: "calm demo_env"
  by (simp add: calm_def smooth_def resourceful_def demo_env_def)

lemma replica_simps [simp]:
  "reg_header (replica v ps rs) = zero_header\<lparr>h_version := v\<rparr>" "idle (replica v ps rs)"
  "db_peers (reg_db (replica v ps rs)) = ps" "db_roles (reg_db (replica v ps rs)) = rs"
  "db_webapps (reg_db (replica v ps rs)) = []" "db_servers (reg_db (replica v ps rs)) = []"
  "db_epochs (reg_db (replica v ps rs)) = []" "db_audit (reg_db (replica v ps rs)) = []"
  by (simp_all add: replica_def fresh_handle_def idle_def empty_db_def)

lemma replicas_fit: "rows_fit replica_a" "rows_fit replica_b"
  by (simp_all add: rows_fit_def replica_a_def replica_b_def wf_header_def zero_header_def wf_cstr_def wf_peer_def
      full_peer_def wf_role_def sample_role_def zero_id_def)

lemma replicas_small: "length (delta_wire n replica_a) \<le> GR_DELTA_MAX_BYTES" "length (delta_wire n replica_b) \<le> GR_DELTA_MAX_BYTES"
  by (simp_all add: delta_wire_def replica_a_def replica_b_def header_wire_def zero_header_def entities_wire_def table_wire_def
      peer_wire_def role_wire_def role_rows_of_def server_rows_of_def epoch_rows_of_def ps_audit_delta_def full_peer_def
      sample_role_def zero_id_def cstr_def c_string_def)

lemma replicas_accept: "acceptable demo_env (reg_header replica_a) replica_b" "acceptable demo_env (reg_header replica_b) replica_a"
  by (simp_all add: acceptable_def replica_a_def replica_b_def demo_env_def zero_header_def)

lemma replica_idle: "idle replica_a" "idle replica_b"
  by (simp_all add: replica_a_def replica_b_def)


section \<open>Last writer wins\<close>

definition epochs_grew :: "gr_epoch_t list \<Rightarrow> gr_epoch_t list \<Rightarrow> bool" where
  "epochs_grew t t' \<longleftrightarrow> (\<forall>k ep. tbl_get e_epoch_id k t = Some ep \<longrightarrow> tbl_get e_epoch_id k t' = Some ep)"

text \<open>\<open>lww_merged\<close>: for every key the new table holds a newest row, the old one unless a newer came.\<close>

definition lww_merged :: "('r \<Rightarrow> 'k) \<Rightarrow> ('r \<Rightarrow> int) \<Rightarrow> 'r list \<Rightarrow> 'r list \<Rightarrow> 'r list \<Rightarrow> bool" where
  "lww_merged key stamp old came new \<longleftrightarrow> (\<forall>k. case tbl_get key k new of
      None \<Rightarrow> tbl_get key k old = None \<and> k \<notin> key ` set came
    | Some r \<Rightarrow> newest_row key stamp k (set came \<union> {l. tbl_get key k old = Some l}) r
        \<and> (\<forall>l. tbl_get key k old = Some l \<longrightarrow> r = l \<or> stamp l < stamp r))"

lemma fold_merged: "lww_merged key stamp t rs (fold (lww_put key stamp) rs t)"
proof -
  note tab = list_lww_table [of key stamp]
  show ?thesis unfolding lww_merged_def
  proof
    fix k
    let ?new = "fold (lww_put key stamp) rs t"
    show "case tbl_get key k ?new of
        None \<Rightarrow> tbl_get key k t = None \<and> k \<notin> key ` set rs
      | Some r \<Rightarrow> newest_row key stamp k (set rs \<union> {l. tbl_get key k t = Some l}) r
          \<and> (\<forall>l. tbl_get key k t = Some l \<longrightarrow> r = l \<or> stamp l < stamp r)"
    proof (cases "tbl_get key k ?new")
      case None
      then have "k \<notin> key ` (set rs \<union> {x. tbl_get key (key x) t = Some x})"
        using lww_table.merged_None [OF tab, of k rs t] by (simp add: lww_table.rows_def [OF tab])
      then show ?thesis using None tbl_get_key [of key k t] by (cases "tbl_get key k t") auto
    next
      case (Some r)
      then have n: "newest_row key stamp k (set rs \<union> {x. tbl_get key (key x) t = Some x}) r"
        using lww_table.merged_newest [OF tab, of k rs t] by (simp add: lww_table.rows_def [OF tab])
      then have "newest_row key stamp k (set rs \<union> {l. tbl_get key k t = Some l}) r"
        using tbl_get_key [of key k t] by (auto simp: newest_row_def)
      moreover have "r = l \<or> stamp l < stamp r" if "tbl_get key k t = Some l" for l
        using lww_table.fold_monotone [OF tab that, of rs] Some by auto
      ultimately show ?thesis using Some by simp
    qed
  qed
qed

lemma ignore_grew: "epochs_grew t (fold (tbl_insert_ignore e_epoch_id) eps t)"
proof (induction eps arbitrary: t)
  case (Cons ep eps)
  have "epochs_grew t (tbl_insert_ignore e_epoch_id ep t)"
    by (auto simp: epochs_grew_def tbl_get_insert_ignore) (metis option.distinct(1) tbl_get_None)
  with Cons [of "tbl_insert_ignore e_epoch_id ep t"] show ?case by (simp add: epochs_grew_def)
qed (simp add: epochs_grew_def)

lemma delta_tables:
  assumes "reliable e" and "answers e" and "idle reg" and "gr_apply_delta e f (Some d) reg = (Inr mr, r)"
    and "delta_sender e f d reg = Some ds"
  shows "db_peers (reg_db r) = fold (lww_put p_peer_id peer_time) (ds_peers ds) (db_peers (reg_db reg))"
    "db_roles (reg_db r) = fold (lww_put r_role_id role_time) (ds_roles ds) (db_roles (reg_db reg))"
    "db_epochs (reg_db r) = fold (tbl_insert_ignore e_epoch_id) (ds_epochs ds) (db_epochs (reg_db reg))"
  using apply_delta_effect [OF assms(1,3,4)] assms(2,5) by (auto simp: Let_def merged_db_def)

text \<open>
  C27. Functional.  Peers and roles are merged last writer wins: after a delta, each peer and each
  role is a newest of the local row and the rows that came (the local one on a tie), and no key is
  lost; epochs are only added, a known epoch keeps its row.
\<close>

theorem delta_merges_newest:
  assumes "reliable e" and "answers e" and "idle reg" and "gr_apply_delta e f (Some d) reg = (Inr mr, r)"
    and "delta_sender e f d reg = Some ds"
  shows "lww_merged p_peer_id peer_time (db_peers (reg_db reg)) (ds_peers ds) (db_peers (reg_db r))
    \<and> lww_merged r_role_id role_time (db_roles (reg_db reg)) (ds_roles ds) (db_roles (reg_db r))
    \<and> epochs_grew (db_epochs (reg_db reg)) (db_epochs (reg_db r))"
  unfolding delta_tables [OF assms] by (simp add: fold_merged ignore_grew)

theorem delta_merges_newest_witness:
  "\<exists>mr r. gr_apply_delta demo_env None (Some (delta_wire 0 replica_a)) replica_b = (Inr mr, r)
     \<and> lww_merged r_role_id role_time [sample_role 2 5] [sample_role 1 7] (db_roles (reg_db r))"
proof -
  obtain mr r where x: "gr_apply_delta demo_env None (Some (delta_wire 0 replica_a)) replica_b = (Inr mr, r)"
    using delta_arrives [OF demo_calm replicas_fit(1) replicas_small(1) replicas_accept(1) replica_idle(2)] by blast
  note ds = conjunct1 [OF delta_run [OF demo_calm replicas_fit(1) replicas_small(1) replicas_accept(1)]]
  have a: "answers demo_env" by (rule calmD(6) [OF demo_calm])
  from delta_merges_newest [OF demo_reliable a replica_idle(2) x ds] x show ?thesis
    by (simp add: delta_entities_def role_rows_of_def replica_a_def replica_b_def)
qed

text \<open>
  C28. Equivalence.  Two replicas that exchange deltas agree on their peers, their roles and the
  set of epochs, whatever they held before, as long as no two rows with one key and one time stamp
  differ; neither the versions they ask from nor the hosts' byte orders matter.
\<close>

theorem delta_exchange_agrees:
  assumes "calm ea" and "calm eb" and "idle a" and "idle b" and "rows_fit a" and "rows_fit b"
    and "db_keys_ok (reg_db a)" and "db_keys_ok (reg_db b)"
    and "length (delta_wire sa a) \<le> GR_DELTA_MAX_BYTES" and "length (delta_wire sb b) \<le> GR_DELTA_MAX_BYTES"
    and "acceptable eb (reg_header a) b" and "acceptable ea (reg_header b) a"
    and "unambiguous p_peer_id peer_time (set (db_peers (reg_db a)) \<union> set (db_peers (reg_db b)))"
    and "unambiguous r_role_id role_time (set (db_roles (reg_db a)) \<union> set (db_roles (reg_db b)))"
  shows "\<exists>da db qa qb ma mb a' b'. gr_serialize_delta ea sa True a = (Inr da, qa) \<and> gr_serialize_delta eb sb True b = (Inr db, qb)
    \<and> gr_apply_delta ea fa (Some db) a = (Inr ma, a') \<and> gr_apply_delta eb fb (Some da) b = (Inr mb, b')
    \<and> tbl_get p_peer_id k (db_peers (reg_db a')) = tbl_get p_peer_id k (db_peers (reg_db b'))
    \<and> tbl_get r_role_id j (db_roles (reg_db a')) = tbl_get r_role_id j (db_roles (reg_db b'))
    \<and> e_epoch_id ` set (db_epochs (reg_db a')) = e_epoch_id ` set (db_epochs (reg_db b'))"
proof -
  have small: "length (delta_wire sa a) < 2 ^ 31" "length (delta_wire sb b) < 2 ^ 31" using assms(9,10) by simp_all
  obtain qa qb where s: "gr_serialize_delta ea sa True a = (Inr (delta_wire sa a), qa)"
    "gr_serialize_delta eb sb True b = (Inr (delta_wire sb b), qb)"
    using delta_travels [OF assms(1,5) small(1)] delta_travels [OF assms(2,6) small(2)] by blast
  obtain ma a' where ra: "gr_apply_delta ea fa (Some (delta_wire sb b)) a = (Inr ma, a')"
    using delta_arrives [OF assms(1,6,10,12,3)] by blast
  obtain mb b' where rb: "gr_apply_delta eb fb (Some (delta_wire sa a)) b = (Inr mb, b')"
    using delta_arrives [OF assms(2,5,9,11,4)] by blast
  note da = conjunct1 [OF delta_run [OF assms(1,6,10,12), of fa]] and db = conjunct1 [OF delta_run [OF assms(2,5,9,11), of fb]]
  let ?pa = "db_peers (reg_db a)" and ?pb = "db_peers (reg_db b)" and ?ra = "db_roles (reg_db a)" and ?rb = "db_roles (reg_db b)"
  note ta = delta_tables [OF calmD(5,6) [OF assms(1)] assms(3) ra da]
    and tb = delta_tables [OF calmD(5,6) [OF assms(2)] assms(4) rb db]
  have rows: "peers_lww.rows ?pa = set ?pa" "peers_lww.rows ?pb = set ?pb" "roles_lww.rows ?ra = set ?ra" "roles_lww.rows ?rb = set ?rb"
    using assms(7,8) by (simp_all add: peers_lww.rows_def roles_lww.rows_def list_rows db_keys_ok_def)
  have "tbl_get p_peer_id k (db_peers (reg_db a')) = tbl_get p_peer_id k (db_peers (reg_db b'))"
    unfolding ta tb by (rule peers_lww.exchange_agrees) (simp_all add: rows assms(13) delta_entities_def)
  moreover have "tbl_get r_role_id j (db_roles (reg_db a')) = tbl_get r_role_id j (db_roles (reg_db b'))"
    unfolding ta tb by (rule roles_lww.exchange_agrees) (simp_all add: rows assms(14) role_rows_of_def delta_entities_def)
  moreover have ids: "e_epoch_id ` set (fold (tbl_insert_ignore e_epoch_id) eps t) = e_epoch_id ` set eps \<union> e_epoch_id ` set t" for eps t
    by (induction eps arbitrary: t) (auto simp: tbl_insert_ignore_def)
  have "e_epoch_id ` set (db_epochs (reg_db a')) = e_epoch_id ` set (db_epochs (reg_db b'))"
    unfolding ta tb ids by (auto simp: epoch_rows_of_def delta_entities_def)
  ultimately show ?thesis using s ra rb by metis
qed

theorem delta_exchange_agrees_witness:
  "\<exists>da db ma mb a' b'. gr_apply_delta demo_env None (Some db) replica_a = (Inr ma, a')
     \<and> gr_apply_delta demo_env None (Some da) replica_b = (Inr mb, b')
     \<and> tbl_get r_role_id 1 (db_roles (reg_db a')) = tbl_get r_role_id 1 (db_roles (reg_db b'))"
proof -
  have keys: "db_keys_ok (reg_db replica_a)" "db_keys_ok (reg_db replica_b)"
    by (simp_all add: replica_a_def replica_b_def replica_def fresh_handle_def db_keys_ok_def empty_db_def tbl_inv_def)
  have u: "unambiguous p_peer_id peer_time (set (db_peers (reg_db replica_a)) \<union> set (db_peers (reg_db replica_b)))"
    "unambiguous r_role_id role_time (set (db_roles (reg_db replica_a)) \<union> set (db_roles (reg_db replica_b)))"
    by (simp_all add: unambiguous_def replica_a_def replica_b_def full_peer_def zero_id_def sample_role_def role_time_def)
  from delta_exchange_agrees [OF demo_calm demo_calm replica_idle replicas_fit keys replicas_small replicas_accept u,
      where fa = None and fb = None and j = 1 and k = zero_id and sa = 0 and sb = 0]
  obtain da db ma mb a' b' where x: "gr_apply_delta demo_env None (Some db) replica_a = (Inr ma, a')"
    "gr_apply_delta demo_env None (Some da) replica_b = (Inr mb, b')"
    "tbl_get r_role_id 1 (db_roles (reg_db a')) = tbl_get r_role_id 1 (db_roles (reg_db b'))"
    by - (elim exE conjE, rule that)
  show ?thesis by (rule exI, rule exI, rule exI, rule exI, rule exI, rule exI, intro conjI) (rule x)+
qed

section \<open>What a delta leaves behind\<close>

lemma stale_blob:
  assumes "rows_fit src" and acc: "acceptable e (reg_header src) reg" and old: "h_version (reg_header src) \<le> h_version (reg_header reg)"
  shows "gr_deserialize e (Some (full_wire mode src)) reg = (GR_OK, reg)"
proof -
  let ?m = "if mode = GR_SERIALIZE_FULL then 0 else 1 :: byte" and ?hd = "reg_header src"
  let ?rest = "entities_wire mode (reg_db src) @ table_wire audit_wire (audit_rows_of (reg_db src))"
  have magic: "reads (gr_read_bytes 4) (cstr ''GREG'') (cstr ''GREG'')" by (rule reads_bytes) (simp add: cstr_def)
  have "reads (de_blob_head (host_le e)) (cstr ''GREG'' @ le_bytes 4 (4 :: u32) @ [?m] @ header_wire ?hd @ []) (4, ?hd)"
    unfolding de_blob_head_def
    by (rule reads_bind [OF magic], simp only: simp_thms if_False, rule reads_bind [OF reads_u32], simp only: order.irrefl if_False,
        rule reads_bind [OF reads_u8], rule reads_bind [OF reads_header reads_return]) (rule fit_parts(8) [OF assms(1)])
  note head = reads_at [OF this, where pre = "[]", unfolded append_Nil2 append_Nil, of ?rest]
  have start: "\<lparr>rd_data = full_wire mode src, rd_pos = 0\<rparr> = cursor [] ((cstr ''GREG'' @ le_bytes 4 (4 :: u32) @ [?m] @ header_wire ?hd) @ ?rest)"
    by (simp add: cursor_def full_wire_def)
  show ?thesis using acc old head unfolding gr_deserialize_def option.case start acceptable_def by simp
qed

lemma rotate_blocked:
  assumes "reliable e" and "idle reg" and "h_epoch_id (reg_header reg) + 1 \<in> e_epoch_id ` set (db_epochs (reg_db reg))"
  shows "fst (gr_epoch_rotate e signer reg) \<noteq> GR_OK"
proof
  assume x: "fst (gr_epoch_rotate e signer reg) = GR_OK"
  then obtain s where s: "signer = Some s" by (cases signer) (simp_all add: gr_epoch_rotate_def)
  obtain r where "gr_epoch_rotate e (Some s) reg = (GR_OK, r)" using x s by (metis prod.collapse)
  from epoch_rotate_ok [OF assms(1,2) this] obtain now key n1 d1 n2 d2 where
    i: "ps_epoch_expire now (h_epoch_id (reg_header reg)) (reg_db reg) = Some (n1, d1)"
      "ps_epoch_insert (epoch_row (h_epoch_id (reg_header reg) + 1) key now s) d1 = Some (n2, d2)"
    by (auto simp: committed_def)
  have "map e_epoch_id (db_epochs d1) = map e_epoch_id (db_epochs (reg_db reg))"
    using i(1) by (auto simp: ps_epoch_expire_def sql_update_def tbl_update_def)
  then have "e_epoch_id ` set (db_epochs d1) = e_epoch_id ` set (db_epochs (reg_db reg))" by (metis set_map)
  then show False using i(2) assms(3) by (auto simp: ps_epoch_insert_def sql_insert_def tbl_insert_def epoch_row_def)
qed

text \<open>
  A delta never moves the epoch in use: the receiver goes on encrypting with the key of
  its old epoch even when the delta brought newer ones; once its version has caught up with the
  sender's, the sender's full registrar is ignored too; and when the delta brought the next epoch,
  the receiver cannot rotate either.
\<close>

theorem delta_leaves_epoch:
  assumes "calm e" and "idle reg" and "rows_fit src" and "length (delta_wire since src) \<le> GR_DELTA_MAX_BYTES"
    and "acceptable e (reg_header src) reg" and "gr_apply_delta e f (Some (delta_wire since src)) reg = (Inr mr, r)"
    and "h_version (reg_header src) \<le> h_version (reg_header r)"
    and "tbl_get e_epoch_id (h_epoch_id (reg_header reg)) (db_epochs (reg_db reg)) = Some ep"
    and "h_epoch_id (reg_header reg) + 1 \<in> e_epoch_id ` set (db_epochs (reg_db src))"
  shows "fst (gr_epoch_get_current e r) = Inr ep \<and> gr_deserialize e (Some (full_wire mode src)) r = (GR_OK, r)
    \<and> fst (gr_epoch_rotate e signer r) \<noteq> GR_OK"
proof -
  note ds = conjunct1 [OF delta_run [OF assms(1,3,4,5), of f]]
  from apply_delta_effect [OF calmD(5) [OF assms(1)] assms(2,6)] have h: "header_moved (reg_header reg) (reg_header r)"
    and idle: "idle r" by auto
  note same = header_movedD [OF h]
  have ids: "e_epoch_id ` set (fold (tbl_insert_ignore e_epoch_id) eps t) = e_epoch_id ` set eps \<union> e_epoch_id ` set t" for eps t
    by (induction eps arbitrary: t) (auto simp: tbl_insert_ignore_def)
  have t: "db_epochs (reg_db r) = fold (tbl_insert_ignore e_epoch_id) (epoch_rows_of (reg_db src)) (db_epochs (reg_db reg))"
    using delta_tables(3) [OF calmD(5,6) [OF assms(1)] assms(2,6) ds] by (simp add: delta_entities_def)
  have "epochs_grew (db_epochs (reg_db reg)) (db_epochs (reg_db r))" unfolding t by (rule ignore_grew)
  then have "fst (gr_epoch_get_current e r) = Inr ep"
    using assms(8) same calmD(1) [OF assms(1)]
    by (simp add: epochs_grew_def gr_epoch_get_current_def gr_epoch_get_def db_fetch_def ps_epoch_get_def)
  moreover have "gr_deserialize e (Some (full_wire mode src)) r = (GR_OK, r)"
    by (rule stale_blob [OF assms(3) _ assms(7)]) (use assms(5) same in \<open>simp add: acceptable_def\<close>)
  moreover have "h_epoch_id (reg_header r) + 1 \<in> e_epoch_id ` set (db_epochs (reg_db r))"
    unfolding t ids using assms(9) same by (simp add: epoch_rows_of_def)
  then have "fst (gr_epoch_rotate e signer r) \<noteq> GR_OK" by (rule rotate_blocked [OF calmD(5) [OF assms(1)] idle])
  ultimately show ?thesis by blast
qed

text \<open>Two replicas that know different epochs.\<close>

definition sample_epoch :: "u32 \<Rightarrow> gr_epoch_t" where
  "sample_epoch n = \<lparr>e_epoch_id = n, e_epoch_key = replicate GR_EPOCH_KEY_LEN (ucast n), e_created_at = 0, e_expired_at = 0,
     e_created_by = zero_id\<rparr>"

definition epochs_known :: "u32 list \<Rightarrow> gr_registrar" where
  "epochs_known ns = (replica 2 [] [])\<lparr>reg_db := (reg_db (replica 2 [] []))\<lparr>db_epochs := map sample_epoch ns\<rparr>\<rparr>"

theorem delta_leaves_epoch_witness:
  "\<exists>mr r. gr_apply_delta demo_env None (Some (delta_wire 0 (epochs_known [0, 1]))) (epochs_known [0]) = (Inr mr, r)
     \<and> fst (gr_epoch_get_current demo_env r) = Inr (sample_epoch 0) \<and> fst (gr_epoch_rotate demo_env None r) \<noteq> GR_OK"
proof -
  let ?src = "epochs_known [0, 1]" and ?reg = "epochs_known [0]"
  have idle: "idle ?reg" by (simp add: epochs_known_def replica_def idle_def fresh_handle_def)
  have hs: "reg_header ?src = zero_header\<lparr>h_version := 2\<rparr>" "reg_header ?reg = zero_header\<lparr>h_version := 2\<rparr>"
    by (simp_all add: epochs_known_def)
  have db: "reg_db ?src = (reg_db (replica 2 [] []))\<lparr>db_epochs := [sample_epoch 0, sample_epoch 1]\<rparr>"
    "db_epochs (reg_db ?reg) = [sample_epoch 0]" by (simp_all add: epochs_known_def)
  have fit: "rows_fit ?src" unfolding rows_fit_def hs db
    by (simp add: wf_header_def zero_header_def wf_cstr_def wf_epoch_def sample_epoch_def zero_id_def)
  have small: "length (delta_wire 0 ?src) \<le> GR_DELTA_MAX_BYTES" unfolding delta_wire_def hs db
    by (simp add: header_wire_def zero_header_def entities_wire_def table_wire_def epoch_wire_def role_rows_of_def
        server_rows_of_def epoch_rows_of_def ps_audit_delta_def sample_epoch_def zero_id_def cstr_def c_string_def)
  have acc: "acceptable demo_env (reg_header ?src) ?reg" unfolding acceptable_def hs by (simp add: demo_env_def zero_header_def)
  obtain mr r where x: "gr_apply_delta demo_env None (Some (delta_wire 0 ?src)) ?reg = (Inr mr, r)"
    using delta_arrives [OF demo_calm fit small acc idle] by blast
  have "h_version (reg_header ?src) \<le> h_version (reg_header r)"
    using apply_delta_effect [OF demo_reliable idle x] by (auto simp: header_moved_def hs)
  moreover have "tbl_get e_epoch_id (h_epoch_id (reg_header ?reg)) (db_epochs (reg_db ?reg)) = Some (sample_epoch 0)"
    unfolding hs db by (simp add: zero_header_def sample_epoch_def tbl_get_def)
  moreover have "h_epoch_id (reg_header ?reg) + 1 \<in> e_epoch_id ` set (db_epochs (reg_db ?src))"
    unfolding hs db by (simp add: zero_header_def sample_epoch_def)
  ultimately show ?thesis using delta_leaves_epoch [OF demo_calm idle fit small acc x] x by blast
qed

section \<open>Trust\<close>

text \<open>What someone outside the group sends: a header of their own and one role.\<close>

definition forged :: "gr_header_t \<Rightarrow> gr_role_t \<Rightarrow> gr_registrar" where
  "forged h rl = (replica 0 [] [rl])\<lparr>reg_header := h\<rparr>"

lemma forged_simps [simp]:
  "reg_header (forged h rl) = h" "db_peers (reg_db (forged h rl)) = []" "db_roles (reg_db (forged h rl)) = [rl]"
  "db_webapps (reg_db (forged h rl)) = []" "db_servers (reg_db (forged h rl)) = []" "db_epochs (reg_db (forged h rl)) = []"
  "db_audit (reg_db (forged h rl)) = []"
  by (simp_all add: forged_def)

lemma forged_fit: "wf_header h \<Longrightarrow> wf_role rl \<Longrightarrow> rows_fit (forged h rl)"
  by (simp add: rows_fit_def)

lemma no_entries:
  assumes calm: "calm e" and fit: "rows_fit src" and cap: "length (delta_wire since src) \<le> GR_DELTA_MAX_BYTES"
    and acc: "acceptable e (reg_header src) reg" and idle: "idle reg" and none: "ps_audit_delta since (reg_db src) = []"
    and res: "gr_apply_delta e f (Some (delta_wire since src)) reg = (Inr mr, r)"
  shows "set (db_audit (reg_db r)) \<subseteq> set (db_audit (reg_db reg))"
proof -
  let ?ds = "Some (delta_entities src)"
  obtain pre q where q: "quiet reg q" "q_bind (with_txn_val e (delta_body e 4 ?ds 0 (cursor pre [])) q)
      (\<lambda>mr reg. (Inr mr, with_retention e mr reg)) = (Inr mr, r)"
    using conjunct2 [OF delta_run [OF calm fit cap acc, of f]] res by (auto simp: none)
  obtain r2 where r2: "with_txn_val e (delta_body e 4 ?ds 0 (cursor pre [])) q = (Inr mr, r2)" "r = with_retention e mr r2"
    using q(2) by (auto simp: q_bind_def split: prod.splits sum.splits)
  have i: "idle q" using quietD(8) [OF q(1)] idle by simp
  note rel = calmD(5) [OF calm]
  from with_txn_val_ok [OF txn_delta_body rel i r2(1)] obtain r3 r4 where
    b: "delta_body e 4 ?ds 0 (cursor pre []) r3 = (Inr mr, r4)" "reg_db r3 = reg_db q" "in_txn (reg_db q) (reg_header q) r3"
      "reg_db r2 = reg_db r4" "idle r2" by (elim exE conjE)
  from delta_body_ok [OF rel b(3,1)] obtain mr1 ra mr2 rb hs where
    c: "(Inr (merge_result_zero\<lparr>entries_received := 0\<rparr>), r3) = (Inr mr1 :: gr_error_t + gr_merge_result_t, ra)"
      "merged e ?ds mr1 ra = (mr2, rb)" "reg_db r4 = (reg_db rb)\<lparr>db_header := hs\<rparr>" by auto
  have "rows_only ra rb" using rows_only_merged [of ra e ?ds mr1] c(2) by simp
  then have "db_audit (reg_db r2) = db_audit (reg_db reg)" using b(2,4) c(1,3) quietD(1) [OF q(1)] by (simp add: rows_onlyD)
  then show ?thesis using with_retention_db [OF b(5), of e mr] r2(2) by auto
qed

text \<open>
  C29. Safety.  What a delta may change is not tied to the group's own authority: whoever can sign a
  header with a key of their own, naming themselves as its signer and copying the group's owner key,
  can send a role that is newer than the local one and replace its permissions, without any entry in
  the audit log.
\<close>

theorem anyone_can_rewrite_roles:
  assumes "calm e" and "idle reg" and "wf_header h" and "wf_role rl"
    and "mldsa_verify e (h_signature h) (h_hash h) (h_signer_sign_key h)"
    and "h_owner_sign_key h = h_owner_sign_key (reg_header reg)"
    and "length (delta_wire 0 (forged h rl)) \<le> GR_DELTA_MAX_BYTES"
    and "\<And>l. tbl_get r_role_id (r_role_id rl) (db_roles (reg_db reg)) = Some l \<Longrightarrow> role_time l < role_time rl"
  shows "\<exists>mr r. gr_apply_delta e f (Some (delta_wire 0 (forged h rl))) reg = (Inr mr, r)
    \<and> tbl_get r_role_id (r_role_id rl) (db_roles (reg_db r)) = Some rl
    \<and> set (db_audit (reg_db r)) \<subseteq> set (db_audit (reg_db reg))"
proof -
  let ?src = "forged h rl"
  note fit = forged_fit [OF assms(3,4)]
  have acc: "acceptable e (reg_header ?src) reg" using assms(5,6) by (simp add: acceptable_def)
  obtain mr r where x: "gr_apply_delta e f (Some (delta_wire 0 ?src)) reg = (Inr mr, r)"
    using delta_arrives [OF assms(1) fit assms(7) acc assms(2)] by blast
  note ds = conjunct1 [OF delta_run [OF assms(1) fit assms(7) acc, of f]]
  have "db_roles (reg_db r) = lww_put r_role_id role_time rl (db_roles (reg_db reg))"
    using delta_tables(2) [OF calmD(5,6) [OF assms(1)] assms(2) x ds] by (simp add: delta_entities_def role_rows_of_def)
  then have "tbl_get r_role_id (r_role_id rl) (db_roles (reg_db r)) = Some rl"
    using assms(8) by (auto simp: lww_table.get_put [OF list_lww_table] split: option.splits)
  moreover have "set (db_audit (reg_db r)) \<subseteq> set (db_audit (reg_db reg))"
    by (rule no_entries [OF assms(1) fit assms(7) acc assms(2) _ x]) (simp add: ps_audit_delta_def)
  ultimately show ?thesis using x by blast
qed

theorem anyone_can_rewrite_roles_witness:
  "\<exists>mr r. gr_apply_delta demo_env None (Some (delta_wire 0 (forged zero_header (sample_role 255 9)))) replica_b = (Inr mr, r)
    \<and> tbl_get r_role_id 1 (db_roles (reg_db r)) = Some (sample_role 255 9)"
proof -
  let ?rl = "sample_role 255 9"
  have h: "wf_header zero_header" by (simp add: wf_header_def zero_header_def wf_cstr_def)
  have rl: "wf_role ?rl" by (simp add: wf_role_def sample_role_def wf_cstr_def)
  have sig: "mldsa_verify demo_env (h_signature zero_header) (h_hash zero_header) (h_signer_sign_key zero_header)"
    by (simp add: demo_env_def)
  have owner: "h_owner_sign_key zero_header = h_owner_sign_key (reg_header replica_b)" by (simp add: replica_b_def)
  have small: "length (delta_wire 0 (forged zero_header ?rl)) \<le> GR_DELTA_MAX_BYTES"
    by (simp add: delta_wire_def header_wire_def zero_header_def entities_wire_def table_wire_def role_wire_def role_rows_of_def
        server_rows_of_def epoch_rows_of_def ps_audit_delta_def sample_role_def cstr_def c_string_def)
  have newer: "role_time l < role_time ?rl"
    if "tbl_get r_role_id (r_role_id ?rl) (db_roles (reg_db replica_b)) = Some l" for l
    using that by (auto simp: replica_b_def tbl_get_def sample_role_def role_time_def)
  from anyone_can_rewrite_roles [OF demo_calm replica_idle(2) h rl sig owner small newer, of None] show ?thesis
    by (auto simp: sample_role_def)
qed

section \<open>Whole registrars\<close>

text \<open>
  C30. Round trip.  A registrar that is sent whole, to a receiver of the same group with an older
  version, is installed there as it is: the receiver's header and its tables of peers, roles, web
  apps, servers, epochs and audit entries are the sender's (in the order of the sender's queries;
  a scoped copy leaves the servers' keys out), whatever the hosts' byte orders.
\<close>

theorem full_sync_installs:
  assumes "calm e" and "calm e'" and "rows_fit src" and "db_keys_ok (reg_db src)" and "length (full_wire mode src) < 2 ^ 31"
    and "\<forall>a\<in>set (db_audit (reg_db src)). 0 < sint (a_timestamp a)"
    and "acceptable e' (reg_header src) reg" and "idle reg" and "h_version (reg_header reg) < h_version (reg_header src)"
  shows "\<exists>data q r. gr_serialize e mode True src = (Inr data, q) \<and> gr_deserialize e' (Some data) reg = (GR_OK, r)
    \<and> reg_header r = reg_header src \<and> reg_db r = (installed_db mode src (reg_db reg))\<lparr>db_header := [reg_header src]\<rparr>"
  using full_travels [OF assms(1,3,5,6)] deserialize_installs [OF assms(2,3,4,5,7,8,9)] by blast

theorem full_sync_installs_witness:
  "\<exists>data q r. gr_serialize demo_env GR_SERIALIZE_FULL True replica_a = (Inr data, q)
    \<and> gr_deserialize demo_env (Some data) replica_b = (GR_OK, r) \<and> h_version (reg_header r) = 3
    \<and> db_roles (reg_db r) = [sample_role 1 7]"
proof -
  have keys: "db_keys_ok (reg_db replica_a)"
    by (simp add: replica_a_def replica_def fresh_handle_def db_keys_ok_def empty_db_def tbl_inv_def)
  have small: "length (full_wire GR_SERIALIZE_FULL replica_a) < 2 ^ 31"
    by (simp add: full_wire_def replica_a_def header_wire_def zero_header_def entities_wire_def table_wire_def
        peer_wire_def role_wire_def role_rows_of_def server_rows_of_def epoch_rows_of_def audit_rows_of_def full_peer_def
        sample_role_def zero_id_def cstr_def c_string_def)
  have stamped: "\<forall>a\<in>set (db_audit (reg_db replica_a)). 0 < sint (a_timestamp a)" by (simp add: replica_a_def)
  have newer: "h_version (reg_header replica_b) < h_version (reg_header replica_a)" by (simp add: replica_a_def replica_b_def)
  from full_sync_installs [OF demo_calm demo_calm replicas_fit(1) keys small stamped replicas_accept(1) replica_idle(2) newer]
  obtain data q r where x: "gr_serialize demo_env GR_SERIALIZE_FULL True replica_a = (Inr data, q)"
    "gr_deserialize demo_env (Some data) replica_b = (GR_OK, r)" "reg_header r = reg_header replica_a"
    "reg_db r = (installed_db GR_SERIALIZE_FULL replica_a (reg_db replica_b))\<lparr>db_header := [reg_header replica_a]\<rparr>"
    by (elim exE conjE)
  then have "h_version (reg_header r) = 3 \<and> db_roles (reg_db r) = [sample_role 1 7]"
    by (simp add: installed_db_def role_rows_of_def replica_a_def)
  then show ?thesis using x(1,2) by blast
qed

end
