(* ===== verification/Ring.thy ===== *)
theory Ring imports Prelude
begin

text \<open>
  The ring of work items between the senders and the worker of the UDP client
  (\<open>src/src/network/yumi_udp.c\<close>, \<open>src/include/network/net.h\<close>): many producers, one consumer, no lock.
  Every access to a shared atomic is one step, so a run is any interleaving of the threads' accesses
  (in the sequentially consistent order; the release and acquire annotations are what makes the
  copies of the items, which are not atomic, safe).
\<close>

section \<open>Data\<close>

abbreviation (input) YUMI_RING_CAPACITY :: nat where "YUMI_RING_CAPACITY \<equiv> 4096"
abbreviation (input) YUMI_RING_MASK :: u64 where "YUMI_RING_MASK \<equiv> 4095"
abbreviation (input) YUMI_RING_SPIN_MAX :: nat where "YUMI_RING_SPIN_MAX \<equiv> 256"
abbreviation (input) YUMI_RING_SLEEP_MAX :: nat where "YUMI_RING_SLEEP_MAX \<equiv> 1000"

datatype yumi_work_type_t = YUMI_WORK_SEND_UNRELIABLE | YUMI_WORK_SEND_RELIABLE | YUMI_WORK_SHUTDOWN
  | YUMI_WORK_USER_CB | YUMI_WORK_SEND_RAW

text \<open>\<open>wi_dest\<close> is the system's socket address as its bytes.\<close>

record yumi_work_item_t =
  wi_type :: yumi_work_type_t
  wi_len :: u32
  wi_channel :: byte
  wi_raw_flags :: byte
  wi_raw_seq :: u32
  wi_has_dest :: bool
  wi_dest :: bytes
  wi_data :: bytes

record yumi_ring_t =
  ring_head :: u64
  ring_tail :: u64
  ring_slots :: "yumi_work_item_t list"
  ring_ready :: "bool list"

definition zero_item :: yumi_work_item_t where
  "zero_item = \<lparr>wi_type = YUMI_WORK_SEND_UNRELIABLE, wi_len = 0, wi_channel = 0, wi_raw_flags = 0, wi_raw_seq = 0,
     wi_has_dest = False, wi_dest = replicate 28 0, wi_data = replicate 1442 0\<rparr>"

text \<open>The three flags are the answers of the three \<open>calloc\<close> calls.\<close>

definition yumi_ring_create :: "bool \<Rightarrow> bool \<Rightarrow> bool \<Rightarrow> yumi_ring_t option" where
  "yumi_ring_create ring_ok slots_ok ready_ok =
     (if \<not> ring_ok then None
      else if \<not> slots_ok \<or> \<not> ready_ok then None
      else Some \<lparr>ring_head = 0, ring_tail = 0, ring_slots = replicate YUMI_RING_CAPACITY zero_item,
                 ring_ready = replicate YUMI_RING_CAPACITY False\<rparr>)"

definition yumi_ring_init :: "yumi_ring_t \<Rightarrow> yumi_ring_t" where
  "yumi_ring_init r = r\<lparr>ring_head := 0, ring_tail := 0, ring_ready := replicate YUMI_RING_CAPACITY False\<rparr>"

definition ring_index :: "u64 \<Rightarrow> nat" where
  "ring_index pos = unat (and pos YUMI_RING_MASK)"

section \<open>Producers\<close>

text \<open>Returns the counters to go on with, or nothing to give up.\<close>

definition ring_backpressure :: "nat \<Rightarrow> nat \<Rightarrow> (nat \<times> nat) option" where
  "ring_backpressure spins sleeps =
     (if spins < YUMI_RING_SPIN_MAX then Some (spins + 1, sleeps)
      else if sleeps < YUMI_RING_SLEEP_MAX then Some (spins, sleeps + 1)
      else None)"

datatype ring_call = Push yumi_work_item_t | Reserve | TryReserve

text \<open>
  Where a producer is: about to load the head; about to load the tail; about to compare and swap the
  head; holding the reserved slot; about to store its flag; returned.
\<close>

datatype producer = PIdle
  | PLoad ring_call nat nat
  | PTail ring_call u64 nat nat
  | PCas ring_call u64 nat nat
  | PFill ring_call u64
  | PCommit u64
  | PReturn bool

text \<open>
  One access of \<open>yumi_ring_push\<close>, \<open>yumi_ring_reserve\<close> and \<open>yumi_ring_try_reserve\<close>, which share their
  loop; \<open>spurious\<close>: does a weak compare and swap fail although the head is as expected?
\<close>

fun producer_step :: "bool \<Rightarrow> yumi_ring_t \<Rightarrow> producer \<Rightarrow> yumi_ring_t \<times> producer" where
  "producer_step spurious r (PLoad c spins sleeps) = (r, PTail c (ring_head r) spins sleeps)"
| "producer_step spurious r (PTail c head spins sleeps) =
     (if of_nat YUMI_RING_CAPACITY \<le> head - ring_tail r
      then (if c = TryReserve then (r, PReturn False)
            else case ring_backpressure spins sleeps of
                   None \<Rightarrow> (r, PReturn False)
                 | Some (spins', sleeps') \<Rightarrow> (r, PLoad c spins' sleeps'))
      else (r, PCas c head spins sleeps))"
| "producer_step spurious r (PCas c head spins sleeps) =
     (if ring_head r = head \<and> \<not> (spurious \<and> c \<noteq> TryReserve)
      then (r\<lparr>ring_head := head + 1\<rparr>, PFill c head)
      else if c = TryReserve then (r, PReturn False)
      else (r, PTail c (ring_head r) spins sleeps))"
| "producer_step spurious r (PFill (Push item) head) =
     (r\<lparr>ring_slots := (ring_slots r)[ring_index head := item]\<rparr>, PCommit head)"
| "producer_step spurious r (PCommit head) =
     (r\<lparr>ring_ready := (ring_ready r)[ring_index head := True]\<rparr>, PReturn True)"
| "producer_step spurious r p = (r, p)"

text \<open>The caller of the two reserving functions writes the item in place, then commits the slot.\<close>

definition slot_write :: "u64 \<Rightarrow> yumi_work_item_t \<Rightarrow> yumi_ring_t \<Rightarrow> yumi_ring_t" where
  "slot_write head item r = r\<lparr>ring_slots := (ring_slots r)[ring_index head := item]\<rparr>"

definition yumi_ring_commit :: "nat \<Rightarrow> yumi_ring_t \<Rightarrow> yumi_ring_t" where
  "yumi_ring_commit slot r = r\<lparr>ring_ready := (ring_ready r)[slot := True]\<rparr>"

section \<open>The consumer\<close>

text \<open>
  The accesses of \<open>yumi_ring_pop\<close>: load the head, load the flag, copy the item, clear the flag, move
  the tail.  \<open>yumi_ring_peek\<close> stops before the copy and hands out the slot; \<open>yumi_ring_advance\<close> does
  the last two.
\<close>

datatype consumer = CIdle | CHead u64 | CReady u64 | CTake u64 | CClear u64 | CTail u64

fun consumer_step :: "yumi_ring_t \<Rightarrow> consumer \<Rightarrow> yumi_ring_t \<times> consumer \<times> yumi_work_item_t list" where
  "consumer_step r CIdle = (r, CHead (ring_tail r), [])"
| "consumer_step r (CHead tail) = (if ring_head r \<le> tail then (r, CIdle, []) else (r, CReady tail, []))"
| "consumer_step r (CReady tail) = (if \<not> ring_ready r ! ring_index tail then (r, CIdle, []) else (r, CTake tail, []))"
| "consumer_step r (CTake tail) = (r, CClear tail, [ring_slots r ! ring_index tail])"
| "consumer_step r (CClear tail) = (r\<lparr>ring_ready := (ring_ready r)[ring_index tail := False]\<rparr>, CTail tail, [])"
| "consumer_step r (CTail tail) = (r\<lparr>ring_tail := tail + 1\<rparr>, CIdle, [])"

text \<open>The operations run by the consumer thread alone.\<close>

definition yumi_ring_peek :: "yumi_ring_t \<Rightarrow> yumi_work_item_t option" where
  "yumi_ring_peek r =
     (if ring_head r \<le> ring_tail r then None
      else if \<not> ring_ready r ! ring_index (ring_tail r) then None
      else Some (ring_slots r ! ring_index (ring_tail r)))"

definition yumi_ring_advance :: "yumi_ring_t \<Rightarrow> yumi_ring_t" where
  "yumi_ring_advance r = r\<lparr>ring_ready := (ring_ready r)[ring_index (ring_tail r) := False], ring_tail := ring_tail r + 1\<rparr>"

definition yumi_ring_pop :: "yumi_ring_t \<Rightarrow> (yumi_work_item_t \<times> yumi_ring_t) option" where
  "yumi_ring_pop r =
     (if ring_head r \<le> ring_tail r then None
      else if \<not> ring_ready r ! ring_index (ring_tail r) then None
      else Some (ring_slots r ! ring_index (ring_tail r),
                 r\<lparr>ring_ready := (ring_ready r)[ring_index (ring_tail r) := False], ring_tail := ring_tail r + 1\<rparr>))"

section \<open>Runs\<close>

text \<open>\<open>rs_out\<close> lists the items the consumer has copied out, in order.\<close>

record ring_sys =
  rs_ring :: yumi_ring_t
  rs_producers :: "nat \<Rightarrow> producer"
  rs_consumer :: consumer
  rs_out :: "yumi_work_item_t list"

definition returned :: "producer \<Rightarrow> bool" where
  "returned p \<longleftrightarrow> p = PIdle \<or> (\<exists>b. p = PReturn b)"

inductive ring_step :: "ring_sys \<Rightarrow> ring_sys \<Rightarrow> bool" where
  call: "returned (rs_producers s i) \<Longrightarrow> ring_step s (s\<lparr>rs_producers := (rs_producers s)(i := PLoad c 0 0)\<rparr>)"
| run: "producer_step spurious (rs_ring s) (rs_producers s i) = (r, p) \<Longrightarrow>
     ring_step s (s\<lparr>rs_ring := r, rs_producers := (rs_producers s)(i := p)\<rparr>)"
| write_slot: "rs_producers s i = PFill c h \<Longrightarrow> c \<in> {Reserve, TryReserve} \<Longrightarrow>
     ring_step s (s\<lparr>rs_ring := slot_write h item (rs_ring s)\<rparr>)"
| commit: "rs_producers s i = PFill c h \<Longrightarrow> c \<in> {Reserve, TryReserve} \<Longrightarrow>
     ring_step s (s\<lparr>rs_ring := yumi_ring_commit (ring_index h) (rs_ring s),
                   rs_producers := (rs_producers s)(i := PReturn True)\<rparr>)"
| consume: "consumer_step (rs_ring s) (rs_consumer s) = (r, c, taken) \<Longrightarrow>
     ring_step s (s\<lparr>rs_ring := r, rs_consumer := c, rs_out := rs_out s @ taken\<rparr>)"
| peeked: "rs_consumer s = CTake t \<Longrightarrow> ring_step s (s\<lparr>rs_consumer := CIdle\<rparr>)"

text \<open>The states after \<open>n\<close> accesses from a new ring.\<close>

inductive ring_reachable :: "nat \<Rightarrow> ring_sys \<Rightarrow> bool" where
  new: "yumi_ring_create True True True = Some r \<Longrightarrow>
     ring_reachable 0 \<lparr>rs_ring = r, rs_producers = \<lambda>i. PIdle, rs_consumer = CIdle, rs_out = []\<rparr>"
| step: "ring_reachable n s \<Longrightarrow> ring_step s s' \<Longrightarrow> ring_reachable (Suc n) s'"

section \<open>The abstract queue\<close>

text \<open>Reservations in order, each with its item once it is committed; and what was taken.\<close>

type_synonym fifo = "yumi_work_item_t option list \<times> yumi_work_item_t list"

inductive fifo_step :: "fifo \<Rightarrow> fifo \<Rightarrow> bool" where
  skip: "fifo_step q q"
| reserve: "length cells < YUMI_RING_CAPACITY \<Longrightarrow> fifo_step (cells, out) (cells @ [None], out)"
| fill: "k < length cells \<Longrightarrow> cells ! k = None \<Longrightarrow> fifo_step (cells, out) (cells[k := Some item], out)"
| take: "fifo_step (Some item # cells, out) (cells, out @ [item])"

definition ring_start :: "ring_sys \<Rightarrow> nat" where
  "ring_start s = (case rs_consumer s of
      CClear t \<Rightarrow> Suc (unat (ring_tail (rs_ring s)))
    | CTail t \<Rightarrow> Suc (unat (ring_tail (rs_ring s)))
    | _ \<Rightarrow> unat (ring_tail (rs_ring s)))"

definition ring_cell :: "yumi_ring_t \<Rightarrow> nat \<Rightarrow> yumi_work_item_t option" where
  "ring_cell r p = (if ring_ready r ! (p mod YUMI_RING_CAPACITY) then Some (ring_slots r ! (p mod YUMI_RING_CAPACITY)) else None)"

definition ring_abs :: "ring_sys \<Rightarrow> fifo" where
  "ring_abs s = (map (ring_cell (rs_ring s)) [ring_start s..<unat (ring_head (rs_ring s))], rs_out s)"

section \<open>Positions\<close>

lemma ring_index: "ring_index pos = unat pos mod YUMI_RING_CAPACITY"
proof -
  have "and pos YUMI_RING_MASK = take_bit 12 pos" by (simp add: take_bit_eq_mask mask_eq_exp_minus_1)
  then show ?thesis by (simp add: ring_index_def take_bit_eq_mod unat_mod)
qed

lemma ring_index_lt: "ring_index pos < YUMI_RING_CAPACITY"
  by (simp add: ring_index)

text \<open>Two positions of one window of the ring's size that share a slot are the same.\<close>

lemma same_slot:
  assumes "(p :: nat) mod c = q mod c" and "t \<le> p" "t \<le> q" "p < t + c" "q < t + c"
  shows "p = q"
proof -
  have gap: "b = a" if "a mod c = b mod c" "a \<le> b" "t \<le> a" "b < t + c" for a b :: nat
  proof (rule ccontr)
    assume "b \<noteq> a"
    then have "0 < b - a" "b - a < c" using that by auto
    moreover have "c dvd b - a" using that(1,2) mod_eq_dvd_iff_nat [of a b c] by simp
    ultimately show False using dvd_imp_le by fastforce
  qed
  show ?thesis
  proof (cases "p \<le> q")
    case True
    show ?thesis using gap [OF assms(1) True assms(2,5)] by (rule sym)
  next
    case False
    then show ?thesis using gap [OF assms(1) [symmetric] _ assms(3,4)] by simp
  qed
qed

lemma not_full:
  assumes "\<not> of_nat YUMI_RING_CAPACITY \<le> h - (t :: u64)"
  shows "unat h < unat t + YUMI_RING_CAPACITY"
proof (cases "t \<le> h")
  case True
  then have "unat (h - t) = unat h - unat t" by (rule unat_sub)
  then show ?thesis using assms by (simp add: word_le_nat_alt not_le)
next
  case False
  then show ?thesis by (simp add: word_le_nat_alt)
qed

section \<open>The invariant\<close>

definition held :: "producer \<Rightarrow> u64 option" where
  "held p = (case p of PFill c h \<Rightarrow> Some h | PCommit h \<Rightarrow> Some h | _ \<Rightarrow> None)"

lemma held_simps [simp]:
  "held PIdle = None" "held (PLoad c a b) = None" "held (PTail c h a b) = None" "held (PCas c h a b) = None"
  "held (PFill c h) = Some h" "held (PCommit h) = Some h" "held (PReturn x) = None"
  by (simp_all add: held_def)

definition window_ok :: "yumi_ring_t \<Rightarrow> bool" where
  "window_ok r \<longleftrightarrow> unat (ring_tail r) \<le> unat (ring_head r) \<and> unat (ring_head r) \<le> unat (ring_tail r) + YUMI_RING_CAPACITY
     \<and> length (ring_slots r) = YUMI_RING_CAPACITY \<and> length (ring_ready r) = YUMI_RING_CAPACITY
     \<and> (\<forall>k<YUMI_RING_CAPACITY. ring_ready r ! k \<longrightarrow>
          (\<exists>p. unat (ring_tail r) \<le> p \<and> p < unat (ring_head r) \<and> p mod YUMI_RING_CAPACITY = k))"

definition producers_ok :: "yumi_ring_t \<Rightarrow> (nat \<Rightarrow> producer) \<Rightarrow> bool" where
  "producers_ok r P \<longleftrightarrow>
     (\<forall>i h. held (P i) = Some h \<longrightarrow> unat (ring_tail r) \<le> unat h \<and> unat h < unat (ring_head r) \<and> \<not> ring_ready r ! ring_index h)
     \<and> (\<forall>i j h. held (P i) = Some h \<and> held (P j) = Some h \<longrightarrow> i = j)
     \<and> (\<forall>i c h a b. P i = PCas c h a b \<longrightarrow> unat h < unat (ring_tail r) + YUMI_RING_CAPACITY)"

definition consumer_ok :: "yumi_ring_t \<Rightarrow> (nat \<Rightarrow> producer) \<Rightarrow> consumer \<Rightarrow> bool" where
  "consumer_ok r P c = (case c of
      CIdle \<Rightarrow> True
    | CHead t \<Rightarrow> t = ring_tail r
    | CReady t \<Rightarrow> t = ring_tail r \<and> unat t < unat (ring_head r)
    | CTake t \<Rightarrow> t = ring_tail r \<and> unat t < unat (ring_head r) \<and> ring_ready r ! ring_index t
    | CClear t \<Rightarrow> t = ring_tail r \<and> unat t < unat (ring_head r) \<and> ring_ready r ! ring_index t
    | CTail t \<Rightarrow> t = ring_tail r \<and> unat t < unat (ring_head r) \<and> \<not> ring_ready r ! ring_index t \<and> (\<forall>i. held (P i) \<noteq> Some t))"

definition ring_inv :: "ring_sys \<Rightarrow> bool" where
  "ring_inv s \<longleftrightarrow> window_ok (rs_ring s) \<and> producers_ok (rs_ring s) (rs_producers s)
     \<and> consumer_ok (rs_ring s) (rs_producers s) (rs_consumer s)"

lemma window_okD:
  assumes "window_ok r"
  shows "unat (ring_tail r) \<le> unat (ring_head r)" "unat (ring_head r) \<le> unat (ring_tail r) + YUMI_RING_CAPACITY"
    "length (ring_slots r) = YUMI_RING_CAPACITY" "length (ring_ready r) = YUMI_RING_CAPACITY"
  using assms by (simp_all add: window_ok_def)

text \<open>A ready flag belongs to a position of the window.\<close>

lemma ready_position:
  assumes "window_ok r" and "ring_ready r ! (q mod YUMI_RING_CAPACITY)"
  obtains p where "unat (ring_tail r) \<le> p" "p < unat (ring_head r)" "p mod YUMI_RING_CAPACITY = q mod YUMI_RING_CAPACITY"
proof -
  have "q mod YUMI_RING_CAPACITY < YUMI_RING_CAPACITY" by simp
  then show thesis using assms that unfolding window_ok_def by blast
qed

text \<open>A producer that holds nothing new.\<close>

lemma producer_moves:
  assumes inv: "producers_ok r P" "consumer_ok r P c"
    and p: "held p = None" "\<And>c h a b. p = PCas c h a b \<Longrightarrow> unat h < unat (ring_tail r) + YUMI_RING_CAPACITY"
  shows "producers_ok r (P(i := p)) \<and> consumer_ok r (P(i := p)) c"
  using assms unfolding producers_ok_def consumer_ok_def
  by (auto split: consumer.splits if_splits)

section \<open>The steps of a producer\<close>

lemma inv_parts:
  assumes "ring_inv s"
  shows "window_ok (rs_ring s)" "producers_ok (rs_ring s) (rs_producers s)"
    "consumer_ok (rs_ring s) (rs_producers s) (rs_consumer s)"
  using assms by (simp_all add: ring_inv_def)

lemma heldD:
  assumes "producers_ok r P" and "held (P i) = Some h"
  shows "unat (ring_tail r) \<le> unat h" "unat h < unat (ring_head r)" "\<not> ring_ready r ! ring_index h"
    "held (P j) = Some h \<Longrightarrow> j = i"
  using assms unfolding producers_ok_def by blast+

lemma casD: "producers_ok r P \<Longrightarrow> P i = PCas c h a b \<Longrightarrow> unat h < unat (ring_tail r) + YUMI_RING_CAPACITY"
  unfolding producers_ok_def by blast

text \<open>What the consumer has in hand is not what a producer holds.\<close>

lemma held_from_start:
  assumes "ring_inv s" and h: "held (rs_producers s i) = Some h"
  shows "ring_start s \<le> unat h"
proof -
  note d = heldD [OF inv_parts(2) [OF assms(1)] h] and c = inv_parts(3) [OF assms(1)]
  have "t \<noteq> h" if "rs_consumer s = CClear t \<or> rs_consumer s = CTail t" for t
    using c d(3) h that by (auto simp: consumer_ok_def)
  then have "unat t \<noteq> unat h" if "rs_consumer s = CClear t \<or> rs_consumer s = CTail t" for t
    using that by (simp add: word_unat_eq_iff)
  then show ?thesis using d(1) c by (fastforce simp: ring_start_def consumer_ok_def le_less Suc_le_eq split: consumer.splits)
qed

lemma start_bounds:
  assumes "ring_inv s"
  shows "unat (ring_tail (rs_ring s)) \<le> ring_start s" "ring_start s \<le> unat (ring_head (rs_ring s))"
  using inv_parts [OF assms] window_okD(1) [OF inv_parts(1) [OF assms]]
  by (auto simp: ring_start_def consumer_ok_def split: consumer.splits)

text \<open>Writing a slot that a producer holds is not visible.\<close>

lemma write_hidden:
  assumes inv: "ring_inv s" and h: "held (rs_producers s i) = Some h" and p: "held p = Some h"
  shows "ring_inv (s\<lparr>rs_ring := slot_write h item (rs_ring s), rs_producers := (rs_producers s)(i := p)\<rparr>)
    \<and> ring_abs (s\<lparr>rs_ring := slot_write h item (rs_ring s), rs_producers := (rs_producers s)(i := p)\<rparr>) = ring_abs s"
proof -
  let ?r = "rs_ring s" and ?w = "slot_write h item (rs_ring s)" and ?P = "(rs_producers s)(i := p)"
  note parts = inv_parts [OF inv]
  have heq: "held (?P j) = held (rs_producers s j)" for j using h p by simp
  have cas: "rs_producers s j = PCas c g a b" if "?P j = PCas c g a b" for j c g a b using that p by (auto split: if_splits)
  have "window_ok ?w" using parts(1) by (simp add: window_ok_def slot_write_def)
  moreover have "producers_ok ?w ?P"
  proof -
    have same: "ring_tail ?w = ring_tail ?r" "ring_head ?w = ring_head ?r" "ring_ready ?w = ring_ready ?r"
      by (simp_all add: slot_write_def)
    have "unat g < unat (ring_tail ?r) + YUMI_RING_CAPACITY" if "?P j = PCas c g a b" for j c g a b
      using parts(2) cas [OF that] unfolding producers_ok_def by blast
    then show ?thesis using parts(2) unfolding producers_ok_def heq same by blast
  qed
  moreover have "consumer_ok ?w ?P (rs_consumer s)"
    using parts(3) unfolding consumer_ok_def heq by (simp add: slot_write_def cong: consumer.case_cong)
  moreover have "ring_cell ?w q = ring_cell ?r q" for q
    using heldD(3) [OF parts(2) h]
    by (cases "q mod YUMI_RING_CAPACITY = unat h mod YUMI_RING_CAPACITY") (simp_all add: ring_cell_def slot_write_def ring_index)
  ultimately show ?thesis by (simp add: ring_inv_def ring_abs_def ring_start_def slot_write_def cong: consumer.case_cong)
qed

text \<open>Setting the flag of a slot that a producer holds commits its item.\<close>

lemma commit_fills:
  assumes inv: "ring_inv s" and h: "held (rs_producers s i) = Some h"
  shows "ring_inv (s\<lparr>rs_ring := yumi_ring_commit (ring_index h) (rs_ring s), rs_producers := (rs_producers s)(i := PReturn True)\<rparr>)
    \<and> fifo_step (ring_abs s) (ring_abs (s\<lparr>rs_ring := yumi_ring_commit (ring_index h) (rs_ring s),
        rs_producers := (rs_producers s)(i := PReturn True)\<rparr>))"
proof -
  let ?r = "rs_ring s" and ?w = "yumi_ring_commit (ring_index h) (rs_ring s)" and ?P = "(rs_producers s)(i := PReturn True)"
  note parts = inv_parts [OF inv] and d = heldD [OF inv_parts(2) [OF inv] h] and win = window_okD [OF inv_parts(1) [OF inv]]
  let ?T = "unat (ring_tail ?r)" and ?H = "unat (ring_head ?r)"
  have len: "ring_index h < length (ring_ready ?r)" using win(4) ring_index_lt by simp
  have ready: "ring_ready ?w ! k = (k = ring_index h \<or> ring_ready ?r ! k)" for k
    using len by (auto simp: yumi_ring_commit_def nth_list_update)
  have "window_ok ?w"
    unfolding window_ok_def
  proof (intro conjI allI impI)
    fix k assume "k < YUMI_RING_CAPACITY" "ring_ready ?w ! k"
    then show "\<exists>p\<ge>unat (ring_tail ?w). p < unat (ring_head ?w) \<and> p mod YUMI_RING_CAPACITY = k"
      using d(1,2) parts(1) unfolding ready window_ok_def by (auto simp: ring_index yumi_ring_commit_def)
  qed (use win in \<open>simp_all add: yumi_ring_commit_def\<close>)
  moreover have other: "ring_index g \<noteq> ring_index h"
    if "?T \<le> unat g" "unat g < ?H" "g \<noteq> h" for g
    using same_slot [of "unat g" YUMI_RING_CAPACITY "unat h" ?T] that d(1,2) win(2) by (auto simp: ring_index word_unat_eq_iff)
  have keep: "held (?P j) = Some g \<Longrightarrow> held (rs_producers s j) = Some g \<and> j \<noteq> i" for j g by (auto split: if_splits)
  have "producers_ok ?w ?P" unfolding producers_ok_def
  proof (intro conjI allI impI)
    fix j g assume g: "held (?P j) = Some g"
    note dj = heldD [OF parts(2) conjunct1 [OF keep [OF g]]]
    show "unat (ring_tail ?w) \<le> unat g" "unat g < unat (ring_head ?w)" using dj by (simp_all add: yumi_ring_commit_def)
    have "g \<noteq> h" using keep [OF g] d(4) [of j] by auto
    then show "\<not> ring_ready ?w ! ring_index g" unfolding ready using other [OF dj(1,2)] dj(3) by simp
  next
    fix j k g assume "held (?P j) = Some g \<and> held (?P k) = Some g"
    then show "j = k" using keep heldD(4) [OF parts(2)] by metis
  next
    fix j c g a b assume "?P j = PCas c g a b"
    then have "rs_producers s j = PCas c g a b" by (simp split: if_splits)
    then have "unat g < unat (ring_tail ?r) + YUMI_RING_CAPACITY" using parts(2) unfolding producers_ok_def by blast
    then show "unat g < unat (ring_tail ?w) + YUMI_RING_CAPACITY" by (simp add: yumi_ring_commit_def)
  qed
  moreover have "consumer_ok ?w ?P (rs_consumer s)"
  proof -
    have "held (?P j) \<noteq> Some t" if "\<forall>j. held (rs_producers s j) \<noteq> Some t" for j t using that by simp
    moreover have "ring_index t \<noteq> ring_index h" if "rs_consumer s = CTail t" for t
      using parts(3) that h other [of t] by (auto simp: consumer_ok_def)
    ultimately show ?thesis using parts(3)
      by (auto simp: consumer_ok_def ready split: consumer.splits) (simp_all add: yumi_ring_commit_def)
  qed
  moreover have "fifo_step (ring_abs s) (ring_abs (s\<lparr>rs_ring := ?w, rs_producers := ?P\<rparr>))"
  proof -
    let ?S = "ring_start s" and ?cells = "map (ring_cell ?r) [ring_start s..<?H]"
    note S = start_bounds [OF inv] and hS = held_from_start [OF inv h]
    let ?k = "unat h - ?S" and ?item = "ring_slots ?r ! ring_index h"
    have k: "?k < length ?cells" using d(2) hS by simp
    have slots: "ring_slots ?w = ring_slots ?r" by (simp add: yumi_ring_commit_def)
    have cell: "ring_cell ?w q = (if q mod YUMI_RING_CAPACITY = ring_index h then Some ?item else ring_cell ?r q)" for q
      unfolding ring_cell_def ready slots by simp
    have "map (ring_cell ?w) [?S..<?H] = ?cells[?k := Some ?item]"
    proof (rule nth_equalityI)
      fix n assume n: "n < length (map (ring_cell ?w) [?S..<?H])"
      show "map (ring_cell ?w) [?S..<?H] ! n = ?cells[?k := Some ?item] ! n"
      proof (cases "n = ?k")
        case True
        then have "?S + n = unat h" using hS by simp
        then have "ring_cell ?w (?S + n) = Some ?item" unfolding cell by (simp add: ring_index)
        then show ?thesis using n True k by simp
      next
        case False
        then have "?S + n \<noteq> unat h" by auto
        moreover have "?S + n < ?H" using n by simp
        ultimately have "(?S + n) mod YUMI_RING_CAPACITY \<noteq> unat h mod YUMI_RING_CAPACITY"
          using same_slot [of "?S + n" YUMI_RING_CAPACITY "unat h" ?T] S(1) d(1,2) win(2) by auto
        then have "ring_cell ?w (?S + n) = ring_cell ?r (?S + n)" unfolding cell by (simp add: ring_index)
        then show ?thesis using n False by simp
      qed
    qed simp
    moreover have "?cells ! ?k = None" using k hS d(3) by (simp add: ring_cell_def ring_index)
    moreover have "ring_abs (s\<lparr>rs_ring := ?w, rs_producers := ?P\<rparr>) = (map (ring_cell ?w) [?S..<?H], rs_out s)"
      by (simp add: ring_abs_def ring_start_def yumi_ring_commit_def cong: consumer.case_cong)
    ultimately show ?thesis using fifo_step.fill [OF k, of "rs_out s" ?item] by (simp add: ring_abs_def)
  qed
  ultimately show ?thesis by (simp add: ring_inv_def)
qed

text \<open>Moving the head reserves a position.\<close>

lemma cas_reserves:
  assumes inv: "ring_inv s" and cas: "rs_producers s i = PCas c (ring_head (rs_ring s)) a b"
    and room: "unat (ring_head (rs_ring s)) + 1 < 2 ^ 64"
  shows "ring_inv (s\<lparr>rs_ring := (rs_ring s)\<lparr>ring_head := ring_head (rs_ring s) + 1\<rparr>,
        rs_producers := (rs_producers s)(i := PFill c (ring_head (rs_ring s)))\<rparr>)
    \<and> fifo_step (ring_abs s) (ring_abs (s\<lparr>rs_ring := (rs_ring s)\<lparr>ring_head := ring_head (rs_ring s) + 1\<rparr>,
        rs_producers := (rs_producers s)(i := PFill c (ring_head (rs_ring s)))\<rparr>))"
proof -
  let ?r = "rs_ring s" and ?h = "ring_head (rs_ring s)" and ?w = "(rs_ring s)\<lparr>ring_head := ring_head (rs_ring s) + 1\<rparr>"
  let ?P = "(rs_producers s)(i := PFill c ?h)" and ?T = "unat (ring_tail (rs_ring s))"
  note parts = inv_parts [OF inv] and win = window_okD [OF inv_parts(1) [OF inv]]
  have up: "unat (?h + 1) = Suc (unat ?h)" using room unat_add_lem [of ?h 1] by simp
  have lt: "unat ?h < ?T + YUMI_RING_CAPACITY" by (rule casD [OF parts(2) cas])
  have free: "\<not> ring_ready ?r ! ring_index ?h"
  proof
    assume "ring_ready ?r ! ring_index ?h"
    then obtain p where p: "?T \<le> p" "p < unat ?h" "p mod YUMI_RING_CAPACITY = unat ?h mod YUMI_RING_CAPACITY"
      using ready_position [OF parts(1), of "unat ?h"] unfolding ring_index by blast
    then show False using same_slot [of p YUMI_RING_CAPACITY "unat ?h" ?T] lt win(1) by simp
  qed
  have "window_ok ?w" unfolding window_ok_def
  proof (intro conjI allI impI)
    fix k assume "k < YUMI_RING_CAPACITY" "ring_ready ?w ! k"
    then obtain p where "?T \<le> p" "p < unat ?h" "p mod YUMI_RING_CAPACITY = k"
      using parts(1) unfolding window_ok_def by auto
    then show "\<exists>p\<ge>unat (ring_tail ?w). p < unat (ring_head ?w) \<and> p mod YUMI_RING_CAPACITY = k"
      by (intro exI [of _ p]) (simp add: up)
  qed (use win lt up in simp_all)
  moreover have notyet: "held (rs_producers s j) \<noteq> Some ?h" for j
    using heldD(2) [OF parts(2)] by blast
  have "producers_ok ?w ?P" unfolding producers_ok_def
  proof (intro conjI allI impI)
    fix j g assume g: "held (?P j) = Some g"
    show "unat (ring_tail ?w) \<le> unat g"
      using g heldD(1) [OF parts(2), of j g] win(1) by (auto split: if_splits)
    show "unat g < unat (ring_head ?w)"
      using g heldD(2) [OF parts(2), of j g] by (auto simp: up split: if_splits)
    show "\<not> ring_ready ?w ! ring_index g"
      using g heldD(3) [OF parts(2), of j g] free by (auto split: if_splits)
  next
    fix j k g assume "held (?P j) = Some g \<and> held (?P k) = Some g"
    then show "j = k" using notyet heldD(4) [OF parts(2)] by (auto split: if_splits)
  next
    fix j c' g a' b' assume "?P j = PCas c' g a' b'"
    then have "rs_producers s j = PCas c' g a' b'" by (simp split: if_splits)
    then show "unat g < unat (ring_tail ?w) + YUMI_RING_CAPACITY" using casD [OF parts(2)] by simp
  qed
  moreover have "consumer_ok ?w ?P (rs_consumer s)"
    using parts(3) by (auto simp: consumer_ok_def up split: consumer.splits)
  moreover have "fifo_step (ring_abs s) (ring_abs (s\<lparr>rs_ring := ?w, rs_producers := ?P\<rparr>))"
  proof -
    note S = start_bounds [OF inv]
    have "length (map (ring_cell ?r) [ring_start s..<unat ?h]) < YUMI_RING_CAPACITY" using S lt by simp
    moreover have "ring_cell ?w = ring_cell ?r" by (simp add: fun_eq_iff ring_cell_def)
    moreover have "ring_cell ?r (unat ?h) = None" using free by (simp add: ring_cell_def ring_index)
    ultimately show ?thesis
      using fifo_step.reserve [of "map (ring_cell ?r) [ring_start s..<unat ?h]" "rs_out s"] S(2) up
      by (simp add: ring_abs_def ring_start_def cong: consumer.case_cong)
  qed
  ultimately show ?thesis by (simp add: ring_inv_def)
qed

section \<open>The steps of the consumer\<close>

lemma clear_hidden:
  assumes inv: "ring_inv s" and c: "rs_consumer s = CClear t"
  shows "ring_inv (s\<lparr>rs_ring := (rs_ring s)\<lparr>ring_ready := (ring_ready (rs_ring s))[ring_index t := False]\<rparr>, rs_consumer := CTail t\<rparr>)
    \<and> ring_abs (s\<lparr>rs_ring := (rs_ring s)\<lparr>ring_ready := (ring_ready (rs_ring s))[ring_index t := False]\<rparr>, rs_consumer := CTail t\<rparr>) = ring_abs s"
proof -
  let ?r = "rs_ring s" and ?w = "(rs_ring s)\<lparr>ring_ready := (ring_ready (rs_ring s))[ring_index t := False]\<rparr>" and ?T = "unat (ring_tail (rs_ring s))"
  note parts = inv_parts [OF inv] and win = window_okD [OF inv_parts(1) [OF inv]]
  have t: "t = ring_tail ?r" "unat t < unat (ring_head ?r)" "ring_ready ?r ! ring_index t"
    using parts(3) unfolding consumer_ok_def c consumer.case by blast+
  have len: "ring_index t < length (ring_ready ?r)" using win(4) ring_index_lt by simp
  have ready: "ring_ready ?w ! k = (k \<noteq> ring_index t \<and> ring_ready ?r ! k)" for k
    using len by (auto simp: nth_list_update)
  have "window_ok ?w" using parts(1) unfolding window_ok_def ready by simp
  moreover have "producers_ok ?w (rs_producers s)"
    using parts(2) unfolding producers_ok_def ready by simp
  moreover have "\<forall>i. held (rs_producers s i) \<noteq> Some t" using heldD(3) [OF parts(2)] t(3) by blast
  then have "consumer_ok ?w (rs_producers s) (CTail t)" using t unfolding consumer_ok_def consumer.case ready by simp
  moreover have "ring_cell ?w q = ring_cell ?r q" if "Suc ?T \<le> q" "q < unat (ring_head ?r)" for q
  proof -
    have "q mod YUMI_RING_CAPACITY \<noteq> ring_index t"
      using same_slot [of q YUMI_RING_CAPACITY ?T ?T] that win(2) unfolding ring_index t(1) by auto
    then show ?thesis unfolding ring_cell_def ready by simp
  qed
  ultimately show ?thesis by (simp add: ring_inv_def ring_abs_def ring_start_def c)
qed

lemma tail_hidden:
  assumes inv: "ring_inv s" and c: "rs_consumer s = CTail t"
  shows "ring_inv (s\<lparr>rs_ring := (rs_ring s)\<lparr>ring_tail := t + 1\<rparr>, rs_consumer := CIdle\<rparr>)
    \<and> ring_abs (s\<lparr>rs_ring := (rs_ring s)\<lparr>ring_tail := t + 1\<rparr>, rs_consumer := CIdle\<rparr>) = ring_abs s"
proof -
  let ?r = "rs_ring s" and ?w = "(rs_ring s)\<lparr>ring_tail := t + 1\<rparr>" and ?T = "unat (ring_tail (rs_ring s))"
  note parts = inv_parts [OF inv] and win = window_okD [OF inv_parts(1) [OF inv]]
  have t: "t = ring_tail ?r" "unat t < unat (ring_head ?r)" "\<not> ring_ready ?r ! ring_index t" "\<forall>i. held (rs_producers s i) \<noteq> Some t"
    using parts(3) unfolding consumer_ok_def c consumer.case by blast+
  have up: "unat (t + 1) = Suc ?T"
  proof -
    have "unat (ring_head ?r) < 2 ^ LENGTH(64)" by (rule unsigned_less)
    then show ?thesis using t(1,2) unat_add_lem [of t 1] by simp
  qed
  have "window_ok ?w" unfolding window_ok_def
  proof (intro conjI allI impI)
    fix k assume "k < YUMI_RING_CAPACITY" "ring_ready ?w ! k"
    then obtain p where p: "?T \<le> p" "p < unat (ring_head ?r)" "p mod YUMI_RING_CAPACITY = k" "ring_ready ?r ! k"
      using parts(1) unfolding window_ok_def by auto
    then have "p \<noteq> ?T" using t(1,3) by (auto simp: ring_index)
    then show "\<exists>p\<ge>unat (ring_tail ?w). p < unat (ring_head ?w) \<and> p mod YUMI_RING_CAPACITY = k"
      using p by (intro exI [of _ p]) (simp add: up)
  qed (use win t(1,2) up in simp_all)
  moreover have "producers_ok ?w (rs_producers s)" unfolding producers_ok_def
  proof (intro conjI allI impI)
    fix j g assume g: "held (rs_producers s j) = Some g"
    have "g \<noteq> t" using g t(4) by auto
    then have "unat g \<noteq> ?T" unfolding t(1) by (simp add: word_unat_eq_iff)
    then show "unat (ring_tail ?w) \<le> unat g" using heldD(1) [OF parts(2) g] by (simp add: up)
    show "unat g < unat (ring_head ?w)" "\<not> ring_ready ?w ! ring_index g" using heldD(2,3) [OF parts(2) g] by simp_all
  next
    fix j k g assume "held (rs_producers s j) = Some g \<and> held (rs_producers s k) = Some g"
    then show "j = k" using heldD(4) [OF parts(2)] by blast
  next
    fix j c' g a' b' assume "rs_producers s j = PCas c' g a' b'"
    then show "unat g < unat (ring_tail ?w) + YUMI_RING_CAPACITY" using casD [OF parts(2), of j c' g a' b'] by (simp add: up)
  qed
  ultimately show ?thesis
    by (simp add: ring_inv_def ring_abs_def ring_start_def c up consumer_ok_def) (simp add: fun_eq_iff ring_cell_def)
qed

text \<open>Copying the item out takes it from the queue.\<close>

lemma take_takes:
  assumes inv: "ring_inv s" and c: "rs_consumer s = CTake t"
  shows "ring_inv (s\<lparr>rs_consumer := CClear t, rs_out := rs_out s @ [ring_slots (rs_ring s) ! ring_index t]\<rparr>)
    \<and> fifo_step (ring_abs s) (ring_abs (s\<lparr>rs_consumer := CClear t, rs_out := rs_out s @ [ring_slots (rs_ring s) ! ring_index t]\<rparr>))"
proof -
  let ?r = "rs_ring s" and ?T = "unat (ring_tail (rs_ring s))" and ?item = "ring_slots (rs_ring s) ! ring_index t"
  note parts = inv_parts [OF inv]
  have t: "t = ring_tail ?r" "unat t < unat (ring_head ?r)" "ring_ready ?r ! ring_index t"
    using parts(3) unfolding consumer_ok_def c consumer.case by blast+
  have first: "ring_cell ?r ?T = Some ?item" using t(1,3) by (simp add: ring_cell_def ring_index)
  have "map (ring_cell ?r) [?T..<unat (ring_head ?r)] = Some ?item # map (ring_cell ?r) [Suc ?T..<unat (ring_head ?r)]"
    using t(1,2) first by (simp add: upt_conv_Cons)
  then have "fifo_step (map (ring_cell ?r) [?T..<unat (ring_head ?r)], rs_out s)
      (map (ring_cell ?r) [Suc ?T..<unat (ring_head ?r)], rs_out s @ [?item])"
    by (simp only: fifo_step.take)
  then show ?thesis using parts t by (simp add: ring_inv_def ring_abs_def ring_start_def c consumer_ok_def)
qed

section \<open>All steps\<close>

lemma ring_quiet:
  assumes inv: "ring_inv s" and p: "held p = None"
    "\<And>c h a b. p = PCas c h a b \<Longrightarrow> unat h < unat (ring_tail (rs_ring s)) + YUMI_RING_CAPACITY"
  shows "ring_inv (s\<lparr>rs_producers := (rs_producers s)(i := p)\<rparr>) \<and> ring_abs (s\<lparr>rs_producers := (rs_producers s)(i := p)\<rparr>) = ring_abs s"
  using producer_moves [OF inv_parts(2,3) [OF inv] p, where i = i] inv_parts(1) [OF inv]
  by (simp add: ring_inv_def ring_abs_def ring_start_def cong: consumer.case_cong)

lemma fifo_same: "a = b \<Longrightarrow> fifo_step a b"
  by (simp add: fifo_step.skip)

lemma run_refines:
  assumes inv: "ring_inv s" and room: "unat (ring_head (rs_ring s)) + 1 < 2 ^ 64"
    and run: "producer_step spurious (rs_ring s) (rs_producers s i) = (r, p)"
  shows "ring_inv (s\<lparr>rs_ring := r, rs_producers := (rs_producers s)(i := p)\<rparr>)
    \<and> fifo_step (ring_abs s) (ring_abs (s\<lparr>rs_ring := r, rs_producers := (rs_producers s)(i := p)\<rparr>))
    \<and> unat (ring_head r) \<le> Suc (unat (ring_head (rs_ring s)))"
proof -
  let ?S = "\<lambda>r p. s\<lparr>rs_ring := r, rs_producers := (rs_producers s)(i := p)\<rparr>"
  have quiet: "ring_inv (?S (rs_ring s) p) \<and> fifo_step (ring_abs s) (ring_abs (?S (rs_ring s) p))"
    if "held p = None" "\<And>c h a b. p = PCas c h a b \<Longrightarrow> unat h < unat (ring_tail (rs_ring s)) + YUMI_RING_CAPACITY"
    using ring_quiet [OF inv that, where i = i] by (simp add: fifo_same)
  show ?thesis
  proof (cases "rs_producers s i")
    case (PTail c h a b)
    have "r = rs_ring s \<and> held p = None \<and> (\<forall>c' g a' b'. p = PCas c' g a' b' \<longrightarrow> unat g < unat (ring_tail (rs_ring s)) + YUMI_RING_CAPACITY)"
      using run not_full [of h "ring_tail (rs_ring s)"] by (auto simp: PTail split: if_splits option.splits)
    then show ?thesis using quiet by auto
  next
    case (PCas c h a b)
    show ?thesis
    proof (cases "ring_head (rs_ring s) = h \<and> \<not> (spurious \<and> c \<noteq> TryReserve)")
      case True
      then have h: "rs_producers s i = PCas c (ring_head (rs_ring s)) a b" using PCas by simp
      have "unat (ring_head (rs_ring s) + 1) = Suc (unat (ring_head (rs_ring s)))" using room unat_add_lem [of "ring_head (rs_ring s)" 1] by simp
      then show ?thesis using cas_reserves [OF inv h room] run True PCas by auto
    next
      case False
      then have "r = rs_ring s \<and> held p = None \<and> (\<forall>c' g a' b'. p \<noteq> PCas c' g a' b')"
        using run by (auto simp: PCas split: if_splits)
      then show ?thesis using quiet by auto
    qed
  next
    case (PFill c h)
    show ?thesis
    proof (cases c)
      case (Push item)
      have x: "r = slot_write h item (rs_ring s)" "p = PCommit h" using run by (auto simp: PFill Push slot_write_def)
      have "held (rs_producers s i) = Some h" "held p = Some h" by (simp_all add: PFill x)
      from write_hidden [OF inv this, of item] show ?thesis by (simp add: x fifo_same) (simp add: slot_write_def)
    qed (use run quiet PFill in \<open>auto simp: fun_upd_idem inv fifo_same\<close>)
  next
    case (PCommit h)
    have x: "r = yumi_ring_commit (ring_index h) (rs_ring s)" "p = PReturn True" using run by (auto simp: PCommit yumi_ring_commit_def)
    have "held (rs_producers s i) = Some h" by (simp add: PCommit)
    from commit_fills [OF inv this] show ?thesis by (simp add: x) (simp add: yumi_ring_commit_def)
  next
    case (PLoad c a b)
    then show ?thesis using run quiet by auto
  qed (use run in \<open>auto simp: inv fifo_same fun_upd_idem\<close>)
qed

lemma consume_refines:
  assumes inv: "ring_inv s" and run: "consumer_step (rs_ring s) (rs_consumer s) = (r, c, taken)"
  shows "ring_inv (s\<lparr>rs_ring := r, rs_consumer := c, rs_out := rs_out s @ taken\<rparr>)
    \<and> fifo_step (ring_abs s) (ring_abs (s\<lparr>rs_ring := r, rs_consumer := c, rs_out := rs_out s @ taken\<rparr>))
    \<and> ring_head r = ring_head (rs_ring s)"
proof -
  note parts = inv_parts [OF inv]
  have quiet: "ring_inv (s\<lparr>rs_consumer := c\<rparr>) \<and> fifo_step (ring_abs s) (ring_abs (s\<lparr>rs_consumer := c\<rparr>))"
    if "consumer_ok (rs_ring s) (rs_producers s) c" "ring_start (s\<lparr>rs_consumer := c\<rparr>) = ring_start s" for c
    using parts that by (simp add: ring_inv_def ring_abs_def fifo_step.skip)
  show ?thesis
  proof (cases "rs_consumer s")
    case CIdle
    then show ?thesis using run quiet [of "CHead (ring_tail (rs_ring s))"] by (auto simp: consumer_ok_def ring_start_def)
  next
    case (CHead t)
    then have t: "t = ring_tail (rs_ring s)" using parts(3) by (simp add: consumer_ok_def)
    show ?thesis using run quiet [of CIdle] quiet [of "CReady t"] t
      by (auto simp: CHead consumer_ok_def ring_start_def word_le_nat_alt split: if_splits)
  next
    case (CReady t)
    then have t: "t = ring_tail (rs_ring s)" "unat t < unat (ring_head (rs_ring s))" using parts(3) by (auto simp: consumer_ok_def)
    show ?thesis using run quiet [of CIdle] quiet [of "CTake t"] t
      by (auto simp: CReady consumer_ok_def ring_start_def split: if_splits)
  next
    case (CTake t)
    then show ?thesis using run take_takes [OF inv CTake] by auto
  next
    case (CClear t)
    then show ?thesis using run clear_hidden [OF inv CClear] by (auto simp: fifo_same)
  next
    case (CTail t)
    then show ?thesis using run tail_hidden [OF inv CTail] by (auto simp: fifo_same)
  qed
qed

lemma ring_step_refines:
  assumes "ring_step s s'" and inv: "ring_inv s" and room: "unat (ring_head (rs_ring s)) + 1 < 2 ^ 64"
  shows "ring_inv s' \<and> fifo_step (ring_abs s) (ring_abs s') \<and> unat (ring_head (rs_ring s')) \<le> Suc (unat (ring_head (rs_ring s)))"
  using assms(1)
proof cases
  case (call i c)
  then show ?thesis using ring_quiet [OF inv, where p = "PLoad c 0 0" and i = i] by (simp add: fifo_same)
next
  case (run spurious i r p)
  then show ?thesis using run_refines [OF inv room run(2)] by simp
next
  case (write_slot i c h item)
  have "held (rs_producers s i) = Some h" by (simp add: write_slot)
  moreover have "(rs_producers s)(i := rs_producers s i) = rs_producers s" by simp
  ultimately show ?thesis using write_hidden [OF inv, of i h "rs_producers s i" item] write_slot(1)
    by (simp add: fifo_same) (simp add: slot_write_def)
next
  case (commit i c h)
  have "held (rs_producers s i) = Some h" by (simp add: commit)
  from commit_fills [OF inv this] show ?thesis by (simp add: commit(1)) (simp add: yumi_ring_commit_def)
next
  case (consume r c taken)
  then show ?thesis using consume_refines [OF inv consume(2)] by simp
next
  case (peeked t)
  have "ring_inv s' \<and> ring_abs s' = ring_abs s"
    using inv peeked by (simp add: ring_inv_def ring_abs_def ring_start_def consumer_ok_def)
  then show ?thesis using peeked(1) by (simp add: fifo_same)
qed

lemma new_ring_ok:
  assumes "yumi_ring_create True True True = Some r"
  shows "ring_inv \<lparr>rs_ring = r, rs_producers = \<lambda>i. PIdle, rs_consumer = CIdle, rs_out = []\<rparr>
    \<and> ring_abs \<lparr>rs_ring = r, rs_producers = \<lambda>i. PIdle, rs_consumer = CIdle, rs_out = []\<rparr> = ([], []) \<and> ring_head r = 0"
  using assms by (auto simp: yumi_ring_create_def ring_inv_def window_ok_def producers_ok_def consumer_ok_def ring_abs_def ring_start_def)

lemma ring_reachable_inv:
  assumes "ring_reachable n s" and "n < 2 ^ 64"
  shows "ring_inv s \<and> fifo_step\<^sup>*\<^sup>* ([], []) (ring_abs s) \<and> unat (ring_head (rs_ring s)) \<le> n"
  using assms
proof induction
  case (new r)
  then show ?case using new_ring_ok [OF new(1)] by simp
next
  case (step n s s')
  then have ih: "ring_inv s" "fifo_step\<^sup>*\<^sup>* ([], []) (ring_abs s)" "unat (ring_head (rs_ring s)) \<le> n" by simp_all
  have "unat (ring_head (rs_ring s)) + 1 < 2 ^ 64" using ih(3) step.prems by simp
  from ring_step_refines [OF step.hyps(2) ih(1) this] ih show ?case by (meson le_trans not_less_eq_eq rtranclp.rtrancl_into_rtrancl Suc_le_mono)
qed

section \<open>Properties\<close>


text \<open>One producer on its own.\<close>

fun run_alone :: "nat \<Rightarrow> yumi_ring_t \<Rightarrow> producer \<Rightarrow> yumi_ring_t \<times> producer" where
  "run_alone 0 r p = (r, p)"
| "run_alone (Suc k) r p = (case producer_step False r p of (r', p') \<Rightarrow> run_alone k r' p')"

lemma run_alone_reachable:
  assumes "ring_reachable n s" and "run_alone k (rs_ring s) (rs_producers s i) = (r, p)"
  shows "ring_reachable (n + k) (s\<lparr>rs_ring := r, rs_producers := (rs_producers s)(i := p)\<rparr>)"
  using assms
proof (induction k arbitrary: n s)
  case 0
  then have "s\<lparr>rs_ring := r, rs_producers := (rs_producers s)(i := p)\<rparr> = s" by (cases s) (auto simp: fun_upd_idem)
  then show ?case unfolding add_0_right by (simp only: 0(1))
next
  case (Suc k)
  obtain r' p' where x: "producer_step False (rs_ring s) (rs_producers s i) = (r', p')"
    by (cases "producer_step False (rs_ring s) (rs_producers s i)")
  have "ring_reachable (Suc n) (s\<lparr>rs_ring := r', rs_producers := (rs_producers s)(i := p')\<rparr>)"
    by (rule ring_reachable.step [OF Suc.prems(1) ring_step.run [OF x]])
  from Suc.IH [OF this] Suc.prems(2) x show ?case by (simp add: fun_upd_def cong: if_cong)
qed

definition ring_pushed :: "yumi_work_item_t \<Rightarrow> yumi_ring_t \<Rightarrow> yumi_ring_t" where
  "ring_pushed item r = r\<lparr>ring_head := ring_head r + 1, ring_slots := (ring_slots r)[ring_index (ring_head r) := item],
     ring_ready := (ring_ready r)[ring_index (ring_head r) := True]\<rparr>"

lemma push_free:
  assumes "\<not> of_nat YUMI_RING_CAPACITY \<le> ring_head r - ring_tail r"
  shows "run_alone 5 r (PLoad (Push item) a b) = (ring_pushed item r, PReturn True)"
  using assms by (simp add: eval_nat_numeral ring_pushed_def)

lemma push_full:
  assumes full: "of_nat YUMI_RING_CAPACITY \<le> ring_head r - ring_tail r" and "c \<noteq> TryReserve"
    and "a \<le> YUMI_RING_SPIN_MAX" and "b \<le> YUMI_RING_SLEEP_MAX"
  shows "run_alone (2 * (Suc (YUMI_RING_SPIN_MAX - a) + (YUMI_RING_SLEEP_MAX - b))) r (PLoad c a b) = (r, PReturn False)"
  using assms(3,4)
proof (induction "(YUMI_RING_SPIN_MAX - a) + (YUMI_RING_SLEEP_MAX - b)" arbitrary: a b)
  case 0
  then have "a = YUMI_RING_SPIN_MAX" "b = YUMI_RING_SLEEP_MAX" by simp_all
  then show ?case using full assms(2) by (simp add: ring_backpressure_def numeral_2_eq_2)
next
  case (Suc m)
  obtain a' b' where next': "ring_backpressure a b = Some (a', b')" "a' \<le> YUMI_RING_SPIN_MAX" "b' \<le> YUMI_RING_SLEEP_MAX"
    "m = (YUMI_RING_SPIN_MAX - a') + (YUMI_RING_SLEEP_MAX - b')"
  proof (cases "a < YUMI_RING_SPIN_MAX")
    case True
    then show thesis using Suc(2-4) by (intro that [of "a + 1" b]) (simp_all add: ring_backpressure_def)
  next
    case False
    then show thesis using Suc(2-4) by (intro that [of a "b + 1"]) (simp_all add: ring_backpressure_def)
  qed
  have len: "2 * (Suc (YUMI_RING_SPIN_MAX - a) + (YUMI_RING_SLEEP_MAX - b))
      = Suc (Suc (2 * (Suc (YUMI_RING_SPIN_MAX - a') + (YUMI_RING_SLEEP_MAX - b'))))"
    using Suc(2) next'(4) by simp
  show ?case unfolding len using Suc(1) [OF next'(4,2,3)] full assms(2) next'(1) by simp
qed

text \<open>The calls of one thread on its own: what its accesses amount to.\<close>

definition yumi_ring_push :: "yumi_work_item_t \<Rightarrow> yumi_ring_t \<Rightarrow> bool \<times> yumi_ring_t" where
  "yumi_ring_push item r =
     (if of_nat YUMI_RING_CAPACITY \<le> ring_head r - ring_tail r then (False, r) else (True, ring_pushed item r))"

definition yumi_ring_reserve :: "yumi_ring_t \<Rightarrow> (nat \<times> yumi_ring_t) option" where
  "yumi_ring_reserve r =
     (if of_nat YUMI_RING_CAPACITY \<le> ring_head r - ring_tail r then None
      else Some (ring_index (ring_head r), r\<lparr>ring_head := ring_head r + 1\<rparr>))"

definition yumi_ring_try_reserve :: "yumi_ring_t \<Rightarrow> (nat \<times> yumi_ring_t) option" where
  "yumi_ring_try_reserve r =
     (if of_nat YUMI_RING_CAPACITY \<le> ring_head r - ring_tail r then None
      else Some (ring_index (ring_head r), r\<lparr>ring_head := ring_head r + 1\<rparr>))"

text \<open>
  C32. Termination.  A push that nobody interferes with always returns: when the ring has room it
  succeeds and leaves exactly its item, committed, at the head; when the ring stays full it gives up
  after the 256 spins and 1000 sleeps (at most 2514 accesses), with the ring unchanged.
\<close>

theorem push_returns:
  "\<exists>k\<le>2514. run_alone k r (PLoad (Push item) 0 0) = (case yumi_ring_push item r of (ok, r') \<Rightarrow> (r', PReturn ok))"
  using push_full [of r "Push item" 0 0] push_free [of r item 0 0]
  by (cases "of_nat YUMI_RING_CAPACITY \<le> ring_head r - ring_tail r")
     (auto simp: yumi_ring_push_def intro: exI [of _ 2514] exI [of _ 5])

lemma reserve_alone:
  "yumi_ring_reserve r = Some (slot, r') \<Longrightarrow> run_alone 3 r (PLoad Reserve a b) = (r', PFill Reserve (ring_head r)) \<and> slot = ring_index (ring_head r)"
  "yumi_ring_try_reserve r = Some (slot, r') \<Longrightarrow> run_alone 3 r (PLoad TryReserve a b) = (r', PFill TryReserve (ring_head r)) \<and> slot = ring_index (ring_head r)"
  "yumi_ring_try_reserve r = None \<Longrightarrow> run_alone 2 r (PLoad TryReserve a b) = (r, PReturn False)"
  by (auto simp: yumi_ring_reserve_def yumi_ring_try_reserve_def eval_nat_numeral split: if_splits)

fun consume_alone :: "nat \<Rightarrow> yumi_ring_t \<Rightarrow> consumer \<Rightarrow> yumi_ring_t \<times> consumer \<times> yumi_work_item_t list" where
  "consume_alone 0 r c = (r, c, [])"
| "consume_alone (Suc k) r c = (case consumer_step r c of (r', c', taken) \<Rightarrow>
     case consume_alone k r' c' of (r'', c'', rest) \<Rightarrow> (r'', c'', taken @ rest))"

lemma pop_alone:
  "yumi_ring_pop r = Some (item, r') \<Longrightarrow> consume_alone 6 r CIdle = (r', CIdle, [item])"
  "yumi_ring_pop r = map_option (\<lambda>item. (item, yumi_ring_advance r)) (yumi_ring_peek r)"
  by (auto simp: yumi_ring_pop_def yumi_ring_peek_def yumi_ring_advance_def eval_nat_numeral split: if_splits)

text \<open>A push and a pop on a new ring.\<close>

definition ring_start_state :: ring_sys where
  "ring_start_state = \<lparr>rs_ring = the (yumi_ring_create True True True), rs_producers = (\<lambda>i. PIdle), rs_consumer = CIdle, rs_out = []\<rparr>"


end
