(* ===== verification/Handle_Table.thy ===== *)
theory Handle_Table imports Prelude
begin

text \<open>
  The table of integer handles that host objects are passed to guests with
  (\<open>src/include/handle_table.h\<close>).  Pointers are any type \<open>'p\<close>; \<open>NULL\<close> is \<open>None\<close>.  An access outside an
  array is the result \<open>None\<close>; \<open>realloc\<close> and \<open>calloc\<close>, whose results the code does not look at, succeed.
\<close>

section \<open>The table\<close>

record 'p HandleTable =
  slots :: "'p option list"
  generations :: "u32 list"
  capacity :: u32
  freelist :: "u32 list"
  free_count :: u32

text \<open>The stack of the free slots \<open>from, \<dots>, upto - 1\<close>: the lowest is on top.\<close>

definition free_stack :: "u32 \<Rightarrow> nat \<Rightarrow> u32 list" where
  "free_stack cap n = map (\<lambda>i. cap - 1 - of_nat i) [0..<n]"

definition htable_init :: "u32 \<Rightarrow> 'p HandleTable" where
  "htable_init initial_cap =
     \<lparr>slots = replicate (unat initial_cap) None, generations = replicate (unat initial_cap) 0, capacity = initial_cap,
      freelist = free_stack initial_cap (unat initial_cap), free_count = initial_cap\<rparr>"

definition htable_destroy :: "'p HandleTable \<Rightarrow> 'p HandleTable" where
  "htable_destroy t = \<lparr>slots = [], generations = [], capacity = 0, freelist = [], free_count = 0\<rparr>"

definition htable_grow :: "'p HandleTable \<Rightarrow> 'p HandleTable" where
  "htable_grow t =
     (let old_cap = capacity t; new_cap = old_cap * 2; added = new_cap - old_cap in
      t\<lparr>slots := take (unat new_cap) (slots t) @ replicate (unat added) None,
        generations := take (unat new_cap) (generations t) @ replicate (unat added) 0,
        freelist := free_stack new_cap (unat added) @ drop (unat added) (take (unat new_cap) (freelist t) @ replicate (unat added) 0),
        free_count := added, capacity := new_cap\<rparr>)"

definition htable_insert :: "'p HandleTable \<Rightarrow> 'p option \<Rightarrow> (u32 \<times> 'p HandleTable) option" where
  "htable_insert t ptr =
     (if ptr = None then Some (0, t)
      else let t = (if free_count t = 0 then htable_grow t else t);
               top = free_count t - 1
           in if unat top < length (freelist t)
              then let idx = freelist t ! unat top in
                if unat idx < length (slots t)
                then Some (idx + 1, t\<lparr>free_count := top, slots := (slots t)[unat idx := ptr]\<rparr>)
                else None
              else None)"

definition htable_get :: "'p HandleTable \<Rightarrow> u32 \<Rightarrow> 'p option" where
  "htable_get t handle = (if handle = 0 \<or> capacity t < handle then None else slots t ! unat (handle - 1))"

definition htable_remove :: "'p HandleTable \<Rightarrow> u32 \<Rightarrow> 'p HandleTable option" where
  "htable_remove t handle =
     (if handle = 0 \<or> capacity t < handle then Some t
      else let idx = unat (handle - 1) in
        if unat (free_count t) < length (freelist t)
        then Some (t\<lparr>slots := (slots t)[idx := None], generations := (generations t)[idx := generations t ! idx + 1],
               freelist := (freelist t)[unat (free_count t) := handle - 1], free_count := free_count t + 1\<rparr>)
        else None)"

section \<open>Well-formed tables\<close>

text \<open>The stack lists each empty slot once, and nothing else.\<close>

definition free_slots :: "'p HandleTable \<Rightarrow> nat list" where
  "free_slots t = map unat (take (unat (free_count t)) (freelist t))"

definition htable_ok :: "'p HandleTable \<Rightarrow> bool" where
  "htable_ok t \<longleftrightarrow> 0 < capacity t \<and> length (slots t) = unat (capacity t) \<and> length (generations t) = unat (capacity t)
     \<and> length (freelist t) = unat (capacity t) \<and> unat (free_count t) \<le> unat (capacity t)
     \<and> distinct (free_slots t) \<and> set (free_slots t) = {i. i < unat (capacity t) \<and> slots t ! i = None}"

lemma unat_pred: "0 < (x :: u32) \<Longrightarrow> unat (x - 1) = unat x - 1"
  by (rule unat_minus_one) auto

lemma htable_okD:
  assumes "htable_ok t"
  shows "0 < capacity t" "length (slots t) = unat (capacity t)" "length (generations t) = unat (capacity t)"
    "length (freelist t) = unat (capacity t)" "unat (free_count t) \<le> unat (capacity t)" "distinct (free_slots t)"
    "set (free_slots t) = {i. i < unat (capacity t) \<and> slots t ! i = None}"
  using assms by (simp_all add: htable_ok_def)

lemma free_stack_nth:
  assumes "n \<le> unat cap" "i < n"
  shows "unat (free_stack cap n ! i) = unat cap - 1 - i"
proof -
  have "0 < cap" using assms by (metis gr_implies_not0 le_zero_eq unat_0 word_neq_0_conv)
  moreover have "unat (of_nat i :: u32) = i"
  proof -
    have "unat cap < 2 ^ LENGTH(32)" by (rule unsigned_less)
    then show ?thesis using assms by (simp add: unat_of_nat)
  qed
  ultimately have "unat (cap - 1 - of_nat i) = unat cap - 1 - i"
    using assms unat_pred [of cap] unat_sub [of "of_nat i" "cap - 1"] by (simp add: word_le_nat_alt)
  then show ?thesis using assms by (simp add: free_stack_def)
qed

lemma free_stack_all:
  assumes "n \<le> unat cap"
  shows "map unat (free_stack cap n) = map (\<lambda>i. unat cap - 1 - i) [0..<n]"
  by (rule nth_equalityI) (use free_stack_nth [OF assms] in \<open>simp_all add: free_stack_def\<close>)

lemma stack_set:
  assumes "n \<le> (c :: nat)"
  shows "(\<lambda>i. c - 1 - i) ` {0..<n} = {c - n..<c}"
proof
  show "{c - n..<c} \<subseteq> (\<lambda>i. c - 1 - i) ` {0..<n}"
  proof
    fix x assume "x \<in> {c - n..<c}"
    then have "x = c - 1 - (c - 1 - x)" "c - 1 - x \<in> {0..<n}" using assms by auto
    then show "x \<in> (\<lambda>i. c - 1 - i) ` {0..<n}" by blast
  qed
qed (use assms in auto)

lemma stack_distinct: "n \<le> c \<Longrightarrow> distinct (map (\<lambda>i. c - 1 - i :: nat) [0..<n])"
  by (auto simp: distinct_map inj_on_def)

lemma table_init_ok:
  assumes "0 < cap"
  shows "htable_ok (htable_init cap)"
proof -
  have "length (free_stack cap (unat cap)) = unat cap" by (simp add: free_stack_def)
  moreover from this have "free_slots (htable_init cap :: 'a HandleTable) = map (\<lambda>i. unat cap - 1 - i) [0..<unat cap]"
    using free_stack_all [of "unat cap" cap] by (simp add: free_slots_def htable_init_def)
  ultimately show ?thesis using assms stack_set [of "unat cap" "unat cap"] stack_distinct [of "unat cap" "unat cap"]
    by (auto simp: htable_ok_def htable_init_def)
qed

text \<open>Growing a full table doubles it; the new slots are free.\<close>

lemma grow_ok:
  assumes ok: "htable_ok t" and full: "free_count t = 0" and room: "unat (capacity t) < 2 ^ 31"
  shows "htable_ok (htable_grow t)" "0 < free_count (htable_grow t)" "capacity (htable_grow t) = capacity t * 2"
    "slots (htable_grow t) = slots t @ replicate (unat (capacity t)) None"
proof -
  note d = htable_okD [OF ok]
  let ?c = "unat (capacity t)"
  have new: "unat (capacity t * 2) = 2 * ?c" using room unat_mult_lem [of "capacity t" 2] by simp
  have add: "capacity t * 2 - capacity t = capacity t" by simp
  have taken: "take (2 * ?c) (xs :: 'b list) = xs" if "length xs = ?c" for xs using that by simp
  note parts = htable_grow_def Let_def new add
  show slots: "slots (htable_grow t) = slots t @ replicate ?c None" using d(2) by (simp add: parts)
  show "capacity (htable_grow t) = capacity t * 2" by (simp add: parts)
  show "0 < free_count (htable_grow t)" using d(1) by (simp add: parts)
  have len: "length (free_stack (capacity t * 2) ?c) = ?c" by (simp add: free_stack_def)
  then have fs: "free_slots (htable_grow t) = map (\<lambda>i. 2 * ?c - 1 - i) [0..<?c]"
    using free_stack_all [of ?c "capacity t * 2"] new by (simp add: free_slots_def parts)
  have live: "slots t ! i \<noteq> None" if "i < ?c" for i using d(7) full that by (auto simp: free_slots_def)
  have "set (free_slots (htable_grow t)) = {?c..<2 * ?c}" unfolding fs using stack_set [of ?c "2 * ?c"] by simp
  also have "\<dots> = {i. i < 2 * ?c \<and> slots (htable_grow t) ! i = None}"
  proof (rule set_eqI)
    fix i show "i \<in> {?c..<2 * ?c} \<longleftrightarrow> i \<in> {i. i < 2 * ?c \<and> slots (htable_grow t) ! i = None}"
      using live [of i] d(2) by (cases "i < 2 * ?c"; cases "i < ?c") (simp_all add: slots nth_append)
  qed
  finally show "htable_ok (htable_grow t)"
    using d(1-4) len stack_distinct [of ?c "2 * ?c"] fs unfolding htable_ok_def
    by (simp add: parts word_neq_0_conv [symmetric] unat_eq_0 [symmetric] new del: unat_eq_0 word_neq_0_conv)
qed

section \<open>The operations on well-formed tables\<close>

lemma get_index:
  assumes "h \<noteq> 0" "h \<le> capacity t"
  shows "htable_get t h = slots t ! (unat h - 1)" "unat h - 1 < unat (capacity t)"
proof -
  have "0 < h" using assms(1) word_neq_0_conv by blast
  then show "htable_get t h = slots t ! (unat h - 1)" using assms by (simp add: htable_get_def unat_pred not_less [symmetric])
  show "unat h - 1 < unat (capacity t)" using assms \<open>0 < h\<close> by (simp add: word_le_nat_alt word_less_nat_alt)
qed

text \<open>Popping a free slot and storing a pointer there.\<close>

lemma pop_ok:
  assumes ok: "htable_ok t" and some: "0 < free_count t" and ptr: "ptr \<noteq> None"
  defines "idx \<equiv> freelist t ! unat (free_count t - 1)"
  defines "t' \<equiv> t\<lparr>free_count := free_count t - 1, slots := (slots t)[unat idx := ptr]\<rparr>"
  shows "unat (free_count t - 1) < length (freelist t)" "unat idx < length (slots t)" "slots t ! unat idx = None" "htable_ok t'"
proof -
  note d = htable_okD [OF ok]
  have pred: "unat (free_count t - 1) = unat (free_count t) - 1" using some by (rule unat_pred)
  have pos: "0 < unat (free_count t)" using some by (simp add: word_less_nat_alt)
  show 1: "unat (free_count t - 1) < length (freelist t)" using pred pos d(4,5) by simp
  have "take (unat (free_count t)) (freelist t) = take (unat (free_count t) - 1) (freelist t) @ [idx]"
    using take_Suc_conv_app_nth [OF 1] pos by (simp add: pred idx_def)
  then have fs: "free_slots t = free_slots t' @ [unat idx]" by (simp add: free_slots_def t'_def pred)
  then have "unat idx \<in> set (free_slots t)" by simp
  then show 2: "unat idx < length (slots t)" "slots t ! unat idx = None" using d(2,7) by auto
  have "set (free_slots t') = set (free_slots t) - {unat idx}" using fs d(6) by auto
  also have "\<dots> = {i. i < unat (capacity t) \<and> slots t' ! i = None}"
    using d(2,7) 2 ptr by (auto simp: t'_def nth_list_update)
  finally show "htable_ok t'" using d fs pred by (simp add: htable_ok_def t'_def)
qed

lemma handle_of_index:
  assumes "unat (idx :: u32) < unat (cap :: u32)"
  shows "idx + 1 \<noteq> 0" "idx + 1 \<le> cap" "unat (idx + 1) - 1 = unat idx"
proof -
  have "unat cap < 2 ^ LENGTH(32)" by (rule unsigned_less)
  then have "unat (idx + 1) = Suc (unat idx)" using assms unat_add_lem [of idx 1] by simp
  then show "idx + 1 \<noteq> 0" "idx + 1 \<le> cap" "unat (idx + 1) - 1 = unat idx"
    using assms by (auto simp: word_le_nat_alt)
qed

lemma same_handle: "h \<noteq> 0 \<Longrightarrow> g \<noteq> 0 \<Longrightarrow> unat (h :: u32) - 1 = unat g - 1 \<Longrightarrow> h = g"
proof -
  assume "h \<noteq> 0" "g \<noteq> 0" and eq: "unat h - 1 = unat g - 1"
  then have "0 < unat h" "0 < unat g" by (simp_all add: unat_gt_0)
  then show "h = g" using eq by (simp add: word_unat_eq_iff)
qed

definition roomy :: "'p HandleTable \<Rightarrow> bool" where
  "roomy t \<longleftrightarrow> free_count t = 0 \<longrightarrow> unat (capacity t) < 2 ^ 31"

lemma insert_ok:
  assumes ok: "htable_ok t" and room: "roomy t" and ptr: "ptr \<noteq> None"
  shows "\<exists>h t'. htable_insert t ptr = Some (h, t') \<and> h \<noteq> 0 \<and> htable_ok t' \<and> htable_get t h = None
    \<and> (\<forall>g. htable_get t' g = (if g = h then ptr else htable_get t g))"
proof -
  define u where "u = (if free_count t = 0 then htable_grow t else t)"
  have u: "htable_ok u" "0 < free_count u" and cap: "capacity t \<le> capacity u"
    and old: "i < unat (capacity t) \<Longrightarrow> slots u ! i = slots t ! i"
    and new: "unat (capacity t) \<le> i \<Longrightarrow> i < unat (capacity u) \<Longrightarrow> slots u ! i = None" for i
  proof -
    note d = htable_okD [OF ok]
    have "htable_ok u \<and> 0 < free_count u \<and> capacity t \<le> capacity u
      \<and> (\<forall>i. (i < unat (capacity t) \<longrightarrow> slots u ! i = slots t ! i) \<and> (unat (capacity t) \<le> i \<and> i < unat (capacity u) \<longrightarrow> slots u ! i = None))"
    proof (cases "free_count t = 0")
      case True
      then have small: "unat (capacity t) < 2 ^ 31" using room by (simp add: roomy_def)
      note g = grow_ok [OF ok True small]
      have "unat (capacity t * 2) = 2 * unat (capacity t)" using small unat_mult_lem [of "capacity t" 2] by simp
      then show ?thesis using True g d(2) by (auto simp: u_def nth_append word_le_nat_alt)
    next
      case False
      then have "u = t" "0 < free_count t" using word_neq_0_conv by (simp add: u_def, blast)
      then show ?thesis using ok by auto
    qed
    then show "htable_ok u" "0 < free_count u" "capacity t \<le> capacity u"
      "i < unat (capacity t) \<Longrightarrow> slots u ! i = slots t ! i"
      "unat (capacity t) \<le> i \<Longrightarrow> i < unat (capacity u) \<Longrightarrow> slots u ! i = None" for i by blast+
  qed
  let ?idx = "freelist u ! unat (free_count u - 1)"
  let ?t' = "u\<lparr>free_count := free_count u - 1, slots := (slots u)[unat ?idx := ptr]\<rparr>" and ?h = "?idx + 1"
  note p = pop_ok [OF u ptr] and d = htable_okD [OF u(1)]
  have run: "htable_insert t ptr = Some (?h, ?t')"
    unfolding htable_insert_def u_def [symmetric] Let_def using p(1,2) ptr by (simp only: if_True if_False simp_thms)
  have idx: "unat ?idx < unat (capacity u)" using p(2) d(2) by simp
  note h = handle_of_index [OF idx]
  have get: "htable_get ?t' g = (if g = ?h then ptr else htable_get t g)" for g
  proof (cases "g = 0 \<or> capacity u < g")
    case True
    then have "capacity t < g \<or> g = 0" using cap by auto
    then show ?thesis using True h(1,2) by (auto simp: htable_get_def)
  next
    case False
    then have g: "g \<noteq> 0" "g \<le> capacity u" by (simp_all add: not_less)
    have 1: "htable_get ?t' g = slots ?t' ! (unat g - 1)" using get_index(1) [of g ?t'] g by simp
    show ?thesis
    proof (cases "g = ?h")
      case True
      then show ?thesis using 1 h(3) p(2) by simp
    next
      case False
      then have "unat g - 1 \<noteq> unat ?idx" using same_handle [OF g(1) h(1)] h(3) by auto
      then have "htable_get ?t' g = slots u ! (unat g - 1)" using 1 by simp
      also have "\<dots> = htable_get t g"
      proof (cases "g \<le> capacity t")
        case True
        then show ?thesis using get_index [OF g(1) True] old by simp
      next
        case False
        then have "unat (capacity t) \<le> unat g - 1" by (simp add: word_le_nat_alt)
        then show ?thesis using new get_index(2) [OF g] False by (simp add: htable_get_def not_le)
      qed
      finally show ?thesis using False by simp
    qed
  qed
  have "htable_get t ?h = None"
  proof (cases "?h \<le> capacity t")
    case True
    then show ?thesis using get_index [OF h(1) True] h(3) p(3) old by simp
  qed (simp add: htable_get_def not_le)
  then show ?thesis using run h(1) p(4) get by blast
qed

lemma remove_ok:
  assumes ok: "htable_ok t" and live: "htable_get t h \<noteq> None"
  shows "\<exists>t'. htable_remove t h = Some t' \<and> htable_ok t' \<and> (\<forall>g. htable_get t' g = (if g = h then None else htable_get t g))"
proof -
  note d = htable_okD [OF ok]
  have h: "h \<noteq> 0" "h \<le> capacity t" using live by (auto simp: htable_get_def split: if_splits)
  let ?i = "unat h - 1" and ?f = "unat (free_count t)"
  note gi = get_index [OF h]
  have "0 < h" using h(1) word_neq_0_conv by blast
  then have pred: "unat (h - 1) = ?i" by (rule unat_pred)
  have new: "?i \<notin> set (free_slots t)" using d(7) live gi by auto
  have "?f \<noteq> unat (capacity t)"
  proof
    assume "?f = unat (capacity t)"
    then have "card (set (free_slots t)) = unat (capacity t)" using d(4) distinct_card [OF d(6)] by (simp add: free_slots_def)
    moreover have "set (free_slots t) \<subseteq> {0..<unat (capacity t)} - {?i}"
    proof
      fix j assume "j \<in> set (free_slots t)"
      then have "j < unat (capacity t)" "j \<noteq> ?i" using d(7) new by blast+
      then show "j \<in> {0..<unat (capacity t)} - {?i}" by simp
    qed
    then have "card (set (free_slots t)) \<le> card ({0..<unat (capacity t)} - {?i})" by (rule card_mono [rotated]) simp
    ultimately show False using gi(2) by simp
  qed
  then have f: "?f < unat (capacity t)" using d(5) by simp
  then have up: "unat (free_count t + 1) = Suc ?f"
  proof -
    have "unat (capacity t) < 2 ^ LENGTH(32)" by (rule unsigned_less)
    then show ?thesis using f unat_add_lem [of "free_count t" 1] by simp
  qed
  let ?t' = "t\<lparr>slots := (slots t)[?i := None], generations := (generations t)[?i := generations t ! ?i + 1],
     freelist := (freelist t)[?f := h - 1], free_count := free_count t + 1\<rparr>"
  have run: "htable_remove t h = Some ?t'" using h f d(4) pred by (simp add: htable_remove_def Let_def not_less [symmetric])
  have fs: "free_slots ?t' = free_slots t @ [?i]"
    using f d(4) by (simp add: free_slots_def up take_Suc_conv_app_nth pred)
  have "set (free_slots ?t') = {i. i < unat (capacity t) \<and> slots ?t' ! i = None}"
    unfolding fs using d(2,7) gi(2) by (auto simp: nth_list_update)
  then have "htable_ok ?t'" using d new fs f up by (simp add: htable_ok_def)
  moreover have "htable_get ?t' g = (if g = h then None else htable_get t g)" for g
  proof (cases "g = 0 \<or> capacity t < g")
    case False
    then have g: "g \<noteq> 0" "g \<le> capacity t" by (simp_all add: not_less)
    have "htable_get ?t' g = slots ?t' ! (unat g - 1)" using get_index(1) [of g ?t'] g by simp
    moreover have "unat g - 1 \<noteq> unat h - 1" if "g \<noteq> h" using same_handle [OF g(1) h(1)] that by blast
    ultimately show ?thesis using get_index [OF g] gi d(2) by (cases "g = h") simp_all
  qed (use h in \<open>auto simp: htable_get_def\<close>)
  ultimately show ?thesis using run by blast
qed

section \<open>The interface\<close>

text \<open>
  A client that only removes what is live: \<open>Inl\<close> a pointer to insert, \<open>Inr\<close> a handle to remove.
\<close>

fun play_handles :: "('t \<Rightarrow> bool) \<Rightarrow> ('t \<Rightarrow> u32 \<Rightarrow> 'p option) \<Rightarrow> ('t \<Rightarrow> 'p \<Rightarrow> (u32 \<times> 't) option) \<Rightarrow> ('t \<Rightarrow> u32 \<Rightarrow> 't option) \<Rightarrow>
    ('p + u32) list \<Rightarrow> 't \<Rightarrow> 't option" where
  "play_handles room get ins rem [] t = Some t"
| "play_handles room get ins rem (Inl p # ops) t =
     (if room t then Option.bind (map_option snd (ins t p)) (play_handles room get ins rem ops) else None)"
| "play_handles room get ins rem (Inr h # ops) t =
     (if get t h \<noteq> None then Option.bind (rem t h) (play_handles room get ins rem ops) else None)"

text \<open>
  What the bindings rely on: a map from handles to pointers, where inserting gives a fresh handle and
  removing a live one forgets it.
\<close>

locale handle_map =
  fixes ok :: "'t \<Rightarrow> bool" and room :: "'t \<Rightarrow> bool" and get :: "'t \<Rightarrow> u32 \<Rightarrow> 'p option"
    and ins :: "'t \<Rightarrow> 'p \<Rightarrow> (u32 \<times> 't) option" and rem :: "'t \<Rightarrow> u32 \<Rightarrow> 't option"
  assumes ins_law: "ok t \<Longrightarrow> room t \<Longrightarrow> \<exists>h t'. ins t p = Some (h, t') \<and> h \<noteq> 0 \<and> ok t' \<and> get t h = None
      \<and> (\<forall>g. get t' g = (if g = h then Some p else get t g))"
    and rem_law: "ok t \<Longrightarrow> get t h \<noteq> None \<Longrightarrow> \<exists>t'. rem t h = Some t' \<and> ok t' \<and> (\<forall>g. get t' g = (if g = h then None else get t g))"
begin

lemma play_keeps:
  assumes "ok t" and "play_handles room get ins rem ops t = Some t'" and "Inr h \<notin> set ops" and "get t h = Some p"
  shows "ok t' \<and> get t' h = Some p"
  using assms
proof (induction ops arbitrary: t)
  case (Cons op ops)
  show ?case
  proof (cases op)
    case (Inl q)
    with Cons.prems(2) have "room t" by (simp split: if_splits)
    with ins_law [OF Cons.prems(1), of q] obtain g t1 where t1: "ins t q = Some (g, t1)" "ok t1" "get t g = None"
      "\<forall>x. get t1 x = (if x = g then Some q else get t x)" by blast
    then have "get t1 h = Some p" using Cons.prems(4) by auto
    moreover have "play_handles room get ins rem ops t1 = Some t'" using Cons.prems(2) Inl t1(1) by (simp split: if_splits)
    ultimately show ?thesis using Cons.IH [OF t1(2)] Cons.prems(3) by simp
  next
    case (Inr g)
    with Cons.prems(2) have "get t g \<noteq> None" by (simp split: if_splits)
    with rem_law [OF Cons.prems(1)] obtain t1 where t1: "rem t g = Some t1" "ok t1"
      "\<forall>x. get t1 x = (if x = g then None else get t x)" by blast
    moreover have "g \<noteq> h" using Inr Cons.prems(3) by auto
    ultimately have "get t1 h = Some p" using Cons.prems(4) by auto
    moreover have "play_handles room get ins rem ops t1 = Some t'" using Cons.prems(2) Inr t1(1) by (simp split: if_splits)
    ultimately show ?thesis using Cons.IH [OF t1(2)] Cons.prems(3) by simp
  qed
qed simp

lemma play_ok: "ok t \<Longrightarrow> play_handles room get ins rem ops t = Some t' \<Longrightarrow> ok t'"
proof (induction ops arbitrary: t)
  case (Cons op ops)
  show ?case
  proof (cases op)
    case (Inl q)
    with Cons.prems(2) have "room t" by (simp split: if_splits)
    with ins_law [OF Cons.prems(1), of q] obtain g t1 where t1: "ins t q = Some (g, t1)" "ok t1" by blast
    then have "play_handles room get ins rem ops t1 = Some t'" using Cons.prems(2) Inl by (simp split: if_splits)
    then show ?thesis by (rule Cons.IH [OF t1(2)])
  next
    case (Inr g)
    with Cons.prems(2) have "get t g \<noteq> None" by (simp split: if_splits)
    with rem_law [OF Cons.prems(1)] obtain t1 where t1: "rem t g = Some t1" "ok t1" by blast
    then have "play_handles room get ins rem ops t1 = Some t'" using Cons.prems(2) Inr by (simp split: if_splits)
    then show ?thesis by (rule Cons.IH [OF t1(2)])
  qed
qed simp

end

abbreviation htable_play :: "('p + u32) list \<Rightarrow> 'p HandleTable \<Rightarrow> 'p HandleTable option" where
  "htable_play \<equiv> play_handles roomy htable_get (\<lambda>t p. htable_insert t (Some p)) htable_remove"

interpretation htable: handle_map htable_ok roomy htable_get "\<lambda>t p. htable_insert t (Some p)" htable_remove
proof
  fix t :: "'p HandleTable" and p
  assume "htable_ok t" "roomy t"
  then show "\<exists>h t'. htable_insert t (Some p) = Some (h, t') \<and> h \<noteq> 0 \<and> htable_ok t' \<and> htable_get t h = None
      \<and> (\<forall>g. htable_get t' g = (if g = h then Some p else htable_get t g))"
    using insert_ok [of t "Some p"] by simp
qed (rule remove_ok)

section \<open>Properties\<close>

text \<open>
  C33. Type.  The table stays well-formed - each empty slot once on the stack of free slots, and
  nothing else - from its initialisation through any inserts (it grows by doubling, while it has fewer
  than 2 to the 31st slots) and removals of live handles, all without an access outside an array; an insert gives a
  fresh handle, under which the pointer is found until that handle is removed.
\<close>

theorem handles_stay_valid:
  assumes "0 < cap" and "htable_play ops (htable_init cap) = Some t" and "roomy t"
  shows "htable_ok t \<and> (\<exists>h t'. htable_insert t (Some p) = Some (h, t') \<and> h \<noteq> 0 \<and> htable_get t h = None
     \<and> (\<forall>ops' t''. Inr h \<notin> set ops' \<and> htable_play ops' t' = Some t'' \<longrightarrow> htable_ok t'' \<and> htable_get t'' h = Some p))"
proof -
  have ok: "htable_ok t" by (rule htable.play_ok [OF table_init_ok [OF assms(1)] assms(2)])
  from htable.ins_law [OF this assms(3), of p] obtain h t' where
    "htable_insert t (Some p) = Some (h, t')" "h \<noteq> 0" "htable_get t h = None" "htable_ok t'" "htable_get t' h = Some p" by auto
  then show ?thesis using ok htable.play_keeps [of t'] by blast
qed

theorem handles_stay_valid_witness:
  "\<exists>t. htable_play [Inl True, Inl False, Inr 1] (htable_init 1) = Some t \<and> htable_get t 2 = Some False
     \<and> htable_ok t \<and> (\<exists>h t'. htable_insert t (Some True) = Some (h, t') \<and> h \<noteq> 0 \<and> htable_get t h = None)"
proof -
  let ?t = "\<lparr>slots = [None, Some False], generations = [1, 0], capacity = 2, freelist = [0, 0], free_count = 1\<rparr> :: bool HandleTable"
  have run: "htable_play [Inl True, Inl False, Inr 1] (htable_init 1) = Some ?t"
    by (simp add: htable_init_def htable_insert_def htable_grow_def htable_remove_def htable_get_def roomy_def free_stack_def Let_def)
  have one: "0 < (1 :: u32)" and room: "roomy ?t" by (simp_all add: roomy_def)
  from handles_stay_valid [OF one run room, of True] show ?thesis
    using run by (auto simp: htable_get_def)
qed

text \<open>
  The generations are counted but never looked at: the handle of a removed object is the next one to
  be given out, so a stale handle reads the new object; and a second removal of a handle makes two
  live objects share it.
\<close>

lemma insert_after_remove:
  assumes ok: "htable_ok t" and live: "htable_get t h \<noteq> None" and t: "htable_remove t h = Some t1"
  shows "\<exists>t2. htable_insert t1 (Some q) = Some (h, t2) \<and> htable_get t2 h = Some q"
proof -
  from remove_ok [OF ok live] t have ok1: "htable_ok t1" by auto
  have h: "h \<noteq> 0" "h \<le> capacity t" using live by (auto simp: htable_get_def split: if_splits)
  have f: "unat (free_count t) < length (freelist t)" and t1: "free_count t1 = free_count t + 1"
    "freelist t1 = (freelist t)[unat (free_count t) := h - 1]"
    using t h by (auto simp: htable_remove_def Let_def not_less [symmetric] split: if_splits)
  have "unat (free_count t + 1) = Suc (unat (free_count t))"
  proof -
    have "unat (capacity t) < 2 ^ LENGTH(32)" by (rule unsigned_less)
    then show ?thesis using f htable_okD(4) [OF ok] unat_add_lem [of "free_count t" 1] by simp
  qed
  then have some: "free_count t1 \<noteq> 0" unfolding t1 by (metis Suc_not_Zero unat_0)
  then have pos: "0 < free_count t1" using word_neq_0_conv by blast
  have idx: "freelist t1 ! unat (free_count t1 - 1) = h - 1" using f by (simp add: t1)
  note p = pop_ok [OF ok1 pos, of "Some q", unfolded idx]
  have 1: "htable_insert t1 (Some q) = Some (h, t1\<lparr>free_count := free_count t1 - 1, slots := (slots t1)[unat (h - 1) := Some q]\<rparr>)"
    using p(1,2) some by (simp add: htable_insert_def idx Let_def)
  have "capacity t1 = capacity t" using t h by (auto simp: htable_remove_def Let_def not_less [symmetric] split: if_splits)
  then have "htable_get (t1\<lparr>free_count := free_count t1 - 1, slots := (slots t1)[unat (h - 1) := Some q]\<rparr>) h = Some q"
    using h p(2) by (simp add: htable_get_def not_less [symmetric])
  then show ?thesis using 1 by blast
qed

lemma double_removal:
  "\<exists>t1 t2 t3 t4. htable_remove (\<lparr>slots = [Some a, Some b], generations = [0, 0], capacity = 2, freelist = [0, 0], free_count = 0\<rparr>) 1 = Some t1
     \<and> htable_remove t1 1 = Some t2 \<and> htable_insert t2 (Some p) = Some (1, t3) \<and> htable_insert t3 (Some q) = Some (1, t4)"
  by (simp add: htable_remove_def htable_insert_def Let_def)

end
