(* ===== verification/Damage_Tracker.thy ===== *)
theory Damage_Tracker imports Prelude
begin

text \<open>
  What the dashboard must draw again (\<open>src/src/damage_tracker.c\<close>, \<open>src/include/damage_tracker.h\<close>): a
  flag for each slot, one for the dashboard's own pixels and one that overrides them all.  A \<open>NULL\<close>
  tracker, for which every function returns at once, has no state and is left out.
\<close>

section \<open>The tracker\<close>

record DamageTracker =
  slot_dirty :: "bool list option"
  capacity :: u32
  ui_dirty :: bool
  full_redraw :: bool

definition damage_tracker_init :: DamageTracker where
  "damage_tracker_init = \<lparr>slot_dirty = None, capacity = 0, ui_dirty = True, full_redraw = True\<rparr>"

definition damage_tracker_destroy :: "DamageTracker \<Rightarrow> DamageTracker" where
  "damage_tracker_destroy t = t\<lparr>slot_dirty := None, capacity := 0, ui_dirty := False, full_redraw := False\<rparr>"

lemma unat_below: "unat (w :: u32) < 2 ^ 32"
proof -
  have "unat w < 2 ^ LENGTH(32)" by (rule unsigned_less)
  then show ?thesis by simp
qed

text \<open>The doubling loop: it stops at a capacity that is enough, or when doubling would wrap around.\<close>

function reserve_cap :: "u32 \<Rightarrow> u32 \<Rightarrow> u32 option" where
  "reserve_cap new_cap want =
     (if new_cap < want
      then let next_cap = new_cap * 2 in if next_cap \<le> new_cap then None else reserve_cap next_cap want
      else Some new_cap)"
  by pat_completeness auto

termination
  by (relation "measure (\<lambda>(new_cap, want). 2 ^ 32 - unat new_cap)")
     (use unat_below in \<open>auto simp: not_le word_less_nat_alt intro!: diff_less_mono2\<close>)

declare reserve_cap.simps [simp del]

definition dirty_bits :: "DamageTracker \<Rightarrow> bool list" where
  "dirty_bits t = (case slot_dirty t of None \<Rightarrow> [] | Some p \<Rightarrow> p)"

text \<open>\<open>realloc_ok\<close>: does the allocation succeed?\<close>

definition damage_tracker_reserve :: "bool \<Rightarrow> DamageTracker \<Rightarrow> u32 \<Rightarrow> bool \<times> DamageTracker" where
  "damage_tracker_reserve realloc_ok t want =
     (if want \<le> capacity t then (True, t)
      else case reserve_cap (if capacity t \<noteq> 0 then capacity t else 8) want of
             None \<Rightarrow> (False, t)
           | Some new_cap \<Rightarrow>
               if \<not> realloc_ok then (False, t)
               else (True, t\<lparr>slot_dirty := Some (dirty_bits t @ replicate (unat new_cap - unat (capacity t)) True), capacity := new_cap\<rparr>))"

definition damage_tracker_mark_slot :: "DamageTracker \<Rightarrow> u32 \<Rightarrow> DamageTracker" where
  "damage_tracker_mark_slot t slot_index =
     (if capacity t \<le> slot_index then t
      else t\<lparr>slot_dirty := map_option (\<lambda>p. p[unat slot_index := True]) (slot_dirty t)\<rparr>)"

definition damage_tracker_mark_ui :: "DamageTracker \<Rightarrow> DamageTracker" where
  "damage_tracker_mark_ui t = t\<lparr>ui_dirty := True\<rparr>"

text \<open>The loops over the first \<open>n\<close> slots.\<close>

definition fill_dirty :: "nat \<Rightarrow> bool \<Rightarrow> bool list \<Rightarrow> bool list" where
  "fill_dirty n b p = replicate (min n (length p)) b @ drop n p"

definition damage_tracker_mark_all :: "DamageTracker \<Rightarrow> u32 \<Rightarrow> DamageTracker" where
  "damage_tracker_mark_all t slot_count =
     (let n = (if slot_count < capacity t then slot_count else capacity t) in
      t\<lparr>full_redraw := True, ui_dirty := True, slot_dirty := map_option (fill_dirty (unat n) True) (slot_dirty t)\<rparr>)"

definition damage_tracker_slot_dirty :: "DamageTracker \<Rightarrow> u32 \<Rightarrow> bool" where
  "damage_tracker_slot_dirty t slot_index =
     (if full_redraw t then True
      else if capacity t \<le> slot_index then False
      else dirty_bits t ! unat slot_index)"

definition damage_tracker_should_render :: "DamageTracker \<Rightarrow> u32 \<Rightarrow> bool" where
  "damage_tracker_should_render t slot_count =
     (if full_redraw t \<or> ui_dirty t then True
      else let n = (if slot_count < capacity t then slot_count else capacity t)
           in list_ex (\<lambda>i. dirty_bits t ! i) [0..<unat n])"

definition damage_tracker_clear :: "DamageTracker \<Rightarrow> u32 \<Rightarrow> DamageTracker" where
  "damage_tracker_clear t slot_count =
     (let n = (if slot_count < capacity t then slot_count else capacity t) in
      t\<lparr>full_redraw := False, ui_dirty := False, slot_dirty := map_option (fill_dirty (unat n) False) (slot_dirty t)\<rparr>)"

text \<open>Moving the flags behind the removed slot down by one.\<close>

fun shift_down :: "nat list \<Rightarrow> bool list \<Rightarrow> bool list" where
  "shift_down [] p = p"
| "shift_down (i # is) p = shift_down is (p[i := p ! (i + 1)])"

definition damage_tracker_remove_slot :: "DamageTracker \<Rightarrow> u32 \<Rightarrow> u32 \<Rightarrow> DamageTracker" where
  "damage_tracker_remove_slot t removed_index old_slot_count =
     (case slot_dirty t of
        None \<Rightarrow> t
      | Some p \<Rightarrow>
          if old_slot_count \<le> removed_index then t
          else let p' = shift_down (filter (\<lambda>i. i + 1 < unat (capacity t)) [unat removed_index..<unat old_slot_count - 1]) p in
            t\<lparr>slot_dirty := Some (if old_slot_count - 1 < capacity t then p'[unat (old_slot_count - 1) := False] else p')\<rparr>)"

section \<open>Growing\<close>

lemma reserve_cap_enough: "reserve_cap c want = Some n \<Longrightarrow> want \<le> n \<and> c \<le> n"
proof (induction c want rule: reserve_cap.induct)
  case (1 c want)
  from "1.prems" show ?case
    by (subst (asm) reserve_cap.simps) (use "1.IH" in \<open>fastforce simp: Let_def split: if_splits\<close>)
qed

text \<open>It gives up only on what no doubling reaches.\<close>

lemma reserve_cap_reaches: "0 < c \<Longrightarrow> unat want \<le> unat c * 2 ^ k \<Longrightarrow> unat c * 2 ^ k < 2 ^ 32 \<Longrightarrow> reserve_cap c want \<noteq> None"
proof (induction k arbitrary: c)
  case 0
  then have "\<not> c < want" by (simp add: word_less_nat_alt)
  then show ?case by (subst reserve_cap.simps) simp
next
  case (Suc k)
  show ?case
  proof (cases "c < want")
    case True
    have "unat c * 2 \<le> unat c * 2 ^ Suc k" by simp
    then have "unat c * 2 < 2 ^ 32" using Suc.prems(3) by (rule le_less_trans)
    then have d: "unat (c * 2) = unat c * 2" using unat_mult_lem [of c 2] by simp
    have pos: "0 < unat c" using Suc.prems(1) by (simp add: word_less_nat_alt)
    have "\<not> c * 2 \<le> c" using d pos by (simp add: word_le_nat_alt)
    moreover have "reserve_cap (c * 2) want \<noteq> None"
      using Suc.IH [of "c * 2"] Suc.prems(2,3) d pos by (simp add: word_less_nat_alt mult.assoc)
    ultimately show ?thesis using True by (subst reserve_cap.simps) (simp add: Let_def)
  next
    case False
    then show ?thesis by (subst reserve_cap.simps) simp
  qed
qed

lemma reserve_from_empty:
  assumes "capacity t = 0" and "want \<le> 2 ^ 31"
  shows "fst (damage_tracker_reserve True t want)"
proof -
  have "unat want \<le> unat (2 ^ 31 :: u32)" using assms(2) by (simp only: word_le_nat_alt)
  then have "reserve_cap 8 want \<noteq> None" by (intro reserve_cap_reaches [of 8 want 28]) simp_all
  then show ?thesis using assms(1) by (auto simp: damage_tracker_reserve_def)
qed

section \<open>What is drawn\<close>

definition tracker_ok :: "DamageTracker \<Rightarrow> bool" where
  "tracker_ok t \<longleftrightarrow> length (dirty_bits t) = unat (capacity t) \<and> (slot_dirty t = None \<longrightarrow> capacity t = 0)"

lemma fill_dirty_simps [simp]:
  "length (fill_dirty n b p) = length p" "i < length p \<Longrightarrow> fill_dirty n b p ! i = (if i < n then b else p ! i)"
  by (simp_all add: fill_dirty_def nth_append)

lemma dirty_bits_map [simp]:
  "dirty_bits (t\<lparr>slot_dirty := map_option f (slot_dirty t)\<rparr>) = (if slot_dirty t = None then [] else f (dirty_bits t))"
  by (cases "slot_dirty t") (simp_all add: dirty_bits_def)

lemma dirty_bits_flags [simp]:
  "dirty_bits (t\<lparr>full_redraw := x\<rparr>) = dirty_bits t" "dirty_bits (t\<lparr>ui_dirty := y\<rparr>) = dirty_bits t"
  by (simp_all add: dirty_bits_def)

lemma shift_down_length [simp]: "length (shift_down is p) = length p"
  by (induction "is" arbitrary: p) simp_all

lemma shift_down_nth:
  assumes "m < length p" and "j < length p"
  shows "shift_down [r..<m] p ! j = (if r \<le> j \<and> j < m then p ! (j + 1) else p ! j)"
  using assms
proof (induction "m - r" arbitrary: r p)
  case (Suc d)
  then have "[r..<m] = r # [Suc r..<m]" by (simp add: upt_conv_Cons)
  moreover have "shift_down [Suc r..<m] (p[r := p ! (r + 1)]) ! j
      = (if Suc r \<le> j \<and> j < m then p[r := p ! (r + 1)] ! (j + 1) else p[r := p ! (r + 1)] ! j)"
    using Suc by (intro Suc(1)) simp_all
  ultimately show ?case using Suc(2-4) by (cases "j = r") (auto simp: nth_list_update)
qed auto

lemma remove_slot_bits:
  assumes ok: "tracker_ok t" and n: "unat n \<le> unat (capacity t)" and r: "r < n"
  shows "tracker_ok (damage_tracker_remove_slot t r n)"
    "unat j + 1 < unat n \<Longrightarrow> dirty_bits (damage_tracker_remove_slot t r n) ! unat j = dirty_bits t ! (if j < r then unat j else unat j + 1)"
proof -
  obtain p where p: "slot_dirty t = Some p" "length p = unat (capacity t)"
    using ok n r by (cases "slot_dirty t") (auto simp: tracker_ok_def dirty_bits_def word_less_nat_alt)
  have pos: "0 < unat n" using r by (simp add: word_less_nat_alt)
  then have pred: "unat (n - 1) = unat n - 1" by (intro unat_minus_one) auto
  have all: "filter (\<lambda>i. Suc i < unat (capacity t)) [unat r..<unat n - Suc 0] = [unat r..<unat n - Suc 0]"
    using n by (auto simp: filter_id_conv)
  have lt: "n - 1 < capacity t" using pred pos n by (simp add: word_less_nat_alt)
  have run: "damage_tracker_remove_slot t r n =
      t\<lparr>slot_dirty := Some ((shift_down [unat r..<unat n - 1] p)[unat n - 1 := False])\<rparr>"
    using p r lt by (simp add: damage_tracker_remove_slot_def all pred not_le Let_def)
  show "tracker_ok (damage_tracker_remove_slot t r n)" using p by (simp add: run tracker_ok_def dirty_bits_def)
  assume j: "unat j + 1 < unat n"
  have "shift_down [unat r..<unat n - 1] p ! unat j = (if unat r \<le> unat j \<and> unat j < unat n - 1 then p ! (unat j + 1) else p ! unat j)"
    using j n p(2) by (intro shift_down_nth) simp_all
  then show "dirty_bits (damage_tracker_remove_slot t r n) ! unat j = dirty_bits t ! (if j < r then unat j else unat j + 1)"
    using j p by (auto simp: run dirty_bits_def word_less_nat_alt not_le)
qed

lemma reserve_bits:
  assumes ok: "tracker_ok t" and run: "damage_tracker_reserve a t want = (True, t')"
  shows "tracker_ok t'" "want \<le> capacity t'" "capacity t \<le> capacity t'" "ui_dirty t' = ui_dirty t" "full_redraw t' = full_redraw t"
    "j < capacity t' \<Longrightarrow> dirty_bits t' ! unat j = (if j < capacity t then dirty_bits t ! unat j else True)"
proof -
  have len: "length (dirty_bits t) = unat (capacity t)" using ok by (simp add: tracker_ok_def)
  have "tracker_ok t' \<and> want \<le> capacity t' \<and> capacity t \<le> capacity t' \<and> ui_dirty t' = ui_dirty t \<and> full_redraw t' = full_redraw t
    \<and> (\<forall>j < capacity t'. dirty_bits t' ! unat j = (if j < capacity t then dirty_bits t ! unat j else True))"
  proof (cases "want \<le> capacity t")
    case True
    then show ?thesis using ok run by (auto simp: damage_tracker_reserve_def)
  next
    case False
    then obtain n where n: "reserve_cap (if capacity t \<noteq> 0 then capacity t else 8) want = Some n"
      "t' = t\<lparr>slot_dirty := Some (dirty_bits t @ replicate (unat n - unat (capacity t)) True), capacity := n\<rparr>"
      using run by (auto simp: damage_tracker_reserve_def split: option.splits if_splits)
    have "want \<le> n" using reserve_cap_enough [OF n(1)] by simp
    moreover have "capacity t \<le> n" using False \<open>want \<le> n\<close> by simp
    ultimately show ?thesis using len
      by (auto simp: n(2) tracker_ok_def dirty_bits_def nth_append word_less_nat_alt word_le_nat_alt)
  qed
  then show "tracker_ok t'" "want \<le> capacity t'" "capacity t \<le> capacity t'" "ui_dirty t' = ui_dirty t" "full_redraw t' = full_redraw t"
    "j < capacity t' \<Longrightarrow> dirty_bits t' ! unat j = (if j < capacity t then dirty_bits t ! unat j else True)" by blast+
qed

lemma mark_slot_bits:
  assumes ok: "tracker_ok t" and i: "i < capacity t"
  shows "tracker_ok (damage_tracker_mark_slot t i)"
    "damage_tracker_slot_dirty (damage_tracker_mark_slot t i) j \<longleftrightarrow> j = i \<or> damage_tracker_slot_dirty t j"
proof -
  have some: "slot_dirty t \<noteq> None" using ok i by (auto simp: tracker_ok_def)
  then show "tracker_ok (damage_tracker_mark_slot t i)" using ok
    by (auto simp: tracker_ok_def damage_tracker_mark_slot_def)
  show "damage_tracker_slot_dirty (damage_tracker_mark_slot t i) j \<longleftrightarrow> j = i \<or> damage_tracker_slot_dirty t j"
  proof (cases "j < capacity t")
    case True
    have "unat i = unat j \<longleftrightarrow> i = j" by (simp add: word_unat_eq_iff)
    moreover have "unat i < length (dirty_bits t)" "unat j < length (dirty_bits t)"
      using ok i True by (simp_all add: tracker_ok_def word_less_nat_alt)
    ultimately have "dirty_bits (damage_tracker_mark_slot t i) ! unat j = (j = i \<or> dirty_bits t ! unat j)"
      using some i by (auto simp: damage_tracker_mark_slot_def nth_list_update)
    moreover have "\<not> capacity t \<le> j" "\<not> capacity t \<le> i" using True i by (simp_all add: not_le)
    moreover from this(2) have "capacity (damage_tracker_mark_slot t i) = capacity t" "full_redraw (damage_tracker_mark_slot t i) = full_redraw t"
      by (simp_all add: damage_tracker_mark_slot_def)
    ultimately show ?thesis by (simp add: damage_tracker_slot_dirty_def)
  next
    case False
    then show ?thesis using i by (auto simp: damage_tracker_slot_dirty_def damage_tracker_mark_slot_def)
  qed
qed

lemma rendered:
  "damage_tracker_should_render t n \<longleftrightarrow> full_redraw t \<or> ui_dirty t \<or> (\<exists>i<n. damage_tracker_slot_dirty t i)"
proof (cases "full_redraw t \<or> ui_dirty t")
  case False
  let ?n = "if n < capacity t then n else capacity t"
  have "i < n \<and> damage_tracker_slot_dirty t i \<longleftrightarrow> i < ?n \<and> dirty_bits t ! unat i" for i
    using False by (auto simp: damage_tracker_slot_dirty_def not_le not_less)
  then have "(\<exists>i<n. damage_tracker_slot_dirty t i) \<longleftrightarrow> (\<exists>i<?n. dirty_bits t ! unat i)" by blast
  also have "\<dots> \<longleftrightarrow> (\<exists>k<unat ?n. dirty_bits t ! k)"
  proof
    assume "\<exists>k<unat ?n. dirty_bits t ! k"
    then obtain k where k: "k < unat ?n" "dirty_bits t ! k" by blast
    moreover have "unat (of_nat k :: u32) = k" using k(1) unat_below [of ?n] by (simp add: unat_of_nat)
    ultimately show "\<exists>i<?n. dirty_bits t ! unat i" by (intro exI [of _ "of_nat k"]) (simp add: word_less_nat_alt)
  qed (auto simp: word_less_nat_alt)
  finally show ?thesis using False by (auto simp: damage_tracker_should_render_def list_ex_iff Let_def)
qed (auto simp: damage_tracker_should_render_def)

lemma cleared:
  assumes ok: "tracker_ok t" and n: "n \<le> capacity t"
  shows "tracker_ok (damage_tracker_clear t n)" "\<not> damage_tracker_should_render (damage_tracker_clear t n) n"
proof -
  show "tracker_ok (damage_tracker_clear t n)"
    using ok by (cases "slot_dirty t") (simp_all add: tracker_ok_def damage_tracker_clear_def Let_def dirty_bits_def)
  show "\<not> damage_tracker_should_render (damage_tracker_clear t n) n"
    unfolding rendered
  proof (intro notI, elim disjE exE conjE)
    fix i assume "i < n" and d: "damage_tracker_slot_dirty (damage_tracker_clear t n) i"
    then have i: "unat i < unat n" "unat i < unat (capacity t)" using n by (simp_all add: word_less_nat_alt word_le_nat_alt)
    then obtain p where p: "slot_dirty t = Some p" "length p = unat (capacity t)"
      using ok by (cases "slot_dirty t") (simp_all add: tracker_ok_def dirty_bits_def)
    then show False using d i
      by (simp add: damage_tracker_slot_dirty_def damage_tracker_clear_def Let_def dirty_bits_def split: if_splits)
  qed (simp_all add: damage_tracker_clear_def Let_def)
qed

section \<open>Properties\<close>

text \<open>
  C34. Functional.  No damage is lost and none is invented: a marked slot is dirty and the others stay
  as they were; there is something to render exactly when a flag is set or one of the slots is dirty;
  after clearing there is nothing; growing keeps the flags and makes the new slots dirty;
  removing a slot moves the flags of the slots behind it with them.
\<close>

theorem damage_is_kept:
  assumes "tracker_ok t" and "n \<le> capacity t" and "i < capacity t" and "r < n"
  shows "(damage_tracker_slot_dirty (damage_tracker_mark_slot t i) j \<longleftrightarrow> j = i \<or> damage_tracker_slot_dirty t j)
    \<and> (damage_tracker_should_render t n \<longleftrightarrow> full_redraw t \<or> ui_dirty t \<or> (\<exists>k<n. damage_tracker_slot_dirty t k))
    \<and> \<not> damage_tracker_should_render (damage_tracker_clear t n) n
    \<and> (\<forall>t'. damage_tracker_reserve a t want = (True, t') \<longrightarrow> tracker_ok t' \<and> want \<le> capacity t'
         \<and> (\<forall>k<capacity t'. damage_tracker_slot_dirty t' k \<longleftrightarrow> capacity t \<le> k \<or> damage_tracker_slot_dirty t k))
    \<and> (\<forall>k :: u32. unat k + 1 < unat n \<longrightarrow>
         damage_tracker_slot_dirty (damage_tracker_remove_slot t r n) k \<longleftrightarrow> damage_tracker_slot_dirty t (if k < r then k else k + 1))"
proof (intro conjI allI impI)
  have len: "length (dirty_bits t) = unat (capacity t)" using assms(1) by (simp add: tracker_ok_def)
  fix t' assume run: "damage_tracker_reserve a t want = (True, t')"
  note r = reserve_bits [OF assms(1) run]
  show "tracker_ok t'" "want \<le> capacity t'" by (rule r)+
  fix k assume "k < capacity t'"
  then show "damage_tracker_slot_dirty t' k \<longleftrightarrow> capacity t \<le> k \<or> damage_tracker_slot_dirty t k"
    using r(5) r(6) [of k] by (auto simp: damage_tracker_slot_dirty_def not_le)
next
  fix k :: u32 assume k: "unat k + 1 < unat n"
  have "unat n \<le> unat (capacity t)" using assms(2) by (simp add: word_le_nat_alt)
  note b = remove_slot_bits [OF assms(1) this assms(4)]
  have up: "unat (k + 1) = unat k + 1" using k unat_below [of n] unat_add_lem [of k 1] by simp
  have same: "full_redraw (damage_tracker_remove_slot t r n) = full_redraw t" "capacity (damage_tracker_remove_slot t r n) = capacity t"
    by (simp_all add: damage_tracker_remove_slot_def Let_def split: option.splits)
  show "damage_tracker_slot_dirty (damage_tracker_remove_slot t r n) k \<longleftrightarrow> damage_tracker_slot_dirty t (if k < r then k else k + 1)"
    using b(2) [OF k] k up assms(2)
    by (auto simp: damage_tracker_slot_dirty_def same word_le_nat_alt word_less_nat_alt not_le)
qed (use mark_slot_bits [OF assms(1,3)] rendered cleared [OF assms(1,2)] in blast)+

definition sample_tracker :: DamageTracker where
  "sample_tracker = \<lparr>slot_dirty = Some [False, True, False], capacity = 3, ui_dirty = False, full_redraw = False\<rparr>"

theorem damage_is_kept_witness:
  "damage_tracker_slot_dirty (damage_tracker_remove_slot sample_tracker 0 3) 0
   \<and> \<not> damage_tracker_should_render (damage_tracker_clear sample_tracker 3) 3"
proof -
  have ok: "tracker_ok sample_tracker" by (simp add: tracker_ok_def sample_tracker_def dirty_bits_def)
  have c: "(3 :: u32) \<le> capacity sample_tracker" "(1 :: u32) < capacity sample_tracker" "(0 :: u32) < 3"
    by (simp_all add: sample_tracker_def)
  note kept = damage_is_kept [OF ok c, of 0 True 3]
  have zero: "unat (0 :: u32) + 1 < unat (3 :: u32)" by simp
  have "damage_tracker_slot_dirty (damage_tracker_remove_slot sample_tracker 0 3) 0
      \<longleftrightarrow> damage_tracker_slot_dirty sample_tracker (if (0 :: u32) < 0 then 0 else 0 + 1)" using kept zero by blast
  moreover have "damage_tracker_slot_dirty sample_tracker 1" by (simp add: sample_tracker_def damage_tracker_slot_dirty_def dirty_bits_def word_le_nat_alt)
  ultimately show ?thesis using kept by simp
qed

end
