(* ===== verification/Retx_Heap.thy ===== *)
theory Retx_Heap imports Prelude "HOL-Library.Multiset"
begin

text \<open>
  The retransmission timers of the UDP client (\<open>src/src/network/yumi_udp_client.c\<close>,
  \<open>src/include/network/yumi_udp_client.h\<close>): a binary heap in an array, keyed by expiry time.
  \<open>heap_entries\<close> is the part of the array in use, its first \<open>count\<close> cells, which are the only ones the
  code reads.
\<close>

section \<open>The heap\<close>

record yumi_retx_entry_t =
  re_expiry :: u64
  re_table_idx :: u32
  re_seq :: u32
  re_flags :: byte
  re_channel :: byte

record yumi_retx_heap_t =
  heap_entries :: "yumi_retx_entry_t list"
  heap_capacity :: nat

abbreviation heap_count :: "yumi_retx_heap_t \<Rightarrow> nat" where
  "heap_count h \<equiv> length (heap_entries h)"

definition retx_heap_create :: "bool \<Rightarrow> bool \<Rightarrow> nat \<Rightarrow> yumi_retx_heap_t option" where
  "retx_heap_create heap_ok entries_ok initial_capacity =
     (if \<not> heap_ok then None
      else if \<not> entries_ok then None
      else Some \<lparr>heap_entries = [], heap_capacity = initial_capacity\<rparr>)"

definition heap_swap :: "nat \<Rightarrow> nat \<Rightarrow> yumi_retx_entry_t list \<Rightarrow> yumi_retx_entry_t list" where
  "heap_swap i j es = es[i := es ! j, j := es ! i]"

function retx_heap_sift_up :: "yumi_retx_entry_t list \<Rightarrow> nat \<Rightarrow> yumi_retx_entry_t list" where
  "retx_heap_sift_up es i =
     (if 0 < i
      then let parent = (i - 1) div 2 in
           if re_expiry (es ! parent) \<le> re_expiry (es ! i) then es
           else retx_heap_sift_up (heap_swap parent i es) parent
      else es)"
  by pat_completeness auto

termination by (relation "measure snd") auto

declare retx_heap_sift_up.simps [simp del]

text \<open>The smaller of an entry and its children.\<close>

definition heap_smallest :: "yumi_retx_entry_t list \<Rightarrow> nat \<Rightarrow> nat" where
  "heap_smallest es i =
     (let left = 2 * i + 1; right = 2 * i + 2; s = i;
          s = (if left < length es \<and> re_expiry (es ! left) < re_expiry (es ! s) then left else s);
          s = (if right < length es \<and> re_expiry (es ! right) < re_expiry (es ! s) then right else s)
      in s)"

lemma heap_smallest_cases: "heap_smallest es i = i \<or> (i < heap_smallest es i \<and> heap_smallest es i < length es
    \<and> (heap_smallest es i - 1) div 2 = i \<and> re_expiry (es ! heap_smallest es i) < re_expiry (es ! i))"
  by (auto simp: heap_smallest_def Let_def)

lemma heap_smallest_least: "0 < j \<Longrightarrow> j < length es \<Longrightarrow> (j - 1) div 2 = i \<Longrightarrow>
    re_expiry (es ! heap_smallest es i) \<le> re_expiry (es ! j)"
proof -
  assume a: "0 < j" "j < length es" "(j - 1) div 2 = i"
  then have "j = 2 * i + 1 \<or> j = 2 * i + 2" by linarith
  with a(2) show ?thesis by (auto simp: heap_smallest_def Let_def not_less)
qed

function retx_heap_sift_down :: "yumi_retx_entry_t list \<Rightarrow> nat \<Rightarrow> yumi_retx_entry_t list" where
  "retx_heap_sift_down es i =
     (let smallest = heap_smallest es i in
      if smallest = i then es else retx_heap_sift_down (heap_swap smallest i es) smallest)"
  by pat_completeness auto

termination
proof (relation "measure (\<lambda>(es, i). length es - i)", simp, goal_cases)
  case (1 es i s)
  then show ?case using heap_smallest_cases [of es i] by (auto simp: heap_swap_def)
qed

declare retx_heap_sift_down.simps [simp del]

text \<open>\<open>mem\<close> says for which capacities \<open>realloc\<close> succeeds.\<close>

definition retx_heap_push :: "(nat \<Rightarrow> bool) \<Rightarrow> yumi_retx_heap_t \<Rightarrow> u64 \<Rightarrow> u32 \<Rightarrow> u32 \<Rightarrow> byte \<Rightarrow> byte \<Rightarrow> bool \<times> yumi_retx_heap_t" where
  "retx_heap_push mem h expiry table_idx seq flags channel =
     (let full = heap_capacity h \<le> heap_count h; new_cap = heap_capacity h * 2 in
      if full \<and> \<not> mem new_cap then (False, h)
      else let h' = (if full then h\<lparr>heap_capacity := new_cap\<rparr> else h);
               i = heap_count h';
               es = heap_entries h' @ [\<lparr>re_expiry = expiry, re_table_idx = table_idx, re_seq = seq, re_flags = flags, re_channel = channel\<rparr>]
           in (True, h'\<lparr>heap_entries := retx_heap_sift_up es i\<rparr>))"

definition retx_heap_peek :: "yumi_retx_heap_t \<Rightarrow> yumi_retx_entry_t option" where
  "retx_heap_peek h = (if heap_count h = 0 then None else Some (heap_entries h ! 0))"

definition retx_heap_pop :: "yumi_retx_heap_t \<Rightarrow> yumi_retx_heap_t" where
  "retx_heap_pop h =
     (if heap_count h = 0 then h
      else let es = butlast (heap_entries h) in
           if 0 < length es then h\<lparr>heap_entries := retx_heap_sift_down (es[0 := last (heap_entries h)]) 0\<rparr>
           else h\<lparr>heap_entries := es\<rparr>)"

section \<open>The order of the heap\<close>

definition heap_ordered :: "yumi_retx_entry_t list \<Rightarrow> bool" where
  "heap_ordered es \<longleftrightarrow> (\<forall>j<length es. 0 < j \<longrightarrow> re_expiry (es ! ((j - 1) div 2)) \<le> re_expiry (es ! j))"

text \<open>Ordered but for one cell: against its parent, or against its children.\<close>

definition ordered_but_up :: "yumi_retx_entry_t list \<Rightarrow> nat \<Rightarrow> bool" where
  "ordered_but_up es i \<longleftrightarrow> (\<forall>j<length es. 0 < j \<longrightarrow>
     (j \<noteq> i \<longrightarrow> re_expiry (es ! ((j - 1) div 2)) \<le> re_expiry (es ! j))
   \<and> (0 < i \<longrightarrow> (j - 1) div 2 = i \<longrightarrow> re_expiry (es ! ((i - 1) div 2)) \<le> re_expiry (es ! j)))"

definition ordered_but_down :: "yumi_retx_entry_t list \<Rightarrow> nat \<Rightarrow> bool" where
  "ordered_but_down es i \<longleftrightarrow> (\<forall>j<length es. 0 < j \<longrightarrow>
     ((j - 1) div 2 \<noteq> i \<longrightarrow> re_expiry (es ! ((j - 1) div 2)) \<le> re_expiry (es ! j))
   \<and> (0 < i \<longrightarrow> (j - 1) div 2 = i \<longrightarrow> re_expiry (es ! ((i - 1) div 2)) \<le> re_expiry (es ! j)))"

lemma length_heap_swap [simp]: "length (heap_swap i j es) = length es"
  by (simp add: heap_swap_def)

lemma mset_heap_swap: "i < length es \<Longrightarrow> j < length es \<Longrightarrow> mset (heap_swap i j es) = mset es"
  by (simp add: heap_swap_def mset_swap)

lemma nth_heap_swap: "i < length es \<Longrightarrow> j < length es \<Longrightarrow> k < length es \<Longrightarrow>
    heap_swap i j es ! k = (if k = j then es ! i else if k = i then es ! j else es ! k)"
  by (auto simp: heap_swap_def nth_list_update)

lemma sift_up_mset: "i < length es \<Longrightarrow> mset (retx_heap_sift_up es i) = mset es"
proof (induction es i rule: retx_heap_sift_up.induct)
  case (1 es i)
  have p: "(i - 1) div 2 < length es" using "1.prems" by linarith
  have "mset (retx_heap_sift_up (heap_swap ((i - 1) div 2) i es) ((i - 1) div 2)) = mset es"
    if "0 < i" "\<not> re_expiry (es ! ((i - 1) div 2)) \<le> re_expiry (es ! i)"
    using "1.IH" [OF that(1) refl that(2)] p "1.prems" mset_heap_swap [OF p "1.prems"] by simp
  then show ?case by (subst retx_heap_sift_up.simps) (simp add: Let_def)
qed

lemma sift_up_step:
  assumes o: "ordered_but_up es i" and i: "0 < i" "i < length es"
    and lt: "re_expiry (es ! i) < re_expiry (es ! ((i - 1) div 2))"
  shows "ordered_but_up (heap_swap ((i - 1) div 2) i es) ((i - 1) div 2)"
proof -
  let ?p = "(i - 1) div 2"
  have p: "?p < length es" "?p \<noteq> i" using i by linarith+
  note nth = nth_heap_swap [OF p(1) i(2)]
  have ord: "re_expiry (es ! ((j - 1) div 2)) \<le> re_expiry (es ! j)" if "0 < j" "j < length es" "j \<noteq> i" for j
    using o that by (simp add: ordered_but_up_def)
  have under: "re_expiry (es ! ?p) \<le> re_expiry (es ! j)" if "0 < j" "j < length es" "(j - 1) div 2 = i" for j
    using o that i(1) by (simp add: ordered_but_up_def)
  show ?thesis unfolding ordered_but_up_def
  proof (intro allI impI conjI)
    fix j assume j: "j < length (heap_swap ?p i es)" "0 < j" and ne: "j \<noteq> ?p"
    then have jl: "j < length es" "(j - 1) div 2 < length es" by auto
    show "re_expiry (heap_swap ?p i es ! ((j - 1) div 2)) \<le> re_expiry (heap_swap ?p i es ! j)"
    proof (cases "j = i")
      case True then show ?thesis using lt i p by (simp add: nth del: One_nat_def)
    next
      case False
      then show ?thesis
        using ord [of j] under [of j] lt j jl ne by (auto simp: nth simp del: One_nat_def)
    qed
  next
    fix j assume j: "j < length (heap_swap ?p i es)" "0 < j" and pp: "0 < ?p" "(j - 1) div 2 = ?p"
    have g: "(?p - 1) div 2 < length es" "(?p - 1) div 2 \<noteq> ?p" "(?p - 1) div 2 \<noteq> i" using p pp i by linarith+
    have "re_expiry (es ! ((?p - 1) div 2)) \<le> re_expiry (es ! ?p)" using ord [of ?p] p pp by simp
    moreover have "re_expiry (es ! ?p) \<le> re_expiry (es ! j)" if "j \<noteq> i" using ord [of j] j pp that by simp
    moreover have "j \<noteq> ?p" using pp j by linarith
    ultimately show "re_expiry (heap_swap ?p i es ! ((?p - 1) div 2)) \<le> re_expiry (heap_swap ?p i es ! j)"
      using g j by (auto simp: nth simp del: One_nat_def)
  qed
qed

lemma ordered_up_done: "ordered_but_up es i \<Longrightarrow> i = 0 \<or> re_expiry (es ! ((i - 1) div 2)) \<le> re_expiry (es ! i) \<Longrightarrow> heap_ordered es"
  by (auto simp: ordered_but_up_def heap_ordered_def)

lemma sift_up_ordered: "ordered_but_up es i \<Longrightarrow> i < length es \<Longrightarrow> heap_ordered (retx_heap_sift_up es i)"
proof (induction es i rule: retx_heap_sift_up.induct)
  case (1 es i)
  show ?case
  proof (cases "0 < i \<and> re_expiry (es ! i) < re_expiry (es ! ((i - 1) div 2))")
    case True
    then have "heap_ordered (retx_heap_sift_up (heap_swap ((i - 1) div 2) i es) ((i - 1) div 2))"
      using "1.IH" [OF _ refl] sift_up_step [OF "1.prems"(1)] "1.prems"(2) by auto
    then show ?thesis using True by (subst retx_heap_sift_up.simps) (auto simp: Let_def)
  next
    case False
    then have "heap_ordered es" using ordered_up_done [OF "1.prems"(1)] by (auto simp: not_less)
    then show ?thesis using False by (subst retx_heap_sift_up.simps) (auto simp: Let_def)
  qed
qed

lemma sift_down_mset: "i < length es \<Longrightarrow> mset (retx_heap_sift_down es i) = mset es"
proof (induction es i rule: retx_heap_sift_down.induct)
  case (1 es i)
  show ?case
  proof (cases "heap_smallest es i = i")
    case False
    then have s: "heap_smallest es i < length es" using heap_smallest_cases [of es i] by simp
    show ?thesis
      using "1.IH" [OF refl False] s mset_heap_swap [OF s "1.prems"] False
      by (subst retx_heap_sift_down.simps) (simp add: Let_def)
  qed (subst retx_heap_sift_down.simps, simp add: Let_def)
qed

lemma sift_down_step:
  assumes o: "ordered_but_down es i" and i: "i < length es" and s: "heap_smallest es i \<noteq> i"
  shows "ordered_but_down (heap_swap (heap_smallest es i) i es) (heap_smallest es i)"
proof -
  let ?s = "heap_smallest es i"
  have sl: "i < ?s" "?s < length es" "(?s - 1) div 2 = i" "re_expiry (es ! ?s) < re_expiry (es ! i)"
    using heap_smallest_cases [of es i] s by auto
  note nth = nth_heap_swap [OF sl(2) i]
  have ord: "re_expiry (es ! ((j - 1) div 2)) \<le> re_expiry (es ! j)" if "0 < j" "j < length es" "(j - 1) div 2 \<noteq> i" for j
    using o that by (simp add: ordered_but_down_def)
  have under: "re_expiry (es ! ((i - 1) div 2)) \<le> re_expiry (es ! j)" if "0 < i" "0 < j" "j < length es" "(j - 1) div 2 = i" for j
    using o that by (simp add: ordered_but_down_def)
  show ?thesis unfolding ordered_but_down_def
  proof (intro allI impI conjI)
    fix j assume j: "j < length (heap_swap ?s i es)" "0 < j" and ne: "(j - 1) div 2 \<noteq> ?s"
    then have jl: "j < length es" "(j - 1) div 2 < length es" by auto
    show "re_expiry (heap_swap ?s i es ! ((j - 1) div 2)) \<le> re_expiry (heap_swap ?s i es ! j)"
    proof (cases "(j - 1) div 2 = i")
      case True
      then show ?thesis using heap_smallest_least [OF j(2) jl(1) True] sl j jl i by (auto simp: nth simp del: One_nat_def)
    next
      case False
      have "j \<noteq> ?s" using False sl by auto
      moreover have "re_expiry (es ! ((i - 1) div 2)) \<le> re_expiry (es ! ?s)" if "0 < i" using under [of ?s] that sl by simp
      ultimately show ?thesis using ord [OF j(2) jl(1) False] False ne j jl by (auto simp: nth simp del: One_nat_def)
    qed
  next
    fix j assume j: "j < length (heap_swap ?s i es)" "0 < j" and pp: "0 < ?s" "(j - 1) div 2 = ?s"
    have "re_expiry (es ! ?s) \<le> re_expiry (es ! j)" using ord [of j] j pp sl by auto
    moreover have "j \<noteq> i" "j \<noteq> ?s" using pp j sl by auto
    ultimately show "re_expiry (heap_swap ?s i es ! ((?s - 1) div 2)) \<le> re_expiry (heap_swap ?s i es ! j)"
      using j sl i by (simp add: nth del: One_nat_def)
  qed
qed

lemma ordered_down_done: "ordered_but_down es i \<Longrightarrow> heap_smallest es i = i \<Longrightarrow> heap_ordered es"
  using heap_smallest_least [of _ es i] by (fastforce simp: ordered_but_down_def heap_ordered_def)

lemma sift_down_ordered: "ordered_but_down es i \<Longrightarrow> i < length es \<Longrightarrow> heap_ordered (retx_heap_sift_down es i)"
proof (induction es i rule: retx_heap_sift_down.induct)
  case (1 es i)
  show ?case
  proof (cases "heap_smallest es i = i")
    case True
    then show ?thesis using ordered_down_done [OF "1.prems"(1)] by (subst retx_heap_sift_down.simps) (simp add: Let_def)
  next
    case False
    then have "heap_smallest es i < length es" using heap_smallest_cases [of es i] by simp
    then show ?thesis using "1.IH" [OF refl False] sift_down_step [OF "1.prems" False] False
      by (subst retx_heap_sift_down.simps) (simp add: Let_def)
  qed
qed

lemma ordered_least: "heap_ordered es \<Longrightarrow> j < length es \<Longrightarrow> re_expiry (es ! 0) \<le> re_expiry (es ! j)"
proof (induction j rule: less_induct)
  case (less j)
  show ?case
  proof (cases "j = 0")
    case False
    then have "re_expiry (es ! 0) \<le> re_expiry (es ! ((j - 1) div 2))" using less.IH [of "(j - 1) div 2"] less.prems by auto
    also have "\<dots> \<le> re_expiry (es ! j)" using less.prems False by (simp add: heap_ordered_def)
    finally show ?thesis .
  qed simp
qed

section \<open>The operations\<close>

lemma push_mset:
  assumes "retx_heap_push mem h expiry idx seq flags ch = (True, h')"
  shows "mset (heap_entries h') = add_mset \<lparr>re_expiry = expiry, re_table_idx = idx, re_seq = seq, re_flags = flags, re_channel = ch\<rparr> (mset (heap_entries h))"
  using assms by (auto simp: retx_heap_push_def Let_def sift_up_mset split: if_splits)

lemma push_fails: "retx_heap_push mem h expiry idx seq flags ch = (False, h') \<Longrightarrow> h' = h"
  by (auto simp: retx_heap_push_def Let_def split: if_splits)

lemma ordered_append: "heap_ordered es \<Longrightarrow> ordered_but_up (es @ [e]) (length es)"
proof -
  assume o: "heap_ordered es"
  have "(j - 1) div 2 < length es" "\<not> (j - 1) div 2 = length es" if "j < Suc (length es)" "0 < j" for j using that by linarith+
  then show ?thesis using o by (auto simp: ordered_but_up_def heap_ordered_def nth_append)
qed

lemma push_ordered: "heap_ordered (heap_entries h) \<Longrightarrow> heap_ordered (heap_entries (snd (retx_heap_push mem h expiry idx seq flags ch)))"
  by (auto simp: retx_heap_push_def Let_def intro!: sift_up_ordered ordered_append)

lemma pop_mset:
  assumes "retx_heap_peek h = Some e"
  shows "mset (heap_entries h) = add_mset e (mset (heap_entries (retx_heap_pop h)))"
proof -
  from assms have ne: "heap_entries h \<noteq> []" and e: "e = heap_entries h ! 0" by (auto simp: retx_heap_peek_def split: if_splits)
  obtain x ys where h: "heap_entries h = x # ys" using ne by (cases "heap_entries h") auto
  show ?thesis
  proof (cases ys rule: rev_cases)
    case Nil then show ?thesis using h e by (simp add: retx_heap_pop_def)
  next
    case (snoc zs z)
    have "butlast (heap_entries h) = x # zs" "last (heap_entries h) = z" using h snoc by (simp_all add: butlast_append)
    then show ?thesis using h e snoc sift_down_mset [of 0 "z # zs"] by (simp add: retx_heap_pop_def Let_def)
  qed
qed

lemma pop_ordered: "heap_ordered (heap_entries h) \<Longrightarrow> heap_ordered (heap_entries (retx_heap_pop h))"
proof -
  assume o: "heap_ordered (heap_entries h)"
  let ?es = "butlast (heap_entries h)"
  have "ordered_but_down (?es[0 := x]) 0" for x
    using o by (auto simp: ordered_but_down_def heap_ordered_def nth_list_update nth_butlast)
  then show ?thesis using o
    by (auto simp: retx_heap_pop_def Let_def heap_ordered_def [of "[]"] intro!: sift_down_ordered)
qed

lemma peek_least: "heap_ordered (heap_entries h) \<Longrightarrow> retx_heap_peek h = Some e \<Longrightarrow> f \<in># mset (heap_entries h) \<Longrightarrow> re_expiry e \<le> re_expiry f"
  using ordered_least [of "heap_entries h"] by (auto simp: retx_heap_peek_def in_set_conv_nth split: if_splits)

lemma peek_none: "retx_heap_peek h = None \<longleftrightarrow> heap_entries h = []"
  by (simp add: retx_heap_peek_def)

lemma heap_empty: "heap_ordered []"
  by (simp add: heap_ordered_def)

section \<open>The heap as a queue of timers\<close>

text \<open>How many timers of a collection have expired.\<close>

definition due :: "('e \<Rightarrow> u64) \<Rightarrow> u64 \<Rightarrow> 'e multiset \<Rightarrow> nat" where
  "due key now M = size (filter_mset (\<lambda>e. key e \<le> now) M)"

text \<open>What the client asks of its timers, whatever the structure that holds them.\<close>

locale timer_queue =
  fixes ok :: "'q \<Rightarrow> bool" and elems :: "'q \<Rightarrow> 'e multiset" and key :: "'e \<Rightarrow> u64"
    and earliest :: "'q \<Rightarrow> 'e option" and drop_it :: "'q \<Rightarrow> 'q" and put :: "'q \<Rightarrow> 'e \<Rightarrow> 'q"
  assumes earliest_none: "ok q \<Longrightarrow> earliest q = None \<longleftrightarrow> elems q = {#}"
    and earliest_least: "ok q \<Longrightarrow> earliest q = Some e \<Longrightarrow> f \<in># elems q \<Longrightarrow> key e \<le> key f"
    and drop_ok: "ok q \<Longrightarrow> ok (drop_it q)"
    and drop_elems: "earliest q = Some e \<Longrightarrow> elems q = add_mset e (elems (drop_it q))"
    and put_ok: "ok q \<Longrightarrow> ok (put q e)"
    and put_elems: "elems (put q e) = add_mset e (elems q) \<or> elems (put q e) = elems q"
begin

lemma due_drop: "earliest q = Some e \<Longrightarrow> key e \<le> now \<Longrightarrow> due key now (elems (drop_it q)) < due key now (elems q)"
  using drop_elems [of q e] by (simp add: due_def)

lemma due_put_later: "\<not> key e \<le> now \<Longrightarrow> due key now (elems (put q e)) = due key now (elems q)"
  using put_elems [of q e] by (auto simp: due_def)

lemma none_due: "ok q \<Longrightarrow> (\<And>e. earliest q = Some e \<Longrightarrow> \<not> key e \<le> now) \<Longrightarrow> f \<in># elems q \<Longrightarrow> now < key f"
proof -
  assume ok: "ok q" and first: "\<And>e. earliest q = Some e \<Longrightarrow> \<not> key e \<le> now" and f: "f \<in># elems q"
  show "now < key f"
  proof (cases "earliest q")
    case None then show ?thesis using earliest_none [OF ok] f by simp
  next
    case (Some e)
    have "now < key e" using first [OF Some] by simp
    also have "\<dots> \<le> key f" using earliest_least [OF ok Some f] .
    finally show ?thesis .
  qed
qed

end

definition retx_heap_put :: "(nat \<Rightarrow> bool) \<Rightarrow> yumi_retx_heap_t \<Rightarrow> yumi_retx_entry_t \<Rightarrow> yumi_retx_heap_t" where
  "retx_heap_put mem h e = snd (retx_heap_push mem h (re_expiry e) (re_table_idx e) (re_seq e) (re_flags e) (re_channel e))"

lemma put_mset: "mset (heap_entries (retx_heap_put mem h e)) =
    (if heap_capacity h \<le> heap_count h \<and> \<not> mem (heap_capacity h * 2) then mset (heap_entries h) else add_mset e (mset (heap_entries h)))"
  by (auto simp: retx_heap_put_def retx_heap_push_def Let_def sift_up_mset)

interpretation heapq: timer_queue "\<lambda>h. heap_ordered (heap_entries h)" "\<lambda>h. mset (heap_entries h)" re_expiry
    retx_heap_peek retx_heap_pop "retx_heap_put mem" for mem
proof (unfold_locales, goal_cases)
  case (1 q) then show ?case by (simp add: peek_none)
next
  case (2 q e f) then show ?case by (rule peek_least)
next
  case (3 q) then show ?case by (rule pop_ordered)
next
  case (4 q e) then show ?case by (rule pop_mset)
next
  case (5 q e) then show ?case unfolding retx_heap_put_def by (rule push_ordered)
next
  case (6 q e) then show ?case by (simp add: put_mset)
qed

end
