(* ===== verification/Reliable_Table.thy ===== *)
theory Reliable_Table imports Retx_Heap Buf
begin

unbundle bit_operations_syntax

text \<open>
  The sender's side of reliable delivery in the UDP client (\<open>src/src/network/yumi_udp_client.c\<close>,
  \<open>src/include/network/yumi_udp_client.h\<close>): the table of unacknowledged datagrams, a hash table by
  linear probing that doubles when it is full, the timers over it, acknowledgements and selective
  acknowledgements.  The operations run under the client's lock, so each is one step.

  The congestion controller (\<open>src/src/network/bbr.c\<close>) computes in floating point and is a parameter:
  a state and the functions the client calls on it.  The clock and the answers of the allocator are
  arguments.
\<close>

section \<open>Data\<close>

abbreviation (input) YUMI_UDP_HDR_SIZE :: u32 where "YUMI_UDP_HDR_SIZE \<equiv> 10"
abbreviation (input) YUMI_UDP_MAX_PAYLOAD :: u32 where "YUMI_UDP_MAX_PAYLOAD \<equiv> 1442"
abbreviation (input) YUMI_UDP_FLAG_RELIABLE :: byte where "YUMI_UDP_FLAG_RELIABLE \<equiv> 1"
abbreviation (input) YUMI_UDP_FLAG_ACK :: byte where "YUMI_UDP_FLAG_ACK \<equiv> 2"
abbreviation (input) YUMI_UDP_FLAG_PROBE :: byte where "YUMI_UDP_FLAG_PROBE \<equiv> 4"
abbreviation (input) YUMI_REORDER_WINDOW :: nat where "YUMI_REORDER_WINDOW \<equiv> 32"
abbreviation (input) DEFERRED_SEND_MAX :: nat where "DEFERRED_SEND_MAX \<equiv> 32"
abbreviation (input) YUMI_RELIABLE_INIT_SLOTS :: u32 where "YUMI_RELIABLE_INIT_SLOTS \<equiv> 4096"
abbreviation (input) CC_PROBE_MAX_INFLIGHT :: i32 where "CC_PROBE_MAX_INFLIGHT \<equiv> 4"

record yumi_packet_t =
  pk_seq :: u32
  pk_send_time_us :: u64
  pk_size :: u64
  pk_delivered :: u64
  pk_delivered_time :: u64
  pk_first_sent_time :: u64
  pk_is_app_limited :: bool
  pk_is_probe :: bool

record 'cc cc_functions =
  yumi_cc_on_send :: "'cc \<Rightarrow> yumi_packet_t \<Rightarrow> u64 \<Rightarrow> 'cc \<times> yumi_packet_t"
  yumi_cc_on_ack :: "'cc \<Rightarrow> yumi_packet_t \<Rightarrow> u64 \<Rightarrow> u64 \<Rightarrow> u64 \<Rightarrow> 'cc"
  yumi_cc_on_loss :: "'cc \<Rightarrow> u64 \<Rightarrow> 'cc"
  yumi_cc_in_probe :: "'cc \<Rightarrow> bool"
  yumi_cc_get_send_rate :: "'cc \<Rightarrow> u64"

text \<open>For which sizes do \<open>calloc\<close> of a table and \<open>realloc\<close> of the timers succeed?\<close>

record allocator =
  al_table :: "u32 \<Rightarrow> bool"
  al_heap :: "nat \<Rightarrow> bool"

text \<open>\<open>rt_payload\<close> is the part of the array in use, its first \<open>rt_payload_len\<close> bytes.\<close>

record yumi_reliable_entry_t =
  rt_seq :: u32
  rt_send_time_us :: u64
  rt_timeout_us :: u64
  rt_retransmit_count :: u32
  rt_max_retransmits :: u32
  rt_payload_len :: u32
  rt_flags :: byte
  rt_channel :: byte
  rt_active :: bool
  rt_cc_pkt :: yumi_packet_t
  rt_dest :: bytes
  rt_payload :: bytes

text \<open>What the client's \<open>state_lock\<close> protects, with the settings and counters used under it.\<close>

record 'cc reliable_state =
  reliable_table :: "yumi_reliable_entry_t list"
  retx_heap :: yumi_retx_heap_t
  reliable_capacity :: u32
  reliable_timeout_us :: u64
  max_retransmits :: u32
  cc :: 'cc
  cc_rate_cache :: u64
  probe_seq :: u32
  probe_inflight :: i32
  stat_retransmits :: u64
  peer_addr :: bytes

record deferred_send_t =
  ds_flags :: byte
  ds_channel :: byte
  ds_seq :: u32
  ds_dest :: bytes
  ds_payload_len :: u32
  ds_payload :: bytes

definition zero_packet :: yumi_packet_t where
  "zero_packet = \<lparr>pk_seq = 0, pk_send_time_us = 0, pk_size = 0, pk_delivered = 0, pk_delivered_time = 0,
     pk_first_sent_time = 0, pk_is_app_limited = False, pk_is_probe = False\<rparr>"

definition zero_entry :: yumi_reliable_entry_t where
  "zero_entry = \<lparr>rt_seq = 0, rt_send_time_us = 0, rt_timeout_us = 0, rt_retransmit_count = 0, rt_max_retransmits = 0,
     rt_payload_len = 0, rt_flags = 0, rt_channel = 0, rt_active = False, rt_cc_pkt = zero_packet, rt_dest = [], rt_payload = []\<rparr>"

definition cc_cache_update :: "'cc cc_functions \<Rightarrow> 'cc reliable_state \<Rightarrow> 'cc reliable_state" where
  "cc_cache_update F c = c\<lparr>cc_rate_cache := yumi_cc_get_send_rate F (cc c)\<rparr>"

section \<open>The table\<close>

definition is_probe :: "byte \<Rightarrow> bool" where
  "is_probe flags \<longleftrightarrow> flags AND YUMI_UDP_FLAG_PROBE \<noteq> 0"

definition reliable_hash :: "byte \<Rightarrow> byte \<Rightarrow> u32 \<Rightarrow> u32 \<Rightarrow> u32" where
  "reliable_hash channel flags seq cap =
     (seq + ucast channel * 37 + (if is_probe flags then 131 else 0)) AND (cap - 1)"

text \<open>The cells a search visits, in its order.\<close>

definition probe_order :: "u32 \<Rightarrow> u32 \<Rightarrow> nat list" where
  "probe_order base cap = map (\<lambda>i. unat ((base + of_nat i) AND (cap - 1))) [0..<unat cap]"

definition find_free :: "yumi_reliable_entry_t list \<Rightarrow> u32 \<Rightarrow> u32 \<Rightarrow> nat option" where
  "find_free table base cap = find (\<lambda>idx. \<not> rt_active (table ! idx)) (probe_order base cap)"

definition rehash :: "u32 \<Rightarrow> yumi_reliable_entry_t list \<Rightarrow> yumi_reliable_entry_t \<Rightarrow> yumi_reliable_entry_t list" where
  "rehash new_cap new_table e =
     (if \<not> rt_active e then new_table
      else case find_free new_table (reliable_hash (rt_channel e) (rt_flags e) (rt_seq e) new_cap) new_cap of
             None \<Rightarrow> new_table
           | Some idx \<Rightarrow> new_table[idx := e])"

definition rebuild_timer :: "allocator \<Rightarrow> yumi_reliable_entry_t list \<Rightarrow> yumi_retx_heap_t \<Rightarrow> nat \<Rightarrow> yumi_retx_heap_t" where
  "rebuild_timer al new_table h i =
     (let e = new_table ! i in
      if \<not> rt_active e then h
      else snd (retx_heap_push (al_heap al) h (rt_send_time_us e + rt_timeout_us e) (of_nat i) (rt_seq e) (rt_flags e) (rt_channel e)))"

definition worker_reliable_resize :: "allocator \<Rightarrow> 'cc reliable_state \<Rightarrow> bool \<times> 'cc reliable_state" where
  "worker_reliable_resize al c =
     (let new_cap = reliable_capacity c * 2 in
      if \<not> al_table al new_cap then (False, c)
      else let new_table = foldl (rehash new_cap) (replicate (unat new_cap) zero_entry) (reliable_table c);
               h = foldl (rebuild_timer al new_table) ((retx_heap c)\<lparr>heap_entries := []\<rparr>) [0..<unat new_cap]
           in (True, c\<lparr>retx_heap := h, reliable_table := new_table, reliable_capacity := new_cap\<rparr>))"

text \<open>One attempt of \<open>worker_reliable_add\<close>: it fails when every cell is taken.\<close>

definition reliable_put :: "allocator \<Rightarrow> u64 \<Rightarrow> 'cc reliable_state \<Rightarrow> byte \<Rightarrow> byte \<Rightarrow> u32 \<Rightarrow> bytes \<Rightarrow> yumi_packet_t \<Rightarrow> bytes \<Rightarrow> u32
    \<Rightarrow> 'cc reliable_state option" where
  "reliable_put al now c flags channel seq dest cc_pkt payload len =
     (let cap = reliable_capacity c in
      case find_free (reliable_table c) (reliable_hash channel flags seq cap) cap of
        None \<Rightarrow> None
      | Some idx \<Rightarrow>
          let e = \<lparr>rt_seq = seq, rt_send_time_us = now, rt_timeout_us = reliable_timeout_us c, rt_retransmit_count = 0,
                   rt_max_retransmits = max_retransmits c, rt_payload_len = len, rt_flags = flags, rt_channel = channel,
                   rt_active = True, rt_cc_pkt = cc_pkt, rt_dest = dest, rt_payload = take (unat len) payload\<rparr>
          in Some (c\<lparr>reliable_table := (reliable_table c)[idx := e],
                     retx_heap := snd (retx_heap_push (al_heap al) (retx_heap c) (now + reliable_timeout_us c) (of_nat idx) seq flags channel),
                     probe_inflight := (if is_probe flags then probe_inflight c + 1 else probe_inflight c)\<rparr>))"

definition worker_reliable_add :: "allocator \<Rightarrow> u64 \<Rightarrow> 'cc reliable_state \<Rightarrow> byte \<Rightarrow> byte \<Rightarrow> u32 \<Rightarrow> bytes \<Rightarrow> yumi_packet_t \<Rightarrow> bytes \<Rightarrow> u32
    \<Rightarrow> 'cc reliable_state" where
  "worker_reliable_add al now c flags channel seq dest cc_pkt payload len =
     (case reliable_put al now c flags channel seq dest cc_pkt payload len of
        Some c' \<Rightarrow> c'
      | None \<Rightarrow>
          (case worker_reliable_resize al c of
             (False, c1) \<Rightarrow> c1
           | (True, c1) \<Rightarrow>
               (case reliable_put al now c1 flags channel seq dest cc_pkt payload len of
                  Some c' \<Rightarrow> c'
                | None \<Rightarrow> c1)))"

section \<open>Acknowledgements\<close>

definition find_entry :: "'cc reliable_state \<Rightarrow> byte \<Rightarrow> u32 \<Rightarrow> byte \<Rightarrow> bool \<Rightarrow> nat option" where
  "find_entry c channel seq match_flags probe =
     (let cap = reliable_capacity c in
      find (\<lambda>idx. let e = reliable_table c ! idx in
                  rt_active e \<and> rt_seq e = seq \<and> rt_channel e = channel \<and> is_probe (rt_flags e) = probe)
           (probe_order (reliable_hash channel match_flags seq cap) cap))"

definition worker_reliable_ack :: "'cc cc_functions \<Rightarrow> u64 \<Rightarrow> 'cc reliable_state \<Rightarrow> u32 \<Rightarrow> byte \<Rightarrow> bool \<Rightarrow> 'cc reliable_state" where
  "worker_reliable_ack F now c seq channel probe =
     (case find_entry c channel seq (YUMI_UDP_FLAG_RELIABLE OR (if probe then YUMI_UDP_FLAG_PROBE else 0)) probe of
        None \<Rightarrow> c
      | Some idx \<Rightarrow>
          let e = reliable_table c ! idx; rtt = now - rt_send_time_us e in
          c\<lparr>reliable_table := (reliable_table c)[idx := e\<lparr>rt_active := False\<rparr>],
            probe_inflight := (if probe then probe_inflight c - 1 else probe_inflight c),
            cc := yumi_cc_on_ack F (cc c) (rt_cc_pkt e) (pk_size (rt_cc_pkt e)) rtt now\<rparr>)"

definition worker_reliable_find :: "'cc reliable_state \<Rightarrow> byte \<Rightarrow> u32 \<Rightarrow> nat option" where
  "worker_reliable_find c channel seq = find_entry c channel seq YUMI_UDP_FLAG_RELIABLE False"

definition deferred_of :: "yumi_reliable_entry_t \<Rightarrow> deferred_send_t" where
  "deferred_of e = \<lparr>ds_flags = rt_flags e, ds_channel = rt_channel e, ds_seq = rt_seq e, ds_dest = rt_dest e,
     ds_payload_len = rt_payload_len e, ds_payload = rt_payload e\<rparr>"

text \<open>One round of the loop over the bitmap: resend what the receiver misses, unless it was sent lately.\<close>

definition sack_round :: "u64 \<Rightarrow> u32 \<Rightarrow> u32 \<Rightarrow> byte \<Rightarrow> 'cc reliable_state \<times> deferred_send_t list \<Rightarrow> nat \<Rightarrow> 'cc reliable_state \<times> deferred_send_t list" where
  "sack_round now cumulative bitmap channel s i =
     (case s of (c, deferred) \<Rightarrow>
      if bit bitmap i then s
      else case worker_reliable_find c channel (cumulative + of_nat i) of
             None \<Rightarrow> s
           | Some idx \<Rightarrow>
               let e = reliable_table c ! idx in
               if now - rt_send_time_us e < rt_timeout_us e div 2 then s
               else if DEFERRED_SEND_MAX \<le> length deferred then s
               else (c\<lparr>reliable_table := (reliable_table c)[idx := e\<lparr>rt_send_time_us := now\<rparr>],
                       stat_retransmits := stat_retransmits c + 1\<rparr>,
                     deferred @ [deferred_of e]))"

definition worker_handle_sack :: "bool \<Rightarrow> u64 \<Rightarrow> 'cc reliable_state \<Rightarrow> bytes \<Rightarrow> u32 \<Rightarrow> byte \<Rightarrow> deferred_send_t list
    \<Rightarrow> 'cc reliable_state \<times> deferred_send_t list" where
  "worker_handle_sack host_le now c payload payload_len channel deferred =
     (if payload_len < 8 then (c, deferred)
      else let cumulative = mem_word host_le (take 4 payload); bitmap = mem_word host_le (take 4 (drop 4 payload))
           in foldl (sack_round now cumulative bitmap channel) (c, deferred) [0..<YUMI_REORDER_WINDOW])"

section \<open>Timers\<close>

text \<open>What becomes of the entry whose timer \<open>tm\<close> has been taken from the heap.\<close>

datatype 'cc timer_outcome = TimerNext "'cc reliable_state" "deferred_send_t list" | TimerBreak "'cc reliable_state"

definition timer_fired :: "'cc cc_functions \<Rightarrow> allocator \<Rightarrow> u64 \<Rightarrow> yumi_retx_entry_t \<Rightarrow> 'cc reliable_state \<Rightarrow> deferred_send_t list \<Rightarrow> 'cc timer_outcome" where
  "timer_fired F al now tm c deferred =
     (let idx = unat (re_table_idx tm); e = reliable_table c ! idx;
          again = (\<lambda>expiry. snd (retx_heap_push (al_heap al) (retx_heap c) expiry (re_table_idx tm) (re_seq tm) (re_flags tm) (re_channel tm)));
          actual_expiry = rt_send_time_us e + rt_timeout_us e
      in if \<not> rt_active e \<or> rt_seq e \<noteq> re_seq tm \<or> rt_flags e \<noteq> re_flags tm then TimerNext c deferred
         else if now < actual_expiry then TimerNext (c\<lparr>retx_heap := again actual_expiry\<rparr>) deferred
         else if rt_max_retransmits e \<le> rt_retransmit_count e
         then TimerNext (c\<lparr>cc := yumi_cc_on_loss F (cc c) (ucast (YUMI_UDP_HDR_SIZE + rt_payload_len e)),
                           probe_inflight := (if is_probe (rt_flags e) then probe_inflight c - 1 else probe_inflight c),
                           reliable_table := (reliable_table c)[idx := e\<lparr>rt_active := False\<rparr>]\<rparr>) deferred
         else if DEFERRED_SEND_MAX \<le> length deferred then TimerBreak (c\<lparr>retx_heap := again (re_expiry tm)\<rparr>)
         else TimerNext (c\<lparr>reliable_table := (reliable_table c)[idx := e\<lparr>rt_send_time_us := now, rt_retransmit_count := rt_retransmit_count e + 1\<rparr>],
                           stat_retransmits := stat_retransmits c + 1,
                           retx_heap := again (now + rt_timeout_us e)\<rparr>) (deferred @ [deferred_of e]))"

text \<open>Timers that are due, and the space left for datagrams to send, bound the loop.\<close>

definition due_timers :: "u64 \<Rightarrow> 'cc reliable_state \<Rightarrow> nat" where
  "due_timers now c = due re_expiry now (mset (heap_entries (retx_heap c)))"

lemma timer_fired_progress:
  assumes "timer_fired F al now tm c deferred = TimerNext c' deferred'"
  shows "DEFERRED_SEND_MAX - length deferred' < DEFERRED_SEND_MAX - length deferred
    \<or> length deferred' = length deferred \<and> due_timers now c' = due_timers now c"
proof -
  have "due re_expiry now (mset (heap_entries (snd (retx_heap_push (al_heap al) (retx_heap c) ex i s f ch)))) =
      due re_expiry now (mset (heap_entries (retx_heap c)))" if "now < ex" for ex i s f ch
    using heapq.due_put_later [of "\<lparr>re_expiry = ex, re_table_idx = i, re_seq = s, re_flags = f, re_channel = ch\<rparr>" now "al_heap al" "retx_heap c"] that
    by (simp add: retx_heap_put_def)
  then show ?thesis using assms
    by (auto simp: timer_fired_def Let_def due_timers_def split: if_splits)
qed

function worker_reliable_retransmit :: "'cc cc_functions \<Rightarrow> allocator \<Rightarrow> u64 \<Rightarrow> 'cc reliable_state \<Rightarrow> deferred_send_t list
    \<Rightarrow> 'cc reliable_state \<times> deferred_send_t list" where
  "worker_reliable_retransmit F al now c deferred =
     (case retx_heap_peek (retx_heap c) of
        None \<Rightarrow> (c, deferred)
      | Some tm \<Rightarrow>
          if re_expiry tm \<le> now
          then (case timer_fired F al now tm (c\<lparr>retx_heap := retx_heap_pop (retx_heap c)\<rparr>) deferred of
                  TimerNext c' deferred' \<Rightarrow> worker_reliable_retransmit F al now c' deferred'
                | TimerBreak c' \<Rightarrow> (c', deferred))
          else (c, deferred))"
  by pat_completeness auto

termination
proof (relation "measures [\<lambda>(F, al, now, c, deferred). DEFERRED_SEND_MAX - length deferred, \<lambda>(F, al, now, c, deferred). due_timers now c]", simp, goal_cases)
  case (1 F al now c deferred tm c' deferred')
  have "due_timers now (c\<lparr>retx_heap := retx_heap_pop (retx_heap c)\<rparr>) < due_timers now c"
    using heapq.due_drop [OF 1(1,2)] by (simp add: due_timers_def)
  then show ?case using timer_fired_progress [OF 1(3)] by auto
qed

declare worker_reliable_retransmit.simps [simp del]

section \<open>Probes of the congestion controller\<close>

text \<open>\<open>now1\<close> and \<open>now2\<close>: the two readings of the clock.\<close>

definition worker_cc_probe :: "'cc cc_functions \<Rightarrow> allocator \<Rightarrow> u64 \<Rightarrow> u64 \<Rightarrow> 'cc reliable_state \<Rightarrow> deferred_send_t list
    \<Rightarrow> 'cc reliable_state \<times> deferred_send_t list" where
  "worker_cc_probe F al now1 now2 c deferred =
     (if \<not> yumi_cc_in_probe F (cc c) then (c, deferred)
      else if CC_PROBE_MAX_INFLIGHT \<le>s probe_inflight c then (c, deferred)
      else if DEFERRED_SEND_MAX \<le> length deferred then (c, deferred)
      else let seq = probe_seq c;
               flags = YUMI_UDP_FLAG_RELIABLE OR YUMI_UDP_FLAG_PROBE;
               d = \<lparr>ds_flags = flags, ds_channel = 0, ds_seq = seq, ds_dest = peer_addr c, ds_payload_len = 0, ds_payload = []\<rparr>;
               c1 = c\<lparr>probe_seq := seq + 1\<rparr>
           in case yumi_cc_on_send F (cc c1) (zero_packet\<lparr>pk_seq := seq, pk_size := ucast YUMI_UDP_HDR_SIZE\<rparr>) now1 of
                (cc', cc_pkt) \<Rightarrow>
                  (worker_reliable_add al now2 (c1\<lparr>cc := cc'\<rparr>) flags 0 seq (peer_addr c) cc_pkt [] 0, deferred @ [d]))"

text \<open>
  What runs under the lock: \<open>send_locked\<close> at the end of \<open>send_worker_process_item\<close>, \<open>ack_locked\<close> when the
  receiving worker gets an acknowledgement with a payload of \<open>sack_len\<close> bytes, \<open>timer_event\<close> when its timer
  fires.  The last two return what is then sent.
\<close>

definition send_locked :: "'cc cc_functions \<Rightarrow> allocator \<Rightarrow> u64 \<Rightarrow> u64 \<Rightarrow> byte \<Rightarrow> byte \<Rightarrow> u32 \<Rightarrow> bytes \<Rightarrow> bytes \<Rightarrow> u32
    \<Rightarrow> 'cc reliable_state \<Rightarrow> 'cc reliable_state" where
  "send_locked F al now1 now2 flags channel seq dest payload len c =
     (case yumi_cc_on_send F (cc c) (zero_packet\<lparr>pk_seq := seq, pk_size := ucast (YUMI_UDP_HDR_SIZE + len)\<rparr>) now1 of
        (cc', cc_pkt) \<Rightarrow> cc_cache_update F (worker_reliable_add al now2 (c\<lparr>cc := cc'\<rparr>) flags channel seq dest cc_pkt payload len))"

definition ack_locked :: "bool \<Rightarrow> 'cc cc_functions \<Rightarrow> u64 \<Rightarrow> u64 \<Rightarrow> u32 \<Rightarrow> byte \<Rightarrow> bool \<Rightarrow> bytes \<Rightarrow> u32
    \<Rightarrow> 'cc reliable_state \<Rightarrow> 'cc reliable_state \<times> deferred_send_t list" where
  "ack_locked host_le F now1 now2 seq channel probe payload sack_len c =
     (let c1 = worker_reliable_ack F now1 c seq channel probe;
          (c2, deferred) = (if \<not> probe \<and> 8 \<le> sack_len then worker_handle_sack host_le now2 c1 payload sack_len channel []
                            else (c1, []))
      in (cc_cache_update F c2, deferred))"

definition timer_event :: "'cc cc_functions \<Rightarrow> allocator \<Rightarrow> u64 \<Rightarrow> u64 \<Rightarrow> u64 \<Rightarrow> 'cc reliable_state \<Rightarrow> 'cc reliable_state \<times> deferred_send_t list" where
  "timer_event F al now now1 now2 c =
     (case worker_reliable_retransmit F al now c [] of
        (c1, d1) \<Rightarrow> case worker_cc_probe F al now1 now2 c1 d1 of
        (c2, d2) \<Rightarrow> (cc_cache_update F c2, d2))"

end
