(* ===== verification/Reliable_Timers.thy ===== *)
theory Reliable_Timers imports Reliable_Table
begin

unbundle bit_operations_syntax

text \<open>
  What the operations of \<open>Reliable_Table\<close> keep: a search reaches every cell, growing the table loses
  no entry, what is resent is what was sent, and every unacknowledged datagram has a timer.
\<close>

section \<open>Searching\<close>

lemma mask_index:
  fixes x :: u32
  assumes "k < 32"
  shows "unat (x AND (2 ^ k - 1)) = unat x mod 2 ^ k"
proof -
  have "x AND (2 ^ k - 1) = take_bit k x" by (simp add: take_bit_eq_mask mask_eq_exp_minus_1)
  then have "unat (x AND (2 ^ k - 1)) = unat (take_bit k x)" by (rule arg_cong)
  also have "\<dots> = take_bit k (unat x)" by (rule unsigned_take_bit_eq)
  finally show ?thesis by (simp only: take_bit_eq_mod)
qed

lemma unat_pow: "k < 32 \<Longrightarrow> unat ((2 :: u32) ^ k) = 2 ^ k"
proof -
  assume k: "k < 32"
  then have "(2::nat) ^ k < 2 ^ 32" by (rule power_strict_increasing) simp
  moreover have "unat ((2 :: u32) ^ k) = take_bit 32 (2 ^ k)" using unsigned_of_nat [of "2 ^ k", where 'a = nat and 'b = 32] by simp
  ultimately show ?thesis by (simp add: take_bit_eq_mod)
qed

lemma probe_index: "k < 32 \<Longrightarrow> unat ((base + of_nat i) AND ((2 :: u32) ^ k - 1)) = (unat base + i) mod 2 ^ k"
proof -
  assume k: "k < 32"
  have d: "(2::nat) ^ k dvd 2 ^ 32" using k by (intro le_imp_power_dvd) simp
  have "unat (base + of_nat i) = (unat base + i) mod 2 ^ 32"
    by (simp add: unat_word_ariths unsigned_of_nat take_bit_eq_mod mod_add_right_eq)
  then show ?thesis using mask_index [OF k, of "base + of_nat i"] mod_mod_cancel [OF d, of "unat base + i"] by simp
qed

lemma probe_order_set: "k < 32 \<Longrightarrow> set (probe_order base (2 ^ k)) = {..<2 ^ k}"
proof -
  assume k: "k < 32"
  have "\<exists>i<2 ^ k. (unat base + i) mod 2 ^ k = j" if j: "j < 2 ^ k" for j :: nat
  proof -
    define b where "b = unat base mod 2 ^ k"
    have b: "b < 2 ^ k" by (simp add: b_def)
    have "(unat base + (j + 2 ^ k - b) mod 2 ^ k) mod 2 ^ k = (b + (j + 2 ^ k - b)) mod 2 ^ k"
      by (simp add: b_def mod_add_left_eq mod_add_right_eq)
    also have "\<dots> = j" using b j by simp
    finally show ?thesis by (intro exI [of _ "(j + 2 ^ k - b) mod 2 ^ k"]) simp
  qed
  then have "(\<lambda>i. (unat base + i) mod 2 ^ k) ` {..<2 ^ k} = {..<2 ^ k}" by (auto simp: image_iff)
  then show ?thesis by (simp add: probe_order_def unat_pow [OF k] probe_index [OF k] atLeast0LessThan)
qed

definition table_ok :: "'cc reliable_state \<Rightarrow> bool" where
  "table_ok c \<longleftrightarrow> length (reliable_table c) = unat (reliable_capacity c) \<and> (\<exists>k<32. reliable_capacity c = 2 ^ k)"

lemma find_free_Some: "cap = 2 ^ k \<Longrightarrow> k < 32 \<Longrightarrow> find_free table base cap = Some idx \<Longrightarrow> idx < 2 ^ k \<and> \<not> rt_active (table ! idx)"
  using probe_order_set [of k base] by (auto simp: find_free_def find_Some_iff set_conv_nth)

lemma find_free_None: "cap = 2 ^ k \<Longrightarrow> k < 32 \<Longrightarrow> find_free table base cap = None \<Longrightarrow> idx < 2 ^ k \<Longrightarrow> rt_active (table ! idx)"
  using probe_order_set [of k base] by (auto simp: find_free_def find_None_iff)

text \<open>A datagram that waits for its acknowledgement is found, wherever it was put.\<close>

lemma find_entry_Some:
  assumes "table_ok c" and "find_entry c channel seq fl probe = Some idx"
  shows "idx < length (reliable_table c) \<and> rt_active (reliable_table c ! idx) \<and> rt_seq (reliable_table c ! idx) = seq
    \<and> rt_channel (reliable_table c ! idx) = channel \<and> is_probe (rt_flags (reliable_table c ! idx)) = probe"
proof -
  from assms(1) obtain k where k: "k < 32" "reliable_capacity c = 2 ^ k" "length (reliable_table c) = 2 ^ k"
    by (auto simp: table_ok_def unat_pow)
  then show ?thesis using assms(2) probe_order_set [OF k(1), of "reliable_hash channel fl seq (2 ^ k)"]
    by (auto simp: find_entry_def Let_def find_Some_iff set_conv_nth)
qed

lemma find_entry_None:
  assumes "table_ok c" and "find_entry c channel seq fl probe = None" and "idx < length (reliable_table c)"
    and "rt_active (reliable_table c ! idx)" and "rt_seq (reliable_table c ! idx) = seq" and "rt_channel (reliable_table c ! idx) = channel"
  shows "is_probe (rt_flags (reliable_table c ! idx)) \<noteq> probe"
proof -
  from assms(1) obtain k where k: "k < 32" "reliable_capacity c = 2 ^ k" "length (reliable_table c) = 2 ^ k"
    by (auto simp: table_ok_def unat_pow)
  then show ?thesis using assms probe_order_set [OF k(1), of "reliable_hash channel fl seq (2 ^ k)"]
    by (auto simp: find_entry_def Let_def find_None_iff)
qed

section \<open>Growing\<close>

abbreviation active_entries :: "yumi_reliable_entry_t list \<Rightarrow> yumi_reliable_entry_t multiset" where
  "active_entries t \<equiv> filter_mset rt_active (mset t)"

lemma active_update: "i < length t \<Longrightarrow> \<not> rt_active (t ! i) \<Longrightarrow> rt_active e \<Longrightarrow>
    active_entries (t[i := e]) = add_mset e (active_entries t)"
  by (simp add: mset_update filter_diff_mset)

lemma all_active_count: "(\<And>i. i < length t \<Longrightarrow> rt_active (t ! i)) \<Longrightarrow> active_entries t = mset t"
  by (metis filter_True in_set_conv_nth mset_filter)

lemma no_active_zero [simp]: "filter_mset rt_active (replicate_mset n zero_entry) = {#}"
  by (induction n) (simp_all add: zero_entry_def)

lemma active_le: "size (active_entries t) \<le> length t"
  using size_filter_mset_lesseq [of rt_active "mset t"] by simp

lemma rehash_keeps:
  assumes k: "k < 32" and t: "length t = 2 ^ k" and room: "size (active_entries t) < 2 ^ k"
  shows "length (rehash (2 ^ k) t e) = 2 ^ k
    \<and> active_entries (rehash (2 ^ k) t e) = active_entries t + active_entries [e]"
proof (cases "rt_active e")
  case True
  let ?b = "reliable_hash (rt_channel e) (rt_flags e) (rt_seq e) (2 ^ k)"
  have "find_free t ?b (2 ^ k) \<noteq> None"
  proof
    assume "find_free t ?b (2 ^ k) = None"
    then have "active_entries t = mset t" using find_free_None [OF refl k] t by (intro all_active_count) auto
    then show False using room t by simp
  qed
  then obtain idx where idx: "find_free t ?b (2 ^ k) = Some idx" by auto
  show ?thesis using find_free_Some [OF refl k idx] idx t True by (simp add: rehash_def active_update)
qed (simp add: rehash_def t)

lemma rehash_all:
  assumes k: "k < 32"
  shows "length t = 2 ^ k \<Longrightarrow> size (active_entries t) + length es \<le> 2 ^ k \<Longrightarrow>
    length (foldl (rehash (2 ^ k)) t es) = 2 ^ k
    \<and> active_entries (foldl (rehash (2 ^ k)) t es) = active_entries t + active_entries es"
proof (induction es arbitrary: t)
  case (Cons e es)
  have r: "length (rehash (2 ^ k) t e) = 2 ^ k" "active_entries (rehash (2 ^ k) t e) = active_entries t + active_entries [e]"
    using rehash_keeps [OF k, of t e] Cons.prems by auto
  have "size (active_entries (rehash (2 ^ k) t e)) + length es \<le> 2 ^ k"
    using Cons.prems(2) active_le [of "[e]"] by (simp only: r(2) size_union) simp
  from Cons.IH [OF r(1) this] show ?case by (simp only: foldl_Cons r(2)) simp
qed simp

lemma rebuild_timer_table [simp]: "heap_ordered (heap_entries h) \<Longrightarrow> heap_ordered (heap_entries (rebuild_timer al t h i))"
  by (auto simp: rebuild_timer_def Let_def push_ordered)

text \<open>The capacity stays a power of two as long as a table of \<open>2^32\<close> entries cannot be had.\<close>

lemma resize_keeps:
  assumes ok: "table_ok c" and al: "\<not> al_table al 0" and r: "worker_reliable_resize al c = (True, c')"
  shows "table_ok c' \<and> active_entries (reliable_table c') = active_entries (reliable_table c)
    \<and> size (active_entries (reliable_table c')) < length (reliable_table c')"
proof -
  from ok obtain k where k: "k < 32" "reliable_capacity c = 2 ^ k" "length (reliable_table c) = 2 ^ k"
    by (auto simp: table_ok_def unat_pow)
  have new: "reliable_capacity c * 2 = 2 ^ Suc k" using k(2) by simp
  have "al_table al (2 ^ Suc k)" using r new by (auto simp: worker_reliable_resize_def Let_def split: if_splits)
  moreover have "(2 :: u32) ^ 32 = 0" by simp
  ultimately have k': "Suc k < 32" using al k(1) by (metis Suc_lessI)
  let ?t = "foldl (rehash (2 ^ Suc k)) (replicate (2 ^ Suc k) zero_entry) (reliable_table c)"
  have t: "length ?t = 2 ^ Suc k" "active_entries ?t = active_entries (reliable_table c)"
    using rehash_all [OF k', of "replicate (2 ^ Suc k) zero_entry" "reliable_table c"] k(3) by auto
  have c': "reliable_table c' = ?t" "reliable_capacity c' = 2 ^ Suc k"
    using r new unat_pow [OF k'] by (auto simp: worker_reliable_resize_def Let_def split: if_splits)
  have "size (active_entries ?t) \<le> 2 ^ k" using active_le [of "reliable_table c"] k(3) by (simp only: t(2))
  then have "size (active_entries ?t) < 2 ^ Suc k" by (rule le_less_trans) simp
  moreover have "\<exists>k<32. reliable_capacity c' = 2 ^ k" using c'(2) k' by blast
  ultimately show ?thesis using t c' unat_pow [OF k'] by (simp add: table_ok_def)
qed

section \<open>Timers\<close>

definition timer_for :: "yumi_retx_entry_t set \<Rightarrow> nat \<Rightarrow> yumi_reliable_entry_t \<Rightarrow> bool" where
  "timer_for ts idx e \<longleftrightarrow> (\<exists>t\<in>ts. re_table_idx t = of_nat idx \<and> re_seq t = rt_seq e \<and> re_flags t = rt_flags e
     \<and> re_expiry t \<le> rt_send_time_us e + rt_timeout_us e)"

abbreviation timers :: "'cc reliable_state \<Rightarrow> yumi_retx_entry_t set" where
  "timers c \<equiv> set (heap_entries (retx_heap c))"

text \<open>Timers point into the table, and every datagram that waits for its acknowledgement has one in time.\<close>

definition timers_ok :: "'cc reliable_state \<Rightarrow> bool" where
  "timers_ok c \<longleftrightarrow> table_ok c \<and> heap_ordered (heap_entries (retx_heap c))
     \<and> (\<forall>t\<in>timers c. unat (re_table_idx t) < length (reliable_table c))
     \<and> (\<forall>idx<length (reliable_table c). rt_active (reliable_table c ! idx) \<longrightarrow> timer_for (timers c) idx (reliable_table c ! idx))"

definition memory_ok :: "allocator \<Rightarrow> bool" where
  "memory_ok al \<longleftrightarrow> al_heap al = (\<lambda>_. True) \<and> \<not> al_table al 0"

lemma push_set: "memory_ok al \<Longrightarrow> set (heap_entries (snd (retx_heap_push (al_heap al) h ex i s fl ch))) =
    insert \<lparr>re_expiry = ex, re_table_idx = i, re_seq = s, re_flags = fl, re_channel = ch\<rparr> (set (heap_entries h))"
  using put_mset [of "al_heap al" h "\<lparr>re_expiry = ex, re_table_idx = i, re_seq = s, re_flags = fl, re_channel = ch\<rparr>"]
  by (simp add: retx_heap_put_def memory_ok_def) (metis set_mset_add_mset_insert set_mset_mset)

lemma timer_for_mono: "timer_for ts idx e \<Longrightarrow> ts \<subseteq> ts' \<Longrightarrow> timer_for ts' idx e"
  by (auto simp: timer_for_def)

lemma of_nat_index: "table_ok c \<Longrightarrow> idx < length (reliable_table c) \<Longrightarrow> unat (of_nat idx :: u32) = idx"
proof -
  assume "table_ok c" "idx < length (reliable_table c)"
  then have "idx < unat (reliable_capacity c)" by (simp add: table_ok_def)
  also have "\<dots> < 2 ^ 32" using unsigned_less [of "reliable_capacity c", where 'a = nat] by simp
  finally show ?thesis by (simp add: unsigned_of_nat take_bit_eq_mod)
qed

lemma table_ok_heap [simp]: "table_ok (c\<lparr>retx_heap := h\<rparr>) = table_ok c"
  by (simp add: table_ok_def)

lemma table_ok_update: "table_ok c \<Longrightarrow> length t = length (reliable_table c) \<Longrightarrow> table_ok (c\<lparr>reliable_table := t\<rparr>)"
  by (simp add: table_ok_def)

lemma timers_ok_put:
  assumes ok: "timers_ok c" and al: "memory_ok al" and p: "reliable_put al now c fl ch seq dest pkt pl len = Some c'"
  shows "timers_ok c'"
proof -
  from ok have t: "table_ok c" by (simp add: timers_ok_def)
  from t obtain k where k: "k < 32" "reliable_capacity c = 2 ^ k" "length (reliable_table c) = 2 ^ k"
    by (auto simp: table_ok_def unat_pow)
  from p obtain idx where idx: "find_free (reliable_table c) (reliable_hash ch fl seq (2 ^ k)) (2 ^ k) = Some idx"
    by (auto simp: reliable_put_def Let_def k(2) split: option.splits)
  have i: "idx < length (reliable_table c)" using find_free_Some [OF refl k(1) idx] k(3) by simp
  have "retx_heap c' = snd (retx_heap_push (al_heap al) (retx_heap c) (now + reliable_timeout_us c) (of_nat idx) seq fl ch)"
    using p idx by (auto simp: reliable_put_def Let_def k(2))
  then have h: "timers c' = insert \<lparr>re_expiry = now + reliable_timeout_us c, re_table_idx = of_nat idx, re_seq = seq, re_flags = fl, re_channel = ch\<rparr> (timers c)"
    "heap_ordered (heap_entries (retx_heap c'))"
    using push_set [OF al] push_ordered ok by (auto simp: timers_ok_def)
  obtain e where e: "reliable_table c' = (reliable_table c)[idx := e]" "reliable_capacity c' = reliable_capacity c"
      "rt_seq e = seq" "rt_flags e = fl" "rt_send_time_us e + rt_timeout_us e = now + reliable_timeout_us c"
    using p idx by (auto simp: reliable_put_def Let_def k(2))
  have "table_ok c'" using t e by (simp add: table_ok_def)
  moreover have "timer_for (timers c') j (reliable_table c' ! j)" if "j < length (reliable_table c')" "rt_active (reliable_table c' ! j)" for j
  proof (cases "j = idx")
    case True then show ?thesis using e i by (auto simp: timer_for_def h(1))
  next
    case False
    then have "timer_for (timers c) j (reliable_table c' ! j)" using ok that e by (simp add: timers_ok_def)
    then show ?thesis by (rule timer_for_mono) (auto simp: h(1))
  qed
  ultimately show ?thesis using ok h(2) e i of_nat_index [OF t i] by (auto simp: timers_ok_def h(1))
qed

lemma rebuild_timers:
  assumes al: "memory_ok al"
  shows "set (heap_entries (foldl (rebuild_timer al t) h is)) = set (heap_entries h) \<union>
      (\<lambda>i. \<lparr>re_expiry = rt_send_time_us (t ! i) + rt_timeout_us (t ! i), re_table_idx = of_nat i, re_seq = rt_seq (t ! i),
           re_flags = rt_flags (t ! i), re_channel = rt_channel (t ! i)\<rparr>) ` {i \<in> set is. rt_active (t ! i)}"
    and "heap_ordered (heap_entries h) \<Longrightarrow> heap_ordered (heap_entries (foldl (rebuild_timer al t) h is))"
  by (induction "is" arbitrary: h) (auto simp: rebuild_timer_def Let_def push_set [OF al] push_ordered)

lemma timers_ok_resize:
  assumes ok: "timers_ok c" and al: "memory_ok al" and r: "worker_reliable_resize al c = (b, c')"
  shows "timers_ok c'"
proof (cases b)
  case True
  have t: "table_ok c'" using resize_keeps [of c al c'] ok al r True by (simp add: timers_ok_def memory_ok_def)
  have c': "retx_heap c' = foldl (rebuild_timer al (reliable_table c')) ((retx_heap c)\<lparr>heap_entries := []\<rparr>) [0..<unat (reliable_capacity c')]"
    using r True by (auto simp: worker_reliable_resize_def Let_def split: if_splits)
  have len: "length (reliable_table c') = unat (reliable_capacity c')" using t by (simp add: table_ok_def)
  have "heap_ordered (heap_entries (retx_heap c'))" unfolding c' by (rule rebuild_timers(2) [OF al]) (simp add: heap_empty)
  moreover have "unat (re_table_idx x) < length (reliable_table c')" if "x \<in> timers c'" for x
    using that of_nat_index [OF t] len by (auto simp: c' rebuild_timers(1) [OF al])
  moreover have "timer_for (timers c') i (reliable_table c' ! i)" if "i < length (reliable_table c')" "rt_active (reliable_table c' ! i)" for i
    using that len by (auto simp: c' rebuild_timers(1) [OF al] timer_for_def)
  ultimately show ?thesis using t by (simp add: timers_ok_def)
next
  case False
  then show ?thesis using r ok by (auto simp: worker_reliable_resize_def Let_def split: if_splits)
qed

lemma timers_ok_add: "timers_ok c \<Longrightarrow> memory_ok al \<Longrightarrow> timers_ok (worker_reliable_add al now c fl ch seq dest pkt pl len)"
  by (auto simp: worker_reliable_add_def split: option.splits prod.splits bool.splits dest: timers_ok_put timers_ok_resize)

section \<open>What holds of every waiting entry\<close>

definition each_in :: "(yumi_reliable_entry_t \<Rightarrow> bool) \<Rightarrow> yumi_reliable_entry_t list \<Rightarrow> bool" where
  "each_in Q t \<longleftrightarrow> (\<forall>e\<in>set t. rt_active e \<longrightarrow> Q e)"

abbreviation each :: "(yumi_reliable_entry_t \<Rightarrow> bool) \<Rightarrow> 'cc reliable_state \<Rightarrow> bool" where
  "each Q c \<equiv> each_in Q (reliable_table c)"

lemma each_in_update [intro]: "each_in Q t \<Longrightarrow> (rt_active e \<Longrightarrow> Q e) \<Longrightarrow> each_in Q (t[idx := e])"
  using set_update_subset_insert [of t idx e] by (auto simp: each_in_def)

lemma each_in_nth: "each_in Q t \<Longrightarrow> i < length t \<Longrightarrow> rt_active (t ! i) \<Longrightarrow> Q (t ! i)"
  by (simp add: each_in_def)

definition new_entry :: "u64 \<Rightarrow> 'cc reliable_state \<Rightarrow> byte \<Rightarrow> byte \<Rightarrow> u32 \<Rightarrow> bytes \<Rightarrow> yumi_packet_t \<Rightarrow> bytes \<Rightarrow> u32 \<Rightarrow> yumi_reliable_entry_t" where
  "new_entry now c flags channel seq dest cc_pkt payload len =
     \<lparr>rt_seq = seq, rt_send_time_us = now, rt_timeout_us = reliable_timeout_us c, rt_retransmit_count = 0,
      rt_max_retransmits = max_retransmits c, rt_payload_len = len, rt_flags = flags, rt_channel = channel,
      rt_active = True, rt_cc_pkt = cc_pkt, rt_dest = dest, rt_payload = take (unat len) payload\<rparr>"

lemma put_table: "reliable_put al now c fl ch seq dest pkt pl len = Some c' \<Longrightarrow>
    \<exists>idx. reliable_table c' = (reliable_table c)[idx := new_entry now c fl ch seq dest pkt pl len] \<and> reliable_timeout_us c' = reliable_timeout_us c"
  by (auto simp: reliable_put_def Let_def new_entry_def split: option.splits)

lemma rehash_from: "set (foldl (rehash cap) t es) \<subseteq> set t \<union> set es"
proof (induction es arbitrary: t)
  case (Cons e es)
  have "set (rehash cap t e) \<subseteq> insert e (set t)"
    using set_update_subset_insert [of t _ e] by (auto simp: rehash_def split: option.splits)
  then show ?case using Cons.IH [of "rehash cap t e"] by auto
qed simp

lemma resize_each: "worker_reliable_resize al c = (b, c') \<Longrightarrow> each Q c \<Longrightarrow> each Q c'"
proof -
  assume r: "worker_reliable_resize al c = (b, c')" and q: "each Q c"
  have "rt_active e \<Longrightarrow> e \<in> set (foldl (rehash cap) (replicate n zero_entry) (reliable_table c)) \<Longrightarrow> Q e" for e cap n
    using rehash_from [of cap "replicate n zero_entry" "reliable_table c"] q by (auto simp: each_in_def zero_entry_def)
  then show "each Q c'" using r q by (auto simp: worker_reliable_resize_def Let_def each_in_def split: if_splits)
qed

lemma resize_settings: "worker_reliable_resize al c = (b, c') \<Longrightarrow> reliable_timeout_us c' = reliable_timeout_us c \<and> max_retransmits c' = max_retransmits c"
  by (auto simp: worker_reliable_resize_def Let_def split: if_splits)

lemma add_each:
  assumes "each Q c" and n: "Q (new_entry now c fl ch seq dest pkt pl len)"
  shows "each Q (worker_reliable_add al now c fl ch seq dest pkt pl len)"
proof -
  obtain b c1 where r: "worker_reliable_resize al c = (b, c1)" by fastforce
  have c1: "each Q c1" "Q (new_entry now c1 fl ch seq dest pkt pl len)"
    using resize_each [OF r assms(1)] n resize_settings [OF r] by (simp_all add: new_entry_def)
  have p: "each Q c2" if "reliable_put al now c' fl ch seq dest pkt pl len = Some c2" "each Q c'"
      "Q (new_entry now c' fl ch seq dest pkt pl len)" for c' c2
    using put_table [OF that(1)] that(2,3) by (auto simp: each_in_update)
  show ?thesis using p [OF _ assms] p [OF _ c1] c1(1)
    by (auto simp: worker_reliable_add_def r split: option.splits bool.splits)
qed

lemma ack_each: "each Q c \<Longrightarrow> each Q (worker_reliable_ack F now c seq ch probe)"
  by (auto simp: worker_reliable_ack_def Let_def split: option.splits)

text \<open>An entry that is sent again keeps what was sent.\<close>

definition resend_closed :: "u64 \<Rightarrow> (yumi_reliable_entry_t \<Rightarrow> bool) \<Rightarrow> bool" where
  "resend_closed now Q \<longleftrightarrow> (\<forall>e n. Q e \<longrightarrow> Q (e\<lparr>rt_send_time_us := now\<rparr>) \<and> Q (e\<lparr>rt_send_time_us := now, rt_retransmit_count := n\<rparr>))"

definition all_from :: "(yumi_reliable_entry_t \<Rightarrow> bool) \<Rightarrow> deferred_send_t list \<Rightarrow> bool" where
  "all_from Q ds \<longleftrightarrow> (\<forall>d\<in>set ds. \<exists>e. Q e \<and> d = deferred_of e)"

lemma sack_round_each:
  assumes "table_ok c" and "each Q c" and "resend_closed now Q" and "all_from Q ds" and "sack_round now cum bm ch (c, ds) i = (c', ds')"
  shows "table_ok c' \<and> each Q c' \<and> all_from Q ds'"
proof (cases "c' = c \<and> ds' = ds")
  case True then show ?thesis using assms by simp
next
  case False
  then obtain idx where f: "find_entry c ch (cum + of_nat i) YUMI_UDP_FLAG_RELIABLE False = Some idx"
    and c': "reliable_table c' = (reliable_table c)[idx := (reliable_table c ! idx)\<lparr>rt_send_time_us := now\<rparr>]" "ds' = ds @ [deferred_of (reliable_table c ! idx)]"
      "reliable_capacity c' = reliable_capacity c"
    using assms(5) by (auto simp: sack_round_def worker_reliable_find_def Let_def split: if_splits option.splits)
  have q: "Q (reliable_table c ! idx)" using find_entry_Some [OF assms(1) f] assms(2) by (auto simp: each_in_def)
  have "each Q c'" unfolding c'(1) using assms(2,3) q by (auto simp: resend_closed_def)
  moreover have "all_from Q ds'" using assms(4) q by (auto simp: all_from_def c'(2))
  ultimately show ?thesis using assms(1) c' by (simp add: table_ok_def)
qed

lemma sack_each:
  assumes "table_ok c" and "each Q c" and "resend_closed now Q" and "all_from Q ds"
  shows "table_ok (fst (foldl (sack_round now cum bm ch) (c, ds) is)) \<and> each Q (fst (foldl (sack_round now cum bm ch) (c, ds) is))
    \<and> all_from Q (snd (foldl (sack_round now cum bm ch) (c, ds) is))"
  using assms
proof (induction "is" arbitrary: c ds)
  case (Cons i "is")
  obtain c1 ds1 where r: "sack_round now cum bm ch (c, ds) i = (c1, ds1)" by fastforce
  show ?case using Cons.IH [of c1 ds1] sack_round_each [OF Cons.prems r] Cons.prems(3) by (simp add: r)
qed simp

lemma timer_fired_each:
  assumes "each Q c" and "resend_closed now Q" and "all_from Q ds" and i: "unat (re_table_idx tm) < length (reliable_table c)"
  shows "case timer_fired F al now tm c ds of TimerNext c' ds' \<Rightarrow> each Q c' \<and> all_from Q ds' | TimerBreak c' \<Rightarrow> each Q c'"
proof -
  let ?e = "reliable_table c ! unat (re_table_idx tm)"
  have q: "Q ?e" if "rt_active ?e" using assms(1) i that by (auto simp: each_in_def)
  show ?thesis using q assms by (auto simp: timer_fired_def Let_def resend_closed_def all_from_def)
qed

section \<open>The timers of a tick\<close>

definition clock_ok :: "u64 \<Rightarrow> u64 \<Rightarrow> 'cc reliable_state \<Rightarrow> bool" where
  "clock_ok T now c \<longleftrightarrow> each (\<lambda>e. rt_send_time_us e \<le> now \<and> rt_timeout_us e = T) c"

text \<open>Every timer but that of \<open>tm\<close>, which has been taken from the heap, is in place.\<close>

definition timers_but :: "yumi_retx_entry_t \<Rightarrow> 'cc reliable_state \<Rightarrow> bool" where
  "timers_but tm c \<longleftrightarrow> table_ok c \<and> heap_ordered (heap_entries (retx_heap c)) \<and> unat (re_table_idx tm) < length (reliable_table c)
     \<and> (\<forall>t\<in>timers c. unat (re_table_idx t) < length (reliable_table c))
     \<and> (\<forall>idx<length (reliable_table c). rt_active (reliable_table c ! idx) \<longrightarrow>
          timer_for (insert tm (timers c)) idx (reliable_table c ! idx))"

lemma pop_set: "retx_heap_peek h = Some tm \<Longrightarrow> set (heap_entries h) = insert tm (set (heap_entries (retx_heap_pop h)))"
  using pop_mset [of h tm] by (metis set_mset_add_mset_insert set_mset_mset)

lemma timers_pop: "timers_ok c \<Longrightarrow> retx_heap_peek (retx_heap c) = Some tm \<Longrightarrow> timers_but tm (c\<lparr>retx_heap := retx_heap_pop (retx_heap c)\<rparr>)"
  using pop_set [of "retx_heap c" tm] pop_ordered [of "retx_heap c"] by (simp add: timers_ok_def timers_but_def)

lemma timer_for_insert: "timer_for (insert t ts) idx e \<longleftrightarrow> timer_for ts idx e \<or>
    re_table_idx t = of_nat idx \<and> re_seq t = rt_seq e \<and> re_flags t = rt_flags e \<and> re_expiry t \<le> rt_send_time_us e + rt_timeout_us e"
  by (auto simp: timer_for_def)

text \<open>Only the entry that \<open>tm\<close> points to can depend on it.\<close>

lemma timers_but_other:
  assumes "timers_but tm c" and "idx < length (reliable_table c)" and "rt_active (reliable_table c ! idx)"
    and "idx \<noteq> unat (re_table_idx tm) \<or> rt_seq (reliable_table c ! idx) \<noteq> re_seq tm \<or> rt_flags (reliable_table c ! idx) \<noteq> re_flags tm"
  shows "timer_for (timers c) idx (reliable_table c ! idx)"
proof -
  from assms have t: "timer_for (insert tm (timers c)) idx (reliable_table c ! idx)" and tok: "table_ok c" by (auto simp: timers_but_def)
  show ?thesis using t assms(4) of_nat_index [OF tok assms(2)] by (auto simp: timer_for_insert)
qed

lemma timers_ok_changed:
  assumes b: "timers_but tm c" and t: "reliable_table c' = (reliable_table c)[unat (re_table_idx tm) := e]" "reliable_capacity c' = reliable_capacity c"
    and h: "timers c \<subseteq> timers c'" "\<forall>t\<in>timers c'. t \<in> timers c \<or> re_table_idx t = re_table_idx tm" "heap_ordered (heap_entries (retx_heap c'))"
    and e: "rt_active e \<Longrightarrow> timer_for (timers c') (unat (re_table_idx tm)) e"
  shows "timers_ok c'"
proof -
  have "timer_for (timers c') idx (reliable_table c' ! idx)" if i: "idx < length (reliable_table c')" "rt_active (reliable_table c' ! idx)" for idx
  proof (cases "idx = unat (re_table_idx tm)")
    case True then show ?thesis using e i t by auto
  next
    case False
    then have "timer_for (timers c) idx (reliable_table c ! idx)" using timers_but_other [OF b] i t by simp
    then show ?thesis using False t by (simp add: timer_for_mono [OF _ h(1)])
  qed
  then show ?thesis using b t h by (auto simp: timers_ok_def timers_but_def table_ok_def)
qed

lemma timers_fired:
  assumes b: "timers_but tm c" and al: "memory_ok al"
  shows "case timer_fired F al now tm c ds of TimerNext c' ds' \<Rightarrow> timers_ok c' | TimerBreak c' \<Rightarrow> timers_ok c'"
proof -
  let ?i = "unat (re_table_idx tm)"
  let ?e = "reliable_table c ! ?i"
  have i: "?i < length (reliable_table c)" and ord: "heap_ordered (heap_entries (retx_heap c))"
    using b by (auto simp: timers_but_def)
  have same: "reliable_table c = (reliable_table c)[?i := ?e]" by simp
  note ps = push_set [OF al] push_ordered [OF ord]
  consider (stale) "\<not> rt_active ?e \<or> rt_seq ?e \<noteq> re_seq tm \<or> rt_flags ?e \<noteq> re_flags tm"
    | (live) "rt_active ?e" "rt_seq ?e = re_seq tm" "rt_flags ?e = re_flags tm" by blast
  then show ?thesis
  proof cases
    case stale
    then have "timers_ok c" using timers_but_other [OF b i] b
      by (intro timers_ok_changed [OF b same]) (auto simp: timers_but_def)
    then show ?thesis using stale by (simp add: timer_fired_def Let_def)
  next
    case live
    have orig: "timer_for (insert tm (timers c)) ?i ?e" using b i live by (simp add: timers_but_def)
    have "timers_ok (c\<lparr>retx_heap := snd (retx_heap_push (al_heap al) (retx_heap c) (rt_send_time_us ?e + rt_timeout_us ?e) (re_table_idx tm) (re_seq tm) (re_flags tm) (re_channel tm))\<rparr>)"
      by (rule timers_ok_changed [OF b, of _ ?e]) (auto simp: ps timer_for_def live)
    moreover have "timers_ok (c\<lparr>retx_heap := snd (retx_heap_push (al_heap al) (retx_heap c) (re_expiry tm) (re_table_idx tm) (re_seq tm) (re_flags tm) (re_channel tm))\<rparr>)"
      using orig by (intro timers_ok_changed [OF b, of _ ?e]) (auto simp: ps timer_for_insert)
    moreover have "timers_ok (c\<lparr>cc := x, probe_inflight := y, reliable_table := (reliable_table c)[?i := ?e\<lparr>rt_active := False\<rparr>]\<rparr>)" for x y
      by (rule timers_ok_changed [OF b, of _ "?e\<lparr>rt_active := False\<rparr>"]) (auto simp: ord)
    moreover have "timers_ok (c\<lparr>reliable_table := (reliable_table c)[?i := ?e\<lparr>rt_send_time_us := now, rt_retransmit_count := n\<rparr>], stat_retransmits := st,
          retx_heap := snd (retx_heap_push (al_heap al) (retx_heap c) (now + rt_timeout_us ?e) (re_table_idx tm) (re_seq tm) (re_flags tm) (re_channel tm))\<rparr>)" for n st
      by (rule timers_ok_changed [OF b, of _ "?e\<lparr>rt_send_time_us := now, rt_retransmit_count := n\<rparr>"]) (auto simp: ps timer_for_def live)
    ultimately show ?thesis using live by (simp add: timer_fired_def Let_def)
  qed
qed

text \<open>A tick resends what is overdue, or gives it up, unless there is no room left for what it sends.\<close>

definition tick_done :: "u64 \<Rightarrow> 'cc reliable_state \<Rightarrow> 'cc reliable_state \<Rightarrow> deferred_send_t list \<Rightarrow> bool" where
  "tick_done now c c' ds \<longleftrightarrow>
     (\<forall>t\<in>timers c'. now < re_expiry t)
   \<and> (\<forall>e\<in>set (reliable_table c). rt_active e \<and> rt_send_time_us e + rt_timeout_us e \<le> now \<longrightarrow>
        deferred_of e \<in> set ds \<or> rt_max_retransmits e \<le> rt_retransmit_count e)"

lemma timers_ok_in_time: "timers_ok c \<Longrightarrow> \<forall>t\<in>timers c. now < re_expiry t \<Longrightarrow> i < length (reliable_table c) \<Longrightarrow>
    rt_active (reliable_table c ! i) \<Longrightarrow> now < rt_send_time_us (reliable_table c ! i) + rt_timeout_us (reliable_table c ! i)"
  by (fastforce simp: timers_ok_def timer_for_def)

lemma timer_fired_step:
  assumes "timer_fired F al now tm c ds = TimerNext c' ds'" and "e \<in> set (reliable_table c)"
  shows "e \<in> set (reliable_table c') \<or> deferred_of e \<in> set ds' \<or> rt_max_retransmits e \<le> rt_retransmit_count e \<or> \<not> rt_active e"
proof -
  obtain i where i: "i < length (reliable_table c)" "e = reliable_table c ! i" using assms(2) by (auto simp: in_set_conv_nth)
  have k: "e \<in> set ((reliable_table c)[j := x])" if "j \<noteq> i" for j x using i that by (auto simp: in_set_conv_nth intro!: exI [of _ i])
  show ?thesis using assms k i by (cases "unat (re_table_idx tm) = i") (auto simp: timer_fired_def Let_def split: if_splits)
qed

lemma timer_fired_settings: "timer_fired F al now tm c ds = TimerNext c' ds' \<Longrightarrow>
    set ds \<subseteq> set ds' \<and> reliable_timeout_us c' = reliable_timeout_us c"
  by (auto simp: timer_fired_def Let_def split: if_splits)

lemma retransmit_ok:
  "memory_ok al \<Longrightarrow> resend_closed now Q \<Longrightarrow> timers_ok c \<Longrightarrow> each Q c \<Longrightarrow> all_from Q ds \<Longrightarrow> worker_reliable_retransmit F al now c ds = (c', ds') \<Longrightarrow>
    timers_ok c' \<and> each Q c' \<and> all_from Q ds' \<and> set ds \<subseteq> set ds' \<and> reliable_timeout_us c' = reliable_timeout_us c
    \<and> (length ds' < DEFERRED_SEND_MAX \<longrightarrow> tick_done now c c' ds')"
proof (induction F al now c ds rule: worker_reliable_retransmit.induct)
  case (1 F al now c ds)
  note unfold = "1.prems"(6) [unfolded worker_reliable_retransmit.simps [of F al now c ds]]
  have quiet: ?case if "c' = c" "ds' = ds" and none: "\<And>e. retx_heap_peek (retx_heap c) = Some e \<Longrightarrow> \<not> re_expiry e \<le> now"
  proof -
    have q: "\<forall>t\<in>timers c. now < re_expiry t"
      using heapq.none_due [of "retx_heap c" now] "1.prems"(3) none by (auto simp: timers_ok_def)
    have "\<not> rt_send_time_us e + rt_timeout_us e \<le> now" if "e \<in> set (reliable_table c)" "rt_active e" for e
      using that timers_ok_in_time [OF "1.prems"(3) q] by (auto simp: in_set_conv_nth not_le)
    then show ?thesis using that(1,2) "1.prems" q by (auto simp: tick_done_def)
  qed
  show ?case
  proof (cases "\<exists>tm. retx_heap_peek (retx_heap c) = Some tm \<and> re_expiry tm \<le> now")
    case False
    then show ?thesis using unfold by (intro quiet) (auto split: option.splits if_splits)
  next
    case True
    then obtain tm where tm: "retx_heap_peek (retx_heap c) = Some tm" "re_expiry tm \<le> now" by blast
    let ?c1 = "c\<lparr>retx_heap := retx_heap_pop (retx_heap c)\<rparr>"
    have b: "timers_but tm ?c1" by (rule timers_pop [OF "1.prems"(3) tm(1)])
    have i: "unat (re_table_idx tm) < length (reliable_table ?c1)" using b by (simp add: timers_but_def)
    note kept = timers_fired [OF b "1.prems"(1), of F now ds]
      timer_fired_each [of Q ?c1 now ds tm F al, OF _ "1.prems"(2) "1.prems"(5) i]
    show ?thesis
    proof (cases "timer_fired F al now tm ?c1 ds")
      case (TimerNext c2 d2)
      have rec: "worker_reliable_retransmit F al now c2 d2 = (c', ds')" using unfold tm TimerNext by simp
      have "timers_ok c2" "each Q c2" "all_from Q d2" using kept "1.prems"(4) by (auto simp: TimerNext)
      from "1.IH" [OF tm TimerNext "1.prems"(1,2) this rec]
      have ih: "timers_ok c' \<and> each Q c' \<and> all_from Q ds' \<and> set d2 \<subseteq> set ds' \<and> reliable_timeout_us c' = reliable_timeout_us c2
          \<and> (length ds' < DEFERRED_SEND_MAX \<longrightarrow> tick_done now c2 c' ds')" .
      note st = timer_fired_step [OF TimerNext]
      have "tick_done now c c' ds'" if "tick_done now c2 c' ds'"
        using that st ih unfolding tick_done_def by (simp, blast)
      then show ?thesis using ih timer_fired_settings [OF TimerNext] by auto
    next
      case (TimerBreak c2)
      then have "c' = c2" "ds' = ds" using unfold tm by auto
      moreover have "DEFERRED_SEND_MAX \<le> length ds" "reliable_timeout_us c2 = reliable_timeout_us c" using TimerBreak by (auto simp: timer_fired_def Let_def split: if_splits)
      ultimately show ?thesis using kept "1.prems"(4,5) by (simp add: TimerBreak)
    qed
  qed
qed

end
