(* ===== verification/Reliable_Sender.thy ===== *)
theory Reliable_Sender imports Reliable_Timers
begin

unbundle bit_operations_syntax

text \<open>
  Runs of the sender of \<open>Reliable_Table\<close>: whatever is sent and acknowledged, a tick of the timer leaves no
  datagram overdue.
\<close>

section \<open>Runs of the sender\<close>

lemma word_add_mono:
  fixes x y z :: u64
  assumes "x \<le> y" and "y < 2 ^ 63" and "z < 2 ^ 63"
  shows "x + z \<le> y + z"
proof -
  have "unat y < 2 ^ 63" "unat z < 2 ^ 63" "unat x \<le> unat y"
    using assms by (simp_all add: word_less_nat_alt word_le_nat_alt)
  then show ?thesis by (simp add: word_le_nat_alt unat_word_ariths)
qed

lemma clock_later: "clock_ok T n c \<Longrightarrow> n \<le> m \<Longrightarrow> clock_ok T m c"
  by (fastforce simp: clock_ok_def each_in_def)

lemma resend_clock: "resend_closed n (\<lambda>e. rt_send_time_us e \<le> n \<and> rt_timeout_us e = T)"
  by (simp add: resend_closed_def)

definition sender_ok :: "u64 \<Rightarrow> u64 \<Rightarrow> 'cc reliable_state \<Rightarrow> bool" where
  "sender_ok T now c \<longleftrightarrow> timers_ok c \<and> clock_ok T now c \<and> reliable_timeout_us c = T"

lemma cc_only [simp]: "timers_ok (cc_cache_update F c) = timers_ok c" "timers_ok (c\<lparr>cc := x\<rparr>) = timers_ok c"
    "timers_ok (c\<lparr>probe_seq := n\<rparr>) = timers_ok c"
  by (simp_all add: timers_ok_def table_ok_def cc_cache_update_def)

lemma cache_table [simp]: "reliable_table (cc_cache_update F c) = reliable_table c" "reliable_timeout_us (cc_cache_update F c) = reliable_timeout_us c"
    "max_retransmits (cc_cache_update F c) = max_retransmits c"
  by (simp_all add: cc_cache_update_def)

lemma add_settings: "reliable_timeout_us (worker_reliable_add al now c fl ch seq dest pkt pl len) = reliable_timeout_us c"
  using put_table resize_settings by (fastforce simp: worker_reliable_add_def split: option.splits prod.splits bool.splits)

lemma sender_ok_add:
  assumes "sender_ok T n c" and "memory_ok al" and "n \<le> now"
  shows "sender_ok T now (worker_reliable_add al now c fl ch seq dest pkt pl len)"
proof -
  have "clock_ok T now (worker_reliable_add al now c fl ch seq dest pkt pl len)" unfolding clock_ok_def
    using clock_later [of T n c now] assms by (intro add_each) (auto simp: sender_ok_def clock_ok_def new_entry_def)
  then show ?thesis using assms timers_ok_add by (auto simp: sender_ok_def add_settings)
qed

lemma sender_ok_cc: "sender_ok T n (c\<lparr>cc := x\<rparr>) = sender_ok T n c" "sender_ok T n (c\<lparr>probe_seq := s\<rparr>) = sender_ok T n c"
    "sender_ok T n (cc_cache_update F c) = sender_ok T n c"
  by (simp_all add: sender_ok_def clock_ok_def)

lemma sender_ok_later: "sender_ok T n c \<Longrightarrow> n \<le> m \<Longrightarrow> sender_ok T m c"
  by (auto simp: sender_ok_def clock_later)

lemma timers_ok_table:
  assumes ok: "timers_ok c" and same: "retx_heap c' = retx_heap c" "reliable_capacity c' = reliable_capacity c"
    and t: "reliable_table c' = (reliable_table c)[i := e]" and i: "i < length (reliable_table c)"
    and e: "rt_active e \<Longrightarrow> timer_for (timers c) i e"
  shows "timers_ok c'"
  using assms by (auto simp: timers_ok_def table_ok_def nth_list_update)

lemma sender_ok_ack:
  assumes ok: "sender_ok T n c" and "n \<le> now"
  shows "sender_ok T now (worker_reliable_ack F now c seq ch probe)"
proof (cases "find_entry c ch seq (YUMI_UDP_FLAG_RELIABLE OR (if probe then YUMI_UDP_FLAG_PROBE else 0)) probe")
  case None
  then show ?thesis using sender_ok_later [OF assms] by (simp add: worker_reliable_ack_def)
next
  case (Some idx)
  have tok: "table_ok c" using ok by (simp add: sender_ok_def timers_ok_def)
  have i: "idx < length (reliable_table c)" using find_entry_Some [OF tok Some] by simp
  have a: "reliable_table (worker_reliable_ack F now c seq ch probe) = (reliable_table c)[idx := (reliable_table c ! idx)\<lparr>rt_active := False\<rparr>]"
    "retx_heap (worker_reliable_ack F now c seq ch probe) = retx_heap c"
    "reliable_capacity (worker_reliable_ack F now c seq ch probe) = reliable_capacity c"
    "reliable_timeout_us (worker_reliable_ack F now c seq ch probe) = reliable_timeout_us c"
    unfolding worker_reliable_ack_def Some by (simp_all add: Let_def)
  have "timers_ok c" using ok by (simp add: sender_ok_def)
  then have "timers_ok (worker_reliable_ack F now c seq ch probe)" by (rule timers_ok_table [OF _ a(2,3,1) i]) simp
  moreover have "clock_ok T now (worker_reliable_ack F now c seq ch probe)" unfolding clock_ok_def
    using clock_later [of T n c now] assms by (intro ack_each) (auto simp: sender_ok_def clock_ok_def)
  ultimately show ?thesis using ok a(4) by (simp add: sender_ok_def)
qed

lemma sender_ok_sack_round:
  assumes ok: "sender_ok T now c" and lim: "now < 2 ^ 63" "T < 2 ^ 63" and r: "sack_round now cum bm ch (c, ds) i = (c', ds')"
  shows "sender_ok T now c'"
proof (cases "c' = c")
  case False
  then obtain idx where f: "find_entry c ch (cum + of_nat i) YUMI_UDP_FLAG_RELIABLE False = Some idx"
    and c': "reliable_table c' = (reliable_table c)[idx := (reliable_table c ! idx)\<lparr>rt_send_time_us := now\<rparr>]"
      "reliable_capacity c' = reliable_capacity c" "retx_heap c' = retx_heap c" "reliable_timeout_us c' = reliable_timeout_us c"
    using r by (auto simp: sack_round_def worker_reliable_find_def Let_def split: if_splits option.splits)
  have tok: "table_ok c" using ok by (simp add: sender_ok_def timers_ok_def)
  note e = find_entry_Some [OF tok f]
  let ?e = "reliable_table c ! idx"
  have cl: "rt_send_time_us ?e \<le> now" "rt_timeout_us ?e = T"
    using each_in_nth [of _ "reliable_table c" idx] e ok by (auto simp: sender_ok_def clock_ok_def)
  have "timer_for (timers c) idx ?e" using ok e by (simp add: sender_ok_def timers_ok_def)
  then have "timer_for (timers c) idx (?e\<lparr>rt_send_time_us := now\<rparr>)"
    using word_add_mono [OF cl(1) lim] cl(2) by (auto simp: timer_for_def intro: order_trans)
  then have "timers_ok c'" using ok e by (intro timers_ok_table [OF _ c'(3,2,1)]) (auto simp: sender_ok_def)
  moreover have "clock_ok T now c'" using ok cl by (auto simp: sender_ok_def clock_ok_def c'(1))
  ultimately show ?thesis using ok c'(4) by (simp add: sender_ok_def)
qed (use ok in simp)

lemma sender_ok_sack: "sender_ok T now c \<Longrightarrow> now < 2 ^ 63 \<Longrightarrow> T < 2 ^ 63 \<Longrightarrow>
    sender_ok T now (fst (foldl (sack_round now cum bm ch) (c, ds) is))"
proof (induction "is" arbitrary: c ds)
  case (Cons i "is")
  obtain c1 ds1 where r: "sack_round now cum bm ch (c, ds) i = (c1, ds1)" by fastforce
  show ?case using Cons.IH [of c1 ds1] sender_ok_sack_round [OF Cons.prems r] Cons.prems by (simp add: r)
qed simp

lemma sender_ok_retransmit:
  assumes "sender_ok T n c" and "memory_ok al" and "n \<le> now" and r: "worker_reliable_retransmit F al now c [] = (c', ds)"
  shows "sender_ok T now c' \<and> (length ds < DEFERRED_SEND_MAX \<longrightarrow> tick_done now c c' ds)"
proof -
  have "sender_ok T now c" using sender_ok_later assms by blast
  then show ?thesis using retransmit_ok [OF assms(2) resend_clock [of now T], of c "[]" F c' ds] r
    by (auto simp: sender_ok_def clock_ok_def all_from_def)
qed

lemma sender_ok_probe:
  assumes "sender_ok T now c" and "memory_ok al" and "now \<le> now2"
  shows "sender_ok T now2 (fst (worker_cc_probe F al now1 now2 c ds))"
  using assms sender_ok_later [OF assms(1,3)]
  by (auto simp: worker_cc_probe_def Let_def sender_ok_cc split: prod.splits intro!: sender_ok_add [where n = now])

section \<open>Every operation, in the order the clock gives them\<close>

text \<open>
  A client starts with these settings (\<open>yumi_udp_client_create\<close>): zero stands for the default.  A
  timer is never zero.
\<close>

definition reliable_create :: "u64 \<Rightarrow> u32 \<Rightarrow> bytes \<Rightarrow> 'cc \<Rightarrow> 'cc reliable_state" where
  "reliable_create cfg_timeout cfg_max peer cc0 =
     \<lparr>reliable_table = replicate (unat YUMI_RELIABLE_INIT_SLOTS) zero_entry,
      retx_heap = \<lparr>heap_entries = [], heap_capacity = unat YUMI_RELIABLE_INIT_SLOTS * 4\<rparr>,
      reliable_capacity = YUMI_RELIABLE_INIT_SLOTS,
      reliable_timeout_us = (if 0 < cfg_timeout then cfg_timeout else 200000),
      max_retransmits = (if 0 < cfg_max then cfg_max else 5),
      cc = cc0, cc_rate_cache = 0, probe_seq = 0, probe_inflight = 0, stat_retransmits = 0, peer_addr = peer\<rparr>"

datatype sender_op =
    OpSend u64 u64 byte byte u32 bytes bytes u32
  | OpAck u64 u64 u32 byte bool bytes u32
  | OpTick u64 u64 u64

primrec op_clock :: "sender_op \<Rightarrow> u64 list" where
  "op_clock (OpSend t1 t2 fl ch seq dest payload len) = [t1, t2]"
| "op_clock (OpAck t1 t2 seq ch probe payload len) = [t1, t2]"
| "op_clock (OpTick t t1 t2) = [t, t1, t2]"

primrec sender_step :: "bool \<Rightarrow> 'cc cc_functions \<Rightarrow> allocator \<Rightarrow> sender_op \<Rightarrow> 'cc reliable_state \<Rightarrow> 'cc reliable_state \<times> deferred_send_t list" where
  "sender_step h F al (OpSend t1 t2 fl ch seq dest payload len) c = (send_locked F al t1 t2 fl ch seq dest payload len c, [])"
| "sender_step h F al (OpAck t1 t2 seq ch probe payload len) c = ack_locked h F t1 t2 seq ch probe payload len c"
| "sender_step h F al (OpTick t t1 t2) c = timer_event F al t t1 t2 c"

text \<open>The clock is monotonic and below \<open>2 ^ 63\<close> microseconds.\<close>

definition clock_runs :: "u64 \<Rightarrow> u64 list \<Rightarrow> bool" where
  "clock_runs now ts \<longleftrightarrow> sorted (now # ts) \<and> (\<forall>t\<in>set ts. t < 2 ^ 63)"

inductive sender_run :: "bool \<Rightarrow> 'cc cc_functions \<Rightarrow> 'cc reliable_state \<Rightarrow> u64 \<Rightarrow> 'cc reliable_state \<Rightarrow> bool"
  for h F c0 where
  start: "sender_run h F c0 0 c0"
| step: "sender_run h F c0 now c \<Longrightarrow> clock_runs now (op_clock op) \<Longrightarrow> memory_ok al \<Longrightarrow>
    sender_run h F c0 (last (op_clock op)) (fst (sender_step h F al op c))"

lemma sender_create_ok: "sender_ok (reliable_timeout_us (reliable_create t m p x)) 0 (reliable_create t m p x)"
proof -
  have "(4096 :: u32) = 2 ^ 12" by simp
  then have "\<exists>k<32. (4096 :: u32) = 2 ^ k" by (intro exI [of _ 12]) simp
  moreover have "\<not> rt_active (replicate n zero_entry ! i)" if "i < n" for n i using that by (simp add: zero_entry_def)
  ultimately show ?thesis
    by (simp add: sender_ok_def timers_ok_def table_ok_def clock_ok_def each_in_def reliable_create_def heap_empty zero_entry_def)
qed

lemma sender_step_ok:
  assumes ok: "sender_ok T now c" and T: "T < 2 ^ 63" and cl: "clock_runs now (op_clock op)" and al: "memory_ok al"
  shows "sender_ok T (last (op_clock op)) (fst (sender_step h F al op c))"
proof (cases op)
  case (OpSend t1 t2 fl ch seq dest payload len)
  then have "now \<le> t2" using cl by (auto simp: clock_runs_def)
  then show ?thesis using ok al OpSend
    by (auto simp: send_locked_def sender_ok_cc split: prod.splits intro!: sender_ok_add [where n = now])
next
  case (OpAck t1 t2 seq ch probe payload len)
  then have t: "now \<le> t1" "t1 \<le> t2" "t2 < 2 ^ 63" using cl by (auto simp: clock_runs_def)
  have "sender_ok T t2 (worker_reliable_ack F t1 c seq ch probe)" by (rule sender_ok_later [OF sender_ok_ack [OF ok t(1)] t(2)])
  then show ?thesis using sender_ok_sack [of T t2 "worker_reliable_ack F t1 c seq ch probe"] t T OpAck
    by (auto simp: ack_locked_def worker_handle_sack_def Let_def sender_ok_cc split: prod.splits) (metis fst_conv)+
next
  case (OpTick t t1 t2)
  then have t: "now \<le> t" "t \<le> t2" using cl by (auto simp: clock_runs_def)
  obtain c1 ds where r: "worker_reliable_retransmit F al t c [] = (c1, ds)" by fastforce
  have "sender_ok T t2 (fst (worker_cc_probe F al t1 t2 c1 ds))"
    using sender_ok_retransmit [OF ok al t(1) r] sender_ok_probe [OF _ al t(2)] by blast
  then show ?thesis using OpTick by (auto simp: timer_event_def r sender_ok_cc split: prod.splits)
qed

lemma sender_run_ok: "sender_run h F c0 now c \<Longrightarrow> sender_ok T 0 c0 \<Longrightarrow> T < 2 ^ 63 \<Longrightarrow> sender_ok T now c"
  by (induction rule: sender_run.induct) (auto intro: sender_step_ok)

lemma probe_each:
  fixes c :: "'cc reliable_state"
  assumes "each Q c" and "\<And>(c' :: 'cc reliable_state) seq pkt. reliable_timeout_us c' = reliable_timeout_us c \<Longrightarrow> max_retransmits c' = max_retransmits c \<Longrightarrow>
      Q (new_entry now2 c' (YUMI_UDP_FLAG_RELIABLE OR YUMI_UDP_FLAG_PROBE) 0 seq (peer_addr c) pkt [] 0)"
  shows "each Q (fst (worker_cc_probe F al now1 now2 c ds))"
  using assms by (auto simp: worker_cc_probe_def Let_def split: prod.splits intro!: add_each)

lemma probe_active:
  assumes "e \<in> set (reliable_table (fst (worker_cc_probe F al now1 now2 c ds)))" and "rt_active e"
  shows "e \<in> set (reliable_table c) \<or> rt_send_time_us e = now2 \<and> rt_timeout_us e = reliable_timeout_us c"
  using probe_each [of "\<lambda>e. e \<in> set (reliable_table c) \<or> rt_send_time_us e = now2 \<and> rt_timeout_us e = reliable_timeout_us c" c now2 F al now1 ds] assms
  by (auto simp: each_in_def new_entry_def)

text \<open>
  C35.  As long as memory lasts, every reliable datagram that waits for its acknowledgement is watched:
  whatever has been sent, acknowledged, selectively acknowledged and resent, a tick of the timer that
  has room for what it sends resends every overdue datagram unless its retransmissions are used up,
  and leaves none overdue.
\<close>

theorem ticks_leave_nothing_overdue:
  assumes run: "sender_run h F (reliable_create cfg_timeout cfg_max peer cc0) now0 c"
    and cfg: "cfg_timeout < 2 ^ 63" and al: "memory_ok al" and cl: "clock_runs now0 [now, now1, now2]"
    and tick: "timer_event F al now now1 now2 c = (c', sent)" and room: "length sent < DEFERRED_SEND_MAX"
  shows "(\<forall>e\<in>set (reliable_table c). rt_active e \<and> rt_send_time_us e + rt_timeout_us e \<le> now \<longrightarrow>
            deferred_of e \<in> set sent \<or> rt_max_retransmits e \<le> rt_retransmit_count e)
       \<and> (\<forall>e\<in>set (reliable_table c'). rt_active e \<longrightarrow> now < rt_send_time_us e + rt_timeout_us e)"
proof -
  let ?T = "reliable_timeout_us (reliable_create cfg_timeout cfg_max peer cc0)"
  have T: "0 < ?T" "?T < 2 ^ 63" using cfg by (auto simp: reliable_create_def)
  have ok: "sender_ok ?T now0 c" by (rule sender_run_ok [OF run sender_create_ok T(2)])
  have t: "now0 \<le> now" "now \<le> now2" "now2 < 2 ^ 63" using cl by (auto simp: clock_runs_def)
  obtain c1 d1 where r: "worker_reliable_retransmit F al now c [] = (c1, d1)" by fastforce
  obtain c2 d2 where p: "worker_cc_probe F al now1 now2 c1 d1 = (c2, d2)" by fastforce
  have c': "c' = cc_cache_update F c2" "sent = d2" using tick by (simp_all add: timer_event_def r p)
  have d: "set d1 \<subseteq> set d2" "length d1 \<le> length d2"
    using p by (auto simp: worker_cc_probe_def Let_def split: if_splits prod.splits)
  then have fin: "sender_ok ?T now c1" "tick_done now c c1 d1"
    using sender_ok_retransmit [OF ok al t(1) r] room c' by auto
  have "now < rt_send_time_us e + rt_timeout_us e" if e: "e \<in> set (reliable_table c')" "rt_active e" for e
  proof -
    have "e \<in> set (reliable_table (fst (worker_cc_probe F al now1 now2 c1 d1)))" using e c' p by simp
    from probe_active [OF this e(2)] show ?thesis
    proof
      assume "e \<in> set (reliable_table c1)"
      then show ?thesis using timers_ok_in_time [of c1 now] fin e(2) by (auto simp: sender_ok_def tick_done_def in_set_conv_nth)
    next
      assume "rt_send_time_us e = now2 \<and> rt_timeout_us e = reliable_timeout_us c1"
      moreover have "now2 < now2 + ?T" using T t(3) by (simp add: word_less_nat_alt unat_word_ariths)
      ultimately show ?thesis using t(2) fin(1) by (auto simp: sender_ok_def)
    qed
  qed
  then show ?thesis using fin(2) d(1) c'(2) by (auto simp: tick_done_def)
qed

text \<open>The witness: one datagram sent at the start is overdue after 300 milliseconds.\<close>

definition demo_cc :: "unit cc_functions" where
  "demo_cc = \<lparr>yumi_cc_on_send = (\<lambda>cc p t. (cc, p\<lparr>pk_send_time_us := t\<rparr>)), yumi_cc_on_ack = (\<lambda>cc p n r t. cc), yumi_cc_on_loss = (\<lambda>cc n. cc),
     yumi_cc_in_probe = (\<lambda>cc. False), yumi_cc_get_send_rate = (\<lambda>cc. 0)\<rparr>"

definition demo_memory :: allocator where
  "demo_memory = \<lparr>al_table = (\<lambda>n. n \<noteq> 0), al_heap = (\<lambda>n. True)\<rparr>"

definition demo_tx :: "unit reliable_state" where
  "demo_tx = fst (sender_step True demo_cc demo_memory (OpSend 1 1 1 0 0 [] [7] 1) (reliable_create 0 0 [] ()))"

definition demo_waiting :: yumi_reliable_entry_t where
  "demo_waiting = new_entry 1 (reliable_create 0 0 [] ()) 1 0 0 [] (zero_packet\<lparr>pk_seq := 0, pk_size := 11, pk_send_time_us := 1\<rparr>) [7] 1"

lemma find_free_zero: "0 < cap \<Longrightarrow> unat (base AND (cap - 1)) < n \<Longrightarrow> find_free (replicate n zero_entry) base cap = Some (unat (base AND (cap - 1)))"
proof -
  assume a: "0 < cap" "unat (base AND (cap - 1)) < n"
  then have "0 < unat cap" by (simp add: word_less_nat_alt)
  then show ?thesis using a(2) by (simp add: find_free_def probe_order_def upt_conv_Cons zero_entry_def)
qed

lemma demo_tx_facts:
  "reliable_table demo_tx = (replicate (unat YUMI_RELIABLE_INIT_SLOTS) zero_entry)[0 := demo_waiting]"
  "heap_entries (retx_heap demo_tx) = [\<lparr>re_expiry = 200001, re_table_idx = 0, re_seq = 0, re_flags = 1, re_channel = 0\<rparr>]"
  "cc demo_tx = ()"
proof -
  have f: "find_free (replicate (unat YUMI_RELIABLE_INIT_SLOTS) zero_entry) (reliable_hash 0 1 0 YUMI_RELIABLE_INIT_SLOTS) YUMI_RELIABLE_INIT_SLOTS = Some 0"
    by (subst find_free_zero) (simp_all add: reliable_hash_def is_probe_def)
  let ?c = "(reliable_create 0 0 [] ())\<lparr>cc := ()\<rparr>" and ?p = "zero_packet\<lparr>pk_seq := 0, pk_size := 11, pk_send_time_us := 1\<rparr>"
  have add: "worker_reliable_add demo_memory 1 ?c 1 0 0 [] ?p [7] 1 =
      ?c\<lparr>reliable_table := (replicate (unat YUMI_RELIABLE_INIT_SLOTS) zero_entry)[0 := demo_waiting],
         retx_heap := snd (retx_heap_push (al_heap demo_memory) \<lparr>heap_entries = [], heap_capacity = unat YUMI_RELIABLE_INIT_SLOTS * 4\<rparr> 200001 0 0 1 0)\<rparr>"
    unfolding worker_reliable_add_def reliable_put_def Let_def
    using f by (simp add: reliable_create_def demo_waiting_def new_entry_def is_probe_def)
  have tx: "demo_tx = cc_cache_update demo_cc (worker_reliable_add demo_memory 1 ?c 1 0 0 [] ?p [7] 1)"
    by (simp add: demo_tx_def send_locked_def demo_cc_def)
  show "reliable_table demo_tx = (replicate (unat YUMI_RELIABLE_INIT_SLOTS) zero_entry)[0 := demo_waiting]"
    "heap_entries (retx_heap demo_tx) = [\<lparr>re_expiry = 200001, re_table_idx = 0, re_seq = 0, re_flags = 1, re_channel = 0\<rparr>]"
    "cc demo_tx = ()"
    unfolding tx add by (simp_all add: cc_cache_update_def retx_heap_push_def Let_def retx_heap_sift_up.simps demo_memory_def)
qed

lemma demo_tick: "\<exists>c'. timer_event demo_cc demo_memory 300000 300000 300000 demo_tx = (c', [deferred_of demo_waiting])"
proof -
  have w: "rt_active demo_waiting" "rt_seq demo_waiting = 0" "rt_flags demo_waiting = 1" "rt_send_time_us demo_waiting = 1" "rt_timeout_us demo_waiting = 200000"
    "rt_max_retransmits demo_waiting = 5" "rt_retransmit_count demo_waiting = 0"
    by (simp_all add: demo_waiting_def new_entry_def reliable_create_def)
  have fired: "\<exists>c1. timer_fired demo_cc demo_memory 300000 \<lparr>re_expiry = 200001, re_table_idx = 0, re_seq = 0, re_flags = 1, re_channel = 0\<rparr>
      (demo_tx\<lparr>retx_heap := retx_heap_pop (retx_heap demo_tx)\<rparr>) [] = TimerNext c1 [deferred_of demo_waiting] \<and> retx_heap_peek (retx_heap c1) =
        Some \<lparr>re_expiry = 500000, re_table_idx = 0, re_seq = 0, re_flags = 1, re_channel = 0\<rparr> \<and> cc c1 = ()"
    by (simp add: timer_fired_def Let_def demo_tx_facts w retx_heap_pop_def retx_heap_push_def retx_heap_sift_up.simps demo_memory_def retx_heap_peek_def)
  then obtain c1 where c1: "timer_fired demo_cc demo_memory 300000 \<lparr>re_expiry = 200001, re_table_idx = 0, re_seq = 0, re_flags = 1, re_channel = 0\<rparr>
      (demo_tx\<lparr>retx_heap := retx_heap_pop (retx_heap demo_tx)\<rparr>) [] = TimerNext c1 [deferred_of demo_waiting]"
    "retx_heap_peek (retx_heap c1) = Some \<lparr>re_expiry = 500000, re_table_idx = 0, re_seq = 0, re_flags = 1, re_channel = 0\<rparr>" by blast
  have "worker_reliable_retransmit demo_cc demo_memory 300000 demo_tx [] = (c1, [deferred_of demo_waiting])"
    by (subst worker_reliable_retransmit.simps)
      (simp add: retx_heap_peek_def [of "retx_heap demo_tx"] demo_tx_facts c1 worker_reliable_retransmit.simps [of _ _ _ c1])
  then show ?thesis by (simp add: timer_event_def worker_cc_probe_def demo_cc_def)
qed

theorem ticks_leave_nothing_overdue_witness:
  "\<exists>c'. timer_event demo_cc demo_memory 300000 300000 300000 demo_tx = (c', [deferred_of demo_waiting])
     \<and> (\<forall>e\<in>set (reliable_table c'). rt_active e \<longrightarrow> 300000 < rt_send_time_us e + rt_timeout_us e)"
proof -
  have cl: "clock_runs 0 (op_clock (OpSend 1 1 1 0 0 [] [7] 1))" by (simp add: clock_runs_def)
  have al: "memory_ok demo_memory" by (simp add: memory_ok_def demo_memory_def)
  have run: "sender_run True demo_cc (reliable_create 0 0 [] ()) 1 demo_tx"
    using sender_run.step [OF sender_run.start cl al] by (simp add: demo_tx_def)
  obtain c' where c': "timer_event demo_cc demo_memory 300000 300000 300000 demo_tx = (c', [deferred_of demo_waiting])"
    using demo_tick by blast
  have "clock_runs 1 [300000, 300000, 300000]" by (simp add: clock_runs_def)
  from ticks_leave_nothing_overdue [OF run _ al this c'] show ?thesis using c' by auto
qed

end
