(* ===== verification/Reorder.thy ===== *)
theory Reorder imports Buf
begin

unbundle bit_operations_syntax

text \<open>
  The receiver's side of the channels of the UDP client (\<open>src/src/network/yumi_udp_client.c\<close>,
  \<open>src/include/network/yumi_udp_client.h\<close>): a reliable channel delivers in order, with a window of
  \<open>YUMI_REORDER_WINDOW\<close> datagrams that arrived early; an unreliable one drops what is older than what it
  has delivered.  One datagram is one step, as with the single receiving worker the client has by
  default.
\<close>

section \<open>Data\<close>

abbreviation (input) YUMI_UDP_MAX_CHANNELS :: nat where "YUMI_UDP_MAX_CHANNELS \<equiv> 256"
abbreviation (input) REORDER_WINDOW :: u32 where "REORDER_WINDOW \<equiv> 32"
abbreviation (input) YUMI_REORDER_MASK :: u32 where "YUMI_REORDER_MASK \<equiv> 31"

text \<open>\<open>rs_data\<close> is the part of the array in use, its first \<open>rs_len\<close> bytes.\<close>

record yumi_reorder_slot_t =
  rs_occupied :: bool
  rs_seq :: u32
  rs_len :: u32
  rs_data :: bytes

text \<open>A call of the receive callback; the channel, which the code does not pass on, is kept for the proofs.\<close>

record recv_call =
  rc_channel :: byte
  rc_data :: "bytes option"
  rc_len :: u32
  rc_reliable :: bool
  rc_seq :: u32

record recv_state =
  recv_rel_next :: "u32 list"
  recv_rel_started :: "bool list"
  recv_unrel_next :: "u32 list"
  recv_unrel_started :: "bool list"
  reorder_buf :: "yumi_reorder_slot_t list"
  recv_calls :: "recv_call list"

definition recv_create :: recv_state where
  "recv_create = \<lparr>recv_rel_next = replicate YUMI_UDP_MAX_CHANNELS 0, recv_rel_started = replicate YUMI_UDP_MAX_CHANNELS False,
     recv_unrel_next = replicate YUMI_UDP_MAX_CHANNELS 0, recv_unrel_started = replicate YUMI_UDP_MAX_CHANNELS False,
     reorder_buf = replicate (YUMI_UDP_MAX_CHANNELS * 32) \<lparr>rs_occupied = False, rs_seq = 0, rs_len = 0, rs_data = []\<rparr>,
     recv_calls = []\<rparr>"

definition slot_index :: "byte \<Rightarrow> u32 \<Rightarrow> nat" where
  "slot_index ch seq = unat (ucast ch * REORDER_WINDOW + (seq AND YUMI_REORDER_MASK))"

definition recv_cb :: "byte \<Rightarrow> bytes \<Rightarrow> bool \<Rightarrow> u32 \<Rightarrow> u32 \<Rightarrow> recv_state \<Rightarrow> recv_state" where
  "recv_cb ch data reliable len seq r = r\<lparr>recv_calls := recv_calls r @
     [\<lparr>rc_channel = ch, rc_data = (if 0 < len then Some (take (unat len) data) else None), rc_len = len, rc_reliable = reliable, rc_seq = seq\<rparr>]\<rparr>"

section \<open>Reliable channels\<close>

definition occupied_count :: "yumi_reorder_slot_t list \<Rightarrow> nat" where
  "occupied_count b = length (filter rs_occupied b)"

lemma occupied_clear: "i < length b \<Longrightarrow> rs_occupied (b ! i) \<Longrightarrow> \<not> rs_occupied s \<Longrightarrow> occupied_count (b[i := s]) < occupied_count b"
proof -
  assume a: "i < length b" "rs_occupied (b ! i)" "\<not> rs_occupied s"
  have "b = take i b @ b ! i # drop (Suc i) b" using a(1) by (rule id_take_nth_drop)
  then have "occupied_count b = length (filter rs_occupied (take i b)) + 1 + length (filter rs_occupied (drop (Suc i) b))"
    using a(2) by (metis (no_types, lifting) occupied_count_def One_nat_def add_Suc_right add_Suc add.right_neutral
        filter.simps(2) filter_append length_Cons length_append)
  then show ?thesis using a by (simp add: upd_conv_take_nth_drop occupied_count_def)
qed

text \<open>The loop runs while the slot of the next datagram holds it; the index is always inside the buffer.\<close>

function worker_reorder_drain :: "byte \<Rightarrow> recv_state \<Rightarrow> recv_state" where
  "worker_reorder_drain ch r =
     (let nxt = recv_rel_next r ! unat ch;
          slot_idx = slot_index ch nxt;
          rs = reorder_buf r ! slot_idx
      in if \<not> rs_occupied rs \<or> rs_seq rs \<noteq> nxt \<or> length (reorder_buf r) \<le> slot_idx then r
         else worker_reorder_drain ch
           ((recv_cb ch (rs_data rs) True (rs_len rs) (rs_seq rs) r)
              \<lparr>reorder_buf := (reorder_buf r)[slot_idx := rs\<lparr>rs_occupied := False\<rparr>],
               recv_rel_next := (recv_rel_next r)[unat ch := nxt + 1]\<rparr>))"
  by pat_completeness auto

termination
  by (relation "measure (\<lambda>(ch, r). occupied_count (reorder_buf r))") (auto simp: Let_def recv_cb_def intro!: occupied_clear)

declare worker_reorder_drain.simps [simp del]

text \<open>What is sent back: nothing, or an acknowledgement with this payload.\<close>

type_synonym reply = "bytes option"

definition sack_bitmap :: "byte \<Rightarrow> u32 \<Rightarrow> recv_state \<Rightarrow> u32" where
  "sack_bitmap ch cumulative r =
     foldl (\<lambda>bitmap si.
              let ck = cumulative + of_nat si;
                  rsl = reorder_buf r ! slot_index ch ck
              in if rs_occupied rsl \<and> rs_seq rsl = ck then bitmap OR push_bit si 1 else bitmap)
       0 [0..<32]"

definition recv_reliable :: "bool \<Rightarrow> byte \<Rightarrow> u32 \<Rightarrow> u32 \<Rightarrow> bytes \<Rightarrow> recv_state \<Rightarrow> recv_state \<times> reply" where
  "recv_reliable host_le ch seq safe_len payload r0 =
     (let r = (if \<not> recv_rel_started r0 ! unat ch
               then r0\<lparr>recv_rel_started := (recv_rel_started r0)[unat ch := True],
                       recv_rel_next := (recv_rel_next r0)[unat ch := seq]\<rparr>
               else r0);
          dist = seq - recv_rel_next r ! unat ch
      in if dist <s 0 then (r, Some [])
         else if dist = 0
         then let r1 = recv_cb ch payload True safe_len seq r;
                  r2 = r1\<lparr>recv_rel_next := (recv_rel_next r1)[unat ch := seq + 1]\<rparr>
              in (worker_reorder_drain ch r2, Some [])
         else if dist < REORDER_WINDOW
         then let slot_idx = slot_index ch seq;
                  rs = reorder_buf r ! slot_idx;
                  r1 = (if \<not> rs_occupied rs
                        then r\<lparr>reorder_buf := (reorder_buf r)[slot_idx :=
                               \<lparr>rs_occupied = True, rs_seq = seq, rs_len = safe_len, rs_data = take (unat safe_len) payload\<rparr>]\<rparr>
                        else r);
                  cumulative = recv_rel_next r1 ! unat ch
              in (r1, Some (mem_bytes host_le 4 cumulative @ mem_bytes host_le 4 (sack_bitmap ch cumulative r1)))
         else (r, None))"

section \<open>Unreliable channels\<close>

definition recv_unreliable :: "byte \<Rightarrow> u32 \<Rightarrow> u32 \<Rightarrow> bytes \<Rightarrow> recv_state \<Rightarrow> recv_state" where
  "recv_unreliable ch seq safe_len payload r0 =
     (let r = (if \<not> recv_unrel_started r0 ! unat ch
               then r0\<lparr>recv_unrel_started := (recv_unrel_started r0)[unat ch := True],
                       recv_unrel_next := (recv_unrel_next r0)[unat ch := seq]\<rparr>
               else r0);
          dist = seq - recv_unrel_next r ! unat ch
      in if dist <s 0 then r
         else recv_cb ch payload False safe_len seq (r\<lparr>recv_unrel_next := (recv_unrel_next r)[unat ch := seq + 1]\<rparr>))"

section \<open>Where datagrams are kept\<close>

lemma slot_index_eq: "slot_index ch seq = unat ch * 32 + unat seq mod 32"
proof -
  have "seq AND YUMI_REORDER_MASK = take_bit 5 seq" by (simp add: take_bit_eq_mask mask_eq_exp_minus_1)
  then have m: "unat (seq AND YUMI_REORDER_MASK) = unat seq mod 32" by (simp add: unsigned_take_bit_eq take_bit_eq_mod unat_mod)
  have c: "unat (ucast ch * REORDER_WINDOW) = unat ch * 32"
  proof -
    have "unat ch < 2 ^ 8" using unsigned_less [of ch, where 'a = nat] by simp
    then show ?thesis by (simp add: unat_word_ariths unsigned_ucast_eq take_bit_eq_mod)
  qed
  have "unat ch < 2 ^ 8" using unsigned_less [of ch, where 'a = nat] by simp
  moreover have "unat seq mod 32 < 32" by simp
  ultimately show ?thesis unfolding slot_index_def by (subst unat_word_ariths) (simp add: c m)
qed

lemma slot_index_lt: "slot_index ch seq < YUMI_UDP_MAX_CHANNELS * 32"
proof -
  have "unat ch < 2 ^ 8" using unsigned_less [of ch, where 'a = nat] by simp
  moreover have "unat seq mod 32 < 32" by simp
  ultimately show ?thesis by (simp add: slot_index_eq)
qed

lemma window_digits: "a < 32 \<Longrightarrow> b < 32 \<Longrightarrow> x * 32 + a = y * 32 + b \<longleftrightarrow> x = y \<and> a = (b :: nat)"
proof
  assume a: "a < 32" "b < 32" and e: "x * 32 + a = y * 32 + b"
  have "(x * 32 + a) div 32 = x" "(y * 32 + b) div 32 = y" using a by simp_all
  then show "x = y \<and> a = b" using e by simp
qed simp

lemma slot_index_inj: "slot_index ch seq = slot_index ch' seq' \<longleftrightarrow> ch = ch' \<and> unat seq mod 32 = unat seq' mod 32"
proof -
  show ?thesis unfolding slot_index_eq word_unat_eq_iff [of ch] by (rule window_digits) simp_all
qed

text \<open>Two datagrams less than the window ahead of the next one share a slot only if they are the same.\<close>

lemma window_unique:
  assumes "unat (s - n) < 32" and "unat (s' - n) < 32" and "unat s mod 32 = unat s' mod 32"
  shows "s = (s' :: u32)"
proof -
  have m: "unat x mod 32 = unat (x mod 32)" for x :: u32 by (simp add: unat_mod)
  have "(s - n) = (s' - n)"
  proof -
    have "unat (s - n) mod 32 = unat (s' - n) mod 32"
    proof -
      have *: "unat (x - n) mod 32 = (unat x + (2 ^ 32 - unat n)) mod 32" for x :: u32
      proof -
        have n: "unat n \<le> 2 ^ 32" "unat x < 2 ^ 32"
          using unsigned_less [of n, where 'a = nat] unsigned_less [of x, where 'a = nat] by simp_all
        have "unat (x - n) = (unat x + (2 ^ 32 - unat n)) mod 2 ^ 32"
        proof (cases "unat n \<le> unat x")
          case True
          then have e: "unat x + (2 ^ 32 - unat n) = (unat x - unat n) + 2 ^ 32" using n by simp
          have "unat x - unat n < 2 ^ 32" using n by simp
          then have "unat x - unat n = (unat x + (2 ^ 32 - unat n)) mod 2 ^ 32" unfolding e mod_add_self2 by (rule mod_less [symmetric])
          then show ?thesis using True by (simp only: unat_sub_if' if_True)
        next
          case False
          then show ?thesis using n by (simp add: unat_sub_if')
        qed
        then show ?thesis using mod_mod_cancel [of 32 "2 ^ 32" "unat x + (2 ^ 32 - unat n)"] by simp
      qed
      show ?thesis unfolding * using assms(3) by (metis mod_add_left_eq)
    qed
    then show ?thesis using assms(1,2) by (simp add: word_unat_eq_iff)
  qed
  then show ?thesis by simp
qed

end
