(* ===== verification/Udp_Client.thy ===== *)
theory Udp_Client imports Reliable_Sender Reorder Ring
begin

unbundle bit_operations_syntax

text \<open>
  The UDP client around its two sides (\<open>src/src/network/yumi_udp_client.c\<close>): what the application calls,
  the sending worker, and what the receiving worker does with a datagram.

  There is one sending and one receiving worker, as by default; each step holds the locks it takes.
  The rings between the threads are the bounded queues that \<open>Ring\<close> shows them to be.  The socket hooks
  that encrypt and decrypt a datagram are parameters.  Of the pacing only the credit is kept: the rate
  is computed in floating point, so a refill gives any credit.  The traffic statistics, which nothing
  reads back, are left out.
\<close>

section \<open>The client\<close>

text \<open>\<open>user_calls\<close> are the calls of \<open>user_work_cb\<close>; \<open>use_ice\<close>: is there an ICE agent?\<close>

record 'cc yumi_udp_client_t =
  tx :: "'cc reliable_state"
  rx :: recv_state
  rel_seq :: "u32 list"
  unrel_seq :: "u32 list"
  max_payload :: u32
  use_ice :: bool
  has_recv_cb :: bool
  has_user_cb :: bool
  send_ring :: "yumi_work_item_t list"
  ack_ring :: "yumi_work_item_t list"
  pace_credit :: i64
  user_calls :: "bytes list"

section \<open>What the application calls\<close>

text \<open>
  \<open>slot\<close> is the cell of the ring as it was left: only what the code stores in it changes.  A full
  ring makes the producer give up in the end.
\<close>

definition fill_slot :: "yumi_work_item_t \<Rightarrow> yumi_work_type_t \<Rightarrow> byte \<Rightarrow> bytes option \<Rightarrow> bytes option \<Rightarrow> u32 \<Rightarrow> yumi_work_item_t" where
  "fill_slot slot type channel dest data len =
     slot\<lparr>wi_type := type, wi_len := len, wi_channel := channel, wi_has_dest := dest \<noteq> None,
          wi_dest := (case dest of None \<Rightarrow> wi_dest slot | Some d \<Rightarrow> d),
          wi_data := (case data of None \<Rightarrow> wi_data slot | Some d \<Rightarrow> take (unat len) d @ drop (unat len) (wi_data slot))\<rparr>"

definition enqueue_work :: "yumi_work_item_t \<Rightarrow> yumi_work_type_t \<Rightarrow> byte \<Rightarrow> bytes option \<Rightarrow> bytes option \<Rightarrow> u32
    \<Rightarrow> 'cc yumi_udp_client_t \<Rightarrow> int \<times> 'cc yumi_udp_client_t" where
  "enqueue_work slot type channel dest data len c =
     (if max_payload c < len then (-1, c)
      else if YUMI_RING_CAPACITY \<le> length (send_ring c) then (-1, c)
      else (0, c\<lparr>send_ring := send_ring c @ [fill_slot slot type channel dest data len]\<rparr>))"

definition yumi_udp_client_send :: "yumi_work_item_t \<Rightarrow> bytes option \<Rightarrow> u32 \<Rightarrow> 'cc yumi_udp_client_t \<Rightarrow> int \<times> 'cc yumi_udp_client_t" where
  "yumi_udp_client_send slot data len c = enqueue_work slot YUMI_WORK_SEND_UNRELIABLE 0 None data len c"

definition yumi_udp_client_send_reliable :: "yumi_work_item_t \<Rightarrow> bytes option \<Rightarrow> u32 \<Rightarrow> 'cc yumi_udp_client_t \<Rightarrow> int \<times> 'cc yumi_udp_client_t" where
  "yumi_udp_client_send_reliable slot data len c = enqueue_work slot YUMI_WORK_SEND_RELIABLE 0 None data len c"

definition yumi_udp_client_send_channel :: "yumi_work_item_t \<Rightarrow> byte \<Rightarrow> bytes option \<Rightarrow> u32 \<Rightarrow> 'cc yumi_udp_client_t \<Rightarrow> int \<times> 'cc yumi_udp_client_t" where
  "yumi_udp_client_send_channel slot channel data len c =
     (if YUMI_UDP_MAX_CHANNELS \<le> unat channel then (-1, c)
      else enqueue_work slot YUMI_WORK_SEND_UNRELIABLE channel None data len c)"

definition yumi_udp_client_send_reliable_channel :: "yumi_work_item_t \<Rightarrow> byte \<Rightarrow> bytes option \<Rightarrow> u32 \<Rightarrow> 'cc yumi_udp_client_t \<Rightarrow> int \<times> 'cc yumi_udp_client_t" where
  "yumi_udp_client_send_reliable_channel slot channel data len c =
     (if YUMI_UDP_MAX_CHANNELS \<le> unat channel then (-1, c)
      else enqueue_work slot YUMI_WORK_SEND_RELIABLE channel None data len c)"

definition yumi_udp_client_send_to :: "yumi_work_item_t \<Rightarrow> bytes \<Rightarrow> bytes option \<Rightarrow> u32 \<Rightarrow> 'cc yumi_udp_client_t \<Rightarrow> int \<times> 'cc yumi_udp_client_t" where
  "yumi_udp_client_send_to slot dest data len c =
     (if use_ice c then (-1, c) else enqueue_work slot YUMI_WORK_SEND_UNRELIABLE 0 (Some dest) data len c)"

definition yumi_udp_client_send_reliable_to :: "yumi_work_item_t \<Rightarrow> bytes \<Rightarrow> bytes option \<Rightarrow> u32 \<Rightarrow> 'cc yumi_udp_client_t \<Rightarrow> int \<times> 'cc yumi_udp_client_t" where
  "yumi_udp_client_send_reliable_to slot dest data len c =
     (if use_ice c then (-1, c) else enqueue_work slot YUMI_WORK_SEND_RELIABLE 0 (Some dest) data len c)"

definition yumi_udp_client_send_channel_to :: "yumi_work_item_t \<Rightarrow> byte \<Rightarrow> bytes \<Rightarrow> bytes option \<Rightarrow> u32 \<Rightarrow> 'cc yumi_udp_client_t \<Rightarrow> int \<times> 'cc yumi_udp_client_t" where
  "yumi_udp_client_send_channel_to slot channel dest data len c =
     (if use_ice c then (-1, c)
      else if YUMI_UDP_MAX_CHANNELS \<le> unat channel then (-1, c)
      else enqueue_work slot YUMI_WORK_SEND_UNRELIABLE channel (Some dest) data len c)"

definition yumi_udp_client_send_reliable_channel_to :: "yumi_work_item_t \<Rightarrow> byte \<Rightarrow> bytes \<Rightarrow> bytes option \<Rightarrow> u32 \<Rightarrow> 'cc yumi_udp_client_t \<Rightarrow> int \<times> 'cc yumi_udp_client_t" where
  "yumi_udp_client_send_reliable_channel_to slot channel dest data len c =
     (if use_ice c then (-1, c)
      else if YUMI_UDP_MAX_CHANNELS \<le> unat channel then (-1, c)
      else enqueue_work slot YUMI_WORK_SEND_RELIABLE channel (Some dest) data len c)"

definition yumi_udp_client_post_user :: "yumi_work_item_t \<Rightarrow> bytes option \<Rightarrow> u32 \<Rightarrow> 'cc yumi_udp_client_t \<Rightarrow> int \<times> 'cc yumi_udp_client_t" where
  "yumi_udp_client_post_user slot data len c =
     (if YUMI_UDP_MAX_PAYLOAD < len then (-1, c)
      else if YUMI_RING_CAPACITY \<le> length (send_ring c) then (-1, c)
      else (0, c\<lparr>send_ring := send_ring c @ [fill_slot slot YUMI_WORK_USER_CB 0 None data len]\<rparr>))"

section \<open>The sending worker\<close>

text \<open>A datagram for the socket: its address and its bytes before encryption.\<close>

definition build_header :: "bool \<Rightarrow> byte \<Rightarrow> byte \<Rightarrow> u32 \<Rightarrow> u32 \<Rightarrow> bytes" where
  "build_header host_le flags channel seq payload_len =
     [flags, channel] @ mem_bytes host_le 4 seq @ mem_bytes host_le 4 payload_len"

definition worker_send_raw :: "bool \<Rightarrow> byte \<Rightarrow> byte \<Rightarrow> u32 \<Rightarrow> bytes \<Rightarrow> bytes option \<Rightarrow> u32 \<Rightarrow> bytes \<times> bytes" where
  "worker_send_raw host_le flags channel seq dest payload len =
     (dest, build_header host_le flags channel seq len @ (case payload of None \<Rightarrow> [] | Some p \<Rightarrow> take (unat len) p))"

text \<open>\<open>enc\<close> is the encrypting hook, \<open>nonce\<close> whatever it draws from its context; a failure sends nothing.\<close>

definition worker_dgram_out :: "('n \<Rightarrow> bytes \<Rightarrow> bytes option) \<Rightarrow> 'n \<Rightarrow> bytes \<times> bytes \<Rightarrow> (bytes \<times> bytes) list" where
  "worker_dgram_out enc nonce pkt = (case pkt of (dest, p) \<Rightarrow> case enc nonce p of None \<Rightarrow> [] | Some ct \<Rightarrow> [(dest, ct)])"

definition flush_deferred :: "bool \<Rightarrow> deferred_send_t list \<Rightarrow> (bytes \<times> bytes) list" where
  "flush_deferred host_le ds = map (\<lambda>d. worker_send_raw host_le (ds_flags d) (ds_channel d) (ds_seq d) (ds_dest d)
     (if ds_payload_len d \<noteq> 0 then Some (ds_payload d) else None) (ds_payload_len d)) ds"

definition item_dest :: "'cc yumi_udp_client_t \<Rightarrow> yumi_work_item_t \<Rightarrow> bytes" where
  "item_dest c item = (if wi_has_dest item then wi_dest item else peer_addr (tx c))"

definition send_worker_process_item :: "bool \<Rightarrow> 'cc cc_functions \<Rightarrow> allocator \<Rightarrow> u64 \<Rightarrow> u64 \<Rightarrow> yumi_work_item_t
    \<Rightarrow> 'cc yumi_udp_client_t \<Rightarrow> 'cc yumi_udp_client_t \<times> (bytes \<times> bytes) list" where
  "send_worker_process_item host_le F al now1 now2 item c =
     (let ch = wi_channel item;
          reliable = wi_type item = YUMI_WORK_SEND_RELIABLE;
          seq = (if reliable then rel_seq c ! unat ch else unrel_seq c ! unat ch);
          c1 = (if reliable then c\<lparr>rel_seq := (rel_seq c)[unat ch := seq + 1]\<rparr> else c\<lparr>unrel_seq := (unrel_seq c)[unat ch := seq + 1]\<rparr>);
          flags = (if reliable then YUMI_UDP_FLAG_RELIABLE else 0);
          dgram_size = YUMI_UDP_HDR_SIZE + wi_len item;
          c2 = c1\<lparr>pace_credit := pace_credit c1 - ucast dgram_size\<rparr>;
          dest = item_dest c item;
          pkt = worker_send_raw host_le flags ch seq dest (Some (wi_data item)) (wi_len item)
      in (if reliable then c2\<lparr>tx := send_locked F al now1 now2 flags ch seq dest (wi_data item) (wi_len item) (tx c2)\<rparr> else c2, [pkt]))"

text \<open>What the worker does with the head of its queue of acknowledgements, and of its data; \<open>None\<close>: it shuts down.\<close>

definition send_worker_ack :: "bool \<Rightarrow> 'cc yumi_udp_client_t \<Rightarrow> 'cc yumi_udp_client_t \<times> (bytes \<times> bytes) list" where
  "send_worker_ack host_le c =
     (case ack_ring c of
        [] \<Rightarrow> (c, [])
      | item # rest \<Rightarrow>
          (c\<lparr>ack_ring := rest\<rparr>,
           [worker_send_raw host_le (wi_raw_flags item) (wi_channel item) (wi_raw_seq item) (item_dest c item)
              (if 0 < wi_len item then Some (wi_data item) else None) (wi_len item)]))"

definition send_worker_data :: "bool \<Rightarrow> 'cc cc_functions \<Rightarrow> allocator \<Rightarrow> u64 \<Rightarrow> u64
    \<Rightarrow> 'cc yumi_udp_client_t \<Rightarrow> ('cc yumi_udp_client_t \<times> (bytes \<times> bytes) list) option" where
  "send_worker_data host_le F al now1 now2 c =
     (case send_ring c of
        [] \<Rightarrow> Some (c, [])
      | item # rest \<Rightarrow>
          if wi_type item = YUMI_WORK_SHUTDOWN then None
          else if wi_type item = YUMI_WORK_USER_CB
          then Some (c\<lparr>user_calls := (if has_user_cb c then user_calls c @ [take (unat (wi_len item)) (wi_data item)] else user_calls c),
                       send_ring := rest\<rparr>, [])
          else if pace_credit c \<le>s 0 then Some (c, [])
          else case send_worker_process_item host_le F al now1 now2 item c of
                 (c', out) \<Rightarrow> Some (c'\<lparr>send_ring := rest\<rparr>, out))"

section \<open>The receiving worker\<close>

text \<open>An acknowledgement goes to the sending worker, and is dropped when its queue is full.\<close>

definition enqueue_raw_send :: "yumi_work_item_t \<Rightarrow> byte \<Rightarrow> byte \<Rightarrow> u32 \<Rightarrow> bytes option \<Rightarrow> bytes \<Rightarrow> 'cc yumi_udp_client_t \<Rightarrow> 'cc yumi_udp_client_t" where
  "enqueue_raw_send slot flags channel seq dest payload c =
     (if YUMI_RING_CAPACITY \<le> length (ack_ring c) then c
      else c\<lparr>ack_ring := ack_ring c @
             [slot\<lparr>wi_type := YUMI_WORK_SEND_RAW, wi_raw_flags := flags, wi_channel := channel, wi_raw_seq := seq,
                  wi_len := of_nat (length payload), wi_has_dest := dest \<noteq> None,
                  wi_dest := (case dest of None \<Rightarrow> wi_dest slot | Some d \<Rightarrow> d),
                  wi_data := payload @ drop (length payload) (wi_data slot)\<rparr>]\<rparr>)"

text \<open>
  One datagram of \<open>worker_recv\<close>, or of \<open>worker_recv_ice\<close> with no address (\<open>from = None\<close>): at most
  \<open>YUMI_UDP_MAX_DGRAM\<close> bytes of it are read.  Returns what is sent at once.
\<close>

definition worker_recv :: "bool \<Rightarrow> 'cc cc_functions \<Rightarrow> (bytes \<Rightarrow> bytes option) \<Rightarrow> yumi_work_item_t \<Rightarrow> u64 \<Rightarrow> u64 \<Rightarrow> bytes option \<Rightarrow> bytes
    \<Rightarrow> 'cc yumi_udp_client_t \<Rightarrow> 'cc yumi_udp_client_t \<times> (bytes \<times> bytes) list" where
  "worker_recv host_le F dec slot now1 now2 from dgram c =
     (case dec (take 1452 dgram) of
        None \<Rightarrow> (c, [])
      | Some pkt \<Rightarrow>
          if length pkt < 10 then (c, [])
          else
            let flags = pkt ! 0; channel = pkt ! 1;
                seq = mem_word host_le (take 4 (drop 2 pkt));
                payload_len = mem_word host_le (take 4 (drop 6 pkt));
                body = drop 10 pkt;
                actual_payload = of_nat (length body) :: u32;
                safe_len = (if payload_len \<le> actual_payload then payload_len else actual_payload)
            in if flags AND YUMI_UDP_FLAG_ACK \<noteq> 0
               then (case ack_locked host_le F now1 now2 seq channel (is_probe flags) body safe_len (tx c) of
                       (tx', ds) \<Rightarrow> (c\<lparr>tx := tx'\<rparr>, flush_deferred host_le ds))
               else if flags AND YUMI_UDP_FLAG_PROBE \<noteq> 0
               then (if flags AND YUMI_UDP_FLAG_RELIABLE \<noteq> 0
                     then enqueue_raw_send slot (YUMI_UDP_FLAG_ACK OR YUMI_UDP_FLAG_PROBE) channel seq from [] c else c, [])
               else if \<not> has_recv_cb c then (c, [])
               else if YUMI_UDP_MAX_CHANNELS \<le> unat channel then (c, [])
               else if flags AND YUMI_UDP_FLAG_RELIABLE \<noteq> 0
               then (case recv_reliable host_le channel seq safe_len body (rx c) of
                       (rx', None) \<Rightarrow> (c\<lparr>rx := rx'\<rparr>, [])
                     | (rx', Some payload) \<Rightarrow> (enqueue_raw_send slot YUMI_UDP_FLAG_ACK channel seq from payload (c\<lparr>rx := rx'\<rparr>), []))
               else (c\<lparr>rx := recv_unreliable channel seq safe_len body (rx c)\<rparr>, []))"

text \<open>The timer event of the receiving worker.\<close>

definition worker_timer :: "bool \<Rightarrow> 'cc cc_functions \<Rightarrow> allocator \<Rightarrow> u64 \<Rightarrow> u64 \<Rightarrow> u64
    \<Rightarrow> 'cc yumi_udp_client_t \<Rightarrow> 'cc yumi_udp_client_t \<times> (bytes \<times> bytes) list" where
  "worker_timer host_le F al now now1 now2 c =
     (case timer_event F al now now1 now2 (tx c) of (tx', ds) \<Rightarrow> (c\<lparr>tx := tx'\<rparr>, flush_deferred host_le ds))"

section \<open>Creation\<close>

text \<open>
  What \<open>yumi_udp_client_create\<close> sets up once its allocations and system calls have answered.  Without
  both hooks it ends the process, so a client always has them.  \<open>path_payload\<close> is the payload the
  discovered link allows.
\<close>

abbreviation (input) YUMI_UDP_MAX_DGRAM :: u32 where "YUMI_UDP_MAX_DGRAM \<equiv> 1452"

definition clamp_payload :: "u32 \<Rightarrow> u32 \<Rightarrow> u32" where
  "clamp_payload path_payload overhead =
     (let p = (if YUMI_UDP_MAX_PAYLOAD < path_payload then YUMI_UDP_MAX_PAYLOAD else path_payload) in
      if 0 < overhead
      then let wire_cap = (if YUMI_UDP_HDR_SIZE + overhead < YUMI_UDP_MAX_DGRAM then YUMI_UDP_MAX_DGRAM - YUMI_UDP_HDR_SIZE - overhead else 0)
           in if wire_cap < p then wire_cap else p
      else p)"

definition yumi_udp_client_create :: "'cc cc_functions \<Rightarrow> u64 \<Rightarrow> u32 \<Rightarrow> bytes \<Rightarrow> 'cc \<Rightarrow> u32 \<Rightarrow> u32 \<Rightarrow> bool \<Rightarrow> bool \<Rightarrow> bool \<Rightarrow> 'cc yumi_udp_client_t" where
  "yumi_udp_client_create F cfg_timeout cfg_max peer cc0 path_payload overhead ice with_recv with_user =
     \<lparr>tx = cc_cache_update F (reliable_create cfg_timeout cfg_max peer cc0), rx = recv_create,
      rel_seq = replicate YUMI_UDP_MAX_CHANNELS 0, unrel_seq = replicate YUMI_UDP_MAX_CHANNELS 0,
      max_payload = clamp_payload path_payload overhead, use_ice = ice, has_recv_cb = with_recv, has_user_cb = with_user,
      send_ring = [], ack_ring = [], pace_credit = 1452 * 64, user_calls = []\<rparr>"

lemma clamp_fits: "unat overhead \<le> 1442 \<Longrightarrow> unat (clamp_payload p overhead) + 10 + unat overhead \<le> 1452"
proof -
  assume o: "unat overhead \<le> 1442"
  then have "unat (YUMI_UDP_HDR_SIZE + overhead) = 10 + unat overhead" by (simp add: unat_word_ariths)
  moreover have "unat (YUMI_UDP_MAX_DGRAM - YUMI_UDP_HDR_SIZE - overhead) = 1442 - unat overhead" using o by (simp add: unat_sub_if')
  ultimately show ?thesis using o unfolding clamp_payload_def Let_def
    by (auto simp: word_less_nat_alt)
qed

end
