(* ===== verification/Reorder_Order.thy ===== *)
theory Reorder_Order imports Reorder
begin

unbundle bit_operations_syntax

text \<open>
  What the receiver of \<open>Reorder\<close> keeps, whatever arrives: a reliable channel delivers consecutive
  sequence numbers, each once, with what arrived under that number; an unreliable one only moves
  forward.
\<close>

section \<open>What has been delivered\<close>

definition rc_bytes :: "recv_call \<Rightarrow> bytes" where
  "rc_bytes c = (case rc_data c of None \<Rightarrow> [] | Some d \<Rightarrow> d)"

definition channel_calls :: "bool \<Rightarrow> byte \<Rightarrow> recv_state \<Rightarrow> recv_call list" where
  "channel_calls reliable ch r = filter (\<lambda>c. rc_channel c = ch \<and> rc_reliable c = reliable) (recv_calls r)"

definition in_order :: "byte \<Rightarrow> recv_state \<Rightarrow> bool" where
  "in_order ch r \<longleftrightarrow> (\<exists>first n. map rc_seq (channel_calls True ch r) = map (\<lambda>i. first + of_nat i) [0..<n]
     \<and> (if recv_rel_started r ! unat ch then recv_rel_next r ! unat ch = first + of_nat n else n = 0))"

lemma in_order_cong: "channel_calls True ch r' = channel_calls True ch r \<Longrightarrow> recv_rel_started r' ! unat ch = recv_rel_started r ! unat ch \<Longrightarrow>
    recv_rel_next r' ! unat ch = recv_rel_next r ! unat ch \<Longrightarrow> in_order ch r' = in_order ch r"
  by (simp add: in_order_def)

text \<open>\<open>P\<close> says what may arrive: on which channel, under which number, with which contents.\<close>

definition calls_from :: "bool \<Rightarrow> (byte \<Rightarrow> u32 \<Rightarrow> bytes \<Rightarrow> bool) \<Rightarrow> recv_state \<Rightarrow> bool" where
  "calls_from reliable P r \<longleftrightarrow> (\<forall>c\<in>set (recv_calls r). rc_reliable c = reliable \<longrightarrow> P (rc_channel c) (rc_seq c) (rc_bytes c))"

definition arrays_ok :: "recv_state \<Rightarrow> bool" where
  "arrays_ok r \<longleftrightarrow> length (recv_rel_next r) = 256 \<and> length (recv_rel_started r) = 256
     \<and> length (recv_unrel_next r) = 256 \<and> length (recv_unrel_started r) = 256 \<and> length (reorder_buf r) = 256 * 32"

text \<open>
  A datagram kept for later is in its own slot, and at least \<open>lo\<close> and less than the window ahead of the
  next one to deliver.
\<close>

definition slots_ok :: "(byte \<Rightarrow> nat) \<Rightarrow> (byte \<Rightarrow> u32 \<Rightarrow> bytes \<Rightarrow> bool) \<Rightarrow> recv_state \<Rightarrow> bool" where
  "slots_ok lo P r \<longleftrightarrow> (\<forall>ch k. let rs = reorder_buf r ! slot_index ch k; d = unat (rs_seq rs - recv_rel_next r ! unat ch) in
     rs_occupied rs \<longrightarrow> unat (rs_seq rs) mod 32 = unat k mod 32 \<and> recv_rel_started r ! unat ch \<and> lo ch \<le> d \<and> d < 32
       \<and> P ch (rs_seq rs) (take (unat (rs_len rs)) (rs_data rs)))"

abbreviation strictly :: "byte \<Rightarrow> nat" where "strictly \<equiv> \<lambda>_. 1"
abbreviation but_at :: "byte \<Rightarrow> byte \<Rightarrow> nat" where "but_at ch \<equiv> (\<lambda>_. 1)(ch := 0)"

definition rel_ok :: "(byte \<Rightarrow> nat) \<Rightarrow> (byte \<Rightarrow> u32 \<Rightarrow> bytes \<Rightarrow> bool) \<Rightarrow> recv_state \<Rightarrow> bool" where
  "rel_ok lo P r \<longleftrightarrow> arrays_ok r \<and> slots_ok lo P r \<and> (\<forall>ch. in_order ch r) \<and> calls_from True P r"

section \<open>Delivering\<close>

lemma channel_lt [simp]: "unat (ch :: byte) < 256"
  using unsigned_less [of ch, where 'a = nat] by simp

lemma channel_eq [simp]: "unat (ch :: byte) = unat ch' \<longleftrightarrow> ch = ch'"
  by (simp add: word_unat_eq_iff)

lemma calls_recv_cb: "channel_calls b ch (recv_cb ch' data reliable len seq r) = channel_calls b ch r @
    (if ch' = ch \<and> reliable = b then [\<lparr>rc_channel = ch', rc_data = (if 0 < len then Some (take (unat len) data) else None), rc_len = len, rc_reliable = reliable, rc_seq = seq\<rparr>] else [])"
  by (simp add: channel_calls_def recv_cb_def)

lemma recv_cb_fields [simp]:
  "recv_rel_next (recv_cb ch data b len seq r) = recv_rel_next r" "recv_rel_started (recv_cb ch data b len seq r) = recv_rel_started r"
  "recv_unrel_next (recv_cb ch data b len seq r) = recv_unrel_next r" "recv_unrel_started (recv_cb ch data b len seq r) = recv_unrel_started r"
  "reorder_buf (recv_cb ch data b len seq r) = reorder_buf r"
  by (simp_all add: recv_cb_def)

lemma calls_of_updates [simp]:
  "channel_calls b ch (r\<lparr>recv_rel_next := x\<rparr>) = channel_calls b ch r" "channel_calls b ch (r\<lparr>recv_rel_started := y\<rparr>) = channel_calls b ch r"
  "channel_calls b ch (r\<lparr>reorder_buf := z\<rparr>) = channel_calls b ch r" "channel_calls b ch (r\<lparr>recv_unrel_next := x\<rparr>) = channel_calls b ch r"
  "channel_calls b ch (r\<lparr>recv_unrel_started := y\<rparr>) = channel_calls b ch r"
  by (simp_all add: channel_calls_def)

text \<open>The next datagram of a channel is delivered; \<open>buf\<close>: the slots afterwards.\<close>

definition deliver_next :: "byte \<Rightarrow> bytes \<Rightarrow> u32 \<Rightarrow> yumi_reorder_slot_t list \<Rightarrow> recv_state \<Rightarrow> recv_state" where
  "deliver_next ch data len buf r =
     (recv_cb ch data True len (recv_rel_next r ! unat ch) r)
       \<lparr>reorder_buf := buf, recv_rel_next := (recv_rel_next r)[unat ch := recv_rel_next r ! unat ch + 1]\<rparr>"

lemma deliver_in_order:
  assumes "arrays_ok r" and "in_order ch' r" and "recv_rel_started r ! unat ch"
  shows "in_order ch' (deliver_next ch data len buf r)"
proof -
  from assms(2) obtain first n where n: "map rc_seq (channel_calls True ch' r) = map (\<lambda>i. first + of_nat i) [0..<n]"
    "if recv_rel_started r ! unat ch' then recv_rel_next r ! unat ch' = first + of_nat n else n = 0" by (auto simp: in_order_def)
  show ?thesis
  proof (cases "ch' = ch")
    case True
    then have "map rc_seq (channel_calls True ch' (deliver_next ch data len buf r)) = map (\<lambda>i. first + of_nat i) [0..<Suc n]"
      using n assms(3) by (simp add: deliver_next_def calls_recv_cb)
    moreover have "recv_rel_next (deliver_next ch data len buf r) ! unat ch' = first + of_nat (Suc n)"
      using True n(2) assms by (simp add: deliver_next_def arrays_ok_def algebra_simps)
    ultimately show ?thesis using True assms(3) unfolding in_order_def by (intro exI [of _ first] exI [of _ "Suc n"]) (simp add: deliver_next_def)
  next
    case False
    then show ?thesis using n unfolding in_order_def by (intro exI [of _ first] exI [of _ n]) (simp add: deliver_next_def calls_recv_cb)
  qed
qed

lemma deliver_calls: "calls_from True P r \<Longrightarrow> P ch (recv_rel_next r ! unat ch) (take (unat len) data) \<Longrightarrow>
    calls_from True P (deliver_next ch data len buf r)"
  by (auto simp: calls_from_def deliver_next_def recv_cb_def rc_bytes_def word_gt_0)

lemma unat_step: "(s :: u32) \<noteq> n \<Longrightarrow> unat (s - (n + 1)) = unat (s - n) - 1"
  using unat_minus_one [of "s - n"] by (simp add: algebra_simps)

text \<open>
  Whatever is kept and is not the next datagram itself moves one closer; the slot of the next one is
  free afterwards, or was.
\<close>

lemma deliver_slots:
  assumes r: "slots_ok lo P r" and a: "arrays_ok r" and lo: "lo = strictly \<or> lo = but_at ch"
    and buf: "length buf = length (reorder_buf r)" "\<And>i. buf ! i \<noteq> reorder_buf r ! i \<Longrightarrow> \<not> rs_occupied (buf ! i)"
    and free: "\<not> rs_occupied (buf ! slot_index ch (recv_rel_next r ! unat ch))"
  shows "slots_ok (but_at ch) P (deliver_next ch data len buf r)"
  unfolding slots_ok_def Let_def
proof (intro allI impI)
  fix c k
  let ?b = "reorder_buf (deliver_next ch data len buf r) ! slot_index c k"
  let ?n = "recv_rel_next r ! unat ch"
  assume occ: "rs_occupied ?b"
  then have b: "?b = reorder_buf r ! slot_index c k" using buf(2) by (auto simp: deliver_next_def)
  then have old: "unat (rs_seq ?b) mod 32 = unat k mod 32" "recv_rel_started r ! unat c" "lo c \<le> unat (rs_seq ?b - recv_rel_next r ! unat c)"
      "unat (rs_seq ?b - recv_rel_next r ! unat c) < 32" "P c (rs_seq ?b) (take (unat (rs_len ?b)) (rs_data ?b))"
    using r occ by (auto simp: slots_ok_def Let_def)
  have ne: "rs_seq ?b \<noteq> ?n" if "c = ch"
  proof
    assume "rs_seq ?b = ?n"
    then have "slot_index ch ?n = slot_index c k" using old(1) that by (simp add: slot_index_inj)
    then show False using free occ by (simp add: deliver_next_def)
  qed
  have nx: "recv_rel_next (deliver_next ch data len buf r) ! unat c = (if c = ch then ?n + 1 else recv_rel_next r ! unat c)"
    using a by (auto simp: deliver_next_def arrays_ok_def nth_list_update)
  have "but_at ch c \<le> unat (rs_seq ?b - recv_rel_next (deliver_next ch data len buf r) ! unat c)
      \<and> unat (rs_seq ?b - recv_rel_next (deliver_next ch data len buf r) ! unat c) < 32"
    using old(3,4) lo unat_step [OF ne] unfolding nx by auto
  then show "unat (rs_seq ?b) mod 32 = unat k mod 32 \<and> recv_rel_started (deliver_next ch data len buf r) ! unat c \<and>
      but_at ch c \<le> unat (rs_seq ?b - recv_rel_next (deliver_next ch data len buf r) ! unat c) \<and>
      unat (rs_seq ?b - recv_rel_next (deliver_next ch data len buf r) ! unat c) < 32 \<and> P c (rs_seq ?b) (take (unat (rs_len ?b)) (rs_data ?b))"
    using old by (simp add: deliver_next_def)
qed

lemma deliver_ok:
  assumes "rel_ok lo P r" and "lo = strictly \<or> lo = but_at ch" and "recv_rel_started r ! unat ch"
    and "length buf = length (reorder_buf r)" and "\<And>i. buf ! i \<noteq> reorder_buf r ! i \<Longrightarrow> \<not> rs_occupied (buf ! i)"
    and "\<not> rs_occupied (buf ! slot_index ch (recv_rel_next r ! unat ch))"
    and "P ch (recv_rel_next r ! unat ch) (take (unat len) data)"
  shows "rel_ok (but_at ch) P (deliver_next ch data len buf r)"
proof -
  have "arrays_ok (deliver_next ch data len buf r)" using assms by (simp add: rel_ok_def arrays_ok_def deliver_next_def)
  then show ?thesis using assms deliver_slots [of lo P r ch buf] deliver_in_order [of r] deliver_calls [of P r] by (simp add: rel_ok_def)
qed

text \<open>The loop delivers until the next datagram is not there.\<close>

lemma drain_ok: "rel_ok (but_at ch) P r \<Longrightarrow> recv_rel_started r ! unat ch \<Longrightarrow> rel_ok strictly P (worker_reorder_drain ch r)"
proof (induction ch r rule: worker_reorder_drain.induct)
  case (1 ch r)
  let ?n = "recv_rel_next r ! unat ch"
  let ?i = "slot_index ch ?n"
  let ?s = "reorder_buf r ! ?i"
  have i: "?i < length (reorder_buf r)" using "1.prems"(1) slot_index_lt [of ch ?n] by (simp add: rel_ok_def arrays_ok_def)
  show ?case
  proof (cases "rs_occupied ?s \<and> rs_seq ?s = ?n")
    case True
    let ?buf = "(reorder_buf r)[?i := ?s\<lparr>rs_occupied := False\<rparr>]"
    let ?r = "deliver_next ch (rs_data ?s) (rs_len ?s) ?buf r"
    have p: "P ch ?n (take (unat (rs_len ?s)) (rs_data ?s))"
    proof -
      have "rs_occupied ?s \<longrightarrow> P ch (rs_seq ?s) (take (unat (rs_len ?s)) (rs_data ?s))"
        using "1.prems"(1) by (auto simp: rel_ok_def slots_ok_def Let_def)
      then show ?thesis using True by simp
    qed
    have "rel_ok (but_at ch) P ?r"
      using i p by (intro deliver_ok [OF "1.prems"(1) _ "1.prems"(2)]) (auto simp: nth_list_update split: if_splits)
    moreover have "worker_reorder_drain ch r = worker_reorder_drain ch ?r"
      using True i by (subst worker_reorder_drain.simps) (simp add: Let_def deliver_next_def)
    moreover have "recv_rel_started ?r ! unat ch" using "1.prems"(2) by (simp add: deliver_next_def)
    moreover have go: "\<not> (\<not> rs_occupied ?s \<or> rs_seq ?s \<noteq> ?n \<or> length (reorder_buf r) \<le> ?i)" using True i by simp
    note ih = "1.IH" [OF refl refl refl go]
    have e: "(recv_cb ch (rs_data ?s) True (rs_len ?s) (rs_seq ?s) r)\<lparr>reorder_buf := ?buf, recv_rel_next := (recv_rel_next r)[unat ch := ?n + 1]\<rparr> = ?r"
      using True by (simp only: deliver_next_def)
    ultimately show ?thesis using ih [unfolded e] by presburger
  next
    case False
    then have same: "worker_reorder_drain ch r = r" by (subst worker_reorder_drain.simps) (auto simp: Let_def)
    have "slots_ok strictly P r" unfolding slots_ok_def Let_def
    proof (intro allI impI)
      fix c k
      let ?b = "reorder_buf r ! slot_index c k"
      assume occ: "rs_occupied ?b"
      then have old: "unat (rs_seq ?b) mod 32 = unat k mod 32" "recv_rel_started r ! unat c" "but_at ch c \<le> unat (rs_seq ?b - recv_rel_next r ! unat c)"
          "unat (rs_seq ?b - recv_rel_next r ! unat c) < 32" "P c (rs_seq ?b) (take (unat (rs_len ?b)) (rs_data ?b))"
        using "1.prems"(1) unfolding rel_ok_def slots_ok_def Let_def by blast+
      have "rs_seq ?b \<noteq> ?n" if "c = ch"
      proof
        assume e: "rs_seq ?b = ?n"
        then have "slot_index ch ?n = slot_index c k" using old(1) that by (simp add: slot_index_inj)
        then show False using False occ e by simp
      qed
      then have "1 \<le> unat (rs_seq ?b - recv_rel_next r ! unat c)"
        using old(3) by (cases "c = ch") (auto simp: Suc_le_eq unat_gt_0)
      then show "unat (rs_seq ?b) mod 32 = unat k mod 32 \<and> recv_rel_started r ! unat c \<and> 1 \<le> unat (rs_seq ?b - recv_rel_next r ! unat c) \<and>
          unat (rs_seq ?b - recv_rel_next r ! unat c) < 32 \<and> P c (rs_seq ?b) (take (unat (rs_len ?b)) (rs_data ?b))"
        using old by blast
    qed
    then show ?thesis using "1.prems"(1) same by (simp add: rel_ok_def)
  qed
qed

section \<open>A datagram of a reliable channel\<close>

definition start_channel :: "byte \<Rightarrow> u32 \<Rightarrow> recv_state \<Rightarrow> recv_state" where
  "start_channel ch seq r =
     (if \<not> recv_rel_started r ! unat ch
      then r\<lparr>recv_rel_started := (recv_rel_started r)[unat ch := True], recv_rel_next := (recv_rel_next r)[unat ch := seq]\<rparr>
      else r)"

lemma start_ok: "rel_ok strictly P r \<Longrightarrow> rel_ok strictly P (start_channel ch seq r) \<and> recv_rel_started (start_channel ch seq r) ! unat ch"
proof (cases "recv_rel_started r ! unat ch")
  case False
  assume r: "rel_ok strictly P r"
  let ?r = "start_channel ch seq r"
  have a: "arrays_ok r" using r by (simp add: rel_ok_def)
  have f: "recv_rel_started ?r ! unat c = (c = ch \<or> recv_rel_started r ! unat c)"
    "recv_rel_next ?r ! unat c = (if c = ch then seq else recv_rel_next r ! unat c)"
    "reorder_buf ?r = reorder_buf r" "recv_calls ?r = recv_calls r" for c
    using False a by (simp_all add: start_channel_def arrays_ok_def nth_list_update)
  have "slots_ok strictly P ?r" unfolding slots_ok_def Let_def
  proof (intro allI impI)
    fix c k
    assume "rs_occupied (reorder_buf ?r ! slot_index c k)"
    moreover from this have "c \<noteq> ch" using r False f by (auto simp: rel_ok_def slots_ok_def Let_def)
    ultimately show "unat (rs_seq (reorder_buf ?r ! slot_index c k)) mod 32 = unat k mod 32 \<and> recv_rel_started ?r ! unat c \<and>
        1 \<le> unat (rs_seq (reorder_buf ?r ! slot_index c k) - recv_rel_next ?r ! unat c) \<and>
        unat (rs_seq (reorder_buf ?r ! slot_index c k) - recv_rel_next ?r ! unat c) < 32 \<and>
        P c (rs_seq (reorder_buf ?r ! slot_index c k)) (take (unat (rs_len (reorder_buf ?r ! slot_index c k))) (rs_data (reorder_buf ?r ! slot_index c k)))"
      using r unfolding f rel_ok_def slots_ok_def Let_def by simp
  qed
  moreover have "in_order c ?r" for c
  proof -
    have c: "in_order c r" "channel_calls True c ?r = channel_calls True c r" using r by (simp_all add: rel_ok_def channel_calls_def f(4))
    show ?thesis
    proof (cases "c = ch")
      case True
      then have "channel_calls True c r = []" using c(1) False by (auto simp: in_order_def)
      then show ?thesis using True c(2) f(1,2) [of c] unfolding in_order_def by (intro exI [of _ seq] exI [of _ 0]) simp
    next
      case ne: False
      then show ?thesis using c in_order_cong [of c ?r r] f(1,2) [of c] by simp
    qed
  qed
  moreover have "arrays_ok ?r" using a by (simp add: start_channel_def arrays_ok_def)
  ultimately show ?thesis using r f(1,4) by (simp add: rel_ok_def calls_from_def)
qed (simp add: start_channel_def)

text \<open>Keeping an early datagram.\<close>

lemma keep_ok:
  assumes r: "rel_ok strictly P r" and st: "recv_rel_started r ! unat ch"
    and d: "seq \<noteq> recv_rel_next r ! unat ch" "unat (seq - recv_rel_next r ! unat ch) < 32" and p: "P ch seq (take (unat len) data)"
  shows "rel_ok strictly P (r\<lparr>reorder_buf := (reorder_buf r)[slot_index ch seq :=
     \<lparr>rs_occupied = True, rs_seq = seq, rs_len = len, rs_data = take (unat len) data\<rparr>]\<rparr>)"
proof -
  let ?new = "\<lparr>rs_occupied = True, rs_seq = seq, rs_len = len, rs_data = take (unat len) data\<rparr>"
  let ?r = "r\<lparr>reorder_buf := (reorder_buf r)[slot_index ch seq := ?new]\<rparr>"
  have a: "arrays_ok r" using r by (simp add: rel_ok_def)
  have i: "slot_index c k < length (reorder_buf r)" for c k using a slot_index_lt [of c k] by (simp add: arrays_ok_def)
  have "slots_ok strictly P ?r" unfolding slots_ok_def Let_def
  proof (intro allI impI)
    fix c k
    assume occ: "rs_occupied (reorder_buf ?r ! slot_index c k)"
    show "unat (rs_seq (reorder_buf ?r ! slot_index c k)) mod 32 = unat k mod 32 \<and> recv_rel_started ?r ! unat c \<and>
        1 \<le> unat (rs_seq (reorder_buf ?r ! slot_index c k) - recv_rel_next ?r ! unat c) \<and>
        unat (rs_seq (reorder_buf ?r ! slot_index c k) - recv_rel_next ?r ! unat c) < 32 \<and>
        P c (rs_seq (reorder_buf ?r ! slot_index c k)) (take (unat (rs_len (reorder_buf ?r ! slot_index c k))) (rs_data (reorder_buf ?r ! slot_index c k)))"
    proof (cases "slot_index c k = slot_index ch seq")
      case True
      then have "c = ch" "unat k mod 32 = unat seq mod 32" by (simp_all only: slot_index_inj)
      moreover have "1 \<le> unat (seq - recv_rel_next r ! unat ch)" using d(1) by (simp add: Suc_le_eq unat_gt_0)
      ultimately show ?thesis using True i st d(2) p by simp
    next
      case False
      then have same: "reorder_buf ?r ! slot_index c k = reorder_buf r ! slot_index c k" by simp
      show ?thesis using r occ unfolding same rel_ok_def slots_ok_def Let_def by simp
    qed
  qed
  moreover have "in_order c ?r = in_order c r" for c by (rule in_order_cong) simp_all
  ultimately show ?thesis using r by (simp add: rel_ok_def arrays_ok_def calls_from_def)
qed

lemma recv_cb_buf [simp]: "recv_cb ch data b len seq r\<lparr>reorder_buf := reorder_buf r, recv_rel_next := x\<rparr> = recv_cb ch data b len seq r\<lparr>recv_rel_next := x\<rparr>"
  by (cases r) (simp add: recv_cb_def)

lemma recv_reliable_ok:
  assumes r0: "rel_ok strictly P r0" and p: "P ch seq (take (unat len) data)"
  shows "rel_ok strictly P (fst (recv_reliable h ch seq len data r0))"
proof -
  define r where "r = start_channel ch seq r0"
  have r: "rel_ok strictly P r" "recv_rel_started r ! unat ch" using start_ok [OF r0] by (simp_all add: r_def)
  let ?n = "recv_rel_next r ! unat ch"
  have un: "fst (recv_reliable h ch seq len data r0) =
      (if seq - ?n <s 0 then r
       else if seq - ?n = 0 then worker_reorder_drain ch (deliver_next ch data len (reorder_buf r) r)
       else if seq - ?n < 32 then
         (if rs_occupied (reorder_buf r ! slot_index ch seq) then r
          else r\<lparr>reorder_buf := (reorder_buf r)[slot_index ch seq := \<lparr>rs_occupied = True, rs_seq = seq, rs_len = len, rs_data = take (unat len) data\<rparr>]\<rparr>)
       else r)"
    unfolding recv_reliable_def Let_def start_channel_def [symmetric] r_def [symmetric] deliver_next_def by simp
  have "rel_ok strictly P (worker_reorder_drain ch (deliver_next ch data len (reorder_buf r) r))" if "seq = ?n"
  proof -
    have "\<not> rs_occupied (reorder_buf r ! slot_index ch ?n)"
    proof
      assume occ: "rs_occupied (reorder_buf r ! slot_index ch ?n)"
      let ?s = "rs_seq (reorder_buf r ! slot_index ch ?n)"
      have s: "unat ?s mod 32 = unat ?n mod 32" "1 \<le> unat (?s - ?n)" "unat (?s - ?n) < 32"
        using r(1) occ by (auto simp: rel_ok_def slots_ok_def Let_def)
      have "?s = ?n" by (rule window_unique [OF s(3) _ s(1)]) simp
      then show False using s(2) by simp
    qed
    then have "rel_ok (but_at ch) P (deliver_next ch data len (reorder_buf r) r)"
      using p that by (intro deliver_ok [OF r(1) _ r(2)]) auto
    then show ?thesis using r(2) by (intro drain_ok) (auto simp: deliver_next_def)
  qed
  moreover have "rel_ok strictly P (r\<lparr>reorder_buf := (reorder_buf r)[slot_index ch seq :=
      \<lparr>rs_occupied = True, rs_seq = seq, rs_len = len, rs_data = take (unat len) data\<rparr>]\<rparr>)" if "seq - ?n \<noteq> 0" "seq - ?n < 32"
    using that by (intro keep_ok [OF r _ _ p]) (auto simp: word_less_nat_alt)
  ultimately show ?thesis using r(1) by (simp add: un)
qed

section \<open>A datagram of an unreliable channel\<close>

definition unrel_ok :: "(byte \<Rightarrow> u32 \<Rightarrow> bytes \<Rightarrow> bool) \<Rightarrow> recv_state \<Rightarrow> bool" where
  "unrel_ok P r \<longleftrightarrow> calls_from False P r \<and> (\<forall>ch.
     sorted_wrt (<) (map (\<lambda>c. unat (rc_seq c)) (channel_calls False ch r))
   \<and> (if recv_unrel_started r ! unat ch
      then unat (recv_unrel_next r ! unat ch) \<le> 2 ^ 31 \<and> (\<forall>c\<in>set (channel_calls False ch r). unat (rc_seq c) < unat (recv_unrel_next r ! unat ch))
      else channel_calls False ch r = []))"

text \<open>The signed distance is the real one below \<open>2 ^ 31\<close>.\<close>

lemma distance_negative:
  fixes a b :: u32
  assumes "unat a < 2 ^ 31" and "unat b \<le> 2 ^ 31"
  shows "a - b <s 0 \<longleftrightarrow> unat a < unat b"
proof -
  have w: "sint (word_of_int x :: u32) = signed_take_bit 31 x" for x by (simp add: signed_of_int)
  have "a - b = word_of_int (int (unat a) - int (unat b))" by simp
  then have "sint (a - b) = signed_take_bit 31 (int (unat a) - int (unat b))" by (simp only: w)
  also have "\<dots> = int (unat a) - int (unat b)" 
  proof (rule signed_take_bit_int_eq_self)
    have "0 \<le> int (unat a)" "int (unat a) < 2 ^ 31" "0 \<le> int (unat b)" "int (unat b) \<le> 2 ^ 31"
      using assms by (simp_all only: of_nat_0_le_iff of_nat_less_numeral_power_cancel_iff of_nat_le_numeral_power_cancel_iff)
    then show "- (2 ^ 31) \<le> int (unat a) - int (unat b)" "int (unat a) - int (unat b) < 2 ^ 31" by linarith+
  qed
  finally have "sint (a - b) = int (unat a) - int (unat b)" .
  moreover have "a - b <s 0 \<longleftrightarrow> sint (a - b) < 0" by (simp add: word_sless_alt)
  ultimately show ?thesis by linarith
qed

lemma recv_unreliable_ok:
  assumes ok: "unrel_ok P r0" "arrays_ok r0" and p: "P ch seq (take (unat len) data)" and seq: "unat seq < 2 ^ 31"
  shows "unrel_ok P (recv_unreliable ch seq len data r0)"
proof -
  define r where "r = (if \<not> recv_unrel_started r0 ! unat ch
      then r0\<lparr>recv_unrel_started := (recv_unrel_started r0)[unat ch := True], recv_unrel_next := (recv_unrel_next r0)[unat ch := seq]\<rparr> else r0)"
  let ?n = "recv_unrel_next r ! unat ch"
  have calls: "recv_calls r = recv_calls r0" by (simp add: r_def)
  have cc: "channel_calls b c r = channel_calls b c r0" for b c by (simp add: channel_calls_def calls)
  have st: "recv_unrel_started r ! unat c = (c = ch \<or> recv_unrel_started r0 ! unat c)"
    "c \<noteq> ch \<Longrightarrow> recv_unrel_next r ! unat c = recv_unrel_next r0 ! unat c"
    "\<not> recv_unrel_started r0 ! unat ch \<Longrightarrow> ?n = seq" "recv_unrel_started r0 ! unat ch \<Longrightarrow> ?n = recv_unrel_next r0 ! unat ch" for c
    using ok(2) by (auto simp: r_def arrays_ok_def nth_list_update)
  have r: "unrel_ok P r" unfolding unrel_ok_def
  proof (intro conjI allI)
    show "calls_from False P r" using ok(1) by (simp add: unrel_ok_def calls_from_def calls)
  next
    fix c
    show "sorted_wrt (<) (map (\<lambda>c. unat (rc_seq c)) (channel_calls False c r))" using ok(1) by (simp add: unrel_ok_def cc)
    have o: "if recv_unrel_started r0 ! unat c
      then unat (recv_unrel_next r0 ! unat c) \<le> 2 ^ 31 \<and> (\<forall>x\<in>set (channel_calls False c r0). unat (rc_seq x) < unat (recv_unrel_next r0 ! unat c))
      else channel_calls False c r0 = []" using ok(1) unfolding unrel_ok_def by blast
    show "if recv_unrel_started r ! unat c
      then unat (recv_unrel_next r ! unat c) \<le> 2 ^ 31 \<and> (\<forall>x\<in>set (channel_calls False c r). unat (rc_seq x) < unat (recv_unrel_next r ! unat c))
      else channel_calls False c r = []"
      using o st seq unfolding cc by (cases "c = ch") (auto split: if_splits)
  qed
  have n: "unat ?n \<le> 2 ^ 31" "\<forall>x\<in>set (channel_calls False ch r). unat (rc_seq x) < unat ?n"
    using r st(1) [of ch] by (auto simp: unrel_ok_def split: if_splits)
  let ?r = "recv_cb ch data False len seq (r\<lparr>recv_unrel_next := (recv_unrel_next r)[unat ch := seq + 1]\<rparr>)"
  have un: "recv_unreliable ch seq len data r0 = (if seq - ?n <s 0 then r else ?r)"
    by (simp add: recv_unreliable_def Let_def r_def)
  have len: "length (recv_unrel_next r) = 256" using ok(2) by (simp add: r_def arrays_ok_def)
  have s1: "unat (seq + 1) = unat seq + 1" using seq by (simp add: unat_word_ariths)
  have "unrel_ok P ?r" if ge: "unat ?n \<le> unat seq"
    unfolding unrel_ok_def
  proof (intro conjI allI)
    show "calls_from False P ?r" using r p by (auto simp: unrel_ok_def calls_from_def recv_cb_def rc_bytes_def word_gt_0)
  next
    fix c
    show "sorted_wrt (<) (map (\<lambda>c. unat (rc_seq c)) (channel_calls False c ?r))"
      using r n(2) ge by (auto simp: unrel_ok_def calls_recv_cb sorted_wrt_append)
    have o: "if recv_unrel_started r ! unat c
      then unat (recv_unrel_next r ! unat c) \<le> 2 ^ 31 \<and> (\<forall>x\<in>set (channel_calls False c r). unat (rc_seq x) < unat (recv_unrel_next r ! unat c))
      else channel_calls False c r = []" using r unfolding unrel_ok_def by blast
    show "if recv_unrel_started ?r ! unat c
      then unat (recv_unrel_next ?r ! unat c) \<le> 2 ^ 31 \<and> (\<forall>x\<in>set (channel_calls False c ?r). unat (rc_seq x) < unat (recv_unrel_next ?r ! unat c))
      else channel_calls False c ?r = []"
    proof (cases "c = ch")
      case True
      then show ?thesis using n(2) ge seq s1 len st(1) [of ch] by (auto simp: calls_recv_cb)
    next
      case False
      then show ?thesis using o len by (auto simp: calls_recv_cb split: if_splits)
    qed
  qed
  then show ?thesis using r distance_negative [OF seq n(1)] by (simp add: un not_less)
qed

section \<open>The two kinds do not touch each other\<close>

lemma unreliable_frame:
  "recv_rel_next (recv_unreliable ch seq len data r) = recv_rel_next r" "recv_rel_started (recv_unreliable ch seq len data r) = recv_rel_started r"
  "reorder_buf (recv_unreliable ch seq len data r) = reorder_buf r"
  "channel_calls True c (recv_unreliable ch seq len data r) = channel_calls True c r"
  "arrays_ok r \<Longrightarrow> arrays_ok (recv_unreliable ch seq len data r)"
  by (simp_all add: recv_unreliable_def Let_def calls_recv_cb arrays_ok_def)

lemma unreliable_calls: "calls_from True P (recv_unreliable ch seq len data r) = calls_from True P r"
  by (auto simp: recv_unreliable_def Let_def calls_from_def recv_cb_def)

lemma rel_ok_unreliable: "rel_ok lo P r \<Longrightarrow> rel_ok lo P (recv_unreliable ch seq len data r)"
proof -
  assume r: "rel_ok lo P r"
  have "in_order c (recv_unreliable ch seq len data r) = in_order c r" for c
    by (rule in_order_cong) (simp_all add: unreliable_frame)
  then show ?thesis using r by (simp add: rel_ok_def slots_ok_def Let_def unreliable_frame unreliable_calls)
qed

lemma drain_frame: "recv_unrel_next (worker_reorder_drain ch r) = recv_unrel_next r \<and> recv_unrel_started (worker_reorder_drain ch r) = recv_unrel_started r
    \<and> filter (\<lambda>c. \<not> rc_reliable c) (recv_calls (worker_reorder_drain ch r)) = filter (\<lambda>c. \<not> rc_reliable c) (recv_calls r)"
proof (induction ch r rule: worker_reorder_drain.induct)
  case (1 ch r)
  show ?case using "1.IH" [OF refl refl refl] by (subst (1 2 3) worker_reorder_drain.simps) (auto simp: Let_def recv_cb_def)
qed

lemma reliable_frame: "recv_unrel_next (fst (recv_reliable h ch seq len data r)) = recv_unrel_next r
    \<and> recv_unrel_started (fst (recv_reliable h ch seq len data r)) = recv_unrel_started r
    \<and> filter (\<lambda>c. \<not> rc_reliable c) (recv_calls (fst (recv_reliable h ch seq len data r))) = filter (\<lambda>c. \<not> rc_reliable c) (recv_calls r)"
  by (auto simp: recv_reliable_def Let_def drain_frame recv_cb_def)

lemma unrel_ok_reliable: "unrel_ok P r \<Longrightarrow> unrel_ok P (fst (recv_reliable h ch seq len data r))"
proof -
  assume r: "unrel_ok P r"
  let ?r = "fst (recv_reliable h ch seq len data r)"
  have same: "x \<in> set (recv_calls ?r) \<and> \<not> rc_reliable x \<longleftrightarrow> x \<in> set (recv_calls r) \<and> \<not> rc_reliable x" for x
    using arg_cong [of _ _ set, OF conjunct2 [OF conjunct2 [OF reliable_frame [of h ch seq len data r]]]] by auto
  have fr: "recv_unrel_next ?r = recv_unrel_next r" "recv_unrel_started ?r = recv_unrel_started r"
    using reliable_frame [of h ch seq len data r] by simp_all
  have cc: "channel_calls False c ?r = channel_calls False c r" for c
  proof -
    have "channel_calls False c x = filter (\<lambda>y. rc_channel y = c) (filter (\<lambda>y. \<not> rc_reliable y) (recv_calls x))" for x
      by (simp add: channel_calls_def conj_commute)
    then show ?thesis using reliable_frame [of h ch seq len data r] by (simp only:)
  qed
  have "calls_from False P r" using r by (simp add: unrel_ok_def)
  then have "calls_from False P ?r" unfolding calls_from_def using same by (metis (full_types))
  then show ?thesis using r unfolding unrel_ok_def cc fr by blast
qed

end
