(* ===== verification/Udp_Delivery.thy ===== *)
theory Udp_Delivery imports Udp_Client Reorder_Order "HOL-Library.Sublist"
begin

unbundle bit_operations_syntax

text \<open>
  Two clients over a network that may lose, repeat, delay and reorder datagrams at will, and deliver
  others that do not decrypt: what the application hands to the one and what the other hands to its
  application.
\<close>

section \<open>The network\<close>

text \<open>
  \<open>on_wire\<close> is every datagram ever sent, with its address; \<open>accepted\<close>, kept for the proofs, what the
  application has handed over with success: reliable or not, channel, contents.
\<close>

record 'cc link_state =
  sndr :: "'cc yumi_udp_client_t"
  rcvr :: "'cc yumi_udp_client_t"
  on_wire :: "(bytes \<times> bytes) list"
  accepted :: "(bool \<times> byte \<times> bytes) list"
  clock :: u64

definition item_content :: "yumi_work_item_t \<Rightarrow> bytes" where
  "item_content item = take (unat (wi_len item)) (wi_data item)"

text \<open>Encrypting what a step sends, each datagram with whatever the hook draws for it.\<close>

definition sent_as :: "('n \<Rightarrow> bytes \<Rightarrow> bytes option) \<Rightarrow> (bytes \<times> bytes) list \<Rightarrow> (bytes \<times> bytes) list \<Rightarrow> bool" where
  "sent_as enc out cts \<longleftrightarrow> (\<exists>ns. length ns = length out \<and> cts = concat (map2 (worker_dgram_out enc) ns out))"

text \<open>A cell of the ring has its whole array, and a caller's buffer has the bytes it promises.\<close>

definition slot_ready :: "yumi_work_item_t \<Rightarrow> bool" where
  "slot_ready slot \<longleftrightarrow> length (wi_data slot) = unat YUMI_UDP_MAX_PAYLOAD"

definition caller_data :: "bytes option \<Rightarrow> u32 \<Rightarrow> bool" where
  "caller_data data len \<longleftrightarrow> (case data of None \<Rightarrow> True | Some d \<Rightarrow> unat len \<le> length d)"

inductive link_step :: "bool \<Rightarrow> 'cc cc_functions \<Rightarrow> ('n \<Rightarrow> bytes \<Rightarrow> bytes option) \<Rightarrow> (bytes \<Rightarrow> bytes option) \<Rightarrow> bytes
    \<Rightarrow> 'cc link_state \<Rightarrow> 'cc link_state \<Rightarrow> bool" for h F enc dec addr where
  submit: "enqueue_work slot type ch dest data len (sndr s) = (res, c) \<Longrightarrow> type \<in> {YUMI_WORK_SEND_UNRELIABLE, YUMI_WORK_SEND_RELIABLE} \<Longrightarrow>
    slot_ready slot \<Longrightarrow> caller_data data len \<Longrightarrow>
    link_step h F enc dec addr s (s\<lparr>sndr := c, accepted := accepted s @
      (if res = 0 then [(type = YUMI_WORK_SEND_RELIABLE, ch, item_content (last (send_ring c)))] else [])\<rparr>)"
| post: "yumi_udp_client_post_user slot data len (sndr s) = (res, c) \<Longrightarrow> slot_ready slot \<Longrightarrow>
    link_step h F enc dec addr s (s\<lparr>sndr := c\<rparr>)"
| refill: "link_step h F enc dec addr s (s\<lparr>sndr := (sndr s)\<lparr>pace_credit := credit\<rparr>\<rparr>)"
| work: "send_worker_data h F al t1 t2 (sndr s) = Some (c, out) \<Longrightarrow> memory_ok al \<Longrightarrow> clock_runs (clock s) [t1, t2] \<Longrightarrow> sent_as enc out cts \<Longrightarrow>
    link_step h F enc dec addr s (s\<lparr>sndr := c, on_wire := on_wire s @ cts, clock := t2\<rparr>)"
| acks: "send_worker_ack h (sndr s) = (c, out) \<Longrightarrow> sent_as enc out cts \<Longrightarrow>
    link_step h F enc dec addr s (s\<lparr>sndr := c, on_wire := on_wire s @ cts\<rparr>)"
| timer: "worker_timer h F al t t1 t2 (sndr s) = (c, out) \<Longrightarrow> memory_ok al \<Longrightarrow> clock_runs (clock s) [t, t1, t2] \<Longrightarrow> sent_as enc out cts \<Longrightarrow>
    link_step h F enc dec addr s (s\<lparr>sndr := c, on_wire := on_wire s @ cts, clock := t2\<rparr>)"
| reply: "worker_recv h F dec slot t1 t2 from dgram (sndr s) = (c, out) \<Longrightarrow> slot_ready slot \<Longrightarrow> clock_runs (clock s) [t1, t2] \<Longrightarrow> sent_as enc out cts \<Longrightarrow>
    link_step h F enc dec addr s (s\<lparr>sndr := c, on_wire := on_wire s @ cts, clock := t2\<rparr>)"
| deliver: "(addr, dgram) \<in> set (on_wire s) \<Longrightarrow> worker_recv h F dec slot t1 t2 from dgram (rcvr s) = (c, out) \<Longrightarrow>
    link_step h F enc dec addr s (s\<lparr>rcvr := c\<rparr>)"
| noise: "dec (take 1452 dgram) = None \<Longrightarrow> worker_recv h F dec slot t1 t2 from dgram (rcvr s) = (c, out) \<Longrightarrow>
    link_step h F enc dec addr s (s\<lparr>rcvr := c\<rparr>)"
| other: "rx c = rx (rcvr s) \<Longrightarrow> link_step h F enc dec addr s (s\<lparr>rcvr := c\<rparr>)"

inductive link_run :: "bool \<Rightarrow> 'cc cc_functions \<Rightarrow> ('n \<Rightarrow> bytes \<Rightarrow> bytes option) \<Rightarrow> (bytes \<Rightarrow> bytes option) \<Rightarrow> bytes
    \<Rightarrow> 'cc link_state \<Rightarrow> 'cc link_state \<Rightarrow> bool" for h F enc dec addr s0 where
  start: "link_run h F enc dec addr s0 s0"
| step: "link_run h F enc dec addr s0 s \<Longrightarrow> link_step h F enc dec addr s s' \<Longrightarrow> link_run h F enc dec addr s0 s'"

definition link_start :: "'cc yumi_udp_client_t \<Rightarrow> 'cc yumi_udp_client_t \<Rightarrow> 'cc link_state" where
  "link_start a b = \<lparr>sndr = a, rcvr = b, on_wire = [], accepted = [], clock = 0\<rparr>"

text \<open>What the hooks promise: decryption undoes encryption, which adds at most \<open>overhead\<close> bytes.\<close>

definition hooks_ok :: "('n \<Rightarrow> bytes \<Rightarrow> bytes option) \<Rightarrow> (bytes \<Rightarrow> bytes option) \<Rightarrow> u32 \<Rightarrow> bool" where
  "hooks_ok enc dec overhead \<longleftrightarrow> unat overhead \<le> 1434
     \<and> (\<forall>n p b. enc n p = Some b \<longrightarrow> length b \<le> length p + unat overhead \<and> dec b = Some p)"

text \<open>What was handed over for a channel, in order.\<close>

definition handed :: "bool \<Rightarrow> byte \<Rightarrow> 'cc link_state \<Rightarrow> bytes list" where
  "handed reliable ch s = map (\<lambda>(b, c, d). d) (filter (\<lambda>(b, c, d). b = reliable \<and> c = ch) (accepted s))"

section \<open>Datagrams\<close>

text \<open>\<open>P\<close>: which contents may be under which number of which channel.\<close>

definition fair :: "(bool \<Rightarrow> byte \<Rightarrow> u32 \<Rightarrow> bytes \<Rightarrow> bool) \<Rightarrow> byte \<Rightarrow> byte \<Rightarrow> u32 \<Rightarrow> bytes \<Rightarrow> bool" where
  "fair P fl ch seq payload \<longleftrightarrow> fl AND YUMI_UDP_FLAG_ACK \<noteq> 0 \<or> fl AND YUMI_UDP_FLAG_PROBE \<noteq> 0
     \<or> fl = YUMI_UDP_FLAG_RELIABLE \<and> P True ch seq payload \<or> fl = 0 \<and> P False ch seq payload"

definition datagram_ok :: "bool \<Rightarrow> nat \<Rightarrow> (bool \<Rightarrow> byte \<Rightarrow> u32 \<Rightarrow> bytes \<Rightarrow> bool) \<Rightarrow> bytes \<Rightarrow> bool" where
  "datagram_ok h mp P p \<longleftrightarrow> (\<exists>fl ch seq payload. p = build_header h fl ch seq (of_nat (length payload)) @ payload
     \<and> length payload \<le> max mp 8 \<and> fair P fl ch seq payload)"

lemma unat_small: "n < 2 ^ 32 \<Longrightarrow> unat (of_nat n :: u32) = n"
  by (simp add: unsigned_of_nat take_bit_eq_mod)

lemma header_parts:
  "build_header h fl ch seq len @ x = p \<Longrightarrow> p ! 0 = fl \<and> p ! 1 = ch \<and> take 4 (drop 2 p) = mem_bytes h 4 seq
     \<and> take 4 (drop 6 p) = mem_bytes h 4 len \<and> drop 10 p = x \<and> 10 \<le> length p"
proof -
  assume p: "build_header h fl ch seq len @ x = p"
  have l: "length (mem_bytes h 4 seq) = 4" "length (mem_bytes h 4 len) = 4" by (simp_all add: mem_bytes_def)
  show ?thesis using l unfolding p [symmetric] build_header_def by simp
qed

lemma enqueue_raw_rx [simp]: "rx (enqueue_raw_send slot fl ch seq from payload c) = rx c" "tx (enqueue_raw_send slot fl ch seq from payload c) = tx c"
    "send_ring (enqueue_raw_send slot fl ch seq from payload c) = send_ring c" "rel_seq (enqueue_raw_send slot fl ch seq from payload c) = rel_seq c"
    "unrel_seq (enqueue_raw_send slot fl ch seq from payload c) = unrel_seq c" "max_payload (enqueue_raw_send slot fl ch seq from payload c) = max_payload c"
  by (simp_all add: enqueue_raw_send_def)

text \<open>What a datagram from the other client does to the receiver's channels.\<close>

lemma recv_good:
  assumes hk: "hooks_ok enc dec overhead" and ct: "enc n p = Some b" and p: "datagram_ok h mp P p" and fit: "mp + 10 + unat overhead \<le> 1452"
    and r: "rel_ok strictly (P True) (rx c)" "unrel_ok (P False) (rx c)" and lim: "\<And>ch seq d. P False ch seq d \<Longrightarrow> unat seq < 2 ^ 31"
  shows "rel_ok strictly (P True) (rx (fst (worker_recv h F dec slot t1 t2 from b c)))
     \<and> unrel_ok (P False) (rx (fst (worker_recv h F dec slot t1 t2 from b c)))"
proof -
  from p obtain fl ch seq d where d: "build_header h fl ch seq (of_nat (length d)) @ d = p" "length d \<le> max mp 8" "fair P fl ch seq d"
    by (auto simp: datagram_ok_def)
  have "length p = 10 + length d" using d(1) by (auto simp: build_header_def mem_bytes_def)
  moreover have hooks: "length b \<le> length p + unat overhead" "unat overhead \<le> 1434" "dec b = Some p" using hk ct by (auto simp: hooks_ok_def)
  moreover have "length d \<le> mp \<or> length d \<le> 8" using d(2) by auto
  ultimately have "length b \<le> 1452" using fit by linarith
  then have dec: "dec (take 1452 b) = Some p" using hooks(3) by simp
  note hp = header_parts [OF d(1)]
  have ul: "unat (of_nat (length d) :: u32) = length d" using d(2) fit by (intro unat_small) auto
  have w: "mem_word h (mem_bytes h 4 v) = v" for v :: u32 by (rule mem_word_mem_bytes) simp
  have chl: "\<not> 256 \<le> unat ch" by (simp add: not_le)
  consider (ack) "fl AND 2 \<noteq> 0" | (probe) "fl AND 2 = 0" "fl AND 4 \<noteq> 0" | (rel) "fl = 1" "P True ch seq d" | (unrel) "fl = 0" "P False ch seq d"
    using d(3) by (auto simp: fair_def)
  then show ?thesis
  proof cases
    case ack
    then show ?thesis using r dec hp by (simp add: worker_recv_def Let_def split: prod.splits)
  next
    case probe
    then show ?thesis using r dec hp by (simp add: worker_recv_def Let_def)
  next
    case rel
    have pl: "take (unat (of_nat (length d) :: u32)) d = d" using ul by simp
    have k: "rel_ok strictly (P True) (fst (recv_reliable h ch seq (of_nat (length d)) d (rx c)))"
      by (rule recv_reliable_ok [OF r(1)]) (simp only: pl rel(2))
    have "rx (fst (worker_recv h F dec slot t1 t2 from b c)) = (if has_recv_cb c then fst (recv_reliable h ch seq (of_nat (length d)) d (rx c)) else rx c)"
      using dec hp rel(1) chl by (cases "has_recv_cb c") (simp_all add: worker_recv_def Let_def w split: prod.splits option.splits)
    then show ?thesis using k r unrel_ok_reliable [OF r(2)] by simp
  next
    case unrel
    have pl: "take (unat (of_nat (length d) :: u32)) d = d" using ul by simp
    have a: "arrays_ok (rx c)" using r(1) by (simp add: rel_ok_def)
    have k: "unrel_ok (P False) (recv_unreliable ch seq (of_nat (length d)) d (rx c))"
      by (rule recv_unreliable_ok [OF r(2) a _ lim [OF unrel(2)]]) (simp only: pl unrel(2))
    have "rx (fst (worker_recv h F dec slot t1 t2 from b c)) = (if has_recv_cb c then recv_unreliable ch seq (of_nat (length d)) d (rx c) else rx c)"
      using dec hp unrel(1) chl by (simp add: worker_recv_def Let_def w)
    then show ?thesis using k r rel_ok_unreliable [OF r(1)] by simp
  qed
qed

section \<open>What the sender sends\<close>

definition deferred_good :: "nat \<Rightarrow> (bool \<Rightarrow> byte \<Rightarrow> u32 \<Rightarrow> bytes \<Rightarrow> bool) \<Rightarrow> deferred_send_t \<Rightarrow> bool" where
  "deferred_good mp P d \<longleftrightarrow> length (ds_payload d) = unat (ds_payload_len d) \<and> unat (ds_payload_len d) \<le> mp
     \<and> fair P (ds_flags d) (ds_channel d) (ds_seq d) (ds_payload d)"

abbreviation entry_good :: "nat \<Rightarrow> (bool \<Rightarrow> byte \<Rightarrow> u32 \<Rightarrow> bytes \<Rightarrow> bool) \<Rightarrow> yumi_reliable_entry_t \<Rightarrow> bool" where
  "entry_good mp P e \<equiv> deferred_good mp P (deferred_of e)"

lemma datagram_raw:
  assumes "length d = unat len" and "unat len \<le> max mp 8" and "fair P fl ch seq d" and "pl = Some d \<or> pl = None \<and> len = 0"
  shows "datagram_ok h mp P (snd (worker_send_raw h fl ch seq dest pl len))"
proof -
  have "len = of_nat (length d)" using assms(1) by simp
  moreover have "d = []" if "len = 0" using assms(1) that by simp
  ultimately show ?thesis using assms unfolding datagram_ok_def worker_send_raw_def
    by (intro exI [of _ fl] exI [of _ ch] exI [of _ seq] exI [of _ d]) auto
qed

lemma flush_good: "\<forall>d\<in>set ds. deferred_good mp P d \<Longrightarrow> \<forall>x\<in>set (flush_deferred h ds). datagram_ok h mp P (snd x)"
  by (auto simp: flush_deferred_def deferred_good_def max_def intro!: datagram_raw)

lemma resend_good: "resend_closed now (entry_good mp P)"
  by (simp add: resend_closed_def deferred_of_def)

lemma from_good: "all_from (entry_good mp P) ds \<Longrightarrow> \<forall>d\<in>set ds. deferred_good mp P d"
  by (auto simp: all_from_def)

lemma send_locked_good:
  assumes "each (entry_good mp P) c" and "length (take (unat len) payload) = unat len" and "unat len \<le> mp" and "fair P fl ch seq (take (unat len) payload)"
  shows "each (entry_good mp P) (send_locked F al t1 t2 fl ch seq dest payload len c)"
  using assms by (auto simp: send_locked_def deferred_good_def deferred_of_def new_entry_def split: prod.splits intro!: add_each)

lemma ack_locked_good:
  assumes t: "table_ok c" and c: "each (entry_good mp P) c" and r: "ack_locked h F t1 t2 seq ch probe payload len c = (c', ds)"
  shows "each (entry_good mp P) c' \<and> (\<forall>d\<in>set ds. deferred_good mp P d)"
proof -
  let ?c = "worker_reliable_ack F t1 c seq ch probe"
  have t1: "table_ok ?c" using t by (auto simp: worker_reliable_ack_def Let_def table_ok_def split: option.splits)
  note a = ack_each [OF c, of F t1 seq ch probe]
  have n: "all_from (entry_good mp P) []" by (simp add: all_from_def)
  show ?thesis using r a from_good [OF conjunct2 [OF conjunct2 [OF sack_each [OF t1 a resend_good n]]]]
      conjunct1 [OF conjunct2 [OF sack_each [OF t1 a resend_good n]]]
    by (auto simp: ack_locked_def worker_handle_sack_def Let_def split: prod.splits if_splits) (metis fst_conv snd_conv)+
qed

lemma timer_good:
  assumes ok: "timers_ok c" and al: "memory_ok al" and c: "each (entry_good mp P) c" and r: "timer_event F al t t1 t2 c = (c', ds)"
  shows "each (entry_good mp P) c' \<and> (\<forall>d\<in>set ds. deferred_good mp P d)"
proof -
  obtain c1 d1 where r1: "worker_reliable_retransmit F al t c [] = (c1, d1)" by fastforce
  have n: "all_from (entry_good mp P) []" by (simp add: all_from_def)
  have c1: "each (entry_good mp P) c1" "\<forall>d\<in>set d1. deferred_good mp P d"
    using retransmit_ok [OF al resend_good ok c n r1] from_good [of mp P d1] by simp_all
  have fl: "fair P (YUMI_UDP_FLAG_RELIABLE OR YUMI_UDP_FLAG_PROBE) ch seq d" for ch seq d by (simp add: fair_def)
  have "each (entry_good mp P) (fst (worker_cc_probe F al t1 t2 c1 d1))"
    using c1(1) fl by (intro probe_each) (simp_all add: deferred_good_def deferred_of_def new_entry_def)
  moreover have "\<forall>d\<in>set (snd (worker_cc_probe F al t1 t2 c1 d1)). deferred_good mp P d"
    using c1(2) fl by (auto simp: worker_cc_probe_def Let_def deferred_good_def split: prod.splits)
  ultimately show ?thesis using r by (auto simp: timer_event_def r1 split: prod.splits)
qed

section \<open>The invariant of the link\<close>

type_synonym contents = "bool \<Rightarrow> byte \<Rightarrow> u32 \<Rightarrow> bytes \<Rightarrow> bool"

text \<open>The number of a message is its place among those handed over for its channel.\<close>

definition numbered :: "'cc link_state \<Rightarrow> contents" where
  "numbered s b ch seq d \<longleftrightarrow> unat seq < length (handed b ch s) \<and> d = handed b ch s ! unat seq"

definition item_kind :: "bool \<Rightarrow> yumi_work_type_t" where
  "item_kind b = (if b then YUMI_WORK_SEND_RELIABLE else YUMI_WORK_SEND_UNRELIABLE)"

definition counter :: "bool \<Rightarrow> 'cc yumi_udp_client_t \<Rightarrow> u32 list" where
  "counter b c = (if b then rel_seq c else unrel_seq c)"

definition queued :: "bool \<Rightarrow> byte \<Rightarrow> 'cc yumi_udp_client_t \<Rightarrow> bytes list" where
  "queued b ch c = map item_content (filter (\<lambda>i. wi_type i = item_kind b \<and> wi_channel i = ch) (send_ring c))"

text \<open>What waits in the ring is what has been handed over and not been numbered yet.\<close>

definition counted :: "'cc link_state \<Rightarrow> bool" where
  "counted s \<longleftrightarrow> (\<forall>b. length (counter b (sndr s)) = 256) \<and> (\<forall>b ch. \<exists>n \<le> length (handed b ch s).
     counter b (sndr s) ! unat ch = of_nat n \<and> queued b ch (sndr s) = drop n (handed b ch s))"

definition items_ok :: "nat \<Rightarrow> 'cc yumi_udp_client_t \<Rightarrow> bool" where
  "items_ok mp c \<longleftrightarrow> unat (max_payload c) \<le> mp
     \<and> (\<forall>i\<in>set (send_ring c). wi_type i \<in> {YUMI_WORK_SEND_UNRELIABLE, YUMI_WORK_SEND_RELIABLE} \<longrightarrow>
          length (item_content i) = unat (wi_len i) \<and> unat (wi_len i) \<le> mp)
     \<and> (\<forall>i\<in>set (send_ring c). wi_type i \<in> {YUMI_WORK_SEND_UNRELIABLE, YUMI_WORK_SEND_RELIABLE, YUMI_WORK_USER_CB})
     \<and> (\<forall>i\<in>set (ack_ring c). wi_raw_flags i AND YUMI_UDP_FLAG_ACK \<noteq> 0 \<and> length (item_content i) = unat (wi_len i) \<and> unat (wi_len i) \<le> 8)"

definition wire_ok :: "bool \<Rightarrow> ('n \<Rightarrow> bytes \<Rightarrow> bytes option) \<Rightarrow> nat \<Rightarrow> contents \<Rightarrow> 'cc link_state \<Rightarrow> bool" where
  "wire_ok h enc mp P s \<longleftrightarrow> (\<forall>x\<in>set (on_wire s). \<exists>n p. enc n p = Some (snd x) \<and> datagram_ok h mp P p)"

definition traffic_ok :: "bool \<Rightarrow> ('n \<Rightarrow> bytes \<Rightarrow> bytes option) \<Rightarrow> u64 \<Rightarrow> nat \<Rightarrow> contents \<Rightarrow> 'cc link_state \<Rightarrow> bool" where
  "traffic_ok h enc T mp P s \<longleftrightarrow> sender_ok T (clock s) (tx (sndr s)) \<and> each (entry_good mp P) (tx (sndr s)) \<and> items_ok mp (sndr s)
     \<and> wire_ok h enc mp P s \<and> rel_ok strictly (P True) (rx (rcvr s)) \<and> unrel_ok (P False) (rx (rcvr s))"

subsection \<open>More contents\<close>

lemma fair_mono: "fair P fl ch seq d \<Longrightarrow> P \<le> P' \<Longrightarrow> fair P' fl ch seq d"
  by (auto simp: fair_def le_fun_def)

lemma datagram_mono: "datagram_ok h mp P p \<Longrightarrow> P \<le> P' \<Longrightarrow> datagram_ok h mp P' p"
  unfolding datagram_ok_def using fair_mono by blast

lemma entry_mono: "each (entry_good mp P) c \<Longrightarrow> P \<le> P' \<Longrightarrow> each (entry_good mp P') c"
  unfolding each_in_def deferred_good_def using fair_mono by blast

lemma calls_mono: "calls_from b (P b) r \<Longrightarrow> P \<le> P' \<Longrightarrow> calls_from b (P' b) r"
  by (auto simp: calls_from_def le_fun_def)

lemma slots_mono: "slots_ok lo (P True) r \<Longrightarrow> P \<le> P' \<Longrightarrow> slots_ok lo (P' True) r"
  by (auto simp: slots_ok_def Let_def le_fun_def)

lemma rel_mono: "rel_ok lo (P True) r \<Longrightarrow> P \<le> P' \<Longrightarrow> rel_ok lo (P' True) r"
  using calls_mono [of True P r P'] slots_mono [of lo P r P'] by (simp add: rel_ok_def)

lemma unrel_mono: "unrel_ok (P False) r \<Longrightarrow> P \<le> P' \<Longrightarrow> unrel_ok (P' False) r"
proof -
  assume r: "unrel_ok (P False) r" and "P \<le> P'"
  then have "calls_from False (P' False) r" using calls_mono [of False P r P'] by (simp add: unrel_ok_def)
  then show ?thesis using r unfolding unrel_ok_def by blast
qed

lemma wire_mono: "wire_ok h enc mp P s \<Longrightarrow> P \<le> P' \<Longrightarrow> wire_ok h enc mp P' s"
  unfolding wire_ok_def using datagram_mono by blast

lemma traffic_mono: "traffic_ok h enc T mp P s \<Longrightarrow> P \<le> P' \<Longrightarrow> traffic_ok h enc T mp P' s"
proof -
  assume t: "traffic_ok h enc T mp P s" and le: "P \<le> P'"
  show ?thesis using t entry_mono [OF _ le] rel_mono [OF _ le] unrel_mono [OF _ le] wire_mono [OF _ le]
    unfolding traffic_ok_def by blast
qed

subsection \<open>Sending\<close>

lemma sent_as_wire:
  assumes "sent_as enc out cts" and "\<forall>x\<in>set out. datagram_ok h mp P (snd x)" and "wire_ok h enc mp P s" and "on_wire s' = on_wire s @ cts"
  shows "wire_ok h enc mp P s'"
proof -
  from assms(1) obtain ns where ns: "length ns = length out" "cts = concat (map2 (worker_dgram_out enc) ns out)" by (auto simp: sent_as_def)
  have "\<exists>n p. enc n p = Some (snd x) \<and> datagram_ok h mp P p" if "x \<in> set cts" for x
    using that assms(2) unfolding ns(2)
    by (auto simp: worker_dgram_out_def dest!: set_zip_rightD split: prod.splits option.splits) force+
  then show ?thesis using assms(3,4) by (auto simp: wire_ok_def)
qed

lemma handed_same: "accepted s' = accepted s \<Longrightarrow> handed b ch s' = handed b ch s"
  by (simp add: handed_def)

lemma numbered_same: "accepted s' = accepted s \<Longrightarrow> numbered s' = numbered s"
  by (simp add: numbered_def handed_def fun_eq_iff)

lemma counted_same:
  assumes "counted s" and "accepted s' = accepted s" and "rel_seq (sndr s') = rel_seq (sndr s)" and "unrel_seq (sndr s') = unrel_seq (sndr s)"
    and q: "\<And>b ch. queued b ch (sndr s') = queued b ch (sndr s)"
  shows "counted s'"
proof -
  have c: "counter b (sndr s') = counter b (sndr s)" for b using assms(3,4) by (simp add: counter_def)
  have h: "handed b ch s' = handed b ch s" for b ch using assms(2) by (rule handed_same)
  show ?thesis using assms(1) unfolding counted_def c h q .
qed

lemma filled_content: "slot_ready slot \<Longrightarrow> caller_data data len \<Longrightarrow> unat len \<le> 1442 \<Longrightarrow>
    length (item_content (fill_slot slot type ch dest data len)) = unat len"
  by (auto simp: item_content_def fill_slot_def slot_ready_def caller_data_def split: option.splits)

subsection \<open>Numbering\<close>

text \<open>The worker numbers the first message that waits.\<close>

lemma number_next:
  assumes c: "counted s" and bound: "\<And>b ch. length (handed b ch s) \<le> 2 ^ 31"
    and ring: "send_ring (sndr s) = item # rest" and kind: "wi_type item = item_kind b"
  shows "numbered s b (wi_channel item) (counter b (sndr s) ! unat (wi_channel item)) (item_content item)"
    and "unat (counter b (sndr s) ! unat (wi_channel item)) < 2 ^ 31"
    and "counter b x = (counter b (sndr s))[unat (wi_channel item) := counter b (sndr s) ! unat (wi_channel item) + 1] \<Longrightarrow>
      counter (\<not> b) x = counter (\<not> b) (sndr s) \<Longrightarrow> send_ring x = rest \<Longrightarrow> accepted s' = accepted s \<Longrightarrow> sndr s' = x \<Longrightarrow> counted s'"
proof -
  let ?ch = "wi_channel item"
  from c obtain n where n: "n \<le> length (handed b ?ch s)" "counter b (sndr s) ! unat ?ch = of_nat n" "queued b ?ch (sndr s) = drop n (handed b ?ch s)"
    unfolding counted_def by blast
  have q: "queued b ?ch (sndr s) = item_content item # map item_content (filter (\<lambda>i. wi_type i = item_kind b \<and> wi_channel i = ?ch) rest)"
    by (simp add: queued_def ring kind)
  then have "drop n (handed b ?ch s) \<noteq> []" unfolding n(3) [symmetric] by simp
  then have lt: "n < length (handed b ?ch s)" by simp
  have nth: "handed b ?ch s ! n = item_content item"
    and rest: "map item_content (filter (\<lambda>i. wi_type i = item_kind b \<and> wi_channel i = ?ch) rest) = drop (Suc n) (handed b ?ch s)"
    using q n(3) Cons_nth_drop_Suc [OF lt] by simp_all
  have n31: "n < 2 ^ 31" using lt bound [of b ?ch] by linarith
  then have u: "unat (of_nat n :: u32) = n" by (intro unat_small) simp
  show "numbered s b ?ch (counter b (sndr s) ! unat ?ch) (item_content item)" by (simp add: numbered_def n(2) u lt nth)
  show "unat (counter b (sndr s) ! unat ?ch) < 2 ^ 31" using n31 by (simp add: n(2) u)
  assume x: "counter b x = (counter b (sndr s))[unat ?ch := counter b (sndr s) ! unat ?ch + 1]" "counter (\<not> b) x = counter (\<not> b) (sndr s)"
    "send_ring x = rest" "accepted s' = accepted s" "sndr s' = x"
  have len: "length (counter b' (sndr s)) = 256" for b' using c by (simp add: counted_def)
  have h: "handed b' c' s' = handed b' c' s" for b' c' using x(4) by (rule handed_same)
  show "counted s'" unfolding counted_def h x(5)
  proof (intro conjI allI)
    fix b' show "length (counter b' x) = 256" using x(1,2) len by (cases "b' = b") auto
  next
    fix b' c'
    show "\<exists>n\<le>length (handed b' c' s). counter b' x ! unat c' = of_nat n \<and> queued b' c' x = drop n (handed b' c' s)"
    proof (cases "b' = b \<and> c' = ?ch")
      case True
      then show ?thesis using lt rest n(2) len [of b] x(1,3) by (intro exI [of _ "Suc n"]) (simp add: queued_def)
    next
      case False
      then have "counter b' x ! unat c' = counter b' (sndr s) ! unat c'" using x(1,2) by (cases "b' = b") auto
      moreover have "queued b' c' x = queued b' c' (sndr s)"
        using False kind x(3) by (auto simp: queued_def ring item_kind_def split: if_splits)
      ultimately show ?thesis using c unfolding counted_def by simp
    qed
  qed
qed

text \<open>What the application hands over goes to the end of the ring.\<close>

lemma submit_counted:
  assumes c: "counted s" and t: "type = item_kind b" and ring: "send_ring x = send_ring (sndr s) @ [item]" "wi_type item = type" "wi_channel item = ch"
    and same: "rel_seq x = rel_seq (sndr s)" "unrel_seq x = unrel_seq (sndr s)" "sndr s' = x"
    and acc: "accepted s' = accepted s @ [(b, ch, item_content item)]"
  shows "counted s'"
  unfolding counted_def
proof (intro conjI allI)
  fix b'
  have "counter b' (sndr s') = counter b' (sndr s)" using same by (simp add: counter_def)
  then show "length (counter b' (sndr s')) = 256" using c by (simp add: counted_def)
next
  fix b' c'
  from c obtain n where n: "n \<le> length (handed b' c' s)" "counter b' (sndr s) ! unat c' = of_nat n" "queued b' c' (sndr s) = drop n (handed b' c' s)"
    unfolding counted_def by blast
  have cnt: "counter b' (sndr s') = counter b' (sndr s)" using same by (simp add: counter_def)
  have k: "(item_kind b = item_kind b') = (b = b')" by (simp add: item_kind_def)
  have "handed b' c' s' = handed b' c' s @ (if b = b' \<and> ch = c' then [item_content item] else [])" by (auto simp: handed_def acc)
  moreover have "queued b' c' (sndr s') = queued b' c' (sndr s) @ (if b = b' \<and> ch = c' then [item_content item] else [])"
    using ring t k by (auto simp: queued_def same(3))
  ultimately show "\<exists>n\<le>length (handed b' c' s'). counter b' (sndr s') ! unat c' = of_nat n \<and> queued b' c' (sndr s') = drop n (handed b' c' s')"
    using n cnt by (intro exI [of _ n]) simp
qed

lemma submit_numbered: "accepted s' = accepted s @ xs \<Longrightarrow> numbered s \<le> numbered s'"
  by (auto simp: le_fun_def numbered_def handed_def nth_append)

subsection \<open>Every step\<close>

definition bounded :: "'cc link_state \<Rightarrow> bool" where
  "bounded s \<longleftrightarrow> (\<forall>b ch. length (handed b ch s) \<le> 2 ^ 31)"

definition link_ok :: "bool \<Rightarrow> ('n \<Rightarrow> bytes \<Rightarrow> bytes option) \<Rightarrow> u64 \<Rightarrow> nat \<Rightarrow> 'cc link_state \<Rightarrow> bool" where
  "link_ok h enc T mp s \<longleftrightarrow> traffic_ok h enc T mp (numbered s) s \<and> counted s"

lemma numbered_limit: "bounded s \<Longrightarrow> numbered s b ch seq d \<Longrightarrow> unat seq < 2 ^ 31"
  by (auto simp: bounded_def numbered_def intro: less_le_trans)

lemma link_ok_same:
  assumes ok: "link_ok h enc T mp s" and "accepted s' = accepted s" and "rel_seq (sndr s') = rel_seq (sndr s)" and "unrel_seq (sndr s') = unrel_seq (sndr s)"
    and "\<And>b ch. queued b ch (sndr s') = queued b ch (sndr s)" and "traffic_ok h enc T mp (numbered s) s'"
  shows "link_ok h enc T mp s'"
  using assms counted_same [of s s'] numbered_same [of s' s] by (simp add: link_ok_def)

lemma deliver_link:
  assumes ok: "link_ok h enc T mp s" and b: "bounded s" and hk: "hooks_ok enc dec overhead" and fit: "mp + 10 + unat overhead \<le> 1452"
    and w: "(addr, dgram) \<in> set (on_wire s)"
  shows "link_ok h enc T mp (s\<lparr>rcvr := fst (worker_recv h F dec slot t1 t2 from dgram (rcvr s))\<rparr>)"
proof (rule link_ok_same [OF ok])
  have t: "traffic_ok h enc T mp (numbered s) s" using ok by (simp add: link_ok_def)
  then obtain n p where p: "enc n p = Some dgram" "datagram_ok h mp (numbered s) p" using w by (fastforce simp: traffic_ok_def wire_ok_def)
  have r: "rel_ok strictly (numbered s True) (rx (rcvr s))" "unrel_ok (numbered s False) (rx (rcvr s))" using t by (simp_all add: traffic_ok_def)
  have g: "rel_ok strictly (numbered s True) (rx (fst (worker_recv h F dec slot t1 t2 from dgram (rcvr s))))
      \<and> unrel_ok (numbered s False) (rx (fst (worker_recv h F dec slot t1 t2 from dgram (rcvr s))))"
    by (rule recv_good [OF hk p fit r]) (rule numbered_limit [OF b])
  show "traffic_ok h enc T mp (numbered s) (s\<lparr>rcvr := fst (worker_recv h F dec slot t1 t2 from dgram (rcvr s))\<rparr>)"
    using t g by (simp add: traffic_ok_def wire_ok_def)
qed simp_all

lemma kept_link:
  assumes ok: "link_ok h enc T mp s" and "rx c = rx (rcvr s)"
  shows "link_ok h enc T mp (s\<lparr>rcvr := c\<rparr>)"
proof (rule link_ok_same [OF ok])
  show "traffic_ok h enc T mp (numbered s) (s\<lparr>rcvr := c\<rparr>)" using assms by (simp add: link_ok_def traffic_ok_def wire_ok_def)
qed simp_all

text \<open>A step of the sender that hands nothing over.\<close>

lemma sender_link:
  assumes ok: "link_ok h enc T mp s"
    and tx: "sender_ok T now (tx c)" "each (entry_good mp (numbered s)) (tx c)" and items: "items_ok mp c"
    and out: "sent_as enc out cts" "\<forall>x\<in>set out. datagram_ok h mp (numbered s) (snd x)"
    and count: "counted (s\<lparr>sndr := c, on_wire := on_wire s @ cts, clock := now\<rparr>)"
  shows "link_ok h enc T mp (s\<lparr>sndr := c, on_wire := on_wire s @ cts, clock := now\<rparr>)"
proof -
  let ?s = "s\<lparr>sndr := c, on_wire := on_wire s @ cts, clock := now\<rparr>"
  have "wire_ok h enc mp (numbered s) s" using ok by (simp add: link_ok_def traffic_ok_def)
  then have "wire_ok h enc mp (numbered s) ?s" by (rule sent_as_wire [OF out]) simp
  then have "traffic_ok h enc T mp (numbered s) ?s" using ok tx items by (simp add: link_ok_def traffic_ok_def)
  then show ?thesis using count numbered_same [of ?s s] by (simp add: link_ok_def)
qed

lemma count_only: "counted s \<Longrightarrow> rel_seq c = rel_seq (sndr s) \<Longrightarrow> unrel_seq c = unrel_seq (sndr s) \<Longrightarrow> send_ring c = send_ring (sndr s) \<Longrightarrow>
    counted (s\<lparr>sndr := c, on_wire := w, clock := t\<rparr>)"
  by (rule counted_same [of s]) (simp_all add: queued_def)

lemma timer_link:
  assumes ok: "link_ok h enc T mp s" and T: "T < 2 ^ 63" and al: "memory_ok al" and cl: "clock_runs (clock s) [t, t1, t2]"
    and w: "worker_timer h F al t t1 t2 (sndr s) = (c, out)" and sent: "sent_as enc out cts"
  shows "link_ok h enc T mp (s\<lparr>sndr := c, on_wire := on_wire s @ cts, clock := t2\<rparr>)"
proof -
  obtain c1 ds where tk: "timer_event F al t t1 t2 (tx (sndr s)) = (c1, ds)" by fastforce
  have c: "c = (sndr s)\<lparr>tx := c1\<rparr>" "out = flush_deferred h ds" using w by (simp_all add: worker_timer_def tk)
  have t: "sender_ok T (clock s) (tx (sndr s))" "each (entry_good mp (numbered s)) (tx (sndr s))" "items_ok mp (sndr s)"
    using ok by (simp_all add: link_ok_def traffic_ok_def)
  have so: "sender_ok T t2 c1" using sender_step_ok [OF t(1) T _ al, of "OpTick t t1 t2" h F] cl tk by simp
  have good: "each (entry_good mp (numbered s)) c1 \<and> (\<forall>d\<in>set ds. deferred_good mp (numbered s) d)"
    using t by (intro timer_good [OF _ al _ tk]) (simp_all add: sender_ok_def)
  have "\<forall>x\<in>set out. datagram_ok h mp (numbered s) (snd x)" unfolding c(2) by (rule flush_good [OF conjunct2 [OF good]])
  moreover have "counted (s\<lparr>sndr := c, on_wire := on_wire s @ cts, clock := t2\<rparr>)"
    using ok by (intro count_only) (simp_all add: c link_ok_def)
  moreover have "items_ok mp c" using t(3) by (simp add: c items_ok_def)
  ultimately show ?thesis using good so by (intro sender_link [OF ok _ _ _ sent]) (simp_all add: c(1))
qed

lemma item_datagram:
  assumes "length (item_content i) = unat (wi_len i)" and "unat (wi_len i) \<le> max mp 8" and "fair P fl ch seq (item_content i)"
    and "pl = Some (wi_data i) \<or> pl = None \<and> wi_len i = 0"
  shows "datagram_ok h mp P (snd (worker_send_raw h fl ch seq dest pl (wi_len i)))"
proof -
  have "worker_send_raw h fl ch seq dest pl (wi_len i) = worker_send_raw h fl ch seq dest (if pl = None then None else Some (item_content i)) (wi_len i)"
    using assms(4) by (auto simp: worker_send_raw_def item_content_def)
  then show ?thesis using assms datagram_raw [of "item_content i" "wi_len i" mp P fl ch seq "if pl = None then None else Some (item_content i)" h dest] by auto
qed

lemma acks_link:
  assumes ok: "link_ok h enc T mp s" and w: "send_worker_ack h (sndr s) = (c, out)" and sent: "sent_as enc out cts"
  shows "link_ok h enc T mp (s\<lparr>sndr := c, on_wire := on_wire s @ cts\<rparr>)"
proof -
  have t: "sender_ok T (clock s) (tx (sndr s))" "each (entry_good mp (numbered s)) (tx (sndr s))" "items_ok mp (sndr s)"
    using ok by (simp_all add: link_ok_def traffic_ok_def)
  have c: "tx c = tx (sndr s)" "send_ring c = send_ring (sndr s)" "rel_seq c = rel_seq (sndr s)" "unrel_seq c = unrel_seq (sndr s)" "max_payload c = max_payload (sndr s)"
    "set (ack_ring c) \<subseteq> set (ack_ring (sndr s))"
    using w by (auto simp: send_worker_ack_def split: list.splits)
  have "\<forall>x\<in>set out. datagram_ok h mp (numbered s) (snd x)"
  proof (cases "ack_ring (sndr s)")
    case (Cons i rest)
    then have i: "wi_raw_flags i AND YUMI_UDP_FLAG_ACK \<noteq> 0" "length (item_content i) = unat (wi_len i)" "unat (wi_len i) \<le> 8"
      using t(3) by (simp_all add: items_ok_def)
    have "datagram_ok h mp (numbered s) (snd (worker_send_raw h (wi_raw_flags i) (wi_channel i) (wi_raw_seq i) (item_dest (sndr s) i)
        (if 0 < wi_len i then Some (wi_data i) else None) (wi_len i)))"
      using i by (intro item_datagram) (auto simp: fair_def word_gt_0)
    then show ?thesis using w Cons by (auto simp: send_worker_ack_def)
  qed (use w in \<open>simp add: send_worker_ack_def\<close>)
  moreover have "counted (s\<lparr>sndr := c, on_wire := on_wire s @ cts, clock := clock s\<rparr>)" using ok c by (intro count_only) (simp_all add: link_ok_def)
  moreover have "items_ok mp c" using t(3) c by (auto simp: items_ok_def)
  ultimately have "link_ok h enc T mp (s\<lparr>sndr := c, on_wire := on_wire s @ cts, clock := clock s\<rparr>)"
    using t(1,2) c(1) by (intro sender_link [OF ok _ _ _ sent]) simp_all
  then show ?thesis by simp
qed

lemma work_link:
  assumes ok: "link_ok h enc T mp s" and b: "bounded s" and T: "T < 2 ^ 63" and al: "memory_ok al" and cl: "clock_runs (clock s) [t1, t2]"
    and w: "send_worker_data h F al t1 t2 (sndr s) = Some (c, out)" and sent: "sent_as enc out cts"
  shows "link_ok h enc T mp (s\<lparr>sndr := c, on_wire := on_wire s @ cts, clock := t2\<rparr>)"
proof -
  let ?s = "s\<lparr>sndr := c, on_wire := on_wire s @ cts, clock := t2\<rparr>"
  have t: "sender_ok T (clock s) (tx (sndr s))" "each (entry_good mp (numbered s)) (tx (sndr s))" "items_ok mp (sndr s)" "counted s"
    using ok by (simp_all add: link_ok_def traffic_ok_def)
  have t2: "clock s \<le> t2" using cl by (auto simp: clock_runs_def)
  have quiet: ?thesis if c: "tx c = tx (sndr s)" "rel_seq c = rel_seq (sndr s)" "unrel_seq c = unrel_seq (sndr s)" "items_ok mp c" "out = []"
      "\<And>b ch. queued b ch c = queued b ch (sndr s)"
  proof -
    have "counted ?s" using t(4) c by (intro counted_same [of s ?s]) simp_all
    then show ?thesis using c sender_ok_later [OF t(1) t2] t(2) by (intro sender_link [OF ok _ _ _ sent]) simp_all
  qed
  show ?thesis
  proof (cases "send_ring (sndr s)")
    case Nil
    then show ?thesis using w t(3) by (intro quiet) (simp_all add: send_worker_data_def)
  next
    case (Cons item rest)
    consider (user) "wi_type item = YUMI_WORK_USER_CB" | (wait) "wi_type item \<in> {YUMI_WORK_SEND_UNRELIABLE, YUMI_WORK_SEND_RELIABLE}" "pace_credit (sndr s) \<le>s 0"
      | (go) "wi_type item \<in> {YUMI_WORK_SEND_UNRELIABLE, YUMI_WORK_SEND_RELIABLE}" "\<not> pace_credit (sndr s) \<le>s 0"
      using t(3) Cons by (auto simp: items_ok_def)
    then show ?thesis
    proof cases
      case user
      then show ?thesis using w Cons t(3) by (intro quiet) (auto simp: send_worker_data_def items_ok_def queued_def item_kind_def)
    next
      case wait
      then show ?thesis using w Cons t(3) by (intro quiet) (auto simp: send_worker_data_def)
    next
      case go
      define k where "k = (wi_type item = YUMI_WORK_SEND_RELIABLE)"
      have kind: "wi_type item = item_kind k" using go(1) by (auto simp: k_def item_kind_def)
      let ?ch = "wi_channel item" and ?seq = "counter k (sndr s) ! unat (wi_channel item)"
      note bd = b [unfolded bounded_def, rule_format]
      note num = number_next [OF t(4) bd Cons kind]
      have i: "length (item_content item) = unat (wi_len item)" "unat (wi_len item) \<le> mp" using t(3) Cons go(1) by (auto simp: items_ok_def)
      have fair: "fair (numbered s) (if k then YUMI_UDP_FLAG_RELIABLE else 0) ?ch ?seq (item_content item)"
        using num(1) by (cases k) (simp_all add: fair_def)
      obtain c0 where c0: "send_worker_process_item h F al t1 t2 item (sndr s) = (c0, out)" "c = c0\<lparr>send_ring := rest\<rparr>"
        using w Cons go by (auto simp: send_worker_data_def split: prod.splits)
      have out: "out = [worker_send_raw h (if k then YUMI_UDP_FLAG_RELIABLE else 0) ?ch ?seq (item_dest (sndr s) item) (Some (wi_data item)) (wi_len item)]"
        and tx: "tx c = (if k then send_locked F al t1 t2 YUMI_UDP_FLAG_RELIABLE ?ch ?seq (item_dest (sndr s) item) (wi_data item) (wi_len item) (tx (sndr s)) else tx (sndr s))"
        and cnt: "counter k c = (counter k (sndr s))[unat ?ch := ?seq + 1]" "counter (\<not> k) c = counter (\<not> k) (sndr s)"
        and rest: "send_ring c = rest" "ack_ring c = ack_ring (sndr s)" "max_payload c = max_payload (sndr s)"
        using c0 by (auto simp: send_worker_process_item_def Let_def k_def [symmetric] counter_def split: if_splits)
      have "\<forall>x\<in>set out. datagram_ok h mp (numbered s) (snd x)" unfolding out using i fair by (auto intro!: item_datagram)
      moreover have "sender_ok T t2 (tx c)"
        using sender_step_ok [OF t(1) T _ al, of "OpSend t1 t2 YUMI_UDP_FLAG_RELIABLE ?ch ?seq (item_dest (sndr s) item) (wi_data item) (wi_len item)" h F] cl
          sender_ok_later [OF t(1) t2] by (cases k) (simp_all add: tx)
      moreover have "each (entry_good mp (numbered s)) (tx c)"
        using send_locked_good [OF t(2), of "wi_len item" "wi_data item" YUMI_UDP_FLAG_RELIABLE ?ch ?seq F al t1 t2 "item_dest (sndr s) item"] t(2) i fair
        by (cases k) (simp_all add: tx item_content_def)
      moreover have "items_ok mp c" using t(3) Cons rest by (auto simp: items_ok_def)
      moreover have "counted ?s" by (rule num(3) [OF cnt rest(1)]) simp_all
      ultimately show ?thesis by (intro sender_link [OF ok _ _ _ sent])
    qed
  qed
qed

lemma reply_len: "recv_reliable h ch seq len data r = (r', Some pl) \<Longrightarrow> length pl \<le> 8"
  by (auto simp: recv_reliable_def Let_def mem_bytes_def split: if_splits)

lemma raw_items: "items_ok mp c \<Longrightarrow> fl AND YUMI_UDP_FLAG_ACK \<noteq> 0 \<Longrightarrow> length pl \<le> 8 \<Longrightarrow> items_ok mp (enqueue_raw_send slot fl ch seq from pl c)"
  by (auto simp: items_ok_def enqueue_raw_send_def item_content_def unat_small)

lemma recv_cases:
  assumes w: "worker_recv h F dec slot t1 t2 from dgram c0 = (c, out)"
  obtains (ack) seq ch probe payload len c1 ds where "ack_locked h F t1 t2 seq ch probe payload len (tx c0) = (c1, ds)"
      "c = c0\<lparr>tx := c1\<rparr>" "out = flush_deferred h ds"
  | (quiet) "tx c = tx c0" "rel_seq c = rel_seq c0" "unrel_seq c = unrel_seq c0" "send_ring c = send_ring c0" "out = []"
      "\<And>mp. items_ok mp c0 \<Longrightarrow> items_ok mp c"
proof -
  have rx: "items_ok mp (c0\<lparr>rx := x\<rparr>) = items_ok mp c0" for mp x by (simp add: items_ok_def)
  show ?thesis
  proof (cases "\<exists>pkt. dec (take 1452 dgram) = Some pkt \<and> 10 \<le> length pkt \<and> pkt ! 0 AND YUMI_UDP_FLAG_ACK \<noteq> 0")
    case True
    then obtain pkt where "dec (take 1452 dgram) = Some pkt" "\<not> length pkt < 10" "pkt ! 0 AND YUMI_UDP_FLAG_ACK \<noteq> 0" by auto
    note un = w [unfolded worker_recv_def this(1) option.case Let_def if_not_P [OF this(2)] if_P [OF this(3)]]
    obtain c1 ds where a: "ack_locked h F t1 t2 (mem_word h (take 4 (drop 2 pkt))) (pkt ! 1) (is_probe (pkt ! 0)) (drop 10 pkt)
        (if mem_word h (take 4 (drop 6 pkt)) \<le> (of_nat (length (drop 10 pkt)) :: u32) then mem_word h (take 4 (drop 6 pkt)) else of_nat (length (drop 10 pkt))) (tx c0) = (c1, ds)"
      by fastforce
    show ?thesis using un unfolding a prod.case by (intro ack [OF a]) simp_all
  next
    case False
    then have "tx c = tx c0 \<and> rel_seq c = rel_seq c0 \<and> unrel_seq c = unrel_seq c0 \<and> send_ring c = send_ring c0 \<and> out = []
        \<and> (\<forall>mp. items_ok mp c0 \<longrightarrow> items_ok mp c)"
      using w by (auto simp: worker_recv_def Let_def not_less rx raw_items reply_len split: if_splits option.splits prod.splits)
    then show ?thesis by (intro quiet) blast+
  qed
qed

lemma reply_link:
  assumes ok: "link_ok h enc T mp s" and T: "T < 2 ^ 63" and cl: "clock_runs (clock s) [t1, t2]"
    and w: "worker_recv h F dec slot t1 t2 from dgram (sndr s) = (c, out)" and sent: "sent_as enc out cts"
  shows "link_ok h enc T mp (s\<lparr>sndr := c, on_wire := on_wire s @ cts, clock := t2\<rparr>)"
proof -
  have t: "sender_ok T (clock s) (tx (sndr s))" "each (entry_good mp (numbered s)) (tx (sndr s))" "items_ok mp (sndr s)" "counted s"
    using ok by (simp_all add: link_ok_def traffic_ok_def)
  have t2: "clock s \<le> t2" using cl by (auto simp: clock_runs_def)
  note fin = sender_link [OF ok _ _ _ sent]
  from w show ?thesis
  proof (cases rule: recv_cases)
    case quiet
    then show ?thesis using sender_ok_later [OF t(1) t2] t(2,3) by (intro fin count_only [OF t(4)]) simp_all
  next
    case (ack seq ch probe payload len c1 ds)
    note a = ack(1) and c = ack(2,3)
    have "sender_ok T t2 c1" using sender_step_ok [OF t(1) T, of "OpAck t1 t2 seq ch probe payload len" demo_memory h F] cl a
      by (simp add: memory_ok_def demo_memory_def)
    moreover have good: "each (entry_good mp (numbered s)) c1 \<and> (\<forall>d\<in>set ds. deferred_good mp (numbered s) d)"
      using t by (intro ack_locked_good [OF _ _ a]) (simp_all add: sender_ok_def timers_ok_def)
    moreover have "items_ok mp c" using t(3) by (simp add: c items_ok_def)
    moreover have "\<forall>x\<in>set out. datagram_ok h mp (numbered s) (snd x)" unfolding c(2) by (rule flush_good [OF conjunct2 [OF good]])
    ultimately show ?thesis by (intro fin count_only [OF t(4)]) (simp_all add: c(1))
  qed
qed

lemma submit_link:
  assumes ok: "link_ok h enc T mp s" and mp: "mp \<le> 1442"
    and e: "enqueue_work slot type ch dest data len (sndr s) = (res, c)" and ty: "type \<in> {YUMI_WORK_SEND_UNRELIABLE, YUMI_WORK_SEND_RELIABLE}"
    and slot: "slot_ready slot" "caller_data data len"
  shows "link_ok h enc T mp (s\<lparr>sndr := c, accepted := accepted s @
      (if res = 0 then [(type = YUMI_WORK_SEND_RELIABLE, ch, item_content (last (send_ring c)))] else [])\<rparr>)" (is "link_ok h enc T mp ?s")
proof (cases "res = 0")
  case False
  then have "c = sndr s" using e by (auto simp: enqueue_work_def split: if_splits)
  then show ?thesis using ok False by simp
next
  case True
  let ?item = "fill_slot slot type ch dest data len"
  let ?b = "type = YUMI_WORK_SEND_RELIABLE"
  have t: "traffic_ok h enc T mp (numbered s) s" "counted s" using ok by (simp_all add: link_ok_def)
  have c: "c = (sndr s)\<lparr>send_ring := send_ring (sndr s) @ [?item]\<rparr>" "len \<le> max_payload (sndr s)"
    using e True by (auto simp: enqueue_work_def not_less split: if_splits)
  have s: "?s = s\<lparr>sndr := c, accepted := accepted s @ [(?b, ch, item_content ?item)]\<rparr>" using True by (simp add: c(1))
  have kind: "type = item_kind ?b" using ty by (auto simp: item_kind_def)
  have f: "wi_type ?item = type" "wi_channel ?item = ch" "wi_len ?item = len" by (simp_all add: fill_slot_def)
  have cnt: "counted ?s" unfolding s
    by (rule submit_counted [OF t(2) kind, of c ?item ch]) (simp_all add: c(1) f)
  have "unat len \<le> mp" using t(1) c(2) by (auto simp: traffic_ok_def items_ok_def word_le_nat_alt)
  moreover have "length (item_content ?item) = unat len" using filled_content [OF slot] mp calculation by simp
  ultimately have "items_ok mp c" using t(1) f ty by (auto simp: traffic_ok_def items_ok_def c(1))
  then have "traffic_ok h enc T mp (numbered s) ?s" using t(1) by (simp add: traffic_ok_def wire_ok_def c(1))
  moreover have "numbered s \<le> numbered ?s" by (rule submit_numbered) simp
  ultimately have "traffic_ok h enc T mp (numbered ?s) ?s" by (rule traffic_mono)
  then show ?thesis using cnt unfolding link_ok_def by blast
qed

lemma post_link:
  assumes ok: "link_ok h enc T mp s" and e: "yumi_udp_client_post_user slot data len (sndr s) = (res, c)"
  shows "link_ok h enc T mp (s\<lparr>sndr := c\<rparr>)"
proof (rule link_ok_same [OF ok])
  have "c = sndr s \<or> c = (sndr s)\<lparr>send_ring := send_ring (sndr s) @ [fill_slot slot YUMI_WORK_USER_CB 0 None data len]\<rparr>"
    using e by (auto simp: yumi_udp_client_post_user_def split: if_splits)
  then show "rel_seq (sndr (s\<lparr>sndr := c\<rparr>)) = rel_seq (sndr s)" "unrel_seq (sndr (s\<lparr>sndr := c\<rparr>)) = unrel_seq (sndr s)"
    "queued b ch (sndr (s\<lparr>sndr := c\<rparr>)) = queued b ch (sndr s)" "traffic_ok h enc T mp (numbered s) (s\<lparr>sndr := c\<rparr>)" for b ch
    using ok by (auto simp: queued_def fill_slot_def item_kind_def link_ok_def traffic_ok_def wire_ok_def items_ok_def)
qed simp

section \<open>Runs\<close>

lemma step_accepted: "link_step h F enc dec addr s s' \<Longrightarrow> \<exists>xs. accepted s' = accepted s @ xs"
  by (induction rule: link_step.induct) auto

lemma bounded_before: "accepted s' = accepted s @ xs \<Longrightarrow> bounded s' \<Longrightarrow> bounded s"
proof -
  assume a: "accepted s' = accepted s @ xs" and b: "bounded s'"
  have "length (handed b ch s) \<le> length (handed b ch s')" for b ch by (simp add: handed_def a)
  then show "bounded s" using b unfolding bounded_def by (meson order_trans)
qed

lemma step_link:
  assumes st: "link_step h F enc dec addr s s'" and ok: "link_ok h enc T mp s" and b: "bounded s" and T: "T < 2 ^ 63"
    and hk: "hooks_ok enc dec overhead" and fit: "mp + 10 + unat overhead \<le> 1452"
  shows "link_ok h enc T mp s'"
  using st
proof (cases rule: link_step.cases)
  case (submit slot type ch dest data len res c)
  then show ?thesis using submit_link [OF ok _ submit(2,3,4,5)] fit by simp
next
  case (post slot data len res c)
  then show ?thesis using post_link [OF ok] by simp
next
  case (refill credit)
  have "link_ok h enc T mp (s\<lparr>sndr := (sndr s)\<lparr>pace_credit := credit\<rparr>\<rparr>)"
    using ok by (intro link_ok_same [OF ok]) (simp_all add: queued_def link_ok_def traffic_ok_def wire_ok_def items_ok_def)
  then show ?thesis using refill by simp
next
  case (work al t1 t2 c out cts)
  then show ?thesis using work_link [OF ok b T] by simp
next
  case (acks c out cts)
  then show ?thesis using acks_link [OF ok] by simp
next
  case (timer al t t1 t2 c out cts)
  then show ?thesis using timer_link [OF ok T] by simp
next
  case (reply slot t1 t2 "from" dgram c out cts)
  then show ?thesis using reply_link [OF ok T] by simp
next
  case (deliver dgram slot t1 t2 "from" c out)
  then show ?thesis using deliver_link [OF ok b hk fit deliver(2), of F slot t1 t2 "from"] by simp
next
  case (noise dgram slot t1 t2 "from" c out)
  then have "c = rcvr s" by (simp add: worker_recv_def)
  then show ?thesis using noise kept_link [OF ok, of c] by simp
next
  case (other c)
  then show ?thesis using kept_link [OF ok] by simp
qed

lemma run_link:
  assumes "link_run h F enc dec addr s0 s" and ok: "link_ok h enc T mp s0" and T: "T < 2 ^ 63"
    and hk: "hooks_ok enc dec overhead" and fit: "mp + 10 + unat overhead \<le> 1452"
  shows "bounded s \<Longrightarrow> link_ok h enc T mp s"
  using assms(1)
proof (induction rule: link_run.induct)
  case start then show ?case using ok by simp
next
  case (step s s')
  then have "bounded s" using step_accepted bounded_before by blast
  then show ?case using step step_link [OF step.hyps(2) _ _ T hk fit] by blast
qed

lemma recv_create_ok: "rel_ok strictly P recv_create \<and> unrel_ok P' recv_create"
proof -
  have "arrays_ok recv_create" by (simp add: arrays_ok_def recv_create_def)
  moreover have "slots_ok strictly P recv_create"
    using slot_index_lt by (simp add: slots_ok_def recv_create_def Let_def)
  moreover have "in_order ch recv_create" for ch
    unfolding in_order_def by (intro exI [of _ 0] exI [of _ 0]) (simp add: channel_calls_def recv_create_def)
  ultimately show ?thesis by (simp add: rel_ok_def unrel_ok_def calls_from_def channel_calls_def recv_create_def)
qed

lemma start_link:
  assumes "unat overhead \<le> 1442"
  shows "link_ok h enc (reliable_timeout_us (reliable_create ct cm pa x)) (1442 - unat overhead)
    (link_start (yumi_udp_client_create F ct cm pa x pp overhead ia ra ua) (yumi_udp_client_create F' ct' cm' pa' x' pp' overhead' ia' ra' ua'))"
    (is "link_ok h enc ?T ?mp ?s")
proof -
  have "items_ok ?mp (sndr ?s)" using clamp_fits [OF assms, of pp] by (simp add: items_ok_def link_start_def yumi_udp_client_create_def)
  moreover have "each Q (tx (sndr ?s))" for Q
    by (simp add: each_in_def link_start_def yumi_udp_client_create_def reliable_create_def zero_entry_def)
  ultimately have "traffic_ok h enc ?T ?mp (numbered ?s) ?s"
    using recv_create_ok sender_create_ok [of ct cm pa x]
    by (simp add: traffic_ok_def wire_ok_def link_start_def yumi_udp_client_create_def sender_ok_cc)
  moreover have "counted ?s"
    unfolding counted_def by (simp add: link_start_def yumi_udp_client_create_def counter_def handed_def queued_def)
  ultimately show ?thesis by (simp add: link_ok_def)
qed

section \<open>What is delivered\<close>

lemma unat_next: "unat (g :: u32) < 2 ^ 31 \<Longrightarrow> unat (g + 1) = Suc (unat g)"
  by (simp add: unat_word_ariths)

lemma consecutive:
  fixes f :: u32
  assumes "\<And>i. i < n \<Longrightarrow> unat (f + of_nat i) < 2 ^ 31" and "i < n"
  shows "unat (f + of_nat i) = unat f + i"
  using assms(2)
proof (induction i)
  case (Suc i)
  then have i: "unat (f + of_nat i) = unat f + i" "unat f + i < 2 ^ 31" using assms(1) [of i] by simp_all
  have "f + of_nat (Suc i) = (f + of_nat i) + 1" by simp
  then have "unat (f + of_nat (Suc i)) = Suc (unat (f + of_nat i))" using i unat_next [of "f + of_nat i"] by (simp only:)
  then show ?case using i(1) by (simp only: add_Suc_right)
qed simp

lemma reliable_run:
  assumes o: "in_order ch r" and c: "calls_from True (numbered s True) r" and b: "bounded s"
  shows "\<exists>first k. first + k \<le> length (handed True ch s) \<and> map (\<lambda>c. unat (rc_seq c)) (channel_calls True ch r) = [first..<first + k]
    \<and> map rc_bytes (channel_calls True ch r) = take k (drop first (handed True ch s))"
proof -
  let ?cs = "channel_calls True ch r" and ?L = "handed True ch s"
  from o obtain f n where f: "map rc_seq ?cs = map (\<lambda>i. f + of_nat i) [0..<n]" by (auto simp: in_order_def)
  have n: "length ?cs = n" using arg_cong [OF f, of length] by simp
  have seq: "rc_seq (?cs ! i) = f + of_nat i" if "i < n" for i using arg_cong [OF f, of "\<lambda>l. l ! i"] that n by simp
  have num: "numbered s True ch (rc_seq (?cs ! i)) (rc_bytes (?cs ! i))" if "i < n" for i
  proof -
    have "?cs ! i \<in> set ?cs" using that n by simp
    then show ?thesis using c by (auto simp: channel_calls_def calls_from_def)
  qed
  have u: "unat (f + of_nat i) = unat f + i" if "i < n" for i
    using that numbered_limit [OF b num] seq by (intro consecutive) auto
  have e: "unat f + i < length ?L \<and> rc_bytes (?cs ! i) = ?L ! (unat f + i)" if "i < n" for i
    using num [OF that] u [OF that] seq [OF that] by (simp add: numbered_def)
  show ?thesis
  proof (cases "n = 0")
    case True
    then show ?thesis using n by (intro exI [of _ 0]) simp
  next
    case False
    then have "unat f + (n - 1) < length ?L" using e [of "n - 1"] by simp
    then have le: "unat f + n \<le> length ?L" using False by linarith
    have "map (\<lambda>c. unat (rc_seq c)) ?cs = [unat f..<unat f + n]" by (rule nth_equalityI) (simp_all add: n seq u)
    moreover have "map rc_bytes ?cs = take n (drop (unat f) ?L)" using le e by (intro nth_equalityI) (simp_all add: n)
    ultimately show ?thesis using le by blast
  qed
qed

lemma subseq_positions: "sorted_wrt (<) js \<Longrightarrow> \<forall>j\<in>set js. k \<le> j \<and> j < length L \<Longrightarrow> subseq (map ((!) L) js) (drop k L)"
proof (induction js arbitrary: k)
  case (Cons j js)
  then have j: "k \<le> j" "j < length L" by simp_all
  have "drop k L = take (j - k) (drop k L) @ drop j L" using j by (metis append_take_drop_id drop_drop le_add_diff_inverse2)
  moreover have "drop j L = L ! j # drop (Suc j) L" using j(2) by (rule Cons_nth_drop_Suc [symmetric])
  moreover have "subseq (map ((!) L) js) (drop (Suc j) L)" using Cons by (intro Cons.IH) (auto simp: Suc_le_eq)
  ultimately show ?case by (metis list.simps(9) subseq_Cons2 subseq_drop_many)
qed simp

lemma unreliable_run:
  assumes "unrel_ok (numbered s False) r"
  shows "subseq (map rc_bytes (channel_calls False ch r)) (handed False ch s)"
proof -
  let ?cs = "channel_calls False ch r" and ?js = "map (\<lambda>c. unat (rc_seq c)) (channel_calls False ch r)"
  have num: "numbered s False ch (rc_seq c) (rc_bytes c)" if "c \<in> set ?cs" for c
    using that assms by (auto simp: unrel_ok_def calls_from_def channel_calls_def)
  have "sorted_wrt (<) ?js" using assms by (simp add: unrel_ok_def)
  moreover have "\<forall>j\<in>set ?js. 0 \<le> j \<and> j < length (handed False ch s)" using num by (auto simp: numbered_def)
  ultimately have "subseq (map ((!) (handed False ch s)) ?js) (drop 0 (handed False ch s))" by (rule subseq_positions)
  moreover have "map rc_bytes ?cs = map ((!) (handed False ch s)) ?js" using num by (auto simp: numbered_def)
  ultimately show ?thesis by (simp only: drop_0)
qed

text \<open>
  C36.  Whatever the network does with the datagrams of a client, what it sends on a channel arrives in
  order and untouched: a reliable channel delivers, each once and with no gap, a run of consecutive
  messages of those handed over; an unreliable one delivers some of them, in their order and none
  twice.  This holds for as long as no channel has carried more than 2^31 messages.
\<close>

theorem channels_deliver_in_order:
  assumes run: "link_run h F enc dec addr (link_start (yumi_udp_client_create F ct cm pa x pp overhead ia ra ua)
      (yumi_udp_client_create F ct' cm' pa' x' pp' overhead ib rb ub)) s"
    and hooks: "hooks_ok enc dec overhead" and ct: "ct < 2 ^ 63"
    and few: "\<forall>b ch. length (handed b ch s) \<le> 2 ^ 31"
  shows "(\<exists>first k. first + k \<le> length (handed True ch s)
        \<and> map (\<lambda>c. unat (rc_seq c)) (channel_calls True ch (rx (rcvr s))) = [first..<first + k]
        \<and> map rc_bytes (channel_calls True ch (rx (rcvr s))) = take k (drop first (handed True ch s)))
    \<and> subseq (map rc_bytes (channel_calls False ch (rx (rcvr s)))) (handed False ch s)"
proof -
  have o: "unat overhead \<le> 1434" using hooks by (simp add: hooks_ok_def)
  have T: "reliable_timeout_us (reliable_create ct cm pa x) < 2 ^ 63" using ct by (simp add: reliable_create_def)
  have b: "bounded s" using few by (simp add: bounded_def)
  have "link_ok h enc (reliable_timeout_us (reliable_create ct cm pa x)) (1442 - unat overhead) s"
    using o by (intro run_link [OF run start_link T hooks _ b]) simp_all
  then have "in_order ch (rx (rcvr s))" "calls_from True (numbered s True) (rx (rcvr s))" "unrel_ok (numbered s False) (rx (rcvr s))"
    by (simp_all add: link_ok_def traffic_ok_def rel_ok_def)
  then show ?thesis using reliable_run [OF _ _ b] unreliable_run by blast
qed

text \<open>The witness: one message, in the clear, from one fresh client to another.\<close>

definition demo_client :: "unit yumi_udp_client_t" where
  "demo_client = yumi_udp_client_create demo_cc 0 0 [1] () 1442 0 False True False"

definition demo_enc :: "unit \<Rightarrow> bytes \<Rightarrow> bytes option" where
  "demo_enc n p = Some p"

definition demo_datagram :: bytes where
  "demo_datagram = [1, 0, 0, 0, 0, 0, 1, 0, 0, 0, 7]"

lemma demo_submit: "enqueue_work zero_item YUMI_WORK_SEND_RELIABLE 0 None (Some [7]) 1 demo_client =
    (0, demo_client\<lparr>send_ring := [fill_slot zero_item YUMI_WORK_SEND_RELIABLE 0 None (Some [7]) 1]\<rparr>)"
  by (simp add: enqueue_work_def demo_client_def yumi_udp_client_create_def clamp_payload_def)

lemma demo_header: "build_header True 1 0 0 1 @ [7] = demo_datagram"
  by (simp add: build_header_def mem_bytes_def le_bytes_def demo_datagram_def upt_conv_Cons)

lemma demo_work: "\<exists>c. send_worker_data True demo_cc demo_memory 1 1
    (demo_client\<lparr>send_ring := [fill_slot zero_item YUMI_WORK_SEND_RELIABLE 0 None (Some [7]) 1]\<rparr>) = Some (c, [([1], demo_datagram)])"
  using demo_header
  by (simp add: send_worker_data_def send_worker_process_item_def Let_def fill_slot_def worker_send_raw_def item_dest_def zero_item_def
      demo_client_def yumi_udp_client_create_def reliable_create_def cc_cache_update_def word_sle_eq)

lemma demo_receive: "\<exists>c. worker_recv True demo_cc Some zero_item 1 1 None demo_datagram demo_client = (c, []) \<and>
    channel_calls True 0 (rx c) = [\<lparr>rc_channel = 0, rc_data = Some [7], rc_len = 1, rc_reliable = True, rc_seq = 0\<rparr>]"
proof -
  have "channel_calls True 0 (fst (recv_reliable True 0 0 1 [7] recv_create)) = [\<lparr>rc_channel = 0, rc_data = Some [7], rc_len = 1, rc_reliable = True, rc_seq = 0\<rparr>]"
    by (simp add: recv_reliable_def Let_def recv_create_def recv_cb_def worker_reorder_drain.simps slot_index_eq channel_calls_def)
  moreover obtain r rep where "recv_reliable True 0 0 1 [7] recv_create = (r, rep)" by (cases "recv_reliable True 0 0 1 [7] recv_create")
  ultimately show ?thesis
    by (cases rep) (simp_all add: worker_recv_def demo_datagram_def Let_def demo_client_def yumi_udp_client_create_def mem_word_def)
qed

theorem channels_deliver_in_order_witness:
  "\<exists>s. link_run True demo_cc demo_enc Some [1] (link_start demo_client demo_client) s
     \<and> handed True 0 s = [[7]] \<and> map rc_bytes (channel_calls True 0 (rx (rcvr s))) = [[7]]
     \<and> subseq (map rc_bytes (channel_calls False 0 (rx (rcvr s)))) (handed False 0 s)"
proof -
  let ?i = "fill_slot zero_item YUMI_WORK_SEND_RELIABLE 0 None (Some [7]) 1"
  let ?s0 = "link_start demo_client demo_client" and ?c1 = "demo_client\<lparr>send_ring := [?i]\<rparr>"
  let ?s1 = "?s0\<lparr>sndr := ?c1, accepted := [(True, 0, [7])]\<rparr>"
  have "link_step True demo_cc demo_enc Some [1] ?s0 (?s0\<lparr>sndr := ?c1, accepted := accepted ?s0 @
      (if (0::int) = 0 then [(YUMI_WORK_SEND_RELIABLE = YUMI_WORK_SEND_RELIABLE, 0, item_content (last (send_ring ?c1)))] else [])\<rparr>)"
    by (rule link_step.submit [where slot = zero_item and len = 1 and data = "Some [7]" and dest = None])
      (simp_all add: demo_submit link_start_def slot_ready_def caller_data_def, simp add: zero_item_def)
  then have r1: "link_run True demo_cc demo_enc Some [1] ?s0 ?s1"
    using link_run.step [OF link_run.start] by (simp add: link_start_def item_content_def fill_slot_def)
  obtain c2 where c2: "send_worker_data True demo_cc demo_memory 1 1 (sndr ?s1) = Some (c2, [([1], demo_datagram)])"
    using demo_work by auto
  have "clock_runs (clock ?s1) [1, 1]" "memory_ok demo_memory" by (simp_all add: clock_runs_def link_start_def memory_ok_def demo_memory_def)
  moreover have "sent_as demo_enc [([1], demo_datagram)] [([1], demo_datagram)]"
    unfolding sent_as_def by (intro exI [of _ "[()]"]) (simp add: worker_dgram_out_def demo_enc_def)
  ultimately have r2: "link_run True demo_cc demo_enc Some [1] ?s0 (?s1\<lparr>sndr := c2, on_wire := on_wire ?s1 @ [([1], demo_datagram)], clock := 1\<rparr>)"
    (is "link_run _ _ _ _ _ _ ?s2") using link_run.step [OF r1 link_step.work [OF c2]] by blast
  obtain c3 where c3: "worker_recv True demo_cc Some zero_item 1 1 None demo_datagram (rcvr ?s2) = (c3, [])"
      "channel_calls True 0 (rx c3) = [\<lparr>rc_channel = 0, rc_data = Some [7], rc_len = 1, rc_reliable = True, rc_seq = 0\<rparr>]"
    using demo_receive by (auto simp: link_start_def)
  have "([1], demo_datagram) \<in> set (on_wire ?s2)" by simp
  then have r3: "link_run True demo_cc demo_enc Some [1] ?s0 (?s2\<lparr>rcvr := c3\<rparr>)"
    using link_run.step [OF r2 link_step.deliver [OF _ c3(1)]] by blast
  obtain s where s: "s = ?s2\<lparr>rcvr := c3\<rparr>" by simp
  have h: "handed b ch s = (if b \<and> ch = 0 then [[7]] else [])" for b ch by (simp add: s handed_def)
  have run: "link_run True demo_cc demo_enc Some [1] (link_start demo_client demo_client) s" using r3 by (simp only: s)
  have ok: "hooks_ok demo_enc Some 0" by (simp add: hooks_ok_def demo_enc_def)
  have "subseq (map rc_bytes (channel_calls False 0 (rx (rcvr s)))) (handed False 0 s)"
    using channels_deliver_in_order [OF run [unfolded demo_client_def] ok, of 0] by (simp add: h)
  moreover have "map rc_bytes (channel_calls True 0 (rx (rcvr s))) = [[7]]" by (simp add: s c3(2) rc_bytes_def)
  moreover have "handed True 0 s = [[7]]" using h [of True 0] by simp
  ultimately show ?thesis by (intro exI [of _ s] conjI run)
qed

end
