(* ===== verification/Sudp_Replay.thy ===== *)
theory Sudp_Replay imports Prelude
begin

unbundle bit_operations_syntax

text \<open>
  The anti-replay window of the secure UDP client (\<open>src/src/network/yumi_sudp_client.c\<close>): a bitmap of
  256 bits below the highest counter received.  A position is looked up with word 0 the newest and bit
  0 the newest of a word, but the shift moves words and the carry between words towards word 0, so
  what leaves word 0 is forgotten: the window remembers 64 counters.
\<close>

section \<open>The window\<close>

abbreviation (input) SUDP_REPLAY_WINDOW :: u64 where "SUDP_REPLAY_WINDOW \<equiv> 256"

record sudp_replay_t =
  max_seq :: u64
  replay_bitmap :: "u64 list"

text \<open>The client is allocated with \<open>calloc\<close>.\<close>

definition replay_create :: sudp_replay_t where
  "replay_create = \<lparr>max_seq = 0, replay_bitmap = [0, 0, 0, 0]\<rparr>"

text \<open>The two loops update the array in place, upwards.\<close>

definition shift_words :: "nat \<Rightarrow> u64 list \<Rightarrow> u64 list" where
  "shift_words word_shift b = foldl (\<lambda>b i. b[i := (if i + word_shift < 4 then b ! (i + word_shift) else 0)]) b [0, 1, 2, 3]"

definition shift_bits :: "nat \<Rightarrow> u64 list \<Rightarrow> u64 list" where
  "shift_bits bit_shift b =
     (let b' = foldl (\<lambda>b i. b[i := push_bit bit_shift (b ! i) OR drop_bit (64 - bit_shift) (b ! (i + 1))]) b [0, 1, 2]
      in b'[3 := push_bit bit_shift (b' ! 3)])"

definition replay_shift_bitmap :: "sudp_replay_t \<Rightarrow> u64 \<Rightarrow> sudp_replay_t" where
  "replay_shift_bitmap r shift =
     (if SUDP_REPLAY_WINDOW \<le> shift then r\<lparr>replay_bitmap := [0, 0, 0, 0]\<rparr>
      else let word_shift = unat (shift div 64);
               bit_shift = unat (shift mod 64);
               b1 = (if 0 < word_shift then shift_words word_shift (replay_bitmap r) else replay_bitmap r);
               b2 = (if 0 < bit_shift then shift_bits bit_shift b1 else b1)
           in r\<lparr>replay_bitmap := b2\<rparr>)"

definition sudp_replay_check :: "sudp_replay_t \<Rightarrow> u64 \<Rightarrow> bool \<times> sudp_replay_t" where
  "sudp_replay_check r seq =
     (if max_seq r < seq
      then let r1 = replay_shift_bitmap r (seq - max_seq r);
               b = replay_bitmap r1
           in (True, r1\<lparr>replay_bitmap := b[0 := b ! 0 OR 1], max_seq := seq\<rparr>)
      else let diff = max_seq r - seq in
           if SUDP_REPLAY_WINDOW \<le> diff then (False, r)
           else let w = unat (diff div 64);
                    mask = push_bit (unat (diff mod 64)) 1 :: u64;
                    b = replay_bitmap r
                in if b ! w AND mask \<noteq> 0 then (False, r)
                   else (True, r\<lparr>replay_bitmap := b[w := b ! w OR mask]\<rparr>))"

text \<open>The counters of a series of datagrams: which are accepted, and the window after them.\<close>

fun replay_run :: "sudp_replay_t \<Rightarrow> u64 list \<Rightarrow> u64 list \<times> sudp_replay_t" where
  "replay_run r [] = ([], r)"
| "replay_run r (s # ss) =
     (case sudp_replay_check r s of (ok, r1) \<Rightarrow>
      case replay_run r1 ss of (acc, r2) \<Rightarrow> (if ok then s # acc else acc, r2))"

section \<open>Positions\<close>

lemma length_shift [simp]: "length (shift_words n b) = length b" "length (shift_bits n b) = length b"
  by (simp_all add: shift_words_def shift_bits_def Let_def)

lemma four_words: "length (b :: u64 list) = 4 \<Longrightarrow> \<exists>w x y z. b = [w, x, y, z]"
  by (auto simp: numeral_eq_Suc length_Suc_conv)

lemma shift_bits_head: "length b = 4 \<Longrightarrow> shift_bits k b ! 0 = push_bit k (b ! 0) OR drop_bit (64 - k) (b ! 1)"
  using four_words [of b] by (auto simp: shift_bits_def)

lemma shift_bits_zero: "shift_bits k [w, 0, 0, 0] = [push_bit k w, 0, 0, 0]"
  by (simp add: shift_bits_def)

lemma shift_words_zero: "0 < n \<Longrightarrow> shift_words n [w, 0, 0, 0] = [0, 0, 0, 0]"
  by (auto simp: shift_words_def less_Suc_eq numeral_nat)

lemma mask_set: "b AND push_bit k 1 = 0 \<longleftrightarrow> \<not> bit b k" if "k < 64" for b :: u64
proof -
  have "b AND push_bit k 1 = (if bit b k then push_bit k 1 else 0)"
    by (rule bit_word_eqI) (use that in \<open>auto simp: bit_simps\<close>)
  moreover have "push_bit k 1 \<noteq> (0 :: u64)"
  proof
    assume z: "push_bit k 1 = (0 :: u64)"
    have "bit (push_bit k 1 :: u64) k" using that by (simp add: bit_simps)
    then show False unfolding z by simp
  qed
  ultimately show ?thesis by simp
qed

section \<open>What the window remembers\<close>

definition remembers :: "sudp_replay_t \<Rightarrow> u64 set \<Rightarrow> bool" where
  "remembers r A \<longleftrightarrow> length (replay_bitmap r) = 4
     \<and> (\<forall>s\<in>A. s \<le> max_seq r \<and> (unat (max_seq r - s) < 64 \<longrightarrow> bit (replay_bitmap r ! 0) (unat (max_seq r - s))))"

lemma length_after: "length (replay_bitmap r) = 4 \<Longrightarrow> length (replay_bitmap (replay_shift_bitmap r k)) = 4"
  by (simp add: replay_shift_bitmap_def Let_def)

lemma distance_adds: "s \<le> m \<Longrightarrow> m < n \<Longrightarrow> unat (n - s) = unat (n - m) + unat (m - s)" for s :: u64
  by (simp add: unat_sub_if' word_le_nat_alt word_less_nat_alt)

lemma shift_keeps_recent:
  assumes "length (replay_bitmap r) = 4" and "0 < unat k" and "unat k + d < 64" and "bit (replay_bitmap r ! 0) d"
  shows "bit (replay_bitmap (replay_shift_bitmap r k) ! 0) (unat k + d)"
proof -
  have k: "k < 256" "k div 64 = 0" "k mod 64 = k" using assms(3)
    by (simp_all add: word_less_nat_alt word_unat_eq_iff unat_div unat_mod)
  have "replay_bitmap (replay_shift_bitmap r k) = shift_bits (unat k) (replay_bitmap r)"
    using k(2,3) k(1) [folded not_le] assms(2) by (simp add: replay_shift_bitmap_def Let_def)
  then show ?thesis using assms by (simp add: shift_bits_head bit_simps)
qed

lemma check_remembers:
  assumes r: "remembers r A" and c: "sudp_replay_check r s = (ok, r')"
  shows "remembers r' (if ok then insert s A else A)"
proof (cases "max_seq r < s")
  case True
  let ?r1 = "replay_shift_bitmap r (s - max_seq r)"
  have c': "ok" "r' = ?r1\<lparr>replay_bitmap := (replay_bitmap ?r1)[0 := replay_bitmap ?r1 ! 0 OR 1], max_seq := s\<rparr>"
    using c True by (auto simp: sudp_replay_check_def Let_def)
  have len: "length (replay_bitmap ?r1) = 4" using r by (intro length_after) (simp add: remembers_def)
  have "a \<le> s \<and> (unat (s - a) < 64 \<longrightarrow> bit (replay_bitmap ?r1 ! 0 OR 1) (unat (s - a)))" if a: "a \<in> A" for a
  proof -
    have le: "a \<le> max_seq r" using r a by (simp add: remembers_def)
    then have u: "unat (s - a) = unat (s - max_seq r) + unat (max_seq r - a)" using True by (rule distance_adds)
    have p: "0 < unat (s - max_seq r)" using True by (simp add: unat_sub_if' word_less_nat_alt)
    have "bit (replay_bitmap ?r1 ! 0) (unat (s - a))" if "unat (s - a) < 64"
      unfolding u using r a that p by (intro shift_keeps_recent) (simp_all add: remembers_def u)
    then show ?thesis using le True by (auto simp: bit_simps)
  qed
  moreover have "bit (replay_bitmap ?r1 ! 0 OR 1) 0" by (simp add: bit_simps)
  ultimately show ?thesis using len c' by (simp add: remembers_def)
next
  case False
  show ?thesis
  proof (cases "ok")
    case ok: True
    let ?d = "max_seq r - s"
    let ?w = "unat (?d div 64)"
    let ?m = "push_bit (unat (?d mod 64)) 1 :: u64"
    have r': "r' = r\<lparr>replay_bitmap := (replay_bitmap r)[?w := replay_bitmap r ! ?w OR ?m]\<rparr>"
      using c False ok by (auto simp: sudp_replay_check_def Let_def split: if_splits)
    have len: "length (replay_bitmap r) = 4" using r by (simp add: remembers_def)
    have old: "bit (replay_bitmap r' ! 0) n" if "bit (replay_bitmap r ! 0) n" for n
      using that len unfolding r' by (cases "?w = 0") (simp_all add: bit_simps)
    have new: "bit (replay_bitmap r' ! 0) (unat ?d)" if "unat ?d < 64"
    proof -
      have "?w = 0" "unat (?d mod 64) = unat ?d" using that by (simp_all add: unat_div unat_mod)
      then show ?thesis unfolding r' using len that by (simp add: bit_simps)
    qed
    have "s \<le> max_seq r" using False by simp
    then show ?thesis using r old new len ok unfolding remembers_def by (auto simp: r')
  next
    case no: False
    then have "r' = r" using c False by (auto simp: sudp_replay_check_def Let_def split: if_splits)
    then show ?thesis using r no by simp
  qed
qed

lemma run_remembers: "remembers r A \<Longrightarrow> replay_run r ss = (acc, r') \<Longrightarrow> remembers r' (A \<union> set acc)"
proof (induction ss arbitrary: r A acc r')
  case (Cons s ss)
  obtain ok r1 where c: "sudp_replay_check r s = (ok, r1)" by (cases "sudp_replay_check r s")
  obtain acc1 r2 where n: "replay_run r1 ss = (acc1, r2)" by (cases "replay_run r1 ss")
  have a: "acc = (if ok then s # acc1 else acc1)" "r' = r2" using Cons.prems(2) c n by (auto split: if_splits)
  have "remembers r2 ((if ok then insert s A else A) \<union> set acc1)" using Cons.IH [OF check_remembers [OF Cons.prems(1) c] n] .
  then show ?case using a by (cases ok) (simp_all add: insert_commute)
qed simp

text \<open>
  C39.  Replays that come soon are refused: whatever datagrams have arrived before, a counter that was
  accepted is not accepted again while it is less than 64 below the highest one.
\<close>

theorem recent_replays_are_refused:
  assumes "replay_run replay_create ss = (acc, r)" and "s \<in> set acc" and "unat (max_seq r - s) < 64"
  shows "\<not> fst (sudp_replay_check r s)"
proof -
  have "remembers replay_create {}" by (simp add: remembers_def replay_create_def)
  from run_remembers [OF this assms(1)] have m: "remembers r (set acc)" by simp
  let ?d = "max_seq r - s"
  have d: "unat (?d div 64) = 0" "unat (?d mod 64) = unat ?d" "\<not> 256 \<le> ?d" using assms(3)
    by (simp_all add: unat_div unat_mod word_le_nat_alt)
  have "bit (replay_bitmap r ! 0) (unat ?d)" "\<not> max_seq r < s" using m assms(2,3) by (auto simp: remembers_def)
  then show ?thesis using d assms(3) mask_set [of "unat ?d" "replay_bitmap r ! 0"] by (simp add: sudp_replay_check_def Let_def)
qed

theorem recent_replays_are_refused_witness:
  "replay_run replay_create [5, 7, 5, 6] = ([5, 7, 6], snd (replay_run replay_create [5, 7, 5, 6]))
   \<and> \<not> fst (sudp_replay_check (snd (replay_run replay_create [5, 7, 5, 6])) 5)"
proof -
  have r: "replay_run replay_create [5, 7, 5, 6] = ([5, 7, 6], snd (replay_run replay_create [5, 7, 5, 6]))"
    "max_seq (snd (replay_run replay_create [5, 7, 5, 6])) = 7"
    by (simp_all add: replay_create_def sudp_replay_check_def replay_shift_bitmap_def shift_bits_def Let_def word_le_nat_alt)
  then show ?thesis using recent_replays_are_refused [OF r(1), of 5] by simp
qed

section \<open>What it forgets\<close>

definition newest_only :: "sudp_replay_t \<Rightarrow> bool" where
  "newest_only r \<longleftrightarrow> (\<exists>w. replay_bitmap r = [w, 0, 0, 0])"

lemma newer_accepted:
  assumes "newest_only r" and "max_seq r < s"
  obtains r' where "sudp_replay_check r s = (True, r')" "newest_only r'" "max_seq r' = s"
proof -
  obtain w where w: "replay_bitmap r = [w, 0, 0, 0]" using assms(1) by (auto simp: newest_only_def)
  have "\<exists>w'. replay_bitmap (replay_shift_bitmap r (s - max_seq r)) = [w', 0, 0, 0]"
    by (auto simp: replay_shift_bitmap_def Let_def w shift_words_zero shift_bits_zero)
  then show ?thesis using assms(2) that by (auto simp: sudp_replay_check_def Let_def newest_only_def)
qed

lemma rising_run:
  "newest_only r \<Longrightarrow> max_seq r < hd ss \<or> ss = [] \<Longrightarrow> sorted_wrt (<) ss \<Longrightarrow>
   \<exists>r'. replay_run r ss = (ss, r') \<and> newest_only r' \<and> max_seq r' = last (max_seq r # ss)"
proof (induction ss arbitrary: r)
  case (Cons s ss)
  obtain r1 where r1: "sudp_replay_check r s = (True, r1)" "newest_only r1" "max_seq r1 = s"
    using newer_accepted [of r s] Cons.prems by auto
  have "max_seq r1 < hd ss \<or> ss = []" using Cons.prems(3) r1(3) by (cases ss) auto
  then obtain r' where "replay_run r1 ss = (ss, r')" "newest_only r'" "max_seq r' = last (max_seq r1 # ss)"
    using Cons.IH [OF r1(2)] Cons.prems(3) by auto
  then show ?case using r1 by simp
qed simp

text \<open>
  Older ones are not, though the window is meant to hold 256 counters: when datagrams have
  arrived in order, each of them is accepted a second time exactly when it is at least 64 and less than
  256 below the highest one.
\<close>

theorem older_replays_are_accepted:
  assumes "sorted_wrt (<) ss" and "0 < hd ss" and "s \<in> set ss"
  shows "fst (replay_run replay_create ss) = ss
    \<and> (fst (sudp_replay_check (snd (replay_run replay_create ss)) s) \<longleftrightarrow> 64 \<le> unat (last ss - s) \<and> unat (last ss - s) < 256)"
proof -
  have "newest_only replay_create" by (simp add: newest_only_def replay_create_def)
  moreover have "max_seq replay_create < hd ss" using assms(2) by (simp add: replay_create_def)
  ultimately obtain r where r: "replay_run replay_create ss = (ss, r)" "newest_only r" "max_seq r = last (max_seq replay_create # ss)"
    using rising_run [of replay_create ss] assms(1) by blast
  have ne: "ss \<noteq> []" using assms(3) by auto
  then have m: "max_seq r = last ss" using r(3) by simp
  let ?d = "last ss - s"
  have le: "\<not> last ss < s"
  proof -
    have "s \<le> last ss" using assms(1,3) ne
      by (metis append_butlast_last_id insert_iff less_imp_le list.set(1) list.set(2) order_refl set_append Un_iff sorted_wrt_append list.set_intros(1) empty_iff)
    then show ?thesis by simp
  qed
  obtain w where w: "replay_bitmap r = [w, 0, 0, 0]" using r(2) by (auto simp: newest_only_def)
  show ?thesis
  proof (cases "unat ?d < 64")
    case True
    then have "\<not> fst (sudp_replay_check r s)"
    proof -
      have "remembers replay_create {}" by (simp add: remembers_def replay_create_def)
      from run_remembers [OF this r(1)] have mem: "remembers r (set ss)" by simp
      have d: "unat (?d div 64) = 0" "unat (?d mod 64) = unat ?d" "\<not> 256 \<le> ?d" using True
        by (simp_all add: unat_div unat_mod word_le_nat_alt)
      have "bit (replay_bitmap r ! 0) (unat ?d)" using mem assms(3) True by (auto simp: remembers_def m)
      then show ?thesis using d le True mask_set [of "unat ?d" "replay_bitmap r ! 0"] by (simp add: sudp_replay_check_def Let_def m)
    qed
    then show ?thesis using r(1) True by simp
  next
    case False
    have "unat (?d div 64) = unat ?d div 64" by (simp add: unat_div)
    moreover have "[w, 0, 0, 0] ! n = 0" if "0 < n" "n < 4" for n using that by (auto simp: less_Suc_eq numeral_nat)
    ultimately have "fst (sudp_replay_check r s) \<longleftrightarrow> unat ?d < 256"
      using False le by (auto simp: sudp_replay_check_def Let_def m w word_le_nat_alt)
    then show ?thesis using r(1) False by simp
  qed
qed

theorem older_replays_are_accepted_witness:
  "sudp_replay_check (snd (replay_run replay_create [1, 65])) 1 = (True, snd (sudp_replay_check (snd (replay_run replay_create [1, 65])) 1))"
  using older_replays_are_accepted [of "[1, 65]" 1] by (simp add: prod_eq_iff)

end
