(* ===== verification/Sudp_Fragments.thy ===== *)
theory Sudp_Fragments imports Udp_Delivery
begin

unbundle bit_operations_syntax

text \<open>
  How the secure UDP client cuts a handshake message into reliable datagrams and puts it together again
  (\<open>src/src/network/yumi_sudp_client.c\<close>).
\<close>

section \<open>Sending\<close>

abbreviation (input) SUDP_HS_FRAG_HDR :: nat where "SUDP_HS_FRAG_HDR \<equiv> 8"
abbreviation (input) SUDP_HS_BUF_MAX :: nat where "SUDP_HS_BUF_MAX \<equiv> 49152"

definition yumi_udp_client_get_max_payload :: "'cc yumi_udp_client_t \<Rightarrow> u32" where
  "yumi_udp_client_get_max_payload u = max_payload u"

text \<open>The packet: no epoch (the mark of the handshake), type, number of fragments, index, and a reserved byte.\<close>

definition frag_packet :: "byte \<Rightarrow> byte \<Rightarrow> byte \<Rightarrow> bytes \<Rightarrow> bytes" where
  "frag_packet msg_type nfrag index chunk = [0, 0, 0, 0, msg_type, nfrag, index, 0] @ chunk"

definition frag_chunk :: "nat \<Rightarrow> bytes \<Rightarrow> nat \<Rightarrow> bytes" where
  "frag_chunk frag_data_max data i = take frag_data_max (drop (i * frag_data_max) data)"

text \<open>\<open>cell i\<close> is what the cell of the ring holds that the \<open>i\<close>-th datagram is put into.\<close>

fun frag_loop :: "(nat \<Rightarrow> yumi_work_item_t) \<Rightarrow> byte \<Rightarrow> u32 \<Rightarrow> nat \<Rightarrow> bytes \<Rightarrow> nat list
    \<Rightarrow> 'cc yumi_udp_client_t \<Rightarrow> int \<times> 'cc yumi_udp_client_t" where
  "frag_loop cell msg_type nfrag fmax data [] u = (0, u)"
| "frag_loop cell msg_type nfrag fmax data (i # is) u =
     (let chunk = frag_chunk fmax data i in
      case yumi_udp_client_send_reliable (cell i) (Some (frag_packet msg_type (ucast nfrag) (of_nat i) chunk))
             (of_nat (SUDP_HS_FRAG_HDR + length chunk)) u of
        (r, u') \<Rightarrow> if r \<noteq> 0 then (-1, u') else frag_loop cell msg_type nfrag fmax data is u')"

definition sudp_frag_send :: "bool \<Rightarrow> (nat \<Rightarrow> yumi_work_item_t) \<Rightarrow> byte \<Rightarrow> bytes
    \<Rightarrow> 'cc yumi_udp_client_t \<Rightarrow> int \<times> 'cc yumi_udp_client_t" where
  "sudp_frag_send malloc_ok cell msg_type data u =
     (let inner_max = unat (yumi_udp_client_get_max_payload u) in
      if inner_max \<le> SUDP_HS_FRAG_HDR then (-1, u)
      else let fmax = inner_max - SUDP_HS_FRAG_HDR;
               nfrag = of_nat ((length data + fmax - 1) div fmax) :: u32
           in if 255 < nfrag \<or> nfrag = 0 then (-1, u)
              else if \<not> malloc_ok then (-1, u)
              else frag_loop cell msg_type nfrag fmax data [0..<unat nfrag] u)"

section \<open>Receiving\<close>

record frag_state =
  frags :: "bytes option list"
  frag_total :: byte
  frag_received :: byte
  frag_start_us :: u64

definition frag_create :: frag_state where
  "frag_create = \<lparr>frags = replicate 256 None, frag_total = 0, frag_received = 0, frag_start_us = 0\<rparr>"

definition hs_reasm_reset :: "frag_state \<Rightarrow> frag_state" where
  "hs_reasm_reset h = h\<lparr>frags := replicate 256 None, frag_total := 0, frag_received := 0\<rparr>"

definition joined :: "frag_state \<Rightarrow> bytes" where
  "joined h = concat (map (\<lambda>i. case frags h ! i of None \<Rightarrow> [] | Some d \<Rightarrow> d) [0..<unat (frag_total h)])"

text \<open>\<open>now1\<close> and \<open>now2\<close> are the readings of the clock, the flags the answers of the two calls of \<open>malloc\<close>.\<close>

definition frag_store :: "bool \<Rightarrow> bool \<Rightarrow> byte \<Rightarrow> bytes \<Rightarrow> frag_state \<Rightarrow> bytes option \<times> frag_state" where
  "frag_store malloc_frag malloc_msg index chunk h =
     (if frags h ! unat index \<noteq> None then (None, h)
      else if SUDP_HS_BUF_MAX < length chunk then (None, h)
      else if \<not> malloc_frag then (None, h)
      else let h1 = h\<lparr>frags := (frags h)[unat index := Some chunk], frag_received := frag_received h + 1\<rparr> in
           if frag_received h1 < frag_total h1 then (None, h1)
           else if SUDP_HS_BUF_MAX < length (joined h1) then (None, hs_reasm_reset h1)
           else if \<not> malloc_msg then (None, hs_reasm_reset h1)
           else (Some (joined h1), hs_reasm_reset h1))"

definition sudp_frag_receive :: "bool \<Rightarrow> bool \<Rightarrow> u64 \<Rightarrow> u64 \<Rightarrow> bytes \<Rightarrow> frag_state \<Rightarrow> bytes option \<times> frag_state" where
  "sudp_frag_receive malloc_frag malloc_msg now1 now2 data h =
     (if length data < SUDP_HS_FRAG_HDR then (None, h)
      else let nfrag = data ! 5; index = data ! 6 in
        if nfrag = 0 \<or> nfrag \<le> index then (None, h)
        else if frag_total h \<noteq> 0 \<and> nfrag \<noteq> frag_total h then (None, h)
        else let h1 = (if frag_total h = 0 then h\<lparr>frag_total := nfrag, frag_start_us := now1\<rparr> else h) in
             if frag_start_us h1 \<noteq> 0 \<and> 5 * 1000000 < now2 - frag_start_us h1
             then (None, (hs_reasm_reset h1)\<lparr>frag_start_us := 0\<rparr>)
             else frag_store malloc_frag malloc_msg index (drop SUDP_HS_FRAG_HDR data) h1)"

section \<open>What is sent\<close>

abbreviation frag_of :: "byte \<Rightarrow> u32 \<Rightarrow> nat \<Rightarrow> bytes \<Rightarrow> nat \<Rightarrow> bytes" where
  "frag_of mt nfrag fmax data i \<equiv> frag_packet mt (ucast nfrag) (of_nat i) (frag_chunk fmax data i)"

lemma length_chunk: "length (frag_chunk fmax data i) \<le> fmax"
  by (simp add: frag_chunk_def)

lemma enqueue_content:
  assumes "enqueue_work slot type ch dest (Some d) (of_nat (length d)) u = (r, u')" and "length d < 2 ^ 32"
  shows "if unat (max_payload u) < length d \<or> YUMI_RING_CAPACITY \<le> length (send_ring u) then r = -1 \<and> u' = u
    else r = 0 \<and> (\<exists>item. u' = u\<lparr>send_ring := send_ring u @ [item]\<rparr> \<and> item_content item = d \<and> wi_type item = type
           \<and> wi_channel item = ch \<and> wi_has_dest item = (dest \<noteq> None))"
  using assms unat_small [of "length d"]
  by (auto simp: enqueue_work_def item_content_def fill_slot_def word_less_nat_alt split: if_splits)

lemma frag_loop_queues:
  "frag_loop cell mt nfrag fmax data is u = (r, u') \<Longrightarrow> fmax < 2 ^ 31 \<Longrightarrow>
   \<exists>items. u' = u\<lparr>send_ring := send_ring u @ items\<rparr> \<and> (r = 0 \<longrightarrow> map item_content items = map (frag_of mt nfrag fmax data) is)
     \<and> (\<forall>item\<in>set items. wi_type item = YUMI_WORK_SEND_RELIABLE \<and> wi_channel item = 0 \<and> \<not> wi_has_dest item)
     \<and> (fmax + 8 \<le> unat (max_payload u) \<and> length (send_ring u) + length is \<le> YUMI_RING_CAPACITY \<longrightarrow> r = 0)"
proof (induction "is" arbitrary: u)
  case (Cons i "is")
  let ?d = "frag_of mt nfrag fmax data i"
  have l: "length ?d = 8 + length (frag_chunk fmax data i)" by (simp add: frag_packet_def)
  then have l32: "length ?d < 2 ^ 32" and lm: "length ?d \<le> fmax + 8" using length_chunk [of fmax data i] Cons.prems(2) by simp_all
  obtain r1 u1 where e: "enqueue_work (cell i) YUMI_WORK_SEND_RELIABLE 0 None (Some ?d) (of_nat (length ?d)) u = (r1, u1)"
    by (cases "enqueue_work (cell i) YUMI_WORK_SEND_RELIABLE 0 None (Some ?d) (of_nat (length ?d)) u")
  have step: "frag_loop cell mt nfrag fmax data (i # is) u = (if r1 \<noteq> 0 then (-1, u1) else frag_loop cell mt nfrag fmax data is u1)"
    using e unfolding l by (simp add: yumi_udp_client_send_reliable_def Let_def)
  note c = enqueue_content [OF e l32]
  show ?case
  proof (cases "unat (max_payload u) < length ?d \<or> YUMI_RING_CAPACITY \<le> length (send_ring u)")
    case True
    then have "r1 = -1" "u1 = u" using c by simp_all
    then have "r = -1" "u' = u" using Cons.prems(1) unfolding step by simp_all
    then show ?thesis using True lm by (intro exI [of _ "[]"]) auto
  next
    case False
    then obtain item where it: "r1 = 0" "u1 = u\<lparr>send_ring := send_ring u @ [item]\<rparr>" "item_content item = ?d"
        "wi_type item = YUMI_WORK_SEND_RELIABLE" "wi_channel item = 0" "\<not> wi_has_dest item" using c by auto
    have "frag_loop cell mt nfrag fmax data is u1 = (r, u')" using Cons.prems(1) it(1) unfolding step by simp
    from Cons.IH [OF this Cons.prems(2)] obtain items where
      i: "u' = u1\<lparr>send_ring := send_ring u1 @ items\<rparr>" "r = 0 \<longrightarrow> map item_content items = map (frag_of mt nfrag fmax data) is"
        "\<forall>item\<in>set items. wi_type item = YUMI_WORK_SEND_RELIABLE \<and> wi_channel item = 0 \<and> \<not> wi_has_dest item"
        "fmax + 8 \<le> unat (max_payload u1) \<and> length (send_ring u1) + length is \<le> YUMI_RING_CAPACITY \<longrightarrow> r = 0" by blast
    then show ?thesis using it by (intro exI [of _ "item # items"]) auto
  qed
qed auto

definition frag_count :: "nat \<Rightarrow> bytes \<Rightarrow> nat" where
  "frag_count fmax data = (length data + fmax - 1) div fmax"

lemma frag_count_covers: "0 < fmax \<Longrightarrow> length data \<le> frag_count fmax data * fmax"
proof -
  assume f: "0 < fmax"
  have "length data + fmax - 1 < ((length data + fmax - 1) div fmax + 1) * fmax" using f by (simp add: dividend_less_div_times)
  then show ?thesis using f by (simp add: frag_count_def)
qed

lemma chunks_join: "concat (map (frag_chunk fmax data) [0..<n]) = take (n * fmax) data"
proof (induction n)
  case (Suc n)
  have "take (Suc n * fmax) data = take (n * fmax) data @ take fmax (drop (n * fmax) data)"
    using take_add [of "n * fmax" fmax data] by (simp add: add.commute)
  then show ?case using Suc by (simp add: frag_chunk_def)
qed simp

text \<open>A message of moderate length is sent when the queue has room.\<close>

lemma frag_send_queues:
  assumes s: "sudp_frag_send True cell mt data u = (r, u')" and big: "length data < 2 ^ 31"
    and m: "8 < unat (max_payload u)" "unat (max_payload u) < 2 ^ 31"
    and n: "frag_count (unat (max_payload u) - 8) data \<le> 255" "data \<noteq> []"
  defines "fmax \<equiv> unat (max_payload u) - 8" 
  shows "\<exists>items. u' = u\<lparr>send_ring := send_ring u @ items\<rparr>
     \<and> (r = 0 \<longrightarrow> map item_content items = map (frag_of mt (of_nat (frag_count fmax data)) fmax data) [0..<frag_count fmax data])
     \<and> (\<forall>item\<in>set items. wi_type item = YUMI_WORK_SEND_RELIABLE \<and> wi_channel item = 0 \<and> \<not> wi_has_dest item)
     \<and> (length (send_ring u) + frag_count fmax data \<le> YUMI_RING_CAPACITY \<longrightarrow> r = 0)"
proof -
  let ?n = "frag_count fmax data"
  have f: "0 < fmax" "fmax < 2 ^ 31" using m by (simp_all add: fmax_def)
  have un: "unat (of_nat ?n :: u32) = ?n" using n(1) by (intro unat_small) (simp add: fmax_def)
  have pos: "0 < ?n" using n(2) f by (cases data) (simp_all add: frag_count_def div_greater_zero_iff)
  have "\<not> 255 < (of_nat ?n :: u32)" "(of_nat ?n :: u32) \<noteq> 0" using un n(1) pos by (auto simp: word_less_nat_alt fmax_def)
  then have "frag_loop cell mt (of_nat ?n) fmax data [0..<?n] u = (r, u')"
    using s m(1) un unfolding sudp_frag_send_def yumi_udp_client_get_max_payload_def Let_def fmax_def [symmetric] frag_count_def [symmetric] by simp
  from frag_loop_queues [OF this f(2)] show ?thesis using m(1) by (simp add: fmax_def)
qed

section \<open>What is put together\<close>

text \<open>Some of the fragments of a message have arrived, the first when the clock read \<open>start\<close>.\<close>

definition collecting :: "nat \<Rightarrow> nat \<Rightarrow> bytes \<Rightarrow> nat set \<Rightarrow> u64 \<Rightarrow> frag_state \<Rightarrow> bool" where
  "collecting n fmax data I start h \<longleftrightarrow> frags h = map (\<lambda>i. if i \<in> I then Some (frag_chunk fmax data i) else None) [0..<256]
     \<and> I \<subseteq> {0..<n} \<and> unat (frag_received h) = card I \<and> (if I = {} then frag_total h = 0 else frag_total h = of_nat n \<and> frag_start_us h = start)"

lemma frag_fields:
  assumes "i < n" and "n \<le> 255"
  shows "length (frag_packet mt (ucast (of_nat n :: u32)) (of_nat i) c) = 8 + length c"
    and "frag_packet mt (ucast (of_nat n :: u32)) (of_nat i) c ! 5 = of_nat n"
    and "frag_packet mt (ucast (of_nat n :: u32)) (of_nat i) c ! 6 = of_nat i"
    and "drop 8 (frag_packet mt (ucast (of_nat n :: u32)) (of_nat i) c) = c"
    and "unat (of_nat i :: byte) = i" and "unat (of_nat n :: byte) = n"
proof -
  have "ucast (of_nat n :: u32) = (of_nat n :: byte)"
    by (rule word_unat_eq_iff [THEN iffD2]) (use assms in \<open>simp add: unsigned_ucast_eq unsigned_of_nat take_bit_eq_mod\<close>)
  then show "frag_packet mt (ucast (of_nat n :: u32)) (of_nat i) c ! 5 = of_nat n" by (simp add: frag_packet_def)
qed (use assms in \<open>simp_all add: frag_packet_def unsigned_of_nat take_bit_eq_mod\<close>)

lemma joined_all: "length data \<le> n * fmax \<Longrightarrow> n \<le> 255 \<Longrightarrow> frags h = map (\<lambda>i. if i \<in> {0..<n} then Some (frag_chunk fmax data i) else None) [0..<256] \<Longrightarrow>
    unat (frag_total h) = n \<Longrightarrow> joined h = data"
proof -
  assume a: "length data \<le> n * fmax" "n \<le> 255" "frags h = map (\<lambda>i. if i \<in> {0..<n} then Some (frag_chunk fmax data i) else None) [0..<256]" "unat (frag_total h) = n"
  have "joined h = concat (map (frag_chunk fmax data) [0..<n])" unfolding joined_def a(4) a(3)
    using a(2) by (intro arg_cong [of _ _ concat] map_cong) auto
  then show "joined h = data" using a(1) by (simp add: chunks_join)
qed

lemma receive_one:
  assumes h: "collecting n fmax data I start h" and i: "i < n" and n: "n \<le> 255"
    and all: "I \<noteq> {0..<n}" and t: "now2 - (if I = {} then now1 else start) \<le> 5 * 1000000" and data: "length data \<le> n * fmax" "length data \<le> SUDP_HS_BUF_MAX"
    and r: "sudp_frag_receive True True now1 now2 (frag_of mt (of_nat n) fmax data i) h = (res, h')"
  shows "if insert i I = {0..<n} then res = Some data \<and> h' = (hs_reasm_reset h)\<lparr>frag_start_us := (if I = {} then now1 else start)\<rparr>
    else res = None \<and> collecting n fmax data (insert i I) (if I = {} then now1 else start) h'"
proof -
  define st where "st = (if I = {} then now1 else start)"
  note ff = frag_fields [OF i n]
  have fr: "frags h = map (\<lambda>i. if i \<in> I then Some (frag_chunk fmax data i) else None) [0..<256]" and sub: "I \<subseteq> {0..<n}"
    and rec: "unat (frag_received h) = card I" and tot: "if I = {} then frag_total h = 0 else frag_total h = of_nat n \<and> frag_start_us h = start"
    using h by (simp_all add: collecting_def)
  let ?h1 = "h\<lparr>frag_total := of_nat n, frag_start_us := st\<rparr>"
  have n0: "(of_nat n :: byte) \<noteq> 0" using ff(6) i by (auto simp: word_unat_eq_iff)
  have h1: "(if frag_total h = 0 then h\<lparr>frag_total := of_nat n, frag_start_us := now1\<rparr> else h) = ?h1" using tot n0 by (auto simp: st_def)
  have "\<not> (of_nat n :: byte) \<le> of_nat i" using ff(5,6) i by (simp add: word_le_nat_alt)
  moreover have "\<not> (frag_total h \<noteq> 0 \<and> of_nat n \<noteq> frag_total h)" using tot by (auto split: if_splits)
  moreover have "\<not> (st \<noteq> 0 \<and> 5 * 1000000 < now2 - st)" using t by (auto simp: not_less st_def)
  ultimately have step: "(res, h') = frag_store True True (of_nat i) (frag_chunk fmax data i) ?h1"
    using r n0 ff(1) unfolding sudp_frag_receive_def Let_def ff(2,3,4) h1 by (auto split: if_splits)
  have at: "frags ?h1 ! unat (of_nat i :: byte) = (if i \<in> I then Some (frag_chunk fmax data i) else None)"
    using fr ff(5) i n by simp
  show ?thesis
  proof (cases "i \<in> I")
    case True
    then have "res = None" "h' = ?h1" using step at by (auto simp: frag_store_def)
    moreover have "?h1 = h" using tot True by (auto simp: st_def)
    moreover have "insert i I = I" "I \<noteq> {}" using True by auto
    ultimately show ?thesis using all h True by (simp add: st_def)
  next
    case False
    let ?I = "insert i I"
    let ?h2 = "?h1\<lparr>frags := (frags h)[i := Some (frag_chunk fmax data i)], frag_received := frag_received h + 1\<rparr>"
    have fin: "finite I" using sub finite_subset by blast
    have card: "card ?I = Suc (card I)" using False fin by simp
    have subI: "?I \<subseteq> {0..<n}" using sub i by auto
    have cn: "card ?I \<le> n" using card_mono [OF _ subI] by simp
    then have rec2: "unat (frag_received h + 1) = card ?I" using rec card n by (simp add: unat_word_ariths)
    have fr2: "frags ?h2 = map (\<lambda>i. if i \<in> ?I then Some (frag_chunk fmax data i) else None) [0..<256]"
      using fr i n by (auto intro!: nth_equalityI simp: nth_list_update)
    have "length (frag_chunk fmax data i) \<le> SUDP_HS_BUF_MAX" using data(2) by (simp add: frag_chunk_def)
    then have fin2: "(res, h') = (if frag_received ?h2 < frag_total ?h2 then (None, ?h2)
        else if SUDP_HS_BUF_MAX < length (joined ?h2) then (None, hs_reasm_reset ?h2) else (Some (joined ?h2), hs_reasm_reset ?h2))"
      using step at False ff(5) unfolding frag_store_def Let_def by simp
    have full: "card ?I = n \<longleftrightarrow> ?I = {0..<n}" using card_subset_eq [OF _ subI] by auto
    show ?thesis
    proof (cases "?I = {0..<n}")
      case True
      then have "\<not> frag_received ?h2 < frag_total ?h2" using rec2 full ff(6) by (simp add: word_less_nat_alt)
      moreover have "joined ?h2 = data" using fr2 ff(6) unfolding True by (intro joined_all [OF data(1) n]) simp_all
      ultimately show ?thesis using fin2 data(2) True by (simp add: hs_reasm_reset_def st_def)
    next
      case no: False
      then have "frag_received ?h2 < frag_total ?h2" using rec2 full ff(6) cn by (simp add: word_less_nat_alt)
      then have "res = None" "h' = ?h2" using fin2 by simp_all
      then show ?thesis using no fr2 rec2 subI by (simp add: collecting_def st_def)
    qed
  qed
qed

text \<open>A series of packets, each with the two readings of the clock: what each gives.\<close>

fun frag_run :: "frag_state \<Rightarrow> (bytes \<times> u64 \<times> u64) list \<Rightarrow> bytes option list \<times> frag_state" where
  "frag_run h [] = ([], h)"
| "frag_run h ((p, now1, now2) # ps) =
     (case sudp_frag_receive True True now1 now2 p h of (res, h1) \<Rightarrow>
      case frag_run h1 ps of (rs, h2) \<Rightarrow> (res # rs, h2))"

lemma map_butlast: "set (map f (butlast xs)) \<subseteq> set (map f xs)"
  unfolding set_map by (intro image_mono subsetI) (rule in_set_butlastD)

lemma frag_run_collects:
  assumes n: "n \<le> 255" and data: "length data \<le> n * fmax" "length data \<le> SUDP_HS_BUF_MAX"
  shows "collecting n fmax data I start h \<Longrightarrow> arr \<noteq> [] \<Longrightarrow> \<forall>(p, t1, t2)\<in>set arr. \<exists>i<n. frag_of mt (of_nat n) fmax data i = p \<and> idx p = i \<Longrightarrow>
     \<forall>(p, t1, t2)\<in>set arr. t2 - (if I = {} then fst (snd (hd arr)) else start) \<le> 5 * 1000000 \<Longrightarrow>
     I \<union> set (map (\<lambda>(p, t). idx p) (butlast arr)) \<noteq> {0..<n} \<Longrightarrow> I \<union> set (map (\<lambda>(p, t). idx p) arr) = {0..<n} \<Longrightarrow>
     fst (frag_run h arr) = replicate (length arr - 1) None @ [Some data]"
proof (induction arr arbitrary: I start h)
  case (Cons a arr)
  obtain p t1 t2 where a: "a = (p, t1, t2)" by (cases a)
  from Cons.prems(3) obtain i where i: "i < n" "frag_of mt (of_nat n) fmax data i = p" "idx p = i" unfolding a by auto
  obtain res h1 where r: "sudp_frag_receive True True t1 t2 p h = (res, h1)" by (cases "sudp_frag_receive True True t1 t2 p h")
  let ?start = "if I = {} then t1 else start"
  have nI: "I \<noteq> {0..<n}"
  proof
    assume "I = {0..<n}"
    then show False using Cons.prems(5,6) map_butlast [of "\<lambda>(p, t). idx p" "a # arr"] by blast
  qed
  have t: "t2 - ?start \<le> 5 * 1000000" using Cons.prems(4) a by (cases "I = {}") auto
  note one = receive_one [OF Cons.prems(1) i(1) n nI t data r [folded i(2)]]
  show ?case
  proof (cases "arr = []")
    case True
    then have "insert i I = {0..<n}" using Cons.prems(6) i(3) by (auto simp: a)
    then show ?thesis using one r True by (simp add: a)
  next
    case False
    let ?A = "set (map (\<lambda>(p, t). idx p) arr)" and ?B = "set (map (\<lambda>(p, t). idx p) (butlast arr))"
    have "I \<union> insert i ?B \<noteq> {0..<n}" "I \<union> insert i ?A = {0..<n}" using Cons.prems(5,6) False i(3) by (simp_all add: a)
    then have "insert i I \<noteq> {0..<n}" using map_butlast [of "\<lambda>(p, t). idx p" arr] by blast
    then have c: "res = None" "collecting n fmax data (insert i I) ?start h1" using one by simp_all
    have "fst (frag_run h1 arr) = replicate (length arr - 1) None @ [Some data]"
    proof (rule Cons.IH [OF c(2) False])
      show "\<forall>(p, t1, t2)\<in>set arr. t2 - (if insert i I = {} then fst (snd (hd arr)) else ?start) \<le> 5 * 1000000"
        using Cons.prems(4) by (cases "I = {}") (simp_all add: a)
      show "insert i I \<union> ?B \<noteq> {0..<n}" "insert i I \<union> ?A = {0..<n}"
        using \<open>I \<union> insert i ?B \<noteq> {0..<n}\<close> \<open>I \<union> insert i ?A = {0..<n}\<close> by simp_all
    qed (use Cons.prems(3) in simp)
    then show ?thesis using r c(1) False by (cases arr) (auto simp: a split: prod.splits)
  qed
qed simp

text \<open>
  C40.  A handshake message that was queued is put together again from its datagrams in whatever order
  they come and however often, by the one that completes it, if that is within five seconds of the
  first.
\<close>

theorem fragments_reassemble:
  assumes sent: "sudp_frag_send True cell mt data u = (0, u')" and size: "length data \<le> SUDP_HS_BUF_MAX" "unat (max_payload u) < 2 ^ 31"
    and ps: "ps = map item_content (drop (length (send_ring u)) (send_ring u'))"
    and all: "set (map fst arr) = set ps" and not_yet: "set (map fst (butlast arr)) \<noteq> set ps"
    and soon: "\<forall>(p, t1, t2)\<in>set arr. t2 - fst (snd (hd arr)) \<le> 5 * 1000000"
  shows "fst (frag_run frag_create arr) = replicate (length arr - 1) None @ [Some data]"
proof -
  let ?fmax = "unat (max_payload u) - 8"
  let ?n = "frag_count ?fmax data"
  let ?idx = "\<lambda>p :: bytes. unat (p ! 6)"
  have m: "8 < unat (max_payload u)" using sent by (auto simp: sudp_frag_send_def yumi_udp_client_get_max_payload_def Let_def split: if_splits)
  have "?n \<le> length data + ?fmax" using div_le_dividend [of "length data + ?fmax - 1" ?fmax] unfolding frag_count_def by linarith
  then have "?n < 2 ^ 32" using size by simp
  then have un: "unat (of_nat ?n :: u32) = ?n" by (rule unat_small)
  have "\<not> 255 < (of_nat ?n :: u32)" "(of_nat ?n :: u32) \<noteq> 0"
    using sent m unfolding sudp_frag_send_def yumi_udp_client_get_max_payload_def Let_def frag_count_def [symmetric] by (auto split: if_splits)
  then have n: "?n \<le> 255" using un by (simp add: word_less_nat_alt)
  have n0: "0 < ?n" using \<open>(of_nat ?n :: u32) \<noteq> 0\<close> by (cases "?n = 0") simp_all
  then have "data \<noteq> []" using m by (auto simp: frag_count_def)
  then have ps': "ps = map (frag_of mt (of_nat ?n) ?fmax data) [0..<?n]"
    using frag_send_queues [OF sent _ m size(2) n] size(1) ps by auto
  have idx: "?idx (frag_of mt (of_nat ?n) ?fmax data i) = i" if "i < ?n" for i
    using frag_fields(3,5) [OF that n] by simp
  have in_ps: "\<exists>i<?n. frag_of mt (of_nat ?n) ?fmax data i = p \<and> ?idx p = i" if "p \<in> set ps" for p
  proof -
    have "p \<in> frag_of mt (of_nat ?n) ?fmax data ` {0..<?n}" using that unfolding ps' by simp
    then obtain i where i: "i < ?n" "p = frag_of mt (of_nat ?n) ?fmax data i" by (rule imageE) simp
    show ?thesis unfolding i(2) using i(1) idx [OF i(1)] by blast
  qed
  have covers: "set (map fst bs) = set ps" if ix: "set (map (\<lambda>(p, t). ?idx p) bs) = {0..<?n}" and sub: "set (map fst bs) \<subseteq> set ps"
    for bs :: "(bytes \<times> u64 \<times> u64) list"
  proof
    show "set ps \<subseteq> set (map fst bs)"
    proof
      fix p assume p: "p \<in> set ps"
      then obtain i where i: "i < ?n" "p = frag_of mt (of_nat ?n) ?fmax data i" using in_ps by blast
      then have "i \<in> set (map (\<lambda>(p, t). ?idx p) bs)" using ix by simp
      then obtain q t where q: "(q, t) \<in> set bs" "?idx q = i" by auto
      then have "q \<in> set (map fst bs)" by force
      then obtain j where j: "frag_of mt (of_nat ?n) ?fmax data j = q" "?idx q = j" using sub in_ps [of q] by blast
      have "j = i" using j(2) q(2) by (rule trans [OF sym])
      then have "q = p" using j(1) i(2) by (simp only:)
      then show "p \<in> set (map fst bs)" using \<open>q \<in> set (map fst bs)\<close> by (simp only:)
    qed
  qed (rule sub)
  have arr: "arr \<noteq> []" using all n0 unfolding ps' by auto
  have e: "{0..<?n} = ?idx ` set ps"
  proof -
    have "?idx ` set ps = (\<lambda>i. i) ` {0..<?n}" unfolding ps' set_map image_image set_upt by (rule image_cong [OF refl], rule idx) simp
    then show ?thesis by simp
  qed
  have c: "collecting ?n ?fmax data {} 0 frag_create" by (simp add: collecting_def frag_create_def map_replicate_const)
  show ?thesis
  proof (rule frag_run_collects [OF n frag_count_covers size(1) c arr, where idx = ?idx and mt = mt])
    show "\<forall>(p, t1, t2)\<in>set arr. \<exists>i<?n. frag_of mt (of_nat ?n) ?fmax data i = p \<and> ?idx p = i" using in_ps all by force
    show "{} \<union> set (map (\<lambda>(p, t). ?idx p) arr) = {0..<?n}" unfolding e all [symmetric] by (force simp: image_iff)
    show "{} \<union> set (map (\<lambda>(p, t). ?idx p) (butlast arr)) \<noteq> {0..<?n}"
      using covers [of "butlast arr"] not_yet all by (auto dest: in_set_butlastD)
  qed (use m soon in auto)
qed

text \<open>The witness: three bytes in two datagrams, the second first and twice.\<close>

lemma demo_frags: "\<exists>u'. sudp_frag_send True (\<lambda>i. zero_item) 1 [7, 8, 9] (demo_client\<lparr>max_payload := 10\<rparr>) = (0, u')
    \<and> map item_content (send_ring u') = [[0, 0, 0, 0, 1, 2, 0, 0, 7, 8], [0, 0, 0, 0, 1, 2, 1, 0, 9]]"
proof -
  let ?u = "demo_client\<lparr>max_payload := 10\<rparr>"
  obtain r u' where s: "sudp_frag_send True (\<lambda>i. zero_item) 1 [7, 8, 9] ?u = (r, u')" by (cases "sudp_frag_send True (\<lambda>i. zero_item) 1 [7, 8, 9] ?u")
  have n: "frag_count 2 [7, 8, 9] = 2" by (simp add: frag_count_def)
  have e: "send_ring ?u = []" by (simp add: demo_client_def yumi_udp_client_create_def)
  from frag_send_queues [OF s] e obtain items where i: "send_ring u' = items"
      "r = 0 \<longrightarrow> map item_content items = map (frag_of 1 (of_nat 2) 2 [7, 8, 9]) [0..<2]" "r = 0"
    by (auto simp: n)
  then have "map item_content (send_ring u') = [[0, 0, 0, 0, 1, 2, 0, 0, 7, 8], [0, 0, 0, 0, 1, 2, 1, 0, 9]]"
    by (simp add: upt_conv_Cons frag_packet_def frag_chunk_def)
  moreover have "sudp_frag_send True (\<lambda>i. zero_item) 1 [7, 8, 9] ?u = (0, u')" using s unfolding i(3) .
  ultimately show ?thesis by (intro exI [of _ u'] conjI)
qed

theorem fragments_reassemble_witness:
  "\<exists>u'. sudp_frag_send True (\<lambda>i. zero_item) 1 [7, 8, 9] (demo_client\<lparr>max_payload := 10\<rparr>) = (0, u')
   \<and> fst (frag_run frag_create [([0, 0, 0, 0, 1, 2, 1, 0, 9], 5, 6), ([0, 0, 0, 0, 1, 2, 1, 0, 9], 7, 8), ([0, 0, 0, 0, 1, 2, 0, 0, 7, 8], 9, 10)])
     = [None, None, Some [7, 8, 9]]"
proof -
  let ?a = "[0, 0, 0, 0, 1, 2, 0, 0, 7, 8] :: bytes" and ?b = "[0, 0, 0, 0, 1, 2, 1, 0, 9] :: bytes"
  obtain u' where u: "sudp_frag_send True (\<lambda>i. zero_item) 1 [7, 8, 9] (demo_client\<lparr>max_payload := 10\<rparr>) = (0, u')"
    "map item_content (send_ring u') = [?a, ?b]" using demo_frags by (elim exE conjE) (rule that)
  have ps: "[?a, ?b] = map item_content (drop (length (send_ring (demo_client\<lparr>max_payload := 10\<rparr>))) (send_ring u'))"
    using u(2) by (simp add: demo_client_def yumi_udp_client_create_def)
  let ?arr = "[(?b, 5, 6), (?b, 7, 8), (?a, 9, 10)] :: (bytes \<times> u64 \<times> u64) list"
  have "fst (frag_run frag_create ?arr) = replicate (length ?arr - 1) None @ [Some [7, 8, 9]]"
    by (rule fragments_reassemble [OF u(1) _ _ ps]) (auto simp: word_le_nat_alt)
  then show ?thesis using u(1) by simp
qed

end
