(* ===== verification/Sudp_Session.thy ===== *)
theory Sudp_Session imports Sudp_Replay Sudp_Fragments Peer Epoch_Retention
begin

unbundle bit_operations_syntax

text \<open>
  The secure session over the UDP client (\<open>src/src/network/yumi_sudp_client.c\<close>,
  \<open>src/include/network/yumi_sudp_client.h\<close>): the handshake, its keys and their rotation, the hooks that
  encrypt and decrypt datagrams, and what the application calls.

  The cryptography is that of \<open>Crypto_Aead\<close> and \<open>yumi_env\<close>; the key exchange that only this layer uses, the
  monotonic clock and the cells of the queues are \<open>sudp_env\<close>.  Calls out are numbered by the counter of
  the session's registrar, so that each may answer differently.  What a callback does is up to the
  application: the state callback is left out, the data callback is recorded.
\<close>

section \<open>Data\<close>

abbreviation (input) YUMI_SUDP_REKEY_SEED_LEN :: nat where "YUMI_SUDP_REKEY_SEED_LEN \<equiv> 128"
abbreviation (input) SUDP_REKEY_INTERVAL :: u64 where "SUDP_REKEY_INTERVAL \<equiv> 1048576"
abbreviation (input) SUDP_EPOCH_CHECK_INTERVAL_US :: u64 where "SUDP_EPOCH_CHECK_INTERVAL_US \<equiv> 30000000"
abbreviation (input) YUMI_SUDP_HS_TIMEOUT_FIRST_US :: u64 where "YUMI_SUDP_HS_TIMEOUT_FIRST_US \<equiv> 30000000"
abbreviation (input) YUMI_SUDP_HS_TIMEOUT_SUBSEQ_US :: u64 where "YUMI_SUDP_HS_TIMEOUT_SUBSEQ_US \<equiv> 10000000"
abbreviation (input) YUMI_SUDP_PROTOCOL_VERSION :: byte where "YUMI_SUDP_PROTOCOL_VERSION \<equiv> 1"
abbreviation (input) YUMI_SUDP_PKT_CRYPTO_OVERHEAD :: u32 where "YUMI_SUDP_PKT_CRYPTO_OVERHEAD \<equiv> 144"
abbreviation (input) YUMI_SUDP_ENVELOPE_OVERHEAD :: u32 where "YUMI_SUDP_ENVELOPE_OVERHEAD \<equiv> 5"
abbreviation (input) SUDP_MSG_HELLO :: byte where "SUDP_MSG_HELLO \<equiv> 1"
abbreviation (input) SUDP_MSG_RESPONSE :: byte where "SUDP_MSG_RESPONSE \<equiv> 2"
abbreviation (input) SUDP_MSG_CONFIRM :: byte where "SUDP_MSG_CONFIRM \<equiv> 3"
abbreviation (input) YUMI_MLKEM_PUBLIC_KEY_LEN :: nat where "YUMI_MLKEM_PUBLIC_KEY_LEN \<equiv> 1568"
abbreviation (input) YUMI_MLKEM_CIPHERTEXT_LEN :: nat where "YUMI_MLKEM_CIPHERTEXT_LEN \<equiv> 1568"
abbreviation (input) YUMI_BP512_PUBLIC_KEY_LEN :: nat where "YUMI_BP512_PUBLIC_KEY_LEN \<equiv> 129"
abbreviation (input) YUMI_FRODO_PUBLIC_KEY_LEN :: nat where "YUMI_FRODO_PUBLIC_KEY_LEN \<equiv> 21520"
abbreviation (input) YUMI_FRODO_CIPHERTEXT_LEN :: nat where "YUMI_FRODO_CIPHERTEXT_LEN \<equiv> 21696"
abbreviation (input) YUMI_MLDSA_SIGN_LEN :: nat where "YUMI_MLDSA_SIGN_LEN \<equiv> 4627"
abbreviation (input) HELLO_BASE_LEN :: nat where "HELLO_BASE_LEN \<equiv> 1735"

datatype yumi_sudp_state_t = YUMI_SUDP_DISCONNECTED | YUMI_SUDP_HANDSHAKING | YUMI_SUDP_ESTABLISHED | YUMI_SUDP_FAILED

datatype hs_state_t = HS_IDLE | HS_HELLO_SENT | HS_WAIT_CONFIRM | HS_DONE

text \<open>\<open>'kp\<close> is the type of the key pairs of the elliptic curve.\<close>

record 'kp sudp_env =
  mono_us :: "nat \<Rightarrow> u64"
  bp512_keygen :: "nat \<Rightarrow> 'kp option"
  bp512_public_key :: "'kp \<Rightarrow> bytes option"
  bp512_ecdh :: "'kp \<Rightarrow> bytes \<Rightarrow> bytes option"
  frodo_keygen :: "nat \<Rightarrow> (bytes \<times> bytes) option"
  frodo_encaps :: "nat \<Rightarrow> bytes \<Rightarrow> (bytes \<times> bytes) option"
  frodo_decaps :: "bytes \<Rightarrow> bytes \<Rightarrow> bytes option"
  ring_cell :: "nat \<Rightarrow> yumi_work_item_t"

text \<open>The transcript is what has been hashed so far, \<open>None\<close> once the context has been freed.\<close>

record 'kp sudp_hs_ctx_t =
  hs_state :: hs_state_t
  hs_first_contact :: bool
  hs_peer_id :: bytes
  hs_mlkem_pk :: bytes
  hs_mlkem_sk :: bytes
  hs_bp512 :: "'kp option"
  hs_bp512_pk :: bytes
  hs_frodo_pk :: bytes
  hs_frodo_sk :: bytes
  hs_transcript :: "bytes option"
  hs_hash_saved :: bytes
  hs_reasm :: frag_state
  hs_expected_msg :: byte

record ('kp, 'cc) yumi_sudp_client =
  inner :: "'cc yumi_udp_client_t"
  registrar :: gr_registrar
  identity :: gr_identity_t
  sudp_state :: yumi_sudp_state_t
  transport_key :: bytes
  transport_key_ready :: bool
  epoch_key :: bytes
  nonce_token :: bytes
  nonce_counter :: u64
  epoch_id :: u32
  epoch_check_last_us :: u64
  rekey_seed :: bytes
  recv_transport_key :: bytes
  send_rekey_gen :: u32
  recv_rekey_gen :: u32
  send_subkeys :: yumi_aead_subkeys_t
  recv_subkeys :: yumi_aead_subkeys_t
  epoch_subkeys :: yumi_aead_subkeys_t
  hs_deadline_us :: u64
  replay :: sudp_replay_t
  hs :: "'kp sudp_hs_ctx_t option"
  peer_id :: bytes
  first_contact :: bool
  is_initiator :: bool
  peer_active :: bool
  has_data_cb :: bool
  data_calls :: "(byte \<times> bytes option \<times> u32 \<times> bool) list"
  max_secure_payload :: u32

definition calls_out :: "('kp, 'cc) yumi_sudp_client \<Rightarrow> nat" where
  "calls_out c = reg_calls (registrar c)"

definition bump :: "nat \<Rightarrow> ('kp, 'cc) yumi_sudp_client \<Rightarrow> ('kp, 'cc) yumi_sudp_client" where
  "bump k c = c\<lparr>registrar := (registrar c)\<lparr>reg_calls := reg_calls (registrar c) + k\<rparr>\<rparr>"

definition be_bytes :: "nat \<Rightarrow> 'a::len word \<Rightarrow> bytes" where
  "be_bytes n w = rev (le_bytes n w)"

definition be_word :: "bytes \<Rightarrow> 'a::len word" where
  "be_word bs = le_word (rev bs)"

definition sudp_set_state :: "yumi_sudp_state_t \<Rightarrow> ('kp, 'cc) yumi_sudp_client \<Rightarrow> ('kp, 'cc) yumi_sudp_client" where
  "sudp_set_state s c = c\<lparr>sudp_state := s\<rparr>"

section \<open>The handshake context\<close>

definition hs_ctx_create :: "yumi_env \<Rightarrow> nat \<Rightarrow> bool \<Rightarrow> 'kp sudp_hs_ctx_t option" where
  "hs_ctx_create e n fc =
     (if \<not> malloc_ok e n then None
      else if fc \<and> (\<not> malloc_ok e (n + 1) \<or> \<not> malloc_ok e (n + 2)) then None
      else if \<not> skein_ok e (n + 3) then None
      else Some \<lparr>hs_state = HS_IDLE, hs_first_contact = fc, hs_peer_id = replicate 32 0, hs_mlkem_pk = replicate 1568 0,
             hs_mlkem_sk = replicate 3168 0, hs_bp512 = None, hs_bp512_pk = replicate YUMI_BP512_PUBLIC_KEY_LEN 0,
             hs_frodo_pk = (if fc then replicate YUMI_FRODO_PUBLIC_KEY_LEN 0 else []), hs_frodo_sk = (if fc then replicate 43088 0 else []),
             hs_transcript = Some [], hs_hash_saved = replicate 128 0, hs_reasm = frag_create, hs_expected_msg = 0\<rparr>)"

text \<open>\<open>yumi_skein_update\<close> and \<open>yumi_skein_final\<close>, whose results are not looked at: without a context nothing is hashed, and the hash is what the stack held.\<close>

definition hash_update :: "bytes \<Rightarrow> bytes option \<Rightarrow> bytes option" where
  "hash_update d t = map_option (\<lambda>b. b @ d) t"

definition hash_final :: "yumi_env \<Rightarrow> nat \<Rightarrow> bytes option \<Rightarrow> bytes" where
  "hash_final e n t = (case t of None \<Rightarrow> uninit e n 128 | Some b \<Rightarrow> skein e b)"

section \<open>Keys\<close>

text \<open>A key of 128 bytes; the assertion inside the derivation holds for the short infos used here.\<close>

definition hkdf128 :: "yumi_env \<Rightarrow> nat \<Rightarrow> bytes \<Rightarrow> bytes option \<Rightarrow> bytes \<Rightarrow> bytes option" where
  "hkdf128 e n ikm salt info =
     (case yumi_hkdf e (\<lambda>i. lease_ok e (n + i)) 128 ikm salt info of Some (Inr k) \<Rightarrow> Some k | _ \<Rightarrow> None)"

definition sudp_derive_gen_key :: "yumi_env \<Rightarrow> nat \<Rightarrow> bytes \<Rightarrow> u32 \<Rightarrow> bool \<Rightarrow> bytes option" where
  "sudp_derive_gen_key e n seed gen init_direction =
     hkdf128 e n seed (Some (be_bytes 4 gen))
       (if init_direction then cstr ''yumi-rekey-gen-init-v1'' else cstr ''yumi-rekey-gen-resp-v1'')"

definition install_keys :: "yumi_env \<Rightarrow> bytes \<Rightarrow> bytes \<Rightarrow> ('kp, 'cc) yumi_sudp_client \<Rightarrow> ('kp, 'cc) yumi_sudp_client" where
  "install_keys e send_key recv_key c =
     c\<lparr>transport_key := send_key, recv_transport_key := recv_key, send_rekey_gen := 0, recv_rekey_gen := 0,
       send_subkeys := yumi_aead_derive_subkeys e send_key, recv_subkeys := yumi_aead_derive_subkeys e recv_key\<rparr>"

definition combine_secrets :: "yumi_env \<Rightarrow> nat \<Rightarrow> bytes \<Rightarrow> bytes option \<Rightarrow> bytes \<Rightarrow> bytes option" where
  "combine_secrets e n mlkem_ss frodo_ss bp512_ss =
     (case (case frodo_ss of
              Some f \<Rightarrow> yumi_combine_invite_keys e (malloc_ok e n) (\<lambda>i. lease_ok e (n + 1 + i)) mlkem_ss f bp512_ss
            | None \<Rightarrow> yumi_combine_peer_keys e (malloc_ok e n) (\<lambda>i. lease_ok e (n + 1 + i)) mlkem_ss bp512_ss) of
        Some (Inr k) \<Rightarrow> Some k | _ \<Rightarrow> None)"

text \<open>\<open>True\<close>: the code returns 0.\<close>

definition sudp_derive_keys :: "yumi_env \<Rightarrow> bytes \<Rightarrow> bytes option \<Rightarrow> bytes \<Rightarrow> ('kp, 'cc) yumi_sudp_client
    \<Rightarrow> bool \<times> ('kp, 'cc) yumi_sudp_client" where
  "sudp_derive_keys e mlkem_ss frodo_ss bp512_ss c0 =
     (let c = bump 2 c0 in
      case combine_secrets e (calls_out c0) mlkem_ss frodo_ss bp512_ss of
        None \<Rightarrow> (False, c)
      | Some temp_key \<Rightarrow>
         (case gr_epoch_get_current e (registrar c) of
            (Inl _, reg) \<Rightarrow> (False, c\<lparr>registrar := reg\<rparr>)
          | (Inr epoch, reg) \<Rightarrow>
              let c1 = c\<lparr>registrar := reg, epoch_id := e_epoch_id epoch\<rparr> in
              case hkdf128 e (calls_out c1) temp_key (Some (e_epoch_key epoch)) (cstr ''yumi-rekey-seed-v1'') of
                None \<Rightarrow> (False, bump 1 c1)
              | Some seed \<Rightarrow>
                  let c2 = (bump 1 c1)\<lparr>rekey_seed := seed\<rparr> in
                  case sudp_derive_gen_key e (calls_out c2) seed 0 True of
                    None \<Rightarrow> (False, bump 1 c2)
                  | Some init_key \<Rightarrow>
                     (case sudp_derive_gen_key e (calls_out c2 + 1) seed 0 False of
                        None \<Rightarrow> (False, bump 2 c2)
                      | Some resp_key \<Rightarrow>
                          (True, (install_keys e (if is_initiator c2 then init_key else resp_key)
                                    (if is_initiator c2 then resp_key else init_key) (bump 2 c2))\<lparr>transport_key_ready := True\<rparr>))))"

definition sudp_epoch_rekey :: "yumi_env \<Rightarrow> gr_epoch_t \<Rightarrow> ('kp, 'cc) yumi_sudp_client \<Rightarrow> bool \<times> ('kp, 'cc) yumi_sudp_client" where
  "sudp_epoch_rekey e epoch c =
     (case hkdf128 e (calls_out c) (rekey_seed c @ e_epoch_key epoch) None (cstr ''yumi-epoch-rekey-v1'') of
        None \<Rightarrow> (False, bump 1 c)
      | Some new_seed \<Rightarrow>
         (case (sudp_derive_gen_key e (calls_out c + 1) new_seed 0 (is_initiator c),
                sudp_derive_gen_key e (calls_out c + 2) new_seed 0 (\<not> is_initiator c)) of
            (Some send_key, Some recv_key) \<Rightarrow>
              let c1 = (install_keys e send_key recv_key (bump 3 c))
                         \<lparr>rekey_seed := new_seed, epoch_key := e_epoch_key epoch, epoch_id := e_epoch_id epoch,
                          epoch_subkeys := yumi_aead_derive_subkeys e (e_epoch_key epoch)\<rparr>
              in (case gr_peer_get e (peer_id c1) (registrar c1) of
                    (Inl _, reg) \<Rightarrow> (True, c1\<lparr>registrar := reg\<rparr>)
                  | (Inr p, reg) \<Rightarrow>
                      (True, c1\<lparr>registrar := reg, peer_active := peer_active c1 \<and> p_status p = GR_PEER_ACTIVE\<rparr>))
          | _ \<Rightarrow> (False, bump 3 c)))"

section \<open>The hook that encrypts\<close>

text \<open>The deadline of the handshake: is it over?\<close>

definition hs_expired :: "'kp sudp_env \<Rightarrow> ('kp, 'cc) yumi_sudp_client \<Rightarrow> bool \<times> ('kp, 'cc) yumi_sudp_client" where
  "hs_expired x c =
     (if sudp_state c = YUMI_SUDP_HANDSHAKING \<and> hs_deadline_us c \<noteq> 0
      then (hs_deadline_us c < mono_us x (calls_out c), bump 1 c) else (False, c))"

text \<open>The check for a new epoch, at most every 30 seconds; a rotation replaces the epoch in the packet.\<close>

definition encrypt_epoch_check :: "yumi_env \<Rightarrow> 'kp sudp_env \<Rightarrow> bytes \<Rightarrow> ('kp, 'cc) yumi_sudp_client \<Rightarrow> bytes \<times> ('kp, 'cc) yumi_sudp_client" where
  "encrypt_epoch_check e x pt c =
     (if \<not> transport_key_ready c then (pt, c)
      else let now = mono_us x (calls_out c); c1 = bump 1 c in
        if now - epoch_check_last_us c1 < SUDP_EPOCH_CHECK_INTERVAL_US then (pt, c1)
        else let c2 = c1\<lparr>epoch_check_last_us := now\<rparr> in
          case gr_epoch_get_current e (registrar c2) of
            (Inl _, reg) \<Rightarrow> (pt, c2\<lparr>registrar := reg\<rparr>)
          | (Inr cur_ep, reg) \<Rightarrow>
              let c3 = c2\<lparr>registrar := reg\<rparr> in
              if e_epoch_id cur_ep = epoch_id c3 then (pt, c3)
              else case sudp_epoch_rekey e cur_ep c3 of
                     (ok, c4) \<Rightarrow> (if ok then take 10 pt @ be_bytes 4 (epoch_id c4) @ drop 14 pt else pt, c4))"

text \<open>Which key: \<open>True\<close> for the transport key.\<close>

definition encrypt_select :: "yumi_env \<Rightarrow> 'kp sudp_env \<Rightarrow> bytes \<Rightarrow> ('kp, 'cc) yumi_sudp_client \<Rightarrow> bool \<times> bytes \<times> ('kp, 'cc) yumi_sudp_client" where
  "encrypt_select e x pt c =
     (if 14 < length pt
      then if take 4 (drop 10 pt) = [0, 0, 0, 0] then (False, pt, c)
           else (True, encrypt_epoch_check e x pt c)
      else (sudp_state c = YUMI_SUDP_ESTABLISHED \<and> transport_key_ready c, pt, c))"

definition sender_gen :: "u64 \<Rightarrow> u32" where
  "sender_gen ctr = ucast (ctr div SUDP_REKEY_INTERVAL)"

definition encrypt_rekey :: "yumi_env \<Rightarrow> u64 \<Rightarrow> ('kp, 'cc) yumi_sudp_client \<Rightarrow> ('kp, 'cc) yumi_sudp_client" where
  "encrypt_rekey e ctr c =
     (if sender_gen ctr = send_rekey_gen c then c
      else case sudp_derive_gen_key e (calls_out c) (rekey_seed c) (sender_gen ctr) (is_initiator c) of
             None \<Rightarrow> bump 1 c
           | Some k \<Rightarrow> (bump 1 c)\<lparr>transport_key := k, send_rekey_gen := sender_gen ctr,
                                  send_subkeys := yumi_aead_derive_subkeys e k\<rparr>)"

definition packet_nonce :: "bytes \<Rightarrow> u64 \<Rightarrow> bytes" where
  "packet_nonce token ctr = token @ be_bytes 8 ctr"

definition sudp_pkt_encrypt :: "yumi_env \<Rightarrow> 'kp sudp_env \<Rightarrow> bytes \<Rightarrow> ('kp, 'cc) yumi_sudp_client \<Rightarrow> bytes option \<times> ('kp, 'cc) yumi_sudp_client" where
  "sudp_pkt_encrypt e x pt c0 =
     (case hs_expired x c0 of
        (True, c) \<Rightarrow> (None, sudp_set_state YUMI_SUDP_FAILED c)
      | (False, c) \<Rightarrow>
         (case encrypt_select e x pt c of (use_send, src, c1) \<Rightarrow>
            let ctr = nonce_counter c1;
                c2 = c1\<lparr>nonce_counter := ctr + 1\<rparr>;
                c3 = (if use_send \<and> transport_key_ready c2 then encrypt_rekey e ctr c2 else c2);
                nonce = packet_nonce (nonce_token c3) ctr
            in case yumi_aead_encrypt_keyed e src [] nonce (if use_send then send_subkeys c3 else epoch_subkeys c3) of
                 Inl _ \<Rightarrow> (None, c3)
               | Inr ct \<Rightarrow> (Some (nonce @ ct), c3)))"

section \<open>The hook that decrypts\<close>

definition open_with :: "yumi_env \<Rightarrow> bytes \<Rightarrow> bytes \<Rightarrow> yumi_aead_subkeys_t \<Rightarrow> bytes option" where
  "open_with e nonce ct sk = (case yumi_aead_decrypt_keyed e ct [] nonce sk of Inl _ \<Rightarrow> None | Inr pt \<Rightarrow> Some pt)"

definition try_transport :: "yumi_env \<Rightarrow> u64 \<Rightarrow> bytes \<Rightarrow> bytes \<Rightarrow> ('kp, 'cc) yumi_sudp_client \<Rightarrow> bytes option \<times> ('kp, 'cc) yumi_sudp_client" where
  "try_transport e ctr nonce ct c =
     (if \<not> transport_key_ready c then (None, c)
      else if sender_gen ctr = recv_rekey_gen c then (open_with e nonce ct (recv_subkeys c), c)
      else let c1 = bump 1 c in
        case sudp_derive_gen_key e (calls_out c) (rekey_seed c) (sender_gen ctr) (\<not> is_initiator c) of
          None \<Rightarrow> (None, c1)
        | Some k \<Rightarrow>
            let sk = yumi_aead_derive_subkeys e k in
            case open_with e nonce ct sk of
              None \<Rightarrow> (None, c1)
            | Some pt \<Rightarrow> (Some pt, c1\<lparr>recv_transport_key := k, recv_rekey_gen := sender_gen ctr, recv_subkeys := sk\<rparr>))"

definition try_new_epoch :: "yumi_env \<Rightarrow> bytes \<Rightarrow> bytes \<Rightarrow> ('kp, 'cc) yumi_sudp_client \<Rightarrow> bytes option \<times> ('kp, 'cc) yumi_sudp_client" where
  "try_new_epoch e nonce ct c =
     (if \<not> transport_key_ready c then (None, c)
      else case gr_epoch_get_current e (registrar c) of
        (Inl _, reg) \<Rightarrow> (None, c\<lparr>registrar := reg\<rparr>)
      | (Inr new_epoch, reg) \<Rightarrow>
          let c1 = c\<lparr>registrar := reg\<rparr> in
          if e_epoch_id new_epoch = epoch_id c1 then (None, c1)
          else case sudp_epoch_rekey e new_epoch c1 of
            (False, c2) \<Rightarrow> (None, c2)
          | (True, c2) \<Rightarrow>
              (case open_with e nonce ct (recv_subkeys c2) of
                 Some pt \<Rightarrow> (Some pt, c2)
               | None \<Rightarrow> (open_with e nonce ct (epoch_subkeys c2), c2)))"

definition decrypt_any :: "yumi_env \<Rightarrow> u64 \<Rightarrow> bytes \<Rightarrow> bytes \<Rightarrow> ('kp, 'cc) yumi_sudp_client \<Rightarrow> bytes option \<times> ('kp, 'cc) yumi_sudp_client" where
  "decrypt_any e ctr nonce ct c =
     (case try_transport e ctr nonce ct c of
        (Some pt, c1) \<Rightarrow> (Some pt, c1)
      | (None, c1) \<Rightarrow>
         (case open_with e nonce ct (epoch_subkeys c1) of
            Some pt \<Rightarrow> (Some pt, c1)
          | None \<Rightarrow> try_new_epoch e nonce ct c1))"

definition sudp_pkt_decrypt :: "yumi_env \<Rightarrow> 'kp sudp_env \<Rightarrow> bytes \<Rightarrow> ('kp, 'cc) yumi_sudp_client \<Rightarrow> bytes option \<times> ('kp, 'cc) yumi_sudp_client" where
  "sudp_pkt_decrypt e x ct_in c0 =
     (case hs_expired x c0 of
        (True, c) \<Rightarrow> (None, sudp_set_state YUMI_SUDP_FAILED c)
      | (False, c) \<Rightarrow>
          if length ct_in < YUMI_AEAD_NONCE_LEN + YUMI_AEAD_TAG_LEN + 1 then (None, c)
          else let nonce = take YUMI_AEAD_NONCE_LEN ct_in; ct = drop YUMI_AEAD_NONCE_LEN ct_in;
                   ctr = be_word (take 8 (drop 8 nonce))
               in case decrypt_any e ctr nonce ct c of
                    (None, c1) \<Rightarrow> (None, c1)
                  | (Some pt, c1) \<Rightarrow>
                     (case sudp_replay_check (replay c1) ctr of
                        (ok, r) \<Rightarrow> (if ok then Some pt else None, c1\<lparr>replay := r\<rparr>)))"

end
