(* ===== verification/Sudp_Client.thy ===== *)
theory Sudp_Client imports Sudp_Session
begin

unbundle bit_operations_syntax

text \<open>
  The handshake of the secure UDP client and what the application calls
  (\<open>src/src/network/yumi_sudp_client.c\<close>).  Everything the handlers do to the handshake context happens
  under its mutex, so each handler is one step.
\<close>

section \<open>Sending a handshake message\<close>

definition send_msg :: "yumi_env \<Rightarrow> 'kp sudp_env \<Rightarrow> byte \<Rightarrow> bytes \<Rightarrow> ('kp, 'cc) yumi_sudp_client \<Rightarrow> bool \<times> ('kp, 'cc) yumi_sudp_client" where
  "send_msg e x msg_type data c =
     (case sudp_frag_send (malloc_ok e (calls_out c)) (\<lambda>i. ring_cell x (calls_out c + i)) msg_type data (inner c) of
        (r, u) \<Rightarrow> (r = 0, (bump 1 c)\<lparr>inner := u\<rparr>))"

definition set_hs :: "'kp sudp_hs_ctx_t \<Rightarrow> ('kp, 'cc) yumi_sudp_client \<Rightarrow> ('kp, 'cc) yumi_sudp_client" where
  "set_hs h c = c\<lparr>hs := Some h\<rparr>"

text \<open>The code's \<open>goto fail\<close>: without a value the session fails.\<close>

definition or_fail :: "'a option \<Rightarrow> ('kp, 'cc) yumi_sudp_client \<Rightarrow> ('a \<Rightarrow> ('kp, 'cc) yumi_sudp_client \<Rightarrow> ('kp, 'cc) yumi_sudp_client)
    \<Rightarrow> ('kp, 'cc) yumi_sudp_client" where
  "or_fail v c f = (case v of None \<Rightarrow> sudp_set_state YUMI_SUDP_FAILED c | Some a \<Rightarrow> f a c)"

definition guard :: "bool \<Rightarrow> unit option" where
  "guard b = (if b then Some () else None)"

text \<open>\<open>memcmp\<close> of two arrays of the same size is negative.\<close>

fun bytes_less :: "bytes \<Rightarrow> bytes \<Rightarrow> bool" where
  "bytes_less (a # as) (b # bs) = (a < b \<or> a = b \<and> bytes_less as bs)"
| "bytes_less _ _ = False"

text \<open>The encoded public key, at most 129 bytes, is written into its array.\<close>

definition store_pk :: "bytes \<Rightarrow> 'kp sudp_hs_ctx_t \<Rightarrow> 'kp sudp_hs_ctx_t" where
  "store_pk pk h = h\<lparr>hs_bp512_pk := pk @ drop (length pk) (hs_bp512_pk h)\<rparr>"

section \<open>HELLO\<close>

definition hello_msg :: "yumi_env \<Rightarrow> bytes \<Rightarrow> u32 \<Rightarrow> 'kp sudp_hs_ctx_t \<Rightarrow> bytes" where
  "hello_msg e own_id epoch h =
     [YUMI_SUDP_PROTOCOL_VERSION] @ own_id @ mem_bytes (host_le e) 4 epoch @ [if hs_first_contact h then 1 else 0]
       @ hs_mlkem_pk h @ hs_bp512_pk h @ (if hs_first_contact h then hs_frodo_pk h else [])"

definition hs_timeout :: "bool \<Rightarrow> u64" where
  "hs_timeout fc = (if fc then YUMI_SUDP_HS_TIMEOUT_FIRST_US else YUMI_SUDP_HS_TIMEOUT_SUBSEQ_US)"

text \<open>The HELLO is built and sent; the keys of the handshake are there.\<close>

definition connect_send :: "yumi_env \<Rightarrow> 'kp sudp_env \<Rightarrow> 'kp sudp_hs_ctx_t \<Rightarrow> ('kp, 'cc) yumi_sudp_client \<Rightarrow> ('kp, 'cc) yumi_sudp_client" where
  "connect_send e x h c =
     (case gr_epoch_get_current e (registrar c) of
        (Inl _, reg) \<Rightarrow> sudp_set_state YUMI_SUDP_FAILED (c\<lparr>registrar := reg\<rparr>)
      | (Inr epoch, reg) \<Rightarrow>
          or_fail (guard (malloc_ok e (reg_calls reg))) (bump 1 (c\<lparr>registrar := reg\<rparr>)) (\<lambda>_ c1.
            let hello = hello_msg e (id_peer_id (identity c1)) (e_epoch_id epoch) h;
                h1 = h\<lparr>hs_transcript := hash_update hello (hs_transcript h), hs_state := HS_HELLO_SENT, hs_expected_msg := SUDP_MSG_RESPONSE\<rparr>;
                c2 = (bump 1 (set_hs h1 c1))\<lparr>hs_deadline_us := mono_us x (calls_out c1) + hs_timeout (hs_first_contact h)\<rparr>;
                c3 = sudp_set_state YUMI_SUDP_HANDSHAKING c2
            in case send_msg e x SUDP_MSG_HELLO hello c3 of
                 (ok, c4) \<Rightarrow> or_fail (guard ok) c4 (\<lambda>_ c5. c5)))"

text \<open>The keys of one who connects.\<close>

definition connect_keys :: "yumi_env \<Rightarrow> 'kp sudp_env \<Rightarrow> 'kp sudp_hs_ctx_t \<Rightarrow> ('kp, 'cc) yumi_sudp_client \<Rightarrow> ('kp, 'cc) yumi_sudp_client" where
  "connect_keys e x h c =
     or_fail (mlkem_keygen e (calls_out c)) (bump 1 c) (\<lambda>(mpk, msk) c1.
       let h1 = h\<lparr>hs_mlkem_pk := mpk, hs_mlkem_sk := msk\<rparr> in
       or_fail (bp512_keygen x (calls_out c1)) (bump 1 (set_hs h1 c1)) (\<lambda>kp c2.
         let h2 = h1\<lparr>hs_bp512 := Some kp\<rparr> in
         or_fail (bp512_public_key x kp) (set_hs h2 c2) (\<lambda>pk c3.
           let h3 = store_pk pk h2 in
           if hs_first_contact h3
           then or_fail (frodo_keygen x (calls_out c3)) (bump 1 (set_hs h3 c3)) (\<lambda>(fpk, fsk) c4.
                  let h4 = h3\<lparr>hs_frodo_pk := fpk, hs_frodo_sk := fsk\<rparr> in connect_send e x h4 (set_hs h4 c4))
           else connect_send e x h3 (set_hs h3 c3))))"

text \<open>What the worker does with the name of a peer to connect to.\<close>

definition sudp_worker_connect :: "yumi_env \<Rightarrow> 'kp sudp_env \<Rightarrow> bytes \<Rightarrow> ('kp, 'cc) yumi_sudp_client \<Rightarrow> ('kp, 'cc) yumi_sudp_client" where
  "sudp_worker_connect e x data c =
     (if length data \<noteq> 32 then c
      else if sudp_state c = YUMI_SUDP_ESTABLISHED then c
      else
        let have = (case hs c of Some h \<Rightarrow> Some h | None \<Rightarrow> hs_ctx_create e (calls_out c) (first_contact c)) in
        case have of
          None \<Rightarrow> sudp_set_state YUMI_SUDP_FAILED (bump 4 c)
        | Some h \<Rightarrow>
            let c1 = set_hs h (bump 4 c) in
            if hs_state h \<noteq> HS_IDLE
            then (if sudp_state c1 = YUMI_SUDP_DISCONNECTED then sudp_set_state YUMI_SUDP_HANDSHAKING c1 else c1)
            else let h1 = h\<lparr>hs_peer_id := data\<rparr> in
                 connect_keys e x h1 ((set_hs h1 c1)\<lparr>peer_id := data, peer_active := True, is_initiator := True\<rparr>))"

section \<open>RESPONSE\<close>

definition response_msg :: "bytes \<Rightarrow> bytes \<Rightarrow> bytes \<Rightarrow> bytes \<Rightarrow> bytes \<Rightarrow> bytes" where
  "response_msg own_id mlkem_ct bp_pk frodo_ct sig = [YUMI_SUDP_PROTOCOL_VERSION] @ own_id @ mlkem_ct @ bp_pk @ frodo_ct @ sig"

text \<open>The end of \<open>sudp_process_hello\<close>: the secrets are there; transcript, signature, keys, RESPONSE.\<close>

definition hello_answer :: "yumi_env \<Rightarrow> 'kp sudp_env \<Rightarrow> bytes \<Rightarrow> 'kp sudp_hs_ctx_t \<Rightarrow> nat \<Rightarrow> bytes \<Rightarrow> bytes \<Rightarrow> bytes \<Rightarrow> (bytes \<times> bytes) option
    \<Rightarrow> ('kp, 'cc) yumi_sudp_client \<Rightarrow> ('kp, 'cc) yumi_sudp_client" where
  "hello_answer e x msg h pk_len mlkem_ct mlkem_ss bp_ss frodo c =
     (let fct = (case frodo of None \<Rightarrow> [] | Some (ct, ss) \<Rightarrow> ct);
          t = (if frodo = None then (\<lambda>t. t) else hash_update fct)
                (hash_update (take pk_len (hs_bp512_pk h))
                  (hash_update mlkem_ct (hash_update (id_peer_id (identity c)) (hash_update msg (hs_transcript h)))));
          hash = hash_final e (calls_out c) t;
          h1 = h\<lparr>hs_transcript := None\<rparr>
      in or_fail (mldsa_sign e (calls_out c + 1) (id_secret_key (identity c)) hash) (bump 2 (set_hs h1 c)) (\<lambda>sig c1.
           or_fail (guard (malloc_ok e (calls_out c1))) (bump 1 c1) (\<lambda>_ c2.
             let resp = response_msg (id_peer_id (identity c2)) mlkem_ct (hs_bp512_pk h1) fct sig in
             case sudp_derive_keys e mlkem_ss (map_option snd frodo) bp_ss c2 of
               (ok, c3) \<Rightarrow> or_fail (guard ok) c3 (\<lambda>_ c4.
                 case send_msg e x SUDP_MSG_RESPONSE resp
                        (set_hs (h1\<lparr>hs_hash_saved := hash, hs_state := HS_WAIT_CONFIRM, hs_expected_msg := SUDP_MSG_CONFIRM\<rparr>) c4) of
                   (sent, c5) \<Rightarrow> or_fail (guard sent) c5 (\<lambda>_ c6. c6)))))"

text \<open>The key exchange of the one who answers.\<close>

definition hello_exchange :: "yumi_env \<Rightarrow> 'kp sudp_env \<Rightarrow> bytes \<Rightarrow> 'kp sudp_hs_ctx_t \<Rightarrow> ('kp, 'cc) yumi_sudp_client \<Rightarrow> ('kp, 'cc) yumi_sudp_client" where
  "hello_exchange e x msg h c =
     (let mlkem_pk = take YUMI_MLKEM_PUBLIC_KEY_LEN (drop 38 msg);
          bp_pk = take YUMI_BP512_PUBLIC_KEY_LEN (drop 1606 msg);
          frodo_pk = take YUMI_FRODO_PUBLIC_KEY_LEN (drop 1735 msg)
      in or_fail (mlkem_encaps e (calls_out c) mlkem_pk) (bump 1 c) (\<lambda>(ct, ss) c1.
           or_fail (bp512_keygen x (calls_out c1)) (bump 1 c1) (\<lambda>kp c2.
             let h1 = h\<lparr>hs_bp512 := Some kp\<rparr> in
             or_fail (bp512_public_key x kp) (set_hs h1 c2) (\<lambda>pk c3.
               let h2 = store_pk pk h1 in
               or_fail (bp512_ecdh x kp bp_pk) (set_hs h2 c3) (\<lambda>bp_ss c4.
                 if hs_first_contact h2
                 then or_fail (guard (malloc_ok e (calls_out c4))) (bump 1 c4) (\<lambda>_ c5.
                        or_fail (frodo_encaps x (calls_out c5) frodo_pk) (bump 1 c5) (\<lambda>frodo c6.
                          hello_answer e x msg h2 (length pk) ct ss bp_ss (Some frodo) c6))
                 else hello_answer e x msg h2 (length pk) ct ss bp_ss None c4)))))"

text \<open>The parsed HELLO is accepted from an active peer only.\<close>

definition hello_accept :: "yumi_env \<Rightarrow> 'kp sudp_env \<Rightarrow> bytes \<Rightarrow> 'kp sudp_hs_ctx_t \<Rightarrow> ('kp, 'cc) yumi_sudp_client \<Rightarrow> ('kp, 'cc) yumi_sudp_client" where
  "hello_accept e x msg h c =
     (let init_peer_id = take 32 (drop 1 msg); fc = msg ! 37 \<noteq> 0 in
      if fc \<and> length msg < HELLO_BASE_LEN + YUMI_FRODO_PUBLIC_KEY_LEN then c
      else case gr_peer_get e init_peer_id (registrar c) of
        (Inl _, reg) \<Rightarrow> c\<lparr>registrar := reg\<rparr>
      | (Inr p, reg) \<Rightarrow>
          let c1 = c\<lparr>registrar := reg\<rparr> in
          if p_status p \<noteq> GR_PEER_ACTIVE then c1
          else let h1 = h\<lparr>hs_peer_id := init_peer_id, hs_first_contact := fc\<rparr>;
                   c2 = (set_hs h1 c1)\<lparr>peer_active := True, peer_id := init_peer_id, first_contact := fc, is_initiator := False\<rparr>;
                   c3 = (if hs_deadline_us c2 = 0
                         then (bump 1 c2)\<lparr>hs_deadline_us := mono_us x (calls_out c2) + hs_timeout fc\<rparr> else c2)
               in hello_exchange e x msg h1 c3)"

text \<open>
  When both open at once, the one with the lower name is the initiator and the other starts anew.  When
  that fails, the code leaves the pointer to a context it has freed; here it is gone.
\<close>

definition sudp_process_hello :: "yumi_env \<Rightarrow> 'kp sudp_env \<Rightarrow> bytes \<Rightarrow> ('kp, 'cc) yumi_sudp_client \<Rightarrow> ('kp, 'cc) yumi_sudp_client" where
  "sudp_process_hello e x msg c =
     (case hs c of
        None \<Rightarrow> c
      | Some h \<Rightarrow>
          if length msg < HELLO_BASE_LEN then c
          else if msg ! 0 \<noteq> YUMI_SUDP_PROTOCOL_VERSION then c
          else if hs_state h = HS_HELLO_SENT
          then (if bytes_less (id_peer_id (identity c)) (take 32 (drop 1 msg)) then c
                else let h1 = h\<lparr>hs_reasm := hs_reasm_reset (hs_reasm h), hs_bp512 := None, hs_transcript := None\<rparr> in
                     or_fail (guard (skein_ok e (calls_out c))) (bump 1 (set_hs h1 c)) (\<lambda>_ c1.
                       let h2 = h1\<lparr>hs_transcript := Some []\<rparr> in hello_accept e x msg h2 (set_hs h2 c1)))
          else hello_accept e x msg h c)"

section \<open>CONFIRM\<close>

text \<open>The end of the session's handshake: its context is wiped and freed.\<close>

definition establish :: "('kp, 'cc) yumi_sudp_client \<Rightarrow> ('kp, 'cc) yumi_sudp_client" where
  "establish c = (sudp_set_state YUMI_SUDP_ESTABLISHED c)\<lparr>hs := None\<rparr>"

text \<open>The signature of the RESPONSE is checked, the keys are derived, and the CONFIRM is sent.\<close>

definition response_confirm :: "yumi_env \<Rightarrow> 'kp sudp_env \<Rightarrow> gr_peer_t \<Rightarrow> bytes \<Rightarrow> bytes \<Rightarrow> bytes option \<Rightarrow> bytes \<Rightarrow> bytes \<Rightarrow> 'kp sudp_hs_ctx_t
    \<Rightarrow> ('kp, 'cc) yumi_sudp_client \<Rightarrow> ('kp, 'cc) yumi_sudp_client" where
  "response_confirm e x peer mlkem_ss bp_ss frodo_ss sig hash h c =
     or_fail (guard (mldsa_verify e sig hash (p_sign_key peer))) c (\<lambda>_ c1.
       case sudp_derive_keys e mlkem_ss frodo_ss bp_ss c1 of
         (ok, c2) \<Rightarrow> or_fail (guard ok) c2 (\<lambda>_ c3.
           or_fail (mldsa_sign e (calls_out c3) (id_secret_key (identity c3)) hash) (bump 1 c3) (\<lambda>own c4.
             case send_msg e x SUDP_MSG_CONFIRM ([YUMI_SUDP_PROTOCOL_VERSION] @ own) (set_hs (h\<lparr>hs_state := HS_DONE\<rparr>) c4) of
               (sent, c5) \<Rightarrow> or_fail (guard sent) c5 (\<lambda>_ c6. establish c6))))"

text \<open>Where the parts of a RESPONSE are, and the hash of the transcript with it.\<close>

definition response_frodo_ct :: "'kp sudp_hs_ctx_t \<Rightarrow> bytes \<Rightarrow> bytes" where
  "response_frodo_ct h msg = (if hs_first_contact h then take YUMI_FRODO_CIPHERTEXT_LEN (drop 1730 msg) else [])"

definition response_sig :: "'kp sudp_hs_ctx_t \<Rightarrow> bytes \<Rightarrow> bytes" where
  "response_sig h msg = take YUMI_MLDSA_SIGN_LEN (drop (1730 + (if hs_first_contact h then YUMI_FRODO_CIPHERTEXT_LEN else 0)) msg)"

definition response_hash :: "yumi_env \<Rightarrow> nat \<Rightarrow> 'kp sudp_hs_ctx_t \<Rightarrow> bytes \<Rightarrow> bytes" where
  "response_hash e n h msg =
     hash_final e n ((if hs_first_contact h then hash_update (response_frodo_ct h msg) else (\<lambda>t. t))
       (hash_update (take YUMI_BP512_PUBLIC_KEY_LEN (drop 1601 msg)) (hash_update (take YUMI_MLKEM_CIPHERTEXT_LEN (drop 33 msg))
         (hash_update (take 32 (drop 1 msg)) (hs_transcript h)))))"

text \<open>The parsed RESPONSE of the peer that was expected.\<close>

definition response_open :: "yumi_env \<Rightarrow> 'kp sudp_env \<Rightarrow> bytes \<Rightarrow> gr_peer_t \<Rightarrow> 'kp sudp_hs_ctx_t \<Rightarrow> ('kp, 'cc) yumi_sudp_client \<Rightarrow> ('kp, 'cc) yumi_sudp_client" where
  "response_open e x msg peer h c =
     or_fail (mlkem_decaps e (hs_mlkem_sk h) (take YUMI_MLKEM_CIPHERTEXT_LEN (drop 33 msg))) c (\<lambda>mlkem_ss c1.
       or_fail (case hs_bp512 h of None \<Rightarrow> None | Some kp \<Rightarrow> bp512_ecdh x kp (take YUMI_BP512_PUBLIC_KEY_LEN (drop 1601 msg))) c1 (\<lambda>bp_ss c2.
         or_fail (if hs_first_contact h then map_option Some (frodo_decaps x (hs_frodo_sk h) (response_frodo_ct h msg)) else Some None) c2
           (\<lambda>frodo_ss c3.
             let hash = response_hash e (calls_out c3) h msg; h1 = h\<lparr>hs_transcript := None\<rparr>
             in response_confirm e x peer mlkem_ss bp_ss frodo_ss (response_sig h msg) hash h1 (bump 1 (set_hs h1 c3)))))"

definition sudp_process_response :: "yumi_env \<Rightarrow> 'kp sudp_env \<Rightarrow> bytes \<Rightarrow> ('kp, 'cc) yumi_sudp_client \<Rightarrow> ('kp, 'cc) yumi_sudp_client" where
  "sudp_process_response e x msg c =
     (case hs c of
        None \<Rightarrow> c
      | Some h \<Rightarrow>
          if hs_state h \<noteq> HS_HELLO_SENT then c
          else if length msg < 1730 + (if hs_first_contact h then YUMI_FRODO_CIPHERTEXT_LEN else 0) + YUMI_MLDSA_SIGN_LEN then c
          else if msg ! 0 \<noteq> YUMI_SUDP_PROTOCOL_VERSION then c
          else case gr_peer_get e (take 32 (drop 1 msg)) (registrar c) of
            (Inl _, reg) \<Rightarrow> c\<lparr>registrar := reg\<rparr>
          | (Inr peer, reg) \<Rightarrow>
              let c1 = c\<lparr>registrar := reg\<rparr> in
              if p_status peer \<noteq> GR_PEER_ACTIVE then c1
              else if take 32 (drop 1 msg) \<noteq> hs_peer_id h then c1
              else response_open e x msg peer h c1)"

definition sudp_process_confirm :: "yumi_env \<Rightarrow> bytes \<Rightarrow> ('kp, 'cc) yumi_sudp_client \<Rightarrow> ('kp, 'cc) yumi_sudp_client" where
  "sudp_process_confirm e msg c =
     (case hs c of
        None \<Rightarrow> c
      | Some h \<Rightarrow>
          if hs_state h \<noteq> HS_WAIT_CONFIRM then c
          else if length msg < 1 + YUMI_MLDSA_SIGN_LEN then c
          else if msg ! 0 \<noteq> YUMI_SUDP_PROTOCOL_VERSION then c
          else case gr_peer_get e (hs_peer_id h) (registrar c) of
            (Inl _, reg) \<Rightarrow> sudp_set_state YUMI_SUDP_FAILED (c\<lparr>registrar := reg\<rparr>)
          | (Inr peer, reg) \<Rightarrow>
              or_fail (guard (p_status peer = GR_PEER_ACTIVE
                  \<and> mldsa_verify e (take YUMI_MLDSA_SIGN_LEN (drop 1 msg)) (hs_hash_saved h) (p_sign_key peer)))
                (c\<lparr>registrar := reg\<rparr>) (\<lambda>_ c1. establish (set_hs (h\<lparr>hs_state := HS_DONE\<rparr>) c1)))"

definition sudp_process_handshake_msg :: "yumi_env \<Rightarrow> 'kp sudp_env \<Rightarrow> byte \<Rightarrow> bytes \<Rightarrow> ('kp, 'cc) yumi_sudp_client \<Rightarrow> ('kp, 'cc) yumi_sudp_client" where
  "sudp_process_handshake_msg e x msg_type msg c =
     (if msg_type = SUDP_MSG_HELLO then sudp_process_hello e x msg c
      else if msg_type = SUDP_MSG_RESPONSE then sudp_process_response e x msg c
      else if msg_type = SUDP_MSG_CONFIRM then sudp_process_confirm e msg c
      else c)"

section \<open>Receiving from the transport\<close>

definition recv_handshake :: "yumi_env \<Rightarrow> 'kp sudp_env \<Rightarrow> bytes \<Rightarrow> ('kp, 'cc) yumi_sudp_client \<Rightarrow> ('kp, 'cc) yumi_sudp_client" where
  "recv_handshake e x pkt c =
     (case hs c of
        None \<Rightarrow> c
      | Some h \<Rightarrow>
          if length pkt < SUDP_HS_FRAG_HDR then c
          else case sudp_frag_receive (malloc_ok e (calls_out c)) (malloc_ok e (calls_out c + 1)) (mono_us x (calls_out c))
                      (mono_us x (calls_out c + 1)) pkt (hs_reasm h) of
                 (msg, r) \<Rightarrow>
                    let c1 = set_hs (h\<lparr>hs_reasm := r\<rparr>) (bump 2 c) in
                    (case msg of None \<Rightarrow> c1 | Some m \<Rightarrow> sudp_process_handshake_msg e x (pkt ! 4) m c1))"

definition recv_data :: "bytes \<Rightarrow> bool \<Rightarrow> ('kp, 'cc) yumi_sudp_client \<Rightarrow> ('kp, 'cc) yumi_sudp_client" where
  "recv_data pkt rel c =
     (if length pkt < 5 then c
      else if \<not> peer_active c then sudp_set_state YUMI_SUDP_FAILED c
      else if be_word (take 4 pkt) \<noteq> epoch_id c then c
      else let payload = drop 5 pkt in
           if has_data_cb c
           then c\<lparr>data_calls := data_calls c @ [(pkt ! 4, if payload \<noteq> [] then Some payload else None, of_nat (length payload), rel)]\<rparr>
           else c)"

definition sudp_inner_recv :: "yumi_env \<Rightarrow> 'kp sudp_env \<Rightarrow> bytes \<Rightarrow> bool \<Rightarrow> ('kp, 'cc) yumi_sudp_client \<Rightarrow> ('kp, 'cc) yumi_sudp_client" where
  "sudp_inner_recv e x pkt rel c =
     (if length pkt < 4 then c
      else if take 4 pkt = [0, 0, 0, 0] then recv_handshake e x pkt c
      else recv_data pkt rel c)"

section \<open>What the application calls\<close>

definition sudp_encrypt_send :: "'kp sudp_env \<Rightarrow> byte \<Rightarrow> bytes \<Rightarrow> bool \<Rightarrow> ('kp, 'cc) yumi_sudp_client \<Rightarrow> int \<times> ('kp, 'cc) yumi_sudp_client" where
  "sudp_encrypt_send x channel data rel c =
     (if sudp_state c \<noteq> YUMI_SUDP_ESTABLISHED then (-1, c)
      else if \<not> peer_active c then (-1, sudp_set_state YUMI_SUDP_FAILED c)
      else let inner_len = 4 + 1 + of_nat (length data) :: u32 in
        if yumi_udp_client_get_max_payload (inner c) < inner_len then (-1, c)
        else let pkt = be_bytes 4 (epoch_id c) @ [channel] @ data;
                 cell = ring_cell x (calls_out c)
             in case (if rel then yumi_udp_client_send_reliable cell (Some pkt) inner_len (inner c)
                      else yumi_udp_client_send cell (Some pkt) inner_len (inner c)) of
                  (r, u) \<Rightarrow> (r, (bump 1 c)\<lparr>inner := u\<rparr>))"

definition yumi_sudp_client_send :: "'kp sudp_env \<Rightarrow> bytes \<Rightarrow> ('kp, 'cc) yumi_sudp_client \<Rightarrow> int \<times> ('kp, 'cc) yumi_sudp_client" where
  "yumi_sudp_client_send x data c = sudp_encrypt_send x 0 data False c"

definition yumi_sudp_client_send_reliable :: "'kp sudp_env \<Rightarrow> bytes \<Rightarrow> ('kp, 'cc) yumi_sudp_client \<Rightarrow> int \<times> ('kp, 'cc) yumi_sudp_client" where
  "yumi_sudp_client_send_reliable x data c = sudp_encrypt_send x 0 data True c"

definition yumi_sudp_client_send_channel :: "'kp sudp_env \<Rightarrow> byte \<Rightarrow> bytes \<Rightarrow> ('kp, 'cc) yumi_sudp_client \<Rightarrow> int \<times> ('kp, 'cc) yumi_sudp_client" where
  "yumi_sudp_client_send_channel x channel data c = sudp_encrypt_send x channel data False c"

definition yumi_sudp_client_send_reliable_channel :: "'kp sudp_env \<Rightarrow> byte \<Rightarrow> bytes \<Rightarrow> ('kp, 'cc) yumi_sudp_client \<Rightarrow> int \<times> ('kp, 'cc) yumi_sudp_client" where
  "yumi_sudp_client_send_reliable_channel x channel data c = sudp_encrypt_send x channel data True c"

definition yumi_sudp_client_connect :: "yumi_env \<Rightarrow> 'kp sudp_env \<Rightarrow> bytes \<Rightarrow> ('kp, 'cc) yumi_sudp_client \<Rightarrow> int \<times> ('kp, 'cc) yumi_sudp_client" where
  "yumi_sudp_client_connect e x pid c =
     (if sudp_state c = YUMI_SUDP_ESTABLISHED then (-1, c)
      else case gr_peer_get e pid (registrar c) of
        (Inl _, reg) \<Rightarrow> (-1, c\<lparr>registrar := reg\<rparr>)
      | (Inr p, reg) \<Rightarrow>
          let c1 = c\<lparr>registrar := reg\<rparr> in
          if p_status p \<noteq> GR_PEER_ACTIVE then (-1, c1)
          else case yumi_udp_client_post_user (ring_cell x (calls_out c1)) (Some pid) 32 (inner c1) of
                 (r, u) \<Rightarrow> (r, (bump 1 c1)\<lparr>inner := u\<rparr>))"

definition yumi_sudp_client_notify_kick :: "yumi_env \<Rightarrow> ('kp, 'cc) yumi_sudp_client \<Rightarrow> int \<times> ('kp, 'cc) yumi_sudp_client" where
  "yumi_sudp_client_notify_kick e c =
     (if sudp_state c \<noteq> YUMI_SUDP_ESTABLISHED \<and> sudp_state c \<noteq> YUMI_SUDP_HANDSHAKING then (-1, c)
      else case gr_peer_get e (peer_id c) (registrar c) of
        (Inl _, reg) \<Rightarrow> (-1, c\<lparr>registrar := reg\<rparr>)
      | (Inr p, reg) \<Rightarrow>
          if p_status p = GR_PEER_KICKED \<or> p_status p = GR_PEER_BANNED
          then (0, sudp_set_state YUMI_SUDP_FAILED (c\<lparr>registrar := reg, peer_active := False\<rparr>))
          else (-1, c\<lparr>registrar := reg\<rparr>))"

section \<open>Creation\<close>

text \<open>The memory is zeroed.  What a Skein context of zeros computes is not described.\<close>

definition zero_subkeys :: yumi_aead_subkeys_t where
  "zero_subkeys = \<lparr>sk_enc_key = replicate 128 0, sk_mac_key = replicate 128 0, sk_mac_ctx = \<lparr>ctx_key = [], ctx_absorbed = []\<rparr>\<rparr>"

text \<open>\<open>u\<close> is the transport that \<open>yumi_udp_client_create\<close> has made, \<open>None\<close> when it could not.\<close>

definition yumi_sudp_client_create :: "yumi_env \<Rightarrow> 'kp sudp_env \<Rightarrow> gr_registrar \<Rightarrow> gr_identity_t \<Rightarrow> bool \<Rightarrow> bool \<Rightarrow> 'cc yumi_udp_client_t option
    \<Rightarrow> ('kp, 'cc) yumi_sudp_client option" where
  "yumi_sudp_client_create e x reg0 self fc with_data_cb u =
     (if \<not> malloc_ok e (reg_calls reg0) then None
      else case hs_ctx_create e (reg_calls reg0 + 1) fc of
        None \<Rightarrow> None
      | Some h \<Rightarrow>
         (case gr_epoch_get_current e (reg0\<lparr>reg_calls := reg_calls reg0 + 5\<rparr>) of
            (Inl _, _) \<Rightarrow> None
          | (Inr ep, reg) \<Rightarrow>
             (case u of
                None \<Rightarrow> None
              | Some uc \<Rightarrow>
                  let n = reg_calls reg; inner_max = yumi_udp_client_get_max_payload uc in
                  Some \<lparr>inner = uc, registrar = reg\<lparr>reg_calls := n + 2\<rparr>, identity = self, sudp_state = YUMI_SUDP_DISCONNECTED,
                        transport_key = replicate 128 0, transport_key_ready = False, epoch_key = e_epoch_key ep,
                        nonce_token = (case randombytes e (n + 1) 8 of None \<Rightarrow> replicate 8 0 | Some b \<Rightarrow> b), nonce_counter = 0,
                        epoch_id = e_epoch_id ep, epoch_check_last_us = mono_us x n,
                        rekey_seed = replicate 128 0, recv_transport_key = replicate 128 0, send_rekey_gen = 0, recv_rekey_gen = 0,
                        send_subkeys = zero_subkeys, recv_subkeys = zero_subkeys, epoch_subkeys = yumi_aead_derive_subkeys e (e_epoch_key ep),
                        hs_deadline_us = 0, replay = replay_create, hs = Some h, peer_id = replicate 32 0, first_contact = fc,
                        is_initiator = False, peer_active = False, has_data_cb = with_data_cb, data_calls = [],
                        max_secure_payload = (if YUMI_SUDP_ENVELOPE_OVERHEAD < inner_max then inner_max - YUMI_SUDP_ENVELOPE_OVERHEAD else 0)\<rparr>)))"

definition yumi_sudp_client_get_state :: "('kp, 'cc) yumi_sudp_client \<Rightarrow> yumi_sudp_state_t" where
  "yumi_sudp_client_get_state c = sudp_state c"

definition yumi_sudp_client_get_max_payload :: "('kp, 'cc) yumi_sudp_client \<Rightarrow> u32" where
  "yumi_sudp_client_get_max_payload c = max_secure_payload c"

end
