(* ===== verification/Sudp_Handshake.thy ===== *)
theory Sudp_Handshake imports Sudp_Client
begin

unbundle bit_operations_syntax

text \<open>
  Runs of a secure client, and what every step of one keeps: the two hooks leave the handshake alone,
  the handlers of the handshake leave the session open or establish it with a peer whose signature has
  been checked, and the rest cannot establish it.
\<close>

section \<open>Runs\<close>

text \<open>
  Whatever happens to a client: the worker connects, the transport delivers a packet, the hooks encrypt
  and decrypt, the application calls, and other parts of the program use the registrar and the
  transport.  \<open>outs\<close> are the datagrams encrypted so far, newest first, and \<open>n\<close> the calls of that hook.
\<close>

inductive sudp_step :: "yumi_env \<Rightarrow> 'kp sudp_env \<Rightarrow> ('kp, 'cc) yumi_sudp_client \<Rightarrow> ('kp, 'cc) yumi_sudp_client \<Rightarrow> bool" for e x where
  connecting: "sudp_step e x c (sudp_worker_connect e x data c)"
| received: "sudp_step e x c (sudp_inner_recv e x pkt rel c)"
| decrypted: "sudp_pkt_decrypt e x ct c = (r, c') \<Longrightarrow> sudp_step e x c c'"
| sending: "sudp_encrypt_send x ch data rel c = (i, c') \<Longrightarrow> sudp_step e x c c'"
| connect: "yumi_sudp_client_connect e x pid c = (i, c') \<Longrightarrow> sudp_step e x c c'"
| kicked: "yumi_sudp_client_notify_kick e c = (i, c') \<Longrightarrow> sudp_step e x c c'"
| elsewhere: "sudp_step e x c (c\<lparr>registrar := reg, inner := u\<rparr>)"

inductive sudp_run :: "yumi_env \<Rightarrow> 'kp sudp_env \<Rightarrow> ('kp, 'cc) yumi_sudp_client \<Rightarrow> bytes list \<Rightarrow> nat \<Rightarrow> ('kp, 'cc) yumi_sudp_client \<Rightarrow> bool"
  for e x c0 where
  start: "sudp_run e x c0 [] 0 c0"
| step: "sudp_run e x c0 outs n c \<Longrightarrow> sudp_step e x c c' \<Longrightarrow> sudp_run e x c0 outs n c'"
| encrypted: "sudp_run e x c0 outs n c \<Longrightarrow> sudp_pkt_encrypt e x pt c = (r, c') \<Longrightarrow>
    sudp_run e x c0 ((case r of None \<Rightarrow> outs | Some ct \<Rightarrow> ct # outs)) (Suc n) c'"

section \<open>What the parts leave alone\<close>

text \<open>All a session is judged by: its state, its peer, its handshake, its keys being there, its counter.\<close>

abbreviation kept :: "('kp, 'cc) yumi_sudp_client \<Rightarrow> ('kp, 'cc) yumi_sudp_client \<Rightarrow> bool" where
  "kept c c' \<equiv> hs c' = hs c \<and> peer_id c' = peer_id c \<and> transport_key_ready c' = transport_key_ready c
     \<and> sudp_state c' = sudp_state c \<and> nonce_counter c' = nonce_counter c \<and> nonce_token c' = nonce_token c
     \<and> is_initiator c' = is_initiator c \<and> identity c' = identity c"

lemma kept_bump [simp]: "hs (bump k c) = hs c" "peer_id (bump k c) = peer_id c" "transport_key_ready (bump k c) = transport_key_ready c"
    "sudp_state (bump k c) = sudp_state c" "nonce_counter (bump k c) = nonce_counter c" "nonce_token (bump k c) = nonce_token c"
    "is_initiator (bump k c) = is_initiator c" "identity (bump k c) = identity c"
  by (simp_all add: bump_def)

lemma kept_state [simp]: "hs (sudp_set_state s c) = hs c" "peer_id (sudp_set_state s c) = peer_id c"
    "transport_key_ready (sudp_set_state s c) = transport_key_ready c" "sudp_state (sudp_set_state s c) = s"
    "nonce_counter (sudp_set_state s c) = nonce_counter c" "nonce_token (sudp_set_state s c) = nonce_token c"
  by (simp_all add: sudp_set_state_def)

lemma kept_set_hs [simp]: "hs (set_hs h c) = Some h" "peer_id (set_hs h c) = peer_id c" "transport_key_ready (set_hs h c) = transport_key_ready c"
    "sudp_state (set_hs h c) = sudp_state c" "nonce_counter (set_hs h c) = nonce_counter c" "nonce_token (set_hs h c) = nonce_token c"
  by (simp_all add: set_hs_def)

lemma kept_install [simp]: "kept c (install_keys e s r c)"
  by (simp add: install_keys_def)

lemma epoch_rekey_keeps: "sudp_epoch_rekey e ep c = (ok, c') \<Longrightarrow> kept c c'"
  by (auto simp: sudp_epoch_rekey_def Let_def install_keys_def split: option.splits prod.splits sum.splits)

lemma derive_keys_keeps:
  "sudp_derive_keys e a b d c = (ok, c') \<Longrightarrow> hs c' = hs c \<and> peer_id c' = peer_id c \<and> (transport_key_ready c \<or> ok \<longrightarrow> transport_key_ready c')
     \<and> sudp_state c' = sudp_state c \<and> nonce_counter c' = nonce_counter c \<and> nonce_token c' = nonce_token c"
  by (auto simp: sudp_derive_keys_def Let_def install_keys_def split: option.splits prod.splits sum.splits)

lemma send_msg_keeps: "send_msg e x mt data c = (ok, c') \<Longrightarrow> kept c c'"
  by (auto simp: send_msg_def split: prod.splits)

lemma expired_keeps: "hs_expired x c = (late, c') \<Longrightarrow> kept c c' \<and> (late \<longrightarrow> sudp_state c = YUMI_SUDP_HANDSHAKING)"
  by (auto simp: hs_expired_def split: if_splits)

lemma epoch_check_keeps: "encrypt_epoch_check e x pt c = (src, c') \<Longrightarrow> kept c c'"
  by (auto simp: encrypt_epoch_check_def Let_def dest!: epoch_rekey_keeps split: if_splits prod.splits sum.splits)

lemma select_keeps: "encrypt_select e x pt c = (b, src, c') \<Longrightarrow> kept c c'"
  by (auto simp: encrypt_select_def dest!: epoch_check_keeps split: if_splits)

lemma encrypt_rekey_keeps [simp]: "kept c (encrypt_rekey e ctr c)"
  by (simp add: encrypt_rekey_def split: option.splits)

lemma try_transport_keeps: "try_transport e ctr nonce ct c = (r, c') \<Longrightarrow> kept c c'"
  by (auto simp: try_transport_def Let_def split: if_splits option.splits)

lemma try_new_epoch_keeps:
  assumes "try_new_epoch e nonce ct c = (r, c')"
  shows "kept c c'"
proof (cases "gr_epoch_get_current e (registrar c)")
  case (Pair res reg)
  show ?thesis
  proof (cases res)
    case (Inl err)
    then show ?thesis using assms by (auto simp: try_new_epoch_def Pair split: if_splits)
  next
    case (Inr ep)
    obtain ok c2 where k: "sudp_epoch_rekey e ep (c\<lparr>registrar := reg\<rparr>) = (ok, c2)" by (cases "sudp_epoch_rekey e ep (c\<lparr>registrar := reg\<rparr>)")
    note k' = epoch_rekey_keeps [OF k]
    consider (not_ready) "\<not> transport_key_ready c" | (same) "transport_key_ready c" "e_epoch_id ep = epoch_id c"
      | (failed) "transport_key_ready c" "e_epoch_id ep \<noteq> epoch_id c" "\<not> ok" | (ok) "transport_key_ready c" "e_epoch_id ep \<noteq> epoch_id c" "ok" by blast
    then show ?thesis
    proof cases
      case ok
      then have "c' = c2" using assms k by (simp add: try_new_epoch_def Pair Inr Let_def split: option.splits)
      then show ?thesis using k' by simp
    qed (use assms k k' in \<open>auto simp: try_new_epoch_def Pair Inr Let_def\<close>)
  qed
qed

lemma decrypt_any_keeps:
  assumes "decrypt_any e ctr nonce ct c = (r, c')"
  shows "kept c c'"
proof -
  obtain r1 c1 where t: "try_transport e ctr nonce ct c = (r1, c1)" by (cases "try_transport e ctr nonce ct c")
  note t' = try_transport_keeps [OF t]
  have "c' = c1 \<or> (\<exists>r. try_new_epoch e nonce ct c1 = (r, c'))"
  proof (cases r1)
    case None
    then show ?thesis using assms t by (cases "open_with e nonce ct (epoch_subkeys c1)") (simp_all add: decrypt_any_def)
  qed (use assms t in \<open>simp add: decrypt_any_def\<close>)
  then show ?thesis
  proof (elim disjE exE)
    fix r assume "try_new_epoch e nonce ct c1 = (r, c')"
    from try_new_epoch_keeps [OF this] t' show ?thesis by simp
  qed (use t' in simp)
qed

text \<open>The two hooks: the state stays, or an overdue handshake fails; only encryption moves the counter.\<close>

lemma decrypt_keeps:
  assumes "sudp_pkt_decrypt e x ct c = (r, c')"
  shows "hs c' = hs c \<and> peer_id c' = peer_id c \<and> transport_key_ready c' = transport_key_ready c
     \<and> (sudp_state c' = sudp_state c \<or> sudp_state c = YUMI_SUDP_HANDSHAKING \<and> sudp_state c' = YUMI_SUDP_FAILED)
     \<and> nonce_counter c' = nonce_counter c \<and> nonce_token c' = nonce_token c"
  using assms by (auto simp: sudp_pkt_decrypt_def Let_def dest!: expired_keeps decrypt_any_keeps split: prod.splits bool.splits option.splits if_splits)

lemma encrypt_keeps:
  assumes "sudp_pkt_encrypt e x pt c = (r, c')"
  shows "hs c' = hs c \<and> peer_id c' = peer_id c \<and> transport_key_ready c' = transport_key_ready c
     \<and> (sudp_state c' = sudp_state c \<or> sudp_state c = YUMI_SUDP_HANDSHAKING \<and> sudp_state c' = YUMI_SUDP_FAILED)
     \<and> nonce_token c' = nonce_token c
     \<and> (case r of None \<Rightarrow> nonce_counter c' = nonce_counter c \<or> nonce_counter c' = nonce_counter c + 1
         | Some ct \<Rightarrow> nonce_counter c' = nonce_counter c + 1 \<and> (\<exists>body. ct = packet_nonce (nonce_token c) (nonce_counter c) @ body))"
proof -
  obtain late c1 where x: "hs_expired x c = (late, c1)" by (cases "hs_expired x c")
  note k1 = expired_keeps [OF x]
  show ?thesis
  proof (cases late)
    case True
    then have "r = None" "c' = sudp_set_state YUMI_SUDP_FAILED c1" using assms x by (simp_all add: sudp_pkt_encrypt_def)
    then show ?thesis using k1 True by simp
  next
    case False
    obtain b src c2 where sel: "encrypt_select e x pt c1 = (b, src, c2)" by (cases "encrypt_select e x pt c1")
    note k2 = select_keeps [OF sel]
    let ?c3 = "c2\<lparr>nonce_counter := nonce_counter c2 + 1\<rparr>"
    let ?c4 = "if b \<and> transport_key_ready ?c3 then encrypt_rekey e (nonce_counter c2) ?c3 else ?c3"
    have k4: "kept ?c3 ?c4" using encrypt_rekey_keeps [of e "nonce_counter c2" ?c3] by auto
    have "c' = ?c4 \<and> (\<exists>body. r = Some (packet_nonce (nonce_token ?c4) (nonce_counter c2) @ body))"
      using assms False by (simp add: sudp_pkt_encrypt_def x sel Let_def yumi_aead_encrypt_keyed_def) blast
    then obtain body where r: "c' = ?c4" "r = Some (packet_nonce (nonce_token ?c4) (nonce_counter c2) @ body)" by blast
    show ?thesis using k1 k2 k4 unfolding r(2) r(1) [symmetric] by simp
  qed
qed

section \<open>The handshake\<close>

text \<open>
  A handshake in progress is with the peer of the session, and an answer to a HELLO waits for its
  confirmation with the keys in place.
\<close>

definition session_ok :: "('kp, 'cc) yumi_sudp_client \<Rightarrow> bool" where
  "session_ok c \<longleftrightarrow> (\<forall>h. hs c = Some h \<longrightarrow> (hs_state h \<noteq> HS_IDLE \<longrightarrow> hs_peer_id h = peer_id c) \<and> (hs_state h = HS_WAIT_CONFIRM \<longrightarrow> transport_key_ready c))
     \<and> (sudp_state c = YUMI_SUDP_ESTABLISHED \<longrightarrow> hs c = None \<and> transport_key_ready c)"

definition open_ok :: "('kp, 'cc) yumi_sudp_client \<Rightarrow> bool" where
  "open_ok c \<longleftrightarrow> session_ok c \<and> sudp_state c \<noteq> YUMI_SUDP_ESTABLISHED"

lemma open_bump [simp]: "open_ok (bump k c) = open_ok c"
  by (simp add: open_ok_def session_ok_def)

lemma open_reg [simp]: "open_ok (c\<lparr>registrar := reg\<rparr>) = open_ok c" "open_ok (c\<lparr>inner := u\<rparr>) = open_ok c" "open_ok (c\<lparr>hs_deadline_us := t\<rparr>) = open_ok c"
  by (simp_all add: open_ok_def session_ok_def)

lemma open_state: "open_ok c \<Longrightarrow> s \<noteq> YUMI_SUDP_ESTABLISHED \<Longrightarrow> open_ok (sudp_set_state s c)"
  by (simp add: open_ok_def session_ok_def)

lemma open_set_hs [simp]: "open_ok c \<Longrightarrow> open_ok (set_hs h c) \<longleftrightarrow>
    (hs_state h \<noteq> HS_IDLE \<longrightarrow> hs_peer_id h = peer_id c) \<and> (hs_state h = HS_WAIT_CONFIRM \<longrightarrow> transport_key_ready c)"
  by (simp add: open_ok_def session_ok_def)

lemma open_or_fail: "open_ok c \<Longrightarrow> (\<And>a. v = Some a \<Longrightarrow> open_ok (f a c)) \<Longrightarrow> open_ok (or_fail v c f)"
  by (auto simp: or_fail_def open_state split: option.splits)

lemma open_if: "(b \<Longrightarrow> open_ok c) \<Longrightarrow> (\<not> b \<Longrightarrow> open_ok d) \<Longrightarrow> open_ok (if b then c else d)"
  by simp

lemma open_kept: "open_ok c \<Longrightarrow> kept c c' \<Longrightarrow> open_ok c'"
  by (simp add: open_ok_def session_ok_def)

lemma open_derive: "sudp_derive_keys e a b d c = (ok, c') \<Longrightarrow> open_ok c \<Longrightarrow> open_ok c' \<and> peer_id c' = peer_id c \<and> (ok \<longrightarrow> transport_key_ready c')"
  using derive_keys_keeps [of e a b d c ok c'] by (auto simp: open_ok_def session_ok_def)

lemma open_send: "open_ok c \<Longrightarrow> open_ok (case send_msg e x mt d c of (ok, c1) \<Rightarrow> or_fail (guard ok) c1 (\<lambda>_ c2. c2))"
  by (cases "send_msg e x mt d c") (auto intro!: open_or_fail dest: send_msg_keeps open_kept)

lemma open_connect_send:
  assumes c: "open_ok c" and h: "hs_peer_id h = peer_id c"
  shows "open_ok (connect_send e x h c)"
proof (cases "gr_epoch_get_current e (registrar c)")
  case (Pair res reg)
  show ?thesis
  proof (cases res)
    case (Inl err)
    then show ?thesis using c by (simp add: connect_send_def Pair open_state)
  next
    case (Inr epoch)
    show ?thesis unfolding connect_send_def Pair Inr Let_def prod.case sum.case
      by (rule open_or_fail, simp add: c, rule open_send, rule open_state) (simp_all add: c h)
  qed
qed

lemma open_connect_keys:
  "open_ok c \<Longrightarrow> hs_peer_id h = peer_id c \<Longrightarrow> hs_state h = HS_IDLE \<Longrightarrow> open_ok (connect_keys e x h c)"
  unfolding connect_keys_def Let_def by (auto intro!: open_or_fail open_connect_send simp: store_pk_def)

lemma open_worker_connect: "open_ok c \<Longrightarrow> open_ok (sudp_worker_connect e x data c)"
proof -
  assume c: "open_ok c"
  have est: "sudp_state c \<noteq> YUMI_SUDP_ESTABLISHED" using c by (simp add: open_ok_def)
  show ?thesis
  proof (cases "case hs c of Some h \<Rightarrow> Some h | None \<Rightarrow> hs_ctx_create e (calls_out c) (first_contact c)")
    case None
    then show ?thesis using c est unfolding sudp_worker_connect_def Let_def None option.case by (simp add: open_state)
  next
    case (Some h)
    have h: "hs_state h \<noteq> HS_IDLE \<longrightarrow> hs_peer_id h = peer_id c" "hs_state h = HS_WAIT_CONFIRM \<longrightarrow> transport_key_ready c"
      using Some c by (auto simp: open_ok_def session_ok_def hs_ctx_create_def split: option.splits if_splits)
    then have o: "open_ok (set_hs h (bump 4 c))" using c by simp
    have "open_ok (connect_keys e x (h\<lparr>hs_peer_id := data\<rparr>)
        ((set_hs (h\<lparr>hs_peer_id := data\<rparr>) (set_hs h (bump 4 c)))\<lparr>peer_id := data, peer_active := True, is_initiator := True\<rparr>))" if "hs_state h = HS_IDLE"
      using that o by (intro open_connect_keys) (simp_all add: open_ok_def session_ok_def)
    then show ?thesis using c est o unfolding sudp_worker_connect_def Let_def Some option.case by (auto intro!: open_state)
  qed
qed

lemma open_hello_answer:
  assumes c: "open_ok c" and h: "hs_peer_id h = peer_id c" "hs_state h = HS_WAIT_CONFIRM \<longrightarrow> transport_key_ready c"
  shows "open_ok (hello_answer e x msg h n a b d f c)"
proof -
  let ?h1 = "h\<lparr>hs_transcript := None\<rparr>"
  have k: "open_ok (case sudp_derive_keys e b f' d c2 of (ok, c3) \<Rightarrow> or_fail (guard ok) c3 (\<lambda>_ c4.
      case send_msg e x mt resp (set_hs (?h1\<lparr>hs_hash_saved := hash, hs_state := HS_WAIT_CONFIRM, hs_expected_msg := m\<rparr>) c4) of
        (sent, c5) \<Rightarrow> or_fail (guard sent) c5 (\<lambda>_ c6. c6)))"
    if c2: "open_ok c2" "peer_id c2 = peer_id c" for c2 f' mt resp hash m
  proof (cases "sudp_derive_keys e b f' d c2")
    case (Pair ok c3)
    note d = open_derive [OF Pair c2(1)]
    show ?thesis unfolding Pair prod.case
      by (rule open_or_fail, simp add: d, rule open_send) (use d h c2 in \<open>auto simp: guard_def split: if_splits\<close>)
  qed
  have s: "open_ok (set_hs ?h1 c)" using c h by simp
  show ?thesis unfolding hello_answer_def Let_def
    by (rule open_or_fail, simp add: s, rule open_or_fail, simp add: s, rule k) (simp_all add: s)
qed

lemma open_hello_exchange:
  assumes c: "open_ok c" and h: "hs_peer_id h = peer_id c" "hs_state h = HS_WAIT_CONFIRM \<longrightarrow> transport_key_ready c"
  shows "open_ok (hello_exchange e x msg h c)"
  unfolding hello_exchange_def Let_def using c h
  by (auto intro!: open_or_fail open_hello_answer simp: store_pk_def)

lemma open_hello_accept:
  assumes c: "open_ok c" and h: "hs_state h = HS_WAIT_CONFIRM \<longrightarrow> transport_key_ready c"
  shows "open_ok (hello_accept e x msg h c)"
proof (cases "gr_peer_get e (take 32 (drop 1 msg)) (registrar c)")
  case (Pair res reg)
  have o: "open_ok ((set_hs (h\<lparr>hs_peer_id := pid, hs_first_contact := fc\<rparr>) (c\<lparr>registrar := reg\<rparr>))
      \<lparr>peer_active := True, peer_id := pid, first_contact := fc, is_initiator := False\<rparr>)" for pid fc
    using c h by (simp add: open_ok_def session_ok_def)
  show ?thesis
  proof (cases res)
    case (Inl err)
    show ?thesis unfolding hello_accept_def Pair Inl Let_def prod.case sum.case by (rule open_if) (simp_all add: c)
  next
    case (Inr p)
    show ?thesis unfolding hello_accept_def Pair Inr Let_def prod.case sum.case
      by (rule open_if, rule c, rule open_if, simp add: c, rule open_hello_exchange, rule open_if) (use h o in simp_all)
  qed
qed

lemma open_process_hello: "open_ok c \<Longrightarrow> open_ok (sudp_process_hello e x msg c)"
proof -
  assume c: "open_ok c"
  show ?thesis
  proof (cases "hs c")
    case None
    then show ?thesis using c by (simp add: sudp_process_hello_def)
  next
    case (Some h)
    have h: "hs_state h \<noteq> HS_IDLE \<longrightarrow> hs_peer_id h = peer_id c" "hs_state h = HS_WAIT_CONFIRM \<longrightarrow> transport_key_ready c"
      using Some c by (auto simp: open_ok_def session_ok_def)
    show ?thesis unfolding sudp_process_hello_def Some option.case Let_def
      by (rule open_if, rule c, rule open_if, rule c, rule open_if, rule open_if, rule c, rule open_or_fail, simp add: c h,
          rule open_hello_accept) (use c h in \<open>auto intro!: open_hello_accept\<close>)
  qed
qed

section \<open>Who is at the other end\<close>

text \<open>
  How the peer of a session has shown who it is: by a signature of the transcript's hash, in the
  RESPONSE to one's own HELLO or in the CONFIRM of one's own RESPONSE.
\<close>

definition authenticated :: "yumi_env \<Rightarrow> ('kp, 'cc) yumi_sudp_client \<Rightarrow> bytes \<Rightarrow> bool" where
  "authenticated e c pid \<longleftrightarrow> (\<exists>h p msg. hs c = Some h \<and> map_option peer_read (ps_peer_get pid (reg_db (registrar c))) = Some p
     \<and> p_status p = GR_PEER_ACTIVE \<and> hs_peer_id h = pid
     \<and> (hs_state h = HS_HELLO_SENT \<and> take 32 (drop 1 msg) = pid \<and> (\<exists>n. mldsa_verify e (response_sig h msg) (response_hash e n h msg) (p_sign_key p))
        \<or> hs_state h = HS_WAIT_CONFIRM \<and> mldsa_verify e (take YUMI_MLDSA_SIGN_LEN (drop 1 msg)) (hs_hash_saved h) (p_sign_key p)))"

definition established :: "('kp, 'cc) yumi_sudp_client \<Rightarrow> bool" where
  "established c \<longleftrightarrow> sudp_state c = YUMI_SUDP_ESTABLISHED \<and> hs c = None \<and> transport_key_ready c"

lemma fetched_peer: "gr_peer_get e pid reg = (Inr p, reg') \<Longrightarrow> map_option peer_read (ps_peer_get pid (reg_db reg)) = Some p"
  by (auto simp: gr_peer_get_def db_fetch_def split: if_splits option.splits)

text \<open>A handler leaves the session open, or establishes it with peer \<open>pid\<close> for the reason \<open>V\<close>.\<close>

definition ends :: "bytes \<Rightarrow> bool \<Rightarrow> ('kp, 'cc) yumi_sudp_client \<Rightarrow> bool" where
  "ends pid V c \<longleftrightarrow> open_ok c \<or> established c \<and> peer_id c = pid \<and> V"

lemma ends_or_fail: "open_ok c \<Longrightarrow> (\<And>a. v = Some a \<Longrightarrow> ends pid V (f a c)) \<Longrightarrow> ends pid V (or_fail v c f)"
  by (auto simp: or_fail_def ends_def open_state split: option.splits)

lemma established_establish: "transport_key_ready c \<Longrightarrow> established (establish c)"
  by (simp add: established_def establish_def sudp_set_state_def)

lemma response_confirm_ends:
  assumes c: "open_ok c" and h: "hs_peer_id h = peer_id c" "hs_state h = HS_WAIT_CONFIRM \<longrightarrow> transport_key_ready c"
  shows "ends (peer_id c) (mldsa_verify e sig hash (p_sign_key p)) (response_confirm e x p a b f sig hash h c)"
  unfolding response_confirm_def
proof (rule ends_or_fail)
  fix u assume v: "guard (mldsa_verify e sig hash (p_sign_key p)) = Some u"
  obtain ok c2 where k: "sudp_derive_keys e a f b c = (ok, c2)" by (cases "sudp_derive_keys e a f b c")
  note d = open_derive [OF k c]
  have fin: "ends (peer_id c) (mldsa_verify e sig hash (p_sign_key p)) (case send_msg e x mt m (set_hs (h\<lparr>hs_state := HS_DONE\<rparr>) c3) of
      (sent, c5) \<Rightarrow> or_fail (guard sent) c5 (\<lambda>_ c6. establish c6))" if c3: "open_ok c3" "peer_id c3 = peer_id c" "transport_key_ready c3" for c3 mt m
  proof (cases "send_msg e x mt m (set_hs (h\<lparr>hs_state := HS_DONE\<rparr>) c3)")
    case (Pair sent c5)
    note s = send_msg_keeps [OF Pair]
    have "open_ok (set_hs (h\<lparr>hs_state := HS_DONE\<rparr>) c3)" using c3 h by simp
    then have o: "open_ok c5" using s open_kept by blast
    have "established (establish c5)" "peer_id (establish c5) = peer_id c" using s c3
      by (simp_all add: established_establish) (simp add: establish_def)
    then show ?thesis unfolding Pair prod.case using v o
      by (intro ends_or_fail) (auto simp: ends_def guard_def split: if_splits)
  qed
  show "ends (peer_id c) (mldsa_verify e sig hash (p_sign_key p)) (case sudp_derive_keys e a f b c of (ok, c2) \<Rightarrow> or_fail (guard ok) c2 (\<lambda>_ c3.
      or_fail (mldsa_sign e (calls_out c3) (id_secret_key (identity c3)) hash) (bump 1 c3) (\<lambda>own c4.
        case send_msg e x SUDP_MSG_CONFIRM ([YUMI_SUDP_PROTOCOL_VERSION] @ own) (set_hs (h\<lparr>hs_state := HS_DONE\<rparr>) c4) of
          (sent, c5) \<Rightarrow> or_fail (guard sent) c5 (\<lambda>_ c6. establish c6))))"
    unfolding k prod.case using d
    by (intro ends_or_fail fin) (auto simp: guard_def split: if_splits)
qed (rule c)

lemma response_result:
  assumes c: "open_ok c" and h: "hs_peer_id h = peer_id c" "hs_state h = HS_WAIT_CONFIRM \<longrightarrow> transport_key_ready c"
  shows "ends (peer_id c) (\<exists>n. mldsa_verify e (response_sig h msg) (response_hash e n h msg) (p_sign_key p)) (response_open e x msg p h c)"
  unfolding response_open_def Let_def
proof (rule ends_or_fail [OF c], rule ends_or_fail [OF c], rule ends_or_fail [OF c])
  fix a b f
  let ?c = "bump 1 (set_hs (h\<lparr>hs_transcript := None\<rparr>) c)" and ?n = "calls_out c"
  have "ends (peer_id ?c) (mldsa_verify e (response_sig h msg) (response_hash e ?n h msg) (p_sign_key p))
      (response_confirm e x p a b f (response_sig h msg) (response_hash e ?n h msg) (h\<lparr>hs_transcript := None\<rparr>) ?c)"
    using c h by (intro response_confirm_ends) simp_all
  then show "ends (peer_id c) (\<exists>n. mldsa_verify e (response_sig h msg) (response_hash e n h msg) (p_sign_key p))
      (response_confirm e x p a b f (response_sig h msg) (response_hash e ?n h msg) (h\<lparr>hs_transcript := None\<rparr>) ?c)"
    by (auto simp: ends_def)
qed

lemma ends_if: "(b \<Longrightarrow> ends pid V c) \<Longrightarrow> (\<not> b \<Longrightarrow> ends pid V d) \<Longrightarrow> ends pid V (if b then c else d)"
  by simp

lemma process_response_ends:
  assumes c: "open_ok c"
  shows "ends (peer_id c) (authenticated e c (peer_id c)) (sudp_process_response e x msg c)"
proof (cases "hs c")
  case None
  then show ?thesis using c by (simp add: sudp_process_response_def ends_def)
next
  case (Some h)
  have o: "ends (peer_id c) V c" for V using c by (simp add: ends_def)
  obtain res reg where g: "gr_peer_get e (take 32 (drop 1 msg)) (registrar c) = (res, reg)" by (cases "gr_peer_get e (take 32 (drop 1 msg)) (registrar c)")
  let ?c1 = "c\<lparr>registrar := reg\<rparr>"
  have o1: "ends (peer_id c) V ?c1" for V using c by (simp add: ends_def)
  show ?thesis
  proof (cases res)
    case (Inl err)
    show ?thesis unfolding sudp_process_response_def Some option.case g Inl prod.case sum.case
      by (rule ends_if, rule o, rule ends_if, rule o, rule ends_if, rule o, rule o1)
  next
    case (Inr p)
    have fin: "ends (peer_id c) (authenticated e c (peer_id c)) (response_open e x msg p h ?c1)"
      if st: "hs_state h = HS_HELLO_SENT" and act: "p_status p = GR_PEER_ACTIVE" and id: "take 32 (drop 1 msg) = hs_peer_id h"
    proof -
      have pid: "hs_peer_id h = peer_id c" using st Some c by (simp add: open_ok_def session_ok_def)
      have "ends (peer_id ?c1) (\<exists>n. mldsa_verify e (response_sig h msg) (response_hash e n h msg) (p_sign_key p)) (response_open e x msg p h ?c1)"
        using c pid st by (intro response_result) simp_all
      moreover have "authenticated e c (peer_id c)" if "\<exists>n. mldsa_verify e (response_sig h msg) (response_hash e n h msg) (p_sign_key p)"
        unfolding authenticated_def
        by (rule exI [of _ h], rule exI [of _ p], rule exI [of _ msg]) (use that Some pid act id st fetched_peer [OF g [unfolded Inr]] in auto)
      ultimately show ?thesis by (auto simp: ends_def)
    qed
    show ?thesis unfolding sudp_process_response_def Some option.case g Inr prod.case sum.case Let_def
      by (rule ends_if, rule o, rule ends_if, rule o, rule ends_if, rule o, rule ends_if, rule o1, rule ends_if, rule o1, rule fin) auto
  qed
qed

lemma process_confirm_ends:
  assumes c: "open_ok c"
  shows "ends (peer_id c) (authenticated e c (peer_id c)) (sudp_process_confirm e msg c)"
proof (cases "hs c")
  case None
  then show ?thesis using c by (simp add: sudp_process_confirm_def ends_def)
next
  case (Some h)
  have o: "ends (peer_id c) V c" for V using c by (simp add: ends_def)
  obtain res reg where g: "gr_peer_get e (hs_peer_id h) (registrar c) = (res, reg)" by (cases "gr_peer_get e (hs_peer_id h) (registrar c)")
  show ?thesis
  proof (cases res)
    case (Inl err)
    have "ends (peer_id c) V (sudp_set_state YUMI_SUDP_FAILED (c\<lparr>registrar := reg\<rparr>))" for V using c by (simp add: ends_def open_state)
    then show ?thesis unfolding sudp_process_confirm_def Some option.case g Inl prod.case sum.case
      by (intro ends_if o) blast
  next
    case (Inr p)
    let ?sig = "take YUMI_MLDSA_SIGN_LEN (drop 1 msg)"
    have fin: "ends (peer_id c) (authenticated e c (peer_id c)) (establish (set_hs (h\<lparr>hs_state := HS_DONE\<rparr>) (c\<lparr>registrar := reg\<rparr>)))"
      if st: "hs_state h = HS_WAIT_CONFIRM" and v: "p_status p = GR_PEER_ACTIVE \<and> mldsa_verify e ?sig (hs_hash_saved h) (p_sign_key p)"
    proof -
      have pid: "hs_peer_id h = peer_id c" "transport_key_ready c" using st Some c by (simp_all add: open_ok_def session_ok_def)
      have "authenticated e c (peer_id c)" unfolding authenticated_def
        by (rule exI [of _ h], rule exI [of _ p], rule exI [of _ msg]) (use v Some pid st fetched_peer [OF g [unfolded Inr]] in auto)
      moreover have "established (establish (set_hs (h\<lparr>hs_state := HS_DONE\<rparr>) (c\<lparr>registrar := reg\<rparr>)))"
        using pid(2) by (intro established_establish) simp
      ultimately show ?thesis by (simp add: ends_def establish_def)
    qed
    show ?thesis unfolding sudp_process_confirm_def Some option.case g Inr prod.case sum.case
      by (rule ends_if, rule o, rule ends_if, rule o, rule ends_if, rule o, rule ends_or_fail, simp add: c, rule fin)
        (auto simp: guard_def split: if_splits)
  qed
qed

lemma response_reasm [simp]: "response_sig (h\<lparr>hs_reasm := r\<rparr>) msg = response_sig h msg"
    "response_hash e n (h\<lparr>hs_reasm := r\<rparr>) msg = response_hash e n h msg"
  by (simp_all add: response_sig_def response_hash_def response_frodo_ct_def)

lemma bump_db [simp]: "reg_db (registrar (bump k c)) = reg_db (registrar c)" "registrar (set_hs h c) = registrar c"
  by (simp_all add: bump_def set_hs_def)

lemma authenticated_reasm:
  assumes a: "authenticated e (set_hs (h\<lparr>hs_reasm := r\<rparr>) (bump k c)) pid" and h: "hs c = Some h"
  shows "authenticated e c pid"
proof -
  obtain p msg where m: "map_option peer_read (ps_peer_get pid (reg_db (registrar c))) = Some p" "p_status p = GR_PEER_ACTIVE" "hs_peer_id h = pid"
      "hs_state h = HS_HELLO_SENT \<and> take 32 (drop 1 msg) = pid \<and> (\<exists>n. mldsa_verify e (response_sig h msg) (response_hash e n h msg) (p_sign_key p))
        \<or> hs_state h = HS_WAIT_CONFIRM \<and> mldsa_verify e (take YUMI_MLDSA_SIGN_LEN (drop 1 msg)) (hs_hash_saved h) (p_sign_key p)"
    using a unfolding authenticated_def kept_set_hs bump_db response_reasm option.inject by auto
  show ?thesis unfolding authenticated_def
    by (rule exI [of _ h], rule exI [of _ p], rule exI [of _ msg]) (use h m in blast)
qed

lemma handshake_msg_ends:
  assumes "open_ok c"
  shows "\<exists>pid. ends pid (authenticated e c pid) (sudp_process_handshake_msg e x mt msg c)"
  using process_response_ends [OF assms, of e x msg] process_confirm_ends [OF assms, of e msg] open_process_hello [OF assms, of e x msg] assms
  by (auto simp: sudp_process_handshake_msg_def ends_def)

lemma open_data [simp]: "open_ok (c\<lparr>data_calls := l\<rparr>) = open_ok c"
  by (simp add: open_ok_def session_ok_def)

lemma recv_handshake_ends:
  assumes c: "open_ok c"
  shows "\<exists>pid. ends pid (authenticated e c pid) (recv_handshake e x pkt c)"
proof (cases "hs c")
  case None
  then show ?thesis using c by (auto simp: recv_handshake_def ends_def)
next
  case (Some h)
  obtain m r where f: "sudp_frag_receive (malloc_ok e (calls_out c)) (malloc_ok e (calls_out c + 1)) (mono_us x (calls_out c))
      (mono_us x (calls_out c + 1)) pkt (hs_reasm h) = (m, r)" by (meson surj_pair)
  let ?c1 = "set_hs (h\<lparr>hs_reasm := r\<rparr>) (bump 2 c)"
  have o: "open_ok ?c1" using c Some by (simp add: open_ok_def session_ok_def)
  show ?thesis
  proof (cases "length pkt < SUDP_HS_FRAG_HDR")
    case True
    then show ?thesis using c Some by (auto simp: recv_handshake_def ends_def)
  next
    case long: False
    show ?thesis
    proof (cases m)
      case None
      then show ?thesis using long o Some f by (auto simp: recv_handshake_def ends_def)
    next
      case (Some m')
      obtain pid where "ends pid (authenticated e ?c1 pid) (sudp_process_handshake_msg e x (pkt ! 4) m' ?c1)"
        using handshake_msg_ends [OF o] by blast
      then have "ends pid (authenticated e c pid) (sudp_process_handshake_msg e x (pkt ! 4) m' ?c1)"
        using authenticated_reasm \<open>hs c = Some h\<close> unfolding ends_def by blast
      then show ?thesis using long \<open>hs c = Some h\<close> f Some by (auto simp: recv_handshake_def)
    qed
  qed
qed

lemma inner_recv_ends:
  assumes c: "open_ok c"
  shows "\<exists>pid. ends pid (authenticated e c pid) (sudp_inner_recv e x pkt rel c)"
proof -
  have "open_ok (recv_data pkt rel c)" using c by (simp add: recv_data_def Let_def open_state)
  then show ?thesis using c recv_handshake_ends [OF c, of e x pkt] by (auto simp: sudp_inner_recv_def ends_def)
qed

text \<open>In an established session nothing is negotiated any more.\<close>

lemma inner_recv_established:
  assumes "session_ok c" "sudp_state c = YUMI_SUDP_ESTABLISHED"
  shows "kept c (sudp_inner_recv e x pkt rel c) \<or> open_ok (sudp_inner_recv e x pkt rel c)"
proof -
  have "hs c = None" using assms by (simp add: session_ok_def)
  then have "recv_handshake e x pkt c = c" by (simp add: recv_handshake_def)
  moreover have "open_ok (sudp_set_state YUMI_SUDP_FAILED c)" using \<open>hs c = None\<close> by (simp add: open_ok_def session_ok_def)
  ultimately show ?thesis by (simp add: sudp_inner_recv_def recv_data_def Let_def)
qed

section \<open>Steps\<close>

definition step_ok :: "yumi_env \<Rightarrow> ('kp, 'cc) yumi_sudp_client \<Rightarrow> ('kp, 'cc) yumi_sudp_client \<Rightarrow> bool" where
  "step_ok e c c' \<longleftrightarrow> session_ok c' \<and> (sudp_state c' = YUMI_SUDP_ESTABLISHED \<longrightarrow>
      (if sudp_state c = YUMI_SUDP_ESTABLISHED then peer_id c' = peer_id c else authenticated e c (peer_id c')))"

lemma step_open: "open_ok c' \<Longrightarrow> step_ok e c c'"
  by (simp add: step_ok_def open_ok_def)

lemma step_same:
  assumes "session_ok c" "hs c' = hs c" "peer_id c' = peer_id c" "transport_key_ready c' = transport_key_ready c"
    "sudp_state c' = sudp_state c \<or> sudp_state c' = YUMI_SUDP_FAILED"
  shows "step_ok e c c'"
  using assms by (auto simp: step_ok_def session_ok_def)

lemma send_keeps:
  "sudp_encrypt_send x ch data rel c = (i, c') \<Longrightarrow> hs c' = hs c \<and> peer_id c' = peer_id c \<and> transport_key_ready c' = transport_key_ready c
     \<and> (sudp_state c' = sudp_state c \<or> sudp_state c' = YUMI_SUDP_FAILED) \<and> nonce_counter c' = nonce_counter c \<and> nonce_token c' = nonce_token c"
  by (auto simp: sudp_encrypt_send_def Let_def split: if_splits prod.splits)

lemma connect_keeps: "yumi_sudp_client_connect e x pid c = (i, c') \<Longrightarrow> kept c c'"
  by (auto simp: yumi_sudp_client_connect_def Let_def split: if_splits prod.splits sum.splits)

lemma kick_keeps:
  "yumi_sudp_client_notify_kick e c = (i, c') \<Longrightarrow> hs c' = hs c \<and> peer_id c' = peer_id c \<and> transport_key_ready c' = transport_key_ready c
     \<and> (sudp_state c' = sudp_state c \<or> sudp_state c' = YUMI_SUDP_FAILED) \<and> nonce_counter c' = nonce_counter c \<and> nonce_token c' = nonce_token c"
  by (auto simp: yumi_sudp_client_notify_kick_def Let_def split: if_splits prod.splits sum.splits)

lemma worker_connect_step: "session_ok c \<Longrightarrow> step_ok e c (sudp_worker_connect e x data c)"
proof (cases "sudp_state c = YUMI_SUDP_ESTABLISHED")
  case True
  then have "sudp_worker_connect e x data c = c" by (simp add: sudp_worker_connect_def)
  then show "session_ok c \<Longrightarrow> ?thesis" by (simp add: step_same)
next
  case False
  assume "session_ok c"
  with False show ?thesis by (intro step_open open_worker_connect) (simp add: open_ok_def)
qed

lemma inner_recv_step: "session_ok c \<Longrightarrow> step_ok e c (sudp_inner_recv e x pkt rel c)"
proof (cases "sudp_state c = YUMI_SUDP_ESTABLISHED")
  case True
  then show "session_ok c \<Longrightarrow> ?thesis" using inner_recv_established [of c e x pkt rel] by (auto intro: step_open step_same)
next
  case False
  assume "session_ok c"
  with False have o: "open_ok c" by (simp add: open_ok_def)
  obtain pid where "ends pid (authenticated e c pid) (sudp_inner_recv e x pkt rel c)" using inner_recv_ends [OF o] by blast
  then show ?thesis using False by (auto simp: ends_def step_open) (auto simp: step_ok_def established_def session_ok_def)
qed

lemma sudp_step_ok:
  assumes "sudp_step e x c c'" "session_ok c"
  shows "step_ok e c c'"
  using assms(1)
proof cases
  case (connecting data)
  then show ?thesis using assms(2) by (simp add: worker_connect_step)
next
  case (received pkt rel)
  then show ?thesis using assms(2) by (simp add: inner_recv_step)
next
  case (decrypted ct r)
  from decrypt_keeps [OF this] show ?thesis by (intro step_same [OF assms(2)]) auto
next
  case (sending ch data rel i)
  from send_keeps [OF this] show ?thesis by (intro step_same [OF assms(2)]) auto
next
  case (connect pid i)
  from connect_keeps [OF this] show ?thesis by (intro step_same [OF assms(2)]) auto
next
  case (kicked i)
  from kick_keeps [OF this] show ?thesis by (intro step_same [OF assms(2)]) auto
next
  case (elsewhere reg u)
  then show ?thesis by (intro step_same [OF assms(2)]) auto
qed

lemma encrypt_step_ok: "sudp_pkt_encrypt e x pt c = (r, c') \<Longrightarrow> session_ok c \<Longrightarrow> step_ok e c c'"
  using encrypt_keeps [of e x pt c r c'] by (intro step_same) auto

end
