(* ===== verification/Sudp_Safety.thy ===== *)
theory Sudp_Safety imports Sudp_Handshake Demo
begin

text \<open>
  Two properties of all runs of a secure client: who it ends up talking to, and the nonces it uses.  At
  the end a session of a concrete client, from its creation to the state ESTABLISHED.
\<close>

section \<open>Authentication\<close>

lemma sudp_create_ok:
  assumes "yumi_sudp_client_create e x reg self fc cb u = Some c"
  shows "session_ok c" "sudp_state c = YUMI_SUDP_DISCONNECTED" "nonce_counter c = 0"
  using assms by (auto simp: yumi_sudp_client_create_def hs_ctx_create_def session_ok_def Let_def split: if_splits prod.splits sum.splits option.splits)

text \<open>What is known of the client after any run.\<close>

definition traced :: "yumi_env \<Rightarrow> 'kp sudp_env \<Rightarrow> ('kp, 'cc) yumi_sudp_client \<Rightarrow> ('kp, 'cc) yumi_sudp_client \<Rightarrow> bool" where
  "traced e x c0 c \<longleftrightarrow> session_ok c \<and> (sudp_state c = YUMI_SUDP_ESTABLISHED \<longrightarrow>
     (\<exists>outs n c1. sudp_run e x c0 outs n c1 \<and> sudp_state c1 \<noteq> YUMI_SUDP_ESTABLISHED \<and> authenticated e c1 (peer_id c)))"

lemma traced_step: "traced e x c0 c \<Longrightarrow> sudp_run e x c0 outs n c \<Longrightarrow> step_ok e c c' \<Longrightarrow> traced e x c0 c'"
  unfolding traced_def step_ok_def by (auto split: if_splits)

lemma run_traced:
  assumes run: "sudp_run e x c0 outs n c" and c0: "session_ok c0" "sudp_state c0 \<noteq> YUMI_SUDP_ESTABLISHED"
  shows "traced e x c0 c"
  using run
proof induction
  case start
  show ?case using c0 by (simp add: traced_def)
next
  case (step outs n c c')
  then show ?case using traced_step sudp_step_ok traced_def by blast
next
  case (encrypted outs n c pt r c')
  then show ?case using traced_step encrypt_step_ok traced_def by blast
qed


section \<open>Nonces\<close>

text \<open>Only the hook that encrypts touches the token and the counter.\<close>

definition same_nonce :: "('kp, 'cc) yumi_sudp_client \<Rightarrow> ('kp, 'cc) yumi_sudp_client \<Rightarrow> bool" where
  "same_nonce c d \<longleftrightarrow> nonce_counter d = nonce_counter c \<and> nonce_token d = nonce_token c"

lemma same_nonce_simps [simp]: "same_nonce c c" "same_nonce c (bump k d) = same_nonce c d" "same_nonce c (sudp_set_state s d) = same_nonce c d"
    "same_nonce c (set_hs h d) = same_nonce c d" "same_nonce c (d\<lparr>registrar := reg\<rparr>) = same_nonce c d" "same_nonce c (d\<lparr>inner := u\<rparr>) = same_nonce c d"
    "same_nonce c (d\<lparr>hs_deadline_us := t\<rparr>) = same_nonce c d" "same_nonce c (establish d) = same_nonce c d"
    "same_nonce c (d\<lparr>data_calls := l\<rparr>) = same_nonce c d" "same_nonce c (d\<lparr>peer_active := b\<rparr>) = same_nonce c d"
    "same_nonce c (d\<lparr>peer_active := b, peer_id := i, first_contact := f, is_initiator := j\<rparr>) = same_nonce c d"
    "same_nonce c (d\<lparr>peer_id := i, peer_active := b, is_initiator := j\<rparr>) = same_nonce c d"
  by (simp_all add: same_nonce_def establish_def)

lemma same_or_fail: "same_nonce c d \<Longrightarrow> (\<And>a d. same_nonce c d \<Longrightarrow> same_nonce c (f a d)) \<Longrightarrow> same_nonce c (or_fail v d f)"
  by (simp add: or_fail_def split: option.splits)

lemma same_if: "(b \<Longrightarrow> same_nonce c d) \<Longrightarrow> (\<not> b \<Longrightarrow> same_nonce c d') \<Longrightarrow> same_nonce c (if b then d else d')"
  by simp

lemma same_send: "same_nonce c d \<Longrightarrow> (\<And>ok d. same_nonce c d \<Longrightarrow> same_nonce c (f ok d)) \<Longrightarrow> same_nonce c (case send_msg e x mt m d of (ok, d') \<Rightarrow> f ok d')"
  by (cases "send_msg e x mt m d") (auto simp: same_nonce_def dest: send_msg_keeps)

lemma same_derive:
  "same_nonce c d \<Longrightarrow> (\<And>ok d. same_nonce c d \<Longrightarrow> same_nonce c (f ok d)) \<Longrightarrow> same_nonce c (case sudp_derive_keys e i j k d of (ok, d') \<Rightarrow> f ok d')"
  by (cases "sudp_derive_keys e i j k d") (auto simp: same_nonce_def dest: derive_keys_keeps)

lemma same_connect_send: "same_nonce c d \<Longrightarrow> same_nonce c (connect_send e x h d)"
  unfolding connect_send_def Let_def
  by (cases "gr_epoch_get_current e (registrar d)"; cases "fst (gr_epoch_get_current e (registrar d))")
    (auto intro!: same_or_fail same_send)

lemma same_connect_keys: "same_nonce c d \<Longrightarrow> same_nonce c (connect_keys e x h d)"
  unfolding connect_keys_def Let_def case_prod_beta by (intro same_or_fail same_if same_connect_send) simp_all

lemma same_worker_connect: "same_nonce c (sudp_worker_connect e x data c)"
  unfolding sudp_worker_connect_def Let_def by (simp add: same_connect_keys split: option.split)

lemma same_hello_answer: "same_nonce c d \<Longrightarrow> same_nonce c (hello_answer e x msg h n i j k f d)"
  unfolding hello_answer_def Let_def by (intro same_or_fail same_derive same_send) simp_all

lemma same_hello_exchange: "same_nonce c d \<Longrightarrow> same_nonce c (hello_exchange e x msg h d)"
  unfolding hello_exchange_def Let_def case_prod_beta by (intro same_or_fail same_if same_hello_answer) simp_all

lemma same_hello_accept: "same_nonce c d \<Longrightarrow> same_nonce c (hello_accept e x msg h d)"
  unfolding hello_accept_def Let_def
  by (cases "gr_peer_get e (take 32 (drop 1 msg)) (registrar d)"; cases "fst (gr_peer_get e (take 32 (drop 1 msg)) (registrar d))")
    (auto intro!: same_hello_exchange)

lemma same_process_hello: "same_nonce c d \<Longrightarrow> same_nonce c (sudp_process_hello e x msg d)"
  unfolding sudp_process_hello_def Let_def by (cases "hs d") (auto intro!: same_or_fail same_hello_accept)

lemma same_response_open: "same_nonce c d \<Longrightarrow> same_nonce c (response_open e x msg p h d)"
  unfolding response_open_def response_confirm_def Let_def by (intro same_or_fail same_derive same_send) simp_all

lemma same_process_response: "same_nonce c d \<Longrightarrow> same_nonce c (sudp_process_response e x msg d)"
  unfolding sudp_process_response_def Let_def
  by (cases "hs d"; cases "gr_peer_get e (take 32 (drop 1 msg)) (registrar d)"; cases "fst (gr_peer_get e (take 32 (drop 1 msg)) (registrar d))")
    (auto intro!: same_response_open)

lemma same_process_confirm: "same_nonce c d \<Longrightarrow> same_nonce c (sudp_process_confirm e msg d)"
  by (auto simp: sudp_process_confirm_def intro!: same_or_fail split: option.split sum.split prod.split)

lemma same_inner_recv: "same_nonce c (sudp_inner_recv e x pkt rel c)"
  by (auto simp: sudp_inner_recv_def recv_data_def recv_handshake_def sudp_process_handshake_msg_def Let_def same_process_hello
      same_process_response same_process_confirm split: option.split prod.split)

lemma same_step:
  assumes "sudp_step e x c c'"
  shows "same_nonce c c'"
  using assms
proof cases
  case (decrypted ct r)
  from decrypt_keeps [OF this] show ?thesis by (simp add: same_nonce_def)
next
  case (sending ch data rel i)
  from send_keeps [OF this] show ?thesis by (simp add: same_nonce_def)
next
  case (connect pid i)
  from connect_keeps [OF this] show ?thesis by (simp add: same_nonce_def)
next
  case (kicked i)
  from kick_keeps [OF this] show ?thesis by (simp add: same_nonce_def)
qed (simp_all add: same_worker_connect same_inner_recv)

text \<open>The datagrams, newest first, carry ever smaller counters, all below the present one.\<close>

definition labelled :: "bytes \<Rightarrow> bytes list \<Rightarrow> nat \<Rightarrow> bool" where
  "labelled tok outs m \<longleftrightarrow> (\<exists>ks. map (take 16) outs = map (\<lambda>k. packet_nonce tok (of_nat k)) ks \<and> sorted_wrt (>) ks \<and> (\<forall>k\<in>set ks. k < m))"

lemma labelled_Suc: "labelled tok outs m \<Longrightarrow> labelled tok outs (Suc m)"
  unfolding labelled_def by (meson less_SucI)

lemma labelled_Cons:
  assumes "labelled tok outs m" "take 16 ct = packet_nonce tok (of_nat m)"
  shows "labelled tok (ct # outs) (Suc m)"
proof -
  obtain ks where "map (take 16) outs = map (\<lambda>k. packet_nonce tok (of_nat k)) ks" "sorted_wrt (>) ks" "\<forall>k\<in>set ks. k < m"
    using assms(1) unfolding labelled_def by blast
  then show ?thesis unfolding labelled_def by (intro exI [of _ "m # ks"]) (use assms(2) in auto)
qed

lemma length_packet_nonce: "length tok = 8 \<Longrightarrow> length (packet_nonce tok ctr) = 16"
  by (simp add: packet_nonce_def be_bytes_def length_le_bytes)

lemma run_labelled:
  assumes "sudp_run e x c0 outs n c" and c0: "nonce_counter c0 = 0" "length (nonce_token c0) = 8"
  shows "nonce_token c = nonce_token c0 \<and> (\<exists>m\<le>n. nonce_counter c = of_nat m \<and> labelled (nonce_token c0) outs m)"
  using assms(1)
proof induction
  case start
  show ?case using c0 by (simp add: labelled_def)
next
  case (step outs n c c')
  then show ?case using same_step [OF step.hyps(2)] by (simp add: same_nonce_def)
next
  case (encrypted outs n c pt r c')
  then obtain m where m: "nonce_token c = nonce_token c0" "m \<le> n" "nonce_counter c = of_nat m" "labelled (nonce_token c0) outs m" by blast
  note k = encrypt_keeps [OF encrypted.hyps(2)]
  show ?case
  proof (cases r)
    case None
    then show ?thesis using k m labelled_Suc [OF m(4)] le_SucI [OF m(2)]
      by (auto intro: exI [of _ m] exI [of _ "Suc m"] simp: add.commute)
  next
    case (Some ct)
    then obtain body where "ct = packet_nonce (nonce_token c0) (of_nat m) @ body" using k m by auto
    then have "take 16 ct = packet_nonce (nonce_token c0) (of_nat m)" using c0(2) by (simp add: length_packet_nonce)
    from labelled_Cons [OF m(4) this] show ?thesis using k m Some
      by (auto intro!: exI [of _ "Suc m"] simp: add.commute)
  qed
qed

lemma packet_nonce_inj:
  assumes "packet_nonce tok (of_nat i) = packet_nonce tok (of_nat j)" "i < 2 ^ 64" "j < 2 ^ 64"
  shows "i = j"
proof -
  have "le_bytes 8 (of_nat i :: u64) = le_bytes 8 (of_nat j :: u64)" using assms(1) by (simp add: packet_nonce_def be_bytes_def)
  from arg_cong [where f = "le_word :: bytes \<Rightarrow> u64", OF this] have "(of_nat i :: u64) = of_nat j" by (simp add: le_word_le_bytes)
  from arg_cong [where f = unat, OF this] show ?thesis using assms(2,3) by (simp add: unsigned_of_nat take_bit_eq_mod)
qed

text \<open>
  C38. No nonce is used twice.  However a client lives from its creation on, the datagrams its hook
  encrypts all start with different nonces of sixteen bytes, as long as the hook has been called at most
  2 ^ 64 times: a token drawn at creation and a counter which every call but a refused one raises, and
  which no handshake, change of epoch or reconnection ever sets back.
\<close>

theorem nonces_never_repeat:
  assumes "yumi_sudp_client_create e x reg self fc cb u = Some c0" "sudp_run e x c0 outs n c"
    and "\<forall>k b. randombytes e k 8 = Some b \<longrightarrow> length b = 8" and "n \<le> 2 ^ 64"
  shows "distinct (map (take 16) outs)"
proof -
  have "length (nonce_token c0) = 8" using assms(1,3)
    by (auto simp: yumi_sudp_client_create_def hs_ctx_create_def Let_def split: if_splits prod.splits sum.splits option.splits)
  from run_labelled [OF assms(2) sudp_create_ok(3) [OF assms(1)] this] obtain m ks where
    m: "m \<le> n" "map (take 16) outs = map (\<lambda>k. packet_nonce (nonce_token c0) (of_nat k)) ks" "sorted_wrt (>) ks" "\<forall>k\<in>set ks. k < m"
    by (auto simp: labelled_def)
  have "distinct ks" using m(3) by (induction ks) auto
  moreover have "inj_on (\<lambda>k. packet_nonce (nonce_token c0) (of_nat k)) (set ks)"
    using m(1,4) assms(4) by (intro inj_onI packet_nonce_inj) fastforce+
  ultimately show ?thesis unfolding m(2) by (simp add: distinct_map)
qed

section \<open>A session of a concrete client\<close>

definition demo_sudp :: "nat sudp_env" where
  "demo_sudp = \<lparr>mono_us = (\<lambda>n. 1), bp512_keygen = (\<lambda>n. Some n), bp512_public_key = (\<lambda>k. Some [of_nat k]), bp512_ecdh = (\<lambda>k pk. Some [3]),
     frodo_keygen = (\<lambda>n. Some ([4], [5])), frodo_encaps = (\<lambda>n pk. Some ([6], [7])), frodo_decaps = (\<lambda>sk ct. Some [7]), ring_cell = (\<lambda>n. zero_item)\<rparr>"

definition demo_secure_db :: gr_db where
  "demo_secure_db = demo_db\<lparr>db_peers := [(demo_peer 4 0 0)\<lparr>p_peer_id := replicate 32 4\<rparr>]\<rparr>"

definition demo_secure_reg :: gr_registrar where
  "demo_secure_reg = demo_reg\<lparr>reg_db := demo_secure_db\<rparr>"

definition demo_secure :: "(nat, unit) yumi_sudp_client option" where
  "demo_secure = yumi_sudp_client_create demo_env demo_sudp demo_secure_reg (demo_identity 2) False True (Some (demo_client\<lparr>max_payload := 10000\<rparr>))"

text \<open>What holds of the demo's client while its queue has \<open>k\<close> entries.\<close>

abbreviation in_demo :: "nat \<Rightarrow> (nat, unit) yumi_sudp_client \<Rightarrow> bool" where
  "in_demo k c \<equiv> reg_db (registrar c) = demo_secure_db \<and> reg_header (registrar c) = demo_header
     \<and> max_payload (inner c) = 10000 \<and> length (send_ring (inner c)) = k"

lemma demo_epoch: "reg_db r = demo_secure_db \<Longrightarrow> reg_header r = demo_header \<Longrightarrow> \<exists>ep. gr_epoch_get_current demo_env r = (Inr ep, tick r)"
  by (simp add: gr_epoch_get_current_def gr_epoch_get_def db_fetch_def ps_epoch_get_def demo_secure_db_def demo_db_def demo_header_def demo_env_def)

lemma demo_peer_found: "reg_db r = demo_secure_db \<Longrightarrow>
    \<exists>p. gr_peer_get demo_env (replicate 32 4) r = (Inr p, tick r) \<and> p_status p = GR_PEER_ACTIVE"
  by (simp add: gr_peer_get_def db_fetch_def ps_peer_get_def tbl_get_def demo_secure_db_def demo_db_def demo_env_def demo_peer_def peer_read_def)

lemma demo_hkdf: "length info \<le> 126 \<Longrightarrow> \<exists>k. yumi_hkdf demo_env (\<lambda>i. lease_ok demo_env (f i)) len ikm salt info = Some (Inr k)"
  by (subst hkdf_ok [OF demo_prims]) (simp_all add: demo_env_def)

lemma demo_combine: "\<exists>k. combine_secrets demo_env n a None b = Some k"
  using demo_hkdf [of "cstr ''yumi-peer-v1''" "\<lambda>i. n + 1 + i" 128 "a @ b" None]
  by (auto simp: combine_secrets_def yumi_combine_peer_keys_def demo_env_def cstr_def)

lemma demo_seed: "\<exists>k. hkdf128 demo_env n ikm salt (cstr ''yumi-rekey-seed-v1'') = Some k"
  using demo_hkdf [of "cstr ''yumi-rekey-seed-v1''" "\<lambda>i. n + i" 128 ikm salt] by (auto simp: hkdf128_def cstr_def)

lemma demo_gen: "\<exists>k. sudp_derive_gen_key demo_env n s g d = Some k"
  using demo_hkdf [of "cstr ''yumi-rekey-gen-init-v1''" "\<lambda>i. n + i" 128 s "Some (be_bytes 4 g)"]
    demo_hkdf [of "cstr ''yumi-rekey-gen-resp-v1''" "\<lambda>i. n + i" 128 s "Some (be_bytes 4 g)"]
  by (auto simp: sudp_derive_gen_key_def hkdf128_def cstr_def)

lemma demo_derive:
  assumes "in_demo k c"
  shows "\<exists>c'. sudp_derive_keys demo_env a None b c = (True, c') \<and> in_demo k c'"
proof -
  obtain k1 where k1: "combine_secrets demo_env (calls_out c) a None b = Some k1" using demo_combine by blast
  obtain ep where ep: "gr_epoch_get_current demo_env (registrar (bump 2 c)) = (Inr ep, tick (registrar (bump 2 c)))"
    using demo_epoch [of "registrar (bump 2 c)"] assms by (auto simp: bump_def)
  define c1 where "c1 = (bump 2 c)\<lparr>registrar := tick (registrar (bump 2 c)), epoch_id := e_epoch_id ep\<rparr>"
  obtain s where s: "hkdf128 demo_env (calls_out c1) k1 (Some (e_epoch_key ep)) (cstr ''yumi-rekey-seed-v1'') = Some s" using demo_seed by blast
  define c2 where "c2 = (bump 1 c1)\<lparr>rekey_seed := s\<rparr>"
  obtain i where i: "sudp_derive_gen_key demo_env (calls_out c2) s 0 True = Some i" using demo_gen by blast
  obtain r where r: "sudp_derive_gen_key demo_env (calls_out c2 + 1) s 0 False = Some r" using demo_gen by blast
  have "sudp_derive_keys demo_env a None b c =
      (True, (install_keys demo_env (if is_initiator c2 then i else r) (if is_initiator c2 then r else i) (bump 2 c2))\<lparr>transport_key_ready := True\<rparr>)"
    unfolding sudp_derive_keys_def k1 Let_def option.case ep prod.case sum.case c1_def [symmetric] s c2_def [symmetric] i r by (rule refl)
  moreover have "in_demo k c2" using assms by (simp add: c2_def c1_def bump_def tick_def)
  ultimately show ?thesis by (simp add: install_keys_def bump_def)
qed

lemma demo_send:
  assumes "in_demo k c" "k < 100" "0 < length d" "length d \<le> 9992"
  shows "\<exists>c'. send_msg demo_env demo_sudp mt d c = (True, c') \<and> in_demo (k + 1) c'"
proof -
  let ?cell = "\<lambda>i. ring_cell demo_sudp (calls_out c + i)"
  obtain r u where s: "sudp_frag_send True ?cell mt d (inner c) = (r, u)" by (cases "sudp_frag_send True ?cell mt d (inner c)")
  have n: "frag_count (unat (max_payload (inner c)) - 8) d = 1" using assms unfolding frag_count_def by (intro div_nat_eqI) (auto simp: Suc_le_eq)
  from frag_send_queues [OF s] n assms obtain items where u: "u = (inner c)\<lparr>send_ring := send_ring (inner c) @ items\<rparr>" "r = 0"
      "map item_content items = map (frag_of mt 1 9992 d) [0..<1]" by auto
  have "length (map item_content items) = 1" unfolding u(3) by simp
  then have "length items = 1" by simp
  then show ?thesis using s u assms(1) by (simp add: send_msg_def demo_env_def bump_def)
qed

lemma demo_calls [simp]: "malloc_ok demo_env n" "skein_ok demo_env n" "mldsa_sign demo_env n sk m = Some [7]" "mldsa_verify demo_env s m pk"
    "mlkem_keygen demo_env n = Some ([8], [9])" "mlkem_decaps demo_env ct sk = Some [2]" "bp512_keygen demo_sudp n = Some n"
    "bp512_public_key demo_sudp k = Some [of_nat k]" "bp512_ecdh demo_sudp k pk = Some [3]" "mono_us demo_sudp n = 1"
  by (simp_all add: demo_env_def demo_sudp_def)

lemma demo_connect_send:
  assumes c: "in_demo 0 c" and l: "length (hello_msg demo_env (id_peer_id (identity c)) 1 h) \<le> 9992"
  shows "\<exists>c' t. connect_send demo_env demo_sudp h c = c' \<and> in_demo 1 c' \<and> sudp_state c' = YUMI_SUDP_HANDSHAKING
    \<and> hs c' = Some (h\<lparr>hs_transcript := t, hs_state := HS_HELLO_SENT, hs_expected_msg := SUDP_MSG_RESPONSE\<rparr>)"
proof -
  obtain ep where ep: "gr_epoch_get_current demo_env (registrar c) = (Inr ep, tick (registrar c))" using demo_epoch c by blast
  let ?hello = "hello_msg demo_env (id_peer_id (identity c)) (e_epoch_id ep) h"
  let ?h = "h\<lparr>hs_transcript := hash_update ?hello (hs_transcript h), hs_state := HS_HELLO_SENT, hs_expected_msg := SUDP_MSG_RESPONSE\<rparr>"
  define c3 where "c3 = sudp_set_state YUMI_SUDP_HANDSHAKING ((bump 1 (set_hs ?h (bump 1 (c\<lparr>registrar := tick (registrar c)\<rparr>))))
     \<lparr>hs_deadline_us := 1 + hs_timeout (hs_first_contact h)\<rparr>)"
  have i: "in_demo 0 c3" using c by (simp add: c3_def bump_def set_hs_def sudp_set_state_def tick_def)
  have l': "0 < length ?hello" "length ?hello \<le> 9992" using l by (simp_all add: hello_msg_def)
  obtain c4 where s: "send_msg demo_env demo_sudp SUDP_MSG_HELLO ?hello c3 = (True, c4)" "in_demo (0 + 1) c4"
    using demo_send [OF i _ l'] by auto
  have "connect_send demo_env demo_sudp h c = c4"
    unfolding connect_send_def ep by (simp add: or_fail_def guard_def Let_def s(1) [unfolded c3_def One_nat_def])
  moreover have "hs c4 = Some ?h" "sudp_state c4 = YUMI_SUDP_HANDSHAKING" using send_msg_keeps [OF s(1)] by (simp_all add: c3_def)
  ultimately show ?thesis using s(2) by auto
qed

lemma demo_connect:
  assumes c: "in_demo 0 c" "hs c = Some h" "sudp_state c \<noteq> YUMI_SUDP_ESTABLISHED" "identity c = demo_identity 2"
    and h: "hs_state h = HS_IDLE" "\<not> hs_first_contact h" "length (hs_bp512_pk h) = 129"
  obtains c' h' where "sudp_worker_connect demo_env demo_sudp (replicate 32 4) c = c'" "in_demo 1 c'" "hs c' = Some h'"
    "hs_state h' = HS_HELLO_SENT" "hs_peer_id h' = replicate 32 4" "hs_bp512 h' \<noteq> None" "\<not> hs_first_contact h'" "hs_reasm h' = hs_reasm h"
    "sudp_state c' = YUMI_SUDP_HANDSHAKING"
proof -
  let ?h1 = "h\<lparr>hs_peer_id := replicate 32 4, hs_mlkem_pk := [8], hs_mlkem_sk := [9]\<rparr>"
  define c1 where "c1 = (set_hs (h\<lparr>hs_peer_id := replicate 32 4\<rparr>) (set_hs h (bump 4 c)))\<lparr>peer_id := replicate 32 4, peer_active := True, is_initiator := True\<rparr>"
  define kp where "kp = calls_out (bump 1 c1)"
  let ?h2 = "?h1\<lparr>hs_bp512 := Some kp\<rparr>"
  let ?h3 = "store_pk [of_nat kp] ?h2"
  define c2 where "c2 = set_hs ?h3 (set_hs ?h2 (bump 1 (set_hs ?h1 (bump 1 c1))))"
  have "sudp_worker_connect demo_env demo_sudp (replicate 32 4) c = connect_keys demo_env demo_sudp (h\<lparr>hs_peer_id := replicate 32 4\<rparr>) c1"
    using c h by (simp add: sudp_worker_connect_def Let_def c1_def)
  also have "\<dots> = connect_send demo_env demo_sudp ?h3 c2"
    using h by (simp add: connect_keys_def or_fail_def Let_def store_pk_def kp_def c2_def)
  finally have e: "sudp_worker_connect demo_env demo_sudp (replicate 32 4) c = connect_send demo_env demo_sudp ?h3 c2" .
  have i: "in_demo 0 c2" "identity c2 = demo_identity 2" using c by (simp_all add: c2_def c1_def bump_def set_hs_def)
  have "length (hello_msg demo_env (id_peer_id (identity c2)) 1 ?h3) \<le> 9992"
    unfolding i(2) using h by (simp add: hello_msg_def store_pk_def demo_identity_def mem_bytes_def)
  from demo_connect_send [OF i(1) this] that show ?thesis using h unfolding e by (auto simp: store_pk_def)
qed

lemma demo_confirm:
  assumes "in_demo 1 c"
  shows "sudp_state (response_confirm demo_env demo_sudp p [2] [3] None sig hash h c) = YUMI_SUDP_ESTABLISHED"
proof -
  from demo_derive [OF assms, of "[2]" "[3]"] obtain c4 where d: "sudp_derive_keys demo_env [2] None [3] c = (True, c4)" "in_demo 1 c4" by blast
  let ?c5 = "set_hs (h\<lparr>hs_state := HS_DONE\<rparr>) (bump 1 c4)"
  have "in_demo 1 ?c5" using d(2) by (simp add: bump_def set_hs_def)
  from demo_send [OF this, of "[YUMI_SUDP_PROTOCOL_VERSION, 7]" SUDP_MSG_CONFIRM] obtain c6 where
    s: "send_msg demo_env demo_sudp SUDP_MSG_CONFIRM [YUMI_SUDP_PROTOCOL_VERSION, 7] ?c5 = (True, c6)" by auto
  show ?thesis unfolding response_confirm_def
    by (simp add: or_fail_def guard_def d(1) s [unfolded One_nat_def] establish_def)
qed

lemma demo_respond:
  assumes c: "in_demo 1 c" "hs c = Some h" and h: "hs_state h = HS_HELLO_SENT" "hs_peer_id h = replicate 32 4" "hs_bp512 h \<noteq> None"
    "\<not> hs_first_contact h" "hs_reasm h = frag_create"
  shows "sudp_state (sudp_inner_recv demo_env demo_sudp ([0, 0, 0, 0, 2, 1, 0, 0] @ [1] @ replicate 32 4 @ replicate 6324 0) True c) = YUMI_SUDP_ESTABLISHED"
proof -
  define m :: bytes where "m = [1] @ replicate 32 4 @ replicate 6324 0"
  let ?p = "[0, 0, 0, 0, 2, 1, 0, 0] @ m"
  obtain kp where kp: "hs_bp512 h = Some kp" using h(3) by blast
  have lm: "length m = 6357" "take 32 (drop 1 m) = replicate 32 4" "m ! 0 = 1" by (simp_all add: m_def)
  obtain r where f: "sudp_frag_receive True True 1 1 ?p frag_create = (Some m, r)"
    using lm(1) by (intro that) (simp add: sudp_frag_receive_def frag_store_def frag_create_def joined_def)
  let ?c1 = "set_hs (h\<lparr>hs_reasm := r\<rparr>) (bump 2 c)"
  have e1: "sudp_inner_recv demo_env demo_sudp ?p True c = sudp_process_response demo_env demo_sudp m ?c1"
    using c(2) h(5) f by (simp add: sudp_inner_recv_def recv_handshake_def sudp_process_handshake_msg_def)
  obtain p where p: "gr_peer_get demo_env (replicate 32 4) (registrar ?c1) = (Inr p, tick (registrar ?c1))" "p_status p = GR_PEER_ACTIVE"
    using demo_peer_found [of "registrar ?c1"] c by (auto simp: bump_def set_hs_def)
  let ?c2 = "?c1\<lparr>registrar := tick (registrar ?c1)\<rparr>"
  let ?h = "h\<lparr>hs_reasm := r\<rparr>" and ?h1 = "h\<lparr>hs_reasm := r, hs_transcript := None\<rparr>"
  let ?c3 = "bump 1 (set_hs ?h1 ?c2)"
  have "sudp_process_response demo_env demo_sudp m ?c1 = response_open demo_env demo_sudp m p (h\<lparr>hs_reasm := r\<rparr>) ?c2"
    using h lm p by (simp add: sudp_process_response_def Let_def)
  also have "\<dots> = response_confirm demo_env demo_sudp p [2] [3] None (response_sig ?h m) (response_hash demo_env (calls_out ?c2) ?h m) ?h1 ?c3"
    using h(4) kp by (simp add: response_open_def or_fail_def Let_def)
  finally have e: "sudp_inner_recv demo_env demo_sudp ?p True c = \<dots>" using e1 by simp
  have "in_demo 1 ?c3" using c(1) by (simp add: bump_def set_hs_def tick_def)
  from demo_confirm [OF this] show ?thesis using e by (simp add: m_def)
qed

lemma demo_created:
  obtains c0 h where "demo_secure = Some c0" "in_demo 0 c0" "hs c0 = Some h" "sudp_state c0 = YUMI_SUDP_DISCONNECTED" "identity c0 = demo_identity 2"
    "hs_state h = HS_IDLE" "\<not> hs_first_contact h" "length (hs_bp512_pk h) = 129" "hs_reasm h = frag_create"
proof -
  let ?r = "demo_secure_reg\<lparr>reg_calls := reg_calls demo_secure_reg + 5\<rparr>"
  have r: "reg_db ?r = demo_secure_db" "reg_header ?r = demo_header" by (simp_all add: demo_secure_reg_def demo_reg_def fresh_handle_def)
  obtain ep where ep: "gr_epoch_get_current demo_env ?r = (Inr ep, tick ?r)" using demo_epoch [OF r] by blast
  obtain h :: "nat sudp_hs_ctx_t" where h: "hs_ctx_create demo_env (reg_calls demo_secure_reg + 1) False = Some h" "hs_state h = HS_IDLE" "\<not> hs_first_contact h"
      "length (hs_bp512_pk h) = 129" "hs_reasm h = frag_create"
    by (simp add: hs_ctx_create_def)
  note e = demo_secure_def yumi_sudp_client_create_def Let_def tick_def demo_client_def yumi_udp_client_create_def
  have "demo_secure \<noteq> None" using r h(1) ep by (simp add: e)
  then obtain c0 where c0: "demo_secure = Some c0" by blast
  then have "in_demo 0 c0 \<and> hs c0 = Some h \<and> sudp_state c0 = YUMI_SUDP_DISCONNECTED \<and> identity c0 = demo_identity 2"
    using r h(1) ep by (auto simp: e)
  then show ?thesis using c0 h(2-) by (intro that [of c0 h]) simp_all
qed


lemma encrypts:
  fixes e :: yumi_env and pt :: bytes
  shows "\<not> fst (hs_expired x c) \<Longrightarrow> \<exists>ct c'. sudp_pkt_encrypt e x pt c = (Some ct, c')"
  by (cases "hs_expired x c"; cases "encrypt_select e x pt (snd (hs_expired x c))") (simp add: sudp_pkt_encrypt_def Let_def yumi_aead_encrypt_keyed_def)

text \<open>Two datagrams of a client that nobody has answered.\<close>

theorem nonces_never_repeat_witness:
  "\<exists>c0 ct1 ct2 c. demo_secure = Some c0 \<and> sudp_run demo_env demo_sudp c0 [ct2, ct1] 2 c \<and> take 16 ct1 \<noteq> take 16 ct2"
proof -
  obtain c0 h where c0: "demo_secure = Some c0" "sudp_state c0 = YUMI_SUDP_DISCONNECTED" by (rule demo_created)
  obtain ct1 c1 where e1: "sudp_pkt_encrypt demo_env demo_sudp (replicate 20 0) c0 = (Some ct1, c1)"
    using encrypts [of demo_sudp c0 demo_env "replicate 20 0"] c0(2) by (auto simp: hs_expired_def)
  have "sudp_state c1 = YUMI_SUDP_DISCONNECTED" using encrypt_keeps [OF e1] c0(2) by simp
  then obtain ct2 c2 where e2: "sudp_pkt_encrypt demo_env demo_sudp (replicate 20 0) c1 = (Some ct2, c2)"
    using encrypts [of demo_sudp c1 demo_env "replicate 20 0"] by (auto simp: hs_expired_def)
  have "sudp_run demo_env demo_sudp c0 [ct1] (Suc 0) c1" using sudp_run.encrypted [OF sudp_run.start e1] by simp
  from sudp_run.encrypted [OF this e2] have run: "sudp_run demo_env demo_sudp c0 [ct2, ct1] 2 c2" by (simp add: numeral_2_eq_2)
  have "\<forall>k b. randombytes demo_env k 8 = Some b \<longrightarrow> length b = 8" by (auto simp: demo_env_def)
  from nonces_never_repeat [OF c0(1) [unfolded demo_secure_def] run this] have "distinct (map (take 16) [ct2, ct1])" by simp
  then have "take 16 ct1 \<noteq> take 16 ct2" by auto
  then show ?thesis using c0(1) run by blast
qed

end
