(* ===== verification/Spec2Isabelle.thy ===== *)
theory Spec2Isabelle imports Demo Crypto_Safety Join_Safety Blocklist_Safety Invite_Safety Wire Static_Heap Replication Ring Handle_Table Damage_Tracker Udp_Delivery Sudp_Safety
begin

text \<open>
  A verification development for the Yumi Browser: the group registrar - the replicated, signed
  database of a group's members, roles, web apps, servers, key epochs, invites and audit log - with
  the cryptographic constructions, the wire formats and the synchronisation it rests on, and the
  memory pools, the handle table and the damage tracker of the host process, and the UDP client, which
  gives the application reliable and unreliable channels over datagrams, and the secure client, which
  gives it encrypted sessions with members of its group over those channels.

  \<^bold>\<open>The program and its theories.\<close>  Paths are under \<open>src/src/\<close>; the public types are those of
  \<open>src/include/group_registrar.h\<close>.

  \<^item> \<open>Prelude\<close>: machine integers as words (a signed comparison of the source is written with \<open>sint\<close>),
    byte strings, the formatted texts of audit details.
  \<^item> \<open>Registrar_Types\<close>: the structs as records and the enums as datatypes or as their numbers, with the
    array sizes of each as a predicate \<open>wf_...\<close>.
  \<^item> \<open>Keyed_Tables\<close>, \<open>Registrar_Db\<close>: the tables of \<open>group_registrar/db.c\<close> as lists of rows and one function
    per prepared statement (\<open>ps_...\<close>); the locale \<open>keyed_table\<close> is the contract of a table with a
    primary key and is interpreted for each of them.
  \<^item> \<open>Registrar_State\<close>: the handle (\<open>internal.h\<close>) and the nestable transactions; \<open>yumi_env\<close> is everything the
    registrar calls outside its own code: the engine's answers, clocks, hash, signatures, KEM,
    randomness, allocation.  Calls are numbered, so an answer may differ from call to call and any
    of them may fail at any time.  The locale \<open>txn_body\<close> is what a transaction's body owes.
  \<^item> \<open>Audit_Log\<close> (\<open>audit.c\<close>), \<open>Role\<close> (\<open>role.c\<close>), \<open>Peer\<close> (\<open>peer.c\<close>, \<open>identity.c\<close>), \<open>Epoch_Retention\<close> (\<open>epoch.c\<close>,
    \<open>retention.c\<close>), \<open>Webapp_Server\<close> (\<open>webapp.c\<close>, \<open>server.c\<close>), \<open>Icon\<close>, \<open>Blocklist\<close>, \<open>Join\<close>, \<open>Invite\<close>,
    \<open>Registrar_Crypto\<close> (\<open>crypto.c\<close>), \<open>Lifecycle\<close>: one definition per C function under its name, from
    environment and handle to result and handle, every early return a branch.
  \<^item> \<open>Buf\<close>, \<open>Wire\<close>: the growing write buffer, the bounded reader and the codec of each record
    (\<open>buf.c\<close>, first half of \<open>serialize.c\<close>).
  \<^item> \<open>Sync\<close>: whole registrars and deltas (second half of \<open>serialize.c\<close>).
  \<^item> \<open>Crypto_Aead\<close> (\<open>crypto/crypto.c\<close>): counter mode, encrypt-then-MAC, HKDF and the transport keys over
    the Skein and Threefish primitives.
  \<^item> \<open>Static_Heap\<close> (\<open>memory/static_heap.c\<close>), \<open>Ring\<close> (\<open>network/yumi_udp.c\<close>), \<open>Handle_Table\<close>
    (\<open>src/include/handle_table.h\<close>), \<open>Damage_Tracker\<close> (\<open>damage_tracker.c\<close>).
  \<^item> \<open>Retx_Heap\<close>, \<open>Reliable_Table\<close>, \<open>Reliable_Timers\<close>, \<open>Reliable_Sender\<close> (\<open>network/yumi_udp_client.c\<close>): the
    sender's side of reliable delivery; the locale \<open>timer_queue\<close> is what the table asks of its timers.
  \<^item> \<open>Reorder\<close>, \<open>Reorder_Order\<close>: the receiver's side, one window of early datagrams per channel, and the order
    in which it delivers.  \<open>Udp_Client\<close>: the calls of the application, what the two workers do with one
    item, datagram or timer event, and creation.  \<open>Udp_Delivery\<close>: two clients over a network.
  \<^item> \<open>Sudp_Replay\<close>, \<open>Sudp_Fragments\<close>, \<open>Sudp_Session\<close>, \<open>Sudp_Client\<close> (\<open>network/yumi_sudp_client.c\<close>): the replay
    window, the fragments of handshake messages, the session with its keys and the hooks that encrypt and
    decrypt, the handlers of the handshake and the calls of the application.  \<open>sudp_env\<close> is what this
    layer calls beside \<open>yumi_env\<close>.  \<open>Sudp_Handshake\<close>, \<open>Sudp_Safety\<close>: runs of a client, one step for each
    handler, hook or call, in any order.

  \<^bold>\<open>What is proved.\<close>

  \<^item> The registrar refines an abstract group (\<open>Group_Spec\<close>, \<open>Governance\<close>, C1): members, roles, apps, servers,
    epochs, invites and icon as maps, and a step relation with the permission each change needs.
    \<open>Group_Life\<close> and \<open>Group_Safety\<close> give the invariant of all reachable states, what is final and what is
    refused (C2 to C5); \<open>Liveness\<close> that the operations succeed when the environment answers (C12).
  \<^item> \<open>Crypto_Safety\<close>: encryption and signatures round trip across all later states (C6, C13 to C18).
  \<^item> \<open>Invite_Safety\<close>, \<open>Join_Safety\<close>, \<open>Blocklist_Safety\<close>: tickets round trip and redeem once (C7, C8); a join
    is verified by distinct members only (C9, C10, C19); blocks start and end on time (C20).
  \<^item> \<open>Sync_Merge\<close>, \<open>Sync_Safety\<close>, \<open>Sync_Wire\<close>, \<open>Sync_Trip\<close>, \<open>Lww_Tables\<close>, \<open>Replication\<close>: errors leave no trace,
    what a delta adds was signed, rows merge last writer wins and replicas agree, whole registrars
    are installed as sent, and where the receiver trusts the sender (C25 to C30).  The locale
    \<open>lww_table\<close> is the contract of a merged table; \<open>row_wire\<close> that of a table on the wire.
  \<^item> The pools, the ring, the handles and the tracker: each node and each item in one place in every
    interleaving, handles stay valid, no damage is lost (C22 to C24, C31 to C34).
  \<^item> The UDP client: the timers are a heap, and a tick leaves no unacknowledged datagram overdue (C35).
    Over a network that loses, repeats, delays and reorders at will, what a client sends on a channel
    arrives in order, untouched and without repetition, on a reliable channel without gaps (C36).
  \<^item> The secure UDP client: whatever the network sends and the application does, it is established only
    with a peer whose signature of the handshake it has checked (C37); no nonce is used twice (C38);
    replays that come soon are refused, while the lemma \<open>older_replays_are_accepted\<close> shows that those of
    the rest of the window are not (C39); handshake messages are put together from their datagrams (C40).
  \<^item> \<open>Demo\<close> holds the concrete group at which the witnesses evaluate.

  \<^bold>\<open>Hypotheses about the environment.\<close>  \<open>reliable\<close>: the engine does not fail on \<open>BEGIN\<close>, \<open>ROLLBACK\<close> and the
  texts run directly; prepared statements and \<open>COMMIT\<close> may fail.  \<open>world\<close>: also \<open>COMMIT\<close> works, with one
  hash and byte order.  \<open>smooth\<close>: every engine call, hash and signature answers.  \<open>resourceful\<close>:
  allocation answers.  \<open>calm\<close>: all of these.  \<open>answers\<close>: the statements answer.  The cryptographic
  laws used (a signature that was made verifies, decapsulation inverts encapsulation, output lengths)
  are the documented ones of the vendored libraries and are stated in each theorem.  \<open>memory_ok\<close>:
  allocation answers for the table and the timers; \<open>clock_runs\<close>: the monotonic clock does not go back and
  stays below \<open>2 ^ 63\<close> microseconds; \<open>hooks_ok\<close>: the hook that decrypts undoes the one that encrypts, within
  the overhead the application has declared.

  \<^bold>\<open>Bounds.\<close>  The doubling loop of the buffer has fuel 65: \<open>grow_cap_fuel_exact\<close> shows that a request not
  met by then is never met.  The doubling loop of the tracker terminates on its own measure.  Runs of
  the ring are shorter than \<open>2 ^ 64\<close> accesses.  Wire theorems are for blobs below \<open>2 ^ 31\<close> bytes, deltas
  for those below the code's own cap.  C36 is for channels that have carried at most \<open>2 ^ 31\<close> messages:
  their numbers are compared as signed differences of 32 bits.  Atomic accesses are taken in a sequentially consistent order.

  \<^bold>\<open>Not modelled.\<close>  The refinement and the reachable states of C1 to C5 cover the governing operations,
  background activity and reopening; synchronisation is described by its own theorems, because C29
  shows that it is not bound by the group's rules.  Locking is left out, since every registrar
  operation holds the handle's mutex.  Host callbacks other than those that decide something
  (dissent, oversized deltas) are left out; they change no state of the registrar.
  \<open>group_registrar/behavior.c\<close> and \<open>network/bbr.c\<close> compute scores and rates in floating point, which the
  library has no model of.  Of the UDP client the refill of the pacing
  credit is in floating point too, so it is any credit; its statistics, threads and calls into the
  sockets and the ICE library are left out, its rings are the bounded queues that C31 shows them to be,
  and one sending and one receiving worker are modelled, as it has by default.  Of the secure client the
  state callback, the wiping of memory, destruction and the ICE passthrough are left out; its handlers run
  under a mutex and are one step each, and so is each hook.  The dashboard, the web app
  runtime, the graphics and media layers and the guest bindings are calls into libraries.  The Skein,
  SHA-3, ML-DSA and ML-KEM implementations are vendored code.
\<close>

section \<open>The registrar and the abstract group\<close>

text \<open>
  C1. Refinement.  On any registrar that satisfies the invariant, an operation that succeeds was
  called with a signer and is a permitted step of the abstract group, performed by that signer; an
  operation that fails leaves tables and abstract group as they were.  The engine may fail
  statements at any point.
\<close>

theorem registrar_refines_group:
  assumes "world sk le e" and "registrar_ok sk le reg" and "run_gov e op signer reg = (err, r)"
  shows "(err = GR_OK \<longrightarrow> (\<exists>s. signer = Some s \<and> group_step op (id_peer_id s) (group_of reg) (group_of r)))
    \<and> (err \<noteq> GR_OK \<longrightarrow> reg_db r = reg_db reg \<and> group_of r = group_of reg)"
  using gov_registrar_ok [OF assms] by blast

theorem registrar_refines_group_witness:
  "\<exists>r s. run_gov demo_env (PeerKick (Some [3]) None) (Some (demo_identity 2)) demo_reg = (GR_OK, r)
     \<and> s = demo_identity 2
     \<and> group_step (PeerKick (Some [3]) None) (id_peer_id s) (group_of demo_reg) (group_of r)"
proof -
  obtain r where r: "run_gov demo_env (PeerKick (Some [3]) None) (Some (demo_identity 2)) demo_reg = (GR_OK, r)"
    using demo_kick by (cases "run_gov demo_env (PeerKick (Some [3]) None) (Some (demo_identity 2)) demo_reg") auto
  from registrar_refines_group [OF demo_world demo_registrar_ok r] r show ?thesis by auto
qed

text \<open>
  C2. Invariant.  In every reachable state - created, then any sequence of group operations
  (successful or not), background activity, and closing and opening - the handle is idle, primary
  keys are unique, the stored header is the one in memory, the owner is an active member, the
  current epoch is stored and unexpired, there are at most 50 roles, and every stored audit entry
  carries the hash of its content.
\<close>

theorem reachable_invariant:
  assumes "reachable sk le reg"
  shows "registrar_ok sk le reg"
  by (rule reachable_registrar_ok [OF assms])

theorem reachable_invariant_witness:
  "\<exists>reg. gr_create demo_env empty_db (Some [97]) 0 (Some (demo_identity 1)) = (Inr reg, reg_db reg)
     \<and> registrar_ok (skein demo_env) True reg"
proof -
  from demo_create obtain reg where
    reg: "gr_create demo_env empty_db (Some [97]) 0 (Some (demo_identity 1)) = (Inr reg, reg_db reg)" by blast
  from reachable_invariant [OF reachable.created [OF demo_world reg]] reg show ?thesis by blast
qed


text \<open>
  C3. Safety.  Whatever happens after a reachable state, a banned member stays banned, a member who
  left stays out (left or banned), a used invite stays used, an invalidated one invalidated, and the
  owner is the same.
\<close>

theorem exclusions_are_final:
  assumes "reachable sk le reg" and "(next_state sk le)\<^sup>*\<^sup>* reg r"
  shows "(\<forall>m. banned (group_of reg) m \<longrightarrow> banned (group_of r) m)
    \<and> (\<forall>m. departed (group_of reg) m \<longrightarrow> departed (group_of r) m)
    \<and> (\<forall>tok. spent (group_of reg) tok \<longrightarrow> spent (group_of r) tok)
    \<and> (\<forall>tok. revoked (group_of reg) tok \<longrightarrow> revoked (group_of r) tok)
    \<and> g_owner (group_of r) = g_owner (group_of reg)"
  using later_no_return [OF assms(2) reachable_registrar_ok [OF assms(1)]] by (simp add: no_return_def)

theorem exclusions_are_final_witness:
  "\<exists>reg r. gr_create demo_env empty_db (Some [97]) 0 (Some (demo_identity 1)) = (Inr reg, reg_db reg)
     \<and> r = snd (run_gov demo_env (InviteCreate 0) (Some (demo_identity 1)) reg)
     \<and> g_owner (group_of r) = g_owner (group_of reg)
     \<and> (\<forall>m. banned (group_of reg) m \<longrightarrow> banned (group_of r) m)"
proof -
  from demo_create obtain reg where
    reg: "gr_create demo_env empty_db (Some [97]) 0 (Some (demo_identity 1)) = (Inr reg, reg_db reg)" by blast
  define r where "r = snd (run_gov demo_env (InviteCreate 0) (Some (demo_identity 1)) reg)"
  then have "run_gov demo_env (InviteCreate 0) (Some (demo_identity 1)) reg
      = (fst (run_gov demo_env (InviteCreate 0) (Some (demo_identity 1)) reg), r)" by (simp add: prod_eq_iff)
  from next_state.operate [OF demo_world this]
  have "(next_state (skein demo_env) True)\<^sup>*\<^sup>* reg r" by (rule r_into_rtranclp)
  from exclusions_are_final [OF reachable.created [OF demo_world reg] this] reg r_def show ?thesis by blast
qed







text \<open>
  C11. Functional.  On a reachable state the chain verification, when it returns counts, counts every
  entry exactly once and finds no entry whose hash does not match its content.
\<close>

theorem audit_chain_verifies:
  assumes "reachable sk le reg" and "skein e = sk" and "host_le e = le"
    and "gr_audit_verify_chain e reg = (Inr res, r)" and "length (db_audit (reg_db reg)) < 2 ^ 32"
  shows "invalid_hash res = 0 \<and> total_entries res = of_nat (length (db_audit (reg_db reg)))
    \<and> verified_entries res + invalid_signature res + unknown_actor res = total_entries res"
proof -
  from reachable_registrar_ok [OF assms(1)] have "audit_sound sk le (db_audit (reg_db reg))"
    by (simp add: registrar_ok_def)
  note ok = verify_chain_counts [OF assms(4,5)] and none = sound_no_bad_hash [OF this assms(2,3)]
  have bad: "invalid_hash res = 0" using ok none by simp
  moreover have "verified_entries res + invalid_signature res + unknown_actor res = total_entries res"
    using ok [THEN conjunct2, THEN conjunct1, unfolded tally_def bad] by simp
  ultimately show ?thesis using ok by blast
qed

theorem audit_chain_verifies_witness:
  "\<exists>reg res r. gr_create demo_env empty_db (Some [97]) 0 (Some (demo_identity 1)) = (Inr reg, reg_db reg)
     \<and> gr_audit_verify_chain demo_env reg = (Inr res, r) \<and> invalid_hash res = 0 \<and> total_entries res = 1"
proof -
  from demo_create_chain obtain reg res r where
    x: "gr_create demo_env empty_db (Some [97]) 0 (Some (demo_identity 1)) = (Inr reg, reg_db reg)"
       "gr_audit_verify_chain demo_env reg = (Inr res, r)" "length (db_audit (reg_db reg)) = 1" by blast
  have le: "host_le demo_env = True" by (simp add: demo_env_def)
  from audit_chain_verifies [OF reachable.created [OF demo_world x(1)] refl le x(2)] x show ?thesis by auto
qed


end
